(* ===== verification/Prelude.thy ===== *)
theory Prelude
  imports Main "HOL-Library.Word"
begin

text \<open>
  Shared vocabulary of the development.

  \<^item> \<open>cpp_error\<close> is how a C++ operation of the program can fail to return normally; an
    operation that can fail returns \<open>cpp_error + 'a\<close>, and \<open>res_bind\<close> chains such operations.
  \<^item> \<open>string\<close> (a list of \<open>char\<close>, that is of bytes) models both \<open>std::string\<close> and raw file
    contents; \<open>le_encode\<close> and \<open>le_decode\<close> are the little-endian memory image of an unsigned
    integer, the form in which the program writes its integers with \<open>reinterpret_cast\<close>.
  \<^item> \<open>str_find\<close> is \<open>std::string::find(char)\<close> (\<open>None\<close> is \<open>npos\<close>), \<open>pwrite\<close> and \<open>pread\<close> are
    a seek followed by a write or a read on a binary \<open>std::fstream\<close>.
\<close>

named_theorems codec_simps \<open>equations that evaluate and invert the byte codecs\<close>
named_theorems state_simps \<open>how the operations of a component change its fields\<close>

section \<open>Errors as values\<close>

datatype cpp_error =
    Logic_error string
  | Runtime_error string
  | Out_of_range string
  | Assert_failed
  | Null_deref
  | Deadlock
  | No_return
  | Stream_failed
  | Exit_failure

type_synonym 'a result = "cpp_error + 'a"

definition res_bind :: "'a result \<Rightarrow> ('a \<Rightarrow> 'b result) \<Rightarrow> 'b result" where
  "res_bind m f = (case m of Inl e \<Rightarrow> Inl e | Inr x \<Rightarrow> f x)"

lemma res_bind_simps [simp]:
  "res_bind (Inl e) f = Inl e"
  "res_bind (Inr x) f = f x"
  by (simp_all add: res_bind_def)

lemma res_bind_eq_Inr: "res_bind m f = Inr y \<longleftrightarrow> (\<exists>x. m = Inr x \<and> f x = Inr y)"
  by (cases m) auto

lemma res_bind_assoc: "res_bind (res_bind m f) g = res_bind m (\<lambda>x. res_bind (f x) g)"
  by (cases m) auto

text \<open>\<open>yields m Q\<close>: the operation returns normally, with a result for which \<open>Q\<close> holds.\<close>

definition yields :: "'a result \<Rightarrow> ('a \<Rightarrow> bool) \<Rightarrow> bool" where
  "yields m Q \<longleftrightarrow> (\<exists>x. m = Inr x \<and> Q x)"

lemma yields_simps [simp]: "yields (Inr x) Q = Q x" "\<not> yields (Inl e) Q"
  by (simp_all add: yields_def)

lemma yieldsI: "m = Inr x \<Longrightarrow> Q x \<Longrightarrow> yields m Q"
  by (simp add: yields_def)

lemma yieldsE: "yields m Q \<Longrightarrow> (\<And>x. m = Inr x \<Longrightarrow> Q x \<Longrightarrow> R) \<Longrightarrow> R"
  by (auto simp: yields_def)

lemma yields_bind: "yields m R \<Longrightarrow> (\<And>x. R x \<Longrightarrow> yields (f x) Q) \<Longrightarrow> yields (res_bind m f) Q"
  by (auto simp: yields_def)

lemma yields_mono: "yields m R \<Longrightarrow> (\<And>x. R x \<Longrightarrow> Q x) \<Longrightarrow> yields m Q"
  by (auto simp: yields_def)

lemma yields_conj: "yields m R \<Longrightarrow> (\<And>x. m = Inr x \<Longrightarrow> Q x) \<Longrightarrow> yields m (\<lambda>x. R x \<and> Q x)"
  by (auto simp: yields_def)

section \<open>Bytes and little-endian integers\<close>

abbreviation NUL :: char where
  "NUL \<equiv> CHR 0x00"

abbreviation byte_val :: "char \<Rightarrow> nat" where
  "byte_val \<equiv> of_char"

fun le_encode :: "nat \<Rightarrow> nat \<Rightarrow> string" where
  "le_encode 0 x = []"
| "le_encode (Suc n) x = char_of (x mod 256) # le_encode n (x div 256)"

fun le_decode :: "string \<Rightarrow> nat" where
  "le_decode [] = 0"
| "le_decode (c # cs) = byte_val c + 256 * le_decode cs"

lemma length_le_encode [simp, codec_simps]: "length (le_encode n x) = n"
  by (induction n arbitrary: x) auto

lemma le_encode_eq_Nil [simp]: "le_encode n x = [] \<longleftrightarrow> n = 0"
  by (cases n) auto

lemma le_decode_encode_mod: "le_decode (le_encode n x) = x mod 256 ^ n"
proof (induction n arbitrary: x)
  case 0
  then show ?case by simp
next
  case (Suc n)
  have "x mod 256 + 256 * (x div 256 mod 256 ^ n) = x mod (256 * 256 ^ n)"
    by (simp add: mod_mult2_eq)
  then show ?case using Suc by (simp add: of_char_of)
qed

lemma le_decode_encode [simp, codec_simps]: "x < 256 ^ n \<Longrightarrow> le_decode (le_encode n x) = x"
  by (simp add: le_decode_encode_mod)

lemma le_decode_less: "le_decode cs < 256 ^ length cs"
proof (induction cs)
  case Nil
  then show ?case by simp
next
  case (Cons c cs)
  have "byte_val c < (256::nat)" using nat_of_char_less_256 by simp
  moreover from Cons have "256 * le_decode cs + 256 \<le> 256 * 256 ^ length cs" by simp
  ultimately have "byte_val c + 256 * le_decode cs < 256 * 256 ^ length cs" by linarith
  then show ?case by simp
qed

lemma le_encode_decode [codec_simps]: "length cs = n \<Longrightarrow> le_encode n (le_decode cs) = cs"
proof (induction cs arbitrary: n)
  case Nil
  then show ?case by simp
next
  case (Cons c cs)
  have lt: "byte_val c < (256::nat)" using nat_of_char_less_256 by simp
  from Cons lt show ?case by (auto simp: div_mult_self4 simp flip: Cons.prems)
qed

text \<open>The memory image of a \<open>w\<close>-bit integer of \<open>n\<close> bytes, signed or not.\<close>

definition put_word :: "nat \<Rightarrow> 'w::len word \<Rightarrow> string" where
  "put_word n w = le_encode n (unat w)"

definition get_word :: "string \<Rightarrow> 'w::len word" where
  "get_word cs = of_nat (le_decode cs)"

lemma length_put_word [simp, codec_simps]: "length (put_word n w) = n"
  by (simp add: put_word_def)

lemma get_put_word:
  fixes w :: "'w::len word"
  assumes "LENGTH('w) \<le> 8 * n"
  shows "get_word (put_word n w) = w"
proof -
  have "(2::nat) ^ LENGTH('w) \<le> 2 ^ (8 * n)" using assms by (simp add: power_increasing)
  also have "\<dots> = 256 ^ n" by (simp add: power_mult)
  finally have "unat w < 256 ^ n" by (meson less_le_trans unsigned_less)
  then show ?thesis by (simp add: put_word_def get_word_def)
qed

lemma get_put_word64 [simp, codec_simps]: "get_word (put_word 8 w) = (w :: 64 word)"
  by (rule get_put_word) simp

lemma get_put_word32 [simp, codec_simps]: "get_word (put_word 4 w) = (w :: 32 word)"
  by (rule get_put_word) simp

lemma get_put_word16 [simp, codec_simps]: "get_word (put_word 2 w) = (w :: 16 word)"
  by (rule get_put_word) simp

lemma put_get_word:
  assumes "length cs = n" "8 * n \<le> LENGTH('w::len)"
  shows "put_word n (get_word cs :: 'w word) = cs"
proof -
  have "le_decode cs < 256 ^ n" using le_decode_less [of cs] assms(1) by simp
  also have "(256::nat) ^ n = 2 ^ (8 * n)" by (simp add: power_mult)
  also have "\<dots> \<le> 2 ^ LENGTH('w)" using assms(2) by (simp add: power_increasing)
  finally have "unat (of_nat (le_decode cs) :: 'w word) = le_decode cs"
    by (simp add: unat_of_nat take_bit_eq_mod)
  then show ?thesis using assms(1) by (simp add: put_word_def get_word_def le_encode_decode)
qed

section \<open>Strings\<close>

fun str_find :: "char \<Rightarrow> string \<Rightarrow> nat option" where
  "str_find c [] = None"
| "str_find c (x # xs) = (if x = c then Some 0 else map_option Suc (str_find c xs))"

lemma str_find_None [simp]: "str_find c s = None \<longleftrightarrow> c \<notin> set s"
  by (induction s) auto

lemma str_find_append: "c \<notin> set s \<Longrightarrow> str_find c (s @ c # t) = Some (length s)"
  by (induction s) auto

lemma str_find_SomeD:
  "str_find c s = Some i \<Longrightarrow> i < length s \<and> s ! i = c \<and> c \<notin> set (take i s)"
  by (induction s arbitrary: i) (auto split: if_splits)

section \<open>Seek and transfer on a binary file\<close>

text \<open>
  A write past the end of a file leaves a gap of zero bytes. A read that does not find all its
  bytes sets the stream's fail bit; no caller of the program looks at the bit, every later
  operation on the stream does nothing, and what follows uses unset variables, so the model
  stops there (\<open>Stream_failed\<close>), as it does when a seek to a negative position sets the bit.
\<close>

definition pwrite :: "nat \<Rightarrow> string \<Rightarrow> string \<Rightarrow> string" where
  "pwrite off bs f =
     (if bs = [] then f
      else take off f @ replicate (off - length f) NUL @ bs @ drop (off + length bs) f)"

definition pread :: "nat \<Rightarrow> nat \<Rightarrow> string \<Rightarrow> string result" where
  "pread off n f = (if off + n \<le> length f then Inr (take n (drop off f)) else Inl Stream_failed)"

lemma pwrite_Nil [simp]: "pwrite off [] f = f"
  by (simp add: pwrite_def)

lemma pwrite_inside: "off \<le> length f \<Longrightarrow> pwrite off bs f = take off f @ bs @ drop (off + length bs) f"
  by (simp add: pwrite_def)

lemma length_pwrite:
  "length (pwrite off bs f) = (if bs = [] then length f else max (length f) (off + length bs))"
  by (auto simp add: pwrite_def max_def min_def)

lemma pread_pwrite_same [simp, codec_simps]:
  "n = length bs \<Longrightarrow> bs \<noteq> [] \<or> off \<le> length f \<Longrightarrow> pread off n (pwrite off bs f) = Inr bs"
  by (auto simp: pread_def pwrite_def)

lemma nth_pwrite:
  "i < length (pwrite off bs f) \<Longrightarrow> pwrite off bs f ! i =
     (if off \<le> i \<and> i < off + length bs then bs ! (i - off)
      else if i < length f then f ! i else NUL)"
  by (auto simp: pwrite_def nth_append min_def split: if_splits)

lemma pread_pwrite_disjoint:
  assumes "r + n \<le> off \<or> off + length bs \<le> r" "r + n \<le> length f"
  shows "pread r n (pwrite off bs f) = pread r n f"
proof -
  have "take n (drop r (pwrite off bs f)) = take n (drop r f)"
    by (rule nth_equalityI) (use assms in \<open>auto simp: nth_pwrite length_pwrite\<close>)
  with assms show ?thesis by (auto simp add: pread_def length_pwrite)
qed

lemma pread_pwrite_sub:
  assumes "off \<le> r" "r + n \<le> off + length bs" "0 < n"
  shows "pread r n (pwrite off bs f) = Inr (take n (drop (r - off) bs))"
proof -
  have ne: "bs \<noteq> []" using assms by auto
  have "take n (drop r (pwrite off bs f)) = take n (drop (r - off) bs)"
    by (rule nth_equalityI) (use assms ne in \<open>auto simp: nth_pwrite length_pwrite\<close>)
  with assms ne show ?thesis by (simp add: pread_def length_pwrite)
qed

lemma pwrite_append:
  "m = off + length bs \<Longrightarrow> pwrite m cs (pwrite off bs f) = pwrite off (bs @ cs) f"
  by (cases "length f \<le> off") (auto simp add: pwrite_def ac_simps)

lemma pread_length: "pread off n f = Inr bs \<Longrightarrow> length bs = n"
  by (auto simp: pread_def split: if_splits)

lemma pread_split:
  assumes "pread off n f = Inr (xs @ ys)" "length xs = i"
  shows "pread off i f = Inr xs" "pread (off + i) (n - i) f = Inr ys"
proof -
  have le: "off + n \<le> length f" and t: "take n (drop off f) = xs @ ys"
    using assms(1) by (auto simp: pread_def split: if_splits)
  have n: "n = i + length ys" using arg_cong [OF t, of length] le assms(2) by simp
  have "xs = take i (drop off f)" "ys = take (n - i) (drop i (drop off f))"
    using arg_cong [OF t, of "take i"] arg_cong [OF t, of "drop i"] assms(2) n
    by (simp_all add: min_def drop_take)
  then show "pread off i f = Inr xs" "pread (off + i) (n - i) f = Inr ys"
    using le n by (simp_all add: pread_def add.commute)
qed

lemma pread_append: "pread (length pre) n (pre @ bs) = pread 0 n bs"
  by (simp add: pread_def)

section \<open>Decimal numbers\<close>

fun dec_nat :: "nat \<Rightarrow> string" where
  "dec_nat n = (if n < 10 then [char_of (48 + n)] else dec_nat (n div 10) @ [char_of (48 + n mod 10)])"

declare dec_nat.simps [simp del]

text \<open>\<open>std::to_string\<close> of a signed number.\<close>

definition dec_int :: "int \<Rightarrow> string" where
  "dec_int i = (if i < 0 then CHR ''-'' # dec_nat (nat (- i)) else dec_nat (nat i))"

fun dec_val :: "nat \<Rightarrow> string \<Rightarrow> nat" where
  "dec_val acc [] = acc"
| "dec_val acc (c # cs) = dec_val (10 * acc + (of_char c - 48)) cs"

lemma dec_val_append: "dec_val acc (xs @ ys) = dec_val (dec_val acc xs) ys"
  by (induction xs arbitrary: acc) auto

lemma dec_val_dec_nat: "dec_val 0 (dec_nat n) = n"
proof (induction n rule: dec_nat.induct)
  case (1 n)
  have d: "of_char (char_of (48 + m) :: char) - 48 = (m :: nat)" if "m < 10" for m
    using that by (simp add: of_char_of)
  show ?case
  proof (cases "n < 10")
    case True
    then show ?thesis by (subst dec_nat.simps) (simp add: d)
  next
    case False
    then show ?thesis using 1 by (subst dec_nat.simps) (simp add: dec_val_append d)
  qed
qed

lemma dec_nat_inject: "dec_nat m = dec_nat n \<longleftrightarrow> m = n"
  by (metis dec_val_dec_nat)

end
