(* ===== verification/Tsm_Codec.thy ===== *)
theory Tsm_Codec
  imports Prelude
begin

text \<open>
  The data blocks of the TSM engine and their byte codec: \<open>src/engine/tsm/tsm_ingredient.h\<close>,
  \<open>tsm_ingredient.cpp\<close> and the static functions of \<open>src/engine/tsm/tsm.cpp\<close>.

  A time point is the 64-bit count of nanoseconds since the epoch; differences of time points are
  64-bit counts too and wrap around. The length of a string is written as a 32-bit \<open>int\<close> and read
  back sign-extended to \<open>size_t\<close>, whose sums wrap at \<open>2 ^ 64\<close> (\<open>size_add\<close>). The loop of
  \<open>deserialize_strings\<close> need not end, so it is a partial function whose value is \<open>None\<close> then.
  Snappy is not part of the sources: a record of two functions stands for it, and \<open>snappy_ok\<close>
  is what its documentation promises of them.
\<close>

section \<open>Data\<close>

type_synonym time_point = "64 word"
type_synonym nanoseconds = "64 word"

text \<open>\<open>DataBlock::Type\<close>; a value read from a file need not be one of the enumerators.\<close>

datatype data_type = DATA_INTEGER | DATA_STRING | DATA_FLOAT | Unnamed_type "32 word"

definition type_code :: "data_type \<Rightarrow> 32 word" where
  "type_code t = (case t of DATA_INTEGER \<Rightarrow> 0 | DATA_STRING \<Rightarrow> 1 | DATA_FLOAT \<Rightarrow> 2 | Unnamed_type w \<Rightarrow> w)"

definition type_of_code :: "32 word \<Rightarrow> data_type" where
  "type_of_code w = (if w = 0 then DATA_INTEGER else if w = 1 then DATA_STRING
     else if w = 2 then DATA_FLOAT else Unnamed_type w)"

definition named_type :: "data_type \<Rightarrow> bool" where
  "named_type t \<longleftrightarrow> t \<in> {DATA_INTEGER, DATA_STRING, DATA_FLOAT}"

record tsm_header =
  hd_magic :: "32 word"
  hd_version :: "8 word"

record tsm_footer =
  ft_offset :: "64 word"

record data_block =
  db_size :: "32 word"
  db_field_name :: string
  db_series_key_and_field_name :: string
  db_max_timestamp :: time_point
  db_min_timestamp :: time_point
  db_shard_id :: string
  db_type :: data_type
  db_num :: "32 word"
  db_tp_snappy_size :: "32 word"
  db_val_snappy_size :: "32 word"
  db_timestamps :: "time_point list"
  db_values :: "string list"

record index_entry =
  ie_max_time :: time_point
  ie_min_time :: time_point
  ie_offset :: "64 word"
  ie_size :: "32 word"

record index_block_meta =
  im_key_size :: "16 word"
  im_key :: string
  im_type :: data_type
  im_count :: "16 word"

text \<open>\<open>DataBlock::write\<close>: append one point, and report whether it was taken.\<close>

definition data_block_write :: "time_point \<Rightarrow> string \<Rightarrow> data_block \<Rightarrow> bool \<times> data_block" where
  "data_block_write timestamp value b =
     (if timestamp = 0 then (False, b)
      else (True,
        b\<lparr>db_timestamps := db_timestamps b @ [timestamp],
          db_values := db_values b @ [value],
          db_size := (if db_type b = DATA_STRING then db_size b + of_nat (8 + length value) else db_size b + 12),
          db_num := db_num b + 1\<rparr>))"

section \<open>Timestamps\<close>

fun differences_loop :: "time_point \<Rightarrow> time_point list \<Rightarrow> nanoseconds list \<Rightarrow> nanoseconds list" where
  "differences_loop previous [] differences = differences"
| "differences_loop previous (t # ts) differences = differences_loop t ts (differences @ [t - previous])"

definition calculate_differences :: "time_point list \<Rightarrow> nanoseconds list" where
  "calculate_differences timestamps =
     (case timestamps of [] \<Rightarrow> [] | epoch # ts \<Rightarrow> differences_loop epoch ts [epoch])"

fun restore_loop :: "time_point \<Rightarrow> nanoseconds list \<Rightarrow> time_point list \<Rightarrow> time_point list" where
  "restore_loop previous [] timestamps = timestamps"
| "restore_loop previous (d # ds) timestamps = restore_loop (previous + d) ds (timestamps @ [previous + d])"

definition restore_timestamps :: "nanoseconds list \<Rightarrow> time_point list" where
  "restore_timestamps differences =
     (case differences of [] \<Rightarrow> [] | epoch # ds \<Rightarrow> restore_loop epoch ds [epoch])"

definition restore_timestamps_vector :: "nanoseconds list \<Rightarrow> time_point list" where
  "restore_timestamps_vector differences =
     (case differences of [] \<Rightarrow> [] | epoch # ds \<Rightarrow> restore_loop epoch ds [epoch])"

definition serialize_differences :: "nanoseconds list \<Rightarrow> string" where
  "serialize_differences differences =
     fold (\<lambda>diff serialized. serialized @ put_word 8 diff) differences []"

definition corrupted :: cpp_error where
  "corrupted = Runtime_error ''Serialized data is corrupted or incomplete.''"

function deserialize_differences_loop :: "string \<Rightarrow> nat \<Rightarrow> nanoseconds list \<Rightarrow> nanoseconds list result" where
  "deserialize_differences_loop s i differences =
     (if i < length s then
        if i + 8 \<le> length s
        then deserialize_differences_loop s (i + 8) (differences @ [get_word (take 8 (drop i s))])
        else Inl corrupted
      else Inr differences)"
  by pat_completeness auto
termination by (relation "measure (\<lambda>(s, i, _). length s - i)") auto

declare deserialize_differences_loop.simps [simp del]

definition deserialize_differences :: "string \<Rightarrow> nanoseconds list result" where
  "deserialize_differences s = deserialize_differences_loop s 0 []"

section \<open>Values\<close>

definition serialize_strings :: "string list \<Rightarrow> string" where
  "serialize_strings strings =
     fold (\<lambda>str serialized. serialized @ put_word 4 (of_nat (length str) :: 32 word) @ str) strings []"

definition size_add :: "nat \<Rightarrow> nat \<Rightarrow> nat" where
  "size_add a b = (a + b) mod 2 ^ 64"

text \<open>An \<open>int\<close> that is added to a \<open>size_t\<close> or passed as one.\<close>

definition int_to_size :: "32 word \<Rightarrow> nat" where
  "int_to_size w = unat (scast w :: 64 word)"

partial_function (option) deserialize_strings_loop ::
    "string \<Rightarrow> nat \<Rightarrow> string list \<Rightarrow> string list result option" where
  "deserialize_strings_loop s i strings =
     (if i < length s then
        if length s < size_add i 4 then Some (Inl corrupted)
        else
          (let len = get_word (take 4 (drop i s)) :: 32 word;
               i1 = size_add i 4;
               i2 = size_add i1 (int_to_size len) in
           if length s < i2 then Some (Inl corrupted)
           else deserialize_strings_loop s i2 (strings @ [take (int_to_size len) (drop i1 s)]))
      else Some (Inr strings))"

definition deserialize_strings :: "string \<Rightarrow> string list result option" where
  "deserialize_strings s = deserialize_strings_loop s 0 []"

definition deserialize_strings_vector :: "string \<Rightarrow> string list result option" where
  "deserialize_strings_vector s = deserialize_strings_loop s 0 []"

section \<open>Compression\<close>

record snappy =
  sn_compress :: "string \<Rightarrow> string"
  sn_uncompress :: "string \<Rightarrow> bool \<times> string"

definition snappy_ok :: "snappy \<Rightarrow> bool" where
  "snappy_ok sn \<longleftrightarrow> (\<forall>s. sn_uncompress sn (sn_compress sn s) = (True, s))"

definition compress_data :: "snappy \<Rightarrow> string \<Rightarrow> string" where
  "compress_data sn serialized_data = sn_compress sn serialized_data"

text \<open>A failure is only reported on the error stream; the output string is returned all the same.\<close>

definition decompress_data :: "snappy \<Rightarrow> string \<Rightarrow> string" where
  "decompress_data sn compressed_data = snd (sn_uncompress sn compressed_data)"

definition calculate_timestamp_size :: "snappy \<Rightarrow> time_point list \<Rightarrow> string" where
  "calculate_timestamp_size sn timestamps =
     compress_data sn (serialize_differences (calculate_differences timestamps))"

definition calculate_val_size :: "snappy \<Rightarrow> string list \<Rightarrow> string" where
  "calculate_val_size sn vals = compress_data sn (serialize_strings vals)"

text \<open>The two decoding pipelines of \<open>read_data_from_file\<close> and of the iterators.\<close>

definition decode_timestamps :: "snappy \<Rightarrow> string \<Rightarrow> time_point list result" where
  "decode_timestamps sn bytes =
     res_bind (deserialize_differences (decompress_data sn bytes)) (\<lambda>ds. Inr (restore_timestamps ds))"

definition decode_values :: "snappy \<Rightarrow> string \<Rightarrow> string list result option" where
  "decode_values sn bytes = deserialize_strings (decompress_data sn bytes)"

section \<open>The codec is invertible\<close>

lemma type_of_code_code [simp, codec_simps]: "named_type t \<Longrightarrow> type_of_code (type_code t) = t"
  by (auto simp: named_type_def type_code_def type_of_code_def)

lemma type_code_of_code [simp, codec_simps]: "type_code (type_of_code w) = w"
  by (simp add: type_code_def type_of_code_def)

lemma differences_loop_acc: "differences_loop p ts acc = acc @ differences_loop p ts []"
proof (induction ts arbitrary: p acc)
  case (Cons t ts)
  show ?case using Cons [of t "acc @ [t - p]"] Cons [of t "[t - p]"] by simp
qed simp

lemma restore_loop_acc: "restore_loop p ds acc = acc @ restore_loop p ds []"
proof (induction ds arbitrary: p acc)
  case (Cons d ds)
  show ?case using Cons [of "p + d" "acc @ [p + d]"] Cons [of "p + d" "[p + d]"] by simp
qed simp

lemma restore_differences_loop: "restore_loop p (differences_loop p ts []) [] = ts"
proof (induction ts arbitrary: p)
  case (Cons t ts)
  then show ?case
    by (simp add: differences_loop_acc [of _ _ "[_]"] restore_loop_acc [of _ _ "[_]"])
qed simp

lemma restore_calculate [simp, codec_simps]: "restore_timestamps (calculate_differences ts) = ts"
  by (cases ts) (simp_all add: restore_timestamps_def calculate_differences_def
      differences_loop_acc [of _ _ "[_]"] restore_loop_acc [of _ _ "[_]"] restore_differences_loop)

lemma length_differences [simp]: "length (calculate_differences ts) = length ts"
proof -
  have "length (differences_loop p ts acc) = length acc + length ts" for p acc
    by (induction ts arbitrary: p acc) simp_all
  moreover have "length (differences_loop p xs acc) = length acc + length xs" for p acc xs
    by (induction xs arbitrary: p acc) simp_all
  ultimately show ?thesis by (cases ts) (simp_all add: calculate_differences_def)
qed

lemma fold_append_concat: "fold (\<lambda>x acc. acc @ f x) xs acc = acc @ concat (map f xs)"
  by (induction xs arbitrary: acc) simp_all

lemma serialize_differences_concat: "serialize_differences ds = concat (map (put_word 8) ds)"
  by (simp add: serialize_differences_def fold_append_concat)

lemma length_serialize_differences [simp]: "length (serialize_differences ds) = 8 * length ds"
  by (induction ds) (simp_all add: serialize_differences_concat)

lemma deserialize_differences_loop_ser:
  "deserialize_differences_loop (pre @ concat (map (put_word 8) ds) @ suf) (length pre) acc =
   deserialize_differences_loop (pre @ concat (map (put_word 8) ds) @ suf)
     (length pre + 8 * length ds) (acc @ ds)"
proof (induction ds arbitrary: pre acc)
  case (Cons d ds)
  have "deserialize_differences_loop (pre @ put_word 8 d @ concat (map (put_word 8) ds) @ suf) (length pre) acc =
    deserialize_differences_loop ((pre @ put_word 8 d) @ concat (map (put_word 8) ds) @ suf)
      (length (pre @ put_word 8 d)) (acc @ [d])"
    by (subst deserialize_differences_loop.simps) simp
  also note Cons.IH
  finally show ?case by (simp add: algebra_simps)
qed simp

lemma deserialize_serialize_differences [simp, codec_simps]:
  "deserialize_differences (serialize_differences ds) = Inr ds"
  using deserialize_differences_loop_ser [of "[]" ds "[]" "[]"]
  by (simp add: deserialize_differences_def serialize_differences_concat deserialize_differences_loop.simps
      length_concat comp_def sum_list_triv)

definition entry_bytes :: "string \<Rightarrow> string" where
  "entry_bytes str = put_word 4 (of_nat (length str) :: 32 word) @ str"

definition short_string :: "string \<Rightarrow> bool" where
  "short_string s \<longleftrightarrow> length s < 2 ^ 31"

text \<open>The lists of strings that the format can carry.\<close>

definition strings_ok :: "string list \<Rightarrow> bool" where
  "strings_ok ss \<longleftrightarrow> list_all short_string ss \<and> length (serialize_strings ss) < 2 ^ 63"

lemma serialize_strings_concat: "serialize_strings ss = concat (map entry_bytes ss)"
  by (simp add: serialize_strings_def entry_bytes_def [abs_def] fold_append_concat)

lemma length_entry_bytes [simp]: "length (entry_bytes s) = 4 + length s"
  by (simp add: entry_bytes_def)

lemma size_add_small [simp]: "a + b < 2 ^ 64 \<Longrightarrow> size_add a b = a + b"
  by (simp add: size_add_def)

lemma sint_small: "n < 2 ^ 31 \<Longrightarrow> sint (of_nat n :: 32 word) = int n"
  by (simp add: signed_of_nat signed_take_bit_int_eq_self)

lemma int_to_size_length: "n < 2 ^ 31 \<Longrightarrow> int_to_size (of_nat n) = n"
  by (simp add: int_to_size_def scast_eq sint_small unat_of_nat take_bit_eq_mod)

text \<open>One whole entry at the read position is taken.\<close>

lemma deserialize_strings_loop_entry:
  assumes "short_string str" "length pre + 4 + length str < 2 ^ 63"
    and s: "s = pre @ entry_bytes str @ suf"
  shows "deserialize_strings_loop s (length pre) acc =
    deserialize_strings_loop s (length pre + 4 + length str) (acc @ [str])"
proof -
  have size: "int_to_size (of_nat (length str)) = length str"
    using assms(1) by (simp add: short_string_def int_to_size_length)
  have "take 4 (drop (length pre) s) = put_word 4 (of_nat (length str) :: 32 word)"
    by (simp add: s entry_bytes_def)
  moreover have "drop (length pre + 4) s = str @ suf"
    by (simp add: s entry_bytes_def)
  moreover have "size_add (length pre) 4 = length pre + 4"
      "size_add (length pre + 4) (length str) = length pre + 4 + length str"
    using assms(2) by simp_all
  ultimately show ?thesis
    by (subst deserialize_strings_loop.simps) (simp add: size s Let_def)
qed

text \<open>What a reader gets from the first \<open>n\<close> bytes of a serialized list.\<close>

fun cut_result :: "nat \<Rightarrow> string list \<Rightarrow> string list result" where
  "cut_result n [] = Inr []"
| "cut_result n (s # ss) =
     (if n = 0 then Inr []
      else if n < 4 + length s then Inl corrupted
      else res_bind (cut_result (n - (4 + length s)) ss) (\<lambda>r. Inr (s # r)))"

lemma deserialize_strings_loop_cut:
  assumes "length pre + length (concat (map entry_bytes ss)) < 2 ^ 63" "list_all short_string ss"
  shows "deserialize_strings_loop (pre @ take n (concat (map entry_bytes ss))) (length pre) acc =
    Some (res_bind (cut_result n ss) (\<lambda>r. Inr (acc @ r)))"
  using assms
proof (induction ss arbitrary: pre n acc)
  case Nil
  then show ?case by (subst deserialize_strings_loop.simps) simp
next
  case (Cons str ss)
  let ?rest = "concat (map entry_bytes ss)"
  have short: "short_string str" and len: "length pre + 4 + length str < 2 ^ 63"
    using Cons.prems by simp_all
  consider "n = 0" | "0 < n" "n < 4" | "4 \<le> n" "n < 4 + length str" | "4 + length str \<le> n" by linarith
  then show ?case
  proof cases
    case 1
    then show ?thesis by (subst deserialize_strings_loop.simps) simp
  next
    case 2
    have "size_add (length pre) 4 = length pre + 4" using len by simp
    with 2 show ?thesis by (subst deserialize_strings_loop.simps) (simp add: min_def)
  next
    case 3
    let ?s = "pre @ take n (entry_bytes str @ ?rest)"
    have ls: "length ?s = length pre + n" using 3 by simp
    have "take 4 (drop (length pre) ?s) = put_word 4 (of_nat (length str) :: 32 word)"
      using 3 by (simp add: entry_bytes_def min_def)
    moreover have "size_add (length pre) 4 = length pre + 4"
        "size_add (length pre + 4) (length str) = length pre + 4 + length str"
      using len by simp_all
    moreover have "int_to_size (of_nat (length str)) = length str"
      using short by (simp add: short_string_def int_to_size_length)
    ultimately have "deserialize_strings_loop ?s (length pre) acc = Some (Inl corrupted)"
      using 3 by (subst deserialize_strings_loop.simps) (simp only: Let_def get_put_word32 ls, simp)
    then show ?thesis using 3 by simp
  next
    case 4
    let ?m = "n - (4 + length str)"
    have s: "pre @ take n (entry_bytes str @ ?rest) = pre @ entry_bytes str @ take ?m ?rest"
      using 4 by simp
    have "deserialize_strings_loop (pre @ entry_bytes str @ take ?m ?rest) (length pre) acc =
      deserialize_strings_loop ((pre @ entry_bytes str) @ take ?m ?rest) (length (pre @ entry_bytes str)) (acc @ [str])"
      using deserialize_strings_loop_entry [OF short len refl] by (simp add: add.assoc)
    also have "\<dots> = Some (res_bind (cut_result ?m ss) (\<lambda>r. Inr ((acc @ [str]) @ r)))"
      using Cons.prems by (intro Cons.IH) simp_all
    finally show ?thesis using 4 unfolding list.map concat.simps s by (simp add: res_bind_assoc)
  qed
qed

lemma cut_result_all: "length (concat (map entry_bytes ss)) \<le> n \<Longrightarrow> cut_result n ss = Inr ss"
  by (induction ss arbitrary: n) simp_all

lemma deserialize_serialize_strings [simp, codec_simps]:
  assumes "strings_ok ss"
  shows "deserialize_strings (serialize_strings ss) = Some (Inr ss)"
  using deserialize_strings_loop_cut [of "[]" ss "length (serialize_strings ss)" "[]"] assms
  by (simp add: deserialize_strings_def strings_ok_def serialize_strings_concat cut_result_all)

section \<open>Codecs as an interface\<close>

text \<open>
  What a writer and a reader of one section of a block rely on: every valid value is read back
  from its bytes. Composition with the compressor and injectivity follow for both sections.
\<close>

locale section_codec =
  fixes enc :: "'a \<Rightarrow> string"
    and dec :: "string \<Rightarrow> 'a result option"
    and valid :: "'a \<Rightarrow> bool"
  assumes dec_enc: "valid x \<Longrightarrow> dec (enc x) = Some (Inr x)"
begin

lemma enc_inject: "valid x \<Longrightarrow> valid y \<Longrightarrow> enc x = enc y \<longleftrightarrow> x = y"
  by (metis dec_enc option.inject sum.inject(2))

lemma dec_compressed:
  "snappy_ok sn \<Longrightarrow> valid x \<Longrightarrow> dec (decompress_data sn (compress_data sn (enc x))) = Some (Inr x)"
  by (simp add: decompress_data_def compress_data_def snappy_ok_def dec_enc)

end

interpretation tp_codec: section_codec serialize_differences "\<lambda>s. Some (deserialize_differences s)" "\<lambda>_. True"
  by unfold_locales simp

interpretation val_codec: section_codec serialize_strings deserialize_strings strings_ok
  by unfold_locales simp

lemma decode_timestamps_size:
  "snappy_ok sn \<Longrightarrow> decode_timestamps sn (calculate_timestamp_size sn ts) = Inr ts"
  using tp_codec.dec_compressed [of sn "calculate_differences ts"]
  by (simp add: decode_timestamps_def calculate_timestamp_size_def)

lemma decode_values_size:
  "snappy_ok sn \<Longrightarrow> strings_ok vs \<Longrightarrow> decode_values sn (calculate_val_size sn vs) = Some (Inr vs)"
  by (simp add: decode_values_def calculate_val_size_def val_codec.dec_compressed)

section \<open>Corrupted input\<close>

text \<open>A negative length that leads back to its own position: the loop never leaves it.\<close>

definition stuck_at :: "string \<Rightarrow> nat \<Rightarrow> bool" where
  "stuck_at s i \<longleftrightarrow> i + 4 \<le> length s \<and> length s < 2 ^ 63 \<and> take 4 (drop i s) = put_word 4 (- 4 :: 32 word)"

lemma deserialize_strings_loop_stuck:
  assumes "deserialize_strings_loop s i acc = Some r"
  shows "\<not> stuck_at s i"
proof (rule deserialize_strings_loop.raw_induct [where P = "\<lambda>s i acc r. \<not> stuck_at s i", OF _ assms])
  fix loop s i acc r
  assume IH: "\<And>s i (acc :: string list) r. loop s i acc = Some r \<Longrightarrow> \<not> stuck_at s i"
    and body: "(if i < length s
      then if length s < size_add i 4 then Some (Inl corrupted)
           else let len = get_word (take 4 (drop i s)); i1 = size_add i 4;
                    i2 = size_add i1 (int_to_size len)
                in if length s < i2 then Some (Inl corrupted)
                   else loop s i2 (acc @ [take (int_to_size len) (drop i1 s)])
      else Some (Inr acc)) = Some (r :: string list result)"
  show "\<not> stuck_at s i"
  proof
    assume stuck: "stuck_at s i"
    have "int_to_size (- 4) = 2 ^ 64 - 4" by (simp add: int_to_size_def)
    moreover have "size_add i 4 = i + 4" using stuck by (simp add: stuck_at_def)
    moreover have "size_add (i + 4) (2 ^ 64 - 4) = i" using stuck by (simp add: size_add_def stuck_at_def)
    ultimately have "loop s i (acc @ [take (2 ^ 64 - 4) (drop (i + 4) s)]) = Some r"
      using body stuck by (simp add: Let_def stuck_at_def split: if_splits)
    then show False using IH stuck by blast
  qed
qed

section \<open>Properties of the block codec\<close>

text \<open>
  Timestamps round-trip through differences, bytes and compression: whatever the timestamps,
  in whatever order, the reader's pipeline gives back the list the writer packed.
\<close>

theorem timestamps_roundtrip:
  assumes "snappy_ok sn"
  shows "decode_timestamps sn (calculate_timestamp_size sn ts) = Inr ts"
  using assms by (rule decode_timestamps_size)

definition plain_snappy :: snappy where
  "plain_snappy = \<lparr>sn_compress = (\<lambda>s. CHR 0x01 # s),
     sn_uncompress = (\<lambda>s. case s of [] \<Rightarrow> (False, []) | c # cs \<Rightarrow> (c = CHR 0x01, cs))\<rparr>"

lemma plain_snappy_ok: "snappy_ok plain_snappy"
  by (simp add: snappy_ok_def plain_snappy_def)

theorem timestamps_roundtrip_witness:
  "decode_timestamps plain_snappy (calculate_timestamp_size plain_snappy [1700000000000000007, 5, 9]) =
    Inr [1700000000000000007, 5, 9]"
  by (rule timestamps_roundtrip [OF plain_snappy_ok])

text \<open>
  Values round-trip through the length-prefixed format and compression, for every list of
  strings each shorter than \<open>2 ^ 31\<close> bytes; the reader's loop ends on them.
\<close>

theorem values_roundtrip:
  assumes "snappy_ok sn" "strings_ok vs"
  shows "decode_values sn (calculate_val_size sn vs) = Some (Inr vs)"
  using assms by (rule decode_values_size)

theorem values_roundtrip_witness:
  "decode_values plain_snappy (calculate_val_size plain_snappy [''23'', [], ''x y'']) = Some (Inr [''23'', [], ''x y''])"
  by (rule values_roundtrip [OF plain_snappy_ok])
     (simp add: strings_ok_def short_string_def serialize_strings_concat)

text \<open>
  A truncated value section is detected: reading the first \<open>n\<close> bytes of a serialized list
  gives the strings that are whole when \<open>n\<close> falls between two of them, and the exception of the
  code when it falls inside one; no partial string is ever returned.
\<close>

theorem truncation_detected:
  assumes "strings_ok ss"
  shows "deserialize_strings (take n (serialize_strings ss)) = Some (cut_result n ss)"
proof -
  have "res_bind (cut_result n ss) Inr = cut_result n ss"
    by (cases "cut_result n ss") simp_all
  then show ?thesis
    using deserialize_strings_loop_cut [of "[]" ss n "[]"] assms
    by (simp add: deserialize_strings_def strings_ok_def serialize_strings_concat)
qed

theorem truncation_detected_witness:
  "deserialize_strings (take 7 (serialize_strings [''ab'', ''c''])) =
    Some (Inl (Runtime_error ''Serialized data is corrupted or incomplete.''))"
  using truncation_detected [of "[''ab'', ''c'']" 7]
  by (simp add: strings_ok_def short_string_def serialize_strings_concat corrupted_def)

lemma eight_step:
  fixes n :: nat
  assumes "i + 8 \<le> n"
  shows "8 dvd n - i \<longleftrightarrow> 8 dvd n - (i + 8)" "(n - i) div 8 = 1 + (n - (i + 8)) div 8"
proof -
  obtain m where n: "n = i + 8 + m" using assms by (auto simp: le_iff_add)
  have "n - i = 8 + m" "n - (i + 8) = m" using n by simp_all
  then show "8 dvd n - i \<longleftrightarrow> 8 dvd n - (i + 8)" "(n - i) div 8 = 1 + (n - (i + 8)) div 8"
    by simp_all
qed

lemma deserialize_differences_loop_length:
  "i \<le> length s \<Longrightarrow> 8 dvd length s - i \<Longrightarrow>
   \<exists>ds. deserialize_differences_loop s i acc = Inr ds \<and> length ds = length acc + (length s - i) div 8"
proof (induction s i acc rule: deserialize_differences_loop.induct)
  case (1 s i acc)
  show ?case
  proof (cases "i < length s")
    case True
    then have le: "i + 8 \<le> length s" using 1(3) dvd_imp_le [of 8 "length s - i"] by simp
    have "8 dvd length s - (i + 8)" "(length s - i) div 8 = 1 + (length s - (i + 8)) div 8"
      using 1(3) eight_step [OF le] by simp_all
    moreover from this 1(1) [OF True le le] obtain ds where
      "deserialize_differences_loop s (i + 8) (acc @ [get_word (take 8 (drop i s))]) = Inr ds"
      "length ds = length acc + 1 + (length s - (i + 8)) div 8" by auto
    moreover have "deserialize_differences_loop s i acc =
        deserialize_differences_loop s (i + 8) (acc @ [get_word (take 8 (drop i s))])"
      using True le by (subst deserialize_differences_loop.simps) simp
    ultimately show ?thesis by simp
  next
    case False
    moreover from this have "length s - i = 0" by simp
    ultimately show ?thesis by (subst deserialize_differences_loop.simps) simp
  qed
qed

lemma deserialize_differences_loop_error:
  "i \<le> length s \<Longrightarrow> \<not> 8 dvd length s - i \<Longrightarrow> deserialize_differences_loop s i acc = Inl corrupted"
proof (induction s i acc rule: deserialize_differences_loop.induct)
  case (1 s i acc)
  then have lt: "i < length s" by (metis diff_self_eq_0 dvd_0_right le_neq_implies_less)
  show ?case
  proof (cases "i + 8 \<le> length s")
    case True
    have "\<not> 8 dvd length s - (i + 8)" using 1(3) eight_step [OF True] by simp
    then show ?thesis using 1(1) [OF lt True True] lt True
      by (subst deserialize_differences_loop.simps) simp
  next
    case False
    then show ?thesis using lt by (subst deserialize_differences_loop.simps) simp
  qed
qed

text \<open>
  The timestamp reader accepts exactly the byte strings whose length is a multiple of eight,
  returning one difference for each eight bytes, and throws on all others.
\<close>

theorem differences_decoder_total:
  "if 8 dvd length s
   then \<exists>ds. deserialize_differences s = Inr ds \<and> length ds = length s div 8
   else deserialize_differences s = Inl (Runtime_error ''Serialized data is corrupted or incomplete.'')"
  using deserialize_differences_loop_length [of 0 s "[]"] deserialize_differences_loop_error [of 0 s "[]"]
  by (simp add: deserialize_differences_def corrupted_def)

text \<open>
  On corrupt input the value reader can run forever: a section that starts with the length
  \<open>-4\<close> passes the bounds check by wrap-around and leads back to the same position, so that
  \<open>deserialize_strings\<close> never returns, neither with strings nor with the exception.
\<close>

theorem negative_length_diverges:
  assumes "length s < 2 ^ 62"
  shows "deserialize_strings (put_word 4 (- 4 :: 32 word) @ s) = None"
proof (cases "deserialize_strings_loop (put_word 4 (- 4 :: 32 word) @ s) 0 []")
  case (Some r)
  from deserialize_strings_loop_stuck [OF this] assms show ?thesis by (simp add: stuck_at_def)
qed (simp add: deserialize_strings_def)

theorem negative_length_diverges_witness:
  "deserialize_strings (put_word 4 (- 4 :: 32 word) @ ''abc'') = None"
  by (rule negative_length_diverges) simp

fun data_block_writes :: "(time_point \<times> string) list \<Rightarrow> data_block \<Rightarrow> data_block" where
  "data_block_writes [] b = b"
| "data_block_writes (p # ps) b = data_block_writes ps (snd (data_block_write (fst p) (snd p) b))"

text \<open>
  A block that is filled through \<open>write\<close> has as many values as timestamps, its counter is that
  number (at 32 bits), and the zero time point is refused without any change.
\<close>

theorem data_block_filled:
  assumes "db_num b = of_nat (length (db_timestamps b))"
  shows "db_timestamps (data_block_writes ps b) = db_timestamps b @ map fst (filter (\<lambda>p. fst p \<noteq> 0) ps) \<and>
    db_values (data_block_writes ps b) = db_values b @ map snd (filter (\<lambda>p. fst p \<noteq> 0) ps) \<and>
    db_num (data_block_writes ps b) = of_nat (length (db_timestamps (data_block_writes ps b)))"
  using assms
proof (induction ps arbitrary: b)
  case (Cons p ps)
  then show ?case using Cons.IH [of "snd (data_block_write (fst p) (snd p) b)"]
    by (simp add: data_block_write_def add.commute)
qed simp

definition empty_block :: data_block where
  "empty_block = \<lparr>db_size = 0, db_field_name = [], db_series_key_and_field_name = [],
     db_max_timestamp = 0, db_min_timestamp = 0, db_shard_id = [], db_type = DATA_INTEGER, db_num = 0,
     db_tp_snappy_size = 0, db_val_snappy_size = 0, db_timestamps = [], db_values = []\<rparr>"

theorem data_block_filled_witness:
  "db_values (data_block_writes [(7, ''1''), (0, ''2''), (8, ''3'')] empty_block) = [''1'', ''3'']"
  using data_block_filled [of empty_block "[(7, ''1''), (0, ''2''), (8, ''3'')]"]
  by (simp add: empty_block_def)

end
