(* ===== verification/File_Io_Manager.thy ===== *)
theory File_Io_Manager
  imports Prelude
begin

text \<open>
  \<open>FileIOManager\<close> (\<open>src/file_manager/file_io_manager.cpp\<close>): the cache of open file streams that
  every reader and writer of the storage engine goes through, over a model of the disk and of
  \<open>std::fstream\<close>.

  \<^item> The disk is a map from paths to bytes and the set of existing directories.
  \<^item> A stream is an object of a heap (it is held through \<open>shared_ptr\<close>s), with the one position
    that a file buffer has for reading and for writing.
  \<^item> \<open>m_file_stream\<close> is a finite map, \<open>m_usage_order\<close> a list of nodes; a list iterator is the identity of its node.
  \<^item> \<open>m_mutex\<close> is the flag \<open>m_locked\<close>: locking it again from the thread that holds it does not
    return, which the model shows as the error \<open>Deadlock\<close>.
\<close>

section \<open>Disk and streams\<close>

record disk =
  files :: "string \<Rightarrow> string option"
  dirs :: "string set"

record fstream =
  st_path :: string
  st_pos :: nat
  st_writable :: bool
  st_append :: bool
  st_is_open :: bool

definition parent_dir :: "string \<Rightarrow> string" where
  "parent_dir p = rev (drop 1 (dropWhile (\<lambda>c. c \<noteq> CHR ''/'') (rev p)))"

text \<open>The open mode of each mode name, as (write, truncate, append).\<close>

definition open_mode_of :: "string \<Rightarrow> bool \<times> bool \<times> bool" where
  "open_mode_of mode =
     (if mode = ''binary'' then (True, False, False)
      else if mode = ''trunc'' then (True, True, False)
      else if mode = ''append'' then (True, False, True)
      else if mode = ''binary-read'' then (False, False, False)
      else (False, False, False))"

text \<open>Opening fails for a missing file, except in the two modes that create it.\<close>

definition open_file :: "string \<Rightarrow> string \<Rightarrow> disk \<Rightarrow> (disk \<times> fstream) option" where
  "open_file path mode d =
     (let (w, t, a) = open_mode_of mode;
          s = \<lparr>st_path = path, st_pos = 0, st_writable = w, st_append = a, st_is_open = True\<rparr>
      in case files d path of
           Some bytes \<Rightarrow> Some (if t then d\<lparr>files := (files d)(path \<mapsto> [])\<rparr> else d, s)
         | None \<Rightarrow>
             if (t \<or> a) \<and> parent_dir path \<in> dirs d \<and> path \<notin> dirs d
             then Some (d\<lparr>files := (files d)(path \<mapsto> [])\<rparr>, s) else None)"

text \<open>Replacing the contents of a file.\<close>

definition put_file :: "string \<Rightarrow> string \<Rightarrow> disk \<Rightarrow> disk" where
  "put_file p f d = d\<lparr>files := (files d)(p \<mapsto> f)\<rparr>"

lemma put_file_simps [simp]:
  "files (put_file p f d) p = Some f" "q \<noteq> p \<Longrightarrow> files (put_file p f d) q = files d q"
  "dirs (put_file p f d) = dirs d" "dom (files (put_file p f d)) = insert p (dom (files d))"
  "put_file p g (put_file p f d) = put_file p g d"
  by (simp_all add: put_file_def)

section \<open>State\<close>

record stream_info =
  si_stream :: nat
  si_it :: nat
  si_in_use :: bool

record file_io =
  io_disk :: disk
  io_heap :: "nat \<Rightarrow> fstream option"
  io_next :: nat
  m_max_size :: nat
  m_locked :: bool
  m_file_stream :: "string \<Rightarrow> (stream_info \<times> string) option"
  m_usage_order :: "(nat \<times> string) list"

definition mk_file_io :: "nat \<Rightarrow> disk \<Rightarrow> file_io" where
  "mk_file_io max_size d =
     \<lparr>io_disk = d, io_heap = Map.empty, io_next = 0, m_max_size = max_size, m_locked = False,
      m_file_stream = Map.empty, m_usage_order = []\<rparr>"

section \<open>Operations on a stream\<close>

definition stream_is_open :: "nat \<Rightarrow> file_io \<Rightarrow> bool" where
  "stream_is_open a st = (case io_heap st a of Some s \<Rightarrow> st_is_open s | None \<Rightarrow> False)"

definition stream_seek :: "nat \<Rightarrow> int \<Rightarrow> file_io \<Rightarrow> file_io result" where
  "stream_seek a pos st =
     (case io_heap st a of
        Some s \<Rightarrow> if 0 \<le> pos then Inr (st\<lparr>io_heap := (io_heap st)(a \<mapsto> s\<lparr>st_pos := nat pos\<rparr>)\<rparr>)
                  else Inl Stream_failed
      | None \<Rightarrow> Inl Stream_failed)"

definition stream_size :: "nat \<Rightarrow> file_io \<Rightarrow> nat result" where
  "stream_size a st =
     (case io_heap st a of
        Some s \<Rightarrow> (case files (io_disk st) (st_path s) of
                     Some bytes \<Rightarrow> Inr (length bytes) | None \<Rightarrow> Inl Stream_failed)
      | None \<Rightarrow> Inl Stream_failed)"

definition stream_seek_end :: "nat \<Rightarrow> int \<Rightarrow> file_io \<Rightarrow> file_io result" where
  "stream_seek_end a off st = res_bind (stream_size a st) (\<lambda>n. stream_seek a (int n + off) st)"

definition stream_tell :: "nat \<Rightarrow> file_io \<Rightarrow> nat" where
  "stream_tell a st = (case io_heap st a of Some s \<Rightarrow> st_pos s | None \<Rightarrow> 0)"

definition stream_write :: "nat \<Rightarrow> string \<Rightarrow> file_io \<Rightarrow> file_io result" where
  "stream_write a bs st =
     (case io_heap st a of
        Some s \<Rightarrow>
          (case files (io_disk st) (st_path s) of
             Some f \<Rightarrow>
               if st_writable s \<and> st_is_open s then
                 (let pos = (if st_append s then length f else st_pos s) in
                  Inr (st\<lparr>io_disk := (io_disk st)\<lparr>files := (files (io_disk st))(st_path s \<mapsto> pwrite pos bs f)\<rparr>,
                          io_heap := (io_heap st)(a \<mapsto> s\<lparr>st_pos := pos + length bs\<rparr>)\<rparr>))
               else Inl Stream_failed
           | None \<Rightarrow> Inl Stream_failed)
      | None \<Rightarrow> Inl Stream_failed)"

definition stream_read :: "nat \<Rightarrow> nat \<Rightarrow> file_io \<Rightarrow> (string \<times> file_io) result" where
  "stream_read a n st =
     (case io_heap st a of
        Some s \<Rightarrow>
          (case files (io_disk st) (st_path s) of
             Some f \<Rightarrow>
               res_bind (pread (st_pos s) n f) (\<lambda>bs.
                 Inr (bs, st\<lparr>io_heap := (io_heap st)(a \<mapsto> s\<lparr>st_pos := st_pos s + n\<rparr>)\<rparr>))
           | None \<Rightarrow> Inl Stream_failed)
      | None \<Rightarrow> Inl Stream_failed)"

section \<open>The manager\<close>

definition set_in_use :: "string \<Rightarrow> bool \<Rightarrow> file_io \<Rightarrow> file_io" where
  "set_in_use path b st =
     (case m_file_stream st path of
        Some (info, mode) \<Rightarrow>
          st\<lparr>m_file_stream := (m_file_stream st)(path \<mapsto> (info\<lparr>si_in_use := b\<rparr>, mode))\<rparr>
      | None \<Rightarrow> st)"

definition update_usage_order :: "string \<Rightarrow> file_io \<Rightarrow> file_io" where
  "update_usage_order path st =
     (case m_file_stream st path of
        Some (info, mode) \<Rightarrow>
          st\<lparr>m_usage_order := (io_next st, path) # filter (\<lambda>n. fst n \<noteq> si_it info) (m_usage_order st),
             m_file_stream := (m_file_stream st)(path \<mapsto> (info\<lparr>si_it := io_next st\<rparr>, mode)),
             io_next := io_next st + 1\<rparr>
      | None \<Rightarrow> st)"

definition close_file_stream :: "string \<Rightarrow> file_io \<Rightarrow> file_io result" where
  "close_file_stream path st =
     (if m_locked st then Inl Deadlock
      else Inr
        (case m_file_stream st path of
           Some (info, mode) \<Rightarrow>
             st\<lparr>io_heap := (io_heap st)(si_stream info :=
                  map_option (\<lambda>s. s\<lparr>st_is_open := False\<rparr>) (io_heap st (si_stream info))),
                m_usage_order := filter (\<lambda>n. fst n \<noteq> si_it info) (m_usage_order st),
                m_file_stream := (m_file_stream st)(path := None)\<rparr>
         | None \<Rightarrow> st))"

definition evict_least_used :: "file_io \<Rightarrow> file_io result" where
  "evict_least_used st =
     (if m_usage_order st \<noteq> [] then close_file_stream (snd (last (m_usage_order st))) st else Inr st)"

text \<open>The second half of \<open>get_file_stream\<close>, for a path that has no usable stream.\<close>

definition open_new_stream :: "string \<Rightarrow> string \<Rightarrow> file_io \<Rightarrow> (nat option \<times> file_io) result" where
  "open_new_stream path mode st0 =
     res_bind (if m_max_size st0 \<le> card (dom (m_file_stream st0)) then evict_least_used st0 else Inr st0)
       (\<lambda>st. case open_file path mode (io_disk st) of
          None \<Rightarrow> Inr (None, st\<lparr>m_locked := False\<rparr>)
        | Some (d, s) \<Rightarrow>
            (let a = io_next st; node = io_next st + 1 in
             Inr (Some a,
               st\<lparr>io_disk := d, io_heap := (io_heap st)(a \<mapsto> s), io_next := io_next st + 2,
                  m_usage_order := (node, path) # m_usage_order st,
                  m_file_stream := (m_file_stream st)(path \<mapsto> (\<lparr>si_stream = a, si_it = node, si_in_use = True\<rparr>, mode)),
                  m_locked := False\<rparr>)))"

definition get_file_stream :: "string \<Rightarrow> string \<Rightarrow> file_io \<Rightarrow> (nat option \<times> file_io) result" where
  "get_file_stream path mode st =
     (if m_locked st then Inl Deadlock
      else
        (let st0 = st\<lparr>m_locked := True\<rparr> in
         case m_file_stream st0 path of
           Some (info, existing_mode) \<Rightarrow>
             if \<not> si_in_use info \<and> existing_mode = mode
             then Inr (Some (si_stream info),
                       (update_usage_order path (set_in_use path True st0))\<lparr>m_locked := False\<rparr>)
             else open_new_stream path mode st0
         | None \<Rightarrow> open_new_stream path mode st0))"

definition release_file_stream :: "string \<Rightarrow> file_io \<Rightarrow> file_io result" where
  "release_file_stream path st =
     (if m_locked st then Inl Deadlock
      else Inr (update_usage_order path (set_in_use path False st)))"

definition reset_file_stream :: "string \<Rightarrow> file_io \<Rightarrow> file_io result" where
  "reset_file_stream path st =
     res_bind (get_file_stream path ''binary'' st) (\<lambda>(stream, st1).
       case stream of
         Some a \<Rightarrow> res_bind (stream_seek a 0 st1) (\<lambda>st2. release_file_stream path st2)
       | None \<Rightarrow> Inr st1)"

text \<open>
  The frame of every storage operation: take the stream, stop on the null pointer that a missing
  file gives (the code calls \<open>is_open\<close> on it), return \<open>closed\<close> when the stream is not open, and
  otherwise run the body, which releases the stream itself.
\<close>

definition with_stream ::
    "string \<Rightarrow> string \<Rightarrow> 'a \<Rightarrow> (nat \<Rightarrow> file_io \<Rightarrow> ('a \<times> file_io) result) \<Rightarrow> file_io \<Rightarrow> ('a \<times> file_io) result" where
  "with_stream path mode closed body st =
     res_bind (get_file_stream path mode st) (\<lambda>(stream, st1).
       case stream of
         None \<Rightarrow> Inl Null_deref
       | Some a \<Rightarrow> if stream_is_open a st1 then body a st1 else Inr (closed, st1))"

section \<open>Well-formed managers\<close>

text \<open>
  Every cached stream is open, belongs to an existing file and has the rights of the mode it is
  cached under; its iterator is a node of the usage order that carries its path; node and stream
  identities are below the counter that hands them out.
\<close>

definition entry_ok :: "file_io \<Rightarrow> string \<Rightarrow> stream_info \<times> string \<Rightarrow> bool" where
  "entry_ok st p e \<longleftrightarrow>
     (\<exists>s. io_heap st (si_stream (fst e)) = Some s \<and> st_path s = p \<and> st_is_open s \<and>
        st_writable s = fst (open_mode_of (snd e)) \<and> st_append s = snd (snd (open_mode_of (snd e)))) \<and>
     p \<in> dom (files (io_disk st)) \<and> (si_it (fst e), p) \<in> set (m_usage_order st)"

definition fm_wf :: "file_io \<Rightarrow> bool" where
  "fm_wf st \<longleftrightarrow>
     finite (dom (m_file_stream st)) \<and> distinct (map fst (m_usage_order st)) \<and>
     (\<forall>n \<in> set (m_usage_order st). fst n < io_next st) \<and>
     (\<forall>a s. io_heap st a = Some s \<longrightarrow> a < io_next st) \<and>
     (\<forall>p e. m_file_stream st p = Some e \<longrightarrow> entry_ok st p e)"

lemma fm_wf_entry: "fm_wf st \<Longrightarrow> m_file_stream st p = Some e \<Longrightarrow> entry_ok st p e"
  unfolding fm_wf_def by blast

lemma fm_wfD:
  assumes "fm_wf st" "m_file_stream st p = Some (info, mode)"
  obtains s where "io_heap st (si_stream info) = Some s" "st_path s = p" "st_is_open s"
    "st_writable s = fst (open_mode_of mode)" "st_append s = snd (snd (open_mode_of mode))"
    "p \<in> dom (files (io_disk st))" "(si_it info, p) \<in> set (m_usage_order st)"
proof -
  from fm_wf_entry [OF assms] show ?thesis by (auto simp: entry_ok_def intro!: that)
qed

lemma mk_file_io_wf [simp]: "fm_wf (mk_file_io n d)"
  by (simp add: fm_wf_def mk_file_io_def)

lemma fm_wf_locked [simp]: "fm_wf (st\<lparr>m_locked := b\<rparr>) = fm_wf st"
  by (simp add: fm_wf_def entry_ok_def)

lemma set_in_use_wf: "fm_wf st \<Longrightarrow> fm_wf (set_in_use p b st)"
  unfolding set_in_use_def fm_wf_def entry_ok_def
  by (auto split: option.split prod.split if_splits)

lemma node_path_unique:
  "fm_wf st \<Longrightarrow> (i, p) \<in> set (m_usage_order st) \<Longrightarrow> (i, q) \<in> set (m_usage_order st) \<Longrightarrow> p = q"
  by (metis eq_key_imp_eq_value fm_wf_def)

lemma entry_node_differs:
  assumes "fm_wf st" "m_file_stream st p = Some e" "m_file_stream st q = Some e'" "p \<noteq> q"
  shows "si_it (fst e) \<noteq> si_it (fst e')"
  using assms node_path_unique [OF assms(1)] unfolding fm_wf_def entry_ok_def by metis

lemma distinct_filter_nodes: "distinct (map fst ns) \<Longrightarrow> distinct (map fst (filter P ns))"
  by (rule distinct_map_filter)

lemma update_usage_order_wf:
  assumes wf: "fm_wf st"
  shows "fm_wf (update_usage_order p st)"
proof (cases "m_file_stream st p")
  case None
  with wf show ?thesis by (simp add: update_usage_order_def)
next
  case (Some e)
  obtain info mode where e: "e = (info, mode)" by (cases e)
  let ?st = "update_usage_order p st"
  have keep: "entry_ok ?st q e'" if q: "m_file_stream ?st q = Some e'" for q e'
  proof (cases "q = p")
    case True
    with q Some e have "e' = (info\<lparr>si_it := io_next st\<rparr>, mode)" by (simp add: update_usage_order_def)
    moreover have "entry_ok st p (info, mode)" using fm_wf_entry [OF wf Some] e by simp
    ultimately show ?thesis using True Some e by (auto simp: update_usage_order_def entry_ok_def)
  next
    case False
    with q Some e have q': "m_file_stream st q = Some e'" by (simp add: update_usage_order_def)
    have "si_it (fst e') \<noteq> si_it info" using entry_node_differs [OF wf q' Some False] e by simp
    moreover have "entry_ok st q e'" by (rule fm_wf_entry [OF wf q'])
    ultimately show ?thesis using Some e by (auto simp: update_usage_order_def entry_ok_def)
  qed
  have "io_next st \<notin> fst ` set (m_usage_order st)" using wf by (auto simp: fm_wf_def)
  then show ?thesis
    using wf Some e keep
    by (auto simp: fm_wf_def update_usage_order_def distinct_filter_nodes less_Suc_eq)
qed

lemma close_file_stream_wf:
  assumes wf: "fm_wf st" and cl: "close_file_stream path st = Inr st'"
  shows "fm_wf st'"
proof (cases "m_file_stream st path")
  case None
  with assms show ?thesis by (simp add: close_file_stream_def split: if_splits)
next
  case (Some e)
  obtain info mode where e: "e = (info, mode)" by (cases e)
  have st': "st' = st\<lparr>io_heap := (io_heap st)(si_stream info :=
                  map_option (\<lambda>s. s\<lparr>st_is_open := False\<rparr>) (io_heap st (si_stream info))),
                m_usage_order := filter (\<lambda>n. fst n \<noteq> si_it info) (m_usage_order st),
                m_file_stream := (m_file_stream st)(path := None)\<rparr>"
    using cl Some e by (simp add: close_file_stream_def split: if_splits)
  have keep: "entry_ok st' q e'" if q: "m_file_stream st' q = Some e'" for q e'
  proof -
    from q st' have q': "m_file_stream st q = Some e'" "q \<noteq> path" by (auto split: if_splits)
    have "si_it (fst e') \<noteq> si_it info" using entry_node_differs [OF wf q'(1) Some q'(2)] e by simp
    moreover have "si_stream (fst e') \<noteq> si_stream info"
      using fm_wf_entry [OF wf q'(1)] fm_wf_entry [OF wf Some] e q'(2) by (auto simp: entry_ok_def)
    ultimately show ?thesis using fm_wf_entry [OF wf q'(1)] by (auto simp: st' entry_ok_def)
  qed
  show ?thesis using wf keep
    by (auto simp: fm_wf_def st' distinct_filter_nodes)
qed

lemma open_file_wf:
  assumes "open_file path mode d = Some (d', s)"
  shows "st_path s = path \<and> st_is_open s \<and> st_pos s = 0 \<and> st_writable s = fst (open_mode_of mode)
    \<and> st_append s = snd (snd (open_mode_of mode)) \<and> path \<in> dom (files d')
    \<and> dom (files d) \<subseteq> dom (files d')"
  using assms by (auto simp: open_file_def Let_def split: prod.splits option.splits if_splits)

lemma open_new_stream_wf:
  assumes wf: "fm_wf st" and op: "open_new_stream path mode st = Inr (r, st')"
  shows "fm_wf st'"
proof -
  obtain st1 where ev: "(if m_max_size st \<le> card (dom (m_file_stream st)) then evict_least_used st else Inr st) = Inr st1"
    and rest: "(case open_file path mode (io_disk st1) of
          None \<Rightarrow> Inr (None, st1\<lparr>m_locked := False\<rparr>)
        | Some (d, s) \<Rightarrow>
            (let a = io_next st1; node = io_next st1 + 1 in
             Inr (Some a,
               st1\<lparr>io_disk := d, io_heap := (io_heap st1)(a \<mapsto> s), io_next := io_next st1 + 2,
                  m_usage_order := (node, path) # m_usage_order st1,
                  m_file_stream := (m_file_stream st1)(path \<mapsto> (\<lparr>si_stream = a, si_it = node, si_in_use = True\<rparr>, mode)),
                  m_locked := False\<rparr>))) = (Inr (r, st') :: (nat option \<times> file_io) result)"
    using op unfolding open_new_stream_def res_bind_eq_Inr by blast
  have wf1: "fm_wf st1"
    using ev wf close_file_stream_wf by (auto simp: evict_least_used_def split: if_splits)
  show ?thesis
  proof (cases "open_file path mode (io_disk st1)")
    case None
    with rest wf1 show ?thesis by auto
  next
    case (Some ds)
    obtain d s where ds: "ds = (d, s)" by (cases ds)
    note o = open_file_wf [OF Some [unfolded ds]]
    let ?e = "(\<lparr>si_stream = io_next st1, si_it = io_next st1 + 1, si_in_use = True\<rparr>, mode)"
    have st': "st' = st1\<lparr>io_disk := d, io_heap := (io_heap st1)(io_next st1 \<mapsto> s), io_next := io_next st1 + 2,
                  m_usage_order := (io_next st1 + 1, path) # m_usage_order st1,
                  m_file_stream := (m_file_stream st1)(path \<mapsto> ?e), m_locked := False\<rparr>"
      using rest Some ds by (simp add: Let_def)
    have keep: "entry_ok st' q e'" if q: "m_file_stream st' q = Some e'" for q e'
    proof (cases "q = path")
      case True
      with q st' have "e' = ?e" by simp
      with o True show ?thesis by (simp add: st' entry_ok_def)
    next
      case False
      with q st' have q': "m_file_stream st1 q = Some e'" by simp
      moreover have "io_heap st1 (io_next st1) = None" using wf1 by (auto simp: fm_wf_def)
      ultimately show ?thesis using fm_wf_entry [OF wf1 q'] o by (auto simp: st' entry_ok_def)
    qed
    have "io_next st1 + 1 \<notin> fst ` set (m_usage_order st1)" using wf1 by (auto simp: fm_wf_def)
    moreover have "finite (dom (m_file_stream st'))" using wf1 by (simp add: st' fm_wf_def)
    moreover have "\<forall>n \<in> set (m_usage_order st'). fst n < io_next st'"
      using wf1 by (auto simp: st' fm_wf_def less_SucI)
    moreover have "\<forall>a s. io_heap st' a = Some s \<longrightarrow> a < io_next st'"
      using wf1 by (auto simp: st' fm_wf_def less_SucI)
    ultimately show ?thesis using keep wf1 unfolding fm_wf_def by (simp add: st')
  qed
qed

lemma get_file_stream_wf:
  assumes "fm_wf st" "get_file_stream path mode st = Inr (r, st')"
  shows "fm_wf st'"
proof -
  have "fm_wf (st\<lparr>m_locked := True\<rparr>)" using assms(1) by simp
  with assms show ?thesis
    using open_new_stream_wf [of "st\<lparr>m_locked := True\<rparr>" path mode r st']
    by (auto simp: get_file_stream_def Let_def update_usage_order_wf set_in_use_wf
        split: if_splits option.splits prod.splits)
qed

lemma release_file_stream_wf:
  "fm_wf st \<Longrightarrow> release_file_stream path st = Inr st' \<Longrightarrow> fm_wf st'"
  by (auto simp: release_file_stream_def update_usage_order_wf set_in_use_wf split: if_splits)

text \<open>Moving a stream and writing to a file that exists keep the manager well formed.\<close>

lemma fm_wf_reposition:
  assumes wf: "fm_wf st" and a: "io_heap st a = Some s"
  shows "fm_wf (st\<lparr>io_heap := (io_heap st)(a \<mapsto> s\<lparr>st_pos := n\<rparr>)\<rparr>)" (is "fm_wf ?st")
proof -
  have "entry_ok ?st p e" if "m_file_stream st p = Some e" for p e
    using fm_wf_entry [OF wf that] a by (auto simp: entry_ok_def)
  then show ?thesis using wf a unfolding fm_wf_def by simp
qed

lemma fm_wf_disk:
  assumes wf: "fm_wf st" and "dom (files (io_disk st)) \<subseteq> dom (files d)"
  shows "fm_wf (st\<lparr>io_disk := d\<rparr>)" (is "fm_wf ?st")
proof -
  have "entry_ok ?st p e" if "m_file_stream st p = Some e" for p e
    using fm_wf_entry [OF wf that] assms(2) by (auto simp: entry_ok_def)
  then show ?thesis using wf unfolding fm_wf_def by simp
qed

lemma stream_seek_wf: "fm_wf st \<Longrightarrow> stream_seek a pos st = Inr st' \<Longrightarrow> fm_wf st'"
  by (auto simp: stream_seek_def fm_wf_reposition split: option.splits if_splits)

lemma stream_read_wf: "fm_wf st \<Longrightarrow> stream_read a n st = Inr (bs, st') \<Longrightarrow> fm_wf st'"
  by (auto simp: stream_read_def res_bind_eq_Inr fm_wf_reposition split: option.splits)

lemma stream_write_wf:
  assumes "fm_wf st" "stream_write a bs st = Inr st'"
  shows "fm_wf st'"
proof -
  obtain s f where a: "io_heap st a = Some s" and f: "files (io_disk st) (st_path s) = Some f"
    and st': "\<exists>pos. st' = st\<lparr>io_disk := (io_disk st)\<lparr>files := (files (io_disk st))(st_path s \<mapsto> pwrite pos bs f)\<rparr>,
                          io_heap := (io_heap st)(a \<mapsto> s\<lparr>st_pos := pos + length bs\<rparr>)\<rparr>"
    using assms(2) by (auto simp: stream_write_def Let_def split: option.splits if_splits)
  from st' obtain pos where "st' = st\<lparr>io_disk := (io_disk st)\<lparr>files := (files (io_disk st))(st_path s \<mapsto> pwrite pos bs f)\<rparr>,
                          io_heap := (io_heap st)(a \<mapsto> s\<lparr>st_pos := pos + length bs\<rparr>)\<rparr>" ..
  then have pos: "st' = (st\<lparr>io_heap := (io_heap st)(a \<mapsto> s\<lparr>st_pos := pos + length bs\<rparr>)\<rparr>)
      \<lparr>io_disk := (io_disk st)\<lparr>files := (files (io_disk st))(st_path s \<mapsto> pwrite pos bs f)\<rparr>\<rparr>"
    by simp
  show ?thesis unfolding pos
    by (rule fm_wf_disk [OF fm_wf_reposition [OF assms(1) a]]) auto
qed

section \<open>Streams of a manager with room\<close>

text \<open>
  \<open>io_ready P st\<close>: the manager is well formed, nobody holds its lock, the files of \<open>P\<close> exist and
  the manager has room for all of them at once, so that none of the operations below evicts.
\<close>

definition io_ready :: "string set \<Rightarrow> file_io \<Rightarrow> bool" where
  "io_ready P st \<longleftrightarrow> fm_wf st \<and> \<not> m_locked st \<and> finite P \<and> P \<subseteq> dom (files (io_disk st)) \<and>
     card (dom (m_file_stream st) \<union> P) < m_max_size st"

definition stream_at :: "file_io \<Rightarrow> nat \<Rightarrow> string \<Rightarrow> nat \<Rightarrow> bool" where
  "stream_at st a p pos \<longleftrightarrow>
     (\<exists>s. io_heap st a = Some s \<and> st_path s = p \<and> st_is_open s \<and> st_pos s = pos)"

definition stream_rw :: "file_io \<Rightarrow> nat \<Rightarrow> bool" where
  "stream_rw st a \<longleftrightarrow> (\<exists>s. io_heap st a = Some s \<and> st_writable s \<and> \<not> st_append s)"

lemma io_ready_D:
  assumes "io_ready P st"
  shows "fm_wf st" "\<not> m_locked st" "finite P" "P \<subseteq> dom (files (io_disk st))"
    "card (dom (m_file_stream st) \<union> P) < m_max_size st"
  using assms by (simp_all add: io_ready_def)

lemma io_ready_room:
  assumes "io_ready P st"
  shows "card (dom (m_file_stream st)) < m_max_size st"
proof -
  have "card (dom (m_file_stream st)) \<le> card (dom (m_file_stream st) \<union> P)"
    using assms by (intro card_mono) (auto simp: io_ready_def fm_wf_def)
  then show ?thesis using assms by (simp add: io_ready_def)
qed

lemma set_in_use_fields [simp]:
  "io_disk (set_in_use p b st) = io_disk st" "io_heap (set_in_use p b st) = io_heap st"
  "m_locked (set_in_use p b st) = m_locked st" "m_max_size (set_in_use p b st) = m_max_size st"
  "dom (m_file_stream (set_in_use p b st)) = dom (m_file_stream st)"
  by (auto simp: set_in_use_def split: option.split prod.split)

lemma update_usage_order_fields [simp]:
  "io_disk (update_usage_order p st) = io_disk st" "io_heap (update_usage_order p st) = io_heap st"
  "m_locked (update_usage_order p st) = m_locked st" "m_max_size (update_usage_order p st) = m_max_size st"
  "dom (m_file_stream (update_usage_order p st)) = dom (m_file_stream st)"
  by (auto simp: update_usage_order_def split: option.split prod.split)

text \<open>The mode a stream is taken in, and the position it then has.\<close>

definition cached_pos :: "file_io \<Rightarrow> string \<Rightarrow> string \<Rightarrow> nat" where
  "cached_pos st p mode =
     (case m_file_stream st p of
        Some (info, m) \<Rightarrow> if \<not> si_in_use info \<and> m = mode then stream_tell (si_stream info) st else 0
      | None \<Rightarrow> 0)"

lemma open_file_existing:
  assumes "p \<in> dom (files d)" "\<not> fst (snd (open_mode_of mode))"
  shows "\<exists>s. open_file p mode d = Some (d, s) \<and> st_path s = p \<and> st_is_open s \<and> st_pos s = 0
    \<and> st_writable s = fst (open_mode_of mode) \<and> st_append s = snd (snd (open_mode_of mode))"
  using assms by (auto simp: open_file_def split: prod.split)

lemma get_file_stream_ready:
  assumes rdy: "io_ready P st" and p: "p \<in> P" and mode: "mode = ''binary'' \<or> mode = ''binary-read''"
  shows "yields (get_file_stream p mode st) (\<lambda>(r, st'). io_ready P st' \<and> io_disk st' = io_disk st \<and>
     (\<exists>a. r = Some a \<and> stream_at st' a p (cached_pos st p mode) \<and> (mode = ''binary'' \<longrightarrow> stream_rw st' a)))"
proof -
  note d = io_ready_D [OF rdy]
  have modes: "\<not> fst (snd (open_mode_of mode))" "\<not> snd (snd (open_mode_of mode))"
    "mode = ''binary'' \<longrightarrow> fst (open_mode_of mode)"
    using mode by (auto simp: open_mode_of_def)
  define st0 where "st0 = st\<lparr>m_locked := True\<rparr>"
  have new: "yields (open_new_stream p mode st0) (\<lambda>(r, st'). io_ready P st' \<and> io_disk st' = io_disk st \<and>
     (\<exists>a. r = Some a \<and> stream_at st' a p 0 \<and> (mode = ''binary'' \<longrightarrow> stream_rw st' a)))"
  proof -
    obtain s where s: "open_file p mode (io_disk st) = Some (io_disk st, s)" "st_path s = p" "st_is_open s"
        "st_pos s = 0" "st_writable s = fst (open_mode_of mode)" "st_append s = snd (snd (open_mode_of mode))"
      using open_file_existing [of p "io_disk st" mode] d(4) p modes by auto
    obtain st' where st': "open_new_stream p mode st0 = Inr (Some (io_next st), st')"
      and f: "io_disk st' = io_disk st" "\<not> m_locked st'" "m_max_size st' = m_max_size st"
        "dom (m_file_stream st') = insert p (dom (m_file_stream st))" "io_heap st' (io_next st) = Some s"
      using io_ready_room [OF rdy] s(1) by (simp add: open_new_stream_def st0_def Let_def)
    have "fm_wf st'" using open_new_stream_wf [OF _ st'] d(1) by (simp add: st0_def)
    moreover have "insert p (dom (m_file_stream st)) \<union> P = dom (m_file_stream st) \<union> P" using p by auto
    ultimately have "io_ready P st'" using d f by (simp add: io_ready_def)
    then show ?thesis using s f modes by (simp add: st' stream_at_def stream_rw_def)
  qed
  show ?thesis
  proof (cases "\<exists>info. m_file_stream st p = Some (info, mode) \<and> \<not> si_in_use info")
    case True
    then obtain info where i: "m_file_stream st p = Some (info, mode)" "\<not> si_in_use info" by auto
    define st' where "st' = (update_usage_order p (set_in_use p True st0))\<lparr>m_locked := False\<rparr>"
    have get: "get_file_stream p mode st = Inr (Some (si_stream info), st')"
      using d(2) i by (simp add: get_file_stream_def Let_def st0_def st'_def)
    have f: "io_disk st' = io_disk st" "\<not> m_locked st'" "m_max_size st' = m_max_size st"
        "dom (m_file_stream st') = dom (m_file_stream st)" "io_heap st' = io_heap st"
      by (simp_all add: st'_def st0_def)
    have "fm_wf st'" by (rule get_file_stream_wf [OF d(1) get])
    then have "io_ready P st'" using d f by (simp add: io_ready_def)
    moreover obtain s where s: "io_heap st (si_stream info) = Some s" "st_path s = p" "st_is_open s"
        "st_writable s = fst (open_mode_of mode)" "st_append s = snd (snd (open_mode_of mode))"
      using fm_wfD [OF d(1) i(1)] by metis
    ultimately show ?thesis using i f modes
      by (simp add: get stream_at_def stream_rw_def cached_pos_def stream_tell_def)
  next
    case False
    then have "get_file_stream p mode st = open_new_stream p mode st0" "cached_pos st p mode = 0"
      using d(2) by (auto simp: get_file_stream_def st0_def Let_def cached_pos_def split: option.split)
    then show ?thesis using new by simp
  qed
qed

lemma release_file_stream_ready:
  assumes rdy: "io_ready P st"
  shows "yields (release_file_stream p st) (\<lambda>st'. io_ready P st' \<and> io_disk st' = io_disk st \<and> io_heap st' = io_heap st)"
proof -
  have r: "release_file_stream p st = Inr (update_usage_order p (set_in_use p False st))"
    using io_ready_D [OF rdy] by (simp add: release_file_stream_def)
  have "fm_wf (update_usage_order p (set_in_use p False st))"
    using io_ready_D [OF rdy] by (simp add: update_usage_order_wf set_in_use_wf)
  then show ?thesis using io_ready_D [OF rdy] by (simp add: r io_ready_def)
qed

lemma stream_seek_ready:
  assumes rdy: "io_ready P st" and at: "stream_at st a p pos" and ge: "0 \<le> i"
  shows "yields (stream_seek a i st) (\<lambda>st'. io_ready P st' \<and> io_disk st' = io_disk st
    \<and> stream_at st' a p (nat i) \<and> stream_rw st' a = stream_rw st a)"
proof -
  obtain s where s: "io_heap st a = Some s" "st_path s = p" "st_is_open s" using at by (auto simp: stream_at_def)
  show ?thesis using io_ready_D [OF rdy] fm_wf_reposition [OF io_ready_D(1) [OF rdy] s(1)] s ge
    by (simp add: stream_seek_def io_ready_def stream_at_def stream_rw_def)
qed

lemma stream_size_at: "stream_at st a p pos \<Longrightarrow> files (io_disk st) p = Some f \<Longrightarrow> stream_size a st = Inr (length f)"
  by (auto simp: stream_at_def stream_size_def)

lemma stream_tell_at: "stream_at st a p pos \<Longrightarrow> stream_tell a st = pos"
  by (auto simp: stream_at_def stream_tell_def)

lemma stream_is_open_at: "stream_at st a p pos \<Longrightarrow> stream_is_open a st"
  by (auto simp: stream_at_def stream_is_open_def)

lemma stream_write_ready:
  assumes rdy: "io_ready P st" and at: "stream_at st a p pos" "stream_rw st a"
    and f: "files (io_disk st) p = Some f"
  shows "yields (stream_write a bs st) (\<lambda>st'. io_ready P st' \<and>
    io_disk st' = put_file p (pwrite pos bs f) (io_disk st)
    \<and> stream_at st' a p (pos + length bs) \<and> stream_rw st' a)"
proof -
  obtain s where s: "io_heap st a = Some s" "st_path s = p" "st_is_open s" "st_pos s = pos"
      "st_writable s" "\<not> st_append s" using at by (auto simp: stream_at_def stream_rw_def)
  define st' where "st' = st\<lparr>io_disk := (io_disk st)\<lparr>files := (files (io_disk st))(p \<mapsto> pwrite pos bs f)\<rparr>,
      io_heap := (io_heap st)(a \<mapsto> s\<lparr>st_pos := pos + length bs\<rparr>)\<rparr>"
  have w: "stream_write a bs st = Inr st'" using s f by (simp add: stream_write_def st'_def Let_def)
  have "fm_wf st'" by (rule stream_write_wf [OF io_ready_D(1) [OF rdy] w])
  moreover have "P \<subseteq> dom (files (io_disk st'))" using io_ready_D(4) [OF rdy] f by (auto simp: st'_def)
  ultimately show ?thesis using io_ready_D [OF rdy] s
    unfolding w by (simp add: io_ready_def stream_at_def stream_rw_def st'_def put_file_def)
qed

lemma stream_read_ready:
  assumes rdy: "io_ready P st" and at: "stream_at st a p pos"
    and f: "files (io_disk st) p = Some f" and r: "pread pos n f = Inr bs"
  shows "yields (stream_read a n st) (\<lambda>(bs', st'). bs' = bs \<and> io_ready P st' \<and> io_disk st' = io_disk st
    \<and> stream_at st' a p (pos + n) \<and> stream_rw st' a = stream_rw st a)"
proof -
  obtain s where s: "io_heap st a = Some s" "st_path s = p" "st_is_open s" "st_pos s = pos"
    using at by (auto simp: stream_at_def)
  show ?thesis using io_ready_D [OF rdy] fm_wf_reposition [OF io_ready_D(1) [OF rdy] s(1)] s f r
    by (simp add: stream_read_def io_ready_def stream_at_def stream_rw_def)
qed

section \<open>Runs of operations on one stream\<close>

text \<open>A run of \<open>file->write\<close> calls.\<close>

fun stream_writes :: "nat \<Rightarrow> string list \<Rightarrow> file_io \<Rightarrow> file_io result" where
  "stream_writes a [] st = Inr st"
| "stream_writes a (bs # bss) st = res_bind (stream_write a bs st) (stream_writes a bss)"

lemma with_stream_ready:
  assumes "io_ready P st" "p \<in> P" "mode = ''binary'' \<or> mode = ''binary-read''"
    and body: "\<And>a st1. io_ready P st1 \<Longrightarrow> io_disk st1 = io_disk st \<Longrightarrow>
      stream_at st1 a p (cached_pos st p mode) \<Longrightarrow> (mode = ''binary'' \<Longrightarrow> stream_rw st1 a) \<Longrightarrow> yields (body a st1) Q"
  shows "yields (with_stream p mode closed body st) Q"
  unfolding with_stream_def
  by (rule yields_bind [OF get_file_stream_ready [OF assms(1-3)]])
     (auto simp: stream_is_open_at intro: body)

lemma stream_writes_ready:
  assumes "io_ready P st" "stream_at st a p pos" "stream_rw st a" "files (io_disk st) p = Some f"
  shows "yields (stream_writes a bss st) (\<lambda>st'. io_ready P st' \<and>
    files (io_disk st') p = Some (pwrite pos (concat bss) f) \<and>
    put_file p [] (io_disk st') = put_file p [] (io_disk st) \<and>
    stream_at st' a p (pos + length (concat bss)) \<and> stream_rw st' a)"
  using assms
proof (induction bss arbitrary: st pos f)
  case (Cons bs bss)
  show ?case unfolding stream_writes.simps
  proof (rule yields_bind [OF stream_write_ready [OF Cons.prems, of bs]], elim conjE)
    fix st1
    assume st1: "io_ready P st1" "io_disk st1 = put_file p (pwrite pos bs f) (io_disk st)"
      "stream_at st1 a p (pos + length bs)" "stream_rw st1 a"
    show "yields (stream_writes a bss st1) (\<lambda>st'. io_ready P st' \<and>
        files (io_disk st') p = Some (pwrite pos (concat (bs # bss)) f) \<and>
        put_file p [] (io_disk st') = put_file p [] (io_disk st) \<and>
        stream_at st' a p (pos + length (concat (bs # bss))) \<and> stream_rw st' a)"
      by (rule yields_mono [OF Cons.IH [OF st1(1,3,4)]])
         (use st1(2) in \<open>auto simp: pwrite_append add.assoc\<close>)
  qed
qed simp

text \<open>A file is changed and nothing else: the shape of every write below.\<close>

definition wrote :: "string set \<Rightarrow> string \<Rightarrow> string \<Rightarrow> file_io \<Rightarrow> file_io \<Rightarrow> bool" where
  "wrote P p f st st' \<longleftrightarrow> io_ready P st' \<and> io_disk st' = put_file p f (io_disk st)"

lemma put_file_same: "files d p = Some f \<Longrightarrow> put_file p f d = d"
  by (simp add: put_file_def fun_upd_idem)

lemma disk_eqI:
  assumes "put_file p [] d' = put_file p [] d" "files d' p = Some f"
  shows "d' = put_file p f d"
proof -
  have "put_file p f (put_file p [] d') = put_file p f (put_file p [] d)" using assms(1) by simp
  then show ?thesis using assms(2) by (simp add: put_file_same)
qed

text \<open>Seek, write and release, the body of all the writers.\<close>

lemma seek_writes_release:
  assumes "io_ready P st" "stream_at st a p pos0" "stream_rw st a" "files (io_disk st) p = Some f" "0 \<le> i"
    and k: "\<And>st'. wrote P p (pwrite (nat i) (concat bss) f) st st' \<Longrightarrow> yields (k st') Q"
  shows "yields (res_bind (stream_seek a i st) (\<lambda>st. res_bind (stream_writes a bss st) (\<lambda>st.
    res_bind (release_file_stream p st) k))) Q"
proof (rule yields_bind [OF stream_seek_ready [OF assms(1,2,5)]], elim conjE)
  fix st1
  assume 1: "io_ready P st1" "io_disk st1 = io_disk st" "stream_at st1 a p (nat i)" "stream_rw st1 a = stream_rw st a"
  have f: "files (io_disk st1) p = Some f" using assms(4) 1(2) by simp
  have rw: "stream_rw st1 a" using 1(4) assms(3) by simp
  show "yields (res_bind (stream_writes a bss st1) (\<lambda>st. res_bind (release_file_stream p st) k)) Q"
  proof (rule yields_bind [OF stream_writes_ready [OF 1(1,3) rw f, of bss]], elim conjE)
    fix st2
    assume 2: "io_ready P st2" "files (io_disk st2) p = Some (pwrite (nat i) (concat bss) f)"
      "put_file p [] (io_disk st2) = put_file p [] (io_disk st1)"
    show "yields (res_bind (release_file_stream p st2) k) Q"
    proof (rule yields_bind [OF release_file_stream_ready [OF 2(1)]], elim conjE)
      fix st3
      assume "io_ready P st3" "io_disk st3 = io_disk st2"
      then have "wrote P p (pwrite (nat i) (concat bss) f) st st3"
        using disk_eqI [OF 2(3,2)] 1(2) by (simp add: wrote_def)
      then show "yields (k st3) Q" by (rule k)
    qed
  qed
qed

lemma wrote_trans: "wrote P p f st st1 \<Longrightarrow> wrote P p g st1 st2 \<Longrightarrow> wrote P p g st st2"
  by (simp add: wrote_def)

lemma wrote_ready: "wrote P p f st st' \<Longrightarrow> io_ready P st'"
  by (simp add: wrote_def)

lemma wrote_file: "wrote P p f st st' \<Longrightarrow> files (io_disk st') p = Some f"
  by (simp add: wrote_def)

lemma stream_seek_end_ready:
  assumes "io_ready P st" "stream_at st a p pos" "files (io_disk st) p = Some f" "n \<le> length f"
  shows "yields (stream_seek_end a (- int n) st) (\<lambda>st'. io_ready P st' \<and> io_disk st' = io_disk st
    \<and> stream_at st' a p (length f - n) \<and> stream_rw st' a = stream_rw st a)"
proof -
  have "nat (int (length f) + - int n) = length f - n" by simp
  then show ?thesis
    using stream_seek_ready [OF assms(1,2), of "int (length f) + - int n"] assms(4)
    by (simp add: stream_seek_end_def stream_size_at [OF assms(2,3)])
qed

lemma read_bind:
  assumes "io_ready P st" "stream_at st a p pos" "files (io_disk st) p = Some f" "pread pos n f = Inr bs"
    and "\<And>st'. io_ready P st' \<Longrightarrow> io_disk st' = io_disk st \<Longrightarrow> stream_at st' a p (pos + n) \<Longrightarrow> yields (k (bs, st')) Q"
  shows "yields (res_bind (stream_read a n st) k) Q"
  by (rule yields_bind [OF stream_read_ready [OF assms(1-4)]]) (auto intro: assms(5))

lemma seek_writes_bind:
  assumes "io_ready P st" "stream_at st a p pos0" "stream_rw st a" "files (io_disk st) p = Some f" "0 \<le> i"
    and k: "\<And>st'. wrote P p (pwrite (nat i) (concat bss) f) st st' \<Longrightarrow>
      stream_at st' a p (nat i + length (concat bss)) \<Longrightarrow> stream_rw st' a \<Longrightarrow> yields (k st') Q"
  shows "yields (res_bind (stream_seek a i st) (\<lambda>st. res_bind (stream_writes a bss st) k)) Q"
proof (rule yields_bind [OF stream_seek_ready [OF assms(1,2,5)]], elim conjE)
  fix st1
  assume 1: "io_ready P st1" "io_disk st1 = io_disk st" "stream_at st1 a p (nat i)" "stream_rw st1 a = stream_rw st a"
  have f: "files (io_disk st1) p = Some f" and rw: "stream_rw st1 a" using assms(3,4) 1 by simp_all
  show "yields (res_bind (stream_writes a bss st1) k) Q"
    by (rule yields_bind [OF stream_writes_ready [OF 1(1,3) rw f]], rule k)
       (use 1(2) in \<open>auto simp: wrote_def intro: disk_eqI\<close>)
qed

text \<open>One step of a body at a time, keeping the stream's rights and the disk.\<close>

definition stream_ready :: "string set \<Rightarrow> disk \<Rightarrow> nat \<Rightarrow> string \<Rightarrow> nat \<Rightarrow> bool \<Rightarrow> file_io \<Rightarrow> bool" where
  "stream_ready P d a p pos rw st \<longleftrightarrow>
     io_ready P st \<and> io_disk st = d \<and> stream_at st a p pos \<and> (rw \<longrightarrow> stream_rw st a)"

lemma seek_bind:
  assumes "stream_ready P d a p pos rw st" "0 \<le> i"
    and "\<And>st'. stream_ready P d a p (nat i) rw st' \<Longrightarrow> yields (k st') Q"
  shows "yields (res_bind (stream_seek a i st) k) Q"
  by (rule yields_bind [OF stream_seek_ready, of P st a p pos i])
     (use assms in \<open>auto simp: stream_ready_def\<close>)

lemma read_step:
  assumes "stream_ready P d a p pos rw st" "files d p = Some f" "pread pos n f = Inr bs"
    and "\<And>st'. stream_ready P d a p (pos + n) rw st' \<Longrightarrow> yields (k bs st') Q"
  shows "yields (res_bind (stream_read a n st) (\<lambda>(bs, st). k bs st)) Q"
  by (rule yields_bind [OF stream_read_ready, of P st a p pos f n bs])
     (use assms in \<open>auto simp: stream_ready_def\<close>)

lemma release_step:
  assumes "stream_ready P d a p pos rw st"
    and "\<And>st'. io_ready P st' \<Longrightarrow> io_disk st' = d \<Longrightarrow> yields (k st') Q"
  shows "yields (res_bind (release_file_stream p st) k) Q"
proof -
  have "io_ready P st" "io_disk st = d" using assms(1) by (simp_all add: stream_ready_def)
  then show ?thesis by (intro yields_bind [OF release_file_stream_ready]) (auto intro: assms(2))
qed

lemma writes_bind:
  assumes "stream_ready P d a p pos True st" "files d p = Some f"
    and "\<And>st'. stream_ready P (put_file p (pwrite pos (concat bss) f) d) a p (pos + length (concat bss)) True st' \<Longrightarrow>
      yields (k st') Q"
  shows "yields (res_bind (stream_writes a bss st) k) Q"
proof -
  have st: "io_ready P st" "stream_at st a p pos" "stream_rw st a" "files (io_disk st) p = Some f" "io_disk st = d"
    using assms(1,2) by (simp_all add: stream_ready_def)
  show ?thesis
  proof (rule yields_bind [OF stream_writes_ready [OF st(1-4), of bss]], elim conjE)
    fix st'
    assume "io_ready P st'" and f: "files (io_disk st') p = Some (pwrite pos (concat bss) f)"
      and d: "put_file p [] (io_disk st') = put_file p [] (io_disk st)"
      and "stream_at st' a p (pos + length (concat bss))" "stream_rw st' a"
    then show "yields (k st') Q"
      by (intro assms(3)) (use disk_eqI [OF d f] st(5) in \<open>simp add: stream_ready_def\<close>)
  qed
qed

lemma with_stream_binary:
  assumes "io_ready P st" "p \<in> P"
    and "\<And>a st1. stream_ready P (io_disk st) a p (cached_pos st p ''binary'') True st1 \<Longrightarrow> yields (body a st1) Q"
  shows "yields (with_stream p ''binary'' closed body st) Q"
  by (rule with_stream_ready [OF assms(1,2)]) (auto simp: stream_ready_def intro: assms(3))

lemma mk_file_io_ready:
  "finite P \<Longrightarrow> P \<subseteq> dom (files d) \<Longrightarrow> card P < n \<Longrightarrow> io_ready P (mk_file_io n d)"
  using mk_file_io_wf by (simp add: io_ready_def) (simp add: mk_file_io_def)

lemma mk_file_io_disk [simp]: "io_disk (mk_file_io n d) = d"
  by (simp add: mk_file_io_def)

section \<open>The usage order\<close>

text \<open>A use of a file by one thread: take its stream, do something with it, release it.\<close>

definition fm_access :: "string \<Rightarrow> string \<Rightarrow> file_io \<Rightarrow> file_io result" where
  "fm_access mode p st = res_bind (get_file_stream p mode st) (\<lambda>(r, st1). release_file_stream p st1)"

fun fm_accesses :: "string \<Rightarrow> string list \<Rightarrow> file_io \<Rightarrow> file_io result" where
  "fm_accesses mode [] st = Inr st"
| "fm_accesses mode (p # ps) st = res_bind (fm_access mode p st) (fm_accesses mode ps)"

text \<open>No stream is in use, all are cached in one mode, and the order lists each of them once.\<close>

definition fm_idle :: "string \<Rightarrow> file_io \<Rightarrow> bool" where
  "fm_idle mode st \<longleftrightarrow> fm_wf st \<and> \<not> m_locked st \<and>
     (\<forall>p e. m_file_stream st p = Some e \<longrightarrow> \<not> si_in_use (fst e) \<and> snd e = mode) \<and>
     distinct (map snd (m_usage_order st)) \<and> snd ` set (m_usage_order st) = dom (m_file_stream st)"

lemma filter_node_path:
  assumes "distinct (map fst ns)" "(i, p) \<in> set ns" "distinct (map snd ns)"
  shows "map snd (filter (\<lambda>n. fst n \<noteq> i) ns) = filter (\<lambda>q. q \<noteq> p) (map snd ns)"
  using assms
proof (induction ns)
  case (Cons n ns)
  show ?case
  proof (cases "n = (i, p)")
    case True
    have "\<forall>m \<in> set ns. fst m \<noteq> i" "\<forall>m \<in> set ns. snd m \<noteq> p"
      using Cons.prems(1,3) True by force+
    then show ?thesis using True by (simp add: filter_map comp_def)
  next
    case False
    with Cons.prems have in_ns: "(i, p) \<in> set ns" by simp
    have "fst n \<notin> fst ` set ns" "snd n \<notin> snd ` set ns" using Cons.prems by simp_all
    moreover have "i \<in> fst ` set ns" "p \<in> snd ` set ns"
      using imageI [OF in_ns, of fst] imageI [OF in_ns, of snd] by simp_all
    ultimately have "fst n \<noteq> i" "snd n \<noteq> p" by metis+
    with Cons in_ns show ?thesis by simp
  qed
qed simp

lemma removeAll_filter: "filter (\<lambda>q. q \<noteq> p) xs = removeAll p xs"
  by (simp add: removeAll_filter_not_eq eq_commute)

lemma update_usage_order_list:
  assumes "fm_wf st" "m_file_stream st p = Some e" "distinct (map snd (m_usage_order st))"
  shows "map snd (m_usage_order (update_usage_order p st)) = p # removeAll p (map snd (m_usage_order st))"
proof -
  have "(si_it (fst e), p) \<in> set (m_usage_order st)" using fm_wf_entry [OF assms(1,2)] by (simp add: entry_ok_def)
  then have "map snd (filter (\<lambda>n. fst n \<noteq> si_it (fst e)) (m_usage_order st)) = removeAll p (map snd (m_usage_order st))"
    using assms by (simp add: filter_node_path fm_wf_def flip: removeAll_filter)
  then show ?thesis using assms(2) by (cases e) (simp add: update_usage_order_def)
qed

lemma set_in_use_order [simp]: "m_usage_order (set_in_use p b st) = m_usage_order st"
  by (simp add: set_in_use_def split: option.split prod.split)

lemma set_in_use_entry:
  "m_file_stream st p = Some (info, mode) \<Longrightarrow>
   m_file_stream (set_in_use p b st) = (m_file_stream st)(p \<mapsto> (info\<lparr>si_in_use := b\<rparr>, mode))"
  by (simp add: set_in_use_def)

lemma update_usage_order_entry:
  "m_file_stream st p = Some (info, mode) \<Longrightarrow>
   m_file_stream (update_usage_order p st) = (m_file_stream st)(p \<mapsto> (info\<lparr>si_it := io_next st\<rparr>, mode))"
  by (simp add: update_usage_order_def)

text \<open>One use of a file, when there is a stream for it or room for one.\<close>

lemma fm_access_idle:
  assumes idle: "fm_idle mode st" and p: "p \<in> dom (files (io_disk st))"
    and mode: "mode = ''binary'' \<or> mode = ''binary-read''"
    and room: "p \<in> dom (m_file_stream st) \<or> card (dom (m_file_stream st)) < m_max_size st"
  shows "yields (fm_access mode p st) (\<lambda>st'. fm_idle mode st' \<and> io_disk st' = io_disk st \<and>
    m_max_size st' = m_max_size st \<and> dom (m_file_stream st') = insert p (dom (m_file_stream st)) \<and>
    map snd (m_usage_order st') = p # removeAll p (map snd (m_usage_order st)))"
proof -
  have wf: "fm_wf st" and unl: "\<not> m_locked st" and dist: "distinct (map snd (m_usage_order st))"
    and dom: "snd ` set (m_usage_order st) = dom (m_file_stream st)"
    and ent: "\<And>q e. m_file_stream st q = Some e \<Longrightarrow> \<not> si_in_use (fst e) \<and> snd e = mode"
    using idle unfolding fm_idle_def by blast+
  have get: "yields (get_file_stream p mode st) (\<lambda>(r, st1). fm_wf st1 \<and> \<not> m_locked st1 \<and> io_disk st1 = io_disk st \<and>
      m_max_size st1 = m_max_size st \<and> dom (m_file_stream st1) = insert p (dom (m_file_stream st)) \<and>
      (\<forall>q. q \<noteq> p \<longrightarrow> m_file_stream st1 q = m_file_stream st q) \<and>
      (\<exists>info. m_file_stream st1 p = Some (info, mode)) \<and>
      map snd (m_usage_order st1) = p # removeAll p (map snd (m_usage_order st)))"
  proof (cases "m_file_stream st p")
    case (Some e)
    obtain info where e: "e = (info, mode)" and nu: "\<not> si_in_use info" using ent [OF Some] by (cases e) auto
    define st0 where "st0 = set_in_use p True (st\<lparr>m_locked := True\<rparr>)"
    define st1 where "st1 = (update_usage_order p st0)\<lparr>m_locked := False\<rparr>"
    have g: "get_file_stream p mode st = Inr (Some (si_stream info), st1)"
      using unl Some e nu by (simp add: get_file_stream_def Let_def st0_def st1_def)
    have m0: "m_file_stream st0 = (m_file_stream st)(p \<mapsto> (info\<lparr>si_in_use := True\<rparr>, mode))"
      using Some e by (simp add: st0_def set_in_use_entry)
    have "map snd (m_usage_order (update_usage_order p st0)) = p # removeAll p (map snd (m_usage_order st0))"
      by (rule update_usage_order_list) (use wf m0 dist in \<open>simp_all add: st0_def set_in_use_wf\<close>)
    moreover have "m_file_stream st1 = (m_file_stream st)(p \<mapsto> (info\<lparr>si_in_use := True, si_it := io_next st0\<rparr>, mode))"
      by (simp add: st1_def update_usage_order_entry m0)
    ultimately show ?thesis
      using get_file_stream_wf [OF wf g] by (simp add: g) (simp add: st1_def st0_def dom_def)
  next
    case None
    with room have rm: "card (dom (m_file_stream st)) < m_max_size st" by auto
    obtain s where s: "open_file p mode (io_disk st) = Some (io_disk st, s)"
      using open_file_existing [of p "io_disk st" mode] p mode by (auto simp: open_mode_of_def)
    have new: "p \<notin> snd ` set (m_usage_order st)" using None dom by auto
    obtain st1 where g: "get_file_stream p mode st = Inr (Some (io_next st), st1)"
      and f: "io_disk st1 = io_disk st" "\<not> m_locked st1" "m_max_size st1 = m_max_size st"
        "m_file_stream st1 = (m_file_stream st)(p \<mapsto> (\<lparr>si_stream = io_next st, si_it = io_next st + 1, si_in_use = True\<rparr>, mode))"
        "m_usage_order st1 = (io_next st + 1, p) # m_usage_order st"
      using unl None rm s by (simp add: get_file_stream_def open_new_stream_def Let_def)
    show ?thesis using get_file_stream_wf [OF wf g] new by (simp add: g f removeAll_id)
  qed
  show ?thesis unfolding fm_access_def
  proof (rule yields_bind [OF get])
    fix x :: "nat option \<times> file_io"
    obtain r st1 where x: "x = (r, st1)" by (cases x)
    assume "case x of (r, st1) \<Rightarrow> fm_wf st1 \<and> \<not> m_locked st1 \<and> io_disk st1 = io_disk st \<and>
      m_max_size st1 = m_max_size st \<and> dom (m_file_stream st1) = insert p (dom (m_file_stream st)) \<and>
      (\<forall>q. q \<noteq> p \<longrightarrow> m_file_stream st1 q = m_file_stream st q) \<and>
      (\<exists>info. m_file_stream st1 p = Some (info, mode)) \<and>
      map snd (m_usage_order st1) = p # removeAll p (map snd (m_usage_order st))"
    then obtain info where q: "fm_wf st1" "\<not> m_locked st1" "io_disk st1 = io_disk st" "m_max_size st1 = m_max_size st"
        "dom (m_file_stream st1) = insert p (dom (m_file_stream st))"
        "\<forall>q. q \<noteq> p \<longrightarrow> m_file_stream st1 q = m_file_stream st q" "m_file_stream st1 p = Some (info, mode)"
        "map snd (m_usage_order st1) = p # removeAll p (map snd (m_usage_order st))"
      by (auto simp: x)
    define st0 where "st0 = set_in_use p False st1"
    have m0: "m_file_stream st0 = (m_file_stream st1)(p \<mapsto> (info\<lparr>si_in_use := False\<rparr>, mode))"
      using q(7) by (simp add: st0_def set_in_use_entry)
    define st' where "st' = update_usage_order p st0"
    have wf': "fm_wf st'" using q(1) by (simp add: st'_def st0_def update_usage_order_wf set_in_use_wf)
    have ord: "map snd (m_usage_order st') = p # removeAll p (p # removeAll p (map snd (m_usage_order st)))"
      unfolding st'_def
      by (subst update_usage_order_list [of st0 p])
         (use q m0 dist in \<open>simp_all add: st0_def set_in_use_wf distinct_removeAll\<close>)
    have ms: "m_file_stream st' = (m_file_stream st1)(p \<mapsto> (info\<lparr>si_in_use := False, si_it := io_next st0\<rparr>, mode))"
      by (simp add: st'_def update_usage_order_entry m0)
    have "fm_idle mode st'"
      unfolding fm_idle_def
    proof (intro conjI allI impI)
      show "fm_wf st'" by (rule wf')
      show "\<not> m_locked st'" using q(2) by (simp add: st'_def st0_def)
      show "distinct (map snd (m_usage_order st'))" using dist unfolding ord by (simp add: distinct_removeAll)
      have "snd ` set (m_usage_order st') = insert p (snd ` set (m_usage_order st) - {p})"
        using arg_cong [OF ord, of set] by simp
      then show "snd ` set (m_usage_order st') = dom (m_file_stream st')" using q(5) dom by (auto simp: ms)
      show "\<not> si_in_use (fst e)" "snd e = mode" if "m_file_stream st' q' = Some e" for q' e
        using that q(6) ent [of q' e] by (auto simp: ms split: if_splits)
    qed
    then show "yields (case x of (r, st1) \<Rightarrow> release_file_stream p st1)
        (\<lambda>st'. fm_idle mode st' \<and> io_disk st' = io_disk st \<and> m_max_size st' = m_max_size st \<and>
          dom (m_file_stream st') = insert p (dom (m_file_stream st)) \<and>
          map snd (m_usage_order st') = p # removeAll p (map snd (m_usage_order st)))"
      using q ord by (simp add: x release_file_stream_def flip: st0_def st'_def) (simp add: st'_def st0_def)
  qed
qed

lemma mk_file_io_idle [simp]: "fm_idle mode (mk_file_io n d)"
  using mk_file_io_wf [of n d] by (simp add: fm_idle_def) (simp add: mk_file_io_def)

lemma remdups_snoc: "remdups (ps @ [p]) = removeAll p (remdups ps) @ [p]"
  by (induction ps) auto

lemma rev_remdups_snoc: "rev (remdups (ps @ [p])) = p # removeAll p (rev (remdups ps))"
  by (simp add: remdups_snoc rev_filter flip: removeAll_filter)

lemma fm_accesses_append:
  "fm_accesses mode (ps @ qs) st = res_bind (fm_accesses mode ps st) (fm_accesses mode qs)"
proof (induction ps arbitrary: st)
  case (Cons p ps)
  then show ?case by (cases "fm_access mode p st") simp_all
qed simp

lemma fm_accesses_idle:
  assumes mode: "mode = ''binary'' \<or> mode = ''binary-read''"
  shows "set ps \<subseteq> dom (files d) \<Longrightarrow> card (set ps) \<le> n \<Longrightarrow>
    yields (fm_accesses mode ps (mk_file_io n d)) (\<lambda>st. fm_idle mode st \<and> io_disk st = d \<and> m_max_size st = n \<and>
      dom (m_file_stream st) = set ps \<and> map snd (m_usage_order st) = rev (remdups ps))"
proof (induction ps rule: rev_induct)
  case Nil
  then show ?case using mk_file_io_idle by simp (simp add: mk_file_io_def)
next
  case (snoc p ps)
  have "card (set ps) \<le> n" using snoc.prems(2) by (simp add: card_insert_if split: if_splits)
  then have IH: "yields (fm_accesses mode ps (mk_file_io n d)) (\<lambda>st. fm_idle mode st \<and> io_disk st = d \<and>
      m_max_size st = n \<and> dom (m_file_stream st) = set ps \<and> map snd (m_usage_order st) = rev (remdups ps))"
    using snoc by simp
  have room: "p \<in> set ps \<or> card (set ps) < n" using snoc.prems(2) by (auto simp: card_insert_if split: if_splits)
  show ?case unfolding fm_accesses_append
  proof (rule yields_bind [OF IH])
    fix st
    assume st: "fm_idle mode st \<and> io_disk st = d \<and> m_max_size st = n \<and> dom (m_file_stream st) = set ps \<and>
      map snd (m_usage_order st) = rev (remdups ps)"
    then have "yields (fm_access mode p st) (\<lambda>st'. fm_idle mode st' \<and> io_disk st' = io_disk st \<and>
        m_max_size st' = m_max_size st \<and> dom (m_file_stream st') = insert p (dom (m_file_stream st)) \<and>
        map snd (m_usage_order st') = p # removeAll p (map snd (m_usage_order st)))"
      using snoc.prems(1) room mode by (intro fm_access_idle) auto
    then show "yields (fm_accesses mode [p] st) (\<lambda>st. fm_idle mode st \<and> io_disk st = d \<and> m_max_size st = n \<and>
        dom (m_file_stream st) = set (ps @ [p]) \<and> map snd (m_usage_order st) = rev (remdups (ps @ [p])))"
      unfolding rev_remdups_snoc fm_accesses.simps
      by (rule yields_bind) (use st in simp)
  qed
qed

text \<open>What the manager does with a new path when it is full.\<close>

lemma get_file_stream_full:
  assumes "\<not> m_locked st" "m_file_stream st p = None" "m_max_size st \<le> card (dom (m_file_stream st))"
    "m_usage_order st \<noteq> []"
  shows "get_file_stream p mode st = Inl Deadlock"
  using assms
  by (simp add: get_file_stream_def Let_def open_new_stream_def evict_least_used_def close_file_stream_def)

text \<open>Any sequence of the public operations.\<close>

datatype fm_call = Call_get string string | Call_release string | Call_close string | Call_reset string

fun fm_step :: "fm_call \<Rightarrow> file_io \<Rightarrow> file_io result" where
  "fm_step (Call_get p mode) st = res_bind (get_file_stream p mode st) (\<lambda>(r, st'). Inr st')"
| "fm_step (Call_release p) st = release_file_stream p st"
| "fm_step (Call_close p) st = close_file_stream p st"
| "fm_step (Call_reset p) st = reset_file_stream p st"

fun fm_run :: "fm_call list \<Rightarrow> file_io \<Rightarrow> file_io result" where
  "fm_run [] st = Inr st"
| "fm_run (c # cs) st = res_bind (fm_step c st) (fm_run cs)"

text \<open>Well formed, unlocked and, as eviction never succeeds, never above the capacity.\<close>

definition fm_inv :: "file_io \<Rightarrow> bool" where
  "fm_inv st \<longleftrightarrow> fm_wf st \<and> \<not> m_locked st \<and> card (dom (m_file_stream st)) \<le> m_max_size st"

lemma evict_locked: "m_locked st \<Longrightarrow> evict_least_used st = (if m_usage_order st = [] then Inr st else Inl Deadlock)"
  by (simp add: evict_least_used_def close_file_stream_def)

lemma open_new_stream_size:
  assumes "fm_wf st" "m_locked st" "open_new_stream p mode st = Inr (r, st')"
    "card (dom (m_file_stream st)) \<le> m_max_size st" "0 < m_max_size st"
  shows "\<not> m_locked st' \<and> card (dom (m_file_stream st')) \<le> m_max_size st' \<and> m_max_size st' = m_max_size st"
proof (cases "m_max_size st \<le> card (dom (m_file_stream st))")
  case True
  with assms(5) have "dom (m_file_stream st) \<noteq> {}" by (metis card.empty leD)
  then obtain q where "q \<in> dom (m_file_stream st)" by blast
  then obtain e where "m_file_stream st q = Some e" by (meson domD)
  then have "(si_it (fst e), q) \<in> set (m_usage_order st)"
    using fm_wf_entry [OF assms(1)] by (simp add: entry_ok_def)
  then have "m_usage_order st \<noteq> []" by auto
  with assms(2,3) True show ?thesis by (simp add: open_new_stream_def evict_locked)
next
  case False
  have fin: "finite (dom (m_file_stream st))" using assms(1) by (simp add: fm_wf_def)
  have "card (insert p (dom (m_file_stream st))) \<le> m_max_size st"
    using False fin card_insert_le_m1 by (metis (no_types) Suc_leI card_insert_if less_imp_le not_le)
  with False assms(2,3) show ?thesis
    by (auto simp: open_new_stream_def Let_def split: option.splits prod.splits)
qed

lemma get_file_stream_inv:
  assumes inv: "fm_inv st" and pos: "0 < m_max_size st" and get: "get_file_stream p mode st = Inr (r, st')"
  shows "fm_inv st' \<and> m_max_size st' = m_max_size st"
proof -
  have wf: "fm_wf st" "\<not> m_locked st" and le: "card (dom (m_file_stream st)) \<le> m_max_size st"
    using inv by (simp_all add: fm_inv_def)
  show ?thesis
  proof (cases "\<exists>info. m_file_stream st p = Some (info, mode) \<and> \<not> si_in_use info")
    case True
    then show ?thesis using get wf le get_file_stream_wf [OF wf(1) get]
      by (auto simp: get_file_stream_def Let_def fm_inv_def)
  next
    case False
    then have "open_new_stream p mode (st\<lparr>m_locked := True\<rparr>) = Inr (r, st')"
      using get wf(2) by (auto simp: get_file_stream_def Let_def split: option.splits if_splits)
    from open_new_stream_size [OF _ _ this] wf le pos get_file_stream_wf [OF wf(1) get]
    show ?thesis by (simp add: fm_inv_def)
  qed
qed

lemma release_file_stream_inv:
  assumes "fm_inv st" "release_file_stream p st = Inr st'"
  shows "fm_inv st' \<and> m_max_size st' = m_max_size st"
proof -
  have "fm_wf st'" using assms(1) release_file_stream_wf [OF _ assms(2)] by (simp add: fm_inv_def)
  with assms show ?thesis by (auto simp: release_file_stream_def fm_inv_def)
qed

lemma close_file_stream_inv:
  assumes "fm_inv st" "close_file_stream p st = Inr st'"
  shows "fm_inv st' \<and> m_max_size st' = m_max_size st"
proof -
  have wf: "fm_wf st'" and fin: "finite (dom (m_file_stream st))"
    using assms(1) close_file_stream_wf [OF _ assms(2)] by (simp_all add: fm_inv_def fm_wf_def)
  have "dom (m_file_stream st') \<subseteq> dom (m_file_stream st)" and f: "\<not> m_locked st'" "m_max_size st' = m_max_size st"
    using assms by (auto simp: close_file_stream_def fm_inv_def split: option.splits if_splits)
  from card_mono [OF fin this(1)] show ?thesis using assms(1) wf f by (simp add: fm_inv_def)
qed

lemma stream_seek_fields:
  "stream_seek a i st = Inr st' \<Longrightarrow> m_locked st' = m_locked st \<and> m_max_size st' = m_max_size st
    \<and> m_file_stream st' = m_file_stream st \<and> m_usage_order st' = m_usage_order st"
  by (auto simp: stream_seek_def split: option.splits if_splits)

lemma stream_seek_inv:
  "fm_inv st \<Longrightarrow> stream_seek a i st = Inr st' \<Longrightarrow> fm_inv st' \<and> m_max_size st' = m_max_size st"
  using stream_seek_wf [of st a i st'] stream_seek_fields [of a i st st'] by (simp add: fm_inv_def)

lemma fm_step_inv:
  assumes "fm_inv st" "0 < m_max_size st" "fm_step c st = Inr st'"
  shows "fm_inv st' \<and> m_max_size st' = m_max_size st"
proof (cases c)
  case (Call_get p mode)
  with assms(3) obtain r where "get_file_stream p mode st = Inr (r, st')" by (auto simp: res_bind_eq_Inr)
  then show ?thesis by (rule get_file_stream_inv [OF assms(1,2)])
next
  case (Call_release p)
  with assms(3) have "release_file_stream p st = Inr st'" by simp
  then show ?thesis by (rule release_file_stream_inv [OF assms(1)])
next
  case (Call_close p)
  with assms(3) have "close_file_stream p st = Inr st'" by simp
  then show ?thesis by (rule close_file_stream_inv [OF assms(1)])
next
  case (Call_reset p)
  then obtain r st1 where g: "get_file_stream p ''binary'' st = Inr (r, st1)"
    and rest: "(case r of Some a \<Rightarrow> res_bind (stream_seek a 0 st1) (\<lambda>st2. release_file_stream p st2)
       | None \<Rightarrow> Inr st1) = Inr st'"
    using assms(3) unfolding Call_reset fm_step.simps reset_file_stream_def res_bind_eq_Inr by auto
  note 1 = get_file_stream_inv [OF assms(1,2) g]
  show ?thesis
  proof (cases r)
    case None
    with rest 1 show ?thesis by simp
  next
    case (Some a)
    with rest obtain st2 where "stream_seek a 0 st1 = Inr st2" "release_file_stream p st2 = Inr st'"
      by (auto simp: res_bind_eq_Inr)
    with 1 stream_seek_inv release_file_stream_inv show ?thesis by metis
  qed
qed

lemma fm_run_inv:
  "fm_inv st \<Longrightarrow> 0 < m_max_size st \<Longrightarrow> fm_run cs st = Inr st' \<Longrightarrow> fm_inv st' \<and> m_max_size st' = m_max_size st"
proof (induction cs arbitrary: st)
  case (Cons c cs)
  then obtain st1 where "fm_step c st = Inr st1" "fm_run cs st1 = Inr st'" by (auto simp: res_bind_eq_Inr)
  with Cons.IH [of st1] fm_step_inv [OF Cons.prems(1,2)] Cons.prems(2) show ?case by metis
qed simp

section \<open>Properties of the stream cache\<close>

text \<open>
  C40. Whatever sequence of public operations runs on a fresh manager with room for at least one
  stream, as long as they return, the manager stays well formed (each cached stream is open, on its
  own file, with the rights of its mode, and its iterator is a node of the usage order with its
  path), its lock is free between calls, and it never caches more streams than its limit.
\<close>

theorem fm_invariant:
  assumes "0 < n" "fm_run cs (mk_file_io n d) = Inr st"
  shows "fm_wf st \<and> \<not> m_locked st \<and> card (dom (m_file_stream st)) \<le> n"
proof -
  have "fm_inv (mk_file_io n d)" using mk_file_io_wf by (simp add: fm_inv_def) (simp add: mk_file_io_def)
  then have "fm_inv st \<and> m_max_size st = n"
    using fm_run_inv [of "mk_file_io n d"] assms by (simp add: mk_file_io_def)
  then show ?thesis by (simp add: fm_inv_def)
qed

definition demo_disk :: disk where
  "demo_disk = \<lparr>files = [''a'' \<mapsto> ''xyz'', ''b'' \<mapsto> []], dirs = {[]}\<rparr>"

theorem fm_invariant_witness:
  "\<exists>st. fm_run [Call_get ''a'' ''binary'', Call_close ''a''] (mk_file_io 1 demo_disk) = Inr st \<and> fm_wf st"
proof -
  have "\<exists>st. fm_run [Call_get ''a'' ''binary'', Call_close ''a''] (mk_file_io 1 demo_disk) = Inr st"
    by (simp add: get_file_stream_def mk_file_io_def Let_def open_new_stream_def open_file_def
        open_mode_of_def demo_disk_def close_file_stream_def)
  then show ?thesis using fm_invariant [of 1 "[Call_get ''a'' ''binary'', Call_close ''a'']" demo_disk] by auto
qed

text \<open>
  Least-recently-used order: when each use of a file is a \<open>get_file_stream\<close> followed by its
  \<open>release_file_stream\<close> and the files fit into the manager, the uses all return and the usage order
  lists the files once each, the most recently used first.
\<close>

theorem fm_lru_order:
  assumes "set ps \<subseteq> dom (files d)" "card (set ps) \<le> n"
  shows "\<exists>st. fm_accesses ''binary'' ps (mk_file_io n d) = Inr st \<and>
    map snd (m_usage_order st) = rev (remdups ps)"
  using fm_accesses_idle [of "''binary''" ps d n] assms by (auto simp: yields_def)

theorem fm_lru_order_witness:
  "\<exists>st. fm_accesses ''binary'' [''a'', ''b'', ''a''] (mk_file_io 2 demo_disk) = Inr st \<and>
    map snd (m_usage_order st) = [''a'', ''b'']"
proof -
  have "set [''a'', ''b'', ''a''] \<subseteq> dom (files demo_disk)" by (simp add: demo_disk_def)
  moreover have "card (set [''a'', ''b'', ''a'']) \<le> 2" by (simp add: card_insert_if)
  ultimately show ?thesis
    using fm_lru_order [of "[''a'', ''b'', ''a'']" demo_disk 2] by (simp del: fm_accesses.simps)
qed

text \<open>
  Eviction deadlocks: once the manager holds as many streams as it may, the first use of one
  more file does not return, because \<open>evict_least_used\<close> calls \<open>close_file_stream\<close>, which locks the
  mutex that \<open>get_file_stream\<close> already holds.
\<close>

theorem fm_eviction_deadlock:
  assumes "set ps \<subseteq> dom (files d)" "card (set ps) = n" "0 < n" "q \<notin> set ps"
  shows "fm_accesses ''binary'' (ps @ [q]) (mk_file_io n d) = Inl Deadlock"
proof -
  obtain st where st: "fm_accesses ''binary'' ps (mk_file_io n d) = Inr st" "fm_idle ''binary'' st"
      "m_max_size st = n" "dom (m_file_stream st) = set ps" "map snd (m_usage_order st) = rev (remdups ps)"
    using fm_accesses_idle [of "''binary''" ps d n] assms by (auto simp: yields_def)
  have "get_file_stream q ''binary'' st = Inl Deadlock"
  proof (rule get_file_stream_full)
    show "\<not> m_locked st" using st(2) by (simp add: fm_idle_def)
    show "m_file_stream st q = None" using st(4) assms(4) by blast
    show "m_max_size st \<le> card (dom (m_file_stream st))" using st(3,4) assms(2) by simp
    show "m_usage_order st \<noteq> []" using st(5) assms(2,3) by auto
  qed
  then show ?thesis using st(1) by (simp add: fm_accesses_append fm_access_def)
qed

theorem fm_eviction_deadlock_witness:
  "fm_accesses ''binary'' [''a'', ''b''] (mk_file_io 1 demo_disk) = Inl Deadlock"
  using fm_eviction_deadlock [of "[''a'']" demo_disk 1 "''b''"] by (simp add: demo_disk_def)

end
