(* ===== verification/Tsm_File.thy ===== *)
theory Tsm_File
  imports Tsm_Codec File_Io_Manager
begin

text \<open>
  The TSM file format: the operations of class \<open>TSM\<close> (\<open>src/engine/tsm/tsm.cpp\<close>) on the stream
  manager, and the reader of the index (\<open>load_tsm_index_entry\<close> of \<open>src/engine/tsm/iterator.cpp\<close>).

  An operation takes and returns the state of the stream manager. \<open>sizeof(Header)\<close> is 8: the four
  bytes of the magic number, the version and three bytes of padding, whose contents are a field of
  the record. An \<open>int64_t\<close> position is an \<open>int\<close>. Falling off the end of a function that should
  return a value is the result \<open>None\<close>.
\<close>

section \<open>Byte images\<close>

record header_object = tsm_header +
  hd_padding :: "24 word"

definition header_bytes :: "header_object \<Rightarrow> string" where
  "header_bytes h = put_word 4 (hd_magic h) @ put_word 1 (hd_version h) @ put_word 3 (hd_padding h)"

definition footer_bytes :: "tsm_footer \<Rightarrow> string" where
  "footer_bytes f = put_word 8 (ft_offset f)"

definition entry_image :: "index_entry \<Rightarrow> string" where
  "entry_image e = put_word 8 (ie_max_time e) @ put_word 8 (ie_min_time e) @
     put_word 8 (ie_offset e) @ put_word 4 (ie_size e)"

section \<open>Header and footer\<close>

definition write_header_to_file :: "header_object \<Rightarrow> string \<Rightarrow> file_io \<Rightarrow> (bool \<times> file_io) result" where
  "write_header_to_file header file_path =
     with_stream file_path ''binary'' False (\<lambda>a st.
       res_bind (stream_writes a [header_bytes header] st) (\<lambda>st.
       res_bind (release_file_stream file_path st) (\<lambda>st. Inr (True, st))))"

definition read_header_from_file ::
    "header_object \<Rightarrow> string \<Rightarrow> file_io \<Rightarrow> ((bool \<times> header_object) \<times> file_io) result" where
  "read_header_from_file header file_path =
     with_stream file_path ''binary'' (False, header) (\<lambda>a st.
       res_bind (stream_seek a 0 st) (\<lambda>st.
       res_bind (stream_read a 8 st) (\<lambda>(bs, st).
       res_bind (release_file_stream file_path st) (\<lambda>st.
         Inr ((True, header\<lparr>hd_magic := get_word (take 4 bs), hd_version := get_word (take 1 (drop 4 bs)),
                hd_padding := get_word (drop 5 bs)\<rparr>), st)))))"

definition write_footer_to_file :: "tsm_footer \<Rightarrow> string \<Rightarrow> int \<Rightarrow> file_io \<Rightarrow> (bool \<times> file_io) result" where
  "write_footer_to_file footer file_path tail_offset =
     with_stream file_path ''binary'' False (\<lambda>a st.
       res_bind (stream_seek a (tail_offset - 8) st) (\<lambda>st.
       res_bind (stream_writes a [footer_bytes footer] st) (\<lambda>st.
       res_bind (release_file_stream file_path st) (\<lambda>st. Inr (True, st)))))"

definition read_footer_from_file ::
    "tsm_footer \<Rightarrow> string \<Rightarrow> file_io \<Rightarrow> ((bool \<times> tsm_footer) \<times> file_io) result" where
  "read_footer_from_file footer file_path =
     with_stream file_path ''binary'' (False, footer) (\<lambda>a st.
       res_bind (stream_seek_end a (- 8) st) (\<lambda>st.
       res_bind (stream_read a 8 st) (\<lambda>(bs, st).
       res_bind (release_file_stream file_path st) (\<lambda>st.
         Inr ((True, footer\<lparr>ft_offset := get_word bs\<rparr>), st)))))"

section \<open>Data blocks\<close>

text \<open>A buffer of a negative \<open>int32_t\<close> size is the exception of the string constructor.\<close>

definition sized_read :: "nat \<Rightarrow> 32 word \<Rightarrow> file_io \<Rightarrow> (string \<times> file_io) result" where
  "sized_read a n st = (if sint n < 0 then Inl (Logic_error ''length_error'') else stream_read a (unat n) st)"

definition returned :: "'a result option \<Rightarrow> 'a result" where
  "returned r = (case r of None \<Rightarrow> Inl No_return | Some x \<Rightarrow> x)"

definition read_data_from_file ::
    "snappy \<Rightarrow> data_block \<Rightarrow> string \<Rightarrow> int \<Rightarrow> file_io \<Rightarrow> ((bool \<times> data_block) \<times> file_io) result" where
  "read_data_from_file sn b file_path offset =
     with_stream file_path ''binary'' (False, b) (\<lambda>a st.
       res_bind (stream_seek a offset st) (\<lambda>st.
       res_bind (stream_read a 4 st) (\<lambda>(ty, st).
       res_bind (stream_read a 4 st) (\<lambda>(num, st).
       res_bind (stream_read a 4 st) (\<lambda>(tp_size, st).
       res_bind (stream_read a 4 st) (\<lambda>(val_size, st).
       res_bind (sized_read a (get_word tp_size) st) (\<lambda>(tp, st).
       res_bind (decode_timestamps sn tp) (\<lambda>timestamps.
       res_bind (sized_read a (get_word val_size) st) (\<lambda>(vals, st).
       res_bind (returned (decode_values sn vals)) (\<lambda>data_values.
       res_bind (release_file_stream file_path st) (\<lambda>st.
         Inr ((True, b\<lparr>db_type := type_of_code (get_word ty), db_num := get_word num,
                db_tp_snappy_size := get_word tp_size, db_val_snappy_size := get_word val_size,
                db_timestamps := timestamps, db_values := data_values\<rparr>), st))))))))))))"

text \<open>The writer reads the block at offset 5 back (into \<open>scratch\<close>, a new block) and prints it.\<close>

definition write_data_to_file ::
    "snappy \<Rightarrow> data_block \<Rightarrow> data_type \<Rightarrow> 32 word \<Rightarrow> string \<Rightarrow> string \<Rightarrow> string \<Rightarrow> int \<Rightarrow> file_io
      \<Rightarrow> (int \<times> file_io) result" where
  "write_data_to_file sn scratch ty data_num compress_timestamp compress_val file_path offset =
     with_stream file_path ''binary'' (- 1) (\<lambda>a st.
       res_bind (stream_seek a offset st) (\<lambda>st.
       res_bind (stream_writes a
          [put_word 4 (type_code ty), put_word 4 data_num,
           put_word 4 (of_nat (length compress_timestamp) :: 32 word),
           put_word 4 (of_nat (length compress_val) :: 32 word),
           compress_timestamp, compress_val] st) (\<lambda>st.
       res_bind (release_file_stream file_path st) (\<lambda>st.
       res_bind (read_data_from_file sn scratch file_path 5 st) (\<lambda>(_, st).
         Inr (16 + int (length compress_timestamp) + int (length compress_val), st))))))"

section \<open>The index\<close>

definition create_index_entry :: "time_point \<Rightarrow> time_point \<Rightarrow> 64 word \<Rightarrow> 32 word \<Rightarrow> index_entry" where
  "create_index_entry max_time min_time offset data_size =
     \<lparr>ie_max_time = max_time, ie_min_time = min_time, ie_offset = offset, ie_size = data_size\<rparr>"

text \<open>The count of a new meta is not initialised: \<open>junk\<close>.\<close>

definition create_index_meta :: "16 word \<Rightarrow> data_type \<Rightarrow> string \<Rightarrow> index_block_meta option" where
  "create_index_meta junk ty meta_key =
     (if named_type ty
      then Some \<lparr>im_key_size = of_nat (length meta_key), im_key = meta_key, im_type = ty, im_count = junk\<rparr>
      else None)"

definition write_index_entry_to_file :: "index_entry \<Rightarrow> string \<Rightarrow> int \<Rightarrow> file_io \<Rightarrow> (int \<times> file_io) result" where
  "write_index_entry_to_file e file_path offset =
     with_stream file_path ''binary'' 0 (\<lambda>a st.
       res_bind (stream_seek a offset st) (\<lambda>st.
       res_bind (stream_writes a
          [put_word 8 (ie_max_time e), put_word 8 (ie_min_time e), put_word 8 (ie_offset e), put_word 4 (ie_size e)] st) (\<lambda>st.
       res_bind (release_file_stream file_path st) (\<lambda>st. Inr (1, st)))))"

definition read_index_entry_from_file ::
    "index_entry \<Rightarrow> string \<Rightarrow> int \<Rightarrow> file_io \<Rightarrow> ((bool option \<times> index_entry) \<times> file_io) result" where
  "read_index_entry_from_file e file_path offset =
     with_stream file_path ''binary'' (Some False, e) (\<lambda>a st.
       res_bind (stream_seek a offset st) (\<lambda>st.
       res_bind (release_file_stream file_path st) (\<lambda>st. Inr ((None, e), st))))"

text \<open>The first \<open>n\<close> bytes behind \<open>c_str()\<close>; the terminating NUL is the last readable one.\<close>

definition c_str_bytes :: "string \<Rightarrow> nat \<Rightarrow> string result" where
  "c_str_bytes s n = (if n \<le> length s + 1 then Inr (take n (s @ [NUL])) else Inl (Out_of_range ''c_str''))"

definition write_index_meta_to_file :: "index_block_meta \<Rightarrow> string \<Rightarrow> int \<Rightarrow> file_io \<Rightarrow> (int \<times> file_io) result" where
  "write_index_meta_to_file m file_path offset =
     with_stream file_path ''binary'' 0 (\<lambda>a st.
       res_bind (stream_seek a offset st) (\<lambda>st.
       res_bind (c_str_bytes (im_key m) (unat (im_key_size m))) (\<lambda>key.
       res_bind (stream_writes a
          [put_word 2 (im_key_size m), key, put_word 4 (type_code (im_type m)), put_word 2 (im_count m)] st) (\<lambda>st.
       res_bind (release_file_stream file_path st) (\<lambda>st.
         Inr (8 + int (unat (im_key_size m)), st))))))"

text \<open>The key is set from a NUL-terminated buffer.\<close>

definition c_string :: "string \<Rightarrow> string" where
  "c_string s = takeWhile (\<lambda>c. c \<noteq> NUL) s"

definition read_index_meta_from_file ::
    "index_block_meta \<Rightarrow> string \<Rightarrow> int \<Rightarrow> file_io \<Rightarrow> ((bool \<times> index_block_meta) \<times> file_io) result" where
  "read_index_meta_from_file m file_path offset =
     with_stream file_path ''binary'' (False, m) (\<lambda>a st.
       res_bind (stream_seek a offset st) (\<lambda>st.
       res_bind (stream_read a 2 st) (\<lambda>(key_size, st).
       res_bind (stream_read a (unat (get_word key_size :: 16 word)) st) (\<lambda>(buffer, st).
       res_bind (stream_read a 4 st) (\<lambda>(ty, st).
       res_bind (stream_read a 2 st) (\<lambda>(count, st).
       res_bind (release_file_stream file_path st) (\<lambda>st.
         Inr ((True, m\<lparr>im_key_size := get_word key_size, im_key := c_string buffer,
                im_type := type_of_code (get_word ty), im_count := get_word count\<rparr>), st))))))))"

fun write_index_entries :: "index_entry list \<Rightarrow> string \<Rightarrow> int \<Rightarrow> file_io \<Rightarrow> (int \<times> file_io) result" where
  "write_index_entries [] file_path tail_offset st = Inr (tail_offset, st)"
| "write_index_entries (e # es) file_path tail_offset st =
     res_bind (write_index_entry_to_file e file_path tail_offset st) (\<lambda>(_, st).
       write_index_entries es file_path (tail_offset + 28) st)"

text \<open>
  The deque of entries comes back emptied (first component) together with the meta, whose count is
  set; the stream that the footer is written through is not released.
\<close>

definition write_series_index_block_to_file ::
    "index_entry list \<Rightarrow> index_block_meta option \<Rightarrow> string \<Rightarrow> int \<Rightarrow> file_io
      \<Rightarrow> ((bool \<times> index_entry list \<times> index_block_meta option) \<times> file_io) result" where
  "write_series_index_block_to_file entries meta file_path tail_offset st =
     (case meta of
        None \<Rightarrow> Inr ((False, entries, meta), st)
      | Some m \<Rightarrow>
          if entries = [] then Inr ((False, entries, meta), st)
          else
            (let m' = m\<lparr>im_count := of_nat (length entries)\<rparr> in
             res_bind (write_index_meta_to_file m' file_path tail_offset st) (\<lambda>(meta_size, st).
             res_bind (write_index_entries entries file_path (tail_offset + meta_size) st) (\<lambda>(_, st).
             with_stream file_path ''binary'' (False, [], Some m') (\<lambda>a st.
               res_bind (stream_seek_end a (- 8) st) (\<lambda>st.
               res_bind (stream_writes a [put_word 8 (of_int tail_offset :: 64 word)] st) (\<lambda>st.
                 Inr ((True, [], Some m'), st)))) st))))"

section \<open>A new file\<close>

definition create_tsm :: "header_object \<Rightarrow> tsm_footer \<Rightarrow> string \<Rightarrow> file_io \<Rightarrow> (bool \<times> file_io) result" where
  "create_tsm header footer file_path =
     with_stream file_path ''binary'' False (\<lambda>a st.
       res_bind (stream_seek a 0 st) (\<lambda>st.
       res_bind (stream_writes a [header_bytes header] st) (\<lambda>st.
       res_bind (stream_seek a (4 * 1024 * 1024) st) (\<lambda>st.
       res_bind (stream_writes a [footer_bytes footer] st) (\<lambda>st.
       res_bind (release_file_stream file_path st) (\<lambda>st. Inr (True, st)))))))"

section \<open>The operations on a manager with room\<close>

lemma write_index_entry_ready:
  assumes "io_ready P st" "p \<in> P" "files (io_disk st) p = Some f" "0 \<le> off"
  shows "yields (write_index_entry_to_file e p off st) (\<lambda>(r, st').
    r = 1 \<and> wrote P p (pwrite (nat off) (entry_image e) f) st st')"
  unfolding write_index_entry_to_file_def
  by (rule with_stream_ready [OF assms(1,2)], simp, rule seek_writes_release)
     (use assms in \<open>simp_all add: entry_image_def wrote_def\<close>)

definition meta_image :: "index_block_meta \<Rightarrow> string" where
  "meta_image m = put_word 2 (im_key_size m) @ im_key m @ put_word 4 (type_code (im_type m)) @ put_word 2 (im_count m)"

definition meta_ok :: "index_block_meta \<Rightarrow> bool" where
  "meta_ok m \<longleftrightarrow> unat (im_key_size m) = length (im_key m)"

lemma length_meta_image: "length (meta_image m) = 8 + length (im_key m)"
  by (simp add: meta_image_def)

lemma length_entry_image: "length (entry_image e) = 28"
  by (simp add: entry_image_def)

lemma write_index_meta_ready:
  assumes "io_ready P st" "p \<in> P" "files (io_disk st) p = Some f" "0 \<le> off" "meta_ok m"
  shows "yields (write_index_meta_to_file m p off st) (\<lambda>(r, st').
    r = int (length (meta_image m)) \<and> wrote P p (pwrite (nat off) (meta_image m) f) st st')"
proof -
  have key: "c_str_bytes (im_key m) (unat (im_key_size m)) = Inr (im_key m)"
    using assms(5) by (simp add: c_str_bytes_def meta_ok_def)
  show ?thesis unfolding write_index_meta_to_file_def key res_bind_simps
    by (rule with_stream_ready [OF assms(1,2)], simp, rule seek_writes_release)
       (use assms in \<open>simp_all add: meta_image_def wrote_def meta_ok_def\<close>)
qed

lemma write_index_entries_ready:
  assumes "io_ready P st" "p \<in> P" "files (io_disk st) p = Some f"
  shows "yields (write_index_entries es p (int off) st) (\<lambda>(r, st').
    wrote P p (pwrite off (concat (map entry_image es)) f) st st')"
  using assms
proof (induction es arbitrary: st off f)
  case Nil
  then show ?case by (simp add: wrote_def put_file_same)
next
  case (Cons e es)
  show ?case unfolding write_index_entries.simps
  proof (rule yields_bind [OF write_index_entry_ready [OF Cons.prems], of "int off" e])
    fix x :: "int \<times> file_io"
    obtain r st1 where x: "x = (r, st1)" by (cases x)
    assume "case x of (r, st') \<Rightarrow> r = 1 \<and> wrote P p (pwrite (nat (int off)) (entry_image e) f) st st'"
    then have w: "wrote P p (pwrite off (entry_image e) f) st st1" by (simp add: x)
    note IH = Cons.IH [OF wrote_ready [OF w] Cons.prems(2) wrote_file [OF w], of "off + 28"]
    have pos: "int off + 28 = int (off + 28)" by simp
    show "yields (case x of (_, st) \<Rightarrow> write_index_entries es p (int off + 28) st) (\<lambda>(r, st').
        wrote P p (pwrite off (concat (map entry_image (e # es))) f) st st')"
      unfolding x prod.case pos
      by (rule yields_mono [OF IH])
         (auto simp: pwrite_append length_entry_image intro: wrote_trans [OF w])
  qed simp
qed

definition block_image :: "index_block_meta \<times> index_entry list \<Rightarrow> string" where
  "block_image b = meta_image (fst b) @ concat (map entry_image (snd b))"

lemma length_concat_entries [simp]: "length (concat (map entry_image es)) = 28 * length es"
  by (induction es) (simp_all add: length_entry_image)

lemma length_block_image: "length (block_image (m, es)) = 8 + length (im_key m) + 28 * length es"
  by (simp add: block_image_def length_meta_image)

text \<open>Writing eight bytes at the end of a file, on a stream that is not released.\<close>

lemma write_at_end_ready:
  assumes "io_ready P st" "p \<in> P" "files (io_disk st) p = Some g" "8 \<le> length g"
  shows "yields (with_stream p ''binary'' c (\<lambda>a st.
      res_bind (stream_seek_end a (- 8) st) (\<lambda>st.
      res_bind (stream_writes a [bs] st) (\<lambda>st. Inr (r, st)))) st)
    (\<lambda>(r', st'). r' = r \<and> wrote P p (pwrite (length g - 8) bs g) st st')"
proof (rule with_stream_ready [OF assms(1,2)], simp)
  fix a st3
  assume 3: "io_ready P st3" "io_disk st3 = io_disk st" "stream_at st3 a p (cached_pos st p ''binary'')"
    "''binary'' = ''binary'' \<Longrightarrow> stream_rw st3 a"
  have f3: "files (io_disk st3) p = Some g" using assms(3) 3(2) by simp
  have m8: "(- 8 :: int) = - int 8" by simp
  show "yields (res_bind (stream_seek_end a (- 8) st3) (\<lambda>st. res_bind (stream_writes a [bs] st) (\<lambda>st. Inr (r, st))))
    (\<lambda>(r', st'). r' = r \<and> wrote P p (pwrite (length g - 8) bs g) st st')"
    unfolding m8
  proof (rule yields_bind [OF stream_seek_end_ready [OF 3(1,3) f3 assms(4)]], elim conjE)
    fix st4
    assume 4: "io_ready P st4" "io_disk st4 = io_disk st3" "stream_at st4 a p (length g - 8)"
      "stream_rw st4 a = stream_rw st3 a"
    have f4: "files (io_disk st4) p = Some g" and rw4: "stream_rw st4 a" using f3 3(4) 4 by simp_all
    show "yields (res_bind (stream_writes a [bs] st4) (\<lambda>st. Inr (r, st)))
      (\<lambda>(r', st'). r' = r \<and> wrote P p (pwrite (length g - 8) bs g) st st')"
      by (rule yields_bind [OF stream_writes_ready [OF 4(1,3) rw4 f4]])
         (use 3(2) 4(2) in \<open>auto simp: wrote_def intro: disk_eqI\<close>)
  qed
qed

text \<open>The bytes that a series index block leaves in the file: the block, then the footer.\<close>

lemma write_series_index_block_ready:
  fixes off :: nat
  assumes "io_ready P st" "p \<in> P" "files (io_disk st) p = Some f" "meta_ok m" "es \<noteq> []" "8 \<le> length f"
  defines "m' \<equiv> m\<lparr>im_count := of_nat (length es)\<rparr>"
  defines "g \<equiv> pwrite off (block_image (m', es)) f"
  shows "yields (write_series_index_block_to_file es (Some m) p (int off) st) (\<lambda>(r, st').
    r = (True, [], Some m') \<and>
    wrote P p (pwrite (length g - 8) (put_word 8 (of_nat off :: 64 word)) g) st st')"
proof -
  let ?Q = "\<lambda>(r, st'). r = (True, [], Some m') \<and>
    wrote P p (pwrite (length g - 8) (put_word 8 (of_nat off :: 64 word)) g) st st'"
  have ok: "meta_ok m'" using assms(4) by (simp add: m'_def meta_ok_def)
  have off: "(0::int) \<le> int off" by simp
  show ?thesis
    unfolding write_series_index_block_to_file_def option.case if_not_P [OF assms(5)] Let_def m'_def [symmetric]
  proof (rule yields_bind [OF write_index_meta_ready [OF assms(1-3) off ok]], clarify)
    fix st1 assume w1: "wrote P p (pwrite (nat (int off)) (meta_image m') f) st st1"
    have pos: "int off + int (length (meta_image m')) = int (off + length (meta_image m'))" by simp
    show "yields (res_bind (write_index_entries es p (int off + int (length (meta_image m'))) st1) (\<lambda>(_, st).
        with_stream p ''binary'' (False, [], Some m') (\<lambda>a st.
          res_bind (stream_seek_end a (- 8) st) (\<lambda>st.
          res_bind (stream_writes a [put_word 8 (of_int (int off) :: 64 word)] st) (\<lambda>st.
            Inr ((True, [], Some m'), st)))) st)) ?Q"
      unfolding pos
    proof (rule yields_bind [OF write_index_entries_ready [OF wrote_ready [OF w1] assms(2) wrote_file [OF w1]]], clarify)
      fix r st2
      assume w: "wrote P p (pwrite (off + length (meta_image m')) (concat (map entry_image es))
                (pwrite (nat (int off)) (meta_image m') f)) st1 st2"
      have w2: "wrote P p g st st2"
        using wrote_trans [OF w1 w] by (simp add: g_def block_image_def pwrite_append)
      have len: "8 \<le> length g" using assms(6) by (auto simp add: g_def length_pwrite)
      show "yields (with_stream p ''binary'' (False, [], Some m') (\<lambda>a st.
          res_bind (stream_seek_end a (- 8) st) (\<lambda>st.
          res_bind (stream_writes a [put_word 8 (of_int (int off) :: 64 word)] st) (\<lambda>st.
            Inr ((True, [], Some m'), st)))) st2) ?Q"
        by (rule yields_mono [OF write_at_end_ready [OF wrote_ready [OF w2] assms(2) wrote_file [OF w2] len]])
           (auto intro: wrote_trans [OF w2])
    qed
  qed
qed

section \<open>Reading back\<close>

definition data_image :: "data_type \<Rightarrow> 32 word \<Rightarrow> string \<Rightarrow> string \<Rightarrow> string" where
  "data_image ty num ct cv =
     put_word 4 (type_code ty) @ put_word 4 num @ put_word 4 (of_nat (length ct) :: 32 word) @
     put_word 4 (of_nat (length cv) :: 32 word) @ ct @ cv"

lemma length_data_image [simp]: "length (data_image ty num ct cv) = 16 + length ct + length cv"
  by (simp add: data_image_def)

lemma data_image_ne [simp]: "data_image ty num ct cv \<noteq> []"
proof
  assume "data_image ty num ct cv = []"
  then have "length (data_image ty num ct cv) = 0" by simp
  then show False by simp
qed

text \<open>At offset \<open>off\<close> of \<open>f\<close> there is a data block with these contents.\<close>

definition data_at :: "string \<Rightarrow> nat \<Rightarrow> data_type \<Rightarrow> 32 word \<Rightarrow> string \<Rightarrow> string \<Rightarrow> bool" where
  "data_at f off ty num ct cv \<longleftrightarrow> length ct < 2 ^ 31 \<and> length cv < 2 ^ 31 \<and>
     pread off (length (data_image ty num ct cv)) f = Inr (data_image ty num ct cv)"

definition readable_block :: "snappy \<Rightarrow> string \<Rightarrow> nat \<Rightarrow> bool" where
  "readable_block sn f off \<longleftrightarrow> (\<exists>ty num ct cv ts vs. data_at f off ty num ct cv \<and>
     decode_timestamps sn ct = Inr ts \<and> decode_values sn cv = Some (Inr vs))"

lemma sint_pos: "n < 2 ^ 31 \<Longrightarrow> \<not> sint (of_nat n :: 32 word) < 0"
  by (simp add: sint_small)

lemma unat_small32: "n < 2 ^ 31 \<Longrightarrow> unat (of_nat n :: 32 word) = n"
  by (simp add: unat_of_nat take_bit_eq_mod)

lemma data_at_reads:
  assumes "data_at f off ty num ct cv"
  shows "pread off 4 f = Inr (put_word 4 (type_code ty))"
    "pread (off + 4) 4 f = Inr (put_word 4 num)"
    "pread (off + 8) 4 f = Inr (put_word 4 (of_nat (length ct) :: 32 word))"
    "pread (off + 12) 4 f = Inr (put_word 4 (of_nat (length cv) :: 32 word))"
    "pread (off + 16) (length ct) f = Inr ct"
    "pread (off + 16 + length ct) (length cv) f = Inr cv"
proof -
  let ?cv = "put_word 4 (of_nat (length cv) :: 32 word)" and ?ct = "put_word 4 (of_nat (length ct) :: 32 word)"
  have 0: "pread off (16 + length ct + length cv) f =
      Inr (put_word 4 (type_code ty) @ put_word 4 num @ ?ct @ ?cv @ ct @ cv)"
    using assms by (simp add: data_at_def data_image_def add.assoc)
  note 1 = pread_split [OF 0, of 4]
  then have 1: "pread off 4 f = Inr (put_word 4 (type_code ty))"
      "pread (off + 4) (12 + length ct + length cv) f = Inr (put_word 4 num @ ?ct @ ?cv @ ct @ cv)" by (simp_all add: add.assoc)
  note 2 = pread_split [OF 1(2), of 4]
  then have 2: "pread (off + 4) 4 f = Inr (put_word 4 num)"
      "pread (off + 8) (8 + length ct + length cv) f = Inr (?ct @ ?cv @ ct @ cv)" by (simp_all add: add.assoc)
  note 3 = pread_split [OF 2(2), of 4]
  then have 3: "pread (off + 8) 4 f = Inr ?ct"
      "pread (off + 12) (4 + length ct + length cv) f = Inr (?cv @ ct @ cv)" by (simp_all add: add.assoc)
  note 4 = pread_split [OF 3(2), of 4]
  then have 4: "pread (off + 12) 4 f = Inr ?cv"
      "pread (off + 16) (length ct + length cv) f = Inr (ct @ cv)" by (simp_all add: add.assoc)
  note 5 = pread_split [OF 4(2), of "length ct"]
  show "pread off 4 f = Inr (put_word 4 (type_code ty))" "pread (off + 4) 4 f = Inr (put_word 4 num)"
    "pread (off + 8) 4 f = Inr ?ct" "pread (off + 12) 4 f = Inr ?cv"
    "pread (off + 16) (length ct) f = Inr ct" "pread (off + 16 + length ct) (length cv) f = Inr cv"
    using 1 2 3 4 5 by simp_all
qed

lemma read_data_ready:
  assumes "io_ready P st" "p \<in> P" "files (io_disk st) p = Some f" "data_at f off ty num ct cv"
    "decode_timestamps sn ct = Inr ts" "decode_values sn cv = Some (Inr vs)"
  shows "yields (read_data_from_file sn b p (int off) st) (\<lambda>((r, b'), st'). r \<and>
    b' = b\<lparr>db_type := type_of_code (type_code ty), db_num := num,
           db_tp_snappy_size := of_nat (length ct), db_val_snappy_size := of_nat (length cv),
           db_timestamps := ts, db_values := vs\<rparr> \<and>
    io_ready P st' \<and> io_disk st' = io_disk st)"
    (is "yields _ ?Q")
  unfolding read_data_from_file_def
proof (rule with_stream_ready [OF assms(1,2)], simp)
  fix a st1
  assume 1: "io_ready P st1" "io_disk st1 = io_disk st" "stream_at st1 a p (cached_pos st p ''binary'')"
  have len: "length ct < 2 ^ 31" "length cv < 2 ^ 31" using assms(4) by (simp_all add: data_at_def)
  note rd = data_at_reads [OF assms(4)]
  have ge: "(0::int) \<le> int off" by simp
  note lens = sint_pos [OF len(1)] sint_pos [OF len(2)] unat_small32 [OF len(1)] unat_small32 [OF len(2)]
  show "yields (res_bind (stream_seek a (int off) st1) (\<lambda>st.
       res_bind (stream_read a 4 st) (\<lambda>(ty, st).
       res_bind (stream_read a 4 st) (\<lambda>(num, st).
       res_bind (stream_read a 4 st) (\<lambda>(tp_size, st).
       res_bind (stream_read a 4 st) (\<lambda>(val_size, st).
       res_bind (sized_read a (get_word tp_size) st) (\<lambda>(tp, st).
       res_bind (decode_timestamps sn tp) (\<lambda>timestamps.
       res_bind (sized_read a (get_word val_size) st) (\<lambda>(vals, st).
       res_bind (returned (decode_values sn vals)) (\<lambda>data_values.
       res_bind (release_file_stream p st) (\<lambda>st.
         Inr ((True, b\<lparr>db_type := type_of_code (get_word ty), db_num := get_word num,
                db_tp_snappy_size := get_word tp_size, db_val_snappy_size := get_word val_size,
                db_timestamps := timestamps, db_values := data_values\<rparr>), st)))))))))))) ?Q"
    apply (rule yields_bind [OF stream_seek_ready [OF 1(1,3) ge]], elim conjE, unfold nat_int)
    apply (rule read_bind [OF _ _ _ rd(1)], assumption, assumption, simp add: 1(2) assms(3), unfold prod.case)
    apply (rule read_bind [OF _ _ _ rd(2)], assumption, assumption, simp add: 1(2) assms(3), unfold prod.case)
    apply (rule read_bind [OF _ _ _ rd(3)], assumption, simp add: add.assoc, simp add: 1(2) assms(3), unfold prod.case)
    apply (rule read_bind [OF _ _ _ rd(4)], assumption, simp add: add.assoc, simp add: 1(2) assms(3), unfold prod.case)
    apply (simp only: get_put_word32 sized_read_def lens if_False)
    apply (rule read_bind [OF _ _ _ rd(5)], assumption, simp add: add.assoc, simp add: 1(2) assms(3), unfold prod.case)
    apply (simp only: assms(5) res_bind_simps)
    apply (rule read_bind [OF _ _ _ rd(6)], assumption, simp add: add.assoc, simp add: 1(2) assms(3), unfold prod.case)
    apply (simp only: assms(6) returned_def option.case res_bind_simps)
    apply (rule yields_bind [OF release_file_stream_ready], assumption)
    apply (simp add: 1(2))
    done
qed

lemma write_data_ready:
  fixes ty :: data_type and num :: "32 word" and ct cv :: string
  assumes "io_ready P st" "p \<in> P" "files (io_disk st) p = Some f" "0 \<le> off"
  defines "g \<equiv> pwrite (nat off) (data_image ty num ct cv) f"
  assumes readable: "readable_block sn g 5"
  shows "yields (write_data_to_file sn scratch ty num ct cv p off st) (\<lambda>(r, st').
    r = int (length (data_image ty num ct cv)) \<and> wrote P p g st st')"
  unfolding write_data_to_file_def
proof (rule with_stream_ready [OF assms(1,2)], simp)
  fix a st1
  assume 1: "io_ready P st1" "io_disk st1 = io_disk st" "stream_at st1 a p (cached_pos st p ''binary'')"
    "''binary'' = ''binary'' \<Longrightarrow> stream_rw st1 a"
  have f1: "files (io_disk st1) p = Some f" and rw: "stream_rw st1 a" using 1 assms(3) by simp_all
  let ?bss = "[put_word 4 (type_code ty), put_word 4 num, put_word 4 (of_nat (length ct) :: 32 word),
      put_word 4 (of_nat (length cv) :: 32 word), ct, cv]"
  show "yields (res_bind (stream_seek a off st1) (\<lambda>st. res_bind (stream_writes a ?bss st) (\<lambda>st.
      res_bind (release_file_stream p st) (\<lambda>st.
      res_bind (read_data_from_file sn scratch p 5 st) (\<lambda>(_, st).
        Inr (16 + int (length ct) + int (length cv), st))))))
    (\<lambda>(r, st'). r = int (length (data_image ty num ct cv)) \<and> wrote P p g st st')"
  proof (rule seek_writes_release [OF 1(1,3) rw f1 assms(4)])
    fix st2
    assume "wrote P p (pwrite (nat off) (concat ?bss) f) st1 st2"
    then have w: "wrote P p g st st2" using 1(2) by (simp add: wrote_def g_def data_image_def)
    from readable obtain ty' num' ct' cv' ts vs where blk: "data_at g 5 ty' num' ct' cv'"
      "decode_timestamps sn ct' = Inr ts" "decode_values sn cv' = Some (Inr vs)"
      by (auto simp: readable_block_def)
    have five: "(5::int) = int 5" by simp
    show "yields (res_bind (read_data_from_file sn scratch p 5 st2) (\<lambda>(_, st).
        Inr (16 + int (length ct) + int (length cv), st)))
      (\<lambda>(r, st'). r = int (length (data_image ty num ct cv)) \<and> wrote P p g st st')"
      unfolding five
      by (rule yields_bind [OF read_data_ready [OF wrote_ready [OF w] assms(2) wrote_file [OF w] blk]])
         (use w in \<open>auto simp: wrote_def\<close>)
  qed
qed

lemma data_at_pwrite:
  "length ct < 2 ^ 31 \<Longrightarrow> length cv < 2 ^ 31 \<Longrightarrow> data_at (pwrite off (data_image ty num ct cv) f) off ty num ct cv"
  by (simp add: data_at_def del: length_data_image)

text \<open>A block stays readable when another region of the file is written.\<close>

lemma data_at_pwrite_other:
  assumes "data_at f o1 ty num ct cv"
    "o1 + length (data_image ty num ct cv) \<le> off \<or> off + length bs \<le> o1"
  shows "data_at (pwrite off bs f) o1 ty num ct cv"
proof -
  have "o1 + length (data_image ty num ct cv) \<le> length f"
    using assms(1) by (auto simp: data_at_def pread_def split: if_splits)
  then show ?thesis
    using assms pread_pwrite_disjoint [of o1 "length (data_image ty num ct cv)" off bs f]
    by (simp add: data_at_def)
qed

section \<open>The index reader\<close>

record shard =
  sh_retention_policy :: string
  sh_shard_id :: string
  sh_database_name :: string
  sh_measurement :: string
  sh_tsm_file :: "string list"
  sh_curr_file_path :: string
  sh_curr_file_margin :: "64 word"
  sh_curr_file_head_offset :: "64 word"
  sh_curr_file_tail_offset :: "64 word"

record series_index_block =
  sb_tsm_name :: string
  sb_index_entries :: "index_entry list"
  sb_index_count :: "64 word"
  sb_meta :: index_block_meta

record tsm_io_center =
  tc_db_name :: string
  tc_tb_name :: string
  tc_io_manager :: file_io
  tc_tsm_index :: "string \<Rightarrow> (string \<Rightarrow> series_index_block list option) option"

text \<open>
  One stream is read from front to back, so the loop is written over the bytes of the file and
  the read position. A round reads one meta and as many entries as it counts.
\<close>

fun read_entries :: "nat \<Rightarrow> string \<Rightarrow> nat \<Rightarrow> (index_entry list \<times> nat) result" where
  "read_entries 0 f pos = Inr ([], pos)"
| "read_entries (Suc n) f pos =
     res_bind (pread pos 8 f) (\<lambda>mx.
     res_bind (pread (pos + 8) 8 f) (\<lambda>mn.
     res_bind (pread (pos + 16) 8 f) (\<lambda>off.
     res_bind (pread (pos + 24) 4 f) (\<lambda>sz.
     res_bind (read_entries n f (pos + 28)) (\<lambda>(es, pos').
       Inr (\<lparr>ie_max_time = get_word mx, ie_min_time = get_word mn,
              ie_offset = get_word off, ie_size = get_word sz\<rparr> # es, pos'))))))"

definition read_series_block :: "string \<Rightarrow> nat \<Rightarrow> ((index_block_meta \<times> index_entry list) \<times> nat) result" where
  "read_series_block f pos =
     res_bind (pread pos 2 f) (\<lambda>len.
     (let n = unat (get_word len :: 16 word) in
      res_bind (pread (pos + 2) n f) (\<lambda>buffer.
      res_bind (pread (pos + 2 + n) 4 f) (\<lambda>ty.
      res_bind (pread (pos + 2 + n + 4) 2 f) (\<lambda>count.
      res_bind (read_entries (unat (get_word count :: 16 word)) f (pos + 8 + n)) (\<lambda>(es, pos').
        Inr ((\<lparr>im_key_size = get_word len, im_key = c_string buffer,
                im_type = type_of_code (get_word ty), im_count = get_word count\<rparr>, es), pos')))))))"

lemma read_entries_pos: "read_entries n f pos = Inr (es, pos') \<Longrightarrow> pos' = pos + 28 * n \<and> length es = n"
proof (induction n arbitrary: pos es pos')
  case (Suc n)
  then obtain es' where "read_entries n f (pos + 28) = Inr (es', pos')" "length es = Suc (length es')"
    by (auto simp: res_bind_eq_Inr)
  with Suc.IH [OF this(1)] show ?case by simp
qed simp

lemma read_series_block_pos: "read_series_block f pos = Inr (b, pos') \<Longrightarrow> pos < pos'"
  by (auto simp: read_series_block_def res_bind_eq_Inr Let_def dest: read_entries_pos)

function read_series_blocks :: "string \<Rightarrow> nat \<Rightarrow> nat \<Rightarrow> ((index_block_meta \<times> index_entry list) list \<times> nat) result" where
  "read_series_blocks f tail curr_pos =
     (if curr_pos < tail then
        (case read_series_block f curr_pos of
           Inl e \<Rightarrow> Inl e
         | Inr bp \<Rightarrow>
             (case read_series_blocks f tail (snd bp) of
                Inl e \<Rightarrow> Inl e | Inr (bs, end_pos) \<Rightarrow> Inr (fst bp # bs, end_pos)))
      else Inr ([], curr_pos))"
  by pat_completeness auto
termination
  by (relation "measure (\<lambda>(f, tail, curr_pos). tail - curr_pos)")
     (auto dest: read_series_block_pos)

declare read_series_blocks.simps [simp del]

definition add_series_block :: "string \<Rightarrow> string \<Rightarrow> index_block_meta \<times> index_entry list
    \<Rightarrow> (string \<Rightarrow> (string \<Rightarrow> series_index_block list option) option)
    \<Rightarrow> (string \<Rightarrow> (string \<Rightarrow> series_index_block list option) option)" where
  "add_series_block shard_id tsm_name b idx =
     (let inner = (case idx shard_id of None \<Rightarrow> Map.empty | Some i \<Rightarrow> i);
          key = im_key (fst b);
          old = (case inner key of None \<Rightarrow> [] | Some l \<Rightarrow> l);
          sb = \<lparr>sb_tsm_name = tsm_name, sb_index_entries = snd b, sb_index_count = 0, sb_meta = fst b\<rparr>
      in idx(shard_id \<mapsto> inner(key \<mapsto> old @ [sb])))"

text \<open>Loading one file; the result says whether the loop over the files goes on.\<close>

definition load_tsm_file :: "shard \<Rightarrow> string \<Rightarrow> tsm_io_center \<Rightarrow> (bool \<times> tsm_io_center) result" where
  "load_tsm_file sh tsm_file_name c =
     (let tsm_path = ''./../dbs/'' @ sh_database_name sh @ ''/'' @ tsm_file_name in
      res_bind (with_stream tsm_path ''binary-read'' None (\<lambda>a st.
        res_bind (stream_seek_end a (- 8) st) (\<lambda>st.
        (let tail = stream_tell a st in
         res_bind (stream_read a 8 st) (\<lambda>(bs, st).
         res_bind (stream_seek a (sint (get_word bs :: 64 word)) st) (\<lambda>st.
         res_bind (read_series_blocks (the (files (io_disk st) tsm_path)) tail (stream_tell a st)) (\<lambda>(blocks, pos).
         res_bind (stream_seek a (int pos) st) (\<lambda>st.
         res_bind (release_file_stream tsm_path st) (\<lambda>st. Inr (Some blocks, st))))))))) (tc_io_manager c))
      (\<lambda>(r, st).
        case r of
          None \<Rightarrow> Inr (False, c\<lparr>tc_io_manager := st\<rparr>)
        | Some blocks \<Rightarrow>
            Inr (True, c\<lparr>tc_io_manager := st,
              tc_tsm_index := fold (add_series_block (sh_shard_id sh) tsm_file_name) blocks (tc_tsm_index c)\<rparr>)))"

fun load_tsm_files :: "shard \<Rightarrow> string list \<Rightarrow> tsm_io_center \<Rightarrow> tsm_io_center result" where
  "load_tsm_files sh [] c = Inr c"
| "load_tsm_files sh (n # ns) c =
     res_bind (load_tsm_file sh n c) (\<lambda>(go_on, c'). if go_on then load_tsm_files sh ns c' else Inr c')"

definition load_tsm_index_entry :: "shard \<Rightarrow> tsm_io_center \<Rightarrow> tsm_io_center result" where
  "load_tsm_index_entry sh c = load_tsm_files sh (sh_tsm_file sh) c"

section \<open>The index written is the index read\<close>

text \<open>What the file format can carry as one block of the index.\<close>

definition block_ok :: "index_block_meta \<times> index_entry list \<Rightarrow> bool" where
  "block_ok b \<longleftrightarrow> meta_ok (fst b) \<and> NUL \<notin> set (im_key (fst b)) \<and> named_type (im_type (fst b)) \<and>
     unat (im_count (fst b)) = length (snd b)"

lemma read_entries_image:
  assumes "pread pos (28 * length es + n) f = Inr (concat (map entry_image es) @ suf)"
  shows "read_entries (length es) f pos = Inr (es, pos + 28 * length es)"
  using assms
proof (induction es arbitrary: pos)
  case (Cons e es)
  have 0: "pread pos (28 + 28 * length es + n) f = Inr (put_word 8 (ie_max_time e) @ put_word 8 (ie_min_time e) @
     put_word 8 (ie_offset e) @ put_word 4 (ie_size e) @ concat (map entry_image es) @ suf)"
    using Cons.prems by (simp add: entry_image_def [of e] add.assoc)
  note 1 = pread_split [OF 0 length_put_word]
  note 2 = pread_split [OF 1(2) length_put_word]
  note 3 = pread_split [OF 2(2) length_put_word]
  note 4 = pread_split [OF 3(2) length_put_word]
  have IH: "read_entries (length es) f (pos + 28) = Inr (es, pos + 28 + 28 * length es)"
    by (rule Cons.IH) (use 4(2) in \<open>simp add: add.assoc\<close>)
  show ?case using 1(1) 2(1) 3(1) 4(1) IH by (simp add: add.assoc)
qed simp

lemma takeWhile_all: "\<forall>x \<in> set xs. P x \<Longrightarrow> takeWhile P xs = xs"
  by (induction xs) auto

lemma read_series_block_image:
  assumes "block_ok b" and img: "pread pos (length (block_image b) + n) f = Inr (block_image b @ suf)"
  shows "read_series_block f pos = Inr (b, pos + length (block_image b))"
proof -
  obtain m es where b: "b = (m, es)" by (cases b)
  have key: "unat (im_key_size m) = length (im_key m)" and nul: "NUL \<notin> set (im_key m)"
    and ty: "named_type (im_type m)" and cnt: "unat (im_count m) = length es"
    using assms(1) by (simp_all add: block_ok_def meta_ok_def b)
  let ?k = "length (im_key m)"
  have 0: "pread pos (8 + ?k + 28 * length es + n) f = Inr (put_word 2 (im_key_size m) @ im_key m @
      put_word 4 (type_code (im_type m)) @ put_word 2 (im_count m) @ concat (map entry_image es) @ suf)"
    using img by (simp add: b block_image_def meta_image_def add.assoc)
  note 1 = pread_split [OF 0 length_put_word]
  have 1: "pread pos 2 f = Inr (put_word 2 (im_key_size m))"
      "pread (pos + 2) (6 + ?k + 28 * length es + n) f = Inr (im_key m @
      put_word 4 (type_code (im_type m)) @ put_word 2 (im_count m) @ concat (map entry_image es) @ suf)"
    using pread_split [OF 0 length_put_word] by (simp_all add: add.assoc)
  have 2: "pread (pos + 2) ?k f = Inr (im_key m)"
      "pread (pos + 2 + ?k) (6 + 28 * length es + n) f = Inr (
      put_word 4 (type_code (im_type m)) @ put_word 2 (im_count m) @ concat (map entry_image es) @ suf)"
    using pread_split [OF 1(2) refl] by (simp_all add: add.assoc)
  have 3: "pread (pos + 2 + ?k) 4 f = Inr (put_word 4 (type_code (im_type m)))"
      "pread (pos + 2 + ?k + 4) (2 + 28 * length es + n) f = Inr (
      put_word 2 (im_count m) @ concat (map entry_image es) @ suf)"
    using pread_split [OF 2(2) length_put_word] by (simp_all add: add.assoc)
  have 4: "pread (pos + 2 + ?k + 4) 2 f = Inr (put_word 2 (im_count m))"
      "pread (pos + 8 + ?k) (28 * length es + n) f = Inr (concat (map entry_image es) @ suf)"
    using pread_split [OF 3(2) length_put_word] by (simp_all add: ac_simps)
  have "c_string (im_key m) = im_key m" using nul by (auto simp: c_string_def intro!: takeWhile_all)
  then show ?thesis
    using 1(1) 2(1) 3(1) 4(1) read_entries_image [OF 4(2)] key cnt ty
    by (simp add: read_series_block_def Let_def b length_block_image ac_simps)
qed

lemma read_series_blocks_image:
  assumes "\<forall>b \<in> set bs. block_ok b" "f = pre @ concat (map block_image bs) @ suf"
    "tail = length pre + length (concat (map block_image bs))"
  shows "read_series_blocks f tail (length pre) = Inr (bs, tail)"
  using assms
proof (induction bs arbitrary: pre)
  case Nil
  then show ?case by (subst read_series_blocks.simps) simp
next
  case (Cons b bs)
  have pos: "0 < length (block_image b)" by (cases b) (simp add: length_block_image)
  have "pread (length pre) (length (block_image b) + 0) f = Inr (block_image b @ [])"
    using Cons.prems(2) by (simp add: pread_def)
  note 1 = read_series_block_image [OF _ this]
  have 2: "read_series_blocks f tail (length (pre @ block_image b)) = Inr (bs, tail)"
    by (rule Cons.IH) (use Cons.prems in simp_all)
  show ?case using 1 2 pos Cons.prems(1,3)
    by (subst read_series_blocks.simps) simp
qed

text \<open>
  The index region of a file: from the position that the footer holds up to the footer, the blocks
  one after the other.
\<close>

definition index_region :: "string \<Rightarrow> (index_block_meta \<times> index_entry list) list \<Rightarrow> nat \<Rightarrow> bool" where
  "index_region f bs start \<longleftrightarrow> start < 2 ^ 63 \<and>
     drop start f = concat (map block_image bs) @ put_word 8 (of_nat start :: 64 word) \<and> start \<le> length f"

lemma index_region_length:
  "index_region f bs start \<Longrightarrow> length f = start + length (concat (map block_image bs)) + 8"
proof -
  assume r: "index_region f bs start"
  then have "length (drop start f) = length (concat (map block_image bs)) + 8" "start \<le> length f"
    by (simp_all add: index_region_def)
  then show ?thesis by simp
qed

lemma sint_small64: "n < 2 ^ 63 \<Longrightarrow> sint (of_nat n :: 64 word) = int n"
  by (simp add: signed_of_nat signed_take_bit_int_eq_self)

text \<open>Loading a file with an index region adds exactly its blocks, in order.\<close>

lemma load_tsm_file_region:
  assumes "io_ready P (tc_io_manager c)" "p = ''./../dbs/'' @ sh_database_name sh @ ''/'' @ n" "p \<in> P"
    "files (io_disk (tc_io_manager c)) p = Some f" "index_region f bs start" "\<forall>b \<in> set bs. block_ok b"
  shows "yields (load_tsm_file sh n c) (\<lambda>(go_on, c'). go_on \<and> io_ready P (tc_io_manager c') \<and>
    io_disk (tc_io_manager c') = io_disk (tc_io_manager c) \<and>
    tc_tsm_index c' = fold (add_series_block (sh_shard_id sh) n) bs (tc_tsm_index c))"
proof -
  let ?st = "tc_io_manager c"
  let ?tail = "start + length (concat (map block_image bs))"
  have len: "length f = ?tail + 8" using index_region_length [OF assms(5)] by simp
  have foot: "pread ?tail 8 f = Inr (put_word 8 (of_nat start :: 64 word))"
  proof -
    have "drop ?tail f = drop (length (concat (map block_image bs))) (drop start f)" by (simp add: add.commute)
    also have "\<dots> = put_word 8 (of_nat start :: 64 word)" using assms(5) by (simp add: index_region_def)
    finally show ?thesis using len by (simp add: pread_def)
  qed
  have f: "f = take start f @ concat (map block_image bs) @ put_word 8 (of_nat start :: 64 word)"
    and st: "length (take start f) = start" "start < 2 ^ 63"
    using assms(5) by (simp_all add: index_region_def) (metis append_take_drop_id)
  have blocks: "read_series_blocks f ?tail start = Inr (bs, ?tail)"
    using read_series_blocks_image [OF assms(6) f refl] st(1) by simp
  have s0: "(0::int) \<le> sint (get_word (put_word 8 (of_nat start :: 64 word)) :: 64 word)"
    "nat (sint (get_word (put_word 8 (of_nat start :: 64 word)) :: 64 word)) = start"
    using sint_small64 [OF st(2)] by simp_all
  have m8: "(- 8 :: int) = - int 8" by simp
  have le8: "8 \<le> length f" using len by simp
  have body: "yields (with_stream p ''binary-read'' None (\<lambda>a st.
        res_bind (stream_seek_end a (- 8) st) (\<lambda>st.
        (let tail = stream_tell a st in
         res_bind (stream_read a 8 st) (\<lambda>(bs, st).
         res_bind (stream_seek a (sint (get_word bs :: 64 word)) st) (\<lambda>st.
         res_bind (read_series_blocks (the (files (io_disk st) p)) tail (stream_tell a st)) (\<lambda>(blocks, pos).
         res_bind (stream_seek a (int pos) st) (\<lambda>st.
         res_bind (release_file_stream p st) (\<lambda>st. Inr (Some blocks, st))))))))) ?st)
      (\<lambda>(r, st'). r = Some bs \<and> io_ready P st' \<and> io_disk st' = io_disk ?st)" (is "yields _ ?Q")
  proof (rule with_stream_ready [OF assms(1,3)], simp)
    fix a st1
    assume 1: "io_ready P st1" "io_disk st1 = io_disk ?st" "stream_at st1 a p (cached_pos ?st p ''binary-read'')"
    have f1: "files (io_disk st1) p = Some f" using 1(2) assms(4) by simp
    show "yields (res_bind (stream_seek_end a (- 8) st1) (\<lambda>st.
        (let tail = stream_tell a st in
         res_bind (stream_read a 8 st) (\<lambda>(bs, st).
         res_bind (stream_seek a (sint (get_word bs :: 64 word)) st) (\<lambda>st.
         res_bind (read_series_blocks (the (files (io_disk st) p)) tail (stream_tell a st)) (\<lambda>(blocks, pos).
         res_bind (stream_seek a (int pos) st) (\<lambda>st.
         res_bind (release_file_stream p st) (\<lambda>st. Inr (Some blocks, st))))))))) ?Q"
      unfolding m8
    proof (rule yields_bind [OF stream_seek_end_ready [OF 1(1,3) f1 le8]], elim conjE)
      fix st2
      assume 2: "io_ready P st2" "io_disk st2 = io_disk st1" "stream_at st2 a p (length f - 8)"
      have tl: "stream_tell a st2 = ?tail" using stream_tell_at [OF 2(3)] len by simp
      have at2: "stream_at st2 a p ?tail" using 2(3) len by simp
      have f2: "files (io_disk st2) p = Some f" using f1 2(2) by simp
      show "yields (let tail = stream_tell a st2 in
         res_bind (stream_read a 8 st2) (\<lambda>(bs, st).
         res_bind (stream_seek a (sint (get_word bs :: 64 word)) st) (\<lambda>st.
         res_bind (read_series_blocks (the (files (io_disk st) p)) tail (stream_tell a st)) (\<lambda>(blocks, pos).
         res_bind (stream_seek a (int pos) st) (\<lambda>st.
         res_bind (release_file_stream p st) (\<lambda>st. Inr (Some blocks, st))))))) ?Q"
        unfolding Let_def tl
        apply (rule read_bind [OF 2(1) at2 f2 foot], unfold prod.case)
        apply (rule yields_bind [OF stream_seek_ready [OF _ _ s0(1)]], assumption, assumption, elim conjE, unfold s0(2))
        apply (simp add: stream_tell_at f2 blocks del: of_nat_add)
        apply (rule yields_bind [OF stream_seek_ready [where i = "int ?tail"]], assumption, assumption, simp, elim conjE)
        apply (rule yields_bind [OF release_file_stream_ready], assumption)
        apply (simp add: 1(2) 2(2))
        done
    qed
  qed
  show ?thesis
    unfolding load_tsm_file_def Let_def assms(2) [symmetric]
    by (rule yields_bind [OF body [unfolded Let_def]]) auto
qed

lemma pwrite_last: "length y = 8 \<Longrightarrow> length bs = 8 \<Longrightarrow> pwrite (length (x @ y) - 8) bs (x @ y) = x @ bs"
  by (simp add: pwrite_inside)

lemma index_region_extend:
  assumes r: "index_region f bs start" and off: "off + length (block_image b) = start"
  defines "g \<equiv> pwrite off (block_image b) f"
  shows "index_region (pwrite (length g - 8) (put_word 8 (of_nat off :: 64 word)) g) (b # bs) off" "8 \<le> length f"
    "length g = length f"
proof -
  let ?R = "concat (map block_image bs)"
  have len: "length f = start + length ?R + 8" by (rule index_region_length [OF r])
  then show "8 \<le> length f" by simp
  have le: "off \<le> length f" "start \<le> length f" using off len by simp_all
  have g: "g = take off f @ block_image b @ drop start f"
    unfolding g_def using pwrite_inside [OF le(1)] off by simp
  then have g2: "g = (take off f @ block_image b @ ?R) @ put_word 8 (of_nat start :: 64 word)"
    using r by (simp add: index_region_def)
  show "length g = length f" using g2 off len le by simp
  have "pwrite (length g - 8) (put_word 8 (of_nat off :: 64 word)) g =
      (take off f @ block_image b @ ?R) @ put_word 8 (of_nat off :: 64 word)"
    unfolding g2 by (rule pwrite_last) simp_all
  then show "index_region (pwrite (length g - 8) (put_word 8 (of_nat off :: 64 word)) g) (b # bs) off"
    using r off le by (simp add: index_region_def)
qed

lemma index_region_below:
  assumes r: "index_region f bs start" and "off + length xs \<le> start"
  shows "index_region (pwrite off xs f) bs start"
proof -
  have le: "off \<le> length f" "off + length xs \<le> length f"
    using assms(2) index_region_length [OF r] by simp_all
  have "drop start (pwrite off xs f) = drop start f"
    unfolding pwrite_inside [OF le(1)] using assms(2) le by (simp add: min_def)
  moreover have "length (pwrite off xs f) = length f" unfolding pwrite_inside [OF le(1)] using le by simp
  ultimately show ?thesis using r by (simp add: index_region_def)
qed

section \<open>Header and footer\<close>

lemma get_put_word24 [simp, codec_simps]: "get_word (put_word 3 w) = (w :: 24 word)"
  by (rule get_put_word) simp

lemma get_put_word8 [simp, codec_simps]: "get_word (put_word (Suc 0) w) = (w :: 8 word)"
  by (rule get_put_word) simp

lemma length_header_bytes [simp]: "length (header_bytes h) = 8"
  by (simp add: header_bytes_def)

lemma create_tsm_ready:
  assumes "io_ready P st" "p \<in> P" "files (io_disk st) p = Some f"
  shows "yields (create_tsm h ft p st) (\<lambda>(r, st'). r \<and>
    wrote P p (pwrite (4 * 1024 * 1024) (footer_bytes ft) (pwrite 0 (header_bytes h) f)) st st')"
  unfolding create_tsm_def
proof (rule with_stream_ready [OF assms(1,2)], simp)
  fix a st1
  assume 1: "io_ready P st1" "io_disk st1 = io_disk st" "stream_at st1 a p (cached_pos st p ''binary'')"
    "''binary'' = ''binary'' \<Longrightarrow> stream_rw st1 a"
  have f1: "files (io_disk st1) p = Some f" and rw: "stream_rw st1 a" using 1 assms(3) by simp_all
  show "yields (res_bind (stream_seek a 0 st1) (\<lambda>st. res_bind (stream_writes a [header_bytes h] st) (\<lambda>st.
      res_bind (stream_seek a (4 * 1024 * 1024) st) (\<lambda>st. res_bind (stream_writes a [footer_bytes ft] st) (\<lambda>st.
      res_bind (release_file_stream p st) (\<lambda>st. Inr (True, st)))))))
    (\<lambda>(r, st'). r \<and>
      wrote P p (pwrite (4 * 1024 * 1024) (footer_bytes ft) (pwrite 0 (header_bytes h) f)) st st')"
  proof (rule seek_writes_bind [OF 1(1,3) rw f1])
    fix st2
    assume 2: "wrote P p (pwrite (nat 0) (concat [header_bytes h]) f) st1 st2"
      "stream_at st2 a p (nat 0 + length (concat [header_bytes h]))" "stream_rw st2 a"
    have w: "wrote P p (pwrite 0 (header_bytes h) f) st st2" using 2(1) 1(2) by (simp add: wrote_def)
    have n: "nat (4 * 1024 * 1024) = 4 * 1024 * 1024" by simp
    show "yields (res_bind (stream_seek a (4 * 1024 * 1024) st2) (\<lambda>st.
        res_bind (stream_writes a [footer_bytes ft] st) (\<lambda>st.
        res_bind (release_file_stream p st) (\<lambda>st. Inr (True, st)))))
      (\<lambda>(r, st'). r \<and>
        wrote P p (pwrite (4 * 1024 * 1024) (footer_bytes ft) (pwrite 0 (header_bytes h) f)) st st')"
      by (rule seek_writes_release [OF wrote_ready [OF w] 2(2,3) wrote_file [OF w]], simp)
         (use w n in \<open>auto simp: wrote_def\<close>)
  qed simp
qed

lemma read_header_ready:
  assumes "io_ready P st" "p \<in> P" "files (io_disk st) p = Some f" "pread 0 8 f = Inr (header_bytes h)"
  shows "yields (read_header_from_file h0 p st) (\<lambda>((r, h'), st'). r \<and> h' = h)"
  unfolding read_header_from_file_def
proof (rule with_stream_ready [OF assms(1,2)], simp)
  fix a st1
  assume 1: "io_ready P st1" "io_disk st1 = io_disk st" "stream_at st1 a p (cached_pos st p ''binary'')"
  show "yields (res_bind (stream_seek a 0 st1) (\<lambda>st. res_bind (stream_read a 8 st) (\<lambda>(bs, st).
      res_bind (release_file_stream p st) (\<lambda>st. Inr ((True, h0\<lparr>hd_magic := get_word (take 4 bs),
        hd_version := get_word (take 1 (drop 4 bs)), hd_padding := get_word (drop 5 bs)\<rparr>), st)))))
    (\<lambda>((r, h'), st'). r \<and> h' = h)"
    apply (rule yields_bind [OF stream_seek_ready [OF 1(1,3) order_refl]], elim conjE)
    apply (rule read_bind [OF _ _ _ assms(4)], assumption, simp, simp add: 1(2) assms(3), unfold prod.case)
    apply (rule yields_bind [OF release_file_stream_ready], assumption)
    apply (cases h, cases h0, simp add: header_bytes_def)
    done
qed

lemma read_footer_ready:
  assumes "io_ready P st" "p \<in> P" "files (io_disk st) p = Some f" "8 \<le> length f"
    "pread (length f - 8) 8 f = Inr (footer_bytes ft)"
  shows "yields (read_footer_from_file f0 p st) (\<lambda>((r, ft'), st'). r \<and> ft' = ft)"
  unfolding read_footer_from_file_def
proof (rule with_stream_ready [OF assms(1,2)], simp)
  fix a st1
  assume 1: "io_ready P st1" "io_disk st1 = io_disk st" "stream_at st1 a p (cached_pos st p ''binary'')"
  have f1: "files (io_disk st1) p = Some f" using 1(2) assms(3) by simp
  have m8: "(- 8 :: int) = - int 8" by simp
  show "yields (res_bind (stream_seek_end a (- 8) st1) (\<lambda>st. res_bind (stream_read a 8 st) (\<lambda>(bs, st).
      res_bind (release_file_stream p st) (\<lambda>st. Inr ((True, f0\<lparr>ft_offset := get_word bs\<rparr>), st)))))
    (\<lambda>((r, ft'), st'). r \<and> ft' = ft)"
    unfolding m8
    apply (rule yields_bind [OF stream_seek_end_ready [OF 1(1,3) f1 assms(4)]], elim conjE)
    apply (rule read_bind [OF _ _ _ assms(5)], assumption, assumption, simp add: f1, unfold prod.case)
    apply (rule yields_bind [OF release_file_stream_ready], assumption)
    apply (simp add: footer_bytes_def)
    done
qed

section \<open>Properties of the file format\<close>

text \<open>
  C28. The index round-trips: into a file whose index region holds the blocks \<open>bs\<close>, writing the
  entries of one more series directly below the region succeeds, and a reader that then loads the
  file finds exactly the new block followed by \<open>bs\<close>, with every key, type, time range, offset and
  size as written.
\<close>

theorem series_index_roundtrip:
  assumes "io_ready P w" "p \<in> P" "p = ''./../dbs/'' @ sh_database_name sh @ ''/'' @ n"
    "files (io_disk w) p = Some f" "index_region f bs start" "\<forall>b \<in> set bs. block_ok b"
    "es \<noteq> []" "block_ok (m\<lparr>im_count := of_nat (length es)\<rparr>, es)"
    "off + length (block_image (m, es)) = start"
  shows "\<exists>w'. write_series_index_block_to_file es (Some m) p (int off) w =
      Inr ((True, [], Some (m\<lparr>im_count := of_nat (length es)\<rparr>)), w') \<and>
    (\<exists>c'. load_tsm_file sh n \<lparr>tc_db_name = db, tc_tb_name = tb,
        tc_io_manager = mk_file_io 8 (io_disk w'), tc_tsm_index = idx\<rparr> = Inr (True, c') \<and>
      tc_tsm_index c' = fold (add_series_block (sh_shard_id sh) n)
        ((m\<lparr>im_count := of_nat (length es)\<rparr>, es) # bs) idx)"
proof -
  let ?m = "m\<lparr>im_count := of_nat (length es)\<rparr>"
  have mok: "meta_ok m" using assms(8) by (simp add: block_ok_def meta_ok_def)
  have off: "off + length (block_image (?m, es)) = start" using assms(9) by (simp add: length_block_image)
  note ext = index_region_extend [OF assms(5) off]
  obtain w' where w: "write_series_index_block_to_file es (Some m) p (int off) w = Inr ((True, [], Some ?m), w')"
    and wr: "wrote P p (pwrite (length (pwrite off (block_image (?m, es)) f) - 8)
      (put_word 8 (of_nat off :: 64 word)) (pwrite off (block_image (?m, es)) f)) w w'"
    using write_series_index_block_ready [OF assms(1,2,4) mok assms(7) ext(2), of off]
    by (auto elim!: yieldsE)
  define c where "c = \<lparr>tc_db_name = db, tc_tb_name = tb, tc_io_manager = mk_file_io 8 (io_disk w'), tc_tsm_index = idx\<rparr>"
  have disk: "io_disk (tc_io_manager c) = io_disk w'" by (simp add: c_def)
  have rdy: "io_ready {p} (tc_io_manager c)"
    unfolding c_def tsm_io_center.simps by (rule mk_file_io_ready) (use wrote_file [OF wr] in auto)
  have contents: "files (io_disk (tc_io_manager c)) p = Some (pwrite (length (pwrite off (block_image (?m, es)) f) - 8)
      (put_word 8 (of_nat off :: 64 word)) (pwrite off (block_image (?m, es)) f))"
    unfolding disk by (rule wrote_file [OF wr])
  have ok: "\<forall>b \<in> set ((?m, es) # bs). block_ok b" using assms(6,8) by simp
  show ?thesis
    using w load_tsm_file_region [OF rdy assms(3) _ contents ext(1) ok]
    by (auto elim!: yieldsE simp: c_def)
qed

definition demo_path :: string where
  "demo_path = ''./../dbs/'' @ ''db'' @ ''/'' @ ''t.tsm''"

definition demo_shard :: shard where
  "demo_shard = \<lparr>sh_retention_policy = [], sh_shard_id = ''2024-05-01'', sh_database_name = ''db'',
     sh_measurement = ''tb'', sh_tsm_file = [''t.tsm''], sh_curr_file_path = [],
     sh_curr_file_margin = 0, sh_curr_file_head_offset = 0, sh_curr_file_tail_offset = 0\<rparr>"

definition demo_io :: "nat \<Rightarrow> file_io" where
  "demo_io n = mk_file_io 20 \<lparr>files = [demo_path \<mapsto> replicate n NUL @ put_word 8 (of_nat n :: 64 word)], dirs = {}\<rparr>"

lemma demo_io_ready: "io_ready {demo_path} (demo_io n)"
  unfolding demo_io_def by (rule mk_file_io_ready) auto

lemma demo_io_file: "files (io_disk (demo_io n)) demo_path = Some (replicate n NUL @ put_word 8 (of_nat n :: 64 word))"
  by (simp add: demo_io_def)

lemma demo_region: "n < 2 ^ 63 \<Longrightarrow> index_region (replicate n NUL @ put_word 8 (of_nat n :: 64 word)) [] n"
  by (simp add: index_region_def)

definition demo_meta :: index_block_meta where
  "demo_meta = \<lparr>im_key_size = 3, im_key = ''k,v'', im_type = DATA_FLOAT, im_count = 0\<rparr>"

definition demo_entry :: index_entry where
  "demo_entry = create_index_entry 9 4 5 40"

theorem series_index_roundtrip_witness:
  "\<exists>w'. write_series_index_block_to_file [demo_entry] (Some demo_meta) demo_path (int 61) (demo_io 100) =
      Inr ((True, [], Some (demo_meta\<lparr>im_count := 1\<rparr>)), w') \<and>
    (\<exists>c'. load_tsm_file demo_shard ''t.tsm'' \<lparr>tc_db_name = ''db'', tc_tb_name = ''tb'',
        tc_io_manager = mk_file_io 8 (io_disk w'), tc_tsm_index = Map.empty\<rparr> = Inr (True, c') \<and>
      tc_tsm_index c' = add_series_block ''2024-05-01'' ''t.tsm'' (demo_meta\<lparr>im_count := 1\<rparr>, [demo_entry]) Map.empty)"
  using series_index_roundtrip [OF demo_io_ready [of 100] singletonI, of demo_shard "''t.tsm''" _ "[]" 100 "[demo_entry]" demo_meta 61,
      OF _ demo_io_file demo_region]
  by (simp add: demo_path_def demo_shard_def block_ok_def meta_ok_def demo_meta_def named_type_def length_block_image)

text \<open>What a data write needs: the block fits the format, and it is the first one or follows it.\<close>

definition data_ok :: "snappy \<Rightarrow> time_point list \<Rightarrow> string list \<Rightarrow> bool" where
  "data_ok sn ts vs \<longleftrightarrow> snappy_ok sn \<and> strings_ok vs \<and>
     length (calculate_timestamp_size sn ts) < 2 ^ 31 \<and> length (calculate_val_size sn vs) < 2 ^ 31"

definition first_block_before :: "snappy \<Rightarrow> string \<Rightarrow> nat \<Rightarrow> bool" where
  "first_block_before sn f off \<longleftrightarrow> (\<exists>ty num ct cv ts vs. data_at f 5 ty num ct cv \<and>
     5 + length (data_image ty num ct cv) \<le> off \<and>
     decode_timestamps sn ct = Inr ts \<and> decode_values sn cv = Some (Inr vs))"

lemma data_ok_decodes:
  assumes "data_ok sn ts vs"
  shows "decode_timestamps sn (calculate_timestamp_size sn ts) = Inr ts"
    "decode_values sn (calculate_val_size sn vs) = Some (Inr vs)"
  using assms decode_timestamps_size decode_values_size by (simp_all add: data_ok_def)

lemma readable_after_write:
  assumes "data_ok sn ts vs" "off = 5 \<or> first_block_before sn f off"
  shows "readable_block sn (pwrite off (data_image ty num (calculate_timestamp_size sn ts) (calculate_val_size sn vs)) f) 5"
  using assms(2)
proof
  assume "off = 5"
  moreover have "data_at (pwrite off (data_image ty num (calculate_timestamp_size sn ts) (calculate_val_size sn vs)) f) off
      ty num (calculate_timestamp_size sn ts) (calculate_val_size sn vs)"
    using assms(1) by (intro data_at_pwrite) (simp_all add: data_ok_def)
  ultimately show ?thesis using data_ok_decodes [OF assms(1)] unfolding readable_block_def by blast
next
  assume "first_block_before sn f off"
  then show ?thesis unfolding first_block_before_def readable_block_def
    by (elim exE conjE) (metis data_at_pwrite_other)
qed

text \<open>
  C34. Data blocks round-trip through the file: a block written at the head offset of a file (the
  first one at offset 5, each later one behind it) is returned by the reader at that offset with its
  type, count, timestamps and values, and the writer reports the number of bytes it took.
\<close>

theorem data_block_roundtrip:
  assumes "io_ready P w" "p \<in> P" "files (io_disk w) p = Some f" "data_ok sn ts vs" "named_type ty"
    "off = 5 \<or> first_block_before sn f off"
  shows "\<exists>w'. write_data_to_file sn scratch ty num (calculate_timestamp_size sn ts) (calculate_val_size sn vs) p (int off) w =
      Inr (16 + int (length (calculate_timestamp_size sn ts)) + int (length (calculate_val_size sn vs)), w') \<and>
    (\<exists>b' w''. read_data_from_file sn b p (int off) w' = Inr ((True, b'), w'') \<and>
      db_type b' = ty \<and> db_num b' = num \<and> db_timestamps b' = ts \<and> db_values b' = vs)"
proof -
  let ?ct = "calculate_timestamp_size sn ts" and ?cv = "calculate_val_size sn vs"
  let ?g = "pwrite off (data_image ty num ?ct ?cv) f"
  have at: "data_at ?g off ty num ?ct ?cv" using assms(4) by (intro data_at_pwrite) (simp_all add: data_ok_def)
  have g: "pwrite (nat (int off)) (data_image ty num ?ct ?cv) f = ?g" by simp
  obtain w' where w: "write_data_to_file sn scratch ty num ?ct ?cv p (int off) w = Inr (16 + int (length ?ct) + int (length ?cv), w')"
    and wr: "wrote P p ?g w w'"
    using write_data_ready [OF assms(1-3), of "int off" sn ty num ?ct ?cv scratch]
      readable_after_write [OF assms(4,6), of ty num]
    by (auto elim!: yieldsE)
  obtain b' w'' where "read_data_from_file sn b p (int off) w' = Inr ((True, b'), w'')"
    "b' = b\<lparr>db_type := type_of_code (type_code ty), db_num := num, db_tp_snappy_size := of_nat (length ?ct),
       db_val_snappy_size := of_nat (length ?cv), db_timestamps := ts, db_values := vs\<rparr>"
    using read_data_ready [OF wrote_ready [OF wr] assms(2) wrote_file [OF wr] at data_ok_decodes [OF assms(4)], of b]
    by (auto elim!: yieldsE)
  then show ?thesis using w assms(5) by simp
qed

lemma demo_lengths:
  "length (calculate_timestamp_size plain_snappy [7, 9]) = 17"
  "length (calculate_val_size plain_snappy [''1'', ''25'']) = 12"
  by (simp_all add: calculate_timestamp_size_def calculate_val_size_def compress_data_def plain_snappy_def
      serialize_strings_concat)

lemma demo_data_ok: "data_ok plain_snappy [7, 9] [''1'', ''25'']"
  unfolding data_ok_def demo_lengths
  by (simp add: plain_snappy_ok strings_ok_def short_string_def serialize_strings_concat)

theorem data_block_roundtrip_witness:
  "\<exists>w' b' w''. write_data_to_file plain_snappy empty_block DATA_INTEGER 2 (calculate_timestamp_size plain_snappy [7, 9])
      (calculate_val_size plain_snappy [''1'', ''25'']) demo_path (int 5) (demo_io 100) = Inr (45, w') \<and>
    read_data_from_file plain_snappy empty_block demo_path (int 5) w' = Inr ((True, b'), w'') \<and>
    db_values b' = [''1'', ''25'']"
  using data_block_roundtrip [OF demo_io_ready [of 100] singletonI demo_io_file demo_data_ok, of DATA_INTEGER 5 empty_block 2 empty_block]
  by (auto simp: named_type_def demo_lengths)

text \<open>
  Blocks and index do not disturb each other: a data block that ends at or below the start of
  the index region leaves every block of the index readable as before.
\<close>

theorem data_write_keeps_index:
  assumes "io_ready P w" "p \<in> P" "files (io_disk w) p = Some f" "data_ok sn ts vs"
    "off = 5 \<or> first_block_before sn f off" "index_region f bs start"
    "off + 16 + length (calculate_timestamp_size sn ts) + length (calculate_val_size sn vs) \<le> start"
  shows "\<exists>r w' f'. write_data_to_file sn scratch ty num (calculate_timestamp_size sn ts) (calculate_val_size sn vs) p (int off) w =
      Inr (r, w') \<and> files (io_disk w') p = Some f' \<and> index_region f' bs start"
proof -
  let ?ct = "calculate_timestamp_size sn ts" and ?cv = "calculate_val_size sn vs"
  have "index_region (pwrite off (data_image ty num ?ct ?cv) f) bs start"
    by (rule index_region_below [OF assms(6)]) (use assms(7) in simp)
  then show ?thesis
    using write_data_ready [OF assms(1-3), of "int off" sn ty num ?ct ?cv scratch]
      readable_after_write [OF assms(4,5), of ty num]
    by (auto elim!: yieldsE dest!: wrote_file)
qed

theorem data_write_keeps_index_witness:
  "\<exists>r w' f'. write_data_to_file plain_snappy empty_block DATA_INTEGER 2 (calculate_timestamp_size plain_snappy [7, 9])
      (calculate_val_size plain_snappy [''1'', ''25'']) demo_path (int 5) (demo_io 100) = Inr (r, w') \<and>
    files (io_disk w') demo_path = Some f' \<and> index_region f' [] 100"
  by (intro data_write_keeps_index [OF demo_io_ready singletonI demo_io_file demo_data_ok _ demo_region])
     (simp_all add: demo_lengths)

text \<open>
  A new TSM file: after \<open>create_tsm\<close> the header and the footer read back as written, when the
  file was no longer than the layout (4 MiB and the footer).
\<close>

theorem create_tsm_roundtrip:
  assumes "io_ready P w" "p \<in> P" "files (io_disk w) p = Some f" "length f \<le> 4194312"
  shows "\<exists>w'. create_tsm h ft p w = Inr (True, w') \<and>
    (\<exists>w2. read_header_from_file h0 p w' = Inr ((True, h), w2)) \<and>
    (\<exists>w3. read_footer_from_file ft0 p w' = Inr ((True, ft), w3))"
proof -
  let ?g = "pwrite 4194304 (footer_bytes ft) (pwrite 0 (header_bytes h) f)"
  obtain w' where w: "create_tsm h ft p w = Inr (True, w')" and wr: "wrote P p ?g w w'"
    using create_tsm_ready [OF assms(1-3), of h ft] by (auto elim!: yieldsE)
  have fb: "length (footer_bytes ft) = 8" "footer_bytes ft \<noteq> []" by (simp add: footer_bytes_def, metis footer_bytes_def length_put_word list.size(3) zero_neq_numeral)
  have hb: "header_bytes h \<noteq> []" by (metis length_header_bytes list.size(3) zero_neq_numeral)
  have len: "length ?g = 4194312" using assms(4) fb hb by (simp add: length_pwrite)
  have head: "pread 0 8 ?g = Inr (header_bytes h)"
    using fb hb by (subst pread_pwrite_disjoint) (simp_all add: length_pwrite)
  have foot: "pread (length ?g - 8) 8 ?g = Inr (footer_bytes ft)"
    unfolding len using fb by simp
  have le: "8 \<le> length ?g" by (simp add: len)
  show ?thesis
    using w read_header_ready [OF wrote_ready [OF wr] assms(2) wrote_file [OF wr] head, of h0]
      read_footer_ready [OF wrote_ready [OF wr] assms(2) wrote_file [OF wr] le foot, of ft0]
    by (auto elim!: yieldsE)
qed

definition demo_header :: header_object where
  "demo_header = \<lparr>hd_magic = 1, hd_version = 1, hd_padding = 0\<rparr>"

theorem create_tsm_roundtrip_witness:
  "\<exists>w' w2. create_tsm demo_header \<lparr>ft_offset = 77\<rparr> demo_path (demo_io 0) = Inr (True, w') \<and>
    read_header_from_file (demo_header\<lparr>hd_magic := 3\<rparr>) demo_path w' = Inr ((True, demo_header), w2)"
  using create_tsm_roundtrip [OF demo_io_ready [of 0] singletonI demo_io_file] by (simp) blast

text \<open>
  \<open>read_index_entry_from_file\<close> reads no entry: it never changes the entry it is given, and it
  never returns \<open>true\<close> (when the file is open it flows off its end without a return value).
\<close>

theorem read_index_entry_reads_nothing:
  "case read_index_entry_from_file e p off st of
     Inl _ \<Rightarrow> True | Inr ((r, e'), _) \<Rightarrow> e' = e \<and> r \<noteq> Some True"
  by (auto simp: read_index_entry_from_file_def with_stream_def res_bind_def split: sum.split option.split prod.split)

end
