(* ===== verification/Skip_List.thy ===== *)
theory Skip_List
  imports Tsm_Codec
begin

text \<open>
  The skip list that holds the out-of-order window of a field (\<open>src/engine/tsm/skip_list.h\<close>), with
  its pointer structure: a heap of nodes, a node holding one forward pointer per level, the head
  node with \<open>MAX_LEVEL\<close> of them. \<open>delete\<close> takes a node out of the heap, so that a node that is
  unlinked but never deleted stays visible. The loops that follow pointers are partial functions;
  the lemmas show that they return on every list that the operations build.

  \<open>rand()\<close> is a parameter: the sequence of numbers it returns; the list keeps the position in it.
  Keys compare as signed 64-bit counts. The mutex is held inside each operation only and no
  operation calls another, so it needs no model here.
\<close>

definition MAX_LEVEL :: nat where
  "MAX_LEVEL = 32"

record 'v sl_node =
  n_key :: time_point
  n_value :: 'v
  n_nexts :: "nat option list"

type_synonym 'v sl_heap = "nat \<Rightarrow> 'v sl_node option"

record 'v skip_list =
  sl_heap :: "'v sl_heap"
  sl_head :: nat
  sl_next_addr :: nat
  sl_count :: nat
  sl_rand_pos :: nat

section \<open>Nodes\<close>

definition node_key :: "'v sl_heap \<Rightarrow> nat \<Rightarrow> time_point" where
  "node_key h a = (case h a of Some n \<Rightarrow> n_key n | None \<Rightarrow> 0)"

definition node_nexts :: "'v sl_heap \<Rightarrow> nat \<Rightarrow> nat option list" where
  "node_nexts h a = (case h a of Some n \<Rightarrow> n_nexts n | None \<Rightarrow> [])"

text \<open>\<open>m_nexts[i]\<close>; the operations only index within the vector.\<close>

definition next_at :: "'v sl_heap \<Rightarrow> nat \<Rightarrow> nat \<Rightarrow> nat option" where
  "next_at h a i = (if i < length (node_nexts h a) then node_nexts h a ! i else None)"

definition set_next :: "nat \<Rightarrow> nat \<Rightarrow> nat option \<Rightarrow> 'v sl_heap \<Rightarrow> 'v sl_heap" where
  "set_next a i p h = (case h a of Some n \<Rightarrow> h(a \<mapsto> n\<lparr>n_nexts := (n_nexts n)[i := p]\<rparr>) | None \<Rightarrow> h)"

definition key_less :: "time_point \<Rightarrow> time_point \<Rightarrow> bool" where
  "key_less k1 k2 \<longleftrightarrow> sint k1 < sint k2"

definition new_skip_list :: "'v \<Rightarrow> 'v skip_list" where
  "new_skip_list v0 =
     \<lparr>sl_heap = [0 \<mapsto> \<lparr>n_key = 0, n_value = v0, n_nexts = replicate MAX_LEVEL None\<rparr>],
      sl_head = 0, sl_next_addr = 1, sl_count = 0, sl_rand_pos = 0\<rparr>"

section \<open>Operations\<close>

text \<open>The inner \<open>while\<close> of the search, and the search with the vector \<open>update\<close> it fills.\<close>

partial_function (option) advance :: "'v sl_heap \<Rightarrow> time_point \<Rightarrow> nat \<Rightarrow> nat \<Rightarrow> nat option" where
  "advance h key i a =
     (case next_at h a i of
        Some b \<Rightarrow> if key_less (node_key h b) key then advance h key i b else Some a
      | None \<Rightarrow> Some a)"

fun search :: "'v sl_heap \<Rightarrow> time_point \<Rightarrow> nat \<Rightarrow> nat \<Rightarrow> nat list \<Rightarrow> (nat \<times> nat list) option" where
  "search h key 0 a update = Some (a, update)"
| "search h key (Suc i) a update =
     (case advance h key i a of
        None \<Rightarrow> None
      | Some b \<Rightarrow> search h key i b (update[i := b]))"

text \<open>\<open>PROBABILITY * 100\<close> is 50.\<close>

function random_level_loop :: "(nat \<Rightarrow> nat) \<Rightarrow> nat \<Rightarrow> nat \<Rightarrow> nat \<times> nat" where
  "random_level_loop rand pos level =
     (if rand pos mod 100 < 50 \<and> level < MAX_LEVEL
      then random_level_loop rand (pos + 1) (level + 1) else (level, pos + 1))"
  by pat_completeness auto
termination by (relation "measure (\<lambda>(_, _, level). MAX_LEVEL - level)") auto

declare random_level_loop.simps [simp del]

definition random_level :: "(nat \<Rightarrow> nat) \<Rightarrow> nat \<Rightarrow> nat \<times> nat" where
  "random_level rand pos = random_level_loop rand pos 1"

text \<open>The node behind the searched position, when it has the key.\<close>

definition found_at :: "'v sl_heap \<Rightarrow> nat \<Rightarrow> time_point \<Rightarrow> nat option" where
  "found_at h prev key =
     (case next_at h prev 0 of Some b \<Rightarrow> if node_key h b = key then Some b else None | None \<Rightarrow> None)"

text \<open>
  \<open>put\<close> takes its value by reference; the first component of the result is the value of the
  caller's variable afterwards.
\<close>

definition link_node :: "nat list \<Rightarrow> nat \<Rightarrow> nat \<Rightarrow> 'v sl_heap \<Rightarrow> 'v sl_heap" where
  "link_node update new_node i h =
     set_next (update ! i) i (Some new_node) (set_next new_node i (next_at h (update ! i) i) h)"

definition sl_put :: "(nat \<Rightarrow> nat) \<Rightarrow> time_point \<Rightarrow> 'v \<Rightarrow> 'v skip_list \<Rightarrow> ('v \<times> 'v skip_list) option" where
  "sl_put rand key v sl =
     (let h = sl_heap sl in
      case search h key MAX_LEVEL (sl_head sl) (replicate MAX_LEVEL (sl_head sl)) of
        None \<Rightarrow> None
      | Some (prev, update) \<Rightarrow>
          (case found_at h prev key of
             Some b \<Rightarrow> Some (case h b of Some n \<Rightarrow> n_value n | None \<Rightarrow> v, sl)
           | None \<Rightarrow>
               (let (level0, pos) = random_level rand (sl_rand_pos sl);
                    level = min level0 MAX_LEVEL;
                    new_node = sl_next_addr sl;
                    h1 = h(new_node \<mapsto> \<lparr>n_key = key, n_value = v, n_nexts = replicate level None\<rparr>)
                in Some (v, sl\<lparr>sl_heap := fold (link_node update new_node) [0..<level] h1,
                     sl_next_addr := new_node + 1, sl_rand_pos := pos,
                     sl_count := (if 1 \<le> level then sl_count sl + 1 else sl_count sl)\<rparr>))))"

text \<open>\<open>get\<close> also writes through its reference; \<open>None\<close> in the result leaves it alone.\<close>

definition sl_get :: "time_point \<Rightarrow> 'v skip_list \<Rightarrow> 'v option option" where
  "sl_get key sl =
     (let h = sl_heap sl in
      case search h key MAX_LEVEL (sl_head sl) (replicate MAX_LEVEL (sl_head sl)) of
        None \<Rightarrow> None
      | Some (prev, _) \<Rightarrow>
          Some (case found_at h prev key of Some b \<Rightarrow> map_option n_value (h b) | None \<Rightarrow> None))"

fun unlink_levels :: "nat list \<Rightarrow> nat \<Rightarrow> nat list \<Rightarrow> 'v sl_heap \<Rightarrow> 'v sl_heap" where
  "unlink_levels update current [] h = h"
| "unlink_levels update current (i # is) h =
     (if next_at h (update ! i) i \<noteq> Some current then h
      else unlink_levels update current is (set_next (update ! i) i (next_at h current i) h))"

definition sl_del :: "time_point \<Rightarrow> 'v skip_list \<Rightarrow> 'v skip_list option" where
  "sl_del key sl =
     (let h = sl_heap sl in
      case search h key MAX_LEVEL (sl_head sl) (replicate MAX_LEVEL (sl_head sl)) of
        None \<Rightarrow> None
      | Some (prev, update) \<Rightarrow>
          Some (case found_at h prev key of
                  Some b \<Rightarrow> sl\<lparr>sl_heap := (unlink_levels update b [0..<MAX_LEVEL] h)(b := None),
                             sl_count := sl_count sl - 1\<rparr>
                | None \<Rightarrow> sl))"

partial_function (option) delete_nodes :: "'v sl_heap \<Rightarrow> nat option \<Rightarrow> 'v sl_heap option" where
  "delete_nodes h current =
     (case current of
        None \<Rightarrow> Some h
      | Some a \<Rightarrow> delete_nodes (h(a := None)) (next_at h a 0))"

definition sl_cle :: "'v skip_list \<Rightarrow> 'v skip_list option" where
  "sl_cle sl =
     (let h1 = fold (\<lambda>i h. set_next (sl_head sl) i None h) [0..<MAX_LEVEL] (sl_heap sl) in
      case delete_nodes h1 (next_at h1 (sl_head sl) 0) of
        None \<Rightarrow> None
      | Some h2 \<Rightarrow>
          Some (sl\<lparr>sl_heap := (case h2 (sl_head sl) of
                      Some n \<Rightarrow> h2(sl_head sl \<mapsto> n\<lparr>n_nexts := replicate MAX_LEVEL None\<rparr>) | None \<Rightarrow> h2),
                   sl_count := 0\<rparr>))"

definition sl_size :: "'v skip_list \<Rightarrow> nat" where
  "sl_size sl = sl_count sl"

definition sl_empty :: "'v skip_list \<Rightarrow> bool" where
  "sl_empty sl \<longleftrightarrow> sl_count sl = 0"

definition sl_min_key :: "'v skip_list \<Rightarrow> time_point" where
  "sl_min_key sl =
     (case next_at (sl_heap sl) (sl_head sl) 0 of Some b \<Rightarrow> node_key (sl_heap sl) b | None \<Rightarrow> 0)"

partial_function (option) last_node :: "'v sl_heap \<Rightarrow> nat \<Rightarrow> nat option" where
  "last_node h a = (case next_at h a 0 of Some b \<Rightarrow> last_node h b | None \<Rightarrow> Some a)"

definition sl_max_key :: "'v skip_list \<Rightarrow> time_point option" where
  "sl_max_key sl =
     (case last_node (sl_heap sl) (sl_head sl) of
        None \<Rightarrow> None
      | Some a \<Rightarrow> Some (if a \<noteq> sl_head sl then node_key (sl_heap sl) a else 0))"

text \<open>The iterator is a node pointer.\<close>

definition sl_begin :: "'v skip_list \<Rightarrow> nat option" where
  "sl_begin sl = next_at (sl_heap sl) (sl_head sl) 0"

definition sl_end :: "'v skip_list \<Rightarrow> nat option" where
  "sl_end sl = None"

definition iter_next :: "'v skip_list \<Rightarrow> nat option \<Rightarrow> nat option" where
  "iter_next sl it = (case it of Some a \<Rightarrow> next_at (sl_heap sl) a 0 | None \<Rightarrow> None)"

definition iter_deref :: "'v skip_list \<Rightarrow> nat option \<Rightarrow> (time_point \<times> 'v) result" where
  "iter_deref sl it =
     (case it of
        None \<Rightarrow> Inl (Runtime_error ''Attempted to dereference a null iterator'')
      | Some a \<Rightarrow> (case sl_heap sl a of Some n \<Rightarrow> Inr (n_key n, n_value n) | None \<Rightarrow> Inl Null_deref))"

text \<open>The \<open>for\<close> loop from \<open>begin\<close> to \<open>end\<close>, collecting what the iterator yields.\<close>

partial_function (option) iterate :: "'v skip_list \<Rightarrow> nat option \<Rightarrow> (time_point \<times> 'v) list \<Rightarrow> (time_point \<times> 'v) list result option" where
  "iterate sl it acc =
     (if it \<noteq> sl_end sl
      then (case iter_deref sl it of
              Inl e \<Rightarrow> Some (Inl e)
            | Inr kv \<Rightarrow> iterate sl (iter_next sl it) (acc @ [kv]))
      else Some (Inr acc))"

definition sl_entries :: "'v skip_list \<Rightarrow> (time_point \<times> 'v) list result option" where
  "sl_entries sl = iterate sl (sl_begin sl) []"

section \<open>Linked levels\<close>

text \<open>The nodes of a list are chained at level \<open>i\<close> and the last one ends the level.\<close>

fun linked :: "'v sl_heap \<Rightarrow> nat \<Rightarrow> nat list \<Rightarrow> bool" where
  "linked h i [] = True"
| "linked h i [a] = (next_at h a i = None)"
| "linked h i (a # b # r) = (next_at h a i = Some b \<and> linked h i (b # r))"

lemma linked_next: "linked h i (a # r) \<Longrightarrow> next_at h a i = (case r of [] \<Rightarrow> None | b # _ \<Rightarrow> Some b)"
  by (cases r) auto

lemma linked_tl: "linked h i (a # r) \<Longrightarrow> linked h i r"
  by (cases r) auto

lemma linked_suffix: "linked h i (xs @ ys) \<Longrightarrow> linked h i ys"
  by (induction xs) (auto dest: linked_tl)

lemma linked_cong:
  "(\<And>a. a \<in> set xs \<Longrightarrow> next_at h' a i = next_at h a i) \<Longrightarrow> linked h' i xs = linked h i xs"
  by (induction h i xs rule: linked.induct) auto

lemma linked_append:
  "xs \<noteq> [] \<Longrightarrow> linked h i (xs @ ys) \<longleftrightarrow>
   (\<forall>n. Suc n < length xs \<longrightarrow> next_at h (xs ! n) i = Some (xs ! Suc n)) \<and>
   next_at h (last xs) i = (case ys of [] \<Rightarrow> None | b # _ \<Rightarrow> Some b) \<and> linked h i ys"
proof (induction xs)
  case (Cons a xs)
  show ?case
  proof (cases xs)
    case Nil
    then show ?thesis by (cases ys) auto
  next
    case (Cons b r)
    have "(\<forall>n. Suc n < length (a # xs) \<longrightarrow> next_at h ((a # xs) ! n) i = Some ((a # xs) ! Suc n)) \<longleftrightarrow>
        next_at h a i = Some b \<and> (\<forall>n. Suc n < length xs \<longrightarrow> next_at h (xs ! n) i = Some (xs ! Suc n))"
      using Cons by (auto simp: nth_Cons split: nat.splits)
    then show ?thesis using Cons Cons.IH by auto
  qed
qed simp

text \<open>Advancing along a level stops at the last node with a smaller key.\<close>

lemma advance_linked:
  "linked h i (a # r) \<Longrightarrow>
   advance h key i a = Some (last (a # takeWhile (\<lambda>b. key_less (node_key h b) key) r))"
proof (induction r arbitrary: a)
  case Nil
  then show ?case by (subst advance.simps) simp
next
  case (Cons b r)
  then show ?case by (subst advance.simps) auto
qed

section \<open>The invariant\<close>

definition level :: "'v sl_heap \<Rightarrow> nat \<Rightarrow> nat" where
  "level h a = length (node_nexts h a)"

definition at_level :: "'v sl_heap \<Rightarrow> nat \<Rightarrow> nat list \<Rightarrow> nat list" where
  "at_level h i as = filter (\<lambda>a. i < level h a) as"

definition node_less :: "'v sl_heap \<Rightarrow> nat \<Rightarrow> nat \<Rightarrow> bool" where
  "node_less h a b \<longleftrightarrow> key_less (node_key h a) (node_key h b)"

text \<open>
  \<open>as\<close> are the nodes in the order of the bottom level. Level \<open>i\<close> is the head followed by the nodes
  that are higher than \<open>i\<close>, in the same order.
\<close>

definition sl_ok :: "'v skip_list \<Rightarrow> nat list \<Rightarrow> bool" where
  "sl_ok sl as \<longleftrightarrow> distinct (sl_head sl # as) \<and>
     (\<forall>a \<in> set (sl_head sl # as). a < sl_next_addr sl \<and> sl_heap sl a \<noteq> None) \<and>
     level (sl_heap sl) (sl_head sl) = MAX_LEVEL \<and>
     (\<forall>a \<in> set as. 1 \<le> level (sl_heap sl) a \<and> level (sl_heap sl) a \<le> MAX_LEVEL) \<and>
     sorted_wrt (node_less (sl_heap sl)) as \<and>
     (\<forall>i < MAX_LEVEL. linked (sl_heap sl) i (sl_head sl # at_level (sl_heap sl) i as)) \<and>
     sl_count sl = length as"

lemma key_less_irrefl [simp]: "\<not> key_less k k"
  by (simp add: key_less_def)

lemma key_less_trans: "key_less a b \<Longrightarrow> key_less b c \<Longrightarrow> key_less a c"
  by (simp add: key_less_def)

lemma key_less_total: "\<not> key_less a b \<Longrightarrow> a \<noteq> b \<Longrightarrow> key_less b a"
  by (metis key_less_def linorder_less_linear signed_word_eqI)

text \<open>A search key splits the list into smaller nodes and the others.\<close>

definition below :: "'v sl_heap \<Rightarrow> time_point \<Rightarrow> nat list \<Rightarrow> nat list" where
  "below h key as = takeWhile (\<lambda>a. key_less (node_key h a) key) as"

definition above :: "'v sl_heap \<Rightarrow> time_point \<Rightarrow> nat list \<Rightarrow> nat list" where
  "above h key as = dropWhile (\<lambda>a. key_less (node_key h a) key) as"

lemma below_above: "below h key as @ above h key as = as"
  by (simp add: below_def above_def)

lemma below_less: "a \<in> set (below h key as) \<Longrightarrow> key_less (node_key h a) key"
  by (auto simp: below_def dest: set_takeWhileD)

lemma above_not_less:
  "sorted_wrt (node_less h) as \<Longrightarrow> a \<in> set (above h key as) \<Longrightarrow> \<not> key_less (node_key h a) key"
proof (induction as)
  case (Cons b as)
  show ?case
  proof (cases "key_less (node_key h b) key")
    case True
    then show ?thesis using Cons by (simp add: above_def)
  next
    case False
    then show ?thesis using Cons.prems key_less_trans by (auto simp: above_def node_less_def)
  qed
qed (simp add: above_def)

lemma takeWhile_append_all:
  "\<forall>x \<in> set xs. P x \<Longrightarrow> \<forall>y \<in> set ys. \<not> P y \<Longrightarrow> takeWhile P (xs @ ys) = xs"
  by (cases ys) (simp_all add: takeWhile_append)

lemma at_level_append [simp]: "at_level h i (xs @ ys) = at_level h i xs @ at_level h i ys"
  by (simp add: at_level_def)

lemma at_level_Cons:
  "at_level h i (a # as) = (if i < level h a then a # at_level h i as else at_level h i as)"
  by (simp add: at_level_def)

lemma at_level_mono: "i \<le> j \<Longrightarrow> set (at_level h j as) \<subseteq> set (at_level h i as)"
  by (auto simp: at_level_def)

lemma sl_okD:
  assumes "sl_ok sl as"
  shows "distinct (sl_head sl # as)" "\<And>a. a \<in> set (sl_head sl # as) \<Longrightarrow> a < sl_next_addr sl \<and> sl_heap sl a \<noteq> None"
    "level (sl_heap sl) (sl_head sl) = MAX_LEVEL"
    "\<And>a. a \<in> set as \<Longrightarrow> 1 \<le> level (sl_heap sl) a \<and> level (sl_heap sl) a \<le> MAX_LEVEL"
    "sorted_wrt (node_less (sl_heap sl)) as"
    "\<And>i. i < MAX_LEVEL \<Longrightarrow> linked (sl_heap sl) i (sl_head sl # at_level (sl_heap sl) i as)"
    "sl_count sl = length as"
  using assms unfolding sl_ok_def by blast+

lemma sl_ok_levels:
  assumes "sl_ok sl as" "a \<in> set as"
  shows "0 < level (sl_heap sl) a" "\<not> MAX_LEVEL < level (sl_heap sl) a"
  using sl_okD(4) [OF assms] by simp_all

text \<open>The node that the search reaches on level \<open>i\<close>.\<close>

definition pred_at :: "'v skip_list \<Rightarrow> time_point \<Rightarrow> nat list \<Rightarrow> nat \<Rightarrow> nat" where
  "pred_at sl key as i = last (sl_head sl # at_level (sl_heap sl) i (below (sl_heap sl) key as))"

lemma pred_at_in: "pred_at sl key as i \<in> set (sl_head sl # at_level (sl_heap sl) i (below (sl_heap sl) key as))"
  unfolding pred_at_def by (rule last_in_set) simp

lemma advance_step:
  assumes ok: "sl_ok sl as" and i: "i < MAX_LEVEL"
  shows "advance (sl_heap sl) key i (pred_at sl key as (Suc i)) = Some (pred_at sl key as i)"
proof -
  let ?h = "sl_heap sl"
  let ?L = "sl_head sl # at_level ?h i (below ?h key as)" and ?R = "at_level ?h i (above ?h key as)"
  have "pred_at sl key as (Suc i) \<in> set ?L"
    using pred_at_in [of sl key as "Suc i"] at_level_mono [of i "Suc i"] by auto
  then obtain P S where split: "?L = P @ pred_at sl key as (Suc i) # S" by (meson split_list)
  have tail: "\<forall>y \<in> set ?R. \<not> key_less (node_key ?h y) key"
    using above_not_less [OF sl_okD(5) [OF ok]] by (auto simp: at_level_def)
  have "set S \<subseteq> set (at_level ?h i (below ?h key as))"
    using split by (cases P) auto
  then have S: "\<forall>y \<in> set S. key_less (node_key ?h y) key" by (auto simp: at_level_def dest: below_less)
  have "linked ?h i (?L @ ?R)"
    using sl_okD(6) [OF ok i] below_above [of ?h key as] by (metis at_level_append append_Cons)
  then have "linked ?h i (pred_at sl key as (Suc i) # (S @ ?R))"
    unfolding split using linked_suffix [of ?h i P] by simp
  from advance_linked [OF this, of key]
  have "advance ?h key i (pred_at sl key as (Suc i)) = Some (last (pred_at sl key as (Suc i) # S))"
    using takeWhile_append_all [OF S tail] by simp
  also have "last (pred_at sl key as (Suc i) # S) = last ?L" unfolding split by simp
  finally show ?thesis by (simp add: pred_at_def)
qed

lemma search_step:
  assumes ok: "sl_ok sl as"
  shows "n \<le> MAX_LEVEL \<Longrightarrow> length update = MAX_LEVEL \<Longrightarrow>
    \<exists>u. search (sl_heap sl) key n (pred_at sl key as n) update = Some (pred_at sl key as 0, u) \<and>
      length u = MAX_LEVEL \<and> (\<forall>i < n. u ! i = pred_at sl key as i) \<and> (\<forall>i. n \<le> i \<longrightarrow> u ! i = update ! i)"
proof (induction n arbitrary: update)
  case (Suc n)
  let ?u = "update[n := pred_at sl key as n]"
  obtain u where u: "search (sl_heap sl) key n (pred_at sl key as n) ?u = Some (pred_at sl key as 0, u)"
    "length u = MAX_LEVEL" "\<forall>i < n. u ! i = pred_at sl key as i" "\<forall>i. n \<le> i \<longrightarrow> u ! i = ?u ! i"
    using Suc.IH [of ?u] Suc.prems by auto
  have "advance (sl_heap sl) key n (pred_at sl key as (Suc n)) = Some (pred_at sl key as n)"
    using advance_step [OF ok] Suc.prems by simp
  then show ?case using u Suc.prems by (auto simp: less_Suc_eq nth_list_update)
qed auto

lemma pred_at_top:
  assumes "sl_ok sl as"
  shows "pred_at sl key as MAX_LEVEL = sl_head sl"
proof -
  have "at_level (sl_heap sl) MAX_LEVEL (below (sl_heap sl) key as) = []"
    using sl_ok_levels [OF assms] by (auto simp: at_level_def below_def filter_empty_conv dest!: set_takeWhileD)
  then show ?thesis by (simp add: pred_at_def)
qed

lemma search_ok:
  assumes "sl_ok sl as"
  obtains u where "search (sl_heap sl) key MAX_LEVEL (sl_head sl) (replicate MAX_LEVEL (sl_head sl)) =
      Some (pred_at sl key as 0, u)" "length u = MAX_LEVEL" "\<And>i. i < MAX_LEVEL \<Longrightarrow> u ! i = pred_at sl key as i"
  using search_step [OF assms order_refl, of "replicate MAX_LEVEL (sl_head sl)" key] pred_at_top [OF assms]
  by auto

lemma at_level_0:
  assumes "sl_ok sl as" "set xs \<subseteq> set as"
  shows "at_level (sl_heap sl) 0 xs = xs"
  using sl_ok_levels [OF assms(1)] assms(2) by (auto simp: at_level_def filter_id_conv)

lemma MAX_LEVEL_pos [simp]: "0 < MAX_LEVEL"
  by (simp add: MAX_LEVEL_def)

text \<open>What follows the searched position on each level.\<close>

lemma next_pred_at:
  assumes ok: "sl_ok sl as" and i: "i < MAX_LEVEL"
  shows "next_at (sl_heap sl) (pred_at sl key as i) i =
    (case at_level (sl_heap sl) i (above (sl_heap sl) key as) of [] \<Rightarrow> None | b # _ \<Rightarrow> Some b)"
proof -
  let ?h = "sl_heap sl"
  have "linked ?h i ((sl_head sl # at_level ?h i (below ?h key as)) @ at_level ?h i (above ?h key as))"
    using sl_okD(6) [OF ok i] below_above [of ?h key as] by (metis at_level_append append_Cons)
  then show ?thesis by (subst (asm) linked_append) (simp_all add: pred_at_def)
qed

lemma found_at_ok:
  assumes ok: "sl_ok sl as"
  shows "found_at (sl_heap sl) (pred_at sl key as 0) key =
    (case above (sl_heap sl) key as of [] \<Rightarrow> None | b # _ \<Rightarrow> if node_key (sl_heap sl) b = key then Some b else None)"
proof -
  have "set (above (sl_heap sl) key as) \<subseteq> set as" by (auto simp: above_def dest: set_dropWhileD)
  then show ?thesis
    by (auto simp: found_at_def next_pred_at [OF ok] at_level_0 [OF ok] split: list.split)
qed

section \<open>Writing pointers\<close>

lemma next_at_set_next:
  "next_at (set_next a i p h) b j = (if b = a \<and> j = i \<and> i < level h a then p else next_at h b j)"
  by (auto simp: next_at_def set_next_def level_def node_nexts_def nth_list_update split: option.splits)

lemma set_next_fields [simp]:
  "level (set_next a i p h) b = level h b" "node_key (set_next a i p h) b = node_key h b"
  "map_option n_value (set_next a i p h b) = map_option n_value (h b)" "(set_next a i p h b = None) = (h b = None)"
  by (auto simp: set_next_def level_def node_nexts_def node_key_def split: option.splits)

definition same_nodes :: "'v sl_heap \<Rightarrow> 'v sl_heap \<Rightarrow> bool" where
  "same_nodes h h' \<longleftrightarrow> (\<forall>a. level h' a = level h a \<and> node_key h' a = node_key h a \<and>
     map_option n_value (h' a) = map_option n_value (h a) \<and> (h' a = None) = (h a = None))"

lemma same_nodes_refl [simp]: "same_nodes h h"
  by (simp add: same_nodes_def)

lemma same_nodesD:
  "same_nodes h h' \<Longrightarrow> level h' a = level h a"
  "same_nodes h h' \<Longrightarrow> node_key h' a = node_key h a"
  "same_nodes h h' \<Longrightarrow> map_option n_value (h' a) = map_option n_value (h a)"
  "same_nodes h h' \<Longrightarrow> (h' a = None) = (h a = None)"
  by (simp_all add: same_nodes_def)

lemma same_nodes_set_next [simp]: "same_nodes h (set_next a i p h)"
  by (simp add: same_nodes_def)

lemma same_nodes_trans: "same_nodes h h1 \<Longrightarrow> same_nodes h1 h2 \<Longrightarrow> same_nodes h h2"
  by (simp add: same_nodes_def)

lemma link_levels:
  assumes "\<And>i. i < n \<Longrightarrow> update ! i \<noteq> x \<and> i < level h (update ! i)" "n \<le> level h x"
  shows "same_nodes h (fold (link_node update x) [0..<n] h) \<and>
    (\<forall>j. next_at (fold (link_node update x) [0..<n] h) x j = (if j < n then next_at h (update ! j) j else next_at h x j)) \<and>
    (\<forall>a j. a \<noteq> x \<longrightarrow> next_at (fold (link_node update x) [0..<n] h) a j =
      (if j < n \<and> update ! j = a then Some x else next_at h a j))"
  using assms
proof (induction n)
  case (Suc n)
  let ?h = "fold (link_node update x) [0..<n] h"
  have IH: "same_nodes h ?h"
    "\<And>j. next_at ?h x j = (if j < n then next_at h (update ! j) j else next_at h x j)"
    "\<And>a j. a \<noteq> x \<Longrightarrow> next_at ?h a j = (if j < n \<and> update ! j = a then Some x else next_at h a j)"
    using Suc.IH Suc.prems by simp_all
  have u: "update ! n \<noteq> x" "n < level ?h (update ! n)" "n < level ?h x"
    using Suc.prems same_nodesD(1) [OF IH(1)] by auto
  have f: "fold (link_node update x) [0..<Suc n] h = link_node update x n ?h" by simp
  have "same_nodes ?h (link_node update x n ?h)"
    unfolding link_node_def by (rule same_nodes_trans [OF same_nodes_set_next same_nodes_set_next])
  then have "same_nodes h (link_node update x n ?h)" by (rule same_nodes_trans [OF IH(1)])
  moreover have "next_at (link_node update x n ?h) x j =
      (if j < Suc n then next_at h (update ! j) j else next_at h x j)" for j
    using u IH by (auto simp: link_node_def next_at_set_next less_Suc_eq)
  moreover have "next_at (link_node update x n ?h) a j =
      (if j < Suc n \<and> update ! j = a then Some x else next_at h a j)" if "a \<noteq> x" for a j
    using u IH that by (auto simp: link_node_def next_at_set_next less_Suc_eq)
  ultimately show ?case unfolding f by blast
qed simp

lemma unlink_levels_ok:
  assumes "k \<le> n" "n \<le> MAX_LEVEL"
    "\<And>i. k \<le> i \<Longrightarrow> i < n \<Longrightarrow> next_at h (update ! i) i = Some c \<and> update ! i \<noteq> c \<and> i < level h (update ! i)"
    "\<And>i. n \<le> i \<Longrightarrow> i < MAX_LEVEL \<Longrightarrow> next_at h (update ! i) i \<noteq> Some c"
  shows "same_nodes h (unlink_levels update c [k..<MAX_LEVEL] h) \<and>
    (\<forall>a j. next_at (unlink_levels update c [k..<MAX_LEVEL] h) a j =
      (if k \<le> j \<and> j < n \<and> update ! j = a then next_at h c j else next_at h a j))"
  using assms
proof (induction "n - k" arbitrary: k h)
  case 0
  then have k: "k = n" by simp
  show ?case
  proof (cases "n < MAX_LEVEL")
    case True
    then show ?thesis using 0(5) [of n] k by (auto simp add: upt_conv_Cons)
  qed (use k in auto)
next
  case (Suc m)
  then have k: "k < n" by simp
  have kM: "k < MAX_LEVEL" using k Suc.prems(2) by simp
  let ?h = "set_next (update ! k) k (next_at h c k) h"
  have cur: "next_at h (update ! k) k = Some c" "update ! k \<noteq> c" "k < level h (update ! k)"
    using Suc.prems(3) [of k] k by simp_all
  have "same_nodes ?h (unlink_levels update c [Suc k..<MAX_LEVEL] ?h) \<and>
    (\<forall>a j. next_at (unlink_levels update c [Suc k..<MAX_LEVEL] ?h) a j =
      (if Suc k \<le> j \<and> j < n \<and> update ! j = a then next_at ?h c j else next_at ?h a j))"
  proof (rule Suc.hyps(1))
    show "next_at ?h (update ! i) i = Some c \<and> update ! i \<noteq> c \<and> i < level ?h (update ! i)" if "Suc k \<le> i" "i < n" for i
      using Suc.prems(3) [of i] that by (simp add: next_at_set_next)
    show "next_at ?h (update ! i) i \<noteq> Some c" if "n \<le> i" "i < MAX_LEVEL" for i
      using Suc.prems(4) [OF that] that k by (simp add: next_at_set_next)
  qed (use Suc.hyps(2) k Suc.prems(2) in auto)
  moreover have "unlink_levels update c [k..<MAX_LEVEL] h = unlink_levels update c [Suc k..<MAX_LEVEL] ?h"
    using cur kM by (simp add: upt_conv_Cons)
  moreover have "next_at ?h c j = next_at h c j" for j using cur by (simp add: next_at_set_next)
  ultimately show ?case
    using cur k same_nodes_trans [OF same_nodes_set_next]
    by (auto simp: next_at_set_next le_less Suc_le_eq)
qed

section \<open>Insertion\<close>

lemma random_level_loop_bounds:
  "1 \<le> lv \<Longrightarrow> lv \<le> MAX_LEVEL \<Longrightarrow>
   1 \<le> fst (random_level_loop rand pos lv) \<and> fst (random_level_loop rand pos lv) \<le> MAX_LEVEL"
proof (induction rand pos lv rule: random_level_loop.induct)
  case (1 rand pos lv)
  then show ?case by (subst (1 2) random_level_loop.simps) simp
qed

lemma random_level_bounds: "1 \<le> fst (random_level rand pos)" "fst (random_level rand pos) \<le> MAX_LEVEL"
  using random_level_loop_bounds [of 1 rand pos] by (simp_all add: random_level_def MAX_LEVEL_def)

lemma pred_at_props:
  assumes ok: "sl_ok sl as" and i: "i < MAX_LEVEL"
  shows "pred_at sl key as i \<in> set (sl_head sl # as)" "i < level (sl_heap sl) (pred_at sl key as i)"
    "pred_at sl key as i < sl_next_addr sl"
proof -
  have sub: "set (below (sl_heap sl) key as) \<subseteq> set as" by (auto simp: below_def dest: set_takeWhileD)
  show 1: "pred_at sl key as i \<in> set (sl_head sl # as)"
    using pred_at_in [of sl key as i] sub by (auto simp: at_level_def)
  show "i < level (sl_heap sl) (pred_at sl key as i)"
    using pred_at_in [of sl key as i] sl_okD(3) [OF ok] i by (auto simp: at_level_def)
  show "pred_at sl key as i < sl_next_addr sl" using sl_okD(2) [OF ok 1] by simp
qed

lemma linked_insert:
  assumes old: "linked h i (xs @ ys)" and ne: "xs \<noteq> []" and d: "distinct xs" "x \<notin> set xs" "x \<notin> set ys"
      "last xs \<notin> set ys"
    and last: "next_at h' (last xs) i = Some x"
    and new: "next_at h' x i = next_at h (last xs) i"
    and others: "\<And>a. a \<noteq> x \<Longrightarrow> a \<noteq> last xs \<Longrightarrow> next_at h' a i = next_at h a i"
  shows "linked h' i (xs @ x # ys)"
proof -
  have o: "\<forall>n. Suc n < length xs \<longrightarrow> next_at h (xs ! n) i = Some (xs ! Suc n)"
    "next_at h (last xs) i = (case ys of [] \<Rightarrow> None | b # _ \<Rightarrow> Some b)" "linked h i ys"
    using old linked_append [OF ne, of h i ys] by simp_all
  have "next_at h' (xs ! n) i = Some (xs ! Suc n)" if "Suc n < length xs" for n
  proof -
    have "xs ! n \<noteq> last xs"
      using d(1) that ne by (auto simp: last_conv_nth nth_eq_iff_index_eq)
    moreover have "xs ! n \<noteq> x" using d(2) that by (metis Suc_lessD nth_mem)
    ultimately show ?thesis using others o(1) that by simp
  qed
  moreover have "linked h' i ys"
    using o(3) linked_cong [of ys h' i h] others d(3,4) by metis
  moreover have "linked h' i (x # ys)"
    using o(2) new calculation(2) by (cases ys) simp_all
  ultimately show ?thesis using linked_append [OF ne, of h' i "x # ys"] last by simp
qed

lemma sorted_wrt_insert:
  assumes "sorted_wrt (node_less h) as" "\<forall>a \<in> set as. node_key h a \<noteq> key"
    and same: "\<forall>a \<in> set as. node_key h' a = node_key h a" and x: "node_key h' x = key"
  shows "sorted_wrt (node_less h') (below h key as @ x # above h key as)"
proof -
  have sub: "set (below h key as) \<subseteq> set as" "set (above h key as) \<subseteq> set as"
    by (auto simp: below_def above_def dest: set_takeWhileD set_dropWhileD)
  have "sorted_wrt (node_less h') as"
    using assms(1) by (rule sorted_wrt_mono_rel [rotated]) (use same in \<open>simp add: node_less_def\<close>)
  then have s: "sorted_wrt (node_less h') (below h key as @ above h key as)" by (simp add: below_above)
  have "node_less h' a x" if "a \<in> set (below h key as)" for a
    using below_less [OF that] same sub that x by (auto simp: node_less_def)
  moreover have "node_less h' x b" if b: "b \<in> set (above h key as)" for b
  proof -
    have "\<not> key_less (node_key h b) key" "node_key h b \<noteq> key"
      using above_not_less [OF assms(1) b] assms(2) sub b by auto
    then show ?thesis using key_less_total same sub b x by (auto simp: node_less_def)
  qed
  ultimately show ?thesis using s by (auto simp: sorted_wrt_append)
qed

definition sl_kv :: "'v sl_heap \<Rightarrow> nat list \<Rightarrow> (time_point \<times> 'v) list" where
  "sl_kv h as = map (\<lambda>a. (node_key h a, the (map_option n_value (h a)))) as"

lemma found_at_None:
  assumes ok: "sl_ok sl as" and none: "found_at (sl_heap sl) (pred_at sl key as 0) key = None"
  shows "\<forall>a \<in> set as. node_key (sl_heap sl) a \<noteq> key"
proof
  fix a assume a: "a \<in> set as"
  show "node_key (sl_heap sl) a \<noteq> key"
  proof
    assume k: "node_key (sl_heap sl) a = key"
    have "a \<in> set (below (sl_heap sl) key as) \<or> a \<in> set (above (sl_heap sl) key as)"
      using a below_above [of "sl_heap sl" key as] by (metis UnE set_append)
    then have ab: "a \<in> set (above (sl_heap sl) key as)" using below_less k by fastforce
    then obtain b R where R: "above (sl_heap sl) key as = b # R" by (cases "above (sl_heap sl) key as") auto
    have "b \<in> set (above (sl_heap sl) key as)" using R by simp
    then have nb: "\<not> key_less (node_key (sl_heap sl) b) key" by (rule above_not_less [OF sl_okD(5) [OF ok]])
    have "node_key (sl_heap sl) b \<noteq> key" using none found_at_ok [OF ok, of key] R by (auto split: if_splits)
    then have "a \<noteq> b" "key_less key (node_key (sl_heap sl) b)" using k key_less_total [OF nb] by auto
    moreover have "sorted_wrt (node_less (sl_heap sl)) (b # R)"
      using sl_okD(5) [OF ok] below_above [of "sl_heap sl" key as] R by (metis sorted_wrt_append)
    ultimately have "key_less (node_key (sl_heap sl) b) key" using ab R k by (auto simp: node_less_def)
    with nb show False by simp
  qed
qed

text \<open>The lists that the code inserts into and the list it leaves.\<close>

lemma sl_put_new:
  assumes ok: "sl_ok sl as" and none: "\<forall>a \<in> set as. node_key (sl_heap sl) a \<noteq> key"
  obtains sl' where "sl_put rand key v sl = Some (v, sl')" "sl_head sl' = sl_head sl"
    "sl_ok sl' (below (sl_heap sl) key as @ sl_next_addr sl # above (sl_heap sl) key as)"
    "sl_kv (sl_heap sl') (below (sl_heap sl) key as @ sl_next_addr sl # above (sl_heap sl) key as) =
      sl_kv (sl_heap sl) (below (sl_heap sl) key as) @ (key, v) # sl_kv (sl_heap sl) (above (sl_heap sl) key as)"
proof -
  define h where "h = sl_heap sl"
  define x where "x = sl_next_addr sl"
  define L where "L = below h key as"
  define R where "R = above h key as"
  have as: "as = L @ R" by (simp add: L_def R_def below_above)
  obtain u where u: "search h key MAX_LEVEL (sl_head sl) (replicate MAX_LEVEL (sl_head sl)) =
      Some (pred_at sl key as 0, u)" "length u = MAX_LEVEL" "\<And>i. i < MAX_LEVEL \<Longrightarrow> u ! i = pred_at sl key as i"
    using search_ok [OF ok] unfolding h_def by metis
  define lv where "lv = fst (random_level rand (sl_rand_pos sl))"
  have lv: "1 \<le> lv" "lv \<le> MAX_LEVEL" using random_level_bounds by (simp_all add: lv_def)
  define h1 where "h1 = h(x \<mapsto> \<lparr>n_key = key, n_value = v, n_nexts = replicate lv None\<rparr>)"
  define h2 where "h2 = fold (link_node u x) [0..<lv] h1"
  define sl' where "sl' = sl\<lparr>sl_heap := h2, sl_next_addr := x + 1,
    sl_rand_pos := snd (random_level rand (sl_rand_pos sl)), sl_count := sl_count sl + 1\<rparr>"
  have fresh: "a \<noteq> x" if "a \<in> set (sl_head sl # as)" for a
    using sl_okD(2) [OF ok that] by (auto simp: x_def)
  have above_None: "found_at h (pred_at sl key as 0) key = None"
  proof -
    have "set R \<subseteq> set as" using as by auto
    then show ?thesis using found_at_ok [OF ok, of key] none
      by (auto simp: h_def R_def split: list.splits)
  qed
  have put: "sl_put rand key v sl = Some (v, sl')"
    using u(1) above_None lv
    by (simp add: sl_put_def Let_def split_beta sl'_def h2_def h1_def x_def min_def lv_def flip: h_def)
  have h1: "level h1 x = lv" "node_key h1 x = key" "h1 x \<noteq> None" "map_option n_value (h1 x) = Some v"
    "\<And>j. next_at h1 x j = None"
    by (simp_all add: h1_def level_def node_nexts_def node_key_def next_at_def)
  have h1': "level h1 a = level h a" "node_key h1 a = node_key h a" "h1 a = h a"
    "next_at h1 a j = next_at h a j" if "a \<noteq> x" for a j
    using that by (simp_all add: h1_def level_def node_nexts_def node_key_def next_at_def)
  have ui: "u ! i \<noteq> x" "i < level h1 (u ! i)" if "i < lv" for i
  proof -
    have i: "i < MAX_LEVEL" using that lv by simp
    note p = pred_at_props [OF ok i, of key]
    show "u ! i \<noteq> x" using u(3) [OF i] fresh [OF p(1)] by simp
    then show "i < level h1 (u ! i)" using u(3) [OF i] p(2) h1' by (simp add: h_def)
  qed
  have links: "same_nodes h1 h2"
    "\<And>j. next_at h2 x j = (if j < lv then next_at h1 (u ! j) j else next_at h1 x j)"
    "\<And>a j. a \<noteq> x \<Longrightarrow> next_at h2 a j = (if j < lv \<and> u ! j = a then Some x else next_at h1 a j)"
    using link_levels [of lv u x h1] ui h1(1) by (simp_all add: h2_def)
  note same = same_nodesD [OF links(1)]
  have lvl: "at_level h2 i xs = at_level h i xs" if "x \<notin> set xs" for i xs
  proof -
    have "level h2 a = level h a" if "a \<in> set xs" for a
      using same(1) h1'(1) that \<open>x \<notin> set xs\<close> by metis
    then show ?thesis by (simp add: at_level_def cong: filter_cong)
  qed
  have dist: "distinct (sl_head sl # as)" by (rule sl_okD(1) [OF ok])
  have xs: "x \<notin> set (sl_head sl # as)" using fresh by blast
  have linked: "linked h2 i (sl_head sl # at_level h2 i (L @ x # R))" if i: "i < MAX_LEVEL" for i
  proof -
    let ?L = "sl_head sl # at_level h i L" and ?R = "at_level h i R"
    have old: "linked h i (?L @ ?R)" using sl_okD(6) [OF ok i] as by (simp add: h_def)
    have ln: "last ?L = pred_at sl key as i" by (simp add: pred_at_def L_def h_def)
    have dl: "distinct ?L" "x \<notin> set ?L" "x \<notin> set ?R" "last ?L \<notin> set ?R"
    proof -
      have dd: "distinct (?L @ ?R)" using dist as by (auto simp: at_level_def)
      have ll: "last ?L \<in> set ?L" by (rule last_in_set) simp
      show "distinct ?L" "last ?L \<notin> set ?R" using dd ll unfolding distinct_append by blast+
      show "x \<notin> set ?L" "x \<notin> set ?R" using xs as by (auto simp: at_level_def)
    qed
    have pf: "pred_at sl key as i \<noteq> x" using fresh [OF pred_at_props(1) [OF ok i]] .
    show ?thesis
    proof (cases "i < lv")
      case True
      have "linked h2 i (?L @ x # ?R)"
      proof (rule linked_insert [OF old _ dl])
        show "next_at h2 (last ?L) i = Some x" unfolding ln using links(3) [OF pf] True u(3) [OF i] by simp
        show "next_at h2 x i = next_at h (last ?L) i"
          unfolding ln using links(2) [of i] True u(3) [OF i] h1'(4) [OF pf] by simp
        show "next_at h2 a i = next_at h a i" if "a \<noteq> x" "a \<noteq> last ?L" for a
          using links(3) [OF that(1)] h1'(4) [OF that(1)] that(2) True u(3) [OF i] unfolding ln by simp
      qed simp
      moreover have "at_level h2 i (L @ x # R) = at_level h i L @ x # at_level h i R"
        using lvl xs as True same(1) h1(1) by (simp add: at_level_Cons)
      ultimately show ?thesis by simp
    next
      case False
      have "at_level h2 i (L @ x # R) = at_level h i L @ at_level h i R"
        using lvl xs as False same(1) h1(1) by (simp add: at_level_Cons)
      moreover have "linked h2 i (?L @ ?R)"
      proof (subst linked_cong [of _ h2 i h])
        fix a assume "a \<in> set (?L @ ?R)"
        then have "a \<noteq> x" using dl(2,3) by auto
        then show "next_at h2 a i = next_at h a i" using links(3) h1'(4) False by simp
      qed (rule old)
      ultimately show ?thesis by simp
    qed
  qed
  have "sl_ok sl' (L @ x # R)"
    unfolding sl_ok_def
  proof (intro conjI)
    show "distinct (sl_head sl' # L @ x # R)" using dist xs as by (auto simp: sl'_def)
    show "\<forall>a \<in> set (sl_head sl' # L @ x # R). a < sl_next_addr sl' \<and> sl_heap sl' a \<noteq> None"
      using sl_okD(2) [OF ok] as same(4) h1(3) h1'(3) fresh
      by (auto simp: sl'_def h_def x_def less_SucI)
    show "level (sl_heap sl') (sl_head sl') = MAX_LEVEL"
      using sl_okD(3) [OF ok] same(1) h1'(1) fresh by (simp add: sl'_def h_def)
    show "\<forall>a \<in> set (L @ x # R). 1 \<le> level (sl_heap sl') a \<and> level (sl_heap sl') a \<le> MAX_LEVEL"
      using sl_okD(4) [OF ok] as same(1) h1(1) h1'(1) fresh lv by (auto simp: sl'_def h_def)
    show "sorted_wrt (node_less (sl_heap sl')) (L @ x # R)"
      unfolding L_def R_def
      by (rule sorted_wrt_insert) (use sl_okD(5) [OF ok] none same(2) h1(2) h1'(2) fresh in \<open>auto simp: sl'_def h_def\<close>)
    show "\<forall>i < MAX_LEVEL. linked (sl_heap sl') i (sl_head sl' # at_level (sl_heap sl') i (L @ x # R))"
      using linked by (simp add: sl'_def)
    show "sl_count sl' = length (L @ x # R)" using sl_okD(7) [OF ok] as by (simp add: sl'_def)
  qed
  moreover have "sl_kv (sl_heap sl') (L @ x # R) = sl_kv h L @ (key, v) # sl_kv h R"
    using same(2,3) h1(2,4) h1'(2,3) fresh as by (auto simp: sl_kv_def sl'_def)
  ultimately show thesis using that [OF put] by (simp add: sl'_def L_def R_def x_def h_def)
qed

section \<open>Look-up and deletion\<close>

lemma found_at_Some:
  assumes ok: "sl_ok sl as" and found: "found_at (sl_heap sl) (pred_at sl key as 0) key = Some b"
  obtains R where "above (sl_heap sl) key as = b # R" "node_key (sl_heap sl) b = key"
    "as = below (sl_heap sl) key as @ b # R" "b \<in> set as"
proof -
  obtain R where R: "above (sl_heap sl) key as = b # R" "node_key (sl_heap sl) b = key"
    using found found_at_ok [OF ok, of key] by (auto split: list.splits if_splits)
  then have "as = below (sl_heap sl) key as @ b # R" using below_above [of "sl_heap sl" key as] by metis
  moreover from this have "b \<in> set as" by (metis in_set_conv_decomp)
  ultimately show thesis using that R by blast
qed

lemma distinct_keys:
  assumes ok: "sl_ok sl as" and "a \<in> set as" "b \<in> set as" "node_key (sl_heap sl) a = node_key (sl_heap sl) b"
  shows "a = b"
proof -
  obtain i j where ij: "i < length as" "j < length as" "as ! i = a" "as ! j = b"
    using assms(2,3) by (meson in_set_conv_nth)
  have "\<not> i < j" "\<not> j < i"
    using sorted_wrt_nth_less [OF sl_okD(5) [OF ok], of i j] sorted_wrt_nth_less [OF sl_okD(5) [OF ok], of j i]
      ij assms(4) by (auto simp: node_less_def)
  then show ?thesis using ij by simp
qed

lemma map_of_sl_kv:
  assumes ok: "sl_ok sl as" and a: "a \<in> set as"
  shows "map_of (sl_kv (sl_heap sl) as) (node_key (sl_heap sl) a) = map_option n_value (sl_heap sl a)"
proof -
  have "distinct (map fst (sl_kv (sl_heap sl) as))"
    using sl_okD(1) [OF ok] distinct_keys [OF ok]
    by (auto simp: sl_kv_def distinct_map comp_def inj_on_def)
  moreover have "(node_key (sl_heap sl) a, the (map_option n_value (sl_heap sl a))) \<in> set (sl_kv (sl_heap sl) as)"
    using a by (auto simp: sl_kv_def)
  moreover have "sl_heap sl a \<noteq> None" using sl_okD(2) [OF ok] a by auto
  ultimately show ?thesis by (auto simp: map_of_eq_Some_iff)
qed

lemma map_of_sl_kv_None:
  "\<forall>a \<in> set as. node_key h a \<noteq> key \<Longrightarrow> map_of (sl_kv h as) key = None"
  by (auto simp: sl_kv_def map_of_eq_None_iff)

lemma found_at_map_of:
  assumes ok: "sl_ok sl as"
  shows "(case found_at (sl_heap sl) (pred_at sl key as 0) key of Some b \<Rightarrow> map_option n_value (sl_heap sl b) | None \<Rightarrow> None)
    = map_of (sl_kv (sl_heap sl) as) key"
proof (cases "found_at (sl_heap sl) (pred_at sl key as 0) key")
  case None
  then show ?thesis using map_of_sl_kv_None [OF found_at_None [OF ok None]] by simp
next
  case (Some b)
  then obtain R where "node_key (sl_heap sl) b = key" "b \<in> set as" by (rule found_at_Some [OF ok])
  then show ?thesis using Some map_of_sl_kv [OF ok, of b] by simp
qed

lemma sl_get_ok: "sl_ok sl as \<Longrightarrow> sl_get key sl = Some (map_of (sl_kv (sl_heap sl) as) key)"
proof -
  assume ok: "sl_ok sl as"
  obtain u where u: "search (sl_heap sl) key MAX_LEVEL (sl_head sl) (replicate MAX_LEVEL (sl_head sl)) =
      Some (pred_at sl key as 0, u)" using search_ok [OF ok] by metis
  show ?thesis unfolding sl_get_def Let_def u option.case prod.case found_at_map_of [OF ok] ..
qed

lemma sl_put_old:
  assumes ok: "sl_ok sl as" and old: "map_of (sl_kv (sl_heap sl) as) key = Some w"
  shows "sl_put rand key v sl = Some (w, sl)"
proof -
  obtain u where u: "search (sl_heap sl) key MAX_LEVEL (sl_head sl) (replicate MAX_LEVEL (sl_head sl)) =
      Some (pred_at sl key as 0, u)" using search_ok [OF ok] by metis
  obtain b n where "found_at (sl_heap sl) (pred_at sl key as 0) key = Some b" "sl_heap sl b = Some n" "n_value n = w"
    using found_at_map_of [OF ok, of key] old by (auto split: option.splits)
  then show ?thesis using u by (simp add: sl_put_def Let_def)
qed

lemma split_unique:
  "xs @ c # ys = xs' @ c # ys' \<Longrightarrow> c \<notin> set xs \<Longrightarrow> c \<notin> set xs' \<Longrightarrow> xs = xs' \<and> ys = ys'"
proof (induction xs arbitrary: xs')
  case Nil
  then show ?case by (cases xs') auto
next
  case (Cons x xs)
  then show ?case by (cases xs') auto
qed

lemma linked_delete:
  assumes old: "linked h i (xs @ c # ys)" and ne: "xs \<noteq> []" and d: "distinct xs" "last xs \<notin> set ys"
    and last: "next_at h' (last xs) i = next_at h c i"
    and others: "\<And>a. a \<noteq> last xs \<Longrightarrow> a \<in> set (xs @ ys) \<Longrightarrow> next_at h' a i = next_at h a i"
  shows "linked h' i (xs @ ys)"
proof -
  have o: "\<forall>n. Suc n < length xs \<longrightarrow> next_at h (xs ! n) i = Some (xs ! Suc n)" "linked h i (c # ys)"
    using old linked_append [OF ne, of h i "c # ys"] by simp_all
  have "next_at h' (xs ! n) i = Some (xs ! Suc n)" if "Suc n < length xs" for n
  proof -
    have "xs ! n \<noteq> last xs" using d(1) that ne by (auto simp: last_conv_nth nth_eq_iff_index_eq)
    then show ?thesis using others [of "xs ! n"] o(1) that by simp
  qed
  moreover have "linked h' i ys"
    using linked_tl [OF o(2)] linked_cong [of ys h' i h] others d(2) by (metis UnCI set_append)
  ultimately show ?thesis
    using linked_append [OF ne, of h' i ys] last linked_next [OF o(2)] by simp
qed

lemma sl_del_found:
  assumes ok: "sl_ok sl as" and split: "as = L @ c # R" and key: "node_key (sl_heap sl) c = key"
  obtains sl' where "sl_del key sl = Some sl'" "sl_head sl' = sl_head sl" "sl_ok sl' (L @ R)"
    "sl_kv (sl_heap sl') (L @ R) = sl_kv (sl_heap sl) (L @ R)"
proof -
  define h where "h = sl_heap sl"
  have dist: "distinct (sl_head sl # L @ c # R)" using sl_okD(1) [OF ok] split by simp
  have "found_at h (pred_at sl key as 0) key \<noteq> None"
    using found_at_None [OF ok, of key] split key by (auto simp: h_def)
  then obtain b where fb: "found_at h (pred_at sl key as 0) key = Some b" by auto
  obtain R' where R': "above h key as = b # R'" "node_key h b = key" "as = below h key as @ b # R'" "b \<in> set as"
    using found_at_Some [OF ok fb [unfolded h_def]] unfolding h_def by metis
  have bc: "b = c" using distinct_keys [OF ok R'(4), of c] key R'(2) split by (simp add: h_def)
  have LR: "below h key as = L" "R' = R"
  proof -
    have "below h key as @ c # R' = L @ c # R" using R'(3) split bc by simp
    moreover have "c \<notin> set (below h key as)"
      using below_less [of c h key as] key by (auto simp: h_def)
    moreover have "c \<notin> set L" using dist by simp
    ultimately show "below h key as = L" "R' = R" using split_unique by metis+
  qed
  obtain u where u: "search h key MAX_LEVEL (sl_head sl) (replicate MAX_LEVEL (sl_head sl)) =
      Some (pred_at sl key as 0, u)" "length u = MAX_LEVEL" "\<And>i. i < MAX_LEVEL \<Longrightarrow> u ! i = pred_at sl key as i"
    using search_ok [OF ok] unfolding h_def by metis
  define h1 where "h1 = unlink_levels u c [0..<MAX_LEVEL] h"
  define sl' where "sl' = sl\<lparr>sl_heap := h1(c := None), sl_count := sl_count sl - 1\<rparr>"
  have del: "sl_del key sl = Some sl'"
    using u(1) fb bc by (simp add: sl_del_def Let_def sl'_def h1_def flip: h_def)
  have lc: "level h c \<le> MAX_LEVEL" using sl_okD(4) [OF ok] split by (simp add: h_def)
  have pc: "pred_at sl key as i \<in> set (sl_head sl # L)" if "i < MAX_LEVEL" for i
    using pred_at_in [of sl key as i] LR(1) by (auto simp: at_level_def h_def)
  have pcn: "pred_at sl key as i \<noteq> c" if "i < MAX_LEVEL" for i using pc [OF that] dist by auto
  have nxt: "next_at h (pred_at sl key as i) i =
      (case at_level h i (c # R) of [] \<Rightarrow> None | b # _ \<Rightarrow> Some b)" if "i < MAX_LEVEL" for i
    using next_pred_at [OF ok that, of key] R'(1) bc LR(2) by (simp add: h_def)
  have links: "same_nodes h h1"
    "\<And>a j. next_at h1 a j = (if j < level h c \<and> u ! j = a then next_at h c j else next_at h a j)"
  proof -
    have "same_nodes h (unlink_levels u c [0..<MAX_LEVEL] h) \<and>
      (\<forall>a j. next_at (unlink_levels u c [0..<MAX_LEVEL] h) a j =
        (if 0 \<le> j \<and> j < level h c \<and> u ! j = a then next_at h c j else next_at h a j))"
    proof (rule unlink_levels_ok [OF _ lc])
      show "next_at h (u ! i) i = Some c \<and> u ! i \<noteq> c \<and> i < level h (u ! i)" if "i < level h c" for i
        using nxt [of i] that lc u(3) [of i] pcn [of i] pred_at_props(2) [OF ok, of i key]
        by (simp add: at_level_Cons h_def)
      show "next_at h (u ! i) i \<noteq> Some c" if "level h c \<le> i" "i < MAX_LEVEL" for i
      proof -
        have "c \<notin> set (at_level h i R)" using dist by (auto simp: at_level_def)
        then show ?thesis using nxt [OF that(2)] that u(3) [OF that(2)]
          by (auto simp: at_level_Cons split: list.splits)
      qed
    qed simp
    then show "same_nodes h h1"
      "\<And>a j. next_at h1 a j = (if j < level h c \<and> u ! j = a then next_at h c j else next_at h a j)"
      by (simp_all add: h1_def)
  qed
  note same = same_nodesD [OF links(1)]
  let ?h' = "h1(c := None)"
  have h': "level ?h' a = level h a" "node_key ?h' a = node_key h a"
    "map_option n_value (?h' a) = map_option n_value (h a)" "(?h' a = None) = (h a = None)"
    "next_at ?h' a j = next_at h1 a j" if "a \<noteq> c" for a j
    using that same [of a] by (simp_all add: level_def node_nexts_def node_key_def next_at_def)
  have ca: "a \<noteq> c" if "a \<in> set (sl_head sl # L @ R)" for a using dist that by auto
  have lvl: "at_level ?h' i (L @ R) = at_level h i (L @ R)" for i
    using h'(1) ca unfolding at_level_def by (intro filter_cong) auto
  have linked: "linked ?h' i (sl_head sl # at_level ?h' i (L @ R))" if i: "i < MAX_LEVEL" for i
  proof -
    let ?L = "sl_head sl # at_level h i L" and ?R = "at_level h i R"
    have old: "linked h i (?L @ at_level h i (c # R))" using sl_okD(6) [OF ok i] split by (simp add: h_def)
    have ln: "last ?L = pred_at sl key as i" using LR(1) by (simp add: pred_at_def h_def)
    have dd: "distinct (?L @ ?R)" using dist by (auto simp: at_level_def)
    have ll: "last ?L \<in> set ?L" by (rule last_in_set) simp
    have dl: "distinct ?L" "last ?L \<notin> set ?R" using dd ll unfolding distinct_append by blast+
    have nc: "a \<noteq> c" if "a \<in> set (?L @ ?R)" for a using that ca by (auto simp: at_level_def)
    have "linked ?h' i (?L @ ?R)"
    proof (cases "i < level h c")
      case True
      have old': "linked h i (?L @ c # ?R)" using old True by (simp add: at_level_Cons)
      show ?thesis
      proof (rule linked_delete [OF old' _ dl])
        have "pred_at sl key as i \<noteq> c" by (rule pcn [OF i])
        then show "next_at ?h' (last ?L) i = next_at h c i"
          unfolding ln using h'(5) links(2) True u(3) [OF i] by simp
        show "next_at ?h' a i = next_at h a i" if "a \<noteq> last ?L" "a \<in> set (?L @ ?R)" for a
          using h'(5) [OF nc [OF that(2)]] links(2) [of a i] that(1) u(3) [OF i] ln by simp
      qed simp
    next
      case False
      then have old': "linked h i (?L @ ?R)" using old by (simp add: at_level_Cons)
      show ?thesis
      proof (subst linked_cong [of _ ?h' i h])
        fix a assume "a \<in> set (?L @ ?R)"
        then show "next_at ?h' a i = next_at h a i" using h'(5) [OF nc] links(2) [of a i] False by simp
      qed (rule old')
    qed
    then show ?thesis unfolding lvl by simp
  qed
  have "sl_ok sl' (L @ R)"
    unfolding sl_ok_def
  proof (intro conjI)
    show "distinct (sl_head sl' # L @ R)" using dist by (auto simp: sl'_def)
    show "\<forall>a \<in> set (sl_head sl' # L @ R). a < sl_next_addr sl' \<and> sl_heap sl' a \<noteq> None"
      using sl_okD(2) [OF ok] split h'(4) ca by (auto simp: sl'_def h_def)
    show "level (sl_heap sl') (sl_head sl') = MAX_LEVEL"
      using sl_okD(3) [OF ok] h'(1) ca by (simp add: sl'_def h_def)
    show "\<forall>a \<in> set (L @ R). 1 \<le> level (sl_heap sl') a \<and> level (sl_heap sl') a \<le> MAX_LEVEL"
      using sl_okD(4) [OF ok] split h'(1) ca by (auto simp: sl'_def h_def)
    have "sorted_wrt (node_less h) (L @ R)"
      using sl_okD(5) [OF ok] split by (auto simp: h_def sorted_wrt_append)
    then show "sorted_wrt (node_less (sl_heap sl')) (L @ R)"
      by (rule sorted_wrt_mono_rel [rotated]) (use h'(2) ca in \<open>auto simp: node_less_def sl'_def\<close>)
    show "\<forall>i < MAX_LEVEL. linked (sl_heap sl') i (sl_head sl' # at_level (sl_heap sl') i (L @ R))"
      using linked by (simp add: sl'_def)
    show "sl_count sl' = length (L @ R)" using sl_okD(7) [OF ok] split by (simp add: sl'_def)
  qed
  moreover have "sl_kv (sl_heap sl') (L @ R) = sl_kv (sl_heap sl) (L @ R)"
    using h'(2,3) ca unfolding sl_kv_def by (intro map_cong) (auto simp: sl'_def h_def)
  ultimately show thesis using that [OF del] by (simp add: sl'_def)
qed

lemma sl_del_absent:
  assumes ok: "sl_ok sl as" and none: "\<forall>a \<in> set as. node_key (sl_heap sl) a \<noteq> key"
  shows "sl_del key sl = Some sl"
proof -
  obtain u where u: "search (sl_heap sl) key MAX_LEVEL (sl_head sl) (replicate MAX_LEVEL (sl_head sl)) =
      Some (pred_at sl key as 0, u)" using search_ok [OF ok] by metis
  have "found_at (sl_heap sl) (pred_at sl key as 0) key = None"
  proof (rule ccontr)
    assume "found_at (sl_heap sl) (pred_at sl key as 0) key \<noteq> None"
    then obtain b where "found_at (sl_heap sl) (pred_at sl key as 0) key = Some b" by auto
    then obtain R where "node_key (sl_heap sl) b = key" "b \<in> set as" by (rule found_at_Some [OF ok])
    with none show False by blast
  qed
  then show ?thesis using u by (simp add: sl_del_def Let_def)
qed

section \<open>Clearing\<close>

lemma clear_head:
  "n \<le> level h a \<Longrightarrow> same_nodes h (fold (\<lambda>i h. set_next a i None h) [0..<n] h) \<and>
   (\<forall>b j. next_at (fold (\<lambda>i h. set_next a i None h) [0..<n] h) b j =
     (if b = a \<and> j < n then None else next_at h b j))"
proof (induction n)
  case (Suc n)
  let ?h = "fold (\<lambda>i h. set_next a i None h) [0..<n] h"
  have IH: "same_nodes h ?h" "\<And>b j. next_at ?h b j = (if b = a \<and> j < n then None else next_at h b j)"
    using Suc by simp_all
  have "n < level ?h a" using Suc.prems same_nodesD(1) [OF IH(1)] by simp
  then show ?case
    using IH same_nodes_trans [OF IH(1) same_nodes_set_next]
    by (auto simp: next_at_set_next less_Suc_eq)
qed simp

lemma sl_cle_ok:
  assumes ok: "sl_ok sl as"
  obtains sl' where "sl_cle sl = Some sl'" "sl_head sl' = sl_head sl" "sl_ok sl' []"
    "\<And>a. (sl_heap sl' a = None) = (sl_heap sl a = None)"
proof -
  define h1 where "h1 = fold (\<lambda>i h. set_next (sl_head sl) i None h) [0..<MAX_LEVEL] (sl_heap sl)"
  have c: "same_nodes (sl_heap sl) h1" "\<And>b j. next_at h1 b j =
      (if b = sl_head sl \<and> j < MAX_LEVEL then None else next_at (sl_heap sl) b j)"
    using clear_head [of MAX_LEVEL "sl_heap sl" "sl_head sl"] sl_okD(3) [OF ok] by (simp_all add: h1_def)
  have "delete_nodes h1 (next_at h1 (sl_head sl) 0) = Some h1"
    using c(2) by (subst delete_nodes.simps) simp
  moreover have hd: "sl_heap sl (sl_head sl) \<noteq> None" using sl_okD(2) [OF ok] by simp
  then obtain n where n: "h1 (sl_head sl) = Some n"
    using same_nodesD(4) [OF c(1), of "sl_head sl"] by (metis not_None_eq)
  ultimately have cle: "sl_cle sl = Some (sl\<lparr>sl_heap := h1(sl_head sl \<mapsto> n\<lparr>n_nexts := replicate MAX_LEVEL None\<rparr>), sl_count := 0\<rparr>)"
    by (simp add: sl_cle_def Let_def flip: h1_def)
  show thesis
  proof (rule that [OF cle])
    show "sl_ok (sl\<lparr>sl_heap := h1(sl_head sl \<mapsto> n\<lparr>n_nexts := replicate MAX_LEVEL None\<rparr>), sl_count := 0\<rparr>) []"
      using sl_okD(2) [OF ok] by (simp add: sl_ok_def level_def node_nexts_def at_level_def next_at_def)
    show "(sl_heap (sl\<lparr>sl_heap := h1(sl_head sl \<mapsto> n\<lparr>n_nexts := replicate MAX_LEVEL None\<rparr>), sl_count := 0\<rparr>) a = None) =
        (sl_heap sl a = None)" for a
      using same_nodesD(4) [OF c(1)] n hd by (auto simp: fun_upd_def)
  qed simp
qed

section \<open>Iteration and bounds\<close>

definition sl_list :: "'v skip_list \<Rightarrow> (time_point \<times> 'v) list" where
  "sl_list sl = (case sl_entries sl of Some (Inr kvs) \<Rightarrow> kvs | _ \<Rightarrow> [])"

lemma bottom_linked:
  assumes "sl_ok sl as"
  shows "linked (sl_heap sl) 0 (sl_head sl # as)"
  using sl_okD(6) [OF assms MAX_LEVEL_pos] at_level_0 [OF assms, of as] by simp

lemma iterate_linked:
  assumes "linked (sl_heap sl) 0 as" "\<forall>a \<in> set as. sl_heap sl a \<noteq> None"
  shows "iterate sl (case as of [] \<Rightarrow> None | a # _ \<Rightarrow> Some a) acc = Some (Inr (acc @ sl_kv (sl_heap sl) as))"
  using assms
proof (induction as arbitrary: acc)
  case Nil
  then show ?case by (subst iterate.simps) (simp add: sl_end_def sl_kv_def)
next
  case (Cons a as)
  obtain n where n: "sl_heap sl a = Some n" using Cons.prems(2) by auto
  have "iterate sl (case as of [] \<Rightarrow> None | a # _ \<Rightarrow> Some a) (acc @ [(n_key n, n_value n)]) =
      Some (Inr ((acc @ [(n_key n, n_value n)]) @ sl_kv (sl_heap sl) as))"
    using Cons.prems by (intro Cons.IH) (auto dest: linked_tl)
  moreover have "sl_kv (sl_heap sl) (a # as) = (n_key n, n_value n) # sl_kv (sl_heap sl) as"
    using n by (simp add: sl_kv_def node_key_def)
  ultimately show ?case
    using n linked_next [OF Cons.prems(1)]
    by (subst iterate.simps) (simp add: sl_end_def iter_deref_def iter_next_def)
qed

lemma sl_entries_ok:
  assumes ok: "sl_ok sl as"
  shows "sl_entries sl = Some (Inr (sl_kv (sl_heap sl) as))"
proof -
  have "\<forall>a \<in> set as. sl_heap sl a \<noteq> None" using sl_okD(2) [OF ok] by simp
  then show ?thesis
    using iterate_linked [OF linked_tl [OF bottom_linked [OF ok]], of "[]"] linked_next [OF bottom_linked [OF ok]]
    by (simp add: sl_entries_def sl_begin_def)
qed

lemma sl_list_ok: "sl_ok sl as \<Longrightarrow> sl_list sl = sl_kv (sl_heap sl) as"
  by (simp add: sl_list_def sl_entries_ok)

lemma last_node_linked: "linked h 0 (a # as) \<Longrightarrow> last_node h a = Some (last (a # as))"
proof (induction as arbitrary: a)
  case Nil
  then show ?case by (subst last_node.simps) simp
next
  case (Cons b as)
  then show ?case by (subst last_node.simps) simp
qed

lemma sl_bounds_ok:
  assumes ok: "sl_ok sl as" and ne: "as \<noteq> []"
  shows "sl_min_key sl = fst (hd (sl_list sl))" "sl_max_key sl = Some (fst (last (sl_list sl)))"
proof -
  obtain b r where as: "as = b # r" using ne by (cases as) auto
  have "next_at (sl_heap sl) (sl_head sl) 0 = Some b" using linked_next [OF bottom_linked [OF ok]] as by simp
  then show "sl_min_key sl = fst (hd (sl_list sl))"
    using as by (simp add: sl_min_key_def sl_list_ok [OF ok] sl_kv_def)
  have "last as \<in> set as" using ne by simp
  then have "last as \<noteq> sl_head sl" using sl_okD(1) [OF ok] by auto
  then show "sl_max_key sl = Some (fst (last (sl_list sl)))"
    using last_node_linked [OF bottom_linked [OF ok]] ne
    by (simp add: sl_max_key_def sl_list_ok [OF ok] sl_kv_def last_map)
qed

lemma new_skip_list_ok: "sl_ok (new_skip_list v0) []"
  by (simp add: sl_ok_def new_skip_list_def level_def node_nexts_def at_level_def next_at_def)

section \<open>The window as a sorted association list\<close>

text \<open>What the operations mean: a list of points in strictly increasing key order.\<close>

definition kv_put :: "time_point \<Rightarrow> 'v \<Rightarrow> (time_point \<times> 'v) list \<Rightarrow> (time_point \<times> 'v) list" where
  "kv_put k v xs =
     (if k \<in> fst ` set xs then xs
      else takeWhile (\<lambda>e. key_less (fst e) k) xs @ (k, v) # dropWhile (\<lambda>e. key_less (fst e) k) xs)"

definition kv_del :: "time_point \<Rightarrow> (time_point \<times> 'v) list \<Rightarrow> (time_point \<times> 'v) list" where
  "kv_del k xs = filter (\<lambda>e. fst e \<noteq> k) xs"

definition kv_sorted :: "(time_point \<times> 'v) list \<Rightarrow> bool" where
  "kv_sorted xs \<longleftrightarrow> sorted_wrt (\<lambda>a b. key_less (fst a) (fst b)) xs"

lemma sl_kv_below: "sl_kv h (below h key as) = takeWhile (\<lambda>e. key_less (fst e) key) (sl_kv h as)"
  by (simp add: sl_kv_def below_def takeWhile_map comp_def)

lemma sl_kv_above: "sl_kv h (above h key as) = dropWhile (\<lambda>e. key_less (fst e) key) (sl_kv h as)"
  by (simp add: sl_kv_def above_def dropWhile_map comp_def)

definition sl_valid :: "'v skip_list \<Rightarrow> bool" where
  "sl_valid sl \<longleftrightarrow> (\<exists>as. sl_ok sl as)"

lemma sl_validE: "sl_valid sl \<Longrightarrow> (\<And>as. sl_ok sl as \<Longrightarrow> thesis) \<Longrightarrow> thesis"
  by (auto simp: sl_valid_def)

lemma kv_sorted_sl_kv: "sorted_wrt (node_less h) as \<Longrightarrow> kv_sorted (sl_kv h as)"
  by (simp add: kv_sorted_def sl_kv_def sorted_wrt_map node_less_def [abs_def])

lemma sl_list_sorted: "sl_valid sl \<Longrightarrow> kv_sorted (sl_list sl)"
  by (elim sl_validE) (simp add: sl_list_ok kv_sorted_sl_kv sl_okD(5))

lemma sl_size_ok: "sl_valid sl \<Longrightarrow> sl_size sl = length (sl_list sl)"
  by (elim sl_validE) (simp add: sl_list_ok sl_size_def sl_okD(7) sl_kv_def)

lemma sl_put_valid:
  assumes "sl_valid sl"
  shows "\<exists>sl'. sl_put rand k v sl = Some (case map_of (sl_list sl) k of Some w \<Rightarrow> w | None \<Rightarrow> v, sl') \<and>
    sl_valid sl' \<and> sl_list sl' = kv_put k v (sl_list sl)"
proof -
  obtain as where ok: "sl_ok sl as" using assms by (auto simp: sl_valid_def)
  note l = sl_list_ok [OF ok]
  show ?thesis
  proof (cases "map_of (sl_list sl) k")
    case None
    then have none: "\<forall>a \<in> set as. node_key (sl_heap sl) a \<noteq> k" by (auto simp: l sl_kv_def map_of_eq_None_iff image_image)
    then have "k \<notin> fst ` set (sl_list sl)" by (auto simp: l sl_kv_def)
    moreover obtain sl' where "sl_put rand k v sl = Some (v, sl')"
      "sl_ok sl' (below (sl_heap sl) k as @ sl_next_addr sl # above (sl_heap sl) k as)"
      "sl_kv (sl_heap sl') (below (sl_heap sl) k as @ sl_next_addr sl # above (sl_heap sl) k as) =
        sl_kv (sl_heap sl) (below (sl_heap sl) k as) @ (k, v) # sl_kv (sl_heap sl) (above (sl_heap sl) k as)"
      using sl_put_new [OF ok none] by metis
    ultimately show ?thesis
      using None sl_list_ok [of sl'] by (auto simp: kv_put_def sl_valid_def l sl_kv_below sl_kv_above)
  next
    case (Some w)
    then have "k \<in> fst ` set (sl_list sl)" by (metis imageI fst_conv map_of_SomeD)
    then show ?thesis using Some sl_put_old [OF ok] assms by (simp add: l kv_put_def)
  qed
qed

lemma kv_sorted_distinct: "kv_sorted xs \<Longrightarrow> distinct (map fst xs)"
  by (induction xs) (auto simp: kv_sorted_def)

lemma kv_del_absent: "k \<notin> fst ` set xs \<Longrightarrow> kv_del k xs = xs"
  by (auto simp: kv_del_def filter_id_conv)

lemma kv_del_split:
  "distinct (map fst (xs @ (k, v) # ys)) \<Longrightarrow> kv_del k (xs @ (k, v) # ys) = xs @ ys"
  using kv_del_absent [of k xs] kv_del_absent [of k ys] by (auto simp: kv_del_def)

lemma sl_del_valid:
  assumes "sl_valid sl"
  shows "\<exists>sl'. sl_del k sl = Some sl' \<and> sl_valid sl' \<and> sl_list sl' = kv_del k (sl_list sl)"
proof -
  obtain as where ok: "sl_ok sl as" using assms by (auto simp: sl_valid_def)
  note l = sl_list_ok [OF ok]
  show ?thesis
  proof (cases "\<exists>c \<in> set as. node_key (sl_heap sl) c = k")
    case True
    then obtain L c R where s: "as = L @ c # R" "node_key (sl_heap sl) c = k" by (metis split_list)
    then obtain sl' where sl': "sl_del k sl = Some sl'" "sl_ok sl' (L @ R)"
        "sl_kv (sl_heap sl') (L @ R) = sl_kv (sl_heap sl) (L @ R)"
      using sl_del_found [OF ok s] by metis
    have "distinct (map fst (sl_list sl))" using sl_list_sorted [OF assms] by (rule kv_sorted_distinct)
    then have "kv_del k (sl_list sl) = sl_kv (sl_heap sl) (L @ R)"
      using s kv_del_split [of "sl_kv (sl_heap sl) L" k "the (map_option n_value (sl_heap sl c))" "sl_kv (sl_heap sl) R"]
      by (simp add: l sl_kv_def)
    then show ?thesis using sl' sl_list_ok [OF sl'(2)] by (auto simp: sl_valid_def)
  next
    case False
    then have "k \<notin> fst ` set (sl_list sl)" by (auto simp: l sl_kv_def)
    then show ?thesis using sl_del_absent [OF ok] False assms by (auto simp: kv_del_absent)
  qed
qed

lemma sl_cle_valid:
  assumes "sl_valid sl"
  shows "\<exists>sl'. sl_cle sl = Some sl' \<and> sl_valid sl' \<and> sl_list sl' = []"
proof -
  obtain as where ok: "sl_ok sl as" using assms by (auto simp: sl_valid_def)
  obtain sl' where "sl_cle sl = Some sl'" "sl_ok sl' []" using sl_cle_ok [OF ok] by metis
  then show ?thesis using sl_list_ok [of sl' "[]"] by (auto simp: sl_valid_def sl_kv_def)
qed

lemma new_skip_list_valid: "sl_valid (new_skip_list v0)" "sl_list (new_skip_list v0) = []"
  using new_skip_list_ok sl_list_ok by (force simp: sl_valid_def, force simp: sl_kv_def)

section \<open>The window as an interface\<close>

text \<open>A writer's view: it puts points in any order and later takes the window out in order.\<close>

fun put_all :: "(time_point \<Rightarrow> 'v \<Rightarrow> 's \<Rightarrow> ('v \<times> 's) option) \<Rightarrow> (time_point \<times> 'v) list \<Rightarrow> 's \<Rightarrow> 's option" where
  "put_all put [] s = Some s"
| "put_all put (p # ps) s = (case put (fst p) (snd p) s of None \<Rightarrow> None | Some (_, s') \<Rightarrow> put_all put ps s')"

locale time_window =
  fixes ok :: "'s \<Rightarrow> bool"
    and entries :: "'s \<Rightarrow> (time_point \<times> 'v) list"
    and put :: "time_point \<Rightarrow> 'v \<Rightarrow> 's \<Rightarrow> ('v \<times> 's) option"
  assumes put_law: "ok s \<Longrightarrow> \<exists>w s'. put k v s = Some (w, s') \<and> ok s' \<and> entries s' = kv_put k v (entries s)"
    and sorted_law: "ok s \<Longrightarrow> kv_sorted (entries s)"
begin

lemma put_all_total:
  "ok s \<Longrightarrow> \<exists>s'. put_all put ps s = Some s' \<and> ok s' \<and> entries s' = fold (\<lambda>p. kv_put (fst p) (snd p)) ps (entries s)"
proof (induction ps arbitrary: s)
  case (Cons p ps)
  obtain w s1 where "put (fst p) (snd p) s = Some (w, s1)" "ok s1" "entries s1 = kv_put (fst p) (snd p) (entries s)"
    using put_law [OF Cons.prems] by blast
  with Cons.IH [of s1] show ?case by auto
qed simp

end

interpretation sl: time_window sl_valid sl_list "sl_put rand" for rand
proof
  show "\<exists>w s'. sl_put rand k v s = Some (w, s') \<and> sl_valid s' \<and> sl_list s' = kv_put k v (sl_list s)"
    if "sl_valid s" for s :: "'a skip_list" and k v
    using sl_put_valid [OF that, of rand k v] by blast
  show "kv_sorted (sl_list s)" if "sl_valid s" for s :: "'a skip_list"
    using that by (rule sl_list_sorted)
qed

lemma new_list_put_all:
  "\<exists>sl. put_all (sl_put rand) ps (new_skip_list v0) = Some sl \<and> sl_valid sl \<and>
     sl_list sl = fold (\<lambda>p. kv_put (fst p) (snd p)) ps []"
  using sl.put_all_total [OF new_skip_list_valid(1)] by (simp add: new_skip_list_valid(2))

lemma map_of_kv_put: "map_of (kv_put k v xs) x = (if x = k \<and> k \<notin> fst ` set xs then Some v else map_of xs x)"
proof (cases "k \<in> fst ` set xs")
  case False
  let ?P = "\<lambda>e. key_less (fst e) k"
  have eq: "map_of xs x = (case map_of (takeWhile ?P xs) x of Some y \<Rightarrow> Some y | None \<Rightarrow> map_of (dropWhile ?P xs) x)"
    by (subst takeWhile_dropWhile_id [of ?P xs, symmetric], simp only: map_of_append map_add_def)
  moreover have "map_of (takeWhile ?P xs) k = None" using False by (auto simp: map_of_eq_None_iff dest: set_takeWhileD)
  ultimately show ?thesis using False by (auto simp: kv_put_def map_add_def split: option.split)
qed (simp add: kv_put_def)

lemma set_kv_put: "fst ` set (kv_put k v xs) = insert k (fst ` set xs)"
proof (cases "k \<in> fst ` set xs")
  case False
  let ?P = "\<lambda>e. key_less (fst e) k"
  have "set xs = set (takeWhile ?P xs) \<union> set (dropWhile ?P xs)" by (metis set_append takeWhile_dropWhile_id)
  then show ?thesis using False by (auto simp: kv_put_def)
qed (auto simp: kv_put_def)

lemma map_of_fold_kv_put:
  "map_of (fold (\<lambda>p. kv_put (fst p) (snd p)) ps xs) k = (case map_of xs k of Some v \<Rightarrow> Some v | None \<Rightarrow> map_of ps k)"
proof (induction ps arbitrary: xs)
  case (Cons p ps)
  have "map_of xs k = None \<longleftrightarrow> k \<notin> fst ` set xs" by (rule map_of_eq_None_iff)
  then show ?case using Cons by (cases p) (auto simp: map_of_kv_put split: option.split)
qed (simp split: option.split)

section \<open>Properties of the skip list\<close>

text \<open>
  C33. The skip list implements a sorted map: starting from a new list, and whatever the numbers of
  \<open>rand()\<close>, putting any points in any order returns, and the list then iterates over them in
  strictly increasing key order, holding for each key the value put first; the counter is the number of entries.
\<close>

theorem skip_list_window:
  "\<exists>sl. put_all (sl_put rand) ps (new_skip_list v0) = Some sl \<and> kv_sorted (sl_list sl) \<and>
     map_of (sl_list sl) = map_of ps \<and> sl_size sl = length (sl_list sl)"
proof -
  obtain sl where sl: "put_all (sl_put rand) ps (new_skip_list v0) = Some sl" "sl_valid sl"
      "sl_list sl = fold (\<lambda>p. kv_put (fst p) (snd p)) ps []"
    using new_list_put_all [of rand ps v0] by blast
  have "map_of (sl_list sl) = map_of ps" by (rule ext) (simp add: sl(3) map_of_fold_kv_put)
  then show ?thesis using sl sl_list_sorted sl_size_ok by blast
qed

text \<open>
  Deletion: on every list that the operations build, \<open>del\<close> returns and takes out exactly the entry
  of the key, on every level, leaving the others in order; an absent key changes nothing.
\<close>

theorem skip_list_delete:
  assumes "sl_valid sl"
  shows "\<exists>sl'. sl_del k sl = Some sl' \<and> sl_valid sl' \<and> sl_list sl' = filter (\<lambda>e. fst e \<noteq> k) (sl_list sl)"
  using sl_del_valid [OF assms] by (simp add: kv_del_def)

lemma put_all_valid: "sl_valid (the (put_all (sl_put rand) ps (new_skip_list v0)))"
  using new_list_put_all [of rand ps v0] by auto

theorem skip_list_delete_witness:
  "\<exists>sl'. sl_del 5 (the (put_all (sl_put (\<lambda>i. i * 37)) [(9, ''a''), (5, ''b'')] (new_skip_list []))) = Some sl' \<and> sl_valid sl'"
  using skip_list_delete [OF put_all_valid [of "\<lambda>i. i * 37" "[(9, ''a''), (5, ''b'')]" "[]"], of 5] by auto

text \<open>
  A second \<open>put\<close> of a key does not update the value: the list stays as it is, and the variable that
  the caller passed by reference is overwritten with the old value.
\<close>

theorem put_existing_keeps_value:
  assumes "sl_valid sl" "map_of (sl_list sl) k = Some w"
  shows "sl_put rand k v sl = Some (w, sl)"
  using assms by (elim sl_validE) (auto simp: sl_list_ok intro: sl_put_old)

theorem put_existing_keeps_value_witness:
  "\<exists>sl. put_all (sl_put (\<lambda>i. i)) [(5, ''b'')] (new_skip_list []) = Some sl \<and>
     sl_put (\<lambda>i. i) 5 ''new'' sl = Some (''b'', sl)"
proof -
  obtain sl where sl: "put_all (sl_put (\<lambda>i. i)) [(5, ''b'')] (new_skip_list []) = Some sl" "sl_valid sl"
      "sl_list sl = fold (\<lambda>p. kv_put (fst p) (snd p)) [(5, ''b'')] []"
    using new_list_put_all [of "\<lambda>i. i" "[(5, ''b'')]" "[]"] by blast
  then have "map_of (sl_list sl) 5 = Some ''b''" by (simp add: kv_put_def)
  from put_existing_keeps_value [OF sl(2) this] sl(1) show ?thesis by blast
qed

text \<open>
  \<open>cle\<close> empties the list but deletes no node: it clears the head's pointers before the loop that
  would follow them, so every node it held stays allocated.
\<close>

theorem cle_leaks_nodes:
  assumes "sl_valid sl"
  shows "\<exists>sl'. sl_cle sl = Some sl' \<and> sl_list sl' = [] \<and> sl_size sl' = 0 \<and> dom (sl_heap sl') = dom (sl_heap sl)"
proof -
  obtain as where ok: "sl_ok sl as" using assms by (auto simp: sl_valid_def)
  obtain sl' where sl': "sl_cle sl = Some sl'" "sl_ok sl' []" "\<And>a. (sl_heap sl' a = None) = (sl_heap sl a = None)"
    using sl_cle_ok [OF ok] by metis
  have "sl_list sl' = []" using sl_list_ok [OF sl'(2)] by (simp add: sl_kv_def)
  moreover have "sl_size sl' = 0" using sl_okD(7) [OF sl'(2)] by (simp add: sl_size_def)
  moreover have "dom (sl_heap sl') = dom (sl_heap sl)" using sl'(3) by (auto simp: dom_def)
  ultimately show ?thesis using sl'(1) by blast
qed

theorem cle_leaks_nodes_witness:
  "\<exists>sl'. sl_cle (the (put_all (sl_put (\<lambda>i. i)) [(5, ''b'')] (new_skip_list []))) = Some sl' \<and> sl_list sl' = []"
  using cle_leaks_nodes [OF put_all_valid [of "\<lambda>i. i" "[(5, ''b'')]" "[]"]] by auto

end
