(* ===== verification/Ordered_Map.thy ===== *)
theory Ordered_Map
  imports Prelude "HOL-Library.Char_ord" "HOL-Library.List_Lexorder"
begin

text \<open>
  \<open>std::map\<close> as the list of its entries in the order of the keys, the order in which the program's
  loops visit them. \<open>std::string\<close> keys compare bytewise, which is the order of the library on lists
  of characters. \<open>om_at\<close> is what \<open>operator[]\<close> returns; the insertion of the default value by
  \<open>operator[]\<close> is an \<open>om_put\<close> of its own where it matters.
\<close>

type_synonym ('k, 'v) omap = "('k \<times> 'v) list"

fun om_put :: "'k::linorder \<Rightarrow> 'v \<Rightarrow> ('k, 'v) omap \<Rightarrow> ('k, 'v) omap" where
  "om_put k v [] = [(k, v)]"
| "om_put k v ((k', v') # m) =
     (if k < k' then (k, v) # (k', v') # m
      else if k = k' then (k, v) # m
      else (k', v') # om_put k v m)"

definition om_del :: "'k \<Rightarrow> ('k, 'v) omap \<Rightarrow> ('k, 'v) omap" where
  "om_del k m = filter (\<lambda>e. fst e \<noteq> k) m"

definition om_at :: "'v \<Rightarrow> 'k \<Rightarrow> ('k, 'v) omap \<Rightarrow> 'v" where
  "om_at d k m = (case map_of m k of Some v \<Rightarrow> v | None \<Rightarrow> d)"

definition om_ok :: "('k::linorder, 'v) omap \<Rightarrow> bool" where
  "om_ok m \<longleftrightarrow> sorted_wrt (<) (map fst m)"

lemma om_ok_simps [simp]:
  "om_ok []"
  "om_ok (e # m) \<longleftrightarrow> (\<forall>e' \<in> set m. fst e < fst e') \<and> om_ok m"
  by (auto simp: om_ok_def)

lemma map_of_om_put [simp]: "map_of (om_put k v m) = (map_of m)(k \<mapsto> v)"
  by (induction m) (auto simp: fun_eq_iff)

lemma set_om_put: "set (om_put k v m) \<subseteq> insert (k, v) (set m)"
  by (induction m) (auto split: if_splits)

lemma om_put_ok [intro]: "om_ok m \<Longrightarrow> om_ok (om_put k v m)"
proof (induction m)
  case Nil
  then show ?case by simp
next
  case (Cons e m)
  obtain k' v' where e: "e = (k', v')" by (cases e)
  have less: "k' < fst x" if "x \<in> set (om_put k v m)" "k' < k" for x
    using Cons.prems e that set_om_put [of k v m] by auto
  show ?case using Cons e less by (auto simp: not_less_iff_gr_or_eq)
qed

lemma map_of_om_del [simp]: "map_of (om_del k m) = (map_of m)(k := None)"
  by (induction m) (auto simp: om_del_def fun_eq_iff)

lemma om_del_ok [intro]: "om_ok m \<Longrightarrow> om_ok (om_del k m)"
  by (induction m) (auto simp: om_del_def)

lemma om_ok_distinct: "om_ok m \<Longrightarrow> distinct (map fst m)"
  by (induction m) force+

lemma om_ok_map_of: "om_ok m \<Longrightarrow> map_of m k = Some v \<longleftrightarrow> (k, v) \<in> set m"
  by (simp add: map_of_eq_Some_iff om_ok_distinct)

lemma om_put_not_Nil [simp]: "om_put k v m \<noteq> []"
  by (cases m) (auto split: if_splits)

lemma om_at_put [simp]: "om_at d k (om_put k' v m) = (if k = k' then v else om_at d k m)"
  by (simp add: om_at_def)

lemma om_at_Some [simp]: "map_of m k = Some v \<Longrightarrow> om_at d k m = v"
  by (simp add: om_at_def)

lemma om_at_None [simp]: "map_of m k = None \<Longrightarrow> om_at d k m = d"
  by (simp add: om_at_def)

lemma om_del_ident: "map_of m k = None \<Longrightarrow> om_del k m = m"
  by (induction m) (auto simp: om_del_def split: if_splits)

text \<open>A property of all the values.\<close>

definition om_all :: "('v \<Rightarrow> bool) \<Rightarrow> ('k, 'v) omap \<Rightarrow> bool" where
  "om_all P m \<longleftrightarrow> (\<forall>e \<in> set m. P (snd e))"

lemma om_all_at: "om_all P m \<Longrightarrow> map_of m k = Some v \<Longrightarrow> P v"
  unfolding om_all_def by (drule map_of_SomeD, drule bspec) auto

lemma om_all_del: "om_all P m \<Longrightarrow> om_all P (om_del k m)"
  by (simp add: om_all_def om_del_def)

lemma om_all_put: "P v \<Longrightarrow> om_all P m \<Longrightarrow> om_all P (om_put k v m)"
  using set_om_put [of k v m] by (auto simp: om_all_def)

lemma om_all_Nil [simp]: "om_all P []"
  by (simp add: om_all_def)

text \<open>Entries put in the order of their keys.\<close>

lemma om_put_last: "(\<And>e. e \<in> set m \<Longrightarrow> fst e < k) \<Longrightarrow> om_put k v m = m @ [(k, v)]"
proof (induction m)
  case (Cons e m)
  then have "fst e < k" by simp
  then show ?case using Cons by (cases e) (auto dest: less_not_sym)
qed simp

lemma fold_om_put: "om_ok (acc @ m) \<Longrightarrow> fold (\<lambda>e. om_put (fst e) (snd e)) m acc = acc @ m"
proof (induction m arbitrary: acc)
  case (Cons e m)
  have "om_put (fst e) (snd e) acc = acc @ [e]" using Cons.prems by (subst om_put_last) (auto simp: om_ok_def sorted_wrt_append)
  moreover have "om_ok ((acc @ [e]) @ m)" using Cons.prems by simp
  ultimately show ?case using Cons.IH [of "acc @ [e]"] by simp
qed simp

end
