(* ===== verification/Observers.thy ===== *)
theory Observers
  imports Tsm_Codec Ordered_Map
begin

text \<open>
  The three observers through which the writer tells the monitor threads what may be due:
  \<open>FieldState\<close> (\<open>src/engine/tsm/field_state.h\<close>) for out-of-order windows and pending index entries
  of a field, \<open>TableState\<close> (\<open>table_state.h\<close>) for queued data blocks of a table and \<open>ShardState\<close>
  (\<open>shard_state.h\<close>) for changed shard meta data.

  Each monitor loop first collects the registered items and then calls back for each of them. The
  callbacks run engine code, which may register and remove events itself, so a callback is a
  function on the whole world, the pair of an observer state and whatever else there is. The
  operations take the locks of their map for the time of one collection or update.
\<close>

section \<open>FieldState\<close>

record field_info =
  fi_shard_id :: string
  fi_series_key_and_field_name :: string
  fi_is_registered :: bool

type_synonym field_map = "(string, (string, (string, field_info) omap) omap) omap"

record field_state =
  fs_skip_list_state_map :: field_map
  fs_index_entry_state_map :: field_map

definition new_field_info :: field_info where
  "new_field_info = \<lparr>fi_shard_id = [], fi_series_key_and_field_name = [], fi_is_registered = False\<rparr>"

definition find_field :: "field_map \<Rightarrow> string \<Rightarrow> string \<Rightarrow> string \<Rightarrow> field_info option" where
  "find_field m db_name tb_name field_name =
     (case map_of m db_name of
        None \<Rightarrow> None
      | Some tbs \<Rightarrow> (case map_of tbs tb_name of None \<Rightarrow> None | Some field_map \<Rightarrow> map_of field_map field_name))"

definition put_field :: "string \<Rightarrow> string \<Rightarrow> string \<Rightarrow> field_info \<Rightarrow> field_map \<Rightarrow> field_map" where
  "put_field db_name tb_name field_name fi m =
     (let tbs = om_at [] db_name m in
      om_put db_name (om_put tb_name (om_put field_name fi (om_at [] tb_name tbs)) tbs) m)"

definition check_and_register_in ::
    "bool \<Rightarrow> string \<Rightarrow> string \<Rightarrow> string \<times> string \<Rightarrow> string \<Rightarrow> field_map \<Rightarrow> bool \<times> field_map" where
  "check_and_register_in use_index_entry_map db_name tb_name shard_id_and_series_info field_name m =
     (case find_field m db_name tb_name field_name of
        Some fi \<Rightarrow> (fi_is_registered fi, m)
      | None \<Rightarrow>
          (let fi = new_field_info in
           if \<not> fi_is_registered fi
           then (True, put_field db_name tb_name field_name
                   (fi\<lparr>fi_is_registered := True, fi_shard_id := fst shard_id_and_series_info,
                       fi_series_key_and_field_name :=
                         (if use_index_entry_map then fi_series_key_and_field_name fi else snd shard_id_and_series_info)\<rparr>) m)
           else (False, put_field db_name tb_name field_name fi m)))"

definition remove_status_in :: "string \<Rightarrow> string \<Rightarrow> string \<Rightarrow> field_map \<Rightarrow> field_map" where
  "remove_status_in db_name tb_name field_name m =
     (case map_of m db_name of
        None \<Rightarrow> m
      | Some tbs \<Rightarrow>
          (let fields = om_del field_name (om_at [] tb_name tbs) in
           if fields = [] then
             (let tbs' = om_del tb_name tbs in
              if tbs' = [] then om_del db_name m else om_put db_name tbs' m)
           else om_put db_name (om_put tb_name fields tbs) m))"

definition state_map :: "bool \<Rightarrow> field_state \<Rightarrow> field_map" where
  "state_map use_index_entry_map s =
     (if use_index_entry_map then fs_index_entry_state_map s else fs_skip_list_state_map s)"

definition set_state_map :: "bool \<Rightarrow> field_map \<Rightarrow> field_state \<Rightarrow> field_state" where
  "set_state_map use_index_entry_map m s =
     (if use_index_entry_map then s\<lparr>fs_index_entry_state_map := m\<rparr> else s\<lparr>fs_skip_list_state_map := m\<rparr>)"

definition fs_check_and_register ::
    "string \<Rightarrow> string \<Rightarrow> string \<times> string \<Rightarrow> string \<Rightarrow> bool \<Rightarrow> field_state \<Rightarrow> bool \<times> field_state" where
  "fs_check_and_register db_name tb_name shard_id_and_series_info field_name use_index_entry_map s =
     (let (r, m) = check_and_register_in use_index_entry_map db_name tb_name shard_id_and_series_info field_name
            (state_map use_index_entry_map s)
      in (r, set_state_map use_index_entry_map m s))"

definition fs_remove_status :: "string \<Rightarrow> string \<Rightarrow> string \<Rightarrow> bool \<Rightarrow> field_state \<Rightarrow> field_state" where
  "fs_remove_status db_name tb_name field_name use_index_entry_map s =
     set_state_map use_index_entry_map
       (remove_status_in db_name tb_name field_name (state_map use_index_entry_map s)) s"

definition fs_update ::
    "string \<Rightarrow> string \<Rightarrow> string \<times> string \<Rightarrow> string \<Rightarrow> bool \<Rightarrow> bool \<Rightarrow> field_state \<Rightarrow> field_state" where
  "fs_update db_name tb_name shard_id_and_series_info field_name is_registered use_index_entry_map s =
     (if is_registered
      then snd (fs_check_and_register db_name tb_name shard_id_and_series_info field_name use_index_entry_map s)
      else fs_remove_status db_name tb_name field_name use_index_entry_map s)"

text \<open>The items of one round of the monitor: database, table, field, shard and series.\<close>

type_synonym field_item = "string \<times> string \<times> string \<times> string \<times> string"

definition table_items :: "string \<Rightarrow> string \<Rightarrow> (string, field_info) omap \<Rightarrow> field_item list" where
  "table_items db_name tb_name fl =
     map (\<lambda>e. (db_name, tb_name, fst e, fi_shard_id (snd e), fi_series_key_and_field_name (snd e)))
       (filter (\<lambda>e. fi_is_registered (snd e)) fl)"

definition registered_fields :: "field_map \<Rightarrow> field_item list" where
  "registered_fields m =
     concat (map (\<lambda>(db, tbs). concat (map (\<lambda>(tb, fl). table_items db tb fl) tbs)) m)"

text \<open>The second part of a monitor loop: call back for each item, drop it when told to.\<close>

fun process_items :: "('i \<Rightarrow> 's \<Rightarrow> bool \<times> 's) \<Rightarrow> ('i \<Rightarrow> 's \<Rightarrow> 's) \<Rightarrow> 'i list \<Rightarrow> 's \<Rightarrow> 's" where
  "process_items callback remove [] s = s"
| "process_items callback remove (i # is) s =
     (let (due, s') = callback i s in
      process_items callback remove is (if due then remove i s' else s'))"

text \<open>A callback that is not set is not called.\<close>

definition fs_iterate_map ::
    "(field_item \<Rightarrow> field_state \<times> 'w \<Rightarrow> bool \<times> field_state \<times> 'w) option \<Rightarrow> bool \<Rightarrow> field_state \<times> 'w \<Rightarrow> field_state \<times> 'w" where
  "fs_iterate_map callback use_index_entry_map sw =
     process_items (case callback of Some f \<Rightarrow> f | None \<Rightarrow> (\<lambda>_ s. (False, s)))
       (\<lambda>(db, tb, f, _) (s, w). (fs_remove_status db tb f use_index_entry_map s, w))
       (registered_fields (state_map use_index_entry_map (fst sw))) sw"

section \<open>TableState\<close>

type_synonym table_map = "(string, (string, bool) omap) omap"

definition ts_check_and_register :: "string \<Rightarrow> string \<Rightarrow> table_map \<Rightarrow> bool \<times> table_map" where
  "ts_check_and_register db_name tb_name m =
     (case (case map_of m db_name of None \<Rightarrow> None | Some tbs \<Rightarrow> map_of tbs tb_name) of
        Some r \<Rightarrow> (r, m)
      | None \<Rightarrow>
          (let tbs = om_at [] db_name m in
           if \<not> om_at False tb_name tbs then (True, om_put db_name (om_put tb_name True tbs) m)
           else (False, om_put db_name (om_put tb_name False tbs) m)))"

definition ts_remove_status :: "string \<Rightarrow> string \<Rightarrow> table_map \<Rightarrow> table_map" where
  "ts_remove_status db_name tb_name m =
     (case map_of m db_name of
        None \<Rightarrow> m
      | Some tbs \<Rightarrow> (let tbs' = om_del tb_name tbs in if tbs' = [] then om_del db_name m else om_put db_name tbs' m))"

definition ts_update :: "string \<Rightarrow> string \<Rightarrow> bool \<Rightarrow> bool \<Rightarrow> table_map \<Rightarrow> table_map" where
  "ts_update db_name tb_name is_registered use_index_entry_map m =
     (if use_index_entry_map then m
      else if is_registered then snd (ts_check_and_register db_name tb_name m)
      else ts_remove_status db_name tb_name m)"

definition registered_tables :: "table_map \<Rightarrow> (string \<times> string) list" where
  "registered_tables m = concat (map (\<lambda>(db, tbs). map (\<lambda>(tb, _). (db, tb)) (filter snd tbs)) m)"

definition ts_iterate_map ::
    "(string \<times> string \<Rightarrow> table_map \<times> 'w \<Rightarrow> bool \<times> table_map \<times> 'w) \<Rightarrow> table_map \<times> 'w \<Rightarrow> table_map \<times> 'w" where
  "ts_iterate_map callback mw =
     process_items callback (\<lambda>(db, tb) (m, w). (ts_remove_status db tb m, w)) (registered_tables (fst mw)) mw"

section \<open>ShardState\<close>

record shard_state =
  ss_last_time :: time_point
  ss_is_registered :: bool
  ss_change_total_count :: nat

definition ss_check_and_register :: "time_point \<Rightarrow> shard_state \<Rightarrow> bool \<times> shard_state" where
  "ss_check_and_register now s =
     (let s' = (if \<not> ss_is_registered s then s\<lparr>ss_is_registered := True, ss_last_time := now\<rparr> else s)
      in (True, s'\<lparr>ss_change_total_count := ss_change_total_count s' + 1\<rparr>))"

definition ss_remove_status :: "shard_state \<Rightarrow> shard_state" where
  "ss_remove_status s = s\<lparr>ss_is_registered := False, ss_change_total_count := 0\<rparr>"

definition shard_update :: "time_point \<Rightarrow> bool \<Rightarrow> shard_state \<Rightarrow> shard_state" where
  "shard_update now is_registered s =
     (if is_registered then snd (ss_check_and_register now s) else ss_remove_status s)"

text \<open>A duration of at least \<open>n\<close> seconds; the clock counts nanoseconds.\<close>

definition passed_seconds :: "nat \<Rightarrow> time_point \<Rightarrow> time_point \<Rightarrow> bool" where
  "passed_seconds n since now \<longleftrightarrow> int n * 10 ^ 9 \<le> sint (now - since)"

text \<open>The callback runs under the lock of the observer, so it does not see the observer's state.\<close>

definition ss_iterate_map :: "time_point \<Rightarrow> ('w \<Rightarrow> bool \<times> 'w) \<Rightarrow> shard_state \<times> 'w \<Rightarrow> shard_state \<times> 'w" where
  "ss_iterate_map now callback sw =
     (let (s, w) = sw in
      if ss_is_registered s then
        if passed_seconds 10 (ss_last_time s) now \<or> 10 \<le> ss_change_total_count s
        then (let (saved, w') = callback w in
              if saved then (s\<lparr>ss_is_registered := False, ss_change_total_count := 0\<rparr>, w') else (s, w'))
        else (s, w)
      else (s, w))"

section \<open>Well-formed maps\<close>

text \<open>Sorted on every level, no empty inner map, and every entry that exists is registered.\<close>

definition fields_wf :: "(string, field_info) omap \<Rightarrow> bool" where
  "fields_wf fl \<longleftrightarrow> fl \<noteq> [] \<and> om_ok fl \<and> om_all fi_is_registered fl"

definition tables_wf :: "(string, (string, field_info) omap) omap \<Rightarrow> bool" where
  "tables_wf tbs \<longleftrightarrow> tbs \<noteq> [] \<and> om_ok tbs \<and> om_all fields_wf tbs"

definition field_map_wf :: "field_map \<Rightarrow> bool" where
  "field_map_wf m \<longleftrightarrow> om_ok m \<and> om_all tables_wf m"

lemma tables_wfD: "tables_wf tbs \<Longrightarrow> map_of tbs tb = Some fl \<Longrightarrow> fields_wf fl"
  unfolding tables_wf_def by (auto elim: om_all_at)

lemma field_map_wfD: "field_map_wf m \<Longrightarrow> map_of m db = Some tbs \<Longrightarrow> tables_wf tbs"
  unfolding field_map_wf_def by (auto elim: om_all_at)

lemma fields_wf_put: "fl = [] \<or> fields_wf fl \<Longrightarrow> fi_is_registered fi \<Longrightarrow> fields_wf (om_put f fi fl)"
  unfolding fields_wf_def by (auto intro: om_all_put)

lemma tables_wf_put: "tbs = [] \<or> tables_wf tbs \<Longrightarrow> fields_wf fl \<Longrightarrow> tables_wf (om_put tb fl tbs)"
  unfolding tables_wf_def by (elim disjE) (simp_all add: om_all_put om_put_ok del: om_put.simps)

lemma field_map_wf_put: "field_map_wf m \<Longrightarrow> tables_wf tbs \<Longrightarrow> field_map_wf (om_put db tbs m)"
  unfolding field_map_wf_def by (simp add: om_all_put om_put_ok)

lemmas om_wf_put = fields_wf_put tables_wf_put field_map_wf_put

lemma om_at_wf:
  "field_map_wf m \<Longrightarrow> om_at [] db m = [] \<or> tables_wf (om_at [] db m)"
  "tbs = [] \<or> tables_wf tbs \<Longrightarrow> om_at [] tb tbs = [] \<or> fields_wf (om_at [] tb tbs)"
  by (auto simp: om_at_def split: option.split dest: field_map_wfD tables_wfD)

lemma put_field_wf: "field_map_wf m \<Longrightarrow> fi_is_registered fi \<Longrightarrow> field_map_wf (put_field db tb f fi m)"
  unfolding put_field_def Let_def by (intro om_wf_put om_at_wf) auto

lemma om_del_wf:
  "om_del f fl \<noteq> [] \<Longrightarrow> fields_wf fl \<Longrightarrow> fields_wf (om_del f fl)"
  "om_del tb tbs \<noteq> [] \<Longrightarrow> tables_wf tbs \<Longrightarrow> tables_wf (om_del tb tbs)"
  "field_map_wf m \<Longrightarrow> field_map_wf (om_del db m)"
  by (simp_all add: fields_wf_def tables_wf_def [of tbs] tables_wf_def [of "om_del tb tbs"] field_map_wf_def om_all_del om_del_ok)

lemma remove_status_in_wf:
  assumes "field_map_wf m"
  shows "field_map_wf (remove_status_in db tb f m)"
proof (cases "map_of m db")
  case None
  then show ?thesis using assms by (simp add: remove_status_in_def)
next
  case (Some tbs)
  then have tbs: "tables_wf tbs" using assms by (rule field_map_wfD [rotated])
  then have "om_at [] tb tbs = [] \<or> fields_wf (om_at [] tb tbs)" by (simp add: om_at_wf(2))
  then have "fields_wf (om_del f (om_at [] tb tbs))" if "om_del f (om_at [] tb tbs) \<noteq> []"
    using that om_del_wf(1) [OF that] by (auto simp: om_del_def)
  then show ?thesis using assms Some tbs
    by (simp add: remove_status_in_def Let_def om_del_wf om_wf_put)
qed

text \<open>The abstract content: which field of which table is registered, with what.\<close>

lemma find_put_field:
  "find_field (put_field db tb f fi m) db' tb' f' =
     (if (db', tb', f') = (db, tb, f) then Some fi else find_field m db' tb' f')"
  by (auto simp: find_field_def put_field_def Let_def om_at_def split: option.split)

lemma find_remove_status:
  "find_field (remove_status_in db tb f m) db' tb' f' =
     (if (db', tb', f') = (db, tb, f) then None else find_field m db' tb' f')"
proof (cases "map_of m db")
  case None
  then show ?thesis by (auto simp: find_field_def remove_status_in_def)
next
  case (Some tbs)
  have at: "map_of (om_at [] tb tbs) g = (case map_of tbs tb of None \<Rightarrow> None | Some fl \<Rightarrow> map_of fl g)" for g
    by (auto simp: om_at_def split: option.split)
  consider (kept) "om_del f (om_at [] tb tbs) \<noteq> []"
    | (table) "om_del f (om_at [] tb tbs) = []" "om_del tb tbs \<noteq> []"
    | (all) "om_del f (om_at [] tb tbs) = []" "om_del tb tbs = []" by blast
  then show ?thesis
  proof cases
    case kept
    then have "remove_status_in db tb f m = om_put db (om_put tb (om_del f (om_at [] tb tbs)) tbs) m"
      using Some by (simp add: remove_status_in_def)
    then show ?thesis using Some at by (auto simp: find_field_def split: option.split)
  next
    case table
    then have r: "remove_status_in db tb f m = om_put db (om_del tb tbs) m"
      using Some by (simp add: remove_status_in_def)
    have "map_of (om_del f (om_at [] tb tbs)) g = None" for g using table by simp
    then have n: "map_of (om_at [] tb tbs) g = None" if "g \<noteq> f" for g using that by (metis fun_upd_other map_of_om_del)
    then show ?thesis using Some at n [of f'] by (auto simp: r find_field_def split: option.split)
  next
    case all
    then have r: "remove_status_in db tb f m = om_del db m"
      using Some by (simp add: remove_status_in_def)
    have "map_of (om_del f (om_at [] tb tbs)) g = None" for g using all by simp
    then have n: "map_of (om_at [] tb tbs) g = None" if "g \<noteq> f" for g using that by (metis fun_upd_other map_of_om_del)
    have "map_of (om_del tb tbs) t = None" for t using all by simp
    then have "map_of tbs t = None" if "t \<noteq> tb" for t using that by (metis fun_upd_other map_of_om_del)
    then show ?thesis using Some at n [of f'] by (cases "tb' = tb") (auto simp: r find_field_def split: option.split)
  qed
qed

lemma find_field_Some:
  "find_field m db tb f = Some fi \<longleftrightarrow>
    (\<exists>tbs fl. map_of m db = Some tbs \<and> map_of tbs tb = Some fl \<and> map_of fl f = Some fi)"
  by (auto simp: find_field_def split: option.splits)

lemma field_map_members:
  assumes "field_map_wf m"
  shows "(\<exists>tbs fl. (db, tbs) \<in> set m \<and> (tb, fl) \<in> set tbs \<and> (f, fi) \<in> set fl) \<longleftrightarrow> find_field m db tb f = Some fi"
    (is "?L = ?R")
proof
  assume ?L
  then obtain tbs fl where 1: "(db, tbs) \<in> set m" "(tb, fl) \<in> set tbs" "(f, fi) \<in> set fl" by blast
  have m: "map_of m db = Some tbs" using assms 1(1) by (simp add: field_map_wf_def om_ok_map_of)
  have t: "map_of tbs tb = Some fl" using field_map_wfD [OF assms m] 1(2) by (simp add: tables_wf_def om_ok_map_of)
  have "map_of fl f = Some fi"
    using tables_wfD [OF field_map_wfD [OF assms m] t] 1(3) by (simp add: fields_wf_def om_ok_map_of)
  with m t show ?R by (simp add: find_field_Some)
next
  assume ?R
  then show ?L unfolding find_field_Some by (blast dest: map_of_SomeD)
qed

lemma find_field_registered: "field_map_wf m \<Longrightarrow> find_field m db tb f = Some fi \<Longrightarrow> fi_is_registered fi"
  unfolding find_field_Some
  by (elim exE conjE, drule (1) field_map_wfD, drule (1) tables_wfD) (auto simp: fields_wf_def elim: om_all_at)

lemma table_items_iff:
  "(db', tb', f, sh, se) \<in> set (table_items db tb fl) \<longleftrightarrow> db' = db \<and> tb' = tb \<and>
    (\<exists>fi. (f, fi) \<in> set fl \<and> fi_is_registered fi \<and> fi_shard_id fi = sh \<and> fi_series_key_and_field_name fi = se)"
  by (auto simp: table_items_def image_iff)

lemma registered_fields_iff:
  assumes "field_map_wf m"
  shows "(db, tb, f, sh, se) \<in> set (registered_fields m) \<longleftrightarrow>
    (\<exists>fi. find_field m db tb f = Some fi \<and> fi_shard_id fi = sh \<and> fi_series_key_and_field_name fi = se)"
proof -
  have "(db, tb, f, sh, se) \<in> set (registered_fields m) \<longleftrightarrow>
      (\<exists>tbs fl. (db, tbs) \<in> set m \<and> (tb, fl) \<in> set tbs \<and> (db, tb, f, sh, se) \<in> set (table_items db tb fl))"
    unfolding registered_fields_def by (fastforce simp: table_items_iff)
  also have "\<dots> \<longleftrightarrow> (\<exists>fi. (\<exists>tbs fl. (db, tbs) \<in> set m \<and> (tb, fl) \<in> set tbs \<and> (f, fi) \<in> set fl) \<and>
        fi_is_registered fi \<and> fi_shard_id fi = sh \<and> fi_series_key_and_field_name fi = se)"
    unfolding table_items_iff by blast
  finally show ?thesis unfolding field_map_members [OF assms] using find_field_registered [OF assms] by blast
qed

definition item_key :: "field_item \<Rightarrow> string \<times> string \<times> string" where
  "item_key i = (fst i, fst (snd i), fst (snd (snd i)))"

lemma distinct_concat_keys:
  assumes "distinct (map fst m)" "\<And>e. e \<in> set m \<Longrightarrow> distinct (map key (g e))"
    and "\<And>e i. e \<in> set m \<Longrightarrow> i \<in> set (g e) \<Longrightarrow> part (key i) = fst e"
  shows "distinct (map key (concat (map g m)))"
  using assms
proof (induction m)
  case (Cons e m)
  have "key i \<noteq> key j" if "i \<in> set (g e)" "e' \<in> set m" "j \<in> set (g e')" for i j e'
  proof -
    have "part (key i) = fst e" "part (key j) = fst e'" using Cons.prems(3) that by auto
    moreover have "fst e \<noteq> fst e'" using Cons.prems(1) that(2) by force
    ultimately show ?thesis by metis
  qed
  then show ?case using Cons by auto
qed simp

lemma registered_fields_distinct:
  assumes wf: "field_map_wf m"
  shows "distinct (map item_key (registered_fields m))"
  unfolding registered_fields_def
proof (rule distinct_concat_keys [where part = fst], goal_cases)
  case 1
  then show ?case using wf by (simp add: field_map_wf_def om_ok_distinct)
next
  case (2 e)
  obtain db tbs where e: "e = (db, tbs)" by (cases e)
  have tbs: "tables_wf tbs"
    using field_map_wfD [OF wf, of db tbs] 2 wf by (simp add: e field_map_wf_def om_ok_map_of)
  have "distinct (map item_key (concat (map (\<lambda>(tb, fl). table_items db tb fl) tbs)))"
  proof (rule distinct_concat_keys [where part = "fst \<circ> snd"], goal_cases)
    case 1
    then show ?case using tbs by (simp add: tables_wf_def om_ok_distinct)
  next
    case (2 e)
    obtain tb fl where e: "e = (tb, fl)" by (cases e)
    have "fields_wf fl" using tables_wfD [OF tbs, of tb fl] 2 tbs by (simp add: e tables_wf_def om_ok_map_of)
    then have "distinct (map fst (filter (\<lambda>e. fi_is_registered (snd e)) fl))"
      by (simp add: fields_wf_def om_ok_distinct distinct_map_filter)
    then have "distinct (map (\<lambda>f. (db, tb, f)) (map fst (filter (\<lambda>e. fi_is_registered (snd e)) fl)))"
      by (subst distinct_map) (simp add: inj_on_def)
    then show ?case by (simp add: e table_items_def item_key_def o_def)
  next
    case (3 e i)
    then show ?case by (auto simp: table_items_def item_key_def)
  qed
  then show ?case by (simp add: e)
next
  case (3 e i)
  then show ?case by (auto simp: table_items_def item_key_def)
qed

section \<open>The contract of a registry\<close>

text \<open>
  What a monitor loop needs of its observer: \<open>view\<close> is the registered events with what was
  registered for them, \<open>add\<close> registers an event unless it is there, \<open>drop\<close> removes one, and \<open>items\<close>
  lists the events once each.
\<close>

locale registry =
  fixes ok :: "'s \<Rightarrow> bool"
    and view :: "'s \<Rightarrow> 'k \<Rightarrow> 'i option"
    and add :: "'k \<Rightarrow> 'i \<Rightarrow> 's \<Rightarrow> 's"
    and drop :: "'k \<Rightarrow> 's \<Rightarrow> 's"
    and items :: "'s \<Rightarrow> 'e list"
    and key :: "'e \<Rightarrow> 'k"
    and info :: "'e \<Rightarrow> 'i"
  assumes add_ok: "ok s \<Longrightarrow> ok (add k i s)"
    and drop_ok: "ok s \<Longrightarrow> ok (drop k s)"
    and view_add: "ok s \<Longrightarrow> view (add k i s) = (case view s k of None \<Rightarrow> (view s)(k \<mapsto> i) | Some _ \<Rightarrow> view s)"
    and view_drop: "ok s \<Longrightarrow> view (drop k s) = (view s)(k := None)"
    and items_view: "ok s \<Longrightarrow> view s k = Some i \<longleftrightarrow> (\<exists>e \<in> set (items s). key e = k \<and> info e = i)"
    and items_distinct: "ok s \<Longrightarrow> distinct (map key (items s))"
begin

lemma add_twice: "ok s \<Longrightarrow> view (add k j (add k i s)) = view (add k i s)"
  by (simp add: view_add add_ok split: option.split)

lemma drop_add: "ok s \<Longrightarrow> view s k = None \<Longrightarrow> view (drop k (add k i s)) = view s"
  by (auto simp: view_add view_drop add_ok)

text \<open>A round whose callback answers \<open>due\<close> and keeps a log: every item is asked about once, in order.\<close>

lemma process_items_log:
  assumes "ok s"
  shows "\<exists>s'. process_items (\<lambda>e (s, log). (due e, s, log @ [e])) (\<lambda>e (s, w). (drop (key e) s, w)) es (s, log) =
      (s', log @ es) \<and> ok s' \<and> view s' = (\<lambda>k. if k \<in> key ` set (filter due es) then None else view s k)"
  using assms
proof (induction es arbitrary: s log)
  case Nil
  then show ?case by simp
next
  case (Cons e es)
  show ?case
  proof (cases "due e")
    case True
    then show ?thesis using Cons.IH [OF drop_ok [OF Cons.prems], of "key e" "log @ [e]"]
      by (auto simp: view_drop [OF Cons.prems] fun_eq_iff)
  next
    case False
    then show ?thesis using Cons.IH [OF Cons.prems, of "log @ [e]"] by auto
  qed
qed

lemma round_view:
  assumes "ok s"
  shows "\<exists>s'. process_items (\<lambda>e (s, log). (due e, s, log @ [e])) (\<lambda>e (s, w). (drop (key e) s, w)) (items s) (s, []) =
      (s', items s) \<and> ok s' \<and> (\<forall>k i. view s' k = Some i \<longleftrightarrow> (\<exists>e \<in> set (items s). key e = k \<and> info e = i \<and> \<not> due e))"
proof -
  obtain s' where s': "process_items (\<lambda>e (s, log). (due e, s, log @ [e])) (\<lambda>e (s, w). (drop (key e) s, w)) (items s) (s, []) = (s', items s)"
    "ok s'" "view s' = (\<lambda>k. if k \<in> key ` set (filter due (items s)) then None else view s k)"
    using process_items_log [OF assms, of due "items s" "[]"] by auto
  have "view s' k = Some i \<longleftrightarrow> (\<exists>e \<in> set (items s). key e = k \<and> info e = i \<and> \<not> due e)" for k i
  proof -
    have same: "e = e'" if "e \<in> set (items s)" "e' \<in> set (items s)" "key e = key e'" for e e'
      using items_distinct [OF assms] that by (simp add: distinct_map inj_on_def)
    have "view s' k = Some i \<longleftrightarrow> (\<exists>e \<in> set (items s). key e = k \<and> info e = i) \<and> \<not> (\<exists>e \<in> set (items s). due e \<and> key e = k)"
      unfolding s'(3) items_view [OF assms, symmetric] by auto
    then show ?thesis using same by blast
  qed
  then show ?thesis using s' by blast
qed

end

text \<open>The two maps of \<open>FieldState\<close>, and \<open>TableState\<close>, are registries.\<close>

definition field_view :: "field_map \<Rightarrow> string \<times> string \<times> string \<Rightarrow> (string \<times> string) option" where
  "field_view m k = map_option (\<lambda>fi. (fi_shard_id fi, fi_series_key_and_field_name fi))
     (find_field m (fst k) (fst (snd k)) (snd (snd k)))"

definition add_field :: "bool \<Rightarrow> string \<times> string \<times> string \<Rightarrow> string \<times> string \<Rightarrow> field_map \<Rightarrow> field_map" where
  "add_field ui k i m = snd (check_and_register_in ui (fst k) (fst (snd k)) i (snd (snd k)) m)"

definition drop_field :: "string \<times> string \<times> string \<Rightarrow> field_map \<Rightarrow> field_map" where
  "drop_field k m = remove_status_in (fst k) (fst (snd k)) (snd (snd k)) m"

definition item_info :: "field_item \<Rightarrow> string \<times> string" where
  "item_info i = snd (snd (snd i))"

lemma field_view_add:
  assumes "field_map_wf m"
  shows "field_view (add_field ui k i m) = (case field_view m k of
      None \<Rightarrow> (field_view m)(k \<mapsto> (fst i, if ui then [] else snd i)) | Some _ \<Rightarrow> field_view m)"
proof (cases "find_field m (fst k) (fst (snd k)) (snd (snd k))")
  case None
  then have "add_field ui k i m = put_field (fst k) (fst (snd k)) (snd (snd k))
      \<lparr>fi_shard_id = fst i, fi_series_key_and_field_name = (if ui then [] else snd i), fi_is_registered = True\<rparr> m"
    by (simp add: add_field_def check_and_register_in_def new_field_info_def)
  then show ?thesis using None by (auto simp: field_view_def fun_eq_iff find_put_field)
next
  case (Some fi)
  then show ?thesis by (simp add: field_view_def add_field_def check_and_register_in_def)
qed

lemma add_field_wf: "field_map_wf m \<Longrightarrow> field_map_wf (add_field ui k i m)"
  by (simp add: add_field_def check_and_register_in_def new_field_info_def put_field_wf split: option.split)

lemma field_view_drop: "field_view (drop_field k m) = (field_view m)(k := None)"
  by (auto simp: field_view_def drop_field_def fun_eq_iff find_remove_status)

lemma drop_field_wf: "field_map_wf m \<Longrightarrow> field_map_wf (drop_field k m)"
  by (simp add: drop_field_def remove_status_in_wf)

lemma field_items_view:
  assumes "field_map_wf m"
  shows "field_view m k = Some i \<longleftrightarrow> (\<exists>e \<in> set (registered_fields m). item_key e = k \<and> item_info e = i)"
proof -
  have "field_view m k = Some i \<longleftrightarrow> (fst k, fst (snd k), snd (snd k), fst i, snd i) \<in> set (registered_fields m)"
    unfolding registered_fields_iff [OF assms] by (cases i) (auto simp: field_view_def)
  also have "\<dots> \<longleftrightarrow> (\<exists>e \<in> set (registered_fields m). item_key e = k \<and> item_info e = i)"
    by (auto simp: item_key_def item_info_def prod_eq_iff intro!: bexI)
  finally show ?thesis .
qed

interpretation skip_reg: registry field_map_wf field_view "add_field False" drop_field registered_fields item_key item_info
proof (unfold_locales, goal_cases)
  case (3 s k i)
  then show ?case by (simp add: field_view_add split: option.split)
next
  case (5 s k i)
  then show ?case by (rule field_items_view)
qed (simp_all add: add_field_wf drop_field_wf field_view_drop registered_fields_distinct)

text \<open>The index entry map keeps the shard only.\<close>

definition index_wf :: "field_map \<Rightarrow> bool" where
  "index_wf m \<longleftrightarrow> field_map_wf m \<and> (\<forall>k i. field_view m k = Some i \<longrightarrow> snd i = [])"

definition index_view :: "field_map \<Rightarrow> string \<times> string \<times> string \<Rightarrow> string option" where
  "index_view m k = map_option fst (field_view m k)"

lemma index_wf_add: "index_wf m \<Longrightarrow> index_wf (add_field True k (i, []) m)"
  by (auto simp: index_wf_def add_field_wf field_view_add split: option.splits if_splits)

lemma index_wf_drop: "index_wf m \<Longrightarrow> index_wf (drop_field k m)"
  by (simp add: index_wf_def field_view_drop drop_field_wf)

lemma index_view_items:
  assumes "index_wf m"
  shows "index_view m k = Some i \<longleftrightarrow> (\<exists>e \<in> set (registered_fields m). item_key e = k \<and> fst (item_info e) = i)"
proof -
  have wf: "field_map_wf m" using assms by (simp add: index_wf_def)
  have "index_view m k = Some i \<longleftrightarrow> (\<exists>j. field_view m k = Some j \<and> fst j = i)"
    by (auto simp: index_view_def)
  then show ?thesis unfolding field_items_view [OF wf] by blast
qed

interpretation index_reg: registry index_wf index_view "\<lambda>k i. add_field True k (i, [])" drop_field registered_fields
    item_key "\<lambda>e. fst (item_info e)"
proof unfold_locales
  fix s k and i :: string
  assume ok: "index_wf s"
  then have wf: "field_map_wf s" by (simp add: index_wf_def)
  show "index_wf (add_field True k (i, []) s)" using ok by (rule index_wf_add)
  show "index_wf (drop_field k s)" using ok by (rule index_wf_drop)
  show "index_view (add_field True k (i, []) s) = (case index_view s k of None \<Rightarrow> (index_view s)(k \<mapsto> i) | Some _ \<Rightarrow> index_view s)"
    by (auto simp: index_view_def field_view_add [OF wf] fun_eq_iff split: option.split)
  show "index_view (drop_field k s) = (index_view s)(k := None)"
    by (simp add: index_view_def field_view_drop fun_eq_iff)
  show "index_view s k = Some i \<longleftrightarrow> (\<exists>e \<in> set (registered_fields s). item_key e = k \<and> fst (item_info e) = i)"
    using ok by (rule index_view_items)
  show "distinct (map item_key (registered_fields s))" using wf by (rule registered_fields_distinct)
qed

section \<open>The table registry\<close>

definition registered_wf :: "(string, bool) omap \<Rightarrow> bool" where
  "registered_wf tbs \<longleftrightarrow> tbs \<noteq> [] \<and> om_ok tbs \<and> om_all (\<lambda>r. r) tbs"

definition table_map_wf :: "table_map \<Rightarrow> bool" where
  "table_map_wf m \<longleftrightarrow> om_ok m \<and> om_all registered_wf m"

definition table_view :: "table_map \<Rightarrow> string \<times> string \<Rightarrow> unit option" where
  "table_view m k = (case map_of m (fst k) of None \<Rightarrow> None
     | Some tbs \<Rightarrow> map_option (\<lambda>_. ()) (map_of tbs (snd k)))"

lemma table_map_wfD:
  assumes "table_map_wf m" "map_of m db = Some tbs"
  shows "registered_wf tbs" "om_ok tbs" "om_all (\<lambda>r. r) tbs"
proof -
  show "registered_wf tbs" using assms by (auto simp: table_map_wf_def elim: om_all_at)
  then show "om_ok tbs" "om_all (\<lambda>r. r) tbs" by (simp_all add: registered_wf_def)
qed

lemma table_map_wf_put: "table_map_wf m \<Longrightarrow> registered_wf tbs \<Longrightarrow> table_map_wf (om_put db tbs m)"
  by (simp add: table_map_wf_def om_put_ok om_all_put)

lemma ts_add_wf:
  assumes "table_map_wf m"
  shows "table_map_wf (snd (ts_check_and_register db tb m))"
proof -
  have tbs: "om_ok (om_at [] db m) \<and> om_all (\<lambda>r. r) (om_at [] db m)"
    using table_map_wfD [OF assms] by (auto simp: om_at_def split: option.split)
  then have "registered_wf (om_put tb True (om_at [] db m))"
    by (simp add: registered_wf_def om_put_ok om_all_put)
  then have wf: "table_map_wf (om_put db (om_put tb True (om_at [] db m)) m)"
    by (rule table_map_wf_put [OF assms])
  show ?thesis
  proof (cases "case map_of m db of None \<Rightarrow> None | Some tbs \<Rightarrow> map_of tbs tb")
    case None
    then have "om_at False tb (om_at [] db m) = False" by (auto simp: om_at_def split: option.splits)
    then show ?thesis using wf None by (simp add: ts_check_and_register_def)
  qed (use assms in \<open>simp add: ts_check_and_register_def\<close>)
qed

lemma ts_view_add:
  "table_view (snd (ts_check_and_register db tb m)) =
    (case table_view m (db, tb) of None \<Rightarrow> (table_view m)((db, tb) \<mapsto> ()) | Some _ \<Rightarrow> table_view m)"
proof (cases "case map_of m db of None \<Rightarrow> None | Some tbs \<Rightarrow> map_of tbs tb")
  case None
  then have "om_at False tb (om_at [] db m) = False" by (auto simp: om_at_def split: option.splits)
  then have "snd (ts_check_and_register db tb m) = om_put db (om_put tb True (om_at [] db m)) m"
    using None by (simp add: ts_check_and_register_def)
  moreover have "table_view m (db, tb) = None" using None by (auto simp: table_view_def split: option.splits)
  ultimately show ?thesis by (auto simp: table_view_def fun_eq_iff om_at_def split: option.split)
next
  case (Some r)
  then have "table_view m (db, tb) = Some ()" by (auto simp: table_view_def split: option.splits)
  then show ?thesis using Some by (simp add: ts_check_and_register_def)
qed

lemma ts_drop_wf:
  assumes "table_map_wf m"
  shows "table_map_wf (ts_remove_status db tb m)"
proof (cases "map_of m db")
  case None
  then show ?thesis using assms by (simp add: ts_remove_status_def)
next
  case (Some tbs)
  note t = table_map_wfD [OF assms Some]
  show ?thesis
  proof (cases "om_del tb tbs = []")
    case True
    then show ?thesis using assms Some by (simp add: ts_remove_status_def table_map_wf_def om_del_ok om_all_del)
  next
    case False
    then have "registered_wf (om_del tb tbs)" using t by (simp add: registered_wf_def om_del_ok om_all_del)
    from table_map_wf_put [OF assms this] show ?thesis using Some False by (simp add: ts_remove_status_def)
  qed
qed

lemma ts_view_drop: "table_view (ts_remove_status db tb m) = (table_view m)((db, tb) := None)"
proof (cases "map_of m db")
  case None
  then show ?thesis by (auto simp: ts_remove_status_def table_view_def fun_eq_iff)
next
  case (Some tbs)
  show ?thesis
  proof (cases "om_del tb tbs = []")
    case True
    have none: "map_of tbs t = None" if "t \<noteq> tb" for t
      using arg_cong [OF True, of map_of] that by (metis fun_upd_other map_of_om_del map_of.simps(1))
    show ?thesis using True Some none by (auto simp: ts_remove_status_def table_view_def fun_eq_iff)
  next
    case False
    then show ?thesis using Some by (auto simp: ts_remove_status_def table_view_def fun_eq_iff)
  qed
qed

lemma registered_tables_iff:
  assumes "table_map_wf m"
  shows "(db, tb) \<in> set (registered_tables m) \<longleftrightarrow> table_view m (db, tb) = Some ()"
proof
  assume "(db, tb) \<in> set (registered_tables m)"
  then obtain tbs where 1: "(db, tbs) \<in> set m" "(tb, True) \<in> set tbs" by (auto simp: registered_tables_def)
  have m: "map_of m db = Some tbs" using assms 1(1) by (simp add: table_map_wf_def om_ok_map_of)
  have "map_of tbs tb = Some True" using table_map_wfD [OF assms m] 1(2) by (simp add: om_ok_map_of)
  with m show "table_view m (db, tb) = Some ()" by (simp add: table_view_def)
next
  assume "table_view m (db, tb) = Some ()"
  then obtain tbs r where 1: "map_of m db = Some tbs" "map_of tbs tb = Some r"
    by (auto simp: table_view_def split: option.splits)
  have r by (rule om_all_at [OF table_map_wfD(3) [OF assms 1(1)] 1(2)])
  then show "(db, tb) \<in> set (registered_tables m)"
    using map_of_SomeD [OF 1(1)] map_of_SomeD [OF 1(2)] by (force simp: registered_tables_def)
qed

lemma registered_tables_distinct:
  assumes wf: "table_map_wf m"
  shows "distinct (map id (registered_tables m))"
  unfolding registered_tables_def
proof (rule distinct_concat_keys [where part = fst], goal_cases)
  case 1
  then show ?case using wf by (simp add: table_map_wf_def om_ok_distinct)
next
  case (2 e)
  obtain db tbs where e: "e = (db, tbs)" by (cases e)
  have "om_ok tbs" using table_map_wfD [OF wf, of db tbs] 2 wf by (simp add: e table_map_wf_def om_ok_map_of)
  then have "distinct (map fst (filter snd tbs))" by (simp add: om_ok_distinct distinct_map_filter)
  then have "distinct (map (\<lambda>tb. (db, tb)) (map fst (filter snd tbs)))"
    by (subst distinct_map) (simp add: inj_on_def)
  then show ?case by (simp add: e o_def case_prod_unfold)
next
  case (3 e i)
  then show ?case by auto
qed

interpretation table_reg: registry table_map_wf table_view "\<lambda>k _ m. snd (ts_check_and_register (fst k) (snd k) m)"
    "\<lambda>k. ts_remove_status (fst k) (snd k)" registered_tables id "\<lambda>_. ()"
proof (unfold_locales, goal_cases)
  case (5 s k i)
  then show ?case using registered_tables_iff [of s "fst k" "snd k"] by (cases k) auto
next
  case (6 s)
  then show ?case by (rule registered_tables_distinct)
qed (simp_all add: ts_add_wf ts_drop_wf ts_view_add ts_view_drop split: option.split)

section \<open>Properties of the observers\<close>

text \<open>
  A round of the window monitor asks its callback once about every registered field, in the order
  of databases, tables and fields, and afterwards exactly the events stay registered for which the
  callback said they were not due (for a callback that leaves the observer alone).
\<close>

theorem monitor_round_exact:
  assumes "field_map_wf (fs_skip_list_state_map s)"
  shows "\<exists>s'. fs_iterate_map (Some (\<lambda>i (s, log). (due i, s, log @ [i]))) False (s, []) =
      (s', registered_fields (fs_skip_list_state_map s)) \<and>
    fs_index_entry_state_map s' = fs_index_entry_state_map s \<and>
    (\<forall>i. i \<in> set (registered_fields (fs_skip_list_state_map s')) \<longleftrightarrow>
       i \<in> set (registered_fields (fs_skip_list_state_map s)) \<and> \<not> due i)"
proof -
  let ?m = "fs_skip_list_state_map s"
  have lift: "process_items (\<lambda>i (s, log). (due i, s, log @ [i]))
        (\<lambda>(db, tb, f, _) (s, w). (fs_remove_status db tb f False s, w)) es (s, log) =
      (let (m', log') = process_items (\<lambda>e (s, log). (due e, s, log @ [e])) (\<lambda>e (s, w). (drop_field (item_key e) s, w)) es
         (fs_skip_list_state_map s, log) in (s\<lparr>fs_skip_list_state_map := m'\<rparr>, log'))" for es log s
    by (induction es arbitrary: s log)
       (auto simp: fs_remove_status_def state_map_def set_state_map_def drop_field_def item_key_def Let_def split: prod.splits)
  obtain m' where m': "process_items (\<lambda>e (s, log). (due e, s, log @ [e])) (\<lambda>e (s, w). (drop_field (item_key e) s, w))
      (registered_fields ?m) (?m, []) = (m', registered_fields ?m)" "field_map_wf m'"
    "\<forall>k i. field_view m' k = Some i \<longleftrightarrow> (\<exists>e \<in> set (registered_fields ?m). item_key e = k \<and> item_info e = i \<and> \<not> due e)"
    using skip_reg.round_view [OF assms, of due] by auto
  have "i \<in> set (registered_fields m') \<longleftrightarrow> i \<in> set (registered_fields ?m) \<and> \<not> due i" for i
  proof -
    have eq: "e = i" if "item_key e = item_key i" "item_info e = item_info i" for e
      using that by (simp add: item_key_def item_info_def prod_eq_iff)
    have "i \<in> set (registered_fields m') \<longleftrightarrow> field_view m' (item_key i) = Some (item_info i)"
      using field_items_view [OF m'(2)] eq by blast
    then show ?thesis using m'(3) eq by blast
  qed
  then show ?thesis unfolding fs_iterate_map_def by (simp add: lift state_map_def m'(1))
qed

definition demo_field_state :: field_state where
  "demo_field_state = fs_update ''d'' ''t'' (''s1'', ''k1'') ''g'' True False
     (fs_update ''d'' ''t'' (''s1'', ''k1'') ''f'' True False
       \<lparr>fs_skip_list_state_map = [], fs_index_entry_state_map = []\<rparr>)"

lemma demo_field_state_wf: "field_map_wf (fs_skip_list_state_map demo_field_state)"
proof -
  have "fs_skip_list_state_map demo_field_state = add_field False (''d'', ''t'', ''g'') (''s1'', ''k1'')
      (add_field False (''d'', ''t'', ''f'') (''s1'', ''k1'') [])"
    by (simp add: demo_field_state_def fs_update_def fs_check_and_register_def state_map_def set_state_map_def
        add_field_def split: prod.split)
  moreover have "field_map_wf []" by (simp add: field_map_wf_def)
  ultimately show ?thesis by (simp add: add_field_wf)
qed

theorem monitor_round_exact_witness:
  "\<exists>s'. fs_iterate_map (Some (\<lambda>i (s, log). (fst (snd (snd i)) = ''f'', s, log @ [i]))) False (demo_field_state, []) =
      (s', registered_fields (fs_skip_list_state_map demo_field_state)) \<and>
    (''d'', ''t'', ''f'', ''s1'', ''k1'') \<notin> set (registered_fields (fs_skip_list_state_map s'))"
  using monitor_round_exact [OF demo_field_state_wf, of "\<lambda>i. fst (snd (snd i)) = ''f''"] by auto

text \<open>
  The window monitor knows one window per field: while a window of a field is registered,
  registering the window of another series or shard of the same field changes nothing, so the second
  window is not monitored; and removing the event of either of them removes the only one.
\<close>

theorem second_window_not_monitored:
  assumes "field_map_wf (fs_skip_list_state_map s)"
    "(db, tb, f, sh, se) \<in> set (registered_fields (fs_skip_list_state_map s))"
  shows "fs_update db tb (sh', se') f True False s = s \<and>
    (\<forall>x y. (db, tb, f, x, y) \<notin> set (registered_fields (fs_skip_list_state_map (fs_update db tb (sh', se') f False False s))))"
proof -
  obtain fi where fi: "find_field (fs_skip_list_state_map s) db tb f = Some fi"
    using assms by (auto simp: registered_fields_iff)
  have "fs_update db tb (sh', se') f True False s = s"
    by (simp add: fs_update_def fs_check_and_register_def check_and_register_in_def state_map_def set_state_map_def fi)
  moreover have "(db, tb, f, x, y) \<notin> set (registered_fields (remove_status_in db tb f (fs_skip_list_state_map s)))" for x y
    unfolding registered_fields_iff [OF remove_status_in_wf [OF assms(1)]] by (simp add: find_remove_status)
  ultimately show ?thesis by (simp add: fs_update_def fs_remove_status_def state_map_def set_state_map_def)
qed

theorem second_window_not_monitored_witness:
  "(''d'', ''t'', ''f'', ''s1'', ''k1'') \<in> set (registered_fields (fs_skip_list_state_map demo_field_state)) \<and>
   fs_update ''d'' ''t'' (''s2'', ''k2'') ''f'' True False demo_field_state = demo_field_state"
proof -
  have "(''d'', ''t'', ''f'', ''s1'', ''k1'') \<in> set (registered_fields (fs_skip_list_state_map demo_field_state))"
    unfolding registered_fields_iff [OF demo_field_state_wf]
    by (simp add: demo_field_state_def fs_update_def fs_check_and_register_def state_map_def set_state_map_def
        check_and_register_in_def new_field_info_def find_put_field find_field_def put_field_def om_at_def
        split: prod.split option.split)
  then show ?thesis using second_window_not_monitored [OF demo_field_state_wf] by blast
qed

text \<open>
  Queued blocks of a table: a round of the table monitor asks its callback once about each
  registered table, and afterwards exactly the tables stay registered that were not due.
\<close>

theorem table_round_exact:
  assumes "table_map_wf m"
  shows "\<exists>m'. ts_iterate_map (\<lambda>k (m, log). (due k, m, log @ [k])) (m, []) = (m', registered_tables m) \<and>
    (\<forall>k. k \<in> set (registered_tables m') \<longleftrightarrow> k \<in> set (registered_tables m) \<and> \<not> due k)"
proof -
  have drop: "(\<lambda>(db, tb) (m, w). (ts_remove_status db tb m, w)) = (\<lambda>e (m, w). (ts_remove_status (fst (id e)) (snd (id e)) m, w))"
    by (simp add: fun_eq_iff)
  obtain m' where m': "ts_iterate_map (\<lambda>k (m, log). (due k, m, log @ [k])) (m, []) = (m', registered_tables m)"
    "table_map_wf m'" "\<forall>k i. table_view m' k = Some i \<longleftrightarrow> (\<exists>e \<in> set (registered_tables m). id e = k \<and> () = i \<and> \<not> due e)"
    using table_reg.round_view [OF assms, of due] unfolding ts_iterate_map_def fst_conv drop by blast
  have "k \<in> set (registered_tables m') \<longleftrightarrow> table_view m' k = Some ()" for k
    using registered_tables_iff [OF m'(2), of "fst k" "snd k"] by simp
  then show ?thesis using m'(1,3) by auto
qed

theorem table_round_exact_witness:
  "\<exists>m'. ts_iterate_map (\<lambda>k (m, log). (True, m, log @ [k])) ([(''d'', [(''t'', True)])], []) = (m', [(''d'', ''t'')]) \<and>
    registered_tables m' = []"
proof -
  have "table_map_wf [(''d'', [(''t'', True)])]" by (simp add: table_map_wf_def registered_wf_def om_all_def)
  from table_round_exact [OF this, of "\<lambda>_. True"] obtain m' where
    "ts_iterate_map (\<lambda>k (m, log). (True, m, log @ [k])) ([(''d'', [(''t'', True)])], []) =
      (m', registered_tables [(''d'', [(''t'', True)])])" "set (registered_tables m') = {}" by auto
  then show ?thesis by (intro exI [of _ m']) (simp add: registered_tables_def [of "[(''d'', [(''t'', True)])]"])
qed

text \<open>
  Shard meta data is written after ten changes or ten seconds: after \<open>n\<close> changes of an idle observer
  the callback runs at time \<open>t\<close> exactly if \<open>n\<close> is at least ten or the first change is ten seconds old.
\<close>

theorem shard_state_flushes:
  assumes "\<not> ss_is_registered s" "ss_change_total_count s = 0" "nows \<noteq> []"
  shows "ss_iterate_map t (\<lambda>n. (True, Suc n)) (fold (\<lambda>now. shard_update now True) nows s, k) =
    (if 10 \<le> length nows \<or> passed_seconds 10 (hd nows) t
     then (\<lparr>ss_last_time = hd nows, ss_is_registered = False, ss_change_total_count = 0\<rparr>, Suc k)
     else (\<lparr>ss_last_time = hd nows, ss_is_registered = True, ss_change_total_count = length nows\<rparr>, k))"
proof -
  obtain now rest where n: "nows = now # rest" using assms(3) by (cases nows) auto
  have "fold (\<lambda>now. shard_update now True) ts \<lparr>ss_last_time = x, ss_is_registered = True, ss_change_total_count = c\<rparr> =
      \<lparr>ss_last_time = x, ss_is_registered = True, ss_change_total_count = c + length ts\<rparr>" for ts x c
    by (induction ts arbitrary: c) (simp_all add: shard_update_def ss_check_and_register_def)
  moreover have "shard_update now True s = \<lparr>ss_last_time = now, ss_is_registered = True, ss_change_total_count = 1\<rparr>"
    using assms(1,2) by (simp add: shard_update_def ss_check_and_register_def)
  ultimately show ?thesis by (auto simp: n ss_iterate_map_def)
qed

theorem shard_state_flushes_witness:
  "ss_iterate_map 7 (\<lambda>n. (True, Suc n)) (fold (\<lambda>now. shard_update now True) [5, 6] \<lparr>ss_last_time = 0, ss_is_registered = False,
     ss_change_total_count = 0\<rparr>, 0) = (\<lparr>ss_last_time = 5, ss_is_registered = True, ss_change_total_count = 2\<rparr>, 0)"
  using shard_state_flushes [of "\<lparr>ss_last_time = 0, ss_is_registered = False, ss_change_total_count = 0\<rparr>" "[5, 6]" 7 0]
  by (simp add: passed_seconds_def)

end
