(* ===== verification/Field.thy ===== *)
theory Field
  imports Tsm_File Skip_List Observers
begin

text \<open>
  A field of a table (\<open>src/engine/tsm/field.h\<close> and \<open>field.cpp\<close>): per shard and series a window (a
  skip list) that collects points out of order, turned into a data block when it has a hundred
  points or is three seconds old. The window carries the public members of \<open>SkipList\<close>.

  A field changes the world outside it through its observers and through the callback that hands a
  finished block to the writer; \<open>field_world\<close> is that world: the two observers and the writer's
  queue of blocks. The clock readings of a call are arguments, the numbers of \<open>rand()\<close> a parameter, and
  so is \<open>junk\<close>, the value of the type that the constructor of \<open>DataBlock\<close> leaves uninitialised.
\<close>

section \<open>State\<close>

record window =
  win_list :: "string skip_list"
  win_need_reset :: bool
  win_last_time :: time_point
  win_current_data :: "data_block option"

datatype observer = Queue_observer | Field_observer

text \<open>A key of the map of windows may hold a null pointer, which \<open>operator[]\<close> puts there.\<close>

record field =
  f_type :: data_type
  f_field_name :: string
  f_index_block_meta_key :: string
  f_status :: bool
  f_create_meta :: bool
  f_index_deque :: "index_entry list"
  f_observers :: "observer list"
  f_sl_observers :: "observer list"
  f_shard_skip_map :: "string \<Rightarrow> window option option"

record field_world =
  fw_field_state :: field_state
  fw_table_state :: table_map
  fw_data_deque :: "data_block list"

definition mk_field :: "data_type \<Rightarrow> string \<Rightarrow> field" where
  "mk_field ty field_name =
     \<lparr>f_type = ty, f_field_name = field_name, f_index_block_meta_key = [], f_status = False,
      f_create_meta = False, f_index_deque = [], f_observers = [], f_sl_observers = [],
      f_shard_skip_map = Map.empty\<rparr>"

definition new_window :: window where
  "new_window = \<lparr>win_list = new_skip_list [], win_need_reset = True, win_last_time = 0, win_current_data = None\<rparr>"

definition new_data_block :: "data_type \<Rightarrow> data_block" where
  "new_data_block junk =
     \<lparr>db_size = 0, db_field_name = [], db_series_key_and_field_name = [], db_max_timestamp = 0,
      db_min_timestamp = 0, db_shard_id = [], db_type = junk, db_num = 0, db_tp_snappy_size = 0,
      db_val_snappy_size = 0, db_timestamps = [], db_values = []\<rparr>"

section \<open>Observers\<close>

definition f_attach :: "observer \<Rightarrow> field \<Rightarrow> field" where
  "f_attach ob f = f\<lparr>f_observers := f_observers f @ [ob]\<rparr>"

definition f_detach :: "observer \<Rightarrow> field \<Rightarrow> field" where
  "f_detach ob f = f\<lparr>f_observers := removeAll ob (f_observers f)\<rparr>"

definition sl_attach :: "observer \<Rightarrow> field \<Rightarrow> field" where
  "sl_attach ob f = f\<lparr>f_sl_observers := f_sl_observers f @ [ob]\<rparr>"

fun observer_update ::
    "observer \<Rightarrow> string \<Rightarrow> string \<Rightarrow> string \<times> string \<Rightarrow> string \<Rightarrow> bool \<Rightarrow> bool \<Rightarrow> 'z field_world_scheme \<Rightarrow> 'z field_world_scheme" where
  "observer_update Queue_observer db tb info fn reg idx w =
     w\<lparr>fw_table_state := ts_update db tb reg idx (fw_table_state w)\<rparr>"
| "observer_update Field_observer db tb info fn reg idx w =
     w\<lparr>fw_field_state := fs_update db tb info fn reg idx (fw_field_state w)\<rparr>"

definition notify_all ::
    "observer list \<Rightarrow> string \<Rightarrow> string \<Rightarrow> string \<times> string \<Rightarrow> string \<Rightarrow> bool \<Rightarrow> bool \<Rightarrow> 'z field_world_scheme \<Rightarrow> 'z field_world_scheme" where
  "notify_all obs db tb info fn reg idx w = fold (\<lambda>ob. observer_update ob db tb info fn reg idx) obs w"

section \<open>Writing a point\<close>

definition should_flush_data :: "time_point \<Rightarrow> time_point \<Rightarrow> nat \<Rightarrow> bool" where
  "should_flush_data now last_time count \<longleftrightarrow> 100 \<le> count \<or> (passed_seconds 3 last_time now \<and> 0 < count)"

definition combination_key :: "string \<Rightarrow> string \<Rightarrow> string" where
  "combination_key shard_id series_key_and_field_name =
     (if series_key_and_field_name \<noteq> [] then shard_id @ series_key_and_field_name else shard_id)"

text \<open>The loop over the window that fills the block.\<close>

fun fill_block :: "(time_point \<times> string) list \<Rightarrow> data_block \<Rightarrow> data_block" where
  "fill_block [] b = b"
| "fill_block (kv # kvs) b = fill_block kvs (snd (data_block_write (fst kv) (snd kv) b))"

definition block_data_size :: "data_type \<Rightarrow> (time_point \<times> string) list \<Rightarrow> nat \<Rightarrow> 32 word" where
  "block_data_size ty kvs n =
     (if ty = DATA_STRING then fold (\<lambda>kv data_size. data_size + of_nat (8 + length (snd kv))) kvs 0
      else of_nat (12 * n))"

definition sl_returned :: "'a option \<Rightarrow> 'a result" where
  "sl_returned r = (case r of None \<Rightarrow> Inl No_return | Some x \<Rightarrow> Inr x)"

definition flush_window ::
    "data_type \<Rightarrow> string \<Rightarrow> string \<Rightarrow> string \<Rightarrow> string \<Rightarrow> field \<Rightarrow> window \<Rightarrow> 'z field_world_scheme \<Rightarrow> (window \<times> 'z field_world_scheme) result" where
  "flush_window junk db_name tb_name shard_id series_key_and_field_name f win w =
     (let sl = win_list win;
          b0 = (case win_current_data win of Some b \<Rightarrow> b | None \<Rightarrow> new_data_block junk) in
      res_bind (returned (sl_entries sl)) (\<lambda>kvs.
      res_bind (sl_returned (sl_max_key sl)) (\<lambda>max_key.
      res_bind (sl_returned (sl_cle sl)) (\<lambda>sl'.
        (let b = (fill_block kvs b0)\<lparr>db_max_timestamp := max_key, db_min_timestamp := sl_min_key sl,
                   db_field_name := f_field_name f, db_size := block_data_size (f_type f) kvs (sl_size sl),
                   db_num := of_nat (sl_size sl), db_shard_id := shard_id,
                   db_series_key_and_field_name := series_key_and_field_name\<rparr>;
             w1 = w\<lparr>fw_data_deque := fw_data_deque w @ [b]\<rparr>;
             w2 = notify_all (f_observers f) db_name tb_name (shard_id, []) (f_field_name f) True False w1;
             w3 = notify_all (f_sl_observers f) db_name tb_name (shard_id, series_key_and_field_name) (f_field_name f) False False w2
         in Inr (win\<lparr>win_current_data := Some (new_data_block junk), win_list := sl', win_need_reset := True\<rparr>, w3))))))"

text \<open>
  \<open>now\<close> is the clock when the window is reset, \<open>now'\<close> the clock when its age is tested. \<open>data\<close> is a
  reference, which \<open>put\<close> may overwrite: the first component of the result.
\<close>

definition field_write ::
    "(nat \<Rightarrow> nat) \<Rightarrow> data_type \<Rightarrow> time_point \<Rightarrow> time_point \<Rightarrow> string \<Rightarrow> time_point \<Rightarrow> string \<Rightarrow> string \<Rightarrow> string \<Rightarrow> string
      \<Rightarrow> field \<Rightarrow> 'z field_world_scheme \<Rightarrow> (string \<times> field \<times> 'z field_world_scheme) result" where
  "field_write rand junk now now' shard_id timestamp data db_name tb_name series_key_and_field_name f w =
     (let key = combination_key shard_id series_key_and_field_name;
          f = (if f_shard_skip_map f key = None
               then f\<lparr>f_shard_skip_map := (f_shard_skip_map f)(key \<mapsto> Some new_window)\<rparr> else f) in
      case f_shard_skip_map f key of
        Some (Some win) \<Rightarrow>
          (let (win, w) =
             (if win_need_reset win
              then (win\<lparr>win_last_time := now\<rparr>,
                    notify_all (f_sl_observers f) db_name tb_name (shard_id, series_key_and_field_name) (f_field_name f) True False w)
              else (win, w)) in
           res_bind
             (if data \<noteq> []
              then res_bind (sl_returned (sl_put rand timestamp data (win_list win))) (\<lambda>(data', sl).
                     Inr (data', win\<lparr>win_list := sl, win_need_reset := False\<rparr>))
              else Inr (data, win)) (\<lambda>(data', win).
           if should_flush_data now' (win_last_time win) (sl_size (win_list win))
           then res_bind (flush_window junk db_name tb_name shard_id series_key_and_field_name f win w) (\<lambda>(win, w).
                  Inr (data', f\<lparr>f_shard_skip_map := (f_shard_skip_map f)(key \<mapsto> Some win)\<rparr>, w))
           else Inr (data', f\<lparr>f_shard_skip_map := (f_shard_skip_map f)(key \<mapsto> Some win)\<rparr>, w)))
      | _ \<Rightarrow> Inr (data, f, w))"

section \<open>Index entries and conditions\<close>

definition f_push_index_to_deque :: "index_entry \<Rightarrow> field \<Rightarrow> field" where
  "f_push_index_to_deque e f = f\<lparr>f_index_deque := f_index_deque f @ [e]\<rparr>"

text \<open>On an empty queue the function flows off its end.\<close>

definition f_pop_index_from_deque :: "field \<Rightarrow> (index_entry \<times> field) result" where
  "f_pop_index_from_deque f =
     (case f_index_deque f of [] \<Rightarrow> Inl No_return | e # es \<Rightarrow> Inr (e, f\<lparr>f_index_deque := es\<rparr>))"

definition get_index_status :: "field \<Rightarrow> bool" where
  "get_index_status f \<longleftrightarrow> f_index_deque f = []"

definition get_index_deque_size :: "field \<Rightarrow> nat" where
  "get_index_deque_size f = length (f_index_deque f)"

definition get_mate_status :: "field \<Rightarrow> bool" where
  "get_mate_status f = f_create_meta f"

definition set_mate_status :: "bool \<Rightarrow> field \<Rightarrow> field" where
  "set_mate_status s f = f\<lparr>f_create_meta := s\<rparr>"

text \<open>The look-up makes a null entry for a key that is not there.\<close>

definition f_skip_need_flush_data_block :: "time_point \<Rightarrow> string \<Rightarrow> field \<Rightarrow> bool \<times> field" where
  "f_skip_need_flush_data_block now shard_id f =
     (case f_shard_skip_map f shard_id of
        Some (Some win) \<Rightarrow> (should_flush_data now (win_last_time win) (sl_size (win_list win)), f)
      | Some None \<Rightarrow> (False, f)
      | None \<Rightarrow> (False, f\<lparr>f_shard_skip_map := (f_shard_skip_map f)(shard_id \<mapsto> None)\<rparr>))"

section \<open>Well-formed fields\<close>

text \<open>Every window is a valid skip list, and its current block is still empty.\<close>

definition window_wf :: "data_type \<Rightarrow> window \<Rightarrow> bool" where
  "window_wf junk win \<longleftrightarrow> sl_valid (win_list win) \<and>
     (case win_current_data win of None \<Rightarrow> True | Some b \<Rightarrow> db_timestamps b = [] \<and> db_values b = [] \<and> db_type b = junk)"

definition field_wf :: "data_type \<Rightarrow> field \<Rightarrow> bool" where
  "field_wf junk f \<longleftrightarrow> (\<forall>key win. f_shard_skip_map f key = Some (Some win) \<longrightarrow> window_wf junk win)"

text \<open>The points that wait in a window, in time order.\<close>

definition win_points :: "field \<Rightarrow> string \<Rightarrow> (time_point \<times> string) list" where
  "win_points f key = (case f_shard_skip_map f key of Some (Some win) \<Rightarrow> sl_list (win_list win) | _ \<Rightarrow> [])"

text \<open>The block that is made of the points of a window.\<close>

definition block_of_points :: "data_type \<Rightarrow> string \<Rightarrow> string \<Rightarrow> string \<Rightarrow> (time_point \<times> string) list \<Rightarrow> data_block \<Rightarrow> bool" where
  "block_of_points junk field_name shard_id series kvs b \<longleftrightarrow>
     db_timestamps b = map fst (filter (\<lambda>e. fst e \<noteq> 0) kvs) \<and>
     db_values b = map snd (filter (\<lambda>e. fst e \<noteq> 0) kvs) \<and>
     db_min_timestamp b = fst (hd kvs) \<and> db_max_timestamp b = fst (last kvs) \<and>
     db_num b = of_nat (length kvs) \<and> db_field_name b = field_name \<and> db_shard_id b = shard_id \<and>
     db_series_key_and_field_name b = series \<and> db_type b = junk"

lemma new_window_wf [simp]: "window_wf junk new_window" "sl_list (win_list new_window) = []"
  by (simp_all add: window_wf_def new_window_def new_skip_list_valid)

lemma observer_update_frame [simp]:
  "fw_data_deque (observer_update ob db tb info fn reg idx w) = fw_data_deque w"
  by (cases ob) simp_all

lemma notify_all_frame [simp]:
  "fw_data_deque (notify_all obs db tb info fn reg idx w) = fw_data_deque w"
  unfolding notify_all_def by (induction obs arbitrary: w) simp_all

lemma fill_block_points:
  "db_timestamps (fill_block kvs b) = db_timestamps b @ map fst (filter (\<lambda>e. fst e \<noteq> 0) kvs) \<and>
   db_values (fill_block kvs b) = db_values b @ map snd (filter (\<lambda>e. fst e \<noteq> 0) kvs) \<and>
   db_type (fill_block kvs b) = db_type b"
  by (induction kvs arbitrary: b) (auto simp: data_block_write_def)

lemma sl_list_bounds:
  assumes "sl_valid sl" "sl_list sl \<noteq> []"
  shows "sl_min_key sl = fst (hd (sl_list sl))" "sl_max_key sl = Some (fst (last (sl_list sl)))"
proof -
  obtain as where ok: "sl_ok sl as" using assms(1) by (auto simp: sl_valid_def)
  have "as \<noteq> []" using assms(2) by (auto simp: sl_list_ok [OF ok] sl_kv_def)
  from sl_bounds_ok [OF ok this] show "sl_min_key sl = fst (hd (sl_list sl))"
    "sl_max_key sl = Some (fst (last (sl_list sl)))" by simp_all
qed

lemma sl_entries_valid: "sl_valid sl \<Longrightarrow> sl_entries sl = Some (Inr (sl_list sl))"
  by (elim sl_validE) (simp add: sl_entries_ok sl_list_ok)

lemma flush_window_block:
  assumes "window_wf junk win" "sl_list (win_list win) \<noteq> []"
  shows "\<exists>win' w' b. flush_window junk db tb shard series f win w = Inr (win', w') \<and> window_wf junk win' \<and>
    sl_list (win_list win') = [] \<and> win_need_reset win' \<and> fw_data_deque w' = fw_data_deque w @ [b] \<and>
    block_of_points junk (f_field_name f) shard series (sl_list (win_list win)) b"
proof -
  have v: "sl_valid (win_list win)" using assms(1) by (simp add: window_wf_def)
  obtain sl' where cle: "sl_cle (win_list win) = Some sl'" "sl_valid sl'" "sl_list sl' = []"
    using sl_cle_valid [OF v] by blast
  have cur: "db_timestamps (case win_current_data win of Some b \<Rightarrow> b | None \<Rightarrow> new_data_block junk) = []"
    "db_values (case win_current_data win of Some b \<Rightarrow> b | None \<Rightarrow> new_data_block junk) = []"
    "db_type (case win_current_data win of Some b \<Rightarrow> b | None \<Rightarrow> new_data_block junk) = junk"
    using assms(1) by (auto simp: window_wf_def new_data_block_def split: option.splits)
  show ?thesis
    unfolding flush_window_def Let_def sl_entries_valid [OF v] sl_list_bounds [OF v assms(2)] cle(1)
    using cle(2,3) cur fill_block_points [of "sl_list (win_list win)" "case win_current_data win of Some b \<Rightarrow> b | None \<Rightarrow> new_data_block junk"]
    by (auto simp: returned_def sl_returned_def window_wf_def new_data_block_def block_of_points_def sl_size_ok [OF v])
qed

text \<open>
  What a call of \<open>write\<close> does to a window: the point joins the waiting ones, and then either they
  keep waiting or all of them leave as one block for the writer, which must happen at a hundred.
\<close>

definition waiting_after :: "time_point \<Rightarrow> string \<Rightarrow> (time_point \<times> string) list \<Rightarrow> (time_point \<times> string) list" where
  "waiting_after timestamp data kvs = (if data = [] then kvs else kv_put timestamp data kvs)"

definition window_step ::
    "data_type \<Rightarrow> string \<Rightarrow> string \<Rightarrow> string \<Rightarrow> (time_point \<times> string) list \<Rightarrow> (time_point \<times> string) list \<Rightarrow> data_block list \<Rightarrow> data_block list \<Rightarrow> bool" where
  "window_step junk field_name shard_id series kvs kvs' queue queue' \<longleftrightarrow>
     (kvs' = kvs \<and> queue' = queue \<and> length kvs < 100) \<or>
     (kvs \<noteq> [] \<and> kvs' = [] \<and> (\<exists>b. queue' = queue @ [b] \<and> block_of_points junk field_name shard_id series kvs b))"

definition put_window :: "string \<Rightarrow> window \<Rightarrow> field \<Rightarrow> field" where
  "put_window key win f = f\<lparr>f_shard_skip_map := (f_shard_skip_map f)(key \<mapsto> Some win)\<rparr>"

lemma put_window_facts:
  "window_wf junk win \<Longrightarrow> field_wf junk f \<Longrightarrow> field_wf junk (put_window key win f)"
  "win_points (put_window key win f) k = (if k = key then sl_list (win_list win) else win_points f k)"
  "f_field_name (put_window key win f) = f_field_name f" "f_type (put_window key win f) = f_type f"
  "f_shard_skip_map (put_window key win f) key = Some (Some win)"
  by (auto simp: put_window_def field_wf_def win_points_def)

lemma put_into_window:
  assumes "window_wf junk win"
  shows "\<exists>d' win'. (if data \<noteq> []
              then res_bind (sl_returned (sl_put rand ts data (win_list win))) (\<lambda>(data', sl).
                     Inr (data', win\<lparr>win_list := sl, win_need_reset := False\<rparr>))
              else Inr (data, win)) = Inr (d', win') \<and> window_wf junk win' \<and>
    sl_list (win_list win') = waiting_after ts data (sl_list (win_list win))"
proof (cases "data = []")
  case True
  then show ?thesis using assms by (simp add: waiting_after_def)
next
  case False
  have v: "sl_valid (win_list win)" using assms by (simp add: window_wf_def)
  show ?thesis using sl_put_valid [OF v, of rand ts data] False assms
    by (auto simp: sl_returned_def waiting_after_def window_wf_def)
qed

lemma should_flush_length: "\<not> should_flush_data now t0 n \<Longrightarrow> n < 100"
  by (simp add: should_flush_data_def)

lemma should_flush_nonempty: "should_flush_data now t0 n \<Longrightarrow> 0 < n"
  by (auto simp: should_flush_data_def)

lemma field_write_step:
  fixes w :: "'z field_world_scheme"
  assumes wf: "field_wf junk f" and key: "key = combination_key shard series" and nn: "f_shard_skip_map f key \<noteq> Some None"
  shows "\<exists>d' f' w'. field_write rand junk now now' shard ts data db tb series f w = Inr (d', f', w') \<and> field_wf junk f' \<and>
    f_field_name f' = f_field_name f \<and> f_type f' = f_type f \<and> f_shard_skip_map f' key \<noteq> Some None \<and>
    (\<forall>k. k \<noteq> key \<longrightarrow> win_points f' k = win_points f k) \<and>
    window_step junk (f_field_name f) shard series (waiting_after ts data (win_points f key)) (win_points f' key)
      (fw_data_deque w) (fw_data_deque w')"
proof -
  define win0 where "win0 = (case f_shard_skip_map f key of Some (Some win) \<Rightarrow> win | _ \<Rightarrow> new_window)"
  define f0 where "f0 = (if f_shard_skip_map f key = None then f\<lparr>f_shard_skip_map := (f_shard_skip_map f)(key \<mapsto> Some new_window)\<rparr> else f)"
  have f0: "f_shard_skip_map f0 key = Some (Some win0)" using nn
    by (auto simp: f0_def win0_def split: option.splits)
  have wf0: "field_wf junk f0" using wf by (auto simp: f0_def field_wf_def)
  have win0: "window_wf junk win0" using wf0 f0 by (auto simp: field_wf_def)
  have pts0: "sl_list (win_list win0) = win_points f key" "\<And>k. k \<noteq> key \<Longrightarrow> win_points f0 k = win_points f k"
    "f_field_name f0 = f_field_name f" "f_type f0 = f_type f"
    using nn by (auto simp: f0_def win0_def win_points_def split: option.splits)
  obtain win1 w1 where 1: "(if win_need_reset win0
              then (win0\<lparr>win_last_time := now\<rparr>,
                    notify_all (f_sl_observers f0) db tb (shard, series) (f_field_name f0) True False w)
              else (win0, w)) = (win1, w1)" "fw_data_deque w1 = fw_data_deque w" "window_wf junk win1"
      "sl_list (win_list win1) = win_points f key"
  proof (cases "win_need_reset win0")
    case True
    show ?thesis by (rule that [of "win0\<lparr>win_last_time := now\<rparr>"
        "notify_all (f_sl_observers f0) db tb (shard, series) (f_field_name f0) True False w"])
      (use True win0 pts0(1) in \<open>simp_all add: window_wf_def\<close>)
  next
    case False
    show ?thesis by (rule that [of win0 w]) (use False win0 pts0(1) in simp_all)
  qed
  obtain d' win2 where 2: "(if data \<noteq> []
              then res_bind (sl_returned (sl_put rand ts data (win_list win1))) (\<lambda>(data', sl).
                     Inr (data', win1\<lparr>win_list := sl, win_need_reset := False\<rparr>))
              else Inr (data, win1)) = Inr (d', win2)" "window_wf junk win2"
      "sl_list (win_list win2) = waiting_after ts data (win_points f key)"
    using put_into_window [OF 1(3), of data rand ts] 1(4) by auto
  have size2: "sl_size (win_list win2) = length (sl_list (win_list win2))"
    using 2(2) sl_size_ok by (auto simp: window_wf_def)
  have eq: "field_write rand junk now now' shard ts data db tb series f w =
      (if should_flush_data now' (win_last_time win2) (sl_size (win_list win2))
       then res_bind (flush_window junk db tb shard series f0 win2 w1) (\<lambda>(win, w). Inr (d', put_window key win f0, w))
       else Inr (d', put_window key win2 f0, w1))"
    unfolding field_write_def Let_def key [symmetric] f0_def [symmetric] f0 option.case 1(1) prod.case 2(1) res_bind_simps
      put_window_def by simp
  show ?thesis
  proof (cases "should_flush_data now' (win_last_time win2) (sl_size (win_list win2))")
    case False
    then show ?thesis unfolding eq using put_window_facts(1) [OF 2(2) wf0] pts0 2(3) 1(2) should_flush_length [OF False]
      by (auto simp: put_window_facts(2-5) window_step_def size2 intro!: exI)
  next
    case True
    have ne: "sl_list (win_list win2) \<noteq> []" using should_flush_nonempty [OF True] size2 by auto
    obtain win3 w3 b where 3: "flush_window junk db tb shard series f0 win2 w1 = Inr (win3, w3)" "window_wf junk win3"
        "sl_list (win_list win3) = []" "fw_data_deque w3 = fw_data_deque w1 @ [b]"
        "block_of_points junk (f_field_name f0) shard series (sl_list (win_list win2)) b"
      using flush_window_block [OF 2(2) ne] by blast
    show ?thesis unfolding eq using True 3 put_window_facts(1) [OF 3(2) wf0] pts0 2(3) 1(2) ne
      by (auto simp: put_window_facts(2-5) window_step_def intro!: exI)
  qed
qed

section \<open>Runs of writes to one window\<close>

text \<open>Each point comes with the two clock readings of its call.\<close>

fun field_writes ::
    "(nat \<Rightarrow> nat) \<Rightarrow> data_type \<Rightarrow> string \<Rightarrow> string \<Rightarrow> string \<Rightarrow> string \<Rightarrow> (time_point \<times> time_point \<times> time_point \<times> string) list
      \<Rightarrow> field \<Rightarrow> 'z field_world_scheme \<Rightarrow> (field \<times> 'z field_world_scheme) result" where
  "field_writes rand junk shard db tb series [] f w = Inr (f, w)"
| "field_writes rand junk shard db tb series ((now, now', ts, data) # ps) f w =
     res_bind (field_write rand junk now now' shard ts data db tb series f w) (\<lambda>(_, f, w).
       field_writes rand junk shard db tb series ps f w)"

definition point_time :: "time_point \<times> time_point \<times> time_point \<times> string \<Rightarrow> time_point" where
  "point_time p = fst (snd (snd p))"

lemma win_points_sorted: "field_wf junk f \<Longrightarrow> kv_sorted (win_points f key)"
  by (auto simp: win_points_def field_wf_def window_wf_def sl_list_sorted kv_sorted_def [of "[]"] split: option.split)

lemma length_kv_put: "length (kv_put k v xs) \<le> Suc (length xs)"
proof -
  let ?P = "\<lambda>e. key_less (fst e) k"
  have "length (takeWhile ?P xs) + length (dropWhile ?P xs) = length xs"
    by (metis length_append takeWhile_dropWhile_id)
  then show ?thesis by (simp add: kv_put_def)
qed

lemma kv_sorted_split: "kv_sorted (xs @ ys) \<Longrightarrow> kv_sorted xs \<and> kv_sorted ys"
  by (simp add: kv_sorted_def sorted_wrt_append)

lemma kv_sorted_insert:
  assumes "kv_sorted xs" "kv_sorted ys" "\<And>a. a \<in> set xs \<Longrightarrow> key_less (fst a) k" "\<And>b. b \<in> set ys \<Longrightarrow> key_less k (fst b)"
  shows "kv_sorted (xs @ (k, v) # ys)"
proof -
  have "key_less (fst a) (fst b)" if "a \<in> set xs" "b \<in> set ys" for a b
    using assms(3) [OF that(1)] assms(4) [OF that(2)] by (simp add: key_less_def)
  then show ?thesis using assms by (auto simp: kv_sorted_def sorted_wrt_append)
qed

lemma above_key:
  assumes "kv_sorted ys" "ys \<noteq> [] \<Longrightarrow> \<not> key_less (fst (hd ys)) k" "k \<notin> fst ` set ys" "b \<in> set ys"
  shows "key_less k (fst b)"
proof -
  obtain y r where ys: "ys = y # r" using assms(4) by (cases ys) auto
  have "sint k \<noteq> sint (fst b)" using assms(3,4) by (metis image_eqI signed_word_eqI)
  moreover have "b = y \<or> key_less (fst y) (fst b)" using assms(1,4) ys by (auto simp: kv_sorted_def)
  ultimately show ?thesis using assms(2) ys by (auto simp: key_less_def)
qed

lemma kv_put_sorted:
  assumes "kv_sorted xs"
  shows "kv_sorted (kv_put k v xs)"
proof (cases "k \<in> fst ` set xs")
  case False
  define P where "P = (\<lambda>e :: time_point \<times> 'a. key_less (fst e) k)"
  have split: "kv_sorted (takeWhile P xs) \<and> kv_sorted (dropWhile P xs)"
    by (rule kv_sorted_split) (use assms in simp)
  have "kv_sorted (takeWhile P xs @ (k, v) # dropWhile P xs)"
  proof (rule kv_sorted_insert, goal_cases)
    case (3 a)
    then show ?case using set_takeWhileD [of a P xs] by (simp add: P_def)
  next
    case (4 b)
    show ?case
    proof (rule above_key [OF _ _ _ 4])
      show "\<not> key_less (fst (hd (dropWhile P xs))) k" if "dropWhile P xs \<noteq> []"
        using hd_dropWhile [OF that] by (simp add: P_def)
      show "k \<notin> fst ` set (dropWhile P xs)" using False set_dropWhileD [of _ P xs] by blast
    qed (use split in simp)
  qed (use split in simp_all)
  then show ?thesis using False by (simp add: kv_put_def P_def)
qed (use assms in \<open>simp add: kv_put_def\<close>)

text \<open>What a sequence of writes leaves in an empty window: the points in the order of time, of each time the value written first.\<close>

definition window_of :: "(time_point \<times> time_point \<times> time_point \<times> string) list \<Rightarrow> (time_point \<times> string) list" where
  "window_of ps = fold (\<lambda>p. kv_put (point_time p) (snd (snd (snd p)))) ps []"

lemma window_of_Nil [simp]: "window_of [] = []"
  by (simp add: window_of_def)

lemma window_of_snoc: "window_of (ps @ [p]) = kv_put (point_time p) (snd (snd (snd p))) (window_of ps)"
  by (simp add: window_of_def)

lemma window_of_sorted: "kv_sorted (window_of ps)"
proof -
  have "kv_sorted xs \<Longrightarrow> kv_sorted (fold (\<lambda>p. kv_put (point_time p) (snd (snd (snd p)))) ps xs)" for xs
    by (induction ps arbitrary: xs) (simp_all add: kv_put_sorted)
  then show ?thesis by (simp add: window_of_def kv_sorted_def [of "[]"])
qed

lemma field_writes_cut:
  assumes "field_wf junk f" "f_shard_skip_map f (combination_key shard series) \<noteq> Some None"
    "win_points f (combination_key shard series) = window_of pre" "length (window_of pre) < 100" "\<forall>p \<in> set ps. snd (snd (snd p)) \<noteq> []"
  shows "\<exists>f' w' segs rest bs. field_writes rand junk shard db tb series ps f w = Inr (f', w') \<and>
    fw_data_deque w' = fw_data_deque w @ bs \<and> pre @ ps = concat segs @ rest \<and>
    list_all2 (\<lambda>seg b. seg \<noteq> [] \<and> length (window_of seg) \<le> 100 \<and> block_of_points junk (f_field_name f) shard series (window_of seg) b) segs bs \<and>
    win_points f' (combination_key shard series) = window_of rest \<and> length (window_of rest) < 100"
  using assms
proof (induction ps arbitrary: f w pre)
  case Nil
  then show ?case by (intro exI [of _ f] exI [of _ w] exI [of _ "[]"] exI [of _ pre]) simp
next
  case (Cons p ps)
  let ?key = "combination_key shard series" and ?pre = "pre @ [p]"
  obtain now now' ts data where p: "p = (now, now', ts, data)" by (metis prod.collapse)
  have data: "data \<noteq> []" using Cons.prems(5) p by simp
  obtain d1 f1 w1 where 1: "field_write rand junk now now' shard ts data db tb series f w = Inr (d1, f1, w1)" "field_wf junk f1"
      "f_field_name f1 = f_field_name f" "f_shard_skip_map f1 ?key \<noteq> Some None"
      "window_step junk (f_field_name f) shard series (waiting_after ts data (win_points f ?key)) (win_points f1 ?key)
        (fw_data_deque w) (fw_data_deque w1)"
    using field_write_step [OF Cons.prems(1) refl Cons.prems(2), of rand now now' ts data db tb w] by blast
  have kvs: "waiting_after ts data (win_points f ?key) = window_of ?pre"
    using data Cons.prems(3) by (simp add: waiting_after_def window_of_snoc p point_time_def)
  have len: "length (window_of ?pre) \<le> 100"
    using length_kv_put [of ts data "window_of pre"] Cons.prems(4) by (simp add: window_of_snoc p point_time_def)
  note step = 1(5) [unfolded kvs]
  have run: "field_writes rand junk shard db tb series (p # ps) f w = field_writes rand junk shard db tb series ps f1 w1"
    using 1(1) by (simp add: p)
  have data': "\<forall>p \<in> set ps. snd (snd (snd p)) \<noteq> []" using Cons.prems(5) by simp
  show ?case
  proof (cases "win_points f1 ?key = window_of ?pre \<and> fw_data_deque w1 = fw_data_deque w \<and> length (window_of ?pre) < 100")
    case True
    then show ?thesis using Cons.IH [OF 1(2,4) _ _ data', of ?pre w1] run 1(3) by simp
  next
    case False
    then obtain b where b: "win_points f1 ?key = window_of []" "fw_data_deque w1 = fw_data_deque w @ [b]"
        "block_of_points junk (f_field_name f) shard series (window_of ?pre) b"
      using step by (auto simp: window_step_def)
    obtain f' w' segs rest bs where r: "field_writes rand junk shard db tb series ps f1 w1 = Inr (f', w')"
      "fw_data_deque w' = fw_data_deque w1 @ bs" "ps = concat segs @ rest"
      "list_all2 (\<lambda>seg b. seg \<noteq> [] \<and> length (window_of seg) \<le> 100 \<and> block_of_points junk (f_field_name f) shard series (window_of seg) b) segs bs"
      "win_points f' ?key = window_of rest" "length (window_of rest) < 100"
      using Cons.IH [OF 1(2,4) b(1) _ data', of w1] 1(3) by auto
    show ?thesis
      by (intro exI [of _ f'] exI [of _ w'] exI [of _ "?pre # segs"] exI [of _ rest] exI [of _ "b # bs"] conjI)
        (use run r b(2,3) len in simp_all)
  qed
qed

section \<open>Properties of a field\<close>

text \<open>
  C39. A field keeps what is written to one of its windows: for points with a value, in whatever order and at whatever clock readings, every call
  returns, and the sequence of writes falls into runs, one for each block handed to the writer and a last one that still waits. A block
  holds exactly the points of its run in the order of time, of each time the value written first, without a point of time zero (which
  \<open>DataBlock::write\<close> refuses but the count of the block includes); no window has more than a hundred points.
\<close>

theorem field_keeps_points:
  assumes "\<forall>p \<in> set ps. snd (snd (snd p)) \<noteq> []"
  shows "\<exists>f' w' segs rest bs. field_writes rand junk shard db tb series ps (mk_field ty fn) w = Inr (f', w') \<and>
    fw_data_deque w' = fw_data_deque w @ bs \<and> ps = concat segs @ rest \<and>
    list_all2 (\<lambda>seg b. seg \<noteq> [] \<and> length (window_of seg) \<le> 100 \<and> block_of_points junk fn shard series (window_of seg) b) segs bs \<and>
    win_points f' (combination_key shard series) = window_of rest \<and> length (window_of rest) < 100"
proof -
  have f: "field_wf junk (mk_field ty fn)" "f_shard_skip_map (mk_field ty fn) k = None" "win_points (mk_field ty fn) k = []"
    "f_field_name (mk_field ty fn) = fn" for k
    by (simp_all add: field_wf_def mk_field_def win_points_def)
  show ?thesis using field_writes_cut [OF f(1) _ _ _ assms, of shard series "[]" rand db tb w] by (simp add: f(2-4))
qed

definition demo_world :: field_world where
  "demo_world = \<lparr>fw_field_state = \<lparr>fs_skip_list_state_map = [], fs_index_entry_state_map = []\<rparr>,
     fw_table_state = [], fw_data_deque = []\<rparr>"

theorem field_keeps_points_witness:
  "\<exists>f' w' segs rest bs. field_writes (\<lambda>_. 0) DATA_INTEGER ''2024-05-01'' ''d'' ''t'' ''k'' [(1, 2, 30, ''b''), (2, 3, 20, ''a''), (3, 4, 30, ''c'')]
      (mk_field DATA_STRING ''f'') demo_world = Inr (f', w') \<and> fw_data_deque w' = bs \<and>
    [(1, 2, 30, ''b''), (2, 3, 20, ''a''), (3, 4, 30, ''c'')] = concat segs @ rest \<and>
    list_all2 (\<lambda>seg b. block_of_points DATA_INTEGER ''f'' ''2024-05-01'' ''k'' (window_of seg) b) segs bs \<and>
    win_points f' ''2024-05-01k'' = window_of rest"
proof -
  have v: "\<forall>p \<in> set [(1 :: time_point, 2 :: time_point, 30 :: time_point, ''b''), (2, 3, 20, ''a''), (3, 4, 30, ''c'')]. snd (snd (snd p)) \<noteq> []" by simp
  have "combination_key ''2024-05-01'' ''k'' = ''2024-05-01k''" "fw_data_deque demo_world = []" by (simp_all add: combination_key_def demo_world_def)
  then show ?thesis
    using field_keeps_points [OF v, where rand = "\<lambda>_. 0" and junk = DATA_INTEGER
      and shard = "''2024-05-01''" and db = "''d''" and tb = "''t''" and series = "''k''" and ty = DATA_STRING and fn = "''f''"
      and w = demo_world] by (fastforce elim: list_all2_mono)
qed

text \<open>
  The hundredth point flushes: when a call leaves a window non-empty, it holds fewer than a hundred
  points, so a window with 99 points and one new one becomes a block at once, with the number, the
  first and the last time of its points, and the window is empty again. The block's type, however,
  is the value the constructor of \<open>DataBlock\<close> left there, not the type of the field.
\<close>

theorem hundredth_point_flushes:
  assumes "field_wf junk f" "f_shard_skip_map f (combination_key shard series) \<noteq> Some None" "data \<noteq> []"
    "length (win_points f (combination_key shard series)) = 99" "ts \<notin> fst ` set (win_points f (combination_key shard series))"
  shows "\<exists>d' f' w' b. field_write rand junk now now' shard ts data db tb series f w = Inr (d', f', w') \<and>
    win_points f' (combination_key shard series) = [] \<and> fw_data_deque w' = fw_data_deque w @ [b] \<and>
    db_num b = 100 \<and> db_type b = junk \<and>
    block_of_points junk (f_field_name f) shard series (kv_put ts data (win_points f (combination_key shard series))) b"
proof -
  let ?kvs = "kv_put ts data (win_points f (combination_key shard series))"
  obtain d' f' w' where 1: "field_write rand junk now now' shard ts data db tb series f w = Inr (d', f', w')"
      "window_step junk (f_field_name f) shard series ?kvs (win_points f' (combination_key shard series))
        (fw_data_deque w) (fw_data_deque w')"
    using field_write_step [OF assms(1) refl assms(2), where rand = rand and now = now and now' = now' and ts = ts
        and data = data and db = db and tb = tb and w = w] assms(3)
    by (auto simp: waiting_after_def)
  let ?P = "\<lambda>e. key_less (fst e) ts"
  have "length (takeWhile ?P (win_points f (combination_key shard series))) +
      length (dropWhile ?P (win_points f (combination_key shard series))) = 99"
    using assms(4) by (metis length_append takeWhile_dropWhile_id)
  then have "length ?kvs = 100" using assms(5) by (simp add: kv_put_def)
  then show ?thesis using 1 by (auto simp: window_step_def block_of_points_def)
qed

definition demo_points :: "(time_point \<times> string) list" where
  "demo_points = map (\<lambda>i. (of_nat i, ''v'')) [1..<100]"

definition demo_full_field :: field where
  "demo_full_field = put_window ''sk'' (new_window\<lparr>win_list :=
     the (put_all (sl_put (\<lambda>_. 0)) demo_points (new_skip_list []))\<rparr>) (mk_field DATA_STRING ''f'')"

lemma demo_full_field_ok:
  "field_wf DATA_INTEGER demo_full_field" "f_shard_skip_map demo_full_field ''sk'' \<noteq> Some None"
  "length (win_points demo_full_field ''sk'') = 99" "fst ` set (win_points demo_full_field ''sk'') = of_nat ` {1..<100}"
proof -
  obtain sl where sl: "put_all (sl_put (\<lambda>_. 0)) demo_points (new_skip_list []) = Some sl" "sl_valid sl"
      "sl_list sl = fold (\<lambda>p. kv_put (fst p) (snd p)) demo_points []"
    using new_list_put_all [of "\<lambda>_. 0" demo_points "[]"] by blast
  have f: "demo_full_field = put_window ''sk'' (new_window\<lparr>win_list := sl\<rparr>) (mk_field DATA_STRING ''f'')"
    by (simp add: demo_full_field_def sl(1))
  show "field_wf DATA_INTEGER demo_full_field" unfolding f
    by (rule put_window_facts(1)) (use sl(2) in \<open>simp_all add: window_wf_def new_window_def field_wf_def mk_field_def\<close>)
  show "f_shard_skip_map demo_full_field ''sk'' \<noteq> Some None" by (simp add: f put_window_def)
  have pts: "win_points demo_full_field ''sk'' = sl_list sl" by (simp add: f put_window_facts(2))
  have keys: "fst ` set (fold (\<lambda>p. kv_put (fst p) (snd p)) ps xs) = fst ` set ps \<union> fst ` set xs"
    for ps :: "(time_point \<times> string) list" and xs
    by (induction ps arbitrary: xs) (auto simp: set_kv_put)
  show k: "fst ` set (win_points demo_full_field ''sk'') = of_nat ` {1..<100}"
    unfolding pts sl(3) keys by (auto simp: demo_points_def image_image)
  have "distinct (map fst (sl_list sl))" using sl_list_sorted [OF sl(2)] by (rule kv_sorted_distinct)
  then have "length (sl_list sl) = card (fst ` set (sl_list sl))" by (metis distinct_card length_map set_map)
  also have "\<dots> = card ((of_nat :: nat \<Rightarrow> 64 word) ` {1..<100})" using k pts by simp
  also have "\<dots> = card {1..<100::nat}"
  proof (rule card_image, rule inj_onI)
    fix i j :: nat
    have n: "unat (of_nat k :: 64 word) = k" if "k \<in> {1..<100}" for k
      using that by (simp add: unat_of_nat take_bit_eq_mod)
    assume "i \<in> {1..<100}" "j \<in> {1..<100}" "(of_nat i :: 64 word) = of_nat j"
    then show "i = j" by (metis n)
  qed
  finally show "length (win_points demo_full_field ''sk'') = 99" by (simp add: pts)
qed

theorem hundredth_point_flushes_witness:
  "\<exists>d' f' w' b. field_write (\<lambda>_. 0) DATA_INTEGER 0 0 ''s'' 200 ''x'' ''d'' ''t'' ''k'' demo_full_field demo_world = Inr (d', f', w') \<and>
    win_points f' ''sk'' = [] \<and> fw_data_deque w' = [b] \<and> db_num b = 100 \<and> db_type b = DATA_INTEGER"
proof -
  have key: "combination_key ''s'' ''k'' = ''sk''" by (simp add: combination_key_def)
  have "(200 :: 64 word) \<notin> of_nat ` {1..<100}"
  proof
    assume "(200 :: 64 word) \<in> of_nat ` {1..<100}"
    then obtain i where "i < 100" "unat (200 :: 64 word) = unat (of_nat i :: 64 word)" by auto
    then show False by (simp add: unat_of_nat take_bit_eq_mod)
  qed
  then show ?thesis
    using hundredth_point_flushes [of DATA_INTEGER demo_full_field "''s''" "''k''" "''x''" 200 "\<lambda>_. 0" 0 0 "''d''" "''t''" demo_world]
      demo_full_field_ok by (auto simp: key demo_world_def)
qed

end
