(* ===== verification/File_Path_Manager.thy ===== *)
theory File_Path_Manager
  imports File_Io_Manager
begin

text \<open>
  The manager of database directories, tables and system files
  (\<open>src/file_manager/file_path_manager.cpp\<close> and \<open>.h\<close>, \<open>src/engine/tsm/system_info.h\<close>).

  The state is the map of databases and tables, the stream manager with the disk, and the number
  of file descriptors the operations have opened with \<open>open\<close> and not closed. \<open>std::filesystem\<close> is
  modelled on the disk, where paths compare as strings; a clock reading is an argument. The
  mutexes are taken once per operation and no operation that holds one calls another that takes
  it, so they need no model. What the operations print is left out, but for the listing
  \<open>show_data\<close>, which is the value it returns here.
\<close>

record table_info =
  ti_files :: "string list"

record file_path_manager =
  fp_engine :: string
  fp_map :: "string \<Rightarrow> (string \<Rightarrow> table_info option) option"
  fp_io :: file_io
  fp_fds :: nat

record system_info =
  sys_head_offset :: "64 word"
  sys_tail_offset :: "64 word"
  sys_margin :: "64 word"
  sys_curr_file_path :: string

definition default_base_path :: string where
  "default_base_path = ''./../dbs''"

definition new_file_path_manager :: "string \<Rightarrow> disk \<Rightarrow> file_path_manager" where
  "new_file_path_manager engine d =
     \<lparr>fp_engine = engine, fp_map = Map.empty, fp_io = mk_file_io 10 d, fp_fds = 0\<rparr>"

abbreviation fp_disk :: "file_path_manager \<Rightarrow> disk" where
  "fp_disk fp \<equiv> io_disk (fp_io fp)"

definition set_disk :: "disk \<Rightarrow> file_path_manager \<Rightarrow> file_path_manager" where
  "set_disk d fp = fp\<lparr>fp_io := (fp_io fp)\<lparr>io_disk := d\<rparr>\<rparr>"

definition on_io :: "(file_io \<Rightarrow> ('a \<times> file_io) result) \<Rightarrow> file_path_manager \<Rightarrow> ('a \<times> file_path_manager) result" where
  "on_io f fp = res_bind (f (fp_io fp)) (\<lambda>(r, io). Inr (r, fp\<lparr>fp_io := io\<rparr>))"

section \<open>The file system calls\<close>

definition fs_exists :: "string \<Rightarrow> disk \<Rightarrow> bool" where
  "fs_exists p d \<longleftrightarrow> p \<in> dirs d \<or> files d p \<noteq> None"

text \<open>\<open>open(path, O_CREAT | O_WRONLY, 0666)\<close>: an existing file is kept as it is.\<close>

definition os_open_create :: "string \<Rightarrow> disk \<Rightarrow> disk option" where
  "os_open_create p d =
     (if p \<in> dirs d then None
      else if files d p \<noteq> None then Some d
      else if parent_dir p \<in> dirs d then Some (put_file p [] d) else None)"

definition fs_remove_file :: "string \<Rightarrow> disk \<Rightarrow> disk" where
  "fs_remove_file p d = d\<lparr>files := (files d)(p := None)\<rparr>"

definition path_inside :: "string \<Rightarrow> string \<Rightarrow> bool" where
  "path_inside p q \<longleftrightarrow> q = p \<or> take (length p + 1) q = p @ ''/''"

definition fs_remove_all :: "string \<Rightarrow> disk \<Rightarrow> disk" where
  "fs_remove_all p d = \<lparr>files = (\<lambda>q. if path_inside p q then None else files d q),
     dirs = {q \<in> dirs d. \<not> path_inside p q}\<rparr>"

section \<open>Databases, tables and files\<close>

definition db_path :: "string \<Rightarrow> string" where
  "db_path db_name = default_base_path @ ''/'' @ db_name"

definition sys_path :: "file_path_manager \<Rightarrow> string \<Rightarrow> string \<Rightarrow> string" where
  "sys_path fp db_name tb_name = db_path db_name @ ''/sys-'' @ tb_name @ ''.'' @ fp_engine fp"

definition create_database :: "string \<Rightarrow> file_path_manager \<Rightarrow> string \<times> file_path_manager" where
  "create_database db_name fp =
     (if fs_exists (db_path db_name) (fp_disk fp)
      then (db_path db_name, fp\<lparr>fp_map := (fp_map fp)(db_name \<mapsto> Map.empty)\<rparr>)
      else ([], fp))"

definition exists_table :: "string \<Rightarrow> string \<Rightarrow> file_path_manager \<Rightarrow> bool" where
  "exists_table db_name tb_name fp =
     (case fp_map fp db_name of Some db \<Rightarrow> db tb_name \<noteq> None | None \<Rightarrow> False)"

text \<open>The format of \<open>sys_clear_file\<close>: the end of the field list, and its length.\<close>

definition sys_clear_file :: "string \<Rightarrow> string \<Rightarrow> file_path_manager \<Rightarrow> (bool \<times> file_path_manager) result" where
  "sys_clear_file db_name tb_name fp =
     on_io (with_stream (sys_path fp db_name tb_name) ''binary'' False (\<lambda>a st.
       res_bind (stream_seek a 0 st) (\<lambda>st.
       res_bind (stream_writes a [put_word 8 (10 :: 64 word), put_word 2 (0 :: 16 word)] st) (\<lambda>st.
       res_bind (release_file_stream (sys_path fp db_name tb_name) st) (\<lambda>st. Inr (True, st)))))) fp"

definition add_table :: "string \<Rightarrow> string \<Rightarrow> file_path_manager \<Rightarrow> file_path_manager" where
  "add_table db_name tb_name fp =
     (case fp_map fp db_name of
        Some db \<Rightarrow> fp\<lparr>fp_map := (fp_map fp)(db_name \<mapsto> db(tb_name \<mapsto> \<lparr>ti_files = []\<rparr>))\<rparr>
      | None \<Rightarrow> fp)"

definition create_table :: "string \<Rightarrow> string \<Rightarrow> file_path_manager \<Rightarrow> (bool \<times> file_path_manager) result" where
  "create_table tb_name db_name fp =
     (case fp_map fp db_name of
        None \<Rightarrow> Inr (False, fp)
      | Some _ \<Rightarrow>
          (case os_open_create (sys_path fp db_name tb_name) (fp_disk fp) of
             None \<Rightarrow> Inr (False, fp)
           | Some d \<Rightarrow>
               res_bind (sys_clear_file db_name tb_name (set_disk d fp)) (\<lambda>(_, fp).
                 Inr (True, add_table db_name tb_name fp))))"

text \<open>\<open>now\<close> is the count of the clock; the descriptor that \<open>open\<close> returns is not closed.\<close>

definition data_file_name :: "string \<Rightarrow> 64 word \<Rightarrow> string \<Rightarrow> string" where
  "data_file_name tb_name now engine_abbrev =
     tb_name @ ''-'' @ dec_int (sint now) @ ''.'' @ engine_abbrev"

definition create_file ::
    "64 word \<Rightarrow> string \<Rightarrow> string \<Rightarrow> string \<Rightarrow> file_path_manager \<Rightarrow> string \<times> file_path_manager" where
  "create_file now tb_name db_name engine_abbrev fp =
     (if exists_table db_name tb_name fp then
        (let file_path = db_path db_name @ ''/'' @ data_file_name tb_name now engine_abbrev in
         case os_open_create file_path (fp_disk fp) of
           None \<Rightarrow> ([], fp)
         | Some d \<Rightarrow> (file_path, (set_disk d fp)\<lparr>fp_fds := fp_fds fp + 1\<rparr>))
      else ([], fp))"

definition delete_database :: "string \<Rightarrow> file_path_manager \<Rightarrow> bool \<times> file_path_manager" where
  "delete_database db_name fp =
     (case fp_map fp db_name of
        Some _ \<Rightarrow>
          if db_path db_name \<in> dirs (fp_disk fp)
          then (True, set_disk (fs_remove_all (db_path db_name) (fp_disk fp)) fp)
          else (False, fp)
      | None \<Rightarrow> (False, fp))"

definition table_file_path :: "string \<Rightarrow> string \<Rightarrow> string \<Rightarrow> string" where
  "table_file_path db_name tb_name item = db_path db_name @ ''/'' @ tb_name @ ''/'' @ item"

definition remove_if_file :: "string \<Rightarrow> disk \<Rightarrow> disk" where
  "remove_if_file p d = (if files d p \<noteq> None then fs_remove_file p d else d)"

definition delete_table :: "string \<Rightarrow> string \<Rightarrow> file_path_manager \<Rightarrow> bool \<times> file_path_manager" where
  "delete_table tb_name db_name fp =
     (case fp_map fp db_name of
        None \<Rightarrow> (False, fp)
      | Some db \<Rightarrow>
          (case db tb_name of
             None \<Rightarrow> (False, fp)
           | Some info \<Rightarrow>
               (True, (set_disk (fold (\<lambda>item. remove_if_file (table_file_path db_name tb_name item)) (ti_files info) (fp_disk fp)) fp)
                  \<lparr>fp_map := (fp_map fp)(db_name \<mapsto> db(tb_name := None))\<rparr>)))"

definition delete_file :: "string \<Rightarrow> string \<Rightarrow> string \<Rightarrow> file_path_manager \<Rightarrow> bool \<times> file_path_manager" where
  "delete_file file_name tb_name db_name fp =
     (case fp_map fp db_name of
        None \<Rightarrow> (False, fp)
      | Some db \<Rightarrow>
          (case db tb_name of
             None \<Rightarrow> (False, fp)
           | Some info \<Rightarrow>
               if file_name \<in> set (ti_files info) \<and>
                  files (fp_disk fp) (table_file_path db_name tb_name file_name) \<noteq> None
               then (True, (set_disk (fs_remove_file (table_file_path db_name tb_name file_name) (fp_disk fp)) fp)
                  \<lparr>fp_map := (fp_map fp)(db_name \<mapsto> db(tb_name \<mapsto> \<lparr>ti_files = remove1 file_name (ti_files info)\<rparr>))\<rparr>)
               else (False, fp)))"

definition load_database :: "string \<Rightarrow> string list \<Rightarrow> file_path_manager \<Rightarrow> bool \<times> file_path_manager" where
  "load_database db_name tables fp =
     (case fp_map fp db_name of
        Some _ \<Rightarrow> (True, fp)
      | None \<Rightarrow>
          if db_path db_name \<in> dirs (fp_disk fp)
          then (True, fp\<lparr>fp_map := (fp_map fp)(db_name \<mapsto>
                  fold (\<lambda>tb m. m(tb \<mapsto> \<lparr>ti_files = []\<rparr>)) tables Map.empty)\<rparr>)
          else (False, fp))"

text \<open>
  The names that \<open>show_data\<close> prints: the directories right below the base path, or the tables of a
  database, whose entry \<open>operator[]\<close> makes when it is missing.
\<close>

definition show_data :: "string \<Rightarrow> file_path_manager \<Rightarrow> (string set \<times> file_path_manager) result" where
  "show_data db_name fp =
     (if db_name = [] then
        (if default_base_path \<in> dirs (fp_disk fp)
         then Inr ((\<lambda>p. drop (length default_base_path + 1) p) `
                     {p \<in> dirs (fp_disk fp). parent_dir p = default_base_path}, fp)
         else Inl (Runtime_error ''filesystem_error''))
      else
        (case fp_map fp db_name of
           Some db \<Rightarrow> Inr (dom db, fp)
         | None \<Rightarrow> Inr ({}, fp\<lparr>fp_map := (fp_map fp)(db_name \<mapsto> Map.empty)\<rparr>)))"

section \<open>The system file of a table\<close>

text \<open>A name with its length in front; the length has 16 bits and only that many bytes follow.\<close>

definition name_parts :: "string \<Rightarrow> string list" where
  "name_parts s = [put_word 2 (of_nat (length s) :: 16 word), take (unat (of_nat (length s) :: 16 word)) s]"

definition unset_system_info :: system_info where
  "unset_system_info = \<lparr>sys_head_offset = 0, sys_tail_offset = 0, sys_margin = 0, sys_curr_file_path = []\<rparr>"

text \<open>
  The buffer for a name of \<open>length\<close> bytes: a vector of \<open>length + 1\<close> bytes, so that the name is
  read up to its first zero byte. The length is signed here: the vector of a length below \<open>-1\<close> is
  refused, and for \<open>-1\<close> the terminating byte goes in front of an empty vector. The test
  \<open>good\<close> only guards the bytes of the name: when one of the earlier reads fails, the offsets and
  the length are unset variables (\<open>Stream_failed\<close>).
\<close>

definition read_name :: "nat \<Rightarrow> 16 word \<Rightarrow> file_io \<Rightarrow> (string \<times> file_io) result" where
  "read_name a len st =
     (if sint len < -1 then Inl (Logic_error ''cannot create std::vector larger than max_size()'')
      else if sint len = -1 then Inl Null_deref
      else res_bind (stream_read a (nat (sint len)) st) (\<lambda>(bs, st). Inr (takeWhile (\<lambda>c. c \<noteq> NUL) bs, st)))"

definition read_sys_fields :: "nat \<Rightarrow> file_io \<Rightarrow> ((64 word \<times> 64 word \<times> 64 word \<times> string) \<times> file_io) result" where
  "read_sys_fields a st =
     res_bind (stream_seek a 0 st) (\<lambda>st.
     res_bind (stream_read a 8 st) (\<lambda>(head_offset, st).
     res_bind (stream_read a 8 st) (\<lambda>(tail_offset, st).
     res_bind (stream_read a 8 st) (\<lambda>(margin, st).
     res_bind (stream_read a 2 st) (\<lambda>(len, st).
     res_bind (read_name a (get_word len) st) (\<lambda>(file_name, st).
       Inr ((get_word head_offset, get_word tail_offset, get_word margin, file_name), st)))))))"

definition load_system_info :: "string \<Rightarrow> string \<Rightarrow> file_path_manager \<Rightarrow> (system_info \<times> file_path_manager) result" where
  "load_system_info db_name tb_name fp =
     on_io (with_stream (sys_path fp db_name tb_name) ''binary'' unset_system_info (\<lambda>a st.
       res_bind (read_sys_fields a st) (\<lambda>((head_offset, tail_offset, margin, file_name), st).
       res_bind (release_file_stream (sys_path fp db_name tb_name) st) (\<lambda>st.
         Inr (\<lparr>sys_head_offset = head_offset, sys_tail_offset = tail_offset, sys_margin = margin,
           sys_curr_file_path = ''./../dbs/'' @ db_name @ ''/'' @ file_name\<rparr>, st))))) fp"

definition sys_show_file :: "string \<Rightarrow> string \<Rightarrow> file_path_manager \<Rightarrow> (bool \<times> file_path_manager) result" where
  "sys_show_file db_name tb_name fp =
     on_io (with_stream (sys_path fp db_name tb_name) ''binary'' False (\<lambda>a st.
       res_bind (read_sys_fields a st) (\<lambda>(_, st).
       res_bind (release_file_stream (sys_path fp db_name tb_name) st) (\<lambda>st. Inr (True, st))))) fp"

text \<open>The writers seek, write their fields and release the stream.\<close>

definition write_sys :: "int \<Rightarrow> string list \<Rightarrow> string \<Rightarrow> string \<Rightarrow> file_path_manager \<Rightarrow> (bool \<times> file_path_manager) result" where
  "write_sys pos bss db_name tb_name fp =
     on_io (with_stream (sys_path fp db_name tb_name) ''binary'' False (\<lambda>a st.
       res_bind (stream_seek a pos st) (\<lambda>st.
       res_bind (stream_writes a bss st) (\<lambda>st.
       res_bind (release_file_stream (sys_path fp db_name tb_name) st) (\<lambda>st. Inr (True, st)))))) fp"

definition create_tsm_file_update_sys_info ::
    "string \<Rightarrow> string \<Rightarrow> string \<Rightarrow> 64 word \<Rightarrow> file_path_manager \<Rightarrow> (bool \<times> file_path_manager) result" where
  "create_tsm_file_update_sys_info db_name tb_name file_name margin =
     write_sys 0 ([put_word 8 (5 :: 64 word), put_word 8 margin, put_word 8 margin] @ name_parts file_name)
       db_name tb_name"

definition update_system_file_name ::
    "string \<Rightarrow> string \<Rightarrow> string \<Rightarrow> file_path_manager \<Rightarrow> (bool \<times> file_path_manager) result" where
  "update_system_file_name db_name tb_name file_name = write_sys 24 (name_parts file_name) db_name tb_name"

definition update_system_file_margin ::
    "string \<Rightarrow> string \<Rightarrow> 64 word \<Rightarrow> file_path_manager \<Rightarrow> (bool \<times> file_path_manager) result" where
  "update_system_file_margin db_name tb_name margin = write_sys 16 [put_word 8 margin] db_name tb_name"

definition update_system_file_offset ::
    "string \<Rightarrow> string \<Rightarrow> string \<Rightarrow> 64 word \<Rightarrow> file_path_manager \<Rightarrow> (bool \<times> file_path_manager) result" where
  "update_system_file_offset db_name tb_name ty offset fp =
     (if ty = ''head'' then write_sys 0 [put_word 8 offset] db_name tb_name fp
      else if ty = ''tail'' then write_sys 8 [put_word 8 offset] db_name tb_name fp
      else if ty = ''field'' then write_sys 200 [put_word 8 offset] db_name tb_name fp
      else on_io (with_stream (sys_path fp db_name tb_name) ''binary'' False (\<lambda>a st.
        res_bind (release_file_stream (sys_path fp db_name tb_name) st) (\<lambda>st. Inr (False, st)))) fp)"

text \<open>
  The list of field names. The reader opens a stream of its own; every writer flushes before it
  returns, so it reads what is on the disk. A missing file has no fields.
\<close>

fun read_field_list :: "nat \<Rightarrow> nat \<Rightarrow> string \<Rightarrow> string set \<Rightarrow> string set result" where
  "read_field_list 0 pos f found = Inr found"
| "read_field_list (Suc n) pos f found =
     res_bind (pread pos 2 f) (\<lambda>len.
     res_bind (pread (pos + 2) (le_decode len) f) (\<lambda>field.
       read_field_list n (pos + 2 + le_decode len) f (insert field found)))"

definition load_mea_fields :: "string \<Rightarrow> string \<Rightarrow> file_path_manager \<Rightarrow> string set result" where
  "load_mea_fields db_name tb_name fp =
     (case files (fp_disk fp) (sys_path fp db_name tb_name) of
        None \<Rightarrow> Inr {}
      | Some f \<Rightarrow> res_bind (pread 8 2 f) (\<lambda>num. read_field_list (le_decode num) 10 f {}))"

definition insert_field_to_file :: "string \<Rightarrow> string \<Rightarrow> string \<Rightarrow> file_path_manager \<Rightarrow> (unit \<times> file_path_manager) result" where
  "insert_field_to_file db_name tb_name field fp =
     on_io (with_stream (sys_path fp db_name tb_name) ''binary'' () (\<lambda>a st.
       res_bind (stream_seek a 0 st) (\<lambda>st.
       res_bind (stream_read a 8 st) (\<lambda>(offset, st).
       res_bind (stream_read a 2 st) (\<lambda>(num, st).
       res_bind (stream_seek a (sint (get_word offset :: 64 word)) st) (\<lambda>st.
       res_bind (stream_writes a (name_parts field) st) (\<lambda>st.
         (let offset = (of_nat (stream_tell a st) :: 64 word); num = (get_word num :: 16 word) + 1 in
          res_bind (stream_seek a 0 st) (\<lambda>st.
          res_bind (stream_writes a [put_word 8 offset, put_word 2 num] st) (\<lambda>st.
          res_bind (release_file_stream (sys_path fp db_name tb_name) st) (\<lambda>st. Inr ((), st)))))))))))) fp"

section \<open>The field list\<close>

definition field_bytes :: "string \<Rightarrow> string" where
  "field_bytes s = put_word 2 (of_nat (length s) :: 16 word) @ s"

definition field_list_bytes :: "string list \<Rightarrow> string" where
  "field_list_bytes fs = concat (map field_bytes fs)"

text \<open>A system file that lists the fields \<open>fs\<close>: the offset of its end, the number, the names.\<close>

definition field_file :: "string list \<Rightarrow> string \<Rightarrow> bool" where
  "field_file fs f \<longleftrightarrow>
     (\<exists>rest. f = put_word 8 (of_nat (10 + length (field_list_bytes fs)) :: 64 word) @
        put_word 2 (of_nat (length fs) :: 16 word) @ field_list_bytes fs @ rest)"

definition fields_ok :: "string list \<Rightarrow> bool" where
  "fields_ok fs \<longleftrightarrow> list_all (\<lambda>s. length s < 2 ^ 16) fs \<and> length fs < 2 ^ 16 \<and>
     10 + length (field_list_bytes fs) < 2 ^ 63"

lemma field_list_bytes_simps [simp]:
  "field_list_bytes [] = []"
  "field_list_bytes (s # fs) = field_bytes s @ field_list_bytes fs"
  "field_list_bytes (fs @ gs) = field_list_bytes fs @ field_list_bytes gs"
  by (simp_all add: field_list_bytes_def)

lemma fields_ok_append: "fields_ok (fs @ gs) \<Longrightarrow> fields_ok fs"
  by (simp add: fields_ok_def)

lemma le_decode_put_word2: "n < 2 ^ 16 \<Longrightarrow> le_decode (put_word 2 (of_nat n :: 16 word)) = n"
  by (simp add: put_word_def unat_of_nat take_bit_eq_mod)

lemma pread_at: "length pre = off \<Longrightarrow> n = length bs \<Longrightarrow> pread off n (pre @ bs @ post) = Inr bs"
  by (simp add: pread_def)

lemma name_parts_short: "length s < 2 ^ 16 \<Longrightarrow> concat (name_parts s) = field_bytes s"
  by (simp add: name_parts_def field_bytes_def unat_of_nat take_bit_eq_mod)

lemma read_field_list_bytes:
  assumes "list_all (\<lambda>s. length s < 2 ^ 16) fs" "length pre = pos"
  shows "read_field_list (length fs) pos (pre @ field_list_bytes fs @ rest) found = Inr (found \<union> set fs)"
  using assms
proof (induction fs arbitrary: pre pos found)
  case Nil
  then show ?case by simp
next
  case (Cons s fs)
  let ?f = "pre @ field_list_bytes (s # fs) @ rest"
  let ?len = "put_word 2 (of_nat (length s) :: 16 word)"
  have s: "le_decode ?len = length s" using Cons.prems by (intro le_decode_put_word2) simp
  have f1: "?f = pre @ ?len @ (s @ field_list_bytes fs @ rest)" by (simp add: field_bytes_def)
  have f2: "?f = (pre @ ?len) @ s @ (field_list_bytes fs @ rest)" by (simp add: field_bytes_def)
  have f3: "?f = (pre @ ?len @ s) @ field_list_bytes fs @ rest" by (simp add: field_bytes_def)
  have r1: "pread pos 2 ?f = Inr ?len" unfolding f1 by (rule pread_at) (use Cons.prems in simp_all)
  have r2: "pread (pos + 2) (length s) ?f = Inr s" unfolding f2 by (rule pread_at) (use Cons.prems in simp_all)
  have r3: "read_field_list (length fs) (pos + 2 + length s) ?f (insert s found) = Inr (insert s found \<union> set fs)"
    unfolding f3 by (rule Cons.IH) (use Cons.prems in simp_all)
  show ?case unfolding list.size(4) add_Suc_right add_0_right read_field_list.simps r1 res_bind_simps s r2 r3 by simp
qed

lemma load_mea_fields_file:
  assumes "files (fp_disk fp) (sys_path fp db tb) = Some f" "field_file fs f" "fields_ok fs"
  shows "load_mea_fields db tb fp = Inr (set fs)"
proof -
  obtain rest where f: "f = put_word 8 (of_nat (10 + length (field_list_bytes fs)) :: 64 word) @
      put_word 2 (of_nat (length fs) :: 16 word) @ field_list_bytes fs @ rest"
    using assms(2) by (auto simp: field_file_def)
  let ?h = "put_word 8 (of_nat (10 + length (field_list_bytes fs)) :: 64 word)"
  let ?n = "put_word 2 (of_nat (length fs) :: 16 word)"
  have r1: "pread 8 2 f = Inr ?n" unfolding f by (rule pread_at) simp_all
  have n: "le_decode ?n = length fs" using assms(3) by (intro le_decode_put_word2) (simp add: fields_ok_def)
  have f3: "f = (?h @ ?n) @ field_list_bytes fs @ rest" by (simp add: f)
  have r2: "read_field_list (length fs) 10 f {} = Inr ({} \<union> set fs)"
    unfolding f3 by (rule read_field_list_bytes) (use assms(3) in \<open>simp_all add: fields_ok_def\<close>)
  show ?thesis using assms(1) by (simp add: load_mea_fields_def r1 n r2)
qed

lemma on_io_yields:
  assumes "yields (m (fp_io fp)) (\<lambda>(r, io). Q (r, fp\<lparr>fp_io := io\<rparr>))"
  shows "yields (on_io m fp) Q"
  using assms by (auto simp: on_io_def yields_def split: prod.splits)

text \<open>What an operation on the system file may change.\<close>

definition same_tables :: "file_path_manager \<Rightarrow> file_path_manager \<Rightarrow> bool" where
  "same_tables fp fp' \<longleftrightarrow> fp_map fp' = fp_map fp \<and> fp_engine fp' = fp_engine fp \<and> fp_fds fp' = fp_fds fp"

lemma same_tables_sys_path: "same_tables fp fp' \<Longrightarrow> sys_path fp' = sys_path fp"
  by (simp add: same_tables_def sys_path_def fun_eq_iff)

lemma same_tables_trans: "same_tables fp fp1 \<Longrightarrow> same_tables fp1 fp2 \<Longrightarrow> same_tables fp fp2"
  by (simp add: same_tables_def)

lemma same_tables_io [simp]: "same_tables fp (fp\<lparr>fp_io := io\<rparr>)"
  by (simp add: same_tables_def)

lemma write_sys_yields:
  assumes "io_ready P (fp_io fp)" "p = sys_path fp db tb" "p \<in> P" "files (fp_disk fp) p = Some f" "0 \<le> i"
  shows "yields (write_sys i bss db tb fp) (\<lambda>(r, fp'). r \<and> same_tables fp fp' \<and>
    wrote P p (pwrite (nat i) (concat bss) f) (fp_io fp) (fp_io fp'))"
  unfolding write_sys_def assms(2) [symmetric]
proof (rule on_io_yields, rule with_stream_ready [OF assms(1,3)])
  fix a st1
  assume s: "io_ready P st1" "io_disk st1 = fp_disk fp" "stream_at st1 a p (cached_pos (fp_io fp) p ''binary'')"
    and rw: "''binary'' = ''binary'' \<Longrightarrow> stream_rw st1 a"
  have f: "files (io_disk st1) p = Some f" using s assms(4) by simp
  show "yields (res_bind (stream_seek a i st1) (\<lambda>st. res_bind (stream_writes a bss st) (\<lambda>st.
      res_bind (release_file_stream p st) (\<lambda>st. Inr (True, st)))))
     (\<lambda>(r, io). case (r, fp\<lparr>fp_io := io\<rparr>) of (r, fp') \<Rightarrow> r \<and> same_tables fp fp' \<and>
        wrote P p (pwrite (nat i) (concat bss) f) (fp_io fp) (fp_io fp'))"
    by (rule seek_writes_release [OF s(1,3) rw f assms(5)]) (use s(2) in \<open>auto simp: wrote_def\<close>)
qed simp

lemma insert_field_file:
  assumes "field_file fs f" "fields_ok (fs @ [s])"
  shows "field_file (fs @ [s]) (pwrite 0 (put_word 8 (of_nat (10 + length (field_list_bytes (fs @ [s]))) :: 64 word) @
    put_word 2 (1 + of_nat (length fs) :: 16 word)) (pwrite (10 + length (field_list_bytes fs)) (field_bytes s) f))"
proof -
  obtain rest where f: "f = put_word 8 (of_nat (10 + length (field_list_bytes fs)) :: 64 word) @
      put_word 2 (of_nat (length fs) :: 16 word) @ field_list_bytes fs @ rest"
    using assms(1) by (auto simp: field_file_def)
  define h where "h = put_word 8 (of_nat (10 + length (field_list_bytes fs)) :: 64 word) @
      put_word 2 (of_nat (length fs) :: 16 word)"
  have h: "length h = 10" "f = h @ field_list_bytes fs @ rest" by (simp_all add: h_def f)
  have p1: "pwrite (10 + length (field_list_bytes fs)) (field_bytes s) f =
      h @ field_list_bytes fs @ field_bytes s @ drop (length (field_bytes s)) rest"
    by (subst pwrite_inside) (simp_all add: h)
  show ?thesis unfolding p1 field_file_def
    by (rule exI [of _ "drop (length (field_bytes s)) rest"], subst pwrite_inside) (simp_all add: h(1))
qed

lemma field_file_head:
  assumes "field_file fs f" "fields_ok fs"
  shows "\<exists>offset num. pread 0 8 f = Inr offset \<and> pread 8 2 f = Inr num \<and>
    sint (get_word offset :: 64 word) = 10 + int (length (field_list_bytes fs)) \<and>
    get_word num = (of_nat (length fs) :: 16 word)"
proof -
  obtain rest where f: "f = put_word 8 (of_nat (10 + length (field_list_bytes fs)) :: 64 word) @
      put_word 2 (of_nat (length fs) :: 16 word) @ field_list_bytes fs @ rest"
    using assms(1) by (auto simp: field_file_def)
  have "pread 0 8 f = Inr (put_word 8 (of_nat (10 + length (field_list_bytes fs)) :: 64 word))"
    unfolding f by (simp add: pread_def)
  moreover have "pread 8 2 f = Inr (put_word 2 (of_nat (length fs) :: 16 word))"
    unfolding f by (rule pread_at) simp_all
  moreover have "sint (of_nat (10 + length (field_list_bytes fs)) :: 64 word) = 10 + int (length (field_list_bytes fs))"
    using assms(2) unfolding fields_ok_def signed_of_nat
    by (simp add: signed_take_bit_int_eq_self)
  ultimately show ?thesis by (metis get_put_word64 get_put_word16)
qed

lemma insert_field_yields:
  assumes "io_ready P (fp_io fp)" "p = sys_path fp db tb" "p \<in> P" "files (fp_disk fp) p = Some f"
    and ff: "field_file fs f" "fields_ok (fs @ [s])"
  shows "yields (insert_field_to_file db tb s fp) (\<lambda>(_, fp'). same_tables fp fp' \<and>
    (\<exists>g. wrote P p g (fp_io fp) (fp_io fp') \<and> field_file (fs @ [s]) g))"
  unfolding insert_field_to_file_def assms(2) [symmetric]
proof (rule on_io_yields, rule with_stream_binary [OF assms(1,3)], goal_cases)
  case (1 a st1)
  obtain offset num where h: "pread 0 8 f = Inr offset" "pread (nat 0 + 8) 2 f = Inr num"
      "sint (get_word offset :: 64 word) = 10 + int (length (field_list_bytes fs))"
      "get_word num = (of_nat (length fs) :: 16 word)"
    using field_file_head [OF ff(1) fields_ok_append [OF ff(2)]] by auto
  have parts: "concat (name_parts s) = field_bytes s" using ff(2) by (intro name_parts_short) (simp add: fields_ok_def)
  have end_pos: "nat (sint (get_word offset :: 64 word)) = 10 + length (field_list_bytes fs)" using h(3) by simp
  show ?case
  proof (rule seek_bind [OF 1 order_refl], goal_cases)
    case (1 st2)
    show ?case
    proof (rule read_step [OF 1 assms(4)], simp add: h(1), rule read_step [OF _ assms(4) h(2)], assumption, goal_cases)
      case (1 st3 st4)
      show ?case
      proof (rule seek_bind [OF 1(2)], simp add: h(3), rule writes_bind [OF _ assms(4)], assumption, goal_cases)
        case (1 st5 st6)
        have tell: "stream_tell a st6 = 10 + length (field_list_bytes (fs @ [s]))"
          by (rule stream_tell_at [of _ _ p]) (use 1(2) in \<open>simp add: stream_ready_def end_pos parts add.assoc\<close>)
        show ?case unfolding Let_def
          by (rule seek_bind [OF 1(2) order_refl], rule writes_bind, assumption, simp, rule release_step, assumption)
             (use insert_field_file [OF ff] in \<open>auto simp: wrote_def tell end_pos parts h(4) add.commute [of _ "1 :: 16 word"]\<close>)
      qed
    qed
  qed
qed

section \<open>Tables\<close>

text \<open>A manager with room for one more system file, nobody holding its lock.\<close>

definition fp_room :: "string \<Rightarrow> file_path_manager \<Rightarrow> bool" where
  "fp_room p fp \<longleftrightarrow> io_ready {} (fp_io fp) \<and> card (insert p (dom (m_file_stream (fp_io fp)))) < m_max_size (fp_io fp)"

lemma os_open_create_cases:
  assumes "os_open_create p d = Some d'"
  obtains f where "d' = put_file p f d" "files d p = Some f \<or> files d p = None \<and> f = []"
  using assms by (auto simp: os_open_create_def put_file_same split: if_splits)

lemma io_ready_open:
  assumes "fp_room p fp" "os_open_create p (fp_disk fp) = Some d"
  shows "io_ready {p} (fp_io (set_disk d fp)) \<and> p \<in> dom (files d)"
proof -
  obtain f where d: "d = put_file p f (fp_disk fp)" using os_open_create_cases [OF assms(2)] by metis
  have r: "fm_wf (fp_io fp)" "\<not> m_locked (fp_io fp)" "card (insert p (dom (m_file_stream (fp_io fp)))) < m_max_size (fp_io fp)"
    using assms(1) by (simp_all add: fp_room_def io_ready_def)
  have "fm_wf ((fp_io fp)\<lparr>io_disk := d\<rparr>)" by (rule fm_wf_disk [OF r(1)]) (auto simp: d)
  then show ?thesis using r(2,3) by (simp add: io_ready_def set_disk_def d)
qed

lemma set_disk_simps [simp]:
  "fp_disk (set_disk d fp) = d" "sys_path (set_disk d fp) = sys_path fp" "fp_map (set_disk d fp) = fp_map fp"
  "fp_engine (set_disk d fp) = fp_engine fp" "fp_fds (set_disk d fp) = fp_fds fp"
  by (simp_all add: set_disk_def sys_path_def fun_eq_iff)

lemma add_table_simps [simp]:
  "fp_io (add_table db tb fp) = fp_io fp" "sys_path (add_table db tb fp) = sys_path fp"
  "fp_map fp db \<noteq> None \<Longrightarrow> exists_table db tb (add_table db tb fp)"
  unfolding add_table_def sys_path_def exists_table_def by (auto split: option.split)

lemma sys_clear_file_write: "sys_clear_file db tb = write_sys 0 [put_word 8 (10 :: 64 word), put_word 2 (0 :: 16 word)] db tb"
  by (simp add: sys_clear_file_def write_sys_def fun_eq_iff)

lemma cleared_field_file: "field_file [] (pwrite 0 (concat [put_word 8 (10 :: 64 word), put_word 2 (0 :: 16 word)]) f)"
  by (simp add: field_file_def pwrite_inside)

lemma create_table_yields:
  assumes "fp_room p fp" "p = sys_path fp db tb" "fp_map fp db \<noteq> None" "os_open_create p (fp_disk fp) = Some d"
  shows "yields (create_table tb db fp) (\<lambda>(r, fp'). r \<and> exists_table db tb fp' \<and> sys_path fp' db tb = p \<and>
    io_ready {p} (fp_io fp') \<and> (\<exists>f. files (fp_disk fp') p = Some f \<and> field_file [] f))"
proof -
  obtain m where m: "fp_map fp db = Some m" using assms(3) by auto
  obtain f where f: "files d p = Some f" "io_ready {p} (fp_io (set_disk d fp))"
    using io_ready_open [OF assms(1,4)] by auto
  have "yields (write_sys 0 [put_word 8 (10 :: 64 word), put_word 2 (0 :: 16 word)] db tb (set_disk d fp))
      (\<lambda>(r, fp'). r \<and> same_tables (set_disk d fp) fp' \<and>
       wrote {p} p (pwrite (nat 0) (concat [put_word 8 (10 :: 64 word), put_word 2 (0 :: 16 word)]) f) (fp_io (set_disk d fp)) (fp_io fp'))"
    by (rule write_sys_yields [OF f(2)]) (use assms(2) f(1) in simp_all)
  then obtain fp' where fp': "write_sys 0 [put_word 8 (10 :: 64 word), put_word 2 (0 :: 16 word)] db tb (set_disk d fp) = Inr (True, fp')"
      "same_tables (set_disk d fp) fp'"
      "wrote {p} p (pwrite 0 (concat [put_word 8 (10 :: 64 word), put_word 2 (0 :: 16 word)]) f) (fp_io (set_disk d fp)) (fp_io fp')"
    by (auto simp: yields_def)
  have "create_table tb db fp = Inr (True, add_table db tb fp')"
    using m assms(4) fp'(1) by (simp add: create_table_def assms(2) sys_clear_file_write)
  moreover have "exists_table db tb (add_table db tb fp')"
    by (rule add_table_simps(3)) (use fp'(2) m in \<open>simp add: same_tables_def\<close>)
  moreover have "sys_path (add_table db tb fp') db tb = p"
    using same_tables_sys_path [OF fp'(2)] assms(2) by simp
  ultimately show ?thesis using wrote_ready [OF fp'(3)] wrote_file [OF fp'(3)] cleared_field_file [of f] by auto
qed

text \<open>The loop of the engines over the fields of a new table.\<close>

fun insert_fields :: "string \<Rightarrow> string \<Rightarrow> string list \<Rightarrow> file_path_manager \<Rightarrow> file_path_manager result" where
  "insert_fields db_name tb_name [] fp = Inr fp"
| "insert_fields db_name tb_name (s # ss) fp =
     res_bind (insert_field_to_file db_name tb_name s fp) (\<lambda>(_, fp). insert_fields db_name tb_name ss fp)"

lemma insert_fields_yields:
  assumes "io_ready {p} (fp_io fp)" "p = sys_path fp db tb" "files (fp_disk fp) p = Some f"
    "field_file gs f" "fields_ok (gs @ fs)"
  shows "yields (insert_fields db tb fs fp) (\<lambda>fp'. same_tables fp fp' \<and>
    (\<exists>g. files (fp_disk fp') p = Some g \<and> field_file (gs @ fs) g))"
  using assms
proof (induction fs arbitrary: fp gs f)
  case Nil
  then show ?case by (simp add: same_tables_def)
next
  case (Cons s ss)
  have ok: "fields_ok (gs @ [s])" using Cons.prems(5) fields_ok_append [of "gs @ [s]" ss] by simp
  have "yields (insert_field_to_file db tb s fp) (\<lambda>(_, fp'). same_tables fp fp' \<and>
    (\<exists>g. wrote {p} p g (fp_io fp) (fp_io fp') \<and> field_file (gs @ [s]) g))"
    by (rule insert_field_yields [OF Cons.prems(1,2) _ Cons.prems(3,4) ok]) simp
  then obtain u fp1 g where 1: "insert_field_to_file db tb s fp = Inr (u, fp1)" "same_tables fp fp1"
      "wrote {p} p g (fp_io fp) (fp_io fp1)" "field_file (gs @ [s]) g"
    by (auto simp: yields_def)
  have "yields (insert_fields db tb ss fp1) (\<lambda>fp'. same_tables fp1 fp' \<and>
    (\<exists>g. files (fp_disk fp') p = Some g \<and> field_file ((gs @ [s]) @ ss) g))"
    by (rule Cons.IH [OF wrote_ready [OF 1(3)] _ wrote_file [OF 1(3)] 1(4)])
       (use Cons.prems(2,5) same_tables_sys_path [OF 1(2)] in simp_all)
  then show ?case using 1(1) same_tables_trans [OF 1(2)] by (auto simp: yields_def)
qed

lemma exists_table_same: "same_tables fp fp' \<Longrightarrow> exists_table db tb fp' = exists_table db tb fp"
  by (simp add: same_tables_def exists_table_def)

lemma take_le_encode: "i \<le> n \<Longrightarrow> take i (le_encode n x) = le_encode i x"
proof (induction n arbitrary: i x)
  case (Suc n)
  then show ?case by (cases i) auto
qed simp

lemma le_encode_low: "le_decode (take i (put_word 8 (v :: 64 word))) = unat v mod 256 ^ i" if "i \<le> 8"
  using that by (simp add: put_word_def take_le_encode le_decode_encode_mod)

section \<open>Any sequence of operations\<close>

datatype fp_call =
    Fp_create_database string
  | Fp_create_table string string
  | Fp_create_file "64 word" string string string
  | Fp_delete_database string
  | Fp_delete_table string string
  | Fp_delete_file string string string
  | Fp_load_database string "string list"
  | Fp_show_data string
  | Fp_load_system_info string string
  | Fp_create_tsm_file_update_sys_info string string string "64 word"
  | Fp_update_file_name string string string
  | Fp_update_margin string string "64 word"
  | Fp_update_offset string string string "64 word"
  | Fp_sys_show string string
  | Fp_sys_clear string string
  | Fp_insert_field string string string

definition fp_after :: "('a \<times> file_path_manager) result \<Rightarrow> file_path_manager result" where
  "fp_after m = res_bind m (\<lambda>(_, fp). Inr fp)"

fun fp_step :: "fp_call \<Rightarrow> file_path_manager \<Rightarrow> file_path_manager result" where
  "fp_step (Fp_create_database db) fp = Inr (snd (create_database db fp))"
| "fp_step (Fp_create_table tb db) fp = fp_after (create_table tb db fp)"
| "fp_step (Fp_create_file now tb db e) fp = Inr (snd (create_file now tb db e fp))"
| "fp_step (Fp_delete_database db) fp = Inr (snd (delete_database db fp))"
| "fp_step (Fp_delete_table tb db) fp = Inr (snd (delete_table tb db fp))"
| "fp_step (Fp_delete_file f tb db) fp = Inr (snd (delete_file f tb db fp))"
| "fp_step (Fp_load_database db tbs) fp = Inr (snd (load_database db tbs fp))"
| "fp_step (Fp_show_data db) fp = fp_after (show_data db fp)"
| "fp_step (Fp_load_system_info db tb) fp = fp_after (load_system_info db tb fp)"
| "fp_step (Fp_create_tsm_file_update_sys_info db tb n m) fp = fp_after (create_tsm_file_update_sys_info db tb n m fp)"
| "fp_step (Fp_update_file_name db tb n) fp = fp_after (update_system_file_name db tb n fp)"
| "fp_step (Fp_update_margin db tb m) fp = fp_after (update_system_file_margin db tb m fp)"
| "fp_step (Fp_update_offset db tb ty off) fp = fp_after (update_system_file_offset db tb ty off fp)"
| "fp_step (Fp_sys_show db tb) fp = fp_after (sys_show_file db tb fp)"
| "fp_step (Fp_sys_clear db tb) fp = fp_after (sys_clear_file db tb fp)"
| "fp_step (Fp_insert_field db tb s) fp = fp_after (insert_field_to_file db tb s fp)"

fun fp_run :: "fp_call list \<Rightarrow> file_path_manager \<Rightarrow> file_path_manager result" where
  "fp_run [] fp = Inr fp"
| "fp_run (c # cs) fp = res_bind (fp_step c fp) (fp_run cs)"

text \<open>No table records a file of its own.\<close>

definition no_files :: "(string \<Rightarrow> (string \<Rightarrow> table_info option) option) \<Rightarrow> bool" where
  "no_files m \<longleftrightarrow> (\<forall>db t tb info. m db = Some t \<longrightarrow> t tb = Some info \<longrightarrow> ti_files info = [])"

lemma no_filesD: "no_files m \<Longrightarrow> m db = Some t \<Longrightarrow> t tb = Some info \<Longrightarrow> ti_files info = []"
  unfolding no_files_def by blast

lemma no_files_empty: "no_files m \<Longrightarrow> no_files (m(db \<mapsto> Map.empty))"
  unfolding no_files_def by auto

lemma no_files_table: "no_files m \<Longrightarrow> m db = Some t \<Longrightarrow> no_files (m(db \<mapsto> t(tb \<mapsto> \<lparr>ti_files = []\<rparr>)))"
  unfolding no_files_def by auto

lemma no_files_drop: "no_files m \<Longrightarrow> m db = Some t \<Longrightarrow> no_files (m(db \<mapsto> t(tb := None)))"
  unfolding no_files_def by auto

lemma loaded_tables:
  "fold (\<lambda>tb m. m(tb \<mapsto> x)) tables m tb = (if tb \<in> set tables then Some x else m tb)"
  by (induction tables arbitrary: m) auto

lemma no_files_loaded:
  "no_files m \<Longrightarrow> no_files (m(db \<mapsto> fold (\<lambda>tb m. m(tb \<mapsto> \<lparr>ti_files = []\<rparr>)) tables Map.empty))"
  unfolding no_files_def by (auto simp: loaded_tables split: if_splits)

lemma on_io_map: "on_io f fp = Inr (r, fp') \<Longrightarrow> fp_map fp' = fp_map fp"
  by (auto simp: on_io_def res_bind_eq_Inr)

lemma system_file_map:
  "write_sys i bss db tb fp = Inr (r, fp') \<Longrightarrow> fp_map fp' = fp_map fp"
  "insert_field_to_file db tb s fp = Inr (u, fp') \<Longrightarrow> fp_map fp' = fp_map fp"
  "load_system_info db tb fp = Inr (si, fp') \<Longrightarrow> fp_map fp' = fp_map fp"
  "sys_show_file db tb fp = Inr (r, fp') \<Longrightarrow> fp_map fp' = fp_map fp"
  unfolding write_sys_def insert_field_to_file_def load_system_info_def sys_show_file_def
  by (rule on_io_map, assumption)+

lemma update_offset_map: "update_system_file_offset db tb ty v fp = Inr (r, fp') \<Longrightarrow> fp_map fp' = fp_map fp"
  unfolding update_system_file_offset_def by (auto split: if_splits dest: system_file_map(1) on_io_map)

lemma create_table_no_files:
  "no_files (fp_map fp) \<Longrightarrow> create_table tb db fp = Inr (r, fp') \<Longrightarrow> no_files (fp_map fp')"
  unfolding create_table_def sys_clear_file_write
  by (auto simp: res_bind_eq_Inr add_table_def no_files_table split: option.splits dest!: system_file_map(1))

lemma local_ops_no_files:
  assumes "no_files (fp_map fp)"
  shows "no_files (fp_map (snd (create_database db fp)))"
    "no_files (fp_map (snd (create_file now tb db e fp)))"
    "no_files (fp_map (snd (delete_database db fp)))"
    "no_files (fp_map (snd (delete_table tb db fp)))"
    "no_files (fp_map (snd (load_database db tbs fp)))"
    "show_data db fp = Inr (r, fp') \<Longrightarrow> no_files (fp_map fp')"
  using assms
  by (auto simp: create_database_def create_file_def delete_database_def delete_table_def
      load_database_def show_data_def Let_def no_files_empty no_files_drop no_files_loaded split: option.split option.splits if_splits)

lemma delete_file_nothing: "no_files (fp_map fp) \<Longrightarrow> delete_file f tb db fp = (False, fp)"
  by (auto simp: delete_file_def split: option.split dest: no_filesD)

lemma fp_step_no_files:
  assumes "no_files (fp_map fp)" "fp_step c fp = Inr fp'"
  shows "no_files (fp_map fp')"
proof (cases c)
  case Fp_create_table
  then show ?thesis using assms by (auto simp: fp_after_def res_bind_eq_Inr intro: create_table_no_files)
next
  case Fp_show_data
  then show ?thesis using assms by (auto simp: fp_after_def res_bind_eq_Inr intro: local_ops_no_files(6))
next
  case Fp_update_offset
  then show ?thesis using assms by (auto simp: fp_after_def res_bind_eq_Inr dest: update_offset_map)
qed (use assms in \<open>auto simp: fp_after_def res_bind_eq_Inr local_ops_no_files(1-5) delete_file_nothing
       create_tsm_file_update_sys_info_def update_system_file_name_def update_system_file_margin_def sys_clear_file_write
       dest!: system_file_map\<close>)

lemma fp_run_no_files:
  "no_files (fp_map fp) \<Longrightarrow> fp_run cs fp = Inr fp' \<Longrightarrow> no_files (fp_map fp')"
proof (induction cs arbitrary: fp)
  case (Cons c cs)
  then show ?case by (auto simp: res_bind_eq_Inr dest: fp_step_no_files)
qed simp

lemma new_no_files: "no_files (fp_map (new_file_path_manager e d))"
  by (simp add: no_files_def new_file_path_manager_def)

section \<open>File names\<close>

lemma dec_nat_digits: "c \<in> set (dec_nat n) \<Longrightarrow> c \<noteq> CHR ''-''"
proof (induction n rule: dec_nat.induct)
  case (1 n)
  have digit: "char_of (48 + m) \<noteq> CHR ''-''" if "m < 10" for m :: nat
  proof
    assume "char_of (48 + m) = CHR ''-''"
    then have "of_char (char_of (48 + m) :: char) = (of_char CHR ''-'' :: nat)" by simp
    then show False using that by (simp add: of_char_of)
  qed
  show ?case
    using 1 digit [of n] digit [of "n mod 10"] by (subst (asm) dec_nat.simps) (auto split: if_splits)
qed

lemma split_at_last:
  assumes "xs @ c # as = ys @ c # bs" "c \<notin> set as" "c \<notin> set bs"
  shows "xs = ys \<and> as = bs"
proof -
  have "rev as @ c # rev xs = rev bs @ c # rev ys" using arg_cong [OF assms(1), of rev] by simp
  moreover have "takeWhile (\<lambda>x. x \<noteq> c) (zs @ c # us) = zs" if "c \<notin> set zs" for zs us
    using that by (induction zs) auto
  ultimately have "rev as = rev bs" using assms(2,3) by (metis set_rev)
  then show ?thesis using assms(1) by simp
qed

lemma data_file_name_inject:
  assumes "0 \<le> sint t1" "0 \<le> sint t2" "data_file_name tb1 t1 e = data_file_name tb2 t2 e"
  shows "tb1 = tb2 \<and> t1 = t2"
proof -
  have "tb1 @ CHR ''-'' # dec_nat (nat (sint t1)) = tb2 @ CHR ''-'' # dec_nat (nat (sint t2))"
    using assms by (simp add: data_file_name_def dec_int_def)
  then have "tb1 = tb2 \<and> dec_nat (nat (sint t1)) = dec_nat (nat (sint t2))"
    by (rule split_at_last) (use dec_nat_digits in blast)+
  moreover have "t1 = t2" if "sint t1 = sint t2" using that by (rule signed_word_eqI)
  ultimately show ?thesis using assms(1,2) by (simp add: dec_nat_inject eq_nat_nat_iff)
qed

section \<open>Properties of the path manager\<close>

text \<open>
  The field list of a table round-trips through its system file: creating a table in a known
  database and inserting its fields one by one returns, and loading gives back exactly the set of
  the fields, when the fields are short, few, and fit below \<open>2 ^ 63\<close> bytes, and the manager has
  room for the stream of the file.
\<close>

theorem table_fields_roundtrip:
  assumes "fp_map fp db \<noteq> None" "os_open_create (sys_path fp db tb) (fp_disk fp) \<noteq> None"
    "fp_room (sys_path fp db tb) fp" "fields_ok fs"
  shows "\<exists>fp1 fp2. create_table tb db fp = Inr (True, fp1) \<and> insert_fields db tb fs fp1 = Inr fp2 \<and>
    load_mea_fields db tb fp2 = Inr (set fs) \<and> exists_table db tb fp2"
proof -
  obtain d where d: "os_open_create (sys_path fp db tb) (fp_disk fp) = Some d" using assms(2) by auto
  obtain fp1 f where 1: "create_table tb db fp = Inr (True, fp1)" "exists_table db tb fp1"
      "sys_path fp1 db tb = sys_path fp db tb" "io_ready {sys_path fp db tb} (fp_io fp1)"
      "files (fp_disk fp1) (sys_path fp db tb) = Some f" "field_file [] f"
    using create_table_yields [OF assms(3) refl assms(1) d] by (auto simp: yields_def)
  obtain fp2 g where 2: "insert_fields db tb fs fp1 = Inr fp2" "same_tables fp1 fp2"
      "files (fp_disk fp2) (sys_path fp db tb) = Some g" "field_file fs g"
    using insert_fields_yields [OF 1(4) 1(3) [symmetric] 1(5,6), of fs] assms(4) by (auto simp: yields_def)
  have "load_mea_fields db tb fp2 = Inr (set fs)"
    by (rule load_mea_fields_file [OF _ 2(4) assms(4)]) (use 2(3) same_tables_sys_path [OF 2(2)] 1(3) in simp)
  then show ?thesis using 1 2 exists_table_same [OF 2(2)] by auto
qed

definition demo_manager :: file_path_manager where
  "demo_manager = snd (load_database ''d'' [] (new_file_path_manager ''tsm''
     \<lparr>files = Map.empty, dirs = {''./../dbs'', ''./../dbs/d''}\<rparr>))"

lemma demo_manager_ok:
  "fp_map demo_manager ''d'' \<noteq> None"
  "os_open_create (sys_path demo_manager ''d'' ''t'') (fp_disk demo_manager) \<noteq> None"
  "fp_room (sys_path demo_manager ''d'' ''t'') demo_manager"
proof -
  have d: "demo_manager = \<lparr>fp_engine = ''tsm'', fp_map = [''d'' \<mapsto> Map.empty],
      fp_io = mk_file_io 10 \<lparr>files = Map.empty, dirs = {''./../dbs'', ''./../dbs/d''}\<rparr>, fp_fds = 0\<rparr>"
    by (simp add: demo_manager_def load_database_def new_file_path_manager_def db_path_def default_base_path_def)
  show "fp_map demo_manager ''d'' \<noteq> None" by (simp add: d)
  show "os_open_create (sys_path demo_manager ''d'' ''t'') (fp_disk demo_manager) \<noteq> None"
    by (simp add: d sys_path_def db_path_def default_base_path_def os_open_create_def parent_dir_def)
  show "fp_room (sys_path demo_manager ''d'' ''t'') demo_manager"
    using mk_file_io_ready [of "{}" "\<lparr>files = Map.empty, dirs = {''./../dbs'', ''./../dbs/d''}\<rparr>" 10]
    by (simp add: fp_room_def d) (simp add: mk_file_io_def)
qed

theorem table_fields_roundtrip_witness:
  "\<exists>fp1 fp2. create_table ''t'' ''d'' demo_manager = Inr (True, fp1) \<and>
    insert_fields ''d'' ''t'' [''f1'', ''f2'', ''f1''] fp1 = Inr fp2 \<and>
    load_mea_fields ''d'' ''t'' fp2 = Inr (set [''f1'', ''f2'', ''f1'']) \<and> exists_table ''d'' ''t'' fp2"
  by (rule table_fields_roundtrip [OF demo_manager_ok]) (simp add: fields_ok_def field_bytes_def)

text \<open>
  The tail offset of the system information lies on the number of fields: writing a tail offset
  that is a multiple of \<open>65536\<close> (the offsets of this layout are 4 MiB) to a system file succeeds,
  and every field of the table is lost to the loader.
\<close>

theorem tail_offset_loses_fields:
  assumes "io_ready P (fp_io fp)" "sys_path fp db tb \<in> P" "unat v mod 2 ^ 16 = 0"
  shows "\<exists>fp'. update_system_file_offset db tb ''tail'' v fp = Inr (True, fp') \<and> load_mea_fields db tb fp' = Inr {}"
proof -
  obtain f where f: "files (fp_disk fp) (sys_path fp db tb) = Some f" using assms(1,2) io_ready_D(4) by blast
  obtain fp' where fp': "write_sys 8 [put_word 8 v] db tb fp = Inr (True, fp')" "same_tables fp fp'"
      "wrote P (sys_path fp db tb) (pwrite 8 (put_word 8 v) f) (fp_io fp) (fp_io fp')"
    using write_sys_yields [OF assms(1) refl assms(2) f, of 8 "[put_word 8 v]"] by (auto simp: yields_def)
  have r: "pread 8 2 (pwrite 8 (put_word 8 v) f) = Inr (take 2 (put_word 8 v))"
    by (subst pread_pwrite_sub) simp_all
  have n: "le_decode (take 2 (put_word 8 v)) = 0" using assms(3) by (subst le_encode_low) simp_all
  have "load_mea_fields db tb fp' = Inr {}"
    using wrote_file [OF fp'(3)] same_tables_sys_path [OF fp'(2)] by (simp add: load_mea_fields_def r n)
  then show ?thesis using fp'(1) by (simp add: update_system_file_offset_def)
qed

theorem tail_offset_loses_fields_witness:
  "\<exists>fp'. update_system_file_offset ''d'' ''t'' ''tail'' 4194304
      (set_disk \<lparr>files = [''./../dbs/d/sys-t.tsm'' \<mapsto> []], dirs = {}\<rparr> demo_manager) = Inr (True, fp') \<and>
    load_mea_fields ''d'' ''t'' fp' = Inr {}"
proof (rule tail_offset_loses_fields [where P = "{''./../dbs/d/sys-t.tsm''}"])
  have s: "fp_io (set_disk \<lparr>files = [''./../dbs/d/sys-t.tsm'' \<mapsto> []], dirs = {}\<rparr> demo_manager) =
      mk_file_io 10 \<lparr>files = [''./../dbs/d/sys-t.tsm'' \<mapsto> []], dirs = {}\<rparr>"
    by (simp add: set_disk_def demo_manager_def load_database_def new_file_path_manager_def db_path_def
        default_base_path_def mk_file_io_def)
  show "io_ready {''./../dbs/d/sys-t.tsm''} (fp_io (set_disk \<lparr>files = [''./../dbs/d/sys-t.tsm'' \<mapsto> []], dirs = {}\<rparr> demo_manager))"
    unfolding s by (rule mk_file_io_ready) simp_all
  show "sys_path (set_disk \<lparr>files = [''./../dbs/d/sys-t.tsm'' \<mapsto> []], dirs = {}\<rparr> demo_manager) ''d'' ''t''
      \<in> {''./../dbs/d/sys-t.tsm''}"
    by (simp add: sys_path_def db_path_def default_base_path_def demo_manager_def load_database_def new_file_path_manager_def)
qed simp

text \<open>
  Deleting a table deletes no file: whatever operations ran before, no table has a file recorded, so
  \<open>delete_table\<close> leaves the disk as it is and \<open>delete_file\<close> refuses every file.
\<close>

theorem table_files_never_recorded:
  assumes "fp_run cs (new_file_path_manager e d) = Inr fp"
  shows "fp_disk (snd (delete_table tb db fp)) = fp_disk fp \<and> delete_file f tb db fp = (False, fp)"
proof -
  have "no_files (fp_map fp)" by (rule fp_run_no_files [OF new_no_files assms])
  then show ?thesis
    by (auto simp: delete_file_nothing delete_table_def set_disk_def split: option.split dest: no_filesD)
qed

theorem table_files_never_recorded_witness:
  "fp_run [Fp_load_database ''d'' [''t''], Fp_create_file 7 ''t'' ''d'' ''tsm'']
      (new_file_path_manager ''tsm'' (fp_disk demo_manager)) =
     Inr (snd (create_file 7 ''t'' ''d'' ''tsm'' (snd (load_database ''d'' [''t''] (new_file_path_manager ''tsm'' (fp_disk demo_manager)))))) \<and>
   fp_disk (snd (delete_table ''t'' ''d'' (snd (create_file 7 ''t'' ''d'' ''tsm'' (snd (load_database ''d'' [''t''] (new_file_path_manager ''tsm'' (fp_disk demo_manager)))))))) =
     fp_disk (snd (create_file 7 ''t'' ''d'' ''tsm'' (snd (load_database ''d'' [''t''] (new_file_path_manager ''tsm'' (fp_disk demo_manager))))))"
  using table_files_never_recorded
    [of "[Fp_load_database ''d'' [''t''], Fp_create_file 7 ''t'' ''d'' ''tsm'']" "''tsm''" "fp_disk demo_manager"
       "snd (create_file 7 ''t'' ''d'' ''tsm'' (snd (load_database ''d'' [''t''] (new_file_path_manager ''tsm'' (fp_disk demo_manager)))))"
       "''t''" "''d''" "''f''"]
  by simp

text \<open>
  A deleted database stays known: \<open>delete_database\<close> returns before it erases the entry, so that its
  tables still exist for every later operation although the directory and all its files are gone.
\<close>

theorem deleted_database_stays_known:
  assumes "fst (delete_database db fp)"
  shows "fp_map (snd (delete_database db fp)) = fp_map fp \<and>
    files (fp_disk (snd (delete_database db fp))) (sys_path fp db tb) = None"
proof -
  have "path_inside (db_path db) (sys_path fp db tb)" by (simp add: path_inside_def sys_path_def)
  then show ?thesis using assms
    by (simp add: delete_database_def fs_remove_all_def split: option.splits if_splits)
qed

theorem deleted_database_stays_known_witness:
  "fst (delete_database ''d'' demo_manager) \<and>
   fp_map (snd (delete_database ''d'' demo_manager)) = fp_map demo_manager"
proof -
  have "fst (delete_database ''d'' demo_manager)"
    by (simp add: demo_manager_def delete_database_def load_database_def new_file_path_manager_def db_path_def default_base_path_def)
  then show ?thesis using deleted_database_stays_known [of "''d''" demo_manager "''t''"] by simp
qed

text \<open>
  Data files do not collide: two files that \<open>create_file\<close> makes in a database for different tables
  or at different (non-negative) clock counts have different paths.
\<close>

theorem data_files_distinct:
  assumes "fst (create_file t1 tb1 db e fp1) = fst (create_file t2 tb2 db e fp2)"
    "fst (create_file t1 tb1 db e fp1) \<noteq> []" "0 \<le> sint t1" "0 \<le> sint t2"
  shows "tb1 = tb2 \<and> t1 = t2"
proof -
  have "fst (create_file t1 tb1 db e fp1) = db_path db @ ''/'' @ data_file_name tb1 t1 e"
    "fst (create_file t2 tb2 db e fp2) = db_path db @ ''/'' @ data_file_name tb2 t2 e"
    using assms(1,2) by (auto simp: create_file_def Let_def split: if_splits option.splits)
  then have "data_file_name tb1 t1 e = data_file_name tb2 t2 e" using assms(1) by simp
  then show ?thesis by (rule data_file_name_inject [OF assms(3,4)])
qed

theorem data_files_distinct_witness:
  "fst (create_file 7 ''t'' ''d'' ''tsm'' (snd (load_database ''d'' [''t''] (new_file_path_manager ''tsm'' (fp_disk demo_manager))))) = ''./../dbs/d/t-7.tsm'' \<and> ''t'' = ''t'' \<and> (7 :: 64 word) = 7"
proof -
  have f: "fst (create_file 7 ''t'' ''d'' ''tsm'' (snd (load_database ''d'' [''t''] (new_file_path_manager ''tsm'' (fp_disk demo_manager))))) = ''./../dbs/d/t-7.tsm''"
    by (simp add: demo_manager_def create_file_def exists_table_def load_database_def new_file_path_manager_def
        db_path_def default_base_path_def data_file_name_def dec_int_def dec_nat.simps os_open_create_def parent_dir_def
        char_of_def bit_iff_odd Let_def)
  then show ?thesis
    using data_files_distinct [of 7 "''t''" "''d''" "''tsm''"
      "snd (load_database ''d'' [''t''] (new_file_path_manager ''tsm'' (fp_disk demo_manager)))" 7 "''t''"
      "snd (load_database ''d'' [''t''] (new_file_path_manager ''tsm'' (fp_disk demo_manager)))"] by simp
qed

end
