(* ===== verification/Write_Flush.thy ===== *)
theory Write_Flush
  imports Field File_Path_Manager
begin

text \<open>
  The writer of a table (\<open>src/engine/tsm/write.h\<close> and \<open>write.cpp\<close>): it finds or makes the field and
  the shard of a point, queues the blocks that the fields hand over, and flushes them to the TSM
  file of their shard, with the index entries that are due.

  The state extends the world of a field (observers and block queue) by the writer's own members, the
  path manager it shares with the engine and its own \<open>TSM\<close> object. Both hold a stream manager over the
  same disk; \<open>on_tsm\<close> hands the disk over and back. The mutexes are held for one operation each; the
  flush lock serialises \<open>queue_flush_disk\<close>. The environment collects what the code takes from outside:
  the compressor, \<open>rand()\<close>, the clock as the sequence of its readings, \<open>localtime\<close>, and the values of
  members that the code leaves uninitialised.
\<close>

section \<open>State\<close>

record write_env =
  we_snappy :: snappy
  we_rand :: "nat \<Rightarrow> nat"
  we_clock :: "nat \<Rightarrow> time_point"
  we_localtime :: "int \<Rightarrow> int \<times> nat \<times> nat"
  we_junk_type :: data_type
  we_junk_count :: "16 word"
  we_junk_padding :: "24 word"

record index_entry_info =
  ii_last_time :: time_point
  ii_index_deque :: "index_entry list"
  ii_shard_id :: string

record writer = field_world +
  wr_db_name :: string
  wr_tb_name :: string
  wr_margin :: "64 word"
  wr_curr_file_path :: string
  wr_field_list :: "string list"
  wr_field_map :: "string \<Rightarrow> field option"
  wr_index_map :: "(string, index_entry_info) omap"
  wr_task_set :: "string set"
  wr_index_task_queue :: "string list"
  wr_mea_shard_map :: "string \<Rightarrow> shard option"
  wr_files :: file_path_manager
  wr_tsm :: file_io
  wr_shard_observers :: "shard_state list"
  wr_clock :: nat

definition DATA_BLOCK_MARGIN :: nat where
  "DATA_BLOCK_MARGIN = 512"

definition new_index_entry_info :: index_entry_info where
  "new_index_entry_info = \<lparr>ii_last_time = 0, ii_index_deque = [], ii_shard_id = []\<rparr>"

definition new_shard :: shard where
  "new_shard = \<lparr>sh_retention_policy = [], sh_shard_id = [], sh_database_name = [], sh_measurement = [],
     sh_tsm_file = [], sh_curr_file_path = [], sh_curr_file_margin = 0, sh_curr_file_head_offset = 0,
     sh_curr_file_tail_offset = 0\<rparr>"

text \<open>The constructor; \<open>m_margin\<close> is not initialised before \<open>init\<close> reads it.\<close>

definition mk_writer :: "string \<Rightarrow> string \<Rightarrow> field_state \<Rightarrow> table_map \<Rightarrow> file_path_manager \<Rightarrow> shard_state list \<Rightarrow> writer" where
  "mk_writer db_name tb_name tb_state queue_state file_path observers =
     \<lparr>fw_field_state = tb_state, fw_table_state = queue_state, fw_data_deque = [],
      wr_db_name = db_name, wr_tb_name = tb_name, wr_margin = 0, wr_curr_file_path = [], wr_field_list = [],
      wr_field_map = Map.empty, wr_index_map = [], wr_task_set = {}, wr_index_task_queue = [],
      wr_mea_shard_map = Map.empty, wr_files = file_path, wr_tsm = mk_file_io 20 (fp_disk file_path),
      wr_shard_observers = observers, wr_clock = 0\<rparr>"

definition on_tsm :: "(file_io \<Rightarrow> ('a \<times> file_io) result) \<Rightarrow> writer \<Rightarrow> ('a \<times> writer) result" where
  "on_tsm op w =
     res_bind (op ((wr_tsm w)\<lparr>io_disk := fp_disk (wr_files w)\<rparr>)) (\<lambda>(r, io).
       Inr (r, w\<lparr>wr_tsm := io, wr_files := set_disk (io_disk io) (wr_files w)\<rparr>))"

definition clock_now :: "write_env \<Rightarrow> writer \<Rightarrow> time_point \<times> writer" where
  "clock_now env w = (we_clock env (wr_clock w), w\<lparr>wr_clock := wr_clock w + 1\<rparr>)"

definition write_init :: "writer \<Rightarrow> (unit \<times> writer) result" where
  "write_init w =
     res_bind (load_system_info (wr_db_name w) (wr_tb_name w) (wr_files w)) (\<lambda>(sys_info, fp).
       Inr ((), w\<lparr>wr_files := fp, wr_margin := sys_margin sys_info,
         wr_curr_file_path := (if sys_margin sys_info = 0 then [] else sys_curr_file_path sys_info)\<rparr>))"

definition set_file_path_manager :: "file_path_manager \<Rightarrow> writer \<Rightarrow> writer" where
  "set_file_path_manager fp w = w\<lparr>wr_files := fp\<rparr>"

section \<open>Queues\<close>

definition push_back_field_list :: "string \<Rightarrow> writer \<Rightarrow> writer" where
  "push_back_field_list fn w = w\<lparr>wr_field_list := wr_field_list w @ [fn]\<rparr>"

definition pop_front_field_list :: "writer \<Rightarrow> string \<times> writer" where
  "pop_front_field_list w =
     (case wr_field_list w of [] \<Rightarrow> ([], w) | fn # fns \<Rightarrow> (fn, w\<lparr>wr_field_list := fns\<rparr>))"

definition get_data_status :: "writer \<Rightarrow> bool" where
  "get_data_status w \<longleftrightarrow> fw_data_deque w = []"

definition push_data_to_deque :: "data_block \<Rightarrow> writer \<Rightarrow> writer" where
  "push_data_to_deque b w = w\<lparr>fw_data_deque := fw_data_deque w @ [b]\<rparr>"

definition pop_data_from_deque :: "writer \<Rightarrow> data_block option \<times> writer" where
  "pop_data_from_deque w =
     (case fw_data_deque w of [] \<Rightarrow> (None, w) | b # bs \<Rightarrow> (Some b, w\<lparr>fw_data_deque := bs\<rparr>))"

definition push_index_to_deque :: "string \<Rightarrow> string \<Rightarrow> index_entry \<Rightarrow> writer \<Rightarrow> writer" where
  "push_index_to_deque shard_id fn e w =
     (let info = om_at new_index_entry_info fn (wr_index_map w);
          info = (if ii_shard_id info = [] then info\<lparr>ii_shard_id := shard_id\<rparr> else info)
      in w\<lparr>wr_index_map := om_put fn (info\<lparr>ii_index_deque := ii_index_deque info @ [e]\<rparr>) (wr_index_map w)\<rparr>)"

text \<open>\<open>front\<close> of an empty deque is undefined.\<close>

definition pop_index_from_deque :: "string \<Rightarrow> writer \<Rightarrow> (index_entry option \<times> writer) result" where
  "pop_index_from_deque fn w =
     (case map_of (wr_index_map w) fn of
        None \<Rightarrow> Inr (None, w)
      | Some info \<Rightarrow>
          (case ii_index_deque info of
             [] \<Rightarrow> Inl (Out_of_range ''front'')
           | e # es \<Rightarrow> Inr (Some e, w\<lparr>wr_index_map := om_put fn (info\<lparr>ii_index_deque := es\<rparr>) (wr_index_map w)\<rparr>)))"

definition w_get_index_deque_size :: "string \<Rightarrow> writer \<Rightarrow> nat \<times> writer" where
  "w_get_index_deque_size fn w =
     (let info = om_at new_index_entry_info fn (wr_index_map w)
      in (length (ii_index_deque info), w\<lparr>wr_index_map := om_put fn info (wr_index_map w)\<rparr>))"

definition task_queue_empty :: "writer \<Rightarrow> bool" where
  "task_queue_empty w \<longleftrightarrow> wr_index_task_queue w = []"

definition push_task :: "string \<Rightarrow> writer \<Rightarrow> writer" where
  "push_task fn w =
     (if fn \<notin> wr_task_set w
      then w\<lparr>wr_task_set := insert fn (wr_task_set w), wr_index_task_queue := wr_index_task_queue w @ [fn]\<rparr>
      else w)"

definition pop_task :: "writer \<Rightarrow> string \<times> writer" where
  "pop_task w =
     (case wr_index_task_queue w of
        [] \<Rightarrow> ([], w)
      | fn # fns \<Rightarrow> (fn, w\<lparr>wr_index_task_queue := fns, wr_task_set := wr_task_set w - {fn}\<rparr>))"

definition empty_field_list :: "writer \<Rightarrow> bool" where
  "empty_field_list w \<longleftrightarrow> wr_field_list w = []"

definition size_field_list :: "writer \<Rightarrow> nat" where
  "size_field_list w = length (wr_field_list w)"

definition fields_empty :: "writer \<Rightarrow> bool" where
  "fields_empty w \<longleftrightarrow> wr_field_map w = Map.empty"

definition should_flush_index :: "write_env \<Rightarrow> string \<Rightarrow> writer \<Rightarrow> bool \<times> writer" where
  "should_flush_index env fn w =
     (case map_of (wr_index_map w) fn of
        None \<Rightarrow> (False, w)
      | Some info \<Rightarrow>
          (let (current_time, w) = clock_now env w in
           (10 \<le> length (ii_index_deque info) \<or>
              (passed_seconds 5 (ii_last_time info) current_time \<and> ii_index_deque info \<noteq> []), w)))"

text \<open>For an unknown field the function flows off its end.\<close>

definition skip_need_flush_data_block :: "write_env \<Rightarrow> string \<Rightarrow> string \<Rightarrow> writer \<Rightarrow> (bool \<times> writer) result" where
  "skip_need_flush_data_block env shard_id fn w =
     (case wr_field_map w fn of
        None \<Rightarrow> Inl No_return
      | Some f \<Rightarrow>
          (let (now, w) = clock_now env w; (r, f) = f_skip_need_flush_data_block now shard_id f
           in Inr (r, w\<lparr>wr_field_map := (wr_field_map w)(fn \<mapsto> f)\<rparr>)))"

text \<open>This one has an empty body.\<close>

definition index_need_flush_data_block :: "string \<Rightarrow> bool result" where
  "index_need_flush_data_block fn = Inl No_return"

section \<open>Shards\<close>

definition shard_attach :: "shard_state \<Rightarrow> writer \<Rightarrow> writer" where
  "shard_attach observer w = w\<lparr>wr_shard_observers := wr_shard_observers w @ [observer]\<rparr>"

definition shard_notify :: "write_env \<Rightarrow> bool \<Rightarrow> writer \<Rightarrow> writer" where
  "shard_notify env is_registered w =
     (let obs = wr_shard_observers w; n = wr_clock w in
      w\<lparr>wr_shard_observers := map2 (\<lambda>i. shard_update (we_clock env (n + i)) is_registered) [0..<length obs] obs,
        wr_clock := n + length obs\<rparr>)"

definition get_shard :: "string \<Rightarrow> writer \<Rightarrow> shard result" where
  "get_shard shard_id w = (case wr_mea_shard_map w shard_id of Some sh \<Rightarrow> Inr sh | None \<Rightarrow> Inl No_return)"

definition set_shard :: "string \<Rightarrow> shard \<Rightarrow> writer \<Rightarrow> writer" where
  "set_shard shard_id sh w = w\<lparr>wr_mea_shard_map := (wr_mea_shard_map w)(shard_id \<mapsto> sh)\<rparr>"

definition add_shard :: "string \<Rightarrow> shard option \<Rightarrow> writer \<Rightarrow> bool \<times> writer" where
  "add_shard shard_id sh w =
     (case sh of
        Some s \<Rightarrow> if shard_id \<noteq> [] then (True, set_shard shard_id s w) else (False, w)
      | None \<Rightarrow> (False, w))"

definition get_shard_ids :: "writer \<Rightarrow> string set" where
  "get_shard_ids w = sh_shard_id ` ran (wr_mea_shard_map w)"

definition two_digits :: "nat \<Rightarrow> string" where
  "two_digits n = (if n < 10 then ''0'' @ dec_nat n else dec_nat n)"

text \<open>\<open>to_time_t\<close> cuts the nanoseconds off towards zero; the format is \<open>%Y-%m-%d\<close>.\<close>

definition to_time_t :: "time_point \<Rightarrow> int" where
  "to_time_t t = (if 0 \<le> sint t then sint t div 10 ^ 9 else - ((- sint t) div 10 ^ 9))"

definition timestamp_to_shard_key :: "write_env \<Rightarrow> int \<Rightarrow> string" where
  "timestamp_to_shard_key env timestamp =
     (let (year, month, day) = we_localtime env timestamp
      in dec_int year @ ''-'' @ two_digits month @ ''-'' @ two_digits day)"

text \<open>\<open>get_time\<close> and \<open>mktime\<close> are the library's parser and its inverse of \<open>localtime\<close>.\<close>

definition shard_key_to_timestamp :: "(string \<Rightarrow> 'tm option) \<Rightarrow> ('tm \<Rightarrow> int) \<Rightarrow> string \<Rightarrow> int result" where
  "shard_key_to_timestamp get_time mktime shard_id =
     (case get_time shard_id of
        None \<Rightarrow> Inl (Runtime_error ''Failed to parse the shard key'')
      | Some tm \<Rightarrow>
          (let timestamp = mktime tm in
           if timestamp = - 1 then Inl (Runtime_error ''Conversion to time_t failed'') else Inr timestamp))"

section \<open>Writing a point\<close>

definition get_field :: "string \<Rightarrow> data_type \<Rightarrow> writer \<Rightarrow> field \<times> writer" where
  "get_field fn ty w =
     (case (case wr_field_map w fn of Some f \<Rightarrow> if \<not> f_status f then Some f else None | None \<Rightarrow> None) of
        Some f \<Rightarrow> (f, w)
      | None \<Rightarrow>
          (let f = sl_attach Field_observer (f_attach Field_observer (f_attach Queue_observer (mk_field ty fn)))
           in (f, w\<lparr>wr_field_map := (wr_field_map w)(fn \<mapsto> f)\<rparr>)))"

definition ensure_shard :: "string \<Rightarrow> writer \<Rightarrow> writer" where
  "ensure_shard shard_id w =
     (if wr_mea_shard_map w shard_id = None
      then set_shard shard_id (new_shard\<lparr>sh_database_name := wr_db_name w, sh_measurement := wr_tb_name w,
             sh_shard_id := shard_id\<rparr>) w
      else w)"

text \<open>The call of the monitor thread carries the series in the place of the data.\<close>

definition write_point ::
    "write_env \<Rightarrow> time_point \<Rightarrow> string \<Rightarrow> string \<Rightarrow> data_type \<Rightarrow> string \<Rightarrow> string \<Rightarrow> string \<Rightarrow> bool \<Rightarrow> writer \<Rightarrow> (string \<times> writer) result" where
  "write_point env timestamp series_key data ty fn db_name tb_name is_monitor_thread w =
     (if \<not> named_type ty then Inr (data, w)
      else
        (let (f, w) = get_field fn ty w;
             shard_id = timestamp_to_shard_key env (to_time_t timestamp);
             w = ensure_shard shard_id w;
             series_key_and_field_name = (if is_monitor_thread then data else series_key @ fn);
             data = (if is_monitor_thread then [] else data);
             f = f\<lparr>f_index_block_meta_key := series_key_and_field_name\<rparr>;
             (now, w) = clock_now env w;
             (now', w) = clock_now env w
         in res_bind (field_write (we_rand env) (we_junk_type env) now now' shard_id timestamp data db_name tb_name
                series_key_and_field_name f w) (\<lambda>(data', f, w).
              Inr (data', w\<lparr>wr_field_map := (wr_field_map w)(fn \<mapsto> f)\<rparr>))))"

section \<open>The flush queue\<close>

definition file_name_of :: "string \<Rightarrow> string" where
  "file_name_of path = rev (takeWhile (\<lambda>c. c \<noteq> CHR ''/'') (rev path))"

definition create_tsm_file_init :: "shard \<Rightarrow> string \<Rightarrow> shard" where
  "create_tsm_file_init sh new_tsm_file_path =
     sh\<lparr>sh_curr_file_path := new_tsm_file_path,
        sh_curr_file_margin := of_nat (DATA_BLOCK_MARGIN - 13),
        sh_curr_file_head_offset := 5,
        sh_curr_file_tail_offset := of_nat (DATA_BLOCK_MARGIN - 8),
        sh_tsm_file := sh_tsm_file sh @ [file_name_of new_tsm_file_path]\<rparr>"

text \<open>How a part of the loop body ends: it falls through, goes to the next round, or leaves the loop.\<close>

datatype flow = Onward | Again | Stop

text \<open>The space of the index block of a series, subtracted from an unsigned offset.\<close>

definition index_block_size :: "index_entry list \<Rightarrow> string \<Rightarrow> 64 word" where
  "index_block_size entries meta_key = of_nat (28 * length entries + 8 + length meta_key)"

definition write_series_index_block ::
    "write_env \<Rightarrow> field \<Rightarrow> index_entry list \<Rightarrow> string \<Rightarrow> 64 word \<Rightarrow> writer \<Rightarrow> writer result" where
  "write_series_index_block env f entries file_path tail_offset w =
     res_bind (on_tsm (write_series_index_block_to_file entries
         (create_index_meta (we_junk_count env) (f_type f) (f_index_block_meta_key f)) file_path (sint tail_offset)) w)
       (\<lambda>(_, w). Inr w)"

text \<open>
  First part of the loop: one task. The look-up makes an entry of the map for a field without one;
  a field that is not in the map of fields is a null pointer there afterwards, read at once.
\<close>

definition flush_index_task :: "write_env \<Rightarrow> writer \<Rightarrow> (flow \<times> writer) result" where
  "flush_index_task env w =
     (if task_queue_empty w then Inr (Onward, w)
      else
        (let (fn, w) = pop_task w;
             info = om_at new_index_entry_info fn (wr_index_map w);
             w = w\<lparr>wr_index_map := om_put fn info (wr_index_map w)\<rparr>
         in res_bind (get_shard (ii_shard_id info) w) (\<lambda>curr_shard.
            if ii_index_deque info = [] then Inr (Again, w)
            else
              (case wr_field_map w fn of
                 None \<Rightarrow> Inl Null_deref
               | Some f \<Rightarrow>
                   (let tail_offset = sh_curr_file_tail_offset curr_shard -
                          index_block_size (ii_index_deque info) (f_index_block_meta_key f) in
                    res_bind (write_series_index_block env f (ii_index_deque info)
                        (sh_curr_file_path curr_shard) tail_offset w) (\<lambda>w.
                      (let w = w\<lparr>wr_index_map := om_del fn (wr_index_map w)\<rparr>;
                           w = set_shard (ii_shard_id info) (curr_shard\<lparr>sh_curr_file_tail_offset := tail_offset\<rparr>) w;
                           w = shard_notify env True w
                       in Inr (Onward, w\<lparr>wr_field_map := (wr_field_map w)(fn \<mapsto> set_mate_status False f)\<rparr>)))))))) "

text \<open>
  A full file gets the index of every field that has entries, each with the key and type of the
  field \<open>f\<close> whose block did not fit; the offset moves after the block has been written.
\<close>

fun flush_all_indexes :: "write_env \<Rightarrow> field \<Rightarrow> string \<Rightarrow> 64 word \<Rightarrow> (string \<times> index_entry_info) list \<Rightarrow> writer \<Rightarrow> writer result" where
  "flush_all_indexes env f file_path tail_offset [] w = Inr w"
| "flush_all_indexes env f file_path tail_offset (indexs # rest) w =
     (if ii_index_deque (snd indexs) = [] then flush_all_indexes env f file_path tail_offset rest w
      else res_bind (write_series_index_block env f (ii_index_deque (snd indexs)) file_path tail_offset w) (\<lambda>w.
             flush_all_indexes env f file_path
               (tail_offset - index_block_size (ii_index_deque (snd indexs)) (f_index_block_meta_key f)) rest w))"

definition need_create_file :: "64 word \<Rightarrow> nat \<Rightarrow> string \<Rightarrow> bool" where
  "need_create_file margin predict_size series = (margin < of_nat (predict_size + 40 + length series))"

text \<open>
  The file the block goes to: margin and head offset of the current file, or of a new one, after the
  index of a full file has been written.
\<close>

definition create_block_file :: "write_env \<Rightarrow> string \<Rightarrow> writer \<Rightarrow> ((64 word \<times> 64 word \<times> string) \<times> writer) result" where
  "create_block_file env shard_id w =
     (let (now, w) = clock_now env w;
          (curr_file_path, files) = create_file now (wr_tb_name w) (wr_db_name w) ''tsm'' (wr_files w);
          w = w\<lparr>wr_files := files\<rparr>
      in res_bind (get_shard shard_id w) (\<lambda>curr_shard.
         (let w = shard_notify env True (set_shard shard_id (create_tsm_file_init curr_shard curr_file_path) w) in
          res_bind (on_tsm (write_header_to_file \<lparr>hd_magic = 1, hd_version = 1, hd_padding = we_junk_padding env\<rparr> curr_file_path) w) (\<lambda>(_, w).
          res_bind (on_tsm (write_footer_to_file \<lparr>ft_offset = 0\<rparr> curr_file_path (int DATA_BLOCK_MARGIN)) w) (\<lambda>(_, w).
            Inr ((of_nat (DATA_BLOCK_MARGIN - 13), 5, curr_file_path), w))))))"

definition choose_block_file ::
    "write_env \<Rightarrow> field \<Rightarrow> string \<Rightarrow> nat \<Rightarrow> string \<Rightarrow> writer \<Rightarrow> ((64 word \<times> 64 word \<times> string) \<times> writer) result" where
  "choose_block_file env f shard_id predict_size series w =
     res_bind (get_shard shard_id w) (\<lambda>curr_shard.
       (let curr_file_path = sh_curr_file_path curr_shard; margin = sh_curr_file_margin curr_shard in
        if curr_file_path = [] then create_block_file env shard_id w
        else if need_create_file margin predict_size series
        then res_bind (flush_all_indexes env f curr_file_path (sh_curr_file_tail_offset curr_shard) (wr_index_map w) w) (\<lambda>w.
               create_block_file env shard_id (w\<lparr>wr_index_map := []\<rparr>))
        else Inr ((margin, sh_curr_file_head_offset curr_shard, curr_file_path), w)))"

text \<open>After the block is in the file: its index entry, the observers, and the space that is left.\<close>

definition record_block ::
    "write_env \<Rightarrow> field \<Rightarrow> string \<Rightarrow> string \<Rightarrow> index_entry \<Rightarrow> 64 word \<Rightarrow> 64 word \<Rightarrow> int \<Rightarrow> writer \<Rightarrow> writer result" where
  "record_block env f fn shard_id entry margin head_offset use_size w =
     (let margin = margin - of_int use_size;
          head_offset = head_offset + of_int use_size;
          w = push_index_to_deque shard_id fn entry w;
          w = notify_all (f_observers f) (wr_db_name w) (wr_tb_name w) (shard_id, []) fn True True w;
          margin = margin - 28;
          (margin, w) =
            (if get_mate_status f then (margin, w)
             else
               (let (now, w) = clock_now env w; info = om_at new_index_entry_info fn (wr_index_map w) in
                (margin - of_nat (8 + length (f_index_block_meta_key f)),
                 w\<lparr>wr_field_map := (wr_field_map w)(fn \<mapsto> set_mate_status True f),
                   wr_index_map := om_put fn (info\<lparr>ii_last_time := now\<rparr>) (wr_index_map w)\<rparr>)));
          (due, w) = should_flush_index env fn w;
          w = (if due then push_task fn w else w)
      in res_bind (get_shard shard_id w) (\<lambda>curr_shard.
           Inr (shard_notify env True
             (set_shard shard_id (curr_shard\<lparr>sh_curr_file_margin := margin, sh_curr_file_head_offset := head_offset\<rparr>) w))))"

text \<open>Second part of the loop: one block.\<close>

definition flush_data_block :: "write_env \<Rightarrow> writer \<Rightarrow> (flow \<times> writer) result" where
  "flush_data_block env w =
     (case pop_data_from_deque w of
        (None, w) \<Rightarrow> Inr (Stop, w)
      | (Some b, w) \<Rightarrow>
          (let fn = db_field_name b; shard_id = db_shard_id b in
           res_bind (get_shard shard_id w) (\<lambda>_.
             case wr_field_map w fn of
               None \<Rightarrow> Inr (Stop, w)
             | Some f \<Rightarrow>
                 (let compress_timestamp = calculate_timestamp_size (we_snappy env) (db_timestamps b);
                      compress_val = calculate_val_size (we_snappy env) (db_values b);
                      predict_size = 16 + length compress_timestamp + length compress_val in
                  res_bind (choose_block_file env f shard_id predict_size (db_series_key_and_field_name b) w)
                    (\<lambda>((margin, head_offset, curr_file_path), w).
                  res_bind (on_tsm (write_data_to_file (we_snappy env) (new_data_block (we_junk_type env)) (db_type b) (db_num b)
                      compress_timestamp compress_val curr_file_path (sint head_offset)) w) (\<lambda>(use_size, w).
                  res_bind (record_block env f fn shard_id
                      (create_index_entry (db_max_timestamp b) (db_min_timestamp b) head_offset (of_int use_size))
                      margin head_offset use_size w) (\<lambda>w. Inr (Again, w))))))))"

definition flush_round :: "write_env \<Rightarrow> writer \<Rightarrow> (flow \<times> writer) result" where
  "flush_round env w =
     res_bind (flush_index_task env w) (\<lambda>(s, w). if s = Onward then flush_data_block env w else Inr (s, w))"

text \<open>What the parts of a round leave alone: the queues, up to one block, one task or one new task.\<close>

definition queues :: "writer \<Rightarrow> data_block list \<times> string list" where
  "queues w = (fw_data_deque w, wr_index_task_queue w)"

lemma queues_simps [simp]:
  "queues (w\<lparr>wr_index_map := a\<rparr>) = queues w" "queues (w\<lparr>wr_field_map := b\<rparr>) = queues w"
  "queues (w\<lparr>wr_mea_shard_map := c\<rparr>) = queues w" "queues (w\<lparr>wr_clock := n\<rparr>) = queues w"
  "queues (w\<lparr>wr_files := fp\<rparr>) = queues w" "queues (w\<lparr>wr_tsm := t\<rparr>) = queues w"
  "queues (w\<lparr>wr_shard_observers := os\<rparr>) = queues w" "queues (set_shard s sh w) = queues w"
  "queues (shard_notify env r w) = queues w" "queues (push_index_to_deque s fn e w) = queues w"
  by (simp_all add: queues_def set_shard_def shard_notify_def push_index_to_deque_def Let_def)

lemma queues_clock_now: "clock_now env w = (t, w') \<Longrightarrow> queues w' = queues w"
  by (auto simp: clock_now_def)

lemma queues_on_tsm: "on_tsm op w = Inr (r, w') \<Longrightarrow> queues w' = queues w"
  by (auto simp: on_tsm_def res_bind_eq_Inr)

lemma observer_update_tasks [simp]:
  "wr_index_task_queue (observer_update ob db tb info fn reg idx w) = wr_index_task_queue w"
  by (cases ob) simp_all

lemma queues_notify_all [simp]: "queues (notify_all obs db tb info fn reg idx w) = queues w"
  unfolding notify_all_def by (induction obs arbitrary: w) (simp_all add: queues_def)

lemma queues_write_series_index_block:
  "write_series_index_block env f es p off w = Inr w' \<Longrightarrow> queues w' = queues w"
  by (auto simp: write_series_index_block_def res_bind_eq_Inr dest: queues_on_tsm)

lemma queues_flush_all_indexes:
  "flush_all_indexes env f p off im w = Inr w' \<Longrightarrow> queues w' = queues w"
  by (induction env f p off im w rule: flush_all_indexes.induct)
     (auto simp: res_bind_eq_Inr split: if_splits dest: queues_write_series_index_block)

lemma queues_create_block_file: "create_block_file env s w = Inr (r, w') \<Longrightarrow> queues w' = queues w"
  by (auto simp: create_block_file_def Let_def res_bind_eq_Inr split: prod.splits
      dest!: queues_on_tsm queues_clock_now)

lemma queues_choose_block_file: "choose_block_file env f s n k w = Inr (r, w') \<Longrightarrow> queues w' = queues w"
  by (auto simp: choose_block_file_def Let_def res_bind_eq_Inr split: if_splits
      dest!: queues_create_block_file queues_flush_all_indexes)

lemma queues_should_flush_index: "should_flush_index env fn w = (r, w') \<Longrightarrow> queues w' = queues w"
  by (auto simp: should_flush_index_def Let_def split: option.splits prod.splits dest: queues_clock_now)

lemma queues_push_task:
  "queues (push_task fn w) = (fst (queues w), snd (queues w) @ (if fn \<in> wr_task_set w then [] else [fn]))"
  by (simp add: push_task_def queues_def)

lemma queues_record_block:
  assumes "record_block env f fn s e m h u w = Inr w'"
  shows "queues w' = queues w \<or> queues w' = (fst (queues w), snd (queues w) @ [fn])"
  using assms unfolding record_block_def Let_def
  by (auto simp: res_bind_eq_Inr queues_push_task split: prod.splits if_splits
      dest!: queues_should_flush_index queues_clock_now)

text \<open>A task turns into nothing and a block into at most one task, so every round is paid for.\<close>

definition flush_work :: "writer \<Rightarrow> nat" where
  "flush_work w = 2 * length (fw_data_deque w) + length (wr_index_task_queue w)"

lemma flush_work_queues: "flush_work w = 2 * length (fst (queues w)) + length (snd (queues w))"
  by (simp add: flush_work_def queues_def)

lemma pop_task_queues:
  "wr_index_task_queue w = fn # fns \<Longrightarrow> pop_task w = (fn, w\<lparr>wr_index_task_queue := fns, wr_task_set := wr_task_set w - {fn}\<rparr>)"
  by (simp add: pop_task_def)

lemma flush_index_task_queues:
  assumes "flush_index_task env w = Inr (s, w')"
  shows "(s = Onward \<and> wr_index_task_queue w = [] \<and> w' = w) \<or>
    (s \<noteq> Stop \<and> (\<exists>fn. wr_index_task_queue w = fn # snd (queues w') \<and> fst (queues w') = fw_data_deque w))"
proof (cases "wr_index_task_queue w")
  case Nil
  then show ?thesis using assms by (simp add: flush_index_task_def task_queue_empty_def)
next
  case (Cons fn fns)
  define w0 where "w0 = w\<lparr>wr_index_task_queue := fns, wr_task_set := wr_task_set w - {fn}\<rparr>"
  have q0: "queues w0 = (fw_data_deque w, fns)" by (simp add: w0_def queues_def)
  have "queues w' = queues w0 \<and> s \<noteq> Stop"
    using assms Cons unfolding flush_index_task_def task_queue_empty_def pop_task_queues [OF Cons] w0_def [symmetric] Let_def
    by (auto simp: res_bind_eq_Inr split: option.splits if_splits dest!: queues_write_series_index_block)
  then show ?thesis using q0 Cons by simp
qed

lemma flush_data_block_queues:
  assumes "flush_data_block env w = Inr (s, w')"
  shows "(s = Stop \<and> fw_data_deque w = [] \<and> w' = w) \<or>
    (\<exists>b. fw_data_deque w = b # fst (queues w') \<and> length (snd (queues w')) \<le> Suc (length (wr_index_task_queue w)) \<and>
       s \<noteq> Onward)"
proof (cases "fw_data_deque w")
  case Nil
  then show ?thesis using assms by (simp add: flush_data_block_def pop_data_from_deque_def)
next
  case (Cons b bs)
  define w0 where "w0 = w\<lparr>fw_data_deque := bs\<rparr>"
  have q0: "queues w0 = (bs, wr_index_task_queue w)" by (simp add: w0_def queues_def)
  have "(queues w' = queues w0 \<or> queues w' = (fst (queues w0), snd (queues w0) @ [db_field_name b])) \<and> s \<noteq> Onward"
    using assms Cons unfolding flush_data_block_def pop_data_from_deque_def Let_def
    by (auto simp: res_bind_eq_Inr w0_def [symmetric] split: option.splits prod.splits
        dest!: queues_choose_block_file queues_on_tsm queues_record_block)
  then show ?thesis using q0 Cons by auto
qed

lemma flush_round_work:
  assumes "flush_round env w = Inr (s, w')" "s \<noteq> Stop"
  shows "flush_work w' < flush_work w"
proof -
  obtain s1 w1 where 1: "flush_index_task env w = Inr (s1, w1)"
    and 2: "(if s1 = Onward then flush_data_block env w1 else Inr (s1, w1)) = Inr (s, w')"
    using assms(1) by (auto simp: flush_round_def res_bind_eq_Inr)
  have w1: "flush_work w1 \<le> flush_work w" "s1 \<noteq> Onward \<Longrightarrow> flush_work w1 < flush_work w"
    using flush_index_task_queues [OF 1] by (auto simp: flush_work_queues queues_def)
  show ?thesis
  proof (cases "s1 = Onward")
    case True
    then have "flush_work w' < flush_work w1"
      using 2 assms(2) flush_data_block_queues [of env w1 s w'] by (auto simp: flush_work_queues queues_def)
    then show ?thesis using w1 by simp
  next
    case False
    then show ?thesis using 2 w1 by simp
  qed
qed

function queue_flush_disk :: "write_env \<Rightarrow> writer \<Rightarrow> writer result" where
  "queue_flush_disk env w =
     (case flush_round env w of
        Inl e \<Rightarrow> Inl e
      | Inr r \<Rightarrow> if fst r = Stop then Inr (snd r) else queue_flush_disk env (snd r))"
  by pat_completeness auto
termination
  by (relation "measure (\<lambda>(env, w). flush_work w)") (auto dest: flush_round_work)

declare queue_flush_disk.simps [simp del]

end
