(* ===== verification/Write_Safety.thy ===== *)
theory Write_Safety
  imports Write_Flush
begin

text \<open>
  The flush queue keeps the file of a shard sound. The invariant \<open>flush_ok\<close> ties the margin and the
  two offsets of the shard, the index entries that wait in memory and the bytes of the file together:
  data grows from the front, the index from the back, and what the waiting entries will need is set
  aside between them.
\<close>

section \<open>Operations on the file of a shard\<close>

definition tsm_io :: "writer \<Rightarrow> file_io" where
  "tsm_io w = (wr_tsm w)\<lparr>io_disk := fp_disk (wr_files w)\<rparr>"

definition set_tsm_io :: "file_io \<Rightarrow> writer \<Rightarrow> writer" where
  "set_tsm_io io w = w\<lparr>wr_tsm := io, wr_files := set_disk (io_disk io) (wr_files w)\<rparr>"

lemma on_tsm_bind:
  assumes "yields (op (tsm_io w)) Q" and "\<And>r io. Q (r, io) \<Longrightarrow> yields (k (r, set_tsm_io io w)) R"
  shows "yields (res_bind (on_tsm op w) k) R"
  using assms by (auto simp: on_tsm_def tsm_io_def set_tsm_io_def res_bind_def yields_def split: sum.splits)

lemma set_tsm_io_simps [simp]:
  "tsm_io (set_tsm_io io w) = io" "fp_disk (wr_files (set_tsm_io io w)) = io_disk io"
  "fp_map (wr_files (set_tsm_io io w)) = fp_map (wr_files w)"
  "fw_data_deque (set_tsm_io io w) = fw_data_deque w" "wr_field_map (set_tsm_io io w) = wr_field_map w"
  "wr_index_map (set_tsm_io io w) = wr_index_map w" "wr_mea_shard_map (set_tsm_io io w) = wr_mea_shard_map w"
  "wr_task_set (set_tsm_io io w) = wr_task_set w" "wr_index_task_queue (set_tsm_io io w) = wr_index_task_queue w"
  by (simp_all add: tsm_io_def set_tsm_io_def set_disk_def)

lemma io_disk_tsm_io [simp]: "io_disk (tsm_io w) = fp_disk (wr_files w)"
  by (simp add: tsm_io_def)

lemma tsm_io_updates [simp]:
  "tsm_io (w\<lparr>wr_clock := n\<rparr>) = tsm_io w" "tsm_io (w\<lparr>wr_field_map := fm\<rparr>) = tsm_io w"
  "tsm_io (w\<lparr>wr_index_map := im\<rparr>) = tsm_io w" "tsm_io (w\<lparr>wr_task_set := ts\<rparr>) = tsm_io w"
  "tsm_io (w\<lparr>wr_index_task_queue := q\<rparr>) = tsm_io w" "tsm_io (w\<lparr>wr_mea_shard_map := sm\<rparr>) = tsm_io w"
  "tsm_io (w\<lparr>fw_data_deque := bs\<rparr>) = tsm_io w" "tsm_io (w\<lparr>wr_shard_observers := os\<rparr>) = tsm_io w"
  by (simp_all add: tsm_io_def)

text \<open>The parts of the writer that the flush queue rests on; the others only move the clock and the observers.\<close>

definition core where
  "core w = (tsm_io w, fp_map (wr_files w), wr_field_map w, wr_index_map w, wr_mea_shard_map w, wr_task_set w,
     wr_index_task_queue w, fw_data_deque w)"

lemma core_simps [simp]:
  "core (w\<lparr>wr_clock := n\<rparr>) = core w" "core (shard_notify env r w) = core w"
  "core (w\<lparr>wr_shard_observers := os\<rparr>) = core w" "core (w\<lparr>fw_field_state := fs\<rparr>) = core w"
  "core (w\<lparr>fw_table_state := ts\<rparr>) = core w"
  by (simp_all add: core_def tsm_io_def shard_notify_def Let_def)

lemma core_notify_all [simp]: "core (notify_all obs db tb info fn reg idx w) = core w"
proof -
  have "core (observer_update ob db tb info fn reg idx v) = core v" for ob and v :: writer by (cases ob) simp_all
  then show ?thesis unfolding notify_all_def by (induction obs arbitrary: w) simp_all
qed

lemma core_fields:
  assumes "core w = core w'"
  shows "tsm_io w = tsm_io w'" "fp_map (wr_files w) = fp_map (wr_files w')" "wr_field_map w = wr_field_map w'"
    "wr_index_map w = wr_index_map w'" "wr_mea_shard_map w = wr_mea_shard_map w'" "wr_task_set w = wr_task_set w'"
    "wr_index_task_queue w = wr_index_task_queue w'" "fw_data_deque w = fw_data_deque w'"
  using assms by (simp_all add: core_def)

lemmas notify_fields [simp] =
  core_fields [OF core_notify_all] core_fields [OF core_simps(2)] core_fields [OF core_simps(1)]

section \<open>The chain of index blocks in a file\<close>

text \<open>From \<open>start\<close> to the footer there are the blocks \<open>bs\<close>; what the footer holds is left open.\<close>

definition index_chain :: "string \<Rightarrow> (index_block_meta \<times> index_entry list) list \<Rightarrow> nat \<Rightarrow> bool" where
  "index_chain f bs start \<longleftrightarrow>
     (\<exists>foot. length foot = 8 \<and> start \<le> length f \<and> drop start f = concat (map block_image bs) @ foot)"

lemma index_chain_length:
  "index_chain f bs start \<Longrightarrow> length f = start + length (concat (map block_image bs)) + 8"
proof -
  assume "index_chain f bs start"
  then obtain foot where foot: "length foot = 8" "start \<le> length f" "drop start f = concat (map block_image bs) @ foot"
    by (auto simp: index_chain_def)
  have "length (drop start f) = length (concat (map block_image bs) @ foot)" by (rule arg_cong [OF foot(3)])
  then show ?thesis unfolding length_drop length_append using foot(1,2) by linarith
qed

lemma index_chain_below:
  assumes c: "index_chain f bs start" and "off + length xs \<le> start"
  shows "index_chain (pwrite off xs f) bs start"
proof -
  have le: "off \<le> length f" "off + length xs \<le> length f"
    using assms(2) index_chain_length [OF c] by simp_all
  have "drop start (pwrite off xs f) = drop start f"
    unfolding pwrite_inside [OF le(1)] using assms(2) le by (simp add: min_def)
  moreover have "length (pwrite off xs f) = length f" unfolding pwrite_inside [OF le(1)] using le by simp
  ultimately show ?thesis using c by (simp add: index_chain_def)
qed

lemma index_chain_extend:
  assumes c: "index_chain f bs start" and off: "off + length (block_image b) = start" "off < 2 ^ 63"
  defines "g \<equiv> pwrite off (block_image b) f"
  defines "h \<equiv> pwrite (length g - 8) (put_word 8 (of_nat off :: 64 word)) g"
  shows "index_chain h (b # bs) off" "index_region h (b # bs) off" "length g = length f"
proof -
  obtain foot where foot: "length foot = 8" "drop start f = concat (map block_image bs) @ foot"
    using c by (auto simp: index_chain_def)
  let ?R = "concat (map block_image bs)"
  have len: "length f = start + length ?R + 8" by (rule index_chain_length [OF c])
  have le: "off \<le> length f" "start \<le> length f" using off len by simp_all
  have g: "g = take off f @ block_image b @ drop start f"
    unfolding g_def using pwrite_inside [OF le(1)] off by simp
  then have g2: "g = (take off f @ block_image b @ ?R) @ foot" using foot(2) by simp
  show "length g = length f" using g2 off len le foot by simp
  have "h = (take off f @ block_image b @ ?R) @ put_word 8 (of_nat off :: 64 word)"
    unfolding h_def g2 by (rule pwrite_last) (simp_all add: foot)
  then show "index_chain h (b # bs) off" "index_region h (b # bs) off"
    using off le by (auto simp: index_chain_def index_region_def)
qed

section \<open>The invariant\<close>

text \<open>What the index entries of a field will need: the entries, and the key that heads their block.\<close>

definition entry_space :: "writer \<Rightarrow> string \<Rightarrow> nat" where
  "entry_space w fn = 28 * length (ii_index_deque (om_at new_index_entry_info fn (wr_index_map w))) + 8 +
     (case wr_field_map w fn of Some f \<Rightarrow> length (f_index_block_meta_key f) | None \<Rightarrow> 0)"

definition set_aside :: "writer \<Rightarrow> nat" where
  "set_aside w = sum (entry_space w) (dom (map_of (wr_index_map w)))"

text \<open>An entry describes a block, and the block lies in the data region that ends at \<open>h\<close>.\<close>

definition entry_of :: "snappy \<Rightarrow> string \<Rightarrow> nat \<Rightarrow> data_block \<Rightarrow> index_entry \<Rightarrow> bool" where
  "entry_of sn f h b e \<longleftrightarrow> named_type (db_type b) \<and> data_ok sn (db_timestamps b) (db_values b) \<and>
     ie_max_time e = db_max_timestamp b \<and> ie_min_time e = db_min_timestamp b \<and>
     data_at f (unat (ie_offset e)) (db_type b) (db_num b)
       (calculate_timestamp_size sn (db_timestamps b)) (calculate_val_size sn (db_values b)) \<and>
     unat (ie_size e) = 16 + length (calculate_timestamp_size sn (db_timestamps b)) + length (calculate_val_size sn (db_values b)) \<and>
     unat (ie_offset e) + unat (ie_size e) \<le> h"

text \<open>An entry under a series key, waiting in memory or in a block of the index.\<close>

definition indexed :: "writer \<Rightarrow> (index_block_meta \<times> index_entry list) list \<Rightarrow> string \<Rightarrow> index_entry \<Rightarrow> bool" where
  "indexed w bs key e \<longleftrightarrow>
     (\<exists>fn f info. wr_field_map w fn = Some f \<and> f_index_block_meta_key f = key \<and>
        map_of (wr_index_map w) fn = Some info \<and> e \<in> set (ii_index_deque info)) \<or>
     (\<exists>b \<in> set bs. im_key (fst b) = key \<and> e \<in> set (snd b))"

text \<open>
  Memory: the fields with waiting entries are known, these entries belong to the shard \<open>s\<close>, a field
  has counted its key exactly when it has entries, and the task queue lists some of these fields once.
\<close>

definition memory_ok :: "string \<Rightarrow> writer \<Rightarrow> bool" where
  "memory_ok s w \<longleftrightarrow> s \<noteq> [] \<and>
     (\<forall>fn info. map_of (wr_index_map w) fn = Some info \<longrightarrow>
        ii_shard_id info = s \<and> ii_index_deque info \<noteq> [] \<and> wr_field_map w fn \<noteq> None) \<and>
     (\<forall>fn f. wr_field_map w fn = Some f \<longrightarrow> named_type (f_type f) \<and> NUL \<notin> set (f_index_block_meta_key f) \<and>
        get_mate_status f = (map_of (wr_index_map w) fn \<noteq> None)) \<and>
     wr_task_set w = set (wr_index_task_queue w) \<and> distinct (wr_index_task_queue w) \<and>
     set (wr_index_task_queue w) \<subseteq> dom (map_of (wr_index_map w))"

text \<open>The file: \<open>stored\<close> are the blocks that have been flushed.\<close>

definition file_ok ::
    "snappy \<Rightarrow> shard \<Rightarrow> string \<Rightarrow> (index_block_meta \<times> index_entry list) list \<Rightarrow> data_block list \<Rightarrow> writer \<Rightarrow> bool" where
  "file_ok sn sh f bs stored w \<longleftrightarrow>
     (let h = unat (sh_curr_file_head_offset sh); t = unat (sh_curr_file_tail_offset sh) in
      h + unat (sh_curr_file_margin sh) + set_aside w = t \<and> t \<le> 504 \<and>
      index_chain f bs t \<and> (\<forall>b \<in> set bs. block_ok b) \<and>
      (h = 5 \<or> first_block_before sn f h) \<and>
      (\<forall>b \<in> set stored. \<exists>e. indexed w bs (db_series_key_and_field_name b) e \<and> entry_of sn f h b e))"

definition flush_ok :: "snappy \<Rightarrow> string set \<Rightarrow> string \<Rightarrow> data_block list \<Rightarrow> writer \<Rightarrow> bool" where
  "flush_ok sn P s stored w \<longleftrightarrow> memory_ok s w \<and> io_ready P (tsm_io w) \<and>
     (\<exists>sh f bs. wr_mea_shard_map w s = Some sh \<and> sh_curr_file_path sh \<noteq> [] \<and> sh_curr_file_path sh \<in> P \<and>
        files (fp_disk (wr_files w)) (sh_curr_file_path sh) = Some f \<and> file_ok sn sh f bs stored w)"

lemma entry_space_core: "core w = core w' \<Longrightarrow> entry_space w = entry_space w'"
  using core_fields [of w w'] by (simp add: entry_space_def fun_eq_iff)

lemma flush_ok_core:
  assumes "core w = core w'"
  shows "flush_ok sn P s stored w = flush_ok sn P s stored w'"
proof -
  note cf = core_fields [OF assms]
  have d: "fp_disk (wr_files w) = fp_disk (wr_files w')" using cf(1) by (metis io_disk_tsm_io)
  have 1: "memory_ok s w = memory_ok s w'" using cf by (simp add: memory_ok_def)
  have 2: "file_ok sn sh f bs stored w = file_ok sn sh f bs stored w'" for sh f bs
    using cf entry_space_core [OF assms] by (simp add: file_ok_def indexed_def set_aside_def)
  show ?thesis using cf d 1 2 by (simp add: flush_ok_def)
qed

text \<open>A write that stays away from the data region keeps what the entries describe.\<close>

lemma entry_of_pwrite:
  assumes "entry_of sn f h b e" "h \<le> off"
  shows "entry_of sn (pwrite off bs f) h b e"
  using assms unfolding entry_of_def by (auto intro!: data_at_pwrite_other)

lemma entry_of_later: "entry_of sn f h b e \<Longrightarrow> h \<le> h' \<Longrightarrow> entry_of sn f h' b e"
  by (auto simp: entry_of_def)

lemma first_block_before_pwrite:
  assumes "first_block_before sn f h" "h \<le> off"
  shows "first_block_before sn (pwrite off bs f) h"
  using assms unfolding first_block_before_def
  by (elim exE conjE) (metis data_at_pwrite_other le_trans)

lemma first_block_before_later: "first_block_before sn f h \<Longrightarrow> h \<le> h' \<Longrightarrow> first_block_before sn f h'"
  unfolding first_block_before_def by (elim exE conjE) (meson le_trans)

lemma index_block_size_unat:
  "28 * length es + 8 + length key < 2 ^ 64 \<Longrightarrow> unat (index_block_size es key) = 28 * length es + 8 + length key"
  by (simp add: index_block_size_def unat_of_nat take_bit_nat_eq_self del: of_nat_add of_nat_mult)

section \<open>A task\<close>

definition field_key :: "writer \<Rightarrow> string \<Rightarrow> string option" where
  "field_key w fn = map_option f_index_block_meta_key (wr_field_map w fn)"

definition shard_margin :: "string \<Rightarrow> writer \<Rightarrow> nat" where
  "shard_margin s w = (case wr_mea_shard_map w s of Some sh \<Rightarrow> unat (sh_curr_file_margin sh) | None \<Rightarrow> 0)"

definition series_meta :: "field \<Rightarrow> index_entry list \<Rightarrow> index_block_meta" where
  "series_meta f es = \<lparr>im_key_size = of_nat (length (f_index_block_meta_key f)), im_key = f_index_block_meta_key f,
     im_type = f_type f, im_count = of_nat (length es)\<rparr>"

lemma length_series_image [simp]:
  "length (block_image (series_meta f es, es)) = 28 * length es + 8 + length (f_index_block_meta_key f)"
  by (simp add: length_block_image series_meta_def)

lemma unat_small16: "n < 2 ^ 16 \<Longrightarrow> unat (of_nat n :: 16 word) = n"
  by (simp add: unat_of_nat take_bit_eq_mod)

lemma series_meta_ok:
  assumes "named_type (f_type f)" "NUL \<notin> set (f_index_block_meta_key f)"
    "28 * length es + 8 + length (f_index_block_meta_key f) < 2 ^ 16"
  shows "block_ok (series_meta f es, es)"
  using assms by (simp add: block_ok_def meta_ok_def series_meta_def unat_small16)

lemma write_series_index_block_ok:
  assumes "io_ready P (tsm_io w)" "p \<in> P" "files (fp_disk (wr_files w)) p = Some f" "named_type (f_type fl)"
    "length (f_index_block_meta_key fl) < 2 ^ 16" "es \<noteq> []" "8 \<le> length f" "unat off < 2 ^ 63"
  defines "g \<equiv> pwrite (unat off) (block_image (series_meta fl es, es)) f"
  shows "yields (write_series_index_block env fl es p off w) (\<lambda>w'. \<exists>io. w' = set_tsm_io io w \<and>
    wrote P p (pwrite (length g - 8) (put_word 8 (of_nat (unat off) :: 64 word)) g) (tsm_io w) io)"
proof -
  let ?m = "\<lparr>im_key_size = of_nat (length (f_index_block_meta_key fl)), im_key = f_index_block_meta_key fl,
     im_type = f_type fl, im_count = we_junk_count env\<rparr>"
  have meta: "create_index_meta (we_junk_count env) (f_type fl) (f_index_block_meta_key fl) = Some ?m"
    using assms(4) by (simp add: create_index_meta_def)
  have ok: "meta_ok ?m" using assms(5) by (simp add: meta_ok_def unat_small16)
  have off: "sint off = int (unat off)" using sint_small64 [OF assms(8)] by simp
  have f: "files (io_disk (tsm_io w)) p = Some f" using assms(3) by simp
  show ?thesis
    unfolding write_series_index_block_def meta off
    by (rule on_tsm_bind, rule write_series_index_block_ready [OF assms(1,2) f ok assms(6,7)])
       (auto simp: series_meta_def g_def)
qed

lemma set_aside_remove:
  assumes "fn \<in> dom (map_of (wr_index_map w))"
    "map_of (wr_index_map w') = (map_of (wr_index_map w))(fn := None)"
    "\<And>k. k \<noteq> fn \<Longrightarrow> wr_field_map w' k = wr_field_map w k"
  shows "set_aside w = entry_space w fn + set_aside w'"
proof -
  have "entry_space w k = entry_space w' k" if "k \<noteq> fn" for k
    using that assms(2,3) by (simp add: entry_space_def om_at_def)
  then have "sum (entry_space w) (dom (map_of (wr_index_map w)) - {fn}) = set_aside w'"
    unfolding set_aside_def by (intro sum.cong) (auto simp: assms(2))
  then show ?thesis unfolding set_aside_def using assms(1) by (subst sum.remove [of _ fn]) (auto simp: finite_dom_map_of)
qed

lemma set_aside_insert:
  assumes "fn \<notin> dom (map_of (wr_index_map w))"
    "map_of (wr_index_map w') = (map_of (wr_index_map w))(fn \<mapsto> info)"
    "\<And>k. k \<noteq> fn \<Longrightarrow> wr_field_map w' k = wr_field_map w k"
  shows "set_aside w' = entry_space w' fn + set_aside w"
  by (rule set_aside_remove) (use assms in \<open>auto simp: fun_eq_iff\<close>)

text \<open>What is set aside for a field with entries fits between data and index.\<close>

lemma entry_space_fits:
  assumes "file_ok sn sh f bs stored w" "fn \<in> dom (map_of (wr_index_map w))"
  shows "unat (sh_curr_file_head_offset sh) + entry_space w fn \<le> unat (sh_curr_file_tail_offset sh)"
    "unat (sh_curr_file_tail_offset sh) \<le> 504"
proof -
  have "entry_space w fn \<le> set_aside w"
    unfolding set_aside_def by (rule member_le_sum) (use assms(2) in \<open>auto simp: finite_dom_map_of\<close>)
  then show "unat (sh_curr_file_head_offset sh) + entry_space w fn \<le> unat (sh_curr_file_tail_offset sh)"
    using assms(1) by (simp add: file_ok_def Let_def)
  show "unat (sh_curr_file_tail_offset sh) \<le> 504" using assms(1) by (simp add: file_ok_def Let_def)
qed

text \<open>The file after the entries of a field have moved from memory to the index.\<close>

lemma file_ok_index_written:
  assumes ok: "file_ok sn sh f bs stored w" and info: "map_of (wr_index_map w) fn = Some info"
    and fl: "wr_field_map w fn = Some fl" "named_type (f_type fl)" "NUL \<notin> set (f_index_block_meta_key fl)"
    and im: "map_of (wr_index_map w') = (map_of (wr_index_map w))(fn := None)"
    and fm: "wr_field_map w' = (wr_field_map w)(fn \<mapsto> fl')" "f_index_block_meta_key fl' = f_index_block_meta_key fl"
  defines "b \<equiv> (series_meta fl (ii_index_deque info), ii_index_deque info)"
  defines "off \<equiv> unat (sh_curr_file_tail_offset sh) - entry_space w fn"
  defines "g \<equiv> pwrite off (block_image b) f"
  assumes tail: "unat tail = off"
  shows "file_ok sn (sh\<lparr>sh_curr_file_tail_offset := tail\<rparr>)
    (pwrite (length g - 8) (put_word 8 (of_nat off :: 64 word)) g) (b # bs) stored w'"
    and "index_region (pwrite (length g - 8) (put_word 8 (of_nat off :: 64 word)) g) (b # bs) off"
proof -
  let ?h = "unat (sh_curr_file_head_offset sh)" and ?t = "unat (sh_curr_file_tail_offset sh)"
  let ?f = "pwrite (length g - 8) (put_word 8 (of_nat off :: 64 word)) g"
  have dom: "fn \<in> dom (map_of (wr_index_map w))" using info by blast
  note fits = entry_space_fits [OF ok dom]
  have sp: "length (block_image b) = entry_space w fn"
    using info fl(1) by (simp add: b_def entry_space_def)
  have chain: "index_chain f bs ?t" and blocks: "\<forall>b \<in> set bs. block_ok b"
    and h: "?h = 5 \<or> first_block_before sn f ?h" and space: "?h + unat (sh_curr_file_margin sh) + set_aside w = ?t"
    and st: "\<forall>b \<in> set stored. \<exists>e. indexed w bs (db_series_key_and_field_name b) e \<and> entry_of sn f ?h b e"
    using ok by (simp_all add: file_ok_def Let_def)
  have off: "off + length (block_image b) = ?t" "?h \<le> off" "off < 2 ^ 63" using fits sp by (simp_all add: off_def)
  note ext = index_chain_extend [OF chain off(1,3), folded g_def]
  have len: "?h \<le> length g - 8" using ext(3) index_chain_length [OF chain] off by simp
  have bok: "block_ok b" unfolding b_def
    by (rule series_meta_ok) (use fl fits sp in \<open>auto simp: b_def\<close>)
  have "set_aside w = entry_space w fn + set_aside w'"
    by (rule set_aside_remove [OF dom im]) (simp add: fm)
  then have "?h + unat (sh_curr_file_margin sh) + set_aside w' = off" using space off(1) sp by simp
  moreover have "?h = 5 \<or> first_block_before sn ?f ?h"
    using h off(2) len first_block_before_pwrite unfolding g_def by blast
  moreover have "\<exists>e. indexed w' (b # bs) (db_series_key_and_field_name x) e \<and> entry_of sn ?f ?h x e" if x: "x \<in> set stored" for x
  proof -
    obtain e where e: "indexed w bs (db_series_key_and_field_name x) e" "entry_of sn f ?h x e"
      using bspec [OF st x] by (elim exE conjE)
    have "indexed w' (b # bs) (db_series_key_and_field_name x) e"
    proof (cases "\<exists>b \<in> set bs. im_key (fst b) = db_series_key_and_field_name x \<and> e \<in> set (snd b)")
      case False
      then obtain k f' i where k: "wr_field_map w k = Some f'" "f_index_block_meta_key f' = db_series_key_and_field_name x"
        "map_of (wr_index_map w) k = Some i" "e \<in> set (ii_index_deque i)"
        using e(1) by (auto simp: indexed_def)
      show ?thesis
      proof (cases "k = fn")
        case True
        then show ?thesis using k info fl by (auto simp: indexed_def b_def series_meta_def)
      next
        case False
        then have "wr_field_map w' k = Some f'" "map_of (wr_index_map w') k = Some i" using k im fm by simp_all
        then show ?thesis using k(2,4) unfolding indexed_def by blast
      qed
    qed (auto simp: indexed_def)
    moreover have "entry_of sn ?f ?h x e"
      using e(2) off(2) len unfolding g_def by (intro entry_of_pwrite) simp_all
    ultimately show ?thesis by blast
  qed
  ultimately show "file_ok sn (sh\<lparr>sh_curr_file_tail_offset := tail\<rparr>) ?f (b # bs) stored w'"
    using ext(1) bok blocks tail off(1) fits(2) by (simp add: file_ok_def Let_def)
  show "index_region ?f (b # bs) off" by (rule ext(2))
qed

text \<open>What a step of the queue promises besides the invariant.\<close>

definition same_keys :: "writer \<Rightarrow> writer \<Rightarrow> bool" where
  "same_keys w w' \<longleftrightarrow> (\<forall>fn. map_option (\<lambda>f. (f_index_block_meta_key f, f_type f)) (wr_field_map w' fn) =
     map_option (\<lambda>f. (f_index_block_meta_key f, f_type f)) (wr_field_map w fn))"

lemma same_keys_refl [simp]: "same_keys w w"
  by (simp add: same_keys_def)

lemma same_keys_trans: "same_keys w w' \<Longrightarrow> same_keys w' w'' \<Longrightarrow> same_keys w w''"
  by (simp add: same_keys_def)

lemma set_mate_status_simps [simp]:
  "f_index_block_meta_key (set_mate_status b f) = f_index_block_meta_key f"
  "f_type (set_mate_status b f) = f_type f" "get_mate_status (set_mate_status b f) = b"
  "f_observers (set_mate_status b f) = f_observers f"
  by (simp_all add: set_mate_status_def get_mate_status_def)

text \<open>The bytes of a block in the file.\<close>

definition block_bytes :: "snappy \<Rightarrow> data_block \<Rightarrow> string" where
  "block_bytes sn b = data_image (db_type b) (db_num b) (calculate_timestamp_size sn (db_timestamps b)) (calculate_val_size sn (db_values b))"

text \<open>The shard keeps its file, and the data region of the file has grown by the bytes of the blocks.\<close>

definition grown :: "snappy \<Rightarrow> string \<Rightarrow> data_block list \<Rightarrow> writer \<Rightarrow> writer \<Rightarrow> bool" where
  "grown sn s bs w w' \<longleftrightarrow>
     (\<exists>sh sh' f f'. wr_mea_shard_map w s = Some sh \<and> wr_mea_shard_map w' s = Some sh' \<and>
        sh_curr_file_path sh' = sh_curr_file_path sh \<and> sh_tsm_file sh' = sh_tsm_file sh \<and>
        files (fp_disk (wr_files w)) (sh_curr_file_path sh) = Some f \<and>
        files (fp_disk (wr_files w')) (sh_curr_file_path sh) = Some f' \<and>
        take (unat (sh_curr_file_head_offset sh')) f' =
          take (unat (sh_curr_file_head_offset sh)) f @ concat (map (block_bytes sn) bs))"

lemma grown_refl: "flush_ok sn P s stored w \<Longrightarrow> grown sn s [] w w"
  by (auto simp: grown_def flush_ok_def)

lemma grown_trans: "grown sn s as w w' \<Longrightarrow> grown sn s bs w' w'' \<Longrightarrow> grown sn s (as @ bs) w w''"
  unfolding grown_def by (elim exE conjE) simp

lemma take_pwrite_below: "n \<le> off \<Longrightarrow> off \<le> length f \<Longrightarrow> take n (pwrite off xs f) = take n f"
  by (simp add: pwrite_inside min_def)

lemma take_pwrite_at: "off \<le> length f \<Longrightarrow> take (off + length xs) (pwrite off xs f) = take off f @ xs"
  by (simp add: pwrite_inside)

text \<open>The index of a field written to the file of its shard, from a given state of the file.\<close>

definition task_written :: "shard \<Rightarrow> string \<Rightarrow> string \<Rightarrow> field \<Rightarrow> index_entry_info \<Rightarrow> writer \<Rightarrow> writer \<Rightarrow> 64 word \<Rightarrow> bool" where
  "task_written sh s fn fl info w w' tail \<longleftrightarrow>
     wr_mea_shard_map w' = (wr_mea_shard_map w)(s \<mapsto> sh\<lparr>sh_curr_file_tail_offset := tail\<rparr>) \<and>
     map_of (wr_index_map w') = (map_of (wr_index_map w))(fn := None) \<and> wr_index_task_queue w = fn # wr_index_task_queue w' \<and>
     fp_map (wr_files w') = fp_map (wr_files w)"

lemma index_task_writes:
  assumes sh: "wr_mea_shard_map w s = Some sh" "sh_curr_file_path sh \<noteq> []" "sh_curr_file_path sh \<in> P"
    and f: "files (fp_disk (wr_files w)) (sh_curr_file_path sh) = Some f" and fok: "file_ok sn sh f bs stored w"
    and io: "io_ready P (tsm_io w)" and mem: "memory_ok s w" and q: "wr_index_task_queue w = fn # fns"
    and info: "map_of (wr_index_map w) fn = Some info" and fl: "wr_field_map w fn = Some fl"
  shows "yields (flush_index_task env w) (\<lambda>(st, w'). st = Onward \<and> flush_ok sn P s stored w' \<and>
    fw_data_deque w' = fw_data_deque w \<and> same_keys w w' \<and> shard_margin s w' = shard_margin s w \<and> grown sn s [] w w' \<and>
    (\<exists>tail f'. task_written sh s fn fl info w w' tail \<and> files (fp_disk (wr_files w')) (sh_curr_file_path sh) = Some f' \<and>
       file_ok sn (sh\<lparr>sh_curr_file_tail_offset := tail\<rparr>) f' ((series_meta fl (ii_index_deque info), ii_index_deque info) # bs) stored w' \<and>
       index_region f' ((series_meta fl (ii_index_deque info), ii_index_deque info) # bs) (unat tail)))"
proof -
  have dom: "fn \<in> dom (map_of (wr_index_map w))" using info by blast
  have i: "ii_shard_id info = s" "ii_index_deque info \<noteq> []"
    using mem info unfolding memory_ok_def by blast+
  have fk: "named_type (f_type fl)" "NUL \<notin> set (f_index_block_meta_key fl)" using mem fl by (auto simp: memory_ok_def)
  define w0 where "w0 = w\<lparr>wr_index_task_queue := fns, wr_task_set := wr_task_set w - {fn},
    wr_index_map := om_put fn info (wr_index_map w)\<rparr>"
  have at: "om_at new_index_entry_info fn (wr_index_map w) = info" using info by simp
  let ?tail = "sh_curr_file_tail_offset sh - index_block_size (ii_index_deque info) (f_index_block_meta_key fl)"
  note fits = entry_space_fits [OF fok dom]
  have sp: "28 * length (ii_index_deque info) + 8 + length (f_index_block_meta_key fl) = entry_space w fn"
    by (simp add: entry_space_def at fl)
  have size: "unat (index_block_size (ii_index_deque info) (f_index_block_meta_key fl)) = entry_space w fn"
    using fits sp by (subst index_block_size_unat) simp_all
  have tail: "unat ?tail = unat (sh_curr_file_tail_offset sh) - entry_space w fn"
    using fits(1) size by (subst unat_sub) (simp_all add: word_le_nat_alt)
  have len: "8 \<le> length f" using fok index_chain_length by (fastforce simp: file_ok_def Let_def)
  define g where "g = pwrite (unat ?tail) (block_image (series_meta fl (ii_index_deque info), ii_index_deque info)) f"
  define f' where "f' = pwrite (length g - 8) (put_word 8 (of_nat (unat ?tail) :: 64 word)) g"
  have w0: "tsm_io w0 = tsm_io w" "wr_mea_shard_map w0 = wr_mea_shard_map w" "wr_files w0 = wr_files w"
    "map_of (wr_index_map w0) = map_of (wr_index_map w)" "wr_field_map w0 = wr_field_map w"
    using info by (auto simp: w0_def tsm_io_def)
  have wr: "yields (write_series_index_block env fl (ii_index_deque info) (sh_curr_file_path sh) ?tail w0)
      (\<lambda>w'. \<exists>io. w' = set_tsm_io io w0 \<and> wrote P (sh_curr_file_path sh) f' (tsm_io w0) io)"
    unfolding f'_def g_def by (rule write_series_index_block_ok)
      (use io sh(3) f fk i(2) len fits sp tail in \<open>simp_all add: w0\<close>)
  have run: "flush_index_task env w =
      res_bind (write_series_index_block env fl (ii_index_deque info) (sh_curr_file_path sh) ?tail w0) (\<lambda>w.
        Inr (Onward, (shard_notify env True (set_shard s (sh\<lparr>sh_curr_file_tail_offset := ?tail\<rparr>)
          (w\<lparr>wr_index_map := om_del fn (wr_index_map w)\<rparr>)))\<lparr>wr_field_map := (wr_field_map w)(fn \<mapsto> set_mate_status False fl)\<rparr>))"
    unfolding flush_index_task_def Let_def
    by (simp add: task_queue_empty_def pop_task_def q info i fl sh get_shard_def w0_def set_shard_def)
  show ?thesis unfolding run
  proof (rule yields_bind [OF wr], elim exE conjE)
    fix w1 io
    assume w1: "w1 = set_tsm_io io w0" and wrote: "wrote P (sh_curr_file_path sh) f' (tsm_io w0) io"
    define w2 where "w2 = (shard_notify env True (set_shard s (sh\<lparr>sh_curr_file_tail_offset := ?tail\<rparr>)
          (w1\<lparr>wr_index_map := om_del fn (wr_index_map w1)\<rparr>)))\<lparr>wr_field_map := (wr_field_map w1)(fn \<mapsto> set_mate_status False fl)\<rparr>"
    have w2: "map_of (wr_index_map w2) = (map_of (wr_index_map w))(fn := None)"
      "wr_field_map w2 = (wr_field_map w)(fn \<mapsto> set_mate_status False fl)"
      "wr_mea_shard_map w2 = (wr_mea_shard_map w)(s \<mapsto> sh\<lparr>sh_curr_file_tail_offset := ?tail\<rparr>)"
      "tsm_io w2 = io" "fp_disk (wr_files w2) = io_disk io" "wr_task_set w2 = wr_task_set w - {fn}"
      "wr_index_task_queue w2 = fns" "fw_data_deque w2 = fw_data_deque w" "fp_map (wr_files w2) = fp_map (wr_files w)"
      using info by (simp_all add: w2_def w1 set_shard_def w0 shard_notify_def Let_def tsm_io_def set_tsm_io_def set_disk_def)
        (simp_all add: w0_def)
    have "memory_ok s w2" using mem q fk unfolding memory_ok_def w2 by auto
    moreover have written: "file_ok sn (sh\<lparr>sh_curr_file_tail_offset := ?tail\<rparr>) f'
        ((series_meta fl (ii_index_deque info), ii_index_deque info) # bs) stored w2"
      unfolding f'_def g_def tail
      by (rule file_ok_index_written(1) [OF fok info fl fk w2(1,2)]) (simp_all add: tail)
    ultimately have "flush_ok sn P s stored w2"
      using sh wrote_ready [OF wrote] wrote_file [OF wrote] unfolding flush_ok_def w2 by auto
    moreover have "same_keys w w2" using fl by (simp add: same_keys_def w2)
    moreover have "index_region f' ((series_meta fl (ii_index_deque info), ii_index_deque info) # bs) (unat ?tail)"
      unfolding f'_def g_def tail
      by (rule file_ok_index_written(2) [OF fok info fl fk w2(1,2), where tail = ?tail]) (simp_all add: tail)
    moreover have "task_written sh s fn fl info w w2 ?tail" using q by (simp add: task_written_def w2)
    moreover have "files (fp_disk (wr_files w2)) (sh_curr_file_path sh) = Some f'" using wrote_file [OF wrote] by (simp add: w2)
    moreover have "grown sn s [] w w2"
    proof -
      have chain: "index_chain f bs (unat (sh_curr_file_tail_offset sh))" using fok by (simp add: file_ok_def Let_def)
      have "length (block_image (series_meta fl (ii_index_deque info), ii_index_deque info)) = entry_space w fn" using sp by simp
      then have off: "unat ?tail + length (block_image (series_meta fl (ii_index_deque info), ii_index_deque info)) =
          unat (sh_curr_file_tail_offset sh)" "unat (sh_curr_file_head_offset sh) \<le> unat ?tail" "unat ?tail < 2 ^ 63"
        using fits tail by simp_all
      have lg: "length g = length f" unfolding g_def by (rule index_chain_extend(3) [OF chain off(1,3)])
      have "take (unat (sh_curr_file_head_offset sh)) f' = take (unat (sh_curr_file_head_offset sh)) g"
        unfolding f'_def by (rule take_pwrite_below) (use off index_chain_length [OF chain] lg in simp_all)
      also have "\<dots> = take (unat (sh_curr_file_head_offset sh)) f"
        unfolding g_def by (rule take_pwrite_below) (use off index_chain_length [OF chain] in simp_all)
      finally show ?thesis using sh(1) f wrote_file [OF wrote] by (simp add: grown_def w2)
    qed
    ultimately have "flush_ok sn P s stored w2 \<and> same_keys w w2 \<and> grown sn s [] w w2 \<and> (\<exists>tail f'. task_written sh s fn fl info w w2 tail \<and>
       files (fp_disk (wr_files w2)) (sh_curr_file_path sh) = Some f' \<and>
       file_ok sn (sh\<lparr>sh_curr_file_tail_offset := tail\<rparr>) f' ((series_meta fl (ii_index_deque info), ii_index_deque info) # bs) stored w2 \<and>
       index_region f' ((series_meta fl (ii_index_deque info), ii_index_deque info) # bs) (unat tail))"
      using written by blast
    then show "yields (Inr (Onward, w2)) (\<lambda>(st, w'). st = Onward \<and> flush_ok sn P s stored w' \<and>
        fw_data_deque w' = fw_data_deque w \<and> same_keys w w' \<and> shard_margin s w' = shard_margin s w \<and> grown sn s [] w w' \<and>
        (\<exists>tail f'. task_written sh s fn fl info w w' tail \<and> files (fp_disk (wr_files w')) (sh_curr_file_path sh) = Some f' \<and>
          file_ok sn (sh\<lparr>sh_curr_file_tail_offset := tail\<rparr>) f' ((series_meta fl (ii_index_deque info), ii_index_deque info) # bs) stored w' \<and>
          index_region f' ((series_meta fl (ii_index_deque info), ii_index_deque info) # bs) (unat tail)))"
      using sh(1) w2(8) by (simp add: shard_margin_def w2(3))
  qed
qed

lemma flush_index_task_ok:
  assumes ok: "flush_ok sn P s stored w" and q: "wr_index_task_queue w = fn # fns"
  shows "yields (flush_index_task env w) (\<lambda>(st, w'). st = Onward \<and> flush_ok sn P s stored w' \<and>
    fw_data_deque w' = fw_data_deque w \<and> same_keys w w' \<and> shard_margin s w' = shard_margin s w \<and> grown sn s [] w w')"
proof -
  obtain sh f bs where sh: "wr_mea_shard_map w s = Some sh" "sh_curr_file_path sh \<noteq> []" "sh_curr_file_path sh \<in> P"
    and f: "files (fp_disk (wr_files w)) (sh_curr_file_path sh) = Some f" and fok: "file_ok sn sh f bs stored w"
    and io: "io_ready P (tsm_io w)" and mem: "memory_ok s w"
    using ok by (auto simp: flush_ok_def)
  have "fn \<in> dom (map_of (wr_index_map w))" using mem q by (simp add: memory_ok_def)
  then obtain info where info: "map_of (wr_index_map w) fn = Some info" by blast
  then have "wr_field_map w fn \<noteq> None" using mem unfolding memory_ok_def by blast
  then obtain fl where fl: "wr_field_map w fn = Some fl" by blast
  show ?thesis by (rule yields_mono [OF index_task_writes [OF sh f fok io mem q info fl]]) auto
qed


section \<open>A block\<close>

lemma clock_now_core: "clock_now env w = (t, w') \<Longrightarrow> core w' = core w"
  by (auto simp: clock_now_def)

lemma should_flush_index_core: "should_flush_index env fn w = (due, w') \<Longrightarrow> core w' = core w"
  by (auto simp: should_flush_index_def Let_def split: option.splits prod.splits dest: clock_now_core)

text \<open>What \<open>record_block\<close> leaves behind.\<close>

definition recorded ::
    "field \<Rightarrow> string \<Rightarrow> string \<Rightarrow> index_entry \<Rightarrow> shard \<Rightarrow> 64 word \<Rightarrow> 64 word \<Rightarrow> int \<Rightarrow> writer \<Rightarrow> writer \<Rightarrow> bool" where
  "recorded fl fn s e sh m h u w w' \<longleftrightarrow>
     wr_mea_shard_map w' = (wr_mea_shard_map w)(s \<mapsto> sh\<lparr>
        sh_curr_file_margin := m - of_int u - 28 - (if get_mate_status fl then 0 else of_nat (8 + length (f_index_block_meta_key fl))),
        sh_curr_file_head_offset := h + of_int u\<rparr>) \<and>
     wr_field_map w' = (wr_field_map w)(fn \<mapsto> set_mate_status True fl) \<and>
     tsm_io w' = tsm_io w \<and> fp_map (wr_files w') = fp_map (wr_files w) \<and> fw_data_deque w' = fw_data_deque w \<and>
     (\<exists>info'. map_of (wr_index_map w') = (map_of (wr_index_map w))(fn \<mapsto> info') \<and>
        ii_index_deque info' = ii_index_deque (om_at new_index_entry_info fn (wr_index_map w)) @ [e] \<and>
        ii_shard_id info' = (let old = ii_shard_id (om_at new_index_entry_info fn (wr_index_map w)) in if old = [] then s else old)) \<and>
     ((wr_task_set w' = wr_task_set w \<and> wr_index_task_queue w' = wr_index_task_queue w) \<or>
      (fn \<notin> wr_task_set w \<and> wr_task_set w' = insert fn (wr_task_set w) \<and> wr_index_task_queue w' = wr_index_task_queue w @ [fn]))"

lemma recorded_core: "core w1 = core w \<Longrightarrow> core w1' = core w' \<Longrightarrow> recorded fl fn s e sh m h u w w' \<Longrightarrow> recorded fl fn s e sh m h u w1 w1'"
  unfolding recorded_def by (simp only: core_fields [of w1 w] core_fields [of w1' w'])

lemma set_mate_status_same [simp]: "get_mate_status fl \<Longrightarrow> set_mate_status True fl = fl"
  by (simp add: set_mate_status_def get_mate_status_def)

lemma push_task_fields [simp]:
  "wr_mea_shard_map (push_task fn w) = wr_mea_shard_map w" "wr_field_map (push_task fn w) = wr_field_map w"
  "wr_index_map (push_task fn w) = wr_index_map w" "tsm_io (push_task fn w) = tsm_io w"
  "wr_files (push_task fn w) = wr_files w" "fw_data_deque (push_task fn w) = fw_data_deque w"
  by (simp_all add: push_task_def tsm_io_def)

lemma push_index_fields [simp]:
  "wr_mea_shard_map (push_index_to_deque s fn e w) = wr_mea_shard_map w" "wr_field_map (push_index_to_deque s fn e w) = wr_field_map w"
  "tsm_io (push_index_to_deque s fn e w) = tsm_io w" "wr_files (push_index_to_deque s fn e w) = wr_files w"
  "fw_data_deque (push_index_to_deque s fn e w) = fw_data_deque w" "wr_task_set (push_index_to_deque s fn e w) = wr_task_set w"
  "wr_index_task_queue (push_index_to_deque s fn e w) = wr_index_task_queue w"
  by (simp_all add: push_index_to_deque_def tsm_io_def Let_def)

lemma record_block_run:
  assumes sh: "wr_mea_shard_map w s = Some sh" and fl: "wr_field_map w fn = Some fl"
  shows "\<exists>w'. record_block env fl fn s e m h u w = Inr w' \<and> recorded fl fn s e sh m h u w w'"
proof -
  define old where "old = om_at new_index_entry_info fn (wr_index_map w)"
  define w1 where "w1 = notify_all (f_observers fl) (wr_db_name (push_index_to_deque s fn e w))
    (wr_tb_name (push_index_to_deque s fn e w)) (s, []) fn True True (push_index_to_deque s fn e w)"
  define info1 where "info1 = (if ii_shard_id old = [] then old\<lparr>ii_shard_id := s\<rparr> else old)\<lparr>ii_index_deque := ii_index_deque old @ [e]\<rparr>"
  have c1: "core w1 = core (push_index_to_deque s fn e w)" by (simp add: w1_def)
  have push: "wr_index_map (push_index_to_deque s fn e w) = om_put fn info1 (wr_index_map w)"
    by (simp add: push_index_to_deque_def Let_def old_def info1_def)
  define w2 where "w2 = (if get_mate_status fl then w1 else (snd (clock_now env w1))\<lparr>
     wr_field_map := (wr_field_map w1)(fn \<mapsto> set_mate_status True fl),
     wr_index_map := om_put fn ((om_at new_index_entry_info fn (wr_index_map (snd (clock_now env w1))))\<lparr>ii_last_time := fst (clock_now env w1)\<rparr>)
       (wr_index_map (snd (clock_now env w1)))\<rparr>)"
  obtain due w3 where w3: "should_flush_index env fn w2 = (due, w3)" by (cases "should_flush_index env fn w2")
  have c3: "core w3 = core w2" by (rule should_flush_index_core [OF w3])
  define w4 where "w4 = (if due then push_task fn w3 else w3)"
  define M where "M = m - of_int u - 28 - (if get_mate_status fl then 0 else of_nat (8 + length (f_index_block_meta_key fl)))"
  have run: "record_block env fl fn s e m h u w = res_bind (get_shard s w4) (\<lambda>curr_shard.
      Inr (shard_notify env True (set_shard s (curr_shard\<lparr>sh_curr_file_margin := M, sh_curr_file_head_offset := h + of_int u\<rparr>) w4)))"
    using w3 unfolding record_block_def Let_def w1_def [symmetric] w2_def w4_def M_def
    by (cases "get_mate_status fl") (simp_all add: clock_now_def)
  have f2: "wr_mea_shard_map w2 = wr_mea_shard_map w" "wr_field_map w2 = (wr_field_map w)(fn \<mapsto> set_mate_status True fl)"
    "tsm_io w2 = tsm_io w" "fp_map (wr_files w2) = fp_map (wr_files w)" "fw_data_deque w2 = fw_data_deque w"
    "wr_task_set w2 = wr_task_set w" "wr_index_task_queue w2 = wr_index_task_queue w"
    "\<exists>info'. map_of (wr_index_map w2) = (map_of (wr_index_map w))(fn \<mapsto> info') \<and>
       ii_index_deque info' = ii_index_deque info1 \<and> ii_shard_id info' = ii_shard_id info1"
    using core_fields [OF c1] fl by (auto simp: w2_def clock_now_def push)
  note f3 = f2 [folded core_fields [OF c3]]
  have sh4: "wr_mea_shard_map w4 s = Some sh" using sh f3(1) by (simp add: w4_def)
  show ?thesis unfolding run get_shard_def sh4
    using f3 by (auto simp: recorded_def set_shard_def w4_def M_def push_task_def info1_def old_def [symmetric] Let_def)
qed

definition block_size :: "snappy \<Rightarrow> data_block \<Rightarrow> nat" where
  "block_size sn b = 16 + length (calculate_timestamp_size sn (db_timestamps b)) + length (calculate_val_size sn (db_values b))"

text \<open>The space the program asks for before it writes a block.\<close>

definition block_need :: "snappy \<Rightarrow> data_block \<Rightarrow> nat" where
  "block_need sn b = block_size sn b + 40 + length (db_series_key_and_field_name b)"

text \<open>A block the queue can take: of the shard, under the present key of its field, and within the format.\<close>

definition block_fit :: "snappy \<Rightarrow> string \<Rightarrow> writer \<Rightarrow> data_block \<Rightarrow> bool" where
  "block_fit sn s w b \<longleftrightarrow> db_shard_id b = s \<and>
     field_key w (db_field_name b) = Some (db_series_key_and_field_name b) \<and> named_type (db_type b) \<and>
     data_ok sn (db_timestamps b) (db_values b)"

lemma set_aside_change:
  assumes "fn \<in> dom (map_of (wr_index_map w))"
    "map_of (wr_index_map w') = (map_of (wr_index_map w))(fn \<mapsto> info)"
    "\<And>k. k \<noteq> fn \<Longrightarrow> wr_field_map w' k = wr_field_map w k"
  shows "set_aside w' + entry_space w fn = set_aside w + entry_space w' fn"
proof -
  have eq: "entry_space w k = entry_space w' k" if "k \<noteq> fn" for k
    using that assms(2,3) by (simp add: entry_space_def om_at_def)
  have dom: "dom (map_of (wr_index_map w')) = dom (map_of (wr_index_map w))" using assms(1,2) by auto
  have "sum (entry_space w) (dom (map_of (wr_index_map w)) - {fn}) = sum (entry_space w') (dom (map_of (wr_index_map w')) - {fn})"
    unfolding dom by (intro sum.cong) (auto simp: eq)
  then show ?thesis unfolding set_aside_def dom using assms(1)
    by (simp add: sum.remove [of _ fn "entry_space w"] sum.remove [of _ fn "entry_space w'"] finite_dom_map_of)
qed

lemma recorded_set_aside:
  assumes "recorded fl fn s e sh m h u w w'" "memory_ok s w" "wr_field_map w fn = Some fl"
  shows "set_aside w' = set_aside w + 28 + (if get_mate_status fl then 0 else 8 + length (f_index_block_meta_key fl))"
proof -
  obtain info' where im: "map_of (wr_index_map w') = (map_of (wr_index_map w))(fn \<mapsto> info')"
    and dq: "ii_index_deque info' = ii_index_deque (om_at new_index_entry_info fn (wr_index_map w)) @ [e]"
    using assms(1) by (auto simp: recorded_def)
  have fm: "wr_field_map w' = (wr_field_map w)(fn \<mapsto> set_mate_status True fl)" using assms(1) by (simp add: recorded_def)
  have sp: "entry_space w' fn = entry_space w fn + 28" using im dq fm assms(3) by (simp add: entry_space_def)
  have mate: "get_mate_status fl = (fn \<in> dom (map_of (wr_index_map w)))"
    using assms(2,3) by (auto simp: memory_ok_def)
  show ?thesis
  proof (cases "get_mate_status fl")
    case True
    then show ?thesis using set_aside_change [of fn w w', OF _ im] mate fm sp by simp
  next
    case False
    then have "fn \<notin> dom (map_of (wr_index_map w))" using mate by simp
    moreover from this have "entry_space w fn = 8 + length (f_index_block_meta_key fl)"
      using assms(3) by (simp add: entry_space_def om_at_def new_index_entry_info_def domIff)
    ultimately show ?thesis using set_aside_insert [of fn w w', OF _ im] fm sp False by simp
  qed
qed

lemma recorded_memory_ok:
  assumes rec: "recorded fl fn s e sh m h u w w'" and ok: "memory_ok s w" and fl: "wr_field_map w fn = Some fl"
  shows "memory_ok s w'" "same_keys w w'"
proof -
  obtain info' where im: "map_of (wr_index_map w') = (map_of (wr_index_map w))(fn \<mapsto> info')"
    and dq: "ii_index_deque info' = ii_index_deque (om_at new_index_entry_info fn (wr_index_map w)) @ [e]"
    and id: "ii_shard_id info' = (let old = ii_shard_id (om_at new_index_entry_info fn (wr_index_map w)) in if old = [] then s else old)"
    using rec by (auto simp: recorded_def)
  have fm: "wr_field_map w' = (wr_field_map w)(fn \<mapsto> set_mate_status True fl)" using rec by (simp add: recorded_def)
  have "ii_shard_id info' = s"
    using ok id by (cases "map_of (wr_index_map w) fn") (auto simp: memory_ok_def new_index_entry_info_def)
  moreover have "named_type (f_type fl)" "NUL \<notin> set (f_index_block_meta_key fl)" using ok fl by (auto simp: memory_ok_def)
  moreover have tasks: "wr_task_set w' = set (wr_index_task_queue w')" "distinct (wr_index_task_queue w')"
    "set (wr_index_task_queue w') \<subseteq> dom (map_of (wr_index_map w'))"
    using rec ok im by (auto simp: recorded_def memory_ok_def)
  ultimately show "memory_ok s w'" using ok dq tasks unfolding memory_ok_def im fm by auto
  show "same_keys w w'" using fl by (simp add: same_keys_def fm)
qed

lemma unat_minus_nat: "k \<le> unat m \<Longrightarrow> unat (m - of_nat k :: 64 word) = unat m - k"
proof -
  assume k: "k \<le> unat m"
  have "unat m < 2 ^ LENGTH(64)" by (rule unsigned_less)
  then have "unat (of_nat k :: 64 word) = k" using k by (simp add: unat_of_nat take_bit_nat_eq_self)
  then show ?thesis using k by (subst unat_sub) (simp_all add: word_le_nat_alt)
qed

lemma unat_plus_nat: "unat h + n < 2 ^ 64 \<Longrightarrow> unat (h + of_nat n :: 64 word) = unat h + n"
  by (subst unat_add_lem [THEN iffD1]) (simp_all add: unat_of_nat take_bit_nat_eq_self)

text \<open>The margin after a block: what the block and the index took is what the request covered.\<close>

lemma margin_after:
  fixes m :: "64 word" and mate :: bool and key :: string
  defines "c \<equiv> if mate then 0 else 8 + length key"
  assumes "n + 40 + length key \<le> unat m"
  shows "unat (m - of_int (int n) - 28 - (if mate then 0 else of_nat (8 + length key))) = unat m - (n + 28 + c)"
    "n + 28 + c \<le> unat m"
proof -
  show le: "n + 28 + c \<le> unat m" using assms(2) by (simp add: c_def)
  have "m - of_int (int n) - 28 - (if mate then 0 else of_nat (8 + length key)) = m - of_nat (n + 28 + c)"
    by (simp add: c_def diff_diff_eq)
  then show "unat (m - of_int (int n) - 28 - (if mate then 0 else of_nat (8 + length key))) = unat m - (n + 28 + c)"
    using unat_minus_nat [OF le] by (simp only:)
qed

lemma recorded_indexed:
  assumes "recorded fl fn s e sh m h u w w'" "wr_field_map w fn = Some fl"
  shows "indexed w bs k x \<Longrightarrow> indexed w' bs k x" "indexed w' bs (f_index_block_meta_key fl) e"
proof -
  obtain info' where im: "map_of (wr_index_map w') = (map_of (wr_index_map w))(fn \<mapsto> info')"
    and dq: "ii_index_deque info' = ii_index_deque (om_at new_index_entry_info fn (wr_index_map w)) @ [e]"
    using assms(1) by (auto simp: recorded_def)
  have fm: "wr_field_map w' = (wr_field_map w)(fn \<mapsto> set_mate_status True fl)" using assms(1) by (simp add: recorded_def)
  show "indexed w' bs (f_index_block_meta_key fl) e" using im dq fm unfolding indexed_def by auto
  assume "indexed w bs k x"
  then show "indexed w' bs k x" unfolding indexed_def
  proof (elim disjE exE conjE)
    fix j f info
    assume j: "wr_field_map w j = Some f" "f_index_block_meta_key f = k" "map_of (wr_index_map w) j = Some info"
      "x \<in> set (ii_index_deque info)"
    show "(\<exists>fn f info. wr_field_map w' fn = Some f \<and> f_index_block_meta_key f = k \<and>
        map_of (wr_index_map w') fn = Some info \<and> x \<in> set (ii_index_deque info)) \<or>
      (\<exists>b\<in>set bs. im_key (fst b) = k \<and> x \<in> set (snd b))"
    proof (cases "j = fn")
      case True
      then show ?thesis using j im dq fm assms(2) by auto
    next
      case False
      then have "wr_field_map w' j = Some f" "map_of (wr_index_map w') j = Some info" using j im fm by simp_all
      then show ?thesis using j(2,4) by blast
    qed
  qed blast
qed

lemma file_ok_block_stored:
  assumes ok: "file_ok sn sh f bs stored w" and mem: "memory_ok s w"
    and fl: "wr_field_map w (db_field_name b) = Some fl" and fit: "block_fit sn s w b"
    and need: "block_need sn b \<le> unat (sh_curr_file_margin sh)" and sh': "wr_mea_shard_map w' s = Some sh'"
    and rec: "recorded fl (db_field_name b) s
      (create_index_entry (db_max_timestamp b) (db_min_timestamp b) (sh_curr_file_head_offset sh) (of_int (int (block_size sn b))))
      sh (sh_curr_file_margin sh) (sh_curr_file_head_offset sh) (int (block_size sn b)) w w'"
  defines "g \<equiv> pwrite (unat (sh_curr_file_head_offset sh)) (data_image (db_type b) (db_num b)
    (calculate_timestamp_size sn (db_timestamps b)) (calculate_val_size sn (db_values b))) f"
  shows "file_ok sn sh' g bs (stored @ [b]) w'" "unat (sh_curr_file_margin sh) \<le> unat (sh_curr_file_margin sh') + block_need sn b"
    "sh_curr_file_path sh' = sh_curr_file_path sh" "sh_tsm_file sh' = sh_tsm_file sh"
    "take (unat (sh_curr_file_head_offset sh')) g = take (unat (sh_curr_file_head_offset sh)) f @ block_bytes sn b"
proof -
  let ?h = "unat (sh_curr_file_head_offset sh)" and ?t = "unat (sh_curr_file_tail_offset sh)" and ?n = "block_size sn b"
  let ?ct = "calculate_timestamp_size sn (db_timestamps b)" and ?cv = "calculate_val_size sn (db_values b)"
  let ?c = "if get_mate_status fl then 0 else 8 + length (f_index_block_meta_key fl)"
  let ?e = "create_index_entry (db_max_timestamp b) (db_min_timestamp b) (sh_curr_file_head_offset sh) (of_int (int ?n))"
  have key: "f_index_block_meta_key fl = db_series_key_and_field_name b"
    using fit fl by (simp add: block_fit_def field_key_def)
  have sh'_def: "sh' = sh\<lparr>sh_curr_file_margin := sh_curr_file_margin sh - of_int (int ?n) - 28 -
      (if get_mate_status fl then 0 else of_nat (8 + length (f_index_block_meta_key fl))),
      sh_curr_file_head_offset := sh_curr_file_head_offset sh + of_int (int ?n)\<rparr>"
    using rec sh' by (simp add: recorded_def)
  have chain: "index_chain f bs ?t" and blocks: "\<forall>b \<in> set bs. block_ok b" and t: "?t \<le> 504"
    and h: "?h = 5 \<or> first_block_before sn f ?h" and space: "?h + unat (sh_curr_file_margin sh) + set_aside w = ?t"
    and st: "\<forall>b \<in> set stored. \<exists>e. indexed w bs (db_series_key_and_field_name b) e \<and> entry_of sn f ?h b e"
    using ok by (simp_all add: file_ok_def Let_def)
  have need': "?n + 40 + length (f_index_block_meta_key fl) \<le> unat (sh_curr_file_margin sh)"
    using need by (simp add: block_need_def key)
  note mg = margin_after [OF need', of "get_mate_status fl"]
  have head: "unat (sh_curr_file_head_offset sh') = ?h + ?n"
    using need' space t by (simp add: sh'_def unat_plus_nat)
  have marg: "unat (sh_curr_file_margin sh') = unat (sh_curr_file_margin sh) - (?n + 28 + ?c)"
    using mg(1) by (simp add: sh'_def)
  show "unat (sh_curr_file_margin sh) \<le> unat (sh_curr_file_margin sh') + block_need sn b"
    using marg mg(2) by (auto simp: block_need_def key)
  show "sh_curr_file_path sh' = sh_curr_file_path sh" "sh_tsm_file sh' = sh_tsm_file sh" by (simp_all add: sh'_def)
  have len: "length ?ct < 2 ^ 31" "length ?cv < 2 ^ 31" using fit by (simp_all add: block_fit_def data_ok_def)
  have img: "length (data_image (db_type b) (db_num b) ?ct ?cv) = ?n" by (simp add: block_size_def)
  have below: "?h \<le> length f" using index_chain_length [OF chain] space by simp
  show "take (unat (sh_curr_file_head_offset sh')) g = take ?h f @ block_bytes sn b"
    using take_pwrite_at [OF below] unfolding g_def head block_bytes_def img [symmetric] .
  have aside: "set_aside w' = set_aside w + 28 + ?c" by (rule recorded_set_aside [OF rec mem fl])
  have "?h + ?n + unat (sh_curr_file_margin sh') + set_aside w' = ?t"
    using space aside marg mg(2) by simp
  moreover have "index_chain g bs ?t" unfolding g_def
    by (rule index_chain_below [OF chain]) (use need' space img in simp)
  moreover have at: "data_at g ?h (db_type b) (db_num b) ?ct ?cv"
    unfolding g_def by (rule data_at_pwrite [OF len])
  have first: "first_block_before sn g (?h + ?n)"
    using h
  proof
    assume "?h = 5"
    then show ?thesis using at img data_ok_decodes [of sn "db_timestamps b" "db_values b"] fit
      unfolding first_block_before_def block_fit_def by (metis order_refl)
  next
    assume "first_block_before sn f ?h"
    from first_block_before_later [OF first_block_before_pwrite [OF this order_refl]] show ?thesis
      unfolding g_def by simp
  qed
  moreover have "\<exists>e. indexed w' bs (db_series_key_and_field_name x) e \<and> entry_of sn g (?h + ?n) x e"
    if x: "x \<in> set (stored @ [b])" for x
  proof (cases "x \<in> set stored")
    case True
    then obtain e where e: "indexed w bs (db_series_key_and_field_name x) e" "entry_of sn f ?h x e" using st by blast
    have "entry_of sn g (?h + ?n) x e"
      unfolding g_def by (rule entry_of_later [OF entry_of_pwrite [OF e(2) order_refl]]) simp
    then show ?thesis using recorded_indexed(1) [OF rec fl e(1)] by blast
  next
    case False
    then have "x = b" using x by simp
    moreover have "unat (of_int (int ?n) :: 32 word) = ?n"
      using need' space t by (simp add: unat_of_nat take_bit_nat_eq_self)
    then have "entry_of sn g (?h + ?n) b ?e" using at fit by (simp add: block_fit_def entry_of_def create_index_entry_def block_size_def)
    ultimately show ?thesis using recorded_indexed(2) [OF rec fl, of bs] key by auto
  qed
  moreover have "sh_curr_file_tail_offset sh' = sh_curr_file_tail_offset sh" by (simp add: sh'_def)
  ultimately show "file_ok sn sh' g bs (stored @ [b]) w'" using blocks t by (simp add: file_ok_def Let_def head)
qed

lemma file_ok_cong:
  assumes "wr_index_map w = wr_index_map w'" "wr_field_map w = wr_field_map w'"
  shows "file_ok sn sh f bs stored w = file_ok sn sh f bs stored w'"
  using assms by (simp add: file_ok_def indexed_def set_aside_def entry_space_def [abs_def])

lemma memory_ok_cong:
  assumes "wr_index_map w = wr_index_map w'" "wr_field_map w = wr_field_map w'" "wr_task_set w = wr_task_set w'"
    "wr_index_task_queue w = wr_index_task_queue w'"
  shows "memory_ok s w = memory_ok s w'"
  using assms by (simp add: memory_ok_def)

definition block_stored :: "snappy \<Rightarrow> string set \<Rightarrow> string \<Rightarrow> data_block list \<Rightarrow> data_block \<Rightarrow> writer \<Rightarrow> writer \<Rightarrow> bool" where
  "block_stored sn P s stored b w w' \<longleftrightarrow> flush_ok sn P s (stored @ [b]) w' \<and> fw_data_deque w' = fw_data_deque w \<and>
     same_keys w w' \<and> shard_margin s w \<le> shard_margin s w' + block_need sn b \<and> grown sn s [b] w w'"

text \<open>The same from a given state of the file, with all that is known of the state behind it.\<close>

definition block_recorded :: "snappy \<Rightarrow> shard \<Rightarrow> string \<Rightarrow> (index_block_meta \<times> index_entry list) list \<Rightarrow> data_block list \<Rightarrow> data_block \<Rightarrow> field \<Rightarrow>
    writer \<Rightarrow> writer \<Rightarrow> bool" where
  "block_recorded sn sh s bs stored b fl w w' \<longleftrightarrow> (\<exists>io e sh' g.
     recorded fl (db_field_name b) s e sh (sh_curr_file_margin sh) (sh_curr_file_head_offset sh) (int (block_size sn b)) (set_tsm_io io w) w' \<and>
     wr_mea_shard_map w' s = Some sh' \<and> files (fp_disk (wr_files w')) (sh_curr_file_path sh) = Some g \<and>
     file_ok sn sh' g bs (stored @ [b]) w')"

lemma store_block_writes:
  assumes f: "files (fp_disk (wr_files w)) (sh_curr_file_path sh) = Some f" and fok: "file_ok sn sh f bs stored w"
    and p: "sh_curr_file_path sh \<noteq> []" "sh_curr_file_path sh \<in> P" and io: "io_ready P (tsm_io w)" and mem: "memory_ok s w"
    and fit: "block_fit sn s w b" and sh: "wr_mea_shard_map w s = Some sh"
    and need: "block_need sn b \<le> unat (sh_curr_file_margin sh)" and fl: "wr_field_map w (db_field_name b) = Some fl"
  shows "yields (res_bind (on_tsm (write_data_to_file sn scratch (db_type b) (db_num b) (calculate_timestamp_size sn (db_timestamps b))
        (calculate_val_size sn (db_values b)) (sh_curr_file_path sh) (sint (sh_curr_file_head_offset sh))) w) (\<lambda>(use_size, w).
      res_bind (record_block env fl (db_field_name b) s
        (create_index_entry (db_max_timestamp b) (db_min_timestamp b) (sh_curr_file_head_offset sh) (of_int use_size))
        (sh_curr_file_margin sh) (sh_curr_file_head_offset sh) use_size w) (\<lambda>w. Inr (Again, w))))
    (\<lambda>(st, w'). st = Again \<and> block_stored sn P s stored b w w' \<and> block_recorded sn sh s bs stored b fl w w')"
proof -
  let ?h = "unat (sh_curr_file_head_offset sh)" and ?p = "sh_curr_file_path sh"
  let ?ct = "calculate_timestamp_size sn (db_timestamps b)" and ?cv = "calculate_val_size sn (db_values b)"
  have f': "files (io_disk (tsm_io w)) ?p = Some f" using f by simp
  have h: "?h \<le> 504" "?h = 5 \<or> first_block_before sn f ?h" using fok by (auto simp: file_ok_def Let_def)
  have sint: "sint (sh_curr_file_head_offset sh) = int ?h" using sint_small64 [of ?h] h(1) by simp
  have dok: "data_ok sn (db_timestamps b) (db_values b)" using fit by (simp add: block_fit_def)
  let ?g = "pwrite ?h (data_image (db_type b) (db_num b) ?ct ?cv) f"
  have size: "int (length (data_image (db_type b) (db_num b) ?ct ?cv)) = int (block_size sn b)" by (simp add: block_size_def)
  have wr: "yields (write_data_to_file sn scratch (db_type b) (db_num b) ?ct ?cv ?p (int ?h) (tsm_io w)) (\<lambda>(r, st').
      r = int (block_size sn b) \<and> wrote P ?p ?g (tsm_io w) st')"
    using write_data_ready [OF io p(2) f', of "int ?h" sn "db_type b" "db_num b" ?ct ?cv scratch]
      readable_after_write [OF dok h(2)] by (simp add: size del: length_data_image)
  show ?thesis unfolding sint
  proof (rule on_tsm_bind, rule wr, unfold prod.case, elim conjE)
    fix r io
    assume r: "r = int (block_size sn b)" and wrote: "wrote P ?p ?g (tsm_io w) io"
    define w1 where "w1 = set_tsm_io io w"
    let ?e = "create_index_entry (db_max_timestamp b) (db_min_timestamp b) (sh_curr_file_head_offset sh) (of_int (int (block_size sn b)))"
    have w1: "wr_mea_shard_map w1 s = Some sh" "wr_field_map w1 (db_field_name b) = Some fl" "tsm_io w1 = io"
      "fw_data_deque w1 = fw_data_deque w" "wr_mea_shard_map w1 = wr_mea_shard_map w"
      using sh fl by (simp_all add: w1_def)
    obtain w2 where w2: "record_block env fl (db_field_name b) s ?e (sh_curr_file_margin sh) (sh_curr_file_head_offset sh)
        (int (block_size sn b)) w1 = Inr w2"
      and rec: "recorded fl (db_field_name b) s ?e sh (sh_curr_file_margin sh) (sh_curr_file_head_offset sh) (int (block_size sn b)) w1 w2"
      using record_block_run [OF w1(1,2)] by blast
    have ok1: "file_ok sn sh f bs stored w1" "memory_ok s w1" "block_fit sn s w1 b"
      using fok mem fit file_ok_cong [of w1 w] memory_ok_cong [of w1 w] by (simp_all add: w1_def block_fit_def field_key_def)
    have "wr_mea_shard_map w2 s \<noteq> None" using rec by (simp add: recorded_def)
    then obtain sh' where sh': "wr_mea_shard_map w2 s = Some sh'" by blast
    note st = file_ok_block_stored [OF ok1(1,2) w1(2) ok1(3) need sh' rec]
    have t2: "tsm_io w2 = io" "fw_data_deque w2 = fw_data_deque w" using rec w1 by (simp_all add: recorded_def)
    have g: "files (fp_disk (wr_files w2)) (sh_curr_file_path sh') = Some ?g"
      using wrote_file [OF wrote] t2(1) st(3) by (metis io_disk_tsm_io)
    then have "flush_ok sn P s (stored @ [b]) w2"
      using st(1,3) p wrote_ready [OF wrote] t2(1) sh' recorded_memory_ok [OF rec ok1(2) w1(2)] unfolding flush_ok_def by auto
    moreover have "block_recorded sn sh s bs stored b fl w w2"
      using rec sh' g st(1,3) unfolding block_recorded_def w1_def by metis
    moreover have "same_keys w w2" using recorded_memory_ok(2) [OF rec ok1(2) w1(2)] by (simp add: same_keys_def w1_def)
    ultimately show "yields (res_bind (record_block env fl (db_field_name b) s
        (create_index_entry (db_max_timestamp b) (db_min_timestamp b) (sh_curr_file_head_offset sh) (of_int r))
        (sh_curr_file_margin sh) (sh_curr_file_head_offset sh) r (set_tsm_io io w)) (\<lambda>w. Inr (Again, w)))
      (\<lambda>(st, w'). st = Again \<and> block_stored sn P s stored b w w' \<and> block_recorded sn sh s bs stored b fl w w')"
      unfolding r w1_def [symmetric] w2 res_bind_simps
      using t2 st(2-5) sh sh' f g by (simp add: block_stored_def shard_margin_def grown_def)
  qed
qed

lemma store_block_ok:
  assumes ok: "flush_ok sn P s stored w" and fit: "block_fit sn s w b" and sh: "wr_mea_shard_map w s = Some sh"
    and need: "block_need sn b \<le> unat (sh_curr_file_margin sh)" and fl: "wr_field_map w (db_field_name b) = Some fl"
  shows "yields (res_bind (on_tsm (write_data_to_file sn scratch (db_type b) (db_num b) (calculate_timestamp_size sn (db_timestamps b))
        (calculate_val_size sn (db_values b)) (sh_curr_file_path sh) (sint (sh_curr_file_head_offset sh))) w) (\<lambda>(use_size, w).
      res_bind (record_block env fl (db_field_name b) s
        (create_index_entry (db_max_timestamp b) (db_min_timestamp b) (sh_curr_file_head_offset sh) (of_int use_size))
        (sh_curr_file_margin sh) (sh_curr_file_head_offset sh) use_size w) (\<lambda>w. Inr (Again, w))))
    (\<lambda>(st, w'). st = Again \<and> block_stored sn P s stored b w w')"
proof -
  obtain f bs where f: "files (fp_disk (wr_files w)) (sh_curr_file_path sh) = Some f" "file_ok sn sh f bs stored w"
    "sh_curr_file_path sh \<noteq> []" "sh_curr_file_path sh \<in> P" "io_ready P (tsm_io w)" "memory_ok s w"
    using ok sh by (auto simp: flush_ok_def)
  show ?thesis by (rule yields_mono [OF store_block_writes [OF f fit sh need fl]]) auto
qed

lemma flush_data_block_ok:
  assumes ok: "flush_ok sn P s stored w" and sn: "sn = we_snappy env" and q: "fw_data_deque w = b # bs"
    and fit: "block_fit sn s w b" and need: "block_need sn b \<le> shard_margin s w"
  shows "yields (flush_data_block env w) (\<lambda>(st, w'). st = Again \<and> flush_ok sn P s (stored @ [b]) w' \<and>
    fw_data_deque w' = bs \<and> same_keys w w' \<and> shard_margin s w \<le> shard_margin s w' + block_need sn b \<and> grown sn s [b] w w')"
proof -
  obtain sh where sh: "wr_mea_shard_map w s = Some sh" "sh_curr_file_path sh \<noteq> []" using ok by (auto simp: flush_ok_def)
  obtain fl where fl: "wr_field_map w (db_field_name b) = Some fl" using fit by (auto simp: block_fit_def field_key_def)
  define w0 where "w0 = w\<lparr>fw_data_deque := bs\<rparr>"
  have w0: "wr_mea_shard_map w0 s = Some sh" "wr_field_map w0 (db_field_name b) = Some fl" "block_fit sn s w0 b"
    using sh fl fit by (simp_all add: w0_def block_fit_def field_key_def)
  have "flush_ok sn P s stored w0"
    using ok memory_ok_cong [of w0 w] file_ok_cong [of w0 w] by (simp add: flush_ok_def w0_def)
  note st = store_block_ok [OF this w0(3,1) _ w0(2), of "new_data_block (we_junk_type env)" env]
  have need': "block_need sn b \<le> unat (sh_curr_file_margin sh)" using need sh by (simp add: shard_margin_def)
  have lt: "unat (sh_curr_file_margin sh) < 2 ^ LENGTH(64)" by (rule unsigned_less)
  have "\<not> need_create_file (sh_curr_file_margin sh) (block_size sn b) (db_series_key_and_field_name b)"
  proof -
    have "unat (of_nat (block_need sn b) :: 64 word) = block_need sn b"
      using need' lt by (simp add: unat_of_nat take_bit_nat_eq_self)
    then show ?thesis using need' by (simp add: need_create_file_def word_less_nat_alt block_need_def)
  qed
  then have "flush_data_block env w = res_bind (on_tsm (write_data_to_file sn (new_data_block (we_junk_type env)) (db_type b) (db_num b)
        (calculate_timestamp_size sn (db_timestamps b)) (calculate_val_size sn (db_values b)) (sh_curr_file_path sh)
        (sint (sh_curr_file_head_offset sh))) w0) (\<lambda>(use_size, w).
      res_bind (record_block env fl (db_field_name b) s
        (create_index_entry (db_max_timestamp b) (db_min_timestamp b) (sh_curr_file_head_offset sh) (of_int use_size))
        (sh_curr_file_margin sh) (sh_curr_file_head_offset sh) use_size w) (\<lambda>w. Inr (Again, w)))"
    using fit sh w0(1,2) by (simp add: flush_data_block_def pop_data_from_deque_def q w0_def [symmetric] get_shard_def Let_def sn
        choose_block_file_def block_fit_def block_size_def)
  then show ?thesis using st [OF need'] by (simp add: block_stored_def yields_mono w0_def same_keys_def shard_margin_def grown_def)
qed

section \<open>The whole queue\<close>

lemma block_fit_same_keys: "same_keys w w' \<Longrightarrow> block_fit sn s w b \<Longrightarrow> block_fit sn s w' b"
proof -
  assume k: "same_keys w w'" and b: "block_fit sn s w b"
  have "map_option fst (map_option (\<lambda>f. (f_index_block_meta_key f, f_type f)) (wr_field_map w' (db_field_name b))) =
      map_option fst (map_option (\<lambda>f. (f_index_block_meta_key f, f_type f)) (wr_field_map w (db_field_name b)))"
    using k by (simp only: same_keys_def)
  then show ?thesis using b by (simp add: block_fit_def field_key_def option.map_comp comp_def)
qed

definition queue_need :: "snappy \<Rightarrow> data_block list \<Rightarrow> nat" where
  "queue_need sn bs = sum_list (map (block_need sn) bs)"

lemma flush_round_ok:
  assumes ok: "flush_ok sn P s stored w" and sn: "sn = we_snappy env" and fit: "\<forall>b \<in> set (fw_data_deque w). block_fit sn s w b"
    and need: "queue_need sn (fw_data_deque w) \<le> shard_margin s w"
  shows "yields (flush_round env w) (\<lambda>(st, w').
    (fw_data_deque w = [] \<and> st = Stop \<and> fw_data_deque w' = [] \<and> flush_ok sn P s stored w' \<and> grown sn s [] w w') \<or>
    (\<exists>b. fw_data_deque w = b # fw_data_deque w' \<and> st = Again \<and> flush_ok sn P s (stored @ [b]) w' \<and> grown sn s [b] w w' \<and>
       same_keys w w' \<and> queue_need sn (fw_data_deque w') \<le> shard_margin s w'))"
proof -
  have block: "yields (flush_data_block env w1) (\<lambda>(st, w').
    (fw_data_deque w = [] \<and> st = Stop \<and> fw_data_deque w' = [] \<and> flush_ok sn P s stored w' \<and> grown sn s [] w w') \<or>
    (\<exists>b. fw_data_deque w = b # fw_data_deque w' \<and> st = Again \<and> flush_ok sn P s (stored @ [b]) w' \<and> grown sn s [b] w w' \<and>
       same_keys w w' \<and> queue_need sn (fw_data_deque w') \<le> shard_margin s w'))"
    if w1: "flush_ok sn P s stored w1" "fw_data_deque w1 = fw_data_deque w" "same_keys w w1" "shard_margin s w1 = shard_margin s w"
      "grown sn s [] w w1" for w1
  proof (cases "fw_data_deque w")
    case Nil
    then show ?thesis using w1 by (simp add: flush_data_block_def pop_data_from_deque_def)
  next
    case (Cons b bs)
    have f1: "block_fit sn s w1 b" using fit Cons block_fit_same_keys [OF w1(3)] by simp
    have q1: "fw_data_deque w1 = b # bs" and n1: "block_need sn b \<le> shard_margin s w1"
      using Cons w1 need by (simp_all add: queue_need_def)
    show ?thesis
      by (rule yields_mono [OF flush_data_block_ok [OF w1(1) sn q1 f1 n1]])
         (use Cons w1(1-4) grown_trans [OF w1(5)] need in \<open>auto simp: queue_need_def intro: same_keys_trans\<close>)
  qed
  show ?thesis
  proof (cases "wr_index_task_queue w")
    case Nil
    then show ?thesis using block [OF ok] grown_refl [OF ok] by (simp add: flush_round_def flush_index_task_def task_queue_empty_def)
  next
    case (Cons fn fns)
    show ?thesis unfolding flush_round_def
      by (rule yields_bind [OF flush_index_task_ok [OF ok Cons]]) (auto intro: block)
  qed
qed

lemma queue_flush_disk_ok:
  assumes "flush_ok sn P s stored w" "sn = we_snappy env" "\<forall>b \<in> set (fw_data_deque w). block_fit sn s w b"
    "queue_need sn (fw_data_deque w) \<le> shard_margin s w"
  shows "\<exists>w'. queue_flush_disk env w = Inr w' \<and> fw_data_deque w' = [] \<and> flush_ok sn P s (stored @ fw_data_deque w) w' \<and>
    grown sn s (fw_data_deque w) w w'"
  using assms
proof (induction env w arbitrary: stored rule: queue_flush_disk.induct)
  case (1 env w)
  obtain st w1 where r: "flush_round env w = Inr (st, w1)"
    and c: "(fw_data_deque w = [] \<and> st = Stop \<and> fw_data_deque w1 = [] \<and> flush_ok sn P s stored w1 \<and> grown sn s [] w w1) \<or>
      (\<exists>b. fw_data_deque w = b # fw_data_deque w1 \<and> st = Again \<and> flush_ok sn P s (stored @ [b]) w1 \<and> grown sn s [b] w w1 \<and>
         same_keys w w1 \<and> queue_need sn (fw_data_deque w1) \<le> shard_margin s w1)"
    using flush_round_ok [OF 1(2-5)] by (auto elim!: yieldsE)
  show ?case using c
  proof
    assume "fw_data_deque w = [] \<and> st = Stop \<and> fw_data_deque w1 = [] \<and> flush_ok sn P s stored w1 \<and> grown sn s [] w w1"
    then show ?thesis using r by (subst queue_flush_disk.simps) simp
  next
    assume "\<exists>b. fw_data_deque w = b # fw_data_deque w1 \<and> st = Again \<and> flush_ok sn P s (stored @ [b]) w1 \<and> grown sn s [b] w w1 \<and>
         same_keys w w1 \<and> queue_need sn (fw_data_deque w1) \<le> shard_margin s w1"
    then obtain b where b: "fw_data_deque w = b # fw_data_deque w1" "st = Again" "flush_ok sn P s (stored @ [b]) w1"
      "same_keys w w1" "queue_need sn (fw_data_deque w1) \<le> shard_margin s w1" "grown sn s [b] w w1" by blast
    have "\<forall>b \<in> set (fw_data_deque w1). block_fit sn s w1 b"
      using 1(4) b(1) block_fit_same_keys [OF b(4)] by simp
    then obtain w' where "queue_flush_disk env w1 = Inr w'" "fw_data_deque w' = []"
        "flush_ok sn P s ((stored @ [b]) @ fw_data_deque w1) w'" "grown sn s (fw_data_deque w1) w1 w'"
      using 1(1) [OF r, of "stored @ [b]"] b 1(3) by auto
    then show ?thesis using r b(1,2) grown_trans [OF b(6)] by (subst queue_flush_disk.simps) simp
  qed
qed

section \<open>The first block of a shard\<close>

lemma write_header_ready:
  assumes "io_ready P st" "p \<in> P" "files (io_disk st) p = Some f"
  shows "yields (write_header_to_file h p st) (\<lambda>(r, st').
    r \<and> wrote P p (pwrite (cached_pos st p ''binary'') (header_bytes h) f) st st')"
  unfolding write_header_to_file_def
  by (rule with_stream_binary [OF assms(1,2)], rule writes_bind, assumption, rule assms(3), rule release_step, assumption)
     (simp add: wrote_def)

lemma write_footer_ready:
  assumes "io_ready P st" "p \<in> P" "files (io_disk st) p = Some f" "8 \<le> tail"
  shows "yields (write_footer_to_file ft p tail st) (\<lambda>(r, st').
    r \<and> wrote P p (pwrite (nat (tail - 8)) (footer_bytes ft) f) st st')"
  unfolding write_footer_to_file_def
  by (rule with_stream_binary [OF assms(1,2)], rule seek_bind, assumption, simp add: assms(4),
      rule writes_bind, assumption, rule assms(3), rule release_step, assumption)
     (simp add: wrote_def)

lemma io_ready_new_file:
  assumes rdy: "io_ready P st" and room: "card (dom (m_file_stream st) \<union> P) + 1 < m_max_size st"
  shows "io_ready (insert p P) (st\<lparr>io_disk := put_file p [] (io_disk st)\<rparr>)"
proof -
  note d = io_ready_D [OF rdy]
  have "fm_wf (st\<lparr>io_disk := put_file p [] (io_disk st)\<rparr>)"
    using d(1) by (auto simp: fm_wf_def entry_ok_def)
  moreover have "card (dom (m_file_stream st) \<union> insert p P) \<le> card (dom (m_file_stream st) \<union> P) + 1"
    using card_insert_le_m1 by (metis Suc_eq_plus1 Un_insert_right card_insert_if card.infinite finite_insert le_SucI order_refl)
  ultimately show ?thesis using d room by (auto simp: io_ready_def)
qed

lemma cached_pos_missing:
  assumes "fm_wf st" "files (io_disk st) p = None"
  shows "cached_pos st p mode = 0"
  using fm_wf_entry [OF assms(1), of p] assms(2)
  by (cases "m_file_stream st p") (auto simp: cached_pos_def entry_ok_def)

text \<open>The file that \<open>create_block_file\<close> makes, and what it needs to be able to.\<close>

definition new_file_path :: "write_env \<Rightarrow> writer \<Rightarrow> string" where
  "new_file_path env w = db_path (wr_db_name w) @ ''/'' @ data_file_name (wr_tb_name w) (we_clock env (wr_clock w)) ''tsm''"

definition new_file_possible :: "write_env \<Rightarrow> string set \<Rightarrow> writer \<Rightarrow> bool" where
  "new_file_possible env P w \<longleftrightarrow> io_ready P (tsm_io w) \<and>
     card (dom (m_file_stream (wr_tsm w)) \<union> P) + 1 < m_max_size (wr_tsm w) \<and>
     exists_table (wr_db_name w) (wr_tb_name w) (wr_files w) \<and>
     new_file_path env w \<notin> dirs (fp_disk (wr_files w)) \<and> files (fp_disk (wr_files w)) (new_file_path env w) = None \<and>
     parent_dir (new_file_path env w) \<in> dirs (fp_disk (wr_files w))"

definition fresh_file :: "write_env \<Rightarrow> string" where
  "fresh_file env = header_bytes \<lparr>hd_magic = 1, hd_version = 1, hd_padding = we_junk_padding env\<rparr> @ replicate 496 NUL @ put_word 8 (0 :: 64 word)"

lemma fresh_file_bytes:
  "pwrite 504 (footer_bytes \<lparr>ft_offset = 0\<rparr>) (pwrite 0 (header_bytes \<lparr>hd_magic = 1, hd_version = 1, hd_padding = we_junk_padding env\<rparr>) []) = fresh_file env"
proof -
  have "header_bytes h \<noteq> []" for h by (metis length_header_bytes list.size(3) zero_neq_numeral)
  moreover have "footer_bytes \<lparr>ft_offset = 0\<rparr> = put_word 8 (0 :: 64 word)" "put_word 8 (0 :: 64 word) \<noteq> []"
    by (simp_all add: footer_bytes_def) (metis length_put_word list.size(3) zero_neq_numeral)
  ultimately show ?thesis by (simp add: fresh_file_def pwrite_def)
qed

lemma fresh_file_chain: "index_chain (fresh_file env) [] 504"
  by (simp add: index_chain_def fresh_file_def)

lemma create_file_new:
  assumes "new_file_possible env P w"
  shows "create_file (we_clock env (wr_clock w)) (wr_tb_name w) (wr_db_name w) ''tsm'' (wr_files w) =
    (new_file_path env w, (set_disk (put_file (new_file_path env w) [] (fp_disk (wr_files w))) (wr_files w))\<lparr>fp_fds := fp_fds (wr_files w) + 1\<rparr>)"
  using assms by (simp add: create_file_def new_file_possible_def os_open_create_def new_file_path_def Let_def)

lemma create_block_file_writes:
  assumes new: "new_file_possible env P w" and sh: "wr_mea_shard_map w s = Some sh"
  defines "p \<equiv> new_file_path env w"
  shows "yields (create_block_file env s w) (\<lambda>((margin, head_offset, path), w').
    path = p \<and> margin = 499 \<and> head_offset = 5 \<and>
    wr_mea_shard_map w' = (wr_mea_shard_map w)(s \<mapsto> create_tsm_file_init sh p) \<and>
    io_ready (insert p P) (tsm_io w') \<and> fp_disk (wr_files w') = put_file p (fresh_file env) (fp_disk (wr_files w)) \<and>
    fw_data_deque w' = fw_data_deque w \<and> wr_field_map w' = wr_field_map w \<and> wr_index_map w' = wr_index_map w \<and>
    wr_index_task_queue w' = wr_index_task_queue w \<and> wr_task_set w' = wr_task_set w)"
proof -
  define w1 where "w1 = shard_notify env True (set_shard s (create_tsm_file_init sh p)
    (w\<lparr>wr_clock := wr_clock w + 1, wr_files := (set_disk (put_file p [] (fp_disk (wr_files w))) (wr_files w))\<lparr>fp_fds := fp_fds (wr_files w) + 1\<rparr>\<rparr>))"
  let ?h = "\<lparr>hd_magic = 1, hd_version = 1, hd_padding = we_junk_padding env\<rparr>"
  have run: "create_block_file env s w =
      res_bind (on_tsm (write_header_to_file ?h p) w1) (\<lambda>(_, w).
      res_bind (on_tsm (write_footer_to_file \<lparr>ft_offset = 0\<rparr> p (int DATA_BLOCK_MARGIN)) w) (\<lambda>(_, w).
        Inr ((of_nat (DATA_BLOCK_MARGIN - 13), 5, p), w)))"
    using create_file_new [OF new] sh
    by (simp add: create_block_file_def Let_def clock_now_def w1_def p_def get_shard_def)
  have d1: "tsm_io w1 = (tsm_io w)\<lparr>io_disk := put_file p [] (io_disk (tsm_io w))\<rparr>"
    by (simp add: w1_def set_shard_def shard_notify_def Let_def tsm_io_def set_disk_def)
  have io1: "io_ready (insert p P) (tsm_io w1)"
    unfolding d1 by (rule io_ready_new_file) (use new in \<open>auto simp: new_file_possible_def tsm_io_def\<close>)
  have f1: "files (io_disk (tsm_io w1)) p = Some []" by (simp add: d1)
  have pos: "cached_pos (tsm_io w1) p ''binary'' = 0"
  proof -
    have "m_file_stream (tsm_io w) p = None"
      using new fm_wf_entry [OF io_ready_D(1), of P "tsm_io w" p]
      by (cases "m_file_stream (tsm_io w) p") (auto simp: new_file_possible_def entry_ok_def p_def)
    then show ?thesis by (simp add: d1 cached_pos_def)
  qed
  have ge: "8 \<le> int DATA_BLOCK_MARGIN" by (simp add: DATA_BLOCK_MARGIN_def)
  show ?thesis unfolding run
  proof (rule on_tsm_bind, rule write_header_ready [OF io1 _ f1], simp, unfold prod.case, elim conjE)
    fix r io
    assume wrote: "wrote (insert p P) p (pwrite (cached_pos (tsm_io w1) p ''binary'') (header_bytes ?h) []) (tsm_io w1) io"
    then have 2: "io_ready (insert p P) io" "files (io_disk io) p = Some (pwrite 0 (header_bytes ?h) [])"
      "io_disk io = put_file p (pwrite 0 (header_bytes ?h) []) (io_disk (tsm_io w1))"
      using wrote_ready wrote_file unfolding pos wrote_def by blast+
    define w2 where "w2 = set_tsm_io io w1"
    have io2: "io_ready (insert p P) (tsm_io w2)" "files (io_disk (tsm_io w2)) p = Some (pwrite 0 (header_bytes ?h) [])"
      using 2 by (simp_all add: w2_def)
    show "yields (res_bind (on_tsm (write_footer_to_file \<lparr>ft_offset = 0\<rparr> p (int DATA_BLOCK_MARGIN)) (set_tsm_io io w1)) (\<lambda>(_, w).
        Inr ((of_nat (DATA_BLOCK_MARGIN - 13), 5, p), w)))
      (\<lambda>((margin, head_offset, path), w').
        path = p \<and> margin = 499 \<and> head_offset = 5 \<and>
        wr_mea_shard_map w' = (wr_mea_shard_map w)(s \<mapsto> create_tsm_file_init sh p) \<and>
        io_ready (insert p P) (tsm_io w') \<and> fp_disk (wr_files w') = put_file p (fresh_file env) (fp_disk (wr_files w)) \<and>
        fw_data_deque w' = fw_data_deque w \<and> wr_field_map w' = wr_field_map w \<and> wr_index_map w' = wr_index_map w \<and>
        wr_index_task_queue w' = wr_index_task_queue w \<and> wr_task_set w' = wr_task_set w)"
      unfolding w2_def [symmetric]
    proof (rule on_tsm_bind, rule write_footer_ready [OF io2(1) _ io2(2) ge], simp, unfold prod.case, elim conjE)
      fix r io'
      assume wr: "wrote (insert p P) p (pwrite (nat (int DATA_BLOCK_MARGIN - 8)) (footer_bytes \<lparr>ft_offset = 0\<rparr>) (pwrite 0 (header_bytes ?h) [])) (tsm_io w2) io'"
      have n: "nat (int DATA_BLOCK_MARGIN - 8) = 504" by (simp add: DATA_BLOCK_MARGIN_def)
      have f3: "io_disk io' = put_file p (fresh_file env) (fp_disk (wr_files w))" "io_ready (insert p P) io'"
        using wr 2(3) d1 wrote_ready [OF wr] by (simp_all add: wrote_def n fresh_file_bytes w2_def)
      then show "yields (Inr ((of_nat (DATA_BLOCK_MARGIN - 13), 5, p), set_tsm_io io' w2))
        (\<lambda>((margin, head_offset, path), w').
          path = p \<and> margin = 499 \<and> head_offset = 5 \<and>
          wr_mea_shard_map w' = (wr_mea_shard_map w)(s \<mapsto> create_tsm_file_init sh p) \<and>
          io_ready (insert p P) (tsm_io w') \<and> fp_disk (wr_files w') = put_file p (fresh_file env) (fp_disk (wr_files w)) \<and>
          fw_data_deque w' = fw_data_deque w \<and> wr_field_map w' = wr_field_map w \<and> wr_index_map w' = wr_index_map w \<and>
          wr_index_task_queue w' = wr_index_task_queue w \<and> wr_task_set w' = wr_task_set w)"
        by (simp add: DATA_BLOCK_MARGIN_def w2_def w1_def set_shard_def)
    qed
  qed
qed

lemma create_tsm_file_init_simps [simp]:
  "sh_curr_file_path (create_tsm_file_init sh p) = p" "unat (sh_curr_file_head_offset (create_tsm_file_init sh p)) = 5"
  "unat (sh_curr_file_margin (create_tsm_file_init sh p)) = 499" "unat (sh_curr_file_tail_offset (create_tsm_file_init sh p)) = 504"
  "sh_tsm_file (create_tsm_file_init sh p) = sh_tsm_file sh @ [file_name_of p]"
  by (simp_all add: create_tsm_file_init_def DATA_BLOCK_MARGIN_def)

lemma fresh_file_ok: "wr_index_map w = [] \<Longrightarrow> file_ok sn (create_tsm_file_init sh p) (fresh_file env) [] [] w"
  using fresh_file_chain by (simp add: file_ok_def Let_def set_aside_def)

lemma create_block_file_ok:
  assumes new: "new_file_possible env P w" and mem: "memory_ok s w" and im: "wr_index_map w = []"
    and sh: "wr_mea_shard_map w s = Some sh"
  defines "p \<equiv> new_file_path env w"
  shows "yields (create_block_file env s w) (\<lambda>((margin, head_offset, path), w').
    path = p \<and> wr_mea_shard_map w' s = Some (create_tsm_file_init sh p) \<and> margin = 499 \<and> head_offset = 5 \<and>
    flush_ok sn (insert p P) s [] w' \<and> files (fp_disk (wr_files w')) p = Some (fresh_file env) \<and>
    fw_data_deque w' = fw_data_deque w \<and> wr_field_map w' = wr_field_map w \<and>
    wr_mea_shard_map w' = (wr_mea_shard_map w)(s \<mapsto> create_tsm_file_init sh p) \<and>
    wr_index_map w' = [] \<and> wr_index_task_queue w' = wr_index_task_queue w \<and>
    file_ok sn (create_tsm_file_init sh p) (fresh_file env) [] [] w')"
proof -
  have "p \<noteq> []" by (simp add: p_def new_file_path_def)
  moreover have "memory_ok s w3" if "wr_index_map w3 = wr_index_map w" "wr_field_map w3 = wr_field_map w"
    "wr_index_task_queue w3 = wr_index_task_queue w" "wr_task_set w3 = wr_task_set w" for w3 :: writer
    using mem that memory_ok_cong [of w3 w s] by simp
  moreover have "file_ok sn (create_tsm_file_init sh p) (fresh_file env) [] [] w3" if "wr_index_map w3 = wr_index_map w" for w3
    using that im by (simp add: fresh_file_ok)
  ultimately show ?thesis
    by (intro yields_mono [OF create_block_file_writes [OF new sh, folded p_def]])
       (auto simp: flush_ok_def im split: prod.splits)
qed

text \<open>
  The file of a new shard: its path and its name in the list of the shard, magic number and version, then the bytes of the blocks.
\<close>

definition starts_file :: "write_env \<Rightarrow> string \<Rightarrow> shard \<Rightarrow> string \<Rightarrow> data_block list \<Rightarrow> writer \<Rightarrow> bool" where
  "starts_file env p sh s bs w \<longleftrightarrow>
     (\<exists>sh' f. wr_mea_shard_map w s = Some sh' \<and> sh_curr_file_path sh' = p \<and> sh_tsm_file sh' = sh_tsm_file sh @ [file_name_of p] \<and>
        files (fp_disk (wr_files w)) p = Some f \<and>
        take (unat (sh_curr_file_head_offset sh')) f =
          put_word 4 (1 :: 32 word) @ put_word 1 (1 :: 8 word) @ concat (map (block_bytes (we_snappy env)) bs))"

lemma fresh_file_start: "take 5 (fresh_file env) = put_word 4 (1 :: 32 word) @ put_word 1 (1 :: 8 word)"
  by (simp add: fresh_file_def header_bytes_def)

lemma starts_file_grown:
  "starts_file env p sh s as w \<Longrightarrow> grown (we_snappy env) s bs w w' \<Longrightarrow> starts_file env p sh s (as @ bs) w'"
  unfolding starts_file_def grown_def by (elim exE conjE) simp

lemma fresh_block_writes:
  assumes new: "new_file_possible env P (w\<lparr>fw_data_deque := bs\<rparr>)" and mem: "memory_ok s w" and im: "wr_index_map w = []"
    and sh: "wr_mea_shard_map w s = Some sh" "sh_curr_file_path sh = []" and sn: "sn = we_snappy env"
    and q: "fw_data_deque w = b # bs" and fit: "block_fit sn s w b" and need: "block_need sn b \<le> 499"
    and fl: "wr_field_map w (db_field_name b) = Some fl"
  defines "w0 \<equiv> w\<lparr>fw_data_deque := bs\<rparr>"
  shows "yields (flush_data_block env w) (\<lambda>(st, w'). st = Again \<and>
    flush_ok sn (insert (new_file_path env w0) P) s [b] w' \<and> fw_data_deque w' = bs \<and> same_keys w w' \<and>
    499 \<le> shard_margin s w' + block_need sn b \<and> starts_file env (new_file_path env w0) sh s [b] w' \<and>
    (\<exists>w1. wr_index_map w1 = [] \<and> wr_index_task_queue w1 = [] \<and> wr_field_map w1 = wr_field_map w \<and>
       wr_mea_shard_map w1 = (wr_mea_shard_map w)(s \<mapsto> create_tsm_file_init sh (new_file_path env w0)) \<and>
       block_recorded sn (create_tsm_file_init sh (new_file_path env w0)) s [] [] b fl w1 w'))"
proof -
  have tasks: "wr_index_task_queue w = []" using mem im by (simp add: memory_ok_def)
  have w0: "wr_mea_shard_map w0 s = Some sh" "wr_field_map w0 = wr_field_map w" "wr_index_map w0 = []" "memory_ok s w0"
    "wr_index_task_queue w0 = []" "wr_mea_shard_map w0 = wr_mea_shard_map w"
    using sh im mem tasks memory_ok_cong [of w0 w s] by (simp_all add: w0_def)
  have run: "flush_data_block env w = res_bind (create_block_file env s w0) (\<lambda>((margin, head_offset, curr_file_path), w).
      res_bind (on_tsm (write_data_to_file sn (new_data_block (we_junk_type env)) (db_type b) (db_num b)
        (calculate_timestamp_size sn (db_timestamps b)) (calculate_val_size sn (db_values b)) curr_file_path (sint head_offset)) w)
      (\<lambda>(use_size, w). res_bind (record_block env fl (db_field_name b) s
        (create_index_entry (db_max_timestamp b) (db_min_timestamp b) head_offset (of_int use_size))
        margin head_offset use_size w) (\<lambda>w. Inr (Again, w))))"
    using fit sh fl by (simp add: flush_data_block_def pop_data_from_deque_def q get_shard_def Let_def sn
        choose_block_file_def block_fit_def w0_def)
  show ?thesis unfolding run
  proof (rule yields_bind [OF create_block_file_ok [OF new [folded w0_def] w0(4,3,1), of sn]], clarify)
    fix w1
    let ?p = "new_file_path env w0"
    assume w1: "wr_mea_shard_map w1 s = Some (create_tsm_file_init sh ?p)" "flush_ok sn (insert ?p P) s [] w1"
      "fw_data_deque w1 = fw_data_deque w0" "wr_field_map w1 = wr_field_map w0"
      "files (fp_disk (wr_files w1)) ?p = Some (fresh_file env)"
      "wr_mea_shard_map w1 = (wr_mea_shard_map w0)(s \<mapsto> create_tsm_file_init sh ?p)" "wr_index_map w1 = []"
      "wr_index_task_queue w1 = wr_index_task_queue w0" "file_ok sn (create_tsm_file_init sh ?p) (fresh_file env) [] [] w1"
    have sh1: "sh_curr_file_margin (create_tsm_file_init sh ?p) = 499" "sh_curr_file_head_offset (create_tsm_file_init sh ?p) = 5"
      "sh_curr_file_path (create_tsm_file_init sh ?p) = ?p"
      by (simp_all add: create_tsm_file_init_def DATA_BLOCK_MARGIN_def)
    have "block_fit sn s w1 b" using fit w1(4) w0(2) by (simp add: block_fit_def field_key_def)
    note fit1 = this
    have st1: "files (fp_disk (wr_files w1)) (sh_curr_file_path (create_tsm_file_init sh ?p)) = Some (fresh_file env)"
      "sh_curr_file_path (create_tsm_file_init sh ?p) \<noteq> []" "sh_curr_file_path (create_tsm_file_init sh ?p) \<in> insert ?p P"
      "io_ready (insert ?p P) (tsm_io w1)" "memory_ok s w1"
      using w1 sh1(3) by (auto simp: flush_ok_def new_file_path_def)
    note store = store_block_writes [OF st1(1) w1(9) st1(2-5) fit1 w1(1), unfolded sh1, of fl "new_data_block (we_junk_type env)" env]
    have "block_need sn b \<le> unat (499 :: 64 word)" "wr_field_map w1 (db_field_name b) = Some fl" using need fl w1(4) w0(2) by simp_all
    note store = store [OF this]
    show "yields (res_bind (on_tsm (write_data_to_file sn (new_data_block (we_junk_type env)) (db_type b) (db_num b)
        (calculate_timestamp_size sn (db_timestamps b)) (calculate_val_size sn (db_values b)) ?p (sint (5 :: 64 word))) w1)
      (\<lambda>(use_size, w). res_bind (record_block env fl (db_field_name b) s
        (create_index_entry (db_max_timestamp b) (db_min_timestamp b) 5 (of_int use_size))
        499 5 use_size w) (\<lambda>w. Inr (Again, w))))
      (\<lambda>(st, w'). st = Again \<and> flush_ok sn (insert ?p P) s [b] w' \<and> fw_data_deque w' = bs \<and> same_keys w w' \<and>
        499 \<le> shard_margin s w' + block_need sn b \<and> starts_file env ?p sh s [b] w' \<and>
        (\<exists>w1. wr_index_map w1 = [] \<and> wr_index_task_queue w1 = [] \<and> wr_field_map w1 = wr_field_map w \<and>
           wr_mea_shard_map w1 = (wr_mea_shard_map w)(s \<mapsto> create_tsm_file_init sh ?p) \<and>
           block_recorded sn (create_tsm_file_init sh ?p) s [] [] b fl w1 w'))"
    proof (rule yields_mono [OF store], clarify)
      fix w'
      assume st: "block_stored sn (insert ?p P) s [] b w1 w'" and rec: "block_recorded sn (create_tsm_file_init sh ?p) s [] [] b fl w1 w'"
      have "starts_file env ?p sh s [] w1"
        using w1(1,5) by (simp add: starts_file_def fresh_file_start)
      moreover have "grown (we_snappy env) s [b] w1 w'" using st sn by (simp add: block_stored_def)
      ultimately have "starts_file env ?p sh s [b] w'" using starts_file_grown [of env ?p sh s "[]"] by fastforce
      then show "Again = Again \<and> flush_ok sn (insert ?p P) s [b] w' \<and> fw_data_deque w' = bs \<and> same_keys w w' \<and>
        499 \<le> shard_margin s w' + block_need sn b \<and> starts_file env ?p sh s [b] w' \<and>
        (\<exists>w1. wr_index_map w1 = [] \<and> wr_index_task_queue w1 = [] \<and> wr_field_map w1 = wr_field_map w \<and>
           wr_mea_shard_map w1 = (wr_mea_shard_map w)(s \<mapsto> create_tsm_file_init sh ?p) \<and>
           block_recorded sn (create_tsm_file_init sh ?p) s [] [] b fl w1 w')"
        using st w1 sh1 w0 by (intro conjI exI [of _ w1] rec) (auto simp: block_stored_def w0_def same_keys_def shard_margin_def)
    qed
  qed
qed

lemma flush_fresh_block_ok:
  assumes new: "new_file_possible env P (w\<lparr>fw_data_deque := bs\<rparr>)" and mem: "memory_ok s w" and im: "wr_index_map w = []"
    and sh: "wr_mea_shard_map w s = Some sh" "sh_curr_file_path sh = []" and sn: "sn = we_snappy env"
    and q: "fw_data_deque w = b # bs" and fit: "block_fit sn s w b" and need: "block_need sn b \<le> 499"
  defines "w0 \<equiv> w\<lparr>fw_data_deque := bs\<rparr>"
  shows "yields (flush_data_block env w) (\<lambda>(st, w'). st = Again \<and>
    flush_ok sn (insert (new_file_path env w0) P) s [b] w' \<and> fw_data_deque w' = bs \<and> same_keys w w' \<and>
    499 \<le> shard_margin s w' + block_need sn b \<and> starts_file env (new_file_path env w0) sh s [b] w')"
proof -
  obtain fl where fl: "wr_field_map w (db_field_name b) = Some fl" using fit by (auto simp: block_fit_def field_key_def)
  show ?thesis unfolding w0_def by (rule yields_mono [OF fresh_block_writes [OF new mem im sh sn q fit need fl]]) auto
qed

lemma queue_flush_fresh_ok:
  assumes new: "new_file_possible env P (w\<lparr>fw_data_deque := bs\<rparr>)" and mem: "memory_ok s w" and im: "wr_index_map w = []"
    and sh: "wr_mea_shard_map w s = Some sh" "sh_curr_file_path sh = []" and sn: "sn = we_snappy env"
    and q: "fw_data_deque w = b # bs" and fit: "\<forall>b \<in> set (fw_data_deque w). block_fit sn s w b"
    and need: "queue_need sn (fw_data_deque w) \<le> 499"
  defines "w0 \<equiv> w\<lparr>fw_data_deque := bs\<rparr>"
  shows "\<exists>w'. queue_flush_disk env w = Inr w' \<and> fw_data_deque w' = [] \<and>
    flush_ok sn (insert (new_file_path env w0) P) s (fw_data_deque w) w' \<and>
    starts_file env (new_file_path env w0) sh s (fw_data_deque w) w'"
proof -
  have tasks: "wr_index_task_queue w = []" using mem im by (simp add: memory_ok_def)
  have b: "block_fit sn s w b" "block_need sn b \<le> 499" using fit need q by (simp_all add: queue_need_def)
  obtain w1 where r: "flush_data_block env w = Inr (Again, w1)" and
    w1: "flush_ok sn (insert (new_file_path env w0) P) s [b] w1" "fw_data_deque w1 = bs" "same_keys w w1"
      "499 \<le> shard_margin s w1 + block_need sn b" "starts_file env (new_file_path env w0) sh s [b] w1"
    using flush_fresh_block_ok [OF new mem im sh sn q b] unfolding w0_def [symmetric] by (auto elim!: yieldsE)
  have "\<forall>b \<in> set (fw_data_deque w1). block_fit sn s w1 b" using fit q w1(2) block_fit_same_keys [OF w1(3)] by simp
  from queue_flush_disk_ok [OF w1(1) sn this] obtain w' where
    "queue_flush_disk env w1 = Inr w'" "fw_data_deque w' = []" "flush_ok sn (insert (new_file_path env w0) P) s (b # bs) w'" "grown sn s bs w1 w'"
    using need q w1(2,4) by (auto simp: queue_need_def)
  moreover from this(4) have "starts_file env (new_file_path env w0) sh s (b # bs) w'"
    using starts_file_grown [OF w1(5)] sn by fastforce
  ultimately show ?thesis using r tasks q
    by (subst queue_flush_disk.simps) (simp add: flush_round_def flush_index_task_def task_queue_empty_def)
qed

text \<open>What a stored block means for a reader: its entry leads back to its points.\<close>

definition served :: "snappy \<Rightarrow> string \<Rightarrow> writer \<Rightarrow> data_block \<Rightarrow> bool" where
  "served sn s w b \<longleftrightarrow>
     (\<exists>sh e bs. wr_mea_shard_map w s = Some sh \<and> indexed w bs (db_series_key_and_field_name b) e \<and>
        index_chain (the (files (fp_disk (wr_files w)) (sh_curr_file_path sh))) bs (unat (sh_curr_file_tail_offset sh)) \<and>
        ie_max_time e = db_max_timestamp b \<and> ie_min_time e = db_min_timestamp b \<and>
        (\<forall>b0. \<exists>b' io. read_data_from_file sn b0 (sh_curr_file_path sh) (int (unat (ie_offset e))) (tsm_io w) = Inr ((True, b'), io) \<and>
           db_type b' = db_type b \<and> db_num b' = db_num b \<and> db_timestamps b' = db_timestamps b \<and> db_values b' = db_values b))"

lemma flush_ok_served:
  assumes ok: "flush_ok sn P s stored w" and b: "b \<in> set stored"
  shows "served sn s w b"
proof -
  obtain sh f bs where sh: "wr_mea_shard_map w s = Some sh" "sh_curr_file_path sh \<in> P"
    and f: "files (fp_disk (wr_files w)) (sh_curr_file_path sh) = Some f" and fok: "file_ok sn sh f bs stored w"
    and io: "io_ready P (tsm_io w)"
    using ok by (auto simp: flush_ok_def)
  obtain e where e: "indexed w bs (db_series_key_and_field_name b) e" "entry_of sn f (unat (sh_curr_file_head_offset sh)) b e"
    and chain: "index_chain f bs (unat (sh_curr_file_tail_offset sh))"
    using fok b by (auto simp: file_ok_def Let_def)
  have f': "files (io_disk (tsm_io w)) (sh_curr_file_path sh) = Some f" using f by simp
  have at: "data_at f (unat (ie_offset e)) (db_type b) (db_num b)
       (calculate_timestamp_size sn (db_timestamps b)) (calculate_val_size sn (db_values b))"
    and dok: "data_ok sn (db_timestamps b) (db_values b)" "named_type (db_type b)"
    using e(2) by (simp_all add: entry_of_def)
  have "\<exists>b' io. read_data_from_file sn b0 (sh_curr_file_path sh) (int (unat (ie_offset e))) (tsm_io w) = Inr ((True, b'), io) \<and>
           db_type b' = db_type b \<and> db_num b' = db_num b \<and> db_timestamps b' = db_timestamps b \<and> db_values b' = db_values b" for b0
    using read_data_ready [OF io sh(2) f' at data_ok_decodes [OF dok(1)], of b0] dok(2) by (auto elim!: yieldsE)
  then show ?thesis using sh(1) e f chain unfolding served_def entry_of_def by force
qed

end
