(* ===== verification/Write_Properties.thy ===== *)
theory Write_Properties
  imports Write_Safety
begin

text \<open>
  The properties of the writer: the flush queue on a shard with a file and on a new shard, what a
  full file does to its index, and tasks that outlive their entries.
\<close>

section \<open>Flushing\<close>

definition demo_block :: data_block where
  "demo_block = \<lparr>db_size = 24, db_field_name = ''v'', db_series_key_and_field_name = ''kv'', db_max_timestamp = 9,
     db_min_timestamp = 7, db_shard_id = ''2024-05-01'', db_type = DATA_INTEGER, db_num = 2, db_tp_snappy_size = 0,
     db_val_snappy_size = 0, db_timestamps = [7, 9], db_values = [''1'', ''25'']\<rparr>"

definition demo_env :: write_env where
  "demo_env = \<lparr>we_snappy = plain_snappy, we_rand = (\<lambda>_. 0), we_clock = (\<lambda>n. of_nat (7 + n)),
     we_localtime = (\<lambda>_. (2024, 5, 1)), we_junk_type = DATA_INTEGER, we_junk_count = 0, we_junk_padding = 0\<rparr>"

definition demo_writer :: "disk \<Rightarrow> string \<Rightarrow> writer" where
  "demo_writer d path =
     (mk_writer ''d'' ''t'' \<lparr>fs_skip_list_state_map = [], fs_index_entry_state_map = []\<rparr> [] (snd (load_database ''d'' [''t''] (new_file_path_manager ''tsm'' d))) [])
       \<lparr>fw_data_deque := [demo_block],
        wr_field_map := [''v'' \<mapsto> (mk_field DATA_INTEGER ''v'')\<lparr>f_index_block_meta_key := ''kv''\<rparr>],
        wr_mea_shard_map := [''2024-05-01'' \<mapsto> new_shard\<lparr>sh_shard_id := ''2024-05-01'', sh_curr_file_path := path,
          sh_curr_file_margin := 499, sh_curr_file_head_offset := 5, sh_curr_file_tail_offset := 504\<rparr>]\<rparr>"

lemma demo_writer_fields [simp]:
  "fw_data_deque (demo_writer d p) = [demo_block]" "wr_index_map (demo_writer d p) = []"
  "wr_task_set (demo_writer d p) = {}" "wr_index_task_queue (demo_writer d p) = []"
  "wr_field_map (demo_writer d p) = [''v'' \<mapsto> (mk_field DATA_INTEGER ''v'')\<lparr>f_index_block_meta_key := ''kv''\<rparr>]"
  "fp_disk (wr_files (demo_writer d p)) = d" "tsm_io (demo_writer d p) = mk_file_io 20 d"
  by (simp_all add: demo_writer_def mk_writer_def load_database_def new_file_path_manager_def tsm_io_def mk_file_io_def)

lemma demo_writer_shard [simp]:
  "wr_mea_shard_map (demo_writer d p) ''2024-05-01'' = Some (new_shard\<lparr>sh_shard_id := ''2024-05-01'', sh_curr_file_path := p,
     sh_curr_file_margin := 499, sh_curr_file_head_offset := 5, sh_curr_file_tail_offset := 504\<rparr>)"
  by (simp add: demo_writer_def)



definition demo_file_disk :: disk where
  "demo_file_disk = \<lparr>files = [''f'' \<mapsto> fresh_file demo_env], dirs = {''./../dbs/d''}\<rparr>"







section \<open>A full file\<close>

text \<open>The streams a run of operations on one file can add to the manager.\<close>

definition only_slot :: "string \<Rightarrow> file_io \<Rightarrow> file_io \<Rightarrow> bool" where
  "only_slot p st st' \<longleftrightarrow> m_max_size st' = m_max_size st \<and> dom (m_file_stream st') \<subseteq> insert p (dom (m_file_stream st))"

lemma only_slot_trans: "only_slot p st st' \<Longrightarrow> only_slot p st' st'' \<Longrightarrow> only_slot p st st''"
  unfolding only_slot_def by (metis (no_types, opaque_lifting) insert_absorb2 insert_mono subset_trans)

lemma same_slots: "m_max_size st' = m_max_size st \<Longrightarrow> m_file_stream st' = m_file_stream st \<Longrightarrow> only_slot p st st'"
  by (auto simp: only_slot_def)

lemma stream_ops_slots:
  "stream_seek a i st = Inr st' \<Longrightarrow> only_slot p st st'" "stream_seek_end a i st = Inr st' \<Longrightarrow> only_slot p st st'"
  "stream_write a bs st = Inr st' \<Longrightarrow> only_slot p st st'"
proof -
  show 1: "stream_seek a i st = Inr st' \<Longrightarrow> only_slot p st st'" for i
    by (simp add: stream_seek_fields same_slots)
  show "stream_seek_end a i st = Inr st' \<Longrightarrow> only_slot p st st'" using 1 by (auto simp: stream_seek_end_def res_bind_eq_Inr)
  show "stream_write a bs st = Inr st' \<Longrightarrow> only_slot p st st'"
    by (auto simp: stream_write_def Let_def intro: same_slots split: option.split_asm if_split_asm)
qed

lemma stream_writes_slots: "stream_writes a bss st = Inr st' \<Longrightarrow> only_slot p st st'"
proof (induction bss arbitrary: st)
  case Nil
  then show ?case by (simp add: only_slot_def subset_insertI)
next
  case (Cons bs bss)
  then show ?case by (auto simp: res_bind_eq_Inr intro: only_slot_trans stream_ops_slots(3))
qed

lemma release_slots: "release_file_stream p st = Inr st' \<Longrightarrow> only_slot p st st'"
  using set_in_use_fields(5) [of p False st] update_usage_order_fields(5) [of p "set_in_use p False st"]
  by (simp add: release_file_stream_def only_slot_def subset_insertI split: if_split_asm) (metis update_usage_order_fields(4,5) set_in_use_fields(4,5) subset_insertI)

lemma evict_slots: "evict_least_used st = Inr st' \<Longrightarrow> m_max_size st' = m_max_size st \<and> dom (m_file_stream st') \<subseteq> dom (m_file_stream st)"
  by (auto simp: evict_least_used_def close_file_stream_def split: if_splits option.splits)

lemma open_new_stream_slots: "open_new_stream p mode st = Inr (r, st') \<Longrightarrow> only_slot p st st'"
proof -
  assume new: "open_new_stream p mode st = Inr (r, st')"
  then obtain st1 where "(if m_max_size st \<le> card (dom (m_file_stream st)) then evict_least_used st else Inr st) = Inr st1"
    and st': "m_max_size st' = m_max_size st1" "dom (m_file_stream st') \<subseteq> insert p (dom (m_file_stream st1))"
    by (auto simp: open_new_stream_def res_bind_eq_Inr Let_def subset_insertI split: option.split_asm prod.split_asm)
  then have "m_max_size st1 = m_max_size st" "dom (m_file_stream st1) \<subseteq> dom (m_file_stream st)"
    using evict_slots by (auto split: if_split_asm)
  then show ?thesis using st' unfolding only_slot_def by (metis insert_mono subset_trans)
qed

lemma get_file_stream_slots: "get_file_stream p mode st = Inr (r, st') \<Longrightarrow> only_slot p st st'"
proof -
  assume get: "get_file_stream p mode st = Inr (r, st')"
  show ?thesis
  proof (cases "\<exists>info. m_file_stream st p = Some (info, mode) \<and> \<not> si_in_use info")
    case True
    then have "st' = (update_usage_order p (set_in_use p True (st\<lparr>m_locked := True\<rparr>)))\<lparr>m_locked := False\<rparr>"
      using get by (auto simp: get_file_stream_def Let_def split: if_split_asm)
    then have "m_max_size st' = m_max_size st" "dom (m_file_stream st') = dom (m_file_stream st)" by simp_all
    then show ?thesis by (simp add: only_slot_def subset_insertI)
  next
    case False
    then have "open_new_stream p mode (st\<lparr>m_locked := True\<rparr>) = Inr (r, st')"
      using get by (auto simp: get_file_stream_def Let_def split: option.split_asm if_split_asm)
    from open_new_stream_slots [OF this] show ?thesis by (simp add: only_slot_def)
  qed
qed

lemma with_stream_slots:
  assumes "with_stream p mode closed body st = Inr (r, st')" "\<And>a st1 r st2. body a st1 = Inr (r, st2) \<Longrightarrow> only_slot p st1 st2"
  shows "only_slot p st st'"
proof -
  obtain a st1 where g: "get_file_stream p mode st = Inr (Some a, st1)"
    and b: "(if stream_is_open a st1 then body a st1 else Inr (closed, st1)) = Inr (r, st')"
    using assms(1) by (auto simp: with_stream_def res_bind_eq_Inr split: option.split_asm)
  show ?thesis using b get_file_stream_slots [OF g] only_slot_trans assms(2) by (cases "stream_is_open a st1") auto
qed

lemma write_index_slots:
  "write_index_meta_to_file m p off st = Inr (r, st') \<Longrightarrow> only_slot p st st'"
  "write_index_entry_to_file e p off st = Inr (r', st') \<Longrightarrow> only_slot p st st'"
  unfolding write_index_meta_to_file_def write_index_entry_to_file_def
  by (erule with_stream_slots, simp only: res_bind_eq_Inr prod.inject sum.inject, elim exE conjE,
      simp del: stream_writes.simps, meson only_slot_trans stream_ops_slots(1) stream_writes_slots release_slots)+

lemma write_index_entries_slots: "write_index_entries es p off st = Inr (r, st') \<Longrightarrow> only_slot p st st'"
proof (induction es arbitrary: off st)
  case Nil
  then show ?case by (simp add: only_slot_def subset_insertI)
next
  case (Cons e es)
  then show ?case by (auto simp: res_bind_eq_Inr intro: only_slot_trans write_index_slots(2))
qed

lemma write_series_index_block_slots:
  "write_series_index_block_to_file es m p off st = Inr (r, st') \<Longrightarrow> only_slot p st st'"
proof -
  assume wr: "write_series_index_block_to_file es m p off st = Inr (r, st')"
  have refl: "only_slot p st st" by (rule same_slots) simp_all
  show ?thesis
  proof (cases "m = None \<or> es = []")
    case True
    then show ?thesis using wr refl by (auto simp: write_series_index_block_to_file_def split: option.split_asm)
  next
    case False
    then obtain m' where m: "m = Some m'" and es: "es \<noteq> []" by (cases m) auto
    let ?m = "m'\<lparr>im_count := of_nat (length es)\<rparr>"
    obtain n st1 k st2 where 1: "write_index_meta_to_file ?m p off st = Inr (n, st1)"
      and 2: "write_index_entries es p (off + n) st1 = Inr (k, st2)"
      and 3: "with_stream p ''binary'' (False, [], Some ?m) (\<lambda>a st. res_bind (stream_seek_end a (- 8) st) (\<lambda>st.
        res_bind (stream_writes a [put_word 8 (of_int off :: 64 word)] st) (\<lambda>st. Inr ((True, [], Some ?m), st)))) st2 = Inr (r, st')"
      using wr es by (auto simp: m write_series_index_block_to_file_def Let_def res_bind_eq_Inr)
    have "only_slot p st2 st'"
      by (rule with_stream_slots [OF 3], simp only: res_bind_eq_Inr prod.inject sum.inject, elim exE conjE,
          simp del: stream_writes.simps, meson only_slot_trans stream_ops_slots(2) stream_writes_slots)
    then show ?thesis using write_index_slots(1) [OF 1] write_index_entries_slots [OF 2] only_slot_trans by blast
  qed
qed

lemma series_block_slots: "write_series_index_block env fl es p off w = Inr w' \<Longrightarrow> only_slot p (tsm_io w) (tsm_io w')"
proof -
  assume "write_series_index_block env fl es p off w = Inr w'"
  then obtain r where "on_tsm (write_series_index_block_to_file es (create_index_meta (we_junk_count env) (f_type fl)
      (f_index_block_meta_key fl)) p (sint off)) w = Inr (r, w')"
    by (auto simp: write_series_index_block_def res_bind_eq_Inr)
  then obtain io where "write_series_index_block_to_file es (create_index_meta (we_junk_count env) (f_type fl)
      (f_index_block_meta_key fl)) p (sint off) (tsm_io w) = Inr (r, io)" "w' = set_tsm_io io w"
    by (auto simp: on_tsm_def tsm_io_def set_tsm_io_def res_bind_eq_Inr)
  then show ?thesis using write_series_index_block_slots by simp
qed

text \<open>So there is still room for a new file.\<close>

lemma new_file_still_possible:
  assumes new: "new_file_possible env P w" and p: "p \<in> P" and slot: "only_slot p (tsm_io w) io"
    and wr: "wrote P p f (tsm_io w) io"
  shows "new_file_possible env P ((set_tsm_io io w)\<lparr>wr_index_map := im\<rparr>)"
    "new_file_path env ((set_tsm_io io w)\<lparr>wr_index_map := im\<rparr>) = new_file_path env w"
proof -
  show path: "new_file_path env ((set_tsm_io io w)\<lparr>wr_index_map := im\<rparr>) = new_file_path env w"
    by (simp add: new_file_path_def set_tsm_io_def)
  have "dom (m_file_stream io) \<union> P \<subseteq> dom (m_file_stream (tsm_io w)) \<union> P" using slot p by (auto simp: only_slot_def)
  moreover have "finite (dom (m_file_stream (tsm_io w)) \<union> P)"
    using new unfolding new_file_possible_def io_ready_def fm_wf_def by simp
  ultimately have "card (dom (m_file_stream io) \<union> P) \<le> card (dom (m_file_stream (tsm_io w)) \<union> P)" by (rule card_mono [rotated])
  moreover have "card (dom (m_file_stream (tsm_io w)) \<union> P) + 1 < m_max_size (tsm_io w)"
    using new by (simp add: new_file_possible_def tsm_io_def)
  ultimately have room: "card (dom (m_file_stream io) \<union> P) + 1 < m_max_size io" using slot by (simp add: only_slot_def)
  have disk: "files (io_disk io) = (files (fp_disk (wr_files w)))(p \<mapsto> f)" "dirs (io_disk io) = dirs (fp_disk (wr_files w))"
    "io_ready P io" using wr by (simp_all add: wrote_def put_file_def)
  have "p \<noteq> new_file_path env w"
    using new p io_ready_D(4) [of P "tsm_io w"] by (auto simp: new_file_possible_def)
  then show "new_file_possible env P ((set_tsm_io io w)\<lparr>wr_index_map := im\<rparr>)"
    using new room disk unfolding new_file_possible_def path
    by (simp add: exists_table_def set_tsm_io_def set_disk_def tsm_io_def)
qed

lemma low_footer: "drop 4 (put_word 8 (504 :: 64 word)) = put_word 4 (0 :: 32 word)" "le_decode (take 4 (put_word 8 (504 :: 64 word))) = 504"
  by code_simp+

lemma damaged_image:
  fixes e :: index_entry
  defines "o' \<equiv> get_word (take 4 (put_word 8 (ie_offset e)) @ take 4 (put_word 8 (504 :: 64 word))) :: 64 word"
  assumes "length pre = 504"
  shows "pwrite (504 + length (block_image (m, es @ [e])) - 8) (put_word 8 (504 :: 64 word)) (pre @ block_image (m, es @ [e])) =
    pre @ block_image (m, es @ [e\<lparr>ie_offset := o', ie_size := 0\<rparr>])"
proof -
  let ?a = "meta_image m @ concat (map entry_image es) @ put_word 8 (ie_max_time e) @ put_word 8 (ie_min_time e)"
  have o: "put_word 8 o' = take 4 (put_word 8 (ie_offset e)) @ take 4 (put_word 8 (504 :: 64 word))"
    unfolding o'_def by (rule put_get_word) simp_all
  have 1: "block_image (m, es @ [e]) = (?a @ take 4 (put_word 8 (ie_offset e))) @ drop 4 (put_word 8 (ie_offset e)) @ put_word 4 (ie_size e)"
    by (simp add: block_image_def entry_image_def)
  have 2: "block_image (m, es @ [e\<lparr>ie_offset := o', ie_size := 0\<rparr>]) = (?a @ take 4 (put_word 8 (ie_offset e))) @ put_word 8 (504 :: 64 word)"
    by (simp add: block_image_def entry_image_def o low_footer(1) [symmetric])
  have "pwrite (length ((pre @ ?a @ take 4 (put_word 8 (ie_offset e))) @ drop 4 (put_word 8 (ie_offset e)) @ put_word 4 (ie_size e)) - 8)
      (put_word 8 (504 :: 64 word)) ((pre @ ?a @ take 4 (put_word 8 (ie_offset e))) @ drop 4 (put_word 8 (ie_offset e)) @ put_word 4 (ie_size e))
    = (pre @ ?a @ take 4 (put_word 8 (ie_offset e))) @ put_word 8 (504 :: 64 word)"
    by (rule pwrite_last) simp_all
  then show ?thesis using assms(2) by (simp add: 1 2)
qed

lemma le_decode_append: "le_decode (xs @ ys) = le_decode xs + 256 ^ length xs * le_decode ys"
  by (induction xs) (simp_all add: algebra_simps)

lemma damaged_offset:
  fixes low :: string
  assumes "length low = 4"
  shows "2 ^ 40 \<le> unat (get_word (low @ take 4 (put_word 8 (504 :: 64 word))) :: 64 word)"
proof -
  have d: "le_decode (low @ take 4 (put_word 8 (504 :: 64 word))) = le_decode low + 256 ^ 4 * 504"
    using assms by (simp add: le_decode_append low_footer)
  have "le_decode low < 256 ^ 4" using le_decode_less [of low] assms by simp
  then have "le_decode low + 256 ^ 4 * 504 < 2 ^ LENGTH(64)" by simp
  then have "unat (of_nat (le_decode low + 256 ^ 4 * 504) :: 64 word) = le_decode low + 256 ^ 4 * 504"
    by (simp only: unat_of_nat take_bit_eq_mod mod_less)
  then show ?thesis unfolding get_word_def d by simp
qed

lemma read_single_block:
  assumes "block_ok b" "f = pre @ block_image b" "length pre < tail" "tail \<le> length f"
  shows "read_series_blocks f tail (length pre) = Inr ([b], length f)"
proof -
  have "pread (length pre) (length (block_image b) + 0) f = Inr (block_image b @ [])"
    using assms(2) by (simp add: pread_def)
  note 1 = read_series_block_image [OF assms(1) this]
  have "read_series_blocks f tail (length f) = Inr ([], length f)"
    using assms(4) by (subst read_series_blocks.simps) simp
  then show ?thesis using 1 assms(2,3) by (subst read_series_blocks.simps) simp
qed

lemma full_index_written:
  assumes "io_ready P (tsm_io w)" "p \<in> P" "files (fp_disk (wr_files w)) p = Some f" "length f = 512"
    "named_type (f_type fl)" "NUL \<notin> set (f_index_block_meta_key fl)" "ii_index_deque info = es @ [e]"
    "28 * length (es @ [e]) + 8 + length (f_index_block_meta_key fl) < 2 ^ 16"
  shows "\<exists>io f' off. flush_all_indexes env fl p 504 [(fn, info)] w = Inr (set_tsm_io io w) \<and>
    only_slot p (tsm_io w) io \<and> wrote P p f' (tsm_io w) io \<and>
    512 < length f' \<and> pread (length f' - 8) 8 f' = Inr (put_word 8 (504 :: 64 word)) \<and> 2 ^ 40 \<le> unat off \<and>
    read_series_blocks f' (length f' - 8) 504 =
      Inr ([(series_meta fl (es @ [e]), es @ [e\<lparr>ie_offset := off, ie_size := 0\<rparr>])], length f')"
proof -
  let ?b = "(series_meta fl (es @ [e]), es @ [e])"
  let ?o = "get_word (take 4 (put_word 8 (ie_offset e)) @ take 4 (put_word 8 (504 :: 64 word))) :: 64 word"
  let ?b' = "(series_meta fl (es @ [e]), es @ [e\<lparr>ie_offset := ?o, ie_size := 0\<rparr>])"
  let ?pre = "take 504 f"
  let ?g = "pwrite 504 (block_image ?b) f"
  have len: "length (block_image ?b) = 36 + 28 * length es + length (f_index_block_meta_key fl)"
    "length (block_image ?b') = 36 + 28 * length es + length (f_index_block_meta_key fl)"
    by (simp_all add: length_block_image series_meta_def)
  have pre: "length ?pre = 504" using assms(4) by simp
  have "0 < length (block_image ?b)" unfolding len(1) by simp
  then have "block_image ?b \<noteq> []" by blast
  then have g: "?g = ?pre @ block_image ?b" using assms(4) len(1) by (simp add: pwrite_def)
  have glen: "length ?g = length (?pre @ block_image ?b')" using g len pre by simp
  have damaged: "pwrite (length ?g - 8) (put_word 8 (504 :: 64 word)) ?g = ?pre @ block_image ?b'"
    unfolding g using damaged_image [OF pre, of "series_meta fl (es @ [e])" es e] by (simp add: assms(4) min_def)
  have pre_ok: "length (f_index_block_meta_key fl) < 2 ^ 16" "es @ [e] \<noteq> []" "8 \<le> length f" "unat (504 :: 64 word) < 2 ^ 63"
    using assms(4,8) by simp_all
  obtain io where io: "write_series_index_block env fl (es @ [e]) p 504 w = Inr (set_tsm_io io w)"
    "wrote P p (pwrite (length ?g - 8) (put_word 8 (504 :: 64 word)) ?g) (tsm_io w) io"
    using write_series_index_block_ok [OF assms(1-3,5) pre_ok, of env] by (auto elim!: yieldsE)
  then have w': "flush_all_indexes env fl p 504 [(fn, info)] w = Inr (set_tsm_io io w)" by (simp add: assms(7))
  have f': "wrote P p (?pre @ block_image ?b') (tsm_io w) io" using io(2) unfolding damaged .
  have slot: "only_slot p (tsm_io w) io" using series_block_slots [OF io(1)] by simp
  have ok: "block_ok ?b'"
    using series_meta_ok [OF assms(5,6,8)] by (simp add: block_ok_def)
  have rd: "read_series_blocks (?pre @ block_image ?b') (length (?pre @ block_image ?b') - 8) (length ?pre) =
      Inr ([?b'], length (?pre @ block_image ?b'))"
    by (rule read_single_block [OF ok refl]) (use len pre in simp_all)
  have "pread (length (?pre @ block_image ?b') - 8) 8 (?pre @ block_image ?b') = Inr (put_word 8 (504 :: 64 word))"
  proof -
    have ne: "put_word 8 (504 :: 64 word) \<noteq> []" by (metis length_put_word list.size(3) zero_neq_numeral)
    have "8 \<le> length ?g" using glen pre len(2) by simp
    then have "length (pwrite (length ?g - 8) (put_word 8 (504 :: 64 word)) ?g) = length ?g" using ne by (simp add: length_pwrite)
    then show ?thesis unfolding damaged [symmetric] by (simp only: pread_pwrite_same ne length_put_word simp_thms)
  qed
  moreover have "512 < length (?pre @ block_image ?b')" using len(2) pre by simp
  moreover have "2 ^ 40 \<le> unat ?o" by (rule damaged_offset) simp
  ultimately show ?thesis using w' slot f' rd [unfolded pre]
    by (intro exI [of _ io] exI [of _ "?pre @ block_image ?b'"] exI [of _ ?o] conjI)
qed

text \<open>
  C35. A full file loses an index entry: the file of the shard has its 512 bytes with the tail offset at 504, the entries
  of exactly one series wait in memory, the next block does not fit and a new file can be created. Choosing the file
  for the block then moves on to a new, empty file and forgets the waiting entries; but they have been written at the
  tail offset itself instead of below it (the size is subtracted afterwards). The old file has grown, and the
  footer, written over its last eight bytes, overwrites the end of the last entry. The index loader
  reads that entry back with size 0 and an offset beyond any file, so that the block it described is lost.
\<close>

theorem full_file_index_damaged:
  assumes new: "new_file_possible env P w" and sh: "wr_mea_shard_map w s = Some sh" "sh_curr_file_path sh \<in> P" "sh_curr_file_path sh \<noteq> []"
      "sh_curr_file_tail_offset sh = 504"
    and f: "files (fp_disk (wr_files w)) (sh_curr_file_path sh) = Some f" "length f = 512"
    and full: "need_create_file (sh_curr_file_margin sh) predict_size series"
    and im: "wr_index_map w = [(fn, info)]" "ii_index_deque info = es @ [e]"
    and fl: "named_type (f_type fl)" "NUL \<notin> set (f_index_block_meta_key fl)"
      "28 * length (es @ [e]) + 8 + length (f_index_block_meta_key fl) < 2 ^ 16"
  shows "\<exists>w' f' off. choose_block_file env fl s predict_size series w = Inr ((499, 5, new_file_path env w), w') \<and>
    wr_mea_shard_map w' s = Some (create_tsm_file_init sh (new_file_path env w)) \<and> wr_index_map w' = [] \<and>
    files (fp_disk (wr_files w')) (new_file_path env w) = Some (fresh_file env) \<and>
    files (fp_disk (wr_files w')) (sh_curr_file_path sh) = Some f' \<and>
    512 < length f' \<and> pread (length f' - 8) 8 f' = Inr (put_word 8 (504 :: 64 word)) \<and> 2 ^ 40 \<le> unat off \<and>
    read_series_blocks f' (length f' - 8) 504 =
      Inr ([(series_meta fl (es @ [e]), es @ [e\<lparr>ie_offset := off, ie_size := 0\<rparr>])], length f')"
proof -
  let ?p = "sh_curr_file_path sh"
  have io: "io_ready P (tsm_io w)" using new by (simp add: new_file_possible_def)
  obtain io f' off where w1: "flush_all_indexes env fl ?p 504 [(fn, info)] w = Inr (set_tsm_io io w)"
      "only_slot ?p (tsm_io w) io" "wrote P ?p f' (tsm_io w) io"
    and f': "512 < length f'" "pread (length f' - 8) 8 f' = Inr (put_word 8 (504 :: 64 word))" "2 ^ 40 \<le> unat off"
      "read_series_blocks f' (length f' - 8) 504 =
        Inr ([(series_meta fl (es @ [e]), es @ [e\<lparr>ie_offset := off, ie_size := 0\<rparr>])], length f')"
    using full_index_written [OF io sh(2) f fl(1,2) im(2) fl(3), of env fn] by blast
  note new1 = new_file_still_possible [OF new sh(2) w1(2,3), of "[]"]
  have run: "choose_block_file env fl s predict_size series w = create_block_file env s ((set_tsm_io io w)\<lparr>wr_index_map := []\<rparr>)"
    using sh full w1(1) by (simp add: choose_block_file_def get_shard_def im(1) Let_def)
  have sh1: "wr_mea_shard_map ((set_tsm_io io w)\<lparr>wr_index_map := []\<rparr>) s = Some sh" using sh(1) by simp
  have "?p \<noteq> new_file_path env w" using new f(1) by (auto simp: new_file_possible_def)
  then show ?thesis
    using create_block_file_writes [OF new1(1) sh1] f' wrote_file [OF w1(3)] unfolding run new1(2)
    by (auto elim!: yieldsE)
qed

definition full_writer :: writer where
  "full_writer = (demo_writer demo_file_disk ''f'')
     \<lparr>wr_index_map := [(''v'', new_index_entry_info\<lparr>ii_index_deque := [demo_entry]\<rparr>)],
      wr_mea_shard_map := [''2024-05-01'' \<mapsto> new_shard\<lparr>sh_shard_id := ''2024-05-01'', sh_curr_file_path := ''f'',
        sh_curr_file_margin := 0, sh_curr_file_head_offset := 504, sh_curr_file_tail_offset := 504\<rparr>]\<rparr>"

lemma full_writer_new_file: "new_file_possible demo_env {''f''} full_writer" "new_file_path demo_env full_writer = ''./../dbs/d/t-7.tsm''"
proof -
  show p: "new_file_path demo_env full_writer = ''./../dbs/d/t-7.tsm''"
    by (simp add: new_file_path_def full_writer_def demo_writer_def mk_writer_def demo_env_def db_path_def default_base_path_def
        data_file_name_def dec_int_def dec_nat.simps char_of_def bit_iff_odd)
  have "io_ready {''f''} (mk_file_io 20 demo_file_disk)" by (rule mk_file_io_ready) (auto simp: demo_file_disk_def)
  then show "new_file_possible demo_env {''f''} full_writer" unfolding new_file_possible_def p
    by (simp add: full_writer_def tsm_io_def demo_writer_def mk_writer_def load_database_def new_file_path_manager_def demo_file_disk_def
        exists_table_def db_path_def default_base_path_def parent_dir_def mk_file_io_def)
qed

theorem full_file_index_damaged_witness:
  "\<exists>w' f' off. choose_block_file demo_env (mk_field DATA_INTEGER ''v'') ''2024-05-01'' 20 ''kv'' full_writer =
      Inr ((499, 5, ''./../dbs/d/t-7.tsm''), w') \<and> wr_index_map w' = [] \<and> files (fp_disk (wr_files w')) ''f'' = Some f' \<and>
    read_series_blocks f' (length f' - 8) 504 =
      Inr ([(series_meta (mk_field DATA_INTEGER ''v'') [demo_entry], [demo_entry\<lparr>ie_offset := off, ie_size := 0\<rparr>])], length f')"
proof -
  have f: "files (fp_disk (wr_files full_writer)) ''f'' = Some (fresh_file demo_env)" "length (fresh_file demo_env) = 512"
    by (simp_all add: full_writer_def demo_file_disk_def fresh_file_def)
  have "need_create_file 0 20 ''kv''" by (simp add: need_create_file_def)
  from full_file_index_damaged [OF full_writer_new_file(1), of "''2024-05-01''" "new_shard\<lparr>sh_shard_id := ''2024-05-01'',
        sh_curr_file_path := ''f'', sh_curr_file_margin := 0, sh_curr_file_head_offset := 504, sh_curr_file_tail_offset := 504\<rparr>"
      "fresh_file demo_env" 20 "''kv''" "''v''" "new_index_entry_info\<lparr>ii_index_deque := [demo_entry]\<rparr>" "[]" demo_entry
      "mk_field DATA_INTEGER ''v''"] f this
  show ?thesis unfolding full_writer_new_file(2) by (simp add: full_writer_def mk_field_def named_type_def) blast
qed

text \<open>
  A task must not outlive its entries: when the entries of a field are gone (a full file clears
  them all, its queued tasks stay), the next task for it looks up the shard with the empty name,
  and the function \<open>get_shard\<close> ends without returning a reference.
\<close>

theorem stale_task_undefined:
  assumes "wr_index_task_queue w = fn # fns" "map_of (wr_index_map w) fn = None" "wr_mea_shard_map w [] = None"
  shows "queue_flush_disk env w = Inl No_return"
proof -
  have "flush_index_task env w = Inl No_return"
    using assms by (simp add: flush_index_task_def task_queue_empty_def pop_task_def new_index_entry_info_def get_shard_def)
  then show ?thesis by (subst queue_flush_disk.simps) (simp add: flush_round_def)
qed

theorem stale_task_undefined_witness:
  "queue_flush_disk demo_env (push_task ''v'' (demo_writer demo_file_disk ''f'')) = Inl No_return"
  by (rule stale_task_undefined [where fn = "''v''" and fns = "[]"]) (simp_all add: push_task_def demo_writer_def mk_writer_def)

end
