(* ===== verification/Iterators.thy ===== *)
theory Iterators
  imports Tsm_File Ordered_Map
begin

text \<open>
  The iterators of the query side (\<open>src/engine/tsm/iterator.h\<close>, \<open>iterator.cpp\<close>).

  A query has a tree of iterators: one per field, below it one per shard, below that one per series,
  which reads the blocks of its series. No node has two parents, so the tree is a nested record; only
  the centre with the stream manager is shared, and is passed along. Reading a vector out of range and
  taking the first entry of an empty map are errors; a size is a natural number, and the index of the
  current shard, which starts at -1, a word. The members that nothing reads are left out.
\<close>

section \<open>State\<close>

datatype single_type = Integer_value | Float_value | String_value

record single_data =
  sd_timestamp :: time_point
  sd_data :: string
  sd_type :: single_type

record row_node =
  rn_timestamp :: time_point
  rn_columns :: "(string, single_data) omap"

definition default_row :: row_node where
  "default_row = \<lparr>rn_timestamp = 0, rn_columns = []\<rparr>"

definition add_data_point :: "string \<Rightarrow> single_data \<Rightarrow> row_node \<Rightarrow> row_node" where
  "add_data_point field_name dp row = row\<lparr>rn_columns := om_put field_name dp (rn_columns row)\<rparr>"

record tag_set_iterator =
  ti_type :: single_type
  ti_timestamps :: "time_point list"
  ti_values :: "string list"
  ti_data_index :: nat
  ti_series_key :: string
  ti_series_blocks :: "series_index_block list"
  ti_index :: nat

record shard_iterator =
  hi_tag_sets :: "tag_set_iterator list"
  hi_index :: nat

record field_iterator =
  fd_field :: string
  fd_shards :: "shard_iterator list"
  fd_index :: "64 word"

record root_iterator =
  ri_fields :: "field_iterator list"
  ri_rows :: "(int, row_node) omap"
  ri_loaded :: bool
  ri_center :: tsm_io_center

text \<open>The type of a new series iterator is not initialised: \<open>junk\<close>.\<close>

definition new_tag_set_iterator :: "single_type \<Rightarrow> string \<Rightarrow> series_index_block list \<Rightarrow> tag_set_iterator" where
  "new_tag_set_iterator junk series_key blocks =
     \<lparr>ti_type = junk, ti_timestamps = [], ti_values = [], ti_data_index = 0, ti_series_key = series_key,
      ti_series_blocks = blocks, ti_index = 0\<rparr>"

definition new_field_iterator :: "string \<Rightarrow> field_iterator" where
  "new_field_iterator field = \<lparr>fd_field = field, fd_shards = [], fd_index = - 1\<rparr>"

definition new_tsm_io_center :: "string \<Rightarrow> string \<Rightarrow> disk \<Rightarrow> tsm_io_center" where
  "new_tsm_io_center db_name tb_name d =
     \<lparr>tc_db_name = db_name, tc_tb_name = tb_name, tc_io_manager = mk_file_io 8 d, tc_tsm_index = Map.empty\<rparr>"

definition new_root_iterator :: "string \<Rightarrow> string \<Rightarrow> disk \<Rightarrow> root_iterator" where
  "new_root_iterator db_name tb_name d =
     \<lparr>ri_fields = [], ri_rows = [], ri_loaded = False, ri_center = new_tsm_io_center db_name tb_name d\<rparr>"

section \<open>The series iterator\<close>

definition out_of_range :: cpp_error where
  "out_of_range = Out_of_range ''operator[]''"

definition single_type_of :: "single_type \<Rightarrow> data_type \<Rightarrow> single_type" where
  "single_type_of old ty =
     (case ty of DATA_STRING \<Rightarrow> String_value | DATA_INTEGER \<Rightarrow> Integer_value | DATA_FLOAT \<Rightarrow> Float_value | Unnamed_type _ \<Rightarrow> old)"

text \<open>The stream is taken and not released.\<close>

definition get_curr_tsm_file_data ::
    "snappy \<Rightarrow> string \<Rightarrow> int \<Rightarrow> tag_set_iterator \<Rightarrow> tsm_io_center \<Rightarrow> (tag_set_iterator \<times> tsm_io_center) result" where
  "get_curr_tsm_file_data sn tsm_file_name offset it c =
     (let file_path = ''./../dbs/'' @ tc_db_name c @ ''/'' @ tsm_file_name in
      res_bind (with_stream file_path ''binary-read'' it (\<lambda>a st.
       res_bind (stream_seek a offset st) (\<lambda>st.
       res_bind (stream_read a 4 st) (\<lambda>(ty, st).
       res_bind (stream_read a 4 st) (\<lambda>(num, st).
       res_bind (stream_read a 4 st) (\<lambda>(tp_size, st).
       res_bind (stream_read a 4 st) (\<lambda>(val_size, st).
       res_bind (sized_read a (get_word tp_size) st) (\<lambda>(tp, st).
       res_bind (decode_timestamps sn tp) (\<lambda>timestamps.
       res_bind (sized_read a (get_word val_size) st) (\<lambda>(vals, st).
       res_bind (returned (decode_values sn vals)) (\<lambda>data_values.
         Inr (it\<lparr>ti_timestamps := timestamps, ti_values := data_values, ti_data_index := 0,
                 ti_type := single_type_of (ti_type it) (type_of_code (get_word ty))\<rparr>, st))))))))))) (tc_io_manager c))
      (\<lambda>(it, st). Inr (it, c\<lparr>tc_io_manager := st\<rparr>)))"

definition tag_set_has_next :: "tag_set_iterator \<Rightarrow> bool" where
  "tag_set_has_next it \<longleftrightarrow> ti_data_index it < length (ti_timestamps it) \<or> ti_index it < length (ti_series_blocks it)"

text \<open>
  The two parts of \<open>next\<close>: when the points of the current block are used up, the next block is loaded; the
  result \<open>None\<close> of the first part is the early return. The test for another block compares the index
  of the current point with the number of blocks, and only the first entry of a block is read.
\<close>

definition tag_set_load ::
    "snappy \<Rightarrow> tag_set_iterator \<Rightarrow> tsm_io_center \<Rightarrow> (tag_set_iterator \<times> tsm_io_center) option result" where
  "tag_set_load sn it c =
     (if length (ti_timestamps it) \<le> ti_data_index it then
        (if ti_data_index it < length (ti_series_blocks it) then
           (if ti_index it < length (ti_series_blocks it) then
              (let block = ti_series_blocks it ! ti_index it; it = it\<lparr>ti_index := ti_index it + 1\<rparr> in
               case sb_index_entries block of
                 [] \<Rightarrow> Inl out_of_range
               | e # _ \<Rightarrow> res_bind (get_curr_tsm_file_data sn (sb_tsm_name block) (sint (ie_offset e)) it c) (\<lambda>r. Inr (Some r)))
            else Inl out_of_range)
         else Inr None)
      else Inr (Some (it, c)))"

definition tag_set_next ::
    "snappy \<Rightarrow> tag_set_iterator \<Rightarrow> tsm_io_center \<Rightarrow> (single_data option \<times> tag_set_iterator \<times> tsm_io_center) result" where
  "tag_set_next sn it0 c0 =
     (case tag_set_load sn it0 c0 of
        Inl e \<Rightarrow> Inl e
      | Inr None \<Rightarrow> Inr (None, it0, c0)
      | Inr (Some (it, c)) \<Rightarrow>
          (if ti_data_index it < length (ti_timestamps it) then
             (if ti_data_index it < length (ti_values it) then
                Inr (Some \<lparr>sd_timestamp = ti_timestamps it ! ti_data_index it, sd_data = ti_values it ! ti_data_index it,
                           sd_type = ti_type it\<rparr>,
                     it\<lparr>ti_data_index := ti_data_index it + 1\<rparr>, c)
              else Inl out_of_range)
           else Inr (None, it, c)))"

section \<open>Shard and field iterators\<close>

definition shard_has_next :: "shard_iterator \<Rightarrow> bool" where
  "shard_has_next h \<longleftrightarrow> list_ex tag_set_has_next (drop (hi_index h) (hi_tag_sets h))"

function shard_next ::
    "snappy \<Rightarrow> shard_iterator \<Rightarrow> tsm_io_center \<Rightarrow> (single_data option \<times> shard_iterator \<times> tsm_io_center) result" where
  "shard_next sn h c =
     (if hi_index h < length (hi_tag_sets h) then
        (let current = hi_tag_sets h ! hi_index h in
         if tag_set_has_next current then
           res_bind (tag_set_next sn current c) (\<lambda>(d, it, c).
             Inr (d, h\<lparr>hi_tag_sets := (hi_tag_sets h)[hi_index h := it]\<rparr>, c))
         else shard_next sn (h\<lparr>hi_index := hi_index h + 1\<rparr>) c)
      else Inr (None, h, c))"
  by pat_completeness auto
termination
  by (relation "measure (\<lambda>(sn, h, c). length (hi_tag_sets h) - hi_index h)") auto

declare shard_next.simps [simp del]

definition has_next_in_current_shard :: "field_iterator \<Rightarrow> bool" where
  "has_next_in_current_shard f \<longleftrightarrow>
     unat (fd_index f) < length (fd_shards f) \<and> shard_has_next (fd_shards f ! unat (fd_index f))"

definition field_next ::
    "snappy \<Rightarrow> field_iterator \<Rightarrow> tsm_io_center \<Rightarrow> (single_data option \<times> field_iterator \<times> tsm_io_center) result" where
  "field_next sn f c =
     (if has_next_in_current_shard f then
        res_bind (shard_next sn (fd_shards f ! unat (fd_index f)) c) (\<lambda>(d, h, c).
          Inr (d, f\<lparr>fd_shards := (fd_shards f)[unat (fd_index f) := h]\<rparr>, c))
      else Inr (None, f, c))"

definition field_move_to_next_shard :: "field_iterator \<Rightarrow> bool \<times> field_iterator" where
  "field_move_to_next_shard f =
     (if unat (fd_index f + 1) < length (fd_shards f) then (True, f\<lparr>fd_index := fd_index f + 1\<rparr>) else (False, f))"

text \<open>A round of the loop either uses up a point or begins a block.\<close>

definition tag_set_left :: "tag_set_iterator \<Rightarrow> nat \<times> nat" where
  "tag_set_left it = (length (ti_series_blocks it) - ti_index it, length (ti_timestamps it) - ti_data_index it)"

definition tag_sets_left :: "tag_set_iterator list \<Rightarrow> nat \<times> nat" where
  "tag_sets_left its = (sum_list (map (fst \<circ> tag_set_left) its), sum_list (map (snd \<circ> tag_set_left) its))"

definition field_left :: "field_iterator \<Rightarrow> nat \<times> nat" where
  "field_left f = tag_sets_left (concat (map hi_tag_sets (fd_shards f)))"

definition fewer :: "((nat \<times> nat) \<times> (nat \<times> nat)) set" where
  "fewer = less_than <*lex*> less_than"

lemma get_curr_keeps:
  assumes "get_curr_tsm_file_data sn n off it c = Inr (it', c')"
  shows "ti_series_blocks it' = ti_series_blocks it" "ti_index it' = ti_index it" "ti_series_key it' = ti_series_key it"
proof -
  have "ti_series_blocks it' = ti_series_blocks it \<and> ti_index it' = ti_index it \<and> ti_series_key it' = ti_series_key it"
    using assms
    by (auto simp: get_curr_tsm_file_data_def with_stream_def Let_def res_bind_eq_Inr split: option.splits if_splits prod.splits)
  then show "ti_series_blocks it' = ti_series_blocks it" "ti_index it' = ti_index it" "ti_series_key it' = ti_series_key it" by auto
qed

lemma tag_set_load_left:
  assumes "tag_set_load sn it c = Inr (Some (it', c'))"
  shows "it' = it \<or> fst (tag_set_left it') < fst (tag_set_left it)"
  using assms get_curr_keeps
  by (fastforce simp: tag_set_load_def Let_def res_bind_eq_Inr tag_set_left_def split: if_splits list.splits)

lemma tag_set_next_left:
  assumes "tag_set_next sn it c = Inr (Some d, it', c')"
  shows "(tag_set_left it', tag_set_left it) \<in> fewer"
proof -
  obtain it1 c1 where 1: "tag_set_load sn it c = Inr (Some (it1, c1))" "ti_data_index it1 < length (ti_timestamps it1)"
      "it' = it1\<lparr>ti_data_index := ti_data_index it1 + 1\<rparr>"
    using assms by (auto simp: tag_set_next_def split: sum.splits option.splits if_splits)
  show ?thesis using tag_set_load_left [OF 1(1)] 1(2,3) by (auto simp: fewer_def tag_set_left_def)
qed

lemma sum_list_update_nat: "i < length xs \<Longrightarrow> sum_list (xs[i := x]) + xs ! i = sum_list xs + (x :: nat)"
  by (induction xs arbitrary: i) (auto split: nat.split)

lemma tag_sets_left_update:
  assumes "i < length its" "(tag_set_left it', tag_set_left (its ! i)) \<in> fewer"
  shows "(tag_sets_left (its[i := it']), tag_sets_left its) \<in> fewer"
proof -
  have "sum_list (map g (its[i := it'])) + g (its ! i) = sum_list (map g its) + g it'" for g :: "tag_set_iterator \<Rightarrow> nat"
    using sum_list_update_nat [of i "map g its" "g it'"] assms(1) by (simp add: map_update)
  from this [of "fst \<circ> tag_set_left"] this [of "snd \<circ> tag_set_left"] assms(2) show ?thesis
    by (cases "tag_set_left it'"; cases "tag_set_left (its ! i)") (auto simp: fewer_def tag_sets_left_def)
qed

lemma shard_next_left:
  "shard_next sn h c = Inr (Some d, h', c') \<Longrightarrow>
    \<exists>i it'. i < length (hi_tag_sets h) \<and> hi_tag_sets h' = (hi_tag_sets h)[i := it'] \<and>
      (tag_set_left it', tag_set_left (hi_tag_sets h ! i)) \<in> fewer"
proof (induction sn h c rule: shard_next.induct)
  case (1 sn h c)
  show ?case
  proof (cases "hi_index h < length (hi_tag_sets h) \<and> \<not> tag_set_has_next (hi_tag_sets h ! hi_index h)")
    case True
    then show ?thesis using "1.IH" [OF _ refl] "1.prems" by (subst (asm) (2) shard_next.simps) (simp add: Let_def)
  next
    case False
    then obtain it where "hi_index h < length (hi_tag_sets h)" "tag_set_next sn (hi_tag_sets h ! hi_index h) c = Inr (Some d, it, c')"
        "h' = h\<lparr>hi_tag_sets := (hi_tag_sets h)[hi_index h := it]\<rparr>"
      using "1.prems" by (subst (asm) shard_next.simps) (auto simp: Let_def res_bind_eq_Inr split: if_splits)
    then show ?thesis using tag_set_next_left by (intro exI [of _ "hi_index h"] exI [of _ it]) simp
  qed
qed

lemma field_next_left:
  assumes "field_next sn f c = Inr (Some d, f', c')"
  shows "(field_left f', field_left f) \<in> fewer"
proof -
  let ?i = "unat (fd_index f)"
  obtain h' where i: "?i < length (fd_shards f)" and h': "shard_next sn (fd_shards f ! ?i) c = Inr (Some d, h', c')"
      "f' = f\<lparr>fd_shards := (fd_shards f)[?i := h']\<rparr>"
    using assms by (auto simp: field_next_def has_next_in_current_shard_def res_bind_eq_Inr split: if_splits)
  obtain j it' where j: "j < length (hi_tag_sets (fd_shards f ! ?i))" "hi_tag_sets h' = (hi_tag_sets (fd_shards f ! ?i))[j := it']"
      "(tag_set_left it', tag_set_left (hi_tag_sets (fd_shards f ! ?i) ! j)) \<in> fewer"
    using shard_next_left [OF h'(1)] by blast
  let ?pre = "concat (map hi_tag_sets (take ?i (fd_shards f)))" and ?suf = "concat (map hi_tag_sets (drop (Suc ?i) (fd_shards f)))"
  have split: "concat (map hi_tag_sets (fd_shards f)) = ?pre @ hi_tag_sets (fd_shards f ! ?i) @ ?suf"
    by (subst id_take_nth_drop [OF i]) simp
  have split': "concat (map hi_tag_sets ((fd_shards f)[?i := h'])) = ?pre @ hi_tag_sets h' @ ?suf"
    by (subst upd_conv_take_nth_drop [OF i]) simp
  have "concat (map hi_tag_sets (fd_shards f')) = (concat (map hi_tag_sets (fd_shards f)))[length ?pre + j := it']"
    using h'(2) j(1,2) unfolding split by (simp add: split' list_update_append)
  then show ?thesis unfolding field_left_def
    using tag_sets_left_update [of "length ?pre + j" "concat (map hi_tag_sets (fd_shards f))" it'] j(1,3)
    by (simp add: split nth_append)
qed

section \<open>The root iterator\<close>

text \<open>\<open>m_row_nodes\<close> is ordered by the time stamp as a signed number.\<close>

definition add_row_point :: "string \<Rightarrow> single_data \<Rightarrow> (int, row_node) omap \<Rightarrow> (int, row_node) omap" where
  "add_row_point field dp rows =
     (let row = om_at default_row (sint (sd_timestamp dp)) rows in
      om_put (sint (sd_timestamp dp)) (add_data_point field dp (row\<lparr>rn_timestamp := sd_timestamp dp\<rparr>)) rows)"

function load_field ::
    "snappy \<Rightarrow> field_iterator \<Rightarrow> tsm_io_center \<Rightarrow> (int, row_node) omap \<Rightarrow> bool \<Rightarrow>
     (field_iterator \<times> tsm_io_center \<times> (int, row_node) omap \<times> bool) result" where
  "load_field sn f c rows has_data =
     (if has_next_in_current_shard f then
        (case field_next sn f c of
           Inl e \<Rightarrow> Inl e
         | Inr (None, f', c') \<Rightarrow> Inr (f', c', rows, has_data)
         | Inr (Some dp, f', c') \<Rightarrow> load_field sn f' c' (add_row_point (fd_field f) dp rows) True)
      else Inr (f, c, rows, has_data))"
  by pat_completeness auto
termination
  by (relation "inv_image fewer (\<lambda>(sn, f, c, rows, has_data). field_left f)") (auto simp: fewer_def dest: field_next_left)

declare load_field.simps [simp del]

fun load_fields ::
    "snappy \<Rightarrow> field_iterator list \<Rightarrow> tsm_io_center \<Rightarrow> (int, row_node) omap \<Rightarrow> bool \<Rightarrow>
     (field_iterator list \<times> tsm_io_center \<times> (int, row_node) omap \<times> bool) result" where
  "load_fields sn [] c rows has_data = Inr ([], c, rows, has_data)"
| "load_fields sn (f # fs) c rows has_data =
     res_bind (load_field sn f c rows has_data) (\<lambda>(f, c, rows, has_data).
     res_bind (load_fields sn fs c rows has_data) (\<lambda>(fs, r). Inr (f # fs, r)))"

definition load_curr_shard_data :: "snappy \<Rightarrow> root_iterator \<Rightarrow> (bool \<times> root_iterator) result" where
  "load_curr_shard_data sn r =
     (if ri_loaded r then Inr (True, r)
      else res_bind (load_fields sn (ri_fields r) (ri_center r) (ri_rows r) False) (\<lambda>(fs, c, rows, has_data).
        Inr (has_data, r\<lparr>ri_fields := fs, ri_center := c, ri_rows := rows, ri_loaded := has_data\<rparr>)))"

definition move_to_next_shard :: "snappy \<Rightarrow> root_iterator \<Rightarrow> (bool \<times> root_iterator) result" where
  "move_to_next_shard sn r =
     (let moved = map field_move_to_next_shard (ri_fields r);
          r = r\<lparr>ri_loaded := False, ri_fields := map snd moved\<rparr>
      in if \<not> list_ex fst moved then Inr (False, r) else load_curr_shard_data sn r)"

definition root_next :: "snappy \<Rightarrow> root_iterator \<Rightarrow> (row_node \<times> root_iterator) result" where
  "root_next sn r =
     res_bind (if ri_rows r = [] then
                 res_bind (load_curr_shard_data sn r) (\<lambda>(loaded, r).
                   if \<not> loaded then
                     res_bind (move_to_next_shard sn r) (\<lambda>(moved, r).
                       if \<not> moved then Inl (Out_of_range ''No more data available.'') else Inr r)
                   else Inr r)
               else Inr r)
       (\<lambda>r. case ri_rows r of
          [] \<Rightarrow> Inl out_of_range
        | e # rows \<Rightarrow> Inr (snd e, r\<lparr>ri_rows := rows\<rparr>))"

definition root_has_next :: "snappy \<Rightarrow> root_iterator \<Rightarrow> (bool \<times> root_iterator) result" where
  "root_has_next sn r =
     (if ri_rows r \<noteq> [] then Inr (True, r)
      else if ri_loaded r then Inr (False, r)
      else move_to_next_shard sn r)"

end
