(* ===== verification/Inverted_Index.thy ===== *)
theory Inverted_Index
  imports Ordered_Map
begin

text \<open>
  The inverted index of the controller (\<open>src/engine/tsm/index.h\<close>, \<open>index.cpp\<close>): which series of a
  measurement carry a tag. \<open>SeriesKey\<close> compares by its text, so the set of series is a set of texts;
  the nested hash maps are partial functions. The look-up goes through \<open>operator[]\<close>, which leaves the
  empty set behind for a tag it did not know.
\<close>

section \<open>State and operations\<close>

type_synonym tag_block = "string \<rightharpoonup> (string \<rightharpoonup> string set)"

record index_state =
  ix_mea_tag_keys :: "string \<rightharpoonup> tag_block"
  ix_mea_tags :: "string \<rightharpoonup> string set"
  ix_series_key_chunks :: "string set"

definition empty_index :: index_state where
  "empty_index = \<lparr>ix_mea_tag_keys = Map.empty, ix_mea_tags = Map.empty, ix_series_key_chunks = {}\<rparr>"

definition or_empty :: "'a set option \<Rightarrow> 'a set" where
  "or_empty s = (case s of None \<Rightarrow> {} | Some s \<Rightarrow> s)"

definition or_no_map :: "('a \<rightharpoonup> 'b) option \<Rightarrow> ('a \<rightharpoonup> 'b)" where
  "or_no_map m = (case m of None \<Rightarrow> Map.empty | Some m \<Rightarrow> m)"

definition series_key_empty :: "string \<Rightarrow> index_state \<Rightarrow> bool" where
  "series_key_empty series_key ix \<longleftrightarrow> series_key \<notin> ix_series_key_chunks ix"

text \<open>\<open>block[key][value].insert(series_key)\<close>\<close>

definition tag_insert :: "string \<Rightarrow> string \<Rightarrow> string \<Rightarrow> tag_block \<Rightarrow> tag_block" where
  "tag_insert key val series_key block =
     (let vals = or_no_map (block key) in
      block(key \<mapsto> vals(val \<mapsto> insert series_key (or_empty (vals val)))))"

definition index_tag :: "string \<Rightarrow> string \<Rightarrow> string \<Rightarrow> index_state \<Rightarrow> index_state" where
  "index_tag measurement series_key tag ix =
     (case str_find CHR ''='' tag of
        None \<Rightarrow> ix
      | Some pos \<Rightarrow>
          (let key = take pos tag; val = drop (pos + 1) tag in
           ix\<lparr>ix_mea_tag_keys := (ix_mea_tag_keys ix)(measurement \<mapsto>
                tag_insert key val series_key (or_no_map (ix_mea_tag_keys ix measurement))),
              ix_mea_tags := (ix_mea_tags ix)(measurement \<mapsto> insert key (or_empty (ix_mea_tags ix measurement)))\<rparr>))"

text \<open>The list of tags is the caller's own and is sorted in place.\<close>

definition series_key_of :: "string \<Rightarrow> string list \<Rightarrow> string" where
  "series_key_of measurement tags = measurement @ concat (sort tags)"

definition create_index :: "string \<Rightarrow> string list \<Rightarrow> index_state \<Rightarrow> string list \<times> index_state" where
  "create_index measurement tags ix =
     (let tags = sort tags; series_key = series_key_of measurement tags in
      (tags,
       if series_key_empty series_key ix then
         fold (index_tag measurement series_key) tags
           (ix\<lparr>ix_series_key_chunks := insert series_key (ix_series_key_chunks ix),
               ix_mea_tag_keys := (ix_mea_tag_keys ix)(measurement \<mapsto> or_no_map (ix_mea_tag_keys ix measurement))\<rparr>)
       else ix))"

definition whether_tag :: "string \<Rightarrow> string \<Rightarrow> index_state \<Rightarrow> bool" where
  "whether_tag measurement target ix \<longleftrightarrow> target \<in> or_empty (ix_mea_tags ix measurement)"

definition get_series_key_by_tag :: "string \<Rightarrow> string \<times> string \<Rightarrow> index_state \<Rightarrow> string set \<times> index_state" where
  "get_series_key_by_tag measurement tag ix =
     (let block = or_no_map (ix_mea_tag_keys ix measurement); vals = or_no_map (block (fst tag));
          series = or_empty (vals (snd tag)) in
      (series, ix\<lparr>ix_mea_tag_keys := (ix_mea_tag_keys ix)(measurement \<mapsto> block(fst tag \<mapsto> vals(snd tag \<mapsto> series)))\<rparr>))"

section \<open>What the index knows\<close>

text \<open>The abstract content: the series under a tag and the tag names of a measurement.\<close>

definition series_with :: "index_state \<Rightarrow> string \<Rightarrow> string \<Rightarrow> string \<Rightarrow> string set" where
  "series_with ix measurement key val = or_empty (or_no_map (or_no_map (ix_mea_tag_keys ix measurement) key) val)"

lemma or_simps [simp]:
  "or_empty None = {}" "or_empty (Some s) = s" "or_no_map None = Map.empty" "or_no_map (Some m) = m"
  by (simp_all add: or_empty_def or_no_map_def)

lemma get_series_key_by_tag_fst: "fst (get_series_key_by_tag m tag ix) = series_with ix m (fst tag) (snd tag)"
  by (simp add: get_series_key_by_tag_def series_with_def Let_def)

lemma get_series_key_by_tag_keeps:
  "series_with (snd (get_series_key_by_tag m tag ix)) = series_with ix"
  "ix_mea_tags (snd (get_series_key_by_tag m tag ix)) = ix_mea_tags ix"
  "ix_series_key_chunks (snd (get_series_key_by_tag m tag ix)) = ix_series_key_chunks ix"
  by (simp_all add: get_series_key_by_tag_def series_with_def Let_def fun_eq_iff)

definition splits_as :: "string \<Rightarrow> string \<Rightarrow> string \<Rightarrow> bool" where
  "splits_as tag key val \<longleftrightarrow> (\<exists>pos. str_find CHR ''='' tag = Some pos \<and> key = take pos tag \<and> val = drop (pos + 1) tag)"

lemma splits_as_iff: "splits_as tag key val \<longleftrightarrow> CHR ''='' \<notin> set key \<and> tag = key @ CHR ''='' # val"
proof
  assume "splits_as tag key val"
  then obtain pos where p: "str_find CHR ''='' tag = Some pos" "key = take pos tag" "val = drop (pos + 1) tag"
    by (auto simp: splits_as_def)
  from str_find_SomeD [OF p(1)] p(2,3) show "CHR ''='' \<notin> set key \<and> tag = key @ CHR ''='' # val"
    by (simp add: id_take_nth_drop [symmetric]) (metis append_take_drop_id Cons_nth_drop_Suc)
next
  assume "CHR ''='' \<notin> set key \<and> tag = key @ CHR ''='' # val"
  then show "splits_as tag key val" by (auto simp: splits_as_def str_find_append)
qed

lemma index_tag_series_with:
  "series_with (index_tag m sk tag ix) m' k v =
     (if m' = m \<and> splits_as tag k v then insert sk (series_with ix m' k v) else series_with ix m' k v)"
  by (cases "str_find CHR ''='' tag") (auto simp: index_tag_def series_with_def tag_insert_def Let_def splits_as_def simp del: str_find_None)

lemma index_tag_chunks [simp]: "ix_series_key_chunks (index_tag m sk tag ix) = ix_series_key_chunks ix"
  by (simp add: index_tag_def Let_def split: option.split)

lemma fold_index_tag:
  "series_with (fold (index_tag m sk) tags ix) m' k v =
     series_with ix m' k v \<union> (if m' = m \<and> (\<exists>tag \<in> set tags. splits_as tag k v) then {sk} else {})"
  "ix_series_key_chunks (fold (index_tag m sk) tags ix) = ix_series_key_chunks ix"
  by (induction tags arbitrary: ix) (auto simp: index_tag_series_with)

lemma series_key_of_sort: "series_key_of m (sort tags) = series_key_of m tags"
  by (simp add: series_key_of_def sorted_sort_id)

lemma create_index_series_with:
  "series_with (snd (create_index m tags ix)) m' k v = series_with ix m' k v \<union>
     (if series_key_empty (series_key_of m tags) ix \<and> m' = m \<and> (\<exists>tag \<in> set tags. splits_as tag k v)
      then {series_key_of m tags} else {})"
proof -
  have "series_with (ix\<lparr>ix_series_key_chunks := S, ix_mea_tag_keys := (ix_mea_tag_keys ix)(m \<mapsto> or_no_map (ix_mea_tag_keys ix m))\<rparr>) = series_with ix"
    for S by (simp add: series_with_def fun_eq_iff)
  moreover have "series_key_of m (sort tags) = series_key_of m tags" by (rule series_key_of_sort)
  ultimately show ?thesis by (auto simp: create_index_def Let_def fold_index_tag)
qed

lemma create_index_chunks: "ix_series_key_chunks (snd (create_index m tags ix)) = insert (series_key_of m tags) (ix_series_key_chunks ix)"
proof -
  have "series_key_of m (sort tags) = series_key_of m tags" by (rule series_key_of_sort)
  then show ?thesis by (auto simp: create_index_def Let_def fold_index_tag series_key_empty_def)
qed

text \<open>A run of insertions.\<close>

definition create_indexes :: "(string \<times> string list) list \<Rightarrow> index_state \<Rightarrow> index_state" where
  "create_indexes ops ix = fold (\<lambda>(m, tags) ix. snd (create_index m tags ix)) ops ix"

definition keys_distinguish :: "(string \<times> string list) set \<Rightarrow> bool" where
  "keys_distinguish ops \<longleftrightarrow> (\<forall>(m, tags) \<in> ops. \<forall>(m', tags') \<in> ops.
     series_key_of m tags = series_key_of m' tags' \<longrightarrow> m = m' \<and> set tags = set tags')"

lemma create_indexes_snoc:
  "create_indexes (ops @ [(m, tags)]) ix = snd (create_index m tags (create_indexes ops ix))"
  by (simp add: create_indexes_def)

lemma create_indexes_chunks: "ix_series_key_chunks (create_indexes ops empty_index) = (\<lambda>(m, tags). series_key_of m tags) ` set ops"
  by (induction ops rule: rev_induct)
     (auto simp: create_indexes_snoc create_index_chunks, simp_all add: create_indexes_def empty_index_def)

lemma create_indexes_series:
  assumes "keys_distinguish (set ops)"
  shows "series_with (create_indexes ops empty_index) m k v =
    {series_key_of m tags | tags. (m, tags) \<in> set ops \<and> (\<exists>tag \<in> set tags. splits_as tag k v)}"
  using assms
proof (induction ops rule: rev_induct)
  case Nil
  then show ?case by (simp add: create_indexes_def empty_index_def series_with_def)
next
  case (snoc op ops)
  obtain m0 tags0 where op: "op = (m0, tags0)" by (cases op)
  have d: "keys_distinguish (set ops)" using snoc.prems unfolding keys_distinguish_def set_append by blast
  have dup: "\<exists>tags'. (m0, tags') \<in> set ops \<and> set tags' = set tags0 \<and> series_key_of m0 tags' = series_key_of m0 tags0"
    if ex: "\<exists>(m', tags') \<in> set ops. series_key_of m0 tags0 = series_key_of m' tags'"
  proof -
    obtain m' tags' where t: "(m', tags') \<in> set ops" "series_key_of m0 tags0 = series_key_of m' tags'"
      using ex by (elim bexE) (simp split: prod.splits)
    have "(m0, tags0) \<in> set (ops @ [op])" "(m', tags') \<in> set (ops @ [op])" using t(1) op by simp_all
    then have "m0 = m' \<and> set tags0 = set tags'" using snoc.prems t(2) unfolding keys_distinguish_def by blast
    then show ?thesis using t by auto
  qed
  have new: "series_key_empty (series_key_of m0 tags0) (create_indexes ops empty_index) \<longleftrightarrow>
      \<not> (\<exists>(m', tags') \<in> set ops. series_key_of m0 tags0 = series_key_of m' tags')"
    by (auto simp: series_key_empty_def create_indexes_chunks)
  let ?P = "\<lambda>tags. \<exists>tag \<in> set tags. splits_as tag k v"
  let ?S = "\<lambda>X. {series_key_of m tags | tags. (m, tags) \<in> X \<and> ?P tags}"
  have ins: "?S (set (ops @ [(m0, tags0)])) = ?S (set ops) \<union> (if m0 = m \<and> ?P tags0 then {series_key_of m0 tags0} else {})" by auto
  have known: "series_key_of m0 tags0 \<in> ?S (set ops)"
    if ex: "\<exists>(m', tags') \<in> set ops. series_key_of m0 tags0 = series_key_of m' tags'" and "m0 = m" "?P tags0"
  proof -
    obtain tags' where "(m0, tags') \<in> set ops" "set tags' = set tags0" "series_key_of m0 tags' = series_key_of m0 tags0"
      using dup [OF ex] by blast
    with \<open>m0 = m\<close> \<open>?P tags0\<close> show ?thesis by (intro CollectI exI [of _ tags']) simp
  qed
  show ?case
  proof (cases "\<exists>(m', tags') \<in> set ops. series_key_of m0 tags0 = series_key_of m' tags'")
    case True
    then have "?S (set (ops @ [(m0, tags0)])) = ?S (set ops)" unfolding ins using known [OF True] by (auto simp del: Collect_conj_eq)
    then show ?thesis unfolding op create_indexes_snoc create_index_series_with new snoc.IH [OF d] using True by simp
  next
    case False
    then show ?thesis unfolding op create_indexes_snoc create_index_series_with new snoc.IH [OF d] ins by auto
  qed
qed


section \<open>Properties\<close>

text \<open>
  The index is exact: after any insertions into an empty index of which no two different series have
  the same series key, looking up a tag gives the keys of exactly those series of the measurement that
  carry the tag, and the look-up does not change the answer to any later one.
\<close>

theorem index_lookup_exact:
  assumes "keys_distinguish (set ops)" "CHR ''='' \<notin> set key"
  shows "\<exists>ix. get_series_key_by_tag m (key, val) (create_indexes ops empty_index) =
      ({series_key_of m tags | tags. (m, tags) \<in> set ops \<and> key @ CHR ''='' # val \<in> set tags}, ix) \<and>
    (\<forall>m' tag. fst (get_series_key_by_tag m' tag ix) = fst (get_series_key_by_tag m' tag (create_indexes ops empty_index)))"
proof -
  have eq: "(\<exists>tag \<in> set tags. splits_as tag key val) \<longleftrightarrow> key @ CHR ''='' # val \<in> set tags" for tags
    using assms(2) by (auto simp: splits_as_iff)
  let ?r = "get_series_key_by_tag m (key, val) (create_indexes ops empty_index)"
  have "fst ?r = {series_key_of m tags | tags. (m, tags) \<in> set ops \<and> key @ CHR ''='' # val \<in> set tags}"
    unfolding get_series_key_by_tag_fst create_indexes_series [OF assms(1)] eq [symmetric] by simp
  then show ?thesis
    by (intro exI [of _ "snd ?r"] conjI allI) (simp_all add: prod_eq_iff get_series_key_by_tag_fst get_series_key_by_tag_keeps)
qed

theorem index_lookup_exact_witness:
  "fst (get_series_key_by_tag ''m'' (''a'', ''1'') (create_indexes [(''m'', [''b=2'', ''a=1'']), (''m'', [''a=2'']), (''n'', [''a=1''])] empty_index))
    = {''ma=1b=2''}"
proof -
  have k: "series_key_of ''m'' [''b=2'', ''a=1''] = ''ma=1b=2''" "series_key_of ''m'' [''a=2''] = ''ma=2''" "series_key_of ''n'' [''a=1''] = ''na=1''"
    by code_simp+
  then have "keys_distinguish (set [(''m'', [''b=2'', ''a=1'']), (''m'', [''a=2'']), (''n'', [''a=1''])])"
    by (simp add: keys_distinguish_def)
  from index_lookup_exact [OF this, of "''a''" "''m''" "''1''"] show ?thesis
    by (auto simp: k intro!: exI [of _ "[''b=2'', ''a=1'']"])
qed

text \<open>
  The series key does not separate its parts: a second series whose tags concatenate to the text of the
  first is taken for known and is not indexed, so that a tag which only the second one carries leads to
  no series at all.
\<close>

theorem series_key_collision:
  assumes "series_key_of m tags = series_key_of m tags'" "CHR ''='' \<notin> set key"
    "key @ CHR ''='' # val \<in> set tags'" "key @ CHR ''='' # val \<notin> set tags"
  shows "fst (get_series_key_by_tag m (key, val) (create_indexes [(m, tags), (m, tags')] empty_index)) = {}"
proof -
  let ?ix = "snd (create_index m tags empty_index)"
  have ix: "create_indexes [(m, tags), (m, tags')] empty_index = snd (create_index m tags' ?ix)" by (simp add: create_indexes_def)
  have "\<not> series_key_empty (series_key_of m tags') ?ix" using assms(1) by (simp add: series_key_empty_def create_index_chunks)
  moreover have "series_with ?ix m key val = {}"
    using assms(2,4) by (auto simp: create_index_series_with splits_as_iff) (simp_all add: series_with_def empty_index_def)
  ultimately show ?thesis by (simp add: ix get_series_key_by_tag_fst create_index_series_with)
qed

theorem series_key_collision_witness:
  "fst (get_series_key_by_tag ''m'' (''b'', ''2'') (create_indexes [(''m'', [''a=1b=2'']), (''m'', [''a=1'', ''b=2''])] empty_index)) = {}"
proof -
  have "series_key_of ''m'' [''a=1b=2''] = series_key_of ''m'' [''a=1'', ''b=2'']" by code_simp
  from series_key_collision [OF this, of "''b''" "''2''"] show ?thesis by simp
qed

end
