(* ===== verification/Token.thy ===== *)
theory Token
  imports Prelude
begin

text \<open>
  The token of the SQL front end (\<open>token/token.h\<close>, \<open>token/token.cpp\<close>): its type, the two
  tables of the class (\<open>m_names\<close> gives a type its display name, \<open>m_keywords\<close> gives a lower-case
  word its keyword type) and the look-up operations over them. The tables are association
  lists in the source's order; \<open>map_of\<close> is \<open>std::map::find\<close>.
\<close>

datatype token_type =
    TOKEN_ILLEGAL | TOKEN_EOF | TOKEN_INTEGER | TOKEN_FLOAT | TOKEN_STRING
  | TOKEN_PLUS | TOKEN_MINUS | TOKEN_ASTERISK | TOKEN_SLASH | TOKEN_MODULO | TOKEN_DECREASE
  | TOKEN_AND | TOKEN_OR | TOKEN_LT | TOKEN_GT | TOKEN_LE | TOKEN_GE | TOKEN_EQ | TOKEN_NE
  | TOKEN_LPAREN | TOKEN_RPAREN | TOKEN_DOT | TOKEN_COMMA | TOKEN_SEMICOLON | TOKEN_TIMESTAMP
  | TOKEN_IDENTIFIER | TOKEN_NULL
  | TOKEN_DATABASE | TOKEN_DATABASES | TOKEN_TABLE | TOKEN_TABLES | TOKEN_ENGINE
  | TOKEN_SHOW | TOKEN_USE | TOKEN_CREATE
  | TOKEN_INSERT | TOKEN_INTO | TOKEN_UPDATE | TOKEN_SELECT
  | TOKEN_TTL | TOKEN_FROM | TOKEN_WHERE
  | TOKEN_TSM | TOKEN_CLT
  | TOKEN_REDUCE | TOKEN_SYSTEM

record token =
  tok_type :: token_type
  tok_literal :: string

definition mk_token :: "token_type \<Rightarrow> string \<Rightarrow> token" where
  "mk_token ty lit = \<lparr>tok_type = ty, tok_literal = lit\<rparr>"

definition default_token :: token where
  "default_token = \<lparr>tok_type = TOKEN_ILLEGAL, tok_literal = []\<rparr>"

lemma mk_token_sel [simp]:
  "tok_type (mk_token ty lit) = ty" "tok_literal (mk_token ty lit) = lit"
  by (simp_all add: mk_token_def)

lemma mk_token_eq [simp]: "mk_token a s = mk_token b t \<longleftrightarrow> a = b \<and> s = t"
  by (simp add: mk_token_def)

definition m_names :: "(token_type \<times> string) list" where
  "m_names = [
     (TOKEN_ILLEGAL, ''illegal''), (TOKEN_EOF, ''eof''), (TOKEN_INTEGER, ''integer''),
     (TOKEN_FLOAT, ''float''), (TOKEN_STRING, ''string''), (TOKEN_PLUS, ''+''),
     (TOKEN_MINUS, ''-''), (TOKEN_ASTERISK, ''*''), (TOKEN_SLASH, ''/''),
     (TOKEN_MODULO, ''%''), (TOKEN_DECREASE, ''--''), (TOKEN_AND, ''AND''),
     (TOKEN_OR, ''OR''), (TOKEN_LT, ''<''), (TOKEN_GT, ''>''), (TOKEN_LE, ''<=''),
     (TOKEN_GE, ''>=''), (TOKEN_EQ, ''=''), (TOKEN_NE, ''!=''), (TOKEN_LPAREN, ''(''),
     (TOKEN_RPAREN, '')''), (TOKEN_DOT, ''.''), (TOKEN_COMMA, '',''),
     (TOKEN_SEMICOLON, '';''), (TOKEN_TIMESTAMP, ''timestamp''),
     (TOKEN_IDENTIFIER, ''identifier''), (TOKEN_NULL, ''null''),
     (TOKEN_DATABASE, ''database''), (TOKEN_DATABASES, ''databases''),
     (TOKEN_ENGINE, ''engine''), (TOKEN_TABLE, ''table''), (TOKEN_TABLES, ''tables''),
     (TOKEN_USE, ''use''), (TOKEN_SHOW, ''show''), (TOKEN_CREATE, ''create''),
     (TOKEN_INSERT, ''insert.cpp''), (TOKEN_INTO, ''into''), (TOKEN_UPDATE, ''update''),
     (TOKEN_SELECT, ''select''), (TOKEN_FROM, ''m_from''), (TOKEN_WHERE, ''m_where''),
     (TOKEN_TTL, ''ttl''), (TOKEN_TSM, ''tsm''), (TOKEN_CLT, ''clt''),
     (TOKEN_REDUCE, ''reduce''), (TOKEN_SYSTEM, ''system'')]"

definition m_keywords :: "(string \<times> token_type) list" where
  "m_keywords = [
     (''null'', TOKEN_NULL), (''database'', TOKEN_DATABASE), (''databases'', TOKEN_DATABASES),
     (''table'', TOKEN_TABLE), (''tables'', TOKEN_TABLES), (''show'', TOKEN_SHOW),
     (''use'', TOKEN_USE), (''engine'', TOKEN_ENGINE), (''create'', TOKEN_CREATE),
     (''insert'', TOKEN_INSERT), (''into'', TOKEN_INTO), (''update'', TOKEN_UPDATE),
     (''select'', TOKEN_SELECT), (''from'', TOKEN_FROM), (''where'', TOKEN_WHERE),
     (''ttl'', TOKEN_TTL), (''and'', TOKEN_AND), (''or'', TOKEN_OR), (''tsm'', TOKEN_TSM),
     (''clt'', TOKEN_CLT), (''sum'', TOKEN_REDUCE), (''count'', TOKEN_REDUCE),
     (''mean'', TOKEN_REDUCE), (''median'', TOKEN_REDUCE), (''min'', TOKEN_REDUCE),
     (''max'', TOKEN_REDUCE), (''mode'', TOKEN_REDUCE), (''stddev'', TOKEN_REDUCE),
     (''percentile'', TOKEN_REDUCE), (''first'', TOKEN_REDUCE), (''last'', TOKEN_REDUCE),
     (''system'', TOKEN_SYSTEM)]"

definition token_name :: "token \<Rightarrow> string" where
  "token_name t = (case map_of m_names (tok_type t) of Some n \<Rightarrow> n | None \<Rightarrow> [])"

definition look_up :: "string \<Rightarrow> token_type" where
  "look_up lit = (case map_of m_keywords lit of Some ty \<Rightarrow> ty | None \<Rightarrow> TOKEN_IDENTIFIER)"

text \<open>No keyword is an identifier, and every type of the enumeration has a display name.\<close>

lemma look_up_identifier: "look_up w = TOKEN_IDENTIFIER \<longleftrightarrow> w \<notin> fst ` set m_keywords"
proof -
  have "TOKEN_IDENTIFIER \<notin> snd ` set m_keywords" by (simp add: m_keywords_def)
  then have "map_of m_keywords w \<noteq> Some TOKEN_IDENTIFIER"
    by (metis image_eqI map_of_SomeD snd_conv)
  then show ?thesis
    by (auto simp: look_up_def map_of_eq_None_iff split: option.splits dest: map_of_SomeD)
       (metis image_eqI map_of_eq_None_iff option.distinct(1) fst_conv)
qed

lemma look_up_not_special:
  "look_up w \<notin> {TOKEN_ILLEGAL, TOKEN_EOF, TOKEN_INTEGER, TOKEN_FLOAT, TOKEN_STRING}"
proof -
  have "\<forall>p \<in> set m_keywords.
      snd p \<notin> {TOKEN_ILLEGAL, TOKEN_EOF, TOKEN_INTEGER, TOKEN_FLOAT, TOKEN_STRING}"
    by (simp add: m_keywords_def)
  then show ?thesis
    by (auto simp: look_up_def split: option.splits dest!: map_of_SomeD)
qed

end
