(* ===== verification/Lexer.thy ===== *)
theory Lexer
  imports Token
begin

text \<open>
  The lexical analyser (\<open>lexer/lexer.h\<close>, \<open>lexer/lexer.cpp\<close>). The record has the four members of
  the class; \<open>m_pos\<close> and \<open>m_next_pos\<close> are \<open>int\<close>s of the source (an input is shorter than
  \<open>2 ^ 31\<close> bytes, so they do not overflow). Each operation of the class is a function on the
  record, and the loops over characters terminate because every \<open>read_char\<close> moves towards the
  end of the input.

  \<open>lex_token\<close> is an independent specification on the remaining input alone; \<open>next_token_refines\<close>
  shows that the pointer arithmetic of the class (with its one character of look-behind undone
  by \<open>unread_char\<close>) implements it, and the user-level properties (string literals round-trip,
  keywords ignore case, the token stream ends) are proved through it.
\<close>

section \<open>State and character operations\<close>

record lexer =
  m_input :: string
  m_ch :: char
  m_pos :: int
  m_next_pos :: int

definition mk_lexer :: "string \<Rightarrow> lexer" where
  "mk_lexer buf = \<lparr>m_input = buf, m_ch = NUL, m_pos = 0, m_next_pos = 0\<rparr>"

definition set_input :: "string \<Rightarrow> lexer \<Rightarrow> lexer" where
  "set_input sql l = l\<lparr>m_input := sql\<rparr>"

text \<open>
  The comparison \<open>m_next_pos >= m_input.length()\<close> converts the \<open>int\<close> to \<open>size_t\<close>, so a
  negative position counts as past the end.
\<close>

definition at_end :: "lexer \<Rightarrow> bool" where
  "at_end l \<longleftrightarrow> m_next_pos l < 0 \<or> int (length (m_input l)) \<le> m_next_pos l"

definition read_char :: "lexer \<Rightarrow> lexer" where
  "read_char l =
     l\<lparr>m_ch := (if at_end l then NUL else m_input l ! nat (m_next_pos l)),
       m_pos := m_next_pos l,
       m_next_pos := m_next_pos l + 1\<rparr>"

definition peek_char :: "lexer \<Rightarrow> char" where
  "peek_char l = (if at_end l then NUL else m_input l ! nat (m_next_pos l))"

definition unread_char :: "lexer \<Rightarrow> lexer" where
  "unread_char l = l\<lparr>m_next_pos := m_pos l, m_pos := m_pos l - 1\<rparr>"

definition is_digit :: "char \<Rightarrow> bool" where
  "is_digit ch \<longleftrightarrow> byte_val CHR ''0'' \<le> byte_val ch \<and> byte_val ch \<le> byte_val CHR ''9''"

definition is_letter :: "char \<Rightarrow> bool" where
  "is_letter ch \<longleftrightarrow>
     (byte_val CHR ''a'' \<le> byte_val ch \<and> byte_val ch \<le> byte_val CHR ''z'')
     \<or> (byte_val CHR ''A'' \<le> byte_val ch \<and> byte_val ch \<le> byte_val CHR ''Z'')
     \<or> ch = CHR ''_''"

definition is_white :: "char \<Rightarrow> bool" where
  "is_white ch \<longleftrightarrow> ch = CHR '' '' \<or> ch = CHR 0x09 \<or> ch = CHR 0x0A \<or> ch = CHR 0x0D"

lemma NUL_class [simp]: "\<not> is_white NUL" "\<not> is_digit NUL" "\<not> is_letter NUL"
  by (simp_all add: is_white_def is_digit_def is_letter_def)

definition chars_left :: "lexer \<Rightarrow> nat" where
  "chars_left l = nat (int (length (m_input l)) - m_next_pos l)"

text \<open>Every \<open>read_char\<close> that yields a character of the input brings the end nearer.\<close>

lemma chars_left_read_char: "m_ch (read_char l) \<noteq> NUL \<Longrightarrow> chars_left (read_char l) < chars_left l"
  by (auto simp: read_char_def chars_left_def at_end_def split: if_splits)

lemma chars_left_read_char_le: "chars_left (read_char l) \<le> chars_left l"
  by (auto simp: read_char_def chars_left_def)

lemma read_char_loop_measure:
  assumes "p (m_ch l)" "\<not> p NUL"
  shows "(if p (m_ch (read_char l)) then 1 else 0) + chars_left (read_char l)
    < (if p (m_ch l) then 1 else (0::nat)) + chars_left l"
proof (cases "m_ch (read_char l) = NUL")
  case True
  then show ?thesis using assms chars_left_read_char_le [of l] by simp
next
  case False
  then show ?thesis using assms chars_left_read_char [of l] by simp
qed

function skip_white_space :: "lexer \<Rightarrow> lexer" where
  "skip_white_space l = (if is_white (m_ch l) then skip_white_space (read_char l) else l)"
  by pat_completeness auto
termination
  by (relation "measure (\<lambda>l. (if is_white (m_ch l) then 1 else 0) + chars_left l)")
     (use read_char_loop_measure [of is_white] in auto)

function number_loop :: "lexer \<Rightarrow> lexer" where
  "number_loop l = (if is_digit (m_ch l) then number_loop (read_char l) else l)"
  by pat_completeness auto
termination
  by (relation "measure (\<lambda>l. (if is_digit (m_ch l) then 1 else 0) + chars_left l)")
     (use read_char_loop_measure [of is_digit] in auto)

function identifier_loop :: "lexer \<Rightarrow> lexer" where
  "identifier_loop l =
     (if is_letter (m_ch l) \<or> is_digit (m_ch l) then identifier_loop (read_char l) else l)"
  by pat_completeness auto
termination
  by (relation "measure (\<lambda>l. (if is_letter (m_ch l) \<or> is_digit (m_ch l) then 1 else 0) + chars_left l)")
     (use read_char_loop_measure [of "\<lambda>c. is_letter c \<or> is_digit c"] in auto)

declare skip_white_space.simps [simp del] number_loop.simps [simp del] identifier_loop.simps [simp del]

text \<open>
  \<open>m_input.substr(pos, n)\<close>: both callers start at the position of a character that was read, so
  \<open>pos\<close> is in range and \<open>substr\<close> does not throw.
\<close>

definition substr :: "string \<Rightarrow> int \<Rightarrow> int \<Rightarrow> string" where
  "substr s pos n = take (nat n) (drop (nat pos) s)"

definition read_number :: "lexer \<Rightarrow> string \<times> lexer" where
  "read_number l = (let pos = m_pos l; l' = number_loop l
     in (substr (m_input l') pos (m_pos l' - pos), l'))"

definition read_identifier :: "lexer \<Rightarrow> string \<times> lexer" where
  "read_identifier l = (let pos = m_pos l; l' = identifier_loop l
     in (substr (m_input l') pos (m_pos l' - pos), l'))"

section \<open>Quoted strings\<close>

function single_quote_loop :: "string \<Rightarrow> lexer \<Rightarrow> string \<times> lexer" where
  "single_quote_loop str l =
     (let l1 = read_char l in
      if m_ch l1 = CHR 0x27 \<or> m_ch l1 = NUL then (str, l1)
      else if m_ch l1 = CHR 0x5C \<and> peek_char l1 = CHR 0x27
        then (let l2 = read_char l1 in single_quote_loop (str @ [m_ch l2]) l2)
      else single_quote_loop (str @ [m_ch l1]) l1)"
  by pat_completeness auto
termination
proof (relation "measure (\<lambda>(str, l). chars_left l)", goal_cases)
  case 1
  then show ?case by simp
next
  case (2 str l l1 l2)
  then have "chars_left l1 < chars_left l" using chars_left_read_char [of l] by auto
  moreover have "chars_left l2 \<le> chars_left l1" using 2 chars_left_read_char_le by auto
  ultimately show ?case by simp
next
  case (3 str l l1)
  then show ?case using chars_left_read_char [of l] by auto
qed

definition read_single_quote_string :: "lexer \<Rightarrow> string \<times> lexer" where
  "read_single_quote_string l = single_quote_loop [] l"

text \<open>
  The escape table of the double-quoted form. An escape sets \<open>m_ch\<close> to the character it stands
  for after reading the second character.
\<close>

definition escape_char :: "char \<Rightarrow> char option" where
  "escape_char c =
     (if c = CHR ''n'' then Some CHR 0x0A
      else if c = CHR ''r'' then Some CHR 0x0D
      else if c = CHR ''t'' then Some CHR 0x09
      else if c = CHR 0x22 then Some CHR 0x22
      else if c = CHR 0x5C then Some CHR 0x5C
      else None)"

function double_quote_loop :: "string \<Rightarrow> lexer \<Rightarrow> string \<times> lexer" where
  "double_quote_loop str l =
     (let l1 = read_char l in
      if m_ch l1 = CHR 0x22 \<or> m_ch l1 = NUL then (str, l1)
      else
        (let l2 = (if m_ch l1 = CHR 0x5C
                   then (case escape_char (peek_char l1) of
                           Some c \<Rightarrow> (read_char l1)\<lparr>m_ch := c\<rparr>
                         | None \<Rightarrow> l1)
                   else l1)
         in double_quote_loop (str @ [m_ch l2]) l2))"
  by pat_completeness auto
termination
proof (relation "measure (\<lambda>(str, l). chars_left l)", goal_cases)
  case 1
  then show ?case by simp
next
  case (2 str l l1 l2)
  then have "chars_left l1 < chars_left l" using chars_left_read_char [of l] by auto
  moreover have "chars_left l2 \<le> chars_left l1"
    using 2 chars_left_read_char_le [of l1] by (auto simp: chars_left_def split: option.splits)
  ultimately show ?case by simp
qed

declare single_quote_loop.simps [simp del] double_quote_loop.simps [simp del]

definition read_double_quote_string :: "lexer \<Rightarrow> string \<times> lexer" where
  "read_double_quote_string l = double_quote_loop [] l"

section \<open>The tokeniser\<close>

text \<open>\<open>std::tolower\<close> in the C locale.\<close>

definition tolower :: "char \<Rightarrow> char" where
  "tolower c = (if byte_val CHR ''A'' \<le> byte_val c \<and> byte_val c \<le> byte_val CHR ''Z''
     then char_of (byte_val c + 32) else c)"

definition next_token :: "lexer \<Rightarrow> token \<times> lexer" where
  "next_token l0 =
     (let l = skip_white_space (read_char l0); c = m_ch l in
      if c = CHR ''+'' then (mk_token TOKEN_PLUS [c], l)
      else if c = CHR ''-'' then
        (if peek_char l = CHR ''-''
         then (let l1 = read_char l in (mk_token TOKEN_DECREASE [c, m_ch l1], l1))
         else (mk_token TOKEN_MINUS [c], l))
      else if c = CHR ''*'' then (mk_token TOKEN_ASTERISK [c], l)
      else if c = CHR ''/'' then (mk_token TOKEN_SLASH [c], l)
      else if c = CHR ''%'' then (mk_token TOKEN_MODULO [c], l)
      else if c = CHR ''.'' then (mk_token TOKEN_DOT [c], l)
      else if c = CHR '','' then (mk_token TOKEN_COMMA [c], l)
      else if c = CHR ''<'' then
        (if peek_char l = CHR ''=''
         then (let l1 = read_char l in (mk_token TOKEN_LE [c, m_ch l1], l1))
         else (mk_token TOKEN_LT [c], l))
      else if c = CHR ''>'' then
        (if peek_char l = CHR ''=''
         then (let l1 = read_char l in (mk_token TOKEN_GE [c, m_ch l1], l1))
         else (mk_token TOKEN_GT [c], l))
      else if c = CHR ''='' then (mk_token TOKEN_EQ [c], l)
      else if c = CHR ''('' then (mk_token TOKEN_LPAREN [c], l)
      else if c = CHR '')'' then (mk_token TOKEN_RPAREN [c], l)
      else if c = CHR 0x27 then
        (let (s, l1) = read_single_quote_string l in (mk_token TOKEN_STRING s, l1))
      else if c = CHR 0x22 then
        (let (s, l1) = read_double_quote_string l in (mk_token TOKEN_STRING s, l1))
      else if c = NUL then (mk_token TOKEN_EOF ''EOF'', l)
      else if is_digit c then
        (let (integer, l1) = read_number l in
         if m_ch l1 = CHR ''.'' \<and> is_digit (peek_char l1)
         then (let (fraction, l2) = read_number (read_char l1)
               in (mk_token TOKEN_FLOAT (integer @ ''.'' @ fraction), unread_char l2))
         else (mk_token TOKEN_INTEGER integer, unread_char l1))
      else if is_letter c then
        (let (temp, l1) = read_identifier l;
             literal = map tolower temp;
             l2 = unread_char l1;
             ty = look_up literal
         in if ty \<noteq> TOKEN_IDENTIFIER then (mk_token ty literal, l2)
            else (mk_token TOKEN_STRING temp, l2))
      else (mk_token TOKEN_ILLEGAL [c], l))"

section \<open>Specification on the remaining input\<close>

text \<open>
  \<open>lex_rest l\<close> is what \<open>read_char\<close> has still to deliver. \<open>lex_sync\<close> holds while \<open>m_ch\<close> is the
  character at \<open>m_pos\<close> and \<open>m_next_pos\<close> the position after it; \<open>lex_view l\<close> is then the input
  from the current character on.
\<close>

definition lex_wf :: "lexer \<Rightarrow> bool" where
  "lex_wf l \<longleftrightarrow> 0 \<le> m_next_pos l"

definition lex_rest :: "lexer \<Rightarrow> string" where
  "lex_rest l = drop (nat (m_next_pos l)) (m_input l)"

definition hd_char :: "string \<Rightarrow> char" where
  "hd_char s = (case s of [] \<Rightarrow> NUL | c # _ \<Rightarrow> c)"

definition lex_view :: "lexer \<Rightarrow> string" where
  "lex_view l = drop (nat (m_pos l)) (m_input l)"

definition lex_sync :: "lexer \<Rightarrow> bool" where
  "lex_sync l \<longleftrightarrow> 0 \<le> m_pos l \<and> m_next_pos l = m_pos l + 1 \<and> m_ch l = hd_char (lex_view l)"

fun sq_body :: "string \<Rightarrow> string \<times> string" where
  "sq_body [] = ([], [])"
| "sq_body (c # cs) =
     (if c = CHR 0x27 \<or> c = NUL then ([], cs)
      else if c = CHR 0x5C \<and> hd_char cs = CHR 0x27
        then (let (s, r) = sq_body (tl cs) in (CHR 0x27 # s, r))
      else (let (s, r) = sq_body cs in (c # s, r)))"

fun dq_body :: "string \<Rightarrow> string \<times> string" where
  "dq_body [] = ([], [])"
| "dq_body (c # cs) =
     (if c = CHR 0x22 \<or> c = NUL then ([], cs)
      else if c = CHR 0x5C then
        (case escape_char (hd_char cs) of
           Some d \<Rightarrow> (let (s, r) = dq_body (tl cs) in (d # s, r))
         | None \<Rightarrow> (let (s, r) = dq_body cs in (c # s, r)))
      else (let (s, r) = dq_body cs in (c # s, r)))"

definition lex_number :: "string \<Rightarrow> token \<times> string" where
  "lex_number s =
     (let ds = takeWhile is_digit s; r = dropWhile is_digit s in
      if hd_char r = CHR ''.'' \<and> is_digit (hd_char (tl r))
      then (mk_token TOKEN_FLOAT (ds @ ''.'' @ takeWhile is_digit (tl r)), dropWhile is_digit (tl r))
      else (mk_token TOKEN_INTEGER ds, r))"

definition lex_word :: "string \<Rightarrow> token \<times> string" where
  "lex_word s =
     (let w = takeWhile (\<lambda>c. is_letter c \<or> is_digit c) s;
          r = dropWhile (\<lambda>c. is_letter c \<or> is_digit c) s;
          ty = look_up (map tolower w)
      in (if ty \<noteq> TOKEN_IDENTIFIER then mk_token ty (map tolower w) else mk_token TOKEN_STRING w, r))"

definition single_char_tokens :: "(char \<times> token_type) list" where
  "single_char_tokens =
     [(CHR ''+'', TOKEN_PLUS), (CHR ''*'', TOKEN_ASTERISK), (CHR ''/'', TOKEN_SLASH),
      (CHR ''%'', TOKEN_MODULO), (CHR ''.'', TOKEN_DOT), (CHR '','', TOKEN_COMMA),
      (CHR ''='', TOKEN_EQ), (CHR ''('', TOKEN_LPAREN), (CHR '')'', TOKEN_RPAREN)]"

definition two_char_tokens :: "(char \<times> (token_type \<times> char \<times> token_type)) list" where
  "two_char_tokens =
     [(CHR ''-'', (TOKEN_MINUS, CHR ''-'', TOKEN_DECREASE)),
      (CHR ''<'', (TOKEN_LT, CHR ''='', TOKEN_LE)),
      (CHR ''>'', (TOKEN_GT, CHR ''='', TOKEN_GE))]"

definition lex_token :: "string \<Rightarrow> token \<times> string" where
  "lex_token s0 =
     (let s = dropWhile is_white s0; c = hd_char s; cs = tl s in
      case map_of single_char_tokens c of Some ty \<Rightarrow> (mk_token ty [c], cs)
      | None \<Rightarrow>
        (case map_of two_char_tokens c of
           Some (one, d, two) \<Rightarrow>
             if hd_char cs = d then (mk_token two [c, d], tl cs) else (mk_token one [c], cs)
         | None \<Rightarrow>
             if c = CHR 0x27 then (let (str, r) = sq_body cs in (mk_token TOKEN_STRING str, r))
             else if c = CHR 0x22 then (let (str, r) = dq_body cs in (mk_token TOKEN_STRING str, r))
             else if c = NUL then (mk_token TOKEN_EOF ''EOF'', cs)
             else if is_digit c then lex_number s
             else if is_letter c then lex_word s
             else (mk_token TOKEN_ILLEGAL [c], cs)))"

section \<open>The class implements the specification\<close>

lemma hd_char_simps [simp]: "hd_char [] = NUL" "hd_char (c # cs) = c"
  by (simp_all add: hd_char_def)

lemma nth_hd_char:
  "0 \<le> i \<Longrightarrow> i < int (length s) \<Longrightarrow> s ! nat i = hd_char (drop (nat i) s)"
  by (auto simp: hd_char_def nth_via_drop split: list.split)

lemma hd_char_past_end: "int (length s) \<le> i \<Longrightarrow> hd_char (drop (nat i) s) = NUL"
  by simp

lemma drop_nat_Suc: "0 \<le> i \<Longrightarrow> drop (nat (i + 1)) s = tl (drop (nat i) s)"
  by (simp add: nat_add_distrib tl_drop drop_Suc)

lemma read_char_input [simp]: "m_input (read_char l) = m_input l"
  by (simp add: read_char_def)

lemma read_char_next [simp]: "m_next_pos (read_char l) = m_next_pos l + 1"
  by (simp add: read_char_def)

lemma read_char_pos [simp]: "m_pos (read_char l) = m_next_pos l"
  by (simp add: read_char_def)

lemma read_char_ch: "lex_wf l \<Longrightarrow> m_ch (read_char l) = hd_char (lex_rest l)"
  by (simp add: read_char_def at_end_def lex_wf_def lex_rest_def nth_hd_char hd_char_past_end)

lemma peek_char_rest: "lex_wf l \<Longrightarrow> peek_char l = hd_char (lex_rest l)"
  by (simp add: peek_char_def at_end_def lex_wf_def lex_rest_def nth_hd_char hd_char_past_end)

lemma read_char_wf [simp]: "lex_wf l \<Longrightarrow> lex_wf (read_char l)"
  by (simp add: lex_wf_def)

lemma read_char_rest: "lex_wf l \<Longrightarrow> lex_rest (read_char l) = tl (lex_rest l)"
  by (simp add: lex_rest_def lex_wf_def drop_nat_Suc)

lemma read_char_sync: "lex_wf l \<Longrightarrow> lex_sync (read_char l)"
  using read_char_ch [of l] by (simp add: lex_sync_def lex_wf_def lex_view_def lex_rest_def)

lemma read_char_view: "lex_view (read_char l) = lex_rest l"
  by (simp add: lex_view_def lex_rest_def)

lemma sync_wf: "lex_sync l \<Longrightarrow> lex_wf l"
  by (simp add: lex_sync_def lex_wf_def)

lemma sync_rest: "lex_sync l \<Longrightarrow> lex_rest l = tl (lex_view l)"
  by (simp add: lex_sync_def lex_rest_def lex_view_def drop_nat_Suc)

lemma sync_ch: "lex_sync l \<Longrightarrow> m_ch l = hd_char (lex_view l)"
  by (simp add: lex_sync_def)

lemma read_char_sync_view: "lex_sync l \<Longrightarrow> lex_view (read_char l) = tl (lex_view l)"
  by (simp add: read_char_view sync_rest)

lemma unread_rest: "lex_rest (unread_char l) = lex_view l"
  by (simp add: lex_rest_def lex_view_def unread_char_def)

lemma unread_wf: "lex_sync l \<Longrightarrow> lex_wf (unread_char l)"
  by (simp add: lex_wf_def lex_sync_def unread_char_def)

lemma unread_input [simp]: "m_input (unread_char l) = m_input l"
  by (simp add: unread_char_def)

lemmas lex_step = read_char_ch peek_char_rest read_char_rest read_char_sync read_char_sync_view
  sync_wf sync_rest

text \<open>The three character loops: what they skip and where they stop.\<close>

lemma skip_white_space_spec:
  "lex_sync l \<Longrightarrow> lex_sync (skip_white_space l) \<and> m_input (skip_white_space l) = m_input l
     \<and> lex_view (skip_white_space l) = dropWhile is_white (lex_view l)"
proof (induction l rule: skip_white_space.induct)
  case (1 l)
  show ?case
  proof (cases "is_white (m_ch l)")
    case True
    then obtain c cs where v: "lex_view l = c # cs" "is_white c"
      using 1 by (cases "lex_view l") (auto simp: sync_ch)
    then show ?thesis using 1 True
      by (subst (1 2 3) skip_white_space.simps) (simp add: lex_step)
  next
    case False
    then show ?thesis using 1
      by (subst (1 2 3) skip_white_space.simps) (cases "lex_view l", auto simp: sync_ch)
  qed
qed

lemma number_loop_spec:
  "lex_sync l \<Longrightarrow> lex_sync (number_loop l) \<and> m_input (number_loop l) = m_input l
     \<and> lex_view (number_loop l) = dropWhile is_digit (lex_view l)
     \<and> m_pos (number_loop l) = m_pos l + int (length (takeWhile is_digit (lex_view l)))"
proof (induction l rule: number_loop.induct)
  case (1 l)
  show ?case
  proof (cases "is_digit (m_ch l)")
    case True
    then obtain c cs where v: "lex_view l = c # cs" "is_digit c"
      using 1 by (cases "lex_view l") (auto simp: sync_ch)
    have "m_next_pos l = m_pos l + 1" using 1 by (simp add: lex_sync_def)
    with v show ?thesis using 1 True
      by (subst (1 2 3 4) number_loop.simps) (simp add: lex_step)
  next
    case False
    then show ?thesis using 1
      by (subst (1 2 3 4) number_loop.simps) (cases "lex_view l", auto simp: sync_ch)
  qed
qed

lemma identifier_loop_spec:
  "lex_sync l \<Longrightarrow> lex_sync (identifier_loop l) \<and> m_input (identifier_loop l) = m_input l
     \<and> lex_view (identifier_loop l) = dropWhile (\<lambda>c. is_letter c \<or> is_digit c) (lex_view l)
     \<and> m_pos (identifier_loop l)
        = m_pos l + int (length (takeWhile (\<lambda>c. is_letter c \<or> is_digit c) (lex_view l)))"
proof (induction l rule: identifier_loop.induct)
  case (1 l)
  show ?case
  proof (cases "is_letter (m_ch l) \<or> is_digit (m_ch l)")
    case True
    then obtain c cs where v: "lex_view l = c # cs" "is_letter c \<or> is_digit c"
      using 1 by (cases "lex_view l") (auto simp: sync_ch)
    have "m_next_pos l = m_pos l + 1" using 1 by (simp add: lex_sync_def)
    with v show ?thesis using 1 True
      by (subst (1 2 3 4) identifier_loop.simps) (simp add: lex_step)
  next
    case False
    then show ?thesis using 1
      by (subst (1 2 3 4) identifier_loop.simps) (cases "lex_view l", auto simp: sync_ch)
  qed
qed

lemma substr_view: "substr (m_input l) (m_pos l) (int n) = take n (lex_view l)"
  by (simp add: substr_def lex_view_def)

lemma read_number_spec:
  assumes "lex_sync l"
  shows "fst (read_number l) = takeWhile is_digit (lex_view l)"
    "lex_sync (snd (read_number l))" "m_input (snd (read_number l)) = m_input l"
    "lex_view (snd (read_number l)) = dropWhile is_digit (lex_view l)"
  using number_loop_spec [OF assms]
  by (simp_all add: read_number_def Let_def substr_view takeWhile_eq_take [symmetric])

lemma read_identifier_spec:
  assumes "lex_sync l"
  shows "fst (read_identifier l) = takeWhile (\<lambda>c. is_letter c \<or> is_digit c) (lex_view l)"
    "lex_sync (snd (read_identifier l))" "m_input (snd (read_identifier l)) = m_input l"
    "lex_view (snd (read_identifier l)) = dropWhile (\<lambda>c. is_letter c \<or> is_digit c) (lex_view l)"
  using identifier_loop_spec [OF assms]
  by (simp_all add: read_identifier_def Let_def substr_view takeWhile_eq_take [symmetric])

lemmas lex_pre = read_char_ch peek_char_rest read_char_rest

text \<open>The two string loops start before a character and stop after the closing quote.\<close>

lemma single_quote_loop_spec:
  "lex_wf l \<Longrightarrow> fst (single_quote_loop str l) = str @ fst (sq_body (lex_rest l))
     \<and> lex_wf (snd (single_quote_loop str l)) \<and> m_input (snd (single_quote_loop str l)) = m_input l
     \<and> lex_rest (snd (single_quote_loop str l)) = snd (sq_body (lex_rest l))"
proof (induction str l rule: single_quote_loop.induct)
  case (1 str l)
  note wf = "1.prems"
  show ?case
  proof (cases "lex_rest l")
    case Nil
    then show ?thesis using wf
      by (simp add: single_quote_loop.simps [of str l] lex_pre)
  next
    case (Cons c cs)
    have peek: "peek_char (read_char l) = hd_char cs" and ch: "m_ch (read_char l) = c"
      using wf Cons by (simp_all add: lex_pre)
    consider "c = CHR 0x27 \<or> c = NUL" | "c \<noteq> CHR 0x27" "c \<noteq> NUL" "c = CHR 0x5C \<and> hd_char cs = CHR 0x27"
      | "c \<noteq> CHR 0x27" "c \<noteq> NUL" "\<not> (c = CHR 0x5C \<and> hd_char cs = CHR 0x27)" by blast
    then show ?thesis
    proof cases
      case 1
      then show ?thesis using wf Cons ch
        by (auto simp: single_quote_loop.simps [of str l] lex_pre)
    next
      case 2
      then have "m_ch (read_char (read_char l)) = CHR 0x27" using wf Cons by (simp add: lex_pre)
      with 2 show ?thesis
        using wf Cons ch peek "1.IH"(1) [OF refl _ _ refl]
        by (simp add: single_quote_loop.simps [of str l] lex_pre split_beta)
    next
      case 3
      then show ?thesis
        using wf Cons ch peek "1.IH"(2) [OF refl]
        by (auto simp: single_quote_loop.simps [of str l] lex_pre split_beta)
    qed
  qed
qed

lemma lex_set_ch [simp]:
  "lex_wf (l\<lparr>m_ch := c\<rparr>) = lex_wf l" "lex_rest (l\<lparr>m_ch := c\<rparr>) = lex_rest l"
  by (simp_all add: lex_wf_def lex_rest_def)

lemma double_quote_loop_spec:
  "lex_wf l \<Longrightarrow> fst (double_quote_loop str l) = str @ fst (dq_body (lex_rest l))
     \<and> lex_wf (snd (double_quote_loop str l)) \<and> m_input (snd (double_quote_loop str l)) = m_input l
     \<and> lex_rest (snd (double_quote_loop str l)) = snd (dq_body (lex_rest l))"
proof (induction str l rule: double_quote_loop.induct)
  case (1 str l)
  note wf = "1.prems"
  note IH = "1.IH" [OF refl _ refl]
  show ?case
  proof (cases "lex_rest l")
    case Nil
    then show ?thesis using wf
      by (simp add: double_quote_loop.simps [of str l] lex_pre)
  next
    case (Cons c cs)
    have peek: "peek_char (read_char l) = hd_char cs" and ch: "m_ch (read_char l) = c"
      using wf Cons by (simp_all add: lex_pre)
    consider "c = CHR 0x22 \<or> c = NUL" | "c \<noteq> CHR 0x22" "c \<noteq> NUL" by blast
    then show ?thesis
    proof cases
      case 1
      then show ?thesis using wf Cons ch
        by (auto simp: double_quote_loop.simps [of str l] lex_pre)
    next
      case 2
      then show ?thesis using wf Cons ch peek IH
        by (auto simp: double_quote_loop.simps [of str l] lex_pre split_beta split: option.splits)
    qed
  qed
qed

definition special_chars :: "char list" where
  "special_chars = [NUL, CHR 0x27, CHR 0x22] @ map fst single_char_tokens @ map fst two_char_tokens"

lemma special_chars_class: "\<forall>d \<in> set special_chars. \<not> is_letter d \<and> \<not> is_digit d"
  by (simp add: special_chars_def single_char_tokens_def two_char_tokens_def is_letter_def is_digit_def)

lemma map_of_not_special:
  assumes "c \<notin> set special_chars"
  shows "map_of single_char_tokens c = None" "map_of two_char_tokens c = None"
    "c \<noteq> NUL" "c \<noteq> CHR 0x27" "c \<noteq> CHR 0x22"
  using assms by (auto simp: special_chars_def map_of_eq_None_iff)

lemma digit_not_special: "is_digit c \<Longrightarrow> c \<notin> set special_chars"
  using special_chars_class by blast

lemma letter_not_special: "is_letter c \<Longrightarrow> c \<notin> set special_chars"
  using special_chars_class by blast

lemma letter_not_digit: "is_letter c \<Longrightarrow> \<not> is_digit c"
  by (auto simp: is_letter_def is_digit_def simp del: of_char_eq_iff)

text \<open>\<open>next_token\<close> after the white space, with its \<open>switch\<close> read through the two token tables.\<close>

lemma next_token_tables:
  assumes "l = skip_white_space (read_char l0)" "c = m_ch l"
  shows "next_token l0 =
     (case map_of single_char_tokens c of Some ty \<Rightarrow> (mk_token ty [c], l)
      | None \<Rightarrow>
        (case map_of two_char_tokens c of
           Some (one, d, two) \<Rightarrow>
             if peek_char l = d then (mk_token two [c, m_ch (read_char l)], read_char l)
             else (mk_token one [c], l)
         | None \<Rightarrow>
             if c = CHR 0x27 then (mk_token TOKEN_STRING (fst (read_single_quote_string l)), snd (read_single_quote_string l))
             else if c = CHR 0x22 then (mk_token TOKEN_STRING (fst (read_double_quote_string l)), snd (read_double_quote_string l))
             else if c = NUL then (mk_token TOKEN_EOF ''EOF'', l)
             else if is_digit c then
               (let (integer, l1) = read_number l in
                if m_ch l1 = CHR ''.'' \<and> is_digit (peek_char l1)
                then (let (fraction, l2) = read_number (read_char l1)
                      in (mk_token TOKEN_FLOAT (integer @ ''.'' @ fraction), unread_char l2))
                else (mk_token TOKEN_INTEGER integer, unread_char l1))
             else if is_letter c then
               (let (temp, l1) = read_identifier l; ty = look_up (map tolower temp)
                in if ty \<noteq> TOKEN_IDENTIFIER then (mk_token ty (map tolower temp), unread_char l1)
                   else (mk_token TOKEN_STRING temp, unread_char l1))
             else (mk_token TOKEN_ILLEGAL [c], l)))"
proof -
  define S where "S = {CHR ''+'', CHR ''*'', CHR ''/'', CHR ''%'', CHR ''.'', CHR '','', CHR ''='', CHR ''('', CHR '')''}"
  define T where "T = {CHR ''-'', CHR ''<'', CHR ''>''}"
  have S: "map_of single_char_tokens c = None" if "c \<notin> S"
    using that by (simp add: single_char_tokens_def S_def)
  have T: "map_of two_char_tokens c = None" if "c \<notin> T"
    using that by (simp add: two_char_tokens_def T_def)
  consider "c \<in> S" | "c \<in> T" | "map_of single_char_tokens c = None" "map_of two_char_tokens c = None"
      "c \<notin> S" "c \<notin> T"
    using S T by metis
  then show ?thesis
  proof cases
    case 1
    then show ?thesis unfolding S_def
      by (elim insertE emptyE) (simp_all add: next_token_def Let_def single_char_tokens_def flip: assms)
  next
    case 2
    then show ?thesis unfolding T_def
      by (elim insertE emptyE)
         (simp_all add: next_token_def Let_def single_char_tokens_def two_char_tokens_def flip: assms)
  next
    case 3
    then show ?thesis by (simp add: next_token_def Let_def split_beta S_def T_def flip: assms)
  qed
qed

lemma lex_number_refines:
  assumes "lex_sync l"
  defines "r \<equiv> (let (integer, l1) = read_number l in
                if m_ch l1 = CHR ''.'' \<and> is_digit (peek_char l1)
                then (let (fraction, l2) = read_number (read_char l1)
                      in (mk_token TOKEN_FLOAT (integer @ ''.'' @ fraction), unread_char l2))
                else (mk_token TOKEN_INTEGER integer, unread_char l1))"
  shows "lex_wf (snd r) \<and> m_input (snd r) = m_input l
    \<and> (fst r, lex_rest (snd r)) = lex_number (lex_view l)"
proof -
  define l1 where "l1 = snd (read_number l)"
  have 1: "lex_sync l1" "m_input l1 = m_input l" "lex_view l1 = dropWhile is_digit (lex_view l)"
    using read_number_spec [OF assms(1)] by (simp_all add: l1_def)
  have 2: "lex_sync (read_char l1)" "lex_view (read_char l1) = tl (lex_view l1)"
    using 1 by (simp_all add: lex_step)
  have 3: "m_ch l1 = hd_char (lex_view l1)" "peek_char l1 = hd_char (tl (lex_view l1))"
    using 1 by (simp_all add: sync_ch lex_step)
  show ?thesis
    using read_number_spec [OF assms(1)] read_number_spec [OF 2(1)] 1 2 3
    by (auto simp: r_def lex_number_def Let_def split_beta unread_rest unread_wf simp flip: l1_def)
qed

lemma lex_word_refines:
  assumes "lex_sync l"
  defines "r \<equiv> (let (temp, l1) = read_identifier l; ty = look_up (map tolower temp)
                in if ty \<noteq> TOKEN_IDENTIFIER then (mk_token ty (map tolower temp), unread_char l1)
                   else (mk_token TOKEN_STRING temp, unread_char l1))"
  shows "lex_wf (snd r) \<and> m_input (snd r) = m_input l
    \<and> (fst r, lex_rest (snd r)) = lex_word (lex_view l)"
  using read_identifier_spec [OF assms(1)]
  by (simp add: r_def lex_word_def Let_def split_beta unread_rest unread_wf)

lemma next_token_refines_aux:
  assumes "lex_wf l0"
  shows "lex_wf (snd (next_token l0)) \<and> m_input (snd (next_token l0)) = m_input l0
    \<and> (fst (next_token l0), lex_rest (snd (next_token l0))) = lex_token (lex_rest l0)"
proof -
  define l where "l = skip_white_space (read_char l0)"
  define s where "s = dropWhile is_white (lex_rest l0)"
  have sync: "lex_sync l" and inp: "m_input l = m_input l0" and view: "lex_view l = s"
    using skip_white_space_spec [OF read_char_sync [OF assms]]
    by (simp_all add: l_def s_def read_char_view)
  have wf: "lex_wf l" and rest: "lex_rest l = tl s" and ch: "m_ch l = hd_char s"
    using sync view by (simp_all add: lex_step sync_ch)
  note tab = next_token_tables [OF l_def refl]
  show ?thesis
    using wf rest ch inp lex_number_refines [OF sync] lex_word_refines [OF sync]
      single_quote_loop_spec [OF wf, of "[]"] double_quote_loop_spec [OF wf, of "[]"]
    by (auto simp: tab lex_token_def Let_def view lex_pre split_beta
        read_single_quote_string_def read_double_quote_string_def simp flip: s_def
        split: option.split prod.split)
qed

section \<open>Consequences\<close>

lemma lex_rest_mk [simp]: "lex_rest (mk_lexer s) = s" "lex_wf (mk_lexer s)"
  by (simp_all add: mk_lexer_def lex_rest_def lex_wf_def)

lemma hd_char_eq_NUL: "hd_char s \<noteq> NUL \<Longrightarrow> s = hd_char s # tl s"
  by (cases s) auto

lemma length_sq_body: "length (snd (sq_body s)) \<le> length s"
proof (induction s rule: sq_body.induct)
  case (2 c cs)
  have "length (tl cs) \<le> length cs" by simp
  with 2 show ?case by (auto simp: split_beta Let_def intro: le_SucI order_trans)
qed simp

lemma length_dq_body: "length (snd (dq_body s)) \<le> length s"
proof (induction s rule: dq_body.induct)
  case (2 c cs)
  have "length (tl cs) \<le> length cs" by simp
  with 2 show ?case by (auto simp: split_beta Let_def intro: le_SucI order_trans split: option.split)
qed simp

lemma length_lex_number: "is_digit (hd_char s) \<Longrightarrow> length (snd (lex_number s)) < length s"
proof (cases s)
  case (Cons c cs)
  assume "is_digit (hd_char s)"
  have "length (dropWhile is_digit (tl (dropWhile is_digit cs))) \<le> length cs"
    using length_dropWhile_le [of is_digit "tl (dropWhile is_digit cs)"]
      length_dropWhile_le [of is_digit cs] by simp
  with Cons \<open>is_digit (hd_char s)\<close> length_dropWhile_le [of is_digit cs] show ?thesis
    by (simp add: lex_number_def Let_def)
qed simp

lemma length_lex_word: "is_letter (hd_char s) \<Longrightarrow> length (snd (lex_word s)) < length s"
  using length_dropWhile_le [of "\<lambda>c. is_letter c \<or> is_digit c" "tl s"]
  by (cases s) (simp_all add: lex_word_def Let_def)

text \<open>A call on a non-empty rest consumes at least one character.\<close>

lemma lex_token_progress: "s \<noteq> [] \<Longrightarrow> length (snd (lex_token s)) < length s"
proof -
  assume ne: "s \<noteq> []"
  define t where "t = dropWhile is_white s"
  have le: "length t \<le> length s" by (simp add: t_def length_dropWhile_le)
  show ?thesis
  proof (cases t)
    case Nil
    then show ?thesis using ne
      by (simp add: lex_token_def Let_def single_char_tokens_def two_char_tokens_def flip: t_def)
  next
    case (Cons c cs)
    have le': "length (snd (sq_body cs)) < Suc (length cs)" "length (snd (dq_body cs)) < Suc (length cs)"
      "length (tl cs) < Suc (length cs)"
      "is_digit c \<Longrightarrow> length (snd (lex_number t)) < Suc (length cs)"
      "is_letter c \<Longrightarrow> length (snd (lex_word t)) < Suc (length cs)"
      using length_sq_body [of cs] length_dq_body [of cs] length_lex_number [of t]
        length_lex_word [of t] Cons by simp_all
    have "length (snd (lex_token s)) < Suc (length cs)"
    proof (cases "map_of single_char_tokens c")
      case None
      show ?thesis
      proof (cases "map_of two_char_tokens c")
        case None2: None
        show ?thesis using le' None None2
          by (simp add: lex_token_def Let_def split_beta Cons flip: t_def)
      next
        case (Some x)
        show ?thesis using le' None Some
          by (cases x) (simp add: lex_token_def Let_def Cons flip: t_def)
      qed
    qed (simp add: lex_token_def Let_def Cons flip: t_def)
    then have "length (snd (lex_token s)) < length t" using Cons by simp
    with le show ?thesis by simp
  qed
qed

lemma lex_token_Nil: "lex_token [] = (mk_token TOKEN_EOF ''EOF'', [])"
  by (simp add: lex_token_def single_char_tokens_def two_char_tokens_def)

text \<open>The token stream as the parser reads it, and as the specification reads it.\<close>

definition lex_nth :: "nat \<Rightarrow> lexer \<Rightarrow> token" where
  "lex_nth n l = fst (next_token (((snd \<circ> next_token) ^^ n) l))"

definition spec_nth :: "nat \<Rightarrow> string \<Rightarrow> token" where
  "spec_nth n s = fst (lex_token (((snd \<circ> lex_token) ^^ n) s))"

lemma next_token_state_refines:
  "lex_wf l \<Longrightarrow> lex_wf (((snd \<circ> next_token) ^^ n) l)
     \<and> lex_rest (((snd \<circ> next_token) ^^ n) l) = ((snd \<circ> lex_token) ^^ n) (lex_rest l)"
  by (induction n) (use next_token_refines_aux in \<open>auto simp: prod_eq_iff\<close>)

lemma lex_nth_spec: "lex_wf l \<Longrightarrow> lex_nth n l = spec_nth n (lex_rest l)"
  using next_token_state_refines [of l n] next_token_refines_aux
  by (auto simp: lex_nth_def spec_nth_def prod_eq_iff)

lemma length_lex_iter: "length (((snd \<circ> lex_token) ^^ n) s) \<le> length s - n"
proof (induction n)
  case (Suc n)
  let ?r = "((snd \<circ> lex_token) ^^ n) s"
  have "length (snd (lex_token ?r)) \<le> length ?r - 1"
    using lex_token_progress [of ?r] by (cases "?r = []") (auto simp: lex_token_Nil)
  moreover have "((snd \<circ> lex_token) ^^ Suc n) s = snd (lex_token ?r)" by simp
  ultimately have "length (((snd \<circ> lex_token) ^^ Suc n) s) \<le> length ?r - 1" by (simp only:)
  also have "\<dots> \<le> length s - Suc n" using Suc by linarith
  finally show ?case .
qed simp

text \<open>Escaped text for the two quoted forms.\<close>

definition dq_escape :: "string \<Rightarrow> string" where
  "dq_escape s = concat (map (\<lambda>c.
     if c = CHR 0x0A then [CHR 0x5C, CHR ''n''] else if c = CHR 0x0D then [CHR 0x5C, CHR ''r'']
     else if c = CHR 0x09 then [CHR 0x5C, CHR ''t''] else if c = CHR 0x22 then [CHR 0x5C, CHR 0x22]
     else if c = CHR 0x5C then [CHR 0x5C, CHR 0x5C] else [c]) s)"

definition sq_escape :: "string \<Rightarrow> string" where
  "sq_escape s = concat (map (\<lambda>c. if c = CHR 0x27 then [CHR 0x5C, CHR 0x27] else [c]) s)"

lemma dq_body_escape: "NUL \<notin> set s \<Longrightarrow> dq_body (dq_escape s @ CHR 0x22 # r) = (s, r)"
  by (induction s) (auto simp add: dq_escape_def escape_char_def)

lemma hd_char_sq_escape:
  "s \<noteq> [] \<Longrightarrow> hd_char (sq_escape s @ t) \<noteq> CHR 0x27"
  by (cases s) (simp_all add: sq_escape_def)

lemma sq_body_escape:
  "NUL \<notin> set s \<Longrightarrow> s = [] \<or> last s \<noteq> CHR 0x5C \<Longrightarrow> sq_body (sq_escape s @ CHR 0x27 # r) = (s, r)"
proof (induction s)
  case Nil
  then show ?case by (simp add: sq_escape_def)
next
  case (Cons c s)
  have esc: "sq_escape (c # s) = (if c = CHR 0x27 then [CHR 0x5C, CHR 0x27] else [c]) @ sq_escape s"
    by (simp add: sq_escape_def)
  have IH: "sq_body (sq_escape s @ CHR 0x27 # r) = (s, r)"
    using Cons by (cases "s = []") (auto simp: sq_escape_def)
  show ?case
  proof (cases "c = CHR 0x5C")
    case True
    then have "s \<noteq> []" using Cons.prems by auto
    moreover have "sq_escape (c # s) = CHR 0x5C # sq_escape s" using True esc by simp
    ultimately show ?thesis using True IH hd_char_sq_escape [of s "CHR 0x27 # r"] by simp
  next
    case False
    moreover have "c \<noteq> NUL" using Cons.prems by auto
    ultimately show ?thesis using IH by (simp add: esc)
  qed
qed

lemma lex_token_dq:
  "NUL \<notin> set s \<Longrightarrow> lex_token (CHR 0x22 # dq_escape s @ CHR 0x22 # r) = (mk_token TOKEN_STRING s, r)"
  by (simp add: lex_token_def is_white_def single_char_tokens_def two_char_tokens_def dq_body_escape)

lemma lex_token_sq:
  "NUL \<notin> set s \<Longrightarrow> s = [] \<or> last s \<noteq> CHR 0x5C \<Longrightarrow>
   lex_token (CHR 0x27 # sq_escape s @ CHR 0x27 # r) = (mk_token TOKEN_STRING s, r)"
  by (simp add: lex_token_def is_white_def single_char_tokens_def two_char_tokens_def sq_body_escape)

lemma letter_not_white: "is_letter c \<Longrightarrow> \<not> is_white c"
  by (auto simp: is_white_def is_letter_def)

definition word_char :: "char \<Rightarrow> bool" where
  "word_char c \<longleftrightarrow> is_letter c \<or> is_digit c"

lemma lex_token_word:
  assumes "is_letter (hd_char w)" "\<forall>c \<in> set w. word_char c" "\<not> word_char (hd_char r)"
  shows "lex_token (w @ r) =
    (if look_up (map tolower w) \<noteq> TOKEN_IDENTIFIER
     then mk_token (look_up (map tolower w)) (map tolower w) else mk_token TOKEN_STRING w, r)"
proof -
  obtain c cs where w: "w = c # cs" "is_letter c" using assms(1) by (cases w) auto
  have tw: "takeWhile word_char (w @ r) = w" "dropWhile word_char (w @ r) = r"
    using assms(2,3) by (cases r; simp)+
  have wc: "word_char = (\<lambda>c. is_letter c \<or> is_digit c)" by (simp add: word_char_def fun_eq_iff)
  have "lex_token (w @ r) = lex_word (w @ r)"
    using w map_of_not_special [OF letter_not_special [OF w(2)]]
    by (simp add: lex_token_def letter_not_white letter_not_digit)
  then show ?thesis using tw by (simp add: lex_word_def Let_def wc)
qed

section \<open>Properties of the lexical analyser\<close>

text \<open>
  C29. The class refines the specification on the remaining input: for every input and every
  \<open>n\<close>, the \<open>n\<close>-th token the parser reads from a fresh lexer is the \<open>n\<close>-th token of the
  specification, so the look-ahead, look-behind and position arithmetic of the class lose and
  repeat nothing.
\<close>

theorem next_token_refines: "lex_nth n (mk_lexer s) = spec_nth n s"
  by (simp add: lex_nth_spec)

text \<open>
  The token stream ends: from the \<open>length s\<close>-th call on, whatever the input, every token is
  the end-of-file token, so the parser's loops that wait for it stop.
\<close>

theorem token_stream_ends: "lex_nth (length s + k) (mk_lexer s) = mk_token TOKEN_EOF ''EOF''"
proof -
  have "length (((snd \<circ> lex_token) ^^ (length s + k)) s) \<le> length s - (length s + k)"
    by (rule length_lex_iter)
  then have "((snd \<circ> lex_token) ^^ (length s + k)) s = []" by simp
  then show ?thesis by (simp add: lex_nth_spec spec_nth_def lex_token_Nil)
qed

text \<open>
  Double-quoted strings round-trip: any text without NUL, written with the escapes of the
  lexer between double quotes, is read back as one string token, and reading continues right
  after the closing quote.
\<close>

theorem double_quoted_roundtrip:
  assumes "NUL \<notin> set s"
  shows "fst (next_token (mk_lexer (CHR 0x22 # dq_escape s @ CHR 0x22 # r))) = mk_token TOKEN_STRING s
    \<and> lex_rest (snd (next_token (mk_lexer (CHR 0x22 # dq_escape s @ CHR 0x22 # r)))) = r"
  using next_token_refines_aux [of "mk_lexer (CHR 0x22 # dq_escape s @ CHR 0x22 # r)"] assms
  by (simp add: lex_token_dq)

theorem double_quoted_roundtrip_witness:
  "fst (next_token (mk_lexer (CHR 0x22 # dq_escape [CHR ''a'', CHR 0x22, CHR 0x0A] @ CHR 0x22 # '' x'')))
    = mk_token TOKEN_STRING [CHR ''a'', CHR 0x22, CHR 0x0A]"
  using double_quoted_roundtrip [of "[CHR ''a'', CHR 0x22, CHR 0x0A]" "'' x''"] by simp

text \<open>
  Single-quoted strings round-trip: a text without NUL that does not end in a backslash, its
  single quotes written as backslash-quote, is read back as one string token. (A final backslash
  would escape the closing quote, and there is no escape for the backslash itself.)
\<close>

theorem single_quoted_roundtrip:
  assumes "NUL \<notin> set s" "s = [] \<or> last s \<noteq> CHR 0x5C"
  shows "fst (next_token (mk_lexer (CHR 0x27 # sq_escape s @ CHR 0x27 # r))) = mk_token TOKEN_STRING s
    \<and> lex_rest (snd (next_token (mk_lexer (CHR 0x27 # sq_escape s @ CHR 0x27 # r)))) = r"
  using next_token_refines_aux [of "mk_lexer (CHR 0x27 # sq_escape s @ CHR 0x27 # r)"] assms
  by (simp add: lex_token_sq)

theorem single_quoted_roundtrip_witness:
  "fst (next_token (mk_lexer (CHR 0x27 # sq_escape ''it's'' @ CHR 0x27 # '' = 3''))) = mk_token TOKEN_STRING ''it's''"
  using single_quoted_roundtrip [of "''it's''" "'' = 3''"] by simp

text \<open>
  Words: a maximal word is read whole; if its lower-case form is in the keyword table the
  token has the keyword's type and the lower-case literal, and otherwise it is a string token
  with the word unchanged.
\<close>

theorem word_token:
  assumes "is_letter (hd_char w)" "\<forall>c \<in> set w. word_char c" "\<not> word_char (hd_char r)"
  shows "fst (next_token (mk_lexer (w @ r))) =
    (case map_of m_keywords (map tolower w) of
       Some ty \<Rightarrow> mk_token ty (map tolower w) | None \<Rightarrow> mk_token TOKEN_STRING w)"
proof -
  have "fst (next_token (mk_lexer (w @ r))) = fst (lex_token (w @ r))"
    using next_token_refines_aux [of "mk_lexer (w @ r)"] by (simp add: prod_eq_iff)
  moreover have "look_up x = TOKEN_IDENTIFIER \<longleftrightarrow> map_of m_keywords x = None" for x
    by (simp add: look_up_identifier map_of_eq_None_iff)
  ultimately show ?thesis
    by (auto simp: lex_token_word [OF assms] look_up_def split: option.split)
qed

theorem word_token_witness:
  "fst (next_token (mk_lexer (''SeLect'' @ '' *''))) = mk_token TOKEN_SELECT ''select''"
proof -
  have "map tolower ''SeLect'' = ''select''" by code_simp
  then show ?thesis using word_token [of "''SeLect''" "'' *''"]
    by (simp add: is_letter_def is_digit_def word_char_def m_keywords_def)
qed

lemma token_types_produced:
  "tok_type (fst (next_token l)) \<notin> {TOKEN_SEMICOLON, TOKEN_NE, TOKEN_IDENTIFIER, TOKEN_TIMESTAMP}"
proof -
  have kw: "look_up w \<notin> {TOKEN_SEMICOLON, TOKEN_NE, TOKEN_TIMESTAMP}" for w
  proof -
    have "\<forall>p \<in> set m_keywords. snd p \<notin> {TOKEN_SEMICOLON, TOKEN_NE, TOKEN_TIMESTAMP}"
      by (simp add: m_keywords_def)
    then show ?thesis by (auto simp: look_up_def split: option.splits dest!: map_of_SomeD)
  qed
  define c where "c = m_ch (skip_white_space (read_char l))"
  have one: "ty \<notin> {TOKEN_SEMICOLON, TOKEN_NE, TOKEN_IDENTIFIER, TOKEN_TIMESTAMP}" if "map_of single_char_tokens c = Some ty" for ty
  proof -
    have "\<forall>p \<in> set single_char_tokens. snd p \<notin> {TOKEN_SEMICOLON, TOKEN_NE, TOKEN_IDENTIFIER, TOKEN_TIMESTAMP}"
      by (simp add: single_char_tokens_def)
    moreover have "(c, ty) \<in> set single_char_tokens" using that by (rule map_of_SomeD)
    ultimately show ?thesis by (metis snd_conv)
  qed
  have two: "{a, b} \<inter> {TOKEN_SEMICOLON, TOKEN_NE, TOKEN_IDENTIFIER, TOKEN_TIMESTAMP} = {}" if "map_of two_char_tokens c = Some (a, d, b)" for a d b
  proof -
    have "\<forall>p \<in> set two_char_tokens. {fst (snd p), snd (snd (snd p))} \<inter>
        {TOKEN_SEMICOLON, TOKEN_NE, TOKEN_IDENTIFIER, TOKEN_TIMESTAMP} = {}"
      by (simp add: two_char_tokens_def)
    moreover have "(c, a, d, b) \<in> set two_char_tokens" using that by (rule map_of_SomeD)
    ultimately show ?thesis by (metis fst_conv snd_conv)
  qed
  note tab = next_token_tables [OF refl c_def] Let_def split_beta
  show ?thesis
  proof (cases "map_of single_char_tokens c")
    case None
    show ?thesis
    proof (cases "map_of two_char_tokens c")
      case None2: None
      show ?thesis using kw by (simp add: tab None None2)
    next
      case (Some x)
      obtain a d b where x: "x = (a, d, b)" by (cases x)
      show ?thesis using two [OF Some [unfolded x]] by (auto simp add: tab None Some x)
    qed
  next
    case (Some ty)
    then show ?thesis using one by (simp add: tab)
  qed
qed


text \<open>
  Token types the lexer cannot produce: the semicolon, \<open>!=\<close>, the identifier and the
  timestamp types are declared, and the parser tests for them, but no input yields them.
\<close>

theorem never_produced:
  "tok_type (fst (next_token l)) \<notin> {TOKEN_SEMICOLON, TOKEN_NE, TOKEN_IDENTIFIER, TOKEN_TIMESTAMP}"
  by (rule token_types_produced)

end
