(* ===== verification/Parser.thy ===== *)
theory Parser
  imports Lexer
begin

text \<open>
  The abstract syntax tree (\<open>src/ast\<close>) and the parser (\<open>src/parser\<close>).

  A node is a constructor of \<open>expression\<close> that carries the members its class adds, and the token where
  the parser sets it; a null pointer is \<open>None\<close>. The value of a float node is \<open>atof\<close> of the literal, and the
  node keeps the literal. The parser is recursive through the member function pointers of its
  tables, which are the constructors of \<open>parse_fn\<close>: \<open>parse env fn p\<close> calls the function \<open>fn\<close>. A call that
  does not return is the value \<open>None\<close>, a function that ends without returning the error \<open>No_return\<close>.
  What is printed to the console is left out; \<open>m_errors\<close> is state.
\<close>

section \<open>The syntax tree\<close>

datatype create_type = CREATE_DATABASE | CREATE_TABLE

datatype expression =
    Integer_node token "64 word"
  | Float_node token string
  | String_node token string
  | Null_node token
  | Identifier_node token string
  | Prefix_node token string "expression option"
  | Infix_node token string "expression option" "expression option"
  | Show_node string string string string
  | Use_node string
  | Create_node create_type string "(string \<times> string) list" string
  | Select_node token string string "string list" "(string \<times> string) list" "expression option" "expression option"
  | Insert_node token string string "string list" "string list" "string list" string
  | System_node token string string "expression option"

record expression_statement =
  st_token :: token
  st_expression :: expression

type_synonym program = "expression_statement list"

section \<open>State and results\<close>

record parser =
  ps_lexer :: lexer
  ps_curr :: token
  ps_peek :: token
  ps_errors :: "string list"
  ps_clock :: nat

text \<open>The library functions that read a date, and the readings of the clock.\<close>

record 'tm parse_env =
  pe_get_time :: "string \<Rightarrow> 'tm option"
  pe_mktime :: "'tm \<Rightarrow> int"
  pe_now :: "nat \<Rightarrow> 64 word"

type_synonym 'a parsed = "('a \<times> parser) result option"

definition pbind :: "'a parsed \<Rightarrow> ('a \<Rightarrow> parser \<Rightarrow> 'b parsed) \<Rightarrow> 'b parsed" where
  "pbind m f = (case m of None \<Rightarrow> None | Some (Inl e) \<Rightarrow> Some (Inl e) | Some (Inr r) \<Rightarrow> f (fst r) (snd r))"

abbreviation gives :: "'a \<Rightarrow> parser \<Rightarrow> 'a parsed" where
  "gives x p \<equiv> Some (Inr (x, p))"

lemma pbind_simps [simp]:
  "pbind None f = None" "pbind (Some (Inl e)) f = Some (Inl e)" "pbind (gives x p) f = f x p"
  by (simp_all add: pbind_def)

lemma pbind_eq_Some: "pbind m f = Some r \<longleftrightarrow> (\<exists>e. m = Some (Inl e) \<and> r = Inl e) \<or> (\<exists>x p. m = gives x p \<and> f x p = Some r)"
  by (auto simp: pbind_def split: option.split sum.split)

lemma pbind_mono [partial_function_mono]:
  fixes B :: "('u \<Rightarrow> 'v option) \<Rightarrow> 'a parsed"
  assumes m: "mono_option B" and f: "\<And>x p. mono_option (\<lambda>rec. C x p rec)"
  shows "mono_option (\<lambda>rec. pbind (B rec) (\<lambda>x p. C x p rec))"
proof (rule monotoneI)
  fix a b :: "'u \<Rightarrow> 'v option"
  assume ab: "fun_ord option_ord a b"
  have 1: "option_ord (B a) (B b)" using m ab by (rule monotoneD [of _ _ _ a b])
  have 2: "option_ord (C x p a) (C x p b)" for x p using f ab by (rule monotoneD [of _ _ _ a b])
  show "option_ord (pbind (B a) (\<lambda>x p. C x p a)) (pbind (B b) (\<lambda>x p. C x p b))"
  proof (cases "B a")
    case None
    then show ?thesis by (simp add: flat_ord_def)
  next
    case (Some r)
    then have "B b = Some r" using 1 by (simp add: flat_ord_def)
    then show ?thesis using Some 2 by (cases r) (auto simp: pbind_def flat_ord_def)
  qed
qed

section \<open>Tokens and precedences\<close>

definition token_types :: "token_type list" where
  "token_types = [TOKEN_ILLEGAL, TOKEN_EOF, TOKEN_INTEGER, TOKEN_FLOAT, TOKEN_STRING, TOKEN_PLUS, TOKEN_MINUS,
     TOKEN_ASTERISK, TOKEN_SLASH, TOKEN_MODULO, TOKEN_DECREASE, TOKEN_AND, TOKEN_OR, TOKEN_LT, TOKEN_GT, TOKEN_LE,
     TOKEN_GE, TOKEN_EQ, TOKEN_NE, TOKEN_LPAREN, TOKEN_RPAREN, TOKEN_DOT, TOKEN_COMMA, TOKEN_SEMICOLON,
     TOKEN_TIMESTAMP, TOKEN_IDENTIFIER, TOKEN_NULL, TOKEN_DATABASE, TOKEN_DATABASES, TOKEN_TABLE, TOKEN_TABLES,
     TOKEN_ENGINE, TOKEN_SHOW, TOKEN_USE, TOKEN_CREATE, TOKEN_INSERT, TOKEN_INTO, TOKEN_UPDATE, TOKEN_SELECT,
     TOKEN_TTL, TOKEN_FROM, TOKEN_WHERE, TOKEN_TSM, TOKEN_CLT, TOKEN_REDUCE, TOKEN_SYSTEM]"

definition type_number :: "token_type \<Rightarrow> nat" where
  "type_number ty = length (takeWhile (\<lambda>t. t \<noteq> ty) token_types)"

definition LOWEST :: nat where "LOWEST = 0"
definition LOGIC :: nat where "LOGIC = 1"
definition COMPARE :: nat where "COMPARE = 2"
definition SUM_PREC :: nat where "SUM_PREC = 3"
definition PRODUCT :: nat where "PRODUCT = 4"
definition PREFIX :: nat where "PREFIX = 5"

definition m_precedence :: "(token_type \<times> nat) list" where
  "m_precedence = [
     (TOKEN_PLUS, SUM_PREC), (TOKEN_MINUS, SUM_PREC), (TOKEN_ASTERISK, PRODUCT), (TOKEN_SLASH, PRODUCT), (TOKEN_MODULO, PRODUCT),
     (TOKEN_AND, LOGIC), (TOKEN_OR, LOGIC), (TOKEN_LT, COMPARE), (TOKEN_GT, COMPARE), (TOKEN_LE, COMPARE),
     (TOKEN_GE, COMPARE), (TOKEN_EQ, COMPARE), (TOKEN_NE, COMPARE)]"

definition token_precedence :: "token_type \<Rightarrow> nat" where
  "token_precedence ty = (case map_of m_precedence ty of Some n \<Rightarrow> n | None \<Rightarrow> LOWEST)"

definition p_next_token :: "parser \<Rightarrow> parser" where
  "p_next_token p =
     (let (t, l) = next_token (ps_lexer p) in p\<lparr>ps_curr := ps_peek p, ps_peek := t, ps_lexer := l\<rparr>)"

definition mk_parser :: "lexer \<Rightarrow> parser" where
  "mk_parser l = p_next_token (p_next_token
     \<lparr>ps_lexer = l, ps_curr = default_token, ps_peek = default_token, ps_errors = [], ps_clock = 0\<rparr>)"

definition curr_token_is :: "token_type \<Rightarrow> parser \<Rightarrow> bool" where
  "curr_token_is ty p \<longleftrightarrow> tok_type (ps_curr p) = ty"

definition peek_token_is :: "token_type \<Rightarrow> parser \<Rightarrow> bool" where
  "peek_token_is ty p \<longleftrightarrow> tok_type (ps_peek p) = ty"

definition peek_error :: "token_type \<Rightarrow> parser \<Rightarrow> parser" where
  "peek_error ty p = p\<lparr>ps_errors := ps_errors p @
     [''Error: expected next token to be'' @ dec_nat (type_number ty) @ '', got '' @ dec_nat (type_number (tok_type (ps_peek p))) @
      '' instead - parser/parser.cpp'']\<rparr>"

definition no_prefix_parse_fn_error :: "token_type \<Rightarrow> parser \<Rightarrow> parser" where
  "no_prefix_parse_fn_error ty p = p\<lparr>ps_errors := ps_errors p @
     [''Error: no prefix parse function for - parser/parser.cpp'' @ dec_nat (type_number ty)]\<rparr>"

definition expect_peer_token :: "token_type \<Rightarrow> parser \<Rightarrow> bool \<times> parser" where
  "expect_peer_token ty p = (if peek_token_is ty p then (True, p_next_token p) else (False, peek_error ty p))"

definition curr_token_precedence :: "parser \<Rightarrow> nat" where
  "curr_token_precedence p = token_precedence (tok_type (ps_curr p))"

definition peek_token_precedence :: "parser \<Rightarrow> nat" where
  "peek_token_precedence p = token_precedence (tok_type (ps_peek p))"

abbreviation curr_literal :: "parser \<Rightarrow> string" where
  "curr_literal p \<equiv> tok_literal (ps_curr p)"

section \<open>Leaves\<close>

definition is_space :: "char \<Rightarrow> bool" where
  "is_space c \<longleftrightarrow> c \<in> {CHR 0x20, CHR 0x09, CHR 0x0A, CHR 0x0B, CHR 0x0C, CHR 0x0D}"

text \<open>\<open>atol\<close> reads a sign and digits and stops at the ends of the type.\<close>

definition atol :: "string \<Rightarrow> 64 word" where
  "atol s =
     (let s = dropWhile is_space s;
          neg = (s \<noteq> [] \<and> hd s = CHR ''-'');
          s = (if s \<noteq> [] \<and> (hd s = CHR ''-'' \<or> hd s = CHR ''+'') then tl s else s);
          n = dec_val 0 (takeWhile is_digit s)
      in if neg then of_int (- int (min n (2 ^ 63))) else of_nat (min n (2 ^ 63 - 1)))"

definition parse_integer :: "parser \<Rightarrow> expression option \<times> parser" where
  "parse_integer p = (Some (Integer_node (ps_curr p) (atol (curr_literal p))), p)"

definition parse_float :: "parser \<Rightarrow> expression option \<times> parser" where
  "parse_float p = (Some (Float_node (ps_curr p) (curr_literal p)), p)"

definition parse_string :: "parser \<Rightarrow> expression option \<times> parser" where
  "parse_string p = (Some (String_node (ps_curr p) (curr_literal p)), p)"

definition parse_identifier :: "parser \<Rightarrow> expression option \<times> parser" where
  "parse_identifier p = (Some (Identifier_node (ps_curr p) (curr_literal p)), p)"

definition parse_use :: "parser \<Rightarrow> expression option \<times> parser" where
  "parse_use p = (let p = p_next_token p in (Some (Use_node (curr_literal p)), p))"

partial_function (option) skip_semicolons :: "parser \<Rightarrow> unit parsed" where
  "skip_semicolons p = (if peek_token_is TOKEN_SEMICOLON p then skip_semicolons (p_next_token p) else gives () p)"

definition parse_null :: "parser \<Rightarrow> expression option parsed" where
  "parse_null p = pbind (skip_semicolons p) (\<lambda>_ p'. gives (Some (Null_node (ps_curr p))) p')"

partial_function (option) skip_to_eof :: "parser \<Rightarrow> unit parsed" where
  "skip_to_eof p = (if curr_token_is TOKEN_EOF p then gives () p else skip_to_eof (p_next_token p))"

section \<open>Statements\<close>

text \<open>A database name in front of a dot; \<open>None\<close> when no name follows the dot.\<close>

definition dotted_name :: "parser \<Rightarrow> string option \<times> parser" where
  "dotted_name p =
     (if peek_token_is TOKEN_DOT p then
        (let db = curr_literal p; p = p_next_token p in
         if \<not> peek_token_is TOKEN_STRING p then (None, p) else (Some db, p_next_token p))
      else (Some [], p))"

definition parse_show :: "parser \<Rightarrow> expression option parsed" where
  "parse_show p =
     (if peek_token_is TOKEN_DATABASES p then gives (Some (Show_node [] [] [] ''database'')) (p_next_token p)
      else if peek_token_is TOKEN_TABLES p then gives (Some (Show_node [] [] [] ''table'')) (p_next_token p)
      else if peek_token_is TOKEN_STRING p then
        (case dotted_name (p_next_token p) of
           (None, p) \<Rightarrow> gives None p
         | (Some db, p) \<Rightarrow>
             (let tb_name = curr_literal p in
              if \<not> peek_token_is TOKEN_DECREASE p then gives None p
              else (let p = p_next_token (p_next_token p) in gives (Some (Show_node db (curr_literal p) tb_name [])) p)))
      else pbind (skip_to_eof p) (\<lambda>_ p. gives None p))"

partial_function (option) create_fields :: "(string \<times> string) list \<Rightarrow> parser \<Rightarrow> (string \<times> string) list parsed" where
  "create_fields fs p =
     (if curr_token_is TOKEN_RPAREN p \<or> curr_token_is TOKEN_EOF p then gives fs p
      else
        (let p1 = p_next_token p; p2 = p_next_token p1 in
         create_fields (fs @ [(curr_literal p, curr_literal p1)])
           (if curr_token_is TOKEN_COMMA p2 then p_next_token p2 else p2)))"

definition create_engine :: "string \<Rightarrow> (string \<times> string) list \<Rightarrow> parser \<Rightarrow> expression option parsed" where
  "create_engine name fs p =
     (if \<not> peek_token_is TOKEN_ENGINE p then gives (Some (Create_node CREATE_TABLE name fs ''tsm'')) p
      else
        (let p = p_next_token (p_next_token (p_next_token p)) in
         if curr_token_is TOKEN_TSM p \<or> curr_token_is TOKEN_CLT p
         then gives (Some (Create_node CREATE_TABLE name fs (curr_literal p))) p
         else gives None p))"

definition parse_create :: "parser \<Rightarrow> expression option parsed" where
  "parse_create p0 =
     (let p = p_next_token p0; name = tok_literal (ps_peek p) in
      if curr_token_is TOKEN_DATABASE p then gives (Some (Create_node CREATE_DATABASE name [] [])) (p_next_token p)
      else if curr_token_is TOKEN_TABLE p then
        (let p = p_next_token (p_next_token p) in
         if curr_token_is TOKEN_LPAREN p then
           pbind (create_fields [] (p_next_token p)) (\<lambda>fs p.
             let p = (if peek_token_is TOKEN_RPAREN p then p_next_token p else p) in
             if curr_token_is TOKEN_EOF p then pbind (skip_to_eof p) (\<lambda>_ p. gives None p)
             else create_engine name fs p)
         else pbind (skip_to_eof p) (\<lambda>_ p. gives None p))
      else gives None p)"

text \<open>The tags and the values of an insert: as long as an equals sign comes next.\<close>

partial_function (option) insert_tags :: "string list \<Rightarrow> parser \<Rightarrow> string list parsed" where
  "insert_tags tags p =
     (if peek_token_is TOKEN_EQ p then
        (let p1 = p_next_token (p_next_token p); p2 = p_next_token p1;
             tags = tags @ [curr_literal p @ ''='' @ curr_literal p1] in
         if curr_token_is TOKEN_COMMA p2 then insert_tags tags (p_next_token p2) else gives tags p2)
      else gives tags p)"

partial_function (option) insert_values :: "string list \<Rightarrow> string list \<Rightarrow> parser \<Rightarrow> (string list \<times> string list) parsed" where
  "insert_values fs vals p =
     (if peek_token_is TOKEN_EQ p then
        (let p1 = p_next_token (p_next_token p); p2 = p_next_token p1;
             fs = fs @ [curr_literal p];
             vals = (if curr_token_is TOKEN_STRING p1 \<or> curr_token_is TOKEN_INTEGER p1 \<or> curr_token_is TOKEN_FLOAT p1
                     then vals @ [curr_literal p1] else vals) in
         if curr_token_is TOKEN_COMMA p2 then insert_values fs vals (p_next_token p2) else gives (fs, vals) p2)
      else gives (fs, vals) p)"

text \<open>A date is read as the start of its day, eight hours on; else the literal must have 19 characters.\<close>

definition insert_timestamp :: "'tm parse_env \<Rightarrow> parser \<Rightarrow> string option \<times> parser" where
  "insert_timestamp env p =
     (if curr_token_is TOKEN_EOF p
      then (Some (dec_int (sint (pe_now env (ps_clock p)))), p\<lparr>ps_clock := ps_clock p + 1\<rparr>)
      else
        (case pe_get_time env (curr_literal p) of
           None \<Rightarrow> if length (curr_literal p) \<noteq> 19 then (None, p) else (Some (curr_literal p), p)
         | Some tm \<Rightarrow> (Some (dec_int (sint (of_int ((pe_mktime env tm + 8 * 3600) * 10 ^ 9) :: 64 word))), p)))"

definition parse_insert :: "'tm parse_env \<Rightarrow> parser \<Rightarrow> expression option parsed" where
  "parse_insert env p0 =
     (let t = ps_curr p0; p = p_next_token p0 in
      if curr_token_is TOKEN_INTO p \<and> peek_token_is TOKEN_STRING p then
        (case dotted_name (p_next_token p) of
           (None, p) \<Rightarrow> gives None p
         | (Some db, p) \<Rightarrow>
             (let from = curr_literal p; p = p_next_token p in
              pbind (if curr_token_is TOKEN_COMMA p then insert_tags [] (p_next_token p) else gives [] p) (\<lambda>tags p.
              pbind (insert_values [] [] p) (\<lambda>fv p.
                (case insert_timestamp env p of
                   (None, p) \<Rightarrow> gives None p
                 | (Some ts, p) \<Rightarrow> gives (Some (Insert_node t db from tags (fst fv) (snd fv) ts)) p)))))
      else Some (Inl No_return))"

text \<open>The list of a select; a token of any other type is not skipped.\<close>

partial_function (option) select_fields :: "(string \<times> string) list \<Rightarrow> parser \<Rightarrow> (string \<times> string) list parsed" where
  "select_fields fs p =
     (if curr_token_is TOKEN_FROM p then gives fs p
      else if curr_token_is TOKEN_ASTERISK p then gives (fs @ [(''*'', [])]) (p_next_token p)
      else if curr_token_is TOKEN_REDUCE p then
        (let p1 = p_next_token (p_next_token p); p2 = p_next_token (p_next_token p1) in
         select_fields (fs @ [(curr_literal p1, curr_literal p)]) (if curr_token_is TOKEN_COMMA p2 then p_next_token p2 else p2))
      else if curr_token_is TOKEN_STRING p then
        (let p1 = p_next_token p in
         select_fields (fs @ [(curr_literal p, [])]) (if curr_token_is TOKEN_COMMA p1 then p_next_token p1 else p1))
      else select_fields fs p)"

section \<open>Expressions\<close>

text \<open>The member functions that the tables point to, and the two that work on a left side.\<close>

datatype parse_fn =
    Parse_integer | Parse_float | Parse_group | Parse_prefix | Parse_string | Parse_null | Parse_identifier
  | Parse_show | Parse_use | Parse_create | Parse_select | Parse_insert | Parse_system
  | Parse_infix "expression option" | Parse_expression nat | Parse_operators nat "expression option"

definition m_prefix_parse_fns :: "(token_type \<times> parse_fn) list" where
  "m_prefix_parse_fns = [
     (TOKEN_INTEGER, Parse_integer), (TOKEN_FLOAT, Parse_float), (TOKEN_LPAREN, Parse_group), (TOKEN_MINUS, Parse_prefix),
     (TOKEN_STRING, Parse_string), (TOKEN_NULL, Parse_null), (TOKEN_IDENTIFIER, Parse_identifier), (TOKEN_SHOW, Parse_show),
     (TOKEN_USE, Parse_use), (TOKEN_CREATE, Parse_create), (TOKEN_SELECT, Parse_select), (TOKEN_INSERT, Parse_insert),
     (TOKEN_SYSTEM, Parse_system)]"

definition m_infix_parse_fns :: "token_type list" where
  "m_infix_parse_fns = [TOKEN_PLUS, TOKEN_MINUS, TOKEN_ASTERISK, TOKEN_SLASH, TOKEN_MODULO, TOKEN_LT, TOKEN_GT, TOKEN_LE,
     TOKEN_GE, TOKEN_EQ, TOKEN_NE, TOKEN_AND, TOKEN_OR]"

text \<open>The functions that read expressions inside, over the function \<open>expr\<close> that reads one.\<close>

type_synonym read_expr = "nat \<Rightarrow> parser \<Rightarrow> expression option parsed"

definition parse_group :: "read_expr \<Rightarrow> parser \<Rightarrow> expression option parsed" where
  "parse_group expr p =
     pbind (expr LOWEST (p_next_token p)) (\<lambda>e p.
       let (found, p) = expect_peer_token TOKEN_RPAREN p in gives (if found then e else None) p)"

definition parse_prefix :: "read_expr \<Rightarrow> parser \<Rightarrow> expression option parsed" where
  "parse_prefix expr p =
     pbind (expr PREFIX (p_next_token p)) (\<lambda>right p'.
       gives (Some (Prefix_node (ps_curr p) (curr_literal p) right)) p')"

definition parse_infix :: "read_expr \<Rightarrow> expression option \<Rightarrow> parser \<Rightarrow> expression option parsed" where
  "parse_infix expr left p =
     pbind (expr (curr_token_precedence p) (p_next_token p)) (\<lambda>right p'.
       gives (Some (Infix_node (ps_curr p) (curr_literal p) left right)) p')"

definition parse_select :: "read_expr \<Rightarrow> parser \<Rightarrow> expression option parsed" where
  "parse_select expr p =
     pbind (select_fields [] (p_next_token p)) (\<lambda>fs p1.
       case dotted_name (p_next_token p1) of
         (None, p2) \<Rightarrow> gives None p2
       | (Some db, p2) \<Rightarrow>
           (let from = fst (parse_string p2) in
            if peek_token_is TOKEN_EOF p2 then gives (Some (Select_node (ps_curr p) db [] [] fs from None)) p2
            else pbind (expr LOWEST (p_next_token (p_next_token p2))) (\<lambda>where' p3.
                   gives (Some (Select_node (ps_curr p) db [] [] fs from where')) p3)))"

definition parse_system :: "read_expr \<Rightarrow> parser \<Rightarrow> expression option parsed" where
  "parse_system expr p =
     (let p1 = p_next_token p; p2 = p_next_token (p_next_token p1) in
      if peek_token_is TOKEN_EOF p2 then gives (Some (System_node (ps_curr p) (curr_literal p1) (curr_literal p2) None)) p2
      else pbind (expr LOWEST (p_next_token (p_next_token p2))) (\<lambda>where' p3.
             gives (Some (System_node (ps_curr p) (curr_literal p1) (curr_literal p2) where')) p3))"

lemmas expr_fns_def = parse_group_def parse_prefix_def parse_infix_def parse_select_def parse_system_def

lemma expr_fns_mono [partial_function_mono]:
  fixes F :: "('u \<Rightarrow> 'v option) \<Rightarrow> read_expr"
  assumes "\<And>m q. mono_option (\<lambda>rec. F rec m q)"
  shows "mono_option (\<lambda>rec. parse_group (F rec) p)" "mono_option (\<lambda>rec. parse_prefix (F rec) p)"
    "mono_option (\<lambda>rec. parse_infix (F rec) left p)" "mono_option (\<lambda>rec. parse_select (F rec) p)"
    "mono_option (\<lambda>rec. parse_system (F rec) p)"
proof -
  have c: "mono_option (\<lambda>rec. c)" for c :: "expression option parsed" by (rule option.const_mono)
  note m = pbind_mono [OF assms c]
  show "mono_option (\<lambda>rec. parse_group (F rec) p)" "mono_option (\<lambda>rec. parse_prefix (F rec) p)"
    "mono_option (\<lambda>rec. parse_infix (F rec) left p)" unfolding expr_fns_def by (rule m)+
  show "mono_option (\<lambda>rec. parse_select (F rec) p)" unfolding expr_fns_def
  proof (rule pbind_mono)
    fix fs p1
    obtain r p2 where "dotted_name (p_next_token p1) = (r, p2)" by fastforce
    then show "mono_option (\<lambda>rec. case dotted_name (p_next_token p1) of
         (None, p2) \<Rightarrow> gives None p2
       | (Some db, p2) \<Rightarrow>
           (let from = fst (parse_string p2) in
            if peek_token_is TOKEN_EOF p2 then gives (Some (Select_node (ps_curr p) db [] [] fs from None)) p2
            else pbind (F rec LOWEST (p_next_token (p_next_token p2))) (\<lambda>where' p3.
                   gives (Some (Select_node (ps_curr p) db [] [] fs from where')) p3)))"
      by (cases r; cases "peek_token_is TOKEN_EOF p2") (auto intro!: m c simp: Let_def)
  qed (rule option.const_mono)
  show "mono_option (\<lambda>rec. parse_system (F rec) p)" 
    unfolding expr_fns_def Let_def by (rule partial_function_mono m c)+
qed

text \<open>Calling a function of the tables, reading an expression, and the loop over its operators.\<close>

partial_function (option) parse :: "'tm parse_env \<Rightarrow> parse_fn \<Rightarrow> parser \<Rightarrow> expression option parsed" where
  "parse env fn p =
     (case fn of
        Parse_integer \<Rightarrow> Some (Inr (parse_integer p))
      | Parse_float \<Rightarrow> Some (Inr (parse_float p))
      | Parse_string \<Rightarrow> Some (Inr (parse_string p))
      | Parse_null \<Rightarrow> parse_null p
      | Parse_identifier \<Rightarrow> Some (Inr (parse_identifier p))
      | Parse_show \<Rightarrow> parse_show p
      | Parse_use \<Rightarrow> Some (Inr (parse_use p))
      | Parse_create \<Rightarrow> parse_create p
      | Parse_insert \<Rightarrow> parse_insert env p
      | Parse_group \<Rightarrow> parse_group (\<lambda>m. parse env (Parse_expression m)) p
      | Parse_prefix \<Rightarrow> parse_prefix (\<lambda>m. parse env (Parse_expression m)) p
      | Parse_infix left \<Rightarrow> parse_infix (\<lambda>m. parse env (Parse_expression m)) left p
      | Parse_select \<Rightarrow> parse_select (\<lambda>m. parse env (Parse_expression m)) p
      | Parse_system \<Rightarrow> parse_system (\<lambda>m. parse env (Parse_expression m)) p
      | Parse_expression precedence \<Rightarrow>
          (case map_of m_prefix_parse_fns (tok_type (ps_curr p)) of
             None \<Rightarrow> gives None (no_prefix_parse_fn_error (tok_type (ps_curr p)) p)
           | Some prefix \<Rightarrow> pbind (parse env prefix p) (\<lambda>e p. parse env (Parse_operators precedence e) p))
      | Parse_operators precedence e \<Rightarrow>
          (if \<not> peek_token_is TOKEN_SEMICOLON p \<and> precedence < peek_token_precedence p then
             (if tok_type (ps_peek p) \<notin> set m_infix_parse_fns then gives e p
              else pbind (parse env (Parse_infix e) (p_next_token p)) (\<lambda>e p. parse env (Parse_operators precedence e) p))
           else gives e p))"

definition parse_expression :: "'tm parse_env \<Rightarrow> nat \<Rightarrow> parser \<Rightarrow> expression option parsed" where
  "parse_expression env precedence p = parse env (Parse_expression precedence) p"

definition parse_statement :: "'tm parse_env \<Rightarrow> parser \<Rightarrow> expression_statement option parsed" where
  "parse_statement env p =
     pbind (parse_expression env LOWEST p) (\<lambda>e p'.
       case e of
         None \<Rightarrow> gives None p'
       | Some e \<Rightarrow> pbind (skip_semicolons p') (\<lambda>_ p'. gives (Some \<lparr>st_token = ps_curr p, st_expression = e\<rparr>) p'))"

partial_function (option) parse_statements :: "'tm parse_env \<Rightarrow> program \<Rightarrow> parser \<Rightarrow> program parsed" where
  "parse_statements env stmts p =
     (if curr_token_is TOKEN_EOF p then gives stmts p
      else pbind (parse_statement env p) (\<lambda>stmt p.
             parse_statements env (case stmt of Some s \<Rightarrow> stmts @ [s] | None \<Rightarrow> stmts) (p_next_token p)))"

definition parse_program :: "'tm parse_env \<Rightarrow> parser \<Rightarrow> program parsed" where
  "parse_program env p = parse_statements env [] p"

end
