(* ===== verification/Query.thy ===== *)
theory Query
  imports Iterators Inverted_Index Parser File_Path_Manager Write_Flush
begin

text \<open>
  Queries: the tree of a condition (\<open>ExprNode\<close> of \<open>src/engine/impl/itsm.h\<close> and its construction in
  \<open>src/evaluator/evaluator.cpp\<close>), its evaluation on shards and rows (\<open>src/engine/tsm/iterator.cpp\<close>), and the
  query part of the controller (\<open>src/engine/tsm/controller.cpp\<close>).

  A null pointer is \<open>None\<close>, and going through it an error. \<open>get_time\<close>, \<open>mktime\<close> and \<open>stof\<close> with the comparisons
  of floats are parameters.
\<close>

section \<open>Parameters and values\<close>

record ('tm, 'f) query_env =
  qe_snappy :: snappy
  qe_get_time :: "string \<Rightarrow> 'tm option"
  qe_mktime :: "'tm \<Rightarrow> int"
  qe_stof :: "string \<Rightarrow> 'f result"
  qe_float_eq :: "'f \<Rightarrow> 'f \<Rightarrow> bool"
  qe_float_less :: "'f \<Rightarrow> 'f \<Rightarrow> bool"
  qe_float_le :: "'f \<Rightarrow> 'f \<Rightarrow> bool"
  qe_junk_type :: single_type

datatype 'f point_value = Int_point "32 word" | Float_point 'f | String_point string

definition stoi :: "string \<Rightarrow> 32 word result" where
  "stoi s =
     (let s = dropWhile is_space s;
          neg = (s \<noteq> [] \<and> hd s = CHR ''-'');
          s = (if s \<noteq> [] \<and> (hd s = CHR ''-'' \<or> hd s = CHR ''+'') then tl s else s);
          ds = takeWhile is_digit s;
          n = (if neg then - int (dec_val 0 ds) else int (dec_val 0 ds))
      in if ds = [] then Inl (Logic_error ''stoi'')
         else if n < - (2 ^ 31) \<or> 2 ^ 31 \<le> n then Inl (Out_of_range ''stoi'')
         else Inr (of_int n))"

section \<open>The tree of a condition\<close>

datatype expr_node = Expr_node (en_val: string) (en_left: "expr_node option") (en_right: "expr_node option")

definition node_token :: "expression \<Rightarrow> token" where
  "node_token e = (case e of
     Integer_node t _ \<Rightarrow> t | Float_node t _ \<Rightarrow> t | String_node t _ \<Rightarrow> t | Null_node t \<Rightarrow> t | Identifier_node t _ \<Rightarrow> t
   | Prefix_node t _ _ \<Rightarrow> t | Infix_node t _ _ _ \<Rightarrow> t | Select_node t _ _ _ _ _ _ \<Rightarrow> t | Insert_node t _ _ _ _ _ _ \<Rightarrow> t
   | System_node t _ _ _ \<Rightarrow> t | _ \<Rightarrow> default_token)"

text \<open>
  \<open>convert_to_new_tree\<close> takes a null pointer, a string node or an infix node: an operand with the token of a
  string is cast to a string node, any other operand to an infix node, where the cast of a number is null.
\<close>

fun convert_to_new_tree :: "expression option \<Rightarrow> expr_node option result" and convert_operand :: "expression option \<Rightarrow> expr_node option result" where
  "convert_to_new_tree None = Inr None"
| "convert_to_new_tree (Some (String_node t v)) =
     (if tok_type t = TOKEN_STRING then Inr (Some (Expr_node v None None)) else Inl Null_deref)"
| "convert_to_new_tree (Some (Infix_node t op l r)) =
     (if tok_type t = TOKEN_STRING then Inl Null_deref
      else res_bind (convert_operand l) (\<lambda>left. res_bind (convert_operand r) (\<lambda>right. Inr (Some (Expr_node op left right)))))"
| "convert_to_new_tree (Some _) = Inl Null_deref"
| "convert_operand None = Inl Null_deref"
| "convert_operand (Some (String_node t v)) =
     (if tok_type t = TOKEN_STRING then Inr (Some (Expr_node v None None)) else Inr None)"
| "convert_operand (Some (Infix_node t op l r)) =
     (if tok_type t = TOKEN_STRING then Inr None
      else res_bind (convert_operand l) (\<lambda>left. res_bind (convert_operand r) (\<lambda>right. Inr (Some (Expr_node op left right)))))"
| "convert_operand (Some e) = Inr None"

definition val_of :: "expr_node option \<Rightarrow> string result" where
  "val_of n = (case n of None \<Rightarrow> Inl Null_deref | Some n \<Rightarrow> Inr (en_val n))"

definition is_comparison :: "string \<Rightarrow> bool" where
  "is_comparison v \<longleftrightarrow> v \<in> {''>'', ''<'', ''=='', ''>='', ''<='', ''!=''}"

definition is_logical :: "string \<Rightarrow> bool" where
  "is_logical v \<longleftrightarrow> v = ''and'' \<or> v = ''or''"

definition parse_timestamp :: "('tm, 'f) query_env \<Rightarrow> string \<Rightarrow> int result" where
  "parse_timestamp env time_str =
     (case qe_get_time env time_str of
        None \<Rightarrow> Inl (Runtime_error ''Failed to parse the timestamp'')
      | Some tm \<Rightarrow> if qe_mktime env tm = - 1 then Inl (Runtime_error ''Conversion to time_t failed'') else Inr (qe_mktime env tm))"

definition evaluate_shard :: "('tm, 'f) query_env \<Rightarrow> string \<Rightarrow> expr_node \<Rightarrow> bool result" where
  "evaluate_shard env shard_id n =
     res_bind (parse_timestamp env (shard_id @ '' 00:00:00'')) (\<lambda>shard_start.
     res_bind (parse_timestamp env (shard_id @ '' 23:59:59'')) (\<lambda>shard_end.
     res_bind (val_of (en_left n)) (\<lambda>l.
       if l \<noteq> ''time'' then Inr False
       else if is_comparison (en_val n) then
         res_bind (val_of (en_right n)) (\<lambda>s. res_bind (parse_timestamp env s) (\<lambda>t.
           Inr (if en_val n = ''>'' then t < shard_end
                else if en_val n = ''<'' then t > shard_start
                else if en_val n = ''>='' then t \<le> shard_end
                else if en_val n = ''<='' then t \<ge> shard_start
                else if en_val n = ''=='' then t \<ge> shard_start \<and> t \<le> shard_end
                else t < shard_start \<or> t > shard_end)))
       else Inr False)))"

text \<open>Both operands of a logical operator are evaluated.\<close>

fun evaluate_condition :: "('tm, 'f) query_env \<Rightarrow> string \<Rightarrow> expr_node option \<Rightarrow> bool result" where
  "evaluate_condition env shard_id None = Inr True"
| "evaluate_condition env shard_id (Some (Expr_node v l r)) =
     (if is_comparison v then evaluate_shard env shard_id (Expr_node v l r)
      else if is_logical v then
        res_bind (evaluate_condition env shard_id l) (\<lambda>left_result.
        res_bind (evaluate_condition env shard_id r) (\<lambda>right_result.
          Inr (if v = ''and'' then left_result \<and> right_result else left_result \<or> right_result)))
      else Inr False)"

definition is_tag_comparison :: "index_state \<Rightarrow> string \<Rightarrow> expr_node option \<Rightarrow> bool result" where
  "is_tag_comparison ix measurement node =
     (case node of
        None \<Rightarrow> Inr False
      | Some n \<Rightarrow> if en_val n = ''='' then res_bind (val_of (en_left n)) (\<lambda>l. Inr (whether_tag measurement l ix)) else Inr False)"

fun rebuild_tree_without_tags ::
    "index_state \<Rightarrow> string \<Rightarrow> expr_node option \<Rightarrow> (string \<times> string) list \<Rightarrow> (expr_node option \<times> (string \<times> string) list) result" where
  "rebuild_tree_without_tags ix measurement None tags = Inr (None, tags)"
| "rebuild_tree_without_tags ix measurement (Some (Expr_node v l r)) tags =
     res_bind (is_tag_comparison ix measurement (Some (Expr_node v l r))) (\<lambda>is_tag.
       if is_tag then res_bind (val_of l) (\<lambda>k. res_bind (val_of r) (\<lambda>x. Inr (None, tags @ [(k, x)])))
       else
         res_bind (rebuild_tree_without_tags ix measurement l tags) (\<lambda>(left, tags).
         res_bind (rebuild_tree_without_tags ix measurement r tags) (\<lambda>(right, tags).
           Inr (if (v = ''and'' \<or> v = ''or'') \<and> (left = None \<or> right = None)
                then (if left \<noteq> None then left else right)
                else Some (Expr_node v left right), tags))))"

section \<open>Conditions on rows\<close>

definition value_eq :: "('tm, 'f) query_env \<Rightarrow> 'f point_value \<Rightarrow> 'f point_value \<Rightarrow> bool" where
  "value_eq env a b = (case (a, b) of
     (Int_point x, Int_point y) \<Rightarrow> x = y | (Float_point x, Float_point y) \<Rightarrow> qe_float_eq env x y
   | (String_point x, String_point y) \<Rightarrow> x = y | _ \<Rightarrow> False)"

definition value_less :: "('tm, 'f) query_env \<Rightarrow> 'f point_value \<Rightarrow> 'f point_value \<Rightarrow> bool" where
  "value_less env a b = (case (a, b) of
     (Int_point x, Int_point y) \<Rightarrow> x <s y | (Float_point x, Float_point y) \<Rightarrow> qe_float_less env x y
   | (String_point x, String_point y) \<Rightarrow> x < y | _ \<Rightarrow> False)"

definition value_le :: "('tm, 'f) query_env \<Rightarrow> 'f point_value \<Rightarrow> 'f point_value \<Rightarrow> bool" where
  "value_le env a b = (case (a, b) of
     (Int_point x, Int_point y) \<Rightarrow> x \<le>s y | (Float_point x, Float_point y) \<Rightarrow> qe_float_le env x y
   | (String_point x, String_point y) \<Rightarrow> x \<le> y | _ \<Rightarrow> False)"

definition same_type :: "'f point_value \<Rightarrow> 'f point_value \<Rightarrow> bool" where
  "same_type a b = (case (a, b) of
     (Int_point x, Int_point y) \<Rightarrow> True | (Float_point x, Float_point y) \<Rightarrow> True
   | (String_point x, String_point y) \<Rightarrow> True | _ \<Rightarrow> False)"

text \<open>Values of different types never compare; the comparison of strings by order is compiled in.\<close>

definition compare_values :: "('tm, 'f) query_env \<Rightarrow> string \<Rightarrow> 'f point_value \<Rightarrow> 'f point_value \<Rightarrow> bool" where
  "compare_values env op a b =
     (if same_type a b then
        (if op = ''=='' then value_eq env a b
         else if op = ''!='' then \<not> value_eq env a b
         else if op = ''>'' then value_less env b a
         else if op = ''<'' then value_less env a b
         else if op = ''>='' then value_le env b a
         else if op = ''<='' then value_le env a b
         else False)
      else False)"

definition type_conversion_based_on_singledata ::
    "('tm, 'f) query_env \<Rightarrow> single_data \<Rightarrow> string \<Rightarrow> ('f point_value \<times> 'f point_value) result" where
  "type_conversion_based_on_singledata env field_data compare_value_str =
     (case sd_type field_data of
        String_value \<Rightarrow> Inr (String_point (sd_data field_data), String_point compare_value_str)
      | Integer_value \<Rightarrow>
          res_bind (stoi (sd_data field_data)) (\<lambda>a. res_bind (stoi compare_value_str) (\<lambda>b. Inr (Int_point a, Int_point b)))
      | Float_value \<Rightarrow>
          res_bind (qe_stof env (sd_data field_data)) (\<lambda>a.
          res_bind (qe_stof env compare_value_str) (\<lambda>b. Inr (Float_point a, Float_point b))))"

definition compare_timestamps :: "('tm, 'f) query_env \<Rightarrow> string \<Rightarrow> time_point \<Rightarrow> string \<Rightarrow> bool result" where
  "compare_timestamps env op row_timestamp condition_timestamp_str =
     res_bind (parse_timestamp env condition_timestamp_str) (\<lambda>condition_time.
       (let row_time = to_time_t row_timestamp in
        if op = ''>'' then Inr (row_time > condition_time)
        else if op = ''<'' then Inr (row_time < condition_time)
        else if op = ''>='' then Inr (row_time \<ge> condition_time)
        else if op = ''<='' then Inr (row_time \<le> condition_time)
        else if op = ''=='' then Inr (row_time = condition_time)
        else if op = ''!='' then Inr (row_time \<noteq> condition_time)
        else Inl (Logic_error (''Unsupported comparison operator: '' @ op))))"

fun evaluate_expr_node_for_row :: "('tm, 'f) query_env \<Rightarrow> expr_node option \<Rightarrow> row_node \<Rightarrow> bool result" where
  "evaluate_expr_node_for_row env None row = Inr True"
| "evaluate_expr_node_for_row env (Some (Expr_node v l r)) row =
     (if l \<noteq> None \<and> val_of l = Inr ''time'' then
        res_bind (val_of r) (\<lambda>s. compare_timestamps env v (rn_timestamp row) s)
      else if v = ''and'' then
        res_bind (evaluate_expr_node_for_row env l row) (\<lambda>a. if a then evaluate_expr_node_for_row env r row else Inr False)
      else if v = ''or'' then
        res_bind (evaluate_expr_node_for_row env l row) (\<lambda>a. if a then Inr True else evaluate_expr_node_for_row env r row)
      else
        res_bind (val_of l) (\<lambda>field.
          case map_of (rn_columns row) field of
            None \<Rightarrow> Inr False
          | Some field_data \<Rightarrow>
              res_bind (val_of r) (\<lambda>s.
              res_bind (type_conversion_based_on_singledata env field_data s) (\<lambda>(a, b). Inr (compare_values env v a b)))))"

section \<open>The query of the controller\<close>

text \<open>The part of the controller that a query uses; a table may have a null writer.\<close>

record query_controller =
  qc_map :: "string \<rightharpoonup> (string \<rightharpoonup> writer option)"
  qc_file :: file_path_manager
  qc_index :: index_state

text \<open>
  The shard ids come from a hash map and the matching ones are sorted by the caller; here they are visited
  in the order of the ids.
\<close>

fun filter_shard_ids :: "('tm, 'f) query_env \<Rightarrow> expr_node option \<Rightarrow> string list \<Rightarrow> string list result" where
  "filter_shard_ids env expr [] = Inr []"
| "filter_shard_ids env expr (i # is) =
     res_bind (evaluate_condition env i expr) (\<lambda>b.
     res_bind (filter_shard_ids env expr is) (\<lambda>is. Inr (if b then i # is else is)))"

definition filter_shards :: "('tm, 'f) query_env \<Rightarrow> string \<Rightarrow> string \<Rightarrow> expr_node option \<Rightarrow> query_controller \<Rightarrow> string list result" where
  "filter_shards env db_name measurement expr q =
     (case qc_map q db_name of
        None \<Rightarrow> Inr []
      | Some tables \<Rightarrow>
          (case tables measurement of
             None \<Rightarrow> Inr []
           | Some None \<Rightarrow> Inl Null_deref
           | Some (Some w) \<Rightarrow> filter_shard_ids env expr (sorted_list_of_set (get_shard_ids w))))"

text \<open>The intersection of the series of all tags: empty when there is no tag.\<close>

fun intersect_series :: "string \<Rightarrow> (string \<times> string) list \<Rightarrow> string set option \<Rightarrow> index_state \<Rightarrow> string set \<times> index_state" where
  "intersect_series measurement [] acc ix = (or_empty acc, ix)"
| "intersect_series measurement (tag # tags) acc ix =
     (let (current, ix) = get_series_key_by_tag measurement tag ix in
      intersect_series measurement tags (Some (case acc of None \<Rightarrow> current | Some s \<Rightarrow> s \<inter> current)) ix)"

definition writer_of :: "string \<Rightarrow> string \<Rightarrow> query_controller \<Rightarrow> writer result" where
  "writer_of db_name measurement q =
     (case qc_map q db_name of
        None \<Rightarrow> Inl Null_deref
      | Some tables \<Rightarrow> (case tables measurement of Some (Some w) \<Rightarrow> Inr w | _ \<Rightarrow> Inl Null_deref))"

fun load_indexes :: "string \<Rightarrow> string \<Rightarrow> query_controller \<Rightarrow> string list \<Rightarrow> tsm_io_center \<Rightarrow> tsm_io_center result" where
  "load_indexes db_name measurement q [] c = Inr c"
| "load_indexes db_name measurement q (i # is) c =
     res_bind (writer_of db_name measurement q) (\<lambda>w.
     res_bind (get_shard i w) (\<lambda>sh.
     res_bind (load_tsm_index_entry sh c) (\<lambda>c. load_indexes db_name measurement q is c)))"

definition blocks_of :: "tsm_io_center \<Rightarrow> string \<Rightarrow> string \<Rightarrow> series_index_block list" where
  "blocks_of c shard_id key =
     (case tc_tsm_index c shard_id of None \<Rightarrow> [] | Some m \<Rightarrow> (case m key of None \<Rightarrow> [] | Some bs \<Rightarrow> bs))"

definition shard_iterator_of :: "single_type \<Rightarrow> tsm_io_center \<Rightarrow> string list \<Rightarrow> string \<Rightarrow> string \<Rightarrow> shard_iterator" where
  "shard_iterator_of junk c series field shard_id =
     \<lparr>hi_tag_sets = map (\<lambda>key. new_tag_set_iterator junk key (blocks_of c shard_id (key @ field))) series, hi_index = 0\<rparr>"

definition field_iterator_of :: "single_type \<Rightarrow> tsm_io_center \<Rightarrow> string list \<Rightarrow> string list \<Rightarrow> string \<Rightarrow> field_iterator" where
  "field_iterator_of junk c series shard_ids field =
     (new_field_iterator field)\<lparr>fd_shards := map (shard_iterator_of junk c series field) shard_ids\<rparr>"

definition create_iterator_tree ::
    "('tm, 'f) query_env \<Rightarrow> string \<Rightarrow> string \<Rightarrow> string list \<Rightarrow> string list \<Rightarrow> (string \<times> string) list \<Rightarrow> query_controller \<Rightarrow>
     (root_iterator \<times> query_controller) result" where
  "create_iterator_tree env db_name measurement names shard_ids tags q =
     (let (series, ix) = intersect_series measurement tags None (qc_index q);
          q = q\<lparr>qc_index := ix\<rparr>;
          root = new_root_iterator db_name measurement (fp_disk (qc_file q))
      in res_bind (load_indexes db_name measurement q shard_ids (ri_center root)) (\<lambda>c.
           Inr (root\<lparr>ri_center := c, ri_fields := map (field_iterator_of (qe_junk_type env) c (sorted_list_of_set series) shard_ids) names\<rparr>, q)))"

text \<open>The loop over the rows ends: after a load the rows are used up and no further shard is begun.\<close>

lemma load_curr_loaded: "load_curr_shard_data sn r = Inr (b, r') \<Longrightarrow> ri_loaded r' = b \<and> (ri_loaded r \<longrightarrow> r' = r)"
  by (auto simp: load_curr_shard_data_def res_bind_eq_Inr split: if_splits)

lemma move_to_next_loaded: "move_to_next_shard sn r = Inr (True, r') \<Longrightarrow> ri_loaded r'"
  by (auto simp: move_to_next_shard_def Let_def split: if_splits dest: load_curr_loaded)

lemma root_has_next_loaded:
  "root_has_next sn r = Inr (True, r') \<Longrightarrow> r' = r \<and> ri_rows r \<noteq> [] \<or> \<not> ri_loaded r \<and> ri_loaded r'"
  by (auto simp: root_has_next_def split: if_splits dest: move_to_next_loaded)

lemma root_next_loaded:
  "root_next sn r = Inr (row, r') \<Longrightarrow>
    ri_loaded r' = ri_loaded r \<and> length (ri_rows r') < length (ri_rows r) \<or> \<not> ri_loaded r \<and> ri_loaded r'"
  by (auto simp: root_next_def res_bind_eq_Inr split: if_splits list.splits dest!: load_curr_loaded move_to_next_loaded)

function scan_rows ::
    "('tm, 'f) query_env \<Rightarrow> expr_node option \<Rightarrow> row_node list \<Rightarrow> root_iterator \<Rightarrow> (row_node list \<times> root_iterator) result" where
  "scan_rows env expr acc r =
     (case root_has_next (qe_snappy env) r of
        Inl e \<Rightarrow> Inl e
      | Inr (False, r1) \<Rightarrow> Inr (acc, r1)
      | Inr (True, r1) \<Rightarrow>
          (case root_next (qe_snappy env) r1 of
             Inl e \<Rightarrow> Inl e
           | Inr (row, r2) \<Rightarrow>
               (case evaluate_expr_node_for_row env expr row of
                  Inl e \<Rightarrow> Inl e
                | Inr b \<Rightarrow> scan_rows env expr (if b then acc @ [row] else acc) r2)))"
  by pat_completeness auto
termination
  by (relation "measures [\<lambda>(env, expr, acc, r). if ri_loaded r then 0 else 1, \<lambda>(env, expr, acc, r). length (ri_rows r)]")
     (auto dest!: root_has_next_loaded root_next_loaded)

declare scan_rows.simps [simp del]

text \<open>\<open>analytic_expr_tree\<close>: its result is the list of rows that it prints.\<close>

definition query_fields :: "string \<Rightarrow> string \<Rightarrow> (string \<times> string) list \<Rightarrow> query_controller \<Rightarrow> string list result" where
  "query_fields db_name measurement reduce_fields q =
     (if length reduce_fields = 1 \<and> fst (hd reduce_fields) = ''*''
      then res_bind (load_mea_fields db_name measurement (qc_file q)) (\<lambda>s. Inr (sorted_list_of_set s))
      else Inr (map fst reduce_fields))"

definition analytic_expr_tree ::
    "('tm, 'f) query_env \<Rightarrow> string \<Rightarrow> string \<Rightarrow> (string \<times> string) list \<Rightarrow> expr_node option \<Rightarrow> query_controller \<Rightarrow>
     (row_node list \<times> query_controller) result" where
  "analytic_expr_tree env db_name measurement reduce_fields expr q =
     res_bind (rebuild_tree_without_tags (qc_index q) measurement expr []) (\<lambda>(new_expr, tags).
     res_bind (filter_shards env db_name measurement new_expr q) (\<lambda>shard_ids.
     res_bind (query_fields db_name measurement reduce_fields q) (\<lambda>names.
     res_bind (create_iterator_tree env db_name measurement names shard_ids tags q) (\<lambda>(root, q).
     res_bind (scan_rows env new_expr [] root) (\<lambda>(rows, _). Inr (rows, q))))))"

end
