(* ===== verification/Iterator_Views.thy ===== *)
theory Iterator_Views
  imports Iterators
begin

text \<open>
  What the iterators deliver: an abstract view of a shard as lists of points, the step of the iterators on
  it, and the rows that a load of a shard collects.
\<close>

section \<open>What a load delivers\<close>

text \<open>
  The abstract view: a block is the list of its points, and a series iterator over \<open>n\<close> blocks has the
  points left of a current block of \<open>L\<close> points, and the blocks it has not begun.
\<close>

type_synonym series_view = "nat \<times> nat \<times> single_data list \<times> single_data list list"

datatype view_step = Finished | Stuck | Gives single_data "series_view list"

fun view_next :: "series_view list \<Rightarrow> view_step" where
  "view_next [] = Finished"
| "view_next ((n, L, x # xs, rest) # vs) = Gives x ((n, L, xs, rest) # vs)"
| "view_next ((n, L, [], []) # vs) = view_next vs"
| "view_next ((n, L, [], p # ps) # vs) = (if L < n then Gives (hd p) ((n, length p, tl p, ps) # vs) else Stuck)"

text \<open>A series gives its blocks one after the other until a block has as many points as there are blocks.\<close>

fun series_points :: "nat \<Rightarrow> nat \<Rightarrow> single_data list list \<Rightarrow> single_data list \<times> bool" where
  "series_points n L [] = ([], True)"
| "series_points n L (p # ps) =
     (if L < n then (p @ fst (series_points n (length p) ps), snd (series_points n (length p) ps)) else ([], False))"

fun shard_points :: "series_view list \<Rightarrow> single_data list" where
  "shard_points [] = []"
| "shard_points ((n, L, xs, rest) # vs) =
     xs @ fst (series_points n L rest) @ (if snd (series_points n L rest) then shard_points vs else [])"

definition view_ok :: "series_view list \<Rightarrow> bool" where
  "view_ok vs \<longleftrightarrow> (\<forall>(n, L, xs, rest) \<in> set vs. [] \<notin> set rest)"

lemma view_next_points:
  "view_ok vs \<Longrightarrow> case view_next vs of
     Gives x vs' \<Rightarrow> shard_points vs = x # shard_points vs' \<and> view_ok vs' | _ \<Rightarrow> shard_points vs = []"
  by (induction vs rule: view_next.induct) (auto simp: view_ok_def split: view_step.splits)

definition points_of :: "data_type \<Rightarrow> time_point list \<Rightarrow> string list \<Rightarrow> single_data list" where
  "points_of ty ts vs = map2 (\<lambda>t v. \<lparr>sd_timestamp = t, sd_data = v, sd_type = single_type_of String_value ty\<rparr>) ts vs"

text \<open>The first entry of an index block leads to a readable block with these points.\<close>

definition block_gives :: "snappy \<Rightarrow> string \<Rightarrow> string set \<Rightarrow> disk \<Rightarrow> series_index_block \<Rightarrow> single_data list \<Rightarrow> bool" where
  "block_gives sn db P d b pts \<longleftrightarrow> (\<exists>e es f off ty num ct cv ts vs.
     sb_index_entries b = e # es \<and> sint (ie_offset e) = int off \<and>
     ''./../dbs/'' @ db @ ''/'' @ sb_tsm_name b \<in> P \<and> files d (''./../dbs/'' @ db @ ''/'' @ sb_tsm_name b) = Some f \<and>
     data_at f off ty num ct cv \<and> decode_timestamps sn ct = Inr ts \<and> decode_values sn cv = Some (Inr vs) \<and>
     length ts = length vs \<and> named_type ty \<and> pts = points_of ty ts vs)"

text \<open>\<open>sees sn db P d it v\<close>: the series iterator stands where the view says.\<close>

definition sees :: "snappy \<Rightarrow> string \<Rightarrow> string set \<Rightarrow> disk \<Rightarrow> tag_set_iterator \<Rightarrow> series_view \<Rightarrow> bool" where
  "sees sn db P d it v \<longleftrightarrow> (case v of (n, L, xs, rest) \<Rightarrow>
     length (ti_series_blocks it) = n \<and> ti_index it + length rest = n \<and> length (ti_timestamps it) = L \<and>
     length (ti_values it) = L \<and> ti_data_index it + length xs = L \<and>
     xs = map2 (\<lambda>t v. \<lparr>sd_timestamp = t, sd_data = v, sd_type = ti_type it\<rparr>)
       (drop (ti_data_index it) (ti_timestamps it)) (drop (ti_data_index it) (ti_values it)) \<and>
     list_all2 (block_gives sn db P d) (drop (ti_index it) (ti_series_blocks it)) rest)"

definition center_at :: "string \<Rightarrow> string set \<Rightarrow> disk \<Rightarrow> tsm_io_center \<Rightarrow> bool" where
  "center_at db P d c \<longleftrightarrow> tc_db_name c = db \<and> io_ready P (tc_io_manager c) \<and> io_disk (tc_io_manager c) = d"

lemma get_curr_ready:
  assumes c: "center_at db P d c" and p: "p = ''./../dbs/'' @ db @ ''/'' @ n" "p \<in> P" "files d p = Some f"
    and at: "data_at f off ty num ct cv" "decode_timestamps sn ct = Inr ts" "decode_values sn cv = Some (Inr vs)"
  shows "yields (get_curr_tsm_file_data sn n (int off) it c) (\<lambda>(it', c').
    it' = it\<lparr>ti_timestamps := ts, ti_values := vs, ti_data_index := 0,
      ti_type := single_type_of (ti_type it) (type_of_code (type_code ty))\<rparr> \<and> center_at db P d c')"
proof -
  have st: "io_ready P (tc_io_manager c)" "io_disk (tc_io_manager c) = d" "tc_db_name c = db" using c by (simp_all add: center_at_def)
  have len: "length ct < 2 ^ 31" "length cv < 2 ^ 31" using at(1) by (simp_all add: data_at_def)
  note rd = data_at_reads [OF at(1)]
  have ge: "(0::int) \<le> int off" by simp
  note lens = sint_pos [OF len(1)] sint_pos [OF len(2)] unat_small32 [OF len(1)] unat_small32 [OF len(2)]
  let ?it = "it\<lparr>ti_timestamps := ts, ti_values := vs, ti_data_index := 0,
      ti_type := single_type_of (ti_type it) (type_of_code (type_code ty))\<rparr>"
  have "yields (with_stream p ''binary-read'' it (\<lambda>a st.
       res_bind (stream_seek a (int off) st) (\<lambda>st.
       res_bind (stream_read a 4 st) (\<lambda>(ty, st).
       res_bind (stream_read a 4 st) (\<lambda>(num, st).
       res_bind (stream_read a 4 st) (\<lambda>(tp_size, st).
       res_bind (stream_read a 4 st) (\<lambda>(val_size, st).
       res_bind (sized_read a (get_word tp_size) st) (\<lambda>(tp, st).
       res_bind (decode_timestamps sn tp) (\<lambda>timestamps.
       res_bind (sized_read a (get_word val_size) st) (\<lambda>(vals, st).
       res_bind (returned (decode_values sn vals)) (\<lambda>data_values.
         Inr (it\<lparr>ti_timestamps := timestamps, ti_values := data_values, ti_data_index := 0,
                 ti_type := single_type_of (ti_type it) (type_of_code (get_word ty))\<rparr>, st))))))))))) (tc_io_manager c))
     (\<lambda>(it', st). it' = ?it \<and> io_ready P st \<and> io_disk st = d)"
  proof (rule with_stream_ready [OF st(1) p(2)], simp)
    fix a st1
    assume 1: "io_ready P st1" "io_disk st1 = io_disk (tc_io_manager c)" "stream_at st1 a p (cached_pos (tc_io_manager c) p ''binary-read'')"
    have r: "stream_ready P d a p (cached_pos (tc_io_manager c) p ''binary-read'') False st1" using 1 st(2) by (simp add: stream_ready_def)
    show "yields (res_bind (stream_seek a (int off) st1) (\<lambda>st.
       res_bind (stream_read a 4 st) (\<lambda>(ty, st).
       res_bind (stream_read a 4 st) (\<lambda>(num, st).
       res_bind (stream_read a 4 st) (\<lambda>(tp_size, st).
       res_bind (stream_read a 4 st) (\<lambda>(val_size, st).
       res_bind (sized_read a (get_word tp_size) st) (\<lambda>(tp, st).
       res_bind (decode_timestamps sn tp) (\<lambda>timestamps.
       res_bind (sized_read a (get_word val_size) st) (\<lambda>(vals, st).
       res_bind (returned (decode_values sn vals)) (\<lambda>data_values.
         Inr (it\<lparr>ti_timestamps := timestamps, ti_values := data_values, ti_data_index := 0,
                 ti_type := single_type_of (ti_type it) (type_of_code (get_word ty))\<rparr>, st)))))))))))
      (\<lambda>(it', st). it' = ?it \<and> io_ready P st \<and> io_disk st = d)"
      apply (rule seek_bind [OF r ge], unfold nat_int)
      apply (rule read_step [OF _ p(3) rd(1)], assumption)
      apply (rule read_step [OF _ p(3) rd(2)], assumption)
      apply (rule read_step [OF _ p(3) rd(3)], simp add: add.assoc)
      apply (rule read_step [OF _ p(3) rd(4)], simp add: add.assoc)
      apply (simp only: get_put_word32 sized_read_def lens if_False)
      apply (rule read_step [OF _ p(3) rd(5)], simp add: add.assoc)
      apply (simp only: at(2) res_bind_simps)
      apply (rule read_step [OF _ p(3) rd(6)], simp add: add.assoc)
      apply (simp add: at(3) returned_def stream_ready_def)
      done
  qed
  then show ?thesis
    unfolding get_curr_tsm_file_data_def Let_def st(3) p(1) [symmetric]
    by (rule yields_bind) (use st in \<open>auto simp: center_at_def\<close>)
qed


lemma points_of_eq: "named_type ty \<Longrightarrow>
    points_of ty ts vs = map2 (\<lambda>t v. \<lparr>sd_timestamp = t, sd_data = v, sd_type = single_type_of old ty\<rparr>) ts vs"
  by (cases ty) (auto simp: points_of_def single_type_of_def named_type_def)

lemma sees_has_next: "sees sn db P d it (n, L, xs, rest) \<Longrightarrow> tag_set_has_next it \<longleftrightarrow> xs \<noteq> [] \<or> rest \<noteq> []"
  by (auto simp: sees_def tag_set_has_next_def)

lemma sees_next_point:
  assumes "sees sn db P d it (n, L, x # xs, rest)"
  shows "\<exists>it'. tag_set_next sn it c = Inr (Some x, it', c) \<and> sees sn db P d it' (n, L, xs, rest)"
proof -
  let ?i = "ti_data_index it"
  have i: "?i < length (ti_timestamps it)" "?i < length (ti_values it)" using assms by (auto simp: sees_def)
  have "x # xs = map2 (\<lambda>t v. \<lparr>sd_timestamp = t, sd_data = v, sd_type = ti_type it\<rparr>)
      (drop ?i (ti_timestamps it)) (drop ?i (ti_values it))" using assms by (simp add: sees_def)
  then have x: "x = \<lparr>sd_timestamp = ti_timestamps it ! ?i, sd_data = ti_values it ! ?i, sd_type = ti_type it\<rparr>"
    and xs: "xs = map2 (\<lambda>t v. \<lparr>sd_timestamp = t, sd_data = v, sd_type = ti_type it\<rparr>)
      (drop (Suc ?i) (ti_timestamps it)) (drop (Suc ?i) (ti_values it))"
    using i by (simp_all add: Cons_nth_drop_Suc [symmetric])
  show ?thesis
    by (intro exI [of _ "it\<lparr>ti_data_index := Suc ?i\<rparr>"]) (use assms i x xs in \<open>auto simp: tag_set_next_def tag_set_load_def sees_def\<close>)
qed

lemma sees_next_block:
  assumes s: "sees sn db P d it (n, L, [], p # ps)" and L: "L < n" and ne: "p \<noteq> []" and c: "center_at db P d c"
  shows "yields (tag_set_next sn it c) (\<lambda>(r, it', c'). r = Some (hd p) \<and> sees sn db P d it' (n, length p, tl p, ps) \<and> center_at db P d c')"
proof -
  let ?b = "ti_series_blocks it ! ti_index it" and ?it1 = "it\<lparr>ti_index := ti_index it + 1\<rparr>"
  have idx: "ti_data_index it = L" "length (ti_timestamps it) = L" "length (ti_series_blocks it) = n" "ti_index it < n"
    using s by (auto simp: sees_def)
  have drop: "drop (ti_index it) (ti_series_blocks it) = ?b # drop (Suc (ti_index it)) (ti_series_blocks it)"
    using idx by (simp add: Cons_nth_drop_Suc)
  have all: "list_all2 (block_gives sn db P d) (drop (ti_index it) (ti_series_blocks it)) (p # ps)" using s by (simp add: sees_def)
  then have bg: "block_gives sn db P d ?b p" and rest: "list_all2 (block_gives sn db P d) (drop (Suc (ti_index it)) (ti_series_blocks it)) ps"
    unfolding drop by simp_all
  obtain e es f off ty num ct cv ts vs where b: "sb_index_entries ?b = e # es" "sint (ie_offset e) = int off"
     "''./../dbs/'' @ db @ ''/'' @ sb_tsm_name ?b \<in> P" "files d (''./../dbs/'' @ db @ ''/'' @ sb_tsm_name ?b) = Some f"
     "data_at f off ty num ct cv" "decode_timestamps sn ct = Inr ts" "decode_values sn cv = Some (Inr vs)"
     "length ts = length vs" "named_type ty" "p = points_of ty ts vs"
    using bg unfolding block_gives_def by blast
  obtain it2 c2 where g: "get_curr_tsm_file_data sn (sb_tsm_name ?b) (int off) ?it1 c = Inr (it2, c2)" "center_at db P d c2"
      "it2 = ?it1\<lparr>ti_timestamps := ts, ti_values := vs, ti_data_index := 0, ti_type := single_type_of (ti_type it) ty\<rparr>"
    using get_curr_ready [OF c refl b(3-7), of ?it1] b(9) by (auto simp: yields_def)
  have load: "tag_set_load sn it c = Inr (Some (it2, c2))" using idx L b(1,2) g(1) by (simp add: tag_set_load_def Let_def)
  have len: "length p = length ts" using b(8,10) by (simp add: points_of_def)
  have tv: "ts \<noteq> []" "vs \<noteq> []" using ne len b(8) by auto
  have p: "p = map2 (\<lambda>t v. \<lparr>sd_timestamp = t, sd_data = v, sd_type = ti_type it2\<rparr>) ts vs"
    unfolding b(10) points_of_eq [OF b(9), of ts vs "ti_type it"] g(3) by simp
  obtain t ts' v vs' where c: "ts = t # ts'" "vs = v # vs'" using tv by (cases ts; cases vs) auto
  let ?it3 = "it2\<lparr>ti_data_index := 1\<rparr>"
  have next': "tag_set_next sn it c = Inr (Some (hd p), ?it3, c2)"
    unfolding tag_set_next_def load using p c by (simp add: g(3))
  have rl: "Suc (ti_index it + length ps) = n" using s by (simp add: sees_def)
  have "sees sn db P d ?it3 (n, length p, tl p, ps)"
    using rest idx rl len b(8) c p unfolding sees_def by (simp add: g(3))
  then show ?thesis using next' g(2) by simp
qed

lemma sees_next_stuck:
  assumes "sees sn db P d it (n, L, [], p # ps)" "\<not> L < n"
  shows "tag_set_next sn it c = Inr (None, it, c)"
  using assms by (auto simp: sees_def tag_set_next_def tag_set_load_def)

text \<open>A shard iterator sees the series from its current one on; those before it no longer matter.\<close>

definition shard_sees :: "snappy \<Rightarrow> string \<Rightarrow> string set \<Rightarrow> disk \<Rightarrow> shard_iterator \<Rightarrow> series_view list \<Rightarrow> bool" where
  "shard_sees sn db P d h vs \<longleftrightarrow> list_all2 (sees sn db P d) (drop (hi_index h) (hi_tag_sets h)) vs"

lemma shard_sees_Cons:
  assumes "shard_sees sn db P d h (v # vs)"
  shows "hi_index h < length (hi_tag_sets h)" "sees sn db P d (hi_tag_sets h ! hi_index h) v"
    "shard_sees sn db P d (h\<lparr>hi_index := hi_index h + 1\<rparr>) vs"
    "\<And>it v'. sees sn db P d it v' \<Longrightarrow> shard_sees sn db P d (h\<lparr>hi_tag_sets := (hi_tag_sets h)[hi_index h := it]\<rparr>) (v' # vs)"
    "shard_has_next h \<longleftrightarrow> tag_set_has_next (hi_tag_sets h ! hi_index h) \<or> shard_has_next (h\<lparr>hi_index := hi_index h + 1\<rparr>)"
proof -
  show i: "hi_index h < length (hi_tag_sets h)" by (rule ccontr) (use assms in \<open>simp add: shard_sees_def\<close>)
  then have d: "drop (hi_index h) (hi_tag_sets h) = hi_tag_sets h ! hi_index h # drop (Suc (hi_index h)) (hi_tag_sets h)"
    by (simp add: Cons_nth_drop_Suc)
  show "sees sn db P d (hi_tag_sets h ! hi_index h) v" "shard_sees sn db P d (h\<lparr>hi_index := hi_index h + 1\<rparr>) vs"
    "shard_has_next h \<longleftrightarrow> tag_set_has_next (hi_tag_sets h ! hi_index h) \<or> shard_has_next (h\<lparr>hi_index := hi_index h + 1\<rparr>)"
    using assms by (simp_all add: shard_sees_def d shard_has_next_def)
  show "shard_sees sn db P d (h\<lparr>hi_tag_sets := (hi_tag_sets h)[hi_index h := it]\<rparr>) (v' # vs)" if "sees sn db P d it v'" for it v'
    using assms that i by (simp add: shard_sees_def d drop_update_swap Cons_nth_drop_Suc [symmetric])
qed

lemma shard_step:
  assumes "shard_sees sn db P d h vs" "view_ok vs" "center_at db P d c"
  shows "case view_next vs of
     Finished \<Rightarrow> \<not> shard_has_next h
   | Stuck \<Rightarrow> shard_has_next h \<and> yields (shard_next sn h c) (\<lambda>(r, h', c'). r = None \<and> center_at db P d c')
   | Gives x vs' \<Rightarrow> shard_has_next h \<and> yields (shard_next sn h c) (\<lambda>(r, h', c'). r = Some x \<and>
       shard_sees sn db P d h' vs' \<and> center_at db P d c')"
  using assms(1,2)
proof (induction vs arbitrary: h rule: view_next.induct)
  case 1
  then show ?case by (simp add: shard_sees_def shard_has_next_def)
next
  case (2 n L x xs rest vs)
  note s = shard_sees_Cons [OF 2(1)]
  from sees_next_point [OF s(2)] obtain it' where
    it: "tag_set_next sn (hi_tag_sets h ! hi_index h) c = Inr (Some x, it', c)" "sees sn db P d it' (n, L, xs, rest)" by blast
  have "tag_set_has_next (hi_tag_sets h ! hi_index h)" using sees_has_next [OF s(2)] by simp
  then show ?case using s(1,4,5) it assms(3) by (subst shard_next.simps) simp
next
  case (3 n L vs)
  note s = shard_sees_Cons [OF 3(2)]
  have no: "\<not> tag_set_has_next (hi_tag_sets h ! hi_index h)" using sees_has_next [OF s(2)] by simp
  have "shard_next sn h c = shard_next sn (h\<lparr>hi_index := hi_index h + 1\<rparr>) c" using s(1) no by (subst shard_next.simps) simp
  moreover have "view_ok vs" using 3(3) by (simp add: view_ok_def)
  ultimately show ?case using 3(1) [OF s(3)] s(5) no by (cases "view_next vs") simp_all
next
  case (4 n L p ps vs)
  note s = shard_sees_Cons [OF 4(1)]
  have has: "tag_set_has_next (hi_tag_sets h ! hi_index h)" using sees_has_next [OF s(2)] by simp
  have eq: "shard_next sn h c = res_bind (tag_set_next sn (hi_tag_sets h ! hi_index h) c) (\<lambda>(d, it, c).
      Inr (d, h\<lparr>hi_tag_sets := (hi_tag_sets h)[hi_index h := it]\<rparr>, c))"
    using s(1) has by (subst shard_next.simps) simp
  show ?case
  proof (cases "L < n")
    case True
    have "p \<noteq> []" using 4(2) by (auto simp: view_ok_def)
    from sees_next_block [OF s(2) True this assms(3)] have "yields (shard_next sn h c) (\<lambda>(r, h', c'). r = Some (hd p) \<and>
        shard_sees sn db P d h' ((n, length p, tl p, ps) # vs) \<and> center_at db P d c')"
      unfolding eq by (rule yields_bind) (auto intro: s(4))
    then show ?thesis using True has s(5) by simp
  next
    case False
    then show ?thesis using sees_next_stuck [OF s(2) False] has s(5) assms(3) by (simp add: eq)
  qed
qed

section \<open>Loading a shard\<close>

definition add_points :: "string \<Rightarrow> single_data list \<Rightarrow> (int, row_node) omap \<Rightarrow> (int, row_node) omap" where
  "add_points field pts rows = fold (add_row_point field) pts rows"

text \<open>The field iterator stands on a shard with this view.\<close>

definition field_sees :: "snappy \<Rightarrow> string \<Rightarrow> string set \<Rightarrow> disk \<Rightarrow> field_iterator \<Rightarrow> series_view list \<Rightarrow> bool" where
  "field_sees sn db P d f vs \<longleftrightarrow> unat (fd_index f) < length (fd_shards f) \<and>
     shard_sees sn db P d (fd_shards f ! unat (fd_index f)) vs \<and> view_ok vs"

lemma load_field_ready:
  assumes "field_sees sn db P d f vs" "center_at db P d c"
  shows "yields (load_field sn f c rows has) (\<lambda>(f', c', rows', has'). fd_field f' = fd_field f \<and> center_at db P d c' \<and>
    rows' = add_points (fd_field f) (shard_points vs) rows \<and> has' = (has \<or> shard_points vs \<noteq> []))"
  using assms
proof (induction "shard_points vs" arbitrary: f vs c rows has)
  case Nil
  let ?h = "fd_shards f ! unat (fd_index f)"
  have s: "unat (fd_index f) < length (fd_shards f)" "shard_sees sn db P d ?h vs" "view_ok vs" using Nil(2) by (simp_all add: field_sees_def)
  note st = shard_step [OF s(2,3) Nil(3)]
  show ?case
  proof (cases "view_next vs")
    case Finished
    then show ?thesis using st Nil by (subst load_field.simps) (simp add: has_next_in_current_shard_def add_points_def)
  next
    case Stuck
    then obtain h' c' where "shard_has_next ?h" "shard_next sn ?h c = Inr (None, h', c')" "center_at db P d c'"
      using st by (auto simp: yields_def)
    then show ?thesis using s(1) Nil by (subst load_field.simps) (simp add: has_next_in_current_shard_def field_next_def add_points_def)
  next
    case (Gives x vs')
    then show ?thesis using view_next_points [OF s(3)] Nil by simp
  qed
next
  case (Cons x pts)
  let ?i = "unat (fd_index f)" let ?h = "fd_shards f ! ?i"
  have s: "?i < length (fd_shards f)" "shard_sees sn db P d ?h vs" "view_ok vs" using Cons(3) by (simp_all add: field_sees_def)
  note st = shard_step [OF s(2,3) Cons(4)]
  obtain x' vs' where g: "view_next vs = Gives x' vs'" using view_next_points [OF s(3)] Cons(2) by (cases "view_next vs") simp_all
  have v: "x' = x" "pts = shard_points vs'" "view_ok vs'" using view_next_points [OF s(3)] Cons(2) g by simp_all
  obtain h' c' where n: "shard_has_next ?h" "shard_next sn ?h c = Inr (Some x, h', c')" "shard_sees sn db P d h' vs'" "center_at db P d c'"
    using st g v(1) by (auto simp: yields_def)
  let ?f = "f\<lparr>fd_shards := (fd_shards f)[?i := h']\<rparr>"
  have "field_sees sn db P d ?f vs'" using s(1) n(3) v(3) by (simp add: field_sees_def)
  from Cons(1) [OF v(2) this n(4), of "add_row_point (fd_field f) x rows" True] Cons(2) [symmetric] v(2)
  show ?case using n s(1)
    by (subst load_field.simps) (simp add: has_next_in_current_shard_def field_next_def add_points_def)
qed

end
