(* ===== verification/Query_Properties.thy ===== *)
theory Query_Properties
  imports Query Iterator_Views
begin

text \<open>
  Properties of queries: which series a tag condition selects, which rows a query returns, and the
  conditions for which it returns none.
\<close>

section \<open>From the iterators to the rows\<close>

definition field_rows :: "(string \<times> series_view list) list \<Rightarrow> (int, row_node) omap \<Rightarrow> (int, row_node) omap" where
  "field_rows fvs rows = fold (\<lambda>(field, vs). add_points field (shard_points vs)) fvs rows"

lemma load_fields_ready:
  "list_all2 (field_sees sn db P d) fs vss \<Longrightarrow> center_at db P d c \<Longrightarrow>
    yields (load_fields sn fs c rows has) (\<lambda>(fs', c', rows', has'). center_at db P d c' \<and>
      rows' = field_rows (zip (map fd_field fs) vss) rows \<and> has' = (has \<or> (\<exists>vs \<in> set vss. shard_points vs \<noteq> [])))"
proof (induction fs vss arbitrary: c rows has rule: list_all2_induct)
  case Nil
  then show ?case by (simp add: field_rows_def)
next
  case (Cons f fs vs vss)
  show ?case unfolding load_fields.simps
  proof (rule yields_bind [OF load_field_ready [OF Cons(1) Cons(4)]], clarify)
    fix f' c' rows' has'
    assume c': "center_at db P d c'"
    show "yields (res_bind (load_fields sn fs c' (add_points (fd_field f) (shard_points vs) rows) (has \<or> shard_points vs \<noteq> []))
        (\<lambda>(fs, r). Inr (f' # fs, r)))
      (\<lambda>(fs', c', rows', has'). center_at db P d c' \<and> rows' = field_rows (zip (map fd_field (f # fs)) (vs # vss)) rows \<and>
        has' = (has \<or> (\<exists>vs \<in> set (vs # vss). shard_points vs \<noteq> [])))"
      by (rule yields_bind [OF Cons(3) [OF c']]) (auto simp: field_rows_def)
  qed
qed

lemma add_points_nonempty: "pts \<noteq> [] \<or> rows \<noteq> [] \<Longrightarrow> add_points field pts rows \<noteq> []"
  unfolding add_points_def by (induction pts arbitrary: rows) (auto simp: add_row_point_def Let_def)

lemma field_rows_nonempty: "rows \<noteq> [] \<or> (\<exists>fv \<in> set fvs. shard_points (snd fv) \<noteq> []) \<Longrightarrow> field_rows fvs rows \<noteq> []"
  unfolding field_rows_def
proof (induction fvs arbitrary: rows)
  case (Cons fv fvs)
  then show ?case using add_points_nonempty [of "shard_points (snd fv)" rows "fst fv"] by (auto simp: case_prod_beta)
qed simp

lemma field_rows_empty: "\<forall>fv \<in> set fvs. shard_points (snd fv) = [] \<Longrightarrow> field_rows fvs rows = rows"
  unfolding field_rows_def by (induction fvs) (auto simp: case_prod_beta add_points_def)

text \<open>The rows of a loaded shard come out in order, and then the query is over.\<close>

definition row_holds :: "('tm, 'f) query_env \<Rightarrow> expr_node option \<Rightarrow> row_node \<Rightarrow> bool" where
  "row_holds env expr row \<longleftrightarrow> evaluate_expr_node_for_row env expr row = Inr True"

definition rows_evaluate :: "('tm, 'f) query_env \<Rightarrow> expr_node option \<Rightarrow> row_node list \<Rightarrow> bool" where
  "rows_evaluate env expr rows \<longleftrightarrow> (\<forall>row \<in> set rows. \<exists>b. evaluate_expr_node_for_row env expr row = Inr b)"

lemma scan_loaded:
  "ri_loaded r \<Longrightarrow> rows_evaluate env expr (map snd (ri_rows r)) \<Longrightarrow>
    \<exists>r'. scan_rows env expr acc r = Inr (acc @ filter (row_holds env expr) (map snd (ri_rows r)), r')"
proof (induction "ri_rows r" arbitrary: r acc)
  case Nil
  then show ?case by (subst scan_rows.simps) (simp add: root_has_next_def)
next
  case (Cons e rows)
  have rows: "ri_rows r = e # rows" using Cons(2) by simp
  obtain b where b: "evaluate_expr_node_for_row env expr (snd e) = Inr b" using Cons(4) rows by (auto simp: rows_evaluate_def)
  have "\<exists>r'. scan_rows env expr (if b then acc @ [snd e] else acc) (r\<lparr>ri_rows := rows\<rparr>) =
      Inr ((if b then acc @ [snd e] else acc) @ filter (row_holds env expr) (map snd rows), r')"
    using Cons(1) [of "r\<lparr>ri_rows := rows\<rparr>"] Cons(3,4) rows by (simp add: rows_evaluate_def)
  then show ?case using b
    by (subst scan_rows.simps) (auto simp: root_has_next_def root_next_def rows row_holds_def)
qed

text \<open>A new tree whose field iterators have a first shard.\<close>

definition first_shard_sees :: "snappy \<Rightarrow> string \<Rightarrow> string set \<Rightarrow> disk \<Rightarrow> field_iterator \<Rightarrow> series_view list \<Rightarrow> bool" where
  "first_shard_sees sn db P d f vs \<longleftrightarrow> fd_index f = - 1 \<and> fd_shards f \<noteq> [] \<and> shard_sees sn db P d (hd (fd_shards f)) vs \<and> view_ok vs"

lemma first_shard_moves:
  assumes "first_shard_sees sn db P d f vs"
  shows "fst (field_move_to_next_shard f)" "field_sees sn db P d (snd (field_move_to_next_shard f)) vs"
    using assms by (cases "fd_shards f"; simp add: first_shard_sees_def field_move_to_next_shard_def field_sees_def)+

lemma scan_first_shard:
  assumes f: "list_all2 (first_shard_sees (qe_snappy env) db P d) (ri_fields r) vss" "ri_fields r \<noteq> []"
    and r: "ri_rows r = []" "\<not> ri_loaded r" "center_at db P d (ri_center r)"
    and ev: "rows_evaluate env expr (map snd (field_rows (zip (map fd_field (ri_fields r)) vss) []))"
  shows "\<exists>r'. scan_rows env expr [] r =
    Inr (filter (row_holds env expr) (map snd (field_rows (zip (map fd_field (ri_fields r)) vss) [])), r')"
proof -
  let ?sn = "qe_snappy env" and ?fs = "map (snd \<circ> field_move_to_next_shard) (ri_fields r)"
  let ?rows = "field_rows (zip (map fd_field (ri_fields r)) vss) []" and ?has = "\<exists>vs \<in> set vss. shard_points vs \<noteq> []"
  have moved: "list_ex fst (map field_move_to_next_shard (ri_fields r))"
    using f by (cases "ri_fields r"; cases vss) (auto dest: first_shard_moves(1))
  have sees: "list_all2 (field_sees ?sn db P d) ?fs vss"
    using f(1) by (simp add: list_all2_map1 list_all2_mono first_shard_moves(2))
  have names: "map fd_field ?fs = map fd_field (ri_fields r)"
    by (simp add: field_move_to_next_shard_def)
  obtain fs' c' where l: "load_fields ?sn ?fs (ri_center r) [] False = Inr (fs', c', ?rows, ?has)" "center_at db P d c'"
    using load_fields_ready [OF sees r(3), of "[]" False] unfolding names by (auto simp: yields_def)
  let ?r = "r\<lparr>ri_loaded := ?has, ri_fields := fs', ri_center := c', ri_rows := ?rows\<rparr>"
  have move: "move_to_next_shard ?sn r = Inr (?has, ?r)"
    using moved l(1) r(1) by (simp add: move_to_next_shard_def Let_def load_curr_shard_data_def comp_def)
  show ?thesis
  proof (cases ?has)
    case False
    then have "\<forall>fv \<in> set (zip (map fd_field (ri_fields r)) vss). shard_points (snd fv) = []"
      by (auto dest: set_zip_rightD)
    then have "?rows = []" by (rule field_rows_empty)
    then show ?thesis using r(1,2) move False
      by (subst scan_rows.simps) (simp add: root_has_next_def)
  next
    case True
    have "length (ri_fields r) = length vss" using f(1) by (rule list_all2_lengthD)
    then have "\<exists>fv \<in> set (zip (map fd_field (ri_fields r)) vss). shard_points (snd fv) \<noteq> []"
      using True by (metis (no_types, lifting) in_set_impl_in_set_zip2 length_map snd_conv)
    then have ne: "?rows \<noteq> []" by (intro field_rows_nonempty disjI2)
    from True have r1: "ri_loaded ?r" "ri_rows ?r = ?rows" by simp_all
    have eq: "scan_rows env expr [] r = scan_rows env expr [] ?r"
    proof -
      have "root_has_next ?sn r = Inr (True, ?r)" "root_has_next ?sn ?r = Inr (True, ?r)"
        using r(1,2) move True ne by (simp_all add: root_has_next_def)
      then show ?thesis by (subst (1 2) scan_rows.simps) simp
    qed
    show ?thesis unfolding eq using scan_loaded [OF r1(1), of env expr "[]"] ev by simp
  qed
qed


section \<open>The whole query\<close>

text \<open>The series of a shard, new, over blocks with the points \<open>pts\<close>.\<close>

definition new_view :: "single_data list list \<Rightarrow> series_view" where
  "new_view pts = (length pts, 0, [], pts)"

lemma new_view_sees:
  assumes "list_all2 (block_gives sn db P d) blocks pts"
  shows "sees sn db P d (new_tag_set_iterator junk key blocks) (new_view pts)"
  using list_all2_lengthD [OF assms] assms by (simp add: sees_def new_view_def new_tag_set_iterator_def)

definition shard_gives ::
    "snappy \<Rightarrow> string \<Rightarrow> string set \<Rightarrow> disk \<Rightarrow> tsm_io_center \<Rightarrow> string list \<Rightarrow> string list \<Rightarrow> string \<Rightarrow>
     (string \<Rightarrow> string \<Rightarrow> single_data list list) \<Rightarrow> bool" where
  "shard_gives sn db P d c names series shard_id pts \<longleftrightarrow> (\<forall>field \<in> set names. \<forall>key \<in> set series.
     list_all2 (block_gives sn db P d) (blocks_of c shard_id (key @ field)) (pts field key) \<and> [] \<notin> set (pts field key))"

definition shard_rows :: "string list \<Rightarrow> string list \<Rightarrow> (string \<Rightarrow> string \<Rightarrow> single_data list list) \<Rightarrow> row_node list" where
  "shard_rows names series pts =
     map snd (field_rows (map (\<lambda>field. (field, map (\<lambda>key. new_view (pts field key)) series)) names) [])"

lemma new_field_sees:
  assumes "shard_gives sn db P d c names series i pts" "field \<in> set names"
  shows "first_shard_sees sn db P d (field_iterator_of junk c series (i # is) field) (map (\<lambda>key. new_view (pts field key)) series)"
proof -
  have "list_all2 (sees sn db P d) (map (\<lambda>key. new_tag_set_iterator junk key (blocks_of c i (key @ field))) series)
      (map (\<lambda>key. new_view (pts field key)) series)"
    using assms by (auto simp: list_all2_conv_all_nth shard_gives_def intro!: new_view_sees)
  moreover have "view_ok (map (\<lambda>key. new_view (pts field key)) series)"
    using assms by (auto simp: view_ok_def new_view_def shard_gives_def)
  ultimately show ?thesis
    by (simp add: first_shard_sees_def field_iterator_of_def new_field_iterator_def shard_iterator_of_def shard_sees_def)
qed

lemma query_rows:
  assumes tree: "rebuild_tree_without_tags (qc_index q) m expr [] = Inr (expr', tags)"
    and shards: "filter_shards env db m expr' q = Inr (i # is)"
    and names: "query_fields db m reduce q = Inr names" "names \<noteq> []"
    and series: "intersect_series m tags None (qc_index q) = (S, ix)"
    and load: "load_indexes db m (q\<lparr>qc_index := ix\<rparr>) (i # is) (new_tsm_io_center db m (fp_disk (qc_file q))) = Inr c" "center_at db P d c"
    and gives: "shard_gives (qe_snappy env) db P d c names (sorted_list_of_set S) i pts"
    and ev: "rows_evaluate env expr' (shard_rows names (sorted_list_of_set S) pts)"
  shows "analytic_expr_tree env db m reduce expr q =
    Inr (filter (row_holds env expr') (shard_rows names (sorted_list_of_set S) pts), q\<lparr>qc_index := ix\<rparr>)"
proof -
  let ?names = names and ?series = "sorted_list_of_set S"
  let ?fs = "map (field_iterator_of (qe_junk_type env) c ?series (i # is)) ?names"
  let ?vss = "map (\<lambda>field. map (\<lambda>key. new_view (pts field key)) ?series) ?names"
  let ?root = "(new_root_iterator db m (fp_disk (qc_file q)))\<lparr>ri_center := c, ri_fields := ?fs\<rparr>"
  have create: "create_iterator_tree env db m ?names (i # is) tags q = Inr (?root, q\<lparr>qc_index := ix\<rparr>)"
    using series load by (simp add: create_iterator_tree_def new_root_iterator_def)
  have fs: "map fd_field ?fs = ?names" by (simp add: field_iterator_of_def new_field_iterator_def comp_def)
  have zip: "zip (map fd_field ?fs) ?vss = map (\<lambda>field. (field, map (\<lambda>key. new_view (pts field key)) ?series)) ?names"
    unfolding fs by (simp add: zip_map2 zip_same_conv_map)
  have sees: "list_all2 (first_shard_sees (qe_snappy env) db P d) ?fs ?vss"
    using gives by (auto simp: list_all2_conv_all_nth intro!: new_field_sees)
  have r: "ri_fields ?root = ?fs" "ri_rows ?root = []" "ri_loaded ?root = False" "ri_center ?root = c"
    by (simp_all add: new_root_iterator_def)
  have "\<exists>r'. scan_rows env expr' [] ?root = Inr (filter (row_holds env expr') (shard_rows ?names ?series pts), r')"
    by (rule scan_first_shard [of env db P d ?root ?vss expr', unfolded r zip, folded shard_rows_def])
       (use sees names load(2) ev in simp_all)
  then show ?thesis
    using tree shards names create by (auto simp: analytic_expr_tree_def)
qed


text \<open>What the rows hold: for each time and field the last point that was delivered.\<close>

definition row_entry :: "(int, row_node) omap \<Rightarrow> int \<Rightarrow> string \<Rightarrow> single_data option" where
  "row_entry rows t field = (case map_of rows t of None \<Rightarrow> None | Some row \<Rightarrow> map_of (rn_columns row) field)"

definition rows_ok :: "(int, row_node) omap \<Rightarrow> bool" where
  "rows_ok rows \<longleftrightarrow> om_ok rows \<and> (\<forall>(t, row) \<in> set rows. sint (rn_timestamp row) = t)"

definition last_at :: "time_point \<Rightarrow> single_data list \<Rightarrow> single_data option" where
  "last_at t pts = find (\<lambda>p. sd_timestamp p = t) (rev pts)"

lemma add_row_point_entry:
  "row_entry (add_row_point field p rows) t f = (if t = sint (sd_timestamp p) \<and> f = field then Some p else row_entry rows t f)"
  by (cases "map_of rows (sint (sd_timestamp p))") (auto simp: row_entry_def add_row_point_def Let_def add_data_point_def default_row_def)

lemma add_row_point_ok: "rows_ok rows \<Longrightarrow> rows_ok (add_row_point field p rows)"
  using set_om_put by (fastforce simp: rows_ok_def add_row_point_def Let_def add_data_point_def)

lemma find_append: "find P (xs @ ys) = (case find P xs of None \<Rightarrow> find P ys | Some x \<Rightarrow> Some x)"
  by (induction xs) auto

lemma add_points_entry:
  "row_entry (add_points field pts rows) (sint t) f =
     (if f = field then (case last_at t pts of None \<Rightarrow> row_entry rows (sint t) f | Some p \<Rightarrow> Some p) else row_entry rows (sint t) f)"
  unfolding add_points_def
proof (induction pts arbitrary: rows)
  case (Cons p pts)
  have "sint t = sint (sd_timestamp p) \<longleftrightarrow> sd_timestamp p = t" by (metis signed_word_eqI)
  then show ?case using Cons by (auto simp: add_row_point_entry last_at_def find_append split: option.split)
qed (simp add: last_at_def)

lemma add_points_ok: "rows_ok rows \<Longrightarrow> rows_ok (add_points field pts rows)"
  unfolding add_points_def by (induction pts arbitrary: rows) (simp_all add: add_row_point_ok)

lemma field_rows_entry:
  "row_entry (field_rows (map (\<lambda>f. (f, g f)) names) rows) (sint t) f =
     (if f \<in> set names then (case last_at t (shard_points (g f)) of None \<Rightarrow> row_entry rows (sint t) f | Some p \<Rightarrow> Some p)
      else row_entry rows (sint t) f)"
  unfolding field_rows_def by (induction names arbitrary: rows) (auto simp: add_points_entry split: option.split)

lemma field_rows_ok: "rows_ok rows \<Longrightarrow> rows_ok (field_rows fvs rows)"
  unfolding field_rows_def by (induction fvs arbitrary: rows) (auto simp: add_points_ok)

lemma rows_ok_entry:
  assumes "rows_ok rows"
  shows "(\<exists>row \<in> set (map snd rows). rn_timestamp row = t \<and> map_of (rn_columns row) f = Some p) \<longleftrightarrow> row_entry rows (sint t) f = Some p"
proof
  assume "\<exists>row \<in> set (map snd rows). rn_timestamp row = t \<and> map_of (rn_columns row) f = Some p"
  then obtain k row where r: "(k, row) \<in> set rows" "rn_timestamp row = t" "map_of (rn_columns row) f = Some p" by auto
  then have "k = sint t" using assms by (auto simp: rows_ok_def)
  then have "map_of rows (sint t) = Some row" using r(1) assms by (simp add: rows_ok_def om_ok_map_of)
  then show "row_entry rows (sint t) f = Some p" using r(3) by (simp add: row_entry_def)
next
  assume "row_entry rows (sint t) f = Some p"
  then obtain row where r: "map_of rows (sint t) = Some row" "map_of (rn_columns row) f = Some p"
    by (auto simp: row_entry_def split: option.splits)
  then have i: "(sint t, row) \<in> set rows" by (auto dest: map_of_SomeD)
  then have "rn_timestamp row = t" using assms by (auto simp: rows_ok_def intro!: signed_word_eqI)
  then show "\<exists>row \<in> set (map snd rows). rn_timestamp row = t \<and> map_of (rn_columns row) f = Some p" using i r(2) by force
qed

lemma rows_ok_sorted: "rows_ok rows \<Longrightarrow> sorted_wrt (<) (map (sint \<circ> rn_timestamp) (map snd rows))"
proof -
  assume r: "rows_ok rows"
  then have "map (sint \<circ> rn_timestamp) (map snd rows) = map fst rows" by (auto simp: rows_ok_def)
  then show ?thesis using r by (simp only: rows_ok_def om_ok_def)
qed

text \<open>The points that a query reads of a field in the first shard.\<close>

definition field_points :: "string list \<Rightarrow> (string \<Rightarrow> string \<Rightarrow> single_data list list) \<Rightarrow> string \<Rightarrow> single_data list" where
  "field_points series pts field = shard_points (map (\<lambda>key. new_view (pts field key)) series)"

lemma shard_rows_spec:
  "sorted_wrt (<) (map (sint \<circ> rn_timestamp) (shard_rows names series pts))"
  "(\<exists>row \<in> set (shard_rows names series pts). rn_timestamp row = t \<and> map_of (rn_columns row) f = Some p) \<longleftrightarrow>
     f \<in> set names \<and> last_at t (field_points series pts f) = Some p"
proof -
  have ok: "rows_ok (field_rows (map (\<lambda>field. (field, map (\<lambda>key. new_view (pts field key)) series)) names) [])"
    by (rule field_rows_ok) (simp add: rows_ok_def)
  show "sorted_wrt (<) (map (sint \<circ> rn_timestamp) (shard_rows names series pts))"
    unfolding shard_rows_def by (rule rows_ok_sorted [OF ok])
  have e: "row_entry [] t f = None" for t f by (simp add: row_entry_def)
  show "(\<exists>row \<in> set (shard_rows names series pts). rn_timestamp row = t \<and> map_of (rn_columns row) f = Some p) \<longleftrightarrow>
     f \<in> set names \<and> last_at t (field_points series pts f) = Some p"
    unfolding shard_rows_def rows_ok_entry [OF ok] by (simp add: field_rows_entry e field_points_def split: option.split)
qed

lemma one_block_points:
  "\<forall>key \<in> set series. length (pts field key) \<le> 1 \<Longrightarrow> field_points series pts field = concat (map (\<lambda>key. concat (pts field key)) series)"
proof (induction series)
  case (Cons key series)
  then consider "pts field key = []" | p where "pts field key = [p]" by (cases "pts field key") auto
  then show ?case using Cons by cases (simp_all add: field_points_def new_view_def)
qed (simp add: field_points_def)


section \<open>A query on two shards\<close>

definition demo_query_env :: "(unit, unit) query_env" where
  "demo_query_env = \<lparr>qe_snappy = plain_snappy, qe_get_time = (\<lambda>_. Some ()), qe_mktime = (\<lambda>_. 0), qe_stof = (\<lambda>_. Inr ()),
     qe_float_eq = (\<lambda>_ _. True), qe_float_less = (\<lambda>_ _. False), qe_float_le = (\<lambda>_ _. True), qe_junk_type = String_value\<rparr>"

definition demo_series :: "index_block_meta \<times> index_entry list" where
  "demo_series = (\<lparr>im_key_size = 5, im_key = ''mr=1v'', im_type = DATA_INTEGER, im_count = 1\<rparr>, [create_index_entry 9 7 5 45])"

definition demo_tsm :: string where
  "demo_tsm = pwrite 5 (data_image DATA_INTEGER 2 (calculate_timestamp_size plain_snappy [7, 9]) (calculate_val_size plain_snappy [''1'', ''25'']))
     (replicate 100 NUL @ block_image demo_series @ put_word 8 (100 :: 64 word))"

definition demo_query_disk :: disk where
  "demo_query_disk = \<lparr>files = [demo_path \<mapsto> demo_tsm], dirs = {''./../dbs/db''}\<rparr>"

definition demo_query_writer :: writer where
  "demo_query_writer = (mk_writer ''db'' ''m'' \<lparr>fs_skip_list_state_map = [], fs_index_entry_state_map = []\<rparr> []
      (new_file_path_manager ''tsm'' demo_query_disk) [])
     \<lparr>wr_mea_shard_map := [''2024-05-01'' \<mapsto> demo_shard, ''2024-05-02'' \<mapsto> demo_shard\<lparr>sh_shard_id := ''2024-05-02'', sh_tsm_file := []\<rparr>]\<rparr>"

definition demo_query :: query_controller where
  "demo_query = \<lparr>qc_map = [''db'' \<mapsto> [''m'' \<mapsto> Some demo_query_writer]], qc_file = new_file_path_manager ''tsm'' demo_query_disk,
     qc_index = snd (create_index ''m'' [''r=1''] empty_index)\<rparr>"

definition demo_tag :: "expr_node option" where
  "demo_tag = Some (Expr_node ''='' (Some (Expr_node ''r'' None None)) (Some (Expr_node ''1'' None None)))"

definition demo_read_points :: "single_data list" where
  "demo_read_points = points_of DATA_INTEGER [7, 9] [''1'', ''25'']"

lemma load_tsm_file_db: "load_tsm_file sh n c = Inr (g, c') \<Longrightarrow> tc_db_name c' = tc_db_name c"
  by (auto simp: load_tsm_file_def Let_def res_bind_eq_Inr split: option.splits)

lemma demo_tsm_region: "index_region demo_tsm [demo_series] 100"
proof -
  have "index_region (replicate 100 NUL @ block_image demo_series @ put_word 8 (100 :: 64 word)) [demo_series] 100"
    by (simp add: index_region_def)
  then show ?thesis unfolding demo_tsm_def by (rule index_region_below) (simp add: demo_lengths)
qed

lemma demo_tsm_data: "data_at demo_tsm 5 DATA_INTEGER 2 (calculate_timestamp_size plain_snappy [7, 9]) (calculate_val_size plain_snappy [''1'', ''25''])"
  unfolding demo_tsm_def by (rule data_at_pwrite) (simp_all add: demo_lengths)

lemma demo_shard_ids: "sorted_list_of_set (get_shard_ids demo_query_writer) = [''2024-05-01'', ''2024-05-02'']"
proof -
  have "get_shard_ids demo_query_writer = {''2024-05-01'', ''2024-05-02''}"
    by (auto simp: get_shard_ids_def demo_query_writer_def demo_shard_def)
  moreover have "sorted_list_of_set (set [''2024-05-01'', ''2024-05-02'']) = [''2024-05-01'', ''2024-05-02'']" by code_simp
  ultimately show ?thesis by simp
qed

lemma demo_series_key: "series_key_of ''m'' [''r=1''] = ''mr=1''" "splits_as ''r=1'' ''r'' ''1''"
  by (simp_all add: series_key_of_def splits_as_iff)

lemma demo_intersect: "\<exists>ix. intersect_series ''m'' [(''r'', ''1'')] None (qc_index demo_query) = ({''mr=1''}, ix)"
proof -
  have "series_with (qc_index demo_query) ''m'' ''r'' ''1'' = {''mr=1''}"
    using demo_series_key by (simp add: demo_query_def create_index_series_with series_key_empty_def)
      (simp add: series_with_def empty_index_def)
  then have "fst (get_series_key_by_tag ''m'' (''r'', ''1'') (qc_index demo_query)) = {''mr=1''}"
    by (simp add: get_series_key_by_tag_fst)
  then show ?thesis by (cases "get_series_key_by_tag ''m'' (''r'', ''1'') (qc_index demo_query)") simp
qed

definition demo_index_block :: series_index_block where
  "demo_index_block = \<lparr>sb_tsm_name = ''t.tsm'', sb_index_entries = [create_index_entry 9 7 5 45], sb_index_count = 0, sb_meta = fst demo_series\<rparr>"

lemma demo_block_gives: "block_gives plain_snappy ''db'' {demo_path} demo_query_disk demo_index_block demo_read_points"
  unfolding block_gives_def
  using demo_tsm_data data_ok_decodes [OF demo_data_ok]
  by (intro exI [of _ "create_index_entry 9 7 5 45"] exI [of _ "[]"] exI [of _ demo_tsm] exI [of _ 5] exI [of _ DATA_INTEGER] exI [of _ 2]
        exI [of _ "calculate_timestamp_size plain_snappy [7, 9]"] exI [of _ "calculate_val_size plain_snappy [''1'', ''25'']"]
        exI [of _ "[7, 9]"] exI [of _ "[''1'', ''25'']"])
       (simp add: demo_index_block_def create_index_entry_def demo_path_def demo_query_disk_def named_type_def demo_read_points_def)

lemma demo_load:
  "\<exists>c. load_indexes ''db'' ''m'' (demo_query\<lparr>qc_index := ix\<rparr>) [''2024-05-01'', ''2024-05-02''] (new_tsm_io_center ''db'' ''m'' demo_query_disk) = Inr c \<and>
     center_at ''db'' {demo_path} demo_query_disk c \<and> tc_tsm_index c = add_series_block ''2024-05-01'' ''t.tsm'' demo_series Map.empty"
proof -
  let ?c = "new_tsm_io_center ''db'' ''m'' demo_query_disk"
  have ready: "io_ready {demo_path} (tc_io_manager ?c)"
    unfolding new_tsm_io_center_def tsm_io_center.select_convs by (rule mk_file_io_ready) (auto simp: demo_query_disk_def)
  have disk: "io_disk (tc_io_manager ?c) = demo_query_disk" by (simp add: new_tsm_io_center_def)
  have ok: "\<forall>b \<in> set [demo_series]. block_ok b" by (simp add: block_ok_def meta_ok_def demo_series_def named_type_def)
  have "yields (load_tsm_file demo_shard ''t.tsm'' ?c) (\<lambda>(go_on, c'). go_on \<and> io_ready {demo_path} (tc_io_manager c') \<and>
    io_disk (tc_io_manager c') = io_disk (tc_io_manager ?c) \<and>
    tc_tsm_index c' = fold (add_series_block (sh_shard_id demo_shard) ''t.tsm'') [demo_series] (tc_tsm_index ?c))"
    by (rule load_tsm_file_region [OF ready _ singletonI _ demo_tsm_region ok])
       (simp_all only: disk, simp_all add: demo_path_def demo_shard_def demo_query_disk_def)
  then obtain c where c: "load_tsm_file demo_shard ''t.tsm'' ?c = Inr (True, c)" "io_ready {demo_path} (tc_io_manager c)"
      "io_disk (tc_io_manager c) = demo_query_disk" "tc_tsm_index c = add_series_block ''2024-05-01'' ''t.tsm'' demo_series Map.empty"
    by (auto simp: yields_def disk demo_shard_def) (simp add: new_tsm_io_center_def)
  have "tc_db_name c = ''db''" using load_tsm_file_db [OF c(1)] by (simp add: new_tsm_io_center_def)
  moreover have "load_tsm_index_entry demo_shard ?c = Inr c"
    using c(1) by (simp add: load_tsm_index_entry_def demo_shard_def)
  ultimately show ?thesis using c
    by (simp add: writer_of_def demo_query_def get_shard_def demo_query_writer_def load_tsm_index_entry_def [of "_ \<lparr>sh_tsm_file := _\<rparr>"] center_at_def)
qed

section \<open>The series of a query\<close>

definition tagged_series :: "(string \<times> string list) list \<Rightarrow> string \<Rightarrow> (string \<times> string) set \<Rightarrow> string set" where
  "tagged_series ops m tags = {series_key_of m ts | ts. (m, ts) \<in> set ops \<and> (\<forall>(k, v) \<in> tags. k @ CHR ''='' # v \<in> set ts)}"

lemma lookup_tagged:
  assumes "keys_distinguish (set ops)" "CHR ''='' \<notin> set k" "series_with ix = series_with (create_indexes ops empty_index)"
  shows "fst (get_series_key_by_tag m (k, v) ix) = tagged_series ops m {(k, v)}"
proof -
  have "(\<exists>tag \<in> set ts. splits_as tag k v) \<longleftrightarrow> k @ CHR ''='' # v \<in> set ts" for ts
    using assms(2) by (auto simp: splits_as_iff)
  then show ?thesis
    unfolding get_series_key_by_tag_fst assms(3) fst_conv snd_conv create_indexes_series [OF assms(1)] tagged_series_def by simp
qed

lemma tagged_series_inter:
  assumes "keys_distinguish (set ops)"
  shows "tagged_series ops m A \<inter> tagged_series ops m B = tagged_series ops m (A \<union> B)"
proof -
  have same: "set ts = set ts'" if t: "(m, ts) \<in> set ops" "(m, ts') \<in> set ops" "series_key_of m ts = series_key_of m ts'" for ts ts'
    using assms t unfolding keys_distinguish_def by blast
  have "tagged_series ops m A \<inter> tagged_series ops m B \<subseteq> tagged_series ops m (A \<union> B)"
  proof
    fix x assume "x \<in> tagged_series ops m A \<inter> tagged_series ops m B"
    then obtain ts ts' where x: "x = series_key_of m ts" "(m, ts) \<in> set ops" "\<forall>(k, v) \<in> A. k @ CHR ''='' # v \<in> set ts"
        "x = series_key_of m ts'" "(m, ts') \<in> set ops" "\<forall>(k, v) \<in> B. k @ CHR ''='' # v \<in> set ts'"
      unfolding tagged_series_def by blast
    have "set ts = set ts'" using same [OF x(2,5)] x(1,4) by simp
    then show "x \<in> tagged_series ops m (A \<union> B)" unfolding tagged_series_def using x by blast
  qed
  then show ?thesis unfolding tagged_series_def by blast
qed

lemma intersect_tagged:
  assumes "keys_distinguish (set ops)"
  shows "series_with ix = series_with (create_indexes ops empty_index) \<Longrightarrow> \<forall>(k, v) \<in> set tags. CHR ''='' \<notin> set k \<Longrightarrow>
    fst (intersect_series m tags (Some (tagged_series ops m S)) ix) = tagged_series ops m (S \<union> set tags)"
proof (induction tags arbitrary: ix S)
  case (Cons tag tags)
  obtain k v where tag: "tag = (k, v)" by (cases tag)
  let ?r = "get_series_key_by_tag m (k, v) ix"
  have 1: "fst ?r = tagged_series ops m {(k, v)}"
    using lookup_tagged [OF assms _ Cons.prems(1), of k m v] Cons.prems(2) tag by simp
  have 2: "series_with (snd ?r) = series_with (create_indexes ops empty_index)"
    using Cons.prems(1) by (simp add: get_series_key_by_tag_keeps)
  have "fst (intersect_series m (tag # tags) (Some (tagged_series ops m S)) ix) =
      fst (intersect_series m tags (Some (tagged_series ops m (S \<union> {(k, v)}))) (snd ?r))"
    by (simp add: tag case_prod_beta 1 tagged_series_inter [OF assms])
  also have "\<dots> = tagged_series ops m (S \<union> {(k, v)} \<union> set tags)"
    using Cons.IH [OF 2, of "S \<union> {(k, v)}"] Cons.prems(2) by simp
  finally show ?case by (simp add: tag)
qed simp

text \<open>
  C5. Several tags select exactly the series that carry all of them: for an index made by insertions that
  have different series keys, the intersection of the look-ups gives the keys of those series of the
  measurement whose list of tags contains every tag of the query.
\<close>

theorem tag_intersection_exact:
  assumes "keys_distinguish (set ops)" "tags \<noteq> []" "\<forall>(k, v) \<in> set tags. CHR ''='' \<notin> set k"
  shows "fst (intersect_series m tags None (create_indexes ops empty_index)) =
    {series_key_of m ts | ts. (m, ts) \<in> set ops \<and> (\<forall>(k, v) \<in> set tags. k @ CHR ''='' # v \<in> set ts)}"
proof (cases tags)
  case (Cons tag more)
  let ?ix = "create_indexes ops empty_index"
  obtain k v where tag: "tag = (k, v)" by (cases tag)
  let ?r = "get_series_key_by_tag m (k, v) ?ix"
  have first: "fst ?r = tagged_series ops m {(k, v)}"
    using lookup_tagged [OF assms(1), of k ?ix m v] assms(3) Cons tag by simp
  have "fst (intersect_series m more (Some (fst ?r)) (snd ?r)) = tagged_series ops m (insert (k, v) (set more))"
    using intersect_tagged [OF assms(1), of "snd ?r" more m "{(k, v)}"] assms(3) Cons tag first
    by (simp add: get_series_key_by_tag_keeps)
  then show ?thesis using Cons tag by (simp add: case_prod_beta tagged_series_def)
qed (use assms(2) in simp)

theorem tag_intersection_exact_witness:
  "fst (intersect_series ''m'' [(''a'', ''1''), (''b'', ''2'')] None
     (create_indexes [(''m'', [''b=2'', ''a=1'']), (''m'', [''a=1'']), (''n'', [''a=1'', ''b=2''])] empty_index)) = {''ma=1b=2''}"
proof -
  have k: "series_key_of ''m'' [''b=2'', ''a=1''] = ''ma=1b=2''" "series_key_of ''m'' [''a=1''] = ''ma=1''"
    "series_key_of ''n'' [''a=1'', ''b=2''] = ''na=1b=2''" by code_simp+
  then have "keys_distinguish (set [(''m'', [''b=2'', ''a=1'']), (''m'', [''a=1'']), (''n'', [''a=1'', ''b=2''])])"
    by (simp add: keys_distinguish_def)
  from tag_intersection_exact [OF this, of "[(''a'', ''1''), (''b'', ''2'')]" "''m''"] show ?thesis
    by (auto simp: k intro!: exI [of _ "[''b=2'', ''a=1'']"])
qed

section \<open>Queries that return something, and those that do not\<close>

text \<open>
  C4. A query reads the first matching shard and no other: its rows are those rows of that shard that satisfy
  the condition, in the order of their time, one per time stamp; a row has for each queried field the
  last point with that time that was read. What the later shards \<open>is\<close> hold does not matter.
\<close>

theorem query_first_shard:
  assumes "rebuild_tree_without_tags (qc_index q) m expr [] = Inr (expr', tags)"
    "filter_shards env db m expr' q = Inr (i # is)" "query_fields db m reduce q = Inr names" "names \<noteq> []"
    "intersect_series m tags None (qc_index q) = (S, ix)"
    "load_indexes db m (q\<lparr>qc_index := ix\<rparr>) (i # is) (new_tsm_io_center db m (fp_disk (qc_file q))) = Inr c" "center_at db P d c"
    "shard_gives (qe_snappy env) db P d c names (sorted_list_of_set S) i pts"
    "rows_evaluate env expr' (shard_rows names (sorted_list_of_set S) pts)"
  shows "\<exists>rows. analytic_expr_tree env db m reduce expr q = Inr (filter (row_holds env expr') rows, q\<lparr>qc_index := ix\<rparr>) \<and>
    sorted_wrt (<) (map (sint \<circ> rn_timestamp) rows) \<and>
    (\<forall>t f p. (\<exists>row \<in> set rows. rn_timestamp row = t \<and> map_of (rn_columns row) f = Some p) =
      (f \<in> set names \<and> last_at t (field_points (sorted_list_of_set S) pts f) = Some p))"
  by (intro exI [of _ "shard_rows names (sorted_list_of_set S) pts"] conjI allI query_rows [OF assms] shard_rows_spec)

theorem query_first_shard_witness:
  "\<exists>rows q. analytic_expr_tree demo_query_env ''db'' ''m'' [(''v'', [])] demo_tag demo_query = Inr (rows, q) \<and>
    (\<exists>row \<in> set rows. rn_timestamp row = 9 \<and> map_of (rn_columns row) ''v'' = Some \<lparr>sd_timestamp = 9, sd_data = ''25'', sd_type = Integer_value\<rparr>)"
proof -
  let ?pts = "\<lambda>_ _. [demo_read_points]"
  obtain ix where ix: "intersect_series ''m'' [(''r'', ''1'')] None (qc_index demo_query) = ({''mr=1''}, ix)" using demo_intersect by blast
  obtain c where c: "load_indexes ''db'' ''m'' (demo_query\<lparr>qc_index := ix\<rparr>) [''2024-05-01'', ''2024-05-02'']
        (new_tsm_io_center ''db'' ''m'' (fp_disk (qc_file demo_query))) = Inr c"
      "center_at ''db'' {demo_path} demo_query_disk c" "tc_tsm_index c = add_series_block ''2024-05-01'' ''t.tsm'' demo_series Map.empty"
    using demo_load by (auto simp: demo_query_def new_file_path_manager_def)
  have "whether_tag ''m'' ''r'' (qc_index demo_query)" unfolding demo_query_def query_controller.select_convs by code_simp
  then have tree: "rebuild_tree_without_tags (qc_index demo_query) ''m'' demo_tag [] = Inr (None, [(''r'', ''1'')])"
    by (simp add: demo_tag_def is_tag_comparison_def val_of_def)
  have shards: "filter_shards demo_query_env ''db'' ''m'' None demo_query = Inr [''2024-05-01'', ''2024-05-02'']"
    by (simp add: filter_shards_def demo_query_def demo_shard_ids)
  have blocks: "blocks_of c ''2024-05-01'' ''mr=1v'' = [demo_index_block]"
    by (simp add: blocks_of_def c(3) add_series_block_def Let_def) (simp add: demo_index_block_def demo_series_def)
  have gives: "shard_gives (qe_snappy demo_query_env) ''db'' {demo_path} demo_query_disk c [''v''] (sorted_list_of_set {''mr=1''}) ''2024-05-01'' ?pts"
    using demo_block_gives by (simp add: shard_gives_def blocks demo_query_env_def) (simp add: demo_read_points_def points_of_def)
  have ev: "rows_evaluate demo_query_env None (shard_rows [''v''] (sorted_list_of_set {''mr=1''}) ?pts)" by (auto simp: rows_evaluate_def)
  have holds: "filter (row_holds demo_query_env None) rows = rows" for rows by (simp add: row_holds_def)
  have "last_at 9 (field_points (sorted_list_of_set {''mr=1''}) ?pts ''v'') = Some \<lparr>sd_timestamp = 9, sd_data = ''25'', sd_type = Integer_value\<rparr>"
    by (simp add: field_points_def new_view_def demo_read_points_def points_of_def last_at_def single_type_of_def)
  with query_first_shard [OF tree shards _ _ ix c(1,2) gives ev, of "[(''v'', [])]"] show ?thesis
    unfolding holds by (auto simp: query_fields_def)
qed

text \<open>
  A series with several blocks stops the load: the test for a further block compares the number of points read with
  the number of blocks, so that a first block with at least as many points as there are blocks is the
  last one read of its series, and no series behind it is read at all.
\<close>

theorem long_series_hides_rest:
  assumes "field_sees sn db P d f (new_view (p # q # ps) # vs)" "center_at db P d c" "length ps + 2 \<le> length p"
  shows "\<exists>f' c'. load_field sn f c rows has_data = Inr (f', c', add_points (fd_field f) p rows, True)"
proof -
  have "shard_points (new_view (p # q # ps) # vs) = p" using assms(3) by (simp add: new_view_def)
  moreover have "p \<noteq> []" using assms(3) by auto
  ultimately show ?thesis using load_field_ready [OF assms(1,2), of rows has_data] by (auto simp: yields_def)
qed

theorem long_series_hides_rest_witness:
  "\<exists>f c. load_field plain_snappy
      \<lparr>fd_field = ''v'', fd_shards = [\<lparr>hi_tag_sets = [new_tag_set_iterator String_value ''mr=1'' [demo_index_block, demo_index_block],
         new_tag_set_iterator String_value ''mr=2'' [demo_index_block]], hi_index = 0\<rparr>], fd_index = 0\<rparr>
      (new_tsm_io_center ''db'' ''m'' demo_query_disk) [] False = Inr (f, c, add_points ''v'' demo_read_points [], True)"
proof -
  let ?h = "\<lparr>hi_tag_sets = [new_tag_set_iterator String_value ''mr=1'' [demo_index_block, demo_index_block],
     new_tag_set_iterator String_value ''mr=2'' [demo_index_block]], hi_index = 0\<rparr>"
  have "io_ready {demo_path} (mk_file_io 8 demo_query_disk)" by (rule mk_file_io_ready) (auto simp: demo_query_disk_def)
  then have c: "center_at ''db'' {demo_path} demo_query_disk (new_tsm_io_center ''db'' ''m'' demo_query_disk)"
    by (simp add: center_at_def new_tsm_io_center_def)
  have len: "length demo_read_points = 2" by (simp add: demo_read_points_def points_of_def)
  then have ne: "demo_read_points \<noteq> []" by auto
  have "field_sees plain_snappy ''db'' {demo_path} demo_query_disk \<lparr>fd_field = ''v'', fd_shards = [?h], fd_index = 0\<rparr>
      (new_view [demo_read_points, demo_read_points] # [new_view [demo_read_points]])"
    using demo_block_gives ne
    by (auto simp: field_sees_def shard_sees_def intro!: new_view_sees) (auto simp: view_ok_def new_view_def)
  from long_series_hides_rest [OF this c] len show ?thesis by simp
qed

lemma no_shard_no_rows:
  assumes "rebuild_tree_without_tags (qc_index q) m expr [] = Inr (expr', tags)" "filter_shards env db m expr' q = Inr []"
    "query_fields db m reduce q = Inr names"
  shows "\<exists>q'. analytic_expr_tree env db m reduce expr q = Inr ([], q')"
proof -
  obtain S ix where ix: "intersect_series m tags None (qc_index q) = (S, ix)" by fastforce
  let ?fs = "map (field_iterator_of (qe_junk_type env) (new_tsm_io_center db m (fp_disk (qc_file q))) (sorted_list_of_set S) []) names"
  let ?root = "(new_root_iterator db m (fp_disk (qc_file q)))\<lparr>ri_fields := ?fs\<rparr>"
  have create: "create_iterator_tree env db m names [] tags q = Inr (?root, q\<lparr>qc_index := ix\<rparr>)"
    using ix by (simp add: create_iterator_tree_def new_root_iterator_def)
  have "\<not> list_ex fst (map field_move_to_next_shard ?fs)"
    by (auto simp: list_ex_iff field_move_to_next_shard_def field_iterator_of_def)
  then have "\<exists>r'. scan_rows env expr' [] ?root = Inr ([], r')"
    by (subst scan_rows.simps) (simp add: root_has_next_def new_root_iterator_def move_to_next_shard_def Let_def)
  then show ?thesis using assms create by (auto simp: analytic_expr_tree_def)
qed

lemma filter_shard_ids_none:
  "\<forall>i \<in> set is. evaluate_condition env i expr = Inr False \<Longrightarrow> filter_shard_ids env expr is = Inr []"
  by (induction "is") simp_all

lemma filter_shards_none:
  assumes "\<And>i. i \<in> ids \<Longrightarrow> evaluate_condition env i expr = Inr False"
    "qc_map q db = Some tables" "tables m = Some (Some w)" "get_shard_ids w \<subseteq> ids"
  shows "filter_shards env db m expr q = Inr []"
proof -
  have "filter_shard_ids env expr (sorted_list_of_set (get_shard_ids w)) = Inr []"
  proof (rule filter_shard_ids_none, rule ballI)
    fix i assume i: "i \<in> set (sorted_list_of_set (get_shard_ids w))"
    then have "i \<in> get_shard_ids w" by (cases "finite (get_shard_ids w)") simp_all
    then show "evaluate_condition env i expr = Inr False" using assms(1,4) by blast
  qed
  then show ?thesis using assms(2,3) by (simp add: filter_shards_def)
qed

text \<open>A condition on a field, alone or joined by \<open>and\<close> with others.\<close>

fun has_field_condition :: "expr_node option \<Rightarrow> bool" where
  "has_field_condition None = False"
| "has_field_condition (Some (Expr_node v l r)) =
     (is_comparison v \<and> (\<exists>f. val_of l = Inr f \<and> f \<noteq> ''time'') \<or>
      v = ''and'' \<and> (has_field_condition l \<or> has_field_condition r))"

lemma field_condition_false:
  "has_field_condition expr \<Longrightarrow> evaluate_condition env i expr = Inr b \<Longrightarrow> \<not> b"
proof (induction expr arbitrary: b rule: has_field_condition.induct)
  case (2 v l r)
  show ?case
  proof (cases "is_comparison v")
    case True
    then have v: "v \<noteq> ''and''" by (auto simp: is_comparison_def)
    then obtain f where "val_of l = Inr f" "f \<noteq> ''time''" using 2(3) by auto
    then show ?thesis using True 2(4) by (auto simp: evaluate_shard_def res_bind_eq_Inr)
  next
    case False
    then have v: "v = ''and''" "has_field_condition l \<or> has_field_condition r" using 2(3) by auto
    then obtain b1 b2 where "evaluate_condition env i l = Inr b1" "evaluate_condition env i r = Inr b2" "b = (b1 \<and> b2)"
      using 2(4) False by (auto simp: is_logical_def res_bind_eq_Inr)
    then show ?thesis using 2(1,2) v by auto
  qed
qed simp

text \<open>
  A condition on a field, alone or in a conjunction, makes a query return nothing: no shard passes it, since a
  comparison of anything but the time counts as false when the shards are chosen.
\<close>

theorem field_condition_returns_nothing:
  assumes "rebuild_tree_without_tags (qc_index q) m expr [] = Inr (expr', tags)" "has_field_condition expr'"
    "qc_map q db = Some tables" "tables m = Some (Some w)" "query_fields db m reduce q = Inr names"
    "\<And>i. i \<in> get_shard_ids w \<Longrightarrow> \<exists>b. evaluate_condition env i expr' = Inr b"
  shows "\<exists>q'. analytic_expr_tree env db m reduce expr q = Inr ([], q')"
proof (rule no_shard_no_rows [OF assms(1) _ assms(5)])
  have "evaluate_condition env i expr' = Inr False" if "i \<in> get_shard_ids w" for i
    using assms(6) [OF that] field_condition_false [OF assms(2), of env i] by auto
  then show "filter_shards env db m expr' q = Inr []" by (rule filter_shards_none [OF _ assms(3,4) subset_refl])
qed

theorem field_condition_returns_nothing_witness:
  "\<exists>q. analytic_expr_tree demo_query_env ''db'' ''m'' [(''v'', [])]
     (Some (Expr_node ''>'' (Some (Expr_node ''v'' None None)) (Some (Expr_node ''5'' None None)))) demo_query = Inr ([], q)"
proof (rule field_condition_returns_nothing)
  let ?e = "Some (Expr_node ''>'' (Some (Expr_node ''v'' None None)) (Some (Expr_node ''5'' None None)))"
  show "rebuild_tree_without_tags (qc_index demo_query) ''m'' ?e [] = Inr (?e, [])" by (simp add: is_tag_comparison_def)
  show "has_field_condition ?e" by (simp add: is_comparison_def val_of_def)
  show "qc_map demo_query ''db'' = Some [''m'' \<mapsto> Some demo_query_writer]" "[''m'' \<mapsto> Some demo_query_writer] ''m'' = Some (Some demo_query_writer)"
    by (simp_all add: demo_query_def)
  show "query_fields ''db'' ''m'' [(''v'', [])] demo_query = Inr [''v'']" by (simp add: query_fields_def)
  show "\<exists>b. evaluate_condition demo_query_env i ?e = Inr b" for i
    by (auto simp: is_comparison_def evaluate_shard_def parse_timestamp_def demo_query_env_def val_of_def)
qed

text \<open>
  Without a condition on a tag a query returns nothing: the series of a query are those that the tags select,
  and with no tag there is none, whatever is stored.
\<close>

theorem query_without_tags_returns_nothing:
  assumes "rebuild_tree_without_tags (qc_index q) m expr [] = Inr (expr', [])" "filter_shards env db m expr' q = Inr ids"
    "query_fields db m reduce q = Inr names" "names \<noteq> []"
    "load_indexes db m q ids (new_tsm_io_center db m (fp_disk (qc_file q))) = Inr c" "center_at db P d c"
  shows "\<exists>q'. analytic_expr_tree env db m reduce expr q = Inr ([], q')"
proof (cases ids)
  case Nil
  then show ?thesis using no_shard_no_rows [OF assms(1) _ assms(3)] assms(2) by simp
next
  case (Cons i "is")
  have keep_index: "q\<lparr>qc_index := qc_index q\<rparr> = q" by simp
  have rows: "shard_rows names (sorted_list_of_set {}) pts = []" for pts
    unfolding shard_rows_def by (subst field_rows_empty) auto
  have "analytic_expr_tree env db m reduce expr q =
      Inr (filter (row_holds env expr') (shard_rows names (sorted_list_of_set {}) (\<lambda>_ _. [])), q\<lparr>qc_index := qc_index q\<rparr>)"
  proof (rule query_rows [OF assms(1) assms(2) [unfolded Cons] assms(3,4)])
    show "intersect_series m [] None (qc_index q) = ({}, qc_index q)" by simp
    show "load_indexes db m (q\<lparr>qc_index := qc_index q\<rparr>) (i # is) (new_tsm_io_center db m (fp_disk (qc_file q))) = Inr c"
      using assms(5) unfolding Cons keep_index .
    show "center_at db P d c" by (rule assms(6))
    show "shard_gives (qe_snappy env) db P d c names (sorted_list_of_set {}) i (\<lambda>_ _. [])" by (simp add: shard_gives_def)
    show "rows_evaluate env expr' (shard_rows names (sorted_list_of_set {}) (\<lambda>_ _. []))" unfolding rows by (simp add: rows_evaluate_def)
  qed
  then show ?thesis unfolding rows by simp
qed

theorem query_without_tags_returns_nothing_witness:
  "\<exists>q. analytic_expr_tree demo_query_env ''db'' ''m'' [(''v'', [])] None demo_query = Inr ([], q)"
proof -
  have keep: "demo_query\<lparr>qc_index := qc_index demo_query\<rparr> = demo_query" by simp
  obtain c where c: "load_indexes ''db'' ''m'' demo_query [''2024-05-01'', ''2024-05-02''] (new_tsm_io_center ''db'' ''m'' (fp_disk (qc_file demo_query))) = Inr c"
      "center_at ''db'' {demo_path} demo_query_disk c"
    using demo_load [of "qc_index demo_query"] unfolding keep by (auto simp: demo_query_def new_file_path_manager_def)
  have shards: "filter_shards demo_query_env ''db'' ''m'' None demo_query = Inr [''2024-05-01'', ''2024-05-02'']"
    by (simp add: filter_shards_def demo_query_def demo_shard_ids)
  have names: "query_fields ''db'' ''m'' [(''v'', [])] demo_query = Inr [''v'']" "[''v''] \<noteq> []" by (simp_all add: query_fields_def)
  show ?thesis by (rule query_without_tags_returns_nothing [OF _ shards names c]) simp
qed

lemma rebuild_tag:
  "is_tag_comparison ix m (Some n) = Inr True \<Longrightarrow> rebuild_tree_without_tags ix m (Some n) tags =
    res_bind (val_of (en_left n)) (\<lambda>k. res_bind (val_of (en_right n)) (\<lambda>x. Inr (None, tags @ [(k, x)])))"
  by (cases n) simp

text \<open>
  A disjunction of two tags is answered like their conjunction: both are taken out of the tree into the
  one list of tags whose series are intersected.
\<close>

theorem tag_or_is_and:
  assumes "is_tag_comparison (qc_index q) m (Some a) = Inr True" "is_tag_comparison (qc_index q) m (Some b) = Inr True"
  shows "analytic_expr_tree env db m reduce (Some (Expr_node ''or'' (Some a) (Some b))) q =
    analytic_expr_tree env db m reduce (Some (Expr_node ''and'' (Some a) (Some b))) q"
proof -
  have "rebuild_tree_without_tags (qc_index q) m (Some (Expr_node ''or'' (Some a) (Some b))) [] =
      rebuild_tree_without_tags (qc_index q) m (Some (Expr_node ''and'' (Some a) (Some b))) []"
    by (simp add: is_tag_comparison_def [of _ _ "Some (Expr_node v l r)" for v l r]) (simp add: rebuild_tag [OF assms(1)] rebuild_tag [OF assms(2)] res_bind_assoc)
  then show ?thesis by (simp add: analytic_expr_tree_def)
qed

theorem tag_or_is_and_witness:
  "analytic_expr_tree demo_query_env ''db'' ''m'' [] (Some (Expr_node ''or'' demo_tag demo_tag)) demo_query =
   analytic_expr_tree demo_query_env ''db'' ''m'' [] (Some (Expr_node ''and'' demo_tag demo_tag)) demo_query"
proof -
  have "is_tag_comparison (qc_index demo_query) ''m'' demo_tag = Inr True"
    unfolding demo_query_def query_controller.select_convs by code_simp
  then show ?thesis unfolding demo_tag_def by (intro tag_or_is_and)
qed

text \<open>
  A number on the right of a comparison is lost when the condition is turned into a tree, and the query then goes
  through a null pointer.
\<close>

theorem number_condition_null:
  assumes "is_comparison op" "tok_type t \<noteq> TOKEN_STRING" "tok_type nt \<noteq> TOKEN_STRING" "map_of (rn_columns row) f \<noteq> None \<or> f = ''time''"
  shows "\<exists>tree. convert_to_new_tree (Some (Infix_node t op (Some (String_node (mk_token TOKEN_STRING f) f)) (Some (Integer_node nt n)))) = Inr tree \<and>
      evaluate_expr_node_for_row env tree row = Inl Null_deref"
proof -
  have "op \<noteq> ''and'' \<and> op \<noteq> ''or''" using assms(1) by (auto simp: is_comparison_def)
  then have "evaluate_expr_node_for_row env (Some (Expr_node op (Some (Expr_node f None None)) None)) row = Inl Null_deref"
    using assms(4) by (auto simp: val_of_def)
  then show ?thesis using assms(2,3) by simp
qed

theorem number_condition_null_witness:
  "\<exists>tree. convert_to_new_tree (Some (Infix_node (mk_token TOKEN_GT ''>'') ''>'' (Some (String_node (mk_token TOKEN_STRING ''v'') ''v''))
      (Some (Integer_node (mk_token TOKEN_INTEGER ''5'') 5)))) = Inr tree \<and>
   evaluate_expr_node_for_row demo_query_env tree
      \<lparr>rn_timestamp = 9, rn_columns = [(''v'', \<lparr>sd_timestamp = 9, sd_data = ''25'', sd_type = Integer_value\<rparr>)]\<rparr> = Inl Null_deref"
  by (rule number_condition_null) (simp_all add: is_comparison_def mk_token_def)

end
