(* ===== verification/Controller.thy ===== *)
theory Controller
  imports Query Write_Safety
begin

text \<open>
  The controller of the engine (\<open>src/engine/tsm/controller.h\<close>, \<open>controller.cpp\<close>): the writers of all
  tables, the path manager, the three observers, the inverted index, and the two thread pools through
  which everything runs.

  The path manager, the observers and the clock are shared: the writers hold pointers to them. Here the
  controller owns them, \<open>lend\<close> puts their current value into a writer for the time of a call and
  \<open>take_back\<close> takes them out again. A pool is its queue of tasks; a task runs as a whole, and which pool
  runs next is open (\<open>ctl_step\<close>). A writer is reached through a shared pointer that may be null,
  which \<open>operator[]\<close> puts there for a table it does not know.
\<close>

section \<open>State\<close>

datatype ctl_task =
    Insert_task time_point string string data_type string string string bool
  | Index_task string "string list"
  | Query_task string string "(string \<times> string) list" "expr_node option"
  | Disk_write_task string string
  | Flush_meta_task

record controller =
  ct_map :: "(string, (string, writer option) omap) omap"
  ct_producer :: "ctl_task list"
  ct_consumer :: "ctl_task list"
  ct_file :: file_path_manager
  ct_field_state :: field_state
  ct_table_state :: table_map
  ct_shard_state :: shard_state
  ct_index :: index_state
  ct_mea_map :: "string \<rightharpoonup> (string \<rightharpoonup> string set)"
  ct_rows :: "row_node list"
  ct_clock :: nat

text \<open>
  What the controller takes from outside, beside the parameters of the writers and of the queries: the
  text form of a shard that protobuf makes, its parser, the order of a hash map with the given
  keys, and \<open>get_time\<close> with the format \<open>%Y-%m-%d\<close>.
\<close>

record ('tm, 'f) ctl_env =
  ce_write :: write_env
  ce_query :: "('tm, 'f) query_env"
  ce_serialize :: "shard \<Rightarrow> string"
  ce_parse :: "string \<Rightarrow> shard"
  ce_order :: "string set \<Rightarrow> string list"
  ce_get_date :: "string \<Rightarrow> 'tm option"

definition find_writer :: "string \<Rightarrow> string \<Rightarrow> controller \<Rightarrow> writer option option" where
  "find_writer db_name tb_name c = (case map_of (ct_map c) db_name of None \<Rightarrow> None | Some tables \<Rightarrow> map_of tables tb_name)"

definition put_writer :: "string \<Rightarrow> string \<Rightarrow> writer option \<Rightarrow> controller \<Rightarrow> controller" where
  "put_writer db_name tb_name w c =
     c\<lparr>ct_map := om_put db_name (om_put tb_name w (om_at [] db_name (ct_map c))) (ct_map c)\<rparr>"

definition lend :: "controller \<Rightarrow> writer \<Rightarrow> writer" where
  "lend c w = w\<lparr>fw_field_state := ct_field_state c, fw_table_state := ct_table_state c, wr_files := ct_file c,
     wr_shard_observers := map (\<lambda>_. ct_shard_state c) (wr_shard_observers w), wr_clock := ct_clock c\<rparr>"

text \<open>The controller attaches itself to a writer once, so that there is one observer to take back.\<close>

definition take_back :: "writer \<Rightarrow> controller \<Rightarrow> controller" where
  "take_back w c = c\<lparr>ct_field_state := fw_field_state w, ct_table_state := fw_table_state w, ct_file := wr_files w,
     ct_shard_state := (case wr_shard_observers w of [] \<Rightarrow> ct_shard_state c | s # _ \<Rightarrow> s), ct_clock := wr_clock w\<rparr>"

definition on_writer :: "string \<Rightarrow> string \<Rightarrow> (writer \<Rightarrow> ('a \<times> writer) result) \<Rightarrow> controller \<Rightarrow> ('a \<times> controller) result" where
  "on_writer db_name tb_name op c =
     (case find_writer db_name tb_name c of
        Some (Some w) \<Rightarrow> res_bind (op (lend c w)) (\<lambda>(r, w). Inr (r, put_writer db_name tb_name (Some w) (take_back w c)))
      | _ \<Rightarrow> Inl Null_deref)"

section \<open>Databases, tables and fields\<close>

definition ctl_create_database :: "string \<Rightarrow> controller \<Rightarrow> bool \<times> controller" where
  "ctl_create_database db_name c =
     (let (path, fp) = create_database db_name (ct_file c) in (path \<noteq> [], c\<lparr>ct_file := fp\<rparr>))"

definition mea_field_exist :: "string \<Rightarrow> string \<Rightarrow> string \<Rightarrow> controller \<Rightarrow> bool" where
  "mea_field_exist db_name tb_name field c \<longleftrightarrow> field \<in> or_empty (or_no_map (ct_mea_map c db_name) tb_name)"

definition set_mea_fields :: "string \<Rightarrow> string \<Rightarrow> string set \<Rightarrow> controller \<Rightarrow> controller" where
  "set_mea_fields db_name tb_name names c =
     c\<lparr>ct_mea_map := (ct_mea_map c)(db_name \<mapsto> (or_no_map (ct_mea_map c db_name))(tb_name \<mapsto> names))\<rparr>"

definition add_field :: "string \<Rightarrow> string \<Rightarrow> string \<Rightarrow> controller \<Rightarrow> controller" where
  "add_field db_name tb_name field c =
     set_mea_fields db_name tb_name (insert field (or_empty (or_no_map (ct_mea_map c db_name) tb_name))) c"

fun load_table_fields :: "string \<Rightarrow> string list \<Rightarrow> controller \<Rightarrow> controller result" where
  "load_table_fields db_name [] c = Inr c"
| "load_table_fields db_name (tb_name # tables) c =
     (if or_no_map (ct_mea_map c db_name) tb_name \<noteq> None then load_table_fields db_name tables c
      else res_bind (load_mea_fields db_name tb_name (ct_file c)) (\<lambda>names.
             load_table_fields db_name tables (set_mea_fields db_name tb_name names c)))"

definition ctl_load_database :: "string \<Rightarrow> string list \<Rightarrow> controller \<Rightarrow> (bool \<times> controller) result" where
  "ctl_load_database db_name tables c =
     res_bind (load_table_fields db_name tables c) (\<lambda>c.
       let (r, fp) = load_database db_name tables (ct_file c) in Inr (r, c\<lparr>ct_file := fp\<rparr>))"

definition ctl_show_table :: "string \<Rightarrow> controller \<Rightarrow> (string set \<times> controller) result" where
  "ctl_show_table db_name c = res_bind (show_data db_name (ct_file c)) (\<lambda>(r, fp). Inr (r, c\<lparr>ct_file := fp\<rparr>))"

definition on_file :: "(file_path_manager \<Rightarrow> ('a \<times> file_path_manager) result) \<Rightarrow> controller \<Rightarrow> ('a \<times> controller) result" where
  "on_file op c = res_bind (op (ct_file c)) (\<lambda>(r, fp). Inr (r, c\<lparr>ct_file := fp\<rparr>))"

definition ctl_create_table :: "string \<Rightarrow> string \<Rightarrow> controller \<Rightarrow> (bool \<times> controller) result" where
  "ctl_create_table tb_name db_name c =
     (if exists_table db_name tb_name (ct_file c) then Inr (False, c) else on_file (create_table tb_name db_name) c)"

definition ctl_sys_show_file :: "string \<Rightarrow> string \<Rightarrow> controller \<Rightarrow> (bool \<times> controller) result" where
  "ctl_sys_show_file db_name tb_name c =
     (if exists_table db_name tb_name (ct_file c) then on_file (sys_show_file db_name tb_name) c else Inr (False, c))"

text \<open>\<open>stoi\<close> gives a signed number of 32 bits, which is widened.\<close>

definition ctl_sys_update_file :: "string \<Rightarrow> string \<Rightarrow> string \<Rightarrow> controller \<Rightarrow> (bool \<times> controller) result" where
  "ctl_sys_update_file db_name tb_name where_text c =
     (if exists_table db_name tb_name (ct_file c) then
        (let (key, val) = (case str_find CHR ''='' where_text of
               None \<Rightarrow> ([], []) | Some pos \<Rightarrow> (take pos where_text, drop (pos + 1) where_text))
         in if key = ''head_offset'' then
              res_bind (stoi val) (\<lambda>n. on_file (update_system_file_offset db_name tb_name ''head'' (scast n)) c)
            else if key = ''tail_offset'' then
              res_bind (stoi val) (\<lambda>n. on_file (update_system_file_offset db_name tb_name ''tail'' (scast n)) c)
            else if key = ''margin'' then
              res_bind (stoi val) (\<lambda>n. on_file (update_system_file_margin db_name tb_name (scast n)) c)
            else Inr (False, c))
      else Inr (False, c))"

definition ctl_sys_clear_file :: "string \<Rightarrow> string \<Rightarrow> controller \<Rightarrow> (bool \<times> controller) result" where
  "ctl_sys_clear_file db_name tb_name c =
     (if exists_table db_name tb_name (ct_file c) then on_file (sys_clear_file db_name tb_name) c else Inr (False, c))"

section \<open>Inserting\<close>

definition enqueue_producer :: "ctl_task \<Rightarrow> controller \<Rightarrow> controller" where
  "enqueue_producer t c = c\<lparr>ct_producer := ct_producer c @ [t]\<rparr>"

definition enqueue_consumer :: "ctl_task \<Rightarrow> controller \<Rightarrow> controller" where
  "enqueue_consumer t c = c\<lparr>ct_consumer := ct_consumer c @ [t]\<rparr>"

definition ctl_insert :: "time_point \<Rightarrow> string \<Rightarrow> string \<Rightarrow> data_type \<Rightarrow> string \<Rightarrow> string \<Rightarrow> string \<Rightarrow> bool \<Rightarrow> controller \<Rightarrow> controller" where
  "ctl_insert timestamp tags_str val ty field_name tb_name db_name is_monitor_thread =
     enqueue_producer (Insert_task timestamp tags_str val ty field_name tb_name db_name is_monitor_thread)"

definition ctl_exists_table :: "string \<Rightarrow> string \<Rightarrow> controller \<Rightarrow> bool" where
  "ctl_exists_table db_name tb_name c \<longleftrightarrow> find_writer db_name tb_name c \<noteq> None"

text \<open>A new writer with the observer attached, as \<open>insert_thread\<close> and \<open>load_meta_file\<close> make it.\<close>

definition make_writer :: "string \<Rightarrow> string \<Rightarrow> controller \<Rightarrow> writer" where
  "make_writer db_name tb_name c =
     shard_attach (ct_shard_state c) (set_file_path_manager (ct_file c)
       (mk_writer db_name tb_name (ct_field_state c) (ct_table_state c) (ct_file c) []))"

text \<open>\<open>m_map[db_name] = Database{"", table}\<close>: the database then has this one table.\<close>

definition set_database :: "string \<Rightarrow> string \<Rightarrow> writer \<Rightarrow> controller \<Rightarrow> controller" where
  "set_database db_name tb_name w c = c\<lparr>ct_map := om_put db_name [(tb_name, Some w)] (ct_map c)\<rparr>"

definition ensure_writer :: "string \<Rightarrow> string \<Rightarrow> controller \<Rightarrow> controller result" where
  "ensure_writer db_name tb_name c =
     (if ctl_exists_table db_name tb_name c then Inr c
      else (let c = set_database db_name tb_name (make_writer db_name tb_name c) c in
        res_bind (load_mea_fields db_name tb_name (ct_file c)) (\<lambda>names. Inr (set_mea_fields db_name tb_name names c))))"

definition ensure_field :: "string \<Rightarrow> string \<Rightarrow> string \<Rightarrow> controller \<Rightarrow> controller result" where
  "ensure_field db_name tb_name field_name c =
     (if mea_field_exist db_name tb_name field_name c then Inr c
      else res_bind (insert_field_to_file db_name tb_name field_name (ct_file c)) (\<lambda>(_, fp).
             Inr (add_field db_name tb_name field_name (c\<lparr>ct_file := fp\<rparr>))))"

definition insert_thread ::
    "write_env \<Rightarrow> time_point \<Rightarrow> string \<Rightarrow> string \<Rightarrow> data_type \<Rightarrow> string \<Rightarrow> string \<Rightarrow> string \<Rightarrow> bool \<Rightarrow> controller \<Rightarrow> controller result" where
  "insert_thread env timestamp tags_str val ty field_name tb_name db_name is_monitor_thread c =
     (if exists_table db_name tb_name (ct_file c) then
        res_bind (ensure_writer db_name tb_name c) (\<lambda>c.
          if \<not> named_type ty then Inr c
          else res_bind (ensure_field db_name tb_name field_name c) (\<lambda>c.
               res_bind (on_writer db_name tb_name (write_point env timestamp (if is_monitor_thread then [] else tb_name @ tags_str)
                   val ty field_name db_name tb_name is_monitor_thread) c) (\<lambda>(_, c). Inr c)))
      else Inr c)"

section \<open>Index and queries\<close>

definition ctl_create_index :: "string \<Rightarrow> string list \<Rightarrow> controller \<Rightarrow> controller" where
  "ctl_create_index measurement tags = enqueue_producer (Index_task measurement tags)"

definition create_index_thread :: "string \<Rightarrow> string list \<Rightarrow> controller \<Rightarrow> controller" where
  "create_index_thread measurement tags c = c\<lparr>ct_index := snd (create_index measurement tags (ct_index c))\<rparr>"

definition get_range_data :: "string \<Rightarrow> string \<Rightarrow> (string \<times> string) list \<Rightarrow> expr_node option \<Rightarrow> controller \<Rightarrow> controller" where
  "get_range_data db_name measurement reduce_fields expr =
     enqueue_producer (Query_task db_name measurement reduce_fields expr)"

definition query_part :: "controller \<Rightarrow> query_controller" where
  "query_part c = \<lparr>qc_map = (\<lambda>db. map_option map_of (map_of (ct_map c) db)), qc_file = ct_file c, qc_index = ct_index c\<rparr>"

definition query_thread ::
    "('tm, 'f) query_env \<Rightarrow> string \<Rightarrow> string \<Rightarrow> (string \<times> string) list \<Rightarrow> expr_node option \<Rightarrow> controller \<Rightarrow> controller result" where
  "query_thread env db_name measurement reduce_fields expr c =
     res_bind (analytic_expr_tree env db_name measurement reduce_fields expr (query_part c)) (\<lambda>(rows, q).
       Inr (c\<lparr>ct_rows := rows, ct_index := qc_index q\<rparr>))"

section \<open>The disk tasks\<close>

text \<open>\<open>operator[]\<close> makes the entry of a table that has no writer, with a null pointer.\<close>

definition disk_write_thread :: "write_env \<Rightarrow> string \<Rightarrow> string \<Rightarrow> controller \<Rightarrow> controller result" where
  "disk_write_thread env db_name tb_name c =
     (case find_writer db_name tb_name c of
        None \<Rightarrow> Inr (put_writer db_name tb_name None c)
      | Some None \<Rightarrow> Inr c
      | Some (Some _) \<Rightarrow>
          res_bind (on_writer db_name tb_name (\<lambda>w. res_bind (queue_flush_disk env w) (\<lambda>w. Inr ((), w))) c) (\<lambda>(_, c). Inr c))"

definition disk_write :: "string \<Rightarrow> string \<Rightarrow> controller \<Rightarrow> bool \<times> controller" where
  "disk_write db_name tb_name c = (True, enqueue_consumer (Disk_write_task db_name tb_name) c)"

definition flush_shard_meta :: "controller \<Rightarrow> bool \<times> controller" where
  "flush_shard_meta c = (True, enqueue_consumer Flush_meta_task c)"

definition meta_path :: string where
  "meta_path = ''./../metadata/meta.tsm''"

definition get_shard_in_meta :: "('tm, 'f) ctl_env \<Rightarrow> writer \<Rightarrow> string list" where
  "get_shard_in_meta env w = map (\<lambda>i. ce_serialize env (the (wr_mea_shard_map w i))) (ce_order env (dom (wr_mea_shard_map w)))"

text \<open>The length of a record has 16 bits.\<close>

definition meta_record :: "string \<Rightarrow> string" where
  "meta_record s = (let len = (of_nat (length s) :: 16 word) in put_word 2 len @ take (unat len) s)"

fun tables_meta :: "('tm, 'f) ctl_env \<Rightarrow> (string, writer option) omap \<Rightarrow> string list result" where
  "tables_meta env [] = Inr []"
| "tables_meta env ((tb_name, None) # tables) = Inl Null_deref"
| "tables_meta env ((tb_name, Some w) # tables) =
     res_bind (tables_meta env tables) (\<lambda>ss. Inr (get_shard_in_meta env w @ ss))"

fun databases_meta :: "('tm, 'f) ctl_env \<Rightarrow> (string, (string, writer option) omap) omap \<Rightarrow> string list result" where
  "databases_meta env [] = Inr []"
| "databases_meta env ((db_name, tables) # dbs) =
     res_bind (tables_meta env tables) (\<lambda>ss. res_bind (databases_meta env dbs) (\<lambda>ss'. Inr (ss @ ss')))"

text \<open>The file is emptied when it is opened, before anything is collected.\<close>

definition flush_shard_meta_thread :: "('tm, 'f) ctl_env \<Rightarrow> controller \<Rightarrow> (bool \<times> controller) result" where
  "flush_shard_meta_thread env c =
     (if parent_dir meta_path \<in> dirs (fp_disk (ct_file c)) then
        res_bind (databases_meta env (ct_map c)) (\<lambda>ss.
          Inr (True, c\<lparr>ct_file := set_disk (put_file meta_path (concat (map meta_record ss)) (fp_disk (ct_file c))) (ct_file c)\<rparr>))
      else Inr (False, c))"

section \<open>The meta data at the start\<close>

text \<open>A record that the file cuts off is filled up with zero bytes, and is the last one.\<close>

function meta_texts :: "string \<Rightarrow> string list" where
  "meta_texts bs =
     (if length bs < 2 then []
      else (let n = le_decode (take 2 bs); rest = drop 2 bs in
        if length rest < n then [rest @ replicate (n - length rest) NUL]
        else take n rest # meta_texts (drop n rest)))"
  by pat_completeness auto
termination
  by (relation "measure length") auto

declare meta_texts.simps [simp del]

definition load_shard :: "shard \<Rightarrow> controller \<Rightarrow> controller result" where
  "load_shard sh c =
     (let db_name = sh_database_name sh; tb_name = sh_measurement sh in
      case find_writer db_name tb_name c of
        Some (Some w) \<Rightarrow> Inr (put_writer db_name tb_name (Some (snd (add_shard (sh_shard_id sh) (Some sh) w))) c)
      | Some None \<Rightarrow> Inl Null_deref
      | None \<Rightarrow> Inr (set_database db_name tb_name (snd (add_shard (sh_shard_id sh) (Some sh) (make_writer db_name tb_name c))) c))"

fun load_shards :: "shard list \<Rightarrow> controller \<Rightarrow> controller result" where
  "load_shards [] c = Inr c"
| "load_shards (sh # shs) c = res_bind (load_shard sh c) (load_shards shs)"

definition load_meta_file :: "('tm, 'f) ctl_env \<Rightarrow> controller \<Rightarrow> controller result" where
  "load_meta_file env c =
     (case files (fp_disk (ct_file c)) meta_path of
        None \<Rightarrow> Inr c
      | Some f \<Rightarrow> load_shards (map (ce_parse env) (meta_texts f)) c)"

definition new_controller :: "disk \<Rightarrow> controller" where
  "new_controller d =
     \<lparr>ct_map = [], ct_producer = [], ct_consumer = [], ct_file = new_file_path_manager ''tsm'' d,
      ct_field_state = \<lparr>fs_skip_list_state_map = [], fs_index_entry_state_map = []\<rparr>, ct_table_state = [],
      ct_shard_state = \<lparr>ss_last_time = 0, ss_is_registered = False, ss_change_total_count = 0\<rparr>,
      ct_index = empty_index, ct_mea_map = Map.empty, ct_rows = [], ct_clock = 0\<rparr>"

definition mk_controller :: "('tm, 'f) ctl_env \<Rightarrow> disk \<Rightarrow> controller result" where
  "mk_controller env d = load_meta_file env (new_controller d)"

section \<open>Tasks\<close>

definition run_task :: "('tm, 'f) ctl_env \<Rightarrow> ctl_task \<Rightarrow> controller \<Rightarrow> controller result" where
  "run_task env t c = (case t of
     Insert_task timestamp tags_str val ty field_name tb_name db_name is_monitor_thread \<Rightarrow>
       insert_thread (ce_write env) timestamp tags_str val ty field_name tb_name db_name is_monitor_thread c
   | Index_task measurement tags \<Rightarrow> Inr (create_index_thread measurement tags c)
   | Query_task db_name measurement reduce_fields expr \<Rightarrow> query_thread (ce_query env) db_name measurement reduce_fields expr c
   | Disk_write_task db_name tb_name \<Rightarrow> disk_write_thread (ce_write env) db_name tb_name c
   | Flush_meta_task \<Rightarrow> res_bind (flush_shard_meta_thread env c) (\<lambda>(_, c). Inr c))"

definition run_producer :: "('tm, 'f) ctl_env \<Rightarrow> controller \<Rightarrow> controller result" where
  "run_producer env c = (case ct_producer c of [] \<Rightarrow> Inr c | t # ts \<Rightarrow> run_task env t (c\<lparr>ct_producer := ts\<rparr>))"

definition run_consumer :: "('tm, 'f) ctl_env \<Rightarrow> controller \<Rightarrow> controller result" where
  "run_consumer env c = (case ct_consumer c of [] \<Rightarrow> Inr c | t # ts \<Rightarrow> run_task env t (c\<lparr>ct_consumer := ts\<rparr>))"

section \<open>Monitoring\<close>

definition from_time_t :: "int \<Rightarrow> time_point" where
  "from_time_t t = of_int (t * 10 ^ 9)"

text \<open>The task for a window carries the series in the place of the value.\<close>

definition is_ready_disk_write ::
    "('tm, 'f) ctl_env \<Rightarrow> string \<Rightarrow> string \<Rightarrow> string \<times> string \<Rightarrow> string \<Rightarrow> controller \<Rightarrow> (bool \<times> controller) result" where
  "is_ready_disk_write env db_name tb_name shard_id_and_series_info field_name c =
     (case find_writer db_name tb_name c of
        Some (Some _) \<Rightarrow>
          res_bind (on_writer db_name tb_name
              (skip_need_flush_data_block (ce_write env) (fst shard_id_and_series_info @ snd shard_id_and_series_info) field_name) c) (\<lambda>(due, c).
            if due then
              res_bind (shard_key_to_timestamp (ce_get_date env) (qe_mktime (ce_query env)) (fst shard_id_and_series_info)) (\<lambda>t.
                Inr (True, enqueue_producer (Insert_task (from_time_t t) [] (snd shard_id_and_series_info) DATA_STRING field_name tb_name db_name True) c))
            else Inr (False, c))
      | _ \<Rightarrow> Inr (False, c))"

definition is_ready_index_write ::
    "('tm, 'f) ctl_env \<Rightarrow> string \<Rightarrow> string \<Rightarrow> string \<Rightarrow> string \<Rightarrow> controller \<Rightarrow> (bool \<times> controller) result" where
  "is_ready_index_write env db_name tb_name shard_id field_name c =
     (case find_writer db_name tb_name c of
        Some (Some _) \<Rightarrow>
          res_bind (on_writer db_name tb_name (\<lambda>w.
              let (due, w) = should_flush_index (ce_write env) field_name w in
              Inr (due, if due then push_task field_name w else w)) c) (\<lambda>(due, c).
            if due then Inr (True, enqueue_consumer (Disk_write_task db_name tb_name) c) else Inr (False, c))
      | _ \<Rightarrow> Inr (False, c))"

text \<open>
  The monitor loops keep the state of their observer beside the rest of the world; an exception of a
  callback ends the monitor thread and with it the program.
\<close>

definition field_callback ::
    "('tm, 'f) ctl_env \<Rightarrow> bool \<Rightarrow> field_item \<Rightarrow> field_state \<times> controller result \<Rightarrow> bool \<times> field_state \<times> controller result" where
  "field_callback env use_index_entry_map item sw =
     (case (item, sw) of
        ((db_name, tb_name, field_name, shard_id, series), s, Inr c) \<Rightarrow>
          (case (if use_index_entry_map then is_ready_index_write env db_name tb_name shard_id field_name (c\<lparr>ct_field_state := s\<rparr>)
                 else is_ready_disk_write env db_name tb_name (shard_id, series) field_name (c\<lparr>ct_field_state := s\<rparr>)) of
             Inl e \<Rightarrow> (False, s, Inl e)
           | Inr (due, c) \<Rightarrow> (due, ct_field_state c, Inr c))
      | (_, s, Inl e) \<Rightarrow> (False, s, Inl e))"

definition monitor_fields :: "('tm, 'f) ctl_env \<Rightarrow> bool \<Rightarrow> controller \<Rightarrow> controller result" where
  "monitor_fields env use_index_entry_map c =
     (let (s, r) = fs_iterate_map (Some (field_callback env use_index_entry_map)) use_index_entry_map (ct_field_state c, Inr c)
      in res_bind r (\<lambda>c. Inr (c\<lparr>ct_field_state := s\<rparr>)))"

definition table_callback :: "string \<times> string \<Rightarrow> table_map \<times> controller \<Rightarrow> bool \<times> table_map \<times> controller" where
  "table_callback item mw = (let (due, c) = disk_write (fst item) (snd item) (snd mw) in (due, fst mw, c))"

definition monitor_tables :: "controller \<Rightarrow> controller" where
  "monitor_tables c = (let (m, c) = ts_iterate_map table_callback (ct_table_state c, c) in c\<lparr>ct_table_state := m\<rparr>)"

definition monitor_shard :: "write_env \<Rightarrow> controller \<Rightarrow> controller" where
  "monitor_shard env c =
     (let now = we_clock env (ct_clock c); c = c\<lparr>ct_clock := ct_clock c + 1\<rparr>;
          (s, c) = ss_iterate_map now flush_shard_meta (ct_shard_state c, c)
      in c\<lparr>ct_shard_state := s\<rparr>)"

text \<open>One round of \<open>monitoring_thread\<close>.\<close>

definition monitor_round :: "('tm, 'f) ctl_env \<Rightarrow> controller \<Rightarrow> controller result" where
  "monitor_round env c =
     res_bind (monitor_fields env False c) (\<lambda>c.
     res_bind (monitor_fields env True c) (\<lambda>c.
       Inr (monitor_shard (ce_write env) (monitor_tables c))))"

section \<open>The running engine\<close>

text \<open>A step is a request from outside, the next task of a pool, or a round of the monitor.\<close>

datatype engine_request =
    Insert_request time_point string string data_type string string string
  | Index_request string "string list"
  | Range_request string string "(string \<times> string) list" "expr_node option"
  | Create_database_request string
  | Create_table_request string string
  | Load_request string "string list"

fun ctl_request :: "engine_request \<Rightarrow> controller \<Rightarrow> controller result" where
  "ctl_request (Insert_request timestamp tags_str val ty field_name tb_name db_name) c =
     Inr (ctl_insert timestamp tags_str val ty field_name tb_name db_name False c)"
| "ctl_request (Index_request measurement tags) c = Inr (ctl_create_index measurement tags c)"
| "ctl_request (Range_request db_name measurement reduce_fields expr) c = Inr (get_range_data db_name measurement reduce_fields expr c)"
| "ctl_request (Create_database_request db_name) c = Inr (snd (ctl_create_database db_name c))"
| "ctl_request (Create_table_request tb_name db_name) c = res_bind (ctl_create_table tb_name db_name c) (\<lambda>(_, c). Inr c)"
| "ctl_request (Load_request db_name tables) c = res_bind (ctl_load_database db_name tables c) (\<lambda>(_, c). Inr c)"

inductive ctl_step :: "('tm, 'f) ctl_env \<Rightarrow> controller \<Rightarrow> controller \<Rightarrow> bool" for env where
  Request: "ctl_request rq c = Inr c' \<Longrightarrow> ctl_step env c c'"
| Producer: "run_producer env c = Inr c' \<Longrightarrow> ctl_step env c c'"
| Consumer: "run_consumer env c = Inr c' \<Longrightarrow> ctl_step env c c'"
| Monitor: "monitor_round env c = Inr c' \<Longrightarrow> ctl_step env c c'"

inductive ctl_reachable :: "('tm, 'f) ctl_env \<Rightarrow> disk \<Rightarrow> controller \<Rightarrow> bool" for env d where
  Start: "mk_controller env d = Inr c \<Longrightarrow> ctl_reachable env d c"
| Step: "ctl_reachable env d c \<Longrightarrow> ctl_step env c c' \<Longrightarrow> ctl_reachable env d c'"

end
