(* ===== verification/Controller_Properties.thy ===== *)
theory Controller_Properties
  imports Controller
begin

text \<open>
  Properties of the controller: what its state keeps to, what a second table of a database does to the
  first, and what a restart brings back.
\<close>

section \<open>Whom a writer belongs to\<close>

text \<open>The names of a writer and of its shards, and the number of its observers.\<close>

definition shard_names :: "shard \<Rightarrow> string \<times> string \<times> string" where
  "shard_names sh = (sh_shard_id sh, sh_database_name sh, sh_measurement sh)"

definition shard_ids :: "writer \<Rightarrow> string \<rightharpoonup> string \<times> string \<times> string" where
  "shard_ids w = map_option shard_names \<circ> wr_mea_shard_map w"

definition owner :: "writer \<Rightarrow> (string \<times> string \<times> nat) \<times> (string \<rightharpoonup> string \<times> string \<times> string)" where
  "owner w = ((wr_db_name w, wr_tb_name w, length (wr_shard_observers w)), shard_ids w)"

definition writer_ok :: "string \<Rightarrow> string \<Rightarrow> writer \<Rightarrow> bool" where
  "writer_ok db tb w \<longleftrightarrow> fst (owner w) = (db, tb, 1) \<and> finite (dom (shard_ids w)) \<and>
     (\<forall>i n. shard_ids w i = Some n \<longrightarrow> n = (i, db, tb) \<and> i \<noteq> [])"

lemma writer_ok_owner: "owner w' = owner w \<Longrightarrow> writer_ok db tb w \<Longrightarrow> writer_ok db tb w'"
  by (simp add: writer_ok_def owner_def)

lemma owner_simps [simp]:
  "owner (w\<lparr>wr_index_map := a\<rparr>) = owner w" "owner (w\<lparr>wr_field_map := b\<rparr>) = owner w"
  "owner (w\<lparr>wr_clock := n\<rparr>) = owner w" "owner (w\<lparr>wr_files := fp\<rparr>) = owner w" "owner (w\<lparr>wr_tsm := t\<rparr>) = owner w"
  "owner (w\<lparr>fw_data_deque := q\<rparr>) = owner w" "owner (w\<lparr>fw_field_state := s\<rparr>) = owner w" "owner (w\<lparr>fw_table_state := m\<rparr>) = owner w"
  "owner (w\<lparr>wr_index_task_queue := q1\<rparr>) = owner w" "owner (w\<lparr>wr_task_set := q2\<rparr>) = owner w"
  by (simp_all add: owner_def shard_ids_def)

lemma owner_shard_notify [simp]: "owner (shard_notify env r w) = owner w"
  by (simp add: owner_def shard_ids_def shard_notify_def Let_def)

lemma owner_push_index [simp]: "owner (push_index_to_deque s fn e w) = owner w"
  by (simp add: push_index_to_deque_def Let_def)

lemma owner_push_task [simp]: "owner (push_task fn w) = owner w"
  by (simp add: push_task_def owner_def shard_ids_def)

lemma owner_set_shard: "shard_ids w i = Some (shard_names sh) \<Longrightarrow> owner (set_shard i sh w) = owner w"
  by (auto simp: owner_def shard_ids_def set_shard_def)

lemma get_shard_ids_Some: "get_shard i w = Inr sh \<Longrightarrow> shard_ids w i = Some (shard_names sh)"
  by (auto simp: get_shard_def shard_ids_def split: option.splits)

lemma owner_ids: "owner w' = owner w \<Longrightarrow> shard_ids w' = shard_ids w"
  by (simp add: owner_def)

lemma owner_clock_now: "clock_now env w = (t, w') \<Longrightarrow> owner w' = owner w"
  by (auto simp: clock_now_def)

lemma owner_on_tsm: "on_tsm op w = Inr (r, w') \<Longrightarrow> owner w' = owner w"
  by (auto simp: on_tsm_def res_bind_eq_Inr)

lemma owner_observer_update [simp]: "owner (observer_update ob db tb info fn reg idx w) = owner w"
  by (cases ob) (simp_all add: owner_def shard_ids_def)

lemma owner_notify_all [simp]: "owner (notify_all obs db tb info fn reg idx w) = owner w"
  unfolding notify_all_def by (induction obs arbitrary: w) simp_all

lemma owner_write_series_index_block: "write_series_index_block env f es p off w = Inr w' \<Longrightarrow> owner w' = owner w"
  by (auto simp: write_series_index_block_def res_bind_eq_Inr dest: owner_on_tsm)

lemma owner_flush_all_indexes: "flush_all_indexes env f p off im w = Inr w' \<Longrightarrow> owner w' = owner w"
  by (induction env f p off im w rule: flush_all_indexes.induct)
     (auto simp: res_bind_eq_Inr split: if_splits dest: owner_write_series_index_block)

lemma create_init_names [simp]: "shard_names (create_tsm_file_init sh p) = shard_names sh"
  by (simp add: create_tsm_file_init_def shard_names_def)

lemma shard_names_offsets [simp]:
  "shard_names (sh\<lparr>sh_curr_file_tail_offset := a\<rparr>) = shard_names sh" "shard_names (sh\<lparr>sh_curr_file_margin := a\<rparr>) = shard_names sh"
  "shard_names (sh\<lparr>sh_curr_file_head_offset := a\<rparr>) = shard_names sh"
  by (simp_all add: shard_names_def)

lemma owner_reset_shard:
  assumes "get_shard i w = Inr sh" "owner w' = owner w" "shard_names sh' = shard_names sh"
  shows "owner (set_shard i sh' w') = owner w"
  using owner_set_shard [of w' i sh'] get_shard_ids_Some [OF assms(1)] owner_ids [OF assms(2)] assms(2,3) by simp

lemma owner_create_block_file:
  assumes "create_block_file env s w = Inr (r, w')"
  shows "owner w' = owner w"
proof -
  obtain now w1 where c: "clock_now env w = (now, w1)" by fastforce
  obtain p fp where p: "create_file now (wr_tb_name w1) (wr_db_name w1) ''tsm'' (wr_files w1) = (p, fp)" by fastforce
  define w2 where "w2 = w1\<lparr>wr_files := fp\<rparr>"
  obtain sh where sh: "get_shard s w2 = Inr sh" and rest: "owner w' = owner (set_shard s (create_tsm_file_init sh p) w2)"
    using assms unfolding create_block_file_def c p Let_def prod.case w2_def [symmetric]
    by (auto simp: res_bind_eq_Inr dest!: owner_on_tsm)
  have "owner (set_shard s (create_tsm_file_init sh p) w2) = owner w2" by (rule owner_reset_shard [OF sh refl]) simp
  then show ?thesis using rest owner_clock_now [OF c] by (simp add: w2_def)
qed

lemma owner_choose_block_file: "choose_block_file env f s n k w = Inr (r, w') \<Longrightarrow> owner w' = owner w"
  by (auto simp: choose_block_file_def Let_def res_bind_eq_Inr split: if_splits
      dest!: owner_create_block_file owner_flush_all_indexes)

lemma owner_should_flush_index: "should_flush_index env fn w = (r, w') \<Longrightarrow> owner w' = owner w"
  by (auto simp: should_flush_index_def Let_def split: option.splits prod.splits dest: owner_clock_now)

lemma owner_record_block:
  assumes "record_block env f fn s e m h u w = Inr w'"
  shows "owner w' = owner w"
proof -
  obtain w1 sh m' h' where "owner w1 = owner w" "get_shard s w1 = Inr sh"
      "w' = shard_notify env True (set_shard s (sh\<lparr>sh_curr_file_margin := m', sh_curr_file_head_offset := h'\<rparr>) w1)"
    using assms unfolding record_block_def Let_def
    by (auto simp: res_bind_eq_Inr split: prod.splits if_splits dest!: owner_should_flush_index owner_clock_now) (metis owner_push_task)+
  then show ?thesis using owner_reset_shard [of s w1 sh w1] by simp
qed

lemma owner_flush_index_task: "flush_index_task env w = Inr (s, w') \<Longrightarrow> owner w' = owner w"
proof -
  assume h: "flush_index_task env w = Inr (s, w')"
  have pop: "owner (snd (pop_task w)) = owner w" by (simp add: pop_task_def split: list.split)
  obtain fn w0 where p: "pop_task w = (fn, w0)" by fastforce
  define info where "info = om_at new_index_entry_info fn (wr_index_map w0)"
  define w1 where "w1 = w0\<lparr>wr_index_map := om_put fn info (wr_index_map w0)\<rparr>"
  have w1: "owner w1 = owner w" using pop p by (simp add: w1_def)
  show ?thesis
  proof (cases "task_queue_empty w")
    case True
    then show ?thesis using h by (simp add: flush_index_task_def)
  next
    case False
    obtain sh where sh: "get_shard (ii_shard_id info) w1 = Inr sh"
      using h False unfolding flush_index_task_def p Let_def prod.case info_def [symmetric] w1_def [symmetric] by (auto simp: res_bind_eq_Inr)
    show ?thesis
      using h False w1 sh unfolding flush_index_task_def p Let_def prod.case info_def [symmetric] w1_def [symmetric]
      by (auto simp: res_bind_eq_Inr owner_reset_shard [OF sh] split: option.splits if_splits dest!: owner_write_series_index_block)
  qed
qed

lemma owner_flush_data_block: "flush_data_block env w = Inr (s, w') \<Longrightarrow> owner w' = owner w"
  unfolding flush_data_block_def pop_data_from_deque_def Let_def
  by (auto simp: res_bind_eq_Inr split: list.splits option.splits prod.splits
      dest!: owner_choose_block_file owner_on_tsm owner_record_block)

lemma owner_queue_flush_disk: "queue_flush_disk env w = Inr w' \<Longrightarrow> owner w' = owner w"
proof (induction env w rule: queue_flush_disk.induct)
  case (1 env w)
  obtain s w1 where r: "flush_round env w = Inr (s, w1)" using 1(2) by (subst (asm) queue_flush_disk.simps) (auto split: sum.splits)
  have "owner w1 = owner w" using r
    by (auto simp: flush_round_def res_bind_eq_Inr split: if_splits dest!: owner_flush_index_task owner_flush_data_block)
  then show ?case using 1 r by (subst (asm) (2) queue_flush_disk.simps) (auto split: if_splits)
qed

lemma owner_get_field: "get_field fn ty w = (f, w') \<Longrightarrow> owner w' = owner w"
  by (auto simp: get_field_def Let_def split: option.splits if_splits)

lemma owner_flush_window:
  "flush_window junk db tb s k f win w = Inr (win', w') \<Longrightarrow> owner w' = owner w"
  by (auto simp: flush_window_def Let_def res_bind_eq_Inr)

lemma owner_field_write:
  "field_write rand junk now now' s t data db tb k f w = Inr (r, f', w') \<Longrightarrow> owner w' = owner w"
  unfolding field_write_def Let_def
  by (auto simp: res_bind_eq_Inr split: option.splits if_splits dest!: owner_flush_window)

lemma shard_key_not_empty: "timestamp_to_shard_key env t \<noteq> []"
  by (simp add: timestamp_to_shard_key_def split: prod.split)

lemma ensure_shard_ok: "writer_ok db tb w \<Longrightarrow> i \<noteq> [] \<Longrightarrow> writer_ok db tb (ensure_shard i w)"
proof (cases "wr_mea_shard_map w i")
  case None
  let ?w = "ensure_shard i w"
  assume w: "writer_ok db tb w" and i: "i \<noteq> []"
  have "shard_ids ?w = (shard_ids w)(i \<mapsto> (i, wr_db_name w, wr_tb_name w))" "fst (owner ?w) = fst (owner w)"
    using None by (auto simp: shard_ids_def ensure_shard_def set_shard_def shard_names_def owner_def fun_eq_iff)
  then show ?thesis using w i by (auto simp: writer_ok_def owner_def)
qed (simp add: ensure_shard_def)

lemma write_point_ok:
  assumes "writer_ok db tb w" "write_point env t k data ty fn db' tb' mon w = Inr (r, w')"
  shows "writer_ok db tb w'"
proof (cases "named_type ty")
  case True
  obtain f w1 where f: "get_field fn ty w = (f, w1)" by fastforce
  let ?i = "timestamp_to_shard_key env (to_time_t t)"
  have "writer_ok db tb (ensure_shard ?i w1)"
    using writer_ok_owner [OF owner_get_field [OF f] assms(1)] shard_key_not_empty by (rule ensure_shard_ok)
  moreover have "owner w' = owner (ensure_shard ?i w1)"
    using assms(2) True f unfolding write_point_def by (auto simp: Let_def clock_now_def res_bind_eq_Inr dest!: owner_field_write)
  ultimately show ?thesis by (rule writer_ok_owner [rotated])
qed (use assms in \<open>simp add: write_point_def\<close>)

section \<open>The state of the controller\<close>

definition disk_task :: "ctl_task \<Rightarrow> bool" where
  "disk_task t = (case t of Disk_write_task _ _ \<Rightarrow> True | Flush_meta_task \<Rightarrow> True | _ \<Rightarrow> False)"

definition ctl_ok :: "controller \<Rightarrow> bool" where
  "ctl_ok c \<longleftrightarrow> om_ok (ct_map c) \<and> (\<forall>db tables. map_of (ct_map c) db = Some tables \<longrightarrow> om_ok tables) \<and>
     (\<forall>db tb w. find_writer db tb c = Some (Some w) \<longrightarrow> writer_ok db tb w) \<and>
     (\<forall>t \<in> set (ct_producer c). \<not> disk_task t) \<and> (\<forall>t \<in> set (ct_consumer c). disk_task t)"

lemma find_put_writer [simp]:
  "find_writer db' tb' (put_writer db tb w c) = (if db' = db \<and> tb' = tb then Some w else find_writer db' tb' c)"
  by (auto simp: find_writer_def put_writer_def om_at_def split: option.split)

lemma find_set_database [simp]:
  "find_writer db' tb' (set_database db tb w c) =
    (if db' = db then (if tb' = tb then Some (Some w) else None) else find_writer db' tb' c)"
  by (auto simp: find_writer_def set_database_def)

text \<open>Most operations leave the map and the pools alone.\<close>

definition shape :: "controller \<Rightarrow> (string, (string, writer option) omap) omap \<times> ctl_task list \<times> ctl_task list" where
  "shape c = (ct_map c, ct_producer c, ct_consumer c)"

lemma ctl_ok_shape: "shape c' = shape c \<Longrightarrow> ctl_ok c \<Longrightarrow> ctl_ok c'"
  by (simp add: shape_def ctl_ok_def find_writer_def)

lemma shape_simps [simp]:
  "shape (c\<lparr>ct_file := a1\<rparr>) = shape c" "shape (c\<lparr>ct_field_state := a2\<rparr>) = shape c" "shape (c\<lparr>ct_table_state := a3\<rparr>) = shape c"
  "shape (c\<lparr>ct_shard_state := a4\<rparr>) = shape c" "shape (c\<lparr>ct_index := a5\<rparr>) = shape c" "shape (c\<lparr>ct_mea_map := a6\<rparr>) = shape c"
  "shape (c\<lparr>ct_rows := a7\<rparr>) = shape c" "shape (c\<lparr>ct_clock := a8\<rparr>) = shape c" "shape (set_mea_fields db tb names c) = shape c"
  "shape (add_field db tb fn c) = shape c" "shape (take_back w c) = shape c"
  by (simp_all add: shape_def set_mea_fields_def add_field_def take_back_def)

lemma put_writer_ok:
  assumes "ctl_ok c" "\<And>v. w = Some v \<Longrightarrow> writer_ok db tb v"
  shows "ctl_ok (put_writer db tb w c)"
proof -
  have "om_ok (om_at [] db (ct_map c))" using assms(1) by (auto simp: ctl_ok_def om_at_def split: option.split)
  then have "om_ok (om_put tb w (om_at [] db (ct_map c)))" by (rule om_put_ok)
  then show ?thesis using assms unfolding ctl_ok_def find_put_writer
    by (auto simp: put_writer_def om_put_ok)
qed

lemma set_database_ok: "ctl_ok c \<Longrightarrow> writer_ok db tb w \<Longrightarrow> ctl_ok (set_database db tb w c)"
  unfolding ctl_ok_def find_set_database by (auto simp: set_database_def om_put_ok)

lemma lend_ok [simp]: "writer_ok db tb (lend c w) \<longleftrightarrow> writer_ok db tb w"
  by (simp add: writer_ok_def owner_def shard_ids_def lend_def)

lemma make_writer_ok: "writer_ok db tb (make_writer db tb c)"
  by (simp add: writer_ok_def owner_def shard_ids_def make_writer_def shard_attach_def set_file_path_manager_def mk_writer_def)

lemma on_writer_ok:
  assumes "ctl_ok c" "on_writer db tb op c = Inr (r, c')" "\<And>w r w'. writer_ok db tb w \<Longrightarrow> op w = Inr (r, w') \<Longrightarrow> writer_ok db tb w'"
  shows "ctl_ok c'"
proof -
  obtain w w' where w: "find_writer db tb c = Some (Some w)" "op (lend c w) = Inr (r, w')" "c' = put_writer db tb (Some w') (take_back w' c)"
    using assms(2) by (auto simp: on_writer_def res_bind_eq_Inr split: option.splits)
  have "writer_ok db tb (lend c w)" using assms(1) w(1) by (auto simp: ctl_ok_def)
  then have "writer_ok db tb w'" using assms(3) w(2) by blast
  moreover have "ctl_ok (take_back w' c)" using assms(1) by (rule ctl_ok_shape [rotated]) simp
  ultimately show ?thesis unfolding w(3) by (auto intro: put_writer_ok)
qed

lemma ensure_writer_ok: "ctl_ok c \<Longrightarrow> ensure_writer db tb c = Inr c' \<Longrightarrow> ctl_ok c'"
  by (auto simp: ensure_writer_def Let_def res_bind_eq_Inr split: if_splits
      intro!: ctl_ok_shape [OF shape_simps(9)] set_database_ok make_writer_ok)

lemma ensure_field_shape: "ensure_field db tb fn c = Inr c' \<Longrightarrow> shape c' = shape c"
  by (auto simp: ensure_field_def res_bind_eq_Inr split: if_splits)

lemma insert_thread_ok:
  assumes "ctl_ok c" "insert_thread env t tags val ty fn tb db mon c = Inr c'"
  shows "ctl_ok c'"
proof (cases "exists_table db tb (ct_file c)")
  case True
  then obtain c1 where c1: "ensure_writer db tb c = Inr c1" using assms(2) by (auto simp: insert_thread_def res_bind_eq_Inr)
  have ok1: "ctl_ok c1" using assms(1) c1 by (rule ensure_writer_ok)
  show ?thesis
  proof (cases "named_type ty")
    case True
    then obtain c2 r where c2: "ensure_field db tb fn c1 = Inr c2"
        "on_writer db tb (write_point env t (if mon then [] else tb @ tags) val ty fn db tb mon) c2 = Inr (r, c')"
      using assms(2) c1 \<open>exists_table db tb (ct_file c)\<close> by (auto simp: insert_thread_def res_bind_eq_Inr)
    have "ctl_ok c2" using ok1 by (rule ctl_ok_shape [OF ensure_field_shape [OF c2(1)]])
    then show ?thesis using c2(2) write_point_ok by (rule on_writer_ok)
  qed (use assms c1 ok1 True in \<open>auto simp: insert_thread_def\<close>)
qed (use assms in \<open>auto simp: insert_thread_def\<close>)

lemma flush_op_ok: "writer_ok db tb w \<Longrightarrow> res_bind (queue_flush_disk env w) (\<lambda>w. Inr ((), w)) = Inr (r, w') \<Longrightarrow> writer_ok db tb w'"
  by (auto simp: res_bind_eq_Inr intro: writer_ok_owner [OF owner_queue_flush_disk])

lemma disk_write_thread_ok: "ctl_ok c \<Longrightarrow> disk_write_thread env db tb c = Inr c' \<Longrightarrow> ctl_ok c'"
  by (auto simp: disk_write_thread_def res_bind_eq_Inr split: option.splits
      intro: put_writer_ok on_writer_ok [OF _ _ flush_op_ok])

lemma flush_meta_shape: "flush_shard_meta_thread env c = Inr (r, c') \<Longrightarrow> shape c' = shape c"
  by (auto simp: flush_shard_meta_thread_def res_bind_eq_Inr split: if_splits)

lemma query_thread_shape: "query_thread env db m reduce expr c = Inr c' \<Longrightarrow> shape c' = shape c"
  by (auto simp: query_thread_def res_bind_eq_Inr)

lemma run_task_ok: "ctl_ok c \<Longrightarrow> run_task env t c = Inr c' \<Longrightarrow> ctl_ok c'"
  by (cases t) (auto simp: run_task_def res_bind_eq_Inr create_index_thread_def
      intro: insert_thread_ok disk_write_thread_ok ctl_ok_shape [OF flush_meta_shape] ctl_ok_shape [OF query_thread_shape] ctl_ok_shape)

lemma run_pools_ok:
  "ctl_ok c \<Longrightarrow> run_producer env c = Inr c' \<Longrightarrow> ctl_ok c'"
  "ctl_ok c \<Longrightarrow> run_consumer env c = Inr c' \<Longrightarrow> ctl_ok c'"
proof -
  assume c: "ctl_ok c"
  have "ctl_ok (c\<lparr>ct_producer := ts\<rparr>)" if "ct_producer c = t # ts" for t ts
    using c that by (simp add: ctl_ok_def find_writer_def)
  then show "run_producer env c = Inr c' \<Longrightarrow> ctl_ok c'" using c
    by (auto simp: run_producer_def split: list.splits intro: run_task_ok)
  have "ctl_ok (c\<lparr>ct_consumer := ts\<rparr>)" if "ct_consumer c = t # ts" for t ts
    using c that by (simp add: ctl_ok_def find_writer_def)
  then show "run_consumer env c = Inr c' \<Longrightarrow> ctl_ok c'" using c
    by (auto simp: run_consumer_def split: list.splits intro: run_task_ok)
qed

lemma enqueue_ok:
  "ctl_ok c \<Longrightarrow> \<not> disk_task t \<Longrightarrow> ctl_ok (enqueue_producer t c)"
  "ctl_ok c \<Longrightarrow> disk_task t \<Longrightarrow> ctl_ok (enqueue_consumer t c)"
  by (auto simp: ctl_ok_def enqueue_producer_def enqueue_consumer_def find_writer_def)

text \<open>The callbacks of the monitor.\<close>

lemma not_disk_insert: "\<not> disk_task (Insert_task t tags val ty fn tb db mon)" and disk_disk_write: "disk_task (Disk_write_task db tb)"
  by (simp_all add: disk_task_def)

lemma skip_op_ok: "writer_ok db tb w \<Longrightarrow> skip_need_flush_data_block env i fn w = Inr (r, w') \<Longrightarrow> writer_ok db tb w'"
  by (auto simp: skip_need_flush_data_block_def Let_def split: option.splits prod.splits intro: writer_ok_owner dest!: owner_clock_now)

lemma is_ready_disk_write_ok:
  assumes "ctl_ok c" "is_ready_disk_write env db tb si fn c = Inr (due, c')"
  shows "ctl_ok c'"
proof (cases "\<exists>w. find_writer db tb c = Some (Some w)")
  case True
  then obtain r c1 where 1: "on_writer db tb (skip_need_flush_data_block (ce_write env) (fst si @ snd si) fn) c = Inr (r, c1)"
    using assms(2) by (auto simp: is_ready_disk_write_def res_bind_eq_Inr)
  then have 2: "c' = c1 \<or> (\<exists>t. \<not> disk_task t \<and> c' = enqueue_producer t c1)"
    using True assms(2) not_disk_insert by (auto simp: is_ready_disk_write_def res_bind_eq_Inr split: if_splits) blast
  have "ctl_ok c1" using on_writer_ok [OF assms(1) 1 skip_op_ok] .
  then show ?thesis using 2 enqueue_ok(1) by auto
qed (use assms in \<open>auto simp: is_ready_disk_write_def split: option.splits\<close>)

lemma index_op_ok:
  "writer_ok db tb w \<Longrightarrow> (let (due, w) = should_flush_index env fn w in Inr (due, if due then push_task fn w else w)) = Inr (r, w') \<Longrightarrow>
    writer_ok db tb w'"
  by (auto split: prod.splits if_splits intro: writer_ok_owner dest!: owner_should_flush_index)

lemma is_ready_index_write_ok:
  assumes "ctl_ok c" "is_ready_index_write env db tb i fn c = Inr (due, c')"
  shows "ctl_ok c'"
proof (cases "\<exists>w. find_writer db tb c = Some (Some w)")
  case True
  then obtain r c1 where 1: "on_writer db tb (\<lambda>w. let (due, w) = should_flush_index (ce_write env) fn w in
        Inr (due, if due then push_task fn w else w)) c = Inr (r, c1)"
    using assms(2) by (auto simp: is_ready_index_write_def res_bind_eq_Inr)
  then have 2: "c' = c1 \<or> (\<exists>t. disk_task t \<and> c' = enqueue_consumer t c1)"
    using True assms(2) disk_disk_write by (auto simp: is_ready_index_write_def res_bind_eq_Inr split: if_splits) blast
  have "ctl_ok c1" using on_writer_ok [OF assms(1) 1 index_op_ok] .
  then show ?thesis using 2 enqueue_ok(2) by auto
qed (use assms in \<open>auto simp: is_ready_index_write_def split: option.splits\<close>)

text \<open>A monitor loop keeps what its callback and the removal keep.\<close>

lemma process_items_keeps:
  assumes "\<And>i s. P s \<Longrightarrow> P (snd (callback i s))" "\<And>i s. P s \<Longrightarrow> P (remove i s)"
  shows "P s \<Longrightarrow> P (process_items callback remove is s)"
  by (induction "is" arbitrary: s) (use assms in \<open>auto simp: split_beta Let_def\<close>)

definition result_ok :: "controller result \<Rightarrow> bool" where
  "result_ok r \<longleftrightarrow> (\<forall>c. r = Inr c \<longrightarrow> ctl_ok c)"

lemma field_callback_ok: "result_ok (snd sw) \<Longrightarrow> result_ok (snd (snd (field_callback env idx item sw)))"
proof -
  assume r: "result_ok (snd sw)"
  obtain s x where sw: "sw = (s, x)" by (cases sw)
  obtain db tb fn i k where item: "item = (db, tb, fn, i, k)" by (cases item)
  have "ctl_ok (c\<lparr>ct_field_state := s\<rparr>)" if "x = Inr c" for c
    using r that sw by (auto simp: result_ok_def intro: ctl_ok_shape [rotated])
  then show ?thesis unfolding sw item field_callback_def
    by (cases x) (auto simp: result_ok_def split: sum.splits if_splits intro: is_ready_disk_write_ok is_ready_index_write_ok)
qed

lemma monitor_fields_ok: "ctl_ok c \<Longrightarrow> monitor_fields env idx c = Inr c' \<Longrightarrow> ctl_ok c'"
proof -
  assume c: "ctl_ok c" and m: "monitor_fields env idx c = Inr c'"
  let ?r = "fs_iterate_map (Some (field_callback env idx)) idx (ct_field_state c, Inr c)"
  have "result_ok (snd ?r)" unfolding fs_iterate_map_def option.case
  proof (rule process_items_keeps [where P = "\<lambda>sw. result_ok (snd sw)"])
    show "result_ok (snd (ct_field_state c, Inr c))" using c by (simp add: result_ok_def)
  qed (simp_all add: field_callback_ok split_beta)
  then show ?thesis using m
    by (cases ?r) (auto simp: monitor_fields_def result_ok_def res_bind_eq_Inr intro: ctl_ok_shape [rotated])
qed

lemma monitor_tables_ok: "ctl_ok c \<Longrightarrow> ctl_ok (monitor_tables c)"
proof -
  assume c: "ctl_ok c"
  have "ctl_ok (snd (ts_iterate_map table_callback (ct_table_state c, c)))" unfolding ts_iterate_map_def
    by (rule process_items_keeps [where P = "\<lambda>sw. ctl_ok (snd sw)"])
       (use c in \<open>auto simp: table_callback_def disk_write_def split_beta disk_task_def intro!: enqueue_ok\<close>)
  then show ?thesis by (auto simp: monitor_tables_def split_beta intro: ctl_ok_shape [rotated])
qed

lemma monitor_shard_ok: "ctl_ok c \<Longrightarrow> ctl_ok (monitor_shard env c)"
proof -
  assume c: "ctl_ok c"
  then have 1: "ctl_ok (c\<lparr>ct_clock := n\<rparr>)" for n by (rule ctl_ok_shape [rotated]) simp
  have 2: "ctl_ok (enqueue_consumer Flush_meta_task (c\<lparr>ct_clock := n\<rparr>))" for n
    by (rule enqueue_ok(2) [OF 1]) (simp add: disk_task_def)
  show ?thesis unfolding monitor_shard_def Let_def ss_iterate_map_def flush_shard_meta_def
    using ctl_ok_shape [OF _ 1] ctl_ok_shape [OF _ 2] by auto
qed

lemma monitor_round_ok: "ctl_ok c \<Longrightarrow> monitor_round env c = Inr c' \<Longrightarrow> ctl_ok c'"
  by (auto simp: monitor_round_def res_bind_eq_Inr intro!: monitor_shard_ok monitor_tables_ok dest: monitor_fields_ok)

text \<open>Requests and the start.\<close>

lemma load_table_fields_shape: "load_table_fields db tables c = Inr c' \<Longrightarrow> shape c' = shape c"
  by (induction db tables c rule: load_table_fields.induct) (auto simp: res_bind_eq_Inr split: if_splits)

lemma ctl_request_ok: "ctl_ok c \<Longrightarrow> ctl_request rq c = Inr c' \<Longrightarrow> ctl_ok c'"
  by (cases rq)
     (auto simp: ctl_insert_def ctl_create_index_def get_range_data_def ctl_create_database_def ctl_create_table_def on_file_def
        ctl_load_database_def disk_task_def res_bind_eq_Inr split_beta split: if_splits
        intro: enqueue_ok ctl_ok_shape [rotated] dest!: load_table_fields_shape)

lemma add_shard_ok:
  assumes "writer_ok (sh_database_name sh) (sh_measurement sh) w"
  shows "writer_ok (sh_database_name sh) (sh_measurement sh) (snd (add_shard (sh_shard_id sh) (Some sh) w))"
proof (cases "sh_shard_id sh = []")
  case False
  let ?w = "set_shard (sh_shard_id sh) sh w"
  have "shard_ids ?w = (shard_ids w)(sh_shard_id sh \<mapsto> (sh_shard_id sh, sh_database_name sh, sh_measurement sh))"
    "fst (owner ?w) = fst (owner w)"
    by (auto simp: shard_ids_def set_shard_def shard_names_def owner_def fun_eq_iff)
  then have "writer_ok (sh_database_name sh) (sh_measurement sh) ?w" using assms False by (auto simp: writer_ok_def)
  then show ?thesis using False by (simp add: add_shard_def)
qed (use assms in \<open>simp add: add_shard_def\<close>)

lemma load_shard_ok: "ctl_ok c \<Longrightarrow> load_shard sh c = Inr c' \<Longrightarrow> ctl_ok c'"
  by (auto simp: load_shard_def Let_def split: option.splits
      intro!: put_writer_ok set_database_ok add_shard_ok make_writer_ok) (simp add: ctl_ok_def)

lemma load_shards_ok: "ctl_ok c \<Longrightarrow> load_shards shs c = Inr c' \<Longrightarrow> ctl_ok c'"
  by (induction shs arbitrary: c) (auto simp: res_bind_eq_Inr dest: load_shard_ok)

lemma new_controller_ok: "ctl_ok (new_controller d)"
  by (simp add: ctl_ok_def new_controller_def find_writer_def)

lemma mk_controller_ok: "mk_controller env d = Inr c \<Longrightarrow> ctl_ok c"
  using load_shards_ok [OF new_controller_ok] by (auto simp: mk_controller_def load_meta_file_def new_controller_ok split: option.splits)

lemma ctl_step_ok: "ctl_step env c c' \<Longrightarrow> ctl_ok c \<Longrightarrow> ctl_ok c'"
  by (induction rule: ctl_step.induct) (auto intro: ctl_request_ok run_pools_ok monitor_round_ok)

text \<open>
  C8. Whatever happens in the running engine - requests, tasks of both pools and monitor rounds in any order - the
  writer found under a database and a table carries exactly these names and one observer, all its
  shards are stored under their own id, which is not empty, with the names of the writer, and the
  pools never mix: disk tasks wait only in the consumer pool.
\<close>

theorem reachable_writers_own_slot:
  assumes "ctl_reachable env d c" "find_writer db tb c = Some (Some w)"
  shows "wr_db_name w = db \<and> wr_tb_name w = tb \<and> length (wr_shard_observers w) = 1 \<and>
    (\<forall>i sh. wr_mea_shard_map w i = Some sh \<longrightarrow> i \<noteq> [] \<and> shard_names sh = (i, db, tb)) \<and>
    (\<forall>t \<in> set (ct_producer c). \<not> disk_task t) \<and> (\<forall>t \<in> set (ct_consumer c). disk_task t)"
proof -
  have "ctl_ok c" using assms(1) by (induction rule: ctl_reachable.induct) (auto intro: mk_controller_ok ctl_step_ok)
  then have w: "writer_ok db tb w" and t: "\<forall>t \<in> set (ct_producer c). \<not> disk_task t" "\<forall>t \<in> set (ct_consumer c). disk_task t"
    using assms(2) by (auto simp: ctl_ok_def)
  have "i \<noteq> [] \<and> shard_names sh = (i, db, tb)" if "wr_mea_shard_map w i = Some sh" for i sh
  proof -
    have "shard_ids w i = Some (shard_names sh)" using that by (simp add: shard_ids_def)
    then show ?thesis using w unfolding writer_ok_def by blast
  qed
  then show ?thesis using w t by (simp add: writer_ok_def owner_def)
qed

section \<open>Demonstration\<close>

definition demo_ctl_env :: "(unit, unit) ctl_env" where
  "demo_ctl_env = \<lparr>ce_write = \<lparr>we_snappy = plain_snappy, we_rand = (\<lambda>_. 0), we_clock = (\<lambda>n. of_nat n), we_localtime = (\<lambda>_. (2024, 5, 1)),
       we_junk_type = DATA_INTEGER, we_junk_count = 0, we_junk_padding = 0\<rparr>,
     ce_query = \<lparr>qe_snappy = plain_snappy, qe_get_time = (\<lambda>_. Some ()), qe_mktime = (\<lambda>_. 0), qe_stof = (\<lambda>_. Inr ()),
       qe_float_eq = (\<lambda>_ _. True), qe_float_less = (\<lambda>_ _. False), qe_float_le = (\<lambda>_ _. True), qe_junk_type = String_value\<rparr>,
     ce_serialize = (\<lambda>sh. sh_measurement sh), ce_parse = (\<lambda>s. demo_shard\<lparr>sh_measurement := s\<rparr>),
     ce_order = sorted_list_of_set, ce_get_date = (\<lambda>_. Some ())\<rparr>"

definition demo_meta_disk :: disk where
  "demo_meta_disk = \<lparr>files = [meta_path \<mapsto> meta_record ''tb''], dirs = {''./../metadata''}\<rparr>"

definition demo_loaded :: writer where
  "demo_loaded = set_shard ''2024-05-01'' demo_shard (make_writer ''db'' ''tb'' (new_controller demo_meta_disk))"

definition demo_started :: controller where
  "demo_started = set_database ''db'' ''tb'' demo_loaded (new_controller demo_meta_disk)"

lemma demo_meta_texts: "meta_texts (meta_record ''tb'') = [''tb'']"
  by code_simp

lemma demo_start: "mk_controller demo_ctl_env demo_meta_disk = Inr demo_started"
proof -
  have "fp_disk (ct_file (new_controller demo_meta_disk)) = demo_meta_disk"
    by (simp add: new_controller_def new_file_path_manager_def mk_file_io_def)
  then have f: "files (fp_disk (ct_file (new_controller demo_meta_disk))) meta_path = Some (meta_record ''tb'')"
    by (simp add: demo_meta_disk_def)
  have n: "find_writer ''db'' ''tb'' (new_controller demo_meta_disk) = None" by (simp add: find_writer_def new_controller_def)
  have "ce_parse demo_ctl_env ''tb'' = demo_shard" by (simp add: demo_ctl_env_def demo_shard_def)
  moreover have "load_shard demo_shard (new_controller demo_meta_disk) = Inr demo_started"
    unfolding demo_started_def demo_loaded_def using n by (simp add: load_shard_def add_shard_def demo_shard_def Let_def)
  ultimately show ?thesis by (simp add: mk_controller_def load_meta_file_def f demo_meta_texts)
qed

theorem reachable_writers_own_slot_witness:
  "wr_db_name demo_loaded = ''db'' \<and> length (wr_shard_observers demo_loaded) = 1"
proof -
  have "find_writer ''db'' ''tb'' demo_started = Some (Some demo_loaded)" by (simp add: demo_started_def)
  from reachable_writers_own_slot [OF ctl_reachable.Start [OF demo_start] this] show ?thesis by simp
qed

section \<open>A second table\<close>

lemma ensure_writer_new:
  assumes "ensure_writer db tb c = Inr c'" "find_writer db tb c = None"
  shows "\<exists>w. ct_map c' = om_put db [(tb, Some w)] (ct_map c)" "ct_file c' = ct_file c"
  using assms by (auto simp: ensure_writer_def ctl_exists_table_def Let_def res_bind_eq_Inr set_database_def set_mea_fields_def)

lemma ensure_field_map: "ensure_field db tb fn c = Inr c' \<Longrightarrow> ct_map c' = ct_map c"
  using ensure_field_shape by (simp add: shape_def)

text \<open>
  C10. The first insert into a second table of a database throws the first table away: the database is
  replaced by one with the new table only, so that the writers of all its other tables, with every
  point that is not on the disk yet, are gone. Other databases keep theirs.
\<close>

theorem new_table_drops_others:
  assumes "find_writer db tb c = None" "exists_table db tb (ct_file c)" "insert_thread env t tags val ty fn tb db mon c = Inr c'"
  shows "(\<exists>w. find_writer db tb c' = Some (Some w)) \<and>
    find_writer db' tb' c' = (if db' = db \<and> tb' \<noteq> tb then None else if db' = db then find_writer db tb c' else find_writer db' tb' c)"
proof -
  obtain c1 where c1: "ensure_writer db tb c = Inr c1" using assms(2,3) by (auto simp: insert_thread_def res_bind_eq_Inr)
  from ensure_writer_new(1) [OF c1 assms(1)] obtain w where m1: "ct_map c1 = om_put db [(tb, Some w)] (ct_map c)" by blast
  show ?thesis
  proof (cases "named_type ty")
    case False
    then have "c' = c1" using assms(2,3) c1 by (simp add: insert_thread_def)
    then show ?thesis using m1 by (auto simp: find_writer_def)
  next
    case True
    then obtain c2 r where c2: "ensure_field db tb fn c1 = Inr c2"
        "on_writer db tb (write_point env t (if mon then [] else tb @ tags) val ty fn db tb mon) c2 = Inr (r, c')"
      using assms(2,3) c1 by (auto simp: insert_thread_def res_bind_eq_Inr)
    then obtain w' where c': "c' = put_writer db tb (Some w') (take_back w' c2)" by (auto simp: on_writer_def res_bind_eq_Inr split: option.splits)
    have "ct_map (take_back w' c2) = om_put db [(tb, Some w)] (ct_map c)" using ensure_field_map [OF c2(1)] m1 by (simp add: take_back_def)
    then have "find_writer d' t' (take_back w' c2) = (if d' = db then if t' = tb then Some (Some w) else None else find_writer d' t' c)" for d' t'
      by (simp add: find_writer_def)
    then show ?thesis unfolding c' find_put_writer by auto
  qed
qed

text \<open>
  A flush that was already asked for then breaks the table: with its writer gone, the disk task leaves a
  null pointer in its place, which counts as a writer, and the next insert into the table goes through it.
\<close>

theorem lost_table_breaks_insert:
  assumes "find_writer db tb c = None" "ct_consumer c = Disk_write_task db tb # ts" "exists_table db tb (ct_file c)"
    "named_type ty" "mea_field_exist db tb fn c"
  shows "\<exists>c'. run_consumer env c = Inr c' \<and> insert_thread (ce_write env) t tags val ty fn tb db mon c' = Inl Null_deref"
proof -
  let ?c = "put_writer db tb None (c\<lparr>ct_consumer := ts\<rparr>)"
  have n: "find_writer db tb (c\<lparr>ct_consumer := ts\<rparr>) = None" using assms(1) by (simp add: find_writer_def)
  then have "run_consumer env c = Inr ?c" using assms(2) by (simp add: run_consumer_def run_task_def disk_write_thread_def)
  moreover have "insert_thread (ce_write env) t tags val ty fn tb db mon ?c = Inl Null_deref"
  proof -
    have "ct_file ?c = ct_file c" "ct_mea_map ?c = ct_mea_map c" by (simp_all add: put_writer_def)
    then have "exists_table db tb (ct_file ?c)" "mea_field_exist db tb fn ?c" using assms(3,5) by (simp_all add: mea_field_exist_def)
    moreover have "find_writer db tb ?c = Some None" by simp
    ultimately show ?thesis using assms(4)
      by (simp add: insert_thread_def ensure_writer_def ctl_exists_table_def ensure_field_def on_writer_def)
  qed
  ultimately show ?thesis by blast
qed

section \<open>A restart\<close>

text \<open>The shards of each table, without the rest of the writers.\<close>

type_synonym shard_view = "string \<Rightarrow> string \<rightharpoonup> (string \<rightharpoonup> shard)"

definition no_null :: "controller \<Rightarrow> bool" where
  "no_null c \<longleftrightarrow> (\<forall>db tb. find_writer db tb c \<noteq> Some None)"

definition shard_view :: "controller \<Rightarrow> shard_view" where
  "shard_view c db tb = (case find_writer db tb c of Some (Some w) \<Rightarrow> Some (wr_mea_shard_map w) | _ \<Rightarrow> None)"

definition view_shard :: "shard \<Rightarrow> shard_view \<Rightarrow> shard_view" where
  "view_shard sh V =
     (let db = sh_database_name sh; tb = sh_measurement sh; i = sh_shard_id sh in
      V(db := case V db tb of Some m \<Rightarrow> (V db)(tb \<mapsto> m(i \<mapsto> sh)) | None \<Rightarrow> [tb \<mapsto> [i \<mapsto> sh]]))"

lemma load_shard_view:
  assumes "no_null c" "sh_shard_id sh \<noteq> []"
  shows "\<exists>c'. load_shard sh c = Inr c' \<and> no_null c' \<and> shard_view c' = view_shard sh (shard_view c)"
proof (cases "find_writer (sh_database_name sh) (sh_measurement sh) c")
  case None
  then show ?thesis using assms
    by (auto simp: load_shard_def Let_def no_null_def shard_view_def view_shard_def add_shard_def set_shard_def fun_eq_iff
        make_writer_def shard_attach_def set_file_path_manager_def mk_writer_def)
next
  case (Some v)
  then obtain w where w: "v = Some w" using assms(1) by (cases v) (auto simp: no_null_def)
  then show ?thesis using assms Some
    by (auto simp: load_shard_def Let_def no_null_def shard_view_def view_shard_def add_shard_def set_shard_def fun_eq_iff)
qed

lemma load_shards_view:
  "no_null c \<Longrightarrow> \<forall>sh \<in> set shs. sh_shard_id sh \<noteq> [] \<Longrightarrow>
    \<exists>c'. load_shards shs c = Inr c' \<and> shard_view c' = fold view_shard shs (shard_view c)"
proof (induction shs arbitrary: c)
  case (Cons sh shs)
  then obtain c1 where "load_shard sh c = Inr c1" "no_null c1" "shard_view c1 = view_shard sh (shard_view c)"
    using load_shard_view [of c sh] by auto
  then show ?case using Cons(1) [of c1] Cons(3) by auto
qed simp

text \<open>The shards of one table, then of the tables of a database, then of all databases.\<close>

definition shards_map :: "shard list \<Rightarrow> string \<rightharpoonup> shard" where
  "shards_map shs = fold (\<lambda>sh m. m(sh_shard_id sh \<mapsto> sh)) shs Map.empty"

lemma shards_map_snoc: "shards_map (shs @ [sh]) = (shards_map shs)(sh_shard_id sh \<mapsto> sh)"
  by (simp add: shards_map_def)

lemma view_table:
  assumes "\<forall>sh \<in> set shs. sh_database_name sh = db \<and> sh_measurement sh = tb" "V db tb = None"
  shows "fold view_shard shs V = (if shs = [] then V else V(db := [tb \<mapsto> shards_map shs]))"
  using assms(1)
proof (induction shs rule: rev_induct)
  case (snoc sh shs)
  then have sh: "sh_database_name sh = db" "sh_measurement sh = tb" and all: "\<forall>sh \<in> set shs. sh_database_name sh = db \<and> sh_measurement sh = tb"
    by auto
  have IH: "fold view_shard shs V = (if shs = [] then V else V(db := [tb \<mapsto> shards_map shs]))" by (rule snoc(1) [OF all])
  have step: "view_shard sh V' = V'(db := case V' db tb of Some m \<Rightarrow> (V' db)(tb \<mapsto> m(sh_shard_id sh \<mapsto> sh)) | None \<Rightarrow> [tb \<mapsto> [sh_shard_id sh \<mapsto> sh]])" for V'
    unfolding view_shard_def Let_def sh ..
  have "view_shard sh (if shs = [] then V else V(db := [tb \<mapsto> shards_map shs])) = V(db := [tb \<mapsto> shards_map (shs @ [sh])])"
    unfolding step shards_map_snoc using assms(2) by (cases "shs = []") (simp_all add: shards_map_def)
  then show ?case unfolding fold_append comp_def IH by simp
qed simp

definition tables_view :: "(string \<times> shard list) list \<Rightarrow> string \<rightharpoonup> (string \<rightharpoonup> shard)" where
  "tables_view tables = (case filter (\<lambda>t. snd t \<noteq> []) tables of [] \<Rightarrow> Map.empty | ts \<Rightarrow> [fst (last ts) \<mapsto> shards_map (snd (last ts))])"

lemma tables_view_snoc:
  "tables_view (tables @ [(tb, shs)]) = (if shs = [] then tables_view tables else [tb \<mapsto> shards_map shs])"
  by (cases "filter (\<lambda>t. snd t \<noteq> []) tables") (auto simp: tables_view_def)

lemma tables_view_dom: "tables_view tables tb \<noteq> None \<Longrightarrow> tb \<in> fst ` set tables"
proof (cases "filter (\<lambda>t. snd t \<noteq> []) tables")
  case (Cons t ts)
  assume "tables_view tables tb \<noteq> None"
  then have "tb = fst (last (t # ts))" using Cons by (simp add: tables_view_def split: if_splits)
  moreover have "last (t # ts) \<in> set tables" using Cons last_in_set [of "t # ts"] by (metis filter_is_subset list.distinct(1) subset_code(1))
  ultimately show ?thesis by simp
qed (simp add: tables_view_def)

definition named_tables :: "string \<Rightarrow> (string \<times> shard list) list \<Rightarrow> bool" where
  "named_tables db tables \<longleftrightarrow> (\<forall>(tb, shs) \<in> set tables. \<forall>sh \<in> set shs. sh_database_name sh = db \<and> sh_measurement sh = tb)"

lemma view_tables:
  assumes "named_tables db tables" "distinct (map fst tables)" "V db = Map.empty"
  shows "fold view_shard (concat (map snd tables)) V = V(db := tables_view tables)"
  using assms(1,2)
proof (induction tables rule: rev_induct)
  case Nil
  then show ?case using assms(3) by (simp add: tables_view_def fun_upd_idem)
next
  case (snoc t tables)
  obtain tb shs where t: "t = (tb, shs)" by (cases t)
  have named: "named_tables db tables" "\<forall>sh \<in> set shs. sh_database_name sh = db \<and> sh_measurement sh = tb"
    using snoc(2) t by (auto simp: named_tables_def)
  have IH: "fold view_shard (concat (map snd tables)) V = V(db := tables_view tables)"
    by (rule snoc(1) [OF named(1)]) (use snoc(3) in simp)
  have "tb \<notin> fst ` set tables" using snoc(3) t by auto
  then have "tables_view tables tb = None" using tables_view_dom by blast
  then have "fold view_shard shs (V(db := tables_view tables)) =
      (if shs = [] then V(db := tables_view tables) else V(db := [tb \<mapsto> shards_map shs]))"
    using view_table [OF named(2), of "V(db := tables_view tables)"] by simp
  moreover have "concat (map snd (tables @ [t])) = concat (map snd tables) @ shs" using t by simp
  ultimately show ?case unfolding t tables_view_snoc by (cases "shs = []") (simp_all only: fold_append comp_def IH if_True if_False simp_thms)
qed

lemma view_databases:
  assumes "\<forall>(db, tables) \<in> set dbs. named_tables db tables \<and> distinct (map fst tables)" "distinct (map fst dbs)"
  shows "fold view_shard (concat (map (\<lambda>d. concat (map snd (snd d))) dbs)) (\<lambda>_. Map.empty) =
    (\<lambda>db. case map_of dbs db of None \<Rightarrow> Map.empty | Some tables \<Rightarrow> tables_view tables)"
  using assms
proof (induction dbs rule: rev_induct)
  case (snoc d dbs)
  obtain db tables where d: "d = (db, tables)" by (cases d)
  let ?V = "\<lambda>db. case map_of dbs db of None \<Rightarrow> Map.empty | Some tables \<Rightarrow> tables_view tables"
  have fresh: "map_of dbs db = None" using snoc(3) d by (auto simp: map_of_eq_None_iff)
  have "fold view_shard (concat (map snd tables)) ?V = ?V(db := tables_view tables)"
    by (rule view_tables) (use snoc(2) d fresh in auto)
  moreover have "fold view_shard (concat (map (\<lambda>d. concat (map snd (snd d))) dbs)) (\<lambda>_. Map.empty) = ?V"
    by (rule snoc(1)) (use snoc(2,3) in auto)
  moreover have "concat (map (\<lambda>d. concat (map snd (snd d))) (dbs @ [d])) = concat (map (\<lambda>d. concat (map snd (snd d))) dbs) @ concat (map snd tables)"
    using d by simp
  moreover have "?V(db := tables_view tables) = (\<lambda>db. case map_of (dbs @ [d]) db of None \<Rightarrow> Map.empty | Some tables \<Rightarrow> tables_view tables)"
    using fresh d by (auto simp: fun_eq_iff map_add_def split: option.split)
  ultimately show ?case by (simp only: fold_append comp_def)
qed simp

lemma le_decode_record: "length s < 65536 \<Longrightarrow> meta_record s = le_encode 2 (length s) @ s"
  by (simp add: meta_record_def Let_def put_word_def unat_of_nat take_bit_nat_def)

lemma meta_texts_records: "\<forall>s \<in> set ss. length s < 65536 \<Longrightarrow> meta_texts (concat (map meta_record ss)) = ss"
proof (induction ss)
  case Nil
  then show ?case by (simp add: meta_texts.simps)
next
  case (Cons s ss)
  have r: "meta_record s = le_encode 2 (length s) @ s" using Cons(2) by (simp add: le_decode_record)
  have l: "length (le_encode 2 (length s)) = 2" by simp
  have n: "le_decode (take 2 (le_encode 2 (length s) @ s @ concat (map meta_record ss))) = length s"
    "drop 2 (le_encode 2 (length s) @ s @ concat (map meta_record ss)) = s @ concat (map meta_record ss)"
    using l Cons(2) by (simp_all only: take_append drop_append l) simp_all
  have "meta_texts (le_encode 2 (length s) @ s @ concat (map meta_record ss)) = s # meta_texts (concat (map meta_record ss))"
    by (subst meta_texts.simps) (simp only: n Let_def, simp)
  then show ?case using Cons r by simp
qed

text \<open>What the meta file holds, as lists of shards.\<close>

definition shards_in :: "('tm, 'f) ctl_env \<Rightarrow> writer option \<Rightarrow> shard list" where
  "shards_in env w = (case w of None \<Rightarrow> [] | Some w \<Rightarrow>
     map (\<lambda>i. the (wr_mea_shard_map w i)) (ce_order env (dom (wr_mea_shard_map w))))"

definition shard_lists :: "('tm, 'f) ctl_env \<Rightarrow> controller \<Rightarrow> (string \<times> (string \<times> shard list) list) list" where
  "shard_lists env c = map (\<lambda>(db, tables). (db, map (\<lambda>(tb, w). (tb, shards_in env w)) tables)) (ct_map c)"

lemma tables_meta_lists:
  "tables_meta env tables = Inr ss \<Longrightarrow> ss = map (ce_serialize env) (concat (map (\<lambda>t. shards_in env (snd t)) tables))"
  by (induction env tables arbitrary: ss rule: tables_meta.induct) (auto simp: res_bind_eq_Inr get_shard_in_meta_def shards_in_def)

lemma databases_meta_lists:
  "databases_meta env dbs = Inr ss \<Longrightarrow>
    ss = map (ce_serialize env) (concat (map (\<lambda>d. concat (map (\<lambda>t. shards_in env (snd t)) (snd d))) dbs))"
  by (induction env dbs arbitrary: ss rule: databases_meta.induct) (auto simp: res_bind_eq_Inr dest: tables_meta_lists)

lemma shards_map_restrict:
  "set is \<subseteq> dom m \<Longrightarrow> \<forall>i sh. m i = Some sh \<longrightarrow> sh_shard_id sh = i \<Longrightarrow> shards_map (map (\<lambda>i. the (m i)) is) = m |` set is"
proof (induction "is" rule: rev_induct)
  case (snoc i "is")
  then obtain sh where sh: "m i = Some sh" "sh_shard_id sh = i" by auto
  have "shards_map (map (\<lambda>i. the (m i)) is) = m |` set is" using snoc by auto
  then show ?case using sh by (auto simp: shards_map_snoc restrict_map_def fun_eq_iff)
qed (simp add: shards_map_def restrict_map_def)

text \<open>What is asked of the order of a hash map.\<close>

definition meta_laws :: "('tm, 'f) ctl_env \<Rightarrow> bool" where
  "meta_laws env \<longleftrightarrow> (\<forall>S. finite S \<longrightarrow> distinct (ce_order env S) \<and> set (ce_order env S) = S)"

lemma writer_ok_shards:
  assumes "writer_ok db tb w"
  shows "finite (dom (wr_mea_shard_map w))" "wr_mea_shard_map w i = Some sh \<Longrightarrow> i \<noteq> [] \<and> shard_names sh = (i, db, tb)"
proof -
  have "dom (shard_ids w) = dom (wr_mea_shard_map w)" by (auto simp: shard_ids_def dom_def)
  then show "finite (dom (wr_mea_shard_map w))" using assms by (simp add: writer_ok_def)
  show "i \<noteq> [] \<and> shard_names sh = (i, db, tb)" if "wr_mea_shard_map w i = Some sh"
  proof -
    have "shard_ids w i = Some (shard_names sh)" using that by (simp add: shard_ids_def)
    then show ?thesis using assms unfolding writer_ok_def by blast
  qed
qed

lemma shards_in_facts:
  assumes "meta_laws env" "writer_ok db tb w"
  shows "shards_map (shards_in env (Some w)) = wr_mea_shard_map w"
    "shards_in env (Some w) = [] \<longleftrightarrow> wr_mea_shard_map w = Map.empty"
    "sh \<in> set (shards_in env (Some w)) \<Longrightarrow> sh_shard_id sh \<noteq> [] \<and> sh_database_name sh = db \<and> sh_measurement sh = tb \<and>
      wr_mea_shard_map w (sh_shard_id sh) = Some sh"
proof -
  let ?m = "wr_mea_shard_map w"
  have o: "set (ce_order env (dom ?m)) = dom ?m" using assms(1) writer_ok_shards(1) [OF assms(2)] by (simp add: meta_laws_def)
  have n: "\<forall>i sh. ?m i = Some sh \<longrightarrow> sh_shard_id sh = i" using writer_ok_shards(2) [OF assms(2)] by (auto simp: shard_names_def)
  show "shards_map (shards_in env (Some w)) = ?m"
    using shards_map_restrict [OF _ n, of "ce_order env (dom ?m)"] o by (simp add: shards_in_def restrict_map_def fun_eq_iff domIff)
  show "shards_in env (Some w) = [] \<longleftrightarrow> ?m = Map.empty"
    using o by (auto simp: shards_in_def) (metis dom_eq_empty_conv list.set(1))
  assume "sh \<in> set (shards_in env (Some w))"
  then obtain i where i: "?m i = Some sh" using o by (auto simp: shards_in_def)
  then show "sh_shard_id sh \<noteq> [] \<and> sh_database_name sh = db \<and> sh_measurement sh = tb \<and> ?m (sh_shard_id sh) = Some sh"
    using writer_ok_shards(2) [OF assms(2) i] by (auto simp: shard_names_def)
qed

text \<open>The last table of a database, in the order of the names, that has a shard.\<close>

definition has_shards :: "writer option \<Rightarrow> bool" where
  "has_shards w \<longleftrightarrow> (case w of None \<Rightarrow> False | Some w \<Rightarrow> wr_mea_shard_map w \<noteq> Map.empty)"

definition last_table :: "string \<Rightarrow> controller \<Rightarrow> string option" where
  "last_table db c = (let ts = filter (\<lambda>t. has_shards (snd t)) (om_at [] db (ct_map c)) in if ts = [] then None else Some (fst (last ts)))"

lemma filter_shards_in:
  assumes "meta_laws env" "\<And>tb w. (tb, Some w) \<in> set tables \<Longrightarrow> writer_ok db tb w"
  shows "filter (\<lambda>t. snd t \<noteq> []) (map (\<lambda>(tb, w). (tb, shards_in env w)) tables) =
    map (\<lambda>(tb, w). (tb, shards_in env w)) (filter (\<lambda>t. has_shards (snd t)) tables)"
  using assms(2)
proof (induction tables)
  case (Cons t tables)
  obtain tb w where t: "t = (tb, w)" by (cases t)
  have "shards_in env w \<noteq> [] \<longleftrightarrow> has_shards w"
    using shards_in_facts(2) [OF assms(1) Cons(2)] t by (cases w) (auto simp: has_shards_def shards_in_def [of _ None])
  then show ?case using Cons t by simp
qed simp

lemma tables_view_lists:
  assumes "meta_laws env" "om_ok tables" "\<And>tb w. (tb, Some w) \<in> set tables \<Longrightarrow> writer_ok db tb w"
  defines "ts \<equiv> filter (\<lambda>t. has_shards (snd t)) tables"
  shows "tables_view (map (\<lambda>(tb, w). (tb, shards_in env w)) tables) tb =
    (if ts \<noteq> [] \<and> tb = fst (last ts) then (case map_of tables tb of Some (Some w) \<Rightarrow> Some (wr_mea_shard_map w) | _ \<Rightarrow> None) else None)"
proof (cases "ts = []")
  case True
  then show ?thesis using filter_shards_in [OF assms(1,3)] by (simp add: tables_view_def ts_def)
next
  case False
  then have "last ts \<in> set ts" by (rule last_in_set)
  moreover have "\<forall>t \<in> set ts. t \<in> set tables \<and> (\<exists>w. snd t = Some w)" by (auto simp: ts_def has_shards_def split: option.splits)
  ultimately obtain tb' w where l: "last ts = (tb', Some w)" "(tb', Some w) \<in> set tables"
    by (metis prod.collapse)
  have m: "map_of tables tb' = Some (Some w)" using l(2) assms(2) by (simp add: om_ok_map_of)
  have "filter (\<lambda>t. snd t \<noteq> []) (map (\<lambda>(tb, w). (tb, shards_in env w)) tables) = map (\<lambda>(tb, w). (tb, shards_in env w)) ts"
    unfolding ts_def by (rule filter_shards_in [OF assms(1,3)])
  moreover have "last (map (\<lambda>(tb, w). (tb, shards_in env w)) ts) = (tb', shards_in env (Some w))" using False l(1) by (simp add: last_map)
  ultimately have "tables_view (map (\<lambda>(tb, w). (tb, shards_in env w)) tables) = [tb' \<mapsto> shards_map (shards_in env (Some w))]"
    using False by (cases ts) (auto simp: tables_view_def)
  then show ?thesis using l m False shards_in_facts(1) [OF assms(1) assms(3) [OF l(2)]] by simp
qed

text \<open>
  C9. A restart brings back one table of each database: flushing the meta data of the shards and starting again
  from the disk gives, for every database, exactly the shards of the last table that has any, and
  nothing of its other tables, whose data files are then unreachable. (The parser of protobuf is asked to
  read back the shards of the state, whose texts fit into a length of 16 bits.)
\<close>

theorem restart_keeps_last_table:
  assumes "meta_laws env" "ctl_ok c" "flush_shard_meta_thread env c = Inr (True, c1)"
    "\<And>db tb w i sh. find_writer db tb c = Some (Some w) \<Longrightarrow> wr_mea_shard_map w i = Some sh \<Longrightarrow>
      ce_parse env (ce_serialize env sh) = sh \<and> length (ce_serialize env sh) < 65536"
  shows "\<exists>c2. mk_controller env (fp_disk (ct_file c1)) = Inr c2 \<and>
    (\<forall>db tb. shard_view c2 db tb = (if last_table db c = Some tb then shard_view c db tb else None))"
proof -
  let ?dbs = "shard_lists env c"
  let ?all = "concat (map (\<lambda>d. concat (map snd (snd d))) ?dbs)"
  have ok: "om_ok (ct_map c)" "\<And>db tables. map_of (ct_map c) db = Some tables \<Longrightarrow> om_ok tables"
    "\<And>db tb w. find_writer db tb c = Some (Some w) \<Longrightarrow> writer_ok db tb w"
    using assms(2) by (auto simp: ctl_ok_def)
  have find: "find_writer db tb c = Some (Some w)" if "(db, tables) \<in> set (ct_map c)" "(tb, Some w) \<in> set tables" for db tb tables w
  proof -
    have "map_of (ct_map c) db = Some tables" using that(1) ok(1) by (simp add: om_ok_map_of)
    then show ?thesis using that(2) ok(2) by (simp add: find_writer_def om_ok_map_of)
  qed
  have named: "named_tables db tables \<and> distinct (map fst tables)" if d: "(db, tables) \<in> set ?dbs" for db tables
  proof -
    obtain ts where ts: "(db, ts) \<in> set (ct_map c)" "tables = map (\<lambda>(tb, w). (tb, shards_in env w)) ts" using d by (auto simp: shard_lists_def)
    have "om_ok ts" using ts(1) ok(1,2) by (simp add: om_ok_map_of)
    then have "distinct (map fst tables)" using om_ok_distinct ts(2) by (simp add: comp_def case_prod_beta')
    moreover have "named_tables db tables"
      unfolding named_tables_def ts(2)
    proof (clarsimp)
      fix tb w sh assume w: "(tb, w) \<in> set ts" "sh \<in> set (shards_in env w)"
      then obtain v where v: "w = Some v" by (cases w) (simp_all add: shards_in_def)
      show "sh_database_name sh = db \<and> sh_measurement sh = tb"
        using shards_in_facts(3) [OF assms(1) ok(3) [OF find [OF ts(1)]]] w unfolding v by blast
    qed
    ultimately show ?thesis by blast
  qed
  obtain ss where ss: "databases_meta env (ct_map c) = Inr ss" "files (fp_disk (ct_file c1)) meta_path = Some (concat (map meta_record ss))"
    using assms(3) by (auto simp: flush_shard_meta_thread_def res_bind_eq_Inr set_disk_def split: if_splits)
  have all: "ss = map (ce_serialize env) ?all"
    using databases_meta_lists [OF ss(1)] by (simp add: shard_lists_def comp_def case_prod_beta')
  have mem: "sh_shard_id sh \<noteq> [] \<and> ce_parse env (ce_serialize env sh) = sh \<and> length (ce_serialize env sh) < 65536" if "sh \<in> set ?all" for sh
  proof -
    from that obtain db ts tb w where "(db, ts) \<in> set (ct_map c)" "(tb, w) \<in> set ts" "sh \<in> set (shards_in env w)" by (auto simp: shard_lists_def)
    moreover then obtain v where "w = Some v" by (cases w) (simp_all add: shards_in_def)
    ultimately show ?thesis using shards_in_facts(3) [OF assms(1) ok(3) [OF find]] assms(4) [OF find] by blast
  qed
  have "meta_texts (concat (map meta_record ss)) = map (ce_serialize env) ?all"
    unfolding all by (rule meta_texts_records) (use mem in \<open>simp only: set_map ball_simps, blast\<close>)
  moreover have "map (ce_parse env) (map (ce_serialize env) ?all) = ?all"
    unfolding map_map comp_def by (rule map_idI) (use mem in blast)
  ultimately have "map (ce_parse env) (meta_texts (concat (map meta_record ss))) = ?all" by (simp only:)
  moreover have "no_null (new_controller d)" "shard_view (new_controller d) = (\<lambda>_. Map.empty)" for d
    by (simp_all add: no_null_def shard_view_def find_writer_def new_controller_def fun_eq_iff)
  moreover have "fp_disk (ct_file (new_controller d)) = d" for d by (simp add: new_controller_def new_file_path_manager_def mk_file_io_def)
  ultimately obtain c2 where c2: "mk_controller env (fp_disk (ct_file c1)) = Inr c2" "shard_view c2 = fold view_shard ?all (\<lambda>_. Map.empty)"
    using load_shards_view [of "new_controller (fp_disk (ct_file c1))" ?all] mem ss(2) by (auto simp: mk_controller_def load_meta_file_def)
  have "distinct (map fst ?dbs)" using om_ok_distinct [OF ok(1)] by (simp add: shard_lists_def comp_def case_prod_beta')
  then have view: "shard_view c2 = (\<lambda>db. case map_of ?dbs db of None \<Rightarrow> Map.empty | Some tables \<Rightarrow> tables_view tables)"
    unfolding c2(2) using named by (intro view_databases) auto
  have lists: "map_of ?dbs db = map_option (map (\<lambda>(tb, w). (tb, shards_in env w))) (map_of (ct_map c) db)" for db
    unfolding shard_lists_def map_of_map by simp
  have "shard_view c2 db tb = (if last_table db c = Some tb then shard_view c db tb else None)" for db tb
  proof (cases "map_of (ct_map c) db")
    case None
    then show ?thesis unfolding view lists by (simp add: last_table_def)
  next
    case (Some tables)
    then have w: "\<And>tb w. (tb, Some w) \<in> set tables \<Longrightarrow> writer_ok db tb w" using ok(3) find ok(1) by (auto simp: om_ok_map_of)
    show ?thesis unfolding view lists Some
      using tables_view_lists [OF assms(1) ok(2) [OF Some] w, of tb] Some
      by (auto simp: last_table_def Let_def shard_view_def find_writer_def)
  qed
  then show ?thesis using c2(1) by blast
qed

definition demo_second :: writer where
  "demo_second = set_shard ''2024-05-01'' (demo_shard\<lparr>sh_measurement := ''tc''\<rparr>) (make_writer ''db'' ''tc'' (new_controller demo_meta_disk))"

definition demo_two :: controller where
  "demo_two = put_writer ''db'' ''tc'' (Some demo_second) demo_started"

lemma demo_two_ok: "ctl_ok demo_two"
proof -
  have "writer_ok ''db'' ''tc'' demo_second"
    using add_shard_ok [of "demo_shard\<lparr>sh_measurement := ''tc''\<rparr>" "make_writer ''db'' ''tc'' (new_controller demo_meta_disk)"] make_writer_ok
    by (simp add: demo_second_def add_shard_def demo_shard_def)
  then show ?thesis unfolding demo_two_def using mk_controller_ok [OF demo_start] by (auto intro: put_writer_ok)
qed

lemma demo_two_map: "ct_map demo_two = [(''db'', [(''tb'', Some demo_loaded), (''tc'', Some demo_second)])]"
  by (simp add: demo_two_def put_writer_def demo_started_def set_database_def new_controller_def)

lemma demo_two_shards:
  "wr_mea_shard_map demo_loaded = [''2024-05-01'' \<mapsto> demo_shard]"
  "wr_mea_shard_map demo_second = [''2024-05-01'' \<mapsto> demo_shard\<lparr>sh_measurement := ''tc''\<rparr>]"
  by (simp_all add: demo_loaded_def demo_second_def set_shard_def make_writer_def shard_attach_def set_file_path_manager_def mk_writer_def)

theorem restart_keeps_last_table_witness:
  "\<exists>c c1. mk_controller demo_ctl_env (fp_disk (ct_file c1)) = Inr c \<and> flush_shard_meta_thread demo_ctl_env demo_two = Inr (True, c1) \<and>
    shard_view demo_two ''db'' ''tb'' \<noteq> None \<and> shard_view c ''db'' ''tb'' = None \<and> shard_view c ''db'' ''tc'' = shard_view demo_two ''db'' ''tc''"
proof -
  have find: "find_writer db tb demo_two = Some (Some w) \<longleftrightarrow> db = ''db'' \<and> (tb = ''tb'' \<and> w = demo_loaded \<or> tb = ''tc'' \<and> w = demo_second)" for db tb w
    by (auto simp: find_writer_def demo_two_map)
  have laws: "meta_laws demo_ctl_env" by (simp add: meta_laws_def demo_ctl_env_def)
  have "\<exists>ss. databases_meta demo_ctl_env (ct_map demo_two) = Inr ss" by (simp add: demo_two_map)
  moreover have "fp_disk (ct_file demo_two) = demo_meta_disk"
    by (simp add: demo_two_def put_writer_def demo_started_def set_database_def new_controller_def new_file_path_manager_def mk_file_io_def)
  ultimately obtain c1 where c1: "flush_shard_meta_thread demo_ctl_env demo_two = Inr (True, c1)"
    by (auto simp: flush_shard_meta_thread_def demo_meta_disk_def meta_path_def parent_dir_def)
  have last: "last_table ''db'' demo_two = Some ''tc''"
    by (simp add: last_table_def demo_two_map has_shards_def demo_two_shards)
  have "\<exists>c2. mk_controller demo_ctl_env (fp_disk (ct_file c1)) = Inr c2 \<and>
      (\<forall>db tb. shard_view c2 db tb = (if last_table db demo_two = Some tb then shard_view demo_two db tb else None))"
  proof (rule restart_keeps_last_table [OF laws demo_two_ok c1])
    fix db tb w i sh assume "find_writer db tb demo_two = Some (Some w)" "wr_mea_shard_map w i = Some sh"
    then have "sh = demo_shard \<or> sh = demo_shard\<lparr>sh_measurement := ''tc''\<rparr>" by (auto simp: find demo_two_shards split: if_splits)
    then show "ce_parse demo_ctl_env (ce_serialize demo_ctl_env sh) = sh \<and> length (ce_serialize demo_ctl_env sh) < 65536"
      by (auto simp: demo_ctl_env_def demo_shard_def)
  qed
  moreover have "shard_view demo_two ''db'' ''tb'' \<noteq> None" by (simp add: shard_view_def find_writer_def demo_two_map)
  ultimately show ?thesis using c1 last by auto
qed

end
