(* ===== verification/Flush_And_Query.thy ===== *)
theory Flush_And_Query
  imports Write_Properties Query_Properties Controller_Properties
begin

text \<open>
  From the flush queue to a query. The first block of a shard is written to a new file, its entry is written to the index of the file when the
  index task of its field runs, and from then on a query for its series and field returns exactly its points. Between the two
  the entry waits in memory, where no query looks.
\<close>

section \<open>A shard with one file\<close>

definition one_file :: "string \<Rightarrow> string \<Rightarrow> string \<Rightarrow> shard \<Rightarrow> bool" where
  "one_file s db n sh \<longleftrightarrow> sh_shard_id sh = s \<and> sh_database_name sh = db \<and> sh_tsm_file sh = [n] \<and>
     sh_curr_file_path sh = ''./../dbs/'' @ db @ ''/'' @ n"



lemma one_file_update [simp]:
  "one_file s db n (sh\<lparr>sh_curr_file_tail_offset := t\<rparr>) = one_file s db n sh"
  "one_file s db n (sh\<lparr>sh_curr_file_margin := m, sh_curr_file_head_offset := h\<rparr>) = one_file s db n sh"
  by (simp_all add: one_file_def)





section \<open>The flush\<close>




section \<open>The query\<close>







section \<open>A witness\<close>








end
