(* ===== verification/Parser_Properties.thy ===== *)
theory Parser_Properties
  imports Parser
begin

text \<open>
  The properties of the parser. Its input is seen through the token it stands on and the ones that
  follow: \<open>begins p ts\<close> says that \<open>ts\<close> come next. Expressions and statements are written out as tokens
  and read back.
\<close>

section \<open>The tokens ahead\<close>

fun begins :: "parser \<Rightarrow> token list \<Rightarrow> bool" where
  "begins p [] = True"
| "begins p (t # ts) = (ps_curr p = t \<and> begins (p_next_token p) ts)"

definition ahead :: "nat \<Rightarrow> parser \<Rightarrow> parser" where
  "ahead n p = (p_next_token ^^ n) p"

lemma curr_next [simp]: "ps_curr (p_next_token p) = ps_peek p"
  by (simp add: p_next_token_def split: prod.split)

lemma next_fields [simp]: "ps_errors (p_next_token p) = ps_errors p" "ps_clock (p_next_token p) = ps_clock p"
  by (simp_all add: p_next_token_def split: prod.split)

lemma peek_never_semicolon [simp]: "tok_type (ps_peek (p_next_token p)) \<noteq> TOKEN_SEMICOLON"
  using token_types_produced [of "ps_lexer p"] by (cases "next_token (ps_lexer p)") (simp add: p_next_token_def)

lemma ahead_simps [simp]:
  "ahead 0 p = p" "p_next_token (ahead n p) = ahead (Suc n) p" "ahead n (p_next_token p) = ahead (Suc n) p"
  "ahead m (ahead n p) = ahead (m + n) p"
  by (simp_all add: ahead_def funpow_swap1 funpow_add)

lemma next_ahead: "p_next_token p = ahead 1 p"
  by (simp add: ahead_def)

lemma begins_append: "begins p (xs @ ys) \<longleftrightarrow> begins p xs \<and> begins (ahead (length xs) p) ys"
  by (induction xs arbitrary: p) auto

lemma peek_curr: "ps_peek (ahead n p) = ps_curr (ahead (Suc n) p)"
  by (metis ahead_simps(2) curr_next)

text \<open>On a new parser the tokens ahead are the tokens of the text, by the specification of the lexer.\<close>

fun spec_tokens :: "nat \<Rightarrow> string \<Rightarrow> token list" where
  "spec_tokens 0 s = []"
| "spec_tokens (Suc n) s = (case lex_token s of (t, r) \<Rightarrow> t # spec_tokens n r)"

lemma take_spec_tokens: "take n (spec_tokens (n + k) s) = spec_tokens n s"
  by (induction n arbitrary: s) (simp_all split: prod.split)

lemma length_spec_tokens: "length (spec_tokens n s) = n"
  by (induction n arbitrary: s) (simp_all split: prod.split)

lemma spec_tokens_end: "length s \<le> k \<Longrightarrow> spec_tokens (Suc k) s ! k = mk_token TOKEN_EOF ''EOF''"
proof (induction k arbitrary: s)
  case (Suc k)
  obtain t r where t: "lex_token s = (t, r)" by fastforce
  have "length r \<le> length s - 1" using lex_token_progress [of s] t by (cases "s = []") (auto simp: lex_token_Nil)
  with Suc.IH [of r] Suc.prems show ?case by (simp add: t del: spec_tokens.simps(2)) (simp add: t)
qed (simp add: lex_token_Nil)

lemma begins_nth: "begins p ts \<Longrightarrow> i < length ts \<Longrightarrow> ps_curr (ahead i p) = ts ! i"
proof (induction ts arbitrary: p i)
  case (Cons t ts)
  then show ?case by (cases i) (use Cons.IH [of "p_next_token p"] in auto)
qed simp

lemma next_lexer:
  assumes "lex_wf (ps_lexer p)"
  shows "ps_peek (p_next_token p) = fst (lex_token (lex_rest (ps_lexer p)))" "lex_wf (ps_lexer (p_next_token p))"
    "lex_rest (ps_lexer (p_next_token p)) = snd (lex_token (lex_rest (ps_lexer p)))"
  using next_token_refines_aux [OF assms] by (auto simp: p_next_token_def prod_eq_iff split: prod.split)

lemma begins_spec:
  "lex_wf (ps_lexer p) \<Longrightarrow> begins p ts \<longleftrightarrow> take (length ts) (ps_curr p # ps_peek p # spec_tokens (length ts - 2) (lex_rest (ps_lexer p))) = ts"
proof (induction ts arbitrary: p)
  case (Cons t ts)
  note IH = Cons.IH [OF next_lexer(2) [OF Cons.prems]]
  show ?case
  proof (cases ts)
    case (Cons u us)
    then show ?thesis using IH
      by (cases us) (simp_all add: next_lexer [OF Cons.prems] split: prod.split)
  qed simp
qed simp

lemma begins_text: "begins (mk_parser (mk_lexer s)) ts \<longleftrightarrow> spec_tokens (length ts) s = ts"
proof -
  define p where "p = \<lparr>ps_lexer = mk_lexer s, ps_curr = default_token, ps_peek = default_token, ps_errors = [], ps_clock = 0\<rparr>"
  have wf: "lex_wf (ps_lexer p)" and r: "lex_rest (ps_lexer p) = s" by (simp_all add: p_def)
  have m: "length ts + (2 - length ts) = Suc (Suc (length ts - 2))" by simp
  note n1 = next_lexer [OF wf] and n2 = next_lexer [OF next_lexer(2) [OF wf]]
  have "begins (mk_parser (mk_lexer s)) ts \<longleftrightarrow> begins (p_next_token (p_next_token p)) ts" by (simp add: mk_parser_def p_def)
  also have "\<dots> \<longleftrightarrow> take (length ts) (spec_tokens (length ts + (2 - length ts)) s) = ts"
    unfolding begins_spec [OF n2(2)] n2 m by (simp add: n1 r numeral_eq_Suc split: prod.split)
  also have "\<dots> \<longleftrightarrow> spec_tokens (length ts) s = ts"
    by (simp only: take_spec_tokens)
  finally show ?thesis .
qed

section \<open>Writing an expression as tokens\<close>

definition lparen :: token where "lparen = mk_token TOKEN_LPAREN ''(''"
definition rparen :: token where "rparen = mk_token TOKEN_RPAREN '')''"

text \<open>Parentheses stand where the context binds as strongly as the operator; all operators associate to the left.\<close>

fun expr_tokens :: "nat \<Rightarrow> expression \<Rightarrow> token list" where
  "expr_tokens m (Integer_node t v) = [t]"
| "expr_tokens m (Float_node t v) = [t]"
| "expr_tokens m (String_node t v) = [t]"
| "expr_tokens m (Null_node t) = [t]"
| "expr_tokens m (Identifier_node t v) = [t]"
| "expr_tokens m (Prefix_node t op (Some r)) = t # expr_tokens PREFIX r"
| "expr_tokens m (Infix_node t op (Some l) (Some r)) =
     (let k = token_precedence (tok_type t); body = expr_tokens (k - 1) l @ t # expr_tokens k r
      in if m < k then body else lparen # body @ [rparen])"
| "expr_tokens m _ = []"

fun expr_wf :: "expression \<Rightarrow> bool" where
  "expr_wf (Integer_node t v) \<longleftrightarrow> tok_type t = TOKEN_INTEGER \<and> v = atol (tok_literal t)"
| "expr_wf (Float_node t v) \<longleftrightarrow> tok_type t = TOKEN_FLOAT \<and> v = tok_literal t"
| "expr_wf (String_node t v) \<longleftrightarrow> tok_type t = TOKEN_STRING \<and> v = tok_literal t"
| "expr_wf (Null_node t) \<longleftrightarrow> tok_type t = TOKEN_NULL"
| "expr_wf (Identifier_node t v) \<longleftrightarrow> tok_type t = TOKEN_IDENTIFIER \<and> v = tok_literal t"
| "expr_wf (Prefix_node t op (Some r)) \<longleftrightarrow> tok_type t = TOKEN_MINUS \<and> op = tok_literal t \<and> expr_wf r"
| "expr_wf (Infix_node t op (Some l) (Some r)) \<longleftrightarrow>
     tok_type t \<in> set m_infix_parse_fns \<and> op = tok_literal t \<and> expr_wf l \<and> expr_wf r"
| "expr_wf _ \<longleftrightarrow> False"

text \<open>The operator on top of an expression that is written without parentheses.\<close>

fun top_prec :: "expression \<Rightarrow> nat option" where
  "top_prec (Infix_node t op l r) = Some (token_precedence (tok_type t))"
| "top_prec _ = None"

lemma infix_precedence: "ty \<in> set m_infix_parse_fns \<Longrightarrow> 0 < token_precedence ty \<and> token_precedence ty < PREFIX \<and> ty \<noteq> TOKEN_SEMICOLON"
  by (auto simp: m_infix_parse_fns_def token_precedence_def m_precedence_def LOGIC_def COMPARE_def SUM_PREC_def PRODUCT_def PREFIX_def)

lemma other_precedence: "ty \<notin> set m_infix_parse_fns \<Longrightarrow> token_precedence ty = 0"
  by (auto simp: m_infix_parse_fns_def token_precedence_def m_precedence_def LOWEST_def split: option.split dest: map_of_SomeD)

lemma expr_tokens_ne: "expr_wf e \<Longrightarrow> expr_tokens m e \<noteq> []"
  by (cases "(m, e)" rule: expr_tokens.cases) (auto simp: Let_def)

lemmas parse_leaves = parse_integer_def parse_float_def parse_string_def parse_identifier_def parse_null_def

lemma parse_at:
  "parse env (Parse_expression m) p =
     (case map_of m_prefix_parse_fns (tok_type (ps_curr p)) of
        None \<Rightarrow> gives None (no_prefix_parse_fn_error (tok_type (ps_curr p)) p)
      | Some prefix \<Rightarrow> pbind (parse env prefix p) (\<lambda>e p. parse env (Parse_operators m e) p))"
  "parse env (Parse_operators m e) p =
     (if \<not> peek_token_is TOKEN_SEMICOLON p \<and> m < peek_token_precedence p then
        (if tok_type (ps_peek p) \<notin> set m_infix_parse_fns then gives e p
         else pbind (parse env (Parse_infix e) (p_next_token p)) (\<lambda>e p. parse env (Parse_operators m e) p))
      else gives e p)"
  "parse env (Parse_infix e) p =
     pbind (parse env (Parse_expression (curr_token_precedence p)) (p_next_token p)) (\<lambda>right p'.
       gives (Some (Infix_node (ps_curr p) (curr_literal p) e right)) p')"
  "parse env Parse_prefix p =
     pbind (parse env (Parse_expression PREFIX) (p_next_token p)) (\<lambda>right p'.
       gives (Some (Prefix_node (ps_curr p) (curr_literal p) right)) p')"
  "parse env Parse_group p =
     pbind (parse env (Parse_expression LOWEST) (p_next_token p)) (\<lambda>e p.
       let (found, p) = expect_peer_token TOKEN_RPAREN p in gives (if found then e else None) p)"
  by (subst parse.simps, simp add: expr_fns_def)+

lemma parse_leaf:
  "parse env Parse_integer p = Some (Inr (parse_integer p))" "parse env Parse_float p = Some (Inr (parse_float p))"
  "parse env Parse_string p = Some (Inr (parse_string p))" "parse env Parse_identifier p = Some (Inr (parse_identifier p))"
  "parse env Parse_null p = parse_null p"
  by (subst parse.simps, simp)+

lemma skip_semicolons_none: "tok_type (ps_peek p) \<noteq> TOKEN_SEMICOLON \<Longrightarrow> skip_semicolons p = gives () p"
  by (subst skip_semicolons.simps) (simp add: peek_token_is_def)

section \<open>Reading it back\<close>

text \<open>
  The loop over the operators stops in front of a token that binds no stronger than the expression's
  own operator allows; the rest of the statement goes on from there.
\<close>

definition reads :: "'tm parse_env \<Rightarrow> expression \<Rightarrow> bool" where
  "reads env e \<longleftrightarrow> (\<forall>m m' p. m \<le> m' \<and> begins p (expr_tokens m' e) \<and> tok_type (ps_peek p) \<noteq> TOKEN_SEMICOLON \<and>
     (\<forall>k. top_prec e = Some k \<and> m' < k \<longrightarrow> token_precedence (tok_type (ps_curr (ahead (length (expr_tokens m' e)) p))) \<le> k) \<longrightarrow>
     parse env (Parse_expression m) p = parse env (Parse_operators m (Some e)) (ahead (length (expr_tokens m' e) - 1) p))"

lemma operators_stop:
  "token_precedence (tok_type (ps_peek p)) \<le> m \<Longrightarrow> parse env (Parse_operators m e) p = gives e p"
  by (subst parse_at(2)) (simp add: peek_token_precedence_def)

lemma readsD:
  assumes "reads env e" "m \<le> m'" "begins p (expr_tokens m' e)" "tok_type (ps_peek p) \<noteq> TOKEN_SEMICOLON"
    "\<And>k. top_prec e = Some k \<Longrightarrow> m' < k \<Longrightarrow> token_precedence (tok_type (ps_curr (ahead (length (expr_tokens m' e)) p))) \<le> k"
  shows "parse env (Parse_expression m) p = parse env (Parse_operators m (Some e)) (ahead (length (expr_tokens m' e) - 1) p)"
  using assms unfolding reads_def by blast

lemma reads_infix_bare:
  assumes l: "reads env l" and r: "reads env r" and wf: "expr_wf l" "expr_wf r"
    and t: "tok_type t \<in> set m_infix_parse_fns" and k: "k = token_precedence (tok_type t)"
    and m: "m < k" and b: "begins p (expr_tokens (k - 1) l @ t # expr_tokens k r)"
    and semi: "tok_type (ps_peek p) \<noteq> TOKEN_SEMICOLON"
    and stop: "token_precedence (tok_type (ps_curr (ahead (length (expr_tokens (k - 1) l @ t # expr_tokens k r)) p))) \<le> k"
  shows "parse env (Parse_expression m) p =
    parse env (Parse_operators m (Some (Infix_node t (tok_literal t) (Some l) (Some r))))
      (ahead (length (expr_tokens (k - 1) l @ t # expr_tokens k r) - 1) p)"
proof -
  let ?L = "expr_tokens (k - 1) l" and ?R = "expr_tokens k r"
  have ne: "?L \<noteq> []" "?R \<noteq> []" using wf by (simp_all add: expr_tokens_ne)
  have len: "0 < length ?L" "0 < length ?R" using ne by simp_all
  define q where "q = ahead (length ?L - 1) p"
  have nq: "p_next_token q = ahead (length ?L) p" using len by (simp add: q_def)
  have bL: "begins p ?L" and ct: "ps_curr (ahead (length ?L) p) = t" and bR: "begins (p_next_token (ahead (length ?L) p)) ?R"
    using b by (simp_all add: begins_append)
  have pq: "ps_peek q = t" using ct nq curr_next by metis
  have kl: "token_precedence (tok_type (ps_curr (ahead (length ?L) p))) \<le> j" if "k - 1 < j" for j using that ct k by simp
  have 1: "parse env (Parse_expression m) p = parse env (Parse_operators m (Some l)) q"
    unfolding q_def by (rule readsD [OF l]) (use m bL semi kl in simp_all)
  define q' where "q' = ahead (length ?R - 1) (p_next_token (p_next_token q))"
  have end': "p_next_token q' = ahead (length (?L @ t # ?R)) p" "q' = ahead (length (?L @ t # ?R) - 1) p"
    using ne(2) unfolding q'_def nq by (cases ?R; simp add: add.commute)+
  have 2: "parse env (Parse_expression k) (p_next_token (p_next_token q)) = parse env (Parse_operators k (Some r)) q'"
    unfolding q'_def
  proof (rule readsD [OF r order_refl])
    show "begins (p_next_token (p_next_token q)) ?R" using bR nq by simp
    fix j assume "k < j"
    then show "token_precedence (tok_type (ps_curr (ahead (length ?R) (p_next_token (p_next_token q))))) \<le> j"
      using stop by (simp add: nq add.commute)
  qed simp
  have "ps_peek q' = ps_curr (ahead (length (?L @ t # ?R)) p)" using end'(1) curr_next by metis
  then have 3: "parse env (Parse_operators k (Some r)) q' = gives (Some r) q'" using stop by (intro operators_stop) simp
  have "parse env (Parse_infix (Some l)) (p_next_token q) = gives (Some (Infix_node t (tok_literal t) (Some l) (Some r))) q'"
    by (subst parse_at(3)) (simp add: curr_token_precedence_def pq k [symmetric] 2 3)
  then have "parse env (Parse_operators m (Some l)) q =
      parse env (Parse_operators m (Some (Infix_node t (tok_literal t) (Some l) (Some r)))) q'"
    using infix_precedence [OF t] m t k by (subst parse_at(2)) (simp add: peek_token_is_def peek_token_precedence_def pq)
  then show ?thesis using 1 end'(2) by simp
qed

lemma reads_group:
  assumes "begins p (lparen # ts @ [rparen])" "ts \<noteq> []"
    "parse env (Parse_expression LOWEST) (p_next_token p) = gives (Some e) (ahead (length ts - 1) (p_next_token p))"
  shows "parse env (Parse_expression m) p = parse env (Parse_operators m (Some e)) (ahead (length (lparen # ts @ [rparen]) - 1) p)"
proof -
  let ?q = "ahead (length ts - 1) (p_next_token p)"
  have c: "ps_curr p = lparen" and r: "ps_curr (ahead (length ts) (p_next_token p)) = rparen"
    using assms(1) by (simp_all add: begins_append)
  have nq: "p_next_token ?q = ahead (length ts) (p_next_token p)" using assms(2) by (cases ts) simp_all
  then have pk: "ps_peek ?q = rparen" using r curr_next by metis
  have "parse env (Parse_expression LOWEST) (p_next_token p) = gives (Some e) ?q" by (rule assms(3))
  have "parse env Parse_group p = gives (Some e) (p_next_token ?q)"
    unfolding parse_at(5) assms(3) pbind_simps expect_peer_token_def peek_token_is_def pk by (simp add: rparen_def)
  then show ?thesis using nq
    by (subst parse_at(1)) (simp add: c lparen_def m_prefix_parse_fns_def)
qed

lemma reads_expr: "expr_wf e \<Longrightarrow> reads env e"
proof (induction e rule: expr_wf.induct)
  case (6 t op r)
  show ?case unfolding reads_def
  proof (intro allI impI, elim conjE)
    fix m m' p
    assume b: "begins p (expr_tokens m' (Prefix_node t op (Some r)))" and semi: "tok_type (ps_peek p) \<noteq> TOKEN_SEMICOLON"
    let ?R = "expr_tokens PREFIX r"
    have ne: "?R \<noteq> []" using 6 by (simp add: expr_tokens_ne)
    have small: "token_precedence ty \<le> PREFIX" for ty
      using infix_precedence [of ty] other_precedence [of ty] by (cases "ty \<in> set m_infix_parse_fns") auto
    have "parse env (Parse_expression PREFIX) (p_next_token p) =
        parse env (Parse_operators PREFIX (Some r)) (ahead (length ?R - 1) (p_next_token p))"
      by (rule readsD [of env r PREFIX PREFIX]) (use 6 b in \<open>auto intro: order_trans [OF small]\<close>)
    also have "\<dots> = gives (Some r) (ahead (length ?R - 1) (p_next_token p))" by (rule operators_stop) (rule small)
    finally have "parse env Parse_prefix p = gives (Some (Prefix_node t op (Some r))) (ahead (length ?R - 1) (p_next_token p))"
      using 6 b by (subst parse_at(4)) simp
    then show "parse env (Parse_expression m) p =
        parse env (Parse_operators m (Some (Prefix_node t op (Some r)))) (ahead (length (expr_tokens m' (Prefix_node t op (Some r))) - 1) p)"
      using 6 b ne by (subst parse_at(1)) (cases ?R, auto simp: m_prefix_parse_fns_def)
  qed
next
  case (7 t op l r)
  have wf: "tok_type t \<in> set m_infix_parse_fns" "op = tok_literal t" "expr_wf l" "expr_wf r" "reads env l" "reads env r"
    using 7 by simp_all
  let ?k = "token_precedence (tok_type t)" and ?e = "Infix_node t op (Some l) (Some r)"
  let ?body = "expr_tokens (?k - 1) l @ t # expr_tokens ?k r"
  show ?case unfolding reads_def
  proof (intro allI impI, elim conjE)
    fix m m' p
    assume m: "m \<le> m'" and b: "begins p (expr_tokens m' ?e)" and semi: "tok_type (ps_peek p) \<noteq> TOKEN_SEMICOLON"
      and stop: "\<forall>k. top_prec ?e = Some k \<and> m' < k \<longrightarrow> token_precedence (tok_type (ps_curr (ahead (length (expr_tokens m' ?e)) p))) \<le> k"
    show "parse env (Parse_expression m) p = parse env (Parse_operators m (Some ?e)) (ahead (length (expr_tokens m' ?e) - 1) p)"
    proof (cases "m' < ?k")
      case True
      then show ?thesis
        using reads_infix_bare [OF wf(5,6,3,4,1) refl, of m p] m b semi stop wf(2) by (simp add: Let_def)
    next
      case False
      have ts: "expr_tokens m' ?e = lparen # ?body @ [rparen]" using False by (simp add: Let_def)
      have bb: "begins (p_next_token p) (?body @ [rparen])" using b unfolding ts by simp
      have nx: "ps_curr (ahead (length ?body) (p_next_token p)) = rparen" using bb unfolding begins_append by simp
      have bb1: "begins (p_next_token p) ?body" using bb unfolding begins_append by simp
      have lp: "LOWEST < ?k" using infix_precedence [OF wf(1)] by (simp add: LOWEST_def)
      have r0: "token_precedence (tok_type rparen) = 0" by (rule other_precedence) (simp add: rparen_def m_infix_parse_fns_def)
      have "parse env (Parse_expression LOWEST) (p_next_token p) =
          parse env (Parse_operators LOWEST (Some ?e)) (ahead (length ?body - 1) (p_next_token p))"
        unfolding wf(2) by (rule reads_infix_bare [OF wf(5,6,3,4,1) refl lp bb1 peek_never_semicolon]) (simp only: nx r0 zero_le)
      moreover have "ps_peek (ahead (length ?body - 1) (p_next_token p)) = rparen"
        using nx by (simp only: peek_curr) simp
      ultimately have g: "parse env (Parse_expression LOWEST) (p_next_token p) = gives (Some ?e) (ahead (length ?body - 1) (p_next_token p))"
        using operators_stop [of "ahead (length ?body - 1) (p_next_token p)" LOWEST env "Some ?e"] r0 by simp
      show ?thesis unfolding ts by (rule reads_group [OF b [unfolded ts] _ g]) simp
    qed
  qed
qed (auto simp: reads_def m_prefix_parse_fns_def parse_leaf parse_leaves skip_semicolons_none parse_at(1))

lemma expression_reads:
  assumes "expr_wf e" "begins p (expr_tokens LOWEST e)" "tok_type (ps_peek p) \<noteq> TOKEN_SEMICOLON"
    "tok_type (ps_curr (ahead (length (expr_tokens LOWEST e)) p)) \<notin> set m_infix_parse_fns"
  shows "parse env (Parse_expression LOWEST) p = gives (Some e) (ahead (length (expr_tokens LOWEST e) - 1) p)"
proof -
  let ?n = "length (expr_tokens LOWEST e)"
  have "0 < ?n" using expr_tokens_ne [OF assms(1)] by simp
  then have pk: "ps_peek (ahead (?n - 1) p) = ps_curr (ahead ?n p)" by (simp add: peek_curr)
  have z: "token_precedence (tok_type (ps_curr (ahead ?n p))) = 0" by (rule other_precedence [OF assms(4)])
  have "parse env (Parse_expression LOWEST) p = parse env (Parse_operators LOWEST (Some e)) (ahead (?n - 1) p)"
    by (rule readsD [OF reads_expr [OF assms(1)] order_refl assms(2,3)]) (simp add: z)
  also have "\<dots> = gives (Some e) (ahead (?n - 1) p)" by (rule operators_stop, unfold pk z, rule zero_le)
  finally show ?thesis .
qed

section \<open>Statements as tokens\<close>

definition comma :: token where "comma = mk_token TOKEN_COMMA '',''"
definition equals :: token where "equals = mk_token TOKEN_EQ ''=''"
definition eof :: token where "eof = mk_token TOKEN_EOF ''EOF''"

abbreviation text_token :: "string \<Rightarrow> token" where
  "text_token s \<equiv> mk_token TOKEN_STRING s"

text \<open>Items with commas between them.\<close>

fun comma_list :: "('a \<Rightarrow> token list) \<Rightarrow> 'a list \<Rightarrow> token list" where
  "comma_list f [] = []"
| "comma_list f [x] = f x"
| "comma_list f (x # xs) = f x @ comma # comma_list f xs"

definition select_item :: "string \<times> string \<Rightarrow> token list" where
  "select_item i = (if snd i = [] then [text_token (fst i)]
     else [mk_token TOKEN_REDUCE (snd i), lparen, text_token (fst i), rparen])"

definition table_name :: "string \<Rightarrow> string \<Rightarrow> token list" where
  "table_name db tb = (if db = [] then [text_token tb] else [text_token db, mk_token TOKEN_DOT ''.'', text_token tb])"

definition where_tokens :: "expression option \<Rightarrow> token list" where
  "where_tokens w = (case w of None \<Rightarrow> [] | Some e \<Rightarrow> mk_token TOKEN_WHERE ''where'' # expr_tokens LOWEST e)"

definition select_tokens :: "token \<Rightarrow> (string \<times> string) list \<Rightarrow> string \<Rightarrow> string \<Rightarrow> expression option \<Rightarrow> token list" where
  "select_tokens t items db tb w =
     t # comma_list select_item items @ mk_token TOKEN_FROM ''from'' # table_name db tb @ where_tokens w"

lemma select_fields_step:
  assumes "begins p (select_item i @ x # xs)"
  shows "select_fields acc p = select_fields (acc @ [i])
    (if tok_type x = TOKEN_COMMA then p_next_token (ahead (length (select_item i)) p) else ahead (length (select_item i)) p)"
  using assms by (subst select_fields.simps) (cases i, auto simp: select_item_def curr_token_is_def next_ahead numeral_eq_Suc)

lemma select_fields_list:
  "begins p (comma_list select_item items @ [mk_token TOKEN_FROM f]) \<Longrightarrow>
    select_fields acc p = gives (acc @ items) (ahead (length (comma_list select_item items)) p)"
proof (induction select_item items arbitrary: p acc rule: comma_list.induct)
  case (1)
  then show ?case by (subst select_fields.simps) (simp add: curr_token_is_def)
next
  case (2 i)
  then have c: "ps_curr (ahead (length (select_item i)) p) = mk_token TOKEN_FROM f" by (simp add: begins_append)
  have "select_fields acc p = select_fields (acc @ [i]) (ahead (length (select_item i)) p)"
    using select_fields_step [of p i "mk_token TOKEN_FROM f" "[]" acc] 2 by simp
  then show ?case using c by (subst (asm) (2) select_fields.simps) (simp add: curr_token_is_def)
next
  case (3 i j js)
  let ?q = "p_next_token (ahead (length (select_item i)) p)"
  have b: "begins p (select_item i @ comma # comma_list select_item (j # js) @ [mk_token TOKEN_FROM f])" using 3(2) by simp
  have "begins ?q (comma_list select_item (j # js) @ [mk_token TOKEN_FROM f])" using b by (simp only: begins_append begins.simps)
  then have "select_fields (acc @ [i]) ?q = gives ((acc @ [i]) @ j # js) (ahead (length (comma_list select_item (j # js))) ?q)"
    by (rule 3(1))
  then show ?case using select_fields_step [OF b, of acc] by (simp add: comma_def add.commute)
qed

lemma dotted_table_name:
  assumes "begins p (table_name db tb @ [x])" "tok_type x \<noteq> TOKEN_DOT"
  shows "dotted_name p = (Some db, ahead (length (table_name db tb) - 1) p)"
    "ps_curr (ahead (length (table_name db tb) - 1) p) = text_token tb"
    "ps_peek (ahead (length (table_name db tb) - 1) p) = x"
  using assms by (cases "db = []"; simp add: dotted_name_def table_name_def peek_token_is_def ahead_def numeral_eq_Suc)+

lemma parse_select_unfold:
  "parse env Parse_select p =
     pbind (select_fields [] (p_next_token p)) (\<lambda>fs p1.
       case dotted_name (p_next_token p1) of
         (None, p2) \<Rightarrow> gives None p2
       | (Some db, p2) \<Rightarrow>
           (let from = fst (parse_string p2) in
            if peek_token_is TOKEN_EOF p2 then gives (Some (Select_node (ps_curr p) db [] [] fs from None)) p2
            else pbind (parse env (Parse_expression LOWEST) (p_next_token (p_next_token p2))) (\<lambda>where' p3.
                   gives (Some (Select_node (ps_curr p) db [] [] fs from where')) p3)))"
  by (subst parse.simps) (simp add: parse_select_def)

lemma parse_select_reads:
  assumes b: "begins p (select_tokens t items db tb w @ [eof])" and wf: "case w of Some e \<Rightarrow> expr_wf e | None \<Rightarrow> True"
  shows "parse env Parse_select p =
    gives (Some (Select_node t db [] [] items (Some (String_node (text_token tb) tb)) w)) (ahead (length (select_tokens t items db tb w) - 1) p)"
proof -
  let ?I = "comma_list select_item items" and ?T = "table_name db tb"
  have fields: "select_fields [] (p_next_token p) = gives items (ahead (length ?I) (p_next_token p))"
    using select_fields_list [of "p_next_token p" items "''from''" "[]"] b by (simp add: select_tokens_def begins_append)
  define p1 where "p1 = p_next_token (ahead (length ?I) (p_next_token p))"
  have b1: "begins p1 (?T @ where_tokens w @ [eof])" and t: "ps_curr p = t"
    using b by (simp_all add: select_tokens_def begins_append p1_def)
  obtain x xs where x: "where_tokens w @ [eof] = x # xs" "tok_type x \<noteq> TOKEN_DOT" "tok_type x = TOKEN_EOF \<longleftrightarrow> w = None"
    by (cases w) (auto simp: where_tokens_def eof_def)
  have "begins p1 (?T @ [x])" using b1 unfolding x(1) by (simp add: begins_append)
  note d = dotted_table_name [OF this x(2)]
  define q where "q = ahead (length ?T - 1) p1"
  have ne: "?T \<noteq> []" by (simp add: table_name_def)
  have q: "q = ahead (length ?I + length ?T + 1) p"
    using ne by (cases ?T) (simp_all add: q_def p1_def add.commute)
  let ?node = "\<lambda>w. Some (Select_node t db [] [] items (Some (String_node (text_token tb) tb)) w)"
  have run: "parse env Parse_select p = (if tok_type x = TOKEN_EOF then gives (?node None) q
      else pbind (parse env (Parse_expression LOWEST) (p_next_token (p_next_token q))) (\<lambda>w p3. gives (?node w) p3))"
    unfolding parse_select_unfold fields pbind_simps p1_def [symmetric] d(1) [folded q_def]
    by (simp add: parse_string_def peek_token_is_def d(2,3) [folded q_def] t del: ahead_simps)
  have len: "length (select_tokens t items db tb w) = length ?I + length ?T + 2 + length (where_tokens w)"
    by (simp add: select_tokens_def)
  show ?thesis
  proof (cases w)
    case None
    then show ?thesis using x(3) q len by (simp add: run where_tokens_def)
  next
    case (Some e)
    have nq: "p_next_token q = ahead (length ?T) p1" using ne by (cases ?T) (simp_all add: q_def)
    have be: "begins (p_next_token (p_next_token q)) (expr_tokens LOWEST e @ [eof])"
      using b1 Some by (simp add: begins_append where_tokens_def nq)
    have we: "expr_wf e" using wf Some by simp
    have "ps_curr (ahead (length (expr_tokens LOWEST e)) (p_next_token (p_next_token q))) = eof"
      using be unfolding begins_append by simp
    then have st: "tok_type (ps_curr (ahead (length (expr_tokens LOWEST e)) (p_next_token (p_next_token q)))) \<notin> set m_infix_parse_fns"
      by (simp only:) (simp add: eof_def m_infix_parse_fns_def)
    have bb: "begins (p_next_token (p_next_token q)) (expr_tokens LOWEST e)" using be unfolding begins_append by simp
    have ex: "parse env (Parse_expression LOWEST) (p_next_token (p_next_token q)) =
        gives (Some e) (ahead (length (expr_tokens LOWEST e) - 1) (p_next_token (p_next_token q)))"
      by (rule expression_reads [OF we bb peek_never_semicolon st])
    have l: "0 < length (expr_tokens LOWEST e)" using expr_tokens_ne [OF we] by simp
    have "tok_type x \<noteq> TOKEN_EOF" using x(3) Some by simp
    then have "parse env Parse_select p = gives (?node (Some e)) (ahead (length (expr_tokens LOWEST e) - 1) (p_next_token (p_next_token q)))"
      unfolding run ex by simp
    also have "ahead (length (expr_tokens LOWEST e) - 1) (p_next_token (p_next_token q)) = ahead (length (select_tokens t items db tb w) - 1) p"
      using l len Some by (cases "expr_tokens LOWEST e") (simp_all add: q where_tokens_def add.commute add.left_commute)
    finally show ?thesis using Some by simp
  qed
qed

lemma statement_stops:
  "tok_type (ps_peek q) = TOKEN_EOF \<Longrightarrow> parse env (Parse_operators m e) q = gives e q"
  by (rule operators_stop) (simp add: other_precedence m_infix_parse_fns_def)

lemma parse_statement_reads:
  assumes "map_of m_prefix_parse_fns (tok_type (ps_curr p)) = Some fn" "parse env fn p = gives (Some e) q"
    "tok_type (ps_peek q) = TOKEN_EOF"
  shows "parse_statement env p = gives (Some \<lparr>st_token = ps_curr p, st_expression = e\<rparr>) q"
proof -
  have "parse_expression env LOWEST p = gives (Some e) q"
    unfolding parse_expression_def parse_at(1) assms(1,2) option.case pbind_simps by (rule statement_stops [OF assms(3)])
  then show ?thesis using assms(3) by (simp add: parse_statement_def skip_semicolons_none)
qed

lemma parse_program_single:
  assumes "parse_statement env p = gives (Some s) q" "tok_type (ps_peek q) = TOKEN_EOF" "tok_type (ps_curr p) \<noteq> TOKEN_EOF"
  shows "parse_program env p = gives [s] (p_next_token q)"
  unfolding parse_program_def using assms
  by (subst parse_statements.simps, simp add: curr_token_is_def, subst parse_statements.simps, simp add: curr_token_is_def)

lemma ahead_last_peek: "xs \<noteq> [] \<Longrightarrow> begins p (xs @ [eof]) \<Longrightarrow> tok_type (ps_peek (ahead (length xs - 1) p)) = TOKEN_EOF"
  by (cases xs) (simp_all add: begins_append peek_curr eof_def)

section \<open>Insert statements\<close>

text \<open>A value is a token of one of the three types a value may have; a tag is always a text.\<close>

definition is_value :: "token \<Rightarrow> bool" where
  "is_value t \<longleftrightarrow> tok_type t \<in> {TOKEN_STRING, TOKEN_INTEGER, TOKEN_FLOAT}"

definition assignment :: "string \<times> token \<Rightarrow> token list" where
  "assignment a = [text_token (fst a), equals, snd a]"

definition insert_tokens :: "token \<Rightarrow> string \<Rightarrow> string \<Rightarrow> (string \<times> token) list \<Rightarrow> (string \<times> token) list \<Rightarrow> token \<Rightarrow> token list" where
  "insert_tokens t db tb tags fs ts =
     t # mk_token TOKEN_INTO ''into'' # table_name db tb @ (if tags = [] then [] else comma # comma_list assignment tags) @
     comma_list assignment fs @ [ts]"

lemma insert_tags_list:
  "begins p (comma_list assignment tags @ [x]) \<Longrightarrow> tags \<noteq> [] \<Longrightarrow> tok_type x \<noteq> TOKEN_COMMA \<Longrightarrow>
    insert_tags acc p = gives (acc @ map (\<lambda>(k, v). k @ ''='' @ tok_literal v) tags) (ahead (length (comma_list assignment tags)) p)"
proof (induction assignment tags arbitrary: p acc rule: comma_list.induct)
  case (2 a)
  then show ?case by (subst insert_tags.simps)
    (cases a, simp add: assignment_def peek_token_is_def curr_token_is_def equals_def ahead_def numeral_eq_Suc)
next
  case (3 a b bs)
  let ?q = "p_next_token (p_next_token (p_next_token (p_next_token p)))"
  have "begins p (assignment a @ comma # comma_list assignment (b # bs) @ [x])" using 3(2) by simp
  then have c: "begins ?q (comma_list assignment (b # bs) @ [x])" "ps_curr p = text_token (fst a)" "ps_peek p = equals"
    "ps_peek (p_next_token p) = snd a" "ps_peek (p_next_token (p_next_token p)) = comma"
    by (simp_all add: assignment_def)
  have q: "ahead n ?q = ahead (Suc (Suc (Suc (Suc n)))) p" for n by simp
  from 3(1) [OF c(1) _ 3(4)] show ?case using c(2-5)
    by (subst insert_tags.simps) (simp add: peek_token_is_def curr_token_is_def equals_def comma_def case_prod_beta assignment_def q add.commute del: ahead_simps)
qed simp

lemma insert_values_list:
  "begins p (comma_list assignment fs @ [x]) \<Longrightarrow> fs \<noteq> [] \<Longrightarrow> tok_type x \<noteq> TOKEN_COMMA \<Longrightarrow>
    insert_values ks vs p = gives (ks @ map fst fs, vs @ map (tok_literal \<circ> snd) (filter (is_value \<circ> snd) fs))
      (ahead (length (comma_list assignment fs)) p)"
proof (induction assignment fs arbitrary: p ks vs rule: comma_list.induct)
  case (2 a)
  then show ?case by (subst insert_values.simps)
    (cases a, auto simp add: assignment_def peek_token_is_def curr_token_is_def equals_def ahead_def numeral_eq_Suc is_value_def)
next
  case (3 a b bs)
  let ?q = "p_next_token (p_next_token (p_next_token (p_next_token p)))"
  have "begins p (assignment a @ comma # comma_list assignment (b # bs) @ [x])" using 3(2) by simp
  then have c: "begins ?q (comma_list assignment (b # bs) @ [x])" "ps_curr p = text_token (fst a)" "ps_peek p = equals"
    "ps_peek (p_next_token p) = snd a" "ps_peek (p_next_token (p_next_token p)) = comma"
    by (simp_all add: assignment_def)
  have q: "ahead n ?q = ahead (Suc (Suc (Suc (Suc n)))) p" for n by simp
  let ?vs = "if is_value (snd a) then vs @ [tok_literal (snd a)] else vs"
  have "insert_values ks vs p = insert_values (ks @ [fst a]) ?vs ?q" using c(2-5)
    by (subst insert_values.simps) (simp add: peek_token_is_def curr_token_is_def equals_def comma_def is_value_def)
  then show ?case using 3(1) [OF c(1) _ 3(4), of "ks @ [fst a]" ?vs] by (simp add: q assignment_def add.commute del: ahead_simps)
qed simp

definition insert_node :: "token \<Rightarrow> string \<Rightarrow> string \<Rightarrow> (string \<times> token) list \<Rightarrow> (string \<times> token) list \<Rightarrow> string \<Rightarrow> expression" where
  "insert_node t db tb tags fs ts = Insert_node t db tb
     (map (\<lambda>(k, v). k @ ''='' @ tok_literal v) tags) (map fst fs) (map (tok_literal \<circ> snd) (filter (is_value \<circ> snd) fs)) ts"

lemma parse_insert_reads:
  assumes b: "begins p (insert_tokens t db tb tags fs ts @ [eof])" and ne: "fs \<noteq> []"
    and ts: "tok_type ts = TOKEN_INTEGER" "pe_get_time env (tok_literal ts) = None" "length (tok_literal ts) = 19"
  shows "parse_insert env p = gives (Some (insert_node t db tb tags fs (tok_literal ts))) (ahead (length (insert_tokens t db tb tags fs ts) - 1) p)"
proof -
  let ?T = "table_name db tb" and ?G = "if tags = [] then [] else comma # comma_list assignment tags" and ?F = "comma_list assignment fs"
  define p1 where "p1 = p_next_token (p_next_token p)"
  define p2 where "p2 = ahead (length ?T) p1"
  define p3 where "p3 = ahead (length ?G) p2"
  define p4 where "p4 = ahead (length ?F) p3"
  have bs: "begins p1 (?T @ ?G @ ?F @ [ts, eof])" "begins p2 (?G @ ?F @ [ts, eof])" "begins p3 (?F @ [ts, eof])" "begins p4 [ts, eof]"
    using b unfolding insert_tokens_def p4_def p3_def p2_def p1_def by (simp_all only: begins_append append.simps append_assoc begins.simps)
  have h: "ps_curr p = t" "ps_peek p = mk_token TOKEN_INTO ''into''" using b by (simp_all add: insert_tokens_def)
  obtain a fs' where fs: "fs = a # fs'" using ne by (cases fs) auto
  obtain fx where fx: "?F = text_token (fst a) # fx" unfolding fs by (cases fs') (simp_all add: assignment_def)
  have f0: "ps_curr p3 = text_token (fst a)" using bs(3) unfolding fx by simp
  obtain y ys where y: "?G @ ?F @ [ts, eof] = y # ys" "tok_type y \<noteq> TOKEN_DOT" "tok_type y = TOKEN_COMMA \<longleftrightarrow> tags \<noteq> []"
    using fx by (cases "tags = []") (auto simp: comma_def)
  have "begins p1 (?T @ [y])" using bs(1) unfolding y(1) by (simp add: begins_append)
  note d = dotted_table_name [OF this y(2)]
  have nt: "?T \<noteq> []" by (simp add: table_name_def)
  have nx: "p_next_token (ahead (length ?T - 1) p1) = p2" using nt by (cases ?T) (simp_all add: p2_def)
  have str: "ps_curr p1 = text_token (if db = [] then tb else db)"
    using bs(1) by (cases "db = []") (simp_all add: table_name_def)
  have pk: "ps_peek (p_next_token p) = text_token (if db = [] then tb else db)"
    using str unfolding p1_def by simp
  have c2: "ps_curr p2 = y" using bs(2) unfolding y(1) by simp
  have tg: "(if curr_token_is TOKEN_COMMA p2 then insert_tags [] (p_next_token p2) else gives [] p2) =
      gives (map (\<lambda>(k, v). k @ ''='' @ tok_literal v) tags) p3"
  proof (cases "tags = []")
    case True
    then show ?thesis using y(3) by (simp add: curr_token_is_def c2 p3_def)
  next
    case False
    have "begins (p_next_token p2) (comma_list assignment tags @ ?F @ [ts, eof])" using bs(2) False by simp
    then have bt: "begins (p_next_token p2) (comma_list assignment tags @ [text_token (fst a)])" unfolding fx by (simp add: begins_append)
    have "insert_tags [] (p_next_token p2) = gives ([] @ map (\<lambda>(k, v). k @ ''='' @ tok_literal v) tags)
        (ahead (length (comma_list assignment tags)) (p_next_token p2))"
      by (rule insert_tags_list [OF bt False]) simp
    then show ?thesis using False y(3) by (simp add: curr_token_is_def c2 p3_def)
  qed
  have vt: "insert_values [] [] p3 = gives (map fst fs, map (tok_literal \<circ> snd) (filter (is_value \<circ> snd) fs)) p4"
  proof -
    have bv: "begins p3 (?F @ [ts])" using bs(3) by (simp add: begins_append)
    have "tok_type ts \<noteq> TOKEN_COMMA" using ts by simp
    then have "insert_values [] [] p3 = gives ([] @ map fst fs, [] @ map (tok_literal \<circ> snd) (filter (is_value \<circ> snd) fs))
        (ahead (length ?F) p3)"
      by (rule insert_values_list [OF bv ne])
    then show ?thesis by (simp add: p4_def)
  qed
  have c4: "ps_curr p4 = ts" using bs(4) by simp
  have tm: "insert_timestamp env p4 = (Some (tok_literal ts), p4)"
    using ts by (simp add: insert_timestamp_def curr_token_is_def c4)
  have st: "curr_token_is TOKEN_INTO (p_next_token p) \<and> peek_token_is TOKEN_STRING (p_next_token p)"
    unfolding curr_token_is_def peek_token_is_def pk curr_next h by simp
  have dn: "dotted_name (p_next_token (p_next_token p)) = (Some db, ahead (length ?T - 1) p1)" using d(1) by (simp only: p1_def)
  have "parse_insert env p = gives (Some (insert_node t db tb tags fs (tok_literal ts))) p4"
    unfolding parse_insert_def Let_def if_P [OF st] dn prod.case option.case nx tg pbind_simps vt tm
    by (simp add: insert_node_def h d(2) [unfolded One_nat_def])
  also have "p4 = ahead (length (insert_tokens t db tb tags fs ts) - 1) p"
    by (simp add: p4_def p3_def p2_def p1_def insert_tokens_def add.commute add.left_commute)
  finally show ?thesis .
qed

section \<open>Create statements\<close>

definition field_tokens :: "string \<times> token \<Rightarrow> token list" where
  "field_tokens f = [text_token (fst f), snd f]"

definition create_tokens :: "token \<Rightarrow> string \<Rightarrow> (string \<times> token) list \<Rightarrow> token \<Rightarrow> token list" where
  "create_tokens t tb fs eng = t # mk_token TOKEN_TABLE ''table'' # text_token tb # lparen # comma_list field_tokens fs @
     [rparen, mk_token TOKEN_ENGINE ''engine'', equals, eng]"

lemma create_fields_list:
  "begins p (comma_list field_tokens fs @ [rparen]) \<Longrightarrow>
    create_fields acc p = gives (acc @ map (\<lambda>f. (fst f, tok_literal (snd f))) fs) (ahead (length (comma_list field_tokens fs)) p)"
proof (induction field_tokens fs arbitrary: p acc rule: comma_list.induct)
  case 1
  then show ?case by (subst create_fields.simps) (simp add: curr_token_is_def rparen_def)
next
  case (2 f)
  then show ?case by (subst create_fields.simps, subst create_fields.simps)
    (simp add: field_tokens_def curr_token_is_def rparen_def next_ahead numeral_eq_Suc)
next
  case (3 f g gs)
  let ?q = "p_next_token (p_next_token (p_next_token p))"
  have "begins p (field_tokens f @ comma # comma_list field_tokens (g # gs) @ [rparen])" using 3(2) by simp
  then have c: "begins ?q (comma_list field_tokens (g # gs) @ [rparen])" "ps_curr p = text_token (fst f)" "ps_peek p = snd f"
    "ps_peek (p_next_token p) = comma"
    by (simp_all add: field_tokens_def)
  have q: "ahead n ?q = ahead (Suc (Suc (Suc n))) p" for n by simp
  from 3(1) [OF c(1)] show ?case using c(2-4)
    by (subst create_fields.simps) (simp add: curr_token_is_def comma_def field_tokens_def q del: ahead_simps)
qed

lemma parse_create_reads:
  assumes b: "begins p (create_tokens t tb fs eng @ [eof])" and eng: "tok_type eng \<in> {TOKEN_TSM, TOKEN_CLT}"
  shows "parse_create p = gives (Some (Create_node CREATE_TABLE tb (map (\<lambda>f. (fst f, tok_literal (snd f))) fs) (tok_literal eng)))
    (ahead (length (create_tokens t tb fs eng) - 1) p)"
proof -
  let ?F = "comma_list field_tokens fs"
  define p1 where "p1 = ahead 4 p"
  define p2 where "p2 = ahead (length ?F) p1"
  have p4: "p_next_token (p_next_token (p_next_token (p_next_token p))) = p1" by (simp add: p1_def ahead_def numeral_eq_Suc)
  have bs: "begins p1 (?F @ [rparen, mk_token TOKEN_ENGINE ''engine'', equals, eng, eof])"
    using b unfolding create_tokens_def p4 [symmetric] by simp
  have b2: "begins p2 [rparen, mk_token TOKEN_ENGINE ''engine'', equals, eng, eof]" using bs unfolding p2_def begins_append by blast
  have h: "ps_peek p = mk_token TOKEN_TABLE ''table''" "ps_peek (p_next_token p) = text_token tb"
      "ps_peek (p_next_token (p_next_token p)) = lparen"
    using b by (simp_all add: create_tokens_def)
  have bf: "begins p1 (?F @ [rparen])" using bs by (simp add: begins_append)
  have f: "create_fields [] p1 = gives (map (\<lambda>f. (fst f, tok_literal (snd f))) fs) p2"
    using create_fields_list [OF bf, of "[]"] by (simp add: p2_def)
  have c: "ps_curr p2 = rparen" "ps_peek p2 = mk_token TOKEN_ENGINE ''engine''" "ps_peek (p_next_token (p_next_token p2)) = eng"
    using b2 by simp_all
  have e: "create_engine tb fl p2 = gives (Some (Create_node CREATE_TABLE tb fl (tok_literal eng))) (ahead 3 p2)" for fl
    using eng c by (auto simp: create_engine_def peek_token_is_def curr_token_is_def numeral_eq_Suc ahead_def)
  have "parse_create p = gives (Some (Create_node CREATE_TABLE tb (map (\<lambda>f. (fst f, tok_literal (snd f))) fs) (tok_literal eng))) (ahead 3 p2)"
    unfolding parse_create_def Let_def p4 f using h c e
    by (simp add: curr_token_is_def peek_token_is_def rparen_def lparen_def)
  also have "ahead 3 p2 = ahead (length (create_tokens t tb fs eng) - 1) p"
    by (simp add: create_tokens_def p2_def p1_def numeral_eq_Suc)
  finally show ?thesis .
qed


section \<open>The properties\<close>

lemma program_of_statement:
  assumes "parse env fn p = gives (Some e) (ahead (length ts - 1) p)" "begins p (ts @ [eof])" "ts \<noteq> []"
    "map_of m_prefix_parse_fns (tok_type (hd ts)) = Some fn" "tok_type (hd ts) \<noteq> TOKEN_EOF"
  shows "parse_program env p = gives [\<lparr>st_token = hd ts, st_expression = e\<rparr>] (ahead (length ts) p)"
proof -
  have c: "ps_curr p = hd ts" using assms(2,3) by (cases ts) simp_all
  have pk: "tok_type (ps_peek (ahead (length ts - 1) p)) = TOKEN_EOF" by (rule ahead_last_peek [OF assms(3,2)])
  have "parse_statement env p = gives (Some \<lparr>st_token = ps_curr p, st_expression = e\<rparr>) (ahead (length ts - 1) p)"
    by (rule parse_statement_reads [OF _ assms(1) pk]) (simp add: c assms(4))
  then have "parse_program env p = gives [\<lparr>st_token = ps_curr p, st_expression = e\<rparr>] (p_next_token (ahead (length ts - 1) p))"
    by (rule parse_program_single) (use pk c assms(5) in simp_all)
  then show ?thesis using assms(3) by (cases ts) (simp_all add: c)
qed

text \<open>An environment in which no literal is a date.\<close>

definition demo_parse_env :: "unit parse_env" where
  "demo_parse_env = \<lparr>pe_get_time = \<lambda>_. None, pe_mktime = \<lambda>_. 0, pe_now = \<lambda>_. 0\<rparr>"

text \<open>A condition: \<open>((a - 1) - 2) = 3\<close>.\<close>

definition number_node :: "string \<Rightarrow> expression" where
  "number_node s = Integer_node (mk_token TOKEN_INTEGER s) (atol s)"

definition demo_condition :: expression where
  "demo_condition = (let minus = mk_token TOKEN_MINUS ''-''; op = (\<lambda>t l r. Infix_node t (tok_literal t) (Some l) (Some r)) in
     op equals (op minus (op minus (String_node (text_token ''a'') ''a'') (number_node ''1'')) (number_node ''2'')) (number_node ''3''))"

text \<open>
  C38. A select reads back: a list of fields and aggregates, a table name with or without a database, and a
  condition with the grouping of its tree, written as tokens, make exactly that one statement, and
  the parser stands on the end of the input.
\<close>

theorem select_roundtrip:
  assumes "begins p (select_tokens t items db tb w @ [eof])" "tok_type t = TOKEN_SELECT" "\<And>e. w = Some e \<Longrightarrow> expr_wf e"
  shows "parse_program env p =
    gives [\<lparr>st_token = t, st_expression = Select_node t db [] [] items (Some (String_node (text_token tb) tb)) w\<rparr>]
      (ahead (length (select_tokens t items db tb w)) p)"
proof -
  have "case w of Some e \<Rightarrow> expr_wf e | None \<Rightarrow> True" using assms(3) by (cases w) simp_all
  note r = parse_select_reads [OF assms(1) this]
  have "hd (select_tokens t items db tb w) = t" "select_tokens t items db tb w \<noteq> []" by (simp_all add: select_tokens_def)
  with program_of_statement [OF r assms(1)] assms(2) show ?thesis by (simp add: m_prefix_parse_fns_def)
qed

lemma select_demo_tokens:
  "spec_tokens 20 ''select max(temp), hum from db.t where a - 1 - 2 = 3'' =
     [mk_token TOKEN_SELECT ''select'', mk_token TOKEN_REDUCE ''max'', lparen, text_token ''temp'', rparen, comma, text_token ''hum'',
      mk_token TOKEN_FROM ''from'', text_token ''db'', mk_token TOKEN_DOT ''.'', text_token ''t'', mk_token TOKEN_WHERE ''where'',
      text_token ''a'', mk_token TOKEN_MINUS ''-'', mk_token TOKEN_INTEGER ''1'', mk_token TOKEN_MINUS ''-'', mk_token TOKEN_INTEGER ''2'',
      equals, mk_token TOKEN_INTEGER ''3'', eof]"
  by code_simp

theorem select_roundtrip_witness:
  "\<exists>p'. parse_program demo_parse_env (mk_parser (mk_lexer ''select max(temp), hum from db.t where a - 1 - 2 = 3'')) =
     gives [\<lparr>st_token = mk_token TOKEN_SELECT ''select'', st_expression = Select_node (mk_token TOKEN_SELECT ''select'') ''db'' [] []
       [(''temp'', ''max''), (''hum'', [])] (Some (String_node (text_token ''t'') ''t'')) (Some demo_condition)\<rparr>] p'"
proof -
  have "begins (mk_parser (mk_lexer ''select max(temp), hum from db.t where a - 1 - 2 = 3''))
      (select_tokens (mk_token TOKEN_SELECT ''select'') [(''temp'', ''max''), (''hum'', [])] ''db'' ''t'' (Some demo_condition) @ [eof])"
    unfolding begins_text using select_demo_tokens
    by (simp add: select_tokens_def select_item_def table_name_def where_tokens_def demo_condition_def Let_def equals_def number_node_def
      token_precedence_def m_precedence_def LOWEST_def COMPARE_def SUM_PREC_def numeral_eq_Suc del: spec_tokens.simps)
  from select_roundtrip [OF this, of demo_parse_env] show ?thesis
    by (simp add: demo_condition_def number_node_def Let_def m_infix_parse_fns_def equals_def)
qed

lemma insert_program:
  assumes "begins p (insert_tokens t db tb tags fs ts @ [eof])" "tok_type t = TOKEN_INSERT" "fs \<noteq> []"
    "tok_type ts = TOKEN_INTEGER" "length (tok_literal ts) = 19" "pe_get_time env (tok_literal ts) = None"
  shows "parse_program env p = gives [\<lparr>st_token = t, st_expression = insert_node t db tb tags fs (tok_literal ts)\<rparr>]
      (ahead (length (insert_tokens t db tb tags fs ts)) p)"
proof -
  have i: "parse env Parse_insert p = parse_insert env p" by (subst parse.simps) simp
  have "hd (insert_tokens t db tb tags fs ts) = t" "insert_tokens t db tb tags fs ts \<noteq> []" by (simp_all add: insert_tokens_def)
  with program_of_statement [OF parse_insert_reads [OF assms(1,3,4,6,5), folded i] assms(1)] assms(2)
  show ?thesis by (simp add: m_prefix_parse_fns_def)
qed

text \<open>
  An insert reads back: tags, fields with their values in order, and a time stamp of 19 digits make
  exactly that one statement.
\<close>

theorem insert_roundtrip:
  assumes "begins p (insert_tokens t db tb tags fs ts @ [eof])" "tok_type t = TOKEN_INSERT" "fs \<noteq> []"
    "\<forall>a \<in> set fs. is_value (snd a)" "tok_type ts = TOKEN_INTEGER" "length (tok_literal ts) = 19"
    "pe_get_time env (tok_literal ts) = None"
  shows "parse_program env p = gives [\<lparr>st_token = t, st_expression = Insert_node t db tb
        (map (\<lambda>(k, v). k @ ''='' @ tok_literal v) tags) (map fst fs) (map (tok_literal \<circ> snd) fs) (tok_literal ts)\<rparr>]
      (ahead (length (insert_tokens t db tb tags fs ts)) p)"
proof -
  have "filter (is_value \<circ> snd) fs = fs" using assms(4) by (intro filter_True) simp
  then show ?thesis using insert_program [OF assms(1-3,5-7)] by (simp add: insert_node_def)
qed

lemma insert_demo_tokens:
  "spec_tokens 16 ''INSERT into tb,room=b1 t1=21,hum=7.25 1702880186879347823'' =
     [mk_token TOKEN_INSERT ''insert'', mk_token TOKEN_INTO ''into'', text_token ''tb'', comma, text_token ''room'', equals, text_token ''b1'',
      text_token ''t1'', equals, mk_token TOKEN_INTEGER ''21'', comma, text_token ''hum'', equals, mk_token TOKEN_FLOAT ''7.25'',
      mk_token TOKEN_INTEGER ''1702880186879347823'', eof]"
  by code_simp

theorem insert_roundtrip_witness:
  "\<exists>p'. parse_program demo_parse_env
      (mk_parser (mk_lexer ''INSERT into tb,room=b1 t1=21,hum=7.25 1702880186879347823'')) =
    gives [\<lparr>st_token = mk_token TOKEN_INSERT ''insert'', st_expression = Insert_node (mk_token TOKEN_INSERT ''insert'') [] ''tb''
      [''room=b1''] [''t1'', ''hum''] [''21'', ''7.25''] ''1702880186879347823''\<rparr>] p'"
proof -
  have "begins (mk_parser (mk_lexer ''INSERT into tb,room=b1 t1=21,hum=7.25 1702880186879347823''))
     (insert_tokens (mk_token TOKEN_INSERT ''insert'') [] ''tb'' [(''room'', text_token ''b1'')]
       [(''t1'', mk_token TOKEN_INTEGER ''21''), (''hum'', mk_token TOKEN_FLOAT ''7.25'')] (mk_token TOKEN_INTEGER ''1702880186879347823'') @ [eof])"
    unfolding begins_text using insert_demo_tokens
    by (simp add: insert_tokens_def assignment_def table_name_def numeral_eq_Suc del: spec_tokens.simps)
  from insert_roundtrip [OF this, of demo_parse_env]
  show ?thesis by (auto simp: is_value_def demo_parse_env_def)
qed

text \<open>
  A create table reads back, with the fields and their types in order and the engine.
\<close>

theorem create_table_roundtrip:
  assumes "begins p (create_tokens t tb fs eng @ [eof])" "tok_type t = TOKEN_CREATE" "tok_type eng \<in> {TOKEN_TSM, TOKEN_CLT}"
  shows "parse_program env p =
    gives [\<lparr>st_token = t, st_expression = Create_node CREATE_TABLE tb (map (\<lambda>f. (fst f, tok_literal (snd f))) fs) (tok_literal eng)\<rparr>]
      (ahead (length (create_tokens t tb fs eng)) p)"
proof -
  have i: "parse_create p = parse env Parse_create p" by (subst parse.simps) simp
  have "hd (create_tokens t tb fs eng) = t" "create_tokens t tb fs eng \<noteq> []" by (simp_all add: create_tokens_def)
  with program_of_statement [OF parse_create_reads [OF assms(1,3), unfolded i] assms(1)] assms(2)
  show ?thesis by (simp add: m_prefix_parse_fns_def)
qed


lemma create_demo_tokens:
  "spec_tokens 14 ''create table tb(a varchar, b float) engine = tsm'' =
     [mk_token TOKEN_CREATE ''create'', mk_token TOKEN_TABLE ''table'', text_token ''tb'', lparen, text_token ''a'', text_token ''varchar'',
      comma, text_token ''b'', text_token ''float'', rparen, mk_token TOKEN_ENGINE ''engine'', equals, mk_token TOKEN_TSM ''tsm'', eof]"
  by code_simp

theorem create_table_roundtrip_witness:
  "\<exists>p'. parse_program demo_parse_env (mk_parser (mk_lexer ''create table tb(a varchar, b float) engine = tsm'')) =
    gives [\<lparr>st_token = mk_token TOKEN_CREATE ''create'',
      st_expression = Create_node CREATE_TABLE ''tb'' [(''a'', ''varchar''), (''b'', ''float'')] ''tsm''\<rparr>] p'"
proof -
  have "begins (mk_parser (mk_lexer ''create table tb(a varchar, b float) engine = tsm''))
     (create_tokens (mk_token TOKEN_CREATE ''create'') ''tb'' [(''a'', text_token ''varchar''), (''b'', text_token ''float'')]
       (mk_token TOKEN_TSM ''tsm'') @ [eof])"
    unfolding begins_text using create_demo_tokens
    by (simp add: create_tokens_def field_tokens_def numeral_eq_Suc del: spec_tokens.simps)
  from create_table_roundtrip [OF this, of demo_parse_env] show ?thesis by simp
qed

text \<open>
  C36. Expressions round-trip through the grammar: an expression written as tokens, with parentheses only
  where a context binds as strongly as its operator and with operators of one rank associating to the
  left, is read back as the same tree; the parser stops on its last token, with no new error,
  when a token follows that is no infix operator.
\<close>

theorem expression_roundtrip:
  assumes "expr_wf e" "begins p (expr_tokens LOWEST e)" "tok_type (ps_peek p) \<noteq> TOKEN_SEMICOLON"
    "tok_type (ps_curr (ahead (length (expr_tokens LOWEST e)) p)) \<notin> set m_infix_parse_fns"
  shows "parse_expression env LOWEST p = gives (Some e) (ahead (length (expr_tokens LOWEST e) - 1) p)"
  unfolding parse_expression_def by (rule expression_reads [OF assms])

theorem expression_roundtrip_witness:
  "\<exists>p'. parse_expression demo_parse_env LOWEST (mk_parser (mk_lexer ''a - 1 - 2 = 3'')) = gives (Some demo_condition) p'"
proof -
  have "spec_tokens 8 ''a - 1 - 2 = 3'' = [text_token ''a'', mk_token TOKEN_MINUS ''-'', mk_token TOKEN_INTEGER ''1'',
      mk_token TOKEN_MINUS ''-'', mk_token TOKEN_INTEGER ''2'', equals, mk_token TOKEN_INTEGER ''3'', eof]" by code_simp
  then have b: "begins (mk_parser (mk_lexer ''a - 1 - 2 = 3'')) (expr_tokens LOWEST demo_condition @ [eof])"
    unfolding begins_text
    by (simp add: demo_condition_def Let_def equals_def number_node_def
      token_precedence_def m_precedence_def LOWEST_def COMPARE_def SUM_PREC_def numeral_eq_Suc del: spec_tokens.simps)
  then have "ps_curr (ahead (length (expr_tokens LOWEST demo_condition)) (mk_parser (mk_lexer ''a - 1 - 2 = 3''))) = eof"
    by (simp add: begins_append)
  with b expression_roundtrip [of demo_condition "mk_parser (mk_lexer ''a - 1 - 2 = 3'')" demo_parse_env] show ?thesis
    by (simp add: begins_append eof_def mk_parser_def demo_condition_def number_node_def Let_def m_infix_parse_fns_def equals_def)
qed


section \<open>Errors\<close>

lemma select_fields_stuck:
  assumes "tok_type (ps_curr p) \<notin> {TOKEN_FROM, TOKEN_ASTERISK, TOKEN_REDUCE, TOKEN_STRING}"
  shows "select_fields fs p = None"
proof (rule ccontr)
  assume "select_fields fs p \<noteq> None"
  then obtain r where "select_fields fs p = Some r" by blast
  then have "tok_type (ps_curr p) \<in> {TOKEN_FROM, TOKEN_ASTERISK, TOKEN_REDUCE, TOKEN_STRING}"
  proof (induction rule: select_fields.raw_induct [rotated, consumes 1])
    case (1 rec fs p r)
    then show ?case by (auto simp: curr_token_is_def split: if_splits)
  qed
  then show False using assms by simp
qed

lemma select_fields_items:
  "begins p (concat (map (\<lambda>i. select_item i @ [comma]) items) @ [x]) \<Longrightarrow>
    \<exists>q. ps_curr q = x \<and> select_fields acc p = select_fields (acc @ items) q"
proof (induction items arbitrary: p acc)
  case (Cons i items)
  let ?rest = "concat (map (\<lambda>i. select_item i @ [comma]) items) @ [x]"
  have b: "begins p (select_item i @ comma # ?rest)" using Cons.prems by simp
  have "begins (p_next_token (ahead (length (select_item i)) p)) ?rest" using b unfolding begins_append begins.simps by blast
  from Cons.IH [OF this, of "acc @ [i]"] show ?case
    using select_fields_step [OF b, of acc] by (simp add: comma_def)
qed auto

text \<open>
  A select list does not skip what it does not expect: if, at its start or after a comma, a token comes
  that is neither a name, an aggregate, an asterisk nor FROM (a number, say, or the end of the
  input), parse_program never returns.
\<close>

theorem select_never_returns:
  assumes "begins p (t # concat (map (\<lambda>i. select_item i @ [comma]) items) @ [x])" "tok_type t = TOKEN_SELECT"
    "tok_type x \<notin> {TOKEN_FROM, TOKEN_ASTERISK, TOKEN_REDUCE, TOKEN_STRING}"
  shows "parse_program env p = None"
proof -
  have "begins (p_next_token p) (concat (map (\<lambda>i. select_item i @ [comma]) items) @ [x])" and t: "ps_curr p = t" using assms(1) by simp_all
  from select_fields_items [OF this(1), of "[]"] have "select_fields [] (p_next_token p) = None"
    using select_fields_stuck assms(3) by force
  then have "parse env Parse_select p = None" unfolding parse_select_unfold by simp
  then have "parse_statement env p = None" using t assms(2)
    by (simp add: parse_statement_def parse_expression_def parse_at(1) m_prefix_parse_fns_def)
  then show ?thesis using t assms(2) unfolding parse_program_def
    by (subst parse_statements.simps) (simp add: curr_token_is_def)
qed

theorem select_never_returns_witness:
  "parse_program demo_parse_env (mk_parser (mk_lexer ''select a, 5 from t'')) = None"
proof -
  have "spec_tokens 4 ''select a, 5 from t'' = [mk_token TOKEN_SELECT ''select'', text_token ''a'', comma, mk_token TOKEN_INTEGER ''5'']"
    by code_simp
  then have "begins (mk_parser (mk_lexer ''select a, 5 from t''))
     (mk_token TOKEN_SELECT ''select'' # concat (map (\<lambda>i. select_item i @ [comma]) [(''a'', [])]) @ [mk_token TOKEN_INTEGER ''5''])"
    unfolding begins_text by (simp add: select_item_def numeral_eq_Suc del: spec_tokens.simps)
  from select_never_returns [OF this] show ?thesis by simp
qed

text \<open>
  A value that is neither a text nor a number is reported on the console and dropped, but the name of its
  field is kept: the statement has more fields than values, and the values after the gap stand
  under the wrong names.
\<close>

theorem insert_drops_values:
  assumes "begins p (insert_tokens t db tb tags fs ts @ [eof])" "tok_type t = TOKEN_INSERT"
    "\<exists>a \<in> set fs. \<not> is_value (snd a)" "tok_type ts = TOKEN_INTEGER" "length (tok_literal ts) = 19"
    "pe_get_time env (tok_literal ts) = None"
  shows "\<exists>tag_texts vals p'. parse_program env p =
      gives [\<lparr>st_token = t, st_expression = Insert_node t db tb tag_texts (map fst fs) vals (tok_literal ts)\<rparr>] p' \<and>
    length vals < length (map fst fs)"
proof -
  have "length (filter (is_value \<circ> snd) fs) < length fs"
    using assms(3) by (metis comp_apply length_filter_less)
  moreover have "fs \<noteq> []" using assms(3) by auto
  ultimately show ?thesis using insert_program [OF assms(1,2) _ assms(4-6)] by (auto simp: insert_node_def)
qed

theorem insert_drops_values_witness:
  "\<exists>tag_texts vals p'. parse_program demo_parse_env
      (mk_parser (mk_lexer ''insert into tb t1=null,t2=7 1702880186879347823'')) =
      gives [\<lparr>st_token = mk_token TOKEN_INSERT ''insert'', st_expression = Insert_node (mk_token TOKEN_INSERT ''insert'') [] ''tb'' tag_texts
        [''t1'', ''t2''] vals ''1702880186879347823''\<rparr>] p' \<and> length vals < 2"
proof -
  have "spec_tokens 12 ''insert into tb t1=null,t2=7 1702880186879347823'' =
     [mk_token TOKEN_INSERT ''insert'', mk_token TOKEN_INTO ''into'', text_token ''tb'', text_token ''t1'', equals, mk_token TOKEN_NULL ''null'',
      comma, text_token ''t2'', equals, mk_token TOKEN_INTEGER ''7'', mk_token TOKEN_INTEGER ''1702880186879347823'', eof]" by code_simp
  then have "begins (mk_parser (mk_lexer ''insert into tb t1=null,t2=7 1702880186879347823''))
     (insert_tokens (mk_token TOKEN_INSERT ''insert'') [] ''tb'' []
       [(''t1'', mk_token TOKEN_NULL ''null''), (''t2'', mk_token TOKEN_INTEGER ''7'')] (mk_token TOKEN_INTEGER ''1702880186879347823'') @ [eof])"
    unfolding begins_text by (simp add: insert_tokens_def assignment_def table_name_def numeral_eq_Suc del: spec_tokens.simps)
  from insert_drops_values [OF this, of demo_parse_env]
  show ?thesis by (simp add: is_value_def numeral_eq_Suc demo_parse_env_def)
qed

end
