(* ===== verification/Parser_Returns.thy ===== *)
theory Parser_Returns
  imports Parser_Properties
begin

text \<open>
  Termination of the parser: every function returns on a text without the token SELECT, by induction on
  the tokens that are left.
\<close>

section \<open>Parsing ends\<close>

text \<open>
  From \<open>n\<close> tokens ahead on there is only the end of the input, and SELECT never comes; with \<open>g\<close>, behind every INSERT
  come INTO and a name.
\<close>

definition ends_in :: "bool \<Rightarrow> nat \<Rightarrow> parser \<Rightarrow> bool" where
  "ends_in g n p \<longleftrightarrow> (\<forall>k. n \<le> k \<longrightarrow> tok_type (ps_curr (ahead k p)) = TOKEN_EOF) \<and> (\<forall>k. tok_type (ps_curr (ahead k p)) \<noteq> TOKEN_SELECT) \<and>
     (g \<longrightarrow> (\<forall>k. tok_type (ps_curr (ahead k p)) = TOKEN_INSERT \<longrightarrow>
        tok_type (ps_curr (ahead (Suc k) p)) = TOKEN_INTO \<and> tok_type (ps_curr (ahead (Suc (Suc k)) p)) = TOKEN_STRING))"

text \<open>The only error is the one of an INSERT without INTO and a name.\<close>

definition returns_in :: "bool \<Rightarrow> nat \<Rightarrow> 'a parsed \<Rightarrow> bool" where
  "returns_in g n r \<longleftrightarrow> (case r of None \<Rightarrow> False | Some (Inl e) \<Rightarrow> e = No_return \<and> \<not> g | Some (Inr (_, q)) \<Rightarrow> ends_in g n q)"

lemma returns_simps [simp]: "\<not> returns_in g n None" "returns_in g n (Some (Inl e)) \<longleftrightarrow> e = No_return \<and> \<not> g" "returns_in g n (gives x q) = ends_in g n q"
  by (simp_all add: returns_in_def)

lemma returns_result: "returns_in (\<not> b) n m \<Longrightarrow> \<exists>r. m = Some r \<and> (\<forall>e. r = Inl e \<longrightarrow> e = No_return \<and> b)"
  by (cases m; cases "the m") (auto simp: returns_in_def)

lemma ends_mono: "ends_in g m p \<Longrightarrow> m \<le> n \<Longrightarrow> ends_in g n p"
  by (auto simp: ends_in_def)

lemma returns_mono: "returns_in g m r \<Longrightarrow> m \<le> n \<Longrightarrow> returns_in g n r"
  by (auto simp: returns_in_def split: option.splits sum.splits prod.splits intro: ends_mono)

lemma returns_bind: "returns_in g m r \<Longrightarrow> (\<And>x q. ends_in g m q \<Longrightarrow> returns_in g n (f x q)) \<Longrightarrow> returns_in g n (pbind r f)"
  by (cases r; cases "the r") (auto simp: pbind_def)

lemma ends_next: "ends_in g n p \<Longrightarrow> ends_in g (n - 1) (p_next_token p)"
  by (simp add: ends_in_def)

lemma ends_next' [simp, intro]: "ends_in g n p \<Longrightarrow> ends_in g n (p_next_token p)"
  using ends_mono [OF ends_next] by simp

lemma ends_curr: "ends_in g n p \<Longrightarrow> tok_type (ps_curr p) \<noteq> TOKEN_EOF \<Longrightarrow> 0 < n"
  unfolding ends_in_def by (cases n) (auto dest!: spec [of _ 0] simp: le_Suc_eq)

lemma ends_peek: "ends_in g n p \<Longrightarrow> tok_type (ps_peek p) \<noteq> TOKEN_EOF \<Longrightarrow> 1 < n"
  using ends_curr [OF ends_next [of g n p]] by simp

lemma no_select: "ends_in g n p \<Longrightarrow> tok_type (ps_curr p) \<noteq> TOKEN_SELECT"
  by (metis ahead_simps(1) ends_in_def)

lemma next_update [simp]:
  "p_next_token (p\<lparr>ps_errors := es\<rparr>) = (p_next_token p)\<lparr>ps_errors := es\<rparr>" "p_next_token (p\<lparr>ps_clock := c\<rparr>) = (p_next_token p)\<lparr>ps_clock := c\<rparr>"
  by (simp_all add: p_next_token_def split: prod.split)

lemma ahead_update [simp]: "ahead k (p\<lparr>ps_errors := es\<rparr>) = (ahead k p)\<lparr>ps_errors := es\<rparr>" "ahead k (p\<lparr>ps_clock := c\<rparr>) = (ahead k p)\<lparr>ps_clock := c\<rparr>"
  by (induction k; simp add: ahead_def)+

lemma ends_update [simp]: "ends_in g n (p\<lparr>ps_errors := es\<rparr>) = ends_in g n p" "ends_in g n (p\<lparr>ps_clock := c\<rparr>) = ends_in g n p"
  by (simp_all add: ends_in_def)

lemma ends_Suc: "ends_in g (Suc n) p \<Longrightarrow> ends_in g n (p_next_token p)"
  using ends_next [of g "Suc n" p] by simp

lemma skip_to_eof_returns: "ends_in g n p \<Longrightarrow> returns_in g n (skip_to_eof p)"
proof (induction n arbitrary: p)
  case 0
  then show ?case by (subst skip_to_eof.simps) (auto simp: curr_token_is_def dest: ends_curr)
next
  case (Suc n)
  then show ?case by (subst skip_to_eof.simps) (use Suc.IH [OF ends_Suc [OF Suc.prems]] Suc.prems in \<open>auto intro: returns_mono\<close>)
qed

lemma skip_semicolons_returns: "ends_in g n p \<Longrightarrow> returns_in g n (skip_semicolons p)"
proof (induction n arbitrary: p)
  case 0
  then show ?case by (subst skip_semicolons.simps) (auto simp: peek_token_is_def dest: ends_peek)
next
  case (Suc n)
  then show ?case by (subst skip_semicolons.simps) (use Suc.IH [OF ends_Suc [OF Suc.prems]] Suc.prems in \<open>auto intro: returns_mono\<close>)
qed

lemma create_fields_returns: "ends_in g n p \<Longrightarrow> returns_in g n (create_fields fs p)"
proof (induction n arbitrary: fs p rule: less_induct)
  case (less n)
  let ?p2 = "p_next_token (p_next_token p)"
  let ?q = "if curr_token_is TOKEN_COMMA ?p2 then p_next_token ?p2 else ?p2"
  show ?case
  proof (cases "tok_type (ps_curr p) = TOKEN_EOF")
    case False
    then have "0 < n" using ends_curr less.prems by blast
    moreover have "ends_in g (n - 1) ?q" using ends_next [OF less.prems] by auto
    ultimately have "returns_in g n (create_fields fs' ?q)" for fs'
      using less.IH [of "n - 1" ?q fs'] by (simp add: returns_mono [of g "n - 1"])
    then show ?thesis using less.prems by (subst create_fields.simps) (simp add: Let_def)
  qed (use less.prems in \<open>subst create_fields.simps, simp add: curr_token_is_def\<close>)
qed

lemma insert_loop_ends:
  assumes "ends_in g n p" "peek_token_is TOKEN_EQ p"
  shows "n - 1 < n" "ends_in g (n - 1) (p_next_token (p_next_token (p_next_token (p_next_token p))))"
    "ends_in g n (p_next_token (p_next_token (p_next_token p)))"
  using ends_peek [OF assms(1)] ends_next [OF assms(1)] assms by (auto simp: peek_token_is_def)

lemma insert_tags_returns: "ends_in g n p \<Longrightarrow> returns_in g n (insert_tags ts p)"
proof (induction n arbitrary: ts p rule: less_induct)
  case (less n)
  show ?case
  proof (cases "peek_token_is TOKEN_EQ p")
    case True
    note e = insert_loop_ends [OF less.prems True]
    have "returns_in g n (insert_tags ts' (p_next_token (p_next_token (p_next_token (p_next_token p)))))" for ts'
      using less.IH [OF e(1,2)] by (rule returns_mono) simp
    then show ?thesis using e(3) by (subst insert_tags.simps) (simp add: Let_def less.prems)
  qed (use less.prems in \<open>subst insert_tags.simps, simp\<close>)
qed

lemma insert_values_returns: "ends_in g n p \<Longrightarrow> returns_in g n (insert_values fs vs p)"
proof (induction n arbitrary: fs vs p rule: less_induct)
  case (less n)
  show ?case
  proof (cases "peek_token_is TOKEN_EQ p")
    case True
    note e = insert_loop_ends [OF less.prems True]
    have "returns_in g n (insert_values fs' vs' (p_next_token (p_next_token (p_next_token (p_next_token p)))))" for fs' vs'
      using less.IH [OF e(1,2)] by (rule returns_mono) simp
    then show ?thesis using e(3) by (subst insert_values.simps) (simp add: Let_def less.prems)
  qed (use less.prems in \<open>subst insert_values.simps, simp\<close>)
qed

lemma dotted_name_ends: "ends_in g n p \<Longrightarrow> ends_in g n (snd (dotted_name p))"
  by (auto simp: dotted_name_def Let_def)

lemma parse_show_returns: "ends_in g n p \<Longrightarrow> returns_in g n (parse_show p)"
  using dotted_name_ends [of g n "p_next_token p"]
  by (auto simp: parse_show_def Let_def intro!: returns_bind [OF skip_to_eof_returns] split: prod.split option.split)

lemma create_engine_ends: "ends_in g n p \<Longrightarrow> returns_in g n (create_engine name fs p)"
  by (simp add: create_engine_def Let_def)

lemma parse_create_returns:
  assumes "ends_in g n p"
  shows "returns_in g n (parse_create p)"
proof -
  have skip: "returns_in g n (pbind (skip_to_eof q) (\<lambda>_ p. gives None p))" if "ends_in g n q" for q :: parser
    by (rule returns_bind [OF skip_to_eof_returns [OF that]]) simp
  have "returns_in g n (pbind (create_fields [] q) (\<lambda>fs p. let p = if peek_token_is TOKEN_RPAREN p then p_next_token p else p in
      if curr_token_is TOKEN_EOF p then pbind (skip_to_eof p) (\<lambda>_ p. gives None p) else create_engine name fs p))"
    if "ends_in g n q" for q name
    by (rule returns_bind [OF create_fields_returns [OF that]]) (simp add: Let_def skip create_engine_ends)
  then show ?thesis using assms by (simp add: parse_create_def Let_def skip)
qed

lemma insert_timestamp_ends: "ends_in g n p \<Longrightarrow> ends_in g n (snd (insert_timestamp env p))"
  by (simp add: insert_timestamp_def split: option.split)

lemma ends_insert:
  "ends_in g n p \<Longrightarrow> tok_type (ps_curr p) = TOKEN_INSERT \<Longrightarrow> g \<Longrightarrow>
   tok_type (ps_curr (p_next_token p)) = TOKEN_INTO \<and> tok_type (ps_peek (p_next_token p)) = TOKEN_STRING"
  using peek_curr [of 0 p] peek_curr [of 1 p] next_ahead [of p] unfolding ends_in_def by auto

lemma parse_insert_returns:
  assumes "ends_in g n p" "tok_type (ps_curr p) = TOKEN_INSERT"
  shows "returns_in g n (parse_insert env p)"
proof -
  let ?p = "p_next_token (p_next_token p)"
  have d: "ends_in g n (snd (dotted_name ?p))" by (rule dotted_name_ends) (use assms in blast)
  have rest: "returns_in g n (pbind (insert_values [] [] q) (\<lambda>fv p. case insert_timestamp env p of
      (None, p) \<Rightarrow> gives None p | (Some ts, p) \<Rightarrow> gives (Some (Insert_node t db tb tags (fst fv) (snd fv) ts)) p))"
    if "ends_in g n q" for q t db tb tags
  proof (rule returns_bind [OF insert_values_returns [OF that]])
    fix fv q assume "ends_in g n q"
    from insert_timestamp_ends [OF this, of env]
    show "returns_in g n (case insert_timestamp env q of
      (None, p) \<Rightarrow> gives None p | (Some ts, p) \<Rightarrow> gives (Some (Insert_node t db tb tags (fst fv) (snd fv) ts)) p)"
      by (auto split: prod.split option.split)
  qed
  have tags: "returns_in g n (if curr_token_is TOKEN_COMMA q then insert_tags [] (p_next_token q) else gives [] q)" if "ends_in g n q" for q
    using that insert_tags_returns [OF ends_next'] by simp
  obtain db q where dn: "dotted_name ?p = (db, q)" "ends_in g n q" using d by (cases "dotted_name ?p") simp
  show ?thesis
  proof (cases "curr_token_is TOKEN_INTO (p_next_token p) \<and> peek_token_is TOKEN_STRING (p_next_token p)")
    case True
    then show ?thesis using dn returns_bind [OF tags rest, OF ends_next' [OF dn(2)]]
      by (cases db) (simp_all add: parse_insert_def Let_def)
  next
    case False
    then have "\<not> g" using assms(2) ends_insert [OF assms(1)] by (auto simp: curr_token_is_def peek_token_is_def)
    moreover have "parse_insert env p = Some (Inl No_return)" using False by (simp only: parse_insert_def Let_def if_False)
    ultimately show ?thesis by simp
  qed
qed


lemma prefix_fn_cases:
  assumes "map_of m_prefix_parse_fns ty = Some fn"
  shows "ty \<noteq> TOKEN_EOF" "ty = TOKEN_SELECT \<or> fn \<in> {Parse_integer, Parse_float, Parse_group, Parse_prefix, Parse_string, Parse_null,
    Parse_identifier, Parse_show, Parse_use, Parse_create, Parse_insert, Parse_system}"
  using assms by (auto simp: m_prefix_parse_fns_def split: if_splits)

lemma insert_fn: "map_of m_prefix_parse_fns ty = Some Parse_insert \<Longrightarrow> ty = TOKEN_INSERT"
  by (auto simp: m_prefix_parse_fns_def split: if_splits)

lemma expect_peer_ends: "ends_in g n p \<Longrightarrow> ends_in g n (snd (expect_peer_token ty p))"
  by (simp add: expect_peer_token_def peek_error_def)

lemma parse_system_unfold:
  "parse env Parse_system p =
     (let p1 = p_next_token p; p2 = p_next_token (p_next_token p1) in
      if peek_token_is TOKEN_EOF p2 then gives (Some (System_node (ps_curr p) (curr_literal p1) (curr_literal p2) None)) p2
      else pbind (parse env (Parse_expression LOWEST) (p_next_token (p_next_token p2))) (\<lambda>where' p3.
             gives (Some (System_node (ps_curr p) (curr_literal p1) (curr_literal p2) where')) p3))"
  by (subst parse.simps) (simp add: parse_system_def)

lemma parse_statement_fns:
  "parse env Parse_show p = parse_show p" "parse env Parse_create p = parse_create p" "parse env Parse_insert p = parse_insert env p"
  "parse env Parse_use p = Some (Inr (parse_use p))"
  by (subst parse.simps, simp)+

lemma leaf_returns:
  assumes "ends_in g n p"
  shows "returns_in g n (Some (Inr (parse_integer p)))" "returns_in g n (Some (Inr (parse_float p)))"
    "returns_in g n (Some (Inr (parse_string p)))" "returns_in g n (Some (Inr (parse_identifier p)))" "returns_in g n (Some (Inr (parse_use p)))"
  using assms by (simp_all add: parse_leaves parse_use_def Let_def del: ahead_simps)

text \<open>One step of the induction on the tokens left: the prefix functions, given the expressions after the first token.\<close>

lemma prefix_returns:
  assumes p: "ends_in g n p" and fn: "map_of m_prefix_parse_fns (tok_type (ps_curr p)) = Some fn"
    and IH: "\<And>m q. ends_in g (n - 1) q \<Longrightarrow> returns_in g n (parse env (Parse_expression m) q)"
  shows "returns_in g n (parse env fn p)"
proof -
  have p1: "ends_in g (n - 1) (p_next_token p)" by (rule ends_next [OF p])
  have group: "returns_in g n (parse env Parse_group p)"
    unfolding parse_at(5) by (rule returns_bind [OF IH [OF p1]])
      (use expect_peer_ends in \<open>simp add: case_prod_beta\<close>)
  have prefix: "returns_in g n (parse env Parse_prefix p)"
    unfolding parse_at(4) by (rule returns_bind [OF IH [OF p1]]) simp
  have system: "returns_in g n (parse env Parse_system p)"
    unfolding parse_system_unfold Let_def using p p1 by (auto intro!: returns_bind [OF IH])
  have null: "returns_in g n (parse_null p)"
    unfolding parse_null_def by (rule returns_bind [OF skip_semicolons_returns [OF p]]) simp
  have "fn \<in> {Parse_integer, Parse_float, Parse_group, Parse_prefix, Parse_string, Parse_null,
      Parse_identifier, Parse_show, Parse_use, Parse_create, Parse_insert, Parse_system}"
    using prefix_fn_cases(2) [OF fn] no_select [OF p] by blast
  moreover have "returns_in g n (parse_insert env p)" if "fn = Parse_insert"
    using parse_insert_returns [OF p insert_fn] fn that by simp
  ultimately show ?thesis
    by (elim insertE emptyE) (simp_all only: leaf_returns [OF p] group prefix null system parse_statement_fns parse_leaf
      parse_show_returns [OF p] parse_create_returns [OF p])
qed

lemma expression_returns:
  "ends_in g n p \<Longrightarrow> returns_in g n (parse env (Parse_expression m) p) \<and> returns_in g n (parse env (Parse_operators m e) p)"
proof (induction n arbitrary: p m e rule: less_induct)
  case (less n)
  have ops: "returns_in g n (parse env (Parse_operators m e) p)" if p: "ends_in g n p" for p m e
  proof (cases "tok_type (ps_peek p) \<noteq> TOKEN_SEMICOLON \<and> m < token_precedence (tok_type (ps_peek p)) \<and> tok_type (ps_peek p) \<in> set m_infix_parse_fns")
    case True
    then have "tok_type (ps_peek p) \<noteq> TOKEN_EOF" by (auto simp: m_infix_parse_fns_def)
    then have n: "n - 1 < n" using ends_peek [OF p] by simp
    let ?p = "p_next_token p"
    have "returns_in g (n - 1) (parse env (Parse_infix e) ?p)"
      unfolding parse_at(3) by (rule returns_bind [of g "n - 1"]) (use less.IH [OF n] ends_next [OF p] in auto)
    moreover have "returns_in g n (parse env (Parse_operators m x) q)" if "ends_in g (n - 1) q" for x q
      by (rule returns_mono [OF conjunct2 [OF less.IH [OF n that]]]) simp
    ultimately have "returns_in g n (pbind (parse env (Parse_infix e) ?p) (\<lambda>e p. parse env (Parse_operators m e) p))"
      by (rule returns_bind)
    then show ?thesis using True p by (subst parse_at(2)) simp
  next
    case False
    then have "parse env (Parse_operators m e) p = gives e p"
      by (subst parse_at(2)) (auto simp: peek_token_is_def peek_token_precedence_def)
    then show ?thesis using p by simp
  qed
  have "returns_in g n (parse env (Parse_expression m) p)"
  proof (cases "map_of m_prefix_parse_fns (tok_type (ps_curr p))")
    case None
    then show ?thesis using less.prems by (subst parse_at(1)) (simp add: no_prefix_parse_fn_error_def)
  next
    case (Some fn)
    have pos: "0 < n" using ends_curr [OF less.prems] prefix_fn_cases(1) [OF Some] by blast
    have "returns_in g n (parse env fn p)"
    proof (rule prefix_returns [OF less.prems Some])
      fix m q assume "ends_in g (n - 1) q"
      with less.IH [of "n - 1" q m] pos have "returns_in g (n - 1) (parse env (Parse_expression m) q)" by simp
      then show "returns_in g n (parse env (Parse_expression m) q)" by (rule returns_mono) simp
    qed
    then have "returns_in g n (pbind (parse env fn p) (\<lambda>e p. parse env (Parse_operators m e) p))" by (rule returns_bind) (rule ops)
    then show ?thesis using Some by (subst parse_at(1)) simp
  qed
  then show ?case using ops less.prems by blast
qed

lemma parse_statement_returns:
  assumes "ends_in g n p"
  shows "returns_in g n (parse_statement env p)"
proof -
  have "returns_in g n (parse_expression env LOWEST p)" unfolding parse_expression_def by (rule conjunct1 [OF expression_returns [OF assms]])
  then show ?thesis unfolding parse_statement_def
    by (rule returns_bind) (auto split: option.split intro!: returns_bind [OF skip_semicolons_returns])
qed

lemma parse_statements_returns: "ends_in g n p \<Longrightarrow> returns_in g n (parse_statements env ss p)"
proof (induction n arbitrary: ss p rule: less_induct)
  case (less n)
  show ?case
  proof (cases "curr_token_is TOKEN_EOF p")
    case True
    then show ?thesis using less.prems by (subst parse_statements.simps) simp
  next
    case False
    then have n: "n - 1 < n" using ends_curr [OF less.prems] by (simp add: curr_token_is_def)
    have "returns_in g n (parse_statements env ss' (p_next_token q))" if "ends_in g n q" for q ss'
      using less.IH [OF n ends_next [OF that]] by (rule returns_mono) simp
    then have "returns_in g n (pbind (parse_statement env p) (\<lambda>stmt p.
        parse_statements env (case stmt of Some s \<Rightarrow> ss @ [s] | None \<Rightarrow> ss) (p_next_token p)))"
      by (intro returns_bind [OF parse_statement_returns [OF less.prems]])
    then show ?thesis using False by (subst parse_statements.simps) simp
  qed
qed


text \<open>Somewhere an INSERT is not followed by INTO and a name.\<close>

definition bad_insert :: "token list \<Rightarrow> bool" where
  "bad_insert ts \<longleftrightarrow> (\<exists>k < length ts - 2. tok_type (ts ! k) = TOKEN_INSERT \<and>
     \<not> (tok_type (ts ! (k + 1)) = TOKEN_INTO \<and> tok_type (ts ! (k + 2)) = TOKEN_STRING))"

lemma new_parser_ends:
  assumes "\<forall>t \<in> set (spec_tokens (length s) s). tok_type t \<noteq> TOKEN_SELECT"
  shows "ends_in (\<not> bad_insert (spec_tokens (length s + 2) s)) (length s) (mk_parser (mk_lexer s))"
proof -
  let ?p = "mk_parser (mk_lexer s)"
  have curr: "ps_curr (ahead k ?p) = spec_tokens (Suc k) s ! k" for k
  proof -
    have "begins ?p (spec_tokens (Suc k) s)" unfolding begins_text by (simp only: length_spec_tokens)
    then show ?thesis by (rule begins_nth) (simp add: length_spec_tokens del: spec_tokens.simps)
  qed
  have at: "ps_curr (ahead k ?p) = spec_tokens n s ! k" if "k < n" for k n
  proof -
    have "spec_tokens (Suc k) s ! k = spec_tokens n s ! k"
      using take_spec_tokens [of "Suc k" "n - Suc k" s] that by (metis le_add_diff_inverse lessI nth_take Suc_leI)
    then show ?thesis by (simp only: curr)
  qed
  have end': "ps_curr (ahead k ?p) = mk_token TOKEN_EOF ''EOF''" if "length s \<le> k" for k
    using that unfolding curr by (rule spec_tokens_end)
  have "tok_type (ps_curr (ahead k ?p)) \<noteq> TOKEN_SELECT" for k
  proof (cases "k < length s")
    case True
    then have "spec_tokens (length s) s ! k \<in> set (spec_tokens (length s) s)" by (simp add: length_spec_tokens)
    then show ?thesis using assms at [OF True] by metis
  next
    case False
    then show ?thesis using end' by simp
  qed
  moreover have "tok_type (ps_curr (ahead (Suc k) ?p)) = TOKEN_INTO \<and> tok_type (ps_curr (ahead (Suc (Suc k)) ?p)) = TOKEN_STRING"
    if good: "\<not> bad_insert (spec_tokens (length s + 2) s)" and ins: "tok_type (ps_curr (ahead k ?p)) = TOKEN_INSERT" for k
  proof -
    have k: "k < length s" using end' [of k] ins by (cases "k < length s") auto
    then have "tok_type (spec_tokens (length s + 2) s ! k) = TOKEN_INSERT" using ins at [of k "length s + 2"] by simp
    then have "tok_type (spec_tokens (length s + 2) s ! (k + 1)) = TOKEN_INTO \<and> tok_type (spec_tokens (length s + 2) s ! (k + 2)) = TOKEN_STRING"
      using good k unfolding bad_insert_def length_spec_tokens by auto
    then show ?thesis using at [of "Suc k" "length s + 2"] at [of "Suc (Suc k)" "length s + 2"] k by simp
  qed
  ultimately show ?thesis using end' by (simp add: ends_in_def)
qed

lemma parse_statements_end:
  "parse_statements env ss p = Some r \<Longrightarrow> \<forall>stmts q. r = Inr (stmts, q) \<longrightarrow> tok_type (ps_curr q) = TOKEN_EOF"
proof (induction rule: parse_statements.raw_induct [rotated, consumes 1])
  case (1 rec env ss p r)
  then show ?case by (auto simp: curr_token_is_def pbind_eq_Some split: if_splits)
qed

text \<open>
  C37. On a text in which the word \<open>select\<close> does not occur as a token \<open>parse_program\<close> returns, and it has then read the
  whole input, unless it flowed off the end of \<open>parse_insert\<close>; that needs an \<open>insert\<close> in the text that is not followed by \<open>into\<close>
  and a name. No other error occurs, and every loop and recursion of the parser makes progress.
\<close>

theorem parser_returns:
  assumes "\<forall>t \<in> set (spec_tokens (length s) s). tok_type t \<noteq> TOKEN_SELECT"
  shows "\<exists>r. parse_program env (mk_parser (mk_lexer s)) = Some r \<and> (case r of
      Inr (_, q) \<Rightarrow> tok_type (ps_curr q) = TOKEN_EOF
    | Inl e \<Rightarrow> e = No_return \<and> bad_insert (spec_tokens (length s + 2) s))"
proof -
  have "returns_in (\<not> bad_insert (spec_tokens (length s + 2) s)) (length s) (parse_program env (mk_parser (mk_lexer s)))"
    unfolding parse_program_def by (rule parse_statements_returns [OF new_parser_ends [OF assms]])
  from returns_result [OF this] show ?thesis
    using parse_statements_end [of env "[]"] by (fastforce simp: parse_program_def simp del: spec_tokens.simps split: sum.split)
qed

theorem parser_returns_witness:
  "\<exists>stmts q. parse_program demo_parse_env (mk_parser (mk_lexer ''insert into t v=1; show ((,'')) = Some (Inr (stmts, q)) \<and> tok_type (ps_curr q) = TOKEN_EOF"
proof -
  have "\<forall>t \<in> set (spec_tokens (length ''insert into t v=1; show ((,'') ''insert into t v=1; show ((,''). tok_type t \<noteq> TOKEN_SELECT" by code_simp
  from parser_returns [OF this, of demo_parse_env]
  obtain r where r: "parse_program demo_parse_env (mk_parser (mk_lexer ''insert into t v=1; show ((,'')) = Some r" "case r of
      Inr (_, q) \<Rightarrow> tok_type (ps_curr q) = TOKEN_EOF
    | Inl e \<Rightarrow> e = No_return \<and> bad_insert (spec_tokens (length ''insert into t v=1; show ((,'' + 2) ''insert into t v=1; show ((,'')" by blast
  have "\<not> bad_insert (spec_tokens (length ''insert into t v=1; show ((,'' + 2) ''insert into t v=1; show ((,'')" by code_simp
  then show ?thesis using r by (cases r) auto
qed

end
