(* ===== verification/Controller_Inserts.thy ===== *)
theory Controller_Inserts
  imports Controller_Properties
begin

text \<open>
  What an insert does through the controller, and how the monitor gets a window to the flush queue that
  nobody writes to any more.
\<close>

section \<open>One point through the controller\<close>

definition writer_points :: "writer \<Rightarrow> string \<Rightarrow> string \<Rightarrow> (time_point \<times> string) list" where
  "writer_points w fn key = (case wr_field_map w fn of None \<Rightarrow> [] | Some f \<Rightarrow> win_points f key)"

text \<open>The field under a name is in order, and no null pointer stands for the window \<open>key\<close>.\<close>

definition field_ready :: "data_type \<Rightarrow> string \<Rightarrow> string \<Rightarrow> writer \<Rightarrow> bool" where
  "field_ready junk fn key w \<longleftrightarrow> (case wr_field_map w fn of
     None \<Rightarrow> True
   | Some f \<Rightarrow> field_wf junk f \<and> f_field_name f = fn \<and> \<not> f_status f \<and> f_shard_skip_map f key \<noteq> Some None)"

lemma get_field_ready:
  assumes "field_ready junk fn key w" "get_field fn ty w = (f, w1)"
  shows "field_wf junk f" "f_field_name f = fn" "f_shard_skip_map f key \<noteq> Some None" "win_points f key = writer_points w fn key"
    "fw_data_deque w1 = fw_data_deque w"
proof -
  have "field_wf junk f \<and> f_field_name f = fn \<and> f_shard_skip_map f key \<noteq> Some None \<and> win_points f key = writer_points w fn key \<and>
      fw_data_deque w1 = fw_data_deque w"
  proof (cases "wr_field_map w fn")
    case None
    then show ?thesis using assms
      by (auto simp: get_field_def Let_def writer_points_def win_points_def field_wf_def mk_field_def sl_attach_def f_attach_def)
  next
    case (Some f0)
    then show ?thesis using assms by (auto simp: get_field_def field_ready_def writer_points_def)
  qed
  then show "field_wf junk f" "f_field_name f = fn" "f_shard_skip_map f key \<noteq> Some None" "win_points f key = writer_points w fn key"
    "fw_data_deque w1 = fw_data_deque w" by auto
qed

text \<open>\<open>write\<close> with the clock readings taken and the shard made.\<close>

definition point_shard :: "write_env \<Rightarrow> time_point \<Rightarrow> string" where
  "point_shard env t = timestamp_to_shard_key env (to_time_t t)"

lemma write_point_eq:
  assumes "named_type ty" "get_field fn ty w = (f, w1)" "s = (if mon then data else k @ fn)" "d = (if mon then [] else data)"
  shows "write_point env t k data ty fn db tb mon w =
    res_bind (field_write (we_rand env) (we_junk_type env) (we_clock env (wr_clock w)) (we_clock env (wr_clock w + 1)) (point_shard env t) t d db tb s
      (f\<lparr>f_index_block_meta_key := s\<rparr>) ((ensure_shard (point_shard env t) w1)\<lparr>wr_clock := wr_clock w + 2\<rparr>))
      (\<lambda>(d', f, w). Inr (d', w\<lparr>wr_field_map := (wr_field_map w)(fn \<mapsto> f)\<rparr>))"
proof -
  have "wr_clock (ensure_shard i w1) = wr_clock w" for i
    using assms(2) by (auto simp: get_field_def Let_def ensure_shard_def set_shard_def split: option.splits if_splits)
  then show ?thesis using assms by (simp add: write_point_def point_shard_def clock_now_def Let_def)
qed

lemma ensure_shard_deque [simp]: "fw_data_deque (ensure_shard i w) = fw_data_deque w"
  by (simp add: ensure_shard_def set_shard_def)

lemma write_point_step:
  assumes "named_type ty" "s = (if mon then data else k @ fn)" "d = (if mon then [] else data)"
    "key = combination_key (point_shard env t) s" "field_ready (we_junk_type env) fn key w"
  shows "\<exists>d' w'. write_point env t k data ty fn db tb mon w = Inr (d', w') \<and>
    window_step (we_junk_type env) fn (point_shard env t) s (waiting_after t d (writer_points w fn key)) (writer_points w' fn key)
      (fw_data_deque w) (fw_data_deque w')"
proof -
  obtain f w1 where f: "get_field fn ty w = (f, w1)" by fastforce
  note r = get_field_ready [OF assms(5) f]
  let ?f = "f\<lparr>f_index_block_meta_key := s\<rparr>" and ?w = "(ensure_shard (point_shard env t) w1)\<lparr>wr_clock := wr_clock w + 2\<rparr>"
  have wf: "field_wf (we_junk_type env) ?f" "f_shard_skip_map ?f key \<noteq> Some None" using r by (simp_all add: field_wf_def)
  obtain d' f' w' where fw: "field_write (we_rand env) (we_junk_type env) (we_clock env (wr_clock w)) (we_clock env (wr_clock w + 1))
        (point_shard env t) t d db tb s ?f ?w = Inr (d', f', w')"
      "window_step (we_junk_type env) (f_field_name ?f) (point_shard env t) s (waiting_after t d (win_points ?f key)) (win_points f' key)
        (fw_data_deque ?w) (fw_data_deque w')"
    using field_write_step [OF wf(1) assms(4) wf(2)] by blast
  have "win_points ?f key = win_points f key" by (simp add: win_points_def)
  then show ?thesis unfolding write_point_eq [OF assms(1) f assms(2,3)] fw(1) using fw(2) r by (simp add: writer_points_def)
qed


section \<open>A window that nobody writes to\<close>

lemma field_write_due:
  assumes "field_wf junk f" "f_shard_skip_map f key = Some (Some win)" "key = combination_key shard s" "\<not> win_need_reset win"
    "sl_list (win_list win) \<noteq> []" "passed_seconds 3 (win_last_time win) now'"
  shows "\<exists>f' w' b. field_write rand junk now now' shard t [] db tb s f w = Inr ([], f', w') \<and> win_points f' key = [] \<and>
    fw_data_deque w' = fw_data_deque w @ [b] \<and> block_of_points junk (f_field_name f) shard s (sl_list (win_list win)) b"
proof -
  have wf: "window_wf junk win" using assms(1,2) by (simp add: field_wf_def)
  have "sl_size (win_list win) = length (sl_list (win_list win))" using wf sl_size_ok by (auto simp: window_wf_def)
  then have due: "should_flush_data now' (win_last_time win) (sl_size (win_list win))" using assms(5,6) by (simp add: should_flush_data_def)
  obtain win' w' b where fl: "flush_window junk db tb shard s f win w = Inr (win', w')" "sl_list (win_list win') = []"
      "fw_data_deque w' = fw_data_deque w @ [b]" "block_of_points junk (f_field_name f) shard s (sl_list (win_list win)) b"
    using flush_window_block [OF wf assms(5)] by blast
  have "field_write rand junk now now' shard t [] db tb s f w =
      Inr ([], f\<lparr>f_shard_skip_map := (f_shard_skip_map f)(key \<mapsto> Some win')\<rparr>, w')"
    unfolding field_write_def Let_def assms(3) [symmetric] using assms(2,4) due fl(1) by simp
  then show ?thesis using fl by (auto simp: win_points_def)
qed

text \<open>
  The window \<open>shard @ s\<close> of the field \<open>fn\<close> holds \<open>kvs\<close> and is three seconds old at every later reading of the clock;
  \<open>queue\<close> is the queue of its writer.
\<close>

definition idle_window ::
    "write_env \<Rightarrow> string \<Rightarrow> string \<Rightarrow> string \<Rightarrow> string \<Rightarrow> string \<Rightarrow> (time_point \<times> string) list \<Rightarrow> data_block list \<Rightarrow> controller \<Rightarrow> bool" where
  "idle_window env db tb fn shard s kvs queue c \<longleftrightarrow> exists_table db tb (ct_file c) \<and> mea_field_exist db tb fn c \<and>
     (\<exists>w f win. find_writer db tb c = Some (Some w) \<and> fw_data_deque w = queue \<and> wr_field_map w fn = Some f \<and>
        field_wf (we_junk_type env) f \<and> f_field_name f = fn \<and> \<not> f_status f \<and> s \<noteq> [] \<and>
        f_shard_skip_map f (shard @ s) = Some (Some win) \<and> \<not> win_need_reset win \<and> sl_list (win_list win) = kvs \<and> kvs \<noteq> [] \<and>
        (\<forall>n. ct_clock c \<le> n \<longrightarrow> passed_seconds 3 (win_last_time win) (we_clock env n)))"

lemma idle_windowE:
  assumes "idle_window env db tb fn shard s kvs queue c"
  obtains w f win where "exists_table db tb (ct_file c)" "mea_field_exist db tb fn c" "find_writer db tb c = Some (Some w)"
    "fw_data_deque w = queue" "wr_field_map w fn = Some f" "field_wf (we_junk_type env) f" "f_field_name f = fn" "\<not> f_status f" "s \<noteq> []"
    "f_shard_skip_map f (shard @ s) = Some (Some win)" "\<not> win_need_reset win" "sl_list (win_list win) = kvs" "kvs \<noteq> []"
    "\<forall>n. ct_clock c \<le> n \<longrightarrow> passed_seconds 3 (win_last_time win) (we_clock env n)"
  using assms unfolding idle_window_def by (elim conjE exE) (rule that)

text \<open>The callback does not throw for an item: when its table has a writer, the field is known and the shard is a date.\<close>

definition item_ok :: "('tm, 'f) ctl_env \<Rightarrow> controller \<Rightarrow> field_item \<Rightarrow> bool" where
  "item_ok env c item = (case item of (db, tb, fn, shard, s) \<Rightarrow>
     (\<forall>w. find_writer db tb c = Some (Some w) \<longrightarrow> wr_field_map w fn \<noteq> None \<and>
        (\<exists>t. shard_key_to_timestamp (ce_get_date env) (qe_mktime (ce_query env)) shard = Inr t)))"

lemma item_ok_producer [simp]: "item_ok env (c\<lparr>ct_producer := q\<rparr>) item = item_ok env c item"
  "item_ok env (c\<lparr>ct_field_state := fs\<rparr>) item = item_ok env c item"
  by (simp_all add: item_ok_def find_writer_def)

lemma idle_window_producer [simp]:
  "idle_window env db tb fn shard s kvs queue (c\<lparr>ct_producer := q\<rparr>) = idle_window env db tb fn shard s kvs queue c"
  "idle_window env db tb fn shard s kvs queue (c\<lparr>ct_field_state := fs\<rparr>) = idle_window env db tb fn shard s kvs queue c"
  by (simp_all add: idle_window_def find_writer_def mea_field_exist_def)

text \<open>The question for a window leaves the windows as they are, up to a null entry for one that is not there.\<close>

lemma skip_question:
  assumes "f_skip_need_flush_data_block now key f = (r, f')"
  shows "f_shard_skip_map f k = Some v \<Longrightarrow> f_shard_skip_map f' k = Some v" "field_wf junk f \<Longrightarrow> field_wf junk f'"
    "f_field_name f' = f_field_name f" "f_status f' = f_status f"
  using assms by (auto simp: f_skip_need_flush_data_block_def field_wf_def split: option.split_asm if_split_asm)

definition asked :: "string \<Rightarrow> string \<Rightarrow> string \<Rightarrow> field \<Rightarrow> writer \<Rightarrow> controller \<Rightarrow> controller" where
  "asked db tb fn f w c = (let w' = (lend c w)\<lparr>wr_clock := ct_clock c + 1, wr_field_map := (wr_field_map w)(fn \<mapsto> f)\<rparr>
     in put_writer db tb (Some w') (take_back w' c))"

lemma asked_fields:
  "ct_file (asked db tb fn f w c) = ct_file c" "ct_mea_map (asked db tb fn f w c) = ct_mea_map c"
  "ct_producer (asked db tb fn f w c) = ct_producer c" "ct_clock (asked db tb fn f w c) = ct_clock c + 1"
  by (simp_all add: asked_def put_writer_def take_back_def lend_def Let_def)

lemma asked_writer:
  "find_writer db' tb' (asked db tb fn f w c) = (if db' = db \<and> tb' = tb
     then Some (Some ((lend c w)\<lparr>wr_clock := ct_clock c + 1, wr_field_map := (wr_field_map w)(fn \<mapsto> f)\<rparr>)) else find_writer db' tb' c)"
proof -
  have "find_writer db' tb' (take_back w' c) = find_writer db' tb' c" for w' by (simp add: take_back_def find_writer_def)
  then show ?thesis by (simp add: asked_def Let_def find_put_writer)
qed

lemma asked_item_ok:
  assumes "item_ok env c item" "find_writer db tb c = Some (Some w)"
  shows "item_ok env (asked db tb fn f w c) item"
  using assms by (auto simp: item_ok_def asked_writer split: if_splits)

lemma asked_idle:
  assumes idle: "idle_window env db' tb' fn' shard s kvs queue c" and w: "find_writer db tb c = Some (Some w)"
    and f: "wr_field_map w fn = Some f" "f_skip_need_flush_data_block now key f = (r, f')"
  shows "idle_window env db' tb' fn' shard s kvs queue (asked db tb fn f' w c)"
proof -
  obtain w0 f0 win where i: "find_writer db' tb' c = Some (Some w0)" "fw_data_deque w0 = queue" "wr_field_map w0 fn' = Some f0"
    "field_wf (we_junk_type env) f0" "f_field_name f0 = fn'" "\<not> f_status f0" "s \<noteq> []" "f_shard_skip_map f0 (shard @ s) = Some (Some win)"
    "\<not> win_need_reset win" "sl_list (win_list win) = kvs" "kvs \<noteq> []"
    "\<forall>n. ct_clock c \<le> n \<longrightarrow> passed_seconds 3 (win_last_time win) (we_clock env n)"
    "exists_table db' tb' (ct_file c)" "mea_field_exist db' tb' fn' c"
    by (rule idle_windowE [OF idle])
  let ?c = "asked db tb fn f' w c"
  have base: "exists_table db' tb' (ct_file ?c)" "mea_field_exist db' tb' fn' ?c"
    "\<forall>n. ct_clock ?c \<le> n \<longrightarrow> passed_seconds 3 (win_last_time win) (we_clock env n)"
    using i(12-14) by (simp_all add: asked_fields mea_field_exist_def)
  have "\<exists>w1 f1. find_writer db' tb' ?c = Some (Some w1) \<and> fw_data_deque w1 = queue \<and> wr_field_map w1 fn' = Some f1 \<and>
      field_wf (we_junk_type env) f1 \<and> f_field_name f1 = fn' \<and> \<not> f_status f1 \<and> f_shard_skip_map f1 (shard @ s) = Some (Some win)"
  proof (cases "db' = db \<and> tb' = tb")
    case True
    then have "w0 = w" using i(1) w by simp
    then show ?thesis using True i(2-6,8) f(1) skip_question [OF f(2)]
      by (cases "fn' = fn") (auto simp: asked_writer lend_def)
  next
    case False
    then show ?thesis using i(1-6,8) by (auto simp: asked_writer)
  qed
  then show ?thesis unfolding idle_window_def using base i(7,9-11) by blast
qed

text \<open>One call of the callback.\<close>

lemma ready_step:
  assumes ok: "item_ok env c (db, tb, fn, shard, s)"
  shows "\<exists>due c' ts. is_ready_disk_write env db tb (shard, s) fn c = Inr (due, c') \<and> ct_producer c' = ct_producer c @ ts \<and>
    (\<forall>item. item_ok env c item \<longrightarrow> item_ok env c' item) \<and>
    (\<forall>db' tb' fn' shard' s' kvs queue. idle_window (ce_write env) db' tb' fn' shard' s' kvs queue c \<longrightarrow>
       idle_window (ce_write env) db' tb' fn' shard' s' kvs queue c') \<and>
    (\<forall>kvs queue t. idle_window (ce_write env) db tb fn shard s kvs queue c \<longrightarrow>
       shard_key_to_timestamp (ce_get_date env) (qe_mktime (ce_query env)) shard = Inr t \<longrightarrow>
       ts = [Insert_task (from_time_t t) [] s DATA_STRING fn tb db True])"
proof (cases "\<exists>w. find_writer db tb c = Some (Some w)")
  case False
  then have "is_ready_disk_write env db tb (shard, s) fn c = Inr (False, c)"
    by (auto simp: is_ready_disk_write_def split: option.split)
  then show ?thesis using False by (intro exI [of _ False] exI [of _ c] exI [of _ "[]"]) (auto simp: idle_window_def)
next
  case True
  then obtain w where w: "find_writer db tb c = Some (Some w)" by blast
  obtain f t where f: "wr_field_map w fn = Some f" and t: "shard_key_to_timestamp (ce_get_date env) (qe_mktime (ce_query env)) shard = Inr t"
    using ok w by (auto simp: item_ok_def)
  obtain due f' where q: "f_skip_need_flush_data_block (we_clock (ce_write env) (ct_clock c)) (shard @ s) f = (due, f')" by fastforce
  let ?c = "asked db tb fn f' w c" and ?task = "Insert_task (from_time_t t) [] s DATA_STRING fn tb db True"
  have run: "is_ready_disk_write env db tb (shard, s) fn c = Inr (due, if due then enqueue_producer ?task ?c else ?c)"
    using w f q t by (simp add: is_ready_disk_write_def on_writer_def skip_need_flush_data_block_def lend_def clock_now_def asked_def Let_def)
  have due: "due" if idle: "idle_window (ce_write env) db tb fn shard s kvs queue c" for kvs queue
  proof -
    obtain w0 f0 win where "find_writer db tb c = Some (Some w0)" "wr_field_map w0 fn = Some f0" "field_wf (we_junk_type (ce_write env)) f0"
      "f_shard_skip_map f0 (shard @ s) = Some (Some win)" "sl_list (win_list win) = kvs" "kvs \<noteq> []"
      "\<forall>n. ct_clock c \<le> n \<longrightarrow> passed_seconds 3 (win_last_time win) (we_clock (ce_write env) n)"
      by (rule idle_windowE [OF idle])
    then have i: "field_wf (we_junk_type (ce_write env)) f" "f_shard_skip_map f (shard @ s) = Some (Some win)" "sl_list (win_list win) \<noteq> []"
      "\<forall>n. ct_clock c \<le> n \<longrightarrow> passed_seconds 3 (win_last_time win) (we_clock (ce_write env) n)"
      using w f by simp_all
    have "sl_size (win_list win) = length (sl_list (win_list win))"
      using i(1,2) sl_size_ok by (auto simp: field_wf_def window_wf_def)
    then show ?thesis using i(2-4) q by (auto simp: f_skip_need_flush_data_block_def should_flush_data_def)
  qed
  show ?thesis
    using run due t asked_item_ok [OF _ w] asked_idle [OF _ w f q]
    by (intro exI [of _ due] exI [of _ "if due then enqueue_producer ?task ?c else ?c"] exI [of _ "if due then [?task] else []"])
       (auto simp: enqueue_producer_def asked_fields)
qed

lemma field_round:
  assumes "\<forall>item \<in> set items. item_ok env c item" "idle_window (ce_write env) db tb fn shard s kvs queue c"
    "shard_key_to_timestamp (ce_get_date env) (qe_mktime (ce_query env)) shard = Inr t"
  shows "\<exists>fs' c' ts. process_items (field_callback env False) (\<lambda>(db, tb, f, _) (s, w). (fs_remove_status db tb f False s, w)) items (fs, Inr c) =
      (fs', Inr c') \<and> ct_producer c' = ct_producer c @ ts \<and> idle_window (ce_write env) db tb fn shard s kvs queue c' \<and>
    ((db, tb, fn, shard, s) \<in> set items \<longrightarrow> Insert_task (from_time_t t) [] s DATA_STRING fn tb db True \<in> set ts)"
  using assms
proof (induction items arbitrary: fs c)
  case (Cons item items)
  obtain db1 tb1 fn1 shard1 s1 where item: "item = (db1, tb1, fn1, shard1, s1)" by (cases item)
  have "item_ok env (c\<lparr>ct_field_state := fs\<rparr>) (db1, tb1, fn1, shard1, s1)" using Cons.prems(1) item by simp
  from ready_step [OF this] obtain due c1 ts1 where r: "is_ready_disk_write env db1 tb1 (shard1, s1) fn1 (c\<lparr>ct_field_state := fs\<rparr>) = Inr (due, c1)"
    "ct_producer c1 = ct_producer c @ ts1" "\<forall>item. item_ok env c item \<longrightarrow> item_ok env c1 item"
    "idle_window (ce_write env) db tb fn shard s kvs queue c1"
    "item = (db, tb, fn, shard, s) \<longrightarrow> ts1 = [Insert_task (from_time_t t) [] s DATA_STRING fn tb db True]"
    using Cons.prems(2,3) item by auto blast
  have call: "field_callback env False item (fs, Inr c) = (due, ct_field_state c1, Inr c1)"
    using r(1) by (simp add: field_callback_def item)
  have ok1: "\<forall>item \<in> set items. item_ok env c1 item" using Cons.prems(1) r(3) by (meson list.set_intros(2))
  define fs1 where "fs1 = (if due then fs_remove_status db1 tb1 fn1 False (ct_field_state c1) else ct_field_state c1)"
  have step: "process_items (field_callback env False) (\<lambda>(db, tb, f, _) (s, w). (fs_remove_status db tb f False s, w)) (item # items) (fs, Inr c) =
      process_items (field_callback env False) (\<lambda>(db, tb, f, _) (s, w). (fs_remove_status db tb f False s, w)) items (fs1, Inr c1)"
    by (simp add: call fs1_def) (simp add: item)
  obtain fs' c' ts where ih: "process_items (field_callback env False) (\<lambda>(db, tb, f, _) (s, w). (fs_remove_status db tb f False s, w)) items (fs1, Inr c1) =
      (fs', Inr c')" "ct_producer c' = ct_producer c1 @ ts" "idle_window (ce_write env) db tb fn shard s kvs queue c'"
    "(db, tb, fn, shard, s) \<in> set items \<longrightarrow> Insert_task (from_time_t t) [] s DATA_STRING fn tb db True \<in> set ts"
    using Cons.IH [OF ok1 r(4) Cons.prems(3)] by blast
  show ?case unfolding step ih(1) using ih(2-4) r(2,5) by auto
qed simp

text \<open>The task of the monitor.\<close>

lemma monitor_task_flushes:
  assumes idle: "idle_window (ce_write env) db tb fn shard s kvs queue c" and date: "point_shard (ce_write env) (from_time_t t) = shard"
  shows "\<exists>c2 w2 b. run_task env (Insert_task (from_time_t t) [] s DATA_STRING fn tb db True) c = Inr c2 \<and> find_writer db tb c2 = Some (Some w2) \<and>
    fw_data_deque w2 = queue @ [b] \<and> block_of_points (we_junk_type (ce_write env)) fn shard s kvs b \<and> writer_points w2 fn (shard @ s) = []"
proof -
  let ?env = "ce_write env"
  obtain w f win where tab: "exists_table db tb (ct_file c)" "mea_field_exist db tb fn c" "find_writer db tb c = Some (Some w)"
    and w: "fw_data_deque w = queue" "wr_field_map w fn = Some f"
    and field: "field_wf (we_junk_type ?env) f" "f_field_name f = fn" "\<not> f_status f" "s \<noteq> []"
    and win: "f_shard_skip_map f (shard @ s) = Some (Some win)" "\<not> win_need_reset win" "sl_list (win_list win) = kvs" "kvs \<noteq> []"
    and old: "\<forall>n. ct_clock c \<le> n \<longrightarrow> passed_seconds 3 (win_last_time win) (we_clock ?env n)"
    by (rule idle_windowE [OF idle])
  let ?l = "lend c w"
  have lent: "wr_field_map ?l fn = Some f" "wr_clock ?l = ct_clock c" "fw_data_deque ?l = queue" using w by (simp_all add: lend_def)
  have get: "get_field fn DATA_STRING ?l = (f, ?l)" using lent(1) field(3) by (simp add: get_field_def)
  let ?f = "f\<lparr>f_index_block_meta_key := s\<rparr>" and ?w = "(ensure_shard shard ?l)\<lparr>wr_clock := wr_clock ?l + 2\<rparr>"
  have wf: "field_wf (we_junk_type ?env) ?f" "f_shard_skip_map ?f (shard @ s) = Some (Some win)" "sl_list (win_list win) \<noteq> []"
    using field(1) win by (simp_all add: field_wf_def)
  have key: "shard @ s = combination_key shard s" using field(4) by (simp add: combination_key_def)
  have late: "passed_seconds 3 (win_last_time win) (we_clock ?env (wr_clock ?l + 1))" using old lent(2) by simp
  obtain f' w' b where fw: "field_write (we_rand ?env) (we_junk_type ?env) (we_clock ?env (wr_clock ?l)) (we_clock ?env (wr_clock ?l + 1))
        shard (from_time_t t) [] db tb s ?f ?w = Inr ([], f', w')"
      "win_points f' (shard @ s) = []" "fw_data_deque w' = fw_data_deque ?w @ [b]"
      "block_of_points (we_junk_type ?env) (f_field_name ?f) shard s (sl_list (win_list win)) b"
    using field_write_due [OF wf(1,2) key win(2) wf(3) late] by blast
  let ?w2 = "w'\<lparr>wr_field_map := (wr_field_map w')(fn \<mapsto> f')\<rparr>"
  have "write_point ?env (from_time_t t) [] s DATA_STRING fn db tb True ?l = Inr ([], ?w2)"
    using write_point_eq [OF _ get, of s True s "[]" "[]" ?env "from_time_t t" db tb] fw(1) date by (simp add: named_type_def)
  then have "run_task env (Insert_task (from_time_t t) [] s DATA_STRING fn tb db True) c = Inr (put_writer db tb (Some ?w2) (take_back ?w2 c))"
    using tab by (simp add: run_task_def insert_thread_def ensure_writer_def ctl_exists_table_def ensure_field_def on_writer_def named_type_def)
  moreover have "writer_points ?w2 fn (shard @ s) = []" using fw(2) by (simp add: writer_points_def)
  ultimately show ?thesis using fw(3,4) lent(3) field(2) win(3) by auto
qed

text \<open>
  C7. The monitor gets an idle window flushed. Take any registered windows for which the callback does not throw (the field
  is known to its writer and the shard name is a date), and one among them that has points and is three seconds old at every
  later reading of the clock. A round over the windows returns and leaves a task for this window in the
  producer queue, behind whatever waits there, and the window as it was. In any state in which the window is
  still idle, running this task turns it into one block with exactly the points it has then (but those at time zero)
  at the end of the queue of the writer, and the window is empty.
\<close>

theorem idle_window_flushed:
  assumes "idle_window (ce_write env) db tb fn shard s kvs queue c"
    "(db, tb, fn, shard, s) \<in> set (registered_fields (fs_skip_list_state_map (ct_field_state c)))"
    "\<forall>item \<in> set (registered_fields (fs_skip_list_state_map (ct_field_state c))). item_ok env c item"
    "shard_key_to_timestamp (ce_get_date env) (qe_mktime (ce_query env)) shard = Inr t" "point_shard (ce_write env) (from_time_t t) = shard"
  shows "\<exists>c1 ts1 ts2. monitor_fields env False c = Inr c1 \<and>
    ct_producer c1 = ct_producer c @ ts1 @ [Insert_task (from_time_t t) [] s DATA_STRING fn tb db True] @ ts2 \<and>
    idle_window (ce_write env) db tb fn shard s kvs queue c1 \<and>
    (\<forall>c' kvs' queue'. idle_window (ce_write env) db tb fn shard s kvs' queue' c' \<longrightarrow>
      (\<exists>c2 w2 b. run_task env (Insert_task (from_time_t t) [] s DATA_STRING fn tb db True) c' = Inr c2 \<and>
        find_writer db tb c2 = Some (Some w2) \<and> fw_data_deque w2 = queue' @ [b] \<and>
        block_of_points (we_junk_type (ce_write env)) fn shard s kvs' b \<and> writer_points w2 fn (shard @ s) = []))"
proof -
  obtain fs' c' ts where r: "process_items (field_callback env False) (\<lambda>(db, tb, f, _) (s, w). (fs_remove_status db tb f False s, w))
        (registered_fields (fs_skip_list_state_map (ct_field_state c))) (ct_field_state c, Inr c) = (fs', Inr c')"
      "ct_producer c' = ct_producer c @ ts" "idle_window (ce_write env) db tb fn shard s kvs queue c'"
      "Insert_task (from_time_t t) [] s DATA_STRING fn tb db True \<in> set ts"
    using field_round [OF assms(3,1,4), of "ct_field_state c"] assms(2) by blast
  have m: "monitor_fields env False c = Inr (c'\<lparr>ct_field_state := fs'\<rparr>)"
    by (simp add: monitor_fields_def fs_iterate_map_def state_map_def r(1))
  obtain ts1 ts2 where "ts = ts1 @ [Insert_task (from_time_t t) [] s DATA_STRING fn tb db True] @ ts2"
    using split_list [OF r(4)] by auto
  then show ?thesis using m r(2,3) monitor_task_flushes [OF _ assms(5)]
    by (intro exI [of _ "c'\<lparr>ct_field_state := fs'\<rparr>"] exI [of _ ts1] exI [of _ ts2]) simp
qed

section \<open>Demonstrations\<close>

text \<open>A database with two tables on the disk, one of which has a writer.\<close>

definition demo_tables_disk :: disk where
  "demo_tables_disk = \<lparr>files = [''./../dbs/db/sys-tc.tsm'' \<mapsto> put_word 8 (13 :: 64 word) @ put_word 2 (1 :: 16 word) @ put_word 2 (1 :: 16 word) @ ''v''],
     dirs = {''./../dbs'', ''./../dbs/db''}\<rparr>"

definition demo_open :: controller where
  "demo_open = demo_started\<lparr>ct_file := snd (load_database ''db'' [''tb'', ''tc''] (new_file_path_manager ''tsm'' demo_tables_disk)),
     ct_mea_map := [''db'' \<mapsto> [''tb'' \<mapsto> {''v''}]]\<rparr>"

lemma demo_open_facts:
  "exists_table ''db'' ''tb'' (ct_file demo_open)" "exists_table ''db'' ''tc'' (ct_file demo_open)" "mea_field_exist ''db'' ''tb'' ''v'' demo_open"
  "find_writer ''db'' ''tb'' demo_open = Some (Some demo_loaded)" "find_writer ''db'' ''tc'' demo_open = None"
  "fp_disk (ct_file demo_open) = demo_tables_disk" "ct_producer demo_open = []" "ct_clock demo_open = 0"
  by (simp_all add: demo_open_def load_database_def new_file_path_manager_def demo_tables_disk_def exists_table_def db_path_def
      default_base_path_def mk_file_io_def mea_field_exist_def demo_started_def set_database_def new_controller_def find_writer_def)

lemma demo_loaded_ready: "field_ready junk fn key demo_loaded" "writer_points demo_loaded fn key = []" "fw_data_deque demo_loaded = []"
  by (simp_all add: demo_loaded_def field_ready_def writer_points_def set_shard_def make_writer_def shard_attach_def
      set_file_path_manager_def mk_writer_def)

lemma demo_load_fields: "load_mea_fields ''db'' ''tc'' (ct_file demo_open) = Inr {''v''}"
proof -
  have "sys_path (ct_file demo_open) ''db'' ''tc'' = ''./../dbs/db/sys-tc.tsm''"
    by (simp add: sys_path_def db_path_def default_base_path_def demo_open_def load_database_def new_file_path_manager_def
        demo_tables_disk_def mk_file_io_def)
  then have f: "files (fp_disk (ct_file demo_open)) (sys_path (ct_file demo_open) ''db'' ''tc'') =
      Some (put_word 8 (13 :: 64 word) @ put_word 2 (1 :: 16 word) @ put_word 2 (1 :: 16 word) @ ''v'')"
    unfolding demo_open_facts by (simp add: demo_tables_disk_def)
  have "pread 8 2 (put_word 8 (13 :: 64 word) @ put_word 2 (1 :: 16 word) @ put_word 2 (1 :: 16 word) @ ''v'') = Inr (put_word 2 (1 :: 16 word))"
    "le_decode (put_word 2 (1 :: 16 word)) = 1"
    "pread 10 2 (put_word 8 (13 :: 64 word) @ put_word 2 (1 :: 16 word) @ put_word 2 (1 :: 16 word) @ ''v'') = Inr (put_word 2 (1 :: 16 word))"
    "pread 12 1 (put_word 8 (13 :: 64 word) @ put_word 2 (1 :: 16 word) @ put_word 2 (1 :: 16 word) @ ''v'') = Inr ''v''"
    by code_simp+
  then show ?thesis unfolding load_mea_fields_def f by simp
qed

text \<open>The first insert into the table without a writer.\<close>

lemma demo_first_insert:
  fixes env :: write_env
  defines "w \<equiv> make_writer ''db'' ''tc'' demo_open"
  defines "c1 \<equiv> set_mea_fields ''db'' ''tc'' {''v''} (set_database ''db'' ''tc'' w demo_open)"
  shows "ensure_writer ''db'' ''tc'' demo_open = Inr c1" "ensure_field ''db'' ''tc'' ''v'' c1 = Inr c1"
    "find_writer ''db'' ''tc'' c1 = Some (Some w)" "field_ready junk ''v'' key w" "writer_points w ''v'' key = []" "fw_data_deque w = []"
proof -
  show "ensure_writer ''db'' ''tc'' demo_open = Inr c1"
    using demo_load_fields demo_open_facts(5) by (simp add: ensure_writer_def ctl_exists_table_def set_database_def c1_def w_def)
  show "ensure_field ''db'' ''tc'' ''v'' c1 = Inr c1" by (simp add: ensure_field_def mea_field_exist_def set_mea_fields_def c1_def)
  show "find_writer ''db'' ''tc'' c1 = Some (Some w)"
    using find_set_database [of "''db''" "''tc''" "''db''" "''tc''" w demo_open] by (simp add: find_writer_def set_mea_fields_def c1_def)
  show "field_ready junk ''v'' key w" "writer_points w ''v'' key = []" "fw_data_deque w = []"
    by (simp_all add: w_def field_ready_def writer_points_def make_writer_def shard_attach_def set_file_path_manager_def mk_writer_def)
qed


theorem new_table_drops_others_witness:
  "\<exists>c. insert_thread (ce_write demo_ctl_env) 7 [] ''5'' DATA_INTEGER ''v'' ''tc'' ''db'' False demo_open = Inr c \<and>
     find_writer ''db'' ''tb'' demo_open \<noteq> None \<and> find_writer ''db'' ''tb'' c = None"
proof -
  let ?env = "ce_write demo_ctl_env" and ?w = "make_writer ''db'' ''tc'' demo_open"
  let ?c = "set_mea_fields ''db'' ''tc'' {''v''} (set_database ''db'' ''tc'' ?w demo_open)"
  have "field_ready (we_junk_type ?env) ''v'' (combination_key (point_shard ?env 7) ''tcv'') (lend ?c ?w)"
    using demo_first_insert(4) by (simp add: field_ready_def lend_def)
  then obtain d' w' where "write_point ?env 7 ''tc'' ''5'' DATA_INTEGER ''v'' ''db'' ''tc'' False (lend ?c ?w) = Inr (d', w')"
    using write_point_step [of DATA_INTEGER "''tcv''" False "''5''" "''tc''" "''v''" "''5''" _ ?env 7 "lend ?c ?w" "''db''" "''tc''"]
    by (auto simp: named_type_def)
  then obtain c where c: "insert_thread ?env 7 [] ''5'' DATA_INTEGER ''v'' ''tc'' ''db'' False demo_open = Inr c"
    using demo_open_facts(2) demo_first_insert(1-3) by (simp add: insert_thread_def named_type_def on_writer_def)
  have "find_writer ''db'' ''tb'' c = None"
    using new_table_drops_others [OF demo_open_facts(5,2) c, of "''db''" "''tb''"] by simp
  then show ?thesis using c demo_open_facts(4) by simp
qed

theorem lost_table_breaks_insert_witness:
  "\<exists>c. run_consumer demo_ctl_env (add_field ''db'' ''tc'' ''v'' (enqueue_consumer (Disk_write_task ''db'' ''tc'') demo_open)) = Inr c \<and>
     insert_thread (ce_write demo_ctl_env) 7 [] ''5'' DATA_INTEGER ''v'' ''tc'' ''db'' False c = Inl Null_deref"
proof (rule lost_table_breaks_insert)
  let ?c = "add_field ''db'' ''tc'' ''v'' (enqueue_consumer (Disk_write_task ''db'' ''tc'') demo_open)"
  show "find_writer ''db'' ''tc'' ?c = None" using demo_open_facts(5) by (simp add: find_writer_def add_field_def set_mea_fields_def enqueue_consumer_def)
  show "ct_consumer ?c = [Disk_write_task ''db'' ''tc'']"
    by (simp add: add_field_def set_mea_fields_def enqueue_consumer_def demo_open_def demo_started_def set_database_def new_controller_def)
  show "exists_table ''db'' ''tc'' (ct_file ?c)" using demo_open_facts(2) by (simp add: add_field_def set_mea_fields_def enqueue_consumer_def)
  show "mea_field_exist ''db'' ''tc'' ''v'' ?c" by (simp add: mea_field_exist_def add_field_def set_mea_fields_def)
qed (simp add: named_type_def)

text \<open>A window with one point, under a clock that stands four seconds after its beginning.\<close>

definition demo_idle_env :: "(unit, unit) ctl_env" where
  "demo_idle_env = demo_ctl_env\<lparr>ce_write := (ce_write demo_ctl_env)\<lparr>we_clock := (\<lambda>_. 4000000000)\<rparr>\<rparr>"

definition demo_window :: window where
  "demo_window = new_window\<lparr>win_list := snd (the (sl_put (\<lambda>_. 0) 7 ''5'' (win_list new_window))), win_need_reset := False, win_last_time := 0\<rparr>"

definition demo_idle_field :: field where
  "demo_idle_field = (mk_field DATA_INTEGER ''v'')\<lparr>f_shard_skip_map := [''2024-05-01tb,r=1v'' \<mapsto> Some demo_window]\<rparr>"

definition demo_idle :: controller where
  "demo_idle = put_writer ''db'' ''tb'' (Some (demo_loaded\<lparr>wr_field_map := [''v'' \<mapsto> demo_idle_field]\<rparr>)) (demo_open\<lparr>ct_producer := [Index_task ''tb'' []], ct_field_state :=
     \<lparr>fs_skip_list_state_map = [(''db'', [(''tb'', [(''v'', \<lparr>fi_shard_id = ''2024-05-01'', fi_series_key_and_field_name = ''tb,r=1v'',
       fi_is_registered = True\<rparr>)])])], fs_index_entry_state_map = []\<rparr>\<rparr>)"

lemma demo_window_facts:
  "window_wf DATA_INTEGER demo_window" "sl_list (win_list demo_window) = [(7, ''5'')]" "\<not> win_need_reset demo_window" "win_last_time demo_window = 0"
proof -
  have v: "sl_valid (win_list new_window)" "sl_list (win_list new_window) = []"
    using new_window_wf(1) [of DATA_INTEGER] by (simp_all add: window_wf_def)
  obtain sl where sl: "sl_put (\<lambda>_. 0) 7 ''5'' (win_list new_window) = Some (''5'', sl)" "sl_valid sl" "sl_list sl = [(7, ''5'')]"
    using sl_put_valid [OF v(1), of "\<lambda>_. 0" 7 "''5''"] v(2) by (auto simp: kv_put_def)
  show "window_wf DATA_INTEGER demo_window" using sl(2) unfolding demo_window_def sl(1) by (simp add: window_wf_def new_window_def)
  show "sl_list (win_list demo_window) = [(7, ''5'')]" "\<not> win_need_reset demo_window" "win_last_time demo_window = 0"
    using sl(3) unfolding demo_window_def sl(1) by simp_all
qed

theorem idle_window_flushed_witness:
  "\<exists>c1 t c2 w b. monitor_fields demo_idle_env False demo_idle = Inr c1 \<and> Index_task ''tb'' [] \<in> set (ct_producer c1) \<and>
     t \<in> set (ct_producer c1) \<and> run_task demo_idle_env t c1 = Inr c2 \<and>
     find_writer ''db'' ''tb'' c2 = Some (Some w) \<and> fw_data_deque w = [b] \<and> db_values b = [''5'']"
proof -
  let ?w = "demo_loaded\<lparr>wr_field_map := [''v'' \<mapsto> demo_idle_field]\<rparr>"
  have find: "find_writer ''db'' ''tb'' demo_idle = Some (Some ?w)" by (simp add: demo_idle_def)
  have state: "exists_table ''db'' ''tb'' (ct_file demo_idle)" "mea_field_exist ''db'' ''tb'' ''v'' demo_idle"
    using demo_open_facts by (simp_all add: demo_idle_def put_writer_def mea_field_exist_def)
  have junk: "we_junk_type (ce_write demo_idle_env) = DATA_INTEGER" by (simp add: demo_idle_env_def demo_ctl_env_def)
  have field: "field_wf (we_junk_type (ce_write demo_idle_env)) demo_idle_field" "f_field_name demo_idle_field = ''v''" "\<not> f_status demo_idle_field"
    using demo_window_facts(1) unfolding junk by (simp_all add: demo_idle_field_def field_wf_def mk_field_def)
  have win: "f_shard_skip_map demo_idle_field (''2024-05-01'' @ ''tb,r=1v'') = Some (Some demo_window)" by (simp add: demo_idle_field_def)
  have item: "registered_fields (fs_skip_list_state_map (ct_field_state demo_idle)) = [(''db'', ''tb'', ''v'', ''2024-05-01'', ''tb,r=1v'')]"
    by (simp add: demo_idle_def put_writer_def registered_fields_def table_items_def)
  have old: "passed_seconds 3 (win_last_time demo_window) (we_clock (ce_write demo_idle_env) n)" for n
    unfolding demo_window_facts demo_idle_env_def by (simp add: passed_seconds_def)
  have deque: "fw_data_deque ?w = []" using demo_loaded_ready(3) by simp
  have idle: "idle_window (ce_write demo_idle_env) ''db'' ''tb'' ''v'' ''2024-05-01'' ''tb,r=1v'' [(7, ''5'')] [] demo_idle"
    unfolding idle_window_def using state find deque field win demo_window_facts(2,3) old
    by (intro conjI exI [of _ ?w] exI [of _ demo_idle_field] exI [of _ demo_window]) simp_all
  have date: "shard_key_to_timestamp (ce_get_date demo_idle_env) (qe_mktime (ce_query demo_idle_env)) ''2024-05-01'' = Inr 0"
    "point_shard (ce_write demo_idle_env) (from_time_t 0) = ''2024-05-01''" by code_simp+
  have ok: "item_ok demo_idle_env demo_idle (''db'', ''tb'', ''v'', ''2024-05-01'', ''tb,r=1v'')"
    using find date(1) by (simp add: item_ok_def)
  have listed: "(''db'', ''tb'', ''v'', ''2024-05-01'', ''tb,r=1v'') \<in> set (registered_fields (fs_skip_list_state_map (ct_field_state demo_idle)))"
    "\<forall>i \<in> set (registered_fields (fs_skip_list_state_map (ct_field_state demo_idle))). item_ok demo_idle_env demo_idle i"
    unfolding item using ok by simp_all
  obtain c1 ts1 ts2 where r: "monitor_fields demo_idle_env False demo_idle = Inr c1"
      "ct_producer c1 = ct_producer demo_idle @ ts1 @ [Insert_task (from_time_t 0) [] ''tb,r=1v'' DATA_STRING ''v'' ''tb'' ''db'' True] @ ts2"
      "idle_window (ce_write demo_idle_env) ''db'' ''tb'' ''v'' ''2024-05-01'' ''tb,r=1v'' [(7, ''5'')] [] c1"
    and run: "\<And>c' kvs' queue'. idle_window (ce_write demo_idle_env) ''db'' ''tb'' ''v'' ''2024-05-01'' ''tb,r=1v'' kvs' queue' c' \<Longrightarrow>
      \<exists>c2 w2 b. run_task demo_idle_env (Insert_task (from_time_t 0) [] ''tb,r=1v'' DATA_STRING ''v'' ''tb'' ''db'' True) c' = Inr c2 \<and>
        find_writer ''db'' ''tb'' c2 = Some (Some w2) \<and> fw_data_deque w2 = queue' @ [b] \<and>
        block_of_points (we_junk_type (ce_write demo_idle_env)) ''v'' ''2024-05-01'' ''tb,r=1v'' kvs' b \<and> writer_points w2 ''v'' (''2024-05-01'' @ ''tb,r=1v'') = []"
    using idle_window_flushed [OF idle listed date] by blast
  obtain c2 w2 b where "run_task demo_idle_env (Insert_task (from_time_t 0) [] ''tb,r=1v'' DATA_STRING ''v'' ''tb'' ''db'' True) c1 = Inr c2"
    "find_writer ''db'' ''tb'' c2 = Some (Some w2)" "fw_data_deque w2 = [b]"
    "block_of_points (we_junk_type (ce_write demo_idle_env)) ''v'' ''2024-05-01'' ''tb,r=1v'' [(7, ''5'')] b"
    using run [OF r(3)] by auto
  moreover have "Index_task ''tb'' [] \<in> set (ct_producer c1)" unfolding r(2) by (simp add: demo_idle_def put_writer_def)
  moreover from calculation(4) have "db_values b = [''5'']" by (simp add: block_of_points_def)
  ultimately show ?thesis using r(1,2)
    by (intro exI [of _ c1] exI [of _ "Insert_task (from_time_t 0) [] ''tb,r=1v'' DATA_STRING ''v'' ''tb'' ''db'' True"] exI [of _ c2] exI [of _ w2] exI [of _ b]) simp
qed

end
