(* ===== verification/Table_Engines.thy ===== *)
theory Table_Engines
  imports Parser File_Path_Manager Ordered_Map
begin

text \<open>
  \<open>TableEngineManager\<close> (\<open>src/file_manager/table_engine_map.h\<close> and \<open>.cpp\<close>): which storage engine
  each table of a database belongs to, kept in memory and in the text file \<open>sys-metadata\<close> of the database, one
  line per table.

  The streams are those of \<open>FileIOManager\<close>. A loop over \<open>getline\<close> ends when a read fails, which sets the
  fail bit of the stream; as the stream stays in the cache, and neither \<open>seekg\<close> nor the next user of the stream
  clears the bit, the set \<open>te_failed\<close> of the streams that have it set is part of the state. The mutex is held for one
  operation each. What is printed is left out.
\<close>

section \<open>Lines of text\<close>

abbreviation newline :: char where
  "newline \<equiv> CHR 0x0A"

text \<open>What a loop over \<open>getline\<close> returns: a last line without a newline counts, unless it is empty.\<close>

function text_lines :: "string \<Rightarrow> string list" where
  "text_lines s =
     (if s = [] then []
      else takeWhile (\<lambda>c. c \<noteq> newline) s # text_lines (drop 1 (dropWhile (\<lambda>c. c \<noteq> newline) s)))"
  by pat_completeness auto
termination
proof (relation "measure length")
  fix s :: string
  assume "s \<noteq> []"
  moreover have "length (dropWhile (\<lambda>c. c \<noteq> newline) s) \<le> length s" by (rule length_dropWhile_le)
  ultimately show "(drop 1 (dropWhile (\<lambda>c. c \<noteq> newline) s), s) \<in> measure length" by (cases s) auto
qed simp

declare text_lines.simps [simp del]

text \<open>\<open>iss >> word\<close>: the white space in front is skipped; it fails when no character follows.\<close>

definition read_word :: "string \<Rightarrow> (string \<times> string) option" where
  "read_word s =
     (let s = dropWhile is_space s in
      if s = [] then None else Some (takeWhile (\<lambda>c. \<not> is_space c) s, dropWhile (\<lambda>c. \<not> is_space c) s))"

definition read_entry :: "string \<Rightarrow> (string \<times> string) option" where
  "read_entry line =
     (case read_word line of
        None \<Rightarrow> None
      | Some (tb_name, rest) \<Rightarrow> map_option (\<lambda>(engine, _). (tb_name, engine)) (read_word rest))"

section \<open>State\<close>

record table_engines =
  te_map :: "string \<Rightarrow> (string \<Rightarrow> string option) option"
  te_io :: file_io
  te_failed :: "nat set"

definition new_table_engines :: "disk \<Rightarrow> table_engines" where
  "new_table_engines d = \<lparr>te_map = Map.empty, te_io = mk_file_io 4 d, te_failed = {}\<rparr>"

definition metadata_path :: "string \<Rightarrow> string" where
  "metadata_path db_name = db_path db_name @ ''/sys-metadata''"

definition on_te_io :: "(file_io \<Rightarrow> ('a \<times> file_io) result) \<Rightarrow> table_engines \<Rightarrow> ('a \<times> table_engines) result" where
  "on_te_io op te = res_bind (op (te_io te)) (\<lambda>(r, io). Inr (r, te\<lparr>te_io := io\<rparr>))"

abbreviation te_get :: "string \<Rightarrow> string \<Rightarrow> table_engines \<Rightarrow> (nat option \<times> table_engines) result" where
  "te_get path mode \<equiv> on_te_io (get_file_stream path mode)"

abbreviation te_release :: "string \<Rightarrow> table_engines \<Rightarrow> (unit \<times> table_engines) result" where
  "te_release path \<equiv> on_te_io (\<lambda>io. res_bind (release_file_stream path io) (\<lambda>io. Inr ((), io)))"

text \<open>On a stream whose fail bit is set nothing happens.\<close>

definition te_seek :: "nat \<Rightarrow> table_engines \<Rightarrow> table_engines result" where
  "te_seek a te =
     (if a \<in> te_failed te then Inr te else res_bind (stream_seek a 0 (te_io te)) (\<lambda>io. Inr (te\<lparr>te_io := io\<rparr>)))"

definition te_write :: "nat \<Rightarrow> string \<Rightarrow> table_engines \<Rightarrow> table_engines result" where
  "te_write a bs te =
     (if a \<in> te_failed te then Inr te else res_bind (stream_write a bs (te_io te)) (\<lambda>io. Inr (te\<lparr>te_io := io\<rparr>)))"

definition te_lines :: "nat \<Rightarrow> table_engines \<Rightarrow> (string list \<times> table_engines) result" where
  "te_lines a te =
     (if a \<in> te_failed te then Inr ([], te)
      else (case io_heap (te_io te) a of
              None \<Rightarrow> Inl Stream_failed
            | Some s \<Rightarrow>
                (case files (io_disk (te_io te)) (st_path s) of
                   None \<Rightarrow> Inl Stream_failed
                 | Some f \<Rightarrow> Inr (text_lines (drop (st_pos s) f),
                     te\<lparr>te_io := (te_io te)\<lparr>io_heap := (io_heap (te_io te))(a \<mapsto> s\<lparr>st_pos := length f\<rparr>)\<rparr>,
                        te_failed := insert a (te_failed te)\<rparr>))))"

section \<open>Operations\<close>

text \<open>A directory that cannot be made throws; a metadata file that cannot be made leaves the directory.\<close>

definition te_create_database :: "string \<Rightarrow> table_engines \<Rightarrow> (string \<times> table_engines) result" where
  "te_create_database db_name te =
     (let d = io_disk (te_io te); p = db_path db_name in
      if fs_exists p d then Inr (if p \<in> dirs d then p else [], te)
      else if parent_dir p \<notin> dirs d then Inl (Runtime_error ''filesystem_error'')
      else
        (let d = d\<lparr>dirs := insert p (dirs d)\<rparr> in
         case os_open_create (metadata_path db_name) d of
           None \<Rightarrow> Inr ([], te\<lparr>te_io := (te_io te)\<lparr>io_disk := d\<rparr>\<rparr>)
         | Some d \<Rightarrow> Inr (p, te\<lparr>te_io := (te_io te)\<lparr>io_disk := d\<rparr>\<rparr>)))"

definition set_engine :: "string \<Rightarrow> string \<Rightarrow> string \<Rightarrow> table_engines \<Rightarrow> table_engines" where
  "set_engine db_name tb_name engine te =
     te\<lparr>te_map := (te_map te)(db_name \<mapsto>
       (case te_map te db_name of None \<Rightarrow> [tb_name \<mapsto> engine] | Some tables \<Rightarrow> tables(tb_name \<mapsto> engine)))\<rparr>"

text \<open>The tables of each engine, in the order of the file.\<close>

fun enter_lines :: "string \<Rightarrow> string list \<Rightarrow> (string, string list) omap \<Rightarrow> table_engines \<Rightarrow> (string, string list) omap \<times> table_engines" where
  "enter_lines db_name [] engine_tables te = (engine_tables, te)"
| "enter_lines db_name (line # ls) engine_tables te =
     (case read_entry line of
        None \<Rightarrow> enter_lines db_name ls engine_tables te
      | Some (tb_name, engine) \<Rightarrow>
          enter_lines db_name ls (om_put engine (om_at [] engine engine_tables @ [tb_name]) engine_tables)
            (set_engine db_name tb_name engine te))"

definition load_database_metadata :: "string \<Rightarrow> table_engines \<Rightarrow> ((string, string list) omap \<times> table_engines) result" where
  "load_database_metadata db_name te =
     (if te_map te db_name \<noteq> None then Inr ([], te)
      else
        res_bind (te_get (metadata_path db_name) [] te) (\<lambda>(file, te).
        (case file of
           None \<Rightarrow> Inl Null_deref
         | Some a \<Rightarrow>
             if \<not> stream_is_open a (te_io te) then Inr ([], te)
             else
               res_bind (te_seek a te) (\<lambda>te.
               res_bind (te_lines a te) (\<lambda>(ls, te).
               (let (engine_tables, te) = enter_lines db_name ls [] te in
                res_bind (te_release (metadata_path db_name) te) (\<lambda>(_, te). Inr (engine_tables, te))))))))"

text \<open>The engine is a reference parameter; \<open>tsm\<close> is filled in for an empty one.\<close>

definition te_create_table :: "string \<Rightarrow> string \<Rightarrow> string \<Rightarrow> table_engines \<Rightarrow> ((bool \<times> string) \<times> table_engines) result" where
  "te_create_table db_name tb_name engine te =
     (if db_name = [] \<or> tb_name = [] then Inr ((False, engine), te)
      else
        (let engine = (if engine = [] then ''tsm'' else engine) in
         if (case te_map te db_name of None \<Rightarrow> False | Some tables \<Rightarrow> tables tb_name \<noteq> None) then Inr ((False, engine), te)
         else
           res_bind (te_get (metadata_path db_name) ''append'' te) (\<lambda>(file, te).
           (case file of
              None \<Rightarrow> Inl Null_deref
            | Some a \<Rightarrow>
                if \<not> stream_is_open a (te_io te) then Inr ((False, engine), te)
                else
                  res_bind (te_write a (tb_name @ '' '' @ engine @ [newline]) te) (\<lambda>te.
                  res_bind (te_release (metadata_path db_name) te) (\<lambda>(_, te).
                    Inr ((True, engine), set_engine db_name tb_name engine te)))))))"

definition is_entry_of :: "string \<Rightarrow> string \<Rightarrow> bool" where
  "is_entry_of tb_name line = (case read_entry line of None \<Rightarrow> False | Some e \<Rightarrow> fst e = tb_name)"

definition other_entries :: "string \<Rightarrow> string list \<Rightarrow> string" where
  "other_entries tb_name ls =
     concat (map (\<lambda>line. line @ [newline]) (filter (\<lambda>line. read_entry line \<noteq> None \<and> \<not> is_entry_of tb_name line) ls))"

definition erase_engine :: "string \<Rightarrow> string \<Rightarrow> table_engines \<Rightarrow> table_engines" where
  "erase_engine db_name tb_name te =
     te\<lparr>te_map := (te_map te)(db_name \<mapsto>
       (case te_map te db_name of None \<Rightarrow> Map.empty | Some tables \<Rightarrow> tables(tb_name := None)))\<rparr>"

definition remove_table :: "string \<Rightarrow> string \<Rightarrow> table_engines \<Rightarrow> (bool \<times> table_engines) result" where
  "remove_table db_name tb_name te =
     res_bind (te_get (metadata_path db_name) [] te) (\<lambda>(file, te).
     (case file of
        None \<Rightarrow> Inr (False, te)
      | Some a \<Rightarrow>
          if \<not> stream_is_open a (te_io te) then Inr (False, te)
          else
            res_bind (te_lines a te) (\<lambda>(ls, te).
            res_bind (te_release (metadata_path db_name) te) (\<lambda>(_, te).
              if \<not> list_ex (is_entry_of tb_name) ls then Inr (False, te)
              else
                res_bind (te_get (metadata_path db_name) ''trunc'' te) (\<lambda>(file, te).
                (case file of
                   None \<Rightarrow> Inr (False, te)
                 | Some a \<Rightarrow>
                     if \<not> stream_is_open a (te_io te) then Inr (False, te)
                     else
                       res_bind (te_write a (other_entries tb_name ls) te) (\<lambda>te.
                       res_bind (te_release (metadata_path db_name) te) (\<lambda>(_, te).
                         Inr (True, erase_engine db_name tb_name te)))))))))"

definition database_exist :: "string \<Rightarrow> table_engines \<Rightarrow> bool" where
  "database_exist db_name te \<longleftrightarrow> db_path db_name \<in> dirs (io_disk (te_io te))"

definition table_engine :: "string \<Rightarrow> string \<Rightarrow> table_engines \<Rightarrow> string option" where
  "table_engine db_name tb_name te = (case te_map te db_name of None \<Rightarrow> None | Some tables \<Rightarrow> tables tb_name)"

text \<open>What \<open>table_engine_type\<close> prints, and the options of \<open>show\<close>, of which there is one.\<close>

definition table_engine_type :: "string \<Rightarrow> string \<Rightarrow> table_engines \<Rightarrow> string" where
  "table_engine_type db_name tb_name te =
     (case table_engine db_name tb_name te of
        None \<Rightarrow> []
      | Some engine \<Rightarrow> ''table:'' @ tb_name @ '', engine:'' @ engine)"

definition m_option_map :: "(string \<times> (string \<Rightarrow> string \<Rightarrow> table_engines \<Rightarrow> string)) list" where
  "m_option_map = [(''engine'', table_engine_type)]"

definition table_engine_is :: "string \<Rightarrow> string \<Rightarrow> string \<Rightarrow> table_engines \<Rightarrow> bool" where
  "table_engine_is db_name tb_name engine te \<longleftrightarrow> table_engine db_name tb_name te = Some engine"

section \<open>Entries as text\<close>

lemma text_lines_Nil [simp]: "text_lines [] = []"
  by (simp add: text_lines.simps)

lemma text_lines_line: "newline \<notin> set l \<Longrightarrow> text_lines (l @ newline # s) = l # text_lines s"
  by (subst text_lines.simps) (simp add: takeWhile_append dropWhile_append split: if_splits)

lemma text_lines_lines: "\<forall>l \<in> set ls. newline \<notin> set l \<Longrightarrow> text_lines (concat (map (\<lambda>l. l @ [newline]) ls)) = ls"
  by (induction ls) (simp_all add: text_lines_line)

definition is_word :: "string \<Rightarrow> bool" where
  "is_word s \<longleftrightarrow> s \<noteq> [] \<and> (\<forall>c \<in> set s. \<not> is_space c)"

definition entry_line :: "string \<times> string \<Rightarrow> string" where
  "entry_line e = fst e @ '' '' @ snd e"

definition entries_text :: "(string \<times> string) list \<Rightarrow> string" where
  "entries_text es = concat (map (\<lambda>e. entry_line e @ [newline]) es)"

lemma entries_text_simps [simp]:
  "entries_text [] = []" "entries_text (es @ es') = entries_text es @ entries_text es'"
  "entries_text [e] = entry_line e @ [newline]"
  by (simp_all add: entries_text_def)

lemma read_word_word: "is_word s \<Longrightarrow> (r = [] \<or> is_space (hd r)) \<Longrightarrow> read_word (s @ r) = Some (s, r)"
proof -
  assume s: "is_word s" and r: "r = [] \<or> is_space (hd r)"
  have "dropWhile is_space (s @ r) = s @ r" using s by (cases s) (auto simp: is_word_def)
  moreover have "takeWhile (\<lambda>c. \<not> is_space c) (s @ r) = s" "dropWhile (\<lambda>c. \<not> is_space c) (s @ r) = r"
    using s r by (auto simp: is_word_def takeWhile_append dropWhile_append takeWhile_eq_Nil_iff dropWhile_eq_self_iff)
  ultimately show ?thesis using s by (simp add: read_word_def is_word_def)
qed

lemma read_word_space: "read_word (CHR '' '' # s) = read_word s"
  by (simp add: read_word_def is_space_def)

lemma read_entry_line: "is_word tb \<Longrightarrow> is_word eng \<Longrightarrow> read_entry (entry_line (tb, eng)) = Some (tb, eng)"
  using read_word_word [of tb "CHR '' '' # eng"] read_word_word [of eng "[]"]
  by (simp add: read_entry_def entry_line_def read_word_space is_space_def)

lemma entry_line_no_newline: "is_word tb \<Longrightarrow> is_word eng \<Longrightarrow> newline \<notin> set (entry_line (tb, eng))"
  by (auto simp: entry_line_def is_word_def is_space_def)

definition words_ok :: "(string \<times> string) list \<Rightarrow> bool" where
  "words_ok es \<longleftrightarrow> (\<forall>(tb, eng) \<in> set es. is_word tb \<and> is_word eng)"

lemma text_lines_entries: "words_ok es \<Longrightarrow> text_lines (entries_text es) = map entry_line es"
proof -
  assume ok: "words_ok es"
  have "\<forall>l \<in> set (map entry_line es). newline \<notin> set l"
    using ok entry_line_no_newline by (auto simp: words_ok_def)
  then show ?thesis using text_lines_lines [of "map entry_line es"] by (simp add: entries_text_def comp_def)
qed

lemma table_engine_set_engine [simp]:
  "table_engine db x (set_engine db tb eng te) = (if x = tb then Some eng else table_engine db x te)"
  "te_io (set_engine db tb eng te) = te_io te" "te_failed (set_engine db tb eng te) = te_failed te"
  by (simp_all add: set_engine_def table_engine_def split: option.split)

lemma enter_entries:
  assumes "words_ok es"
  shows "\<exists>m te'. enter_lines db (map entry_line es) m0 te = (m, te') \<and> te_io te' = te_io te \<and> te_failed te' = te_failed te \<and>
    (\<forall>e. om_at [] e m = om_at [] e m0 @ map fst (filter (\<lambda>p. snd p = e) es)) \<and>
    (\<forall>x. table_engine db x te' = (case map_of (rev es) x of Some e \<Rightarrow> Some e | None \<Rightarrow> table_engine db x te))"
  using assms
proof (induction es arbitrary: m0 te)
  case Nil
  then show ?case by simp
next
  case (Cons p es)
  obtain tb eng where p: "p = (tb, eng)" by (cases p)
  then have w: "is_word tb" "is_word eng" "words_ok es" using Cons.prems by (simp_all add: words_ok_def)
  let ?m = "om_put eng (om_at [] eng m0 @ [tb]) m0" and ?te = "set_engine db tb eng te"
  from Cons.IH [OF w(3), of ?m ?te] obtain m te' where IH: "enter_lines db (map entry_line es) ?m ?te = (m, te')"
      "te_io te' = te_io ?te" "te_failed te' = te_failed ?te"
      "\<And>e. om_at [] e m = om_at [] e ?m @ map fst (filter (\<lambda>p. snd p = e) es)"
      "\<And>x. table_engine db x te' = (case map_of (rev es) x of Some e \<Rightarrow> Some e | None \<Rightarrow> table_engine db x ?te)"
    by blast
  have "enter_lines db (map entry_line (p # es)) m0 te = (m, te')" using IH(1) w by (simp add: p read_entry_line)
  then show ?case using IH(2-5) by (auto simp: p map_add_def split: option.split)
qed

section \<open>Creating tables\<close>

text \<open>The streams are in order for writing to the file \<open>p\<close>, and there is room for one more.\<close>

definition te_ready :: "string \<Rightarrow> table_engines \<Rightarrow> bool" where
  "te_ready p te \<longleftrightarrow>
     fm_wf (te_io te) \<and> \<not> m_locked (te_io te) \<and> card (insert p (dom (m_file_stream (te_io te)))) < m_max_size (te_io te) \<and>
     p \<in> dom (files (io_disk (te_io te))) \<and> (\<forall>a \<in> te_failed te. a < io_next (te_io te)) \<and>
     (\<forall>info. m_file_stream (te_io te) p = Some (info, ''append'') \<longrightarrow> si_stream info \<notin> te_failed te)"

definition append_stream :: "string \<Rightarrow> nat \<Rightarrow> table_engines \<Rightarrow> bool" where
  "append_stream p a te \<longleftrightarrow> a \<notin> te_failed te \<and>
     (\<exists>s. io_heap (te_io te) a = Some s \<and> st_path s = p \<and> st_is_open s \<and> st_writable s \<and> st_append s)"

lemma set_in_use_stream:
  "m_file_stream (set_in_use p b st) q = Some (info, mode) \<Longrightarrow> \<exists>i. m_file_stream st q = Some (i, mode) \<and> si_stream i = si_stream info"
  by (auto simp: set_in_use_def split: option.splits prod.splits if_splits)

lemma update_usage_order_stream:
  "m_file_stream (update_usage_order p st) q = Some (info, mode) \<Longrightarrow>
   \<exists>i. m_file_stream st q = Some (i, mode) \<and> si_stream i = si_stream info"
  by (auto simp: update_usage_order_def split: option.splits prod.splits if_splits)

lemma usage_next: "io_next st \<le> io_next (update_usage_order p st)" "io_next (set_in_use p b st) = io_next st"
  by (auto simp: update_usage_order_def set_in_use_def split: option.split prod.split)

lemma used_next: "io_next st \<le> io_next (update_usage_order p (set_in_use q b st))"
  using usage_next(1) [of "set_in_use q b st" p] by (simp add: usage_next(2))

lemma te_get_append:
  assumes "te_ready p te"
  shows "yields (te_get p ''append'' te) (\<lambda>(r, te'). te_ready p te' \<and> io_disk (te_io te') = io_disk (te_io te) \<and>
    te_map te' = te_map te \<and> (\<exists>a. r = Some a \<and> append_stream p a te'))"
proof (cases "\<exists>info. m_file_stream (te_io te) p = Some (info, ''append'') \<and> \<not> si_in_use info")
  case True
  then obtain info where i: "m_file_stream (te_io te) p = Some (info, ''append'')" "\<not> si_in_use info" by auto
  define io where "io = (update_usage_order p (set_in_use p True ((te_io te)\<lparr>m_locked := True\<rparr>)))\<lparr>m_locked := False\<rparr>"
  have get: "get_file_stream p ''append'' (te_io te) = Inr (Some (si_stream info), io)"
    using assms i by (simp add: get_file_stream_def Let_def io_def te_ready_def)
  have f: "io_disk io = io_disk (te_io te)" "\<not> m_locked io" "m_max_size io = m_max_size (te_io te)"
      "dom (m_file_stream io) = dom (m_file_stream (te_io te))" "io_heap io = io_heap (te_io te)"
    by (simp_all add: io_def)
  have n: "io_next (te_io te) \<le> io_next io" using used_next [of "(te_io te)\<lparr>m_locked := True\<rparr>"] by (simp add: io_def)
  have s: "si_stream j \<notin> te_failed te" if "m_file_stream io p = Some (j, ''append'')" for j
  proof -
    from that have "\<exists>k. m_file_stream (te_io te) p = Some (k, ''append'') \<and> si_stream k = si_stream j"
      unfolding io_def by (auto dest!: update_usage_order_stream set_in_use_stream)
    then show ?thesis using assms by (auto simp: te_ready_def)
  qed
  have wf: "fm_wf (te_io te)" "fm_wf io" using assms get_file_stream_wf [OF _ get] by (auto simp: te_ready_def)
  have "te_ready p (te\<lparr>te_io := io\<rparr>)" using assms f n s wf by (auto simp: te_ready_def intro: less_le_trans)
  moreover obtain s where "io_heap (te_io te) (si_stream info) = Some s" "st_path s = p" "st_is_open s"
      "st_writable s = fst (open_mode_of ''append'')" "st_append s = snd (snd (open_mode_of ''append''))"
    using fm_wfD [OF wf(1) i(1)] by metis
  ultimately show ?thesis using assms i f by (auto simp: on_te_io_def get append_stream_def te_ready_def open_mode_of_def)
next
  case False
  define io0 where "io0 = (te_io te)\<lparr>m_locked := True\<rparr>"
  have fin: "finite (dom (m_file_stream (te_io te)))" using assms by (simp add: te_ready_def fm_wf_def)
  have "card (dom (m_file_stream (te_io te))) \<le> card (insert p (dom (m_file_stream (te_io te))))"
    using fin by (simp add: card_insert_le)
  then have room: "card (dom (m_file_stream (te_io te))) < m_max_size (te_io te)"
    using assms unfolding te_ready_def by linarith
  obtain s where s: "open_file p ''append'' (io_disk (te_io te)) = Some (io_disk (te_io te), s)" "st_path s = p" "st_is_open s"
      "st_writable s" "st_append s"
    using open_file_existing [of p "io_disk (te_io te)" "''append''"] assms by (auto simp: te_ready_def open_mode_of_def)
  obtain io where io: "open_new_stream p ''append'' io0 = Inr (Some (io_next (te_io te)), io)"
    and f: "io_disk io = io_disk (te_io te)" "\<not> m_locked io" "m_max_size io = m_max_size (te_io te)"
      "dom (m_file_stream io) = insert p (dom (m_file_stream (te_io te)))" "io_heap io (io_next (te_io te)) = Some s"
      "io_next io = io_next (te_io te) + 2" "\<And>i m. m_file_stream io p = Some (i, m) \<Longrightarrow> si_stream i = io_next (te_io te)"
    using room s(1) by (simp add: open_new_stream_def io0_def Let_def)
  have get: "get_file_stream p ''append'' (te_io te) = Inr (Some (io_next (te_io te)), io)"
    using assms False io by (auto simp: get_file_stream_def Let_def io0_def te_ready_def split: option.split)
  have "fm_wf io" using assms get_file_stream_wf [OF _ get] by (simp add: te_ready_def)
  then have "te_ready p (te\<lparr>te_io := io\<rparr>)" using assms f unfolding te_ready_def
    by (auto simp: insert_absorb2 intro: trans_less_add1)
  moreover have "io_next (te_io te) \<notin> te_failed te" using assms by (auto simp: te_ready_def)
  ultimately show ?thesis using s f by (auto simp: on_te_io_def get append_stream_def)
qed

lemma te_write_append:
  assumes "te_ready p te" "append_stream p a te" "files (io_disk (te_io te)) p = Some f"
  shows "yields (te_write a bs te) (\<lambda>te'. te_ready p te' \<and> te_map te' = te_map te \<and>
    io_disk (te_io te') = put_file p (f @ bs) (io_disk (te_io te)))"
proof -
  obtain s where s: "io_heap (te_io te) a = Some s" "st_path s = p" "st_is_open s" "st_writable s" "st_append s" "a \<notin> te_failed te"
    using assms(2) by (auto simp: append_stream_def)
  define io where "io = (te_io te)\<lparr>io_disk := put_file p (pwrite (length f) bs f) (io_disk (te_io te)),
      io_heap := (io_heap (te_io te))(a \<mapsto> s\<lparr>st_pos := length f + length bs\<rparr>)\<rparr>"
  have w: "stream_write a bs (te_io te) = Inr io" using s assms(3) by (simp add: stream_write_def io_def Let_def put_file_def)
  have "fm_wf io" using stream_write_wf [OF _ w] assms(1) by (simp add: te_ready_def)
  then show ?thesis using s assms by (simp add: te_write_def w te_ready_def) (auto simp: io_def pwrite_def)
qed

lemma te_release_ready:
  assumes "te_ready p te"
  shows "yields (te_release p te) (\<lambda>(_, te'). te_ready p te' \<and> te_map te' = te_map te \<and> io_disk (te_io te') = io_disk (te_io te))"
proof -
  define io where "io = update_usage_order p (set_in_use p False (te_io te))"
  have r: "release_file_stream p (te_io te) = Inr io" using assms by (simp add: release_file_stream_def io_def te_ready_def)
  have "fm_wf io" using release_file_stream_wf [OF _ r] assms by (simp add: te_ready_def)
  moreover have n: "io_next (te_io te) \<le> io_next io" unfolding io_def by (rule used_next)
  moreover have s: "si_stream j \<notin> te_failed te" if "m_file_stream io p = Some (j, ''append'')" for j
  proof -
    from that have "\<exists>k. m_file_stream (te_io te) p = Some (k, ''append'') \<and> si_stream k = si_stream j"
      unfolding io_def by (auto dest!: update_usage_order_stream set_in_use_stream)
    then show ?thesis using assms by (auto simp: te_ready_def)
  qed
  moreover have f: "io_disk io = io_disk (te_io te)" "m_locked io = m_locked (te_io te)" "m_max_size io = m_max_size (te_io te)"
      "dom (m_file_stream io) = dom (m_file_stream (te_io te))"
    by (simp_all add: io_def)
  ultimately have "te_ready p (te\<lparr>te_io := io\<rparr>)" using assms by (auto simp: te_ready_def intro: less_le_trans)
  then show ?thesis by (simp add: on_te_io_def r) (simp add: io_def)
qed

lemma te_create_table_ready:
  assumes "te_ready (metadata_path db) te" "files (io_disk (te_io te)) (metadata_path db) = Some f"
    "db \<noteq> []" "tb \<noteq> []" "eng \<noteq> []" "table_engine db tb te = None"
  shows "yields (te_create_table db tb eng te) (\<lambda>(r, te'). r = (True, eng) \<and> te_ready (metadata_path db) te' \<and>
    io_disk (te_io te') = put_file (metadata_path db) (f @ entry_line (tb, eng) @ [newline]) (io_disk (te_io te)) \<and>
    te_map te' = te_map (set_engine db tb eng te))"
proof -
  have new: "\<not> (case te_map te db of None \<Rightarrow> False | Some tables \<Rightarrow> tables tb \<noteq> None)"
    using assms(6) by (simp add: table_engine_def split: option.splits)
  show ?thesis unfolding te_create_table_def Let_def
    apply (simp add: assms(3,4,5) new)
    apply (rule yields_bind [OF te_get_append [OF assms(1)]])
    subgoal for x
    proof (cases x)
      case (Pair r te1)
      assume "case x of (r, te') \<Rightarrow> te_ready (metadata_path db) te' \<and> io_disk (te_io te') = io_disk (te_io te) \<and>
        te_map te' = te_map te \<and> (\<exists>a. r = Some a \<and> append_stream (metadata_path db) a te')"
      then obtain a where a: "te_ready (metadata_path db) te1" "io_disk (te_io te1) = io_disk (te_io te)" "te_map te1 = te_map te"
          "r = Some a" "append_stream (metadata_path db) a te1" by (auto simp: Pair)
      have open1: "stream_is_open a (te_io te1)" using a(5) by (auto simp: append_stream_def stream_is_open_def)
      have f: "files (io_disk (te_io te1)) (metadata_path db) = Some f" using assms(2) a(2) by simp
      show ?thesis
        apply (simp add: Pair a(4) open1)
        apply (rule yields_bind [OF te_write_append [OF a(1,5) f]])
        apply (rule yields_bind [OF te_release_ready])
         apply (auto simp: te_ready_def set_engine_def a(2,3) entry_line_def)
        done
    qed
    done
qed

section \<open>A fresh manager\<close>

definition read_stream :: "string \<Rightarrow> fstream" where
  "read_stream p = \<lparr>st_path = p, st_pos = 0, st_writable = False, st_append = False, st_is_open = True\<rparr>"

text \<open>The manager after its first file was read and released.\<close>

definition one_stream :: "string \<Rightarrow> string \<Rightarrow> bool \<Rightarrow> nat \<Rightarrow> disk \<Rightarrow> file_io" where
  "one_stream p f used n d =
     \<lparr>io_disk = d, io_heap = [0 \<mapsto> (read_stream p)\<lparr>st_pos := length f\<rparr>], io_next = n + 1, m_max_size = 4, m_locked = False,
      m_file_stream = [p \<mapsto> (\<lparr>si_stream = 0, si_it = n, si_in_use = used\<rparr>, [])], m_usage_order = [(n, p)]\<rparr>"

lemma fresh_get:
  "files d p = Some f \<Longrightarrow> get_file_stream p [] (mk_file_io 4 d) =
     Inr (Some 0, (one_stream p f True 1 d)\<lparr>io_heap := [0 \<mapsto> read_stream p]\<rparr>)"
  by (simp add: get_file_stream_def mk_file_io_def open_new_stream_def open_file_def open_mode_of_def one_stream_def
      read_stream_def Let_def)

lemma one_stream_release: "release_file_stream p (one_stream p f u n d) = Inr (one_stream p f False (n + 1) d)"
  by (simp add: release_file_stream_def one_stream_def set_in_use_def update_usage_order_def)

lemma one_stream_get: "get_file_stream p [] (one_stream p f False n d) = Inr (Some 0, one_stream p f True (n + 1) d)"
  by (simp add: get_file_stream_def one_stream_def set_in_use_def update_usage_order_def Let_def)

lemma fresh_lines:
  "files d p = Some f \<Longrightarrow>
   te_lines 0 \<lparr>te_map = m, te_io = (one_stream p f True n d)\<lparr>io_heap := [0 \<mapsto> read_stream p]\<rparr>, te_failed = {}\<rparr> =
   Inr (text_lines f, \<lparr>te_map = m, te_io = one_stream p f True n d, te_failed = {0}\<rparr>)"
  by (simp add: te_lines_def one_stream_def read_stream_def)

lemma fresh_seek:
  "te_seek 0 \<lparr>te_map = m, te_io = (one_stream p f True n d)\<lparr>io_heap := [0 \<mapsto> read_stream p]\<rparr>, te_failed = {}\<rparr> =
   Inr \<lparr>te_map = m, te_io = (one_stream p f True n d)\<lparr>io_heap := [0 \<mapsto> read_stream p]\<rparr>, te_failed = {}\<rparr>"
  by (simp add: te_seek_def stream_seek_def one_stream_def read_stream_def)

lemma one_stream_open: "stream_is_open 0 ((one_stream p f u n d)\<lparr>io_heap := [0 \<mapsto> read_stream p]\<rparr>)" "stream_is_open 0 (one_stream p f u n d)"
  by (simp_all add: stream_is_open_def one_stream_def read_stream_def)

lemma enter_lines_ok: "enter_lines db ls m te = (m', te') \<Longrightarrow> om_ok m \<Longrightarrow> om_ok m'"
proof (induction ls arbitrary: m te)
  case (Cons l ls)
  show ?case
  proof (cases "read_entry l")
    case None
    then show ?thesis using Cons by simp
  next
    case (Some e)
    obtain tb eng where e: "e = (tb, eng)" by (cases e)
    show ?thesis by (rule Cons.IH [OF _ om_put_ok]) (use Cons.prems Some e in simp_all)
  qed
qed simp

lemma load_fresh:
  assumes "files d (metadata_path db) = Some (entries_text es)" "words_ok es"
  shows "\<exists>m te. load_database_metadata db (new_table_engines d) = Inr (m, te) \<and>
    te_io te = one_stream (metadata_path db) (entries_text es) False 2 d \<and> te_failed te = {0} \<and>
    om_ok m \<and> (\<forall>e. om_at [] e m = map fst (filter (\<lambda>p. snd p = e) es)) \<and> (\<forall>x. table_engine db x te = map_of (rev es) x)"
proof -
  define io where "io = one_stream (metadata_path db) (entries_text es) True 1 d"
  define te0 where "te0 = \<lparr>te_map = Map.empty, te_io = io, te_failed = {0}\<rparr>"
  have none: "table_engine db x te0 = None" for x by (simp add: te0_def table_engine_def)
  have id: "(case y of None \<Rightarrow> table_engine db x te0 | Some e \<Rightarrow> Some e) = y" for x and y :: "string option"
    by (cases y) (simp_all add: none)
  obtain m te where te: "enter_lines db (map entry_line es) [] te0 = (m, te)" "te_io te = te_io te0" "te_failed te = te_failed te0"
      "\<And>e. om_at [] e m = map fst (filter (\<lambda>p. snd p = e) es)" "\<And>x. table_engine db x te = map_of (rev es) x"
    using enter_entries [OF assms(2), of db "[]" te0] by (auto simp: id)
  let ?te = "te\<lparr>te_io := one_stream (metadata_path db) (entries_text es) False 2 d\<rparr>"
  have "load_database_metadata db (new_table_engines d) = Inr (m, ?te)"
    using fresh_get [OF assms(1)] fresh_lines [OF assms(1), of Map.empty 1] text_lines_entries [OF assms(2)] te(1,2)
      one_stream_release [of "metadata_path db" "entries_text es" True 1 d]
    by (simp add: load_database_metadata_def new_table_engines_def on_te_io_def one_stream_open fresh_seek te0_def io_def numeral_2_eq_2)
  moreover have "om_ok m" by (rule enter_lines_ok [OF te(1)]) simp
  ultimately show ?thesis using te(3-5) by (intro exI [of _ m] exI [of _ ?te]) (simp add: te0_def table_engine_def)
qed

section \<open>Restart\<close>

fun te_create_tables :: "string \<Rightarrow> (string \<times> string) list \<Rightarrow> table_engines \<Rightarrow> (bool list \<times> table_engines) result" where
  "te_create_tables db_name [] te = Inr ([], te)"
| "te_create_tables db_name ((tb_name, engine) # es) te =
     res_bind (te_create_table db_name tb_name engine te) (\<lambda>((ok, _), te).
     res_bind (te_create_tables db_name es te) (\<lambda>(oks, te). Inr (ok # oks, te)))"

lemma te_create_tables_ready:
  assumes "te_ready (metadata_path db) te" "files (io_disk (te_io te)) (metadata_path db) = Some f" "db \<noteq> []"
    "words_ok es" "distinct (map fst es)" "\<forall>tb \<in> fst ` set es. table_engine db tb te = None"
  shows "yields (te_create_tables db es te) (\<lambda>(oks, te'). oks = replicate (length es) True \<and> te_ready (metadata_path db) te' \<and>
    files (io_disk (te_io te')) (metadata_path db) = Some (f @ entries_text es) \<and>
    (\<forall>x. table_engine db x te' = (case map_of es x of Some e \<Rightarrow> Some e | None \<Rightarrow> table_engine db x te)))"
  using assms
proof (induction es arbitrary: te f)
  case Nil
  then show ?case by simp
next
  case (Cons p es)
  obtain tb eng where p: "p = (tb, eng)" by (cases p)
  have w: "tb \<noteq> []" "eng \<noteq> []" "words_ok es" using Cons.prems(4) by (auto simp: p words_ok_def is_word_def)
  have new: "table_engine db tb te = None" using Cons.prems(6) by (simp add: p)
  let ?rest = "\<lambda>te1. res_bind (te_create_tables db es te1) (\<lambda>(oks, te). Inr (True # oks, te))"
  show ?case unfolding p te_create_tables.simps
  proof (rule yields_bind [OF te_create_table_ready [OF Cons.prems(1,2,3) w(1,2) new]])
    fix x :: "(bool \<times> string) \<times> table_engines"
    obtain r te1 where x: "x = (r, te1)" by (cases x)
    assume "case x of (r, te') \<Rightarrow> r = (True, eng) \<and> te_ready (metadata_path db) te' \<and>
      io_disk (te_io te') = put_file (metadata_path db) (f @ entry_line (tb, eng) @ [newline]) (io_disk (te_io te)) \<and>
      te_map te' = te_map (set_engine db tb eng te)"
    then have 1: "r = (True, eng)" "te_ready (metadata_path db) te1"
        "files (io_disk (te_io te1)) (metadata_path db) = Some (f @ entry_line (tb, eng) @ [newline])"
        "te_map te1 = te_map (set_engine db tb eng te)" by (auto simp: x)
    have t: "table_engine db y te1 = (if y = tb then Some eng else table_engine db y te)" for y
      using table_engine_set_engine(1) [of db y tb eng te] 1(4) by (simp add: table_engine_def)
    have d: "distinct (map fst es)" "tb \<notin> fst ` set es" using Cons.prems(5) by (simp_all add: p)
    have fresh: "\<forall>y \<in> fst ` set es. table_engine db y te1 = None" using Cons.prems(6) d(2) by (auto simp: p t)
    have split_text: "entries_text ((tb, eng) # es) = entry_line (tb, eng) @ newline # entries_text es" by (simp add: entries_text_def)
    have "map_of es tb = None" using d(2) by (simp add: map_of_eq_None_iff)
    then have look: "(case map_of es y of None \<Rightarrow> table_engine db y te1 | Some e \<Rightarrow> Some e) =
        (case map_of ((tb, eng) # es) y of None \<Rightarrow> table_engine db y te | Some e \<Rightarrow> Some e)" for y
      by (simp add: t split: option.split)
    show "yields ((\<lambda>((ok, _), te). res_bind (te_create_tables db es te) (\<lambda>(oks, te). Inr (ok # oks, te))) x)
      (\<lambda>(oks, te'). oks = replicate (length ((tb, eng) # es)) True \<and> te_ready (metadata_path db) te' \<and>
        files (io_disk (te_io te')) (metadata_path db) = Some (f @ entries_text ((tb, eng) # es)) \<and>
        (\<forall>y. table_engine db y te' = (case map_of ((tb, eng) # es) y of None \<Rightarrow> table_engine db y te | Some e \<Rightarrow> Some e)))"
      unfolding x 1(1) prod.case
      by (rule yields_bind [OF Cons.IH [OF 1(2,3) Cons.prems(3) w(3) d(1) fresh]]) (auto simp: split_text look)
  qed
qed

lemma map_of_rev_distinct: "distinct (map fst es) \<Longrightarrow> map_of (rev es) = map_of es"
proof (induction es)
  case (Cons p es)
  then have "map_of es (fst p) = None" by (simp add: map_of_eq_None_iff)
  then show ?case using Cons by (cases p) (auto simp: fun_eq_iff map_add_def split: option.split)
qed simp

lemma new_table_engines_ready:
  "files d p \<noteq> None \<Longrightarrow> te_ready p (new_table_engines d)"
  using mk_file_io_wf [of 4 d] by (simp add: te_ready_def new_table_engines_def) (auto simp: mk_file_io_def)

text \<open>
  C18. The engines of tables survive a restart: tables created one after the other in a database whose metadata file
  is empty are all accepted, provided that their names differ and that the names of tables and engines are single words, and
  a new manager reads back exactly them, each under its engine and in the order in which they were created.
  (A name that is taken is refused; a name with a blank is accepted, but its line is read back as other words.)
\<close>

theorem tables_survive_restart:
  assumes "files d (metadata_path db) = Some []" "db \<noteq> []" "distinct (map fst es)"
    "\<forall>(tb, eng) \<in> set es. is_word tb \<and> is_word eng"
  shows "\<exists>te m te'. te_create_tables db es (new_table_engines d) = Inr (replicate (length es) True, te) \<and>
    load_database_metadata db (new_table_engines (io_disk (te_io te))) = Inr (m, te') \<and>
    (\<forall>e. om_at [] e m = map fst (filter (\<lambda>p. snd p = e) es)) \<and>
    (\<forall>x. table_engine db x te' = map_of es x \<and> table_engine db x te = map_of es x)"
proof -
  have ok: "words_ok es" using assms(4) by (simp add: words_ok_def)
  have none: "table_engine db x (new_table_engines d) = None" for x by (simp add: table_engine_def new_table_engines_def)
  have id: "(case y of None \<Rightarrow> table_engine db x (new_table_engines d) | Some e \<Rightarrow> Some e) = y" for x and y :: "string option"
    by (cases y) (simp_all add: none)
  have rdy: "te_ready (metadata_path db) (new_table_engines d)" using assms(1) by (intro new_table_engines_ready) simp
  have f: "files (io_disk (te_io (new_table_engines d))) (metadata_path db) = Some []" using assms(1) by (simp add: new_table_engines_def)
  obtain te where te: "te_create_tables db es (new_table_engines d) = Inr (replicate (length es) True, te)"
      "files (io_disk (te_io te)) (metadata_path db) = Some (entries_text es)" "\<And>x. table_engine db x te = map_of es x"
    using te_create_tables_ready [OF rdy f assms(2) ok assms(3)] by (auto simp: yields_def id none)
  have "map_of (rev es) = map_of es" by (rule map_of_rev_distinct [OF assms(3)])
  then show ?thesis using load_fresh [OF te(2) ok] te(1,3) by auto
qed

theorem tables_survive_restart_witness:
  "\<exists>te m te'. te_create_tables ''db'' [(''t'', ''tsm''), (''u'', ''clt''), (''v'', ''tsm'')]
      (new_table_engines \<lparr>files = [metadata_path ''db'' \<mapsto> []], dirs = {}\<rparr>) = Inr ([True, True, True], te) \<and>
    load_database_metadata ''db'' (new_table_engines (io_disk (te_io te))) = Inr (m, te') \<and>
    om_at [] ''tsm'' m = [''t'', ''v''] \<and> table_engine ''db'' ''u'' te' = Some ''clt''"
proof -
  let ?es = "[(''t'', ''tsm''), (''u'', ''clt''), (''v'', ''tsm'')]"
  have "\<forall>(tb, eng) \<in> set ?es. is_word tb \<and> is_word eng" by (simp add: is_word_def is_space_def)
  then obtain te m te' where r: "te_create_tables ''db'' ?es (new_table_engines \<lparr>files = [metadata_path ''db'' \<mapsto> []], dirs = {}\<rparr>) =
        Inr (replicate (length ?es) True, te)"
      "load_database_metadata ''db'' (new_table_engines (io_disk (te_io te))) = Inr (m, te')"
      "\<And>e. om_at [] e m = map fst (filter (\<lambda>p. snd p = e) ?es)" "\<And>x. table_engine ''db'' x te' = map_of ?es x"
    using tables_survive_restart [of "\<lparr>files = [metadata_path ''db'' \<mapsto> []], dirs = {}\<rparr>" "''db''" ?es] by auto
  show ?thesis
    by (rule exI [of _ te], rule exI [of _ m], rule exI [of _ te'])
      (use r(1,2) in \<open>simp add: r(3,4) numeral_eq_Suc\<close>)
qed

section \<open>Removing a table\<close>

text \<open>
  A table cannot be removed once its database has been loaded: the stream that \<open>load_database_metadata\<close> read to
  the end comes back from the cache with its fail bit set, no line is read, and the table stays.
\<close>

theorem remove_after_load_fails:
  assumes "files d (metadata_path db) = Some (entries_text es)" "\<forall>(tb, eng) \<in> set es. is_word tb \<and> is_word eng"
    "load_database_metadata db (new_table_engines d) = Inr (m, te)"
  shows "\<exists>te'. remove_table db tb te = Inr (False, te') \<and> te_map te' = te_map te \<and> io_disk (te_io te') = d"
proof -
  have te: "te_io te = one_stream (metadata_path db) (entries_text es) False 2 d" "te_failed te = {0}"
    using load_fresh [OF assms(1)] assms(2,3) by (auto simp: words_ok_def)
  show ?thesis using te
    by (simp add: remove_table_def on_te_io_def one_stream_get one_stream_open te_lines_def one_stream_release)
      (simp add: one_stream_def)
qed

theorem remove_after_load_fails_witness:
  "\<exists>m te te'. load_database_metadata ''db'' (new_table_engines \<lparr>files = [metadata_path ''db'' \<mapsto> entries_text [(''t'', ''tsm'')]], dirs = {}\<rparr>) =
      Inr (m, te) \<and> table_engine ''db'' ''t'' te = Some ''tsm'' \<and> remove_table ''db'' ''t'' te = Inr (False, te')"
proof -
  let ?d = "\<lparr>files = [metadata_path ''db'' \<mapsto> entries_text [(''t'', ''tsm'')]], dirs = {}\<rparr>"
  have w: "\<forall>(tb, eng) \<in> set [(''t'', ''tsm'')]. is_word tb \<and> is_word eng" by (simp add: is_word_def is_space_def)
  have f: "files ?d (metadata_path ''db'') = Some (entries_text [(''t'', ''tsm'')])" by simp
  obtain m te where l: "load_database_metadata ''db'' (new_table_engines ?d) = Inr (m, te)" "table_engine ''db'' ''t'' te = Some ''tsm''"
    using load_fresh [OF f] w by (auto simp: words_ok_def)
  then show ?thesis using remove_after_load_fails [OF f w l(1), of "''t''"] by blast
qed

end
