(* ===== verification/Evaluator.thy ===== *)
theory Evaluator
  imports Query Table_Engines
begin

text \<open>
  From the syntax tree to the execution plan: the nodes of a plan (\<open>src/execution_plan\<close>), the
  environment of variables and the evaluator (\<open>src/evaluator\<close>).

  A plan is a value; the root node is shared and mutable in the code, and is threaded through the evaluation here.
  A null pointer is \<open>None\<close>. The evaluator empties the lists of an insert node and completes the engine of a create node
  of the syntax tree, which is not used again. What is printed is left out, but for the answers of the options of
  \<open>show\<close>. Parameters are the conversions between 64-bit integers and \<open>float\<close>, \<open>atof\<close>, the text of a float, and
  the type of a create node, whose constructor does not initialise it.
\<close>

section \<open>Execution plans\<close>

datatype plan_type =
    OBJECT_ERROR | OBJECT_STRING | OBJECT_INTEGER | OBJECT_FLOAT | OBJECT_NULL | OBJECT_ROOT | OBJECT_SHOW | OBJECT_USE
  | OBJECT_SCAN | OBJECT_FILTER | OBJECT_PROJECT | OBJECT_INSERT | OBJECT_SYSTEM | OBJECT_QUERY_TSM

text \<open>The members that are ever set; the engine of a node is empty where it is not a member here.\<close>

datatype 'f plan =
    Error_plan string
  | String_plan string
  | Integer_plan "64 word"
  | Float_plan 'f
  | Null_plan
  | Root_plan string "'f plan option"
  | Sys_plan string string string
  | Create_plan string string "(string \<times> string) list" string
  | Show_plan string
  | Use_plan string "(string, string list) omap"
  | Scan_plan string "'f plan option"
  | Filter_plan "string list" "expr_node option"
  | Insert_plan string "string list" "string list" string
  | Query_plan string string "(string \<times> string) list" "expr_node option"

record 'f eval_env =
  ve_float_of_int :: "64 word \<Rightarrow> 'f"
  ve_int_of_float :: "'f \<Rightarrow> 64 word"
  ve_atof :: "string \<Rightarrow> 'f"
  ve_float_text :: "'f \<Rightarrow> string"
  ve_junk_type :: plan_type

text \<open>The constructor of an integer node gives the type of a float node, and takes its value as a \<open>float\<close>.\<close>

fun plan_type_of :: "'f eval_env \<Rightarrow> 'f plan \<Rightarrow> plan_type" where
  "plan_type_of env (Error_plan m) = OBJECT_ERROR"
| "plan_type_of env (String_plan s) = OBJECT_STRING"
| "plan_type_of env (Integer_plan n) = OBJECT_FLOAT"
| "plan_type_of env (Float_plan x) = OBJECT_FLOAT"
| "plan_type_of env Null_plan = OBJECT_NULL"
| "plan_type_of env (Root_plan e c) = OBJECT_ROOT"
| "plan_type_of env (Sys_plan opt tb w) = OBJECT_SYSTEM"
| "plan_type_of env (Create_plan e ty fs name) = ve_junk_type env"
| "plan_type_of env (Show_plan ty) = OBJECT_SHOW"
| "plan_type_of env (Use_plan db tables) = OBJECT_USE"
| "plan_type_of env (Scan_plan tb c) = OBJECT_SCAN"
| "plan_type_of env (Filter_plan fs w) = OBJECT_FILTER"
| "plan_type_of env (Insert_plan tb tags fv ts) = OBJECT_INSERT"
| "plan_type_of env (Query_plan db m fs w) = OBJECT_QUERY_TSM"

definition plan_names :: "(plan_type \<times> string) list" where
  "plan_names = [(OBJECT_USE, ''use''), (OBJECT_SHOW, ''show''), (OBJECT_ERROR, ''error''), (OBJECT_STRING, ''string''),
     (OBJECT_INTEGER, ''integer''), (OBJECT_FLOAT, ''float''), (OBJECT_NULL, ''null'')]"

definition plan_name :: "'f eval_env \<Rightarrow> 'f plan \<Rightarrow> string" where
  "plan_name env p = (case map_of plan_names (plan_type_of env p) of Some n \<Rightarrow> n | None \<Rightarrow> [])"

fun plan_str :: "'f eval_env \<Rightarrow> 'f plan \<Rightarrow> string" where
  "plan_str env (Error_plan m) = m"
| "plan_str env (String_plan s) = s"
| "plan_str env (Integer_plan n) = dec_int (sint n)"
| "plan_str env (Float_plan x) = ve_float_text env x"
| "plan_str env Null_plan = ''null''"
| "plan_str env (Scan_plan tb c) = tb"
| "plan_str env p = []"

fun plan_child :: "'f plan \<Rightarrow> 'f plan option" where
  "plan_child (Root_plan e c) = c"
| "plan_child (Scan_plan tb c) = c"
| "plan_child p = None"

fun plan_engine :: "'f plan \<Rightarrow> string" where
  "plan_engine (Root_plan e c) = e"
| "plan_engine (Create_plan e ty fs name) = e"
| "plan_engine p = []"

text \<open>\<open>new_error\<close> formats into a buffer of 1024 bytes, and \<open>%s\<close> reads up to the first zero byte.\<close>

definition new_error :: "string list \<Rightarrow> 'f plan" where
  "new_error parts = Error_plan (take 1023 (concat (map c_string parts)))"

definition new_integer :: "'f eval_env \<Rightarrow> 64 word \<Rightarrow> 'f plan" where
  "new_integer env n = Integer_plan (ve_int_of_float env (ve_float_of_int env n))"

section \<open>Variables\<close>

text \<open>The stores from the inner to the outer one; an environment has at least its own.\<close>

type_synonym 'f environment = "(string \<Rightarrow> 'f plan option option) list"

definition new_environment :: "'f environment \<Rightarrow> 'f environment" where
  "new_environment outer = Map.empty # outer"

fun env_set :: "string \<Rightarrow> 'f plan option \<Rightarrow> 'f environment \<Rightarrow> 'f environment" where
  "env_set name v [] = []"
| "env_set name v (store # outer) = store(name \<mapsto> v) # outer"

fun env_get :: "string \<Rightarrow> 'f environment \<Rightarrow> 'f plan option" where
  "env_get name [] = None"
| "env_get name (store # outer) = (case store name of Some v \<Rightarrow> v | None \<Rightarrow> env_get name outer)"

text \<open>The answer of the outer environment is thrown away.\<close>

fun env_has :: "string \<Rightarrow> 'f environment \<Rightarrow> bool" where
  "env_has name [] = False"
| "env_has name (store # outer) = (store name \<noteq> None)"

fun env_remove :: "string \<Rightarrow> 'f environment \<Rightarrow> 'f environment" where
  "env_remove name [] = []"
| "env_remove name (store # outer) = store(name := None) # outer"

fun env_clear :: "'f environment \<Rightarrow> 'f environment" where
  "env_clear [] = []"
| "env_clear (store # outer) = Map.empty # outer"

section \<open>State\<close>

record evaluator =
  ev_curr_db :: string
  ev_tables :: table_engines
  ev_shown :: "string list"

record 'f root_node =
  rt_engine :: string
  rt_child :: "'f plan option"

definition new_evaluator :: "disk \<Rightarrow> evaluator" where
  "new_evaluator d = \<lparr>ev_curr_db = [], ev_tables = new_table_engines d, ev_shown = []\<rparr>"

definition new_root :: "'f root_node" where
  "new_root = \<lparr>rt_engine = [], rt_child = None\<rparr>"

definition root_plan :: "'f root_node \<Rightarrow> 'f plan" where
  "root_plan root = Root_plan (rt_engine root) (rt_child root)"

definition on_tables :: "(table_engines \<Rightarrow> ('a \<times> table_engines) result) \<Rightarrow> evaluator \<Rightarrow> ('a \<times> evaluator) result" where
  "on_tables op ev = res_bind (op (ev_tables ev)) (\<lambda>(r, te). Inr (r, ev\<lparr>ev_tables := te\<rparr>))"

section \<open>Expressions\<close>

definition is_error :: "'f eval_env \<Rightarrow> 'f plan option \<Rightarrow> bool result" where
  "is_error env p = (case p of None \<Rightarrow> Inl Null_deref | Some p \<Rightarrow> Inr (plan_type_of env p = OBJECT_ERROR))"

definition string_operators :: "(string \<times> string) list" where
  "string_operators = [(''='', ''=''), (''<='', ''<=''), (''>='', ''>=''), (''<'', ''<''), (''>'', ''>''), (''and'', ''&''), (''or'', ''|'')]"

definition eval_string_infix_expression :: "'f eval_env \<Rightarrow> string \<Rightarrow> 'f plan \<Rightarrow> 'f plan \<Rightarrow> 'f plan" where
  "eval_string_infix_expression env op l r =
     (case map_of string_operators op of
        Some sep \<Rightarrow> String_plan (plan_str env l @ sep @ plan_str env r)
      | None \<Rightarrow> new_error [''unknown operator: '', plan_name env l, '' '', op, '' '', plan_name env r])"

text \<open>All cases but two strings fall through to the error.\<close>

definition eval_infix :: "'f eval_env \<Rightarrow> string \<Rightarrow> 'f plan \<Rightarrow> 'f plan \<Rightarrow> 'f plan" where
  "eval_infix env op l r =
     (if plan_type_of env l = OBJECT_STRING \<and> plan_type_of env r = OBJECT_STRING
      then eval_string_infix_expression env op l r
      else new_error [''unknown operation: '', plan_name env l, '' '', op, '' '', plan_name env r])"

text \<open>No node has the type \<open>OBJECT_INTEGER\<close> but a create node that happens to: its cast is null.\<close>

definition eval_minus_prefix_expression :: "'f eval_env \<Rightarrow> 'f plan \<Rightarrow> 'f plan result" where
  "eval_minus_prefix_expression env right =
     (if plan_type_of env right = OBJECT_INTEGER then
        (case right of Integer_plan n \<Rightarrow> Inr (new_integer env (- n)) | _ \<Rightarrow> Inl Null_deref)
      else Inr (new_error [''Error : unknown operator: -'', plan_name env right]))"

definition eval_prefix_operator :: "'f eval_env \<Rightarrow> string \<Rightarrow> 'f plan \<Rightarrow> 'f plan result" where
  "eval_prefix_operator env op right =
     (if op = ''-'' then eval_minus_prefix_expression env right
      else Inr (new_error [''Error : unknown operator : '', op, plan_name env right]))"

definition eval_identifier :: "string \<Rightarrow> 'f environment \<Rightarrow> 'f plan" where
  "eval_identifier name vars =
     (case env_get name vars of Some p \<Rightarrow> p | None \<Rightarrow> new_error [''identifier not found: '', name])"

section \<open>Statements\<close>

definition use_database :: "string \<Rightarrow> evaluator \<Rightarrow> bool \<times> evaluator" where
  "use_database db_name ev =
     (if database_exist db_name (ev_tables ev) then (True, ev\<lparr>ev_curr_db := db_name\<rparr>) else (False, ev))"

definition eval_use :: "string \<Rightarrow> evaluator \<Rightarrow> ('f plan option \<times> evaluator) result" where
  "eval_use db_name ev =
     (let (ok, ev) = use_database db_name ev in
      if ok then res_bind (on_tables (load_database_metadata db_name) ev) (\<lambda>(tables, ev). Inr (Some (Use_plan db_name tables), ev))
      else Inr (None, ev))"

definition eval_create :: "create_type \<Rightarrow> string \<Rightarrow> string \<Rightarrow> evaluator \<Rightarrow> ('f plan option \<times> evaluator) result" where
  "eval_create ty name engine ev =
     (case ty of
        CREATE_DATABASE \<Rightarrow>
          if name = [] then Inr (None, ev)
          else res_bind (on_tables (te_create_database name) ev) (\<lambda>(_, ev). Inr (Some (Create_plan engine ''database'' [] name), ev))
      | CREATE_TABLE \<Rightarrow>
          res_bind (on_tables (te_create_table (ev_curr_db ev) name engine) ev) (\<lambda>((ok, engine), ev).
            Inr (if ok then Some (Create_plan engine ''table'' [] name) else None, ev)))"

definition run_show_option :: "string \<Rightarrow> string \<Rightarrow> string \<Rightarrow> evaluator \<Rightarrow> evaluator" where
  "run_show_option opt db_name tb_name ev =
     (case map_of m_option_map opt of
        None \<Rightarrow> ev
      | Some method \<Rightarrow> ev\<lparr>ev_shown := ev_shown ev @ [method db_name tb_name (ev_tables ev)]\<rparr>)"

definition eval_show :: "string \<Rightarrow> string \<Rightarrow> string \<Rightarrow> string \<Rightarrow> evaluator \<Rightarrow> ('f plan option \<times> evaluator) result" where
  "eval_show db_name opt tb_name ty ev =
     (if db_name \<noteq> [] then
        res_bind (on_tables (load_database_metadata db_name) ev) (\<lambda>(_, ev).
          if tb_name \<noteq> [] then Inr (None, run_show_option opt db_name tb_name ev) else Inr (Some (Show_plan ty), ev))
      else if tb_name \<noteq> [] then
        Inr (None, if ev_curr_db ev \<noteq> [] then run_show_option opt (ev_curr_db ev) tb_name ev else ev)
      else Inr (Some (Show_plan ty), ev))"

text \<open>The values run out before the fields when the parser has dropped one: \<open>front\<close> of an empty list is undefined.\<close>

fun field_values :: "string list \<Rightarrow> string list \<Rightarrow> string list result" where
  "field_values [] vs = Inr []"
| "field_values (f # fs) [] = Inl (Out_of_range ''front'')"
| "field_values (f # fs) (v # vs) = res_bind (field_values fs vs) (\<lambda>fvs. Inr ((f @ ''='' @ v) # fvs))"

definition eval_insert :: "string \<Rightarrow> string list \<Rightarrow> string list \<Rightarrow> string list \<Rightarrow> string \<Rightarrow> 'f plan result" where
  "eval_insert from tags fs vs timestamp = res_bind (field_values fs vs) (\<lambda>fvs. Inr (Insert_plan from tags fvs timestamp))"

definition eval_sys :: "'f eval_env \<Rightarrow> string \<Rightarrow> string \<Rightarrow> 'f plan option \<Rightarrow> 'f plan" where
  "eval_sys env opt from w = Sys_plan opt from (case w of None \<Rightarrow> [] | Some p \<Rightarrow> plan_str env p)"

definition string_value :: "expression option \<Rightarrow> string result" where
  "string_value e = (case e of Some (String_node t v) \<Rightarrow> Inr v | _ \<Rightarrow> Inl Null_deref)"

definition as_infix :: "expression option \<Rightarrow> expression option" where
  "as_infix e = (case e of Some (Infix_node t op l r) \<Rightarrow> e | _ \<Rightarrow> None)"

text \<open>The plan for the circular list: a scan and a filter below the root; the fields are only checked for a star.\<close>

definition eval_clt_select ::
    "string list \<Rightarrow> string \<Rightarrow> expr_node option \<Rightarrow> 'f root_node \<Rightarrow> 'f plan option \<times> 'f root_node" where
  "eval_clt_select fs table_name w root =
     (if 1 < length fs \<and> ''*'' \<in> set fs then (None, root\<lparr>rt_child := Some (Scan_plan table_name None)\<rparr>)
      else
        (let root = root\<lparr>rt_child := Some (Scan_plan table_name (Some (Filter_plan fs w)))\<rparr> in (Some (root_plan root), root)))"

definition eval_select ::
    "string \<Rightarrow> string list \<Rightarrow> (string \<times> string) list \<Rightarrow> expression option \<Rightarrow> expression option \<Rightarrow>
     'f root_node \<times> evaluator \<Rightarrow> ('f plan option \<times> 'f root_node \<times> evaluator) result" where
  "eval_select curr_db fs reduced from w s =
     (let (root, ev) = s in
      res_bind (convert_to_new_tree (as_infix w)) (\<lambda>tree.
      res_bind (if curr_db \<noteq> [] then on_tables (load_database_metadata curr_db) ev else Inr ([], ev)) (\<lambda>(_, ev).
        let db_name = (if ev_curr_db ev = [] then curr_db else ev_curr_db ev) in
        if db_name = [] then Inr (None, root, ev)
        else res_bind (string_value from) (\<lambda>tb_name.
          if table_engine_is db_name tb_name ''tsm'' (ev_tables ev) then
            (let child = Query_plan curr_db tb_name reduced tree in Inr (Some child, root\<lparr>rt_child := Some child\<rparr>, ev))
          else if table_engine_is db_name tb_name ''clt'' (ev_tables ev) then
            (let (r, root) = eval_clt_select fs tb_name tree root in Inr (r, root, ev))
          else Inr (None, root, ev)))))"

section \<open>Evaluation\<close>

text \<open>The operands from left to right; an error ends the evaluation with it as the result.\<close>

definition eval_operands ::
    "'f eval_env \<Rightarrow> ('s \<Rightarrow> ('f plan option \<times> 's) result) \<Rightarrow> ('s \<Rightarrow> ('f plan option \<times> 's) result) \<Rightarrow>
     ('f plan \<Rightarrow> 'f plan \<Rightarrow> 's \<Rightarrow> ('f plan option \<times> 's) result) \<Rightarrow> 's \<Rightarrow> ('f plan option \<times> 's) result" where
  "eval_operands env left right k s =
     res_bind (left s) (\<lambda>(l, s). res_bind (is_error env l) (\<lambda>err.
       if err then Inr (l, s)
       else res_bind (right s) (\<lambda>(r, s). res_bind (is_error env r) (\<lambda>err.
              if err then Inr (r, s) else k (the l) (the r) s))))"

fun eval ::
    "'f eval_env \<Rightarrow> 'f environment \<Rightarrow> expression option \<Rightarrow> 'f root_node \<times> evaluator \<Rightarrow>
     ('f plan option \<times> 'f root_node \<times> evaluator) result" where
  "eval env vars None s = Inl Null_deref"
| "eval env vars (Some (System_node t opt from w)) s =
     (let finish = (\<lambda>where_plan (root, ev). let p = eval_sys env opt from where_plan in Inr (Some p, root\<lparr>rt_child := Some p\<rparr>, ev)) in
      case w of
        None \<Rightarrow> finish None s
      | Some (Infix_node t' op l r) \<Rightarrow>
          eval_operands env (\<lambda>s. eval env vars l s) (\<lambda>s. eval env vars r s) (\<lambda>x y s. finish (Some (eval_infix env op x y)) s) s
      | Some _ \<Rightarrow> Inl Null_deref)"
| "eval env vars (Some (Show_node db opt tb ty)) s =
     res_bind (eval_show db opt tb ty (snd s)) (\<lambda>(p, ev). Inr (p, (fst s)\<lparr>rt_child := p\<rparr>, ev))"
| "eval env vars (Some (Use_node db)) s =
     res_bind (eval_use db (snd s)) (\<lambda>(p, ev). Inr (p, (fst s)\<lparr>rt_child := p\<rparr>, ev))"
| "eval env vars (Some (Create_node ty name fs engine)) s =
     res_bind (eval_create ty name engine (snd s)) (\<lambda>(p, ev).
       case p of
         None \<Rightarrow> Inl Null_deref
       | Some c \<Rightarrow> Inr (p, (fst s)\<lparr>rt_engine := plan_engine c, rt_child := p\<rparr>, ev))"
| "eval env vars (Some (Select_node t db engine fs reduced from w)) s = eval_select db fs reduced from w s"
| "eval env vars (Some (Insert_node t db from tags fs vs ts)) s =
     res_bind (eval_insert from tags fs vs ts) (\<lambda>p. Inr (Some p, (fst s)\<lparr>rt_child := Some p\<rparr>, snd s))"
| "eval env vars (Some (String_node t v)) s = Inr (Some (String_plan v), s)"
| "eval env vars (Some (Integer_node t n)) s = Inr (Some (new_integer env n), s)"
| "eval env vars (Some (Float_node t v)) s = Inr (Some (Float_plan (ve_atof env v)), s)"
| "eval env vars (Some (Null_node t)) s = Inr (Some Null_plan, s)"
| "eval env vars (Some (Identifier_node t v)) s = Inr (Some (eval_identifier v vars), s)"
| "eval env vars (Some (Prefix_node t op r)) s =
     res_bind (eval env vars r s) (\<lambda>(right, s). res_bind (is_error env right) (\<lambda>err.
       if err then Inr (right, s) else res_bind (eval_prefix_operator env op (the right)) (\<lambda>p. Inr (Some p, s))))"
| "eval env vars (Some (Infix_node t op l r)) s =
     eval_operands env (\<lambda>s. eval env vars l s) (\<lambda>s. eval env vars r s) (\<lambda>x y s. Inr (Some (eval_infix env op x y), s)) s"

fun eval_program ::
    "'f eval_env \<Rightarrow> 'f environment \<Rightarrow> program \<Rightarrow> 'f root_node \<times> evaluator \<Rightarrow> ('f plan option \<times> 'f root_node \<times> evaluator) result" where
  "eval_program env vars [] s = Inr (None, s)"
| "eval_program env vars (stat # stats) s =
     res_bind (eval env vars (Some (st_expression stat)) s) (\<lambda>(res, s).
       if stats = [] \<or> (case res of None \<Rightarrow> False | Some p \<Rightarrow> plan_type_of env p = OBJECT_ERROR) then Inr (res, s)
       else eval_program env vars stats s)"

end
