(* ===== verification/Executor.thy ===== *)
theory Executor
  imports Evaluator Controller
begin

text \<open>
  The executor of plans (\<open>src/executor\<close>, the \<open>execute\<close> methods of \<open>src/execution_plan/operator.cpp\<close>), the
  controller of the circular list engine (\<open>src/engine/circularList/clt_controller.cpp\<close>) as far as it is written, and the
  loop of \<open>src/eval_repl.cpp\<close> that takes a text through lexer, parser, evaluator and executor.

  A session holds the evaluator, the two engines and the current database of the plans, which is a static
  member. All of them work on one disk; an operation gets it and hands it back. The pools of the engine run
  beside the session: a statement only calls the controller.
\<close>

section \<open>The circular list engine\<close>

record clt_controller =
  cc_databases :: "string \<Rightarrow> (string \<Rightarrow> string set option) option"
  cc_file :: file_path_manager

definition new_clt_controller :: "disk \<Rightarrow> clt_controller" where
  "new_clt_controller d = \<lparr>cc_databases = Map.empty, cc_file = new_file_path_manager ''clt'' d\<rparr>"

definition set_clt_fields :: "string \<Rightarrow> string \<Rightarrow> string set \<Rightarrow> clt_controller \<Rightarrow> clt_controller" where
  "set_clt_fields db_name tb_name names c =
     c\<lparr>cc_databases := (cc_databases c)(db_name \<mapsto> (or_no_map (cc_databases c db_name))(tb_name \<mapsto> names))\<rparr>"

fun clt_load_fields :: "string \<Rightarrow> string list \<Rightarrow> clt_controller \<Rightarrow> clt_controller result" where
  "clt_load_fields db_name [] c = Inr c"
| "clt_load_fields db_name (tb_name # tables) c =
     (if or_no_map (cc_databases c db_name) tb_name \<noteq> None then clt_load_fields db_name tables c
      else res_bind (load_mea_fields db_name tb_name (cc_file c)) (\<lambda>names.
             clt_load_fields db_name tables (set_clt_fields db_name tb_name names c)))"

definition clt_load_database :: "string \<Rightarrow> string list \<Rightarrow> clt_controller \<Rightarrow> (bool \<times> clt_controller) result" where
  "clt_load_database db_name tables c =
     res_bind (clt_load_fields db_name tables c) (\<lambda>c.
       let (r, fp) = load_database db_name tables (cc_file c) in Inr (r, c\<lparr>cc_file := fp\<rparr>))"

definition clt_create_database :: "string \<Rightarrow> clt_controller \<Rightarrow> bool \<times> clt_controller" where
  "clt_create_database db_name c = (False, c)"

fun clt_insert_fields :: "string \<Rightarrow> string \<Rightarrow> (string \<times> string) list \<Rightarrow> clt_controller \<Rightarrow> clt_controller result" where
  "clt_insert_fields db_name tb_name [] c = Inr c"
| "clt_insert_fields db_name tb_name (field # fs) c =
     res_bind (insert_field_to_file db_name tb_name (fst field @ ''='' @ snd field) (cc_file c)) (\<lambda>(_, fp).
       clt_insert_fields db_name tb_name fs (c\<lparr>cc_file := fp\<rparr>))"

text \<open>Whether the file manager could create the table is not looked at.\<close>

definition clt_create_table :: "(string \<times> string) list \<Rightarrow> string \<Rightarrow> string \<Rightarrow> clt_controller \<Rightarrow> (bool \<times> clt_controller) result" where
  "clt_create_table fs db_name tb_name c =
     (if exists_table db_name tb_name (cc_file c) then Inr (False, c)
      else
        res_bind (create_table tb_name db_name (cc_file c)) (\<lambda>(_, fp).
        res_bind (clt_insert_fields db_name tb_name fs (c\<lparr>cc_file := fp\<rparr>)) (\<lambda>c. Inr (True, c))))"

definition clt_show_table :: "string \<Rightarrow> clt_controller \<Rightarrow> (string set \<times> clt_controller) result" where
  "clt_show_table db_name c = res_bind (show_data db_name (cc_file c)) (\<lambda>(r, fp). Inr (r, c\<lparr>cc_file := fp\<rparr>))"

section \<open>Sessions\<close>

record session =
  se_disk :: disk
  se_current_db :: string
  se_evaluator :: evaluator
  se_tsm :: controller
  se_clt :: clt_controller

definition on_evaluator :: "(evaluator \<Rightarrow> ('a \<times> evaluator) result) \<Rightarrow> session \<Rightarrow> ('a \<times> session) result" where
  "on_evaluator op s =
     (let te = ev_tables (se_evaluator s) in
      res_bind (op ((se_evaluator s)\<lparr>ev_tables := te\<lparr>te_io := (te_io te)\<lparr>io_disk := se_disk s\<rparr>\<rparr>\<rparr>)) (\<lambda>(r, ev).
        Inr (r, s\<lparr>se_evaluator := ev, se_disk := io_disk (te_io (ev_tables ev))\<rparr>)))"

definition on_tsm_engine :: "(controller \<Rightarrow> ('a \<times> controller) result) \<Rightarrow> session \<Rightarrow> ('a \<times> session) result" where
  "on_tsm_engine op s =
     (let c = se_tsm s in
      res_bind (op (c\<lparr>ct_file := set_disk (se_disk s) (ct_file c)\<rparr>)) (\<lambda>(r, c).
        Inr (r, s\<lparr>se_tsm := c, se_disk := fp_disk (ct_file c)\<rparr>)))"

definition on_clt_engine :: "(clt_controller \<Rightarrow> ('a \<times> clt_controller) result) \<Rightarrow> session \<Rightarrow> ('a \<times> session) result" where
  "on_clt_engine op s =
     (let c = se_clt s in
      res_bind (op (c\<lparr>cc_file := set_disk (se_disk s) (cc_file c)\<rparr>)) (\<lambda>(r, c).
        Inr (r, s\<lparr>se_clt := c, se_disk := fp_disk (cc_file c)\<rparr>)))"

definition new_session :: "('tm, 'f) ctl_env \<Rightarrow> disk \<Rightarrow> session result" where
  "new_session env d =
     res_bind (mk_controller env d) (\<lambda>c.
       Inr \<lparr>se_disk = d, se_current_db = [], se_evaluator = new_evaluator d, se_tsm = c, se_clt = new_clt_controller d\<rparr>)"

section \<open>Executing a node\<close>

datatype engine_kind = Clt_engine | Tsm_engine

definition engine_map :: "(string \<times> engine_kind) list" where
  "engine_map = [(''clt'', Clt_engine), (''tsm'', Tsm_engine)]"

text \<open>A method whose answer is not used.\<close>

definition call :: "('a \<times> session) result \<Rightarrow> session result" where
  "call m = res_bind m (\<lambda>(_, s). Inr s)"

definition stoll :: "string \<Rightarrow> 64 word result" where
  "stoll s =
     (let s = dropWhile is_space s;
          neg = (s \<noteq> [] \<and> hd s = CHR ''-'');
          s = (if s \<noteq> [] \<and> (hd s = CHR ''-'' \<or> hd s = CHR ''+'') then tl s else s);
          ds = takeWhile is_digit s;
          n = (if neg then - int (dec_val 0 ds) else int (dec_val 0 ds))
      in if ds = [] then Inl (Logic_error ''stoll'')
         else if n < - (2 ^ 63) \<or> 2 ^ 63 \<le> n then Inl (Out_of_range ''stoll'')
         else Inr (of_int n))"

definition execute_sys :: "string \<Rightarrow> string \<Rightarrow> string \<Rightarrow> engine_kind \<Rightarrow> session \<Rightarrow> session result" where
  "execute_sys opt tb_name w k s =
     (let db = se_current_db s in
      if db = [] \<or> k = Clt_engine then Inr s
      else if opt = ''show'' then call (on_tsm_engine (ctl_sys_show_file db tb_name) s)
      else if opt = ''update'' then call (on_tsm_engine (ctl_sys_update_file db tb_name w) s)
      else if opt = ''clear'' then call (on_tsm_engine (ctl_sys_clear_file db tb_name) s)
      else Inr s)"

definition execute_create ::
    "string \<Rightarrow> string \<Rightarrow> (string \<times> string) list \<Rightarrow> string \<Rightarrow> engine_kind \<Rightarrow> session \<Rightarrow> session result" where
  "execute_create engine ty fs name k s =
     (if ty = ''database'' then
        (case k of
           Tsm_engine \<Rightarrow> call (on_tsm_engine (\<lambda>c. Inr (ctl_create_database name c)) s)
         | Clt_engine \<Rightarrow> call (on_clt_engine (\<lambda>c. Inr (clt_create_database name c)) s))
      else if ty = ''table'' then
        (if engine = ''clt'' then
           (case k of Tsm_engine \<Rightarrow> Inr s | Clt_engine \<Rightarrow> call (on_clt_engine (clt_create_table fs (se_current_db s) name) s))
         else
           (case k of Clt_engine \<Rightarrow> Inr s | Tsm_engine \<Rightarrow> call (on_tsm_engine (ctl_create_table name (se_current_db s)) s)))
      else Inr s)"

definition execute_show :: "engine_kind \<Rightarrow> session \<Rightarrow> session result" where
  "execute_show k s =
     (if se_current_db s = [] then Inr s
      else (case k of
              Tsm_engine \<Rightarrow> call (on_tsm_engine (ctl_show_table (se_current_db s)) s)
            | Clt_engine \<Rightarrow> call (on_clt_engine (clt_show_table (se_current_db s)) s)))"

fun load_engine_tables :: "string \<Rightarrow> string \<Rightarrow> engine_kind \<Rightarrow> (string, string list) omap \<Rightarrow> session \<Rightarrow> session result" where
  "load_engine_tables engine db_name k [] s = Inr s"
| "load_engine_tables engine db_name k (tables # rest) s =
     res_bind
       (if fst tables = engine then
          (case k of
             Tsm_engine \<Rightarrow> call (on_tsm_engine (ctl_load_database db_name (snd tables)) s)
           | Clt_engine \<Rightarrow> call (on_clt_engine (clt_load_database db_name (snd tables)) s))
        else Inr s)
       (load_engine_tables engine db_name k rest)"

definition execute_use :: "string \<Rightarrow> string \<Rightarrow> (string, string list) omap \<Rightarrow> engine_kind \<Rightarrow> session \<Rightarrow> session result" where
  "execute_use engine db_name tables k s = load_engine_tables engine db_name k tables (s\<lparr>se_current_db := db_name\<rparr>)"

text \<open>The text is cut at every equals sign; the last two pieces are field and value.\<close>

function last_assignment :: "string \<Rightarrow> string \<Rightarrow> string \<times> string" where
  "last_assignment field fv =
     (case str_find CHR ''='' fv of
        None \<Rightarrow> (field, fv)
      | Some pos \<Rightarrow> last_assignment (take pos fv) (drop (pos + 1) fv))"
  by pat_completeness auto
termination
  by (relation "measure (length \<circ> snd)") (auto dest: str_find_SomeD)

declare last_assignment.simps [simp del]

definition insert_each_field :: "time_point \<Rightarrow> string \<Rightarrow> string list \<Rightarrow> string \<Rightarrow> string \<Rightarrow> controller \<Rightarrow> controller" where
  "insert_each_field timestamp tags_str fvs tb_name db_name =
     fold (\<lambda>fv. let (field, val) = last_assignment [] fv in
       ctl_insert timestamp tags_str val DATA_STRING field tb_name db_name False) fvs"

definition execute_insert :: "string \<Rightarrow> string list \<Rightarrow> string list \<Rightarrow> string \<Rightarrow> engine_kind \<Rightarrow> session \<Rightarrow> session result" where
  "execute_insert tb_name tags fvs timestamp k s =
     (case k of
        Clt_engine \<Rightarrow> Inr s
      | Tsm_engine \<Rightarrow>
          res_bind (stoll timestamp) (\<lambda>t.
            call (on_tsm_engine (\<lambda>c. Inr ((),
              ctl_create_index tb_name (sort tags) (insert_each_field t (concat (sort tags)) fvs tb_name (se_current_db s) c))) s)))"

definition execute_query ::
    "string \<Rightarrow> string \<Rightarrow> (string \<times> string) list \<Rightarrow> expr_node option \<Rightarrow> engine_kind \<Rightarrow> session \<Rightarrow> session result" where
  "execute_query db_name measurement reduced tree k s =
     (if k = Clt_engine then Inr s
      else (let db = (if db_name = [] then se_current_db s else db_name) in
        if db = [] then Inr s
        else call (on_tsm_engine (\<lambda>c. Inr ((), get_range_data db measurement reduced tree c)) s)))"

text \<open>The other nodes only print, if they do anything. \<open>engine\<close> is the node's member \<open>m_engine\<close> at the call.\<close>

fun execute :: "'f plan \<Rightarrow> string \<Rightarrow> engine_kind \<Rightarrow> session \<Rightarrow> session result" where
  "execute (Sys_plan opt tb w) engine k s = execute_sys opt tb w k s"
| "execute (Create_plan e ty fs name) engine k s = execute_create engine ty fs name k s"
| "execute (Show_plan ty) engine k s = execute_show k s"
| "execute (Use_plan db tables) engine k s = execute_use engine db tables k s"
| "execute (Insert_plan tb tags fvs ts) engine k s = execute_insert tb tags fvs ts k s"
| "execute (Query_plan db m reduced tree) engine k s = execute_query db m reduced tree k s"
| "execute p engine k s = Inr s"

section \<open>Executing a plan\<close>

definition show_database :: "session \<Rightarrow> session result" where
  "show_database s = (if default_base_path \<in> dirs (se_disk s) then Inr s else Inl (Runtime_error ''filesystem_error''))"

text \<open>
  The name decides. A create node whose type happens to be that of a show node is cast to one, which gives null. An
  engine that the map does not know becomes a null pointer in it.
\<close>

definition execute_node :: "'f eval_env \<Rightarrow> 'f plan \<Rightarrow> session \<Rightarrow> session result" where
  "execute_node env p s =
     (if plan_name env p = ''show'' then
        (case p of
           Show_plan ty \<Rightarrow>
             if ty = ''database'' then show_database s
             else res_bind (execute p [] Clt_engine s) (execute p [] Tsm_engine)
         | _ \<Rightarrow> Inl Null_deref)
      else if plan_name env p = ''use'' then
        res_bind (execute p ''clt'' Clt_engine s) (execute p ''tsm'' Tsm_engine)
      else if plan_engine p \<noteq> [] then
        (case map_of engine_map (plan_engine p) of None \<Rightarrow> Inl Null_deref | Some k \<Rightarrow> execute p (plan_engine p) k s)
      else Inr s)"

fun execute_plan :: "'f eval_env \<Rightarrow> 'f plan option \<Rightarrow> session \<Rightarrow> session result" where
  "execute_plan env None s = Inr s"
| "execute_plan env (Some (Root_plan e c)) s = res_bind (execute_node env (Root_plan e c) s) (execute_plan env c)"
| "execute_plan env (Some (Scan_plan tb c)) s = res_bind (execute_node env (Scan_plan tb c) s) (execute_plan env c)"
| "execute_plan env (Some p) s = execute_node env p s"

section \<open>Statements\<close>

definition run_program :: "'f eval_env \<Rightarrow> 'f environment \<Rightarrow> program \<Rightarrow> session \<Rightarrow> session result" where
  "run_program env vars prog s =
     res_bind (on_evaluator (\<lambda>ev. res_bind (eval_program env vars prog (new_root, ev)) (\<lambda>(_, root, ev). Inr (root, ev))) s) (\<lambda>(root, s).
       execute_plan env (Some (root_plan root)) s)"

text \<open>A text with errors is not evaluated; a text on which the parser does not return gives \<open>None\<close>.\<close>

definition run_sql :: "'tm parse_env \<Rightarrow> 'f eval_env \<Rightarrow> 'f environment \<Rightarrow> string \<Rightarrow> session \<Rightarrow> session result option" where
  "run_sql penv env vars sql s =
     (case parse_program penv (mk_parser (mk_lexer sql)) of
        None \<Rightarrow> None
      | Some (Inl e) \<Rightarrow> Some (Inl e)
      | Some (Inr (prog, p)) \<Rightarrow> Some (if ps_errors p \<noteq> [] then Inr s else run_program env vars prog s))"

end
