(* ===== verification/Executor_Properties.thy ===== *)
theory Executor_Properties
  imports Executor Parser_Properties Controller_Properties
begin

text \<open>
  Properties of the way from a statement to the engine: which statements reach it, what the evaluator and the executor
  make of creating and using a database, and where the way ends in undefined behaviour.
\<close>

section \<open>What statements leave alone\<close>

text \<open>The part of the engine that inserting, indexing and querying work on.\<close>

definition engine_work :: "controller \<Rightarrow>
    (string, (string, writer option) omap) omap \<times> ctl_task list \<times> ctl_task list \<times> index_state \<times> row_node list" where
  "engine_work c = (ct_map c, ct_producer c, ct_consumer c, ct_index c, ct_rows c)"

lemma engine_work_simps [simp]:
  "engine_work (c\<lparr>ct_file := fp\<rparr>) = engine_work c" "engine_work (set_mea_fields db tb names c) = engine_work c"
  by (simp_all add: engine_work_def set_mea_fields_def)

lemma on_file_work: "on_file op c = Inr (r, c') \<Longrightarrow> engine_work c' = engine_work c"
  by (auto simp: on_file_def res_bind_eq_Inr)

lemma load_table_fields_work: "load_table_fields db tables c = Inr c' \<Longrightarrow> engine_work c' = engine_work c"
  by (induction db tables c arbitrary: c' rule: load_table_fields.induct) (auto simp: res_bind_eq_Inr split: if_splits)

lemma ctl_load_database_work: "ctl_load_database db tables c = Inr (r, c') \<Longrightarrow> engine_work c' = engine_work c"
proof -
  assume a: "ctl_load_database db tables c = Inr (r, c')"
  then obtain c1 where 1: "load_table_fields db tables c = Inr c1" by (auto simp: ctl_load_database_def res_bind_eq_Inr)
  obtain r' fp where 2: "load_database db tables (ct_file c1) = (r', fp)" by fastforce
  show ?thesis using a 1 2 load_table_fields_work [OF 1] by (auto simp: ctl_load_database_def)
qed

lemma ctl_ops_work:
  "ctl_show_table db c = Inr (r1, c') \<Longrightarrow> engine_work c' = engine_work c"
  "ctl_create_table tb db c = Inr (r2, c') \<Longrightarrow> engine_work c' = engine_work c"
  "ctl_create_database db c = (r3, c') \<Longrightarrow> engine_work c' = engine_work c"
  "ctl_sys_show_file db tb c = Inr (r4, c') \<Longrightarrow> engine_work c' = engine_work c"
  "ctl_sys_clear_file db tb c = Inr (r5, c') \<Longrightarrow> engine_work c' = engine_work c"
  by (auto simp: ctl_show_table_def ctl_create_table_def ctl_create_database_def ctl_sys_show_file_def ctl_sys_clear_file_def
      res_bind_eq_Inr Let_def split: prod.splits if_splits dest: on_file_work)

lemma ctl_sys_update_file_work: "ctl_sys_update_file db tb w c = Inr (r, c') \<Longrightarrow> engine_work c' = engine_work c"
  by (auto simp: ctl_sys_update_file_def res_bind_eq_Inr Let_def split: if_splits option.splits dest: on_file_work)

definition session_work :: "session \<Rightarrow>
    (string, (string, writer option) omap) omap \<times> ctl_task list \<times> ctl_task list \<times> index_state \<times> row_node list" where
  "session_work s = engine_work (se_tsm s)"

lemma call_tsm_work:
  assumes "call (on_tsm_engine op s) = Inr s'" "\<And>c r c'. op c = Inr (r, c') \<Longrightarrow> engine_work c' = engine_work c"
  shows "session_work s' = session_work s"
  using assms by (fastforce simp: call_def on_tsm_engine_def session_work_def res_bind_eq_Inr Let_def)

lemma call_clt_work: "call (on_clt_engine op s) = Inr s' \<Longrightarrow> session_work s' = session_work s"
  by (auto simp: call_def on_clt_engine_def session_work_def res_bind_eq_Inr Let_def)

lemma load_engine_tables_work:
  "load_engine_tables engine db k m s = Inr s' \<Longrightarrow> session_work s' = session_work s"
proof (induction engine db k m s arbitrary: s' rule: load_engine_tables.induct)
  case (2 engine db k tables rest s)
  then obtain s1 where 1: "(if fst tables = engine then
          (case k of
             Tsm_engine \<Rightarrow> call (on_tsm_engine (ctl_load_database db (snd tables)) s)
           | Clt_engine \<Rightarrow> call (on_clt_engine (clt_load_database db (snd tables)) s))
        else Inr s) = Inr s1" "load_engine_tables engine db k rest s1 = Inr s'" by (auto simp: res_bind_eq_Inr)
  have "session_work s1 = session_work s" using 1(1)
    by (auto split: if_splits engine_kind.splits dest: call_clt_work call_tsm_work intro: ctl_load_database_work)
  then show ?case using "2.IH" [OF 1(2)] by simp
qed simp

lemma execute_use_work: "execute_use engine db m k s = Inr s' \<Longrightarrow> session_work s' = session_work s"
  by (auto simp: execute_use_def dest!: load_engine_tables_work) (simp add: session_work_def)

lemma execute_create_work: "execute_create engine ty fs name k s = Inr s' \<Longrightarrow> session_work s' = session_work s"
  by (auto simp: execute_create_def split: if_splits engine_kind.splits dest: call_clt_work call_tsm_work intro: ctl_ops_work)

lemma execute_show_work: "execute_show k s = Inr s' \<Longrightarrow> session_work s' = session_work s"
  by (auto simp: execute_show_def split: if_splits engine_kind.splits dest: call_clt_work call_tsm_work intro: ctl_ops_work)

text \<open>Only nodes that name an engine, and those with the name of show and use, are executed.\<close>

lemma execute_sys_work: "execute_sys opt tb w k s = Inr s' \<Longrightarrow> session_work s' = session_work s"
  unfolding execute_sys_def Let_def
  by (simp split: if_splits) (blast dest: call_tsm_work intro: ctl_ops_work ctl_sys_update_file_work)+

lemma execute_work:
  assumes "execute p engine k s = Inr s'" "case p of Insert_plan _ _ _ _ \<Rightarrow> False | Query_plan _ _ _ _ \<Rightarrow> False | _ \<Rightarrow> True"
  shows "session_work s' = session_work s"
  using assms by (cases p) (simp_all add: execute_use_work execute_create_work execute_show_work execute_sys_work)

abbreviation touches_engine :: "'f plan \<Rightarrow> bool" where
  "touches_engine p \<equiv> (case p of Insert_plan _ _ _ _ \<Rightarrow> True | Query_plan _ _ _ _ \<Rightarrow> True | _ \<Rightarrow> False)"

lemma execute_node_cases:
  assumes "execute_node env p s = Inr s'"
  obtains "s' = s" | k where "execute p (plan_engine p) k s = Inr s'"
    | e e' s1 where "execute p e Clt_engine s = Inr s1" "execute p e' Tsm_engine s1 = Inr s'"
proof (cases "plan_name env p = ''show''")
  case True
  have e0: "execute_node env p s = (case p of
      Show_plan ty \<Rightarrow> if ty = ''database'' then show_database s else res_bind (execute p [] Clt_engine s) (execute p [] Tsm_engine)
    | _ \<Rightarrow> Inl Null_deref)"
    by (simp only: execute_node_def True if_True simp_thms)
  have "\<exists>ty. p = Show_plan ty" using assms unfolding e0 by (cases p) simp_all
  then obtain ty where p: "p = Show_plan ty" ..
  have e: "execute_node env p s =
      (if ty = ''database'' then show_database s else res_bind (execute p [] Clt_engine s) (execute p [] Tsm_engine))"
    unfolding e0 by (simp add: p)
  show ?thesis
  proof (cases "ty = ''database''")
    case True
    then have "show_database s = Inr s'" using assms e by simp
    then have "s' = s" by (simp add: show_database_def split: if_splits)
    then show ?thesis by (rule that(1))
  next
    case False
    then have "res_bind (execute p [] Clt_engine s) (execute p [] Tsm_engine) = Inr s'" using assms e by simp
    then obtain s1 where "execute p [] Clt_engine s = Inr s1" "execute p [] Tsm_engine s1 = Inr s'"
      unfolding res_bind_eq_Inr by blast
    then show ?thesis by (rule that(3))
  qed
next
  case False
  note not_show = this
  show ?thesis
  proof (cases "plan_name env p = ''use''")
    case True
    then have "res_bind (execute p ''clt'' Clt_engine s) (execute p ''tsm'' Tsm_engine) = Inr s'"
      using assms by (simp add: execute_node_def)
    then obtain s1 where "execute p ''clt'' Clt_engine s = Inr s1" "execute p ''tsm'' Tsm_engine s1 = Inr s'"
      unfolding res_bind_eq_Inr by blast
    then show ?thesis by (rule that(3))
  next
    case False
    have "execute_node env p s = (if plan_engine p \<noteq> [] then
        (case map_of engine_map (plan_engine p) of None \<Rightarrow> Inl Null_deref | Some k \<Rightarrow> execute p (plan_engine p) k s) else Inr s)"
      by (simp only: execute_node_def not_show False if_False)
    with assms have "s' = s \<or> (\<exists>k. execute p (plan_engine p) k s = Inr s')"
      by (simp split: if_splits option.splits) blast+
    then show ?thesis using that(1,2) by blast
  qed
qed

lemma execute_node_work:
  assumes "execute_node env p s = Inr s'"
  shows "session_work s' = session_work s"
proof (cases "touches_engine p")
  case True
  then have "plan_name env p = []" "plan_engine p = []" by (cases p; simp add: plan_name_def plan_names_def)+
  then show ?thesis using assms by (simp add: execute_node_def)
next
  case False
  then have w: "execute p e k s1 = Inr s2 \<Longrightarrow> session_work s2 = session_work s1" for e k s1 s2
    using execute_work [of p e k s1 s2] by (cases p) simp_all
  show ?thesis using assms by (cases rule: execute_node_cases) (auto dest!: w)
qed

lemma execute_plan_work: "execute_plan env p s = Inr s' \<Longrightarrow> session_work s' = session_work s"
  by (induction env p s arbitrary: s' rule: execute_plan.induct)
    (auto simp: res_bind_eq_Inr dest!: execute_node_work)

lemma on_evaluator_work: "on_evaluator op s = Inr (r, s') \<Longrightarrow> session_work s' = session_work s"
  by (auto simp: on_evaluator_def res_bind_eq_Inr Let_def session_work_def)

lemma run_program_work: "run_program env vars prog s = Inr s' \<Longrightarrow> session_work s' = session_work s"
  by (auto simp: run_program_def res_bind_eq_Inr dest!: on_evaluator_work execute_plan_work)

text \<open>
  C19. No statement ever reaches the data: a text that parser, evaluator and executor take leaves the writers, the queues of
  both pools, the index and the rows of the engine as they were. Only create and use statements give the node of the plan an engine, so
  the nodes of insert, select and system statements are passed over.
\<close>

theorem statements_reach_no_data:
  assumes "run_sql penv env vars sql s = Some (Inr s')"
  shows "engine_work (se_tsm s') = engine_work (se_tsm s)"
  using assms run_program_work unfolding session_work_def
  by (auto simp: run_sql_def split: option.splits sum.splits if_splits)

section \<open>Texts\<close>

lemma run_sql_statement:
  assumes "parse_program penv (mk_parser (mk_lexer sql)) = gives prog p" "ps_errors p = []"
  shows "run_sql penv env vars sql s = Some (run_program env vars prog s)"
  using assms by (simp add: run_sql_def)

definition demo_eval_env :: "unit eval_env" where
  "demo_eval_env = \<lparr>ve_float_of_int = (\<lambda>_. ()), ve_int_of_float = (\<lambda>_. 0), ve_atof = (\<lambda>_. ()), ve_float_text = (\<lambda>_. []),
     ve_junk_type = OBJECT_ERROR\<rparr>"

lemma ahead_errors [simp]: "ps_errors (ahead n p) = ps_errors p"
  by (induction n) (simp_all add: ahead_def)

lemma mk_parser_errors [simp]: "ps_errors (mk_parser l) = []"
  by (simp add: mk_parser_def)

lemma on_evaluator_error: "op ((se_evaluator s)\<lparr>ev_tables := (ev_tables (se_evaluator s))\<lparr>te_io := (te_io (ev_tables (se_evaluator s)))\<lparr>io_disk := se_disk s\<rparr>\<rparr>\<rparr>) = Inl e \<Longrightarrow>
  on_evaluator op s = Inl e"
  by (simp add: on_evaluator_def Let_def)

text \<open>
  A create table that is refused is undefined behaviour: without a current database, or when the table exists, the
  evaluator goes through the null pointer that \<open>eval_create\<close> returns.
\<close>

theorem refused_table_crashes:
  assumes "begins (mk_parser (mk_lexer sql)) (create_tokens t tb fs eng @ [eof])" "tok_type t = TOKEN_CREATE"
    "tok_type eng \<in> {TOKEN_TSM, TOKEN_CLT}"
    "ev_curr_db (se_evaluator s) = [] \<or> table_engine (ev_curr_db (se_evaluator s)) tb (ev_tables (se_evaluator s)) \<noteq> None"
  shows "run_sql penv env vars sql s = Some (Inl Null_deref)"
proof -
  have refused: "te_create_table (ev_curr_db (se_evaluator s)) tb (tok_literal eng) (ev_tables (se_evaluator s)\<lparr>te_io := io\<rparr>) =
      Inr ((False, e'), ev_tables (se_evaluator s)\<lparr>te_io := io\<rparr>)"
    if "e' = (if ev_curr_db (se_evaluator s) = [] \<or> tb = [] \<or> tok_literal eng \<noteq> [] then tok_literal eng else ''tsm'')" for io e'
    using assms(4) that by (auto simp: te_create_table_def table_engine_def Let_def split: option.splits)
  then have "run_program env vars [\<lparr>st_token = t,
      st_expression = Create_node CREATE_TABLE tb (map (\<lambda>f. (fst f, tok_literal (snd f))) fs) (tok_literal eng)\<rparr>] s = Inl Null_deref"
    by (simp add: run_program_def on_evaluator_def eval_create_def on_tables_def Let_def)
  then show ?thesis
    using run_sql_statement [OF create_table_roundtrip [OF assms(1-3)], where env = env and vars = vars and s = s] by simp
qed

text \<open>
  An insert with a value that the parser drops is undefined behaviour: the evaluator takes the front of
  the list of values when it is empty.
\<close>

theorem dropped_value_crashes:
  assumes "begins (mk_parser (mk_lexer sql)) (insert_tokens t db tb tags fs ts @ [eof])" "tok_type t = TOKEN_INSERT"
    "\<exists>a \<in> set fs. \<not> is_value (snd a)" "tok_type ts = TOKEN_INTEGER" "length (tok_literal ts) = 19"
    "pe_get_time penv (tok_literal ts) = None"
  shows "run_sql penv env vars sql s = Some (Inl (Out_of_range ''front''))"
proof -
  have short: "field_values (map fst fs) vs = Inl (Out_of_range ''front'')" if "length vs < length fs" for vs and fs :: "(string \<times> token) list"
    using that
  proof (induction fs arbitrary: vs)
    case (Cons f fs)
    then show ?case by (cases vs) auto
  qed simp
  have "length (filter (is_value \<circ> snd) fs) < length fs" using assms(3) by (metis comp_apply length_filter_less)
  then have "run_program env vars [\<lparr>st_token = t, st_expression = insert_node t db tb tags fs (tok_literal ts)\<rparr>] s =
      Inl (Out_of_range ''front'')"
    using short [of "map (tok_literal \<circ> snd) (filter (is_value \<circ> snd) fs)" fs]
    by (simp add: run_program_def on_evaluator_def insert_node_def eval_insert_def Let_def)
  moreover have "fs \<noteq> []" using assms(3) by auto
  ultimately show ?thesis
    using run_sql_statement [OF insert_program [OF assms(1,2) _ assms(4-6)], where env = env and vars = vars and s = s] by simp
qed

section \<open>The insert node\<close>

lemma last_assignment_plain: "CHR ''='' \<notin> set v \<Longrightarrow> last_assignment f v = (f, v)"
  by (subst last_assignment.simps) (simp add: iffD2 [OF str_find_None])

lemma last_assignment_pair:
  assumes "CHR ''='' \<notin> set f" "CHR ''='' \<notin> set v"
  shows "last_assignment x (f @ CHR ''='' # v) = (f, v)"
  by (subst last_assignment.simps) (simp add: str_find_append [OF assms(1)] last_assignment_plain [OF assms(2)])

definition insert_task :: "time_point \<Rightarrow> string \<Rightarrow> string \<Rightarrow> string \<Rightarrow> string \<times> string \<Rightarrow> ctl_task" where
  "insert_task t tags tb db fv = Insert_task t tags (snd fv) DATA_STRING (fst fv) tb db False"

lemma insert_fields_tasks:
  assumes "\<forall>(f, v) \<in> set fvs. CHR ''='' \<notin> set f \<and> CHR ''='' \<notin> set v"
  shows "insert_each_field t tags (map (\<lambda>(f, v). f @ CHR ''='' # v) fvs) tb db c =
    c\<lparr>ct_producer := ct_producer c @ map (insert_task t tags tb db) fvs\<rparr>"
  using assms
proof (induction fvs arbitrary: c)
  case (Cons p fvs)
  obtain f v where p: "p = (f, v)" by (cases p)
  have "last_assignment [] (f @ CHR ''='' # v) = (f, v)" using Cons.prems by (intro last_assignment_pair) (simp_all add: p)
  then show ?case using Cons
    by (simp add: p insert_each_field_def insert_task_def ctl_insert_def enqueue_producer_def)
qed (simp add: insert_each_field_def)

lemma field_values_zip: "field_values (map fst fvs) (map snd fvs) = Inr (map (\<lambda>(f, v). f @ CHR ''='' # v) fvs)"
  by (induction fvs) auto

text \<open>
  C20. What the insert node would do: executed on the engine, the plan of an insert statement queues one task for every field,
  in the order of the statement and always as a string, with the tags sorted and joined, and then the task that indexes the series.
\<close>

theorem insert_node_queues_fields:
  assumes "eval_insert from tags (map fst fvs) (map snd fvs) ts = Inr p" "stoll ts = Inr t"
    "\<forall>(f, v) \<in> set fvs. CHR ''='' \<notin> set f \<and> CHR ''='' \<notin> set v"
  shows "\<exists>s'. execute p ''tsm'' Tsm_engine s = Inr s' \<and> se_disk s' = se_disk s \<and>
    ct_producer (se_tsm s') = ct_producer (se_tsm s) @
      map (insert_task t (concat (sort tags)) from (se_current_db s)) fvs @ [Index_task from (sort tags)]"
  using assms(1,2) field_values_zip [of fvs]
  by (auto simp: eval_insert_def execute_insert_def call_def on_tsm_engine_def Let_def insert_fields_tasks [OF assms(3)]
      ctl_create_index_def enqueue_producer_def set_disk_def)

theorem insert_node_queues_fields_witness:
  "\<exists>(p :: unit plan) s'. eval_insert ''m'' [''b=2'', ''a=1''] [''x'', ''y''] [''5'', ''6''] ''1702880186879347823'' = Inr p \<and>
    execute p ''tsm'' Tsm_engine \<lparr>se_disk = demo_meta_disk, se_current_db = ''db'', se_evaluator = new_evaluator demo_meta_disk,
      se_tsm = demo_started, se_clt = new_clt_controller demo_meta_disk\<rparr> = Inr s' \<and>
    length (ct_producer (se_tsm s')) = length (ct_producer demo_started) + 3"
proof -
  let ?fvs = "[(''x'', ''5''), (''y'', ''6'')]"
  obtain p :: "unit plan" where p: "eval_insert ''m'' [''b=2'', ''a=1''] (map fst ?fvs) (map snd ?fvs) ''1702880186879347823'' = Inr p"
    by (simp add: eval_insert_def)
  obtain t where "stoll ''1702880186879347823'' = Inr t"
    by (simp add: stoll_def is_space_def is_digit_def Let_def)
  note q = insert_node_queues_fields [OF p this, of "\<lparr>se_disk = demo_meta_disk, se_current_db = ''db'', se_evaluator = new_evaluator demo_meta_disk,
      se_tsm = demo_started, se_clt = new_clt_controller demo_meta_disk\<rparr>"]
  obtain s' where "execute p ''tsm'' Tsm_engine \<lparr>se_disk = demo_meta_disk, se_current_db = ''db'', se_evaluator = new_evaluator demo_meta_disk,
      se_tsm = demo_started, se_clt = new_clt_controller demo_meta_disk\<rparr> = Inr s'"
    "ct_producer (se_tsm s') = ct_producer demo_started @ map (insert_task t (concat (sort [''b=2'', ''a=1''])) ''m'' ''db'') ?fvs @
      [Index_task ''m'' (sort [''b=2'', ''a=1''])]" using q by auto
  with p show ?thesis by (intro exI [of _ p] exI [of _ s']) simp
qed

section \<open>Using a database\<close>

lemma load_shards_file:
  "load_shards shs c = Inr c' \<Longrightarrow> ct_file c' = ct_file c \<and> ct_mea_map c' = ct_mea_map c"
proof (induction shs arbitrary: c)
  case (Cons sh shs)
  then obtain c1 where 1: "load_shard sh c = Inr c1" "load_shards shs c1 = Inr c'" by (auto simp: res_bind_eq_Inr)
  have "ct_file c1 = ct_file c \<and> ct_mea_map c1 = ct_mea_map c"
    using 1(1) by (auto simp: load_shard_def Let_def put_writer_def set_database_def split: option.splits)
  then show ?case using Cons.IH [OF 1(2)] by simp
qed simp

lemma mk_controller_file:
  "mk_controller env d = Inr c \<Longrightarrow> ct_file c = new_file_path_manager ''tsm'' d \<and> ct_mea_map c = Map.empty"
  by (auto simp: mk_controller_def load_meta_file_def new_controller_def split: option.splits dest!: load_shards_file)

lemma set_disk_same [simp]: "set_disk (fp_disk fp) fp = fp"
  by (simp add: set_disk_def)

lemma new_file_path_manager_disk [simp]: "fp_disk (new_file_path_manager e d) = d" "set_disk d (new_file_path_manager e d) = new_file_path_manager e d"
  by (simp_all add: new_file_path_manager_def set_disk_def mk_file_io_def)

lemma load_table_fields_readable:
  "\<forall>tb \<in> set tbs. \<exists>names. load_mea_fields db tb (ct_file c) = Inr names \<Longrightarrow>
   \<exists>c'. load_table_fields db tbs c = Inr c' \<and> ct_file c' = ct_file c"
proof (induction tbs arbitrary: c)
  case (Cons tb tbs)
  then obtain names where n: "load_mea_fields db tb (ct_file c) = Inr names" by auto
  have "ct_file (set_mea_fields db tb names c) = ct_file c" by (simp add: set_mea_fields_def)
  then show ?case using Cons.IH [of c] Cons.IH [of "set_mea_fields db tb names c"] Cons.prems by (simp add: n)
qed simp

lemma clt_load_fields_readable:
  "\<forall>tb \<in> set tbs. \<exists>names. load_mea_fields db tb (cc_file c) = Inr names \<Longrightarrow>
   \<exists>c'. clt_load_fields db tbs c = Inr c' \<and> cc_file c' = cc_file c"
proof (induction tbs arbitrary: c)
  case (Cons tb tbs)
  then obtain names where n: "load_mea_fields db tb (cc_file c) = Inr names" by auto
  have "cc_file (set_clt_fields db tb names c) = cc_file c" by (simp add: set_clt_fields_def)
  then show ?case using Cons.IH [of c] Cons.IH [of "set_clt_fields db tb names c"] Cons.prems by (simp add: n)
qed simp

lemma table_list_map: "(fold (\<lambda>tb m. m(tb \<mapsto> \<lparr>ti_files = []\<rparr>)) tbs m tb \<noteq> None) = (tb \<in> set tbs \<or> m tb \<noteq> None)"
  by (induction tbs arbitrary: m) (auto split: if_splits)

lemma load_database_new:
  assumes "fp_map fp db = None" "db_path db \<in> dirs (fp_disk fp)"
  shows "\<exists>fp'. load_database db tbs fp = (True, fp') \<and> fp_disk fp' = fp_disk fp \<and> (\<forall>tb. exists_table db tb fp' = (tb \<in> set tbs))"
proof -
  have "fold (\<lambda>tb m. m(tb \<mapsto> \<lparr>ti_files = []\<rparr>)) tbs Map.empty tb \<noteq> None \<longleftrightarrow> tb \<in> set tbs" for tb
    using table_list_map [of tbs Map.empty tb] by simp
  then show ?thesis using assms by (auto simp: load_database_def exists_table_def)
qed

lemma load_engine_tables_once:
  assumes "distinct (map fst m)"
  shows "load_engine_tables eng db k m s =
    (case map_of m eng of None \<Rightarrow> Inr s
     | Some tbs \<Rightarrow> (case k of
          Tsm_engine \<Rightarrow> call (on_tsm_engine (ctl_load_database db tbs) s)
        | Clt_engine \<Rightarrow> call (on_clt_engine (clt_load_database db tbs) s)))"
proof -
  have other: "eng \<notin> fst ` set m \<Longrightarrow> load_engine_tables eng db k m s = Inr s" for k m s
    by (induction m) auto
  from assms show ?thesis
  proof (induction m)
    case (Cons x m)
    obtain e tbs where x: "x = (e, tbs)" by (cases x)
    show ?case
    proof (cases "e = eng")
      case True
      then have o: "load_engine_tables eng db k m s1 = Inr s1" for k s1 using Cons.prems by (intro other) (simp add: x)
      have id: "res_bind r (load_engine_tables eng db k m) = r" for r k by (cases r) (simp_all add: o)
      show ?thesis using True by (cases k) (simp_all add: x id)
    next
      case False
      then show ?thesis using Cons by (simp add: x)
    qed
  qed simp
qed

abbreviation use_statement :: "string \<Rightarrow> program" where
  "use_statement db \<equiv> [\<lparr>st_token = default_token, st_expression = Use_node db\<rparr>]"

lemma engine_tables_at: "om_ok m \<Longrightarrow> map_of m e = Some tbs \<Longrightarrow> om_at [] e m = tbs"
  by simp

text \<open>What using a database does to one engine: its tables of the plan become known, if there are any.\<close>

lemma use_tsm:
  assumes m: "om_ok m" "om_at [] ''tsm'' m = tbs"
    and c: "fp_map (ct_file (se_tsm s)) db = None" "set_disk (se_disk s) (ct_file (se_tsm s)) = ct_file (se_tsm s)"
      "db_path db \<in> dirs (se_disk s)"
    and readable: "\<forall>tb \<in> set tbs. \<exists>names. load_mea_fields db tb (ct_file (se_tsm s)) = Inr names"
  shows "\<exists>s'. execute_use ''tsm'' db m Tsm_engine s = Inr s' \<and> se_current_db s' = db \<and> se_evaluator s' = se_evaluator s \<and>
    se_disk s' = se_disk s \<and> se_clt s' = se_clt s \<and> (\<forall>tb. exists_table db tb (ct_file (se_tsm s')) = (tb \<in> set tbs))"
proof (cases "map_of m ''tsm''")
  case None
  then have "tbs = []" using m(2) by simp
  then show ?thesis using None om_ok_distinct [OF m(1)] c(1)
    by (simp add: execute_use_def load_engine_tables_once exists_table_def)
next
  case (Some tbs')
  have t: "tbs' = tbs" using engine_tables_at [OF m(1) Some] m(2) by simp
  have disk: "fp_disk (ct_file (se_tsm s)) = se_disk s" using arg_cong [OF c(2), of fp_disk] by (simp add: set_disk_def)
  obtain c1 where c1: "load_table_fields db tbs (se_tsm s) = Inr c1" "ct_file c1 = ct_file (se_tsm s)"
    using load_table_fields_readable [OF readable] by blast
  obtain fp' where fp: "load_database db tbs (ct_file (se_tsm s)) = (True, fp')" "fp_disk fp' = se_disk s"
      "\<And>tb. exists_table db tb fp' = (tb \<in> set tbs)"
    using load_database_new [OF c(1)] c(3) unfolding disk by blast
  have "ctl_load_database db tbs (se_tsm s) = Inr (True, c1\<lparr>ct_file := fp'\<rparr>)"
    by (simp add: ctl_load_database_def c1 fp(1))
  moreover have "(se_tsm s)\<lparr>ct_file := ct_file (se_tsm s)\<rparr> = se_tsm s" by simp
  ultimately show ?thesis using Some om_ok_distinct [OF m(1)] fp(2,3) c(2)
    by (simp add: execute_use_def load_engine_tables_once t call_def on_tsm_engine_def Let_def)
qed

lemma use_clt:
  assumes m: "om_ok m" "om_at [] ''clt'' m = tbs"
    and c: "fp_map (cc_file (se_clt s)) db = None" "set_disk (se_disk s) (cc_file (se_clt s)) = cc_file (se_clt s)"
      "db_path db \<in> dirs (se_disk s)"
    and readable: "\<forall>tb \<in> set tbs. \<exists>names. load_mea_fields db tb (cc_file (se_clt s)) = Inr names"
  shows "\<exists>s'. execute_use ''clt'' db m Clt_engine s = Inr s' \<and> se_current_db s' = db \<and> se_evaluator s' = se_evaluator s \<and>
    se_disk s' = se_disk s \<and> se_tsm s' = se_tsm s \<and> (\<forall>tb. exists_table db tb (cc_file (se_clt s')) = (tb \<in> set tbs))"
proof (cases "map_of m ''clt''")
  case None
  then have "tbs = []" using m(2) by simp
  then show ?thesis using None om_ok_distinct [OF m(1)] c(1)
    by (simp add: execute_use_def load_engine_tables_once exists_table_def)
next
  case (Some tbs')
  have t: "tbs' = tbs" using engine_tables_at [OF m(1) Some] m(2) by simp
  have disk: "fp_disk (cc_file (se_clt s)) = se_disk s" using arg_cong [OF c(2), of fp_disk] by (simp add: set_disk_def)
  obtain c1 where c1: "clt_load_fields db tbs (se_clt s) = Inr c1" "cc_file c1 = cc_file (se_clt s)"
    using clt_load_fields_readable [OF readable] by blast
  obtain fp' where fp: "load_database db tbs (cc_file (se_clt s)) = (True, fp')" "fp_disk fp' = se_disk s"
      "\<And>tb. exists_table db tb fp' = (tb \<in> set tbs)"
    using load_database_new [OF c(1)] c(3) unfolding disk by blast
  have "clt_load_database db tbs (se_clt s) = Inr (True, c1\<lparr>cc_file := fp'\<rparr>)"
    by (simp add: clt_load_database_def c1 fp(1))
  then show ?thesis using Some om_ok_distinct [OF m(1)] fp(2,3) c(2)
    by (simp add: execute_use_def load_engine_tables_once t call_def on_clt_engine_def Let_def)
qed

text \<open>The evaluation of a use statement in a new session.\<close>

definition start_session :: "disk \<Rightarrow> controller \<Rightarrow> session" where
  "start_session d c = \<lparr>se_disk = d, se_current_db = [], se_evaluator = new_evaluator d, se_tsm = c, se_clt = new_clt_controller d\<rparr>"

lemma new_sessionD: "new_session env d = Inr s \<Longrightarrow> \<exists>c. mk_controller env d = Inr c \<and> s = start_session d c"
  by (auto simp: new_session_def start_session_def res_bind_eq_Inr)

lemma execute_use_plan: "execute (Use_plan db m) eng k = execute_use eng db m k"
  by (simp add: fun_eq_iff)

lemma run_use:
  assumes "load_database_metadata db (new_table_engines d) = Inr (m, te)" "db_path db \<in> dirs d" "io_disk (te_io te) = d"
  shows "run_program env vars (use_statement db) (start_session d c) =
    res_bind (execute_use ''clt'' db m Clt_engine
        ((start_session d c)\<lparr>se_evaluator := \<lparr>ev_curr_db = db, ev_tables = te, ev_shown = []\<rparr>\<rparr>))
      (execute_use ''tsm'' db m Tsm_engine)"
proof -
  have d: "(new_table_engines d)\<lparr>te_io := (te_io (new_table_engines d))\<lparr>io_disk := d\<rparr>\<rparr> = new_table_engines d"
    by (simp add: new_table_engines_def mk_file_io_def)
  have ex: "database_exist db (new_table_engines d)" using assms(2) by (simp add: database_exist_def new_table_engines_def)
  show ?thesis
    by (simp add: run_program_def on_evaluator_def start_session_def new_evaluator_def d eval_use_def use_database_def ex on_tables_def
        assms(1,3) root_plan_def execute_node_def plan_name_def plan_names_def new_root_def execute_use_plan)
qed

text \<open>
  C17. Using a database after a start: the current database of the evaluator and of the plans is the named one, each
  engine knows exactly the tables that the metadata file lists under it, and the disk is as it was.
\<close>

theorem use_loads_tables:
  assumes "new_session env d = Inr s" "db_path db \<in> dirs d" "files d (metadata_path db) = Some (entries_text es)"
    "\<forall>(tb, eng) \<in> set es. is_word tb \<and> is_word eng"
    "\<forall>(tb, eng) \<in> set es. \<exists>names. load_mea_fields db tb (new_file_path_manager eng d) = Inr names"
  shows "\<exists>s'. run_program venv vars (use_statement db) s = Inr s' \<and> se_current_db s' = db \<and> ev_curr_db (se_evaluator s') = db \<and>
    se_disk s' = d \<and> (\<forall>tb. exists_table db tb (ct_file (se_tsm s')) = ((tb, ''tsm'') \<in> set es) \<and>
      exists_table db tb (cc_file (se_clt s')) = ((tb, ''clt'') \<in> set es))"
proof -
  obtain c where c: "mk_controller env d = Inr c" "s = start_session d c" using new_sessionD [OF assms(1)] by blast
  note cf = mk_controller_file [OF c(1)]
  have ok: "words_ok es" using assms(4) by (simp add: words_ok_def)
  obtain m te where l: "load_database_metadata db (new_table_engines d) = Inr (m, te)" "io_disk (te_io te) = d" "om_ok m"
      "\<And>e. om_at [] e m = map fst (filter (\<lambda>p. snd p = e) es)"
    using load_fresh [OF assms(3) ok] by (auto simp: one_stream_def)
  let ?s = "(start_session d c)\<lparr>se_evaluator := \<lparr>ev_curr_db = db, ev_tables = te, ev_shown = []\<rparr>\<rparr>"
  have members: "(tb \<in> set (map fst (filter (\<lambda>p. snd p = e) es))) = ((tb, e) \<in> set es)" for tb e by force
  have readable: "\<forall>tb \<in> set (map fst (filter (\<lambda>p. snd p = e) es)). \<exists>names. load_mea_fields db tb (new_file_path_manager e d) = Inr names"
    for e using assms(5) by auto
  have clt: "se_clt ?s = new_clt_controller d" "se_disk ?s = d" "se_tsm ?s = c" by (simp_all add: start_session_def)
  have cc: "cc_file (new_clt_controller d) = new_file_path_manager ''clt'' d" by (simp add: new_clt_controller_def)
  have none: "fp_map (new_file_path_manager e d) db = None" for e by (simp add: new_file_path_manager_def)
  obtain s1 where s1: "execute_use ''clt'' db m Clt_engine ?s = Inr s1" "se_evaluator s1 = se_evaluator ?s" "se_disk s1 = d" "se_tsm s1 = c"
      "\<And>tb. exists_table db tb (cc_file (se_clt s1)) = ((tb, ''clt'') \<in> set es)"
    using use_clt [OF l(3) l(4), of ?s db] none assms(2) readable [of "''clt''"] members unfolding clt cc by auto
  obtain s2 where s2: "execute_use ''tsm'' db m Tsm_engine s1 = Inr s2" "se_current_db s2 = db" "se_evaluator s2 = se_evaluator s1"
      "se_disk s2 = d" "se_clt s2 = se_clt s1" "\<And>tb. exists_table db tb (ct_file (se_tsm s2)) = ((tb, ''tsm'') \<in> set es)"
    using use_tsm [OF l(3) l(4), of s1 db] none assms(2) readable [of "''tsm''"] members s1(3,4) cf by auto
  show ?thesis unfolding c(2) run_use [OF l(1) assms(2) l(2)] using s1 s2 by simp
qed

section \<open>The first table of a database\<close>

abbreviation create_statement :: "string \<Rightarrow> program" where
  "create_statement tb \<equiv> [\<lparr>st_token = default_token, st_expression = Create_node CREATE_TABLE tb [] ''tsm''\<rparr>]"

lemma one_stream_wf: "files d p = Some f \<Longrightarrow> fm_wf (one_stream p f False n d)"
  by (simp add: fm_wf_def one_stream_def entry_ok_def read_stream_def open_mode_of_def domIff)

lemma one_stream_ready:
  "files d p = Some f \<Longrightarrow> te_ready p \<lparr>te_map = m, te_io = one_stream p f False n d, te_failed = {0}\<rparr>"
  using one_stream_wf [of d p f n] by (simp add: te_ready_def) (simp add: one_stream_def domIff)

lemma load_empty:
  assumes "files d (metadata_path db) = Some []"
  shows "load_database_metadata db (new_table_engines d) =
    Inr ([], \<lparr>te_map = Map.empty, te_io = one_stream (metadata_path db) [] False 2 d, te_failed = {0}\<rparr>)"
  using fresh_get [OF assms] fresh_lines [OF assms, of Map.empty 1] one_stream_release [of "metadata_path db" "[]" True 1 d]
  by (simp add: load_database_metadata_def new_table_engines_def on_te_io_def one_stream_open fresh_seek numeral_2_eq_2)

text \<open>
  The first table of a database is never made: using a database that has no table yet loads nothing into the engine, so that
  the engine refuses the table of the create statement that follows, while the metadata file lists it.
\<close>

theorem first_table_not_created:
  assumes "new_session env d = Inr s" "db_path db \<in> dirs d" "files d (metadata_path db) = Some []" "db \<noteq> []" "tb \<noteq> []"
    "ve_junk_type venv \<notin> {OBJECT_SHOW, OBJECT_USE}"
  shows "\<exists>s1 s2. run_program venv vars (use_statement db) s = Inr s1 \<and> run_program venv vars (create_statement tb) s1 = Inr s2 \<and>
    se_disk s2 = put_file (metadata_path db) (tb @ '' tsm'' @ [newline]) d \<and>
    table_engine db tb (ev_tables (se_evaluator s2)) = Some ''tsm'' \<and> \<not> exists_table db tb (ct_file (se_tsm s2))"
proof -
  obtain c where c: "mk_controller env d = Inr c" "s = start_session d c" using new_sessionD [OF assms(1)] by blast
  note cf = mk_controller_file [OF c(1)]
  define te where "te = \<lparr>te_map = Map.empty, te_io = one_stream (metadata_path db) [] False 2 d, te_failed = {0}\<rparr>"
  have te_disk: "io_disk (te_io te) = d" by (simp add: te_def one_stream_def)
  define s1 where "s1 = (start_session d c)\<lparr>se_evaluator := \<lparr>ev_curr_db = db, ev_tables = te, ev_shown = []\<rparr>, se_current_db := db\<rparr>"
  have 1: "run_program venv vars (use_statement db) s = Inr s1"
    unfolding c(2) run_use [OF load_empty [OF assms(3), folded te_def] assms(2) te_disk] by (simp add: execute_use_def s1_def)
  have rdy: "te_ready (metadata_path db) te" unfolding te_def by (rule one_stream_ready) (rule assms(3))
  have f: "files (io_disk (te_io te)) (metadata_path db) = Some []" using te_disk assms(3) by simp
  have none: "table_engine db tb te = None" by (simp add: te_def table_engine_def)
  obtain te2 where te2: "te_create_table db tb ''tsm'' te = Inr ((True, ''tsm''), te2)"
      "io_disk (te_io te2) = put_file (metadata_path db) (tb @ '' tsm'' @ [newline]) d" "te_map te2 = te_map (set_engine db tb ''tsm'' te)"
    using te_create_table_ready [OF rdy f assms(4,5) _ none, of "''tsm''"] te_disk by (auto simp: yields_def entry_line_def)
  have eng: "table_engine db tb te2 = Some ''tsm''"
    using table_engine_set_engine(1) [of db tb tb "''tsm''" te] te2(3) by (simp add: table_engine_def)
  define s2 where "s2 = s1\<lparr>se_evaluator := \<lparr>ev_curr_db = db, ev_tables = te2, ev_shown = []\<rparr>, se_disk := io_disk (te_io te2),
    se_tsm := c\<lparr>ct_file := set_disk (io_disk (te_io te2)) (ct_file c)\<rparr>\<rparr>"
  have id: "te\<lparr>te_io := (te_io te)\<lparr>io_disk := d\<rparr>\<rparr> = te" using te_disk by simp
  have name: "plan_name venv (Create_plan ''tsm'' ''table'' [] tb) \<noteq> ''show''" "plan_name venv (Create_plan ''tsm'' ''table'' [] tb) \<noteq> ''use''"
    using assms(6) by (cases "ve_junk_type venv"; simp add: plan_name_def plan_names_def)+
  have unknown: "\<not> exists_table db tb (set_disk x (ct_file c))" "create_table tb db (set_disk x (ct_file c)) = Inr (False, set_disk x (ct_file c))" for x
    using cf by (simp_all add: exists_table_def create_table_def new_file_path_manager_def set_disk_def)
  have 2: "run_program venv vars (create_statement tb) s1 = Inr s2"
    by (simp add: run_program_def on_evaluator_def s1_def start_session_def id eval_create_def on_tables_def te2(1) root_plan_def new_root_def
        execute_node_def name engine_map_def execute_create_def call_def on_tsm_engine_def ctl_create_table_def on_file_def unknown s2_def)
      (simp add: plan_name_def plan_names_def)
  have s2: "se_disk s2 = io_disk (te_io te2)" "ev_tables (se_evaluator s2) = te2" "ct_file (se_tsm s2) = set_disk (io_disk (te_io te2)) (ct_file c)"
    by (simp_all add: s2_def)
  show ?thesis using 1 2 te2(2) eng unknown(1) by (intro exI [of _ s1] exI [of _ s2]) (simp add: s2)
qed

section \<open>Concrete sessions\<close>

definition demo_db_disk :: "string \<Rightarrow> disk" where
  "demo_db_disk f = \<lparr>files = [metadata_path ''db'' \<mapsto> f], dirs = {db_path ''db''}\<rparr>"

lemma demo_disk_simps [simp]:
  "files (demo_db_disk f) (metadata_path ''db'') = Some f" "db_path ''db'' \<in> dirs (demo_db_disk f)"
  "files (demo_db_disk f) meta_path = None"
  by (simp_all add: demo_db_disk_def meta_path_def metadata_path_def db_path_def default_base_path_def)

lemma demo_session: "new_session demo_ctl_env (demo_db_disk f) = Inr (start_session (demo_db_disk f) (new_controller (demo_db_disk f)))"
  by (simp add: new_session_def mk_controller_def load_meta_file_def start_session_def new_controller_def)

definition demo_text :: string where
  "demo_text = ''INSERT into tb,room=b1 t1=21,hum=7.25 1702880186879347823''"

definition demo_insert_tokens :: "token list" where
  "demo_insert_tokens = insert_tokens (mk_token TOKEN_INSERT ''insert'') [] ''tb'' [(''room'', text_token ''b1'')]
     [(''t1'', mk_token TOKEN_INTEGER ''21''), (''hum'', mk_token TOKEN_FLOAT ''7.25'')] (mk_token TOKEN_INTEGER ''1702880186879347823'')"

lemma demo_insert_begins: "begins (mk_parser (mk_lexer demo_text)) (demo_insert_tokens @ [eof])"
  unfolding begins_text demo_text_def demo_insert_tokens_def using insert_demo_tokens
  by (simp add: insert_tokens_def assignment_def table_name_def numeral_eq_Suc del: spec_tokens.simps)

theorem statements_reach_no_data_witness:
  "\<exists>s'. run_sql demo_parse_env demo_eval_env [] demo_text
      (start_session (demo_db_disk []) (new_controller (demo_db_disk []))) = Some (Inr s') \<and> ct_producer (se_tsm s') = []"
proof -
  let ?s = "start_session (demo_db_disk []) (new_controller (demo_db_disk []))"
  note parsed = insert_program [OF demo_insert_begins [unfolded demo_insert_tokens_def], of demo_parse_env]
  have "\<exists>s'. run_sql demo_parse_env demo_eval_env [] demo_text ?s = Some (Inr s')"
    by (rule exI, subst run_sql_statement [OF parsed])
      (simp_all add: demo_parse_env_def is_value_def insert_node_def run_program_def on_evaluator_def eval_insert_def Let_def root_plan_def
        new_root_def execute_node_def plan_name_def plan_names_def)
  then obtain s' where r: "run_sql demo_parse_env demo_eval_env [] demo_text ?s = Some (Inr s')" ..
  have "engine_work (se_tsm ?s) = engine_work (new_controller (demo_db_disk []))" by (simp add: start_session_def)
  then have "ct_producer (se_tsm s') = ct_producer (new_controller (demo_db_disk []))"
    using statements_reach_no_data [OF r] by (simp add: engine_work_def)
  with r show ?thesis by (auto simp: new_controller_def)
qed

theorem dropped_value_crashes_witness:
  "run_sql demo_parse_env demo_eval_env [] ''insert into tb t1=null,t2=7 1702880186879347823''
    (start_session (demo_db_disk []) (new_controller (demo_db_disk []))) = Some (Inl (Out_of_range ''front''))"
proof -
  have "spec_tokens 12 ''insert into tb t1=null,t2=7 1702880186879347823'' =
     [mk_token TOKEN_INSERT ''insert'', mk_token TOKEN_INTO ''into'', text_token ''tb'', text_token ''t1'', equals, mk_token TOKEN_NULL ''null'',
      comma, text_token ''t2'', equals, mk_token TOKEN_INTEGER ''7'', mk_token TOKEN_INTEGER ''1702880186879347823'', eof]" by code_simp
  then have "begins (mk_parser (mk_lexer ''insert into tb t1=null,t2=7 1702880186879347823''))
     (insert_tokens (mk_token TOKEN_INSERT ''insert'') [] ''tb'' []
       [(''t1'', mk_token TOKEN_NULL ''null''), (''t2'', mk_token TOKEN_INTEGER ''7'')] (mk_token TOKEN_INTEGER ''1702880186879347823'') @ [eof])"
    unfolding begins_text by (simp add: insert_tokens_def assignment_def table_name_def numeral_eq_Suc del: spec_tokens.simps)
  from dropped_value_crashes [OF this, of demo_parse_env]
  show ?thesis by (simp add: is_value_def demo_parse_env_def)
qed

theorem refused_table_crashes_witness:
  "run_sql demo_parse_env demo_eval_env [] ''create table tb(a varchar, b float) engine = tsm''
    (start_session (demo_db_disk []) (new_controller (demo_db_disk []))) = Some (Inl Null_deref)"
proof -
  have "begins (mk_parser (mk_lexer ''create table tb(a varchar, b float) engine = tsm''))
      (create_tokens (mk_token TOKEN_CREATE ''create'') ''tb'' [(''a'', text_token ''varchar''), (''b'', text_token ''float'')]
        (mk_token TOKEN_TSM ''tsm'') @ [eof])"
    unfolding begins_text using create_demo_tokens
    by (simp add: create_tokens_def field_tokens_def numeral_eq_Suc del: spec_tokens.simps)
  then show ?thesis by (rule refused_table_crashes) (simp_all add: start_session_def new_evaluator_def)
qed

lemma demo_no_fields: "load_mea_fields ''db'' tb (new_file_path_manager eng (demo_db_disk f)) = Inr {}"
proof -
  have dot: "CHR ''.'' \<in> set (tb @ ''.'' @ eng)" "CHR ''.'' \<notin> set ''metadata''" by simp_all
  have "tb @ ''.'' @ eng \<noteq> ''metadata''" by (rule notI) (use dot in \<open>simp only: simp_thms\<close>)
  then have "sys_path (new_file_path_manager eng (demo_db_disk f)) ''db'' tb \<noteq> metadata_path ''db''"
    by (simp add: sys_path_def metadata_path_def new_file_path_manager_def)
  then show ?thesis by (simp add: load_mea_fields_def) (simp add: demo_db_disk_def)
qed

theorem use_loads_tables_witness:
  "\<exists>s'. run_program demo_eval_env [] (use_statement ''db'')
      (start_session (demo_db_disk (entries_text [(''t'', ''tsm''), (''u'', ''clt'')])) (new_controller (demo_db_disk (entries_text [(''t'', ''tsm''), (''u'', ''clt'')])))) =
      Inr s' \<and> exists_table ''db'' ''t'' (ct_file (se_tsm s')) \<and> \<not> exists_table ''db'' ''u'' (ct_file (se_tsm s'))"
proof -
  let ?es = "[(''t'', ''tsm''), (''u'', ''clt'')]"
  have "\<forall>(tb, eng) \<in> set ?es. is_word tb \<and> is_word eng" by (simp add: is_word_def is_space_def)
  then show ?thesis
    using use_loads_tables [OF demo_session demo_disk_simps(2,1), of ?es demo_eval_env "[]"] demo_no_fields by auto
qed

theorem first_table_not_created_witness:
  "\<exists>s1 s2. run_program demo_eval_env [] (use_statement ''db'') (start_session (demo_db_disk []) (new_controller (demo_db_disk []))) = Inr s1 \<and>
    run_program demo_eval_env [] (create_statement ''t'') s1 = Inr s2 \<and> \<not> exists_table ''db'' ''t'' (ct_file (se_tsm s2))"
  using first_table_not_created [OF demo_session demo_disk_simps(2,1), of "''t''" demo_eval_env "[]"]
  by (auto simp: demo_eval_env_def)

end
