(* ===== verification/Json.thy ===== *)
theory Json
  imports Parser Ordered_Map Tsm_File
begin

text \<open>
  JSON values, their printer and parser (\<open>src/json\<close>).

  A value is a tree; the class copies deeply, so that it behaves as a value, except that the equality of
  arrays and objects compares addresses. The parser works on a text and an index. Reading the character behind the last one gives
  the terminating zero; reading further is undefined. The type of doubles, \<open>atof\<close> and the text of a
  double are parameters. \<open>atoi\<close> is the low half of \<open>strtol\<close>, as in the C library the program is built with.
\<close>

section \<open>Values\<close>

datatype json_type = JSON_NULL | JSON_BOOL | JSON_INT | JSON_DOUBLE | JSON_STRING | JSON_ARRAY | JSON_OBJECT

datatype 'd json =
    Json_null
  | Json_bool bool
  | Json_int "32 word"
  | Json_double 'd
  | Json_string string
  | Json_array "'d json list"
  | Json_object "(string \<times> 'd json) list"

record 'd json_env =
  js_zero :: 'd
  js_atof :: "string \<Rightarrow> 'd"
  js_double_text :: "'d \<Rightarrow> string"

fun json_type_of :: "'d json \<Rightarrow> json_type" where
  "json_type_of Json_null = JSON_NULL"
| "json_type_of (Json_bool b) = JSON_BOOL"
| "json_type_of (Json_int n) = JSON_INT"
| "json_type_of (Json_double x) = JSON_DOUBLE"
| "json_type_of (Json_string s) = JSON_STRING"
| "json_type_of (Json_array js) = JSON_ARRAY"
| "json_type_of (Json_object m) = JSON_OBJECT"

definition json_of_type :: "'d json_env \<Rightarrow> json_type \<Rightarrow> 'd json" where
  "json_of_type env t = (case t of
     JSON_NULL \<Rightarrow> Json_null | JSON_BOOL \<Rightarrow> Json_bool False | JSON_INT \<Rightarrow> Json_int 0 | JSON_DOUBLE \<Rightarrow> Json_double (js_zero env)
   | JSON_STRING \<Rightarrow> Json_string [] | JSON_ARRAY \<Rightarrow> Json_array [] | JSON_OBJECT \<Rightarrow> Json_object [])"

definition json_is :: "json_type \<Rightarrow> 'd json \<Rightarrow> bool" where
  "json_is t j \<longleftrightarrow> json_type_of j = t"

definition as_bool :: "'d json \<Rightarrow> bool result" where
  "as_bool j = (case j of Json_bool b \<Rightarrow> Inr b | _ \<Rightarrow> Inl (Logic_error ''json type error: not bool type''))"

definition as_int :: "'d json \<Rightarrow> 32 word result" where
  "as_int j = (case j of Json_int n \<Rightarrow> Inr n | _ \<Rightarrow> Inl (Logic_error ''json type error: not int type''))"

definition as_double :: "'d json \<Rightarrow> 'd result" where
  "as_double j = (case j of Json_double x \<Rightarrow> Inr x | _ \<Rightarrow> Inl (Logic_error ''json type error: not double type''))"

definition as_string :: "'d json \<Rightarrow> string result" where
  "as_string j = (case j of Json_string s \<Rightarrow> Inr s | _ \<Rightarrow> Inl (Logic_error ''json type error: not string type''))"

definition json_size :: "'d json \<Rightarrow> int" where
  "json_size j = (case j of Json_array js \<Rightarrow> sint (of_nat (length js) :: 32 word) | Json_object m \<Rightarrow> sint (of_nat (length m) :: 32 word) | _ \<Rightarrow> - 1)"

definition json_empty :: "'d json \<Rightarrow> bool" where
  "json_empty j = (case j of Json_null \<Rightarrow> True | Json_array js \<Rightarrow> js = [] | Json_object m \<Rightarrow> m = [] | _ \<Rightarrow> False)"

definition json_clear :: "'d json \<Rightarrow> 'd json" where
  "json_clear j = Json_null"

definition json_has_index :: "int \<Rightarrow> 'd json \<Rightarrow> bool" where
  "json_has_index i j = (case j of Json_array js \<Rightarrow> 0 \<le> i \<and> i < sint (of_nat (length js) :: 32 word) | _ \<Rightarrow> False)"

text \<open>A key goes through \<open>c_str\<close>.\<close>

definition json_has_key :: "string \<Rightarrow> 'd json \<Rightarrow> bool" where
  "json_has_key key j = (case j of Json_object m \<Rightarrow> map_of m (c_string key) \<noteq> None | _ \<Rightarrow> False)"

definition json_get_index :: "int \<Rightarrow> 'd json \<Rightarrow> 'd json" where
  "json_get_index i j = (if json_has_index i j then (case j of Json_array js \<Rightarrow> js ! nat i | _ \<Rightarrow> Json_null) else Json_null)"

definition json_get_key :: "string \<Rightarrow> 'd json \<Rightarrow> 'd json" where
  "json_get_key key j = (if json_has_key key j then (case j of Json_object m \<Rightarrow> om_at Json_null (c_string key) m | _ \<Rightarrow> Json_null) else Json_null)"

definition json_remove_index :: "int \<Rightarrow> 'd json \<Rightarrow> 'd json" where
  "json_remove_index i j =
     (if json_has_index i j then (case j of Json_array js \<Rightarrow> Json_array (take (nat i) js @ drop (nat i + 1) js) | _ \<Rightarrow> j) else j)"

definition json_remove_key :: "string \<Rightarrow> 'd json \<Rightarrow> 'd json" where
  "json_remove_key key j = (case j of Json_object m \<Rightarrow> Json_object (om_del (c_string key) m) | _ \<Rightarrow> j)"

definition json_append :: "'d json \<Rightarrow> 'd json \<Rightarrow> 'd json" where
  "json_append v j = (case j of Json_array js \<Rightarrow> Json_array (js @ [v]) | _ \<Rightarrow> Json_array [v])"

text \<open>Moving exchanges the two values; what is moved from a temporary into an array leaves null behind.\<close>

definition json_swap :: "'d json \<Rightarrow> 'd json \<Rightarrow> 'd json \<times> 'd json" where
  "json_swap j other = (other, j)"

definition json_append_move :: "'d json \<Rightarrow> 'd json \<Rightarrow> 'd json \<times> 'd json" where
  "json_append_move v j = (let (moved, v) = json_swap Json_null v in (json_append moved j, v))"

definition json_at_index :: "int \<Rightarrow> 'd json \<Rightarrow> 'd json result" where
  "json_at_index i j = (case j of
     Json_array js \<Rightarrow> if json_has_index i j then Inr (js ! nat i) else Inl (Logic_error ''array out of range'')
   | _ \<Rightarrow> Inl (Logic_error ''type error: not array''))"

text \<open>\<open>operator[]\<close> with a key turns any other value into an object and enters null for a new key; \<open>json_put\<close> assigns through it.\<close>

definition json_members :: "'d json \<Rightarrow> (string, 'd json) omap" where
  "json_members j = (case j of Json_object m \<Rightarrow> m | _ \<Rightarrow> [])"

definition json_at_key :: "string \<Rightarrow> 'd json \<Rightarrow> 'd json \<times> 'd json" where
  "json_at_key key j =
     (let k = c_string key; v = om_at Json_null k (json_members j) in (v, Json_object (om_put k v (json_members j))))"

definition json_put :: "string \<Rightarrow> 'd json \<Rightarrow> 'd json \<Rightarrow> 'd json" where
  "json_put key v j = Json_object (om_put (c_string key) v (json_members j))"

fun json_copy :: "'d json \<Rightarrow> 'd json" where
  "json_copy (Json_array js) = Json_array (map json_copy js)"
| "json_copy (Json_object m) = Json_object (fold (\<lambda>e. om_put (fst e) (snd e)) (map (\<lambda>e. (fst e, json_copy (snd e))) m) [])"
| "json_copy j = j"

text \<open>Equality; \<open>same\<close> tells whether the two are one object.\<close>

definition json_eq :: "bool \<Rightarrow> 'd json \<Rightarrow> 'd json \<Rightarrow> bool" where
  "json_eq same a b = (case (a, b) of
     (Json_null, Json_null) \<Rightarrow> True | (Json_bool x, Json_bool y) \<Rightarrow> x = y | (Json_int x, Json_int y) \<Rightarrow> x = y
   | (Json_double x, Json_double y) \<Rightarrow> x = y | (Json_string x, Json_string y) \<Rightarrow> x = y
   | (Json_array _, Json_array _) \<Rightarrow> same | (Json_object _, Json_object _) \<Rightarrow> same | _ \<Rightarrow> False)"

section \<open>Printing\<close>

fun join_comma :: "string list \<Rightarrow> string" where
  "join_comma [] = []"
| "join_comma [s] = s"
| "join_comma (s # ss) = s @ '','' @ join_comma ss"

abbreviation quote :: char where
  "quote \<equiv> CHR 0x22"

fun json_str :: "'d json_env \<Rightarrow> 'd json \<Rightarrow> string" where
  "json_str env Json_null = ''null''"
| "json_str env (Json_bool b) = (if b then ''true'' else ''false'')"
| "json_str env (Json_int n) = dec_int (sint n)"
| "json_str env (Json_double x) = js_double_text env x"
| "json_str env (Json_string s) = quote # s @ [quote]"
| "json_str env (Json_array js) = ''['' @ join_comma (map (json_str env) js) @ '']''"
| "json_str env (Json_object m) =
     ''{'' @ join_comma (map (\<lambda>e. quote # fst e @ [quote] @ '':'' @ json_str env (snd e)) m) @ ''}''"

section \<open>Parsing\<close>

definition is_json_white :: "char \<Rightarrow> bool" where
  "is_json_white c \<longleftrightarrow> c \<in> {CHR 0x20, CHR 0x0D, CHR 0x0A, CHR 0x09}"

definition char_at :: "string \<Rightarrow> nat \<Rightarrow> char result" where
  "char_at s i = (if i < length s then Inr (s ! i) else if i = length s then Inr NUL else Inl (Out_of_range ''operator[]''))"

definition json_skip_white :: "string \<Rightarrow> nat \<Rightarrow> nat result" where
  "json_skip_white s i =
     (if i \<le> length s then Inr (i + length (takeWhile is_json_white (drop i s))) else Inl (Out_of_range ''operator[]''))"

definition get_next_token :: "string \<Rightarrow> nat \<Rightarrow> (char \<times> nat) result" where
  "get_next_token s i =
     res_bind (json_skip_white s i) (\<lambda>i.
       if i = length s then Inl (Logic_error ''unexpected end of input'') else Inr (s ! i, i + 1))"

definition starts_at :: "string \<Rightarrow> nat \<Rightarrow> string \<Rightarrow> bool" where
  "starts_at w i s \<longleftrightarrow> take (length w) (drop i s) = w"

definition json_parse_null :: "string \<Rightarrow> nat \<Rightarrow> ('d json \<times> nat) result" where
  "json_parse_null s i = (if starts_at ''null'' i s then Inr (Json_null, i + 4) else Inl (Logic_error ''parse null error''))"

definition json_parse_bool :: "string \<Rightarrow> nat \<Rightarrow> ('d json \<times> nat) result" where
  "json_parse_bool s i =
     (if starts_at ''true'' i s then Inr (Json_bool True, i + 4)
      else if starts_at ''false'' i s then Inr (Json_bool False, i + 5)
      else Inl (Logic_error ''parse bool error''))"

definition atoi :: "string \<Rightarrow> 32 word" where
  "atoi s = ucast (atol s)"

definition digits_from :: "string \<Rightarrow> nat \<Rightarrow> nat" where
  "digits_from s i = i + length (takeWhile is_digit (drop i s))"

definition integer_end :: "string \<Rightarrow> nat \<Rightarrow> nat result" where
  "integer_end s i =
     res_bind (char_at s i) (\<lambda>c. let i = (if c = CHR ''-'' then i + 1 else i) in
     res_bind (char_at s i) (\<lambda>c.
       if c = CHR ''0'' then Inr (i + 1)
       else if is_digit c then Inr (digits_from s (i + 1))
       else Inl (Logic_error ''invalid character in number'')))"

definition json_parse_number :: "'d json_env \<Rightarrow> string \<Rightarrow> nat \<Rightarrow> ('d json \<times> nat) result" where
  "json_parse_number env s pos =
     res_bind (integer_end s pos) (\<lambda>i.
     res_bind (char_at s i) (\<lambda>c.
       if c \<noteq> CHR ''.'' then Inr (Json_int (atoi (c_string (drop pos s))), i)
       else
         res_bind (char_at s (i + 1)) (\<lambda>c.
           if \<not> is_digit c then Inl (Logic_error ''at least one digit required in fractional part'')
           else Inr (Json_double (js_atof env (c_string (drop pos s))), digits_from s (i + 1)))))"

lemma get_next_token_D: "get_next_token s i = Inr (c, i') \<Longrightarrow> i < i' \<and> i' \<le> length s \<and> s ! (i' - 1) = c"
proof -
  assume a: "get_next_token s i = Inr (c, i')"
  let ?j = "i + length (takeWhile is_json_white (drop i s))"
  have j: "?j \<le> length s" if "i \<le> length s" using length_takeWhile_le [of is_json_white "drop i s"] that by simp
  from a have "i \<le> length s" "?j \<noteq> length s" "c = s ! ?j" "i' = ?j + 1"
    by (auto simp: get_next_token_def json_skip_white_def split: if_splits)
  then show ?thesis using j by simp
qed

text \<open>The index behind the closing quote.\<close>

function string_end :: "string \<Rightarrow> nat \<Rightarrow> nat result" where
  "string_end s i =
     (case get_next_token s i of
        Inl e \<Rightarrow> Inl e
      | Inr (c, i) \<Rightarrow>
          if c = quote then Inr i
          else if c = CHR 0x5C then
            (case char_at s i of
               Inl e \<Rightarrow> Inl e
             | Inr c \<Rightarrow> string_end s (if c = CHR ''u'' then i + 5 else i + 1))
          else string_end s i)"
  by pat_completeness auto
termination
  by (relation "measure (\<lambda>(s, i). length s + 1 - i)") (auto dest!: get_next_token_D)

declare string_end.simps [simp del]

definition json_parse_string :: "string \<Rightarrow> nat \<Rightarrow> (string \<times> nat) result" where
  "json_parse_string s pos = res_bind (string_end s pos) (\<lambda>i. Inr (take (i - pos - 1) (drop pos s), i))"

text \<open>A value, the rest of an array, and the rest of an object; a call that does not return is \<open>None\<close>.\<close>

datatype 'd json_fn = Json_value | Json_elements "'d json" | Json_entries "'d json"

type_synonym 'd json_parsed = "('d json \<times> nat) result option"

definition jbind :: "'d json_parsed \<Rightarrow> ('d json \<Rightarrow> nat \<Rightarrow> 'd json_parsed) \<Rightarrow> 'd json_parsed" where
  "jbind m f = (case m of None \<Rightarrow> None | Some (Inl e) \<Rightarrow> Some (Inl e) | Some (Inr r) \<Rightarrow> f (fst r) (snd r))"

lemma jbind_simps [simp]:
  "jbind None f = None" "jbind (Some (Inl e)) f = Some (Inl e)" "jbind (Some (Inr (j, i))) f = f j i"
  by (simp_all add: jbind_def)

lemma jbind_mono [partial_function_mono]:
  fixes B :: "('u \<Rightarrow> 'v option) \<Rightarrow> 'd json_parsed"
  assumes m: "mono_option B" and f: "\<And>x p. mono_option (\<lambda>rec. C x p rec)"
  shows "mono_option (\<lambda>rec. jbind (B rec) (\<lambda>x p. C x p rec))"
proof (rule monotoneI)
  fix a b :: "'u \<Rightarrow> 'v option"
  assume ab: "fun_ord option_ord a b"
  have 1: "option_ord (B a) (B b)" using m ab by (rule monotoneD [of _ _ _ a b])
  have 2: "option_ord (C x p a) (C x p b)" for x p using f ab by (rule monotoneD [of _ _ _ a b])
  show "option_ord (jbind (B a) (\<lambda>x p. C x p a)) (jbind (B b) (\<lambda>x p. C x p b))"
  proof (cases "B a")
    case None
    then show ?thesis by (simp add: flat_ord_def)
  next
    case (Some r)
    then have "B b = Some r" using 1 by (simp add: flat_ord_def)
    then show ?thesis using Some 2 by (cases r) (auto simp: jbind_def flat_ord_def)
  qed
qed

abbreviation next_char :: "string \<Rightarrow> nat \<Rightarrow> (char \<Rightarrow> nat \<Rightarrow> 'd json_parsed) \<Rightarrow> 'd json_parsed" where
  "next_char s i k \<equiv> (case get_next_token s i of Inl e \<Rightarrow> Some (Inl e) | Inr (c, i) \<Rightarrow> k c i)"

abbreviation json_value :: "'d json_env \<Rightarrow> ('d json_fn \<Rightarrow> string \<Rightarrow> nat \<Rightarrow> 'd json_parsed) \<Rightarrow> string \<Rightarrow> nat \<Rightarrow> 'd json_parsed" where
  "json_value env rec s i \<equiv>
    next_char s i (\<lambda>c i.
      if c = CHR ''n'' then Some (json_parse_null s (i - 1))
      else if c = CHR ''t'' \<or> c = CHR ''f'' then Some (json_parse_bool s (i - 1))
      else if c = CHR ''-'' \<or> is_digit c then Some (json_parse_number env s (i - 1))
      else if c = quote then Some (res_bind (json_parse_string s i) (\<lambda>(t, i). Inr (Json_string t, i)))
      else if c = CHR ''['' then
        next_char s i (\<lambda>c i. if c = CHR '']'' then Some (Inr (Json_array [], i)) else rec (Json_elements (Json_array [])) s (i - 1))
      else if c = CHR ''{'' then
        next_char s i (\<lambda>c i. if c = CHR ''}'' then Some (Inr (Json_object [], i)) else rec (Json_entries (Json_object [])) s (i - 1))
      else Some (Inl (Logic_error ''unexpected character in parse json'')))"

abbreviation json_elements :: "('d json_fn \<Rightarrow> string \<Rightarrow> nat \<Rightarrow> 'd json_parsed) \<Rightarrow> 'd json \<Rightarrow> string \<Rightarrow> nat \<Rightarrow> 'd json_parsed" where
  "json_elements rec arr s i \<equiv>
    jbind (rec Json_value s i) (\<lambda>v i.
      let arr = json_append v arr in
      next_char s i (\<lambda>c i.
        if c = CHR '']'' then Some (Inr (arr, i))
        else if c \<noteq> CHR '','' then Some (Inl (Logic_error ''expected ',' in array''))
        else rec (Json_elements arr) s i))"

abbreviation json_entries :: "('d json_fn \<Rightarrow> string \<Rightarrow> nat \<Rightarrow> 'd json_parsed) \<Rightarrow> 'd json \<Rightarrow> string \<Rightarrow> nat \<Rightarrow> 'd json_parsed" where
  "json_entries rec obj s i \<equiv>
    next_char s i (\<lambda>c i.
      if c \<noteq> quote then Some (Inl (Logic_error ''expected '\"' in execution_plan''))
      else
        (case json_parse_string s i of
           Inl e \<Rightarrow> Some (Inl e)
         | Inr (key, i) \<Rightarrow>
             next_char s i (\<lambda>c i.
               if c \<noteq> CHR '':'' then Some (Inl (Logic_error ''expected ':' in execution_plan''))
               else jbind (rec Json_value s i) (\<lambda>v i.
                 let obj = json_put key v obj in
                 next_char s i (\<lambda>c i.
                   if c = CHR ''}'' then Some (Inr (obj, i))
                   else if c \<noteq> CHR '','' then Some (Inl (Logic_error ''expected ',' in execution_plan''))
                   else rec (Json_entries obj) s i)))))"

partial_function (option) json_parse :: "'d json_env \<Rightarrow> 'd json_fn \<Rightarrow> string \<Rightarrow> nat \<Rightarrow> 'd json_parsed" where
  "json_parse env fn s i =
     (case fn of
        Json_value \<Rightarrow> json_value env (json_parse env) s i
      | Json_elements arr \<Rightarrow> json_elements (json_parse env) arr s i
      | Json_entries obj \<Rightarrow> json_entries (json_parse env) obj s i)"

definition parse_json :: "'d json_env \<Rightarrow> string \<Rightarrow> 'd json_parsed" where
  "parse_json env s = json_parse env Json_value s 0"

end
