(* ===== verification/Json_Properties.thy ===== *)
theory Json_Properties
  imports Json
begin

text \<open>
  Properties of the JSON values: what is printed is read back, the parser returns on every text, and the operations obey
  the laws of a map and a list.
\<close>

section \<open>Reading at an index\<close>

lemma starts_at_Nil [simp]: "starts_at [] i s"
  by (simp add: starts_at_def)

lemma starts_at_Cons: "starts_at (c # t) i s \<longleftrightarrow> i < length s \<and> s ! i = c \<and> starts_at t (i + 1) s"
proof (cases "i < length s")
  case True
  then have "drop i s = s ! i # drop (i + 1) s" by (simp add: Cons_nth_drop_Suc)
  then show ?thesis using True by (auto simp: starts_at_def)
qed (simp add: starts_at_def)

lemma starts_at_append: "starts_at (t @ u) i s \<longleftrightarrow> starts_at t i s \<and> starts_at u (i + length t) s"
  by (induction t arbitrary: i) (auto simp: starts_at_Cons)

lemma starts_at_length: "starts_at t i s \<Longrightarrow> t \<noteq> [] \<Longrightarrow> i + length t \<le> length s"
proof -
  assume a: "starts_at t i s" "t \<noteq> []"
  then have "length t = length (take (length t) (drop i s))" by (simp add: starts_at_def)
  then have "length t \<le> length s - i" by simp
  then show ?thesis using a(2) by (cases t) simp_all
qed

lemma starts_at_drop: "starts_at t i s \<Longrightarrow> t \<noteq> [] \<Longrightarrow> drop i s = t @ drop (i + length t) s"
  by (metis append_take_drop_id drop_drop add.commute starts_at_def)

lemma token_at: "starts_at [c] i s \<Longrightarrow> \<not> is_json_white c \<Longrightarrow> get_next_token s i = Inr (c, i + 1)"
proof -
  assume a: "starts_at [c] i s" "\<not> is_json_white c"
  then have "drop i s = c # drop (i + 1) s" "i < length s" "s ! i = c" using starts_at_drop [OF a(1)] by (simp_all add: starts_at_Cons)
  then show ?thesis using a(2) by (simp add: get_next_token_def json_skip_white_def)
qed

lemma char_at_in: "starts_at (c # t) i s \<Longrightarrow> char_at s i = Inr c"
  by (simp add: starts_at_Cons char_at_def)

lemma json_white_char: "is_json_white c \<longleftrightarrow> c = CHR 0x20 \<or> c = CHR 0x0D \<or> c = CHR 0x0A \<or> c = CHR 0x09"
  by (auto simp: is_json_white_def)

section \<open>Strings\<close>

text \<open>A raw string as the parser keeps it: no quote outside an escape, and every escape is complete.\<close>

fun raw_ok :: "string \<Rightarrow> bool" where
  "raw_ok [] = True"
| "raw_ok [c] = (c \<noteq> quote \<and> c \<noteq> CHR 0x5C)"
| "raw_ok (c # d # cs) =
     (if c = quote then False
      else if c = CHR 0x5C then (if d = CHR ''u'' then 4 \<le> length cs \<and> raw_ok (drop 4 cs) else raw_ok cs)
      else raw_ok (d # cs))"

lemma string_end_quote: "starts_at [quote] i s \<Longrightarrow> string_end s i = Inr (i + 1)"
  by (subst string_end.simps) (simp add: token_at json_white_char)

lemma string_end_escape:
  "starts_at [CHR 0x5C, d] i s \<Longrightarrow> string_end s i = string_end s (if d = CHR ''u'' then i + 6 else i + 2)"
proof -
  assume a: "starts_at [CHR 0x5C, d] i s"
  then have 1: "starts_at [CHR 0x5C] i s" "starts_at [d] (i + 1) s" by (simp_all add: starts_at_Cons)
  have 2: "get_next_token s i = Inr (CHR 0x5C, i + 1)" using token_at [OF 1(1)] by (simp add: json_white_char)
  have 3: "char_at s (i + 1) = Inr d" using 1(2) by (rule char_at_in)
  have 4: "(i + 1) + 5 = i + 6" "(i + 1) + 1 = i + 2" by simp_all
  show ?thesis unfolding string_end.simps [of s i] 2 sum.case prod.case 3 4 by simp
qed

lemma token_white: "i < length s \<Longrightarrow> is_json_white (s ! i) \<Longrightarrow> get_next_token s i = get_next_token s (i + 1)"
proof -
  assume a: "i < length s" "is_json_white (s ! i)"
  have "drop i s = s ! i # drop (i + 1) s" using a(1) by (simp add: Cons_nth_drop_Suc)
  then show ?thesis using a by (simp add: get_next_token_def json_skip_white_def)
qed

lemma string_end_plain:
  assumes "starts_at [c] i s" "c \<noteq> quote" "c \<noteq> CHR 0x5C"
  shows "string_end s i = string_end s (i + 1)"
proof (cases "is_json_white c")
  case True
  then have t: "get_next_token s i = get_next_token s (i + 1)" using assms(1) by (intro token_white) (simp_all add: starts_at_Cons)
  show ?thesis unfolding string_end.simps [of s i] string_end.simps [of s "i + 1"] t by (rule refl)
next
  case False
  then show ?thesis using assms(2,3) by (subst string_end.simps) (simp add: token_at [OF assms(1)])
qed

lemma string_end_raw:
  "raw_ok t \<Longrightarrow> starts_at (t @ [quote]) i s \<Longrightarrow> string_end s i = Inr (i + length t + 1)"
proof (induction t arbitrary: i rule: raw_ok.induct)
  case 1
  then show ?case by (simp add: string_end_quote)
next
  case (2 c)
  then have "starts_at [c] i s" "starts_at [quote] (i + 1) s" by (simp_all add: starts_at_Cons)
  then show ?case using 2 by (simp add: string_end_plain string_end_quote)
next
  case (3 c d cs)
  have q: "c \<noteq> quote" using 3(4) by (auto split: if_splits)
  show ?case
  proof (cases "c = CHR 0x5C")
    case True
    note esc = this
    then have e: "string_end s i = string_end s (if d = CHR ''u'' then i + 6 else i + 2)"
      using 3(5) by (intro string_end_escape) (simp add: starts_at_Cons)
    have cs: "starts_at (cs @ [quote]) (i + 2) s" using 3(5) by (simp add: starts_at_Cons numeral_2_eq_2)
    show ?thesis
    proof (cases "d = CHR ''u''")
      case True
      then have l: "4 \<le> length cs" "raw_ok (drop 4 cs)" using 3(4) esc q by (simp_all split: if_splits)
      have "starts_at (take 4 cs @ (drop 4 cs @ [quote])) (i + 2) s"
        using cs unfolding append_assoc [symmetric] append_take_drop_id .
      then have "starts_at (drop 4 cs @ [quote]) (i + 2 + length (take 4 cs)) s" unfolding starts_at_append [of "take 4 cs"] by (rule conjunct2)
      moreover have "i + 2 + length (take 4 cs) = i + 6" using l(1) by simp
      ultimately have "starts_at (drop 4 cs @ [quote]) (i + 6) s" by (simp only:)
      then show ?thesis using 3(1) [OF q esc True l(2)] e True l(1) by simp
    next
      case False
      then have "raw_ok cs" using 3(4) esc q by (simp split: if_splits)
      then show ?thesis using 3(2) [OF q esc False _ cs] e False by simp
    qed
  next
    case False
    have "starts_at [c] i s" "starts_at ((d # cs) @ [quote]) (i + 1) s" using 3(5) by (simp_all add: starts_at_Cons)
    moreover have "raw_ok (d # cs)" using 3(4) q False by simp
    ultimately show ?thesis using 3(3) [OF q False] string_end_plain [of c i s] q False by simp
  qed
qed

lemma parse_string_raw:
  assumes "raw_ok t" "starts_at (t @ [quote]) i s"
  shows "json_parse_string s i = Inr (t, i + length t + 1)"
proof -
  have "starts_at t i s" using assms(2) by (simp add: starts_at_append)
  then have "take (length t) (drop i s) = t" by (simp add: starts_at_def)
  then show ?thesis using string_end_raw [OF assms] by (simp add: json_parse_string_def)
qed

section \<open>Numbers\<close>

lemma digit_cases: "(m::nat) < 10 \<Longrightarrow> m \<in> {0, 1, 2, 3, 4, 5, 6, 7, 8, 9}"
  by (simp; presburger)

lemma is_digit_dec: "(m::nat) < 10 \<Longrightarrow> is_digit (char_of (48 + m))"
  by (drule digit_cases) (auto simp: is_digit_def char_of_def bit_Suc_0_iff)

lemma dec_not_zero: "(m::nat) < 10 \<Longrightarrow> 0 < m \<Longrightarrow> char_of (48 + m) \<noteq> CHR ''0''"
  by (drule digit_cases) (auto simp: char_of_def bit_Suc_0_iff)

lemma dec_nat_digit: "c \<in> set (dec_nat n) \<Longrightarrow> is_digit c"
proof (induction n rule: dec_nat.induct)
  case (1 n)
  then show ?case by (subst (asm) dec_nat.simps) (auto simp: is_digit_dec split: if_splits)
qed

lemma dec_nat_not_Nil [simp]: "dec_nat n \<noteq> []"
  by (subst dec_nat.simps) simp

lemma dec_nat_hd: "0 < n \<Longrightarrow> hd (dec_nat n) \<noteq> CHR ''0''"
proof (induction n rule: dec_nat.induct)
  case (1 n)
  show ?case
  proof (cases "n < 10")
    case True
    then show ?thesis using 1(2) by (subst dec_nat.simps) (simp add: dec_not_zero)
  next
    case False
    then show ?thesis using 1(1) by (subst dec_nat.simps) simp
  qed
qed

lemma dec_nat_zero [simp]: "dec_nat 0 = ''0''"
  by (subst dec_nat.simps) (simp add: char_of_def bit_Suc_0_iff)

lemma digit_not: "is_digit c \<Longrightarrow> c \<noteq> NUL \<and> c \<noteq> CHR ''-'' \<and> c \<noteq> CHR ''+'' \<and> \<not> is_space c \<and> \<not> is_json_white c"
  by (auto simp: is_digit_def is_space_def is_json_white_def)

text \<open>What follows a number must not continue it.\<close>

definition ends_at :: "nat \<Rightarrow> string \<Rightarrow> bool" where
  "ends_at e s \<longleftrightarrow> e \<le> length s \<and> (e < length s \<longrightarrow> \<not> is_digit (s ! e) \<and> s ! e \<noteq> CHR ''.'')"

lemma takeWhile_digits:
  assumes "\<forall>c \<in> set t. is_digit c" "starts_at t i s" "ends_at (i + length t) s"
  shows "takeWhile is_digit (drop i s) = t"
proof -
  let ?r = "drop (i + length t) s"
  have "drop i s = t @ ?r" using assms(2) by (metis append_take_drop_id drop_drop add.commute starts_at_def)
  moreover have "takeWhile is_digit ?r = []"
  proof (cases "i + length t < length s")
    case True
    then have "?r = s ! (i + length t) # drop (i + length t + 1) s" by (simp add: Cons_nth_drop_Suc)
    then show ?thesis using True assms(3) by (simp add: ends_at_def)
  qed simp
  ultimately show ?thesis using assms(1) by simp
qed

lemma takeWhile_digits_c_string:
  assumes "\<forall>c \<in> set t. is_digit c" "starts_at t i s" "ends_at (i + length t) s"
  shows "takeWhile is_digit (c_string (drop i s)) = t"
proof -
  let ?r = "drop (i + length t) s"
  have "drop i s = t @ ?r" using assms(2) by (metis append_take_drop_id drop_drop add.commute starts_at_def)
  moreover have "takeWhile is_digit (c_string ?r) = []"
  proof (cases "i + length t < length s")
    case True
    then have "?r = s ! (i + length t) # drop (i + length t + 1) s" by (simp add: Cons_nth_drop_Suc)
    then show ?thesis using True assms(3) by (simp add: ends_at_def c_string_def)
  qed (simp add: c_string_def)
  moreover have "takeWhile (\<lambda>c. c \<noteq> NUL) (t @ ?r) = t @ c_string ?r"
    using assms(1) digit_not by (simp add: c_string_def)
  ultimately show ?thesis using assms(1) by (simp add: c_string_def)
qed

lemma integer_end_nat:
  assumes "starts_at (dec_nat n) i s" "ends_at (i + length (dec_nat n)) s"
  shows "(if s ! i = CHR ''0'' then Inr (i + 1) else if is_digit (s ! i) then Inr (digits_from s (i + 1)) else E)
    = Inr (i + length (dec_nat n))"
proof (cases "n = 0")
  case True
  then show ?thesis using assms(1) by (simp add: starts_at_Cons)
next
  case False
  obtain c t where ct: "dec_nat n = c # t" by (cases "dec_nat n") simp_all
  then have c: "c \<noteq> CHR ''0''" "is_digit c" "\<forall>d \<in> set t. is_digit d"
    using dec_nat_hd [of n] False dec_nat_digit [of _ n] by auto
  have "takeWhile is_digit (drop (i + 1) s) = t"
    using assms ct c(3) by (intro takeWhile_digits) (simp_all add: starts_at_Cons)
  then show ?thesis using assms(1) ct c by (simp add: starts_at_Cons digits_from_def)
qed

lemma integer_end_dec:
  assumes "starts_at (dec_int z) i s" "ends_at (i + length (dec_int z)) s"
  shows "integer_end s i = Inr (i + length (dec_int z))"
proof (cases "z < 0")
  case True
  let ?d = "dec_nat (nat (- z))"
  have d: "starts_at [CHR ''-''] i s" "starts_at ?d (i + 1) s" "ends_at (i + 1 + length ?d) s"
    using assms True by (simp_all add: dec_int_def starts_at_Cons)
  obtain c t where ct: "?d = c # t" by (cases ?d) simp_all
  have "char_at s i = Inr (CHR ''-'')" "char_at s (i + 1) = Inr (s ! (i + 1))"
    using d ct by (auto simp: starts_at_Cons char_at_def)
  then have "integer_end s i = (if s ! (i + 1) = CHR ''0'' then Inr (i + 1 + 1)
    else if is_digit (s ! (i + 1)) then Inr (digits_from s (i + 1 + 1)) else Inl (Logic_error ''invalid character in number''))"
    by (simp add: integer_end_def Let_def)
  then have "integer_end s i = Inr (i + 1 + length ?d)" unfolding integer_end_nat [OF d(2,3)] .
  then show ?thesis using True by (simp add: dec_int_def)
next
  case False
  let ?d = "dec_nat (nat z)"
  have d: "starts_at ?d i s" "ends_at (i + length ?d) s" using assms False by (simp_all add: dec_int_def)
  obtain c t where ct: "?d = c # t" by (cases ?d) simp_all
  then have "is_digit c" using dec_nat_digit [of c "nat z"] by simp
  then have "s ! i \<noteq> CHR ''-''" "char_at s i = Inr (s ! i)" using d ct digit_not [of c] by (auto simp: starts_at_Cons char_at_def)
  then have "integer_end s i = (if s ! i = CHR ''0'' then Inr (i + 1)
    else if is_digit (s ! i) then Inr (digits_from s (i + 1)) else Inl (Logic_error ''invalid character in number''))"
    by (simp add: integer_end_def Let_def)
  then have "integer_end s i = Inr (i + length ?d)" unfolding integer_end_nat [OF d] .
  then show ?thesis using False by (simp add: dec_int_def)
qed

lemma c_string_Cons: "c \<noteq> NUL \<Longrightarrow> c_string (c # t) = c # c_string t"
  by (simp add: c_string_def)

lemma atol_dec:
  assumes "starts_at (dec_int z) i s" "ends_at (i + length (dec_int z)) s" "- (2 ^ 63) \<le> z" "z < 2 ^ 63"
  shows "atol (c_string (drop i s)) = word_of_int z"
proof (cases "z < 0")
  case True
  let ?d = "dec_nat (nat (- z))"
  have d: "starts_at ?d (i + 1) s" "ends_at (i + 1 + length ?d) s" "drop i s = CHR ''-'' # drop (i + 1) s"
    using assms(1,2) True starts_at_drop [OF assms(1)] starts_at_drop [of ?d "i + 1" s]
    by (simp_all add: dec_int_def starts_at_Cons)
  have m: "min (nat (- z)) (2 ^ 63) = nat (- z)" using assms(3) by simp
  have "takeWhile is_digit (c_string (drop (i + 1) s)) = ?d" using d dec_nat_digit by (intro takeWhile_digits_c_string) auto
  moreover have "c_string (drop i s) = CHR ''-'' # c_string (drop (i + 1) s)" unfolding d(3) by (rule c_string_Cons) simp
  ultimately show ?thesis using True m by (simp add: atol_def is_space_def Let_def dec_val_dec_nat)
next
  case False
  let ?d = "dec_nat (nat z)"
  have d: "starts_at ?d i s" "ends_at (i + length ?d) s" using assms False by (simp_all add: dec_int_def)
  obtain c t where ct: "?d = c # t" by (cases ?d) simp_all
  then have c: "is_digit c" using dec_nat_digit [of c "nat z"] by simp
  have m: "min (nat z) (2 ^ 63 - 1) = nat z" using assms(4) by simp
  have t: "takeWhile is_digit (c_string (drop i s)) = ?d" using d dec_nat_digit by (intro takeWhile_digits_c_string) auto
  then obtain r where "c_string (drop i s) = c # r" using ct by (cases "c_string (drop i s)") (auto split: if_splits)
  then show ?thesis using False m t c digit_not [OF c] by (simp add: atol_def Let_def dec_val_dec_nat)
qed

lemma parse_number_int:
  assumes "starts_at (dec_int (sint n)) i s" "ends_at (i + length (dec_int (sint n))) s"
  shows "json_parse_number env s i = Inr (Json_int n, i + length (dec_int (sint n)))"
proof -
  let ?e = "i + length (dec_int (sint n))"
  have r: "- (2 ^ 63) \<le> sint n" "sint n < 2 ^ 63" using sint_greater_eq [of n] sint_less [of n] by simp_all
  have "(ucast (word_of_int (sint n) :: 64 word) :: 32 word) = n" by (rule bit_word_eqI) (simp add: bit_simps)
  then have a: "atoi (c_string (drop i s)) = n" unfolding atoi_def atol_dec [OF assms r] .
  obtain c where c: "char_at s ?e = Inr c" "c \<noteq> CHR ''.''"
  proof (cases "?e < length s")
    case True
    then show ?thesis using assms(2) that [of "s ! ?e"] by (simp add: char_at_def ends_at_def)
  next
    case False
    then show ?thesis using assms(2) that [of NUL] by (simp add: char_at_def ends_at_def)
  qed
  show ?thesis unfolding json_parse_number_def integer_end_dec [OF assms] by (simp add: a c)
qed

section \<open>Values\<close>

text \<open>
  The values the printed text determines: no doubles, strings and keys that escape their quotes themselves, keys in
  the order of the map.
\<close>

fun json_ok :: "'d json \<Rightarrow> bool" where
  "json_ok (Json_double x) = False"
| "json_ok (Json_string t) = raw_ok t"
| "json_ok (Json_array js) = (\<forall>j \<in> set js. json_ok j)"
| "json_ok (Json_object m) = (om_ok m \<and> (\<forall>e \<in> set m. raw_ok (fst e) \<and> NUL \<notin> set (fst e) \<and> json_ok (snd e)))"
| "json_ok j = True"

abbreviation entry_str :: "'d json_env \<Rightarrow> string \<times> 'd json \<Rightarrow> string" where
  "entry_str env \<equiv> (\<lambda>e. quote # fst e @ [quote] @ '':'' @ json_str env (snd e))"

definition reads_back :: "'d json_env \<Rightarrow> string \<Rightarrow> 'd json \<Rightarrow> bool" where
  "reads_back env s j \<longleftrightarrow> (\<forall>i. starts_at (json_str env j) i s \<longrightarrow> ends_at (i + length (json_str env j)) s \<longrightarrow>
     json_parse env Json_value s i = Some (Inr (j, i + length (json_str env j))))"

lemma reads_backD:
  "reads_back env s j \<Longrightarrow> starts_at (json_str env j) i s \<Longrightarrow> ends_at (i + length (json_str env j)) s \<Longrightarrow>
    json_parse env Json_value s i = Some (Inr (j, i + length (json_str env j)))"
  by (simp add: reads_back_def)

lemma ends_at_char: "starts_at (c # t) e s \<Longrightarrow> \<not> is_digit c \<Longrightarrow> c \<noteq> CHR ''.'' \<Longrightarrow> ends_at e s"
  by (simp add: ends_at_def starts_at_Cons)

lemma starts_at_hd: "starts_at (c # t) i s \<Longrightarrow> starts_at [c] i s"
  by (simp add: starts_at_Cons)

lemma starts_at_tl: "starts_at (c # t) i s \<Longrightarrow> starts_at t (i + 1) s"
  by (simp add: starts_at_Cons)

lemma starts_at_appendD: "starts_at (t @ u) i s \<Longrightarrow> starts_at t i s" "starts_at (t @ u) i s \<Longrightarrow> starts_at u (i + length t) s"
  by (simp_all add: starts_at_append)

lemma json_str_first: "json_ok j \<Longrightarrow> \<exists>c t. json_str env j = c # t \<and> \<not> is_json_white c \<and> c \<noteq> CHR '']'' \<and> c \<noteq> CHR ''}''"
proof (cases j)
  case (Json_int n)
  show ?thesis
  proof (cases "sint n < 0")
    case True
    then show ?thesis by (simp add: Json_int dec_int_def json_white_char)
  next
    case False
    obtain c t where ct: "dec_nat (nat (sint n)) = c # t" by (cases "dec_nat (nat (sint n))") simp_all
    then have "is_digit c" using dec_nat_digit [of c "nat (sint n)"] by simp
    then have "\<not> is_json_white c \<and> c \<noteq> CHR '']'' \<and> c \<noteq> CHR ''}''" by (auto simp: is_digit_def is_json_white_def)
    then show ?thesis using False ct by (simp add: Json_int dec_int_def)
  qed
qed (simp_all add: json_white_char)

lemma c_string_ident: "NUL \<notin> set k \<Longrightarrow> c_string k = k"
  by (simp add: c_string_def) (metis takeWhile_eq_all_conv)

lemma json_parse_value:
  assumes "starts_at (c # t) i s" "\<not> is_json_white c"
  shows "json_parse env Json_value s i =
    (if c = CHR ''n'' then Some (json_parse_null s i)
     else if c = CHR ''t'' \<or> c = CHR ''f'' then Some (json_parse_bool s i)
     else if c = CHR ''-'' \<or> is_digit c then Some (json_parse_number env s i)
     else if c = quote then Some (res_bind (json_parse_string s (i + 1)) (\<lambda>(t, i). Inr (Json_string t, i)))
     else if c = CHR ''['' then
       next_char s (i + 1) (\<lambda>c i. if c = CHR '']'' then Some (Inr (Json_array [], i)) else json_parse env (Json_elements (Json_array [])) s (i - 1))
     else if c = CHR ''{'' then
       next_char s (i + 1) (\<lambda>c i. if c = CHR ''}'' then Some (Inr (Json_object [], i)) else json_parse env (Json_entries (Json_object [])) s (i - 1))
     else Some (Inl (Logic_error ''unexpected character in parse json'')))"
  using token_at [OF starts_at_hd [OF assms(1)] assms(2)] by (subst json_parse.simps) simp

lemma parse_elements:
  assumes "\<And>j. j \<in> set js \<Longrightarrow> reads_back env s j" "js \<noteq> []" "starts_at (join_comma (map (json_str env) js) @ '']'') i s"
  shows "json_parse env (Json_elements (Json_array acc)) s i =
    Some (Inr (Json_array (acc @ js), i + length (join_comma (map (json_str env) js)) + 1))"
  using assms
proof (induction js arbitrary: acc i)
  case (Cons j js)
  let ?e = "i + length (json_str env j)"
  let ?more = "case js of [] \<Rightarrow> '']'' | _ \<Rightarrow> CHR '','' # join_comma (map (json_str env) js) @ '']''"
  have st: "starts_at (json_str env j @ ?more) i s" using Cons.prems(3) by (cases js) simp_all
  have m: "starts_at ?more ?e s" using starts_at_appendD(2) [OF st] .
  have e: "ends_at ?e s" using m by (cases js) (auto elim!: ends_at_char simp: is_digit_def)
  have v: "json_parse env Json_value s i = Some (Inr (j, ?e))"
    using Cons.prems(1) starts_at_appendD(1) [OF st] e by (intro reads_backD) simp_all
  show ?case
  proof (cases js)
    case Nil
    then have "get_next_token s ?e = Inr (CHR '']'', ?e + 1)" using m by (intro token_at) (simp_all add: json_white_char)
    then show ?thesis using v Nil by (subst json_parse.simps) (simp add: json_append_def)
  next
    case (Cons k ks)
    then have "get_next_token s ?e = Inr (CHR '','', ?e + 1)"
      using starts_at_hd m by (intro token_at) (auto simp: json_white_char)
    moreover have "json_parse env (Json_elements (Json_array (acc @ [j]))) s (?e + 1) =
      Some (Inr (Json_array ((acc @ [j]) @ js), ?e + 1 + length (join_comma (map (json_str env) js)) + 1))"
      using Cons.prems(1) m Cons by (intro Cons.IH) (auto simp: starts_at_Cons)
    ultimately show ?thesis using v Cons by (subst json_parse.simps) (simp add: json_append_def)
  qed
qed simp

lemma parse_entries:
  assumes "\<And>e. e \<in> set m \<Longrightarrow> reads_back env s (snd e) \<and> raw_ok (fst e) \<and> NUL \<notin> set (fst e)" "m \<noteq> []" "om_ok (acc @ m)"
    and "starts_at (join_comma (map (entry_str env) m) @ ''}'') i s"
  shows "json_parse env (Json_entries (Json_object acc)) s i =
    Some (Inr (Json_object (acc @ m), i + length (join_comma (map (entry_str env) m)) + 1))"
  using assms
proof (induction m arbitrary: acc i)
  case (Cons p m)
  obtain k v where p: "p = (k, v)" by (cases p)
  have ok: "reads_back env s v" "raw_ok k" "c_string k = k" using Cons.prems(1) [of p] by (simp_all add: p c_string_ident)
  let ?i = "i + 1 + length k + 2" and ?e = "i + 1 + length k + 2 + length (json_str env v)"
  let ?more = "case m of [] \<Rightarrow> ''}'' | _ \<Rightarrow> CHR '','' # join_comma (map (entry_str env) m) @ ''}''"
  have st: "starts_at (quote # (k @ [quote]) @ CHR '':'' # json_str env v @ ?more) i s" using Cons.prems(4) by (cases m) (simp_all add: p)
  have k: "starts_at ((k @ [quote]) @ CHR '':'' # json_str env v @ ?more) (i + 1) s" using starts_at_tl [OF st] .
  have c: "starts_at (CHR '':'' # json_str env v @ ?more) (i + 1 + length k + 1) s" using starts_at_appendD(2) [OF k] by (simp add: add.assoc)
  have d: "starts_at (json_str env v @ ?more) ?i s" using starts_at_tl [OF c] by (simp add: add.assoc)
  have m: "starts_at ?more ?e s" using starts_at_appendD(2) [OF d] by (simp only: add.assoc)
  have e: "ends_at ?e s" using m by (cases m) (auto elim!: ends_at_char simp: is_digit_def)
  have v: "json_parse env Json_value s ?i = Some (Inr (v, ?e))"
    using ok(1) starts_at_appendD(1) [OF d] e by (intro reads_backD) simp_all
  have t: "get_next_token s i = Inr (quote, i + 1)" "json_parse_string s (i + 1) = Inr (k, i + 1 + length k + 1)"
    "get_next_token s (i + 1 + length k + 1) = Inr (CHR '':'', ?i)"
    using token_at [OF starts_at_hd [OF st]] parse_string_raw [OF ok(2) starts_at_appendD(1) [OF k]] token_at [OF starts_at_hd [OF c]]
    by (simp_all add: json_white_char)
  have put: "json_put k v (Json_object acc) = Json_object (acc @ [(k, v)])"
    using Cons.prems(3) by (simp add: json_put_def json_members_def ok(3) p om_ok_def sorted_wrt_append om_put_last)
  have step: "json_parse env (Json_entries (Json_object acc)) s i =
    next_char s ?e (\<lambda>c i. if c = CHR ''}'' then Some (Inr (Json_object (acc @ [(k, v)]), i))
      else if c \<noteq> CHR '','' then Some (Inl (Logic_error ''expected ',' in execution_plan''))
      else json_parse env (Json_entries (Json_object (acc @ [(k, v)]))) s i)"
    unfolding json_parse.simps [of env "Json_entries (Json_object acc)" s i]
    by (simp only: json_fn.case t sum.case prod.case simp_thms if_False if_True v jbind_simps Let_def put)
  show ?case
  proof (cases m)
    case Nil
    then have "get_next_token s ?e = Inr (CHR ''}'', ?e + 1)" using m by (intro token_at) (simp_all add: json_white_char)
    then show ?thesis unfolding step using Nil by (simp add: p)
  next
    case (Cons q qs)
    then have "get_next_token s ?e = Inr (CHR '','', ?e + 1)"
      using starts_at_hd m by (intro token_at) (auto simp: json_white_char)
    moreover have "json_parse env (Json_entries (Json_object (acc @ [(k, v)]))) s (?e + 1) =
      Some (Inr (Json_object ((acc @ [(k, v)]) @ m), ?e + 1 + length (join_comma (map (entry_str env) m)) + 1))"
      using Cons.prems(1,3) m Cons by (intro Cons.IH) (auto simp: starts_at_Cons p)
    ultimately show ?thesis unfolding step using Cons by (simp add: p)
  qed
qed simp

lemma reads_back_json: "json_ok j \<Longrightarrow> reads_back env s j"
proof (induction env j rule: json_str.induct)
  case (1 env)
  show ?case by (simp add: reads_back_def json_parse_value json_white_char json_parse_null_def)
next
  case (2 env b)
  have "\<not> starts_at ''true'' i s" if "starts_at ''false'' i s" for i using that by (simp add: starts_at_Cons)
  then show ?case
    by (cases b) (simp_all add: reads_back_def json_parse_value json_white_char is_digit_def json_parse_bool_def)
next
  case (3 env n)
  show ?case unfolding reads_back_def
  proof (intro allI impI)
    fix i
    assume a: "starts_at (json_str env (Json_int n)) i s" "ends_at (i + length (json_str env (Json_int n))) s"
    obtain c t where ct: "dec_int (sint n) = c # t" "c = CHR ''-'' \<or> is_digit c"
    proof (cases "sint n < 0")
      case True
      then show ?thesis using that by (simp add: dec_int_def)
    next
      case False
      obtain c t where "dec_nat (nat (sint n)) = c # t" by (cases "dec_nat (nat (sint n))") simp_all
      then show ?thesis using False that dec_nat_digit [of c "nat (sint n)"] by (simp add: dec_int_def)
    qed
    have c: "\<not> is_json_white c" "c \<noteq> CHR ''n''" "c \<noteq> CHR ''t''" "c \<noteq> CHR ''f''"
      using ct(2) by (auto simp: is_digit_def json_white_char)
    show "json_parse env Json_value s i = Some (Inr (Json_int n, i + length (json_str env (Json_int n))))"
      using a c ct parse_number_int [of n i s env] by (simp add: json_parse_value)
  qed
next
  case (5 env t)
  show ?case unfolding reads_back_def
  proof (intro allI impI)
    fix i
    assume "starts_at (json_str env (Json_string t)) i s"
    then have a: "starts_at (quote # t @ [quote]) i s" by simp
    have "json_parse_string s (i + 1) = Inr (t, i + 1 + length t + 1)"
      using 5 starts_at_tl [OF a] by (intro parse_string_raw) simp_all
    then show "json_parse env Json_value s i = Some (Inr (Json_string t, i + length (json_str env (Json_string t))))"
      using a by (simp add: json_parse_value json_white_char is_digit_def)
  qed
next
  case (6 env js)
  have ok: "reads_back env s j" if "j \<in> set js" for j using 6 that by simp
  show ?case unfolding reads_back_def
  proof (intro allI impI)
    fix i
    assume "starts_at (json_str env (Json_array js)) i s"
    then have a: "starts_at (CHR ''['' # join_comma (map (json_str env) js) @ '']'') i s" by simp
    have b: "starts_at (join_comma (map (json_str env) js) @ '']'') (i + 1) s" using starts_at_tl [OF a] .
    show "json_parse env Json_value s i = Some (Inr (Json_array js, i + length (json_str env (Json_array js))))"
    proof (cases "js = []")
      case True
      then have "get_next_token s (i + 1) = Inr (CHR '']'', i + 2)" using b token_at [of "CHR '']''" "i + 1" s] by (simp add: json_white_char)
      then show ?thesis using a True by (simp add: json_parse_value json_white_char is_digit_def)
    next
      case False
      then obtain j ks where js: "js = j # ks" by (cases js) simp_all
      obtain c t where c: "json_str env j = c # t" "\<not> is_json_white c" "c \<noteq> CHR '']''" using json_str_first [of j env] 6(2) js by auto
      have "starts_at [c] (i + 1) s" using b js c(1) by (cases ks) (simp_all add: starts_at_Cons)
      then have "get_next_token s (i + 1) = Inr (c, i + 2)" using c(2) token_at [of c "i + 1" s] by simp
      then show ?thesis using a c(3) parse_elements [OF ok False b] by (simp add: json_parse_value json_white_char is_digit_def)
    qed
  qed
next
  case (7 env m)
  have ok: "reads_back env s (snd e) \<and> raw_ok (fst e) \<and> NUL \<notin> set (fst e)" if "e \<in> set m" for e using 7 that by simp
  show ?case unfolding reads_back_def
  proof (intro allI impI)
    fix i
    assume "starts_at (json_str env (Json_object m)) i s"
    then have a: "starts_at (CHR ''{'' # join_comma (map (entry_str env) m) @ ''}'') i s" by simp
    have b: "starts_at (join_comma (map (entry_str env) m) @ ''}'') (i + 1) s" using starts_at_tl [OF a] .
    show "json_parse env Json_value s i = Some (Inr (Json_object m, i + length (json_str env (Json_object m))))"
    proof (cases "m = []")
      case True
      then have "get_next_token s (i + 1) = Inr (CHR ''}'', i + 2)" using b token_at [of "CHR ''}''" "i + 1" s] by (simp add: json_white_char)
      then show ?thesis using a True by (simp add: json_parse_value json_white_char is_digit_def)
    next
      case False
      then obtain p ps where m: "m = p # ps" by (cases m) simp_all
      have "starts_at [quote] (i + 1) s" using b m by (cases ps) (simp_all add: starts_at_Cons)
      then have "get_next_token s (i + 1) = Inr (quote, i + 2)" using token_at [of quote "i + 1" s] by (simp add: json_white_char)
      moreover have "om_ok ([] @ m)" using 7(2) by simp
      ultimately show ?thesis using a parse_entries [OF ok False _ b, where acc = "[]"] by (simp add: json_parse_value json_white_char is_digit_def)
    qed
  qed
qed simp

section \<open>Every call returns\<close>

text \<open>The errors of the parser: an exception it throws, or, in a text with a backslash, an undefined read behind the text.\<close>

definition parse_error :: "string \<Rightarrow> cpp_error \<Rightarrow> bool" where
  "parse_error s e \<longleftrightarrow> (\<exists>m. e = Logic_error m) \<or> e = Out_of_range ''operator[]'' \<and> CHR 0x5C \<in> set s"

lemma parse_error_thrown [simp]: "parse_error s (Logic_error m)"
  by (simp add: parse_error_def)

definition moves_on :: "string \<Rightarrow> nat \<Rightarrow> ('a \<times> nat) result option \<Rightarrow> bool" where
  "moves_on s i m \<longleftrightarrow> (\<exists>r. m = Some r \<and> (\<forall>j i'. r = Inr (j, i') \<longrightarrow> i < i' \<and> i' \<le> length s) \<and> (\<forall>e. r = Inl e \<longrightarrow> parse_error s e))"

lemma moves_on_error [simp]: "moves_on s i (Some (Inl e)) \<longleftrightarrow> parse_error s e"
  by (simp add: moves_on_def)

lemma moves_on_value [simp]: "moves_on s i (Some (Inr (j, i'))) \<longleftrightarrow> i < i' \<and> i' \<le> length s"
  by (simp add: moves_on_def)

lemma moves_on_mono: "moves_on s i' m \<Longrightarrow> i \<le> i' \<Longrightarrow> moves_on s i m"
  by (fastforce simp: moves_on_def)

lemma get_next_token_error: "i \<le> length s \<Longrightarrow> get_next_token s i = Inl e \<Longrightarrow> \<exists>m. e = Logic_error m"
  by (auto simp: get_next_token_def json_skip_white_def split: if_split_asm)

lemma moves_on_next:
  assumes "i \<le> length s" "\<And>c i'. i < i' \<Longrightarrow> i' \<le> length s \<Longrightarrow> moves_on s i (k c i')"
  shows "moves_on s i (next_char s i k)"
proof (cases "get_next_token s i")
  case (Inl e)
  then show ?thesis using get_next_token_error [OF assms(1) Inl] by auto
next
  case (Inr r)
  obtain c i' where r: "r = (c, i')" by (cases r)
  show ?thesis using assms(2) get_next_token_D [of s i c i'] by (simp add: Inr r)
qed

lemma moves_on_bind:
  assumes "moves_on s i m" "\<And>j i'. i < i' \<Longrightarrow> i' \<le> length s \<Longrightarrow> moves_on s i (f j i')"
  shows "moves_on s i (jbind m f)"
proof -
  obtain r where m: "m = Some r" "\<And>j i'. r = Inr (j, i') \<Longrightarrow> i < i' \<and> i' \<le> length s" "\<And>e. r = Inl e \<Longrightarrow> parse_error s e"
    using assms(1) by (auto simp: moves_on_def)
  show ?thesis
  proof (cases r)
    case (Inr p)
    then show ?thesis using m assms(2) by (cases p) simp
  qed (simp add: m)
qed

lemma char_at_bound: "char_at s i = Inr c \<Longrightarrow> i \<le> length s" "char_at s i = Inr c \<Longrightarrow> c \<noteq> NUL \<Longrightarrow> i < length s"
  by (auto simp: char_at_def split: if_splits)

lemma digits_from_bound: "i \<le> length s \<Longrightarrow> i \<le> digits_from s i \<and> digits_from s i \<le> length s"
  using length_takeWhile_le [of is_digit "drop i s"] by (simp add: digits_from_def)

lemma integer_end_bound: "integer_end s i = Inr e \<Longrightarrow> i < e \<and> e \<le> length s"
proof -
  assume a: "integer_end s i = Inr e"
  then obtain c where c: "char_at s i = Inr c" by (cases "char_at s i") (simp_all add: integer_end_def)
  define k where "k = (if c = CHR ''-'' then i + 1 else i)"
  obtain d where d: "char_at s k = Inr d" using a by (cases "char_at s k") (auto simp: integer_end_def c Let_def k_def)
  have e: "(if d = CHR ''0'' then Inr (k + 1) else if is_digit d then Inr (digits_from s (k + 1))
    else Inl (Logic_error ''invalid character in number'')) = Inr e"
    using a unfolding integer_end_def c res_bind_simps Let_def k_def [symmetric] d by simp
  have "d \<noteq> NUL" using e by (auto split: if_splits)
  then have "k < length s" using d char_at_bound(2) by blast
  moreover have "i \<le> k" by (simp add: k_def)
  ultimately show ?thesis using e digits_from_bound [of "k + 1" s] by (auto split: if_splits)
qed

lemma string_end_bound: "string_end s i = Inr e \<Longrightarrow> i < e \<and> e \<le> length s"
proof (induction s i rule: string_end.induct)
  case (1 s i)
  obtain c k where t: "get_next_token s i = Inr (c, k)" using 1(3) by (cases "get_next_token s i") (auto simp: string_end.simps [of s i])
  note k = get_next_token_D [OF t]
  show ?case
  proof (cases "c = quote")
    case True
    then show ?thesis using 1(3) k t by (simp add: string_end.simps [of s i])
  next
    case False
    note q = this
    show ?thesis
    proof (cases "c = CHR 0x5C")
      case True
      obtain d where d: "char_at s k = Inr d" using 1(3) by (cases "char_at s k") (auto simp: string_end.simps [of s i] t True)
      have "string_end s (if d = CHR ''u'' then k + 5 else k + 1) = Inr e"
        using 1(3) unfolding string_end.simps [of s i] by (simp add: t True d)
      then show ?thesis using 1(1) [OF t refl q True d] k by (auto split: if_splits)
    next
      case False
      have "string_end s k = Inr e" using 1(3) q False unfolding string_end.simps [of s i] by (simp add: t)
      then show ?thesis using 1(2) [OF t refl q False] k by simp
    qed
  qed
qed

lemma char_at_exists: "i \<le> length s \<Longrightarrow> \<exists>c. char_at s i = Inr c"
  by (simp add: char_at_def)

lemma integer_end_error: "i < length s \<Longrightarrow> integer_end s i = Inl e \<Longrightarrow> \<exists>m. e = Logic_error m"
  by (auto simp: integer_end_def char_at_def Let_def split: if_split_asm)

lemma string_end_error:
  "string_end s i = Inl e \<Longrightarrow> (\<exists>m. e = Logic_error m) \<or> e = Out_of_range ''operator[]'' \<and> (CHR 0x5C \<in> set s \<or> length s < i)"
proof (induction s i rule: string_end.induct)
  case (1 s i)
  show ?case
  proof (cases "get_next_token s i")
    case (Inl e')
    then have "e = e'" using 1(3) by (simp add: string_end.simps [of s i])
    then show ?thesis using Inl by (auto simp: get_next_token_def json_skip_white_def split: if_split_asm)
  next
    case (Inr r)
    obtain c k where t: "get_next_token s i = Inr (c, k)" using Inr by (cases r) auto
    note k = get_next_token_D [OF t]
    show ?thesis
    proof (cases "c = CHR 0x5C")
      case True
      then have b: "CHR 0x5C \<in> set s" using k nth_mem [of "k - 1" s] by auto
      have q: "c \<noteq> quote" using True by simp
      show ?thesis
      proof (cases "char_at s k")
        case (Inl e')
        then have "e = e'" using 1(3) t True by (simp add: string_end.simps [of s i])
        then show ?thesis using Inl b by (auto simp: char_at_def split: if_split_asm)
      next
        case (Inr d)
        have "string_end s (if d = CHR ''u'' then k + 5 else k + 1) = Inl e"
          using 1(3) unfolding string_end.simps [of s i] by (simp add: t True Inr)
        then show ?thesis using 1(1) [OF t refl q True Inr] b by blast
      qed
    next
      case False
      then have q: "c \<noteq> quote" and e: "string_end s k = Inl e" using 1(3) t unfolding string_end.simps [of s i] by (auto split: if_split_asm)
      then show ?thesis using 1(2) [OF t refl q False e] k by auto
    qed
  qed
qed

lemma moves_on_number: "i < length s \<Longrightarrow> moves_on s i (Some (json_parse_number env s i))"
proof (cases "integer_end s i")
  case (Inl e)
  assume "i < length s"
  then show ?thesis using integer_end_error [OF _ Inl] by (auto simp: json_parse_number_def Inl)
next
  case (Inr e)
  note e = integer_end_bound [OF Inr]
  obtain c where c: "char_at s e = Inr c" using e char_at_exists by blast
  have len: "c = CHR ''.'' \<Longrightarrow> e + 1 \<le> length s" using c e by (auto simp: char_at_def split: if_splits)
  show ?thesis
  proof (cases "c = CHR ''.''")
    case False
    then show ?thesis using e c Inr by (simp add: json_parse_number_def)
  next
    case True
    obtain d where d: "char_at s (e + 1) = Inr d" using len [OF True] char_at_exists by blast
    have "i < digits_from s (e + 1) \<and> digits_from s (e + 1) \<le> length s"
      using digits_from_bound [of "e + 1" s] len [OF True] e by linarith
    then show ?thesis using c d Inr True by (simp add: json_parse_number_def)
  qed
qed

lemma moves_on_leaves:
  "moves_on s i (Some (json_parse_null s i))"
  "moves_on s i (Some (json_parse_bool s i))"
  using starts_at_length [of "''null''" i s] starts_at_length [of "''true''" i s] starts_at_length [of "''false''" i s]
  by (auto simp: json_parse_null_def json_parse_bool_def)

lemma json_parse_string_error: "i \<le> length s \<Longrightarrow> json_parse_string s i = Inl e \<Longrightarrow> parse_error s e"
  using string_end_error [of s i] by (cases "string_end s i") (auto simp: json_parse_string_def parse_error_def)

lemma moves_on_string: "i \<le> length s \<Longrightarrow> moves_on s i (Some (res_bind (json_parse_string s i) (\<lambda>(t, i). Inr (Json_string t, i))))"
  using string_end_bound [of s i] json_parse_string_error [of i s]
  by (cases "string_end s i") (auto simp: json_parse_string_def)

lemmas json_value_eq = json_parse.simps [where fn = Json_value, unfolded json_fn.case]
lemmas json_elements_eq = json_parse.simps [where fn = "Json_elements arr" for arr, unfolded json_fn.case]
lemmas json_entries_eq = json_parse.simps [where fn = "Json_entries obj" for obj, unfolded json_fn.case]

lemma moves_on_parse: "i \<le> length s \<Longrightarrow> moves_on s i (json_parse env fn s i)"
proof (induction "2 * (length s + 1 - i) + (if fn = Json_value then 0 else 1)" arbitrary: fn i rule: less_induct)
  case less
  have IH: "moves_on s k (json_parse env g s k)" if "i < k" "k \<le> length s" for g k
    using that by (intro less(1)) auto
  have IHv: "moves_on s i (json_parse env Json_value s i)" if "fn \<noteq> Json_value"
    using that less(2) by (intro less(1)) auto
  have IH1: "moves_on s i (json_parse env g s k)" if "i < k" "k \<le> length s" for g k
    using IH [OF that] that(1) by (rule moves_on_mono [OF _ less_imp_le])
  show ?case
  proof (cases fn)
    case Json_value
    show ?thesis unfolding Json_value json_value_eq [of env s i]
    proof (rule moves_on_next [OF less(2)])
      fix c i'
      assume i': "i < i'" "i' \<le> length s"
      have prev: "moves_on s i m" if "moves_on s (i' - 1) m" for m :: "'a json_parsed"
        using moves_on_mono [OF that, of i] i'(1) by simp
      have str: "moves_on s i (Some (res_bind (json_parse_string s i') (\<lambda>(t, i). Inr (Json_string t :: 'a json, i))))"
        using moves_on_string [OF i'(2)] i'(1) by (rule moves_on_mono [OF _ less_imp_le])
      have item: "moves_on s i (next_char s i' (\<lambda>c i. if c = d then Some (Inr (j, i)) else json_parse env g s (i - 1)))" for d j g
      proof (rule moves_on_mono [OF moves_on_next [OF i'(2)]])
        fix c k
        assume "i' < k" "k \<le> length s"
        then show "moves_on s i' (if c = d then Some (Inr (j, k)) else json_parse env g s (k - 1))"
          using i' moves_on_mono [OF IH [of "k - 1" g], of i'] by (cases "c = d") auto
      qed (use i' in simp)
      show "moves_on s i (if c = CHR ''n'' then Some (json_parse_null s (i' - 1))
            else if c = CHR ''t'' \<or> c = CHR ''f'' then Some (json_parse_bool s (i' - 1))
            else if c = CHR ''-'' \<or> is_digit c then Some (json_parse_number env s (i' - 1))
            else if c = quote then Some (res_bind (json_parse_string s i') (\<lambda>(t, i). Inr (Json_string t, i)))
            else if c = CHR ''['' then
              next_char s i' (\<lambda>c i. if c = CHR '']'' then Some (Inr (Json_array [], i)) else json_parse env (Json_elements (Json_array [])) s (i - 1))
            else if c = CHR ''{'' then
              next_char s i' (\<lambda>c i. if c = CHR ''}'' then Some (Inr (Json_object [], i)) else json_parse env (Json_entries (Json_object [])) s (i - 1))
            else Some (Inl (Logic_error ''unexpected character in parse json'')))"
        using prev [OF moves_on_leaves(1)] prev [OF moves_on_leaves(2)] prev [OF moves_on_number] i'
          str item by simp
    qed
  next
    case (Json_elements arr)
    show ?thesis unfolding Json_elements json_elements_eq [of env arr s i]
    proof (rule moves_on_bind [OF IHv])
      fix j i'
      assume i': "i < i'" "i' \<le> length s"
      show "moves_on s i (let arr = json_append j arr in next_char s i' (\<lambda>c i.
          if c = CHR '']'' then Some (Inr (arr, i)) else if c \<noteq> CHR '','' then Some (Inl (Logic_error ''expected ',' in array''))
          else json_parse env (Json_elements arr) s i))"
        unfolding Let_def by (rule moves_on_mono [OF moves_on_next [OF i'(2)]]) (use i' IH1 moves_on_mono [OF IH] in auto)
    qed (simp add: Json_elements)
  next
    case (Json_entries obj)
    have v: "moves_on s i (json_parse env Json_value s k)" if "i < k" "k \<le> length s" for k using IH1 [OF that] .
    show ?thesis unfolding Json_entries json_entries_eq [of env obj s i]
    proof (rule moves_on_next [OF less(2)])
      fix c i1
      assume i1: "i < i1" "i1 \<le> length s"
      show "moves_on s i (if c \<noteq> quote then Some (Inl (Logic_error ''expected '\"' in execution_plan''))
        else (case json_parse_string s i1 of Inl e \<Rightarrow> Some (Inl e)
          | Inr (key, i) \<Rightarrow> next_char s i (\<lambda>c i. if c \<noteq> CHR '':'' then Some (Inl (Logic_error ''expected ':' in execution_plan''))
              else jbind (json_parse env Json_value s i) (\<lambda>v i. let obj = json_put key v obj in next_char s i (\<lambda>c i.
                if c = CHR ''}'' then Some (Inr (obj, i))
                else if c \<noteq> CHR '','' then Some (Inl (Logic_error ''expected ',' in execution_plan''))
                else json_parse env (Json_entries obj) s i)))))"
      proof (cases "c \<noteq> quote \<or> (\<exists>e. json_parse_string s i1 = Inl e)")
        case False
        then obtain key i2 where k: "json_parse_string s i1 = Inr (key, i2)" by (cases "json_parse_string s i1") auto
        then have i2: "i < i2" "i2 \<le> length s" using i1 string_end_bound [of s i1]
          by (cases "string_end s i1"; auto simp: json_parse_string_def)+
        have last: "moves_on s i3 (next_char s i4 (\<lambda>c i. if c = CHR ''}'' then Some (Inr (obj', i))
            else if c \<noteq> CHR '','' then Some (Inl e) else json_parse env (Json_entries obj') s i))"
          if "i < i3" "i3 < i4" "i4 \<le> length s" "parse_error s e" for i3 i4 obj' e
          by (rule moves_on_mono [OF moves_on_next]) (use that moves_on_mono [OF IH] in auto)
        have vals: "moves_on s i2 (jbind (json_parse env Json_value s i3) (\<lambda>v i. let obj = json_put key v obj in next_char s i (\<lambda>c i.
            if c = CHR ''}'' then Some (Inr (obj, i))
            else if c \<noteq> CHR '','' then Some (Inl (Logic_error ''expected ',' in execution_plan''))
            else json_parse env (Json_entries obj) s i)))" if "i2 < i3" "i3 \<le> length s" for i3
        proof (rule moves_on_mono [OF moves_on_bind])
          show "moves_on s i3 (json_parse env Json_value s i3)" using that i1 i2 by (intro IH) simp_all
        qed (use that i1 i2 last in \<open>auto simp: Let_def\<close>)
        have "moves_on s i2 (next_char s i2 (\<lambda>c i. if c \<noteq> CHR '':'' then Some (Inl (Logic_error ''expected ':' in execution_plan''))
              else jbind (json_parse env Json_value s i) (\<lambda>v i. let obj = json_put key v obj in next_char s i (\<lambda>c i.
                if c = CHR ''}'' then Some (Inr (obj, i))
                else if c \<noteq> CHR '','' then Some (Inl (Logic_error ''expected ',' in execution_plan''))
                else json_parse env (Json_entries obj) s i))))"
          by (rule moves_on_next [OF i2(2)]) (use vals in simp)
        then show ?thesis using False i2 k by (auto elim: moves_on_mono)
      qed (use i1 json_parse_string_error [OF i1(2)] in auto)
    qed
  qed
qed

section \<open>Objects\<close>

text \<open>Copies\<close>

fun json_sorted :: "'d json \<Rightarrow> bool" where
  "json_sorted (Json_array js) = (\<forall>j \<in> set js. json_sorted j)"
| "json_sorted (Json_object m) = (om_ok m \<and> (\<forall>e \<in> set m. json_sorted (snd e)))"
| "json_sorted j = True"

lemma json_copy_same: "json_sorted j \<Longrightarrow> json_copy j = j"
proof (induction j rule: json_copy.induct)
  case (1 js)
  then show ?case by (simp add: map_idI)
next
  case (2 m)
  then have "map (\<lambda>e. (fst e, json_copy (snd e))) m = m" by (intro map_idI) auto
  then show ?case using 2 fold_om_put [of "[]" m] by simp
qed simp_all

lemma sorted_json_put: "json_sorted j \<Longrightarrow> json_sorted v \<Longrightarrow> json_sorted (json_put key v j)"
proof -
  assume a: "json_sorted j" "json_sorted v"
  then have m: "om_ok (json_members j)" "\<forall>e \<in> set (json_members j). json_sorted (snd e)" by (cases j; simp add: json_members_def)+
  then show ?thesis using a(2) set_om_put [of "c_string key" v "json_members j"] by (auto simp: json_put_def)
qed

text \<open>\<open>operator[]\<close>, \<open>get\<close>, \<open>has\<close> and \<open>remove\<close> with a key are the operations of a map.\<close>

lemma get_put: "json_get_key k (json_put k v j) = v" "json_has_key k (json_put k' v j) \<longleftrightarrow> c_string k = c_string k' \<or> json_has_key k j"
  by (cases j; simp add: json_get_key_def json_has_key_def json_put_def json_members_def)+

lemma get_put_other: "c_string k \<noteq> c_string k' \<Longrightarrow> json_get_key k (json_put k' v j) = json_get_key k j"
  by (cases j; simp add: json_get_key_def json_has_key_def json_put_def json_members_def)

lemma has_remove: "json_has_key k (json_remove_key k' j) \<longleftrightarrow> c_string k \<noteq> c_string k' \<and> json_has_key k j"
  by (cases j; simp add: json_remove_key_def json_has_key_def)

text \<open>Reading a key makes the entry.\<close>

lemma has_after_at: "json_has_key k (snd (json_at_key k j))"
  by (simp add: json_at_key_def json_has_key_def Let_def)

section \<open>Results\<close>

text \<open>An environment whose doubles are whole numbers, for the witnesses.\<close>

definition whole_env :: "int json_env" where
  "whole_env = \<lparr>js_zero = 0, js_atof = (\<lambda>s. 0), js_double_text = (\<lambda>x. [])\<rparr>"

text \<open>
  C31. Printing and parsing, for the values the printed text determines: no doubles, strings and keys that hold no quote
  outside an escape and no incomplete escape, keys without zero bytes in the order of the map. What \<open>Json::str\<close> prints for
  such a value is parsed back to the value, anywhere in a text whose next character is neither a digit nor a point; the parser
  stops behind the value.
\<close>

theorem json_roundtrip:
  assumes "json_ok j" "rest = [] \<or> \<not> is_digit (hd rest) \<and> hd rest \<noteq> CHR ''.''"
  shows "json_parse env Json_value (pre @ json_str env j @ rest) (length pre) = Some (Inr (j, length pre + length (json_str env j)))"
proof -
  let ?s = "pre @ json_str env j @ rest"
  have "starts_at (json_str env j) (length pre) ?s" by (simp add: starts_at_def)
  moreover have "ends_at (length pre + length (json_str env j)) ?s"
    using assms(2) by (cases rest) (auto simp: ends_at_def nth_append)
  ultimately show ?thesis using reads_back_json [OF assms(1)] by (intro reads_backD)
qed

theorem json_roundtrip_witness:
  "json_parse whole_env Json_value
     (''x='' @ json_str whole_env
       (Json_object [(''a'', Json_array [Json_int 7, Json_null]), (''b'', Json_string ''t'')]) @ '';'') (length ''x='') =
   Some (Inr (Json_object [(''a'', Json_array [Json_int 7, Json_null]), (''b'', Json_string ''t'')],
     length ''x='' + length (json_str whole_env
       (Json_object [(''a'', Json_array [Json_int 7, Json_null]), (''b'', Json_string ''t'')]))))"
  by (rule json_roundtrip) (simp_all add: is_digit_def)

text \<open>
  C32. Parsing ends on every text: the parser gives a value and an index within the text, in front of which it has read at
  least one character, or it throws one of its exceptions. Only for a text with a backslash there is a third case: an escape
  that the end of the text cuts off takes the index behind the terminating zero, and the next read is undefined.
\<close>

theorem json_parser_returns:
  "\<exists>r. parse_json env s = Some r \<and> (case r of
      Inr (j, k) \<Rightarrow> 0 < k \<and> k \<le> length s
    | Inl e \<Rightarrow> (\<exists>m. e = Logic_error m) \<or> e = Out_of_range ''operator[]'' \<and> CHR 0x5C \<in> set s)"
  using moves_on_parse [of 0 s env Json_value] by (auto simp: moves_on_def parse_json_def parse_error_def split: sum.splits)

text \<open>
  Printing does not escape: a string that holds a quote is read back as what precedes the quote.
\<close>

theorem json_quote_cuts_string:
  assumes "raw_ok t"
  shows "parse_json env (json_str env (Json_string (t @ quote # u))) = Some (Inr (Json_string t, length t + 2))"
proof -
  let ?s = "quote # t @ quote # u @ [quote]"
  have a: "starts_at (quote # t @ [quote]) 0 ?s" by (simp add: starts_at_def)
  have "json_parse_string ?s (0 + 1) = Inr (t, 0 + 1 + length t + 1)" using assms starts_at_tl [OF a] by (rule parse_string_raw)
  then show ?thesis using json_parse_value [OF a, of env] by (simp add: parse_json_def json_white_char is_digit_def)
qed

theorem json_quote_cuts_string_witness:
  "parse_json whole_env
     (json_str whole_env (Json_string (''ab'' @ quote # ''cd''))) =
   Some (Inr (Json_string ''ab'', length ''ab'' + 2))"
  by (rule json_quote_cuts_string) simp

end
