(* ===== verification/Timer_Queue.thy ===== *)
theory Timer_Queue
  imports Prelude "HOL-Library.Multiset"
begin

text \<open>
  The timers of the server (\<open>src/server/src/timer_queue.cpp\<close>): a binary heap of events in a vector, a map from
  the id of a timer to its place in the vector, and the time the timer file descriptor is armed for. Callbacks and their data are
  of any type. Reading the vector out of range is \<open>Out_of_range\<close>.
\<close>

section \<open>Model\<close>

record ('c, 'd) timer_event =
  te_time_cb :: 'c
  te_cb_data :: 'd
  te_timestamp :: "64 word"
  te_interval :: "32 word"
  te_timer_id :: nat

record ('c, 'd) timer_queue =
  tq_event_lst :: "('c, 'd) timer_event list"
  tq_position :: "nat \<rightharpoonup> nat"
  tq_time_count :: nat
  tq_next_time_id :: nat
  tq_pioneer :: "64 word"
  tq_armed :: "64 word \<times> 64 word"

definition new_timer_queue :: "('c, 'd) timer_queue" where
  "new_timer_queue = \<lparr>tq_event_lst = [], tq_position = Map.empty, tq_time_count = 0, tq_next_time_id = 0, tq_pioneer = - 1, tq_armed = (0, 0)\<rparr>"

definition mk_timer_event :: "'c \<Rightarrow> 'd \<Rightarrow> 64 word \<Rightarrow> 32 word \<Rightarrow> ('c, 'd) timer_event" where
  "mk_timer_event cb data ts interval = \<lparr>te_time_cb = cb, te_cb_data = data, te_timestamp = ts, te_interval = interval, te_timer_id = 0\<rparr>"

text \<open>Seconds and nanoseconds for \<open>timerfd_settime\<close>; both zero disarm the descriptor.\<close>

definition reset_timo :: "('c, 'd) timer_queue \<Rightarrow> ('c, 'd) timer_queue" where
  "reset_timo q = q\<lparr>tq_armed :=
     (if tq_pioneer q \<noteq> - 1 then (tq_pioneer q div 1000, (tq_pioneer q mod 1000) * 1000000) else (0, 0))\<rparr>"

definition event_at :: "('c, 'd) timer_queue \<Rightarrow> nat \<Rightarrow> ('c, 'd) timer_event result" where
  "event_at q i = (if i < length (tq_event_lst q) then Inr (tq_event_lst q ! i) else Inl (Out_of_range ''operator[]''))"

text \<open>Two places of the vector exchange their events; the event that was at \<open>j\<close> is entered first.\<close>

definition heap_swap :: "nat \<Rightarrow> nat \<Rightarrow> ('c, 'd) timer_queue \<Rightarrow> ('c, 'd) timer_queue" where
  "heap_swap i j q =
     (let a = tq_event_lst q ! i; b = tq_event_lst q ! j in
      q\<lparr>tq_event_lst := (tq_event_lst q)[i := b, j := a], tq_position := (tq_position q)(te_timer_id b \<mapsto> i, te_timer_id a \<mapsto> j)\<rparr>)"

lemma parent_before: "key (l ! c) < (key (l ! ((c - Suc 0) div 2)) :: 64 word) \<Longrightarrow> (c - Suc 0) div 2 < c"
  by (cases c) auto

function heap_up :: "nat \<Rightarrow> ('c, 'd) timer_queue \<Rightarrow> ('c, 'd) timer_queue result" where
  "heap_up curr_pos q =
     (let prt_pos = (curr_pos - 1) div 2 in
      case event_at q curr_pos of
        Inl e \<Rightarrow> Inl e
      | Inr c \<Rightarrow>
          (case event_at q prt_pos of
             Inl e \<Rightarrow> Inl e
           | Inr p \<Rightarrow>
               if te_timestamp c < te_timestamp p then heap_up prt_pos (heap_swap curr_pos prt_pos q) else Inr q))"
  by pat_completeness auto
termination
  by (relation "measure fst") (auto simp: event_at_def split: if_splits dest: parent_before)

declare heap_up.simps [simp del]

definition heap_add :: "('c, 'd) timer_event \<Rightarrow> ('c, 'd) timer_queue \<Rightarrow> ('c, 'd) timer_queue result" where
  "heap_add te q =
     (let curr_pos = tq_time_count q in
      heap_up curr_pos (q\<lparr>tq_event_lst := tq_event_lst q @ [te], tq_position := (tq_position q)(te_timer_id te \<mapsto> curr_pos),
        tq_time_count := curr_pos + 1\<rparr>))"

definition smaller_of :: "nat \<Rightarrow> nat \<Rightarrow> ('c, 'd) timer_queue \<Rightarrow> nat result" where
  "smaller_of child min_pos q =
     (if child < tq_time_count q then
        res_bind (event_at q min_pos) (\<lambda>a. res_bind (event_at q child) (\<lambda>b.
          Inr (if te_timestamp b < te_timestamp a then child else min_pos)))
      else Inr min_pos)"

definition min_of_three :: "nat \<Rightarrow> ('c, 'd) timer_queue \<Rightarrow> nat result" where
  "min_of_three pos q = res_bind (smaller_of (2 * pos + 1) pos q) (\<lambda>min_pos. smaller_of (2 * pos + 2) min_pos q)"

lemma smaller_of_D:
  "smaller_of c m q = Inr k \<Longrightarrow> k = m \<and> (c < tq_time_count q \<longrightarrow> c < length (tq_event_lst q) \<and> m < length (tq_event_lst q) \<and>
      te_timestamp (tq_event_lst q ! m) \<le> te_timestamp (tq_event_lst q ! c)) \<or>
    k = c \<and> c < tq_time_count q \<and> c < length (tq_event_lst q) \<and> m < length (tq_event_lst q) \<and>
      te_timestamp (tq_event_lst q ! c) < te_timestamp (tq_event_lst q ! m)"
  by (auto simp: smaller_of_def event_at_def split: if_splits)

lemma smaller_of_I:
  "(c < tq_time_count q \<Longrightarrow> c < length (tq_event_lst q) \<and> m < length (tq_event_lst q) \<and>
      te_timestamp (tq_event_lst q ! m) \<le> te_timestamp (tq_event_lst q ! c)) \<Longrightarrow> smaller_of c m q = Inr m"
  by (auto simp: smaller_of_def event_at_def)

lemma heap_swap_simps [simp]:
  "tq_event_lst (heap_swap i j q) = (tq_event_lst q)[i := tq_event_lst q ! j, j := tq_event_lst q ! i]"
  "tq_time_count (heap_swap i j q) = tq_time_count q" "tq_next_time_id (heap_swap i j q) = tq_next_time_id q"
  "tq_pioneer (heap_swap i j q) = tq_pioneer q" "tq_armed (heap_swap i j q) = tq_armed q"
  by (simp_all add: heap_swap_def Let_def)

text \<open>After one exchange the smallest of the three is on top, so that the second call ends.\<close>

lemma min_of_three_swap:
  assumes "min_of_three pos q = Inr m" "m \<noteq> pos"
  shows "min_of_three pos (heap_swap m pos q) = Inr pos"
proof -
  obtain k where k: "smaller_of (2 * pos + 1) pos q = Inr k" "smaller_of (2 * pos + 2) k q = Inr m"
    using assms(1) by (cases "smaller_of (2 * pos + 1) pos q") (simp_all add: min_of_three_def)
  have "smaller_of (2 * pos + 1) pos (heap_swap m pos q) = Inr pos" "smaller_of (2 * pos + 2) pos (heap_swap m pos q) = Inr pos"
    using smaller_of_D [OF k(1)] smaller_of_D [OF k(2)] assms(2) by (auto intro!: smaller_of_I simp: nth_list_update)
  then show ?thesis by (simp add: min_of_three_def)
qed

function heap_hold :: "nat \<Rightarrow> ('c, 'd) timer_queue \<Rightarrow> ('c, 'd) timer_queue result" where
  "heap_hold pos q =
     (case min_of_three pos q of
        Inl e \<Rightarrow> Inl e
      | Inr min_pos \<Rightarrow> if min_pos \<noteq> pos then heap_hold pos (heap_swap min_pos pos q) else Inr q)"
  by pat_completeness auto
termination
  by (relation "measure (\<lambda>(pos, q). if min_of_three pos q = Inr pos then 0 else 1)") (auto simp: min_of_three_swap)

declare heap_hold.simps [simp del]

definition heap_del :: "nat \<Rightarrow> ('c, 'd) timer_queue \<Rightarrow> ('c, 'd) timer_queue result" where
  "heap_del pos q =
     res_bind (event_at q pos) (\<lambda>to_del. res_bind (event_at q (tq_time_count q - 1)) (\<lambda>tmp.
       heap_hold pos (q\<lparr>tq_event_lst := butlast ((tq_event_lst q)[pos := tmp]),
         tq_position := ((tq_position q)(te_timer_id tmp \<mapsto> pos))(te_timer_id to_del := None),
         tq_time_count := tq_time_count q - 1\<rparr>)))"

definition heap_pop :: "('c, 'd) timer_queue \<Rightarrow> ('c, 'd) timer_queue result" where
  "heap_pop q =
     (if tq_time_count q = 0 then Inr q
      else
        res_bind (event_at q 0) (\<lambda>top.
        let position = (tq_position q)(te_timer_id top := None) in
        if tq_time_count q > 1 then
          res_bind (event_at q (tq_time_count q - 1)) (\<lambda>tmp.
            heap_hold 0 (q\<lparr>tq_event_lst := butlast ((tq_event_lst q)[0 := tmp]), tq_position := position(te_timer_id tmp \<mapsto> 0),
              tq_time_count := tq_time_count q - 1\<rparr>))
        else Inr (q\<lparr>tq_event_lst := [], tq_position := position, tq_time_count := 0\<rparr>)))"

definition adopt_pioneer :: "('c, 'd) timer_queue \<Rightarrow> ('c, 'd) timer_queue result" where
  "adopt_pioneer q =
     res_bind (event_at q 0) (\<lambda>top.
       if te_timestamp top < tq_pioneer q then Inr (reset_timo (q\<lparr>tq_pioneer := te_timestamp top\<rparr>)) else Inr q)"

definition add_timer :: "('c, 'd) timer_event \<Rightarrow> ('c, 'd) timer_queue \<Rightarrow> (nat \<times> ('c, 'd) timer_queue) result" where
  "add_timer te q =
     (let te = te\<lparr>te_timer_id := tq_next_time_id q\<rparr> in
      res_bind (heap_add te (q\<lparr>tq_next_time_id := tq_next_time_id q + 1\<rparr>)) (\<lambda>q.
      res_bind (adopt_pioneer q) (\<lambda>q. Inr (te_timer_id te, q))))"

definition del_timer :: "nat \<Rightarrow> ('c, 'd) timer_queue \<Rightarrow> ('c, 'd) timer_queue result" where
  "del_timer timer_id q =
     (case tq_position q timer_id of
        None \<Rightarrow> Inr q
      | Some pos \<Rightarrow>
          res_bind (heap_del pos q) (\<lambda>q.
            if tq_time_count q = 0 then Inr (reset_timo (q\<lparr>tq_pioneer := - 1\<rparr>)) else adopt_pioneer q))"

lemma heap_hold_count: "heap_hold pos q = Inr q' \<Longrightarrow> tq_time_count q' = tq_time_count q"
proof (induction pos q rule: heap_hold.induct)
  case (1 pos q)
  from 1(2) show ?case unfolding heap_hold.simps [of pos q] using 1(1) by (auto split: sum.splits if_splits)
qed

lemma heap_pop_count: "heap_pop q = Inr q' \<Longrightarrow> tq_time_count q \<noteq> 0 \<Longrightarrow> tq_time_count q' < tq_time_count q"
proof -
  assume a: "heap_pop q = Inr q'" "tq_time_count q \<noteq> 0"
  obtain top where t: "event_at q 0 = Inr top" using a by (cases "event_at q 0") (simp_all add: heap_pop_def)
  show ?thesis
  proof (cases "tq_time_count q > 1")
    case True
    then obtain tmp where "event_at q (tq_time_count q - 1) = Inr tmp"
      using a t by (cases "event_at q (tq_time_count q - 1)") (simp_all add: heap_pop_def Let_def)
    then show ?thesis using a t True by (auto simp: heap_pop_def Let_def dest!: heap_hold_count)
  next
    case False
    then show ?thesis using a t by (auto simp: heap_pop_def Let_def)
  qed
qed

text \<open>The events that recur are collected in \<open>_reuse_lst\<close>, which is then dropped.\<close>

function get_timo :: "('c, 'd) timer_queue \<Rightarrow> (('c, 'd) timer_event list \<times> ('c, 'd) timer_queue) result" where
  "get_timo q =
     (if tq_time_count q = 0 then Inr ([], q)
      else
        (case event_at q 0 of
           Inl e \<Rightarrow> Inl e
         | Inr te \<Rightarrow>
             if tq_pioneer q = te_timestamp te then
               (case heap_pop q of
                  Inl e \<Rightarrow> Inl e
                | Inr q \<Rightarrow> (case get_timo q of Inl e \<Rightarrow> Inl e | Inr (fired, q) \<Rightarrow> Inr (te # fired, q)))
             else Inr ([], q)))"
  by pat_completeness auto
termination
  by (relation "measure tq_time_count") (auto dest: heap_pop_count)

declare get_timo.simps [simp del]

end
