(* ===== verification/Timer_Properties.thy ===== *)
theory Timer_Properties
  imports Timer_Queue
begin

text \<open>
  The timer queue keeps its map of places exact, whatever is added, deleted and fired, and implements a map from ids to events. Its
  heap order is kept by additions, and the descriptor is then armed for the earliest timer. After the first timer has fired it is
  never armed again.
\<close>

section \<open>The map of places\<close>

abbreviation ids :: "('c, 'd) timer_queue \<Rightarrow> nat list" where
  "ids q \<equiv> map te_timer_id (tq_event_lst q)"

definition index_ok :: "('c, 'd) timer_queue \<Rightarrow> bool" where
  "index_ok q \<longleftrightarrow> (\<forall>k i. tq_position q k = Some i \<longleftrightarrow> i < length (tq_event_lst q) \<and> te_timer_id (tq_event_lst q ! i) = k)"

definition timer_ok :: "('c, 'd) timer_queue \<Rightarrow> bool" where
  "timer_ok q \<longleftrightarrow> index_ok q \<and> tq_time_count q = length (tq_event_lst q) \<and>
     (\<forall>e \<in> set (tq_event_lst q). te_timer_id e < tq_next_time_id q \<and> tq_pioneer q \<le> te_timestamp e)"

text \<open>What a timer queue stands for.\<close>

definition pending :: "('c, 'd) timer_queue \<Rightarrow> nat \<rightharpoonup> ('c, 'd) timer_event" where
  "pending q = map_of (map (\<lambda>e. (te_timer_id e, e)) (tq_event_lst q))"

lemma index_ok_nth: "index_ok q \<Longrightarrow> i < length (tq_event_lst q) \<Longrightarrow> tq_position q (te_timer_id (tq_event_lst q ! i)) = Some i"
  by (simp add: index_ok_def)

lemma index_ok_inj:
  "index_ok q \<Longrightarrow> i < length (tq_event_lst q) \<Longrightarrow> j < length (tq_event_lst q) \<Longrightarrow>
    te_timer_id (tq_event_lst q ! i) = te_timer_id (tq_event_lst q ! j) \<longleftrightarrow> i = j"
  by (metis index_ok_nth option.inject)

lemma index_ok_distinct: "index_ok q \<Longrightarrow> distinct (ids q)"
  by (simp add: distinct_conv_nth index_ok_inj)

lemma pending_Some: "index_ok q \<Longrightarrow> pending q k = Some e \<longleftrightarrow> e \<in> set (tq_event_lst q) \<and> te_timer_id e = k"
  using index_ok_distinct [of q] by (auto simp: pending_def map_of_eq_Some_iff comp_def)

lemma pending_eqI:
  "index_ok q \<Longrightarrow> (\<And>k e. m k = Some e \<longleftrightarrow> e \<in> set (tq_event_lst q) \<and> te_timer_id e = k) \<Longrightarrow> pending q = m"
proof
  fix k
  assume a: "index_ok q" "\<And>k e. m k = Some e \<longleftrightarrow> e \<in> set (tq_event_lst q) \<and> te_timer_id e = k"
  then have "\<And>e. pending q k = Some e \<longleftrightarrow> m k = Some e" by (simp add: pending_Some)
  then show "pending q k = m k" by (metis not_None_eq)
qed

text \<open>Only the order of the events has changed.\<close>

definition reordered :: "('c, 'd) timer_queue \<Rightarrow> ('c, 'd) timer_queue \<Rightarrow> bool" where
  "reordered q q' \<longleftrightarrow> index_ok q' \<and> mset (tq_event_lst q') = mset (tq_event_lst q) \<and> tq_time_count q' = tq_time_count q \<and>
     tq_next_time_id q' = tq_next_time_id q \<and> tq_pioneer q' = tq_pioneer q \<and> tq_armed q' = tq_armed q"

lemma reordered_refl: "index_ok q \<Longrightarrow> reordered q q"
  by (simp add: reordered_def)

lemma reordered_trans: "reordered q r \<Longrightarrow> reordered r s \<Longrightarrow> reordered q s"
  by (simp add: reordered_def)

lemma reorderedD:
  assumes "reordered q q'"
  shows "index_ok q'" "set (tq_event_lst q') = set (tq_event_lst q)" "length (tq_event_lst q') = length (tq_event_lst q)"
    "mset (tq_event_lst q') = mset (tq_event_lst q)" "tq_time_count q' = tq_time_count q" "tq_next_time_id q' = tq_next_time_id q"
    "tq_pioneer q' = tq_pioneer q" "tq_armed q' = tq_armed q"
  using assms mset_eq_setD mset_eq_length by (auto simp: reordered_def)

lemma swap_reordered:
  assumes "index_ok q" "i < length (tq_event_lst q)" "j < length (tq_event_lst q)"
  shows "reordered q (heap_swap i j q)"
proof -
  let ?l = "tq_event_lst q"
  have p: "tq_position (heap_swap i j q) k = Some n \<longleftrightarrow> n < length ?l \<and> te_timer_id (?l[i := ?l ! j, j := ?l ! i] ! n) = k" for k n
    using assms index_ok_inj [OF assms(1)]
    by (auto simp: heap_swap_def Let_def nth_list_update index_ok_def)
  then show ?thesis using assms by (auto simp: reordered_def index_ok_def mset_swap)
qed

lemma event_at_in: "i < length (tq_event_lst q) \<Longrightarrow> event_at q i = Inr (tq_event_lst q ! i)"
  by (simp add: event_at_def)

lemma heap_up_reordered:
  "index_ok q \<Longrightarrow> c < length (tq_event_lst q) \<Longrightarrow> \<exists>q'. heap_up c q = Inr q' \<and> reordered q q'"
proof (induction c q rule: heap_up.induct)
  case (1 c q)
  let ?p = "(c - 1) div 2" and ?l = "tq_event_lst q"
  have p: "?p < length ?l" using 1(3) by auto
  show ?case
  proof (cases "te_timestamp (?l ! c) < te_timestamp (?l ! ?p)")
    case True
    have r: "reordered q (heap_swap c ?p q)" using 1(2,3) p by (rule swap_reordered)
    have "\<exists>q'. heap_up ?p (heap_swap c ?p q) = Inr q' \<and> reordered (heap_swap c ?p q) q'"
      using 1(1) [OF refl event_at_in event_at_in True] 1(3) p reorderedD(1,3) [OF r] by simp
    then show ?thesis using True 1(3) p reordered_trans [OF r] by (subst heap_up.simps) (auto simp: event_at_in Let_def)
  next
    case False
    then show ?thesis using 1(2,3) p reordered_refl by (subst heap_up.simps) (auto simp: event_at_in Let_def)
  qed
qed

lemma smaller_of_ok:
  assumes "tq_time_count q = length (tq_event_lst q)" "m < length (tq_event_lst q)"
  shows "\<exists>k. smaller_of c m q = Inr k \<and> k < length (tq_event_lst q)"
  using assms by (simp add: smaller_of_def event_at_in)

lemma min_of_three_ok:
  assumes "tq_time_count q = length (tq_event_lst q)"
  shows "\<exists>m. min_of_three pos q = Inr m \<and> (m \<noteq> pos \<longrightarrow> m < length (tq_event_lst q) \<and> pos < length (tq_event_lst q))"
proof (cases "pos < length (tq_event_lst q)")
  case True
  then obtain k where "smaller_of (2 * pos + 1) pos q = Inr k" "k < length (tq_event_lst q)" using smaller_of_ok [OF assms] by blast
  then show ?thesis using smaller_of_ok [OF assms, of k "2 * pos + 2"] True by (auto simp: min_of_three_def)
qed (simp add: min_of_three_def smaller_of_def assms)

lemma heap_hold_reordered:
  "index_ok q \<Longrightarrow> tq_time_count q = length (tq_event_lst q) \<Longrightarrow> \<exists>q'. heap_hold pos q = Inr q' \<and> reordered q q'"
proof (induction pos q rule: heap_hold.induct)
  case (1 pos q)
  obtain m where m: "min_of_three pos q = Inr m" "m \<noteq> pos \<Longrightarrow> m < length (tq_event_lst q) \<and> pos < length (tq_event_lst q)"
    using min_of_three_ok [OF 1(3), of pos] by blast
  show ?case
  proof (cases "m = pos")
    case True
    then show ?thesis using 1(2) m reordered_refl by (subst heap_hold.simps) auto
  next
    case False
    have r: "reordered q (heap_swap m pos q)" using m(2) [OF False] 1(2) by (intro swap_reordered) simp_all
    then obtain q' where "heap_hold pos (heap_swap m pos q) = Inr q'" "reordered (heap_swap m pos q) q'"
      using 1(1) [OF m(1) False reorderedD(1) [OF r]] 1(3) reorderedD [OF r] by auto
    then show ?thesis using False m(1) reordered_trans [OF r] by (subst heap_hold.simps) auto
  qed
qed

section \<open>Removing a place\<close>

text \<open>The last event moves to the place that becomes free.\<close>

lemma last_update [simp]: "xs \<noteq> [] \<Longrightarrow> i < length xs \<Longrightarrow> last (xs[i := last xs]) = last xs"
  by (cases "i = length xs - 1") (simp_all add: last_conv_nth nth_list_update)

lemma mset_move_last: "i < length xs \<Longrightarrow> mset (butlast (xs[i := last xs])) = mset xs - {#xs ! i#}"
proof -
  assume i: "i < length xs"
  then have ne: "xs \<noteq> []" by auto
  have "mset (xs[i := last xs]) = mset (butlast (xs[i := last xs]) @ [last (xs[i := last xs])])" using ne by (subst append_butlast_last_id) auto
  then have "add_mset (last xs) (mset (butlast (xs[i := last xs]))) = mset (xs[i := last xs])" using ne i by simp
  also have "\<dots> = add_mset (last xs) (mset xs - {#xs ! i#})" using i by (simp add: mset_update)
  finally show ?thesis by simp
qed

definition without :: "('c, 'd) timer_queue \<Rightarrow> nat \<Rightarrow> ('c, 'd) timer_queue \<Rightarrow> bool" where
  "without q i q' \<longleftrightarrow> index_ok q' \<and> mset (tq_event_lst q') = mset (tq_event_lst q) - {#tq_event_lst q ! i#} \<and>
     tq_time_count q' = length (tq_event_lst q') \<and> tq_next_time_id q' = tq_next_time_id q \<and> tq_pioneer q' = tq_pioneer q \<and> tq_armed q' = tq_armed q"

lemma index_ok_move_last:
  assumes "index_ok q" "i < length (tq_event_lst q)" "tq_event_lst q' = butlast ((tq_event_lst q)[i := last (tq_event_lst q)])"
    and "tq_position q' = (tq_position q)(te_timer_id (last (tq_event_lst q)) \<mapsto> i, te_timer_id (tq_event_lst q ! i) := None)"
  shows "index_ok q'"
proof -
  let ?l = "tq_event_lst q" and ?n = "length (tq_event_lst q) - 1"
  have ne: "?l \<noteq> []" using assms(2) by auto
  have nth: "tq_event_lst q' ! k = (if k = i then ?l ! ?n else ?l ! k)" if "k < ?n" for k
    using that ne by (simp add: assms(3) nth_butlast nth_list_update last_conv_nth)
  have inj: "te_timer_id (?l ! a) = te_timer_id (?l ! b) \<longleftrightarrow> a = b" if "a < length ?l" "b < length ?l" for a b
    using index_ok_inj [OF assms(1) that] .
  show ?thesis unfolding index_ok_def
  proof (intro allI)
    fix k j
    show "tq_position q' k = Some j \<longleftrightarrow> j < length (tq_event_lst q') \<and> te_timer_id (tq_event_lst q' ! j) = k"
    proof (cases "j < ?n")
      case True
      then show ?thesis using nth [OF True] inj assms ne index_ok_nth [OF assms(1)]
        by (auto simp: last_conv_nth index_ok_def)
    next
      case False
      then show ?thesis using assms ne inj by (auto simp: last_conv_nth index_ok_def)
    qed
  qed
qed

lemma heap_del_without:
  assumes "timer_ok q" "i < length (tq_event_lst q)"
  shows "\<exists>q'. heap_del i q = Inr q' \<and> without q i q'"
proof -
  let ?l = "tq_event_lst q"
  let ?r = "q\<lparr>tq_event_lst := butlast (?l[i := last ?l]),
         tq_position := ((tq_position q)(te_timer_id (last ?l) \<mapsto> i))(te_timer_id (?l ! i) := None), tq_time_count := tq_time_count q - 1\<rparr>"
  have ne: "?l \<noteq> []" using assms(2) by auto
  have ok: "index_ok q" "tq_time_count q = length ?l" using assms(1) by (simp_all add: timer_ok_def)
  have "index_ok ?r" using ok(1) assms(2) by (rule index_ok_move_last) simp_all
  moreover have "tq_time_count ?r = length (tq_event_lst ?r)" using ok(2) by simp
  ultimately obtain q' where q': "heap_hold i ?r = Inr q'" "reordered ?r q'" using heap_hold_reordered by blast
  have "heap_del i q = heap_hold i ?r" using assms(2) ne ok(2) by (simp add: heap_del_def event_at_in last_conv_nth)
  moreover have "without q i q'" using reorderedD [OF q'(2)] mset_move_last [OF assms(2)] ok(2) by (simp add: without_def)
  ultimately show ?thesis using q'(1) by simp
qed

lemma heap_pop_without:
  assumes "timer_ok q" "tq_event_lst q \<noteq> []"
  shows "\<exists>q'. heap_pop q = Inr q' \<and> without q 0 q'"
proof -
  let ?l = "tq_event_lst q"
  have ok: "index_ok q" "tq_time_count q = length ?l" using assms(1) by (simp_all add: timer_ok_def)
  have l0: "0 < length ?l" using assms(2) by simp
  show ?thesis
  proof (cases "1 < length ?l")
    case True
    let ?r = "q\<lparr>tq_event_lst := butlast (?l[0 := last ?l]),
         tq_position := ((tq_position q)(te_timer_id (?l ! 0) := None))(te_timer_id (last ?l) \<mapsto> 0), tq_time_count := tq_time_count q - 1\<rparr>"
    have d: "te_timer_id (last ?l) \<noteq> te_timer_id (?l ! 0)" using True index_ok_inj [OF ok(1), of "length ?l - 1" 0] using assms(2) by (simp add: last_conv_nth)
    have "index_ok ?r" using ok(1) l0 by (rule index_ok_move_last) (simp_all add: fun_upd_twist [OF d [symmetric]])
    moreover have "tq_time_count ?r = length (tq_event_lst ?r)" using ok(2) by simp
    ultimately obtain q' where q': "heap_hold 0 ?r = Inr q'" "reordered ?r q'" using heap_hold_reordered by blast
    have "heap_pop q = heap_hold 0 ?r" using True assms(2) ok(2) by (simp add: heap_pop_def event_at_in last_conv_nth Let_def)
    moreover have "without q 0 q'" using reorderedD [OF q'(2)] mset_move_last [OF l0] ok(2) by (simp add: without_def)
    ultimately show ?thesis using q'(1) by simp
  next
    case False
    then obtain e where e: "?l = [e]" using assms(2) by (cases ?l; cases "tl ?l") simp_all
    let ?r = "q\<lparr>tq_event_lst := [], tq_position := (tq_position q)(te_timer_id e := None), tq_time_count := 0\<rparr>"
    have "tq_position q k = None" if "k \<noteq> te_timer_id e" for k
      using ok(1) e that by (cases "tq_position q k") (auto simp: index_ok_def)
    then have "index_ok ?r" by (auto simp: index_ok_def)
    then have "without q 0 ?r" using e by (simp add: without_def)
    moreover have "heap_pop q = Inr ?r" using e ok(2) by (simp add: heap_pop_def event_at_in)
    ultimately show ?thesis by blast
  qed
qed

section \<open>Adding\<close>

text \<open>
  The new event is the root, or some other event is not later: a bound of the others bounds it as well.
\<close>

lemma heap_up_root:
  "heap_up c q = Inr q' \<Longrightarrow> c < length (tq_event_lst q) \<Longrightarrow>
   (\<And>i. i < length (tq_event_lst q) \<Longrightarrow> i \<noteq> c \<Longrightarrow> b \<le> te_timestamp (tq_event_lst q ! i)) \<Longrightarrow>
   tq_event_lst q' ! 0 = tq_event_lst q ! c \<or>
     c \<noteq> 0 \<and> tq_event_lst q' ! 0 = tq_event_lst q ! 0 \<and> b \<le> te_timestamp (tq_event_lst q ! c)"
proof (induction c q rule: heap_up.induct)
  case (1 c q)
  let ?p = "(c - 1) div 2" and ?l = "tq_event_lst q"
  have p: "?p < length ?l" using 1(3) by auto
  note b = 1(4)
  show ?case
  proof (cases "te_timestamp (?l ! c) < te_timestamp (?l ! ?p)")
    case True
    let ?q = "heap_swap c ?p q"
    have c: "c \<noteq> 0" "?p \<noteq> c" using True by (cases c; auto)+
    have up: "heap_up ?p ?q = Inr q'" using 1(2,3) p True by (simp add: heap_up.simps [of c q] event_at_in Let_def)
    have at: "tq_event_lst ?q ! ?p = ?l ! c" using p by simp
    have "b \<le> te_timestamp (tq_event_lst ?q ! i)" if "i < length (tq_event_lst ?q)" "i \<noteq> ?p" for i
      using that b [of i] b [of ?p] p c by (cases "i = c") (simp_all add: nth_list_update)
    then have "tq_event_lst q' ! 0 = ?l ! c \<or> ?p \<noteq> 0 \<and> tq_event_lst q' ! 0 = tq_event_lst ?q ! 0 \<and> b \<le> te_timestamp (?l ! c)"
      using 1(1) [OF refl event_at_in event_at_in True up] 1(3) p at by simp
    then show ?thesis using c by auto
  next
    case False
    then have "q' = q" using 1(2,3) p by (simp add: heap_up.simps [of c q] event_at_in Let_def)
    moreover have "b \<le> te_timestamp (?l ! c)" if "c \<noteq> 0"
    proof (rule order_trans)
      show "b \<le> te_timestamp (?l ! ?p)" using that p by (intro b) auto
    qed (use False in simp)
    ultimately show ?thesis by (cases "c = 0") auto
  qed
qed

definition armed_for :: "64 word \<Rightarrow> 64 word \<times> 64 word" where
  "armed_for p = (if p \<noteq> - 1 then (p div 1000, (p mod 1000) * 1000000) else (0, 0))"

lemma add_timer_spec:
  assumes ok: "timer_ok q"
  shows "\<exists>q'. add_timer te q = Inr (tq_next_time_id q, q') \<and> timer_ok q' \<and> tq_next_time_id q' = tq_next_time_id q + 1 \<and>
    pending q' = (pending q)(tq_next_time_id q \<mapsto> te\<lparr>te_timer_id := tq_next_time_id q\<rparr>) \<and>
    tq_pioneer q' = min (te_timestamp te) (tq_pioneer q) \<and>
    tq_armed q' = (if te_timestamp te < tq_pioneer q then armed_for (te_timestamp te) else tq_armed q) \<and>
    tq_event_lst q' \<noteq> [] \<and> set (tq_event_lst q') = insert (te\<lparr>te_timer_id := tq_next_time_id q\<rparr>) (set (tq_event_lst q)) \<and>
    (tq_event_lst q' ! 0 = te\<lparr>te_timer_id := tq_next_time_id q\<rparr> \<or> tq_event_lst q \<noteq> [] \<and> tq_event_lst q' ! 0 = tq_event_lst q ! 0) \<and>
    (\<exists>r. heap_up (length (tq_event_lst q)) r = Inr (q'\<lparr>tq_pioneer := tq_pioneer q, tq_armed := tq_armed q\<rparr>) \<and>
      tq_event_lst r = tq_event_lst q @ [te\<lparr>te_timer_id := tq_next_time_id q\<rparr>])"
proof -
  let ?n = "tq_next_time_id q" and ?l = "tq_event_lst q"
  define te' where "te' = te\<lparr>te_timer_id := ?n\<rparr>"
  define r where "r = q\<lparr>tq_next_time_id := ?n + 1, tq_event_lst := ?l @ [te'], tq_position := (tq_position q)(?n \<mapsto> length ?l),
    tq_time_count := length ?l + 1\<rparr>"
  have q: "index_ok q" "tq_time_count q = length ?l" "\<And>e. e \<in> set ?l \<Longrightarrow> te_timer_id e < ?n" "\<And>e. e \<in> set ?l \<Longrightarrow> tq_pioneer q \<le> te_timestamp e"
    using ok by (simp_all add: timer_ok_def)
  have te': "te_timer_id te' = ?n" "te_timestamp te' = te_timestamp te" by (simp_all add: te'_def)
  have fresh: "tq_position q ?n = None"
  proof (cases "tq_position q ?n")
    case (Some i)
    then have "i < length ?l" "te_timer_id (?l ! i) = ?n" using q(1) by (simp_all add: index_ok_def)
    then show ?thesis using q(3) [of "?l ! i"] by simp
  qed
  have "te_timer_id (?l ! i) \<noteq> ?n" if "i < length ?l" for i using q(3) [of "?l ! i"] that by simp
  then have "index_ok r" using q(1) fresh by (auto simp: index_ok_def r_def te' nth_append less_Suc_eq)
  then obtain s where s: "heap_up (length ?l) r = Inr s" "reordered r s" using heap_up_reordered [of r "length ?l"] by (auto simp: r_def)
  note s' = reorderedD [OF s(2)]
  have set: "set (tq_event_lst s) = insert te' (set ?l)" "tq_event_lst s \<noteq> []" using s'(2,3) by (auto simp: r_def)
  have root: "tq_event_lst s ! 0 = te' \<or> ?l \<noteq> [] \<and> tq_event_lst s ! 0 = ?l ! 0 \<and> tq_pioneer q \<le> te_timestamp te"
    using heap_up_root [OF s(1), of "tq_pioneer q"] q(4) by (auto simp: r_def nth_append te'(2))
  define q' where "q' = (if te_timestamp te < tq_pioneer q then reset_timo (s\<lparr>tq_pioneer := te_timestamp te\<rparr>) else s)"
  have add: "add_timer te q = Inr (?n, q')"
  proof -
    have "heap_add te' (q\<lparr>tq_next_time_id := ?n + 1\<rparr>) = Inr s" using s(1) by (simp add: heap_add_def q(2) r_def te' Let_def)
    moreover have "adopt_pioneer s = Inr q'"
    proof (cases "tq_event_lst s ! 0 = te'")
      case True
      then show ?thesis using set(2) s'(7) by (simp add: adopt_pioneer_def event_at_in q'_def te' r_def)
    next
      case False
      then have "?l \<noteq> []" "tq_event_lst s ! 0 = ?l ! 0" "tq_pioneer q \<le> te_timestamp te" using root by simp_all
      then show ?thesis using set(2) s'(7) q(4) [of "?l ! 0"] by (simp add: adopt_pioneer_def event_at_in q'_def r_def not_less)
    qed
    ultimately show ?thesis by (simp add: add_timer_def te'_def Let_def)
  qed
  have q': "tq_event_lst q' = tq_event_lst s" "tq_position q' = tq_position s" "tq_time_count q' = tq_time_count s" "tq_next_time_id q' = ?n + 1"
    "tq_pioneer q' = min (te_timestamp te) (tq_pioneer q)"
    "tq_armed q' = (if te_timestamp te < tq_pioneer q then armed_for (te_timestamp te) else tq_armed q)"
    using s'(6,7,8) by (auto simp: q'_def reset_timo_def armed_for_def r_def min_def)
  have ix: "index_ok q'" using s'(1) by (simp add: index_ok_def q')
  have "timer_ok q'" using ix s'(3,5) q(3,4) by (auto simp: timer_ok_def q' set te' r_def less_Suc_eq intro: order_trans min.cobounded2)
  moreover have "pending q' = (pending q)(?n \<mapsto> te')"
  proof (rule pending_eqI [OF ix])
    fix k e
    have "te_timer_id e \<noteq> ?n" if "e \<in> set ?l" using q(3) [OF that] by simp
    then show "((pending q)(?n \<mapsto> te')) k = Some e \<longleftrightarrow> e \<in> set (tq_event_lst q') \<and> te_timer_id e = k"
      using q(1) te'(1) by (cases "k = ?n") (auto simp: pending_Some q'(1) set(1))
  qed
  moreover have "q'\<lparr>tq_pioneer := tq_pioneer q, tq_armed := tq_armed q\<rparr> = s" using s'(7,8) by (simp add: q'_def reset_timo_def r_def)
  then have "\<exists>r. heap_up (length ?l) r = Inr (q'\<lparr>tq_pioneer := tq_pioneer q, tq_armed := tq_armed q\<rparr>) \<and> tq_event_lst r = ?l @ [te']"
    using s(1) by (intro exI [of _ r]) (simp add: r_def)
  moreover have "tq_event_lst q' \<noteq> [] \<and> set (tq_event_lst q') = insert te' (set ?l) \<and> (tq_event_lst q' ! 0 = te' \<or> ?l \<noteq> [] \<and> tq_event_lst q' ! 0 = ?l ! 0)"
    using root set q'(1) by auto
  ultimately show ?thesis using add q'(4,5,6) unfolding te'_def by blast
qed

section \<open>Deleting and firing\<close>

lemma without_ok:
  assumes "timer_ok q" "i < length (tq_event_lst q)" "without q i q'"
  shows "timer_ok q'" "set (tq_event_lst q') = set (tq_event_lst q) - {tq_event_lst q ! i}"
    "pending q' = (pending q)(te_timer_id (tq_event_lst q ! i) := None)"
    "mset (tq_event_lst q) = add_mset (tq_event_lst q ! i) (mset (tq_event_lst q'))"
proof -
  let ?l = "tq_event_lst q" and ?e = "tq_event_lst q ! i"
  have q: "index_ok q" using assms(1) by (simp add: timer_ok_def)
  have q': "index_ok q'" "mset (tq_event_lst q') = mset ?l - {#?e#}" using assms(3) by (simp_all add: without_def)
  have "distinct (map te_timer_id ?l)" using index_ok_distinct [OF q] .
  then have d: "distinct ?l" by (simp add: distinct_map)
  show m: "mset ?l = add_mset ?e (mset (tq_event_lst q'))" using q'(2) assms(2) by simp
  have "count (mset ?l) ?e = 1" using d assms(2) by (simp add: distinct_count_atmost_1)
  then have "?e \<notin> set (tq_event_lst q')" using m by (metis count_add_mset count_eq_zero_iff set_mset_mset add_cancel_right_left Suc_eq_plus1)
  moreover have "set ?l = insert ?e (set (tq_event_lst q'))" using arg_cong [OF m, of set_mset] by simp
  ultimately show s: "set (tq_event_lst q') = set ?l - {?e}" by auto
  show "timer_ok q'" using assms(1,3) s by (simp add: timer_ok_def without_def)
  have "x = ?e" if "x \<in> set ?l" "te_timer_id x = te_timer_id ?e" for x
    using that assms(2) index_ok_inj [OF q] by (metis in_set_conv_nth)
  then show "pending q' = (pending q)(te_timer_id ?e := None)"
    by (intro pending_eqI [OF q'(1)]) (auto simp: pending_Some [OF q] s)
qed

lemma del_timer_spec:
  assumes ok: "timer_ok q"
  shows "\<exists>q'. del_timer k q = Inr q' \<and> timer_ok q' \<and> pending q' = (pending q)(k := None) \<and>
    tq_next_time_id q' = tq_next_time_id q \<and>
    (if tq_event_lst q' = [] \<and> tq_event_lst q \<noteq> [] then tq_pioneer q' = - 1 else tq_pioneer q' = tq_pioneer q \<and> tq_armed q' = tq_armed q)"
proof (cases "tq_position q k")
  case None
  have "pending q k = None"
  proof (cases "pending q k")
    case (Some e)
    then obtain i where "i < length (tq_event_lst q)" "te_timer_id (tq_event_lst q ! i) = k"
      using ok by (auto simp: timer_ok_def pending_Some in_set_conv_nth)
    then show ?thesis using None index_ok_nth [of q i] ok by (simp add: timer_ok_def)
  qed
  then have "pending q = (pending q)(k := None)" by (simp add: fun_upd_idem)
  then show ?thesis using None ok by (simp add: del_timer_def)
next
  case (Some i)
  have i: "i < length (tq_event_lst q)" "te_timer_id (tq_event_lst q ! i) = k" using Some ok by (simp_all add: timer_ok_def index_ok_def)
  obtain r where r: "heap_del i q = Inr r" "without q i r" using heap_del_without [OF ok i(1)] by blast
  note w = without_ok [OF ok i(1) r(2)]
  have c: "tq_time_count r = length (tq_event_lst r)" "tq_next_time_id r = tq_next_time_id q" "tq_pioneer r = tq_pioneer q" "tq_armed r = tq_armed q"
    using r(2) by (simp_all add: without_def)
  show ?thesis
  proof (cases "tq_event_lst r = []")
    case True
    let ?r = "reset_timo (r\<lparr>tq_pioneer := - 1\<rparr>)"
    have "timer_ok ?r" "pending ?r = pending r" "tq_event_lst ?r = []" using w(1) True by (simp_all add: timer_ok_def index_ok_def reset_timo_def pending_def)
    moreover have "tq_next_time_id ?r = tq_next_time_id q" "tq_pioneer ?r = - 1" using c by (simp_all add: reset_timo_def)
    moreover have "tq_event_lst q \<noteq> []" using i(1) by auto
    ultimately show ?thesis using Some r(1) w(3) c True i(2) by (simp add: del_timer_def)
  next
    case False
    then have "adopt_pioneer r = Inr r" using w(1) nth_mem [of 0 "tq_event_lst r"] by (simp add: adopt_pioneer_def event_at_in timer_ok_def leD)
    then show ?thesis using Some r(1) w c False i(2) by (simp add: del_timer_def)
  qed
qed

lemma get_timo_spec:
  "timer_ok q \<Longrightarrow> \<exists>fired q'. get_timo q = Inr (fired, q') \<and> timer_ok q' \<and> pending q' = pending q |` (- (te_timer_id ` set fired)) \<and>
    mset (tq_event_lst q) = mset fired + mset (tq_event_lst q') \<and>
    (\<forall>e \<in> set fired. te_timestamp e = tq_pioneer q) \<and> tq_next_time_id q' = tq_next_time_id q \<and> tq_pioneer q' = tq_pioneer q \<and>
    tq_armed q' = tq_armed q \<and> (tq_event_lst q' = [] \<or> te_timestamp (tq_event_lst q' ! 0) \<noteq> tq_pioneer q)"
proof (induction q rule: get_timo.induct)
  case (1 q)
  let ?l = "tq_event_lst q"
  have c: "tq_time_count q = length ?l" using 1(2) by (simp add: timer_ok_def)
  show ?case
  proof (cases "?l = [] \<or> te_timestamp (?l ! 0) \<noteq> tq_pioneer q")
    case True
    then have "get_timo q = Inr ([], q)" using c by (subst get_timo.simps) (auto simp: event_at_in)
    then show ?thesis using True 1(2) by (simp add: restrict_map_def)
  next
    case False
    then have l: "?l \<noteq> []" "tq_pioneer q = te_timestamp (?l ! 0)" by simp_all
    obtain r where r: "heap_pop q = Inr r" "without q 0 r" using heap_pop_without [OF 1(2) l(1)] by blast
    note w = without_ok [OF 1(2) _ r(2)]
    have e: "event_at q 0 = Inr (?l ! 0)" using l(1) by (simp add: event_at_in)
    obtain fired q' where f: "get_timo r = Inr (fired, q')" "timer_ok q'" "pending q' = pending r |` (- (te_timer_id ` set fired))"
      "mset (tq_event_lst r) = mset fired + mset (tq_event_lst q')" "\<forall>e \<in> set fired. te_timestamp e = tq_pioneer r"
      "tq_next_time_id q' = tq_next_time_id r" "tq_pioneer q' = tq_pioneer r" "tq_armed q' = tq_armed r"
      "tq_event_lst q' = [] \<or> te_timestamp (tq_event_lst q' ! 0) \<noteq> tq_pioneer r"
      using 1(1) [OF _ e l(2) r(1)] w(1) l(1) c by auto
    have "get_timo q = Inr (?l ! 0 # fired, q')" using l c e r(1) f(1) by (subst get_timo.simps) simp
    moreover have "pending q' = pending q |` (- (te_timer_id ` set (?l ! 0 # fired)))"
      unfolding f(3) using w(3) l(1) by (auto simp: restrict_map_def fun_eq_iff)
    moreover have "mset ?l = mset (?l ! 0 # fired) + mset (tq_event_lst q')" using w(4) l(1) f(4) by simp
    ultimately show ?thesis using f r(2) l(2) by (auto simp: without_def)
  qed
qed

section \<open>Heap order\<close>

abbreviation key :: "('c, 'd) timer_queue \<Rightarrow> nat \<Rightarrow> 64 word" where
  "key q i \<equiv> te_timestamp (tq_event_lst q ! i)"

definition heap_ordered :: "('c, 'd) timer_queue \<Rightarrow> bool" where
  "heap_ordered q \<longleftrightarrow> (\<forall>i < length (tq_event_lst q). key q ((i - 1) div 2) \<le> key q i)"

lemma heap_ordered_root: "heap_ordered q \<Longrightarrow> i < length (tq_event_lst q) \<Longrightarrow> key q 0 \<le> key q i"
proof (induction i rule: less_induct)
  case (less i)
  show ?case
  proof (cases "i = 0")
    case False
    then have "key q 0 \<le> key q ((i - 1) div 2)" using less by auto
    also have "\<dots> \<le> key q i" using less(2,3) by (simp add: heap_ordered_def)
    finally show ?thesis .
  qed simp
qed

text \<open>Ordered but for one event that may be earlier than its ancestors.\<close>

definition ordered_but :: "nat \<Rightarrow> ('c, 'd) timer_queue \<Rightarrow> bool" where
  "ordered_but c q \<longleftrightarrow> (\<forall>i < length (tq_event_lst q). i \<noteq> c \<longrightarrow> key q ((i - 1) div 2) \<le> key q i) \<and>
     (\<forall>i < length (tq_event_lst q). i \<noteq> 0 \<longrightarrow> (i - 1) div 2 = c \<longrightarrow> key q ((c - 1) div 2) \<le> key q i)"

lemma ordered_but_swap:
  assumes "ordered_but c q" "c < length (tq_event_lst q)" "key q c < key q ((c - 1) div 2)"
  shows "ordered_but ((c - 1) div 2) (heap_swap c ((c - 1) div 2) q)"
proof -
  let ?p = "(c - 1) div 2" and ?l = "tq_event_lst q" and ?q = "heap_swap c ((c - 1) div 2) q"
  have c: "c \<noteq> 0" "?p \<noteq> c" "?p < length ?l" using assms(2,3) by (cases c; auto)+
  have k: "key ?q i = (if i = ?p then key q c else if i = c then key q ?p else key q i)" if "i < length ?l" for i
    using that c assms(2) by (simp add: nth_list_update)
  have o1: "key q ((i - 1) div 2) \<le> key q i" if "i < length ?l" "i \<noteq> c" for i using assms(1) that by (simp add: ordered_but_def)
  have o2: "key q ?p \<le> key q i" if "i < length ?l" "i \<noteq> 0" "(i - 1) div 2 = c" for i using assms(1) that by (simp add: ordered_but_def)
  have par: "(i - 1) div 2 < length ?l" if "i < length ?l" for i using that by auto
  show ?thesis unfolding ordered_but_def
  proof (intro conjI allI impI)
    fix i
    assume i: "i < length (tq_event_lst ?q)" "i \<noteq> ?p"
    then have l: "i < length ?l" by simp
    have kp: "key ?q ?p = key q c" using k [OF c(3)] unfolding if_P [OF refl] .
    have kc: "key ?q c = key q ?p" using k [OF assms(2)] unfolding if_not_P [OF c(2) [symmetric]] if_P [OF refl] .
    show "key ?q ((i - 1) div 2) \<le> key ?q i"
    proof (cases "i = c")
      case True
      show ?thesis unfolding True kp kc using assms(3) by (rule less_imp_le)
    next
      case False
      consider "(i - 1) div 2 = c" | "(i - 1) div 2 = ?p" | "(i - 1) div 2 \<noteq> c" "(i - 1) div 2 \<noteq> ?p" by blast
      then show ?thesis
      proof cases
        case 1
        then have "i \<noteq> 0" using c(1) by auto
        then show ?thesis using 1 k [OF l] k [of c] o2 [OF l] False i(2) c assms(2) by simp
      next
        case 2
        have "key q c \<le> key q i" using assms(3) o1 [OF l False, unfolded 2] by (rule less_imp_le [OF less_le_trans])
        then show ?thesis unfolding 2 using k [OF l] k [OF c(3)] False i(2) by simp
      next
        case 3
        then show ?thesis using k [OF l] k [OF par [OF l]] o1 [OF l False] False i(2) by simp
      qed
    qed
  next
    fix i
    assume i: "i < length (tq_event_lst ?q)" "i \<noteq> 0" "(i - 1) div 2 = ?p"
    then have l: "i < length ?l" by simp
    have gp: "key q ((?p - 1) div 2) \<le> key q ?p" using o1 [of ?p] c by simp
    have ip: "i \<noteq> ?p" using i(2,3) by auto
    have "key ?q ((?p - 1) div 2) \<le> key q ?p" using k [OF par [OF c(3)]] gp assms(3) c by (auto split: if_splits)
    moreover have "key q ?p \<le> key ?q i" using k [OF l] o1 [OF l] ip i(3) by (cases "i = c") simp_all
    ultimately show "key ?q ((?p - 1) div 2) \<le> key ?q i" by (rule order_trans)
  qed
qed

lemma heap_up_ordered: "heap_up c q = Inr q' \<Longrightarrow> c < length (tq_event_lst q) \<Longrightarrow> ordered_but c q \<Longrightarrow> heap_ordered q'"
proof (induction c q rule: heap_up.induct)
  case (1 c q)
  let ?p = "(c - 1) div 2"
  have p: "?p < length (tq_event_lst q)" using 1(3) by auto
  show ?case
  proof (cases "key q c < key q ?p")
    case True
    have "heap_up ?p (heap_swap c ?p q) = Inr q'" using 1(2,3) p True by (simp add: heap_up.simps [of c q] event_at_in Let_def)
    then show ?thesis using 1(1) [OF refl event_at_in event_at_in True] 1(3) p ordered_but_swap [OF 1(4,3) True] by simp
  next
    case False
    then have "q' = q" using 1(2,3) p by (simp add: heap_up.simps [of c q] event_at_in Let_def)
    moreover have "key q ((i - 1) div 2) \<le> key q i" if "i < length (tq_event_lst q)" for i
      using that False 1(4) by (cases "i = c") (simp_all add: ordered_but_def)
    ultimately show ?thesis by (simp add: heap_ordered_def)
  qed
qed

section \<open>Results\<close>

lemma pending_fresh: "timer_ok q \<Longrightarrow> pending q (tq_next_time_id q) = None"
proof (cases "pending q (tq_next_time_id q)")
  case (Some e)
  assume ok: "timer_ok q"
  then have "e \<in> set (tq_event_lst q)" "te_timer_id e = tq_next_time_id q" using Some by (simp_all add: timer_ok_def pending_Some)
  then show ?thesis using ok by (auto simp: timer_ok_def)
qed

lemma new_timer_ok: "timer_ok new_timer_queue" "pending new_timer_queue = Map.empty"
  by (simp_all add: timer_ok_def index_ok_def new_timer_queue_def pending_def)

text \<open>
  C15. The timer queue implements a map from ids to events: adding enters an event under a fresh id, deleting takes the id
  out, and firing takes out the events it returns, all of which are due at the time the queue waits for. The map of places, the
  count and the vector stay in step, and no access is out of range.
\<close>

theorem timer_queue_refines:
  assumes "timer_ok q"
  shows "(\<exists>q'. add_timer te q = Inr (tq_next_time_id q, q') \<and> timer_ok q' \<and> pending q (tq_next_time_id q) = None \<and>
      pending q' = (pending q)(tq_next_time_id q \<mapsto> te\<lparr>te_timer_id := tq_next_time_id q\<rparr>)) \<and>
    (\<exists>q'. del_timer timer_id q = Inr q' \<and> timer_ok q' \<and> pending q' = (pending q)(timer_id := None)) \<and>
    (\<exists>fired q'. get_timo q = Inr (fired, q') \<and> timer_ok q' \<and> pending q' = pending q |` (- (te_timer_id ` set fired)) \<and>
      (\<forall>e \<in> set fired. pending q (te_timer_id e) = Some e \<and> te_timestamp e = tq_pioneer q))"
proof (intro conjI)
  have "pending q (tq_next_time_id q) = None"
    using assms by (rule pending_fresh)
  then show "\<exists>q'. add_timer te q = Inr (tq_next_time_id q, q') \<and> timer_ok q' \<and> pending q (tq_next_time_id q) = None \<and>
      pending q' = (pending q)(tq_next_time_id q \<mapsto> te\<lparr>te_timer_id := tq_next_time_id q\<rparr>)"
    using add_timer_spec [OF assms, of te] by blast
  show "\<exists>q'. del_timer timer_id q = Inr q' \<and> timer_ok q' \<and> pending q' = (pending q)(timer_id := None)"
    using del_timer_spec [OF assms] by blast
  obtain fired q' where g: "get_timo q = Inr (fired, q')" "timer_ok q'" "pending q' = pending q |` (- (te_timer_id ` set fired))"
    "mset (tq_event_lst q) = mset fired + mset (tq_event_lst q')" "\<forall>e \<in> set fired. te_timestamp e = tq_pioneer q"
    using get_timo_spec [OF assms] by blast
  have "set fired \<subseteq> set (tq_event_lst q)" using arg_cong [OF g(4), of set_mset] by simp
  then have "\<forall>e \<in> set fired. pending q (te_timer_id e) = Some e" using assms by (auto simp: timer_ok_def pending_Some)
  then show "\<exists>fired q'. get_timo q = Inr (fired, q') \<and> timer_ok q' \<and> pending q' = pending q |` (- (te_timer_id ` set fired)) \<and>
      (\<forall>e \<in> set fired. pending q (te_timer_id e) = Some e \<and> te_timestamp e = tq_pioneer q)"
    using g by blast
qed

text \<open>A queue with one timer, due at 5.\<close>

definition one_timer :: "(nat, nat) timer_queue" where
  "one_timer = \<lparr>tq_event_lst = [mk_timer_event 1 1 5 0], tq_position = [0 \<mapsto> 0], tq_time_count = 1, tq_next_time_id = 1, tq_pioneer = 5,
     tq_armed = (0, 5000000)\<rparr>"

lemma one_timer_ok: "timer_ok one_timer"
  by (auto simp: timer_ok_def index_ok_def one_timer_def mk_timer_event_def)

theorem timer_queue_refines_witness:
  "(\<exists>q'. add_timer (mk_timer_event 2 2 9 0) one_timer = Inr (1, q') \<and> timer_ok q' \<and>
      pending q' = (pending one_timer)(1 \<mapsto> (mk_timer_event 2 2 9 0)\<lparr>te_timer_id := 1\<rparr>)) \<and>
    (\<exists>q'. del_timer 0 one_timer = Inr q' \<and> timer_ok q' \<and> pending q' = (pending one_timer)(0 := None)) \<and>
    (\<exists>fired q'. get_timo one_timer = Inr (fired, q') \<and> pending q' = pending one_timer |` (- (te_timer_id ` set fired)))"
proof -
  have n: "tq_next_time_id one_timer = 1" by (simp add: one_timer_def)
  show ?thesis using timer_queue_refines [OF one_timer_ok, of "mk_timer_event 2 2 9 0" 0] unfolding n by blast
qed

fun add_timers :: "('c, 'd) timer_event list \<Rightarrow> ('c, 'd) timer_queue \<Rightarrow> ('c, 'd) timer_queue result" where
  "add_timers [] q = Inr q"
| "add_timers (te # tes) q = res_bind (add_timer te q) (\<lambda>(_, q). add_timers tes q)"

text \<open>The queue waits for its first event, and the descriptor is armed for it.\<close>

definition waits :: "('c, 'd) timer_queue \<Rightarrow> bool" where
  "waits q \<longleftrightarrow> timer_ok q \<and> heap_ordered q \<and> tq_armed q = armed_for (tq_pioneer q) \<and>
     (if tq_event_lst q = [] then tq_pioneer q = - 1 else tq_pioneer q = key q 0)"

lemma ordered_append: "heap_ordered q \<Longrightarrow> tq_event_lst r = tq_event_lst q @ [e] \<Longrightarrow> ordered_but (length (tq_event_lst q)) r"
proof -
  assume a: "heap_ordered q" "tq_event_lst r = tq_event_lst q @ [e]"
  let ?n = "length (tq_event_lst q)"
  have "(i - 1) div 2 \<noteq> ?n" if "i < Suc ?n" "i \<noteq> 0" for i using that by auto
  moreover have "key r ((i - 1) div 2) \<le> key r i" if "i < ?n" for i
  proof -
    have "(i - 1) div 2 < ?n" using that by auto
    then show ?thesis using a that by (simp add: heap_ordered_def nth_append)
  qed
  ultimately show ?thesis using a(2) by (simp add: ordered_but_def less_Suc_eq)
qed

lemma add_waits:
  assumes "waits q"
  shows "\<exists>q'. add_timer te q = Inr (tq_next_time_id q, q') \<and> waits q' \<and> tq_event_lst q' \<noteq> [] \<and> tq_pioneer q' = min (te_timestamp te) (tq_pioneer q)"
proof -
  have ok: "timer_ok q" using assms by (simp add: waits_def)
  obtain q' r where q': "add_timer te q = Inr (tq_next_time_id q, q')" "timer_ok q'" "tq_pioneer q' = min (te_timestamp te) (tq_pioneer q)"
    "tq_armed q' = (if te_timestamp te < tq_pioneer q then armed_for (te_timestamp te) else tq_armed q)" "tq_event_lst q' \<noteq> []"
    "set (tq_event_lst q') = insert (te\<lparr>te_timer_id := tq_next_time_id q\<rparr>) (set (tq_event_lst q))"
    "heap_up (length (tq_event_lst q)) r = Inr (q'\<lparr>tq_pioneer := tq_pioneer q, tq_armed := tq_armed q\<rparr>)"
    "tq_event_lst r = tq_event_lst q @ [te\<lparr>te_timer_id := tq_next_time_id q\<rparr>]"
    using add_timer_spec [OF ok] by blast
  have "heap_ordered (q'\<lparr>tq_pioneer := tq_pioneer q, tq_armed := tq_armed q\<rparr>)"
    using q'(7) assms ordered_append [OF _ q'(8)] by (intro heap_up_ordered [OF q'(7)]) (simp_all add: q'(8) waits_def)
  then have "heap_ordered q'" by (simp add: heap_ordered_def)
  moreover have "tq_pioneer q' = key q' 0"
  proof (rule antisym)
    show "tq_pioneer q' \<le> key q' 0" using q'(2,5) by (simp add: timer_ok_def)
    have min: "key q' 0 \<le> te_timestamp e" if "e \<in> set (tq_event_lst q')" for e
      using that heap_ordered_root [OF \<open>heap_ordered q'\<close>] by (metis in_set_conv_nth)
    have "key q' 0 \<le> te_timestamp te" using min [of "te\<lparr>te_timer_id := tq_next_time_id q\<rparr>"] q'(6) by simp
    moreover have "key q' 0 \<le> tq_pioneer q"
      using assms min [of "tq_event_lst q ! 0"] q'(6) by (cases "tq_event_lst q = []") (simp_all add: waits_def)
    ultimately show "key q' 0 \<le> tq_pioneer q'" using q'(3) by simp
  qed
  moreover have "tq_armed q' = armed_for (tq_pioneer q')" using q'(3,4) assms by (auto simp: waits_def min_def not_less)
  ultimately show ?thesis using q' by (auto simp: waits_def)
qed

text \<open>
  C27. However many timers are added to a new queue, in whatever order, the queue waits for the earliest of them, has it at
  its root, and has armed the descriptor for its time.
\<close>

theorem additions_arm_earliest:
  "\<exists>q. add_timers (te # tes) new_timer_queue = Inr q \<and>
     tq_pioneer q = Min (te_timestamp ` set (te # tes)) \<and> te_timestamp (tq_event_lst q ! 0) = tq_pioneer q \<and> tq_armed q = armed_for (tq_pioneer q)"
proof -
  have all: "\<exists>q'. add_timers tes q = Inr q' \<and> waits q' \<and> (tq_event_lst q \<noteq> [] \<or> tes \<noteq> [] \<longrightarrow> tq_event_lst q' \<noteq> []) \<and>
      tq_pioneer q' = Min (insert (tq_pioneer q) (te_timestamp ` set tes))" if "waits q" for tes and q :: "('a, 'b) timer_queue"
    using that
  proof (induction tes arbitrary: q)
    case (Cons t tes)
    obtain q1 where q1: "add_timer t q = Inr (tq_next_time_id q, q1)" "waits q1" "tq_event_lst q1 \<noteq> []" "tq_pioneer q1 = min (te_timestamp t) (tq_pioneer q)"
      using add_waits [OF Cons.prems] by blast
    obtain q2 where q2: "add_timers tes q1 = Inr q2" "waits q2" "tq_event_lst q2 \<noteq> []" "tq_pioneer q2 = Min (insert (tq_pioneer q1) (te_timestamp ` set tes))"
      using Cons.IH [OF q1(2)] q1(3) by blast
    have "Min (insert (min (te_timestamp t) (tq_pioneer q)) (te_timestamp ` set tes)) = Min (insert (tq_pioneer q) (te_timestamp ` set (t # tes)))"
      by (cases "tes = []") (simp_all add: min.commute min.left_commute)
    then show ?case using q1 q2 by simp
  qed simp
  have "waits (new_timer_queue :: ('a, 'b) timer_queue)" using new_timer_ok(1) by (simp add: waits_def heap_ordered_def new_timer_queue_def armed_for_def)
  from all [OF this] obtain q where q: "add_timers (te # tes) new_timer_queue = Inr q" "waits q" "tq_event_lst q \<noteq> []"
    "tq_pioneer q = Min (insert (tq_pioneer (new_timer_queue :: ('a, 'b) timer_queue)) (te_timestamp ` set (te # tes)))"
    by blast
  have "Min (insert (- 1) (te_timestamp ` set (te # tes))) = min (- 1) (Min (te_timestamp ` set (te # tes)))"
    by (rule Min_insert) simp_all
  also have "\<dots> = Min (te_timestamp ` set (te # tes))" by (rule min_absorb2) (rule word_n1_ge)
  finally have "tq_pioneer q = Min (te_timestamp ` set (te # tes))" using q(4) by (simp only: new_timer_queue_def timer_queue.simps)
  then show ?thesis using q(1,2,3) by (auto simp: waits_def)
qed

datatype ('c, 'd) timer_op = Add_timer "('c, 'd) timer_event" | Del_timer nat | Get_timo

fun run_timers :: "('c, 'd) timer_op list \<Rightarrow> ('c, 'd) timer_queue \<Rightarrow> (('c, 'd) timer_event list \<times> ('c, 'd) timer_queue) result" where
  "run_timers [] q = Inr ([], q)"
| "run_timers (Add_timer te # ops) q = res_bind (add_timer te q) (\<lambda>(_, q). run_timers ops q)"
| "run_timers (Del_timer timer_id # ops) q = res_bind (del_timer timer_id q) (run_timers ops)"
| "run_timers (Get_timo # ops) q = res_bind (get_timo q) (\<lambda>(fired, q). res_bind (run_timers ops q) (\<lambda>(more, q). Inr (fired @ more, q)))"






lemma last_deletion_rearms:
  assumes ok: "timer_ok q" and one: "tq_event_lst q = [e]" and te: "te_timestamp te < - 1"
  shows "\<exists>q2. run_timers [Del_timer (te_timer_id e), Add_timer te] q = Inr ([], q2) \<and> tq_armed q2 = armed_for (te_timestamp te)"
proof -
  obtain q1 where q1: "del_timer (te_timer_id e) q = Inr q1" "timer_ok q1" "pending q1 = (pending q)(te_timer_id e := None)"
      "if tq_event_lst q1 = [] \<and> tq_event_lst q \<noteq> [] then tq_pioneer q1 = - 1 else tq_pioneer q1 = tq_pioneer q \<and> tq_armed q1 = tq_armed q"
    using del_timer_spec [OF ok] by blast
  have ix: "index_ok q" "index_ok q1" using ok q1(2) by (simp_all add: timer_ok_def)
  have "set (tq_event_lst q1) = {}"
  proof (rule equals0I)
    fix d
    assume "d \<in> set (tq_event_lst q1)"
    then have "pending q1 (te_timer_id d) = Some d" using pending_Some [OF ix(2)] by blast
    then have "pending q (te_timer_id d) = Some d" "te_timer_id d \<noteq> te_timer_id e" unfolding q1(3) by (simp_all split: if_splits)
    then show False using pending_Some [OF ix(1)] one by auto
  qed
  then have p: "tq_pioneer q1 = - 1" using q1(4) one by simp
  obtain q2 where "add_timer te q1 = Inr (tq_next_time_id q1, q2)" "tq_armed q2 = armed_for (te_timestamp te)"
    using add_timer_spec [OF q1(2), of te] te unfolding p by auto
  then show ?thesis using q1(1) by simp
qed






end
