(* ===== verification/Io_Buffer.thy ===== *)
theory Io_Buffer
  imports Prelude
begin

text \<open>
  The buffers of a connection and the pool they come from (\<open>src/server/include/io_buffer.h\<close>,
  \<open>src/server/src/io_buffer.cpp\<close>). A buffer is in the pool or belongs to one connection, so that it is a value.
  The contents of new memory are the parameter \<open>raw\<close>. A copy outside of the memory of a buffer is \<open>Out_of_range\<close>. What the
  kernel answers to \<open>ioctl\<close>, \<open>read\<close> and \<open>write\<close> is an argument; a call that is interrupted is repeated, so that
  the answer is that of the last call.
\<close>

section \<open>Buffers\<close>

record io_buffer =
  ib_capacity :: int
  ib_length :: int
  ib_head :: int
  ib_data :: string

definition new_io_buffer :: "(nat \<Rightarrow> char) \<Rightarrow> nat \<Rightarrow> io_buffer" where
  "new_io_buffer raw n = \<lparr>ib_capacity = int n, ib_length = 0, ib_head = 0, ib_data = map raw [0..<n]\<rparr>"

definition mem_read :: "int \<Rightarrow> int \<Rightarrow> string \<Rightarrow> string result" where
  "mem_read off n d =
     (if 0 \<le> off \<and> 0 \<le> n \<and> off + n \<le> int (length d) then Inr (take (nat n) (drop (nat off) d)) else Inl (Out_of_range ''memcpy''))"

definition mem_write :: "int \<Rightarrow> string \<Rightarrow> string \<Rightarrow> string result" where
  "mem_write off bs d =
     (if 0 \<le> off \<and> off + int (length bs) \<le> int (length d)
      then Inr (take (nat off) d @ bs @ drop (nat off + length bs) d) else Inl (Out_of_range ''memcpy''))"

definition ib_clear :: "io_buffer \<Rightarrow> io_buffer" where
  "ib_clear b = b\<lparr>ib_length := 0, ib_head := 0\<rparr>"

definition ib_adjust :: "io_buffer \<Rightarrow> io_buffer result" where
  "ib_adjust b =
     (if ib_head b \<noteq> 0 then
        (if ib_length b \<noteq> 0 then
           res_bind (mem_read (ib_head b) (ib_length b) (ib_data b)) (\<lambda>bs. res_bind (mem_write 0 bs (ib_data b)) (\<lambda>d.
             Inr (b\<lparr>ib_data := d, ib_head := 0\<rparr>)))
         else Inr (b\<lparr>ib_head := 0\<rparr>))
      else Inr b)"

definition ib_copy :: "io_buffer \<Rightarrow> io_buffer \<Rightarrow> io_buffer result" where
  "ib_copy b other =
     res_bind (mem_read (ib_head other) (ib_length other) (ib_data other)) (\<lambda>bs. res_bind (mem_write 0 bs (ib_data b)) (\<lambda>d.
       Inr (b\<lparr>ib_data := d, ib_head := 0, ib_length := ib_length other\<rparr>)))"

definition ib_pop :: "int \<Rightarrow> io_buffer \<Rightarrow> io_buffer" where
  "ib_pop len b = b\<lparr>ib_length := ib_length b - len, ib_head := ib_head b + len\<rparr>"

section \<open>The pool\<close>

definition mem_caps :: "nat list" where
  "mem_caps = [4096, 16384, 65536, 262144, 1048576, 4194304, 8388608]"

record buffer_pool =
  bp_pool :: "nat \<rightharpoonup> io_buffer list"
  bp_total_mem :: "64 word"

text \<open>The number of buffers made for each capacity, and the bound for the sum of their sizes in kilobytes.\<close>

definition mem_counts :: "nat list" where
  "mem_counts = [5000, 1000, 500, 200, 50, 20, 10]"

definition new_buffer_pool :: "(nat \<Rightarrow> char) \<Rightarrow> buffer_pool" where
  "new_buffer_pool raw =
     \<lparr>bp_pool = map_of (zip mem_caps (map2 (\<lambda>cap n. replicate n (new_io_buffer raw cap)) mem_caps mem_counts)),
      bp_total_mem = of_nat (4 * 5000 + 16 * 1000 + 64 * 500 + 256 * 200 + 1024 * 50 + 4096 * 20 + 8192 * 10)\<rparr>"

definition EXTRA_MEM_LIMIT :: nat where
  "EXTRA_MEM_LIMIT = 5 * 1024 * 1024"

definition mem_index :: "int \<Rightarrow> nat option" where
  "mem_index N =
     (if N \<le> 4096 then Some 4096 else if N \<le> 16384 then Some 16384 else if N \<le> 65536 then Some 65536
      else if N \<le> 262144 then Some 262144 else if N \<le> 1048576 then Some 1048576 else if N \<le> 4194304 then Some 4194304
      else if N \<le> 8388608 then Some 8388608 else None)"

definition pool_alloc :: "(nat \<Rightarrow> char) \<Rightarrow> int \<Rightarrow> buffer_pool \<Rightarrow> (io_buffer option \<times> buffer_pool) result" where
  "pool_alloc raw N p =
     (case mem_index N of
        None \<Rightarrow> Inr (None, p)
      | Some index \<Rightarrow>
          (case bp_pool p index of
             Some (target # free) \<Rightarrow> Inr (Some target, p\<lparr>bp_pool := (bp_pool p)(index \<mapsto> free)\<rparr>)
           | _ \<Rightarrow>
               if bp_total_mem p + of_nat (index div 1024) \<ge> of_nat EXTRA_MEM_LIMIT then Inl Exit_failure
               else Inr (Some (new_io_buffer raw index),
                 p\<lparr>bp_pool := (bp_pool p)(index \<mapsto> []), bp_total_mem := bp_total_mem p + of_nat (index div 1024)\<rparr>)))"

definition pool_revert :: "io_buffer \<Rightarrow> buffer_pool \<Rightarrow> buffer_pool result" where
  "pool_revert b p =
     (let index = nat (ib_capacity b) in
      case bp_pool p index of
        None \<Rightarrow> Inl Assert_failed
      | Some free \<Rightarrow> Inr (p\<lparr>bp_pool := (bp_pool p)(index \<mapsto> b\<lparr>ib_length := 0, ib_head := 0\<rparr> # free)\<rparr>))"

section \<open>Buffers of a connection\<close>

type_synonym tcp_buffer = "io_buffer option"

definition tb_length :: "tcp_buffer \<Rightarrow> int" where
  "tb_length buf = (case buf of None \<Rightarrow> 0 | Some b \<Rightarrow> ib_length b)"

definition tb_clear :: "tcp_buffer \<times> buffer_pool \<Rightarrow> (tcp_buffer \<times> buffer_pool) result" where
  "tb_clear st = (case st of (None, p) \<Rightarrow> Inr (None, p) | (Some b, p) \<Rightarrow> res_bind (pool_revert b p) (\<lambda>p. Inr (None, p)))"

definition tb_pop :: "int \<Rightarrow> tcp_buffer \<times> buffer_pool \<Rightarrow> (tcp_buffer \<times> buffer_pool) result" where
  "tb_pop len st =
     (case st of
        (None, p) \<Rightarrow> Inl Assert_failed
      | (Some b, p) \<Rightarrow>
          if ib_length b < len then Inl Assert_failed
          else
            (let b = ib_pop len b in
             if ib_length b = 0 then res_bind (pool_revert b p) (\<lambda>p. Inr (None, p)) else Inr (Some b, p)))"

text \<open>A buffer with room for \<open>n\<close> more bytes; \<open>None\<close> when there is none of that size.\<close>

definition make_room :: "(nat \<Rightarrow> char) \<Rightarrow> int \<Rightarrow> tcp_buffer \<times> buffer_pool \<Rightarrow> (io_buffer option \<times> buffer_pool) result" where
  "make_room raw n st =
     (case st of
        (None, p) \<Rightarrow> pool_alloc raw n p
      | (Some b, p) \<Rightarrow>
          if ib_head b \<noteq> 0 then Inl Assert_failed
          else if ib_capacity b - ib_length b < n then
            res_bind (pool_alloc raw (n + ib_length b) p) (\<lambda>(new_buf, p).
              case new_buf of
                None \<Rightarrow> Inr (None, p)
              | Some nb \<Rightarrow> res_bind (ib_copy nb b) (\<lambda>nb. res_bind (pool_revert b p) (\<lambda>p. Inr (Some nb, p))))
          else Inr (Some b, p))"

definition put_bytes :: "string \<Rightarrow> io_buffer \<Rightarrow> io_buffer result" where
  "put_bytes bs b =
     res_bind (mem_write (ib_length b) bs (ib_data b)) (\<lambda>d. Inr (b\<lparr>ib_data := d, ib_length := ib_length b + int (length bs)\<rparr>))"

definition send_bytes :: "(nat \<Rightarrow> char) \<Rightarrow> string \<Rightarrow> tcp_buffer \<times> buffer_pool \<Rightarrow> (int \<times> tcp_buffer \<times> buffer_pool) result" where
  "send_bytes raw bs st =
     res_bind (make_room raw (int (length bs)) st) (\<lambda>(buf, p).
       case buf of
         None \<Rightarrow> Inr (- 1, fst st, p)
       | Some b \<Rightarrow> res_bind (put_bytes bs b) (\<lambda>b. Inr (0, Some b, p)))"

text \<open>
  \<open>rn\<close> is the number of bytes \<open>ioctl\<close> reports, \<open>None\<close> for a failure; \<open>got\<close> is what
  \<open>read\<close> delivers for a request of that many, \<open>None\<close> for a failure.
\<close>

definition read_data :: "(nat \<Rightarrow> char) \<Rightarrow> nat option \<Rightarrow> string option \<Rightarrow> tcp_buffer \<times> buffer_pool \<Rightarrow> (int \<times> tcp_buffer \<times> buffer_pool) result" where
  "read_data raw rn got st =
     (case rn of
        None \<Rightarrow> Inr (- 1, st)
      | Some rn \<Rightarrow>
          res_bind (make_room raw (int rn) st) (\<lambda>(buf, p).
            case buf of
              None \<Rightarrow> Inr (- 1, fst st, p)
            | Some b \<Rightarrow>
                (case got of
                   None \<Rightarrow> Inr (- 1, Some b, p)
                 | Some bs \<Rightarrow>
                     if bs = [] then Inr (0, Some b, p)
                     else res_bind (mem_write (ib_length b) bs (ib_data b)) (\<lambda>d.
                       if length bs \<noteq> rn then Inl Assert_failed
                       else Inr (int (length bs), Some (b\<lparr>ib_data := d, ib_length := ib_length b + int (length bs)\<rparr>), p)))))"

definition tb_data :: "tcp_buffer \<Rightarrow> (io_buffer \<times> int) option" where
  "tb_data buf = map_option (\<lambda>b. (b, ib_head b)) buf"

definition tb_adjust :: "tcp_buffer \<Rightarrow> tcp_buffer result" where
  "tb_adjust buf = (case buf of None \<Rightarrow> Inr None | Some b \<Rightarrow> res_bind (ib_adjust b) (\<lambda>b. Inr (Some b)))"

datatype write_answer = Wrote nat | Would_block | Write_failed

text \<open>The bytes handed to the kernel, the value returned and the buffer. An answer above the number requested does not occur.\<close>

definition write_fd :: "write_answer \<Rightarrow> tcp_buffer \<Rightarrow> (string \<times> int \<times> tcp_buffer) result" where
  "write_fd wr buf =
     (case buf of
        None \<Rightarrow> Inl Assert_failed
      | Some b \<Rightarrow>
          if ib_head b \<noteq> 0 then Inl Assert_failed
          else
            (case wr of
               Wrote n \<Rightarrow>
                 res_bind (mem_read 0 (int n) (ib_data b)) (\<lambda>bs.
                   if n = 0 then Inr ([], 0, Some b)
                   else res_bind (ib_adjust (ib_pop (int n) b)) (\<lambda>b. Inr (bs, int n, Some b)))
             | Would_block \<Rightarrow> Inr ([], 0, Some b)
             | Write_failed \<Rightarrow> Inr ([], - 1, Some b)))"

section \<open>What a buffer holds\<close>

definition ib_content :: "io_buffer \<Rightarrow> string" where
  "ib_content b = take (nat (ib_length b)) (drop (nat (ib_head b)) (ib_data b))"

definition tb_content :: "tcp_buffer \<Rightarrow> string" where
  "tb_content buf = (case buf of None \<Rightarrow> [] | Some b \<Rightarrow> ib_content b)"

definition ib_ok :: "io_buffer \<Rightarrow> bool" where
  "ib_ok b \<longleftrightarrow> 0 \<le> ib_head b \<and> 0 \<le> ib_length b \<and> ib_head b + ib_length b \<le> ib_capacity b \<and> int (length (ib_data b)) = ib_capacity b \<and>
     nat (ib_capacity b) \<in> set mem_caps"

definition tb_ok :: "tcp_buffer \<Rightarrow> bool" where
  "tb_ok buf \<longleftrightarrow> (case buf of None \<Rightarrow> True | Some b \<Rightarrow> ib_ok b)"

text \<open>The buffers of the pool are empty and lie under their capacity; all capacities are present.\<close>

definition pool_ok :: "buffer_pool \<Rightarrow> bool" where
  "pool_ok p \<longleftrightarrow> set mem_caps \<subseteq> dom (bp_pool p) \<and>
     (\<forall>c free. bp_pool p c = Some free \<longrightarrow> (\<forall>b \<in> set free. ib_ok b \<and> ib_capacity b = int c \<and> ib_length b = 0 \<and> ib_head b = 0))"

lemma ib_okE:
  assumes "ib_ok b"
  obtains h l where "ib_head b = int h" "ib_length b = int l" "h + l \<le> length (ib_data b)" "ib_capacity b = int (length (ib_data b))"
    "length (ib_data b) \<in> set mem_caps"
proof (rule that [of "nat (ib_head b)" "nat (ib_length b)"])
  show "length (ib_data b) \<in> set mem_caps" using assms by (auto simp: ib_ok_def) (metis nat_int)
qed (use assms in \<open>auto simp: ib_ok_def\<close>)

lemma length_content: "ib_ok b \<Longrightarrow> int (length (ib_content b)) = ib_length b"
  by (erule ib_okE) (simp add: ib_content_def)

lemma tb_length_content: "tb_ok buf \<Longrightarrow> int (length (tb_content buf)) = tb_length buf"
  by (simp add: tb_ok_def tb_content_def tb_length_def length_content split: option.splits)

lemma mem_read_content: "ib_ok b \<Longrightarrow> mem_read (ib_head b) (ib_length b) (ib_data b) = Inr (ib_content b)"
  by (simp add: mem_read_def ib_ok_def ib_content_def)

lemma mem_write_length: "mem_write off bs d = Inr d' \<Longrightarrow> length d' = length d"
  by (auto simp: mem_write_def split: if_splits)

lemma ib_adjust_ok:
  assumes "ib_ok b"
  shows "\<exists>b'. ib_adjust b = Inr b' \<and> ib_ok b' \<and> ib_content b' = ib_content b \<and> ib_head b' = 0 \<and> ib_capacity b' = ib_capacity b"
proof (cases "ib_head b = 0 \<or> ib_length b = 0")
  case True
  then show ?thesis using assms by (auto simp: ib_adjust_def ib_ok_def ib_content_def)
next
  case False
  let ?d = "ib_content b @ drop (length (ib_content b)) (ib_data b)"
  have l: "length (ib_content b) = nat (ib_length b)" using length_content [OF assms] by simp
  have "mem_write 0 (ib_content b) (ib_data b) = Inr ?d" using assms length_content [OF assms] by (simp add: mem_write_def ib_ok_def)
  then have "ib_adjust b = Inr (b\<lparr>ib_data := ?d, ib_head := 0\<rparr>)" using False mem_read_content [OF assms] by (simp add: ib_adjust_def)
  moreover have "ib_content (b\<lparr>ib_data := ?d, ib_head := 0\<rparr>) = ib_content b" by (simp add: ib_content_def [of "ib_head_update f b" for f b] l)
  moreover have "ib_ok (b\<lparr>ib_data := ?d, ib_head := 0\<rparr>)" using assms l by (auto simp: ib_ok_def)
  ultimately show ?thesis by auto
qed

lemma ib_pop_ok:
  assumes "ib_ok b" "0 \<le> n" "n \<le> ib_length b"
  shows "ib_ok (ib_pop n b)" "ib_content (ib_pop n b) = drop (nat n) (ib_content b)" "ib_capacity (ib_pop n b) = ib_capacity b"
  using assms by (auto simp: ib_ok_def ib_pop_def ib_content_def drop_take nat_diff_distrib nat_add_distrib add.commute)

lemma pool_ok_class: "pool_ok p \<Longrightarrow> c \<in> set mem_caps \<Longrightarrow> \<exists>free. bp_pool p c = Some free"
  by (auto simp: pool_ok_def)

lemma pool_ok_free: "pool_ok p \<Longrightarrow> bp_pool p c = Some free \<Longrightarrow> b \<in> set free \<Longrightarrow> ib_ok b \<and> ib_capacity b = int c \<and> ib_length b = 0 \<and> ib_head b = 0"
  by (auto simp: pool_ok_def)

lemma pool_ok_upd:
  "pool_ok p \<Longrightarrow> (\<And>b. b \<in> set free \<Longrightarrow> ib_ok b \<and> ib_capacity b = int c \<and> ib_length b = 0 \<and> ib_head b = 0) \<Longrightarrow>
   pool_ok (p\<lparr>bp_pool := (bp_pool p)(c \<mapsto> free)\<rparr>)"
  unfolding pool_ok_def by (simp add: subset_insertI2)

lemma pool_ok_mem [simp]: "pool_ok (bp_total_mem_update f p) = pool_ok p"
  by (simp add: pool_ok_def)

lemma pool_revert_ok:
  assumes "pool_ok p" "ib_ok b"
  shows "\<exists>p'. pool_revert b p = Inr p' \<and> pool_ok p'"
proof -
  have c: "nat (ib_capacity b) \<in> set mem_caps" "int (nat (ib_capacity b)) = ib_capacity b" using assms(2) by (auto simp: ib_ok_def)
  then obtain free where f: "bp_pool p (nat (ib_capacity b)) = Some free" using pool_ok_class [OF assms(1)] by blast
  have "ib_ok (b\<lparr>ib_length := 0, ib_head := 0\<rparr>)" using assms(2) by (simp add: ib_ok_def)
  then have "pool_ok (p\<lparr>bp_pool := (bp_pool p)(nat (ib_capacity b) \<mapsto> b\<lparr>ib_length := 0, ib_head := 0\<rparr> # free)\<rparr>)"
    using pool_ok_free [OF assms(1) f] c(2) by (intro pool_ok_upd [OF assms(1)]) auto
  then show ?thesis using f by (simp add: pool_revert_def)
qed

lemma mem_index_ok: "mem_index N = Some c \<Longrightarrow> c \<in> set mem_caps \<and> N \<le> int c"
  by (auto simp: mem_index_def mem_caps_def split: if_splits)

lemma new_io_buffer_ok: "c \<in> set mem_caps \<Longrightarrow> ib_ok (new_io_buffer raw c)"
  by (simp add: ib_ok_def new_io_buffer_def)

lemma pool_alloc_ok:
  assumes "pool_ok p" "pool_alloc raw N p = Inr (buf, p')"
  shows "pool_ok p' \<and> (\<forall>b. buf = Some b \<longrightarrow> ib_ok b \<and> N \<le> ib_capacity b \<and> ib_length b = 0 \<and> ib_head b = 0)"
proof (cases "mem_index N")
  case None
  then show ?thesis using assms by (simp add: pool_alloc_def)
next
  case (Some c)
  note c = mem_index_ok [OF Some]
  then obtain free where f: "bp_pool p c = Some free" using pool_ok_class [OF assms(1)] by blast
  show ?thesis
  proof (cases free)
    case Nil
    then have "buf = Some (new_io_buffer raw c)"
      "p' = p\<lparr>bp_pool := (bp_pool p)(c \<mapsto> []), bp_total_mem := bp_total_mem p + of_nat (c div 1024)\<rparr>"
      using assms(2) f Some by (simp_all add: pool_alloc_def split: if_splits)
    then show ?thesis using pool_ok_upd [OF assms(1), of "[]" c] c new_io_buffer_ok [of c raw] by (simp add: new_io_buffer_def)
  next
    case (Cons b bs)
    then have "buf = Some b" "p' = p\<lparr>bp_pool := (bp_pool p)(c \<mapsto> bs)\<rparr>" using assms(2) f Some by (simp_all add: pool_alloc_def)
    moreover have "ib_ok b" "ib_capacity b = int c" "ib_length b = 0" "ib_head b = 0" using pool_ok_free [OF assms(1) f, of b] Cons by simp_all
    moreover have "pool_ok (p\<lparr>bp_pool := (bp_pool p)(c \<mapsto> bs)\<rparr>)"
    proof (rule pool_ok_upd [OF assms(1)])
      fix x
      assume "x \<in> set bs"
      then have "x \<in> set free" using Cons by simp
      then show "ib_ok x \<and> ib_capacity x = int c \<and> ib_length x = 0 \<and> ib_head x = 0" by (rule pool_ok_free [OF assms(1) f])
    qed
    ultimately show ?thesis using c by simp
  qed
qed

lemma ib_copy_ok:
  assumes "ib_ok b" "ib_ok other" "ib_length other \<le> ib_capacity b"
  shows "\<exists>b'. ib_copy b other = Inr b' \<and> ib_ok b' \<and> ib_content b' = ib_content other \<and> ib_head b' = 0 \<and>
    ib_length b' = ib_length other \<and> ib_capacity b' = ib_capacity b"
proof -
  let ?c = "ib_content other" let ?d = "?c @ drop (length ?c) (ib_data b)"
  have l: "int (length ?c) = ib_length other" using length_content [OF assms(2)] .
  then have "mem_write 0 ?c (ib_data b) = Inr ?d" using assms by (simp add: mem_write_def ib_ok_def)
  then have cp: "ib_copy b other = Inr (b\<lparr>ib_data := ?d, ib_head := 0, ib_length := ib_length other\<rparr>)"
    using mem_read_content [OF assms(2)] by (simp add: ib_copy_def)
  have n: "nat (ib_length other) = length ?c" "length ?c \<le> length (ib_data b)" using l assms(1,3) by (auto simp: ib_ok_def)
  define b' where "b' = b\<lparr>ib_data := ?d, ib_head := 0, ib_length := ib_length other\<rparr>"
  have "ib_content b' = ?c" unfolding ib_content_def [of b'] by (simp add: b'_def n(1))
  moreover have "ib_ok b'" using assms n(2) l by (auto simp: ib_ok_def b'_def)
  ultimately show ?thesis using cp by (auto simp: b'_def)
qed

lemma make_room_ok:
  assumes "pool_ok p" "tb_ok buf" "\<And>b. buf = Some b \<Longrightarrow> ib_head b = 0" "0 \<le> n" "make_room raw n (buf, p) = Inr (buf', p')"
  shows "pool_ok p' \<and> (\<forall>b. buf' = Some b \<longrightarrow> ib_ok b \<and> ib_head b = 0 \<and> ib_content b = tb_content buf \<and> ib_length b + n \<le> ib_capacity b)"
proof (cases buf)
  case None
  then show ?thesis using pool_alloc_ok [OF assms(1), of raw n buf' p'] assms(5)
    by (auto simp: make_room_def tb_content_def ib_content_def)
next
  case (Some b)
  then have b: "ib_ok b" "ib_head b = 0" using assms(2,3) by (simp_all add: tb_ok_def)
  show ?thesis
  proof (cases "ib_capacity b - ib_length b < n")
    case True
    then obtain nb p1 where a: "pool_alloc raw (n + ib_length b) p = Inr (nb, p1)"
      using assms(5) Some b by (cases "pool_alloc raw (n + ib_length b) p") (auto simp: make_room_def)
    note al = pool_alloc_ok [OF assms(1) a]
    show ?thesis
    proof (cases nb)
      case None
      then show ?thesis using assms(5) Some b True a al by (auto simp: make_room_def)
    next
      case (Some c)
      then have c: "ib_ok c" "n + ib_length b \<le> ib_capacity c" "ib_length b \<le> ib_capacity c" using al assms(4) by auto
      obtain c' where c': "ib_copy c b = Inr c'" "ib_ok c'" "ib_content c' = ib_content b" "ib_head c' = 0" "ib_length c' = ib_length b"
        "ib_capacity c' = ib_capacity c" using ib_copy_ok [OF c(1) b(1) c(3)] by blast
      obtain p2 where p2: "pool_revert b p1 = Inr p2" "pool_ok p2" using pool_revert_ok [of p1 b] al b(1) by blast
      have "buf' = Some c'" "p' = p2" using assms(5) \<open>buf = Some b\<close> b True a Some c'(1) p2(1) by (simp_all add: make_room_def)
      then show ?thesis using c' c p2 \<open>buf = Some b\<close> by (simp add: tb_content_def)
    qed
  next
    case False
    then show ?thesis using assms(1,5) Some b by (auto simp: make_room_def tb_content_def)
  qed
qed

lemma put_bytes_ok:
  assumes "ib_ok b" "ib_head b = 0" "ib_length b + int (length bs) \<le> ib_capacity b"
  shows "\<exists>d. mem_write (ib_length b) bs (ib_data b) = Inr d \<and> ib_ok (b\<lparr>ib_data := d, ib_length := ib_length b + int (length bs)\<rparr>) \<and>
    ib_content (b\<lparr>ib_data := d, ib_length := ib_length b + int (length bs)\<rparr>) = ib_content b @ bs"
proof -
  obtain h l where b: "ib_head b = int h" "ib_length b = int l" "h + l \<le> length (ib_data b)" "ib_capacity b = int (length (ib_data b))"
    "length (ib_data b) \<in> set mem_caps" using assms(1) by (rule ib_okE)
  then have h: "h = 0" "l + length bs \<le> length (ib_data b)" using assms(2,3) by simp_all
  let ?d = "take l (ib_data b) @ bs @ drop (l + length bs) (ib_data b)"
  have "mem_write (ib_length b) bs (ib_data b) = Inr ?d" using b h by (simp add: mem_write_def)
  moreover have "nat (int l + int (length bs)) = l + length bs" "min (length (ib_data b)) l = l" "length ?d = length (ib_data b)" using h by simp_all
  ultimately show ?thesis using b h by (simp add: ib_ok_def ib_content_def del: length_append)
qed

text \<open>Sending appends, and a refusal changes nothing.\<close>

lemma send_bytes_ok:
  assumes "pool_ok p" "tb_ok buf" "\<And>b. buf = Some b \<Longrightarrow> ib_head b = 0" "send_bytes raw bs (buf, p) = Inr (r, buf', p')"
  shows "pool_ok p' \<and> tb_ok buf' \<and> (\<forall>b. buf' = Some b \<longrightarrow> ib_head b = 0) \<and>
    (r = 0 \<and> tb_content buf' = tb_content buf @ bs \<or> r = - 1 \<and> buf' = buf)"
proof -
  obtain nb p1 where m: "make_room raw (int (length bs)) (buf, p) = Inr (nb, p1)"
    using assms(4) by (cases "make_room raw (int (length bs)) (buf, p)") (auto simp: send_bytes_def)
  note mo = make_room_ok [OF assms(1,2,3) _ m]
  show ?thesis
  proof (cases nb)
    case None
    then show ?thesis using assms m mo by (auto simp: send_bytes_def)
  next
    case (Some b)
    then have b: "ib_ok b" "ib_head b = 0" "ib_length b + int (length bs) \<le> ib_capacity b" "ib_content b = tb_content buf" "pool_ok p1"
      using mo by simp_all
    obtain d where "mem_write (ib_length b) bs (ib_data b) = Inr d" "ib_ok (b\<lparr>ib_data := d, ib_length := ib_length b + int (length bs)\<rparr>)"
      "ib_content (b\<lparr>ib_data := d, ib_length := ib_length b + int (length bs)\<rparr>) = ib_content b @ bs" using put_bytes_ok [OF b(1-3)] by blast
    then show ?thesis using assms(4) m Some b by (auto simp: send_bytes_def put_bytes_def tb_ok_def tb_content_def)
  qed
qed

text \<open>Reading appends what has arrived.\<close>

lemma read_data_ok:
  assumes "pool_ok p" "tb_ok buf" "\<And>b. buf = Some b \<Longrightarrow> ib_head b = 0" "bs \<noteq> []"
    and "read_data raw (Some (length bs)) (Some bs) (buf, p) = Inr (r, buf', p')"
  shows "pool_ok p' \<and> tb_ok buf' \<and> (\<forall>b. buf' = Some b \<longrightarrow> ib_head b = 0) \<and>
    (r = int (length bs) \<and> tb_content buf' = tb_content buf @ bs \<or> r = - 1 \<and> buf' = buf)"
proof -
  obtain nb p1 where m: "make_room raw (int (length bs)) (buf, p) = Inr (nb, p1)"
    using assms(5) by (cases "make_room raw (int (length bs)) (buf, p)") (auto simp: read_data_def)
  note mo = make_room_ok [OF assms(1,2,3) _ m]
  show ?thesis
  proof (cases nb)
    case None
    then show ?thesis using assms m mo by (auto simp: read_data_def)
  next
    case (Some b)
    then have b: "ib_ok b" "ib_head b = 0" "ib_length b + int (length bs) \<le> ib_capacity b" "ib_content b = tb_content buf" "pool_ok p1"
      using mo by simp_all
    obtain d where "mem_write (ib_length b) bs (ib_data b) = Inr d" "ib_ok (b\<lparr>ib_data := d, ib_length := ib_length b + int (length bs)\<rparr>)"
      "ib_content (b\<lparr>ib_data := d, ib_length := ib_length b + int (length bs)\<rparr>) = ib_content b @ bs" using put_bytes_ok [OF b(1-3)] by blast
    then show ?thesis using assms(4,5) m Some b by (auto simp: read_data_def tb_ok_def tb_content_def)
  qed
qed

lemma tb_pop_ok:
  assumes "pool_ok p" "tb_ok buf" "buf \<noteq> None" "0 \<le> n" "n \<le> tb_length buf"
  shows "\<exists>buf' p'. tb_pop n (buf, p) = Inr (buf', p') \<and> pool_ok p' \<and> tb_ok buf' \<and> tb_content buf' = drop (nat n) (tb_content buf) \<and>
    (buf' = None \<longleftrightarrow> n = tb_length buf)"
proof -
  obtain b where b: "buf = Some b" "ib_ok b" "n \<le> ib_length b" using assms by (cases buf) (simp_all add: tb_ok_def tb_length_def)
  note po = ib_pop_ok [OF b(2) assms(4) b(3)]
  show ?thesis
  proof (cases "n = ib_length b")
    case True
    obtain p' where "pool_revert (ib_pop n b) p = Inr p'" "pool_ok p'" using pool_revert_ok [OF assms(1) po(1)] by blast
    moreover have "ib_length (ib_pop n b) = 0" using True by (simp add: ib_pop_def)
    moreover have "drop (nat n) (ib_content b) = []" using True length_content [OF b(2)] by simp
    ultimately show ?thesis using True b by (auto simp: tb_pop_def tb_ok_def tb_content_def tb_length_def Let_def)
  next
    case False
    then have "ib_length (ib_pop n b) \<noteq> 0" by (simp add: ib_pop_def)
    then show ?thesis using False b po assms(1) by (simp add: tb_pop_def tb_ok_def tb_content_def tb_length_def Let_def)
  qed
qed

lemma tb_adjust_ok:
  assumes "tb_ok buf"
  shows "\<exists>buf'. tb_adjust buf = Inr buf' \<and> tb_ok buf' \<and> tb_content buf' = tb_content buf \<and> (\<forall>b. buf' = Some b \<longrightarrow> ib_head b = 0)"
  using assms ib_adjust_ok by (cases buf) (fastforce simp: tb_adjust_def tb_ok_def tb_content_def)+

lemma tb_clear_ok:
  assumes "pool_ok p" "tb_ok buf"
  shows "\<exists>p'. tb_clear (buf, p) = Inr (None, p') \<and> pool_ok p'"
  using assms pool_revert_ok by (cases buf) (fastforce simp: tb_clear_def tb_ok_def)+

text \<open>Writing hands the first bytes to the kernel and keeps the rest.\<close>

lemma write_fd_ok:
  assumes "tb_ok buf" "buf \<noteq> None" "\<And>b. buf = Some b \<Longrightarrow> ib_head b = 0" "\<And>n. wr = Wrote n \<Longrightarrow> int n \<le> tb_length buf"
  shows "\<exists>bs r buf'. write_fd wr buf = Inr (bs, r, buf') \<and> tb_ok buf' \<and> buf' \<noteq> None \<and> (\<forall>b. buf' = Some b \<longrightarrow> ib_head b = 0) \<and>
    tb_content buf = bs @ tb_content buf' \<and> r = (case wr of Wrote n \<Rightarrow> int n | Would_block \<Rightarrow> 0 | Write_failed \<Rightarrow> - 1) \<and>
    (\<forall>n. wr = Wrote n \<longrightarrow> length bs = n)"
proof -
  obtain b where b: "buf = Some b" "ib_ok b" "ib_head b = 0" using assms(1-3) by (cases buf) (auto simp: tb_ok_def)
  show ?thesis
  proof (cases wr)
    case (Wrote n)
    then have n: "int n \<le> ib_length b" using assms(4) b(1) by (simp add: tb_length_def)
    then have r: "mem_read 0 (int n) (ib_data b) = Inr (take n (ib_content b))"
      using b by (auto elim!: ib_okE simp: mem_read_def ib_content_def min_def)
    obtain c where c: "ib_adjust (ib_pop (int n) b) = Inr c" "ib_ok c" "ib_content c = drop n (ib_content b)" "ib_head c = 0"
      using ib_adjust_ok [OF ib_pop_ok(1) [OF b(2) _ n]] ib_pop_ok(2) [OF b(2) _ n] by auto
    show ?thesis
    proof (cases "n = 0")
      case True
      then show ?thesis using Wrote b by (simp add: write_fd_def tb_ok_def mem_read_def)
    next
      case False
      have "length (take n (ib_content b)) = n" using n length_content [OF b(2)] by simp
      then show ?thesis using False Wrote b r c by (simp add: write_fd_def tb_ok_def tb_content_def)
    qed
  qed (use b in \<open>simp_all add: write_fd_def tb_ok_def\<close>)
qed

end
