(* ===== verification/Event_Loop.thy ===== *)
theory Event_Loop
  imports Timer_Queue
begin

text \<open>
  The event loop of the server (\<open>src/server/src/event_loop.cpp\<close>), and the queues and the pool of threads that run one each
  (\<open>src/server/include/thread_queue.h\<close>, \<open>src/server/src/thread_pool.cpp\<close>). Callbacks \<open>'c\<close> and their arguments
  \<open>'a\<close> are values; what a callback does is a parameter, a function on the loop with everything else that the program holds in
  \<open>el_world\<close>. \<open>el_epoll\<close> is the interest list of the kernel, changed by \<open>epoll_ctl\<close> as documented; a call that fails changes
  nothing, and the program only logs it. The events of \<open>epoll_wait\<close> and the clock are arguments.
\<close>

unbundle bit_operations_syntax

section \<open>Input and output events\<close>

definition EPOLLIN :: "32 word" where "EPOLLIN = 1"
definition EPOLLOUT :: "32 word" where "EPOLLOUT = 4"
definition EPOLLERR :: "32 word" where "EPOLLERR = 8"
definition EPOLLHUP :: "32 word" where "EPOLLHUP = 16"

record ('c, 'a) io_event =
  ev_mask :: "32 word"
  ev_read_cb :: "'c option"
  ev_write_cb :: "'c option"
  ev_read_args :: "'a option"
  ev_write_args :: "'a option"

definition new_io_event :: "('c, 'a) io_event" where
  "new_io_event = \<lparr>ev_mask = 0, ev_read_cb = None, ev_write_cb = None, ev_read_args = None, ev_write_args = None\<rparr>"

record ('c, 'a, 'w) event_loop =
  el_io_evs :: "int \<rightharpoonup> ('c, 'a) io_event"
  el_listening :: "int set"
  el_pending_func :: "('c \<times> 'a option) list"
  el_timer_que :: "('c, 'a option) timer_queue"
  el_epoll :: "int \<rightharpoonup> 32 word"
  el_world :: 'w

datatype epoll_op = EPOLL_CTL_ADD | EPOLL_CTL_MOD | EPOLL_CTL_DEL

definition epoll_ctl :: "epoll_op \<Rightarrow> int \<Rightarrow> 32 word \<Rightarrow> (int \<rightharpoonup> 32 word) \<Rightarrow> int \<rightharpoonup> 32 word" where
  "epoll_ctl op fd events ep =
     (case op of
        EPOLL_CTL_ADD \<Rightarrow> if ep fd = None then ep(fd \<mapsto> events) else ep
      | EPOLL_CTL_MOD \<Rightarrow> if ep fd = None then ep else ep(fd \<mapsto> events)
      | EPOLL_CTL_DEL \<Rightarrow> ep(fd := None))"

definition add_ioev :: "int \<Rightarrow> 'c \<Rightarrow> 32 word \<Rightarrow> 'a option \<Rightarrow> ('c, 'a, 'w) event_loop \<Rightarrow> ('c, 'a, 'w) event_loop" where
  "add_ioev fd proc msk args l =
     (let (f_mask, op) = (case el_io_evs l fd of None \<Rightarrow> (msk, EPOLL_CTL_ADD) | Some e \<Rightarrow> (ev_mask e OR msk, EPOLL_CTL_MOD));
          e = (case el_io_evs l fd of None \<Rightarrow> new_io_event | Some e \<Rightarrow> e);
          e = (if msk AND EPOLLIN \<noteq> 0 then e\<lparr>ev_read_cb := Some proc, ev_read_args := args\<rparr>
               else e\<lparr>ev_write_cb := Some proc, ev_write_args := args\<rparr>)
      in l\<lparr>el_io_evs := (el_io_evs l)(fd \<mapsto> e\<lparr>ev_mask := f_mask\<rparr>), el_epoll := epoll_ctl op fd f_mask (el_epoll l),
           el_listening := insert fd (el_listening l)\<rparr>)"

definition del_ioev :: "int \<Rightarrow> ('c, 'a, 'w) event_loop \<Rightarrow> ('c, 'a, 'w) event_loop" where
  "del_ioev fd l = l\<lparr>el_io_evs := (el_io_evs l)(fd := None), el_listening := el_listening l - {fd},
     el_epoll := epoll_ctl EPOLL_CTL_DEL fd 0 (el_epoll l)\<rparr>"

definition del_ioev_mask :: "int \<Rightarrow> 32 word \<Rightarrow> ('c, 'a, 'w) event_loop \<Rightarrow> ('c, 'a, 'w) event_loop" where
  "del_ioev_mask fd msk l =
     (case el_io_evs l fd of
        None \<Rightarrow> l
      | Some e \<Rightarrow>
          (let o_mask = ev_mask e AND NOT msk in
           if o_mask = 0 then
             l\<lparr>el_io_evs := (el_io_evs l)(fd := None), el_epoll := epoll_ctl EPOLL_CTL_DEL fd 0 (el_epoll l),
               el_listening := el_listening l - {fd}\<rparr>
           else
             l\<lparr>el_io_evs := (el_io_evs l)(fd \<mapsto> e\<lparr>ev_mask := o_mask\<rparr>), el_epoll := epoll_ctl EPOLL_CTL_DEL fd o_mask (el_epoll l)\<rparr>))"

lemma add_ioev_world [simp]: "el_world (add_ioev fd cb m a l) = el_world l"
  by (simp add: add_ioev_def Let_def split: prod.splits)

lemma del_ioev_mask_world [simp]: "el_world (del_ioev_mask fd m l) = el_world l"
  by (simp add: del_ioev_mask_def Let_def split: option.split)

text \<open>An event that the kernel has lost stays lost.\<close>

lemma add_ioev_unwatched: "el_io_evs l fd \<noteq> None \<Longrightarrow> el_epoll l fd = None \<Longrightarrow> el_epoll (add_ioev fd cb m a l) fd = None"
  by (auto simp: add_ioev_def epoll_ctl_def Let_def)

section \<open>The loop\<close>

record ('c, 'a, 'w) loop_env =
  le_io :: "'c \<Rightarrow> int \<Rightarrow> 'a option \<Rightarrow> ('c, 'a, 'w) event_loop \<Rightarrow> ('c, 'a, 'w) event_loop result"
  le_call :: "'c \<Rightarrow> 'a option \<Rightarrow> ('c, 'a, 'w) event_loop \<Rightarrow> ('c, 'a, 'w) event_loop result"

text \<open>One event. Calling a null pointer fails; the last two branches test the bit of \<open>EPOLLHUP || EPOLLERR\<close>, which is 1.\<close>

definition process_event :: "('c, 'a, 'w) loop_env \<Rightarrow> int \<times> 32 word \<Rightarrow> ('c, 'a, 'w) event_loop \<Rightarrow> ('c, 'a, 'w) event_loop result" where
  "process_event env ev l =
     (let (fd, events) = ev in
      case el_io_evs l fd of
        None \<Rightarrow> Inl Assert_failed
      | Some e \<Rightarrow>
          if events AND EPOLLIN \<noteq> 0 then
            (case ev_read_cb e of None \<Rightarrow> Inl Null_deref | Some cb \<Rightarrow> le_io env cb fd (ev_read_args e) l)
          else if events AND EPOLLOUT \<noteq> 0 then
            (case ev_write_cb e of None \<Rightarrow> Inl Null_deref | Some cb \<Rightarrow> le_io env cb fd (ev_write_args e) l)
          else if events AND (if EPOLLHUP \<noteq> 0 \<or> EPOLLERR \<noteq> 0 then 1 else 0) \<noteq> 0 then
            (case ev_read_cb e of
               Some cb \<Rightarrow> le_io env cb fd (ev_read_args e) l
             | None \<Rightarrow>
                 (case ev_write_cb e of
                    Some cb \<Rightarrow> le_io env cb fd (ev_write_args e) l
                  | None \<Rightarrow> Inr (del_ioev fd l)))
          else Inr l)"

fun process_events :: "('c, 'a, 'w) loop_env \<Rightarrow> (int \<times> 32 word) list \<Rightarrow> ('c, 'a, 'w) event_loop \<Rightarrow> ('c, 'a, 'w) event_loop result" where
  "process_events env [] l = Inr l"
| "process_events env (ev # evs) l = res_bind (process_event env ev l) (process_events env evs)"

definition add_task :: "'c \<Rightarrow> 'a option \<Rightarrow> ('c, 'a, 'w) event_loop \<Rightarrow> ('c, 'a, 'w) event_loop" where
  "add_task func args l = l\<lparr>el_pending_func := el_pending_func l @ [(func, args)]\<rparr>"

text \<open>
  The tasks are visited with an iterator; a task that adds another one may invalidate it, which counts as an error here.
  At the end all are cleared.
\<close>

fun run_tasks :: "('c, 'a, 'w) loop_env \<Rightarrow> ('c \<times> 'a option) list \<Rightarrow> ('c, 'a, 'w) event_loop \<Rightarrow> ('c, 'a, 'w) event_loop result" where
  "run_tasks env [] l = Inr (l\<lparr>el_pending_func := []\<rparr>)"
| "run_tasks env ((func, args) # ts) l =
     res_bind (le_call env func args l) (\<lambda>l'.
       if el_pending_func l' \<noteq> el_pending_func l then Inl (Out_of_range ''iterator'') else run_tasks env ts l')"

definition loop_run_task :: "('c, 'a, 'w) loop_env \<Rightarrow> ('c, 'a, 'w) event_loop \<Rightarrow> ('c, 'a, 'w) event_loop result" where
  "loop_run_task env l = run_tasks env (el_pending_func l) l"

text \<open>One round of \<open>process_evs\<close>, with the events of \<open>epoll_wait\<close>, at most ten.\<close>

definition process_round :: "('c, 'a, 'w) loop_env \<Rightarrow> (int \<times> 32 word) list \<Rightarrow> ('c, 'a, 'w) event_loop \<Rightarrow> ('c, 'a, 'w) event_loop result" where
  "process_round env fired l = res_bind (process_events env (take 10 fired) l) (loop_run_task env)"

section \<open>Timers\<close>

fun call_timers :: "('c, 'a, 'w) loop_env \<Rightarrow> ('c, 'a option) timer_event list \<Rightarrow> ('c, 'a, 'w) event_loop \<Rightarrow> ('c, 'a, 'w) event_loop result" where
  "call_timers env [] l = Inr l"
| "call_timers env (te # tes) l = res_bind (le_call env (te_time_cb te) (te_cb_data te) l) (call_timers env tes)"

definition timer_queue_cb :: "('c, 'a, 'w) loop_env \<Rightarrow> ('c, 'a, 'w) event_loop \<Rightarrow> ('c, 'a, 'w) event_loop result" where
  "timer_queue_cb env l =
     res_bind (get_timo (el_timer_que l)) (\<lambda>(fired_evs, q). call_timers env fired_evs (l\<lparr>el_timer_que := q\<rparr>))"

definition new_event_loop :: "int \<Rightarrow> 'c \<Rightarrow> 'a option \<Rightarrow> 'w \<Rightarrow> ('c, 'a, 'w) event_loop" where
  "new_event_loop timer_fd timer_cb args w =
     add_ioev timer_fd timer_cb EPOLLIN args
       \<lparr>el_io_evs = Map.empty, el_listening = {}, el_pending_func = [], el_timer_que = new_timer_queue, el_epoll = Map.empty, el_world = w\<rparr>"

definition loop_add_timer :: "('c, 'a option) timer_event \<Rightarrow> ('c, 'a, 'w) event_loop \<Rightarrow> (nat \<times> ('c, 'a, 'w) event_loop) result" where
  "loop_add_timer te l = res_bind (add_timer te (el_timer_que l)) (\<lambda>(k, q). Inr (k, l\<lparr>el_timer_que := q\<rparr>))"

definition loop_del_timer :: "nat \<Rightarrow> ('c, 'a, 'w) event_loop \<Rightarrow> ('c, 'a, 'w) event_loop result" where
  "loop_del_timer timer_id l = res_bind (del_timer timer_id (el_timer_que l)) (\<lambda>q. Inr (l\<lparr>el_timer_que := q\<rparr>))"

text \<open>The clock in milliseconds, from seconds and nanoseconds.\<close>

definition clock_ms :: "64 word \<Rightarrow> 64 word \<Rightarrow> 64 word" where
  "clock_ms tv_sec tv_nsec = tv_sec * 1000 + tv_nsec div 1000000"

definition run_at :: "'c \<Rightarrow> 'a option \<Rightarrow> 64 word \<Rightarrow> ('c, 'a, 'w) event_loop \<Rightarrow> (nat \<times> ('c, 'a, 'w) event_loop) result" where
  "run_at cb args timestamp l = loop_add_timer (mk_timer_event cb args timestamp 0) l"

definition run_after :: "64 word \<Rightarrow> 'c \<Rightarrow> 'a option \<Rightarrow> 32 word \<Rightarrow> 32 word \<Rightarrow> ('c, 'a, 'w) event_loop \<Rightarrow> (nat \<times> ('c, 'a, 'w) event_loop) result" where
  "run_after now cb args sec mills l = loop_add_timer (mk_timer_event cb args (now + scast (sec * 1000 + mills)) 0) l"

definition run_every :: "64 word \<Rightarrow> 'c \<Rightarrow> 'a option \<Rightarrow> 32 word \<Rightarrow> 32 word \<Rightarrow> ('c, 'a, 'w) event_loop \<Rightarrow> (nat \<times> ('c, 'a, 'w) event_loop) result" where
  "run_every now cb args sec millis l =
     (let interval = sec * 1000 + millis in loop_add_timer (mk_timer_event cb args (now + ucast interval) interval) l)"

section \<open>Queues and threads\<close>

datatype ('c, 'a) queue_msg = New_conn int | Stop_the | New_task 'c "'a option"

text \<open>The counter of the event descriptor; reading it when it is zero is an error that is only reported.\<close>

record ('c, 'a) thread_queue =
  tq_evfd :: nat
  tq_queue :: "('c, 'a) queue_msg list"

definition new_thread_queue :: "('c, 'a) thread_queue" where
  "new_thread_queue = \<lparr>tq_evfd = 0, tq_queue = []\<rparr>"

definition send_msg :: "('c, 'a) queue_msg \<Rightarrow> ('c, 'a) thread_queue \<Rightarrow> ('c, 'a) thread_queue" where
  "send_msg item q = q\<lparr>tq_queue := tq_queue q @ [item], tq_evfd := tq_evfd q + 1\<rparr>"

definition recv_msg :: "('c, 'a) queue_msg list \<Rightarrow> ('c, 'a) thread_queue \<Rightarrow> ('c, 'a) queue_msg list \<times> ('c, 'a) thread_queue" where
  "recv_msg tmp_queue q = (tq_queue q, q\<lparr>tq_evfd := 0, tq_queue := tmp_queue\<rparr>)"

definition set_loop :: "int \<Rightarrow> 'c \<Rightarrow> 'a option \<Rightarrow> ('c, 'a, 'w) event_loop \<Rightarrow> ('c, 'a, 'w) event_loop" where
  "set_loop evfd proc args l = add_ioev evfd proc EPOLLIN args l"

record ('c, 'a) thread_pool =
  tp_curr_index :: nat
  tp_thread_cnt :: nat
  tp_pool :: "('c, 'a) thread_queue list"

definition new_thread_pool :: "int \<Rightarrow> ('c, 'a) thread_pool result" where
  "new_thread_pool thread_cnt =
     (if thread_cnt \<le> 0 \<or> thread_cnt > 30 then Inl Exit_failure
      else Inr \<lparr>tp_curr_index = 0, tp_thread_cnt = nat thread_cnt, tp_pool = replicate (nat thread_cnt) new_thread_queue\<rparr>)"

definition pool_send :: "nat \<Rightarrow> ('c, 'a) queue_msg \<Rightarrow> ('c, 'a) thread_pool \<Rightarrow> ('c, 'a) thread_pool result" where
  "pool_send i msg p =
     (if i < length (tp_pool p) then Inr (p\<lparr>tp_pool := (tp_pool p)[i := send_msg msg (tp_pool p ! i)]\<rparr>) else Inl (Out_of_range ''operator[]''))"

definition run_task_at :: "nat \<Rightarrow> 'c \<Rightarrow> 'a option \<Rightarrow> ('c, 'a) thread_pool \<Rightarrow> ('c, 'a) thread_pool result" where
  "run_task_at thd_index task args p = pool_send thd_index (New_task task args) p"

text \<open>For every thread; the arguments are not handed on.\<close>

fun run_task_from :: "nat \<Rightarrow> nat \<Rightarrow> 'c \<Rightarrow> ('c, 'a) thread_pool \<Rightarrow> ('c, 'a) thread_pool result" where
  "run_task_from i 0 task p = Inr p"
| "run_task_from i (Suc n) task p = res_bind (run_task_at i task None p) (run_task_from (i + 1) n task)"

definition run_task_all :: "'c \<Rightarrow> 'a option \<Rightarrow> ('c, 'a) thread_pool \<Rightarrow> ('c, 'a) thread_pool result" where
  "run_task_all task args p = run_task_from 0 (tp_thread_cnt p) task p"

definition get_next_thread :: "('c, 'a) thread_pool \<Rightarrow> nat \<times> ('c, 'a) thread_pool" where
  "get_next_thread p =
     (let i = (if tp_curr_index p = tp_thread_cnt p then 0 else tp_curr_index p) in (i, p\<lparr>tp_curr_index := i + 1\<rparr>))"

end
