(* ===== verification/Tcp_Conn.thy ===== *)
theory Tcp_Conn
  imports Io_Buffer Event_Loop
begin

text \<open>
  A connection of the server (\<open>src/server/src/tcp_conn.cpp\<close>) and the table of message callbacks
  (\<open>src/server/include/msg_dispatcher.h\<close>). A message is a head of two 32-bit integers, its command and the length of what
  follows, in the byte order of the machine, which is little endian. The operations of a connection act on the connection, the
  loop and what the loop holds; a message callback is a parameter that may change all of them. \<open>read_loop\<close> is the
  loop of \<open>handle_read\<close>; it need not end when a callback fills the input again, so that not returning is \<open>None\<close>.
\<close>

section \<open>Messages\<close>

definition COMMU_HEAD_LENGTH :: int where "COMMU_HEAD_LENGTH = 8"

definition MSG_LENGTH_LIMIT :: int where "MSG_LENGTH_LIMIT = 65536 - COMMU_HEAD_LENGTH"

record commu_head =
  ch_cmdid :: "32 word"
  ch_length :: "32 word"

definition head_bytes :: "commu_head \<Rightarrow> string" where
  "head_bytes h = put_word 4 (ch_cmdid h) @ put_word 4 (ch_length h)"

definition read_head :: "string \<Rightarrow> commu_head" where
  "read_head bs = \<lparr>ch_cmdid = get_word (take 4 bs), ch_length = get_word (take 4 (drop 4 bs))\<rparr>"

record ('h, 'u) msg_dispatcher =
  md_dispatcher :: "32 word \<rightharpoonup> 'h"
  md_args :: "32 word \<rightharpoonup> 'u option"

definition add_msg_cb :: "32 word \<Rightarrow> 'h \<Rightarrow> 'u option \<Rightarrow> ('h, 'u) msg_dispatcher \<Rightarrow> int \<times> ('h, 'u) msg_dispatcher" where
  "add_msg_cb cmdid msg_cb usr_data d =
     (if md_dispatcher d cmdid \<noteq> None then (- 1, d)
      else (0, d\<lparr>md_dispatcher := (md_dispatcher d)(cmdid \<mapsto> msg_cb), md_args := (md_args d)(cmdid \<mapsto> usr_data)\<rparr>))"

definition is_exist :: "32 word \<Rightarrow> ('h, 'u) msg_dispatcher \<Rightarrow> bool" where
  "is_exist cmdid d \<longleftrightarrow> md_dispatcher d cmdid \<noteq> None"

section \<open>Connections\<close>

record tcp_conn =
  tc_connfd :: int
  tc_loop :: bool
  tc_ibuf :: tcp_buffer
  tc_obuf :: tcp_buffer

record 'x net =
  nt_pool :: buffer_pool
  nt_curr_conns :: int
  nt_conns :: "int \<rightharpoonup> tcp_conn"
  nt_app :: 'x

type_synonym ('c, 'a, 'x) conn_state = "tcp_conn \<times> ('c, 'a, 'x net) event_loop"

text \<open>
  \<open>cn_msg\<close> runs a message callback on the bytes at a place of the input (\<open>None\<close> for a null pointer), with its length and
  command. \<open>cn_build\<close> and \<open>cn_close\<close> are the callbacks for a new and a closed connection.
\<close>

record ('c, 'a, 'h, 'u, 'x) conn_env =
  cn_dispatcher :: "('h, 'u) msg_dispatcher"
  cn_msg :: "'h \<Rightarrow> string option \<Rightarrow> 32 word \<Rightarrow> 32 word \<Rightarrow> 'u option \<Rightarrow> ('c, 'a, 'x) conn_state \<Rightarrow> ('c, 'a, 'x) conn_state result"
  cn_build :: "(('c, 'a, 'x) conn_state \<Rightarrow> ('c, 'a, 'x) conn_state) option"
  cn_close :: "(('c, 'a, 'x) conn_state \<Rightarrow> ('c, 'a, 'x) conn_state) option"
  cn_raw :: "nat \<Rightarrow> char"
  cn_rcb :: 'c
  cn_wcb :: 'c
  cn_args :: "tcp_conn \<Rightarrow> 'a option"

definition call_msg :: "('c, 'a, 'h, 'u, 'x) conn_env \<Rightarrow> string option \<Rightarrow> 32 word \<Rightarrow> 32 word \<Rightarrow> ('c, 'a, 'x) conn_state \<Rightarrow> ('c, 'a, 'x) conn_state result" where
  "call_msg env data len cmdid st =
     (case md_dispatcher (cn_dispatcher env) cmdid of
        None \<Rightarrow> Inl Assert_failed
      | Some func \<Rightarrow> cn_msg env func data len cmdid (Option.bind (md_args (cn_dispatcher env) cmdid) (\<lambda>u. u)) st)"

definition set_pool :: "buffer_pool \<Rightarrow> ('c, 'a, 'x net) event_loop \<Rightarrow> ('c, 'a, 'x net) event_loop" where
  "set_pool p l = l\<lparr>el_world := (el_world l)\<lparr>nt_pool := p\<rparr>\<rparr>"

abbreviation the_pool :: "('c, 'a, 'x net) event_loop \<Rightarrow> buffer_pool" where
  "the_pool l \<equiv> nt_pool (el_world l)"

definition inc_conn :: "('c, 'a, 'x net) event_loop \<Rightarrow> ('c, 'a, 'x net) event_loop" where
  "inc_conn l = l\<lparr>el_world := (el_world l)\<lparr>nt_curr_conns := nt_curr_conns (el_world l) + 1\<rparr>\<rparr>"

definition dec_conn :: "('c, 'a, 'x net) event_loop \<Rightarrow> ('c, 'a, 'x net) event_loop" where
  "dec_conn l = l\<lparr>el_world := (el_world l)\<lparr>nt_curr_conns := nt_curr_conns (el_world l) - 1\<rparr>\<rparr>"

definition get_conn_num :: "('c, 'a, 'x net) event_loop \<Rightarrow> int" where
  "get_conn_num l = nt_curr_conns (el_world l)"

text \<open>The socket options are left out.\<close>

definition conn_init :: "('c, 'a, 'h, 'u, 'x) conn_env \<Rightarrow> int \<Rightarrow> ('c, 'a, 'x) conn_state \<Rightarrow> ('c, 'a, 'x) conn_state" where
  "conn_init env connfd st =
     (let st = ((fst st)\<lparr>tc_connfd := connfd, tc_loop := True\<rparr>, snd st);
          (c, l) = (case cn_build env of None \<Rightarrow> st | Some f \<Rightarrow> f st)
      in (c, inc_conn (add_ioev (tc_connfd c) (cn_rcb env) EPOLLIN (cn_args env c) l)))"

text \<open>Closing a descriptor takes it out of the interest list of the kernel.\<close>

definition clean_conn :: "('c, 'a, 'h, 'u, 'x) conn_env \<Rightarrow> ('c, 'a, 'x) conn_state \<Rightarrow> ('c, 'a, 'x) conn_state result" where
  "clean_conn env st =
     (let (c, l) = (case cn_close env of None \<Rightarrow> st | Some f \<Rightarrow> f st); l = dec_conn l in
      if \<not> tc_loop c then Inl Null_deref
      else
        (let l = del_ioev (tc_connfd c) l in
         res_bind (tb_clear (tc_ibuf c, the_pool l)) (\<lambda>(ibuf, p).
         res_bind (tb_clear (tc_obuf c, p)) (\<lambda>(obuf, p).
           Inr (c\<lparr>tc_loop := False, tc_ibuf := ibuf, tc_obuf := obuf, tc_connfd := - 1\<rparr>,
             (set_pool p l)\<lparr>el_epoll := (el_epoll l)(tc_connfd c := None)\<rparr>)))))"

definition pop_input :: "int \<Rightarrow> ('c, 'a, 'x) conn_state \<Rightarrow> ('c, 'a, 'x) conn_state result" where
  "pop_input n st =
     (let (c, l) = st in res_bind (tb_pop n (tc_ibuf c, the_pool l)) (\<lambda>(ibuf, p). Inr (c\<lparr>tc_ibuf := ibuf\<rparr>, set_pool p l)))"

definition input_at :: "tcp_buffer \<Rightarrow> string option" where
  "input_at buf = map_option (\<lambda>b. drop (nat (ib_head b)) (ib_data b)) buf"

text \<open>Whether the loop goes on, and the state.\<close>

definition read_message :: "('c, 'a, 'h, 'u, 'x) conn_env \<Rightarrow> ('c, 'a, 'x) conn_state \<Rightarrow> (bool \<times> ('c, 'a, 'x) conn_state) result" where
  "read_message env st =
     (case tc_ibuf (fst st) of
        None \<Rightarrow> Inr (False, st)
      | Some b \<Rightarrow>
          res_bind (mem_read (ib_head b) COMMU_HEAD_LENGTH (ib_data b)) (\<lambda>bs.
            let head = read_head bs; len = sint (ch_length head) in
            if MSG_LENGTH_LIMIT < len \<or> len < 0 then res_bind (clean_conn env st) (\<lambda>st. Inr (False, st))
            else if tb_length (tc_ibuf (fst st)) < COMMU_HEAD_LENGTH + len then Inr (False, st)
            else if \<not> is_exist (ch_cmdid head) (cn_dispatcher env) then res_bind (clean_conn env st) (\<lambda>st. Inr (False, st))
            else
              res_bind (pop_input COMMU_HEAD_LENGTH st) (\<lambda>st.
              res_bind (call_msg env (input_at (tc_ibuf (fst st))) (ch_length head) (ch_cmdid head) st) (\<lambda>st.
              res_bind (pop_input len st) (\<lambda>st. Inr (True, st))))))"

partial_function (option) read_loop :: "('c, 'a, 'h, 'u, 'x) conn_env \<Rightarrow> ('c, 'a, 'x) conn_state \<Rightarrow> ('c, 'a, 'x) conn_state result option" where
  "read_loop env st =
     (if tb_length (tc_ibuf (fst st)) < COMMU_HEAD_LENGTH then Some (Inr st)
      else
        (case read_message env st of
           Inl e \<Rightarrow> Some (Inl e)
         | Inr r \<Rightarrow> if fst r then read_loop env (snd r) else Some (Inr (snd r))))"

definition adjust_input :: "('c, 'a, 'x) conn_state \<Rightarrow> ('c, 'a, 'x) conn_state result" where
  "adjust_input st = res_bind (tb_adjust (tc_ibuf (fst st))) (\<lambda>ibuf. Inr ((fst st)\<lparr>tc_ibuf := ibuf\<rparr>, snd st))"

definition handle_read ::
  "('c, 'a, 'h, 'u, 'x) conn_env \<Rightarrow> nat option \<Rightarrow> string option \<Rightarrow> ('c, 'a, 'x) conn_state \<Rightarrow> ('c, 'a, 'x) conn_state result option" where
  "handle_read env rn got st =
     (case read_data (cn_raw env) rn got (tc_ibuf (fst st), the_pool (snd st)) of
        Inl e \<Rightarrow> Some (Inl e)
      | Inr (ret, ibuf, p) \<Rightarrow>
          (let st = ((fst st)\<lparr>tc_ibuf := ibuf\<rparr>, set_pool p (snd st)) in
           if ret = - 1 \<or> ret = 0 then Some (clean_conn env st)
           else map_option (\<lambda>r. res_bind r adjust_input) (read_loop env st)))"

text \<open>
  The answers of the kernel to the calls of \<open>write\<close> are given; the loop ends at the latest with them. It
  returns the bytes that went out.
\<close>

fun write_loop :: "('c, 'a, 'h, 'u, 'x) conn_env \<Rightarrow> write_answer list \<Rightarrow> ('c, 'a, 'x) conn_state \<Rightarrow> (string \<times> bool \<times> ('c, 'a, 'x) conn_state) result" where
  "write_loop env [] st = Inr ([], True, st)"
| "write_loop env (w # ws) st =
     (if tb_length (tc_obuf (fst st)) = 0 then Inr ([], True, st)
      else
        res_bind (write_fd w (tc_obuf (fst st))) (\<lambda>(bs, ret, obuf).
          let st = ((fst st)\<lparr>tc_obuf := obuf\<rparr>, snd st) in
          if ret = - 1 then res_bind (clean_conn env st) (\<lambda>st. Inr (bs, False, st))
          else if ret = 0 then Inr (bs, True, st)
          else res_bind (write_loop env ws st) (\<lambda>(more, ok, st). Inr (bs @ more, ok, st))))"

definition handle_write :: "('c, 'a, 'h, 'u, 'x) conn_env \<Rightarrow> write_answer list \<Rightarrow> ('c, 'a, 'x) conn_state \<Rightarrow> (string \<times> ('c, 'a, 'x) conn_state) result" where
  "handle_write env ws st =
     res_bind (write_loop env ws st) (\<lambda>(bs, ok, st).
       if \<not> ok then Inr (bs, st)
       else if tb_length (tc_obuf (fst st)) = 0 then
         (if tc_loop (fst st) then Inr (bs, fst st, del_ioev_mask (tc_connfd (fst st)) EPOLLOUT (snd st)) else Inl Null_deref)
       else Inr (bs, st))"

definition send_part :: "('c, 'a, 'h, 'u, 'x) conn_env \<Rightarrow> string \<Rightarrow> ('c, 'a, 'x) conn_state \<Rightarrow> (int \<times> ('c, 'a, 'x) conn_state) result" where
  "send_part env bs st =
     res_bind (send_bytes (cn_raw env) bs (tc_obuf (fst st), the_pool (snd st))) (\<lambda>(ret, obuf, p).
       Inr (ret, (fst st)\<lparr>tc_obuf := obuf\<rparr>, set_pool p (snd st)))"

text \<open>\<open>datalen\<close> is the length of the data.\<close>

definition conn_send_data :: "('c, 'a, 'h, 'u, 'x) conn_env \<Rightarrow> string \<Rightarrow> 32 word \<Rightarrow> ('c, 'a, 'x) conn_state \<Rightarrow> (int \<times> ('c, 'a, 'x) conn_state) result" where
  "conn_send_data env data cmdid st =
     (let need_listen = (tb_length (tc_obuf (fst st)) = 0);
          head = \<lparr>ch_cmdid = cmdid, ch_length = of_nat (length data)\<rparr> in
      res_bind (send_part env (head_bytes head) st) (\<lambda>(ret, st).
        if ret \<noteq> 0 then Inr (- 1, st)
        else
          res_bind (send_part env data st) (\<lambda>(ret, st).
            if ret \<noteq> 0 then
              res_bind (tb_pop COMMU_HEAD_LENGTH (tc_obuf (fst st), the_pool (snd st))) (\<lambda>(obuf, p).
                Inr (- 1, (fst st)\<lparr>tc_obuf := obuf\<rparr>, set_pool p (snd st)))
            else if need_listen then
              (if tc_loop (fst st)
               then Inr (0, fst st, add_ioev (tc_connfd (fst st)) (cn_wcb env) EPOLLOUT (cn_args env (fst st)) (snd st))
               else Inl Null_deref)
            else Inr (0, st))))"

end
