(* ===== verification/Config_Reader.thy ===== *)
theory Config_Reader
  imports Parser Ordered_Map
begin

text \<open>
  The configuration file of the server (\<open>src/server/src/config_reader.cpp\<close>): sections of keys with values, read line by line.
  The file is given by the characters it holds. The conversion of a float to and from text is a parameter. A character above 127 is
  negative, for which \<open>isspace\<close> of the C library answers no.
\<close>

section \<open>Trimming\<close>

definition trim_left :: "string \<Rightarrow> string" where
  "trim_left s = drop (length (takeWhile is_space s)) s"

definition trim_right :: "string \<Rightarrow> string" where
  "trim_right s = take (length s - length (takeWhile is_space (rev s))) s"

definition trim :: "string \<Rightarrow> string" where
  "trim s = trim_left (trim_right s)"

section \<open>Loading\<close>

type_synonym config = "(string, (string, string) omap) omap"

text \<open>A section in brackets; the name is what stands between them, trimmed. The text is handed back trimmed in any case.\<close>

definition is_section :: "string \<Rightarrow> bool \<times> string" where
  "is_section line =
     (let section = trim line in
      if section = [] \<or> length section \<le> 2 then (False, section)
      else if section ! 0 \<noteq> CHR ''['' \<or> section ! (length section - 1) \<noteq> CHR '']'' then (False, section)
      else (True, trim (take (length section - 2) (drop 1 section))))"

text \<open>
  \<open>getline\<close> until the stream has reached its end. A text that ends with a newline yields an empty
  line after it, which holds no entry.
\<close>

fun getlines :: "string \<Rightarrow> string list" where
  "getlines [] = [[]]"
| "getlines (c # cs) = (if c = CHR 0x0A then [] # getlines cs else (case getlines cs of [] \<Rightarrow> [[c]] | l # ls \<Rightarrow> (c # l) # ls))"

text \<open>
  The pointer \<open>m\<close> to the current section is its name; before the first section it is null, and an entry there goes
  through it.
\<close>

definition config_line :: "string \<Rightarrow> string option \<times> config \<Rightarrow> (string option \<times> config) result" where
  "config_line line st =
     (let (m, cfg) = st; (is_sec, section) = is_section line in
      if is_sec then Inr (Some section, (if map_of cfg section = None then om_put section [] cfg else cfg))
      else if CHR ''='' \<notin> set line then Inr (m, cfg)
      else
        let equ_pos = length (takeWhile (\<lambda>c. c \<noteq> CHR ''='') line);
            key = trim (take equ_pos line); value = trim (drop (equ_pos + 1) line) in
        if key = [] then Inr (m, cfg)
        else if hd key = CHR ''#'' \<or> hd key = CHR '';'' then Inr (m, cfg)
        else
          (case m of
             None \<Rightarrow> Inl Null_deref
           | Some sec \<Rightarrow> Inr (m, om_put sec (om_put key value (om_at [] sec cfg)) cfg)))"

fun config_lines :: "string list \<Rightarrow> string option \<times> config \<Rightarrow> (string option \<times> config) result" where
  "config_lines [] st = Inr st"
| "config_lines (l # ls) st = res_bind (config_line l st) (config_lines ls)"

text \<open>\<open>Load\<close> of a file that cannot be opened is false.\<close>

definition load_config :: "string option \<Rightarrow> config \<Rightarrow> (bool \<times> config) result" where
  "load_config file cfg =
     (case file of
        None \<Rightarrow> Inr (False, cfg)
      | Some contents \<Rightarrow> res_bind (config_lines (getlines contents) (None, cfg)) (\<lambda>(_, cfg). Inr (True, cfg)))"

text \<open>The single reader: a second path and a reader that was not made are failed assertions.\<close>

definition set_path :: "string option \<Rightarrow> config option \<Rightarrow> (bool \<times> config option) result" where
  "set_path file reader =
     (case reader of
        Some _ \<Rightarrow> Inl Assert_failed
      | None \<Rightarrow> res_bind (load_config file []) (\<lambda>(ok, cfg). Inr (ok, Some cfg)))"

definition config_ins :: "config option \<Rightarrow> config result" where
  "config_ins reader = (case reader of None \<Rightarrow> Inl Assert_failed | Some cfg \<Rightarrow> Inr cfg)"

section \<open>Looking up\<close>

definition config_entry :: "string \<Rightarrow> string \<Rightarrow> config \<Rightarrow> string option" where
  "config_entry section key cfg = Option.bind (map_of cfg section) (\<lambda>m. map_of m key)"

definition get_string :: "string \<Rightarrow> string \<Rightarrow> string \<Rightarrow> config \<Rightarrow> string" where
  "get_string section key default_value cfg = (case config_entry section key cfg of Some v \<Rightarrow> v | None \<Rightarrow> default_value)"

text \<open>\<open>>>\<close> into a \<open>long long\<close>: blanks, a sign and digits. A number out of range is cut to the ends of the type.\<close>

definition parse_number :: "string \<Rightarrow> 32 word" where
  "parse_number s = ucast (atol s)"

definition get_number :: "string \<Rightarrow> string \<Rightarrow> 32 word \<Rightarrow> config \<Rightarrow> 32 word" where
  "get_number section key default_value cfg = (case config_entry section key cfg of Some v \<Rightarrow> parse_number v | None \<Rightarrow> default_value)"

definition lower :: "char \<Rightarrow> char" where
  "lower c = (if 65 \<le> byte_val c \<and> byte_val c \<le> 90 then char_of (byte_val c + 32) else c)"

definition get_bool :: "string \<Rightarrow> string \<Rightarrow> bool \<Rightarrow> config \<Rightarrow> bool" where
  "get_bool section key default_value cfg =
     (case config_entry section key cfg of
        Some v \<Rightarrow> if List.map lower (takeWhile (\<lambda>c. c \<noteq> NUL) v) = ''true'' then True else default_value
      | None \<Rightarrow> default_value)"

definition get_float :: "('f \<Rightarrow> string) \<Rightarrow> (string \<Rightarrow> 'f option) \<Rightarrow> 'f \<Rightarrow> string \<Rightarrow> string \<Rightarrow> 'f \<Rightarrow> config \<Rightarrow> 'f" where
  "get_float show_float read_float zero section key default_value cfg =
     (case read_float (get_string section key (show_float default_value) cfg) of Some f \<Rightarrow> f | None \<Rightarrow> zero)"

definition is_list_sep :: "char \<Rightarrow> bool" where
  "is_list_sep c \<longleftrightarrow> c = CHR '','' \<or> c = CHR 0x20 \<or> c = CHR 0x09"

lemma rest_shorter:
  assumes "c \<in> set s" "is_list_sep c"
  shows "length (dropWhile is_list_sep (dropWhile (\<lambda>c. \<not> is_list_sep c) s)) < length s"
proof -
  let ?d = "dropWhile (\<lambda>c. \<not> is_list_sep c) s"
  have d: "?d \<noteq> []" using assms by (auto simp: dropWhile_eq_Nil_conv)
  then have "is_list_sep (hd ?d)" using hd_dropWhile [OF d] by simp
  then have "length (dropWhile is_list_sep ?d) < length ?d" using d length_dropWhile_le [of is_list_sep "tl ?d"] by (cases ?d) auto
  then show ?thesis using length_dropWhile_le [of "\<lambda>c. \<not> is_list_sep c" s] by simp
qed

text \<open>The part up to a separator, and what follows the run of separators; nothing follows a run at the end.\<close>

function split_list :: "string \<Rightarrow> string list" where
  "split_list s =
     (if \<exists>c \<in> set s. is_list_sep c then
        (let substr = takeWhile (\<lambda>c. \<not> is_list_sep c) s;
             rest = dropWhile is_list_sep (dropWhile (\<lambda>c. \<not> is_list_sep c) s)
         in if rest = [] then [substr] else substr # split_list rest)
      else [s])"
  by pat_completeness auto
termination
  by (relation "measure length") (auto simp: rest_shorter)

declare split_list.simps [simp del]

definition get_string_list :: "string \<Rightarrow> string \<Rightarrow> config \<Rightarrow> string list" where
  "get_string_list section key cfg = split_list (get_string section key [] cfg)"

end
