(* ===== verification/Tcp_Server.thy ===== *)
theory Tcp_Server
  imports Tcp_Conn Config_Reader
begin

text \<open>
  The server (\<open>src/server/src/tcp_server.cpp\<close>) and what its threads do with the messages in their queues
  (\<open>src/server/src/thread_pool.cpp\<close>). The connections, their number and the pool of buffers are shared by all loops and are
  the \<open>el_world\<close> of the loop that acts. The answers of \<open>accept\<close> are given; the last of them should be \<open>Accept_again\<close>, as only
  this one ends the loop. Socket options are left out, and so is the placeholder file, of which only
  whether it is open is kept.
\<close>

record ('c, 'a) tcp_server =
  sv_sock_fd :: int
  sv_reserved :: bool
  sv_thd_pool :: "('c, 'a) thread_pool option"
  sv_max_conns :: int
  sv_conn_size :: int

text \<open>
  \<open>sock_fd\<close> is the descriptor of the new socket, bound and listening, and \<open>next_fd\<close> the one that \<open>dup\<close> returns. Allocating an
  array of negative size throws.
\<close>

definition server_threads :: "config \<Rightarrow> ('c, 'a) thread_pool option result" where
  "server_threads cfg =
     (let thread_cnt = sint (get_number ''reactor'' ''threadNum'' 0 cfg) in
      if thread_cnt \<noteq> 0 then res_bind (new_thread_pool thread_cnt) (\<lambda>p. Inr (Some p)) else Inr None)"

definition new_tcp_server ::
  "config option \<Rightarrow> int \<Rightarrow> int \<Rightarrow> 'c \<Rightarrow> 'a option \<Rightarrow> ('c, 'a, 'x net) event_loop \<Rightarrow> (('c, 'a) tcp_server \<times> ('c, 'a, 'x net) event_loop) result" where
  "new_tcp_server reader sock_fd next_fd acceptor_cb args l =
     res_bind (config_ins reader) (\<lambda>cfg. res_bind (server_threads cfg) (\<lambda>thd_pool.
       let max_conns = sint (get_number ''reactor'' ''maxConns'' 10000 cfg); conn_size = max_conns + next_fd in
       if conn_size < 0 then Inl (Runtime_error ''bad_array_new_length'')
       else
         Inr (\<lparr>sv_sock_fd = sock_fd, sv_reserved = True, sv_thd_pool = thd_pool, sv_max_conns = max_conns, sv_conn_size = conn_size\<rparr>,
           add_ioev sock_fd acceptor_cb EPOLLIN args (l\<lparr>el_world := (el_world l)\<lparr>nt_conns := Map.empty\<rparr>\<rparr>))))"

definition delete_tcp_server :: "('c, 'a) tcp_server \<Rightarrow> ('c, 'a, 'x net) event_loop \<Rightarrow> ('c, 'a, 'x net) event_loop" where
  "delete_tcp_server sv l = del_ioev (sv_sock_fd sv) l"

section \<open>Accepting\<close>

definition put_conn :: "int \<Rightarrow> ('c, 'a, 'x) conn_state \<Rightarrow> ('c, 'a, 'x net) event_loop" where
  "put_conn fd st = (snd st)\<lparr>el_world := (el_world (snd st))\<lparr>nt_conns := (nt_conns (el_world (snd st)))(fd \<mapsto> fst st)\<rparr>\<rparr>"

text \<open>A connection with the buffers of its constructor. The descriptor is set by \<open>conn_init\<close>.\<close>

definition new_tcp_conn :: tcp_conn where
  "new_tcp_conn = \<lparr>tc_connfd = - 1, tc_loop = False, tc_ibuf = None, tc_obuf = None\<rparr>"

definition open_conn :: "('c, 'a, 'h, 'u, 'x) conn_env \<Rightarrow> int \<Rightarrow> ('c, 'a, 'x net) event_loop \<Rightarrow> ('c, 'a, 'x net) event_loop" where
  "open_conn env connfd l =
     (case nt_conns (el_world l) connfd of
        Some conn \<Rightarrow> put_conn connfd (conn_init env connfd (conn, l))
      | None \<Rightarrow> put_conn connfd (conn_init env connfd (new_tcp_conn, l)))"

datatype accept_answer = Accepted int | Accept_interrupted | Out_of_files | Accept_again | Accept_failed

text \<open>A descriptor that has been accepted.\<close>

definition take_conn ::
  "('c, 'a, 'h, 'u, 'x) conn_env \<Rightarrow> int \<Rightarrow> ('c, 'a) tcp_server \<times> ('c, 'a, 'x net) event_loop \<Rightarrow>
   (('c, 'a) tcp_server \<times> ('c, 'a, 'x net) event_loop) result" where
  "take_conn env connfd st =
     (let (sv, l) = st in
      if get_conn_num l \<ge> sv_max_conns sv then Inr (sv, l)
      else if connfd \<ge> sv_conn_size sv then Inl Assert_failed
      else
        (case sv_thd_pool sv of
           Some p \<Rightarrow>
             (let (queue, p) = get_next_thread p in
              res_bind (pool_send queue (New_conn connfd) p) (\<lambda>p. Inr (sv\<lparr>sv_thd_pool := Some p\<rparr>, l)))
         | None \<Rightarrow> Inr (sv, open_conn env connfd l)))"

fun accept_loop ::
  "('c, 'a, 'h, 'u, 'x) conn_env \<Rightarrow> accept_answer list \<Rightarrow> bool \<Rightarrow> ('c, 'a) tcp_server \<times> ('c, 'a, 'x net) event_loop \<Rightarrow>
   (('c, 'a) tcp_server \<times> ('c, 'a, 'x net) event_loop) result" where
  "accept_loop env [] conn_full st = Inr st"
| "accept_loop env (a # as) conn_full st =
     (case a of
        Accept_interrupted \<Rightarrow> accept_loop env as conn_full st
      | Out_of_files \<Rightarrow> accept_loop env as True ((fst st)\<lparr>sv_reserved := False\<rparr>, snd st)
      | Accept_again \<Rightarrow> Inr st
      | Accept_failed \<Rightarrow> Inl Exit_failure
      | Accepted connfd \<Rightarrow>
          if conn_full then accept_loop env as conn_full ((fst st)\<lparr>sv_reserved := True\<rparr>, snd st)
          else res_bind (take_conn env connfd st) (accept_loop env as conn_full))"

definition do_accept ::
  "('c, 'a, 'h, 'u, 'x) conn_env \<Rightarrow> accept_answer list \<Rightarrow> ('c, 'a) tcp_server \<times> ('c, 'a, 'x net) event_loop \<Rightarrow>
   (('c, 'a) tcp_server \<times> ('c, 'a, 'x net) event_loop) result" where
  "do_accept env answers st = accept_loop env answers False st"

section \<open>The threads\<close>

text \<open>The branch for tasks is inside the one for connections.\<close>

definition handle_msg :: "('c, 'a, 'h, 'u, 'x) conn_env \<Rightarrow> ('c, 'a) queue_msg \<Rightarrow> ('c, 'a, 'x net) event_loop \<Rightarrow> ('c, 'a, 'x net) event_loop" where
  "handle_msg env msg l =
     (case msg of
        New_conn connfd \<Rightarrow>
          (case nt_conns (el_world l) connfd of
             Some conn \<Rightarrow> put_conn connfd (conn_init env connfd (conn, l))
           | None \<Rightarrow> l)
      | _ \<Rightarrow> l)"

definition msg_comming_cb ::
  "('c, 'a, 'h, 'u, 'x) conn_env \<Rightarrow> ('c, 'a) thread_queue \<Rightarrow> ('c, 'a, 'x net) event_loop \<Rightarrow> ('c, 'a) thread_queue \<times> ('c, 'a, 'x net) event_loop" where
  "msg_comming_cb env queue l = (let (msgs, queue) = recv_msg [] queue in (queue, fold (handle_msg env) msgs l))"

text \<open>The loop of a thread, up to its first round.\<close>

definition thread_domain :: "int \<Rightarrow> 'c \<Rightarrow> 'a option \<Rightarrow> int \<Rightarrow> 'c \<Rightarrow> 'a option \<Rightarrow> 'x net \<Rightarrow> ('c, 'a, 'x net) event_loop" where
  "thread_domain timer_fd timer_cb timer_args evfd msg_cb args w = set_loop evfd msg_cb args (new_event_loop timer_fd timer_cb timer_args w)"

end
