(* ===== verification/Server_Properties.thy ===== *)
theory Server_Properties
  imports Tcp_Server
begin

text \<open>
  Accepting connections. A server without threads watches every connection that it accepts, and never has more than its limit. With
  threads, every connection is put into a queue from which the threads take it only to drop it.
\<close>

section \<open>Without threads\<close>

text \<open>The callback for new connections leaves their number alone.\<close>

definition build_keeps_count :: "('c, 'a, 'h, 'u, 'x) conn_env \<Rightarrow> bool" where
  "build_keeps_count env \<longleftrightarrow> (\<forall>f st. cn_build env = Some f \<longrightarrow> get_conn_num (snd (f st)) = get_conn_num (snd st))"

lemma get_conn_num_simps [simp]:
  "get_conn_num (add_ioev fd cb m a l) = get_conn_num l" "get_conn_num (inc_conn l) = get_conn_num l + 1"
  "get_conn_num (put_conn fd st) = get_conn_num (snd st)"
  by (simp_all add: get_conn_num_def add_ioev_def inc_conn_def put_conn_def Let_def split: prod.splits)

lemma open_conn_num: "build_keeps_count env \<Longrightarrow> get_conn_num (open_conn env fd l) = get_conn_num l + 1"
  unfolding build_keeps_count_def by (cases "cn_build env") (simp_all add: open_conn_def conn_init_def split: option.splits prod.splits, metis snd_conv)

lemma take_conn_limit:
  assumes "build_keeps_count env" "get_conn_num (snd st) \<le> sv_max_conns (fst st)" "take_conn env fd st = Inr st'"
  shows "get_conn_num (snd st') \<le> sv_max_conns (fst st')"
proof (cases "get_conn_num (snd st) \<ge> sv_max_conns (fst st)")
  case True
  then show ?thesis using assms(2,3) by (cases st) (auto simp: take_conn_def)
next
  case False
  then have small: "\<not> fd \<ge> sv_conn_size (fst st)" using assms(3) by (cases st) (auto simp: take_conn_def)
  show ?thesis
  proof (cases "sv_thd_pool (fst st)")
    case None
    then have "st' = (fst st, open_conn env fd (snd st))" using assms(3) False small by (cases st) (simp add: take_conn_def)
    then show ?thesis using False open_conn_num [OF assms(1)] by simp
  next
    case (Some p)
    obtain q p1 where g: "get_next_thread p = (q, p1)" by fastforce
    then obtain p2 where "pool_send q (New_conn fd) p1 = Inr p2" "st' = ((fst st)\<lparr>sv_thd_pool := Some p2\<rparr>, snd st)"
      using assms(3) False small Some by (cases st; cases "pool_send q (New_conn fd) p1") (auto simp: take_conn_def)
    then show ?thesis using assms(2) by simp
  qed
qed

lemma accept_loop_limit:
  assumes "build_keeps_count env"
  shows "get_conn_num (snd st) \<le> sv_max_conns (fst st) \<Longrightarrow> accept_loop env answers full st = Inr st' \<Longrightarrow> get_conn_num (snd st') \<le> sv_max_conns (fst st')"
proof (induction answers arbitrary: full st)
  case (Cons a as)
  show ?case
  proof (cases a)
    case (Accepted fd)
    show ?thesis
    proof (cases full)
      case True
      then show ?thesis using Cons.IH [of "((fst st)\<lparr>sv_reserved := True\<rparr>, snd st)" full] Cons.prems Accepted by simp
    next
      case False
      then obtain st1 where s: "take_conn env fd st = Inr st1" "accept_loop env as full st1 = Inr st'"
        using Cons.prems(2) Accepted by (cases "take_conn env fd st") auto
      then show ?thesis using Cons.IH [OF _ s(2)] take_conn_limit [OF assms Cons.prems(1) s(1)] by simp
    qed
  next
    case Out_of_files
    then show ?thesis using Cons.IH [of "((fst st)\<lparr>sv_reserved := False\<rparr>, snd st)" True] Cons.prems by simp
  next
    case Accept_interrupted
    then show ?thesis using Cons.IH [OF Cons.prems(1)] Cons.prems(2) by simp
  qed (use Cons.prems in simp_all)
qed simp

text \<open>
  C21. The number of connections stays within the configured limit, for any answers of the kernel.
\<close>

theorem accepted_within_limit:
  assumes "build_keeps_count env" "get_conn_num l \<le> sv_max_conns sv" "do_accept env answers (sv, l) = Inr (sv', l')"
  shows "get_conn_num l' \<le> sv_max_conns sv'"
  using accept_loop_limit [OF assms(1), of "(sv, l)" answers False "(sv', l')"] assms(2,3) by (simp add: do_accept_def)

text \<open>What an accepted connection leaves behind.\<close>

definition watched :: "int \<Rightarrow> ('c, 'a, 'x net) event_loop \<Rightarrow> bool" where
  "watched fd l \<longleftrightarrow> el_epoll l fd = Some EPOLLIN \<and> (\<exists>e. el_io_evs l fd = Some e \<and> ev_mask e = EPOLLIN \<and> ev_read_cb e \<noteq> None) \<and>
     (\<exists>c. nt_conns (el_world l) fd = Some c \<and> tc_connfd c = fd \<and> tc_loop c)"

lemma EPOLLIN_and: "EPOLLIN AND EPOLLIN \<noteq> 0"
  by (simp add: EPOLLIN_def)

lemma open_conn_events:
  assumes "cn_build env = None" "el_io_evs l fd = None" "el_epoll l fd = None"
  shows "watched fd (open_conn env fd l)"
    and "\<And>fd'. fd' \<noteq> fd \<Longrightarrow> el_epoll (open_conn env fd l) fd' = el_epoll l fd' \<and> el_io_evs (open_conn env fd l) fd' = el_io_evs l fd' \<and>
      nt_conns (el_world (open_conn env fd l)) fd' = nt_conns (el_world l) fd'"
  using assms EPOLLIN_and
  by (auto simp: open_conn_def conn_init_def put_conn_def inc_conn_def add_ioev_def epoll_ctl_def watched_def Let_def split: option.splits)

text \<open>
  C16. A server without threads watches all connections that arrive while there is room: the kernel reports their input,
  the loop knows what to call, the connection is entered and counted, and what was watched before stays as it is.
\<close>

theorem accepted_are_watched:
  assumes "cn_build env = None" "sv_thd_pool sv = None" "distinct fds"
    and "\<forall>fd \<in> set fds. fd < sv_conn_size sv \<and> el_io_evs l fd = None \<and> el_epoll l fd = None"
    and "get_conn_num l + int (length fds) \<le> sv_max_conns sv"
  shows "\<exists>l'. do_accept env (map Accepted fds @ [Accept_again]) (sv, l) = Inr (sv, l') \<and> (\<forall>fd \<in> set fds. watched fd l') \<and>
    (\<forall>fd. fd \<notin> set fds \<longrightarrow> el_epoll l' fd = el_epoll l fd \<and> el_io_evs l' fd = el_io_evs l fd) \<and> get_conn_num l' = get_conn_num l + int (length fds)"
proof -
  have "\<exists>l'. accept_loop env (map Accepted fds @ [Accept_again]) False (sv, l) = Inr (sv, l') \<and> (\<forall>fd \<in> set fds. watched fd l') \<and>
      (\<forall>fd. fd \<notin> set fds \<longrightarrow> el_epoll l' fd = el_epoll l fd \<and> el_io_evs l' fd = el_io_evs l fd \<and>
         nt_conns (el_world l') fd = nt_conns (el_world l) fd) \<and> get_conn_num l' = get_conn_num l + int (length fds)"
    using assms(3-5)
  proof (induction fds arbitrary: l)
    case (Cons fd fds)
    let ?l = "open_conn env fd l"
    have f: "el_io_evs l fd = None" "el_epoll l fd = None" "fd < sv_conn_size sv" "fd \<notin> set fds" using Cons.prems by simp_all
    note ev = open_conn_events [OF assms(1) f(1,2)]
    have k: "get_conn_num ?l = get_conn_num l + 1" by (rule open_conn_num) (simp add: build_keeps_count_def assms(1))
    have "take_conn env fd (sv, l) = Inr (sv, ?l)" using Cons.prems(3) f assms(2) by (simp add: take_conn_def)
    moreover have "\<forall>fd \<in> set fds. fd < sv_conn_size sv \<and> el_io_evs ?l fd = None \<and> el_epoll ?l fd = None"
    proof
      fix x assume "x \<in> set fds"
      then have "x \<noteq> fd" "x < sv_conn_size sv" "el_io_evs l x = None" "el_epoll l x = None" using Cons.prems(1,2) f(4) by auto
      then show "x < sv_conn_size sv \<and> el_io_evs ?l x = None \<and> el_epoll ?l x = None" using ev(2) [of x] by simp
    qed
    moreover have "get_conn_num ?l + int (length fds) \<le> sv_max_conns sv" "distinct fds" using k Cons.prems by simp_all
    ultimately obtain l' where l': "accept_loop env (map Accepted (fd # fds) @ [Accept_again]) False (sv, l) = Inr (sv, l')"
      "\<forall>fd \<in> set fds. watched fd l'" "get_conn_num l' = get_conn_num ?l + int (length fds)"
      "\<forall>fd. fd \<notin> set fds \<longrightarrow> el_epoll l' fd = el_epoll ?l fd \<and> el_io_evs l' fd = el_io_evs ?l fd \<and>
         nt_conns (el_world l') fd = nt_conns (el_world ?l) fd"
      using Cons.IH [of ?l] by auto
    have "watched fd l'" using ev(1) l'(4) f(4) by (simp add: watched_def)
    then show ?case using l' ev(2) k by (intro exI [of _ l']) simp
  qed simp
  then show ?thesis unfolding do_accept_def by blast
qed

section \<open>With threads\<close>

lemma handle_msgs_unknown:
  "(\<And>fd. New_conn fd \<in> set msgs \<Longrightarrow> nt_conns (el_world l) fd = None) \<Longrightarrow> fold (handle_msg env) msgs l = l"
  by (induction msgs) (auto simp: handle_msg_def split: queue_msg.splits)

lemma pool_send_length: "pool_send i msg p = Inr p' \<Longrightarrow> length (tp_pool p') = length (tp_pool p)"
  by (auto simp: pool_send_def split: if_splits)

lemma accept_loop_threads:
  "accept_loop env answers full st = Inr st' \<Longrightarrow> sv_thd_pool (fst st) \<noteq> None \<Longrightarrow> snd st' = snd st \<and> sv_thd_pool (fst st') \<noteq> None"
proof (induction answers arbitrary: full st)
  case (Cons a as)
  show ?case
  proof (cases a)
    case (Accepted fd)
    show ?thesis
    proof (cases full)
      case False
      then obtain st1 where s: "take_conn env fd st = Inr st1" "accept_loop env as full st1 = Inr st'"
        using Cons.prems(1) Accepted by (cases "take_conn env fd st") auto
      obtain p where p: "sv_thd_pool (fst st) = Some p" using Cons.prems(2) by auto
      have "snd st1 = snd st \<and> sv_thd_pool (fst st1) \<noteq> None"
        using s(1) p by (cases "pool_send (fst (get_next_thread p)) (New_conn fd) (snd (get_next_thread p))")
          (auto simp: take_conn_def split: prod.splits if_splits)
      then show ?thesis using Cons.IH [OF s(2)] by simp
    qed (use Cons.IH Cons.prems Accepted in \<open>fastforce\<close>)
  next
    case Out_of_files
    then show ?thesis using Cons.IH [of True "((fst st)\<lparr>sv_reserved := False\<rparr>, snd st)"] Cons.prems by simp
  qed (use Cons in auto)
qed simp

text \<open>
  C22. A server with threads serves nobody. Accepting leaves the loop and the connections as they are, and a thread that
  takes the messages from its queue drops them all, new connections and tasks alike: its queue is empty afterwards, and its loop watches
  and runs nothing that it did not before.
\<close>

theorem threads_drop_messages:
  assumes "new_tcp_server reader sock_fd next_fd acceptor args l0 = Inr (sv, l)" "sv_thd_pool sv \<noteq> None"
    and "do_accept env answers (sv, l) = Inr (sv', l')" "nt_conns (el_world lt) = nt_conns (el_world l')"
  shows "l' = l \<and> msg_comming_cb env queue lt = (queue\<lparr>tq_evfd := 0, tq_queue := []\<rparr>, lt)"
proof -
  have "l' = l" using accept_loop_threads [of env answers False "(sv, l)" "(sv', l')"] assms(2,3) by (simp add: do_accept_def)
  moreover have "nt_conns (el_world l) = Map.empty"
    using assms(1) by (auto simp: new_tcp_server_def res_bind_def add_ioev_def Let_def split: sum.splits if_splits option.splits)
  ultimately show ?thesis using assms(4) by (simp add: msg_comming_cb_def recv_msg_def handle_msgs_unknown)
qed

section \<open>Witnesses\<close>

definition plain_env :: "(nat, nat, nat, nat, nat) conn_env" where
  "plain_env = \<lparr>cn_dispatcher = \<lparr>md_dispatcher = Map.empty, md_args = Map.empty\<rparr>, cn_msg = (\<lambda>h data len cmd u st. Inr st),
     cn_build = None, cn_close = None, cn_raw = (\<lambda>i. NUL), cn_rcb = 1, cn_wcb = 2, cn_args = (\<lambda>c. None)\<rparr>"

definition empty_net :: "nat net" where
  "empty_net = \<lparr>nt_pool = \<lparr>bp_pool = Map.empty, bp_total_mem = 0\<rparr>, nt_curr_conns = 0, nt_conns = Map.empty, nt_app = 0\<rparr>"

definition plain_loop :: "(nat, nat, nat net) event_loop" where
  "plain_loop = new_event_loop 3 0 None empty_net"

definition plain_server :: "(nat, nat) tcp_server" where
  "plain_server = \<lparr>sv_sock_fd = 4, sv_reserved = True, sv_thd_pool = None, sv_max_conns = 2, sv_conn_size = 100\<rparr>"

lemma plain_loop_free: "fd \<noteq> 3 \<Longrightarrow> el_io_evs plain_loop fd = None \<and> el_epoll plain_loop fd = None" "get_conn_num plain_loop = 0"
  by (simp_all add: plain_loop_def new_event_loop_def add_ioev_def epoll_ctl_def get_conn_num_def empty_net_def)

theorem accepted_are_watched_witness:
  "\<exists>l'. do_accept plain_env (map Accepted [5, 6] @ [Accept_again]) (plain_server, plain_loop) = Inr (plain_server, l') \<and>
     (\<forall>fd \<in> set [5, 6]. watched fd l') \<and> get_conn_num l' = 2"
proof -
  have "\<forall>fd \<in> set [5, 6]. fd < sv_conn_size plain_server \<and> el_io_evs plain_loop fd = None \<and> el_epoll plain_loop fd = None"
    using plain_loop_free(1) by (simp add: plain_server_def)
  moreover have "get_conn_num plain_loop + int (length [5, 6 :: int]) \<le> sv_max_conns plain_server" by (simp add: plain_loop_free(2) plain_server_def)
  moreover have "cn_build plain_env = None" "sv_thd_pool plain_server = None" "distinct [5, 6 :: int]" by (simp_all add: plain_env_def plain_server_def)
  ultimately show ?thesis using accepted_are_watched [of plain_env plain_server "[5, 6]" plain_loop] plain_loop_free(2) by fastforce
qed

theorem accepted_within_limit_witness:
  "\<exists>l'. do_accept plain_env [Accepted 5, Accepted 6, Accepted 7] (plain_server, plain_loop) = Inr (plain_server, l') \<and> get_conn_num l' \<le> 2"
proof -
  have k: "build_keeps_count plain_env" by (simp add: build_keeps_count_def plain_env_def)
  then have n: "get_conn_num (open_conn plain_env 5 plain_loop) = 1" "get_conn_num (open_conn plain_env 6 (open_conn plain_env 5 plain_loop)) = 2"
    by (simp_all add: open_conn_num plain_loop_free(2))
  then have d: "do_accept plain_env [Accepted 5, Accepted 6, Accepted 7] (plain_server, plain_loop) =
    Inr (plain_server, open_conn plain_env 6 (open_conn plain_env 5 plain_loop))"
    using plain_loop_free(2) by (simp add: do_accept_def take_conn_def plain_server_def)
  then show ?thesis using accepted_within_limit [OF k _ d] plain_loop_free(2) by (simp add: plain_server_def)
qed

definition threads_config :: config where
  "threads_config = [(''reactor'', [(''threadNum'', ''2'')])]"

theorem threads_drop_messages_witness:
  "\<exists>sv l sv'. new_tcp_server (Some threads_config) 4 7 (0 :: nat) (None :: nat option) plain_loop = Inr (sv, l) \<and>
     do_accept plain_env [Accepted 5, Accept_again] (sv, l) = Inr (sv', l) \<and>
     (\<exists>p. sv_thd_pool sv' = Some p \<and> tq_queue (tp_pool p ! 0) = [New_conn 5] \<and>
       msg_comming_cb plain_env (tp_pool p ! 0) plain_loop = ((tp_pool p ! 0)\<lparr>tq_evfd := 0, tq_queue := []\<rparr>, plain_loop))"
proof -
  have "parse_number ''2'' = 2" by (simp add: parse_number_def atol_def is_space_def is_digit_def)
  then have c: "get_number ''reactor'' ''threadNum'' 0 threads_config = 2" "get_number ''reactor'' ''maxConns'' 10000 threads_config = 10000"
    by (simp_all add: get_number_def config_entry_def threads_config_def)
  define p where "p = \<lparr>tp_curr_index = 0, tp_thread_cnt = 2, tp_pool = replicate 2 (new_thread_queue :: (nat, nat) thread_queue)\<rparr>"
  define sv where "sv = \<lparr>sv_sock_fd = 4, sv_reserved = True, sv_thd_pool = Some p, sv_max_conns = 10000, sv_conn_size = 10007\<rparr>"
  define l where "l = add_ioev 4 0 EPOLLIN None (plain_loop\<lparr>el_world := (el_world plain_loop)\<lparr>nt_conns := Map.empty\<rparr>\<rparr>)"
  have n: "new_tcp_server (Some threads_config) 4 7 (0 :: nat) (None :: nat option) plain_loop = Inr (sv, l)"
    by (simp add: new_tcp_server_def config_ins_def server_threads_def c new_thread_pool_def sv_def l_def p_def)
  have "get_conn_num l = 0" using plain_loop_free(2) by (simp add: l_def get_conn_num_def)
  define q where "q = p\<lparr>tp_curr_index := 1, tp_pool := [send_msg (New_conn 5) new_thread_queue, new_thread_queue]\<rparr>"
  have d: "do_accept plain_env [Accepted 5, Accept_again] (sv, l) = Inr (sv\<lparr>sv_thd_pool := Some q\<rparr>, l)"
    using \<open>get_conn_num l = 0\<close> by (simp add: do_accept_def take_conn_def sv_def p_def q_def get_next_thread_def pool_send_def numeral_2_eq_2)
  have "nt_conns (el_world plain_loop) = nt_conns (el_world l)" by (simp add: l_def plain_loop_def new_event_loop_def add_ioev_def empty_net_def)
  then have "msg_comming_cb plain_env (tp_pool q ! 0) plain_loop = ((tp_pool q ! 0)\<lparr>tq_evfd := 0, tq_queue := []\<rparr>, plain_loop)"
    using threads_drop_messages [OF n _ d] by (simp add: sv_def)
  moreover have "tq_queue (tp_pool q ! 0) = [New_conn 5]" by (simp add: q_def send_msg_def new_thread_queue_def)
  ultimately show ?thesis using n d by (intro exI [of _ sv] exI [of _ l] exI [of _ "sv\<lparr>sv_thd_pool := Some q\<rparr>"]) simp
qed

end
