(* ===== verification/Tcp_Properties.thy ===== *)
theory Tcp_Properties
  imports Tcp_Conn
begin

text \<open>
  Messages on a connection: what is sent is a sequence of frames, what has arrived is cut back into exactly these messages, however
  the bytes were split on the way, and each is handed to its callback once and in order. A connection that has sent a reply is no
  longer watched by the kernel, and an empty message at the end of the input ends the program.
\<close>

section \<open>Frames\<close>

type_synonym message = "32 word \<times> string"

definition frame :: "message \<Rightarrow> string" where
  "frame m = head_bytes \<lparr>ch_cmdid = fst m, ch_length = of_nat (length (snd m))\<rparr> @ snd m"

text \<open>The messages that are complete, and the bytes behind them.\<close>

function deframe :: "string \<Rightarrow> message list \<times> string" where
  "deframe s =
     (if length s < 8 then ([], s)
      else
        (let h = read_head s; n = unat (ch_length h) in
         if length s < 8 + n then ([], s)
         else (let (ms, r) = deframe (drop (8 + n) s) in ((ch_cmdid h, take n (drop 8 s)) # ms, r))))"
  by pat_completeness auto
termination by (relation "measure length") auto

declare deframe.simps [simp del]

lemma length_head_bytes [simp]: "length (head_bytes h) = 8"
  by (simp add: head_bytes_def)

lemma read_head_bytes [simp]: "read_head (head_bytes h @ s) = h"
  by (cases h) (simp add: read_head_def head_bytes_def)

lemma read_head_take: "8 \<le> length s \<Longrightarrow> read_head (take 8 s) = read_head s"
  by (simp add: read_head_def min_def drop_take)

lemma deframe_frame:
  assumes "length (snd m) < 2 ^ 32"
  shows "deframe (frame m @ s) = (m # fst (deframe s), snd (deframe s))"
proof -
  have "unat (of_nat (length (snd m)) :: 32 word) = length (snd m)" using assms by (simp add: unsigned_of_nat take_bit_nat_eq_self)
  then show ?thesis by (subst deframe.simps) (cases m; simp add: frame_def Let_def split: prod.splits)
qed

lemma deframe_frames: "\<forall>m \<in> set ms. length (snd m) < 2 ^ 32 \<Longrightarrow> deframe (concat (map frame ms) @ s) = (ms @ fst (deframe s), snd (deframe s))"
  by (induction ms) (simp_all add: deframe_frame)

lemma deframe_short: "length s < 8 \<Longrightarrow> deframe s = ([], s)"
  by (subst deframe.simps) simp

text \<open>It does not matter where the bytes were cut.\<close>

lemma deframe_append: "deframe (s @ t) = (fst (deframe s) @ fst (deframe (snd (deframe s) @ t)), snd (deframe (snd (deframe s) @ t)))"
proof (induction s rule: deframe.induct)
  case (1 s)
  let ?n = "unat (ch_length (read_head s))"
  show ?case
  proof (cases "length s < 8 \<or> length s < 8 + ?n")
    case True
    then have "deframe s = ([], s)" by (subst deframe.simps) (auto simp: Let_def)
    then show ?thesis by simp
  next
    case False
    then have h: "read_head (s @ t) = read_head s" by (simp add: read_head_def)
    obtain ms r where m: "deframe (drop (8 + ?n) s) = (ms, r)" by fastforce
    have "deframe s = ((ch_cmdid (read_head s), take ?n (drop 8 s)) # ms, r)" using False m by (subst deframe.simps) (simp add: Let_def)
    moreover have "deframe (s @ t) = ((ch_cmdid (read_head s), take ?n (drop 8 s)) # fst (deframe (drop (8 + ?n) s @ t)), snd (deframe (drop (8 + ?n) s @ t)))"
      using False h by (subst deframe.simps) (simp add: Let_def split: prod.splits)
    moreover have "deframe (drop (8 + ?n) s @ t) = (ms @ fst (deframe (r @ t)), snd (deframe (r @ t)))"
      using 1 [OF _ refl refl] False m by simp
    ultimately show ?thesis by simp
  qed
qed

section \<open>Sending\<close>

definition conn_ok :: "('c, 'a, 'x) conn_state \<Rightarrow> bool" where
  "conn_ok st \<longleftrightarrow> pool_ok (the_pool (snd st)) \<and> tb_ok (tc_ibuf (fst st)) \<and> tb_ok (tc_obuf (fst st)) \<and>
     (\<forall>b. tc_ibuf (fst st) = Some b \<longrightarrow> ib_head b = 0) \<and> (\<forall>b. tc_obuf (fst st) = Some b \<longrightarrow> ib_head b = 0)"

abbreviation out_bytes :: "('c, 'a, 'x) conn_state \<Rightarrow> string" where
  "out_bytes st \<equiv> tb_content (tc_obuf (fst st))"

abbreviation in_bytes :: "('c, 'a, 'x) conn_state \<Rightarrow> string" where
  "in_bytes st \<equiv> tb_content (tc_ibuf (fst st))"

lemma set_pool_simps [simp]:
  "the_pool (set_pool p l) = p" "el_io_evs (set_pool p l) = el_io_evs l" "el_epoll (set_pool p l) = el_epoll l"
  "nt_app (el_world (set_pool p l)) = nt_app (el_world l)"
  by (simp_all add: set_pool_def)

lemma send_part_ok:
  assumes "conn_ok st" "send_part env bs st = Inr (r, st')"
  shows "conn_ok st' \<and> (r = 0 \<and> out_bytes st' = out_bytes st @ bs \<or> r = - 1 \<and> out_bytes st' = out_bytes st) \<and>
    (\<exists>obuf p. st' = ((fst st)\<lparr>tc_obuf := obuf\<rparr>, set_pool p (snd st)))"
proof -
  obtain obuf p where s: "send_bytes (cn_raw env) bs (tc_obuf (fst st), the_pool (snd st)) = Inr (r, obuf, p)"
    "st' = ((fst st)\<lparr>tc_obuf := obuf\<rparr>, set_pool p (snd st))"
    using assms(2) by (cases "send_bytes (cn_raw env) bs (tc_obuf (fst st), the_pool (snd st))") (auto simp: send_part_def)
  have "pool_ok p \<and> tb_ok obuf \<and> (\<forall>b. obuf = Some b \<longrightarrow> ib_head b = 0) \<and>
    (r = 0 \<and> tb_content obuf = tb_content (tc_obuf (fst st)) @ bs \<or> r = - 1 \<and> obuf = tc_obuf (fst st))"
    using assms(1) by (intro send_bytes_ok [OF _ _ _ s(1)]) (simp_all add: conn_ok_def)
  then show ?thesis using assms(1) s(2) by (auto simp: conn_ok_def)
qed

lemma conn_send_data_ok:
  assumes "conn_ok st" "conn_send_data env data cmdid st = Inr (0, st')"
  shows "conn_ok st' \<and> out_bytes st' = out_bytes st @ frame (cmdid, data)"
proof -
  let ?h = "head_bytes \<lparr>ch_cmdid = cmdid, ch_length = of_nat (length data)\<rparr>"
  obtain r1 st1 where 1: "send_part env ?h st = Inr (r1, st1)"
    using assms(2) by (cases "send_part env ?h st") (auto simp: conn_send_data_def Let_def)
  note s1 = send_part_ok [OF assms(1) 1]
  have r1: "r1 = 0" using assms(2) 1 by (auto simp: conn_send_data_def Let_def split: if_splits)
  obtain r2 st2 where 2: "send_part env data st1 = Inr (r2, st2)"
    using assms(2) 1 r1 by (cases "send_part env data st1") (auto simp: conn_send_data_def Let_def)
  have s2: "conn_ok st2 \<and> (r2 = 0 \<and> out_bytes st2 = out_bytes st1 @ data \<or> r2 = - 1 \<and> out_bytes st2 = out_bytes st1)" using send_part_ok [OF _ 2] s1 by blast
  have r2: "r2 = 0"
  proof (rule ccontr)
    assume "r2 \<noteq> 0"
    then show False using assms(2) 1 2 r1
      by (cases "tb_pop COMMU_HEAD_LENGTH (tc_obuf (fst st2), the_pool (snd st2))") (auto simp: conn_send_data_def Let_def)
  qed
  have "st' = st2 \<or> st' = (fst st2, add_ioev (tc_connfd (fst st2)) (cn_wcb env) EPOLLOUT (cn_args env (fst st2)) (snd st2))"
    using assms(2) 1 2 r1 r2 by (auto simp: conn_send_data_def Let_def split: if_splits)
  then show ?thesis using s1 s2 r1 r2 by (auto simp: conn_ok_def frame_def)
qed

fun send_messages :: "('c, 'a, 'h, 'u, 'x) conn_env \<Rightarrow> message list \<Rightarrow> ('c, 'a, 'x) conn_state \<Rightarrow> (bool \<times> ('c, 'a, 'x) conn_state) result" where
  "send_messages env [] st = Inr (True, st)"
| "send_messages env (m # ms) st =
     res_bind (conn_send_data env (snd m) (fst m) st) (\<lambda>(r, st). if r = 0 then send_messages env ms st else Inr (False, st))"

lemma send_messages_ok:
  "conn_ok st \<Longrightarrow> send_messages env ms st = Inr (True, st') \<Longrightarrow> conn_ok st' \<and> out_bytes st' = out_bytes st @ concat (map frame ms)"
proof (induction ms arbitrary: st)
  case (Cons m ms)
  obtain st1 where 1: "conn_send_data env (snd m) (fst m) st = Inr (0, st1)" "send_messages env ms st1 = Inr (True, st')"
    using Cons.prems(2) by (cases "conn_send_data env (snd m) (fst m) st") (auto split: if_splits)
  have "conn_ok st1 \<and> out_bytes st1 = out_bytes st @ frame m" using conn_send_data_ok [OF Cons.prems(1) 1(1)] by simp
  then show ?case using Cons.IH [OF _ 1(2)] by simp
qed simp

section \<open>Writing\<close>

fun answers_fit :: "write_answer list \<Rightarrow> nat \<Rightarrow> bool" where
  "answers_fit [] n = True"
| "answers_fit (Wrote k # ws) n = (k \<le> n \<and> answers_fit ws (n - k))"
| "answers_fit (Would_block # ws) n = True"
| "answers_fit (Write_failed # ws) n = False"

lemma write_loop_ok:
  "conn_ok st \<Longrightarrow> answers_fit ws (length (out_bytes st)) \<Longrightarrow>
   \<exists>bs obuf. write_loop env ws st = Inr (bs, True, (fst st)\<lparr>tc_obuf := obuf\<rparr>, snd st) \<and> conn_ok ((fst st)\<lparr>tc_obuf := obuf\<rparr>, snd st) \<and>
     out_bytes st = bs @ tb_content obuf"
proof (induction ws arbitrary: st)
  case Nil
  then show ?case by (intro exI [of _ "[]"] exI [of _ "tc_obuf (fst st)"]) simp
next
  case (Cons w ws)
  let ?o = "tc_obuf (fst st)"
  have o: "tb_ok ?o" "\<And>b. ?o = Some b \<Longrightarrow> ib_head b = 0" using Cons.prems(1) by (simp_all add: conn_ok_def)
  have len: "int (length (out_bytes st)) = tb_length ?o" using tb_length_content [OF o(1)] .
  show ?case
  proof (cases "tb_length ?o = 0")
    case True
    then show ?thesis using Cons.prems(1) by (intro exI [of _ "[]"] exI [of _ ?o]) simp
  next
    case False
    then have ne: "?o \<noteq> None" by (auto simp: tb_length_def split: option.splits)
    have fit: "int n \<le> tb_length ?o" if "w = Wrote n" for n using Cons.prems(2) that len by simp
    obtain bs r obuf where w: "write_fd w ?o = Inr (bs, r, obuf)" "tb_ok obuf" "\<forall>b. obuf = Some b \<longrightarrow> ib_head b = 0"
      "out_bytes st = bs @ tb_content obuf" "r = (case w of Wrote n \<Rightarrow> int n | Would_block \<Rightarrow> 0 | Write_failed \<Rightarrow> - 1)"
      "\<forall>n. w = Wrote n \<longrightarrow> length bs = n"
      using write_fd_ok [OF o(1) ne o(2) fit] by blast
    let ?st = "((fst st)\<lparr>tc_obuf := obuf\<rparr>, snd st)"
    have ok: "conn_ok ?st" using Cons.prems(1) w(2,3) by (simp add: conn_ok_def)
    have r: "r \<noteq> - 1" using w(5) Cons.prems(2) by (cases w) auto
    show ?thesis
    proof (cases "r = 0")
      case True
      then show ?thesis using False w(1,4) ok r by (intro exI [of _ bs] exI [of _ obuf]) (simp add: Let_def)
    next
      case False
      then obtain n where n: "w = Wrote n" using w(5) r by (cases w) auto
      have "length bs = n" using w(6) n by simp
      then have "length (out_bytes ?st) = length (out_bytes st) - n" using w(4) by simp
      then have fit': "answers_fit ws (length (out_bytes ?st))" using Cons.prems(2) n by simp
      obtain more obuf' where m: "write_loop env ws ?st = Inr (more, True, (fst ?st)\<lparr>tc_obuf := obuf'\<rparr>, snd ?st)"
        "conn_ok ((fst ?st)\<lparr>tc_obuf := obuf'\<rparr>, snd ?st)" "out_bytes ?st = more @ tb_content obuf'"
        using Cons.IH [OF ok fit'] by blast
      then show ?thesis using \<open>tb_length ?o \<noteq> 0\<close> False w(1,4) r
        by (intro exI [of _ "bs @ more"] exI [of _ obuf']) (simp add: Let_def)
    qed
  qed
qed

lemma write_loop_all:
  assumes "conn_ok st" "out_bytes st \<noteq> []" "n = length (out_bytes st)"
  shows "\<exists>obuf. write_loop env [Wrote n] st = Inr (out_bytes st, True, (fst st)\<lparr>tc_obuf := obuf\<rparr>, snd st) \<and> tb_length obuf = 0 \<and>
    conn_ok ((fst st)\<lparr>tc_obuf := obuf\<rparr>, snd st)"
proof -
  let ?o = "tc_obuf (fst st)"
  have o: "tb_ok ?o" "\<And>b. ?o = Some b \<Longrightarrow> ib_head b = 0" using assms(1) by (simp_all add: conn_ok_def)
  have len: "int (length (out_bytes st)) = tb_length ?o" using tb_length_content [OF o(1)] .
  then have l: "tb_length ?o = int n" "n \<noteq> 0" using assms(2,3) by simp_all
  then have ne: "?o \<noteq> None" by (auto simp: tb_length_def split: option.splits)
  obtain bs r obuf where w: "write_fd (Wrote n) ?o = Inr (bs, r, obuf)" "tb_ok obuf" "\<forall>b. obuf = Some b \<longrightarrow> ib_head b = 0"
    "out_bytes st = bs @ tb_content obuf" "r = int n" "length bs = n"
    using write_fd_ok [OF o(1) ne o(2), of "Wrote n"] l by auto
  have "length (out_bytes st) = length bs + length (tb_content obuf)" unfolding w(4) by simp
  then have "length (tb_content obuf) = 0" using w(6) assms(3) by linarith
  then have e: "tb_content obuf = []" by simp
  have "out_bytes st = bs" unfolding w(4) e by simp
  moreover have "tb_length obuf = 0" using tb_length_content [OF w(2)] e by simp
  moreover have "conn_ok ((fst st)\<lparr>tc_obuf := obuf\<rparr>, snd st)" using assms(1) w(2,3) by (simp add: conn_ok_def)
  ultimately show ?thesis using l w(1,5) by (intro exI [of _ obuf]) (simp add: Let_def)
qed

section \<open>Receiving\<close>

text \<open>
  The messages are handed to their callbacks, one after the other; in between only the input buffer and the pool change. A callback
  is given the bytes of its message and what the memory holds behind them.
\<close>

definition same_but_input :: "('c, 'a, 'x) conn_state \<Rightarrow> ('c, 'a, 'x) conn_state \<Rightarrow> bool" where
  "same_but_input st st' \<longleftrightarrow> (\<exists>ibuf p. st' = ((fst st)\<lparr>tc_ibuf := ibuf\<rparr>, set_pool p (snd st)))"

inductive delivers :: "('c, 'a, 'h, 'u, 'x) conn_env \<Rightarrow> message list \<Rightarrow> ('c, 'a, 'x) conn_state \<Rightarrow> ('c, 'a, 'x) conn_state \<Rightarrow> bool" for env where
  nothing: "same_but_input st st' \<Longrightarrow> delivers env [] st st'"
| message: "same_but_input st st1 \<Longrightarrow> call_msg env (Some (data @ behind)) (of_nat (length data)) cmdid st1 = Inr st2 \<Longrightarrow>
    delivers env ms st2 st' \<Longrightarrow> delivers env ((cmdid, data) # ms) st st'"

lemma same_but_input_refl [simp]: "same_but_input st st"
  by (auto simp: same_but_input_def set_pool_def intro!: exI [of _ "tc_ibuf (fst st)"] exI [of _ "the_pool (snd st)"])

lemma set_pool_set_pool [simp]: "set_pool p (set_pool p' l) = set_pool p l"
  by (simp add: set_pool_def)

lemma same_but_input_trans: "same_but_input st st' \<Longrightarrow> same_but_input st' st'' \<Longrightarrow> same_but_input st st''"
  by (auto simp: same_but_input_def)

lemma delivers_after: "same_but_input st st1 \<Longrightarrow> delivers env ms st1 st' \<Longrightarrow> delivers env ms st st'"
  by (erule delivers.cases) (auto intro: delivers.intros same_but_input_trans)

lemma delivers_append: "delivers env ms st st1 \<Longrightarrow> delivers env ks st1 st' \<Longrightarrow> delivers env (ms @ ks) st st'"
  by (induction rule: delivers.induct) (auto intro: delivers.intros delivers_after)

text \<open>Callbacks that return, leave the input alone and keep the pool in order.\<close>

definition benign :: "('c, 'a, 'h, 'u, 'x) conn_env \<Rightarrow> bool" where
  "benign env \<longleftrightarrow> (\<forall>f data len cmdid u st. pool_ok (the_pool (snd st)) \<longrightarrow>
     (\<exists>st'. cn_msg env f data len cmdid u st = Inr st' \<and> tc_ibuf (fst st') = tc_ibuf (fst st) \<and> pool_ok (the_pool (snd st'))))"

text \<open>
  Each size of buffer has a free one in the pool, or is the size of the buffer in use; \<open>frugal\<close> callbacks leave it
  at that: they do not take the last free buffer of a size.
\<close>

definition supplied :: "buffer_pool \<Rightarrow> tcp_buffer \<Rightarrow> bool" where
  "supplied p buf \<longleftrightarrow> (\<forall>c \<in> set mem_caps. bp_pool p c \<noteq> Some [] \<or> (\<exists>b. buf = Some b \<and> ib_capacity b = int c))"

definition frugal :: "('c, 'a, 'h, 'u, 'x) conn_env \<Rightarrow> bool" where
  "frugal env \<longleftrightarrow> (\<forall>f data len cmdid u st st'. cn_msg env f data len cmdid u st = Inr st' \<longrightarrow>
     (\<forall>c \<in> set mem_caps. bp_pool (the_pool (snd st')) c = Some [] \<longrightarrow> bp_pool (the_pool (snd st)) c = Some []))"

abbreviation well_supplied :: "('c, 'a, 'x) conn_state \<Rightarrow> bool" where
  "well_supplied st \<equiv> supplied (the_pool (snd st)) (tc_ibuf (fst st))"

lemma revert_supplied:
  assumes "pool_revert b p = Inr p'" "ib_ok b" "supplied p (Some b')" "ib_capacity b' = ib_capacity b"
  shows "supplied p' buf"
proof -
  have "bp_pool p' c \<noteq> Some []" if c: "c \<in> set mem_caps" for c
  proof (cases "int c = ib_capacity b")
    case True
    then have "nat (ib_capacity b) = c" by simp
    then show ?thesis using assms(1) by (auto simp: pool_revert_def Let_def split: option.split_asm)
  next
    case False
    then have "bp_pool p c \<noteq> Some []" "nat (ib_capacity b) \<noteq> c" using c assms(2-4) by (auto simp: supplied_def ib_ok_def)
    then show ?thesis using assms(1) by (auto simp: pool_revert_def Let_def split: option.split_asm)
  qed
  then show ?thesis by (simp add: supplied_def)
qed

lemma tb_pop_supplied:
  assumes "tb_pop n (buf, p) = Inr (buf', p')" "tb_ok buf" "0 \<le> n" "supplied p buf"
  shows "supplied p' buf'"
proof -
  obtain b where b: "buf = Some b" "ib_ok b" "n \<le> ib_length b" using assms(1,2) by (auto simp: tb_pop_def tb_ok_def split: option.split_asm if_split_asm)
  note po = ib_pop_ok [OF b(2) assms(3) b(3)]
  show ?thesis
  proof (cases "ib_length (ib_pop n b) = 0")
    case True
    then have "pool_revert (ib_pop n b) p = Inr p'" using assms(1) b(1,3) by (auto simp: tb_pop_def Let_def res_bind_eq_Inr)
    then show ?thesis using revert_supplied [OF _ po(1)] assms(4) b(1) po(3) by simp
  next
    case False
    then show ?thesis using assms(1,4) b(1,3) po(3) by (auto simp: tb_pop_def Let_def supplied_def)
  qed
qed

lemma pool_alloc_total:
  assumes "pool_ok p" "N \<le> 8388608"
  obtains (exits) c where "pool_alloc raw N p = Inl Exit_failure" "c \<in> set mem_caps" "N \<le> int c" "bp_pool p c = Some []"
  | (gives) b c free p' where "pool_alloc raw N p = Inr (Some b, p')" "c \<in> set mem_caps" "N \<le> int c" "ib_capacity b = int c"
      "bp_pool p' = (bp_pool p)(c \<mapsto> free)"
proof -
  have "mem_index N \<noteq> None" using assms(2) by (simp add: mem_index_def)
  then obtain c where c: "mem_index N = Some c" by blast
  note c' = mem_index_ok [OF c]
  then obtain free where f: "bp_pool p c = Some free" using pool_ok_class [OF assms(1)] by blast
  show ?thesis
  proof (cases free)
    case Nil
    then show ?thesis using c c' f exits [of c] gives [of "new_io_buffer raw c" _ c "[]"]
      by (cases "bp_total_mem p + of_nat (c div 1024) \<ge> of_nat EXTRA_MEM_LIMIT") (simp_all add: pool_alloc_def new_io_buffer_def)
  next
    case (Cons b bs)
    then have "ib_capacity b = int c" using pool_ok_free [OF assms(1) f, of b] by simp
    then show ?thesis using c c' f Cons gives [of b _ c bs] by (simp add: pool_alloc_def)
  qed
qed

lemma make_room_total:
  assumes ok: "pool_ok p" "tb_ok buf" "\<And>b. buf = Some b \<Longrightarrow> ib_head b = 0" and n: "0 \<le> n" "n + tb_length buf \<le> 8388608"
  shows "(make_room raw n (buf, p) = Inl Exit_failure \<and> \<not> supplied p buf) \<or>
    (\<exists>b p'. make_room raw n (buf, p) = Inr (Some b, p') \<and> (supplied p buf \<longrightarrow> supplied p' (Some b)))"
proof (cases buf)
  case None
  have n': "n \<le> 8388608" using n None by (simp add: tb_length_def)
  show ?thesis
    by (rule pool_alloc_total [OF ok(1) n', of raw]) (auto simp: make_room_def None supplied_def)
next
  case (Some b)
  then have b: "ib_ok b" "ib_head b = 0" "n + ib_length b \<le> 8388608" using ok(2,3) n by (simp_all add: tb_ok_def tb_length_def)
  show ?thesis
  proof (cases "ib_capacity b - ib_length b < n")
    case True
    have room: "make_room raw n (buf, p) = res_bind (pool_alloc raw (n + ib_length b) p) (\<lambda>(new_buf, p). case new_buf of
        None \<Rightarrow> Inr (None, p) | Some nb \<Rightarrow> res_bind (ib_copy nb b) (\<lambda>nb. res_bind (pool_revert b p) (\<lambda>p. Inr (Some nb, p))))"
      using Some b(2) True by (simp add: make_room_def)
    show ?thesis
    proof (rule pool_alloc_total [OF ok(1) b(3), of raw])
      fix c
      assume c: "pool_alloc raw (n + ib_length b) p = Inl Exit_failure" "c \<in> set mem_caps" "n + ib_length b \<le> int c" "bp_pool p c = Some []"
      then have "\<not> supplied p buf" using True Some by (auto simp: supplied_def)
      then show ?thesis using c(1) room by simp
    next
      fix nb c free p1
      assume a: "pool_alloc raw (n + ib_length b) p = Inr (Some nb, p1)" "c \<in> set mem_caps" "n + ib_length b \<le> int c" "ib_capacity nb = int c"
        "bp_pool p1 = (bp_pool p)(c \<mapsto> free)"
      note al = pool_alloc_ok [OF ok(1) a(1)]
      have nb: "ib_ok nb" "ib_length b \<le> ib_capacity nb" "pool_ok p1" using al n(1) by auto
      obtain c' where c': "ib_copy nb b = Inr c'" "ib_capacity c' = ib_capacity nb" using ib_copy_ok [OF nb(1) b(1) nb(2)] by blast
      obtain p2 where p2: "pool_revert b p1 = Inr p2" using pool_revert_ok [OF nb(3) b(1)] by blast
      have "supplied p2 (Some c')" if sup: "supplied p buf"
      proof -
        have "ib_capacity b < int c" using True a(3) by simp
        then have ne: "bp_pool p2 d = (if d = c then Some free else if int d = ib_capacity b
            then map_option (\<lambda>fr. b\<lparr>ib_length := 0, ib_head := 0\<rparr> # fr) (bp_pool p d) else bp_pool p d)" for d
          using p2 b(1) unfolding pool_revert_def Let_def a(5) by (auto simp: ib_ok_def split: option.split_asm if_split_asm)
        show ?thesis using sup c'(2) a(4) Some unfolding supplied_def ne by auto
      qed
      then show ?thesis using room a(1) c'(1) p2 by auto
    qed
  next
    case False
    then show ?thesis using Some b(2) by (auto simp: make_room_def supplied_def)
  qed
qed

lemma read_data_total:
  assumes ok: "pool_ok p" "tb_ok buf" "\<And>b. buf = Some b \<Longrightarrow> ib_head b = 0" and n: "bs \<noteq> []" "int (length bs) + tb_length buf \<le> 8388608"
  shows "(read_data raw (Some (length bs)) (Some bs) (buf, p) = Inl Exit_failure \<and> \<not> supplied p buf) \<or>
    (\<exists>b p'. read_data raw (Some (length bs)) (Some bs) (buf, p) = Inr (int (length bs), b, p') \<and> (supplied p buf \<longrightarrow> supplied p' b))"
proof -
  have "(make_room raw (int (length bs)) (buf, p) = Inl Exit_failure \<and> \<not> supplied p buf) \<or>
    (\<exists>b p'. make_room raw (int (length bs)) (buf, p) = Inr (Some b, p') \<and> (supplied p buf \<longrightarrow> supplied p' (Some b)))"
    by (rule make_room_total) (use ok n in auto)
  then show ?thesis
  proof (elim disjE exE)
    assume "make_room raw (int (length bs)) (buf, p) = Inl Exit_failure \<and> \<not> supplied p buf"
    then show ?thesis by (simp add: read_data_def)
  next
    fix b p'
    assume m: "make_room raw (int (length bs)) (buf, p) = Inr (Some b, p') \<and> (supplied p buf \<longrightarrow> supplied p' (Some b))"
    have mo: "pool_ok p' \<and> (\<forall>c. Some b = Some c \<longrightarrow> ib_ok c \<and> ib_head c = 0 \<and> ib_content c = tb_content buf \<and>
        ib_length c + int (length bs) \<le> ib_capacity c)"
      by (rule make_room_ok [of p buf "int (length bs)" raw]) (use ok m in auto)
    then obtain d where "mem_write (ib_length b) bs (ib_data b) = Inr d" using put_bytes_ok [of b bs] by auto
    then show ?thesis using m n(1) by (auto simp: read_data_def supplied_def)
  qed
qed

text \<open>Messages with a length between 1 and the limit and a registered command.\<close>

function stream_ok :: "('h, 'u) msg_dispatcher \<Rightarrow> string \<Rightarrow> bool" where
  "stream_ok d s \<longleftrightarrow>
     (if length s < 8 then True
      else
        (let h = read_head s; n = unat (ch_length h) in
         0 < sint (ch_length h) \<and> sint (ch_length h) \<le> MSG_LENGTH_LIMIT \<and>
         (if length s < 8 + n then True else is_exist (ch_cmdid h) d \<and> stream_ok d (drop (8 + n) s))))"
  by pat_completeness auto
termination by (relation "measure (\<lambda>(d, s). length s)") auto

declare stream_ok.simps [simp del]

definition in_ok :: "('c, 'a, 'x) conn_state \<Rightarrow> bool" where
  "in_ok st \<longleftrightarrow> pool_ok (the_pool (snd st)) \<and> tb_ok (tc_ibuf (fst st))"

lemma sint_unat: "0 \<le> sint (w :: 32 word) \<Longrightarrow> sint w = int (unat w)"
proof -
  assume "0 \<le> sint w"
  then have b: "\<not> bit (uint w) 31" by (simp add: sint_uint signed_take_bit_nonnegative_iff)
  have "sint w = take_bit 31 (uint w)" using b by (simp add: sint_uint signed_take_bit_eq_if_positive)
  also have "bit (take_bit 31 (uint w)) n = bit (take_bit 32 (uint w)) n" for n
    using b by (cases "n = 31") (auto simp: bit_take_bit_iff)
  then have "take_bit 31 (uint w) = take_bit 32 (uint w)" by (intro bit_eqI) blast
  also have "\<dots> = uint w" using unsigned_greater_eq [of w, where ?'a = int] unsigned_less [of w, where ?'a = int] by (simp add: take_bit_int_eq_self)
  finally show ?thesis by simp
qed

lemma input_at_content: "tb_ok buf \<Longrightarrow> buf \<noteq> None \<Longrightarrow> \<exists>more. input_at buf = Some (tb_content buf @ more)"
  by (cases buf) (simp_all add: input_at_def tb_content_def ib_content_def, metis append_take_drop_id)

lemma pop_input_ok:
  assumes "in_ok st" "tc_ibuf (fst st) \<noteq> None" "n \<le> length (in_bytes st)"
  shows "\<exists>st'. pop_input (int n) st = Inr st' \<and> same_but_input st st' \<and> in_ok st' \<and> in_bytes st' = drop n (in_bytes st) \<and>
    (tc_ibuf (fst st') = None \<longleftrightarrow> n = length (in_bytes st))"
proof -
  have l: "tb_length (tc_ibuf (fst st)) = int (length (in_bytes st))" using assms(1) tb_length_content by (simp add: in_ok_def)
  obtain ibuf p where t: "tb_pop (int n) (tc_ibuf (fst st), the_pool (snd st)) = Inr (ibuf, p)" "pool_ok p" "tb_ok ibuf"
    "tb_content ibuf = drop n (in_bytes st)" "ibuf = None \<longleftrightarrow> n = length (in_bytes st)"
    using tb_pop_ok [of "the_pool (snd st)" "tc_ibuf (fst st)" "int n"] assms l by (auto simp: in_ok_def)
  then show ?thesis by (cases st) (auto simp: pop_input_def same_but_input_def in_ok_def)
qed

lemma read_message_eq:
  assumes "in_ok st" "8 \<le> length s" "in_bytes st = s"
  shows "read_message env st =
    (let head = read_head s; len = sint (ch_length head) in
     if MSG_LENGTH_LIMIT < len \<or> len < 0 then res_bind (clean_conn env st) (\<lambda>st. Inr (False, st))
     else if int (length s) < 8 + len then Inr (False, st)
     else if \<not> is_exist (ch_cmdid head) (cn_dispatcher env) then res_bind (clean_conn env st) (\<lambda>st. Inr (False, st))
     else res_bind (pop_input 8 st) (\<lambda>st.
       res_bind (call_msg env (input_at (tc_ibuf (fst st))) (ch_length head) (ch_cmdid head) st) (\<lambda>st.
       res_bind (pop_input len st) (\<lambda>st. Inr (True, st)))))"
proof -
  obtain b where b: "tc_ibuf (fst st) = Some b" "ib_ok b" using assms by (cases "tc_ibuf (fst st)") (auto simp: in_ok_def tb_ok_def tb_content_def)
  have l: "tb_length (Some b) = int (length s)" using assms(1,3) tb_length_content [of "Some b"] b by (simp add: in_ok_def)
  have s: "s = ib_content b" using assms(3) b(1) by (simp add: tb_content_def)
  have m: "mem_read (ib_head b) 8 (ib_data b) = Inr (take 8 s)"
    using b(2) assms(2) unfolding s by (auto elim!: ib_okE simp: mem_read_def ib_content_def)
  show ?thesis unfolding read_message_def COMMU_HEAD_LENGTH_def b(1) option.case m res_bind_simps read_head_take [OF assms(2)] l ..
qed

lemma read_message_done:
  assumes "in_ok st" "benign env" "8 \<le> length s" "stream_ok (cn_dispatcher env) s" "in_bytes st = s"
    and "h = read_head s" "n = unat (ch_length h)"
  shows "if length s < 8 + n then read_message env st = Inr (False, st)
    else \<exists>st'. read_message env st = Inr (True, st') \<and> delivers env [(ch_cmdid h, take n (drop 8 s))] st st' \<and>
      in_ok st' \<and> in_bytes st' = drop (8 + n) s"
proof -
  have h: "0 < sint (ch_length h)" "sint (ch_length h) \<le> MSG_LENGTH_LIMIT" "\<not> length s < 8 + n \<Longrightarrow> is_exist (ch_cmdid h) (cn_dispatcher env)"
    using assms(3,4,6,7) by (subst (asm) stream_ok.simps, auto simp: Let_def)+
  have n: "sint (ch_length h) = int n" unfolding assms(7) using h(1) by (intro sint_unat) simp
  have n0: "0 < n" using h(1) unfolding n by simp
  have eq: "read_message env st =
    (if length s < 8 + n then Inr (False, st)
     else res_bind (pop_input 8 st) (\<lambda>st. res_bind (call_msg env (input_at (tc_ibuf (fst st))) (ch_length h) (ch_cmdid h) st) (\<lambda>st.
       res_bind (pop_input (int n) st) (\<lambda>st. Inr (True, st)))))"
  proof -
    have c: "(MSG_LENGTH_LIMIT < int n \<or> int n < 0) = False" "int (length s) < 8 + int n \<longleftrightarrow> length s < 8 + n" using h(2) n by auto
    show ?thesis unfolding read_message_eq [OF assms(1,3,5)] Let_def assms(6) [symmetric] n c if_False
      using h(3) by (cases "length s < 8 + n") (simp_all only: if_True if_False not_True_eq_False not_False_eq_True simp_thms)
  qed
  show ?thesis
  proof (cases "length s < 8 + n")
    case True
    then show ?thesis using eq by simp
  next
    case False
    have ne: "tc_ibuf (fst st) \<noteq> None" using assms(3,5) by (auto simp: tb_content_def split: option.splits)
    obtain st1 where p1: "pop_input 8 st = Inr st1" "same_but_input st st1" "in_ok st1" "in_bytes st1 = drop 8 s" "tc_ibuf (fst st1) \<noteq> None"
      using pop_input_ok [OF assms(1) ne, of 8] assms(3,5) False n0 by auto
    obtain rest where "input_at (tc_ibuf (fst st1)) = Some (drop 8 s @ rest)"
      using input_at_content [of "tc_ibuf (fst st1)"] p1(3-5) by (auto simp: in_ok_def)
    then have at: "input_at (tc_ibuf (fst st1)) = Some (take n (drop 8 s) @ drop n (drop 8 s) @ rest)"
      unfolding append_assoc [symmetric] append_take_drop_id .
    have ln: "length (take n (drop 8 s)) = n" "of_nat n = ch_length h" using False assms(7) by simp_all
    obtain f where f: "md_dispatcher (cn_dispatcher env) (ch_cmdid h) = Some f" using h(3) False by (auto simp: is_exist_def)
    obtain st2 where c: "call_msg env (input_at (tc_ibuf (fst st1))) (ch_length h) (ch_cmdid h) st1 = Inr st2" "tc_ibuf (fst st2) = tc_ibuf (fst st1)"
      "pool_ok (the_pool (snd st2))"
      using assms(2) p1(3) unfolding benign_def in_ok_def call_msg_def f option.case by blast
    have ok2: "in_ok st2" using c(2,3) p1(3) by (simp add: in_ok_def)
    have ne2: "tc_ibuf (fst st2) \<noteq> None" "n \<le> length (in_bytes st2)" using c(2) p1(4,5) False by simp_all
    obtain st3 where p2: "pop_input (int n) st2 = Inr st3" "same_but_input st2 st3" "in_ok st3" "in_bytes st3 = drop n (drop 8 s)"
      using pop_input_ok [OF ok2 ne2] c(2) p1(4) by auto
    have "read_message env st = Inr (True, st3)" unfolding eq using False p1(1) c(1) p2(1) by simp
    moreover have "call_msg env (Some (take n (drop 8 s) @ drop n (drop 8 s) @ rest)) (of_nat (length (take n (drop 8 s)))) (ch_cmdid h) st1 = Inr st2"
      using c(1) unfolding ln at .
    then have "delivers env [(ch_cmdid h, take n (drop 8 s))] st st3"
      by (rule delivers.message [OF p1(2) _ delivers.nothing [OF p2(2)]])
    ultimately show ?thesis using False p2(3,4) by (simp add: add.commute)
  qed
qed

lemma read_loop_delivers:
  "in_ok st \<Longrightarrow> benign env \<Longrightarrow> stream_ok (cn_dispatcher env) (in_bytes st) \<Longrightarrow>
   \<exists>st'. read_loop env st = Some (Inr st') \<and> delivers env (fst (deframe (in_bytes st))) st st' \<and> in_ok st' \<and> in_bytes st' = snd (deframe (in_bytes st))"
proof (induction "length (in_bytes st)" arbitrary: st rule: less_induct)
  case less
  let ?s = "in_bytes st" let ?h = "read_head (in_bytes st)" let ?n = "unat (ch_length ?h)"
  have l: "tb_length (tc_ibuf (fst st)) = int (length ?s)" using less(2) tb_length_content by (simp add: in_ok_def)
  show ?case
  proof (cases "length ?s < 8")
    case True
    then show ?thesis using less(2) l by (subst read_loop.simps) (auto simp: COMMU_HEAD_LENGTH_def deframe_short intro: delivers.nothing)
  next
    case False
    note rm = read_message_done [OF less(2,3) _ less(4) refl refl refl]
    show ?thesis
    proof (cases "length ?s < 8 + ?n")
      case True
      then have "read_message env st = Inr (False, st)" using rm False by simp
      moreover have "deframe ?s = ([], ?s)" using True False by (subst deframe.simps) (simp add: Let_def)
      ultimately show ?thesis using less(2) l False by (subst read_loop.simps) (auto simp: COMMU_HEAD_LENGTH_def intro: delivers.nothing)
    next
      case long: False
      then obtain st1 where st1: "read_message env st = Inr (True, st1)" "delivers env [(ch_cmdid ?h, take ?n (drop 8 ?s))] st st1"
        "in_ok st1" "in_bytes st1 = drop (8 + ?n) ?s" using rm False by auto
      have so: "stream_ok (cn_dispatcher env) (in_bytes st1)" using less(4) False long st1(4) by (subst (asm) stream_ok.simps) (simp add: Let_def)
      have lt: "length (in_bytes st1) < length ?s" using st1(4) False by simp
      obtain st' where st': "read_loop env st1 = Some (Inr st')" "delivers env (fst (deframe (in_bytes st1))) st1 st'" "in_ok st'"
        "in_bytes st' = snd (deframe (in_bytes st1))"
        using less(1) [OF lt st1(3) less(3) so] by blast
      have "deframe ?s = ((ch_cmdid ?h, take ?n (drop 8 ?s)) # fst (deframe (in_bytes st1)), snd (deframe (in_bytes st1)))"
        using False long st1(4) by (subst deframe.simps) (simp add: Let_def split: prod.splits)
      moreover have "read_loop env st = Some (Inr st')" using l False st1(1) st'(1) by (subst read_loop.simps) (simp add: COMMU_HEAD_LENGTH_def)
      ultimately show ?thesis using delivers_append [OF st1(2) st'(2)] st'(3,4) by simp
    qed
  qed
qed

lemma pop_input_supplied:
  assumes "pop_input n st = Inr st'" "in_ok st" "0 \<le> n" "well_supplied st"
  shows "well_supplied st'"
  using assms tb_pop_supplied [of n "tc_ibuf (fst st)" "the_pool (snd st)"]
  by (cases st) (auto simp: pop_input_def in_ok_def res_bind_eq_Inr)

lemma read_message_supplied:
  assumes rm: "read_message env st = Inr (True, st')" and ok: "in_ok st" "benign env" "frugal env" "well_supplied st"
  shows "well_supplied st'"
proof -
  obtain b head where b: "tc_ibuf (fst st) = Some b" "mem_read (ib_head b) COMMU_HEAD_LENGTH (ib_data b) = Inr head"
    using rm by (auto simp: read_message_def res_bind_eq_Inr split: option.split_asm)
  let ?h = "read_head head"
  have c: "\<not> (MSG_LENGTH_LIMIT < sint (ch_length ?h) \<or> sint (ch_length ?h) < 0)" "\<not> tb_length (tc_ibuf (fst st)) < COMMU_HEAD_LENGTH + sint (ch_length ?h)"
    "is_exist (ch_cmdid ?h) (cn_dispatcher env)"
    using rm b by (auto simp: read_message_def Let_def res_bind_eq_Inr split: if_split_asm)
  then obtain st1 st2 where p: "pop_input COMMU_HEAD_LENGTH st = Inr st1" "call_msg env (input_at (tc_ibuf (fst st1))) (ch_length ?h) (ch_cmdid ?h) st1 = Inr st2"
    "pop_input (sint (ch_length ?h)) st2 = Inr st'"
    using rm b by (auto simp: read_message_def Let_def res_bind_eq_Inr)
  have l: "tb_length (tc_ibuf (fst st)) = int (length (in_bytes st))" using ok(1) tb_length_content by (simp add: in_ok_def)
  have "pop_input (int 8) st = Inr st1" using p(1) by (simp add: COMMU_HEAD_LENGTH_def)
  moreover have "8 \<le> length (in_bytes st)" using c(1,2) l by (simp add: COMMU_HEAD_LENGTH_def)
  ultimately have 1: "in_ok st1" using pop_input_ok [OF ok(1), of 8] b(1) by auto
  have s1: "well_supplied st1" by (rule pop_input_supplied [OF p(1) ok(1) _ ok(4)]) (simp add: COMMU_HEAD_LENGTH_def)
  obtain f where f: "md_dispatcher (cn_dispatcher env) (ch_cmdid ?h) = Some f" using c(3) by (auto simp: is_exist_def)
  have call: "cn_msg env f (input_at (tc_ibuf (fst st1))) (ch_length ?h) (ch_cmdid ?h)
      (Option.bind (md_args (cn_dispatcher env) (ch_cmdid ?h)) (\<lambda>u. u)) st1 = Inr st2"
    using p(2) by (simp add: call_msg_def f)
  have 2: "tc_ibuf (fst st2) = tc_ibuf (fst st1)" "pool_ok (the_pool (snd st2))"
    using ok(2) call 1 unfolding benign_def in_ok_def by (metis sum.inject(2))+
  have s2: "well_supplied st2" using s1 ok(3) call 2(1) unfolding frugal_def supplied_def by metis
  have "in_ok st2" using 1 2 by (simp add: in_ok_def)
  then show ?thesis using c(1) by (intro pop_input_supplied [OF p(3) _ _ s2]) simp_all
qed

lemma read_loop_supplied:
  "in_ok st \<Longrightarrow> benign env \<Longrightarrow> stream_ok (cn_dispatcher env) (in_bytes st) \<Longrightarrow> frugal env \<Longrightarrow> well_supplied st \<Longrightarrow>
   read_loop env st = Some (Inr st') \<Longrightarrow> well_supplied st'"
proof (induction "length (in_bytes st)" arbitrary: st rule: less_induct)
  case less
  let ?s = "in_bytes st" let ?h = "read_head (in_bytes st)" let ?n = "unat (ch_length ?h)"
  have l: "tb_length (tc_ibuf (fst st)) = int (length ?s)" using less(2) tb_length_content by (simp add: in_ok_def)
  show ?case
  proof (cases "length ?s < 8")
    case True
    then show ?thesis using less(6,7) l by (subst (asm) read_loop.simps) (auto simp: COMMU_HEAD_LENGTH_def)
  next
    case False
    note rm = read_message_done [OF less(2,3) _ less(4) refl refl refl]
    show ?thesis
    proof (cases "length ?s < 8 + ?n")
      case True
      then have "read_message env st = Inr (False, st)" using rm False by simp
      then show ?thesis using less(6,7) l False by (subst (asm) read_loop.simps) (auto simp: COMMU_HEAD_LENGTH_def)
    next
      case long: False
      then obtain st1 where st1: "read_message env st = Inr (True, st1)" "in_ok st1" "in_bytes st1 = drop (8 + ?n) ?s" using rm False by auto
      have so: "stream_ok (cn_dispatcher env) (in_bytes st1)" using less(4) False long st1(3) by (subst (asm) stream_ok.simps) (simp add: Let_def)
      have lt: "length (in_bytes st1) < length ?s" using st1(3) False by simp
      have "read_loop env st1 = Some (Inr st')" using less(7) l False st1(1) by (subst (asm) read_loop.simps) (simp add: COMMU_HEAD_LENGTH_def)
      then show ?thesis using less(1) [OF lt st1(2) less(3) so less(5)] read_message_supplied [OF st1(1) less(2,3,5,6)] by blast
    qed
  qed
qed

section \<open>A stream in pieces\<close>

lemma stream_ok_split:
  "stream_ok d (s @ t) \<Longrightarrow> stream_ok d s \<and> stream_ok d (snd (deframe s) @ t) \<and> length (snd (deframe s)) < 65536"
proof (induction s rule: deframe.induct)
  case (1 s)
  let ?h = "read_head s" let ?n = "unat (ch_length (read_head s))"
  show ?case
  proof (cases "length s < 8")
    case True
    then show ?thesis using 1(2) by (simp add: deframe_short stream_ok.simps [of d s])
  next
    case False
    then have h: "read_head (s @ t) = ?h" by (simp add: read_head_def)
    have so: "0 < sint (ch_length ?h)" "sint (ch_length ?h) \<le> MSG_LENGTH_LIMIT"
      "length (s @ t) < 8 + ?n \<or> is_exist (ch_cmdid ?h) d \<and> stream_ok d (drop (8 + ?n) (s @ t))"
      using 1(2) False h by (subst (asm) stream_ok.simps, auto simp: Let_def split: if_splits)+
    have "int ?n \<le> 65528" using so(1,2) sint_unat [of "ch_length ?h"] unfolding MSG_LENGTH_LIMIT_def COMMU_HEAD_LENGTH_def by linarith
    then have n: "?n \<le> 65528" by linarith
    show ?thesis
    proof (cases "length s < 8 + ?n")
      case True
      then have "deframe s = ([], s)" by (subst deframe.simps) (simp add: Let_def)
      moreover have "stream_ok d s" using so True False by (subst stream_ok.simps) (simp add: Let_def)
      moreover have "length s < 65536" using True n by linarith
      ultimately show ?thesis using 1(2) by simp
    next
      case long: False
      then have so': "is_exist (ch_cmdid ?h) d" "stream_ok d (drop (8 + ?n) s @ t)" using so(3) False by auto
      have IH: "stream_ok d (drop (8 + ?n) s) \<and> stream_ok d (snd (deframe (drop (8 + ?n) s)) @ t) \<and> length (snd (deframe (drop (8 + ?n) s))) < 65536"
        using 1(1) [OF False refl refl long so'(2)] .
      moreover have "snd (deframe s) = snd (deframe (drop (8 + ?n) s))" using False long by (subst deframe.simps) (simp add: Let_def split: prod.splits)
      moreover have "stream_ok d s" using so so' IH False long by (subst stream_ok.simps) (simp add: Let_def)
      ultimately show ?thesis by simp
    qed
  qed
qed

definition message_ok :: "('h, 'u) msg_dispatcher \<Rightarrow> message \<Rightarrow> bool" where
  "message_ok d m \<longleftrightarrow> 0 < length (snd m) \<and> int (length (snd m)) \<le> MSG_LENGTH_LIMIT \<and> is_exist (fst m) d"

lemma message_ok_length: "message_ok d m \<Longrightarrow> length (snd m) < 2 ^ 31"
  by (simp add: message_ok_def MSG_LENGTH_LIMIT_def COMMU_HEAD_LENGTH_def)

lemma stream_ok_frames: "\<forall>m \<in> set ms. message_ok d m \<Longrightarrow> stream_ok d (concat (map frame ms))"
proof (induction ms)
  case (Cons m ms)
  then have m: "message_ok d m" by simp
  let ?w = "of_nat (length (snd m)) :: 32 word"
  have u: "unat ?w = length (snd m)" using message_ok_length [OF m] by (simp add: unsigned_of_nat take_bit_nat_eq_self)
  have "sint ?w = int (length (snd m))" using message_ok_length [OF m] by (simp add: signed_of_nat signed_take_bit_int_eq_self)
  then have "0 < sint ?w" "sint ?w \<le> MSG_LENGTH_LIMIT" using m by (simp_all add: message_ok_def)
  moreover have "stream_ok d (concat (map frame ms))" using Cons by simp
  ultimately show ?case using m u by (subst stream_ok.simps) (simp add: frame_def [of m] Let_def message_ok_def)
qed (simp add: stream_ok.simps)

lemma make_room_found:
  assumes "make_room raw n (buf, p) = Inr (None, p')" "0 \<le> n"
  shows "8388608 < n + tb_length buf"
proof (cases buf)
  case None
  then show ?thesis using assms
    by (auto simp: make_room_def pool_alloc_def tb_length_def mem_index_def split: if_splits option.splits list.splits)
next
  case (Some b)
  have al: "8388608 < N" if "pool_alloc raw N p = Inr (None, q)" for N q
    using that by (auto simp: pool_alloc_def mem_index_def split: if_splits option.splits list.splits)
  have c: "ib_head b = 0" "ib_capacity b - ib_length b < n" using assms(1) Some by (auto simp: make_room_def split: if_splits)
  then obtain nb q where a: "pool_alloc raw (n + ib_length b) p = Inr (nb, q)"
    using assms(1) Some by (cases "pool_alloc raw (n + ib_length b) p") (auto simp: make_room_def)
  have "nb = None"
  proof (cases nb)
    case (Some x)
    then show ?thesis using assms(1) \<open>buf = Some b\<close> c a
      by (cases "ib_copy x b"; cases "pool_revert b q") (auto simp: make_room_def)
  qed simp
  then show ?thesis using al [of "n + ib_length b" q] a Some by (simp add: tb_length_def)
qed

text \<open>The input buffer starts at the front of its memory.\<close>

definition receiving :: "('c, 'a, 'x) conn_state \<Rightarrow> bool" where
  "receiving st \<longleftrightarrow> in_ok st \<and> (\<forall>b. tc_ibuf (fst st) = Some b \<longrightarrow> ib_head b = 0)"

lemma handle_read_returns:
  assumes "receiving st" "benign env" "bs \<noteq> []" "stream_ok (cn_dispatcher env) (in_bytes st @ bs)"
    and "read_data (cn_raw env) (Some (length bs)) (Some bs) (tc_ibuf (fst st), the_pool (snd st)) = Inr (int (length bs), ibuf, p)"
  shows "\<exists>st'. handle_read env (Some (length bs)) (Some bs) st = Some (Inr st') \<and>
    delivers env (fst (deframe (in_bytes st @ bs))) st st' \<and> receiving st' \<and> in_bytes st' = snd (deframe (in_bytes st @ bs))"
proof -
  have ok: "pool_ok (the_pool (snd st))" "tb_ok (tc_ibuf (fst st))" "\<And>b. tc_ibuf (fst st) = Some b \<Longrightarrow> ib_head b = 0"
    using assms(1) by (simp_all add: receiving_def in_ok_def)
  have rd: "pool_ok p" "tb_ok ibuf" "tb_content ibuf = in_bytes st @ bs" using read_data_ok [OF ok assms(3,5)] by auto
  let ?st = "((fst st)\<lparr>tc_ibuf := ibuf\<rparr>, set_pool p (snd st))"
  have in1: "in_ok ?st" "in_bytes ?st = in_bytes st @ bs" "same_but_input st ?st" using rd by (auto simp: in_ok_def same_but_input_def)
  obtain st1 where l: "read_loop env ?st = Some (Inr st1)" "delivers env (fst (deframe (in_bytes st @ bs))) ?st st1" "in_ok st1"
    "in_bytes st1 = snd (deframe (in_bytes st @ bs))"
    using read_loop_delivers [OF in1(1) assms(2)] in1(2) assms(4) by auto
  obtain ibuf' where a: "tb_adjust (tc_ibuf (fst st1)) = Inr ibuf'" "tb_ok ibuf'" "tb_content ibuf' = in_bytes st1" "\<forall>b. ibuf' = Some b \<longrightarrow> ib_head b = 0"
    using tb_adjust_ok l(3) by (auto simp: in_ok_def)
  let ?st' = "((fst st1)\<lparr>tc_ibuf := ibuf'\<rparr>, snd st1)"
  have "handle_read env (Some (length bs)) (Some bs) st = Some (Inr ?st')"
    using assms(3,5) l(1) a(1) by (simp add: handle_read_def Let_def adjust_input_def)
  moreover have "same_but_input st1 ?st'" unfolding same_but_input_def
    by (intro exI [of _ ibuf'] exI [of _ "the_pool (snd st1)"]) (simp add: set_pool_def)
  then have "delivers env (fst (deframe (in_bytes st @ bs)) @ []) st ?st'"
    using delivers_append [OF delivers_after [OF in1(3) l(2)] delivers.nothing] by blast
  moreover have "receiving ?st'" "in_bytes ?st' = snd (deframe (in_bytes st @ bs))" using a l(3,4) by (simp_all add: receiving_def in_ok_def)
  ultimately show ?thesis by auto
qed

text \<open>
  One piece: unless the pool is at its memory limit, it is taken in, and then the memory can run short only when
  a size has no free buffer left or a callback takes the last one.
\<close>

lemma adjust_capacity:
  assumes "tb_adjust buf = Inr buf'" "supplied p buf"
  shows "supplied p buf'"
proof (cases buf)
  case (Some b)
  have "ib_capacity b' = ib_capacity b" if "ib_adjust b = Inr b'" for b'
    using that by (auto simp: ib_adjust_def res_bind_eq_Inr split: if_split_asm)
  then show ?thesis using assms Some by (auto simp: tb_adjust_def supplied_def res_bind_eq_Inr)
qed (use assms in \<open>simp add: tb_adjust_def\<close>)

lemma handle_read_total:
  assumes "receiving st" "benign env" "bs \<noteq> []" "length bs + length (in_bytes st) \<le> 8388608" "stream_ok (cn_dispatcher env) (in_bytes st @ bs)"
  shows "(handle_read env (Some (length bs)) (Some bs) st = Some (Inl Exit_failure) \<and> \<not> (frugal env \<and> well_supplied st)) \<or>
    (\<exists>st'. handle_read env (Some (length bs)) (Some bs) st = Some (Inr st') \<and> (frugal env \<longrightarrow> well_supplied st \<longrightarrow> well_supplied st') \<and>
      delivers env (fst (deframe (in_bytes st @ bs))) st st' \<and> receiving st' \<and> in_bytes st' = snd (deframe (in_bytes st @ bs)))"
proof -
  have ok: "pool_ok (the_pool (snd st))" "tb_ok (tc_ibuf (fst st))" "\<And>b. tc_ibuf (fst st) = Some b \<Longrightarrow> ib_head b = 0"
    using assms(1) by (simp_all add: receiving_def in_ok_def)
  have len: "int (length bs) + tb_length (tc_ibuf (fst st)) \<le> 8388608" using assms(4) tb_length_content [OF ok(2)] by linarith
  have "(read_data (cn_raw env) (Some (length bs)) (Some bs) (tc_ibuf (fst st), the_pool (snd st)) = Inl Exit_failure \<and> \<not> well_supplied st) \<or>
    (\<exists>ibuf p. read_data (cn_raw env) (Some (length bs)) (Some bs) (tc_ibuf (fst st), the_pool (snd st)) = Inr (int (length bs), ibuf, p) \<and>
      (well_supplied st \<longrightarrow> supplied p ibuf))"
    by (rule read_data_total) (use ok assms(3) len in auto)
  then show ?thesis
  proof (elim disjE exE conjE)
    assume "read_data (cn_raw env) (Some (length bs)) (Some bs) (tc_ibuf (fst st), the_pool (snd st)) = Inl Exit_failure" "\<not> well_supplied st"
    then show ?thesis by (simp add: handle_read_def)
  next
    fix ibuf p
    assume r: "read_data (cn_raw env) (Some (length bs)) (Some bs) (tc_ibuf (fst st), the_pool (snd st)) = Inr (int (length bs), ibuf, p)"
      and sup: "well_supplied st \<longrightarrow> supplied p ibuf"
    obtain st' where st': "handle_read env (Some (length bs)) (Some bs) st = Some (Inr st')"
      "delivers env (fst (deframe (in_bytes st @ bs))) st st'" "receiving st'" "in_bytes st' = snd (deframe (in_bytes st @ bs))"
      using handle_read_returns [OF assms(1-3,5) r] by blast
    have "well_supplied st'" if fr: "frugal env" "well_supplied st"
    proof -
      let ?st = "((fst st)\<lparr>tc_ibuf := ibuf\<rparr>, set_pool p (snd st))"
      have rd: "pool_ok p" "tb_ok ibuf" "tb_content ibuf = in_bytes st @ bs" using read_data_ok [OF ok assms(3) r] by auto
      have "map_option (\<lambda>r. res_bind r adjust_input) (read_loop env ?st) = Some (Inr st')"
        using st'(1) r assms(3) by (simp add: handle_read_def Let_def)
      then obtain st1 where l: "read_loop env ?st = Some (Inr st1)" "adjust_input st1 = Inr st'" by (auto simp: res_bind_eq_Inr)
      have "well_supplied st1"
        using rd sup fr assms(5) by (intro read_loop_supplied [OF _ assms(2) _ fr(1) _ l(1)]) (simp_all add: in_ok_def)
      then show ?thesis using l(2) adjust_capacity by (auto simp: adjust_input_def res_bind_eq_Inr)
    qed
    then show ?thesis using st' by blast
  qed
qed

fun receive :: "('c, 'a, 'h, 'u, 'x) conn_env \<Rightarrow> string list \<Rightarrow> ('c, 'a, 'x) conn_state \<Rightarrow> ('c, 'a, 'x) conn_state result option" where
  "receive env [] st = Some (Inr st)"
| "receive env (bs # chunks) st =
     (case handle_read env (Some (length bs)) (Some bs) st of
        None \<Rightarrow> None
      | Some (Inl e) \<Rightarrow> Some (Inl e)
      | Some (Inr st) \<Rightarrow> receive env chunks st)"

lemma receive_total:
  "receiving st \<Longrightarrow> benign env \<Longrightarrow> stream_ok (cn_dispatcher env) (in_bytes st @ concat chunks) \<Longrightarrow> length (in_bytes st) < 65536 \<Longrightarrow>
   \<forall>bs \<in> set chunks. bs \<noteq> [] \<and> length bs \<le> 8388608 - 65536 \<Longrightarrow> chunks \<noteq> [] \<Longrightarrow>
   (receive env chunks st = Some (Inl Exit_failure) \<and> \<not> (frugal env \<and> well_supplied st)) \<or>
   (\<exists>st'. receive env chunks st = Some (Inr st') \<and>
     delivers env (fst (deframe (in_bytes st @ concat chunks))) st st' \<and> in_bytes st' = snd (deframe (in_bytes st @ concat chunks)))"
proof (induction chunks arbitrary: st)
  case (Cons bs chunks)
  let ?i = "in_bytes st @ bs"
  have so: "stream_ok (cn_dispatcher env) ?i" "stream_ok (cn_dispatcher env) (snd (deframe ?i) @ concat chunks)" "length (snd (deframe ?i)) < 65536"
    using stream_ok_split [of "cn_dispatcher env" ?i "concat chunks"] Cons.prems(3) by simp_all
  have hr: "(handle_read env (Some (length bs)) (Some bs) st = Some (Inl Exit_failure) \<and> \<not> (frugal env \<and> well_supplied st)) \<or>
    (\<exists>st'. handle_read env (Some (length bs)) (Some bs) st = Some (Inr st') \<and> (frugal env \<longrightarrow> well_supplied st \<longrightarrow> well_supplied st') \<and>
      delivers env (fst (deframe ?i)) st st' \<and> receiving st' \<and> in_bytes st' = snd (deframe ?i))"
    using Cons.prems(1,2,4,5) so(1) by (intro handle_read_total) auto
  then show ?case
  proof (elim disjE exE conjE)
    assume "handle_read env (Some (length bs)) (Some bs) st = Some (Inl Exit_failure)" "\<not> (frugal env \<and> well_supplied st)"
    then show ?thesis by simp
  next
    fix st1
    assume 1: "handle_read env (Some (length bs)) (Some bs) st = Some (Inr st1)" "frugal env \<longrightarrow> well_supplied st \<longrightarrow> well_supplied st1"
      and d: "delivers env (fst (deframe ?i)) st st1" "receiving st1" "in_bytes st1 = snd (deframe ?i)"
    show ?thesis
    proof (cases "chunks = []")
      case True
      then show ?thesis using 1(1) d by simp
    next
      case False
      have "(receive env chunks st1 = Some (Inl Exit_failure) \<and> \<not> (frugal env \<and> well_supplied st1)) \<or>
        (\<exists>st'. receive env chunks st1 = Some (Inr st') \<and>
          delivers env (fst (deframe (in_bytes st1 @ concat chunks))) st1 st' \<and> in_bytes st' = snd (deframe (in_bytes st1 @ concat chunks)))"
        using Cons.prems(2,5) d so(2,3) False by (intro Cons.IH) auto
      then show ?thesis
      proof (elim disjE exE conjE)
        assume "receive env chunks st1 = Some (Inl Exit_failure)" "\<not> (frugal env \<and> well_supplied st1)"
        then show ?thesis using 1 by auto
      next
        fix st'
        assume "receive env chunks st1 = Some (Inr st')" "delivers env (fst (deframe (in_bytes st1 @ concat chunks))) st1 st'"
          "in_bytes st' = snd (deframe (in_bytes st1 @ concat chunks))"
        then show ?thesis using 1(1) delivers_append [OF d(1)] deframe_append [of ?i "concat chunks"] d(3) by fastforce
      qed
    qed
  qed
qed simp

lemma receive_delivers:
  assumes "receiving st" "benign env" "stream_ok (cn_dispatcher env) (in_bytes st @ concat chunks)" "length (in_bytes st) < 65536"
    "\<forall>bs \<in> set chunks. bs \<noteq> [] \<and> length bs \<le> 8388608 - 65536" "receive env chunks st = Some (Inr st')" "chunks \<noteq> []"
  shows "delivers env (fst (deframe (in_bytes st @ concat chunks))) st st' \<and> in_bytes st' = snd (deframe (in_bytes st @ concat chunks))"
  using receive_total [OF assms(1-5,7)] assms(6) by auto

section \<open>Results\<close>

text \<open>
  C11. Messages sent on one connection arrive on the other as they were: take messages that are not empty, not longer than the
  limit and of registered commands, which the sender has accepted with its output empty before; its bytes reach the receiver in
  any non-empty pieces of at most 8323072 bytes, while its input is empty, and its callbacks return and leave the input and the
  order of the pool alone. Then receiving returns, and either the program ends because the buffers are at their memory limit, or
  the receiver has handed exactly these messages to their callbacks, in order, and nothing is left behind. The first cannot be
  when each size has a free buffer and no callback takes the last one of a size.
\<close>

theorem messages_cross_connection:
  assumes sender: "conn_ok s" "out_bytes s = []" "send_messages senv ms s = Inr (True, s')"
    and messages: "ms \<noteq> []" "\<forall>m \<in> set ms. message_ok (cn_dispatcher env) m"
    and receiver: "receiving r" "in_bytes r = []" "benign env"
    and pieces: "concat chunks = out_bytes s'" "\<forall>bs \<in> set chunks. bs \<noteq> [] \<and> length bs \<le> 8388608 - 65536"
  shows "(receive env chunks r = Some (Inl Exit_failure) \<and> \<not> (frugal env \<and> supplied (the_pool (snd r)) (tc_ibuf (fst r)))) \<or>
    (\<exists>r'. receive env chunks r = Some (Inr r') \<and> delivers env ms r r' \<and> in_bytes r' = [])"
proof -
  have o: "out_bytes s' = concat (map frame ms)" using send_messages_ok [OF sender(1,3)] sender(2) by simp
  have "\<forall>m \<in> set ms. length (snd m) < 2 ^ 32" using messages(2) message_ok_length by fastforce
  then have df: "deframe (concat (map frame ms)) = (ms, [])" using deframe_frames [of ms "[]"] by (simp add: deframe_short)
  have "concat (map frame ms) \<noteq> []" using messages(1) by (cases ms) (simp_all add: frame_def head_bytes_def put_word_def)
  then have "chunks \<noteq> []" using pieces(1) o by auto
  then show ?thesis
    using receive_total [OF receiver(1,3) _ _ pieces(2)] receiver(2) pieces(1) o df stream_ok_frames [OF messages(2)] by simp
qed

text \<open>
  An empty message that is the last in the input ends the program: with its head the buffer is given back, the callback
  gets a null pointer, and taking its zero bytes from the buffer fails an assertion.
\<close>

theorem empty_message_aborts:
  assumes "tc_ibuf (fst st) = None" "pool_ok (the_pool (snd st))" "benign env" "is_exist cmdid (cn_dispatcher env)"
    and "read_data (cn_raw env) (Some 8) (Some (frame (cmdid, []))) (None, the_pool (snd st)) = Inr (8, ibuf, p)"
  shows "handle_read env (Some 8) (Some (frame (cmdid, []))) st = Some (Inl Assert_failed)"
proof -
  let ?f = "frame (cmdid, [])" and ?st = "((fst st)\<lparr>tc_ibuf := ibuf\<rparr>, set_pool p (snd st))"
  have f: "?f = head_bytes \<lparr>ch_cmdid = cmdid, ch_length = 0\<rparr>" "length ?f = 8" by (simp_all add: frame_def)
  have ne: "?f \<noteq> []" using f(2) by (metis list.size(3) zero_neq_numeral)
  have "pool_ok p \<and> tb_ok ibuf \<and> (\<forall>b. ibuf = Some b \<longrightarrow> ib_head b = 0) \<and>
    ((8::int) = int (length ?f) \<and> tb_content ibuf = tb_content None @ ?f \<or> (8::int) = - 1 \<and> ibuf = None)"
    using assms(2,5) f(2) ne by (intro read_data_ok [where buf = None]) (auto simp: tb_ok_def)
  then have b: "pool_ok p" "tb_ok ibuf" "tb_content ibuf = ?f" by (simp_all add: tb_content_def)
  then have ok: "in_ok ?st" "in_bytes ?st = ?f" by (simp_all add: in_ok_def)
  have ne': "tc_ibuf (fst ?st) \<noteq> None" using b(3) ne by (auto simp: tb_content_def split: option.splits)
  obtain st1 where p1: "pop_input (int 8) ?st = Inr st1" "in_ok st1" "tc_ibuf (fst st1) = None"
    using pop_input_ok [OF ok(1) ne', of 8] ok(2) f(2) by auto
  obtain func where fn: "md_dispatcher (cn_dispatcher env) cmdid = Some func" using assms(4) by (auto simp: is_exist_def)
  obtain st2 where c: "call_msg env (input_at (tc_ibuf (fst st1))) 0 cmdid st1 = Inr st2" "tc_ibuf (fst st2) = None"
    using assms(3) p1(2,3) unfolding benign_def in_ok_def call_msg_def fn option.case by metis
  have "pop_input 0 st2 = Inl Assert_failed" using c(2) by (cases st2) (simp add: pop_input_def tb_pop_def)
  then have "read_message env ?st = Inl Assert_failed"
    using read_message_eq [OF ok(1) _ ok(2), of env] assms(4) f p1(1) c(1) read_head_bytes [of "\<lparr>ch_cmdid = cmdid, ch_length = 0\<rparr>" "[]"]
    by (simp add: Let_def MSG_LENGTH_LIMIT_def COMMU_HEAD_LENGTH_def)
  moreover have "tb_length ibuf = 8" using tb_length_content [OF b(2)] b(3) f(2) by simp
  ultimately have "read_loop env ?st = Some (Inl Assert_failed)" by (subst read_loop.simps) (simp add: COMMU_HEAD_LENGTH_def)
  then show ?thesis using assms(1,5) by (simp add: handle_read_def Let_def)
qed

text \<open>A pool with two free buffers, a connection on it, and callbacks that do nothing, for the witnesses.\<close>

definition blank :: io_buffer where
  "blank = \<lparr>ib_capacity = 4096, ib_length = 0, ib_head = 0, ib_data = replicate 4096 NUL\<rparr>"

definition small_pool :: buffer_pool where
  "small_pool = \<lparr>bp_pool = (\<lambda>c. if c \<in> set mem_caps then Some (if c = 4096 then [blank, blank] else []) else None), bp_total_mem = 8\<rparr>"

definition idle :: "(nat, nat, nat) conn_state" where
  "idle = (\<lparr>tc_connfd = 7, tc_loop = True, tc_ibuf = None, tc_obuf = None\<rparr>,
     \<lparr>el_io_evs = [7 \<mapsto> \<lparr>ev_mask = EPOLLIN, ev_read_cb = Some 1, ev_write_cb = None, ev_read_args = None, ev_write_args = None\<rparr>],
       el_listening = {7}, el_pending_func = [], el_timer_que = new_timer_queue, el_epoll = [7 \<mapsto> EPOLLIN],
       el_world = \<lparr>nt_pool = small_pool, nt_curr_conns = 1, nt_conns = Map.empty, nt_app = 0\<rparr>\<rparr>)"

definition quiet_env :: "(nat, nat, nat, nat, nat) conn_env" where
  "quiet_env = \<lparr>cn_dispatcher = \<lparr>md_dispatcher = [3 \<mapsto> 0], md_args = [3 \<mapsto> None]\<rparr>, cn_msg = (\<lambda>h data len cmd u st. Inr st),
     cn_build = None, cn_close = None, cn_raw = (\<lambda>i. NUL), cn_rcb = 1, cn_wcb = 2, cn_args = (\<lambda>c. None)\<rparr>"

lemma small_pool_ok: "pool_ok small_pool"
  by (auto simp: pool_ok_def small_pool_def ib_ok_def blank_def mem_caps_def split: if_splits)

lemma idle_ok: "conn_ok idle" "receiving idle" "benign quiet_env" "the_pool (snd idle) = small_pool" "tc_ibuf (fst idle) = None" "tc_obuf (fst idle) = None"
  using small_pool_ok by (simp_all add: conn_ok_def receiving_def in_ok_def idle_def tb_ok_def benign_def quiet_env_def)

lemma read_first:
  assumes "bs \<noteq> []" "length bs \<le> 4096"
  shows "\<exists>ibuf p. read_data raw (Some (length bs)) (Some bs) (None, small_pool) = Inr (int (length bs), ibuf, p)"
proof -
  have "mem_index (int (length bs)) = Some 4096" using assms(2) by (simp add: mem_index_def)
  then show ?thesis using assms by (simp add: read_data_def make_room_def pool_alloc_def small_pool_def mem_caps_def mem_write_def blank_def)
qed

lemma send_first:
  assumes "bs \<noteq> []" "length bs \<le> 4096"
  shows "\<exists>p. send_bytes raw bs (None, small_pool) =
    Inr (0, Some \<lparr>ib_capacity = 4096, ib_length = int (length bs), ib_head = 0, ib_data = bs @ replicate (4096 - length bs) NUL\<rparr>, p)"
proof -
  have "mem_index (int (length bs)) = Some 4096" using assms(2) by (simp add: mem_index_def)
  then show ?thesis using assms
    by (simp add: send_bytes_def make_room_def pool_alloc_def small_pool_def mem_caps_def mem_write_def blank_def put_bytes_def)
qed

lemma send_second:
  assumes "length as + length bs \<le> 4096"
  shows "send_bytes raw bs (Some \<lparr>ib_capacity = 4096, ib_length = int (length as), ib_head = 0, ib_data = as @ replicate (4096 - length as) NUL\<rparr>, p) =
    Inr (0, Some \<lparr>ib_capacity = 4096, ib_length = int (length as) + int (length bs), ib_head = 0,
      ib_data = as @ bs @ replicate (4096 - (length as + length bs)) NUL\<rparr>, p)"
  using assms by (simp add: send_bytes_def make_room_def put_bytes_def mem_write_def)

lemma idle_sends: "\<exists>st. conn_send_data quiet_env ''hi'' 3 idle = Inr (0, st)"
proof -
  let ?h = "head_bytes \<lparr>ch_cmdid = 3, ch_length = 2\<rparr>"
  have "?h \<noteq> []" using length_head_bytes by (metis list.size(3) zero_neq_numeral)
  then obtain p where "send_bytes (cn_raw quiet_env) ?h (None, small_pool) =
    Inr (0, Some \<lparr>ib_capacity = 4096, ib_length = int (length ?h), ib_head = 0, ib_data = ?h @ replicate (4096 - length ?h) NUL\<rparr>, p)"
    using send_first [of ?h "cn_raw quiet_env"] by auto
  then show ?thesis using send_second [of ?h "''hi''" "cn_raw quiet_env" p]
    by (simp add: conn_send_data_def send_part_def idle_ok Let_def tb_length_def idle_def)
qed

text \<open>A pool with a free buffer of each size.\<close>

definition full_pool :: buffer_pool where
  "full_pool = \<lparr>bp_pool = (\<lambda>c. if c \<in> set mem_caps then Some (if c = 4096 then [blank, blank] else [new_io_buffer (\<lambda>_. NUL) c]) else None), bp_total_mem = 8\<rparr>"

definition ready :: "(nat, nat, nat) conn_state" where
  "ready = (fst idle, set_pool full_pool (snd idle))"

lemma ready_ok: "receiving ready" "in_bytes ready = []" "frugal quiet_env" "well_supplied ready"
proof -
  have "pool_ok full_pool"
    using new_io_buffer_ok [of _ "\<lambda>_. NUL"]
    by (auto simp: pool_ok_def full_pool_def ib_ok_def blank_def mem_caps_def new_io_buffer_def split: if_splits)
  then show "receiving ready" "in_bytes ready = []"
    using idle_ok(5) by (simp_all add: receiving_def in_ok_def ready_def tb_ok_def tb_content_def)
  show "frugal quiet_env" by (auto simp: frugal_def quiet_env_def)
  show "well_supplied ready" by (simp add: supplied_def ready_def full_pool_def)
qed

theorem messages_cross_connection_witness:
  "\<exists>s' r'. send_messages quiet_env [(3, ''hi'')] idle = Inr (True, s') \<and> receive quiet_env [take 4 (out_bytes s'), drop 4 (out_bytes s')] ready = Some (Inr r') \<and>
     delivers quiet_env [(3, ''hi'')] ready r' \<and> in_bytes r' = []"
proof -
  let ?m = "(3, ''hi'') :: message"
  obtain s' where s': "send_messages quiet_env [?m] idle = Inr (True, s')" using idle_sends by auto
  have o: "out_bytes s' = frame ?m" using send_messages_ok [OF idle_ok(1) s'] by (simp add: tb_content_def idle_ok)
  have mo: "message_ok (cn_dispatcher quiet_env) ?m" by (simp add: message_ok_def MSG_LENGTH_LIMIT_def COMMU_HEAD_LENGTH_def is_exist_def quiet_env_def)
  have l: "length (frame ?m) = 10" by (simp add: frame_def)
  have e: "out_bytes idle = []" by (simp add: tb_content_def idle_ok)
  have pieces: "concat [take 4 (out_bytes s'), drop 4 (out_bytes s')] = out_bytes s'"
    "\<forall>bs \<in> set [take 4 (out_bytes s'), drop 4 (out_bytes s')]. bs \<noteq> [] \<and> length bs \<le> 8388608 - 65536"
    using l unfolding o by auto
  have "(receive quiet_env [take 4 (out_bytes s'), drop 4 (out_bytes s')] ready = Some (Inl Exit_failure) \<and> \<not> (frugal quiet_env \<and> well_supplied ready)) \<or>
    (\<exists>r'. receive quiet_env [take 4 (out_bytes s'), drop 4 (out_bytes s')] ready = Some (Inr r') \<and> delivers quiet_env [?m] ready r' \<and> in_bytes r' = [])"
    using mo by (intro messages_cross_connection [OF idle_ok(1) e s' _ _ ready_ok(1,2) idle_ok(3) pieces]) simp_all
  then show ?thesis using s' ready_ok(3,4) by blast
qed

theorem empty_message_aborts_witness:
  "handle_read quiet_env (Some 8) (Some (frame (3, []))) idle = Some (Inl Assert_failed)"
proof -
  have l: "length (frame (3, [])) = 8" by (simp add: frame_def)
  then have "frame (3, []) \<noteq> []" by (metis list.size(3) zero_neq_numeral)
  then obtain ibuf p where "read_data (cn_raw quiet_env) (Some 8) (Some (frame (3, []))) (None, the_pool (snd idle)) = Inr (8, ibuf, p)"
    using read_first [of "frame (3, [])" "cn_raw quiet_env"] l by (auto simp: idle_ok)
  then show ?thesis
    using idle_ok(3) by (intro empty_message_aborts) (simp_all add: idle_ok(4,5) small_pool_ok, simp add: is_exist_def quiet_env_def)
qed

text \<open>What sending does to the events of the loop.\<close>

definition same_events :: "('c, 'a, 'x) conn_state \<Rightarrow> ('c, 'a, 'x) conn_state \<Rightarrow> bool" where
  "same_events st st' \<longleftrightarrow> el_io_evs (snd st') = el_io_evs (snd st) \<and> el_epoll (snd st') = el_epoll (snd st) \<and> tc_connfd (fst st') = tc_connfd (fst st)"

lemma conn_send_data_events:
  assumes "conn_ok st" "conn_send_data env data cmdid st = Inr (r, st')"
  shows "\<exists>st2. same_events st st2 \<and>
    (if r = 0 \<and> tb_length (tc_obuf (fst st)) = 0
     then st' = (fst st2, add_ioev (tc_connfd (fst st2)) (cn_wcb env) EPOLLOUT (cn_args env (fst st2)) (snd st2)) \<and> tc_loop (fst st2)
     else same_events st st')"
proof -
  let ?h = "head_bytes \<lparr>ch_cmdid = cmdid, ch_length = of_nat (length data)\<rparr>"
  obtain r1 st1 where 1: "send_part env ?h st = Inr (r1, st1)"
    using assms(2) by (cases "send_part env ?h st") (auto simp: conn_send_data_def Let_def)
  note s1 = send_part_ok [OF assms(1) 1]
  then have e1: "same_events st st1" by (auto simp: same_events_def)
  show ?thesis
  proof (cases "r1 = 0")
    case False
    then have "r = - 1" "st' = st1" using assms(2) 1 by (simp_all add: conn_send_data_def Let_def)
    then show ?thesis using e1 by (intro exI [of _ st1]) simp
  next
    case True
    obtain r2 st2 where 2: "send_part env data st1 = Inr (r2, st2)"
      using assms(2) 1 True by (cases "send_part env data st1") (auto simp: conn_send_data_def Let_def)
    have "\<exists>obuf p. st2 = ((fst st1)\<lparr>tc_obuf := obuf\<rparr>, set_pool p (snd st1))" using send_part_ok [OF _ 2] s1 by blast
    then have e2: "same_events st st2" using e1 by (auto simp: same_events_def)
    show ?thesis
    proof (cases "r2 = 0")
      case False
      then obtain q where q: "tb_pop COMMU_HEAD_LENGTH (tc_obuf (fst st2), the_pool (snd st2)) = Inr q"
        using assms(2) 1 2 True by (cases "tb_pop COMMU_HEAD_LENGTH (tc_obuf (fst st2), the_pool (snd st2))") (auto simp: conn_send_data_def Let_def)
      have "r = - 1" "st' = ((fst st2)\<lparr>tc_obuf := fst q\<rparr>, set_pool (snd q) (snd st2))"
        using assms(2) 1 2 True False q by (auto simp: conn_send_data_def Let_def split: prod.splits)
      then show ?thesis using e2 by (intro exI [of _ st2]) (auto simp: same_events_def)
    next
      case r2: True
      then show ?thesis using assms(2) 1 2 True e2
        by (intro exI [of _ st2]) (auto simp: conn_send_data_def Let_def split: if_splits)
    qed
  qed
qed

text \<open>
  C23. A connection that has answered is deaf: when the reply has gone out, the wish to write is withdrawn, and the
  kernel is told to forget the descriptor, although the loop still counts on being told of input. Sending again does not bring it
  back, as the loop then modifies an entry that the kernel no longer has.
\<close>

theorem reply_deafens_connection:
  assumes "conn_ok st" "out_bytes st = []" "el_io_evs (snd st) (tc_connfd (fst st)) = Some e" "ev_mask e = EPOLLIN"
    and "conn_send_data env data cmdid st = Inr (0, st1)"
  shows "\<exists>st2. handle_write env [Wrote (8 + length data)] st1 = Inr (frame (cmdid, data), st2) \<and>
    el_epoll (snd st2) (tc_connfd (fst st)) = None \<and>
    (\<exists>e. el_io_evs (snd st2) (tc_connfd (fst st)) = Some e \<and> ev_mask e = EPOLLIN) \<and>
    (\<forall>data' cmdid' r st3. conn_send_data env data' cmdid' st2 = Inr (r, st3) \<longrightarrow> el_epoll (snd st3) (tc_connfd (fst st)) = None)"
proof -
  let ?fd = "tc_connfd (fst st)" and ?f = "frame (cmdid, data)"
  have o: "tb_ok (tc_obuf (fst st))" using assms(1) by (simp add: conn_ok_def)
  then have l0: "tb_length (tc_obuf (fst st)) = 0" using tb_length_content [OF o] assms(2) by simp
  obtain sx where sx: "same_events st sx" "st1 = (fst sx, add_ioev (tc_connfd (fst sx)) (cn_wcb env) EPOLLOUT (cn_args env (fst sx)) (snd sx))" "tc_loop (fst sx)"
    using conn_send_data_events [OF assms(1,5)] l0 by auto
  have ok1: "conn_ok st1" "out_bytes st1 = ?f" using conn_send_data_ok [OF assms(1,5)] assms(2) by simp_all
  have lf: "length ?f = 8 + length data" by (simp add: frame_def)
  have fd: "tc_connfd (fst st1) = ?fd" "tc_loop (fst st1)" using sx by (simp_all add: same_events_def)
  obtain e1 where e1: "el_io_evs (snd st1) ?fd = Some e1" "ev_mask e1 = EPOLLIN OR EPOLLOUT"
    using sx assms(3,4) by (simp add: add_ioev_def same_events_def Let_def)
  have "?f \<noteq> []" using lf by (metis list.size(3) add_is_0 zero_neq_numeral)
  then obtain obuf where w: "write_loop env [Wrote (8 + length data)] st1 = Inr (?f, True, (fst st1)\<lparr>tc_obuf := obuf\<rparr>, snd st1)"
    "tb_length obuf = 0" "conn_ok ((fst st1)\<lparr>tc_obuf := obuf\<rparr>, snd st1)"
    using write_loop_all [OF ok1(1), of "8 + length data" env] ok1(2) lf by auto
  let ?s2 = "((fst st1)\<lparr>tc_obuf := obuf\<rparr>, del_ioev_mask ?fd EPOLLOUT (snd st1))"
  have m: "(EPOLLIN OR EPOLLOUT) AND NOT EPOLLOUT = EPOLLIN" "EPOLLIN \<noteq> 0" by (simp_all add: EPOLLIN_def EPOLLOUT_def)
  have "handle_write env [Wrote (8 + length data)] st1 = Inr (?f, ?s2)" using w fd by (simp add: handle_write_def)
  moreover have ep: "el_epoll (snd ?s2) ?fd = None" using e1 m by (simp add: del_ioev_mask_def epoll_ctl_def)
  moreover have ev: "\<exists>e. el_io_evs (snd ?s2) ?fd = Some e \<and> ev_mask e = EPOLLIN" using e1 m by (simp add: del_ioev_mask_def)
  moreover have "el_epoll (snd st3) ?fd = None" if "conn_send_data env data' cmdid' ?s2 = Inr (r, st3)" for data' cmdid' r st3
  proof -
    have "conn_ok ?s2" using w(3) by (simp add: conn_ok_def)
    from conn_send_data_events [OF this that] obtain sy where "same_events ?s2 sy"
      and st3: "st3 = (fst sy, add_ioev (tc_connfd (fst sy)) (cn_wcb env) EPOLLOUT (cn_args env (fst sy)) (snd sy)) \<or> same_events ?s2 st3"
      by (auto split: if_splits)
    then have y: "el_epoll (snd sy) ?fd = None" "el_io_evs (snd sy) ?fd \<noteq> None" "tc_connfd (fst sy) = ?fd"
      using ep ev fd(1) by (auto simp: same_events_def)
    have "el_epoll (snd st3) ?fd = None" if "same_events ?s2 st3" using that ep by (simp add: same_events_def)
    then show ?thesis using st3 y add_ioev_unwatched [OF y(2,1)] by auto
  qed
  ultimately show ?thesis by blast
qed

theorem reply_deafens_connection_witness:
  "\<exists>st1 st2. conn_send_data quiet_env ''hi'' 3 idle = Inr (0, st1) \<and> handle_write quiet_env [Wrote 10] st1 = Inr (frame (3, ''hi''), st2) \<and>
     el_epoll (snd st2) 7 = None"
proof -
  obtain st1 where st1: "conn_send_data quiet_env ''hi'' 3 idle = Inr (0, st1)" using idle_sends by auto
  have "out_bytes idle = []" by (simp add: tb_content_def idle_ok)
  moreover have "\<exists>e. el_io_evs (snd idle) (tc_connfd (fst idle)) = Some e \<and> ev_mask e = EPOLLIN" "tc_connfd (fst idle) = 7" by (simp_all add: idle_def)
  ultimately show ?thesis using st1 reply_deafens_connection [OF idle_ok(1) _ _ _ st1] by fastforce
qed

end
