(* ===== verification/Server_Program.thy ===== *)
theory Server_Program
  imports Tcp_Server Tcp_Properties
begin

text \<open>
  The program of the server (\<open>src/server.cpp\<close>): how it starts, the listening socket that the constructor of \<open>tcp_server\<close> makes, and its
  callback, which answers every message. The callback takes the bytes it is given for a string that ends with a zero byte, which a message
  does not; what the buffer held before becomes part of the answer.
\<close>

section \<open>Starting\<close>

text \<open>
  What the system answers: the descriptor of \<open>socket\<close>, the address that \<open>inet_aton\<close> reads from a text, and whether \<open>bind\<close> and
  \<open>listen\<close> succeed. Signals, the placeholder file and the option \<open>SO_REUSEADDR\<close> only lead to messages and are left out.
\<close>

record socket_answers =
  so_socket :: "int option"
  so_aton :: "string \<Rightarrow> 32 word option"
  so_bind :: "int \<Rightarrow> 32 word \<times> 16 word \<Rightarrow> bool"
  so_listen :: "int \<Rightarrow> nat \<Rightarrow> bool"

definition open_listener :: "socket_answers \<Rightarrow> string \<Rightarrow> 16 word \<Rightarrow> int result" where
  "open_listener so ip port =
     (case so_socket so of
        None \<Rightarrow> Inl Exit_failure
      | Some fd \<Rightarrow>
          (case so_aton so ip of
             None \<Rightarrow> Inl Exit_failure
           | Some addr \<Rightarrow>
               if \<not> so_bind so fd (addr, port) then Inl Exit_failure
               else if \<not> so_listen so fd 500 then Inl Exit_failure
               else Inr fd))"

section \<open>The callback\<close>

text \<open>A pointer to characters read as a string: up to the first zero byte of the memory.\<close>

definition c_str :: "string \<Rightarrow> string result" where
  "c_str mem = (if NUL \<in> set mem then Inr (takeWhile (\<lambda>c. c \<noteq> NUL) mem) else Inl (Out_of_range ''strlen''))"

definition buz ::
  "('c, 'a, 'h, 'u, 'x) conn_env \<Rightarrow> string option \<Rightarrow> 32 word \<Rightarrow> 32 word \<Rightarrow> 'u option \<Rightarrow> ('c, 'a, 'x) conn_state \<Rightarrow> ('c, 'a, 'x) conn_state result" where
  "buz env data len cmdid usr_data st =
     (case data of
        None \<Rightarrow> Inl Null_deref
      | Some mem \<Rightarrow>
          res_bind (c_str mem) (\<lambda>s. res_bind (conn_send_data env (s @ '' from server'') cmdid st) (\<lambda>(recv, st). Inr st)))"

datatype server_msg_cb = Buz

definition server_env :: "('c, 'a, server_msg_cb, 'u, 'x) conn_env \<Rightarrow> ('c, 'a, server_msg_cb, 'u, 'x) conn_env" where
  "server_env env = env\<lparr>cn_dispatcher := snd (add_msg_cb 1 Buz None (cn_dispatcher env)), cn_msg := (\<lambda>h. case h of Buz \<Rightarrow> buz env)\<rparr>"

text \<open>
  The main program up to \<open>process_evs\<close>. \<open>file\<close> is the text of \<open>myconf.ini\<close>, \<open>None\<close> when it cannot be opened, and \<open>acceptor\<close>
  the callback for the listening socket. The port is cut to 16 bits.
\<close>

definition server_main ::
  "string option \<Rightarrow> socket_answers \<Rightarrow> int \<Rightarrow> int \<Rightarrow> 'c \<Rightarrow> 'c \<Rightarrow> 'a option \<Rightarrow> 'x net \<Rightarrow>
   (('c, 'a) tcp_server \<times> ('c, 'a, 'x net) event_loop) result" where
  "server_main file so next_fd timer_fd timer_cb acceptor args w =
     (let loop = new_event_loop timer_fd timer_cb args w in
      res_bind (set_path file None) (\<lambda>(ok, reader). res_bind (config_ins reader) (\<lambda>cfg.
        let ip = get_string ''reactor'' ''ip'' ''0.0.0.0'' cfg; port = ucast (get_number ''reactor'' ''port'' 12315 cfg) :: 16 word in
        res_bind (open_listener so ip port) (\<lambda>sock_fd. new_tcp_server reader sock_fd next_fd acceptor args loop))))"

section \<open>Buffers in stock\<close>

definition spare :: "nat \<Rightarrow> buffer_pool \<Rightarrow> nat" where
  "spare c p = (case bp_pool p c of Some free \<Rightarrow> length free | None \<Rightarrow> 0)"

text \<open>A pool with \<open>k\<close> buffers of the two smallest sizes.\<close>

definition stocked :: "nat \<Rightarrow> buffer_pool \<Rightarrow> bool" where
  "stocked k p \<longleftrightarrow> pool_ok p \<and> k \<le> spare 4096 p \<and> k \<le> spare 16384 p"

text \<open>The memory of the buffer that the pool gives next.\<close>

definition next_memory :: "buffer_pool \<Rightarrow> string" where
  "next_memory p = (case bp_pool p 4096 of Some (b # free) \<Rightarrow> ib_data b | _ \<Rightarrow> [])"

lemma spare_alloc:
  assumes "stocked (Suc k) p" "0 \<le> n" "n \<le> 16384"
  shows "\<exists>b p'. pool_alloc raw n p = Inr (Some b, p') \<and> stocked k p' \<and> (n \<le> 4096 \<longrightarrow> ib_data b = next_memory p)"
proof -
  define c where "c = (if n \<le> 4096 then 4096 else 16384 :: nat)"
  have c: "mem_index n = Some c" "c = 4096 \<or> c = 16384" using assms(3) by (auto simp: mem_index_def c_def)
  obtain b free where f: "bp_pool p c = Some (b # free)"
    using assms(1) c(2) by (auto simp: stocked_def spare_def Suc_le_length_iff split: option.splits)
  let ?p = "p\<lparr>bp_pool := (bp_pool p)(c \<mapsto> free)\<rparr>"
  have a: "pool_alloc raw n p = Inr (Some b, ?p)" using c f by (simp add: pool_alloc_def)
  have "pool_ok ?p" using pool_alloc_ok [OF _ a] assms(1) by (simp add: stocked_def)
  then have "stocked k ?p" using assms(1) c(2) f by (auto simp: stocked_def spare_def)
  moreover have "n \<le> 4096 \<longrightarrow> ib_data b = next_memory p" using f by (auto simp: c_def next_memory_def)
  ultimately show ?thesis using a by blast
qed

lemma revert_stocked:
  assumes "stocked k p" "ib_ok b"
  shows "\<exists>p'. pool_revert b p = Inr p' \<and> stocked k p' \<and> (ib_capacity b = 4096 \<longrightarrow> next_memory p' = ib_data b)"
proof -
  obtain p' where p': "pool_revert b p = Inr p'" "pool_ok p'" using pool_revert_ok [OF _ assms(2)] assms(1) by (auto simp: stocked_def)
  then have "stocked k p'" "ib_capacity b = 4096 \<longrightarrow> next_memory p' = ib_data b" using assms(1)
    by (auto simp: pool_revert_def Let_def stocked_def spare_def next_memory_def split: option.splits if_splits)
  then show ?thesis using p'(1) by blast
qed

lemma make_room_stocked:
  assumes "stocked (Suc k) p" "tb_ok buf" "\<And>b. buf = Some b \<Longrightarrow> ib_head b = 0" "0 \<le> n" "n + tb_length buf \<le> 16384"
  shows "\<exists>b p'. make_room raw n (buf, p) = Inr (Some b, p') \<and> stocked k p'"
proof (cases buf)
  case None
  then show ?thesis using spare_alloc [OF assms(1,4), of raw] assms(5) by (auto simp: make_room_def tb_length_def)
next
  case (Some b)
  then have b: "ib_ok b" "ib_head b = 0" "n + ib_length b \<le> 16384" using assms(2,3,5) by (simp_all add: tb_ok_def tb_length_def)
  show ?thesis
  proof (cases "ib_capacity b - ib_length b < n")
    case True
    obtain c p1 where c: "pool_alloc raw (n + ib_length b) p = Inr (Some c, p1)" "stocked k p1"
      using spare_alloc [OF assms(1), of "n + ib_length b" raw] assms(4) b by (auto simp: ib_ok_def)
    have "ib_ok c" "ib_length b \<le> ib_capacity c" using pool_alloc_ok [OF _ c(1)] assms(1,4) by (auto simp: stocked_def)
    then obtain c' where "ib_copy c b = Inr c'" using ib_copy_ok [OF _ b(1)] by blast
    moreover obtain p2 where "pool_revert b p1 = Inr p2" "stocked k p2" using revert_stocked [OF c(2) b(1)] by blast
    ultimately show ?thesis using Some True b(2) c(1) by (simp add: make_room_def)
  next
    case False
    have "stocked k p" using assms(1) by (simp add: stocked_def)
    then show ?thesis using Some False b(2) by (simp add: make_room_def)
  qed
qed

lemma send_bytes_stocked:
  assumes "stocked (Suc k) p" "tb_ok buf" "\<And>b. buf = Some b \<Longrightarrow> ib_head b = 0" "int (length bs) + tb_length buf \<le> 16384"
  shows "\<exists>obuf p'. send_bytes raw bs (buf, p) = Inr (0, obuf, p') \<and> stocked k p' \<and> tb_ok obuf \<and> (\<forall>b. obuf = Some b \<longrightarrow> ib_head b = 0) \<and>
    tb_content obuf = tb_content buf @ bs"
proof -
  obtain b p' where m: "make_room raw (int (length bs)) (buf, p) = Inr (Some b, p')" "stocked k p'"
    using make_room_stocked [OF assms(1-3) _ assms(4), of raw] by auto
  have "pool_ok p" using assms(1) by (simp add: stocked_def)
  note mo = make_room_ok [OF this assms(2,3) _ m(1)]
  obtain d where "mem_write (ib_length b) bs (ib_data b) = Inr d" using put_bytes_ok [of b bs] mo by auto
  then obtain obuf where s: "send_bytes raw bs (buf, p) = Inr (0, obuf, p')" using m(1) by (simp add: send_bytes_def put_bytes_def)
  then show ?thesis using send_bytes_ok [OF \<open>pool_ok p\<close> assms(2,3) s] m(2) by auto
qed

lemma send_part_stocked:
  assumes "stocked (Suc k) (the_pool (snd st))" "tb_ok (tc_obuf (fst st))" "\<And>b. tc_obuf (fst st) = Some b \<Longrightarrow> ib_head b = 0"
    and "int (length bs) + tb_length (tc_obuf (fst st)) \<le> 16384"
  shows "\<exists>obuf p. send_part env bs st = Inr (0, (fst st)\<lparr>tc_obuf := obuf\<rparr>, set_pool p (snd st)) \<and> stocked k p \<and> tb_ok obuf \<and>
    (\<forall>b. obuf = Some b \<longrightarrow> ib_head b = 0) \<and> tb_content obuf = out_bytes st @ bs"
proof -
  obtain obuf p where "send_bytes (cn_raw env) bs (tc_obuf (fst st), the_pool (snd st)) = Inr (0, obuf, p)" "stocked k p" "tb_ok obuf"
    "\<forall>b. obuf = Some b \<longrightarrow> ib_head b = 0" "tb_content obuf = out_bytes st @ bs"
    using send_bytes_stocked [OF assms, of "cn_raw env"] by blast
  then show ?thesis by (intro exI [of _ obuf] exI [of _ p]) (simp add: send_part_def)
qed

lemma reply_stocked:
  assumes "stocked (Suc (Suc k)) (the_pool (snd st))" "tc_obuf (fst st) = None" "tc_loop (fst st)" "length data \<le> 16376"
  shows "\<exists>obuf l. conn_send_data env data cmdid st = Inr (0, (fst st)\<lparr>tc_obuf := obuf\<rparr>, l) \<and> stocked k (the_pool l) \<and>
    tb_content obuf = frame (cmdid, data) \<and> tb_ok obuf \<and> (\<forall>b. obuf = Some b \<longrightarrow> ib_head b = 0)"
proof -
  let ?h = "head_bytes \<lparr>ch_cmdid = cmdid, ch_length = of_nat (length data)\<rparr>"
  obtain o1 p1 where 1: "send_part env ?h st = Inr (0, (fst st)\<lparr>tc_obuf := o1\<rparr>, set_pool p1 (snd st))" "stocked (Suc k) p1" "tb_ok o1"
    "\<And>b. o1 = Some b \<Longrightarrow> ib_head b = 0" "tb_content o1 = ?h"
    using send_part_stocked [OF assms(1), of ?h env] assms(2) by (auto simp: tb_ok_def tb_length_def tb_content_def)
  let ?st = "((fst st)\<lparr>tc_obuf := o1\<rparr>, set_pool p1 (snd st))"
  have "tb_length o1 = 8" using tb_length_content [OF 1(3)] 1(5) by simp
  then obtain o2 p2 where "send_part env data ?st = Inr (0, (fst ?st)\<lparr>tc_obuf := o2\<rparr>, set_pool p2 (snd ?st))" "stocked k p2"
    "tb_content o2 = ?h @ data" "tb_ok o2" "\<forall>b. o2 = Some b \<longrightarrow> ib_head b = 0"
    using send_part_stocked [of k ?st data env] 1 assms(4) by (auto simp: tb_ok_def)
  then show ?thesis using 1(1) assms(2,3) by (auto simp: conn_send_data_def Let_def tb_length_def frame_def)
qed

section \<open>Answering\<close>

lemma c_str_text:
  assumes "NUL \<notin> set s" "n < length mem" "mem ! n = NUL" "take n mem = s"
  shows "c_str mem = Inr s"
proof -
  have m: "mem = s @ NUL # drop (Suc n) mem" using id_take_nth_drop [OF assms(2)] assms(3,4) by simp
  have "takeWhile (\<lambda>c. c \<noteq> NUL) (s @ NUL # drop (Suc n) mem) = s" using assms(1) by (subst takeWhile_append2) auto
  moreover have "NUL \<in> set mem" using assms(2,3) nth_mem by metis
  ultimately show ?thesis using m by (simp add: c_str_def)
qed

lemma prefix_head: "read_head (frame m @ s) = \<lparr>ch_cmdid = fst m, ch_length = of_nat (length (snd m))\<rparr>"
  by (simp add: frame_def)

definition fresh_conn :: "tcp_conn \<Rightarrow> bool" where
  "fresh_conn c \<longleftrightarrow> tc_loop c \<and> tc_ibuf c = None \<and> tc_obuf c = None"

text \<open>What the callback reads when a message with these data arrives alone.\<close>

definition seen_by_callback :: "string \<Rightarrow> buffer_pool \<Rightarrow> string" where
  "seen_by_callback data p = data @ drop (8 + length data) (next_memory p)"

lemma next_memory_ok: "stocked (Suc k) p \<Longrightarrow> length (next_memory p) = 4096"
  using pool_ok_free [of p 4096] by (fastforce simp: stocked_def spare_def next_memory_def ib_ok_def split: option.splits list.splits)

text \<open>The message is put into the first free buffer, over what is in it.\<close>

lemma read_frame:
  assumes "stocked (Suc k) p" "length bs \<le> 4096" "bs \<noteq> []"
  shows "\<exists>p'. read_data raw (Some (length bs)) (Some bs) (None, p) = Inr (int (length bs),
      Some \<lparr>ib_capacity = 4096, ib_length = int (length bs), ib_head = 0, ib_data = bs @ drop (length bs) (next_memory p)\<rparr>, p') \<and> stocked k p'"
proof -
  obtain b p' where a: "pool_alloc raw (int (length bs)) p = Inr (Some b, p')" "stocked k p'" "ib_data b = next_memory p"
    using spare_alloc [OF assms(1), of "int (length bs)" raw] assms(2) by auto
  have b: "ib_length b = 0" "ib_head b = 0" "ib_ok b" using pool_alloc_ok [OF _ a(1)] assms(1) by (simp_all add: stocked_def)
  have l: "length (ib_data b) = 4096" using a(3) next_memory_ok [OF assms(1)] by simp
  then have "ib_capacity b = 4096" using b(3) by (simp add: ib_ok_def)
  then show ?thesis using a b(1,2) assms(2,3) l by (cases b) (simp add: read_data_def make_room_def mem_write_def)
qed

lemma buz_answers:
  assumes "stocked (k + 3) (the_pool (snd st))" "fresh_conn (fst st)" "data \<noteq> []" "length data \<le> 4088"
  shows "case c_str (seen_by_callback data (the_pool (snd st))) of
     Inl e \<Rightarrow> handle_read (server_env env) (Some (8 + length data)) (Some (frame (1, data))) st = Some (Inl e)
   | Inr s \<Rightarrow> \<exists>st'. handle_read (server_env env) (Some (8 + length data)) (Some (frame (1, data))) st = Some (Inr st') \<and>
       out_bytes st' = frame (1, s @ '' from server'') \<and> conn_ok st' \<and> tc_loop (fst st') \<and> stocked k (the_pool (snd st')) \<and>
       next_memory (the_pool (snd st')) = frame (1, data) @ drop (8 + length data) (next_memory (the_pool (snd st)))"
proof -
  let ?n = "length data" and ?mem = "next_memory (the_pool (snd st))" and ?f = "frame (1, data)" and ?env = "server_env env"
  have f: "length ?f = 8 + ?n" "?f \<noteq> []" "8 \<le> length ?f" using assms(3) by (auto simp: frame_def)
  let ?B = "\<lparr>ib_capacity = 4096, ib_length = 8 + int ?n, ib_head = 0, ib_data = ?f @ drop (8 + ?n) ?mem\<rparr>"
  obtain p where rd: "read_data (cn_raw ?env) (Some (8 + ?n)) (Some ?f) (None, the_pool (snd st)) = Inr (8 + int ?n, Some ?B, p)" "stocked (k + 2) p"
    using read_frame [of "k + 2" "the_pool (snd st)" ?f "cn_raw ?env"] assms(1,4) f by (auto simp: numeral_3_eq_3)
  have m4: "length ?mem = 4096" using assms(1) next_memory_ok [of "k + 2"] by (simp add: numeral_3_eq_3)
  let ?st = "((fst st)\<lparr>tc_ibuf := Some ?B\<rparr>, set_pool p (snd st))"
  have B: "ib_ok ?B" "ib_content ?B = ?f" using m4 assms(4) f(1) by (simp_all add: ib_ok_def ib_content_def mem_caps_def)
  have in_ok: "in_ok ?st" "in_bytes ?st = ?f" using B rd(2) by (simp_all add: in_ok_def stocked_def tb_ok_def tb_content_def)
  have sint: "sint (of_nat ?n :: 32 word) = int ?n" using assms(4) by (simp add: signed_of_nat signed_take_bit_int_eq_self)
  have ex: "md_dispatcher (cn_dispatcher ?env) 1 = Some Buz"
    by (cases "md_dispatcher (cn_dispatcher env) 1"; cases "the (md_dispatcher (cn_dispatcher env) 1)") (simp_all add: server_env_def add_msg_cb_def)
  let ?C = "?B\<lparr>ib_length := int ?n, ib_head := 8\<rparr>"
  let ?st1 = "((fst st)\<lparr>tc_ibuf := Some ?C\<rparr>, set_pool p (snd st))"
  have pop1: "pop_input 8 ?st = Inr ?st1" using assms(3) by (simp add: pop_input_def tb_pop_def ib_pop_def Let_def)
  have at: "input_at (tc_ibuf (fst ?st1)) = Some (seen_by_callback data (the_pool (snd st)))"
    by (simp add: input_at_def frame_def seen_by_callback_def)
  have msg: "call_msg ?env (Some mem) len 1 st' = buz env (Some mem) len 1 (Option.bind (md_args (cn_dispatcher ?env) 1) (\<lambda>u. u)) st'" for mem len st'
    using ex by (simp add: call_msg_def) (simp add: server_env_def)
  let ?seen = "seen_by_callback data (the_pool (snd st))"
  have h: "read_head ?f = \<lparr>ch_cmdid = 1, ch_length = of_nat ?n\<rparr>" using prefix_head [of "(1, data)" "[]"] by simp
  have "read_message ?env ?st = res_bind (pop_input 8 ?st) (\<lambda>st.
      res_bind (call_msg ?env (input_at (tc_ibuf (fst st))) (of_nat ?n) 1 st) (\<lambda>st. res_bind (pop_input (int ?n) st) (\<lambda>st. Inr (True, st))))"
    unfolding read_message_eq [OF in_ok(1) f(3) in_ok(2)] h
    using assms(4) f(1) ex by (simp add: Let_def sint MSG_LENGTH_LIMIT_def COMMU_HEAD_LENGTH_def is_exist_def)
  then have rm0: "read_message ?env ?st = res_bind (res_bind (c_str ?seen) (\<lambda>s. res_bind (conn_send_data env (s @ '' from server'') 1 ?st1) (\<lambda>(r, st). Inr st)))
      (\<lambda>st. res_bind (pop_input (int ?n) st) (\<lambda>st. Inr (True, st)))"
    unfolding pop1 res_bind_simps at msg by (simp add: buz_def)
  have rm: "read_message ?env ?st = res_bind (c_str ?seen) (\<lambda>s.
      res_bind (conn_send_data env (s @ '' from server'') 1 ?st1) (\<lambda>(r, st). res_bind (pop_input (int ?n) st) (\<lambda>st. Inr (True, st))))"
    unfolding rm0 by (simp add: res_bind_def split: sum.split)
  show ?thesis
  proof (cases "c_str (seen_by_callback data (the_pool (snd st)))")
    case (Inl e)
    then have "read_loop ?env ?st = Some (Inl e)" using rm by (subst read_loop.simps) (simp add: tb_length_def COMMU_HEAD_LENGTH_def)
    then show ?thesis using Inl rd(1) assms(2) by (simp add: handle_read_def fresh_conn_def Let_def)
  next
    case (Inr s)
    have "length (seen_by_callback data (the_pool (snd st))) = 4088" using m4 assms(4) by (simp add: seen_by_callback_def)
    then have "length s \<le> 4088" using Inr length_takeWhile_le [of "\<lambda>c. c \<noteq> NUL" "seen_by_callback data (the_pool (snd st))"]
      by (auto simp: c_str_def split: if_splits)
    then obtain obuf l where r: "conn_send_data env (s @ '' from server'') 1 ?st1 = Inr (0, (fst ?st1)\<lparr>tc_obuf := obuf\<rparr>, l)" "stocked k (the_pool l)"
      "tb_content obuf = frame (1, s @ '' from server'')" "tb_ok obuf" "\<forall>b. obuf = Some b \<longrightarrow> ib_head b = 0"
      using reply_stocked [of k ?st1 "s @ '' from server''" env 1] rd(2) assms(2) by (auto simp: fresh_conn_def)
    have ok: "ib_ok (ib_pop (int ?n) ?C)" using m4 assms(4) by (simp add: ib_ok_def mem_caps_def ib_pop_def f(1))
    obtain q where q: "pool_revert (ib_pop (int ?n) ?C) (the_pool l) = Inr q" "stocked k q" "next_memory q = ?f @ drop (8 + ?n) ?mem"
      using revert_stocked [OF r(2) ok] by (auto simp: ib_pop_def)
    let ?st2 = "((fst st)\<lparr>tc_ibuf := None, tc_obuf := obuf\<rparr>, set_pool q l)"
    have "pop_input (int ?n) ((fst ?st1)\<lparr>tc_obuf := obuf\<rparr>, l) = Inr ?st2"
      using q(1) by (simp add: pop_input_def tb_pop_def ib_pop_def Let_def)
    then have "read_message ?env ?st = Inr (True, ?st2)" using rm Inr r(1) by simp
    then have "read_loop ?env ?st = Some (Inr ?st2)"
      by (subst read_loop.simps, subst read_loop.simps) (simp add: tb_length_def COMMU_HEAD_LENGTH_def)
    then have "handle_read ?env (Some (8 + ?n)) (Some ?f) st = Some (Inr ?st2)"
      using rd(1) assms(2) by (simp add: handle_read_def fresh_conn_def Let_def adjust_input_def tb_adjust_def)
    moreover have "conn_ok ?st2" using q(2) r(4,5) by (simp add: conn_ok_def stocked_def tb_ok_def)
    ultimately show ?thesis using Inr q(2,3) r(3) assms(2) by (simp add: fresh_conn_def)
  qed
qed

text \<open>
  The first client that gets a buffer whose memory is blank behind its message is answered as intended.
\<close>

lemma seen_nth:
  "length (next_memory p) = 4096 \<Longrightarrow> length data \<le> 4087 \<Longrightarrow> seen_by_callback data p ! length data = next_memory p ! (8 + length data)"
  by (simp add: seen_by_callback_def nth_append)

lemma blank_answer:
  assumes "stocked (k + 3) (the_pool (snd st))" "fresh_conn (fst st)" "data \<noteq> []" "length data \<le> 4087" "NUL \<notin> set data"
    and "next_memory (the_pool (snd st)) ! (8 + length data) = NUL"
  shows "\<exists>st'. handle_read (server_env env) (Some (8 + length data)) (Some (frame (1, data))) st = Some (Inr st') \<and>
    out_bytes st' = frame (1, data @ '' from server'') \<and> conn_ok st' \<and> tc_loop (fst st') \<and> stocked k (the_pool (snd st')) \<and>
    next_memory (the_pool (snd st')) = frame (1, data) @ drop (8 + length data) (next_memory (the_pool (snd st)))"
proof -
  have m: "length (next_memory (the_pool (snd st))) = 4096" using assms(1) next_memory_ok [of "k + 2"] by (simp add: numeral_3_eq_3)
  have "c_str (seen_by_callback data (the_pool (snd st))) = Inr data"
    using seen_nth [OF m assms(4)] assms(4,6) m by (intro c_str_text [OF assms(5), where n = "length data"]) (simp_all add: seen_by_callback_def)
  then show ?thesis using buz_answers [OF assms(1-3), of env] assms(4) by auto
qed

section \<open>Results\<close>

text \<open>
  C25. What one client has sent is sent to another: when a message of one connection has been answered, a shorter one that arrives
  on another connection lies over it in the same memory, and the answer goes on with the rest of the first message.
\<close>

theorem answer_leaks_message:
  assumes "stocked 6 (the_pool l)" "fresh_conn a" "fresh_conn b"
    and "m1 \<noteq> []" "m2 \<noteq> []" "length m2 \<le> length m1" "length m1 \<le> 4087" "NUL \<notin> set m1" "NUL \<notin> set m2"
    and "next_memory (the_pool l) ! (8 + length m1) = NUL"
  shows "\<exists>st st'. handle_read (server_env env) (Some (8 + length m1)) (Some (frame (1, m1))) (a, l) = Some (Inr st) \<and>
    out_bytes st = frame (1, m1 @ '' from server'') \<and>
    handle_read (server_env env) (Some (8 + length m2)) (Some (frame (1, m2))) (b, snd st) = Some (Inr st') \<and>
    out_bytes st' = frame (1, m2 @ drop (length m2) m1 @ '' from server'')"
proof -
  have st6: "stocked (3 + 3) (the_pool (snd (a, l)))" using assms(1) by simp
  have m: "length (next_memory (the_pool l)) = 4096" using assms(1) next_memory_ok [of 5 "the_pool l"] by simp
  obtain st where st: "handle_read (server_env env) (Some (8 + length m1)) (Some (frame (1, m1))) (a, l) = Some (Inr st)"
    "out_bytes st = frame (1, m1 @ '' from server'')" "stocked 3 (the_pool (snd st))"
    "next_memory (the_pool (snd st)) = frame (1, m1) @ drop (8 + length m1) (next_memory (the_pool l))"
    using blank_answer [OF st6, of m1 env] assms by auto
  have seen: "seen_by_callback m2 (the_pool (snd st)) = m2 @ drop (length m2) m1 @ drop (8 + length m1) (next_memory (the_pool l))"
    using assms(6) st(4) by (simp add: seen_by_callback_def frame_def)
  have "NUL \<notin> set (m2 @ drop (length m2) m1)" using assms(8,9) by (auto dest: in_set_dropD)
  then have "c_str (seen_by_callback m2 (the_pool (snd st))) = Inr (m2 @ drop (length m2) m1)"
    using assms(6,7,10) m by (intro c_str_text [where n = "length m1"]) (simp_all add: seen nth_append)
  moreover have "stocked (0 + 3) (the_pool (snd st))" using st(3) by simp
  ultimately show ?thesis using buz_answers [of 0 "(b, snd st)" m2 env] assms(3,5,6,7) st(1,2) by auto
qed

text \<open>A message that fills its buffer has nothing behind it that ends the string: the callback reads past the buffer.\<close>

theorem long_message_overread:
  assumes "stocked 3 (the_pool l)" "fresh_conn c" "length data = 4088" "NUL \<notin> set data"
  shows "handle_read (server_env env) (Some 4096) (Some (frame (1, data))) (c, l) = Some (Inl (Out_of_range ''strlen''))"
proof -
  have m: "length (next_memory (the_pool l)) = 4096" using assms(1) next_memory_ok [of 2 "the_pool l"] by simp
  have "c_str (seen_by_callback data (the_pool l)) = Inl (Out_of_range ''strlen'')" using assms(3,4) m by (simp add: seen_by_callback_def c_str_def)
  moreover have "data \<noteq> []" using assms(3) by auto
  ultimately show ?thesis using buz_answers [of 0 "(c, l)" data env] assms(1-3) by simp
qed

text \<open>A server that has started is bound to the configured address and watches the listening socket for the acceptor.\<close>

theorem server_listens:
  assumes "server_main file so next_fd timer_fd timer_cb acceptor args w = Inr (sv, l)" "sv_sock_fd sv \<noteq> timer_fd"
  shows "\<exists>ok cfg addr. set_path file None = Inr (ok, Some cfg) \<and> so_aton so (get_string ''reactor'' ''ip'' ''0.0.0.0'' cfg) = Some addr \<and>
    so_bind so (sv_sock_fd sv) (addr, ucast (get_number ''reactor'' ''port'' 12315 cfg)) \<and> so_listen so (sv_sock_fd sv) 500 \<and>
    el_epoll l (sv_sock_fd sv) = Some EPOLLIN \<and> (\<exists>e. el_io_evs l (sv_sock_fd sv) = Some e \<and> ev_read_cb e = Some acceptor)"
proof -
  obtain ok cfg fd where c: "set_path file None = Inr (ok, Some cfg)"
    "open_listener so (get_string ''reactor'' ''ip'' ''0.0.0.0'' cfg) (ucast (get_number ''reactor'' ''port'' 12315 cfg)) = Inr fd"
    "new_tcp_server (Some cfg) fd next_fd acceptor args (new_event_loop timer_fd timer_cb args w) = Inr (sv, l)"
    using assms(1) by (auto simp: server_main_def config_ins_def res_bind_def Let_def split: sum.splits option.splits)
  obtain addr where a: "so_aton so (get_string ''reactor'' ''ip'' ''0.0.0.0'' cfg) = Some addr"
    "so_bind so fd (addr, ucast (get_number ''reactor'' ''port'' 12315 cfg))" "so_listen so fd 500"
    using c(2) by (auto simp: open_listener_def split: option.splits if_splits)
  have "sv_sock_fd sv = fd" "l = add_ioev fd acceptor EPOLLIN args
      ((new_event_loop timer_fd timer_cb args w)\<lparr>el_world := (el_world (new_event_loop timer_fd timer_cb args w))\<lparr>nt_conns := Map.empty\<rparr>\<rparr>)"
    using c(3) by (auto simp: new_tcp_server_def res_bind_def Let_def split: sum.splits if_splits)
  then show ?thesis using c(1) a assms(2)
    by (auto simp: new_event_loop_def add_ioev_def epoll_ctl_def EPOLLIN_def)
qed

section \<open>Witnesses\<close>

definition stock :: buffer_pool where
  "stock = \<lparr>bp_pool = (\<lambda>c. if c \<in> set mem_caps then Some (replicate 6 (new_io_buffer (\<lambda>i. NUL) c)) else None), bp_total_mem = 0\<rparr>"

lemma stock_stocked: "stocked 6 stock"
  by (auto simp: stocked_def pool_ok_def stock_def spare_def ib_ok_def new_io_buffer_def mem_caps_def split: if_splits)

lemma stock_memory: "next_memory stock = map (\<lambda>i. NUL) [0..<4096]"
proof -
  have "replicate 6 b = b # replicate 5 b" for b :: io_buffer by (simp add: eval_nat_numeral)
  then show ?thesis by (simp add: next_memory_def stock_def mem_caps_def new_io_buffer_def)
qed

definition stock_loop :: "(nat, nat, nat net) event_loop" where
  "stock_loop = (snd idle)\<lparr>el_world := (el_world (snd idle))\<lparr>nt_pool := stock\<rparr>\<rparr>"

definition program_env :: "(nat, nat, server_msg_cb, nat, nat) conn_env" where
  "program_env = \<lparr>cn_dispatcher = \<lparr>md_dispatcher = Map.empty, md_args = Map.empty\<rparr>, cn_msg = (\<lambda>h data len cmd u st. Inr st),
     cn_build = None, cn_close = None, cn_raw = (\<lambda>i. NUL), cn_rcb = 1, cn_wcb = 2, cn_args = (\<lambda>c. None)\<rparr>"

theorem answer_leaks_message_witness:
  "\<exists>st st'. handle_read (server_env program_env) (Some 13) (Some (frame (1, ''hello''))) (fst idle, stock_loop) = Some (Inr st) \<and>
    out_bytes st = frame (1, ''hello from server'') \<and>
    handle_read (server_env program_env) (Some 10) (Some (frame (1, ''hi''))) ((fst idle)\<lparr>tc_connfd := 8\<rparr>, snd st) = Some (Inr st') \<and>
    out_bytes st' = frame (1, ''hillo from server'')"
proof -
  have p: "the_pool stock_loop = stock" by (simp add: stock_loop_def)
  have c: "fresh_conn (fst idle)" "fresh_conn ((fst idle)\<lparr>tc_connfd := 8\<rparr>)" by (simp_all add: fresh_conn_def idle_def)
  have "next_memory (the_pool stock_loop) ! (8 + length ''hello'') = NUL" by (simp add: p stock_memory)
  then show ?thesis using answer_leaks_message [of stock_loop "fst idle" "(fst idle)\<lparr>tc_connfd := 8\<rparr>" "''hello''" "''hi''" program_env] stock_stocked p c
    by simp
qed

theorem long_message_overread_witness:
  "handle_read (server_env program_env) (Some 4096) (Some (frame (1, replicate 4088 CHR ''x''))) (fst idle, stock_loop) = Some (Inl (Out_of_range ''strlen''))"
proof -
  have "stocked 3 (the_pool stock_loop)" using stock_stocked by (simp add: stock_loop_def stocked_def)
  moreover have "fresh_conn (fst idle)" by (simp add: fresh_conn_def idle_def)
  ultimately show ?thesis by (rule long_message_overread) simp_all
qed

end
