(* ===== verification/Tcp_Client.thy ===== *)
theory Tcp_Client
  imports Tcp_Conn
begin

text \<open>
  The client (\<open>src/server/src/tcp_client.cpp\<close>, \<open>src/server/include/tcp_client.h\<close>). Its two buffers have a fixed size and do not come
  from the pool. The kernel's answers to \<open>socket\<close> and \<open>connect\<close> are an argument of every operation that may connect, which none
  does twice by itself. The data of a message is the memory from its address on, with the length as a number of its own, as the
  code reads another number of bytes than it is told. The sum of a length and that of the head is taken without overflow.
\<close>

record ('h, 'u) tcp_client =
  cl_net_ok :: bool
  cl_ibuf :: io_buffer
  cl_obuf :: io_buffer
  cl_sock_fd :: int
  cl_dispatcher :: "('h, 'u) msg_dispatcher"

type_synonym ('c, 'a, 'h, 'u, 'w) client_state = "('h, 'u) tcp_client \<times> ('c, 'a, 'w) event_loop"

type_synonym ('c, 'a, 'h, 'u, 'w) client_fn = "('c, 'a, 'h, 'u, 'w) client_state \<Rightarrow> ('c, 'a, 'h, 'u, 'w) client_state result"

record ('c, 'a, 'h, 'u, 'w) client_env =
  ce_msg :: "'h \<Rightarrow> string option \<Rightarrow> 32 word \<Rightarrow> 32 word \<Rightarrow> 'u option \<Rightarrow> ('c, 'a, 'h, 'u, 'w) client_fn"
  ce_onconnection :: "('c, 'a, 'h, 'u, 'w) client_fn option"
  ce_onclose :: "('c, 'a, 'h, 'u, 'w) client_fn option"
  ce_read_cb :: 'c
  ce_write_cb :: 'c
  ce_connection_cb :: 'c
  ce_reconn_cb :: 'c
  ce_args :: "'a option"

section \<open>Connecting\<close>

definition call_onconnect :: "('c, 'a, 'h, 'u, 'w) client_env \<Rightarrow> ('c, 'a, 'h, 'u, 'w) client_fn" where
  "call_onconnect env st = (case ce_onconnection env of None \<Rightarrow> Inr st | Some f \<Rightarrow> f st)"

definition call_onclose :: "('c, 'a, 'h, 'u, 'w) client_env \<Rightarrow> ('c, 'a, 'h, 'u, 'w) client_fn" where
  "call_onclose env st = (case ce_onclose env of None \<Rightarrow> Inr st | Some f \<Rightarrow> f st)"

definition client_add_msg_cb :: "32 word \<Rightarrow> 'h \<Rightarrow> 'u option \<Rightarrow> ('h, 'u) tcp_client \<Rightarrow> ('h, 'u) tcp_client" where
  "client_add_msg_cb cmdid msg_cb usr_data c = c\<lparr>cl_dispatcher := snd (add_msg_cb cmdid msg_cb usr_data (cl_dispatcher c))\<rparr>"

text \<open>Closing a descriptor takes it out of the interest list of the kernel.\<close>

definition close_fd :: "int \<Rightarrow> ('c, 'a, 'w) event_loop \<Rightarrow> ('c, 'a, 'w) event_loop" where
  "close_fd fd l = l\<lparr>el_epoll := (el_epoll l)(fd := None)\<rparr>"

datatype connect_answer = Connected | In_progress | Connect_failed

definition do_connect :: "('c, 'a, 'h, 'u, 'w) client_env \<Rightarrow> int \<times> connect_answer \<Rightarrow> ('c, 'a, 'h, 'u, 'w) client_fn" where
  "do_connect env k st =
     (let (c, l) = st;
          l = (if cl_sock_fd c \<noteq> - 1 then close_fd (cl_sock_fd c) l else l);
          c = c\<lparr>cl_sock_fd := fst k\<rparr>
      in
      if fst k = - 1 then Inl Exit_failure
      else
        (case snd k of
           Connected \<Rightarrow> call_onconnect env (c\<lparr>cl_net_ok := True\<rparr>, l)
         | In_progress \<Rightarrow> Inr (c, add_ioev (cl_sock_fd c) (ce_connection_cb env) EPOLLOUT (ce_args env) l)
         | Connect_failed \<Rightarrow> Inl Exit_failure))"

definition new_tcp_client :: "('c, 'a, 'h, 'u, 'w) client_env \<Rightarrow> (nat \<Rightarrow> char) \<Rightarrow> (nat \<Rightarrow> char) \<Rightarrow> int \<times> connect_answer \<Rightarrow>
  ('c, 'a, 'w) event_loop \<Rightarrow> ('c, 'a, 'h, 'u, 'w) client_state result" where
  "new_tcp_client env raw1 raw2 k l =
     do_connect env k
       (\<lparr>cl_net_ok = False, cl_ibuf = new_io_buffer raw1 4194304, cl_obuf = new_io_buffer raw2 4194304, cl_sock_fd = - 1,
         cl_dispatcher = \<lparr>md_dispatcher = Map.empty, md_args = Map.empty\<rparr>\<rparr>, l)"

text \<open>\<open>res\<close> is the pending error of the socket, \<open>now\<close> the clock for the timer of the next attempt.\<close>

definition connection_cb :: "('c, 'a, 'h, 'u, 'w) client_env \<Rightarrow> int \<Rightarrow> int \<Rightarrow> 64 word \<Rightarrow> ('c, 'a, 'h, 'u, 'w) client_fn" where
  "connection_cb env fd res now st =
     (let (c, l) = st; l = del_ioev fd l in
      if res = 0 then
        res_bind (call_onconnect env (c\<lparr>cl_net_ok := True\<rparr>, l)) (\<lambda>(c, l).
          let l = add_ioev fd (ce_read_cb env) EPOLLIN (ce_args env) l in
          Inr (c, if ib_length (cl_obuf c) \<noteq> 0 then add_ioev fd (ce_write_cb env) EPOLLOUT (ce_args env) l else l))
      else res_bind (run_after now (ce_reconn_cb env) (ce_args env) 2 0 l) (\<lambda>(k, l). Inr (c, l)))"

definition client_clean_conn :: "('c, 'a, 'h, 'u, 'w) client_env \<Rightarrow> int \<times> connect_answer \<Rightarrow> ('c, 'a, 'h, 'u, 'w) client_fn" where
  "client_clean_conn env k st =
     (let (c, l) = st; l = (if cl_sock_fd c \<noteq> - 1 then close_fd (cl_sock_fd c) (del_ioev (cl_sock_fd c) l) else l) in
      res_bind (call_onclose env (c\<lparr>cl_net_ok := False\<rparr>, l)) (do_connect env k))"

section \<open>Sending\<close>

text \<open>Of the data, as many bytes are copied as the head has, and \<open>datlen\<close> are counted.\<close>

definition client_put :: "string \<Rightarrow> int \<Rightarrow> 32 word \<Rightarrow> io_buffer \<Rightarrow> io_buffer result" where
  "client_put data datlen cmdid b =
     res_bind (mem_write (ib_length b) (head_bytes \<lparr>ch_cmdid = cmdid, ch_length = of_int datlen\<rparr>) (ib_data b)) (\<lambda>d.
     let b = b\<lparr>ib_data := d, ib_length := ib_length b + COMMU_HEAD_LENGTH\<rparr> in
     res_bind (mem_read 0 COMMU_HEAD_LENGTH data) (\<lambda>bs.
     res_bind (mem_write (ib_length b) bs (ib_data b)) (\<lambda>d.
       Inr (b\<lparr>ib_data := d, ib_length := ib_length b + datlen\<rparr>))))"

definition client_send_data :: "('c, 'a, 'h, 'u, 'w) client_env \<Rightarrow> string \<Rightarrow> int \<Rightarrow> 32 word \<Rightarrow> ('c, 'a, 'h, 'u, 'w) client_state \<Rightarrow>
  (int \<times> ('c, 'a, 'h, 'u, 'w) client_state) result" where
  "client_send_data env data datlen cmdid st =
     (let (c, l) = st in
      if \<not> cl_net_ok c then Inr (- 1, st)
      else if datlen + COMMU_HEAD_LENGTH > ib_capacity (cl_obuf c) - ib_length (cl_obuf c) then Inr (- 1, st)
      else
        res_bind (client_put data datlen cmdid (cl_obuf c)) (\<lambda>obuf.
          Inr (0, c\<lparr>cl_obuf := obuf\<rparr>,
            if ib_length (cl_obuf c) = 0 then add_ioev (cl_sock_fd c) (ce_write_cb env) EPOLLOUT (ce_args env) l else l)))"

section \<open>Reading\<close>

datatype read_answer = Got string | Read_again | Read_error

definition client_call :: "('c, 'a, 'h, 'u, 'w) client_env \<Rightarrow> 32 word \<Rightarrow> 32 word \<Rightarrow> ('c, 'a, 'h, 'u, 'w) client_fn" where
  "client_call env len cmdid st =
     (let d = cl_dispatcher (fst st) in
      case md_dispatcher d cmdid of
        None \<Rightarrow> Inl Assert_failed
      | Some func \<Rightarrow> ce_msg env func (input_at (Some (cl_ibuf (fst st)))) len cmdid (Option.bind (md_args d cmdid) (\<lambda>u. u)) st)"

definition client_pop :: "int \<Rightarrow> ('c, 'a, 'h, 'u, 'w) client_state \<Rightarrow> ('c, 'a, 'h, 'u, 'w) client_state" where
  "client_pop n st = ((fst st)\<lparr>cl_ibuf := ib_pop n (cl_ibuf (fst st))\<rparr>, snd st)"

text \<open>Whether the loop goes on, is left, or the whole operation returns.\<close>

datatype client_step = Read_on | Read_break | Read_closed

definition client_read_message :: "('c, 'a, 'h, 'u, 'w) client_env \<Rightarrow> int \<times> connect_answer \<Rightarrow> ('c, 'a, 'h, 'u, 'w) client_state \<Rightarrow>
  (client_step \<times> ('c, 'a, 'h, 'u, 'w) client_state) result" where
  "client_read_message env k st =
     (let b = cl_ibuf (fst st) in
      res_bind (mem_read (ib_head b) COMMU_HEAD_LENGTH (ib_data b)) (\<lambda>bs.
        let head = read_head bs; cmdid = ch_cmdid head; len = sint (ch_length head) in
        if len + COMMU_HEAD_LENGTH < ib_length b then Inr (Read_break, st)
        else
          (let st = client_pop COMMU_HEAD_LENGTH st in
           if \<not> is_exist cmdid (cl_dispatcher (fst st)) then res_bind (client_clean_conn env k st) (\<lambda>st. Inr (Read_closed, st))
           else res_bind (client_call env (ch_length head) cmdid st) (\<lambda>st. Inr (Read_on, client_pop len st)))))"

partial_function (option) client_read_loop :: "('c, 'a, 'h, 'u, 'w) client_env \<Rightarrow> int \<times> connect_answer \<Rightarrow> ('c, 'a, 'h, 'u, 'w) client_state \<Rightarrow>
  (bool \<times> ('c, 'a, 'h, 'u, 'w) client_state) result option" where
  "client_read_loop env k st =
     (if ib_length (cl_ibuf (fst st)) < COMMU_HEAD_LENGTH then Some (Inr (True, st))
      else
        (case client_read_message env k st of
           Inl e \<Rightarrow> Some (Inl e)
         | Inr r \<Rightarrow> if fst r = Read_on then client_read_loop env k (snd r) else Some (Inr (fst r = Read_break, snd r))))"

definition client_adjust :: "('c, 'a, 'h, 'u, 'w) client_state \<Rightarrow> (int \<times> ('c, 'a, 'h, 'u, 'w) client_state) result" where
  "client_adjust st = res_bind (ib_adjust (cl_ibuf (fst st))) (\<lambda>b. Inr (0, (fst st)\<lparr>cl_ibuf := b\<rparr>, snd st))"

definition client_handle_read :: "('c, 'a, 'h, 'u, 'w) client_env \<Rightarrow> nat option \<Rightarrow> read_answer \<Rightarrow> int \<times> connect_answer \<Rightarrow>
  ('c, 'a, 'h, 'u, 'w) client_state \<Rightarrow> (int \<times> ('c, 'a, 'h, 'u, 'w) client_state) result option" where
  "client_handle_read env rn got k st =
     (let b = cl_ibuf (fst st); close = Some (res_bind (client_clean_conn env k st) (\<lambda>st. Inr (- 1, st))) in
      if \<not> cl_net_ok (fst st) then Some (Inl Assert_failed)
      else
        (case rn of
           None \<Rightarrow> Some (Inr (- 1, st))
         | Some n \<Rightarrow>
             if int n > ib_capacity b - ib_length b then Some (Inl Assert_failed)
             else
               (case got of
                  Read_again \<Rightarrow> Some (Inl Assert_failed)
                | Read_error \<Rightarrow> close
                | Got bs \<Rightarrow>
                    if bs = [] then close
                    else
                      (case mem_write (ib_length b) bs (ib_data b) of
                         Inl e \<Rightarrow> Some (Inl e)
                       | Inr d \<Rightarrow>
                           if length bs \<noteq> n then Some (Inl Assert_failed)
                           else
                             map_option (\<lambda>r. res_bind r (\<lambda>(go_on, st). if go_on then client_adjust st else Inr (- 1, st)))
                               (client_read_loop env k ((fst st)\<lparr>cl_ibuf := b\<lparr>ib_data := d, ib_length := ib_length b + int n\<rparr>\<rparr>, snd st))))))"

section \<open>Writing\<close>

text \<open>The answers to \<open>write\<close> are given; the loop ends at the latest with them. It returns the bytes that went out.\<close>

definition client_write :: "nat \<Rightarrow> io_buffer \<Rightarrow> (string \<times> io_buffer) result" where
  "client_write n b = res_bind (mem_read 0 (int n) (ib_data b)) (\<lambda>bs. res_bind (ib_adjust (ib_pop (int n) b)) (\<lambda>b. Inr (bs, b)))"

fun client_write_loop :: "('c, 'a, 'h, 'u, 'w) client_env \<Rightarrow> int \<times> connect_answer \<Rightarrow> write_answer list \<Rightarrow> ('c, 'a, 'h, 'u, 'w) client_state \<Rightarrow>
  (string \<times> bool \<times> ('c, 'a, 'h, 'u, 'w) client_state) result" where
  "client_write_loop env k [] st = Inr ([], True, st)"
| "client_write_loop env k (w # ws) st =
     (if ib_length (cl_obuf (fst st)) = 0 then Inr ([], True, st)
      else
        (case w of
           Wrote n \<Rightarrow>
             if n = 0 then Inr ([], True, st)
             else
               res_bind (client_write n (cl_obuf (fst st))) (\<lambda>(bs, obuf).
               res_bind (client_write_loop env k ws ((fst st)\<lparr>cl_obuf := obuf\<rparr>, snd st)) (\<lambda>(more, r). Inr (bs @ more, r)))
         | Would_block \<Rightarrow> Inr ([], True, st)
         | Write_failed \<Rightarrow> res_bind (client_clean_conn env k st) (\<lambda>st. Inr ([], False, st))))"

definition client_handle_write :: "('c, 'a, 'h, 'u, 'w) client_env \<Rightarrow> int \<times> connect_answer \<Rightarrow> write_answer list \<Rightarrow> ('c, 'a, 'h, 'u, 'w) client_state \<Rightarrow>
  (string \<times> int \<times> ('c, 'a, 'h, 'u, 'w) client_state) result" where
  "client_handle_write env k ws st =
     (if ib_head (cl_obuf (fst st)) \<noteq> 0 \<or> ib_length (cl_obuf (fst st)) = 0 then Inl Assert_failed
      else
        res_bind (client_write_loop env k ws st) (\<lambda>(bs, ok, st).
          if \<not> ok then Inr (bs, - 1, st)
          else if ib_length (cl_obuf (fst st)) = 0 then Inr (bs, 0, fst st, del_ioev_mask (cl_sock_fd (fst st)) EPOLLOUT (snd st))
          else Inr (bs, 0, st)))"

end
