(* ===== verification/Client_Properties.thy ===== *)
theory Client_Properties
  imports Tcp_Client Tcp_Properties
begin

text \<open>
  The client against the server. Of each message it sends only the first eight bytes of the data, followed by what its memory holds. It
  hands a message on only when nothing has arrived behind it: two messages that come together are never handed on, nor is
  anything after them, and half a message is taken for a whole one.
\<close>

section \<open>Sending\<close>

lemma client_put_ok:
  assumes "ib_ok b" "ib_head b = 0" "ib_length b = int l" "8 \<le> length data" "l + 8 + length data \<le> length (ib_data b)"
  shows "\<exists>b'. client_put data (int (length data)) cmdid b = Inr b' \<and> ib_ok b' \<and> ib_head b' = 0 \<and> ib_length b' = int (l + 8 + length data) \<and>
    ib_content b' = ib_content b @ frame (cmdid, take 8 data @ take (length data - 8) (drop (l + 16) (ib_data b)))"
proof -
  let ?D = "ib_data b" let ?n = "length data"
  let ?H = "head_bytes \<lparr>ch_cmdid = cmdid, ch_length = of_nat ?n\<rparr>"
  let ?d1 = "take l ?D @ ?H @ drop (l + 8) ?D" let ?d2 = "take l ?D @ ?H @ take 8 data @ drop (l + 16) ?D"
  let ?b = "b\<lparr>ib_data := ?d2, ib_length := int (l + 8 + ?n)\<rparr>"
  have c: "ib_capacity b = int (length ?D)" "length ?D \<in> set mem_caps" using assms(1) by (auto elim!: ib_okE)
  have w1: "mem_write (int l) ?H ?D = Inr ?d1" using assms(5) by (simp add: mem_write_def)
  have r: "mem_read 0 8 data = Inr (take 8 data)" using assms(4) by (simp add: mem_read_def)
  have w2: "mem_write (int l + 8) (take 8 data) ?d1 = Inr ?d2" using assms(4,5) by (simp add: mem_write_def min_def nat_add_distrib add.commute)
  have "client_put data (int ?n) cmdid b = Inr ?b" using w1 r w2 by (simp add: client_put_def assms(3) COMMU_HEAD_LENGTH_def)
  moreover have "ib_ok ?b" using assms c by (simp add: ib_ok_def min_def)
  moreover have "length (take 8 data @ take (?n - 8) (drop (l + 16) ?D)) = ?n" using assms(4,5) by simp
  then have "frame (cmdid, take 8 data @ take (?n - 8) (drop (l + 16) ?D)) = ?H @ take 8 data @ take (?n - 8) (drop (l + 16) ?D)"
    unfolding frame_def fst_conv snd_conv by (simp only:)
  then have "ib_content ?b = ib_content b @ frame (cmdid, take 8 data @ take (?n - 8) (drop (l + 16) ?D))"
    using assms(2-5) by (simp add: ib_content_def nat_add_distrib min_def)
  ultimately show ?thesis using assms(2) by (intro exI [of _ ?b]) simp
qed

lemma client_write_all:
  assumes "ib_ok b" "ib_head b = 0" "ib_length b = int n" "0 < n"
  shows "\<exists>b'. client_write n b = Inr (ib_content b, b') \<and> ib_length b' = 0 \<and> ib_head b' = 0"
proof -
  have "mem_read 0 (int n) (ib_data b) = Inr (ib_content b)" using assms(1-3) by (auto elim!: ib_okE simp: mem_read_def ib_content_def)
  then show ?thesis using assms(3,4) by (simp add: client_write_def ib_adjust_def ib_pop_def)
qed

text \<open>
  C24. Of a message the client sends only the first eight bytes: behind them goes out what the buffer held
  before. Between a client and the server, in whatever pieces the bytes arrive, a message of more than eight bytes is delivered with its
  length and command, and the rest of its data is lost.
\<close>

theorem client_message_garbled:
  assumes client: "cl_net_ok c" "ib_ok (cl_obuf c)" "ib_head (cl_obuf c) = 0" "ib_length (cl_obuf c) = 0"
    and data: "8 \<le> length data" "length data + 8 \<le> length (ib_data (cl_obuf c))" "message_ok (cn_dispatcher env) (cmdid, data)"
    and sent: "client_send_data cenv data (int (length data)) cmdid (c, l) = Inr (0, c1, l1)"
      "client_handle_write cenv k [Wrote (8 + length data)] (c1, l1) = Inr (bs, 0, c2, l2)"
    and receiver: "receiving r" "in_bytes r = []" "benign env"
    and pieces: "concat chunks = bs" "\<forall>bs \<in> set chunks. bs \<noteq> [] \<and> length bs \<le> 8388608 - 65536"
    and returns: "receive env chunks r = Some (Inr r')"
  shows "delivers env [(cmdid, take 8 data @ take (length data - 8) (drop 16 (ib_data (cl_obuf c))))] r r'"
proof -
  let ?m = "(cmdid, take 8 data @ take (length data - 8) (drop 16 (ib_data (cl_obuf c))))"
  obtain b where b: "client_put data (int (length data)) cmdid (cl_obuf c) = Inr b" "ib_ok b" "ib_head b = 0" "ib_length b = int (8 + length data)"
    "ib_content b = frame ?m"
    using client_put_ok [OF client(2,3), of 0 data cmdid] client(4) data(1,2) by (auto simp: ib_content_def)
  have cap: "ib_capacity (cl_obuf c) = int (length (ib_data (cl_obuf c)))" using client(2) by (auto elim!: ib_okE)
  have "c1 = c\<lparr>cl_obuf := b\<rparr>"
    using sent(1) client(1,4) data(2) cap b(1) by (auto simp: client_send_data_def COMMU_HEAD_LENGTH_def)
  then have o: "cl_obuf c1 = b" by simp
  obtain b' where w: "client_write (8 + length data) b = Inr (frame ?m, b')" "ib_length b' = 0"
    using client_write_all [OF b(2-4)] b(5) by auto
  have "bs = frame ?m" using sent(2) w b(3,4) o by (simp add: client_handle_write_def)
  then have p: "concat chunks = frame ?m" using pieces(1) by simp
  have l: "length (take 8 data @ take (length data - 8) (drop 16 (ib_data (cl_obuf c)))) = length data" using data(1,2) by simp
  have "message_ok (cn_dispatcher env) ?m" using data(3) unfolding message_ok_def fst_conv snd_conv l .
  then have ok: "\<forall>m \<in> set [?m]. message_ok (cn_dispatcher env) m" by (simp only: list.set ball_simps simp_thms)
  then have so: "stream_ok (cn_dispatcher env) (frame ?m)" using stream_ok_frames [OF ok] by simp
  have "length (snd ?m) < 2 ^ 32" using message_ok_length ok by fastforce
  then have df: "deframe (frame ?m) = ([?m], [])" using deframe_frame [of ?m "[]"] by (simp add: deframe_short)
  have "chunks \<noteq> []" using p by (auto simp: frame_def head_bytes_def put_word_def)
  then show ?thesis using receive_delivers [OF receiver(1,3) _ _ pieces(2) returns] receiver(2) p so df by simp
qed

section \<open>Reading\<close>

text \<open>At the front of the input lies a whole message, and behind it something else.\<close>

definition more_than_one :: "string \<Rightarrow> bool" where
  "more_than_one s \<longleftrightarrow> 8 \<le> length s \<and> sint (ch_length (read_head s)) + 8 < int (length s)"

lemma more_than_one_append: "more_than_one s \<Longrightarrow> more_than_one (s @ t)"
  by (simp add: more_than_one_def read_head_def)

lemma sint_length: "n < 2 ^ 31 \<Longrightarrow> sint (of_nat n :: 32 word) = int n"
  by (simp add: signed_of_nat signed_take_bit_int_eq_self)

lemma frame_and_more:
  assumes "length (snd m) < 2 ^ 31" "rest \<noteq> []"
  shows "more_than_one (frame m @ rest)"
proof -
  have "sint (of_nat (length (snd m)) :: 32 word) = int (length (snd m))" using assms(1) by (rule sint_length)
  moreover have "0 < length rest" using assms(2) by simp
  ultimately show ?thesis by (simp add: more_than_one_def frame_def)
qed

lemma read_head_of: "ib_ok b \<Longrightarrow> 8 \<le> ib_length b \<Longrightarrow> mem_read (ib_head b) 8 (ib_data b) = Inr (take 8 (ib_content b))"
  by (erule ib_okE) (simp add: mem_read_def ib_content_def min_def)

text \<open>What arrives is put behind what is there.\<close>

lemma arrived_ok:
  assumes "ib_ok b" "ib_head b = 0" "int (length bs) \<le> ib_capacity b - ib_length b"
  shows "\<exists>d. mem_write (ib_length b) bs (ib_data b) = Inr d \<and> ib_ok (b\<lparr>ib_data := d, ib_length := ib_length b + int (length bs)\<rparr>) \<and>
    ib_content (b\<lparr>ib_data := d, ib_length := ib_length b + int (length bs)\<rparr>) = ib_content b @ bs"
  using put_bytes_ok [OF assms(1,2)] assms(3) by simp

lemma client_reads_nothing:
  assumes "cl_net_ok c" "ib_ok (cl_ibuf c)" "ib_head (cl_ibuf c) = 0" "bs \<noteq> []" "int (length bs) \<le> ib_capacity (cl_ibuf c) - ib_length (cl_ibuf c)"
    and "more_than_one (ib_content (cl_ibuf c) @ bs)"
  shows "\<exists>b. client_handle_read env (Some (length bs)) (Got bs) k (c, l) = Some (Inr (0, c\<lparr>cl_ibuf := b\<rparr>, l)) \<and> ib_ok b \<and> ib_head b = 0 \<and>
    ib_capacity b = ib_capacity (cl_ibuf c) \<and> ib_content b = ib_content (cl_ibuf c) @ bs"
proof -
  let ?b = "cl_ibuf c" let ?s = "ib_content (cl_ibuf c) @ bs"
  obtain d where d: "mem_write (ib_length ?b) bs (ib_data ?b) = Inr d" "ib_ok (?b\<lparr>ib_data := d, ib_length := ib_length ?b + int (length bs)\<rparr>)"
    "ib_content (?b\<lparr>ib_data := d, ib_length := ib_length ?b + int (length bs)\<rparr>) = ?s"
    using arrived_ok [OF assms(2,3,5)] by blast
  define b where "b = ?b\<lparr>ib_data := d, ib_length := ib_length ?b + int (length bs)\<rparr>"
  have b: "ib_ok b" "ib_content b = ?s" "ib_head b = 0" "ib_capacity b = ib_capacity ?b" using d assms(3) by (simp_all add: b_def)
  have len: "ib_length b = int (length ?s)" using length_content [OF b(1)] b(2) by simp
  have m: "8 \<le> length ?s" "sint (ch_length (read_head ?s)) + 8 < int (length ?s)" using assms(6) by (simp_all add: more_than_one_def)
  have "mem_read (ib_head b) 8 (ib_data b) = Inr (take 8 ?s)"
    using read_head_of [OF b(1)] b(2) m(1) len by simp
  then have "client_read_message env k (c\<lparr>cl_ibuf := b\<rparr>, l) = Inr (Read_break, c\<lparr>cl_ibuf := b\<rparr>, l)"
    using m len read_head_take [OF m(1)] by (simp add: client_read_message_def COMMU_HEAD_LENGTH_def Let_def)
  then have "client_read_loop env k (c\<lparr>cl_ibuf := b\<rparr>, l) = Some (Inr (True, c\<lparr>cl_ibuf := b\<rparr>, l))"
    using m(1) len by (subst client_read_loop.simps) (simp add: COMMU_HEAD_LENGTH_def)
  then have "client_handle_read env (Some (length bs)) (Got bs) k (c, l) = Some (Inr (0, c\<lparr>cl_ibuf := b\<rparr>, l))"
    using assms(1,4,5) d(1) b(3) by (simp add: client_handle_read_def Let_def b_def client_adjust_def ib_adjust_def)
  then show ?thesis using b by blast
qed

fun client_receive :: "('c, 'a, 'h, 'u, 'w) client_env \<Rightarrow> int \<times> connect_answer \<Rightarrow> string list \<Rightarrow> ('c, 'a, 'h, 'u, 'w) client_state \<Rightarrow>
  ('c, 'a, 'h, 'u, 'w) client_state result option" where
  "client_receive env k [] st = Some (Inr st)"
| "client_receive env k (bs # chunks) st =
     (case client_handle_read env (Some (length bs)) (Got bs) k st of
        None \<Rightarrow> None
      | Some (Inl e) \<Rightarrow> Some (Inl e)
      | Some (Inr (r, st)) \<Rightarrow> if r = - 1 then Some (Inr st) else client_receive env k chunks st)"

lemma client_receive_stuck:
  "cl_net_ok c \<Longrightarrow> ib_ok (cl_ibuf c) \<Longrightarrow> ib_head (cl_ibuf c) = 0 \<Longrightarrow> \<forall>bs \<in> set chunks. bs \<noteq> [] \<Longrightarrow>
   int (length (concat chunks)) \<le> ib_capacity (cl_ibuf c) - ib_length (cl_ibuf c) \<Longrightarrow>
   chunks \<noteq> [] \<Longrightarrow> more_than_one (ib_content (cl_ibuf c) @ hd chunks) \<Longrightarrow>
   \<exists>b. client_receive env k chunks (c, l) = Some (Inr (c\<lparr>cl_ibuf := b\<rparr>, l)) \<and> ib_content b = ib_content (cl_ibuf c) @ concat chunks"
proof (induction chunks arbitrary: c)
  case (Cons bs chunks)
  have sz: "int (length bs) \<le> ib_capacity (cl_ibuf c) - ib_length (cl_ibuf c)" using Cons.prems(5) by simp
  have m: "more_than_one (ib_content (cl_ibuf c) @ bs)" "bs \<noteq> []" using Cons.prems(4,7) by simp_all
  obtain b where b: "client_handle_read env (Some (length bs)) (Got bs) k (c, l) = Some (Inr (0, c\<lparr>cl_ibuf := b\<rparr>, l))" "ib_ok b" "ib_head b = 0"
    "ib_capacity b = ib_capacity (cl_ibuf c)" "ib_content b = ib_content (cl_ibuf c) @ bs"
    using client_reads_nothing [OF Cons.prems(1-3) m(2) sz m(1)] by blast
  show ?case
  proof (cases "chunks = []")
    case True
    then show ?thesis using b by auto
  next
    case False
    have "ib_length b = ib_length (cl_ibuf c) + int (length bs)" using length_content [OF b(2)] length_content [OF Cons.prems(2)] b(5) by simp
    then have "int (length (concat chunks)) \<le> ib_capacity b - ib_length b" using Cons.prems(5) b(4) by simp
    moreover have "more_than_one (ib_content b @ hd chunks)" using more_than_one_append [OF m(1), of "hd chunks"] b(5) by simp
    ultimately obtain b' where "client_receive env k chunks (c\<lparr>cl_ibuf := b\<rparr>, l) = Some (Inr (c\<lparr>cl_ibuf := b'\<rparr>, l))" "ib_content b' = ib_content b @ concat chunks"
      using Cons.IH [of "c\<lparr>cl_ibuf := b\<rparr>"] Cons.prems(1,4) b(2,3) False by auto
    then show ?thesis using b(1,5) by (intro exI [of _ b']) simp
  qed
qed simp

text \<open>
  When two messages reach the client together, it is stuck: neither is handed to its callback, and whatever
  arrives afterwards is not either. The input only grows, and nothing else of the client or its loop changes.
\<close>

theorem client_stuck_after_two:
  assumes "cl_net_ok c" "ib_ok (cl_ibuf c)" "ib_head (cl_ibuf c) = 0" "ib_length (cl_ibuf c) = 0"
    and "length (snd m1) < 2 ^ 31" "\<forall>bs \<in> set chunks. bs \<noteq> []"
    and "int (length (frame m1 @ frame m2 @ concat chunks)) \<le> ib_capacity (cl_ibuf c)"
  shows "\<exists>b. client_receive env k ((frame m1 @ frame m2) # chunks) (c, l) = Some (Inr (c\<lparr>cl_ibuf := b\<rparr>, l)) \<and>
    ib_content b = frame m1 @ frame m2 @ concat chunks"
proof -
  have "frame m2 \<noteq> []" by (simp add: frame_def head_bytes_def put_word_def)
  then have "more_than_one (ib_content (cl_ibuf c) @ frame m1 @ frame m2)" using frame_and_more [OF assms(5)] assms(4) by (simp add: ib_content_def)
  then show ?thesis using client_receive_stuck [OF assms(1-3), of "(frame m1 @ frame m2) # chunks" env k l] assms(4,6,7) \<open>frame m2 \<noteq> []\<close>
    by (simp add: ib_content_def)
qed

text \<open>Callbacks that return and leave the input alone.\<close>

definition client_benign :: "('c, 'a, 'h, 'u, 'w) client_env \<Rightarrow> bool" where
  "client_benign env \<longleftrightarrow> (\<forall>f data len cmdid u st. \<exists>st'. ce_msg env f data len cmdid u st = Inr st' \<and> cl_ibuf (fst st') = cl_ibuf (fst st))"

text \<open>
  One message at the front of the input, of which everything that has arrived is part: it is handed on with the length of its head,
  however much of it is there.
\<close>

lemma client_hands_on:
  assumes "client_benign env" "ib_ok (cl_ibuf c)" "ib_head (cl_ibuf c) = 0" "ib_content (cl_ibuf c) = head_bytes h @ part"
    and "int (length part) \<le> sint (ch_length h)" "is_exist (ch_cmdid h) (cl_dispatcher c)"
  shows "\<exists>st1. client_call env (ch_length h) (ch_cmdid h) (client_pop 8 (c, l)) = Inr st1 \<and>
    cl_ibuf (fst st1) = ib_pop 8 (cl_ibuf c) \<and> (\<exists>more. input_at (Some (ib_pop 8 (cl_ibuf c))) = Some (part @ more)) \<and>
    client_read_loop env k (c, l) = client_read_loop env k (client_pop (sint (ch_length h)) st1)"
proof -
  let ?b = "cl_ibuf c" let ?s = "head_bytes h @ part"
  have len: "ib_length ?b = int (length ?s)" using length_content [OF assms(2)] assms(4) by simp
  have c8: "ib_ok (ib_pop 8 ?b)" "ib_content (ib_pop 8 ?b) = part" using ib_pop_ok [OF assms(2), of 8] len assms(4) by simp_all
  have "mem_read (ib_head ?b) 8 (ib_data ?b) = Inr (take 8 ?s)"
    using read_head_of [OF assms(2)] assms(4) len by simp
  then have m: "mem_read (ib_head ?b) 8 (ib_data ?b) = Inr (head_bytes h)" by simp
  have h: "read_head (head_bytes h) = h" using read_head_bytes [of h "[]"] by simp
  obtain f where f: "md_dispatcher (cl_dispatcher c) (ch_cmdid h) = Some f" using assms(6) by (auto simp: is_exist_def)
  obtain st1 where c: "client_call env (ch_length h) (ch_cmdid h) (client_pop 8 (c, l)) = Inr st1" "cl_ibuf (fst st1) = ib_pop 8 ?b"
  proof -
    let ?st = "client_pop 8 (c, l)"
    have "\<exists>st'. ce_msg env f (input_at (Some (ib_pop 8 ?b))) (ch_length h) (ch_cmdid h) (Option.bind (md_args (cl_dispatcher c) (ch_cmdid h)) (\<lambda>u. u)) ?st =
      Inr st' \<and> cl_ibuf (fst st') = cl_ibuf (fst ?st)" using assms(1) unfolding client_benign_def by blast
    then show thesis using that f by (auto simp: client_call_def client_pop_def)
  qed
  have "client_read_message env k (c, l) = Inr (Read_on, client_pop (sint (ch_length h)) st1)"
    using m h len assms(5,6) c(1) by (simp add: client_read_message_def COMMU_HEAD_LENGTH_def Let_def client_pop_def)
  then have "client_read_loop env k (c, l) = client_read_loop env k (client_pop (sint (ch_length h)) st1)"
    using len by (subst client_read_loop.simps) (simp add: COMMU_HEAD_LENGTH_def)
  moreover have "\<exists>more. input_at (Some (ib_pop 8 ?b)) = Some (part @ more)"
    using input_at_content [of "Some (ib_pop 8 ?b)"] c8 by (simp add: tb_ok_def tb_content_def)
  ultimately show ?thesis using c by blast
qed

lemma client_read_stops: "ib_length (cl_ibuf (fst st)) < 8 \<Longrightarrow> client_read_loop env k st = Some (Inr (True, st))"
  by (subst client_read_loop.simps) (simp add: COMMU_HEAD_LENGTH_def)

lemma client_handle_read_eq:
  assumes "cl_net_ok c" "ib_ok (cl_ibuf c)" "ib_head (cl_ibuf c) = 0" "bs \<noteq> []" "int (length bs) \<le> ib_capacity (cl_ibuf c) - ib_length (cl_ibuf c)"
  shows "\<exists>b. ib_ok b \<and> ib_head b = 0 \<and> ib_content b = ib_content (cl_ibuf c) @ bs \<and>
    client_handle_read env (Some (length bs)) (Got bs) k (c, l) =
      map_option (\<lambda>r. res_bind r (\<lambda>(go_on, st). if go_on then client_adjust st else Inr (- 1, st))) (client_read_loop env k (c\<lparr>cl_ibuf := b\<rparr>, l))"
proof -
  obtain d where "mem_write (ib_length (cl_ibuf c)) bs (ib_data (cl_ibuf c)) = Inr d"
    "ib_ok (cl_ibuf c\<lparr>ib_data := d, ib_length := ib_length (cl_ibuf c) + int (length bs)\<rparr>)"
    "ib_content (cl_ibuf c\<lparr>ib_data := d, ib_length := ib_length (cl_ibuf c) + int (length bs)\<rparr>) = ib_content (cl_ibuf c) @ bs"
    using arrived_ok [OF assms(2,3,5)] by blast
  then show ?thesis using assms
    by (intro exI [of _ "cl_ibuf c\<lparr>ib_data := d, ib_length := ib_length (cl_ibuf c) + int (length bs)\<rparr>"])
      (simp add: client_handle_read_def Let_def)
qed

text \<open>
  Half a message is taken for a whole one: the callback is told of more bytes than there are, and tidying up
  the buffer afterwards moves a negative number of bytes.
\<close>

theorem client_half_message_fails:
  assumes "cl_net_ok c" "ib_ok (cl_ibuf c)" "ib_head (cl_ibuf c) = 0" "ib_length (cl_ibuf c) = 0" "client_benign env"
    and "int (length part) < sint (ch_length h)" "is_exist (ch_cmdid h) (cl_dispatcher c)" "int (8 + length part) \<le> ib_capacity (cl_ibuf c)"
  shows "client_handle_read env (Some (8 + length part)) (Got (head_bytes h @ part)) k (c, l) = Some (Inl (Out_of_range ''memcpy''))"
proof -
  let ?bs = "head_bytes h @ part"
  have bs: "length ?bs = 8 + length part" "?bs \<noteq> []" by (simp_all add: head_bytes_def put_word_def)
  have "int (length ?bs) \<le> ib_capacity (cl_ibuf c) - ib_length (cl_ibuf c)" using assms(4,8) bs(1) by simp
  then obtain b where b: "ib_ok b" "ib_head b = 0" "ib_content b = ib_content (cl_ibuf c) @ ?bs"
    "client_handle_read env (Some (length ?bs)) (Got ?bs) k (c, l) =
      map_option (\<lambda>r. res_bind r (\<lambda>(go_on, st). if go_on then client_adjust st else Inr (- 1, st))) (client_read_loop env k (c\<lparr>cl_ibuf := b\<rparr>, l))"
    using client_handle_read_eq [OF assms(1-3) bs(2)] by blast
  have e: "ib_content (cl_ibuf c) = []" using assms(4) by (simp add: ib_content_def)
  let ?c = "c\<lparr>cl_ibuf := b\<rparr>"
  obtain st1 where st1: "cl_ibuf (fst st1) = ib_pop 8 b" "client_read_loop env k (?c, l) = client_read_loop env k (client_pop (sint (ch_length h)) st1)"
    using client_hands_on [OF assms(5), of ?c h part l k] b(1-3) e assms(6,7) by auto
  let ?st = "client_pop (sint (ch_length h)) st1"
  have len: "ib_length b = int (8 + length part)" using length_content [OF b(1)] b(3) e bs(1) by simp
  then have i: "ib_length (cl_ibuf (fst ?st)) = int (length part) - sint (ch_length h)" "ib_head (cl_ibuf (fst ?st)) = 8 + sint (ch_length h)"
    using st1(1) b(2) by (simp_all add: client_pop_def ib_pop_def)
  have "client_read_loop env k (?c, l) = Some (Inr (True, ?st))" using st1(2) client_read_stops [of ?st env k] i(1) assms(6) by simp
  moreover have "client_adjust ?st = Inl (Out_of_range ''memcpy'')" using i assms(6) by (simp add: client_adjust_def ib_adjust_def mem_read_def)
  ultimately show ?thesis using b(4) bs(1) by simp
qed

text \<open>
  A message that arrives alone and whole is handed to its callback with its data, its length and its command,
  and the input is empty afterwards.
\<close>

theorem client_reads_message:
  assumes "cl_net_ok c" "ib_ok (cl_ibuf c)" "ib_head (cl_ibuf c) = 0" "ib_length (cl_ibuf c) = 0" "client_benign env"
    and "length data < 2 ^ 31" "is_exist cmdid (cl_dispatcher c)" "int (8 + length data) \<le> ib_capacity (cl_ibuf c)"
  shows "\<exists>b more st1 b'. input_at (Some b) = Some (data @ more) \<and>
    client_call env (of_nat (length data)) cmdid (c\<lparr>cl_ibuf := b\<rparr>, l) = Inr st1 \<and>
    client_handle_read env (Some (8 + length data)) (Got (frame (cmdid, data))) k (c, l) = Some (Inr (0, (fst st1)\<lparr>cl_ibuf := b'\<rparr>, snd st1)) \<and>
    ib_content b' = []"
proof -
  let ?h = "\<lparr>ch_cmdid = cmdid, ch_length = of_nat (length data)\<rparr> :: commu_head" let ?bs = "frame (cmdid, data)"
  have bs: "length ?bs = 8 + length data" "?bs = head_bytes ?h @ data" by (simp_all add: frame_def)
  have ne: "?bs \<noteq> []" using bs(1) by auto
  have s: "sint (ch_length ?h) = int (length data)" using sint_length [OF assms(6)] by simp
  have "int (length ?bs) \<le> ib_capacity (cl_ibuf c) - ib_length (cl_ibuf c)" using assms(4,8) bs(1) by simp
  then obtain b where b: "ib_ok b" "ib_head b = 0" "ib_content b = ib_content (cl_ibuf c) @ ?bs"
    "client_handle_read env (Some (length ?bs)) (Got ?bs) k (c, l) =
      map_option (\<lambda>r. res_bind r (\<lambda>(go_on, st). if go_on then client_adjust st else Inr (- 1, st))) (client_read_loop env k (c\<lparr>cl_ibuf := b\<rparr>, l))"
    using client_handle_read_eq [OF assms(1-3) ne] by blast
  have e: "ib_content (cl_ibuf c) = []" using assms(4) by (simp add: ib_content_def)
  let ?c = "c\<lparr>cl_ibuf := b\<rparr>"
  have pre: "ib_ok (cl_ibuf ?c)" "ib_head (cl_ibuf ?c) = 0" "ib_content (cl_ibuf ?c) = head_bytes ?h @ data" "int (length data) \<le> sint (ch_length ?h)"
    "is_exist (ch_cmdid ?h) (cl_dispatcher ?c)" using b(1-3) e bs(2) s assms(7) by simp_all
  obtain st1 more where st1: "client_call env (ch_length ?h) (ch_cmdid ?h) (client_pop 8 (?c, l)) = Inr st1" "cl_ibuf (fst st1) = ib_pop 8 (cl_ibuf ?c)"
    "input_at (Some (ib_pop 8 (cl_ibuf ?c))) = Some (data @ more)"
    "client_read_loop env k (?c, l) = client_read_loop env k (client_pop (sint (ch_length ?h)) st1)"
    using client_hands_on [OF assms(5) pre, of l k] by blast
  let ?st = "client_pop (int (length data)) st1"
  have len: "ib_length b = int (8 + length data)" using length_content [OF b(1)] b(3) e bs(1) by simp
  then have i: "ib_length (cl_ibuf (fst ?st)) = 0" "ib_head (cl_ibuf (fst ?st)) = 8 + int (length data)"
    using st1(2) b(2) by (simp_all add: client_pop_def ib_pop_def)
  have "client_read_loop env k (?c, l) = Some (Inr (True, ?st))" using st1(4) s client_read_stops [of ?st env k] i(1) by simp
  moreover have "client_adjust ?st = Inr (0, (fst st1)\<lparr>cl_ibuf := cl_ibuf (fst ?st)\<lparr>ib_head := 0\<rparr>\<rparr>, snd st1)"
    using i by (simp add: client_adjust_def ib_adjust_def client_pop_def)
  ultimately have "client_handle_read env (Some (8 + length data)) (Got ?bs) k (c, l) = Some (Inr (0, (fst st1)\<lparr>cl_ibuf := cl_ibuf (fst ?st)\<lparr>ib_head := 0\<rparr>\<rparr>, snd st1))"
    using b(4) bs(1) by simp
  moreover have "client_call env (of_nat (length data)) cmdid (c\<lparr>cl_ibuf := ib_pop 8 b\<rparr>, l) = Inr st1" using st1(1) by (simp add: client_pop_def)
  moreover have "ib_content (cl_ibuf (fst ?st)\<lparr>ib_head := 0\<rparr>) = []" using i(1) by (simp add: ib_content_def)
  moreover have "input_at (Some (ib_pop 8 b)) = Some (data @ more)" using st1(3) by simp
  ultimately show ?thesis by blast
qed

section \<open>Witnesses\<close>

text \<open>A connected client with the buffers of its constructor.\<close>

definition real_buffer :: io_buffer where
  "real_buffer = new_io_buffer (\<lambda>i. NUL) 4194304"

lemma real_buffer_simps: "ib_ok real_buffer" "ib_head real_buffer = 0" "ib_length real_buffer = 0" "ib_capacity real_buffer = 4194304"
  "ib_data real_buffer = replicate 4194304 NUL" "ib_content real_buffer = []"
proof -
  have "ib_head (new_io_buffer raw n) = 0" "ib_length (new_io_buffer raw n) = 0" "ib_capacity (new_io_buffer raw n) = int n"
    "ib_data (new_io_buffer (\<lambda>i. NUL) n) = replicate n NUL" "ib_content (new_io_buffer raw n) = []" for raw n
    by (simp_all add: new_io_buffer_def map_replicate_const ib_content_def)
  note g = this [where n = 4194304]
  show "ib_ok real_buffer" unfolding real_buffer_def by (rule new_io_buffer_ok) (simp add: mem_caps_def)
  show "ib_head real_buffer = 0" "ib_length real_buffer = 0" "ib_data real_buffer = replicate 4194304 NUL" "ib_content real_buffer = []"
    unfolding real_buffer_def g by (rule refl)+
  show "ib_capacity real_buffer = 4194304" unfolding real_buffer_def g by simp
qed

lemma real_buffer_length: "length (ib_data real_buffer) = 4194304"
  unfolding real_buffer_simps(5) by (rule length_replicate)

definition quiet_client_env :: "(nat, nat, nat, nat, nat) client_env" where
  "quiet_client_env = \<lparr>ce_msg = (\<lambda>h data len cmd u st. Inr st), ce_onconnection = None, ce_onclose = None, ce_read_cb = 1, ce_write_cb = 2,
     ce_connection_cb = 3, ce_reconn_cb = 4, ce_args = None\<rparr>"

definition quiet_client :: "(nat, nat) tcp_client" where
  "quiet_client = \<lparr>cl_net_ok = True, cl_ibuf = real_buffer, cl_obuf = real_buffer, cl_sock_fd = 9,
     cl_dispatcher = \<lparr>md_dispatcher = [3 \<mapsto> 0], md_args = [3 \<mapsto> None]\<rparr>\<rparr>"

definition quiet_loop :: "(nat, nat, nat) event_loop" where
  "quiet_loop = new_event_loop 3 0 None 0"

lemma quiet_client_simps: "cl_net_ok quiet_client" "cl_ibuf quiet_client = real_buffer" "cl_obuf quiet_client = real_buffer"
  "is_exist 3 (cl_dispatcher quiet_client)" "client_benign quiet_client_env"
  by (simp_all add: quiet_client_def is_exist_def client_benign_def quiet_client_env_def)

theorem client_stuck_after_two_witness:
  "\<exists>b. client_receive quiet_client_env (9, In_progress) ((frame (3, ''hi'') @ frame (3, ''ho'')) # [''x'']) (quiet_client, quiet_loop) =
     Some (Inr (quiet_client\<lparr>cl_ibuf := b\<rparr>, quiet_loop)) \<and> ib_content b = frame (3, ''hi'') @ frame (3, ''ho'') @ concat [''x'']"
  by (rule client_stuck_after_two) (simp_all add: quiet_client_simps real_buffer_simps frame_def)

theorem client_half_message_fails_witness:
  "client_handle_read quiet_client_env (Some (8 + length ''h'')) (Got (head_bytes \<lparr>ch_cmdid = 3, ch_length = 2\<rparr> @ ''h'')) (9, In_progress)
     (quiet_client, quiet_loop) = Some (Inl (Out_of_range ''memcpy''))"
  by (rule client_half_message_fails) (simp_all add: quiet_client_simps real_buffer_simps)

theorem client_reads_message_witness:
  "\<exists>b more st1 b'. input_at (Some b) = Some (''hi'' @ more) \<and>
    client_call quiet_client_env (of_nat (length ''hi'')) 3 (quiet_client\<lparr>cl_ibuf := b\<rparr>, quiet_loop) = Inr st1 \<and>
    client_handle_read quiet_client_env (Some (8 + length ''hi'')) (Got (frame (3, ''hi''))) (9, In_progress) (quiet_client, quiet_loop) =
      Some (Inr (0, (fst st1)\<lparr>cl_ibuf := b'\<rparr>, snd st1)) \<and> ib_content b' = []"
  by (rule client_reads_message) (simp_all add: quiet_client_simps real_buffer_simps)

theorem client_message_garbled_witness:
  "\<exists>c1 l1 bs c2 l2 r'. client_send_data quiet_client_env ''0123456789'' 10 3 (quiet_client, quiet_loop) = Inr (0, c1, l1) \<and>
     client_handle_write quiet_client_env (9, In_progress) [Wrote 18] (c1, l1) = Inr (bs, 0, c2, l2) \<and>
     receive quiet_env [bs] idle = Some (Inr r') \<and> delivers quiet_env [(3, ''01234567'' @ [NUL, NUL])] idle r'"
proof -
  let ?d = "''0123456789''" let ?m = "(3, ''01234567'' @ [NUL, NUL]) :: message"
  have st: "take (length ?d - 8) (drop 16 (ib_data real_buffer)) = [NUL, NUL]" unfolding real_buffer_simps(5) drop_replicate take_replicate
    by (simp add: numeral_2_eq_2)
  obtain b where b: "client_put ?d 10 3 real_buffer = Inr b" "ib_ok b" "ib_head b = 0" "ib_length b = int 18" "ib_content b = frame ?m"
    using client_put_ok [OF real_buffer_simps(1,2), of 0 ?d 3] st by (auto simp: real_buffer_simps(3,6) real_buffer_length)
  define c1 where "c1 = quiet_client\<lparr>cl_obuf := b\<rparr>"
  define l1 where "l1 = add_ioev 9 2 EPOLLOUT None quiet_loop"
  have fd: "cl_sock_fd quiet_client = 9" "ce_write_cb quiet_client_env = 2" "ce_args quiet_client_env = None" by (simp_all add: quiet_client_def quiet_client_env_def)
  have s: "client_send_data quiet_client_env ?d 10 3 (quiet_client, quiet_loop) = Inr (0, c1, l1)"
    using b(1) by (simp add: client_send_data_def quiet_client_simps real_buffer_simps(3,4) COMMU_HEAD_LENGTH_def c1_def l1_def fd)
  obtain b' where w: "client_write 18 b = Inr (frame ?m, b')" "ib_length b' = 0" using client_write_all [OF b(2-4)] b(5) by auto
  obtain c2 l2 where h: "client_handle_write quiet_client_env (9, In_progress) [Wrote 18] (c1, l1) = Inr (frame ?m, 0, c2, l2)"
    using w b(3,4) by (auto simp: client_handle_write_def c1_def)
  have l: "length (frame ?m) = 18" by (simp add: frame_def)
  then have ne: "frame ?m \<noteq> []" by (metis list.size(3) zero_neq_numeral)
  have mo: "message_ok (cn_dispatcher quiet_env) ?m" "message_ok (cn_dispatcher quiet_env) (3, ?d)"
    by (simp_all add: message_ok_def MSG_LENGTH_LIMIT_def COMMU_HEAD_LENGTH_def is_exist_def quiet_env_def)
  have e: "in_bytes idle = []" by (simp add: tb_content_def idle_ok)
  obtain ibuf p where "read_data (cn_raw quiet_env) (Some (length (frame ?m))) (Some (frame ?m)) (None, small_pool) = Inr (int (length (frame ?m)), ibuf, p)"
    using read_first [OF ne] l by fastforce
  moreover have "stream_ok (cn_dispatcher quiet_env) (in_bytes idle @ frame ?m)" using stream_ok_frames [of "[?m]"] mo(1) e by simp
  ultimately obtain r' where "handle_read quiet_env (Some (length (frame ?m))) (Some (frame ?m)) idle = Some (Inr r')"
    using handle_read_returns [OF idle_ok(2,3) ne] by (auto simp: idle_ok)
  then have r: "receive quiet_env [frame ?m] idle = Some (Inr r')" by simp
  have "delivers quiet_env [(3, take 8 ?d @ take (length ?d - 8) (drop 16 (ib_data (cl_obuf quiet_client))))] idle r'"
    by (rule client_message_garbled [OF quiet_client_simps(1), where chunks = "[frame ?m]" and cenv = quiet_client_env and k = "(9, In_progress)" and l = quiet_loop
      and ?c1.0 = c1 and ?l1.0 = l1 and ?c2.0 = c2 and ?l2.0 = l2 and bs = "frame ?m"])
      (use s h r e ne l mo idle_ok(2,3) in \<open>simp_all add: quiet_client_simps(3) real_buffer_simps(1-3) real_buffer_length\<close>)
  moreover have "(3, take 8 ?d @ take (length ?d - 8) (drop 16 (ib_data (cl_obuf quiet_client)))) = ?m" using st by (simp add: quiet_client_simps(3))
  ultimately have "delivers quiet_env [?m] idle r'" by (simp only:)
  then show ?thesis using s h r by blast
qed

end
