(* ===== verification/Client_Program.thy ===== *)
theory Client_Program
  imports Server_Program Client_Properties
begin

text \<open>
  The program of the client (\<open>src/client.cpp\<close>) and its conversation with the program of the server. Standard input and output are the
  world of its loop; \<open>behind s\<close> is what the memory of a C++ string holds behind its last zero byte.
\<close>

section \<open>The program\<close>

record console =
  co_input :: "string list"
  co_output :: "string list"

definition string_memory :: "(string \<Rightarrow> string) \<Rightarrow> string \<Rightarrow> string" where
  "string_memory behind s = s @ NUL # behind s"

text \<open>\<open>getline\<close> gives an empty string at the end of the input.\<close>

definition getline :: "console \<Rightarrow> string \<times> console" where
  "getline w = (case co_input w of [] \<Rightarrow> ([], w) | s # rest \<Rightarrow> (s, w\<lparr>co_input := rest\<rparr>))"

definition client_buz ::
  "(string \<Rightarrow> string) \<Rightarrow> ('c, 'a, 'h, 'u, console) client_env \<Rightarrow> string option \<Rightarrow> 32 word \<Rightarrow> 32 word \<Rightarrow> 'u option \<Rightarrow> ('c, 'a, 'h, 'u, console) client_fn" where
  "client_buz behind env data len cmdid usr_data st =
     (case data of
        None \<Rightarrow> Inl Null_deref
      | Some mem \<Rightarrow>
          res_bind (c_str mem) (\<lambda>s.
            let (c, l) = st; w = el_world l; (userInput, w) = getline (w\<lparr>co_output := co_output w @ [s]\<rparr>) in
            res_bind (client_send_data env (string_memory behind userInput) (int (length userInput)) cmdid (c, l\<lparr>el_world := w\<rparr>)) (\<lambda>(r, st).
              Inr st)))"

definition whenConnectDone :: "(string \<Rightarrow> string) \<Rightarrow> ('c, 'a, 'h, 'u, console) client_env \<Rightarrow> ('c, 'a, 'h, 'u, console) client_fn" where
  "whenConnectDone behind env st =
     res_bind (client_send_data env (string_memory behind ''hello'') (int (length ''hello'')) 1 st) (\<lambda>(r, c, l).
       Inr (c, l\<lparr>el_world := (el_world l)\<lparr>co_output := co_output (el_world l) @ [''Connected to server!'']\<rparr>\<rparr>))"

datatype client_msg_cb = Client_buz

definition program_client_env :: "(string \<Rightarrow> string) \<Rightarrow> ('c, 'a, client_msg_cb, 'u, console) client_env \<Rightarrow> ('c, 'a, client_msg_cb, 'u, console) client_env" where
  "program_client_env behind env =
     env\<lparr>ce_msg := (\<lambda>h. case h of Client_buz \<Rightarrow> client_buz behind env), ce_onconnection := Some (whenConnectDone behind env)\<rparr>"

text \<open>
  A thread of the program up to \<open>process_evs\<close>. The client is made before the callback for a new connection is set, so that a connection that
  stands at once calls none.
\<close>

definition client_domain ::
  "(string \<Rightarrow> string) \<Rightarrow> ('c, 'a, client_msg_cb, 'u, console) client_env \<Rightarrow> (nat \<Rightarrow> char) \<Rightarrow> (nat \<Rightarrow> char) \<Rightarrow> int \<times> connect_answer \<Rightarrow>
   int \<Rightarrow> 'c \<Rightarrow> 'a option \<Rightarrow> console \<Rightarrow> ('c, 'a, client_msg_cb, 'u, console) client_state result" where
  "client_domain behind env raw1 raw2 k timer_fd timer_cb args w =
     res_bind (new_tcp_client (env\<lparr>ce_onconnection := None\<rparr>) raw1 raw2 k (new_event_loop timer_fd timer_cb args w)) (\<lambda>(client, l).
       Inr (client_add_msg_cb 1 Client_buz None client, l))"

section \<open>Short messages\<close>

text \<open>Data of at most eight bytes go out as they are, if the memory behind them can be read.\<close>

lemma client_put_short:
  assumes "ib_ok b" "ib_head b = 0" "ib_length b = 0" "n \<le> 8" "8 \<le> length mem" "16 \<le> length (ib_data b)"
  shows "\<exists>b'. client_put mem (int n) cmdid b = Inr b' \<and> ib_ok b' \<and> ib_head b' = 0 \<and> ib_length b' = int (8 + n) \<and> ib_content b' = frame (cmdid, take n mem)"
proof -
  let ?D = "ib_data b"
  let ?H = "head_bytes \<lparr>ch_cmdid = cmdid, ch_length = of_nat n\<rparr>"
  let ?b = "b\<lparr>ib_data := ?H @ take 8 mem @ drop 16 ?D, ib_length := int (8 + n)\<rparr>"
  have c: "ib_capacity b = int (length ?D)" "length ?D \<in> set mem_caps" using assms(1) by (auto elim!: ib_okE)
  have w1: "mem_write 0 ?H ?D = Inr (?H @ drop 8 ?D)" using assms(6) by (simp add: mem_write_def)
  have r: "mem_read 0 8 mem = Inr (take 8 mem)" using assms(5) by (simp add: mem_read_def)
  have w2: "mem_write 8 (take 8 mem) (?H @ drop 8 ?D) = Inr (?H @ take 8 mem @ drop 16 ?D)" using assms(5,6) by (simp add: mem_write_def min_def)
  have "client_put mem (int n) cmdid b = Inr ?b" using w1 r w2 by (simp add: client_put_def assms(3) COMMU_HEAD_LENGTH_def)
  moreover have "ib_ok ?b" using assms c by (simp add: ib_ok_def min_def)
  moreover have "take n (take 8 mem) = take n mem" "length (take n mem) = n" using assms(4,5) by (simp_all add: min_def)
  then have "ib_content ?b = frame (cmdid, take n mem)" using assms(2,4,5)
    by (simp add: ib_content_def frame_def nat_add_distrib min_def)
  ultimately show ?thesis using assms(2) by (intro exI [of _ ?b]) simp
qed

lemma ib_ok_big: "ib_ok b \<Longrightarrow> 4096 \<le> length (ib_data b)"
  by (auto elim!: ib_okE simp: mem_caps_def)

lemma string_memory_take [simp]: "take (length s) (string_memory behind s) = s"
  by (simp add: string_memory_def)

definition readable :: "(string \<Rightarrow> string) \<Rightarrow> string \<Rightarrow> bool" where
  "readable behind s \<longleftrightarrow> length s \<le> 8 \<and> 7 \<le> length s + length (behind s)"

lemma client_sends_short:
  assumes "cl_net_ok c" "ib_ok (cl_obuf c)" "ib_head (cl_obuf c) = 0" "ib_length (cl_obuf c) = 0" "readable behind s"
  shows "\<exists>b l'. client_send_data env (string_memory behind s) (int (length s)) cmdid (c, l) = Inr (0, c\<lparr>cl_obuf := b\<rparr>, l') \<and> el_world l' = el_world l \<and>
    ib_ok b \<and> ib_head b = 0 \<and> ib_length b = int (8 + length s) \<and> ib_content b = frame (cmdid, s)"
proof -
  have "8 \<le> length (string_memory behind s)" "length s \<le> 8" using assms(5) by (auto simp: readable_def string_memory_def)
  then obtain b where "client_put (string_memory behind s) (int (length s)) cmdid (cl_obuf c) = Inr b" "ib_ok b" "ib_head b = 0"
    "ib_length b = int (8 + length s)" "ib_content b = frame (cmdid, s)"
    using client_put_short [OF assms(2-4), of "length s" "string_memory behind s" cmdid] ib_ok_big [OF assms(2)] by auto
  moreover have "4096 \<le> ib_capacity (cl_obuf c)" using ib_ok_big [OF assms(2)] assms(2) by (auto elim!: ib_okE)
  ultimately show ?thesis using assms(1,4) \<open>length s \<le> 8\<close> by (auto simp: client_send_data_def COMMU_HEAD_LENGTH_def)
qed

section \<open>A message for the client\<close>

lemma client_reads_one:
  assumes "cl_net_ok c" "ib_ok (cl_ibuf c)" "ib_head (cl_ibuf c) = 0" "ib_length (cl_ibuf c) = 0" "length data < 2 ^ 31"
    and "is_exist 1 (cl_dispatcher c)" "8 + length data \<le> length (ib_data (cl_ibuf c))"
    and "b8 = (cl_ibuf c)\<lparr>ib_data := frame (1, data) @ drop (8 + length data) (ib_data (cl_ibuf c)), ib_length := int (length data), ib_head := 8\<rparr>"
    and "client_call env (of_nat (length data)) 1 (c\<lparr>cl_ibuf := b8\<rparr>, l) = Inr st1" "cl_ibuf (fst st1) = b8"
  shows "client_handle_read env (Some (8 + length data)) (Got (frame (1, data))) k (c, l) =
    Some (Inr (0, (fst st1)\<lparr>cl_ibuf := b8\<lparr>ib_length := 0, ib_head := 0\<rparr>\<rparr>, snd st1))"
proof -
  let ?n = "length data" and ?D = "ib_data (cl_ibuf c)" and ?f = "frame (1, data)"
  have f: "length ?f = 8 + ?n" "?f \<noteq> []" "read_head (take 8 ?f) = \<lparr>ch_cmdid = 1, ch_length = of_nat ?n\<rparr>"
    using read_head_bytes [of "\<lparr>ch_cmdid = 1, ch_length = of_nat ?n\<rparr>" "[]"] length_head_bytes [of "\<lparr>ch_cmdid = 1, ch_length = of_nat ?n\<rparr>"]
    by (auto simp: frame_def simp del: length_head_bytes)
  have cap: "ib_capacity (cl_ibuf c) = int (length ?D)" using assms(2) by (auto elim!: ib_okE)
  let ?b = "(cl_ibuf c)\<lparr>ib_data := ?f @ drop (8 + ?n) ?D, ib_length := int (8 + ?n)\<rparr>"
  have w: "mem_write 0 ?f ?D = Inr (?f @ drop (8 + ?n) ?D)" using assms(7) f(1) by (simp add: mem_write_def)
  have m: "mem_read 0 8 (?f @ drop (8 + ?n) ?D) = Inr (take 8 ?f)" using f(1) by (simp add: mem_read_def)
  have s: "sint (of_nat ?n :: 32 word) = int ?n" using sint_length [OF assms(5)] .
  have p8: "client_pop 8 (c\<lparr>cl_ibuf := ?b\<rparr>, l) = (c\<lparr>cl_ibuf := b8\<rparr>, l)" using assms(3) by (simp add: client_pop_def ib_pop_def assms(8))
  have "client_read_message env k (c\<lparr>cl_ibuf := ?b\<rparr>, l) = Inr (Read_on, client_pop (int ?n) st1)"
    using assms(3,6,9) m f(3) s p8 by (simp add: client_read_message_def COMMU_HEAD_LENGTH_def Let_def)
  then have "client_read_loop env k (c\<lparr>cl_ibuf := ?b\<rparr>, l) = client_read_loop env k (client_pop (int ?n) st1)"
    by (subst client_read_loop.simps) (simp add: COMMU_HEAD_LENGTH_def)
  also have "\<dots> = Some (Inr (True, client_pop (int ?n) st1))" using assms(8,10) by (intro client_read_stops) (simp add: client_pop_def ib_pop_def)
  finally have loop: "client_read_loop env k (c\<lparr>cl_ibuf := ?b\<rparr>, l) = Some (Inr (True, client_pop (int ?n) st1))" .
  have "client_adjust (client_pop (int ?n) st1) = Inr (0, (fst st1)\<lparr>cl_ibuf := b8\<lparr>ib_length := 0, ib_head := 0\<rparr>\<rparr>, snd st1)"
    using assms(8,10) by (simp add: client_adjust_def client_pop_def ib_pop_def ib_adjust_def)
  then show ?thesis using assms(1,4,7) cap w f(1,2) loop by (simp add: client_handle_read_def Let_def)
qed

section \<open>A conversation\<close>

text \<open>The connection stands: the greeting lies in the output, and both directions are watched.\<close>

lemma client_greets:
  assumes "ib_ok (cl_obuf c)" "ib_head (cl_obuf c) = 0" "ib_length (cl_obuf c) = 0" "readable behind ''hello''"
  shows "\<exists>b l1. connection_cb (program_client_env behind env) fd 0 now (c, l) = Inr (c\<lparr>cl_net_ok := True, cl_obuf := b\<rparr>, l1) \<and>
    el_world l1 = (el_world l)\<lparr>co_output := co_output (el_world l) @ [''Connected to server!'']\<rparr> \<and>
    ib_ok b \<and> ib_head b = 0 \<and> ib_length b = 13 \<and> ib_content b = frame (1, ''hello'')"
proof -
  let ?c = "c\<lparr>cl_net_ok := True\<rparr>"
  obtain b l' where b: "client_send_data env (string_memory behind ''hello'') (int (length ''hello'')) 1 (?c, del_ioev fd l) = Inr (0, ?c\<lparr>cl_obuf := b\<rparr>, l')"
    "el_world l' = el_world (del_ioev fd l)" "ib_ok b" "ib_head b = 0" "ib_length b = int (8 + length ''hello'')" "ib_content b = frame (1, ''hello'')"
    using client_sends_short [of ?c behind "''hello''" env 1 "del_ioev fd l"] assms by auto
  have "el_world (del_ioev fd l) = el_world l" by (simp add: del_ioev_def)
  then show ?thesis using b by (intro exI [of _ b]) (simp add: connection_cb_def call_onconnect_def program_client_env_def whenConnectDone_def Let_def)
qed

lemma client_writes_all:
  assumes "ib_ok (cl_obuf c)" "ib_head (cl_obuf c) = 0" "ib_length (cl_obuf c) = int n" "0 < n"
  shows "\<exists>b. client_handle_write env k [Wrote n] (c, l) = Inr (ib_content (cl_obuf c), 0, c\<lparr>cl_obuf := b\<rparr>, del_ioev_mask (cl_sock_fd c) EPOLLOUT l) \<and>
    ib_length b = 0 \<and> ib_head b = 0 \<and> ib_ok b"
proof -
  let ?b = "cl_obuf c"
  have m: "mem_read 0 (int n) (ib_data ?b) = Inr (ib_content ?b)" using assms(1-3) by (auto elim!: ib_okE simp: mem_read_def ib_content_def)
  have p: "ib_ok (ib_pop (int n) ?b)" using ib_pop_ok [OF assms(1), of "int n"] assms(3) by simp
  have a: "ib_adjust (ib_pop (int n) ?b) = Inr ((ib_pop (int n) ?b)\<lparr>ib_head := 0\<rparr>)" using assms(2-4) by (simp add: ib_adjust_def ib_pop_def)
  have "ib_ok ((ib_pop (int n) ?b)\<lparr>ib_head := 0\<rparr>)" using p assms(3) by (auto simp: ib_ok_def ib_pop_def)
  then show ?thesis using m a assms(2-4)
    by (intro exI [of _ "(ib_pop (int n) ?b)\<lparr>ib_head := 0\<rparr>"]) (simp add: client_handle_write_def client_write_def ib_pop_def)
qed

lemma server_writes_all:
  assumes "conn_ok st" "tc_loop (fst st)" "out_bytes st \<noteq> []"
  shows "\<exists>st'. handle_write env [Wrote (length (out_bytes st))] st = Inr (out_bytes st, st')"
proof -
  obtain obuf where "write_loop env [Wrote (length (out_bytes st))] st = Inr (out_bytes st, True, (fst st)\<lparr>tc_obuf := obuf\<rparr>, snd st)" "tb_length obuf = 0"
    using write_loop_all [OF assms(1,3) refl] by blast
  then show ?thesis using assms(2) by (simp add: handle_write_def)
qed

text \<open>The callback of the client, on a message that ends with a zero byte in memory.\<close>

lemma client_answers:
  assumes "md_dispatcher (cl_dispatcher c) 1 = Some Client_buz" "c_str (drop 8 (ib_data b8)) = Inr s" "cl_ibuf c = b8" "ib_head b8 = 8"
    and "cl_net_ok c" "ib_ok (cl_obuf c)" "ib_head (cl_obuf c) = 0" "ib_length (cl_obuf c) = 0"
    and "co_input (el_world l) = line # rest" "readable behind line"
  shows "\<exists>b l'. client_call (program_client_env behind env) len 1 (c, l) = Inr (c\<lparr>cl_obuf := b\<rparr>, l') \<and> ib_content b = frame (1, line) \<and>
    el_world l' = \<lparr>co_input = rest, co_output = co_output (el_world l) @ [s]\<rparr>"
proof -
  let ?l = "l\<lparr>el_world := \<lparr>co_input = rest, co_output = co_output (el_world l) @ [s]\<rparr>\<rparr>"
  obtain b l' where b: "client_send_data env (string_memory behind line) (int (length line)) 1 (c, ?l) = Inr (0, c\<lparr>cl_obuf := b\<rparr>, l')"
    "el_world l' = el_world ?l" "ib_content b = frame (1, line)"
    using client_sends_short [OF assms(5-8,10), of env 1 ?l] by blast
  have g: "getline (el_world l\<lparr>co_output := co_output (el_world l) @ [s]\<rparr>) = (line, \<lparr>co_input = rest, co_output = co_output (el_world l) @ [s]\<rparr>)"
    using assms(9) by (cases "el_world l") (simp add: getline_def)
  show ?thesis using assms(1-4) b g
    by (intro exI [of _ b] exI [of _ l']) (simp add: client_call_def program_client_env_def client_buz_def input_at_def)
qed

text \<open>
  C12. One exchange of the two example programs. The client has just connected and nothing has passed yet: both
  of its buffers are empty at the front, \<open>client_buz\<close> is registered under command 1, and the byte of its input memory
  behind the answer is zero. The server has a fresh connection, three free buffers of each of its two smallest sizes in the
  pool, and the byte of the next one behind the greeting is zero. The line that is typed has at most eight bytes, and with the
  zero byte at its end and the memory behind it there are eight bytes to read. Then the client says that it is connected and greets, the server answers the greeting, the client prints the
  answer and has the line that is typed next, as a whole, in its output. Without these conditions it goes wrong:
  a longer line is cut to eight bytes of which the rest is stale, and where memory is not zero an answer goes on with the
  bytes that lie behind the message.
\<close>

theorem programs_talk:
  fixes c :: "(client_msg_cb, 'u) tcp_client"
  assumes out: "ib_ok (cl_obuf c)" "ib_head (cl_obuf c) = 0" "ib_length (cl_obuf c) = 0"
    and inp: "ib_ok (cl_ibuf c)" "ib_head (cl_ibuf c) = 0" "ib_length (cl_ibuf c) = 0" "ib_data (cl_ibuf c) ! 25 = NUL"
    and console: "md_dispatcher (cl_dispatcher c) 1 = Some Client_buz" "co_input (el_world l) = line # rest" "readable behind line" "readable behind ''hello''"
    and server: "stocked 3 (the_pool sl)" "fresh_conn conn" "next_memory (the_pool sl) ! 13 = NUL"
  shows "\<exists>st1 st2 st st' c3 l3.
    connection_cb (program_client_env behind env) fd 0 now (c, l) = Inr st1 \<and>
    client_handle_write (program_client_env behind env) k [Wrote 13] st1 = Inr (frame (1, ''hello''), 0, st2) \<and>
    handle_read (server_env senv) (Some 13) (Some (frame (1, ''hello''))) (conn, sl) = Some (Inr st) \<and>
    handle_write (server_env senv) [Wrote 25] st = Inr (frame (1, ''hello from server''), st') \<and>
    client_handle_read (program_client_env behind env) (Some 25) (Got (frame (1, ''hello from server''))) k st2 = Some (Inr (0, c3, l3)) \<and>
    el_world l3 = \<lparr>co_input = rest, co_output = co_output (el_world l) @ [''Connected to server!'', ''hello from server'']\<rparr> \<and>
    ib_content (cl_obuf c3) = frame (1, line)"
proof -
  let ?E = "program_client_env behind env" and ?a = "''hello from server''"
  obtain b l1 where g: "connection_cb ?E fd 0 now (c, l) = Inr (c\<lparr>cl_net_ok := True, cl_obuf := b\<rparr>, l1)"
    "el_world l1 = (el_world l)\<lparr>co_output := co_output (el_world l) @ [''Connected to server!'']\<rparr>" "ib_ok b" "ib_head b = 0" "ib_length b = 13"
    "ib_content b = frame (1, ''hello'')"
    using client_greets [OF out console(4), of env fd now l] by blast
  let ?c1 = "c\<lparr>cl_net_ok := True, cl_obuf := b\<rparr>"
  obtain b2 where w: "client_handle_write ?E k [Wrote 13] (?c1, l1) =
      Inr (frame (1, ''hello''), 0, ?c1\<lparr>cl_obuf := b2\<rparr>, del_ioev_mask (cl_sock_fd c) EPOLLOUT l1)" "ib_length b2 = 0" "ib_head b2 = 0" "ib_ok b2"
    using client_writes_all [of ?c1 13 ?E k l1] g(3-6) by auto
  obtain st where st: "handle_read (server_env senv) (Some 13) (Some (frame (1, ''hello''))) (conn, sl) = Some (Inr st)"
    "out_bytes st = frame (1, ?a)" "conn_ok st" "tc_loop (fst st)"
    using blank_answer [of 0 "(conn, sl)" "''hello''" senv] server by auto
  obtain st' where st': "handle_write (server_env senv) [Wrote 25] st = Inr (frame (1, ?a), st')"
    using server_writes_all [OF st(3,4), of "server_env senv"] st(2) by (auto simp: frame_def)
  let ?D = "ib_data (cl_ibuf c)"
  define b8 where "b8 = (cl_ibuf c)\<lparr>ib_data := frame (1, ?a) @ drop 25 ?D, ib_length := 17, ib_head := 8\<rparr>"
  let ?c2 = "c\<lparr>cl_net_ok := True, cl_obuf := b2\<rparr>" and ?l2 = "del_ioev_mask (cl_sock_fd c) EPOLLOUT l1"
  have D: "4096 \<le> length ?D" using ib_ok_big [OF inp(1)] .
  have "c_str (drop 8 (ib_data b8)) = Inr ?a"
    using D inp(4) by (intro c_str_text [where n = 17]) (simp_all add: b8_def frame_def nth_append)
  then obtain b3 l' where a: "client_call ?E (of_nat 17) 1 (?c2\<lparr>cl_ibuf := b8\<rparr>, ?l2) = Inr (?c2\<lparr>cl_ibuf := b8, cl_obuf := b3\<rparr>, l')"
    "ib_content b3 = frame (1, line)" "el_world l' = \<lparr>co_input = rest, co_output = co_output (el_world ?l2) @ [?a]\<rparr>"
    using client_answers [of "?c2\<lparr>cl_ibuf := b8\<rparr>" b8 ?a ?l2 line rest behind env "of_nat 17"] console w(2-4) g(2) by (auto simp: b8_def)
  have "client_handle_read ?E (Some (8 + length ?a)) (Got (frame (1, ?a))) k (?c2, ?l2) =
      Some (Inr (0, (fst (?c2\<lparr>cl_ibuf := b8, cl_obuf := b3\<rparr>, l'))\<lparr>cl_ibuf := b8\<lparr>ib_length := 0, ib_head := 0\<rparr>\<rparr>, snd (?c2\<lparr>cl_ibuf := b8, cl_obuf := b3\<rparr>, l')))"
    using inp(1-3) D console(1) a(1) by (intro client_reads_one [where ?b8.0 = b8]) (simp_all add: b8_def is_exist_def)
  then have r: "client_handle_read ?E (Some 25) (Got (frame (1, ?a))) k (?c2, ?l2) =
      Some (Inr (0, ?c2\<lparr>cl_ibuf := b8\<lparr>ib_length := 0, ib_head := 0\<rparr>, cl_obuf := b3\<rparr>, l'))" by simp
  let ?c3 = "?c2\<lparr>cl_ibuf := b8\<lparr>ib_length := 0, ib_head := 0\<rparr>, cl_obuf := b3\<rparr>"
  show ?thesis
  proof (intro exI conjI)
    show "client_handle_write ?E k [Wrote 13] (?c1, l1) = Inr (frame (1, ''hello''), 0, ?c2, ?l2)" using w(1) by simp
    show "el_world l' = \<lparr>co_input = rest, co_output = co_output (el_world l) @ [''Connected to server!'', ?a]\<rparr>" using a(3) g(2) by simp
    show "ib_content (cl_obuf ?c3) = frame (1, line)" using a(2) by simp
  qed (rule g(1) st(1) st' r)+
qed

section \<open>A witness\<close>

definition talking_client :: "(client_msg_cb, nat) tcp_client" where
  "talking_client = \<lparr>cl_net_ok = False, cl_ibuf = real_buffer, cl_obuf = real_buffer, cl_sock_fd = 9,
     cl_dispatcher = \<lparr>md_dispatcher = [1 \<mapsto> Client_buz], md_args = [1 \<mapsto> None]\<rparr>\<rparr>"

definition talking_env :: "(nat, nat, client_msg_cb, nat, console) client_env" where
  "talking_env = \<lparr>ce_msg = (\<lambda>h data len cmd u st. Inr st), ce_onconnection = None, ce_onclose = None, ce_read_cb = 1, ce_write_cb = 2,
     ce_connection_cb = 3, ce_reconn_cb = 4, ce_args = None\<rparr>"

definition talking_loop :: "(nat, nat, console) event_loop" where
  "talking_loop = new_event_loop 3 0 None \<lparr>co_input = [''bye''], co_output = []\<rparr>"

theorem programs_talk_witness:
  "\<exists>st1 st2 st st' c3 l3.
    connection_cb (program_client_env (\<lambda>s. replicate 8 NUL) talking_env) 9 0 0 (talking_client, talking_loop) = Inr st1 \<and>
    client_handle_write (program_client_env (\<lambda>s. replicate 8 NUL) talking_env) (9, In_progress) [Wrote 13] st1 = Inr (frame (1, ''hello''), 0, st2) \<and>
    handle_read (server_env program_env) (Some 13) (Some (frame (1, ''hello''))) (fst idle, stock_loop) = Some (Inr st) \<and>
    handle_write (server_env program_env) [Wrote 25] st = Inr (frame (1, ''hello from server''), st') \<and>
    client_handle_read (program_client_env (\<lambda>s. replicate 8 NUL) talking_env) (Some 25) (Got (frame (1, ''hello from server''))) (9, In_progress) st2 =
      Some (Inr (0, c3, l3)) \<and>
    el_world l3 = \<lparr>co_input = [], co_output = co_output (el_world talking_loop) @ [''Connected to server!'', ''hello from server'']\<rparr> \<and>
    ib_content (cl_obuf c3) = frame (1, ''bye'')"
proof -
  have p: "the_pool stock_loop = stock" by (simp add: stock_loop_def)
  then have s: "stocked 3 (the_pool stock_loop)" "next_memory (the_pool stock_loop) ! 13 = NUL" "fresh_conn (fst idle)"
    using stock_stocked by (simp_all add: stocked_def stock_memory fresh_conn_def idle_def)
  have b: "cl_obuf talking_client = real_buffer" "cl_ibuf talking_client = real_buffer" by (simp_all add: talking_client_def)
  have n: "ib_data real_buffer ! 25 = NUL" unfolding real_buffer_simps(5) by simp
  have d: "md_dispatcher (cl_dispatcher talking_client) 1 = Some Client_buz" by (simp add: talking_client_def)
  have i: "co_input (el_world talking_loop) = [''bye'']" by (simp add: talking_loop_def new_event_loop_def)
  have r: "readable (\<lambda>s. replicate 8 NUL) ''bye''" "readable (\<lambda>s. replicate 8 NUL) ''hello''" by (simp_all add: readable_def)
  show ?thesis by (rule programs_talk [OF _ _ _ _ _ _ _ d i r s(1,3,2)]) (simp_all only: b real_buffer_simps(1-3) n)
qed

end
