(* ===== verification/Config_Properties.thy ===== *)
theory Config_Properties
  imports Config_Reader
begin

text \<open>
  A configuration that is written as sections and entries is read back; an entry before the first section goes through a null
  pointer.
\<close>

section \<open>Trimmed strings\<close>

definition trimmed :: "string \<Rightarrow> bool" where
  "trimmed s \<longleftrightarrow> s = [] \<or> \<not> is_space (hd s) \<and> \<not> is_space (last s)"

lemma trim_left_hd: "s = [] \<or> \<not> is_space (hd s) \<Longrightarrow> trim_left s = s"
  by (cases s) (auto simp: trim_left_def)

lemma trim_right_last: "s = [] \<or> \<not> is_space (last s) \<Longrightarrow> trim_right s = s"
  by (cases s rule: rev_cases) (auto simp: trim_right_def)

lemma trim_trimmed: "trimmed s \<Longrightarrow> trim s = s"
  by (auto simp: trim_def trimmed_def trim_right_last trim_left_hd)

section \<open>Lines\<close>

lemma getlines_not_Nil [simp]: "getlines s \<noteq> []"
  by (cases s) (auto split: list.splits)

lemma getlines_line: "CHR 0x0A \<notin> set l \<Longrightarrow> getlines (l @ CHR 0x0A # s) = l # getlines s"
  by (induction l) auto

lemma getlines_one: "CHR 0x0A \<notin> set l \<Longrightarrow> getlines l = [l]"
  by (induction l) auto

lemma getlines_lines:
  "(\<And>l. l \<in> set ls \<Longrightarrow> CHR 0x0A \<notin> set l) \<Longrightarrow> getlines (concat (List.map (\<lambda>l. l @ [CHR 0x0A]) ls)) = ls @ [[]]"
  by (induction ls) (auto simp: getlines_line)

lemma config_lines_append: "config_lines (ls @ ks) st = res_bind (config_lines ls st) (config_lines ks)"
  by (induction ls arbitrary: st) (auto simp: res_bind_def split: sum.splits)

section \<open>Writing\<close>

definition section_line :: "string \<Rightarrow> string" where
  "section_line name = CHR ''['' # name @ '']''"

definition config_entry_line :: "string \<times> string \<Rightarrow> string" where
  "config_entry_line e = fst e @ CHR ''='' # snd e"

definition section_lines :: "string \<times> (string, string) omap \<Rightarrow> string list" where
  "section_lines s = section_line (fst s) # List.map config_entry_line (snd s)"

definition config_text :: "config \<Rightarrow> string" where
  "config_text cfg = concat (List.map (\<lambda>l. l @ [CHR 0x0A]) (concat (List.map section_lines cfg)))"

text \<open>Names, keys and values that a line can hold.\<close>

definition config_entry_ok :: "string \<times> string \<Rightarrow> bool" where
  "config_entry_ok e \<longleftrightarrow> trimmed (fst e) \<and> trimmed (snd e) \<and> fst e \<noteq> [] \<and> hd (fst e) \<notin> {CHR ''#'', CHR '';'', CHR ''[''} \<and>
     CHR ''='' \<notin> set (fst e) \<and> CHR 0x0A \<notin> set (fst e) \<union> set (snd e)"

definition config_ok :: "config \<Rightarrow> bool" where
  "config_ok cfg \<longleftrightarrow> om_ok cfg \<and> (\<forall>s \<in> set cfg. trimmed (fst s) \<and> fst s \<noteq> [] \<and> CHR 0x0A \<notin> set (fst s) \<and> om_ok (snd s) \<and> (\<forall>e \<in> set (snd s). config_entry_ok e))"

lemma is_section_line: "trimmed n \<Longrightarrow> n \<noteq> [] \<Longrightarrow> is_section (section_line n) = (True, n)"
proof -
  assume a: "trimmed n" "n \<noteq> []"
  have "trimmed (section_line n)" by (simp add: trimmed_def section_line_def is_space_def)
  then have "trim (section_line n) = section_line n" by (rule trim_trimmed)
  moreover have "take (length (section_line n) - 2) (drop 1 (section_line n)) = n" by (simp add: section_line_def)
  ultimately show ?thesis using a trim_trimmed [OF a(1)] by (simp add: is_section_def section_line_def Let_def nth_append)
qed

lemma trim_entry_line: "config_entry_ok e \<Longrightarrow> trim (config_entry_line e) = config_entry_line e"
  by (rule trim_trimmed) (auto simp: config_entry_ok_def trimmed_def config_entry_line_def is_space_def)

lemma is_section_entry: "config_entry_ok e \<Longrightarrow> fst (is_section (config_entry_line e)) = False"
proof -
  assume a: "config_entry_ok e"
  then obtain c cs where c: "fst e = c # cs" "c \<noteq> CHR ''[''" by (cases "fst e") (auto simp: config_entry_ok_def)
  then have "config_entry_line e ! 0 \<noteq> CHR ''[''" by (simp add: config_entry_line_def)
  then show ?thesis unfolding is_section_def trim_entry_line [OF a] Let_def by simp
qed

lemma takeWhile_key: "config_entry_ok e \<Longrightarrow> takeWhile (\<lambda>c. c \<noteq> CHR ''='') (config_entry_line e) = fst e"
  by (auto simp: config_entry_line_def config_entry_ok_def takeWhile_append)

lemma config_line_entry:
  assumes "config_entry_ok e"
  shows "config_line (config_entry_line e) (Some s, cfg) = Inr (Some s, om_put s (om_put (fst e) (snd e) (om_at [] s cfg)) cfg)"
proof -
  obtain b where b: "is_section (config_entry_line e) = (False, b)" using is_section_entry [OF assms] by (cases "is_section (config_entry_line e)") simp
  have k: "takeWhile (\<lambda>c. c \<noteq> CHR ''='') (config_entry_line e) = fst e" using assms by (rule takeWhile_key)
  have t: "take (length (fst e)) (config_entry_line e) = fst e" "drop (length (fst e) + 1) (config_entry_line e) = snd e" by (simp_all add: config_entry_line_def)
  have "CHR ''='' \<in> set (config_entry_line e)" by (simp add: config_entry_line_def)
  moreover have "trim (fst e) = fst e" "trim (snd e) = snd e" "fst e \<noteq> []" "hd (fst e) \<noteq> CHR ''#''" "hd (fst e) \<noteq> CHR '';''"
    using assms by (simp_all add: config_entry_ok_def trim_trimmed)
  ultimately show ?thesis unfolding config_line_def b Let_def prod.case k t by simp
qed

lemma om_put_again: "om_put s v (om_put s w m) = om_put s v (m :: ('k :: linorder, 'v) omap)"
  by (induction m) (auto dest: less_not_sym)

lemma om_at_put_same [simp]: "om_at d s (om_put s v m) = v"
  by simp

lemma entries_read:
  "(\<And>e. e \<in> set es \<Longrightarrow> config_entry_ok e) \<Longrightarrow>
   config_lines (List.map config_entry_line es) (Some s, om_put s m cfg) = Inr (Some s, om_put s (fold (\<lambda>e. om_put (fst e) (snd e)) es m) cfg)"
proof (induction es arbitrary: m)
  case (Cons e es)
  then show ?case using config_line_entry [of e s "om_put s m cfg"] by (simp add: om_put_again)
qed simp

lemma section_read:
  assumes "trimmed (fst s)" "fst s \<noteq> []" "om_ok (snd s)" "\<forall>e \<in> set (snd s). config_entry_ok e" "map_of cfg (fst s) = None"
  shows "config_lines (section_lines s) (m, cfg) = Inr (Some (fst s), om_put (fst s) (snd s) cfg)"
proof -
  have "config_line (section_line (fst s)) (m, cfg) = Inr (Some (fst s), om_put (fst s) [] cfg)"
    using assms(5) by (simp add: config_line_def is_section_line [OF assms(1,2)])
  moreover have "fold (\<lambda>e. om_put (fst e) (snd e)) (snd s) [] = snd s" using fold_om_put [of "[]" "snd s"] assms(3) by simp
  ultimately show ?thesis using entries_read [of "snd s" "fst s" "[]" cfg] assms(4) by (simp add: section_lines_def)
qed

lemma sections_read:
  "config_ok cfg \<Longrightarrow> om_ok (acc @ cfg) \<Longrightarrow> \<exists>m. config_lines (concat (List.map section_lines cfg)) (n, acc) = Inr (m, acc @ cfg)"
proof (induction cfg arbitrary: acc n)
  case (Cons s cfg)
  have s: "trimmed (fst s)" "fst s \<noteq> []" "om_ok (snd s)" "\<forall>e \<in> set (snd s). config_entry_ok e" "config_ok cfg"
    using Cons.prems(1) by (auto simp: config_ok_def)
  have less: "fst a < fst s" if "a \<in> set acc" for a using Cons.prems(2) that by (auto simp: om_ok_def sorted_wrt_append)
  then have "map_of acc (fst s) = None" by (fastforce simp: map_of_eq_None_iff)
  moreover have "om_put (fst s) (snd s) acc = acc @ [s]" using less by (simp add: om_put_last)
  ultimately show ?case using section_read [OF s(1-4), of acc n] Cons.IH [OF s(5), of "acc @ [s]" "Some (fst s)"] Cons.prems(2)
    by (simp add: config_lines_append)
qed simp

lemma lines_one_line: "config_ok cfg \<Longrightarrow> l \<in> set (concat (List.map section_lines cfg)) \<Longrightarrow> CHR 0x0A \<notin> set l"
proof -
  assume a: "config_ok cfg" "l \<in> set (concat (List.map section_lines cfg))"
  then obtain s where s: "s \<in> set cfg" "l \<in> set (section_lines s)" by auto
  then have "CHR 0x0A \<notin> set (fst s)" "\<forall>e \<in> set (snd s). config_entry_ok e" using a(1) by (auto simp: config_ok_def)
  moreover have "CHR 0x0A \<notin> set (config_entry_line e)" if "config_entry_ok e" for e using that by (auto simp: config_entry_ok_def config_entry_line_def)
  ultimately show ?thesis using s(2) by (auto simp: section_lines_def section_line_def)
qed

text \<open>
  C30. A configuration written section by section, one entry to a line, is read back as exactly that configuration.
\<close>

theorem config_roundtrip:
  assumes "config_ok cfg"
  shows "load_config (Some (config_text cfg)) [] = Inr (True, cfg)"
proof -
  have "getlines (config_text cfg) = concat (List.map section_lines cfg) @ [[]]"
    unfolding config_text_def using assms lines_one_line by (intro getlines_lines) blast
  moreover obtain m where "config_lines (concat (List.map section_lines cfg)) (None, []) = Inr (m, cfg)"
    using sections_read [OF assms, of "[]" None] assms by (auto simp: config_ok_def)
  moreover have "config_line [] (m, cfg) = Inr (m, cfg)" by (simp add: config_line_def is_section_def trim_def trim_right_def trim_left_def)
  ultimately show ?thesis by (simp add: load_config_def config_lines_append)
qed

theorem config_roundtrip_witness:
  "load_config (Some (config_text [(''reactor'', [(''maxConns'', ''10''), (''threadNum'', ''5'')])])) [] =
     Inr (True, [(''reactor'', [(''maxConns'', ''10''), (''threadNum'', ''5'')])])"
  by (rule config_roundtrip) (simp add: config_ok_def config_entry_ok_def trimmed_def is_space_def)

text \<open>
  An entry before the first section goes through the null pointer \<open>m\<close>.
\<close>

lemma entry_without_section: "config_entry_ok e \<Longrightarrow> load_config (Some (config_entry_line e)) cfg = Inl Null_deref"
proof -
  assume a: "config_entry_ok e"
  have "CHR 0x0A \<notin> set (config_entry_line e)" using a by (auto simp: config_entry_ok_def config_entry_line_def)
  then have l: "getlines (config_entry_line e) = [config_entry_line e]" by (rule getlines_one)
  obtain b where b: "is_section (config_entry_line e) = (False, b)" using is_section_entry [OF a] by (cases "is_section (config_entry_line e)") simp
  have t: "take (length (fst e)) (config_entry_line e) = fst e" by (simp add: config_entry_line_def)
  have "CHR ''='' \<in> set (config_entry_line e)" by (simp add: config_entry_line_def)
  moreover have "trim (fst e) = fst e" "fst e \<noteq> []" "hd (fst e) \<noteq> CHR ''#''" "hd (fst e) \<noteq> CHR '';''"
    using a by (simp_all add: config_entry_ok_def trim_trimmed)
  ultimately have "config_line (config_entry_line e) (None, cfg) = Inl Null_deref"
    unfolding config_line_def b Let_def prod.case takeWhile_key [OF a] t by simp
  then show ?thesis by (simp add: load_config_def l)
qed

end
