(* ===== verification/Ast_Json.thy ===== *)
theory Ast_Json
  imports Json_Properties
begin

text \<open>
  The syntax tree as JSON (\<open>json\<close> of the classes under \<open>src/ast\<close>, the names of \<open>src/ast/node.cpp\<close> and \<open>json\<close> of
  \<open>src/token/token.cpp\<close>). A child that is missing is a null pointer, which most nodes follow. The text that
  \<open>std::to_string\<close> makes of the number of a float node is a parameter. The text of a tree is parsed back to its JSON value.
\<close>

section \<open>Printing\<close>

datatype node_type =
    NODE_INTEGER | NODE_FLOAT | NODE_STRING | NODE_NULL | NODE_IDENTIFIER | NODE_PREFIX | NODE_INFIX | NODE_EXPRESSION_STATEMENT | NODE_PROGRAM
  | NODE_SHOW | NODE_USE | NODE_CREATE | NODE_SELECT | NODE_INSERT | NODE_UPDATE | NODE_WHERE | NODE_SYS

definition node_names :: "(node_type \<times> string) list" where
  "node_names = [
     (NODE_INTEGER, ''Integer''), (NODE_INFIX, ''Infix''), (NODE_EXPRESSION_STATEMENT, ''ExpressionStatement''), (NODE_PROGRAM, ''Program''),
     (NODE_PREFIX, ''Prefix''), (NODE_FLOAT, ''Float''), (NODE_STRING, ''String''), (NODE_NULL, ''Null''), (NODE_IDENTIFIER, ''Identifier''),
     (NODE_SELECT, ''Select''), (NODE_INSERT, ''Insert''), (NODE_UPDATE, ''update'')]"

definition node_name :: "node_type \<Rightarrow> string" where
  "node_name t = (case map_of node_names t of Some n \<Rightarrow> n | None \<Rightarrow> [])"

text \<open>The assignments through \<open>operator[]\<close>, one after the other, and the appends of a loop, each to a new value.\<close>

definition puts_json :: "(string \<times> 'd json) list \<Rightarrow> 'd json" where
  "puts_json kvs = fold (\<lambda>e. json_put (fst e) (snd e)) kvs Json_null"

definition append_all :: "'d json list \<Rightarrow> 'd json" where
  "append_all vs = fold json_append vs Json_null"

abbreviation strings_json :: "string list \<Rightarrow> 'd json" where
  "strings_json ss \<equiv> append_all (map Json_string ss)"

abbreviation type_entry :: "node_type \<Rightarrow> string \<times> 'd json" where
  "type_entry t \<equiv> (''type'', Json_string (node_name t))"

text \<open>What calling \<open>json\<close> of a child gives.\<close>

definition child_json :: "'d json result option \<Rightarrow> 'd json result" where
  "child_json c = (case c of None \<Rightarrow> Inl Null_deref | Some r \<Rightarrow> r)"

definition integer_json :: "64 word \<Rightarrow> 'd json" where
  "integer_json n = puts_json [type_entry NODE_INTEGER, (''value'', Json_string (dec_int (sint n)))]"

definition float_json :: "string \<Rightarrow> 'd json" where
  "float_json text = puts_json [type_entry NODE_FLOAT, (''value'', Json_string text)]"

definition string_json :: "string \<Rightarrow> 'd json" where
  "string_json s = puts_json [type_entry NODE_STRING, (''value'', Json_string s)]"

definition null_json :: "'d json" where
  "null_json = puts_json [type_entry NODE_NULL]"

definition identifier_json :: "string \<Rightarrow> 'd json" where
  "identifier_json s = puts_json [type_entry NODE_IDENTIFIER, (''value'', Json_string s)]"

definition prefix_json :: "string \<Rightarrow> 'd json result option \<Rightarrow> 'd json result" where
  "prefix_json p right =
     res_bind (child_json right) (\<lambda>r. Inr (puts_json [type_entry NODE_PREFIX, (''operator'', Json_string p), (''right'', r)]))"

definition infix_json :: "string \<Rightarrow> 'd json result option \<Rightarrow> 'd json result option \<Rightarrow> 'd json result" where
  "infix_json p left right =
     res_bind (child_json left) (\<lambda>l. res_bind (child_json right) (\<lambda>r.
       Inr (puts_json [type_entry NODE_INFIX, (''operator'', Json_string p), (''left'', l), (''right'', r)])))"

definition show_json :: "string \<Rightarrow> 'd json" where
  "show_json k = puts_json [(''type'', Json_string k)]"

definition use_json :: "string \<Rightarrow> 'd json" where
  "use_json d = puts_json [type_entry NODE_USE, (''database'', Json_string d)]"

definition create_json :: "string \<Rightarrow> 'd json" where
  "create_json n = puts_json [type_entry NODE_CREATE, (''name'', Json_string n)]"

definition select_json :: "string \<Rightarrow> string list \<Rightarrow> 'd json result option \<Rightarrow> 'd json result option \<Rightarrow> 'd json result" where
  "select_json engine fs from where' =
     res_bind (child_json from) (\<lambda>f. res_bind (child_json where') (\<lambda>w.
       Inr (puts_json [type_entry NODE_SELECT, (''engine'', Json_string engine), (''fields'', strings_json fs), (''from'', f), (''where'', w)])))"

definition insert_json :: "string \<Rightarrow> string list \<Rightarrow> string list \<Rightarrow> string list \<Rightarrow> string \<Rightarrow> 'd json" where
  "insert_json from tags fs vs ti =
     puts_json [type_entry NODE_INSERT, (''from'', Json_string from), (''tags'', strings_json tags), (''fields'', strings_json fs),
       (''values'', strings_json vs), (''timestamp'', Json_string ti)]"

definition system_json :: "string \<Rightarrow> string \<Rightarrow> 'd json result option \<Rightarrow> 'd json result" where
  "system_json p from where' =
     res_bind (if where' \<noteq> None then child_json where' else Inr (Json_string ''null'')) (\<lambda>w.
       Inr (puts_json [(''option'', Json_string p), (''from'', Json_string from), (''where'', w)]))"

lemmas node_json_defs = integer_json_def float_json_def string_json_def null_json_def identifier_json_def prefix_json_def infix_json_def
  show_json_def use_json_def create_json_def select_json_def insert_json_def system_json_def

fun ast_json :: "(string \<Rightarrow> string) \<Rightarrow> expression \<Rightarrow> 'd json result" where
  "ast_json ft (Integer_node t n) = Inr (integer_json n)"
| "ast_json ft (Float_node t s) = Inr (float_json (ft s))"
| "ast_json ft (String_node t s) = Inr (string_json s)"
| "ast_json ft (Null_node t) = Inr null_json"
| "ast_json ft (Identifier_node t s) = Inr (identifier_json s)"
| "ast_json ft (Prefix_node t p r) = prefix_json p (map_option (ast_json ft) r)"
| "ast_json ft (Infix_node t p l r) = infix_json p (map_option (ast_json ft) l) (map_option (ast_json ft) r)"
| "ast_json ft (Show_node d s t k) = Inr (show_json k)"
| "ast_json ft (Use_node d) = Inr (use_json d)"
| "ast_json ft (Create_node k n fs g) = Inr (create_json n)"
| "ast_json ft (Select_node t d g fs rs f w) = select_json g fs (map_option (ast_json ft) f) (map_option (ast_json ft) w)"
| "ast_json ft (Insert_node t d f ts fs vs ti) = Inr (insert_json f ts fs vs ti)"
| "ast_json ft (System_node t p f w) = system_json p f (map_option (ast_json ft) w)"

definition statement_json :: "(string \<Rightarrow> string) \<Rightarrow> expression_statement \<Rightarrow> 'd json result" where
  "statement_json ft s =
     res_bind (ast_json ft (st_expression s)) (\<lambda>j.
       Inr (puts_json [(''type'', Json_string (node_name NODE_EXPRESSION_STATEMENT)), (''expression'', j)]))"

fun statements_json :: "(string \<Rightarrow> string) \<Rightarrow> expression_statement list \<Rightarrow> 'd json \<Rightarrow> 'd json result" where
  "statements_json ft [] j = Inr j"
| "statements_json ft (s # ss) j = res_bind (statement_json ft s) (\<lambda>v. statements_json ft ss (json_append v j))"

definition program_json :: "(string \<Rightarrow> string) \<Rightarrow> program \<Rightarrow> 'd json result" where
  "program_json ft p =
     res_bind (statements_json ft p Json_null) (\<lambda>js. Inr (puts_json [(''type'', Json_string (node_name NODE_PROGRAM)), (''statements'', js)]))"

definition token_json :: "token \<Rightarrow> 'd json" where
  "token_json t = puts_json [(''type'', Json_string (token_name t)), (''name'', Json_string (tok_literal t))]"

section \<open>Which trees can be printed\<close>

text \<open>The pointers that are followed are not null.\<close>

fun printable :: "expression \<Rightarrow> bool" where
  "printable (Prefix_node t p r) = (case r of None \<Rightarrow> False | Some e \<Rightarrow> printable e)"
| "printable (Infix_node t p l r) =
     ((case l of None \<Rightarrow> False | Some e \<Rightarrow> printable e) \<and> (case r of None \<Rightarrow> False | Some e \<Rightarrow> printable e))"
| "printable (Select_node t d g fs rs f w) =
     ((case f of None \<Rightarrow> False | Some e \<Rightarrow> printable e) \<and> (case w of None \<Rightarrow> False | Some e \<Rightarrow> printable e))"
| "printable (System_node t p f w) = (case w of None \<Rightarrow> True | Some e \<Rightarrow> printable e)"
| "printable e = True"

text \<open>The texts that go into the output.\<close>

fun expr_texts :: "(string \<Rightarrow> string) \<Rightarrow> expression \<Rightarrow> string list" where
  "expr_texts ft (Integer_node t n) = [dec_int (sint n)]"
| "expr_texts ft (Float_node t s) = [ft s]"
| "expr_texts ft (String_node t s) = [s]"
| "expr_texts ft (Null_node t) = []"
| "expr_texts ft (Identifier_node t s) = [s]"
| "expr_texts ft (Prefix_node t p r) = p # (case r of None \<Rightarrow> [] | Some e \<Rightarrow> expr_texts ft e)"
| "expr_texts ft (Infix_node t p l r) =
     p # (case l of None \<Rightarrow> [] | Some e \<Rightarrow> expr_texts ft e) @ (case r of None \<Rightarrow> [] | Some e \<Rightarrow> expr_texts ft e)"
| "expr_texts ft (Show_node d s t k) = [k]"
| "expr_texts ft (Use_node d) = [d]"
| "expr_texts ft (Create_node k n fs g) = [n]"
| "expr_texts ft (Select_node t d g fs rs f w) =
     g # fs @ (case f of None \<Rightarrow> [] | Some e \<Rightarrow> expr_texts ft e) @ (case w of None \<Rightarrow> [] | Some e \<Rightarrow> expr_texts ft e)"
| "expr_texts ft (Insert_node t d f ts fs vs ti) = f # ti # ts @ fs @ vs"
| "expr_texts ft (System_node t p f w) = p # f # (case w of None \<Rightarrow> [] | Some e \<Rightarrow> expr_texts ft e)"

lemma ast_json_fails: "(\<exists>j. ast_json ft e = Inr j) = printable e \<and> (\<forall>err. ast_json ft e = Inl err \<longrightarrow> err = Null_deref)"
proof (induction e rule: printable.induct)
  case (1 t p r)
  then show ?case by (cases r) (auto simp: node_json_defs child_json_def res_bind_def split: sum.splits)
next
  case (2 t p l r)
  then show ?case by (cases l; cases r) (auto simp: node_json_defs child_json_def res_bind_def split: sum.splits)
next
  case (3 t d g fs rs f w)
  then show ?case by (cases f; cases w) (auto simp: node_json_defs child_json_def res_bind_def split: sum.splits)
next
  case (4 t p f w)
  then show ?case by (cases w) (auto simp: node_json_defs child_json_def res_bind_def split: sum.splits)
qed auto

section \<open>Reading back\<close>

lemma json_ok_put: "json_ok j \<Longrightarrow> raw_ok k \<Longrightarrow> NUL \<notin> set k \<Longrightarrow> json_ok v \<Longrightarrow> json_ok (json_put k v j)"
proof -
  assume a: "json_ok j" "raw_ok k" "NUL \<notin> set k" "json_ok v"
  have m: "om_ok (json_members j)" "\<forall>e \<in> set (json_members j). raw_ok (fst e) \<and> NUL \<notin> set (fst e) \<and> json_ok (snd e)"
    using a(1) by (cases j; simp add: json_members_def)+
  then show ?thesis using a(2-4) set_om_put [of k v "json_members j"] by (auto simp: json_put_def c_string_ident)
qed

lemma json_ok_puts_json: "\<forall>e \<in> set kvs. raw_ok (fst e) \<and> NUL \<notin> set (fst e) \<and> json_ok (snd e) \<Longrightarrow> json_ok (puts_json kvs)"
proof -
  have "json_ok j \<Longrightarrow> \<forall>e \<in> set kvs. raw_ok (fst e) \<and> NUL \<notin> set (fst e) \<and> json_ok (snd e) \<Longrightarrow> json_ok (fold (\<lambda>e. json_put (fst e) (snd e)) kvs j)" for j
    by (induction kvs arbitrary: j) (simp_all add: json_ok_put)
  then show "\<forall>e \<in> set kvs. raw_ok (fst e) \<and> NUL \<notin> set (fst e) \<and> json_ok (snd e) \<Longrightarrow> ?thesis" by (simp add: puts_json_def)
qed

lemma json_ok_append: "json_ok v \<Longrightarrow> json_ok j \<Longrightarrow> json_ok (json_append v j)"
  by (cases j) (simp_all add: json_append_def)

lemma json_ok_fold_append: "json_ok j \<Longrightarrow> \<forall>s \<in> set ss. raw_ok s \<Longrightarrow> json_ok (fold json_append (map Json_string ss) j)"
  by (induction ss arbitrary: j) (simp_all add: json_ok_append)

lemma json_ok_strings: "\<forall>s \<in> set ss. raw_ok s \<Longrightarrow> json_ok (strings_json ss)"
  unfolding append_all_def by (rule json_ok_fold_append) simp_all

lemma raw_ok_node_name: "raw_ok (node_name t)"
  by (cases t) (simp_all add: node_name_def node_names_def)

lemma ast_json_ok:
  fixes j :: "'d json"
  shows "ast_json ft e = Inr j \<Longrightarrow> \<forall>s \<in> set (expr_texts ft e). raw_ok s \<Longrightarrow> json_ok j"
proof (induction e arbitrary: j rule: printable.induct)
  case (1 t p r)
  then obtain e and rj :: "'d json" where r: "r = Some e" "ast_json ft e = Inr rj" by (cases r) (auto simp: node_json_defs child_json_def res_bind_def split: sum.splits)
  then have "json_ok rj" using 1 by simp
  moreover have "j = puts_json [type_entry NODE_PREFIX, (''operator'', Json_string p), (''right'', rj)]" using 1(2) r by (simp add: node_json_defs child_json_def)
  ultimately show ?case using 1(3) by (auto intro!: json_ok_puts_json simp: raw_ok_node_name)
next
  case (2 t p l r)
  then obtain e1 e2 and lj rj :: "'d json" where r: "l = Some e1" "ast_json ft e1 = Inr lj" "r = Some e2" "ast_json ft e2 = Inr rj"
    by (cases l; cases r) (auto simp: node_json_defs child_json_def res_bind_def split: sum.splits)
  then have "json_ok lj" "json_ok rj" using 2 by simp_all
  moreover have "j = puts_json [type_entry NODE_INFIX, (''operator'', Json_string p), (''left'', lj), (''right'', rj)]"
    using 2(3) r by (simp add: node_json_defs child_json_def)
  ultimately show ?case using 2(4) by (auto intro!: json_ok_puts_json simp: raw_ok_node_name)
next
  case (3 t d g fs rs f w)
  then obtain e1 e2 and fj wj :: "'d json" where r: "f = Some e1" "ast_json ft e1 = Inr fj" "w = Some e2" "ast_json ft e2 = Inr wj"
    by (cases f; cases w) (auto simp: node_json_defs child_json_def res_bind_def split: sum.splits)
  then have "json_ok fj" "json_ok wj" "json_ok (strings_json fs :: 'd json)" using 3 by (simp_all add: json_ok_strings)
  moreover have "j = puts_json [type_entry NODE_SELECT, (''engine'', Json_string g), (''fields'', strings_json fs), (''from'', fj), (''where'', wj)]"
    using 3(3) r by (simp add: node_json_defs child_json_def)
  ultimately show ?case using 3(4) by (auto intro!: json_ok_puts_json simp: raw_ok_node_name)
next
  case (4 t p f w)
  then obtain wj :: "'d json" where w: "json_ok wj" "j = puts_json [(''option'', Json_string p), (''from'', Json_string f), (''where'', wj)]"
  proof (cases w)
    case None
    then show ?thesis using 4(2) by (intro that [of "Json_string ''null''"]) (simp_all add: node_json_defs)
  next
    case (Some e)
    then obtain wj :: "'d json" where "ast_json ft e = Inr wj" using 4(2) by (auto simp: node_json_defs child_json_def res_bind_def split: sum.splits)
    then show ?thesis using Some 4 by (intro that [of wj]) (simp_all add: node_json_defs child_json_def)
  qed
  then show ?case using 4(3) by (auto intro!: json_ok_puts_json)
qed (auto intro!: json_ok_puts_json json_ok_strings simp: node_json_defs raw_ok_node_name)

definition program_texts :: "(string \<Rightarrow> string) \<Rightarrow> program \<Rightarrow> string list" where
  "program_texts ft p = concat (map (\<lambda>s. expr_texts ft (st_expression s)) p)"

lemma statements_json_ok:
  "statements_json ft p j0 = Inr j \<Longrightarrow> json_ok j0 \<Longrightarrow> \<forall>s \<in> set (program_texts ft p). raw_ok s \<Longrightarrow> json_ok j"
proof (induction p arbitrary: j0)
  case (Cons s ss)
  then obtain e where e: "ast_json ft (st_expression s) = Inr e"
    "statements_json ft ss (json_append (puts_json [(''type'', Json_string (node_name NODE_EXPRESSION_STATEMENT)), (''expression'', e)]) j0) = Inr j"
    by (cases "ast_json ft (st_expression s) :: 'a json result") (auto simp: statement_json_def)
  have "json_ok e" using ast_json_ok [OF e(1)] Cons.prems(3) by (simp add: program_texts_def)
  then have "json_ok (json_append (puts_json [(''type'', Json_string (node_name NODE_EXPRESSION_STATEMENT)), (''expression'', e)]) j0)"
    using Cons.prems(2) by (intro json_ok_append json_ok_puts_json) (simp_all add: raw_ok_node_name)
  then show ?case using Cons.IH [OF e(2)] Cons.prems(3) by (simp add: program_texts_def)
qed simp

lemma statements_json_returns:
  "if \<forall>s \<in> set p. printable (st_expression s) then \<exists>j. statements_json ft p j0 = Inr j else statements_json ft p j0 = Inl Null_deref"
proof (induction p arbitrary: j0)
  case (Cons s ss)
  show ?case
  proof (cases "ast_json ft (st_expression s) :: 'a json result")
    case (Inl e)
    then show ?thesis using ast_json_fails [of ft "st_expression s", where ?'a = 'a] by (auto simp: statement_json_def)
  next
    case (Inr e)
    then have "printable (st_expression s)" using ast_json_fails [of ft "st_expression s", where ?'a = 'a] by auto
    then show ?thesis using Cons.IH Inr by (simp add: statement_json_def)
  qed
qed simp

text \<open>
  The text of a program is parsed back to its JSON value, when the texts in it hold no bare quote and no
  broken escape and no pointer that is followed is null; a null pointer, such as the missing condition of a select
  statement, ends the program instead.
\<close>

theorem program_text_reads_back:
  fixes env :: "'d json_env"
  assumes "\<forall>s \<in> set (program_texts ft p). raw_ok s"
  shows "if \<forall>s \<in> set p. printable (st_expression s)
    then \<exists>j. program_json ft p = Inr j \<and> parse_json env (json_str env j) = Some (Inr (j, length (json_str env j)))
    else program_json ft p = (Inl Null_deref :: 'd json result)"
proof (cases "\<forall>s \<in> set p. printable (st_expression s)")
  case True
  then obtain js :: "'d json" where js: "statements_json ft p Json_null = Inr js"
    using statements_json_returns [of p ft "Json_null :: 'd json"] by auto
  define j where "j = puts_json [(''type'', Json_string (node_name NODE_PROGRAM)), (''statements'', js)]"
  have "json_ok js" using statements_json_ok [OF js _ assms(1)] by simp
  then have "json_ok j" unfolding j_def by (intro json_ok_puts_json) (simp_all add: raw_ok_node_name)
  then have "reads_back env (json_str env j) j" by (rule reads_back_json)
  then have "json_parse env Json_value (json_str env j) 0 = Some (Inr (j, 0 + length (json_str env j)))"
    by (rule reads_backD) (simp_all add: starts_at_def ends_at_def)
  then have "parse_json env (json_str env j) = Some (Inr (j, length (json_str env j)))" by (simp add: parse_json_def)
  moreover have "program_json ft p = Inr j" by (simp add: program_json_def js j_def)
  ultimately show ?thesis using True by auto
next
  case False
  then have "statements_json ft p (Json_null :: 'd json) = Inl Null_deref"
    using statements_json_returns [of p ft "Json_null :: 'd json"] by (simp only: if_False)
  then have "program_json ft p = (Inl Null_deref :: 'd json result)" by (simp add: program_json_def)
  then show ?thesis unfolding if_not_P [OF False] .
qed

text \<open>A comparison, and the same under a select statement without a condition.\<close>

definition a_comparison :: program where
  "a_comparison = [\<lparr>st_token = default_token,
     st_expression = Infix_node default_token ''<'' (Some (Identifier_node default_token ''t'')) (Some (Integer_node default_token 7))\<rparr>]"

theorem program_text_reads_back_witness:
  "\<exists>j. program_json id a_comparison = Inr j \<and> parse_json whole_env (json_str whole_env j) = Some (Inr (j, length (json_str whole_env j)))"
proof -
  have "dec_int 7 = ''7''" by code_simp
  then have t: "\<forall>s \<in> set (program_texts id a_comparison). raw_ok s" by (simp add: program_texts_def a_comparison_def)
  have "\<forall>s \<in> set a_comparison. printable (st_expression s)" by (simp add: a_comparison_def)
  then show ?thesis using program_text_reads_back [OF t, of whole_env] by (simp only: if_True simp_thms)
qed

end
