(* ===== verification/Block_Json.thy ===== *)
theory Block_Json
  imports Ast_Json
begin

text \<open>
  A data block as JSON (\<open>DataBlock::json\<close> of \<open>src/engine/tsm/tsm_ingredient.h\<close>), which the tools print. Its text is parsed back to the
  same value.
\<close>

definition my_to_string :: "string \<Rightarrow> string" where
  "my_to_string value = value"

definition data_block_json :: "data_block \<Rightarrow> 'd json" where
  "data_block_json b =
     puts_json [(''type'', Json_int (type_code (db_type b))), (''tp_len'', Json_int (db_tp_snappy_size b)), (''val_len'', Json_int (db_val_snappy_size b)),
       (''timestamps'', strings_json (map (\<lambda>t. dec_int (sint t)) (db_timestamps b))), (''value'', strings_json (map my_to_string (db_values b)))]"

lemma raw_ok_plain: "\<forall>c \<in> set s. c \<noteq> quote \<and> c \<noteq> CHR 0x5C \<Longrightarrow> raw_ok s"
  by (induction s rule: raw_ok.induct) auto

lemma raw_ok_dec_int: "raw_ok (dec_int n)"
proof (rule raw_ok_plain, intro ballI)
  fix c
  assume "c \<in> set (dec_int n)"
  then have "c = CHR ''-'' \<or> is_digit c" using dec_nat_digit by (auto simp: dec_int_def split: if_splits)
  then show "c \<noteq> quote \<and> c \<noteq> CHR 0x5C" by (auto simp: is_digit_def)
qed

text \<open>
  The text of a block is read back, when no value in it holds a quote or a broken escape.
\<close>

theorem block_text_reads_back:
  fixes env :: "'d json_env"
  assumes "\<forall>v \<in> set (db_values b). raw_ok v"
  shows "parse_json env (json_str env (data_block_json b)) = Some (Inr (data_block_json b, length (json_str env (data_block_json b))))"
proof -
  have "json_ok (strings_json (map (\<lambda>t. dec_int (sint t)) (db_timestamps b)) :: 'd json)" "json_ok (strings_json (map my_to_string (db_values b)) :: 'd json)"
    using assms by (intro json_ok_strings; simp add: my_to_string_def raw_ok_dec_int)+
  then have "json_ok (data_block_json b :: 'd json)" unfolding data_block_json_def by (intro json_ok_puts_json) simp
  then have "reads_back env (json_str env (data_block_json b)) (data_block_json b)" by (rule reads_back_json)
  then have "json_parse env Json_value (json_str env (data_block_json b)) 0 = Some (Inr (data_block_json b, 0 + length (json_str env (data_block_json b))))"
    by (rule reads_backD) (simp_all add: starts_at_def ends_at_def)
  then show ?thesis by (simp add: parse_json_def)
qed

definition a_block :: data_block where
  "a_block = \<lparr>db_size = 12, db_field_name = ''t'', db_series_key_and_field_name = ''s-t'', db_max_timestamp = 5, db_min_timestamp = 5, db_shard_id = ''1'',
     db_type = DATA_INTEGER, db_num = 1, db_tp_snappy_size = 8, db_val_snappy_size = 5, db_timestamps = [5], db_values = [''7'']\<rparr>"

theorem block_text_reads_back_witness:
  "parse_json whole_env (json_str whole_env (data_block_json a_block)) =
   Some (Inr (data_block_json a_block, length (json_str whole_env (data_block_json a_block))))"
  by (rule block_text_reads_back) (simp add: a_block_def)

end
