(* ===== verification/Point_Filter.thy ===== *)
theory Point_Filter
  imports Query
begin

text \<open>
  Conditions on data points (\<open>evaluate_expr_node\<close> and \<open>type_conversion\<close> of \<open>src/engine/tsm/iterator.cpp\<close>, \<open>src/engine/tsm/data_point.cpp\<close>), which
  the query path does not use: it has a version of its own for rows. A value is a variant of four types. The two floating point types
  and the conversions between numbers are parameters.
\<close>

section \<open>Data points\<close>

datatype ('f, 'g) dp_value = Dp_int "32 word" | Dp_float 'f | Dp_double 'g | Dp_string string

record ('f, 'g) data_point =
  dp_timestamp :: time_point
  dp_value_map :: "string \<rightharpoonup> ('f, 'g) dp_value"
  dp_tags :: "string \<rightharpoonup> string"

text \<open>The value for a field that is missing is a variant made without an argument, the number zero.\<close>

definition dp_get_value :: "string \<Rightarrow> ('f, 'g) data_point \<Rightarrow> ('f, 'g) dp_value" where
  "dp_get_value field_name p = (case dp_value_map p field_name of Some v \<Rightarrow> v | None \<Rightarrow> Dp_int 0)"

record 'f num_ops =
  no_eq :: "'f \<Rightarrow> 'f \<Rightarrow> bool"
  no_lt :: "'f \<Rightarrow> 'f \<Rightarrow> bool"
  no_le :: "'f \<Rightarrow> 'f \<Rightarrow> bool"
  no_to_int :: "'f \<Rightarrow> 32 word"

record ('f, 'g) filter_env =
  fe_float :: "'f num_ops"
  fe_double :: "'g num_ops"
  fe_of_int :: "32 word \<Rightarrow> 'f"

section \<open>Conversion\<close>

definition dp_to_int :: "('f, 'g) filter_env \<Rightarrow> ('f, 'g) dp_value \<Rightarrow> ('f, 'g) dp_value" where
  "dp_to_int env v = (case v of
     Dp_float x \<Rightarrow> Dp_int (no_to_int (fe_float env) x) | Dp_double x \<Rightarrow> Dp_int (no_to_int (fe_double env) x) | _ \<Rightarrow> v)"

definition dp_to_float :: "('f, 'g) filter_env \<Rightarrow> ('f, 'g) dp_value \<Rightarrow> ('f, 'g) dp_value" where
  "dp_to_float env v = (case v of Dp_int n \<Rightarrow> Dp_float (fe_of_int env n) | _ \<Rightarrow> v)"

definition type_conversion ::
  "('f, 'g) filter_env \<Rightarrow> string \<Rightarrow> ('f, 'g) dp_value \<Rightarrow> ('f, 'g) dp_value \<Rightarrow> ('f, 'g) dp_value \<times> ('f, 'g) dp_value" where
  "type_conversion env ty field_value compare_value =
     (if ty = ''integer'' then (dp_to_int env field_value, dp_to_int env compare_value)
      else if ty = ''float'' then (dp_to_float env field_value, dp_to_float env compare_value)
      else (field_value, compare_value))"

section \<open>Comparison\<close>

definition compare_by :: "string \<Rightarrow> ('x \<Rightarrow> 'x \<Rightarrow> bool) \<Rightarrow> ('x \<Rightarrow> 'x \<Rightarrow> bool) \<Rightarrow> ('x \<Rightarrow> 'x \<Rightarrow> bool) \<Rightarrow> 'x \<Rightarrow> 'x \<Rightarrow> bool" where
  "compare_by op eq lt le a b =
     (if op = ''=='' then eq a b
      else if op = ''!='' then \<not> eq a b
      else if op = ''>'' then lt b a
      else if op = ''<'' then lt a b
      else if op = ''>='' then le b a
      else if op = ''<='' then le a b
      else False)"

text \<open>Values of different types never compare; the test that should keep strings from being ordered is never true.\<close>

definition dp_compare :: "('f, 'g) filter_env \<Rightarrow> string \<Rightarrow> ('f, 'g) dp_value \<Rightarrow> ('f, 'g) dp_value \<Rightarrow> bool" where
  "dp_compare env op field_value compare_value =
     (case (field_value, compare_value) of
        (Dp_int a, Dp_int b) \<Rightarrow> compare_by op (=) (\<lambda>x y. x <s y) (\<lambda>x y. x \<le>s y) a b
      | (Dp_float a, Dp_float b) \<Rightarrow> compare_by op (no_eq (fe_float env)) (no_lt (fe_float env)) (no_le (fe_float env)) a b
      | (Dp_double a, Dp_double b) \<Rightarrow> compare_by op (no_eq (fe_double env)) (no_lt (fe_double env)) (no_le (fe_double env)) a b
      | (Dp_string a, Dp_string b) \<Rightarrow> compare_by op (=) (<) (\<le>) a b
      | _ \<Rightarrow> False)"

section \<open>Conditions\<close>

text \<open>\<open>and\<close> and \<open>or\<close> evaluate their right side only when it decides.\<close>

fun evaluate_expr_node ::
  "('f, 'g) filter_env \<Rightarrow> (string \<rightharpoonup> string) \<Rightarrow> expr_node option \<Rightarrow> ('f, 'g) data_point \<Rightarrow> bool result" where
  "evaluate_expr_node env field_type None p = Inr True"
| "evaluate_expr_node env field_type (Some (Expr_node v l r)) p =
     (if v = ''and'' then
        res_bind (evaluate_expr_node env field_type l p) (\<lambda>a. if a then evaluate_expr_node env field_type r p else Inr False)
      else if v = ''or'' then
        res_bind (evaluate_expr_node env field_type l p) (\<lambda>a. if a then Inr True else evaluate_expr_node env field_type r p)
      else
        res_bind (val_of l) (\<lambda>field. res_bind (val_of r) (\<lambda>compare_value.
          case field_type field of
            None \<Rightarrow> Inr False
          | Some ty \<Rightarrow>
              (let (a, b) = type_conversion env ty (dp_get_value field p) (Dp_string compare_value) in Inr (dp_compare env v a b)))))"

section \<open>The comparison of rows\<close>

text \<open>The comparison that rows use is this one, on the types that rows have.\<close>

fun dp_of_point :: "'f point_value \<Rightarrow> ('f, 'g) dp_value" where
  "dp_of_point (Int_point n) = Dp_int n"
| "dp_of_point (Float_point x) = Dp_float x"
| "dp_of_point (String_point s) = Dp_string s"

lemma compare_values_dp:
  "compare_values qenv op a b =
   dp_compare \<lparr>fe_float = \<lparr>no_eq = qe_float_eq qenv, no_lt = qe_float_less qenv, no_le = qe_float_le qenv, no_to_int = ti\<rparr>,
     fe_double = dbl, fe_of_int = oi\<rparr> op (dp_of_point a) (dp_of_point b)"
  by (cases a; cases b)
    (simp_all add: compare_values_def dp_compare_def compare_by_def same_type_def value_eq_def value_less_def value_le_def)

section \<open>What a comparison accepts\<close>

lemma type_conversion_string [simp]: "snd (type_conversion env ty v (Dp_string s)) = Dp_string s"
  by (simp add: type_conversion_def dp_to_int_def dp_to_float_def)

text \<open>
  The value a field is compared with stays a string, whatever the type of the field. A comparison therefore holds only
  for a field whose value is a string: a condition on a number rejects every data point.
\<close>

theorem numeric_filter_rejects:
  assumes "v \<noteq> ''and''" "v \<noteq> ''or''" "\<And>s. dp_get_value (en_val l) p \<noteq> Dp_string s"
  shows "evaluate_expr_node env field_type (Some (Expr_node v (Some l) (Some r))) p = Inr False"
proof (cases "field_type (en_val l)")
  case (Some ty)
  have "fst (type_conversion env ty (dp_get_value (en_val l) p) c) \<noteq> Dp_string s" for c s
    using assms(3) [of s] by (auto simp: type_conversion_def dp_to_int_def dp_to_float_def split: dp_value.split)
  then have "\<not> dp_compare env v (fst (type_conversion env ty (dp_get_value (en_val l) p) c)) (Dp_string s)" for c s
    by (simp add: dp_compare_def split: dp_value.split)
  then show ?thesis using Some assms(1,2)
    by (cases l; cases r) (auto simp: val_of_def Let_def case_prod_beta)
qed (use assms(1,2) in \<open>cases l; cases r; simp add: val_of_def\<close>)

definition a_point :: "(int, int) data_point" where
  "a_point = \<lparr>dp_timestamp = 1, dp_value_map = [''t'' \<mapsto> Dp_int 7], dp_tags = Map.empty\<rparr>"

theorem numeric_filter_rejects_witness:
  "evaluate_expr_node env [''t'' \<mapsto> ''integer''] (Some (Expr_node ''=='' (Some (Expr_node ''t'' None None)) (Some (Expr_node ''7'' None None)))) a_point = Inr False"
  by (rule numeric_filter_rejects) (simp_all add: a_point_def dp_get_value_def)

end
