(* ===== verification/Worker_Pool.thy ===== *)
theory Worker_Pool
  imports Prelude "HOL-Library.Multiset"
begin

text \<open>
  The thread pool of the storage engine (\<open>src/thread_manager/thread_pool.h\<close>), as the steps its threads take between two
  acquisitions of the mutex. A worker checks the condition, sleeps on the condition variable, runs a task, or has returned.
  \<open>notify_one\<close> and \<open>notify_all\<close> come after the mutex is released and are steps of their own, counted until they happen.
  A task is run by \<open>packaged_task\<close>, which returns also when the task throws. A sleeping worker may wake up without a reason.
  The pool settles: no task is left behind by workers that sleep, and the destructor gets all its threads back.
\<close>

section \<open>Model\<close>

datatype 'k worker = Checking | Sleeping | Running 'k | Returned

record 'k worker_pool =
  wp_workers :: "'k worker list"
  wp_tasks :: "'k list"
  wp_stop :: bool
  wp_notify_one :: nat
  wp_notify_all :: bool

definition new_worker_pool :: "nat \<Rightarrow> 'k worker_pool" where
  "new_worker_pool threads =
     \<lparr>wp_workers = replicate threads Checking, wp_tasks = [], wp_stop = False, wp_notify_one = 0, wp_notify_all = False\<rparr>"

definition enqueue :: "'k \<Rightarrow> 'k worker_pool \<Rightarrow> 'k worker_pool result" where
  "enqueue task p =
     (if wp_stop p then Inl (Runtime_error ''enqueue on stopped ThreadPool'')
      else Inr (p\<lparr>wp_tasks := wp_tasks p @ [task], wp_notify_one := wp_notify_one p + 1\<rparr>))"

definition set_worker :: "nat \<Rightarrow> 'k worker \<Rightarrow> 'k worker_pool \<Rightarrow> 'k worker_pool" where
  "set_worker i w p = p\<lparr>wp_workers := (wp_workers p)[i := w]\<rparr>"

definition worker_is :: "nat \<Rightarrow> 'k worker \<Rightarrow> 'k worker_pool \<Rightarrow> bool" where
  "worker_is i w p \<longleftrightarrow> i < length (wp_workers p) \<and> wp_workers p ! i = w"

text \<open>The steps of the program, and those that are left to the threads of the pool.\<close>

datatype 'k pool_event =
    Enqueue 'k | Stop_pool | Spurious nat | Notify_one | Notify_all | Sleep nat | Start nat 'k | End nat 'k | Exit_worker nat

definition wake :: "'k worker \<Rightarrow> 'k worker" where
  "wake w = (if w = Sleeping then Checking else w)"

inductive pool_step :: "'k worker_pool \<Rightarrow> 'k pool_event \<Rightarrow> 'k worker_pool \<Rightarrow> bool" where
  enqueue: "enqueue k p = Inr p' \<Longrightarrow> pool_step p (Enqueue k) p'"
| stop: "\<not> wp_stop p \<Longrightarrow> pool_step p Stop_pool (p\<lparr>wp_stop := True, wp_notify_all := True\<rparr>)"
| spurious: "worker_is i Sleeping p \<Longrightarrow> pool_step p (Spurious i) (set_worker i Checking p)"
| wake_one: "0 < wp_notify_one p \<Longrightarrow> worker_is i Sleeping p \<Longrightarrow>
    pool_step p Notify_one ((set_worker i Checking p)\<lparr>wp_notify_one := wp_notify_one p - 1\<rparr>)"
| wake_none: "0 < wp_notify_one p \<Longrightarrow> Sleeping \<notin> set (wp_workers p) \<Longrightarrow> pool_step p Notify_one (p\<lparr>wp_notify_one := wp_notify_one p - 1\<rparr>)"
| wake_all: "wp_notify_all p \<Longrightarrow> pool_step p Notify_all (p\<lparr>wp_workers := map wake (wp_workers p), wp_notify_all := False\<rparr>)"
| sleep: "worker_is i Checking p \<Longrightarrow> \<not> (wp_stop p \<or> wp_tasks p \<noteq> []) \<Longrightarrow> pool_step p (Sleep i) (set_worker i Sleeping p)"
| exit: "worker_is i Checking p \<Longrightarrow> wp_stop p \<Longrightarrow> wp_tasks p = [] \<Longrightarrow> pool_step p (Exit_worker i) (set_worker i Returned p)"
| start: "worker_is i Checking p \<Longrightarrow> wp_tasks p = k # ks \<Longrightarrow> pool_step p (Start i k) ((set_worker i (Running k) p)\<lparr>wp_tasks := ks\<rparr>)"
| finish: "worker_is i (Running k) p \<Longrightarrow> pool_step p (End i k) (set_worker i Checking p)"

inductive_cases pool_stepE: "pool_step p e p'"

inductive pool_run :: "'k worker_pool \<Rightarrow> 'k pool_event list \<Rightarrow> 'k worker_pool \<Rightarrow> bool" where
  nil: "pool_run p [] p"
| step: "pool_step p e p1 \<Longrightarrow> pool_run p1 es p' \<Longrightarrow> pool_run p (e # es) p'"

section \<open>Every task once\<close>

definition enqueued :: "'k pool_event list \<Rightarrow> 'k list" where
  "enqueued es = concat (map (\<lambda>e. case e of Enqueue k \<Rightarrow> [k] | _ \<Rightarrow> []) es)"

definition started :: "'k pool_event list \<Rightarrow> 'k list" where
  "started es = concat (map (\<lambda>e. case e of Start i k \<Rightarrow> [k] | _ \<Rightarrow> []) es)"

definition ended :: "'k pool_event list \<Rightarrow> 'k list" where
  "ended es = concat (map (\<lambda>e. case e of End i k \<Rightarrow> [k] | _ \<Rightarrow> []) es)"

definition running_of :: "'k worker \<Rightarrow> 'k multiset" where
  "running_of w = (case w of Running k \<Rightarrow> {#k#} | _ \<Rightarrow> {#})"

definition running :: "'k worker_pool \<Rightarrow> 'k multiset" where
  "running p = sum_list (map running_of (wp_workers p))"

lemma running_of_simps [simp]:
  "running_of Checking = {#}" "running_of Sleeping = {#}" "running_of (Running k) = {#k#}" "running_of Returned = {#}" "running_of (wake w) = running_of w"
  by (auto simp: running_of_def wake_def)

lemma trace_simps [simp]:
  "enqueued [] = []" "enqueued (e # es) = (case e of Enqueue k \<Rightarrow> [k] | _ \<Rightarrow> []) @ enqueued es"
  "started [] = []" "started (e # es) = (case e of Start i k \<Rightarrow> [k] | _ \<Rightarrow> []) @ started es"
  "ended [] = []" "ended (e # es) = (case e of End i k \<Rightarrow> [k] | _ \<Rightarrow> []) @ ended es"
  by (simp_all add: enqueued_def started_def ended_def)

lemma trace_append: "enqueued (es @ es') = enqueued es @ enqueued es'" "started (es @ es') = started es @ started es'"
  by (simp_all add: enqueued_def started_def)

lemma set_worker_simps [simp]:
  "wp_workers (set_worker i w p) = (wp_workers p)[i := w]" "wp_tasks (set_worker i w p) = wp_tasks p" "wp_stop (set_worker i w p) = wp_stop p"
  "wp_notify_one (set_worker i w p) = wp_notify_one p" "wp_notify_all (set_worker i w p) = wp_notify_all p"
  by (simp_all add: set_worker_def)

lemma sum_list_replace:
  fixes f :: "'w \<Rightarrow> 'm :: comm_monoid_add"
  shows "i < length ws \<Longrightarrow> sum_list (map f (ws[i := w])) + f (ws ! i) = sum_list (map f ws) + f w"
proof (induction ws arbitrary: i)
  case (Cons v ws)
  show ?case
  proof (cases i)
    case (Suc j)
    then have "sum_list (map f (ws[j := w])) + f (ws ! j) = sum_list (map f ws) + f w" using Cons by simp
    then show ?thesis using Suc by (simp add: add.assoc)
  qed (simp add: add.commute add.left_commute)
qed simp

lemma enqueue_D: "enqueue k p = Inr p' \<Longrightarrow> \<not> wp_stop p \<and> p' = p\<lparr>wp_tasks := wp_tasks p @ [k], wp_notify_one := wp_notify_one p + 1\<rparr>"
  by (auto simp: enqueue_def split: if_splits)

lemma running_replace: "worker_is i v p \<Longrightarrow> sum_list (map running_of ((wp_workers p)[i := w])) + running_of v = running p + running_of w"
  using sum_list_replace [of i "wp_workers p" running_of w] by (auto simp: worker_is_def running_def)

lemma pool_step_traces:
  assumes "pool_step p e p'"
  shows "wp_tasks p @ enqueued [e] = started [e] @ wp_tasks p' \<and> mset (started [e]) + running p = mset (ended [e]) + running p'"
  using assms
proof cases
  case (wake_one i)
  then show ?thesis using running_replace [OF wake_one(4), of Checking] by (simp add: running_def)
next
  case (start i k ks)
  then show ?thesis using running_replace [OF start(3), of "Running k"] by (simp add: running_def)
next
  case (finish i k)
  then show ?thesis using running_replace [OF finish(3), of Checking] by (simp add: running_def)
next
  case (sleep i)
  then show ?thesis using running_replace [OF sleep(3), of Sleeping] by (simp add: running_def)
next
  case (exit i)
  then show ?thesis using running_replace [OF exit(3), of Returned] by (simp add: running_def)
next
  case (spurious i)
  then show ?thesis using running_replace [OF spurious(3), of Checking] by (simp add: running_def)
next
  case wake_all
  then show ?thesis by (simp add: running_def comp_def)
qed (auto simp: running_def dest: enqueue_D)

lemma pool_run_traces:
  "pool_run p es p' \<Longrightarrow> wp_tasks p @ enqueued es = started es @ wp_tasks p' \<and> mset (started es) + running p = mset (ended es) + running p'"
proof (induction rule: pool_run.induct)
  case (step p e p1 es p')
  have s: "wp_tasks p @ enqueued [e] = started [e] @ wp_tasks p1" "mset (started [e]) + running p = mset (ended [e]) + running p1"
    using pool_step_traces [OF step(1)] by simp_all
  have split: "enqueued (e # es) = enqueued [e] @ enqueued es" "started (e # es) = started [e] @ started es" "ended (e # es) = ended [e] @ ended es"
    by simp_all
  have "wp_tasks p @ enqueued (e # es) = started (e # es) @ wp_tasks p'"
    unfolding split using s(1) step.IH by (metis append.assoc)
  moreover have "mset (started (e # es)) + running p = mset (ended (e # es)) + running p'"
  proof -
    have "mset (started (e # es)) + running p = mset (started es) + (mset (started [e]) + running p)" unfolding split by (simp add: ac_simps)
    also have "\<dots> = mset (ended [e]) + (mset (started es) + running p1)" unfolding s(2) by (simp only: ac_simps)
    also have "\<dots> = mset (ended (e # es)) + running p'" using step.IH unfolding split by (simp add: ac_simps)
    finally show ?thesis .
  qed
  ultimately show ?case ..
qed simp

lemma new_pool_empty [simp]: "wp_tasks (new_worker_pool n) = []" "running (new_worker_pool n) = {#}" "wp_stop (new_worker_pool n) = False"
  "length (wp_workers (new_worker_pool n)) = n"
proof -
  have "sum_list (replicate n {#}) = {#}" by (induction n) simp_all
  then show "running (new_worker_pool n) = {#}" by (simp add: new_worker_pool_def running_def)
qed (simp_all add: new_worker_pool_def)

text \<open>
  C14. Whatever the threads and the callers do, tasks are started in the order they were enqueued, each once, and
  every task that was started has ended or is running.
\<close>

theorem tasks_run_once:
  assumes "pool_run (new_worker_pool n) es p"
  shows "enqueued es = started es @ wp_tasks p \<and> mset (started es) = mset (ended es) + running p"
  using pool_run_traces [OF assms] by simp

section \<open>The pool settles\<close>

text \<open>
  The invariant: a worker that has returned found the pool stopped and empty; once \<open>notify_all\<close> has been called nobody sleeps; and
  workers only sleep all together on tasks that have a notification on its way.
\<close>

definition pool_inv :: "'k worker_pool \<Rightarrow> bool" where
  "pool_inv p \<longleftrightarrow> wp_workers p \<noteq> [] \<and> (Returned \<in> set (wp_workers p) \<longrightarrow> wp_stop p \<and> wp_tasks p = []) \<and>
     (wp_stop p \<and> \<not> wp_notify_all p \<longrightarrow> Sleeping \<notin> set (wp_workers p)) \<and> (wp_notify_all p \<longrightarrow> wp_stop p) \<and>
     (wp_tasks p \<noteq> [] \<and> wp_notify_one p = 0 \<longrightarrow> (\<exists>w \<in> set (wp_workers p). w \<noteq> Sleeping))"

lemma set_replaced: "worker_is i v p \<Longrightarrow> w \<in> set ((wp_workers p)[i := w]) \<and> set ((wp_workers p)[i := w]) \<subseteq> insert w (set (wp_workers p))"
  by (simp add: worker_is_def set_update_memI set_update_subset_insert)

lemma pool_inv_new: "0 < n \<Longrightarrow> pool_inv (new_worker_pool n)"
  by (simp add: pool_inv_def new_worker_pool_def)

lemma pool_inv_step:
  assumes "pool_step p e p'" "pool_inv p"
  shows "pool_inv p'"
  using assms(1)
proof cases
  case (enqueue k)
  then show ?thesis using assms(2) enqueue_D [OF enqueue(2)] by (auto simp: pool_inv_def)
next
  case stop
  then show ?thesis using assms(2) by (auto simp: pool_inv_def)
next
  case (spurious i)
  then show ?thesis using assms(2) set_replaced [OF spurious(3), of Checking] by (auto simp: pool_inv_def)
next
  case (wake_one i)
  then show ?thesis using assms(2) set_replaced [OF wake_one(4), of Checking] by (auto simp: pool_inv_def)
next
  case wake_none
  then have "\<exists>w \<in> set (wp_workers p). w \<noteq> Sleeping" using assms(2) by (cases "wp_workers p") (auto simp: pool_inv_def)
  then show ?thesis using wake_none assms(2) by (auto simp: pool_inv_def)
next
  case wake_all
  have "Sleeping \<notin> wake ` set (wp_workers p)" "Returned \<in> wake ` set (wp_workers p) \<longleftrightarrow> Returned \<in> set (wp_workers p)" by (auto simp: wake_def image_iff)
  moreover have "\<exists>w \<in> wake ` set (wp_workers p). w \<noteq> Sleeping" using assms(2) calculation(1) by (cases "wp_workers p") (auto simp: pool_inv_def)
  ultimately show ?thesis using wake_all assms(2) by (simp add: pool_inv_def)
next
  case (sleep i)
  then show ?thesis using assms(2) set_replaced [OF sleep(3), of Sleeping] by (auto simp: pool_inv_def)
next
  case (exit i)
  then show ?thesis using assms(2) set_replaced [OF exit(3), of Returned] by (auto simp: pool_inv_def)
next
  case (start i k ks)
  then show ?thesis using assms(2) set_replaced [OF start(3), of "Running k"] by (auto simp: pool_inv_def)
next
  case (finish i k)
  then show ?thesis using assms(2) set_replaced [OF finish(3), of Checking] by (auto simp: pool_inv_def)
qed

lemma pool_inv_run: "pool_run p es p' \<Longrightarrow> pool_inv p \<Longrightarrow> pool_inv p'"
  by (induction rule: pool_run.induct) (auto intro: pool_inv_step)

text \<open>The steps that remain when nobody enqueues, stops the pool or wakes up without a reason, and a bound for their number.\<close>

definition internal :: "'k pool_event \<Rightarrow> bool" where
  "internal e \<longleftrightarrow> (case e of Enqueue k \<Rightarrow> False | Stop_pool \<Rightarrow> False | Spurious i \<Rightarrow> False | _ \<Rightarrow> True)"

lemma internal_simps [simp]:
  "\<not> internal (Enqueue k)" "\<not> internal Stop_pool" "\<not> internal (Spurious i)" "internal Notify_one" "internal Notify_all"
  "internal (Sleep i)" "internal (Start i k)" "internal (End i k)" "internal (Exit_worker i)"
  by (simp_all add: internal_def)

definition weight :: "'k worker \<Rightarrow> nat" where
  "weight w = (case w of Checking \<Rightarrow> 1 | Running k \<Rightarrow> 2 | _ \<Rightarrow> 0)"

lemma weight_simps [simp]: "weight Checking = 1" "weight (Running k) = 2" "weight Sleeping = 0" "weight Returned = 0"
  by (simp_all add: weight_def)

definition effort :: "'k worker_pool \<Rightarrow> nat" where
  "effort p = 2 * length (wp_tasks p) + 2 * wp_notify_one p + (if wp_notify_all p then length (wp_workers p) + 1 else 0) +
     sum_list (map weight (wp_workers p))"

lemma weight_replace:
  "worker_is i v p \<Longrightarrow> sum_list (map weight ((wp_workers p)[i := w])) + weight v = sum_list (map weight (wp_workers p)) + weight w"
  using sum_list_replace [of i "wp_workers p" weight w] by (auto simp: worker_is_def)

lemma weight_wake: "sum_list (map (weight \<circ> wake) ws) \<le> sum_list (map weight ws) + length ws"
proof (induction ws)
  case (Cons w ws)
  have "weight (wake w) \<le> weight w + 1" by (auto simp: wake_def)
  then show ?case using Cons by simp
qed simp

lemma effort_step: "pool_step p e p' \<Longrightarrow> internal e \<Longrightarrow> effort p' < effort p"
proof (induction rule: pool_step.induct)
  case (wake_one p i)
  then show ?case using weight_replace [OF wake_one(2), of Checking] by (simp add: effort_def)
next
  case (wake_all p)
  then show ?case using weight_wake [of "wp_workers p"] by (simp add: effort_def)
next
  case (sleep i p)
  then show ?case using weight_replace [OF sleep(1), of Sleeping] by (simp add: effort_def)
next
  case (exit i p)
  then show ?case using weight_replace [OF exit(1), of Returned] by (simp add: effort_def)
next
  case (start i p k ks)
  then show ?case using weight_replace [OF start(1), of "Running k"] by (simp add: effort_def)
next
  case (finish i k p)
  then show ?case using weight_replace [OF finish(1), of Checking] by (simp add: effort_def)
qed (simp_all add: effort_def)

lemma effort_run: "pool_run p es p' \<Longrightarrow> \<forall>e \<in> set es. internal e \<Longrightarrow> length es + effort p' \<le> effort p"
  by (induction rule: pool_run.induct) (fastforce dest: effort_step)+

lemma internal_stop: "pool_run p es p' \<Longrightarrow> \<forall>e \<in> set es. internal e \<Longrightarrow> wp_stop p' = wp_stop p \<and> enqueued es = []"
proof (induction rule: pool_run.induct)
  case (step p e p1 es p')
  then have "wp_stop p1 = wp_stop p \<and> enqueued [e] = []" by (auto elim!: pool_stepE)
  then show ?case using step by simp
qed simp

text \<open>A pool that can do nothing more by itself.\<close>

definition at_rest :: "'k worker_pool \<Rightarrow> bool" where
  "at_rest p \<longleftrightarrow> (\<forall>e p'. pool_step p e p' \<longrightarrow> \<not> internal e)"

lemma at_rest_workers:
  assumes "pool_inv p" "at_rest p"
  shows "wp_tasks p = [] \<and> running p = {#} \<and> (\<forall>w \<in> set (wp_workers p). w = (if wp_stop p then Returned else Sleeping))"
proof -
  have no: "\<not> pool_step p e p'" if "internal e" for e p' using assms(2) that by (auto simp: at_rest_def)
  have n1: "wp_notify_one p = 0"
  proof (rule ccontr)
    assume n: "wp_notify_one p \<noteq> 0"
    show False
    proof (cases "Sleeping \<in> set (wp_workers p)")
      case True
      then obtain i where "worker_is i Sleeping p" by (auto simp: worker_is_def in_set_conv_nth)
      then show ?thesis using no [of Notify_one] n pool_step.wake_one [of p i] by simp
    next
      case False
      then show ?thesis using no [of Notify_one] n pool_step.wake_none [of p] by simp
    qed
  qed
  have n2: "\<not> wp_notify_all p" using no [of Notify_all] pool_step.wake_all [of p] by auto
  have c: "Checking \<notin> set (wp_workers p)"
  proof
    assume "Checking \<in> set (wp_workers p)"
    then obtain i where i: "worker_is i Checking p" by (auto simp: worker_is_def in_set_conv_nth)
    show False
    proof (cases "wp_tasks p")
      case Nil
      then show ?thesis using no [of "Sleep i"] no [of "Exit_worker i"] pool_step.sleep [OF i] pool_step.exit [OF i] by auto
    next
      case (Cons k ks)
      then show ?thesis using no [of "Start i k"] pool_step.start [OF i Cons] by simp
    qed
  qed
  have r: "Running k \<notin> set (wp_workers p)" for k
  proof
    assume "Running k \<in> set (wp_workers p)"
    then obtain i where i: "worker_is i (Running k) p" by (auto simp: worker_is_def in_set_conv_nth)
    then show False using no [of "End i k"] pool_step.finish [OF i] by simp
  qed
  have w: "w = Sleeping \<or> w = Returned" if "w \<in> set (wp_workers p)" for w using that c r by (cases w rule: worker.exhaust) blast+
  have ws: "w = (if wp_stop p then Returned else Sleeping)" if "w \<in> set (wp_workers p)" for w
    using w [OF that] that n2 assms(1) by (auto simp: pool_inv_def)
  have "wp_tasks p = []"
  proof (cases "wp_stop p")
    case True
    obtain w where w: "w \<in> set (wp_workers p)" using assms(1) by (cases "wp_workers p") (auto simp: pool_inv_def)
    then have "Returned \<in> set (wp_workers p)" using ws [OF w] True by simp
    then show ?thesis using assms(1) by (simp add: pool_inv_def)
  next
    case False
    then show ?thesis using ws n1 assms(1) by (auto simp: pool_inv_def)
  qed
  moreover have "running p = {#}"
  proof -
    have "sum_list (map running_of vs) = {#}" if "\<forall>v \<in> set vs. running_of v = {#}" for vs :: "'a worker list"
      using that by (induction vs) simp_all
    then show ?thesis using w by (fastforce simp: running_def)
  qed
  ultimately show ?thesis using ws by blast
qed

text \<open>
  C13. From every state a pool with at least one thread settles: when nobody enqueues, stops it or wakes a worker for
  no reason, it takes at most \<open>effort\<close> more steps. When none is left, every task that was enqueued has been run to its end, and
  all workers sleep, or have returned if the pool was stopped, so that the destructor, which waits for them, returns. No
  wakeup is lost.
\<close>

theorem worker_pool_settles:
  assumes "0 < n" "pool_run (new_worker_pool n) es p" "pool_run p es' p'" "\<forall>e \<in> set es'. internal e"
  shows "length es' \<le> effort p \<and>
    (at_rest p' \<longrightarrow> enqueued es = started (es @ es') \<and> mset (enqueued es) = mset (ended (es @ es')) \<and>
       (\<forall>w \<in> set (wp_workers p'). w = (if wp_stop p then Returned else Sleeping)))"
proof -
  have "length es' \<le> effort p" using effort_run [OF assms(3,4)] by simp
  moreover have "enqueued es = started (es @ es') \<and> mset (enqueued es) = mset (ended (es @ es')) \<and>
    (\<forall>w \<in> set (wp_workers p'). w = (if wp_stop p then Returned else Sleeping))" if "at_rest p'"
  proof -
    have "pool_inv p'" using pool_inv_run [OF assms(3)] pool_inv_run [OF assms(2)] pool_inv_new [OF assms(1)] by blast
    note rest = at_rest_workers [OF this that]
    have t1: "enqueued es = started es @ wp_tasks p" "mset (started es) = mset (ended es) + running p"
      using pool_run_traces [OF assms(2)] by simp_all
    have t2: "wp_tasks p = started es'" "mset (started es') + running p = mset (ended es')" "wp_stop p' = wp_stop p"
      using pool_run_traces [OF assms(3)] internal_stop [OF assms(3,4)] rest by simp_all
    have "ended (es @ es') = ended es @ ended es'" by (simp add: ended_def)
    then have "mset (enqueued es) = mset (ended (es @ es'))" using t1 t2(1,2) by (simp add: ac_simps)
    then show ?thesis using t1(1) t2(1,3) rest by (simp add: trace_append)
  qed
  ultimately show ?thesis by blast
qed

text \<open>One worker and one task: enqueued while the worker sleeps, and the pool stopped behind it.\<close>

definition sleeper :: "nat worker_pool" where
  "sleeper = \<lparr>wp_workers = [Sleeping], wp_tasks = [], wp_stop = False, wp_notify_one = 0, wp_notify_all = False\<rparr>"

lemma sleeper_reached: "pool_run (new_worker_pool 1) [Sleep 0, Enqueue (7 :: nat), Stop_pool]
  \<lparr>wp_workers = [Sleeping], wp_tasks = [7], wp_stop = True, wp_notify_one = 1, wp_notify_all = True\<rparr>"
proof -
  have 1: "pool_step (new_worker_pool 1) (Sleep 0) sleeper"
    using pool_step.sleep [of 0 "new_worker_pool 1"] by (simp add: new_worker_pool_def worker_is_def set_worker_def sleeper_def)
  have 2: "pool_step sleeper (Enqueue 7) (sleeper\<lparr>wp_tasks := [7], wp_notify_one := 1\<rparr>)"
    by (rule pool_step.enqueue) (simp add: enqueue_def sleeper_def)
  have 3: "pool_step (sleeper\<lparr>wp_tasks := [7], wp_notify_one := 1\<rparr>) Stop_pool
    \<lparr>wp_workers = [Sleeping], wp_tasks = [7], wp_stop = True, wp_notify_one = 1, wp_notify_all = True\<rparr>"
    using pool_step.stop [of "sleeper\<lparr>wp_tasks := [7], wp_notify_one := 1\<rparr>"] by (simp add: sleeper_def)
  show ?thesis by (rule pool_run.step [OF 1 pool_run.step [OF 2 pool_run.step [OF 3 pool_run.nil]]])
qed

theorem tasks_run_once_witness:
  "enqueued [Sleep 0, Enqueue 7, Stop_pool] = started [Sleep 0, Enqueue (7 :: nat), Stop_pool] @ [7]"
  using tasks_run_once [OF sleeper_reached] by simp

theorem worker_pool_settles_witness:
  "\<exists>p es' p'. pool_run (new_worker_pool 1) [Sleep 0, Enqueue 7, Stop_pool] p \<and> pool_run p es' p' \<and> at_rest p' \<and> wp_workers p' = [Returned] \<and>
     mset (enqueued [Sleep 0, Enqueue (7 :: nat), Stop_pool]) = mset (ended ([Sleep 0, Enqueue 7, Stop_pool] @ es'))"
proof -
  let ?p = "\<lambda>ws ts n a. \<lparr>wp_workers = ws, wp_tasks = ts, wp_stop = True, wp_notify_one = n, wp_notify_all = a\<rparr> :: nat worker_pool"
  let ?es = "[Notify_one, Notify_all, Start 0 7, End 0 7, Exit_worker 0] :: nat pool_event list"
  have s1: "pool_step (?p [Sleeping] [7] 1 True) Notify_one (?p [Checking] [7] 0 True)"
    using pool_step.wake_one [of "?p [Sleeping] [7] 1 True" 0] by (simp add: worker_is_def set_worker_def)
  have s2: "pool_step (?p [Checking] [7] 0 True) Notify_all (?p [Checking] [7] 0 False)"
    using pool_step.wake_all [of "?p [Checking] [7] 0 True"] by (simp add: wake_def)
  have s3: "pool_step (?p [Checking] [7] 0 False) (Start 0 7) (?p [Running 7] [] 0 False)"
    using pool_step.start [of 0 "?p [Checking] [7] 0 False"] by (simp add: worker_is_def set_worker_def)
  have s4: "pool_step (?p [Running 7] [] 0 False) (End 0 7) (?p [Checking] [] 0 False)"
    using pool_step.finish [of 0 7 "?p [Running 7] [] 0 False"] by (simp add: worker_is_def set_worker_def)
  have s5: "pool_step (?p [Checking] [] 0 False) (Exit_worker 0) (?p [Returned] [] 0 False)"
    using pool_step.exit [of 0 "?p [Checking] [] 0 False"] by (simp add: worker_is_def set_worker_def)
  have r: "pool_run (?p [Sleeping] [7] 1 True) ?es (?p [Returned] [] 0 False)" by (rule pool_run.step [OF s1 pool_run.step [OF s2 pool_run.step [OF s3 pool_run.step [OF s4 pool_run.step [OF s5 pool_run.nil]]]]])
  have rest: "at_rest (?p [Returned] [] 0 False)" by (auto simp: at_rest_def worker_is_def elim!: pool_stepE)
  then have "mset (enqueued [Sleep 0, Enqueue (7 :: nat), Stop_pool]) = mset (ended ([Sleep 0, Enqueue 7, Stop_pool] @ ?es))"
    using worker_pool_settles [OF _ sleeper_reached r] by simp
  then show ?thesis using sleeper_reached r rest by (intro exI [of _ "?p [Sleeping] [7] 1 True"] exI [of _ ?es] exI [of _ "?p [Returned] [] 0 False"]) simp
qed

end
