(* ===== verification/Repl.thy ===== *)
theory Repl
  imports Executor_Properties
begin

text \<open>
  The two interactive programs (\<open>src/eval_repl.cpp\<close>, \<open>src/eval_repl_pro.cpp\<close>): loops that take a text through lexer, parser, evaluator and
  executor until it is \<open>exit\<close>. What is typed is a list of lines; at its end \<open>getline\<close> leaves the text empty. The loops are partial: a program
  that goes on for ever is \<open>None\<close>.
\<close>

section \<open>The plain loop\<close>

partial_function (option) repl ::
  "'tm parse_env \<Rightarrow> 'f eval_env \<Rightarrow> 'f environment \<Rightarrow> string list \<Rightarrow> session \<Rightarrow> session result option" where
  "repl penv env vars typed s =
     (let (text, typed) = (case typed of [] \<Rightarrow> ([], []) | t # ts \<Rightarrow> (t, ts)) in
      if text = ''exit'' then Some (Inr s)
      else
        (case run_sql penv env vars text s of
           None \<Rightarrow> None
         | Some (Inl e) \<Rightarrow> Some (Inl e)
         | Some (Inr s) \<Rightarrow> repl penv env vars typed s))"

section \<open>The loop with test data\<close>

text \<open>The statements that are typed first by the program itself; \<open>pick n\<close> is the one drawn when \<open>n\<close> are left.\<close>

definition local_name :: string where
  "local_name = map char_of [0xE4, 0xB8, 0xAD, 0xE5, 0xBE, 0xB7 :: nat]"

definition class_name :: string where
  "class_name = map char_of [0xE8, 0xBD, 0xAF, 0xE5, 0xB7, 0xA5 :: nat]"

definition temperature :: string where
  "temperature = map char_of [0xE6, 0xB8, 0xA9, 0xE5, 0xBA, 0xA6 :: nat]"

definition test_sql :: "string list" where
  "test_sql = map (\<lambda>v. ''insert into school,local='' @ [CHR 0x27] @ local_name @ [CHR 0x27] @ '',class='' @ [CHR 0x27] @ class_name @ ''1'' @
     map char_of [0xE7, 0x8F, 0xAD :: nat] @ [CHR 0x27, CHR 0x20, CHR 0x27] @ temperature @ [CHR 0x27] @ ''='' @ v) [''23.9'', ''22.8'', ''21.7'', ''20.6'']"

definition get_random_element :: "nat \<Rightarrow> string list \<Rightarrow> string" where
  "get_random_element r strs = (if strs = [] then [] else strs ! (r mod length strs))"

definition TEST_COUNT :: nat where
  "TEST_COUNT = 100"

text \<open>A text with errors is not replaced: the loop begins again with it.\<close>

partial_function (option) repl_pro ::
  "'tm parse_env \<Rightarrow> 'f eval_env \<Rightarrow> 'f environment \<Rightarrow> (nat \<Rightarrow> nat) \<Rightarrow> bool \<Rightarrow> string \<Rightarrow> nat \<Rightarrow> string list \<Rightarrow> session \<Rightarrow> session result option" where
  "repl_pro penv env vars rnd run text count typed s =
     (let text = (if run then ''use db_test'' else text) in
      case parse_program penv (mk_parser (mk_lexer text)) of
        None \<Rightarrow> None
      | Some (Inl e) \<Rightarrow> Some (Inl e)
      | Some (Inr (prog, p)) \<Rightarrow>
          if ps_errors p \<noteq> [] then repl_pro penv env vars rnd False text count typed s
          else
            (case run_program env vars prog s of
               Inl e \<Rightarrow> Some (Inl e)
             | Inr s \<Rightarrow>
                 if count \<noteq> 0 then repl_pro penv env vars rnd False (get_random_element (rnd count) test_sql) (count - 1) typed s
                 else
                   (let (text, typed) = (case typed of [] \<Rightarrow> ([], []) | t # ts \<Rightarrow> (t, ts)) in
                    if text = ''exit'' then Some (Inr s) else repl_pro penv env vars rnd False text count typed s)))"

definition repl_pro_main ::
  "'tm parse_env \<Rightarrow> 'f eval_env \<Rightarrow> 'f environment \<Rightarrow> (nat \<Rightarrow> nat) \<Rightarrow> string list \<Rightarrow> session \<Rightarrow> session result option" where
  "repl_pro_main penv env vars rnd typed s = repl_pro penv env vars rnd True [] TEST_COUNT typed s"

section \<open>What the plain loop does\<close>

text \<open>The statements one after the other.\<close>

fun run_all :: "'tm parse_env \<Rightarrow> 'f eval_env \<Rightarrow> 'f environment \<Rightarrow> string list \<Rightarrow> session \<Rightarrow> session result option" where
  "run_all penv env vars [] s = Some (Inr s)"
| "run_all penv env vars (t # ts) s =
     (case run_sql penv env vars t s of None \<Rightarrow> None | Some (Inl e) \<Rightarrow> Some (Inl e) | Some (Inr s) \<Rightarrow> run_all penv env vars ts s)"

theorem repl_runs_statements:
  "''exit'' \<notin> set ts \<Longrightarrow> repl penv env vars (ts @ ''exit'' # others) s = run_all penv env vars ts s"
proof (induction ts arbitrary: s)
  case Nil
  then show ?case by (simp add: repl.simps)
next
  case (Cons t ts)
  have "repl penv env vars ((t # ts) @ ''exit'' # others) s =
    (case run_sql penv env vars t s of None \<Rightarrow> None | Some (Inl e) \<Rightarrow> Some (Inl e) | Some (Inr s) \<Rightarrow> repl penv env vars (ts @ ''exit'' # others) s)"
    using Cons.prems by (subst repl.simps) auto
  then show ?case using Cons by (auto split: option.splits sum.splits)
qed

lemma repl_no_return: "repl penv env vars typed s = Some r \<Longrightarrow> ''exit'' \<notin> set typed \<longrightarrow> (\<forall>s'. r \<noteq> Inr s')"
proof (induction rule: repl.raw_induct [rotated, consumes 1])
  case (1 rep penv env vars typed s r)
  show ?case
  proof (intro impI allI notI)
    fix s'
    assume e: "''exit'' \<notin> set typed" "r = Inr s'"
    obtain line rest where t: "(case typed of [] \<Rightarrow> ([], []) | t # ts \<Rightarrow> (t, ts)) = (line, rest)" by fastforce
    have n: "line \<noteq> ''exit''" "''exit'' \<notin> set rest" using t e(1) by (cases typed; auto)+
    then obtain s1 where "rep penv env vars rest s1 = Some (Inr s')"
      using 1(2) t e(2) by (auto split: option.splits sum.splits)
    then show False using 1(1) n(2) by blast
  qed
qed

text \<open>
  Only \<open>exit\<close> ends the loop: when the input ends without it, the program does not return, whatever the statements do, unless
  one of them crashes.
\<close>

theorem repl_needs_exit:
  assumes "''exit'' \<notin> set typed"
  shows "repl penv env vars typed s \<noteq> Some (Inr s')"
  using repl_no_return assms by blast

section \<open>A text with errors\<close>

text \<open>A token that no expression begins with, alone.\<close>

lemma lone_token_error:
  assumes "begins p [t, eof]" "map_of m_prefix_parse_fns (tok_type t) = None" "tok_type t \<noteq> TOKEN_EOF"
  shows "\<exists>p'. parse_program env p = Some (Inr ([], p')) \<and> ps_errors p' \<noteq> []"
proof -
  let ?q = "no_prefix_parse_fn_error (tok_type t) p"
  have c: "ps_curr p = t" "ps_curr (p_next_token p) = eof" using assms(1) by simp_all
  have e: "parse_expression env LOWEST p = gives None ?q" using assms(2) c(1) by (simp add: parse_expression_def parse.simps)
  then have s: "parse_statement env p = gives None ?q" by (simp add: parse_statement_def pbind_def)
  have n: "ps_curr (p_next_token ?q) = eof" "ps_errors (p_next_token ?q) \<noteq> []"
    using c(2) by (auto simp: p_next_token_def no_prefix_parse_fn_error_def Let_def split: prod.splits)
  have "parse_statements env [] (p_next_token ?q) = gives [] (p_next_token ?q)"
    using n(1) by (subst parse_statements.simps) (simp add: curr_token_is_def eof_def)
  then have "parse_statements env [] p = gives [] (p_next_token ?q)"
    using s c(1) assms(3) by (subst parse_statements.simps) (simp add: curr_token_is_def pbind_def)
  then show ?thesis using n(2) by (simp add: parse_program_def)
qed

lemma repl_pro_stuck:
  "repl_pro penv env vars rnd run line count typed s = Some r \<Longrightarrow>
   \<not> run \<longrightarrow> (\<forall>prog p. parse_program penv (mk_parser (mk_lexer line)) = Some (Inr (prog, p)) \<longrightarrow> ps_errors p = [])"
proof (induction rule: repl_pro.raw_induct [rotated, consumes 1])
  case (1 rep penv env vars rnd run line count typed s r)
  show ?case
  proof (intro impI allI, rule ccontr)
    fix prog p
    assume a: "\<not> run" "parse_program penv (mk_parser (mk_lexer line)) = Some (Inr (prog, p))" "ps_errors p \<noteq> []"
    then have "rep penv env vars rnd False line count typed s = Some r" using 1(2) by simp
    then show False using 1(1) a(2,3) by blast
  qed
qed

text \<open>
  The program with test data hangs on the first text that does not parse: after it nothing that is typed is read any more, and the program
  does not return.
\<close>

theorem error_hangs_repl_pro:
  assumes "begins (mk_parser (mk_lexer line)) [t, eof]" "map_of m_prefix_parse_fns (tok_type t) = None" "tok_type t \<noteq> TOKEN_EOF"
  shows "repl_pro penv env vars rnd False line count typed s = None"
proof (cases "repl_pro penv env vars rnd False line count typed s")
  case (Some r)
  obtain p where "parse_program penv (mk_parser (mk_lexer line)) = Some (Inr ([], p))" "ps_errors p \<noteq> []"
    using lone_token_error [OF assms] by blast
  then show ?thesis using repl_pro_stuck [OF Some] by blast
qed

text \<open>The plain loop goes on with the next line.\<close>

theorem error_skipped_by_repl:
  assumes "begins (mk_parser (mk_lexer line)) [t, eof]" "map_of m_prefix_parse_fns (tok_type t) = None" "tok_type t \<noteq> TOKEN_EOF" "line \<noteq> ''exit''"
  shows "repl penv env vars (line # typed) s = repl penv env vars typed s"
proof -
  obtain p where "parse_program penv (mk_parser (mk_lexer line)) = Some (Inr ([], p))" "ps_errors p \<noteq> []"
    using lone_token_error [OF assms(1-3)] by blast
  then show ?thesis using assms(4) by (subst repl.simps) (simp add: run_sql_def)
qed

lemma bracket_tokens: "spec_tokens 2 '')'' = [mk_token TOKEN_RPAREN '')'', eof]"
  by code_simp

theorem error_hangs_repl_pro_witness:
  "repl_pro demo_parse_env demo_eval_env [] (\<lambda>n. n) False '')'' 3 [''exit''] s = None"
  by (rule error_hangs_repl_pro [of "'')''" "mk_token TOKEN_RPAREN '')''"])
    (simp_all only: begins_text list.size bracket_tokens numeral_2_eq_2 [symmetric] One_nat_def add_Suc_right add_0_right, simp_all add: m_prefix_parse_fns_def)

end
