(* ===== verification/Spec2Isabelle.thy ===== *)
theory Spec2Isabelle
  imports Flush_And_Query Parser_Returns Controller_Inserts Executor_Properties Json_Properties
    Timer_Properties Server_Properties Client_Program Config_Properties Block_Json Point_Filter Worker_Pool Repl
begin

text \<open>
  DTimeDB, a time series database in C++. Paths are below \<open>src/\<close>.

  \<^bold>\<open>The program.\<close> A statement goes through lexer, parser and evaluator, which makes a plan; the executor runs the plan on one of two
  engines. The TSM engine keeps the points of a field in a window ordered by time, cuts full or idle windows into data blocks, writes the blocks to
  one file per shard (a span of time) from the front and their index from the back, and answers queries from these files; its
  work is done by two thread pools, and a monitor looks every second for windows, blocks and indexes that are due. Beside it stand a server and
  a client, an event loop with sockets, timers and buffers, that carry messages. No code joins the server to the SQL side yet.

  \<^bold>\<open>Conventions.\<close> The state of a class is a record, its operations are functions that return the new state. Undefined behaviour,
  exceptions and failed assertions are errors of the type \<open>cpp_error\<close>, values of \<open>'a result\<close> (theory Prelude); the result says at which
  access the program left its definition. Integers have the width they have in the code. A loop that may run for ever is a partial
  function, whose value is then \<open>None\<close>. Shared objects that the code mutates (the nodes of the skip list, the streams of a file, the writers
  of the controller, the connections of a server) live in stores or maps of the state.

  \<^bold>\<open>The storage engine.\<close>
  \<^item> Prelude, Ordered_Map: results, bytes and words, maps with an order as \<open>std::map\<close> has it.
  \<^item> Tsm_Codec: data blocks, differences of timestamps and length-prefixed strings (\<open>engine/tsm/tsm_ingredient.*\<close>, \<open>engine/tsm/tsm.cpp\<close>). Both section
    codecs interpret the locale \<open>section_codec\<close>.
  \<^item> File_Io_Manager, File_Path_Manager: the cache of streams with its limit and order of use, over a model of the disk and of \<open>std::fstream\<close>; the
    directories, tables and system files (\<open>file_manager/*\<close>).
  \<^item> Tsm_File: the file format, every operation of the class TSM, and the loader of the index (\<open>engine/tsm/tsm.cpp\<close>, \<open>iterator.cpp\<close>).
  \<^item> Skip_List: the pointer structure in a heap of nodes (\<open>engine/tsm/skip_list.h\<close>); the locale \<open>time_window\<close> is what a field needs of it.
  \<^item> Observers: the maps through which writers tell the monitor what may be due (\<open>field_state.*\<close>, \<open>table_state.*\<close>, \<open>shard_state.*\<close>). The locale
    \<open>registry\<close> is interpreted three times, once for each kind of entry.
  \<^item> Field, Write_Flush: windows, flushing, queues, the choice and creation of files (\<open>field.*\<close>, \<open>write.*\<close>). Write_Safety holds the invariant of the
    flush, Write_Properties the results.
  \<^item> Inverted_Index, Iterators, Query: series by tag, the iterators from root to series, conditions and their evaluation (\<open>index.*\<close>, \<open>iterator.*\<close>,
    \<open>engine/impl/itsm.h\<close>, and the query part of \<open>controller.cpp\<close>). Iterator_Views gives the abstract view that Query_Properties works on. Point_Filter
    is the filter of data points that is not called (\<open>data_point.*\<close>). Flush_And_Query follows a block from the queue of the writer to the
    rows of a query.
  \<^item> Controller: all operations and tasks of \<open>engine/tsm/controller.cpp\<close> with the rounds of the monitor, as the step relation \<open>ctl_step\<close>;
    Controller_Properties, Controller_Inserts.
  \<^item> Worker_Pool: \<open>thread_manager/thread_pool.h\<close>, one step for every section between two acquisitions of its mutex, and what follows for
    every interleaving of callers and workers. The controller takes a pool for the queue of its tasks.

  \<^bold>\<open>The SQL front end.\<close>
  \<^item> Token, Lexer, Parser: \<open>token/*\<close>, \<open>lexer/*\<close>, \<open>ast/*\<close>, \<open>parser/*\<close>; Parser_Properties, Parser_Returns.
  \<^item> Json, Json_Properties: \<open>json/*\<close>. Ast_Json, Block_Json: the \<open>json\<close> methods of the syntax tree and of the data blocks.
  \<^item> Table_Engines, Evaluator, Executor: \<open>file_manager/table_engine_map.*\<close>, \<open>evaluator/*\<close>, \<open>execution_plan/*\<close>, \<open>executor/*\<close>,
    \<open>engine/circularList/*\<close>; Executor_Properties. Repl: the programs \<open>eval_repl.cpp\<close> and \<open>eval_repl_pro.cpp\<close>.

  \<^bold>\<open>Server and client\<close> (\<open>server/src/*\<close>, \<open>server/include/*\<close>).
  \<^item> Timer_Queue, Event_Loop, Io_Buffer, Tcp_Conn, Tcp_Server, Tcp_Client: one theory for each file, the queues and the pool of threads with the event
    loop. Config_Reader: the configuration file.
  \<^item> Timer_Properties, Tcp_Properties, Server_Properties, Client_Properties, Config_Properties: the results.
  \<^item> Server_Program, Client_Program: \<open>server.cpp\<close> and \<open>client.cpp\<close>.

  \<^bold>\<open>What the theorems show.\<close>
  \<^item> Round trips: from a flushed block to the rows of a query; data blocks, series indexes, flushed shards, tables of the manager, shards after a restart, select statements, insert statements and
    expressions, JSON, configurations, messages of a connection.
  \<^item> Refinement: the lexer implements a tokenizer on the remaining input, the skip list a map sorted by time that keeps the first value, the timer
    heap with its index a map from ids to events, the query of tags the intersection of the sets of series, the flush a file in which every block is
    found through its index.
  \<^item> Invariants by rule induction: the stream cache, the flush, the controller (a writer carries the names of its slot), the thread pool (what
    was started, runs or waits is what was enqueued, in order).
  \<^item> Liveness and termination: the pool comes to rest with every task run, an idle window is flushed, the parser and the JSON parser return.
  \<^item> Errors: what the code loses or damages, each with the input on which it does. Where such a theorem and the intention of the code differ, the
    text in front of it says how.

  \<^bold>\<open>Bounds, fuel and partiality.\<close> No function has a bound of its own invention. Partial functions are the loops of the parser (\<open>select_fields\<close> does not
  end on some texts), of the JSON parser, of the skip list, of reading strings and messages, and the two interactive programs. Parser_Returns
  and Json_Properties show that parsing returns, Skip_List that its loops do on every valid list. Loops that ask the kernel (\<open>write_loop\<close>,
  \<open>accept_loop\<close>) recurse over the list of its answers. \<open>effort\<close> (Worker_Pool) bounds the steps that a pool makes without a new task. Sizes
  of blocks, files, buffers and messages and the limit of streams are those of the code. The ids of timers and the positions in a JSON
  text are natural numbers, where the code counts with \<open>int\<close>: they agree below \<open>2 ^ 31\<close> timers or characters.

  \<^bold>\<open>Parameters.\<close> Snappy, the clock and \<open>localtime\<close>, \<open>get_time\<close> and \<open>mktime\<close>, floating point numbers with their text and conversions, the
  protobuf text of a shard, the order of hash maps, \<open>rand\<close>, what memory and members hold before they are initialised, the answers of the kernel to
  \<open>ioctl\<close>, \<open>read\<close>, \<open>write\<close>, \<open>accept\<close>, \<open>connect\<close>, \<open>socket\<close>, \<open>bind\<close>, \<open>listen\<close>, \<open>inet_aton\<close> and \<open>epoll_wait\<close>, and message callbacks, where they are not
  those of the two programs. What is required of them is a hypothesis of the theorem that needs it, for instance that decompressing undoes
  compressing.

  \<^bold>\<open>Not modelled.\<close> The code that protoc generates. Stubs without a body: the write-ahead log, pages and lists of the circular list engine,
  \<open>FieldIterator::aggregate\<close>. Abstract interfaces. Unused declarations (\<open>execution_plan/node_.h\<close>, most of \<open>tsi_ingredient.h\<close>). The test programs and
  generators of random data. Logging, console output, socket options, signals and destructors that only give resources back. Locks: tasks of the
  engine run as wholes, in any order, and what two of them could do to each other in the middle is not modelled; the thread pool itself is modelled
  between the acquisitions of its mutex.
\<close>

end
